(* ===== verification/Apx_Prelude.thy ===== *)
theory Apx_Prelude
  imports Complex_Main "HOL-Library.AList" "HOL-Library.Char_ord" "HOL-Library.List_Lexorder"
    "HOL-Library.Multiset"
begin

text \<open>
  Shared vocabulary of the development.

  \<^item> Python's \<open>dict\<close> keeps insertion order: a store to an existing key replaces the value in
    place, a store to a new key appends.  This is exactly \<open>AList.update\<close> on association lists,
    so a dict is an association list with distinct keys (\<open>dict_wf\<close>), read with \<open>map_of\<close>.
  \<^item> Python slices with an \<open>int\<close> bound (\<open>xs[:n]\<close>), the stable \<open>sort\<close> with \<open>reverse=True\<close>,
    and \<open>max\<close>/\<open>min\<close> with a \<open>key\<close>, which return the first extremal element.
  \<^item> Floats are the real numbers: rounding, infinities and NaN are outside the model.
  \<^item> Strings are HOL strings, compared lexicographically as Python compares them.
\<close>

subsection \<open>Types\<close>

type_synonym pyfloat = real
type_synonym 'v dict = "(string \<times> 'v) list"

named_theorems dict_simps \<open>reading, writing and deleting keys of ordered dicts\<close>

subsection \<open>Ordered dicts\<close>

abbreviation dget :: "('k \<times> 'v) list \<Rightarrow> 'k \<Rightarrow> 'v option" where
  "dget d k \<equiv> map_of d k"

abbreviation dset :: "'k \<Rightarrow> 'v \<Rightarrow> ('k \<times> 'v) list \<Rightarrow> ('k \<times> 'v) list" where
  "dset k v d \<equiv> AList.update k v d"

abbreviation ddel :: "'k \<Rightarrow> ('k \<times> 'v) list \<Rightarrow> ('k \<times> 'v) list" where
  "ddel k d \<equiv> AList.delete k d"

definition dict_wf :: "('k \<times> 'v) list \<Rightarrow> bool" where
  "dict_wf d \<longleftrightarrow> distinct (map fst d)"

lemma dict_wf_Nil [simp]: "dict_wf []"
  by (simp add: dict_wf_def)

lemma dict_wf_dset [simp, intro]: "dict_wf d \<Longrightarrow> dict_wf (dset k v d)"
  by (simp add: dict_wf_def AList.distinct_update)

lemma dict_wf_ddel [simp, intro]: "dict_wf d \<Longrightarrow> dict_wf (ddel k d)"
  by (simp add: dict_wf_def AList.distinct_delete)

lemma dict_wf_filter: "dict_wf d \<Longrightarrow> dict_wf (filter P d)"
  by (induction d) (auto simp: dict_wf_def)

lemma dget_dset [dict_simps]: "dget (dset k v d) k' = (if k' = k then Some v else dget d k')"
  by (simp add: AList.update_conv')

lemma dget_ddel [dict_simps]: "dget (ddel k d) k' = (if k' = k then None else dget d k')"
  by (simp add: AList.delete_conv')

lemma keys_dset [dict_simps]: "fst ` set (dset k v d) = insert k (fst ` set d)"
  by (simp add: AList.dom_update)

lemma keys_ddel [dict_simps]: "fst ` set (ddel k d) = fst ` set d - {k}"
  by (metis AList.delete_keys list.set_map set_removeAll)

lemma dset_new: "dget d k = None \<Longrightarrow> dset k v d = d @ [(k, v)]"
  by (induction d) (auto split: if_splits)

lemma dset_same: "dget d k = Some v \<Longrightarrow> dset k v d = d"
  by (induction d) (auto split: if_splits)

lemma dset_keys_present: "k \<in> fst ` set d \<Longrightarrow> map fst (dset k v d) = map fst d"
  by (simp add: AList.update_keys)

lemma length_dset: "length (dset k v d) = (if k \<in> fst ` set d then length d else Suc (length d))"
  by (induction d) auto

lemma dget_Some_in_set: "dget d k = Some v \<Longrightarrow> (k, v) \<in> set d"
  by (rule map_of_SomeD)

lemma dget_in_set_iff: "dict_wf d \<Longrightarrow> (dget d k = Some v) = ((k, v) \<in> set d)"
  by (simp add: dict_wf_def)

lemma dget_None_iff: "(dget d k = None) = (k \<notin> fst ` set d)"
  by (rule map_of_eq_None_iff)

lemma set_ddel: "set (ddel k d) = {p \<in> set d. fst p \<noteq> k}"
  by (auto simp: AList.delete_eq)

lemma set_dset: "dict_wf d \<Longrightarrow> set (dset k v d) = insert (k, v) {p \<in> set d. fst p \<noteq> k}"
proof (induction d)
  case (Cons p d)
  show ?case
  proof (cases "fst p = k")
    case True
    with Cons.prems have "k \<notin> fst ` set d" by (simp add: dict_wf_def)
    then have "\<forall>q \<in> set d. fst q \<noteq> k" by auto
    with True show ?thesis by (cases p) auto
  next
    case False
    with Cons show ?thesis by (cases p) (auto simp: dict_wf_def)
  qed
qed simp

subsection \<open>Slices and extremal elements\<close>

text \<open>\<open>xs[:n]\<close>: a negative bound counts from the end.\<close>

definition py_take :: "int \<Rightarrow> 'a list \<Rightarrow> 'a list" where
  "py_take n xs = (if n \<ge> 0 then take (nat n) xs else take (length xs - nat (- n)) xs)"

text \<open>\<open>xs[-n:]\<close> for a positive literal \<open>n\<close>.\<close>

definition py_last :: "nat \<Rightarrow> 'a list \<Rightarrow> 'a list" where
  "py_last n xs = drop (length xs - n) xs"

lemma set_py_take: "set (py_take n xs) \<subseteq> set xs"
  by (simp add: py_take_def set_take_subset)

lemma length_py_take: "n \<ge> 0 \<Longrightarrow> length (py_take n xs) = min (nat n) (length xs)"
  by (simp add: py_take_def)

lemma py_take_all: "int (length xs) \<le> n \<Longrightarrow> py_take n xs = xs"
  by (simp add: py_take_def)

lemma length_py_last: "length (py_last n xs) = min n (length xs)"
  by (simp add: py_last_def)

text \<open>\<open>max(xs, key=f)\<close> and \<open>min(xs, key=f)\<close> on a nonempty list: the first extremal element wins.\<close>

fun py_max_by :: "('a \<Rightarrow> 'b::linorder) \<Rightarrow> 'a \<Rightarrow> 'a list \<Rightarrow> 'a" where
  "py_max_by f best [] = best"
| "py_max_by f best (x # xs) = py_max_by f (if f best < f x then x else best) xs"

fun py_min_by :: "('a \<Rightarrow> 'b::linorder) \<Rightarrow> 'a \<Rightarrow> 'a list \<Rightarrow> 'a" where
  "py_min_by f best [] = best"
| "py_min_by f best (x # xs) = py_min_by f (if f x < f best then x else best) xs"

lemma py_max_by_in: "py_max_by f b xs \<in> insert b (set xs)"
proof (induction xs arbitrary: b)
  case (Cons x xs)
  show ?case using Cons.IH [of "if f b < f x then x else b"] by (auto split: if_splits)
qed simp

lemma py_max_by_ge: "y \<in> insert b (set xs) \<Longrightarrow> f y \<le> f (py_max_by f b xs)"
proof (induction xs arbitrary: b y)
  case Nil
  then show ?case by simp
next
  case (Cons x xs)
  let ?b = "if f b < f x then x else b"
  have b: "f ?b \<le> f (py_max_by f ?b xs)" using Cons.IH [of ?b ?b] by blast
  show ?case
  proof (cases "y \<in> set xs")
    case True
    then show ?thesis using Cons.IH [of y ?b] by simp
  next
    case False
    with Cons.prems have "y = b \<or> y = x" by auto
    then have "f y \<le> f ?b" by (auto simp: not_less)
    with b have "f y \<le> f (py_max_by f ?b xs)" by (rule order_trans [rotated])
    then show ?thesis by simp
  qed
qed

lemma py_min_by_in: "py_min_by f b xs \<in> insert b (set xs)"
proof (induction xs arbitrary: b)
  case (Cons x xs)
  show ?case using Cons.IH [of "if f x < f b then x else b"] by (auto split: if_splits)
qed simp

lemma py_min_by_le: "y \<in> insert b (set xs) \<Longrightarrow> f (py_min_by f b xs) \<le> f y"
proof (induction xs arbitrary: b y)
  case Nil
  then show ?case by simp
next
  case (Cons x xs)
  let ?b = "if f x < f b then x else b"
  have b: "f (py_min_by f ?b xs) \<le> f ?b" using Cons.IH [of ?b ?b] by blast
  show ?case
  proof (cases "y \<in> set xs")
    case True
    then show ?thesis using Cons.IH [of y ?b] by simp
  next
    case False
    with Cons.prems have "y = b \<or> y = x" by auto
    then have "f ?b \<le> f y" by (auto simp: not_less)
    with b have "f (py_min_by f ?b xs) \<le> f y" by (rule order_trans)
    then show ?thesis by simp
  qed
qed

text \<open>\<open>max(xs, default=d)\<close> over numbers.\<close>

definition py_max_default :: "'a::linorder \<Rightarrow> 'a list \<Rightarrow> 'a" where
  "py_max_default d xs = (case xs of [] \<Rightarrow> d | x # ys \<Rightarrow> py_max_by (\<lambda>v. v) x ys)"

lemma py_max_default_ge: "x \<in> set xs \<Longrightarrow> x \<le> py_max_default d xs"
  using py_max_by_ge [of x _ _ "\<lambda>v. v"] by (cases xs) (auto simp: py_max_default_def)

lemma py_max_default_in: "xs \<noteq> [] \<Longrightarrow> py_max_default d xs \<in> set xs"
  using py_max_by_in [of "\<lambda>v. v"] by (cases xs) (auto simp: py_max_default_def)

subsection \<open>Stable sorting\<close>

text \<open>
  \<open>sort(key=f)\<close> is \<open>sort_key f\<close>; \<open>sort(key=f, reverse=True)\<close> keeps equal elements in their
  original order, which is reversing, sorting and reversing again.
\<close>

definition sort_desc :: "('a \<Rightarrow> 'b::linorder) \<Rightarrow> 'a list \<Rightarrow> 'a list" where
  "sort_desc f xs = rev (sort_key f (rev xs))"

lemma mset_sort_desc [simp]: "mset (sort_desc f xs) = mset xs"
  by (simp add: sort_desc_def)

lemma set_sort_desc [simp]: "set (sort_desc f xs) = set xs"
  by (simp add: sort_desc_def)

lemma length_sort_desc [simp]: "length (sort_desc f xs) = length xs"
  by (simp add: sort_desc_def)

lemma distinct_sort_desc [simp]: "distinct (map g (sort_desc f xs)) = distinct (map g xs)"
proof -
  have "mset (map g (sort_desc f xs)) = mset (map g xs)" by simp
  then show ?thesis by (metis mset_eq_imp_distinct_iff)
qed

lemma sorted_sort_desc: "sorted_wrt (\<lambda>x y. f y \<le> f x) (sort_desc f xs)"
proof -
  have "sorted_wrt (\<lambda>x y. f x \<le> f y) (sort_key f (rev xs))"
    using sorted_sort_key [of f "rev xs"] by (simp add: sorted_map)
  then show ?thesis by (simp add: sort_desc_def sorted_wrt_rev)
qed

lemma stable_sort_desc: "filter (\<lambda>y. f y = k) (sort_desc f xs) = filter (\<lambda>y. f y = k) xs"
  by (simp add: sort_desc_def rev_filter [symmetric] sort_key_stable)

text \<open>The elements a sorted prefix drops are never above the ones it keeps.\<close>

lemma sorted_wrt_take_drop:
  assumes "sorted_wrt P xs" and "x \<in> set (take n xs)" and "y \<in> set (drop n xs)"
  shows "P x y"
proof -
  have "sorted_wrt P (take n xs @ drop n xs)" using assms(1) by simp
  then show ?thesis using assms(2,3) unfolding sorted_wrt_append by blast
qed

subsection \<open>First index of a match\<close>

text \<open>\<open>next((i for i, x in enumerate(xs) if p(x)), None)\<close>.\<close>

fun first_index :: "('a \<Rightarrow> bool) \<Rightarrow> 'a list \<Rightarrow> nat option" where
  "first_index p [] = None"
| "first_index p (x # xs) = (if p x then Some 0 else map_option Suc (first_index p xs))"

lemma first_index_None: "(first_index p xs = None) = (\<forall>x \<in> set xs. \<not> p x)"
  by (induction xs) auto

lemma first_index_Some:
  "first_index p xs = Some i \<Longrightarrow> i < length xs \<and> p (xs ! i) \<and> (\<forall>j < i. \<not> p (xs ! j))"
  by (induction xs arbitrary: i) (auto split: if_splits simp: nth_Cons split: nat.splits)

lemma first_index_append_notin:
  "\<forall>x \<in> set xs. \<not> p x \<Longrightarrow> first_index p (xs @ ys) = map_option ((+) (length xs)) (first_index p ys)"
  by (cases "first_index p ys"; induction xs) auto

subsection \<open>Characters\<close>

text \<open>ASCII case folding, as \<open>str.lower\<close> and \<open>str.upper\<close> act on ASCII text.\<close>

definition lower_char :: "char \<Rightarrow> char" where
  "lower_char c = (let n = of_char c :: nat in if 65 \<le> n \<and> n \<le> 90 then char_of (n + 32) else c)"

definition upper_char :: "char \<Rightarrow> char" where
  "upper_char c = (let n = of_char c :: nat in if 97 \<le> n \<and> n \<le> 122 then char_of (n - 32) else c)"

definition lower :: "string \<Rightarrow> string" where
  "lower s = map lower_char s"

definition upper :: "string \<Rightarrow> string" where
  "upper s = map upper_char s"

definition is_space :: "char \<Rightarrow> bool" where
  "is_space c \<longleftrightarrow> c \<in> {CHR 0x20, CHR 0x09, CHR 0x0A, CHR 0x0B, CHR 0x0C, CHR 0x0D,
      CHR 0x1C, CHR 0x1D, CHR 0x1E, CHR 0x1F}"

definition strip_by :: "(char \<Rightarrow> bool) \<Rightarrow> string \<Rightarrow> string" where
  "strip_by p s = rev (dropWhile p (rev (dropWhile p s)))"

definition strip :: "string \<Rightarrow> string" where
  "strip s = strip_by is_space s"

lemma lower_char_idem [simp]: "lower_char (lower_char c) = lower_char c"
proof (cases "65 \<le> (of_char c :: nat) \<and> (of_char c :: nat) \<le> 90")
  case True
  then have "(of_char (char_of ((of_char c :: nat) + 32) :: char) :: nat) = of_char c + 32"
    by simp
  with True show ?thesis by (simp add: lower_char_def)
next
  case False
  then show ?thesis by (auto simp: lower_char_def)
qed

lemma lower_idem [simp]: "lower (lower s) = lower s"
  by (simp add: lower_def comp_def)

lemma set_strip_by: "set (strip_by p s) \<subseteq> set s"
proof -
  have "set (strip_by p s) \<subseteq> set (dropWhile p s)"
    unfolding strip_by_def using set_dropWhileD [of _ p "rev (dropWhile p s)"] by (metis set_rev subsetI)
  also have "\<dots> \<subseteq> set s" using set_dropWhileD [of _ p s] by blast
  finally show ?thesis .
qed

lemma hd_strip_by: "strip_by p s \<noteq> [] \<Longrightarrow> \<not> p (last (strip_by p s)) \<and> \<not> p (hd (strip_by p s))"
proof -
  let ?t = "dropWhile p s"
  assume ne: "strip_by p s \<noteq> []"
  then have r: "dropWhile p (rev ?t) \<noteq> []" by (simp add: strip_by_def)
  then have "\<not> p (hd (dropWhile p (rev ?t)))" by (rule hd_dropWhile)
  with r have l: "\<not> p (last (strip_by p s))" by (simp add: strip_by_def last_rev)
  have t: "?t \<noteq> []"
  proof
    assume "?t = []"
    with r show False by simp
  qed
  have "rev ?t = takeWhile p (rev ?t) @ dropWhile p (rev ?t)" by simp
  then have "?t = strip_by p s @ rev (takeWhile p (rev ?t))"
    by (metis rev_append rev_rev_ident strip_by_def)
  with ne have "hd ?t = hd (strip_by p s)" by (metis hd_append)
  moreover have "\<not> p (hd ?t)" using t by (rule hd_dropWhile)
  ultimately show ?thesis using l by simp
qed

lemma strip_by_id: "s = [] \<or> (\<not> p (hd s) \<and> \<not> p (last s)) \<Longrightarrow> strip_by p s = s"
proof (cases "s = []")
  case False
  moreover assume "s = [] \<or> (\<not> p (hd s) \<and> \<not> p (last s))"
  ultimately have h: "\<not> p (hd s)" and l: "\<not> p (last s)" by auto
  from h False have "dropWhile p s = s" by (cases s) auto
  moreover from l False have "dropWhile p (rev s) = rev s"
    by (cases s rule: rev_cases) auto
  ultimately show ?thesis by (simp add: strip_by_def)
qed (simp add: strip_by_def)

lemma strip_by_idem [simp]: "strip_by p (strip_by p s) = strip_by p s"
  by (rule strip_by_id) (use hd_strip_by [of p s] in auto)

text \<open>\<open>str.startswith\<close> and dropping a known prefix.\<close>

definition starts_with :: "string \<Rightarrow> string \<Rightarrow> bool" where
  "starts_with p s \<longleftrightarrow> take (length p) s = p"

lemma starts_with_append [simp]: "starts_with p (p @ s)"
  by (simp add: starts_with_def)

lemma starts_with_split: "starts_with p s \<Longrightarrow> s = p @ drop (length p) s"
  by (metis append_take_drop_id starts_with_def)

lemma starts_with_Nil [simp]: "starts_with [] s"
  by (simp add: starts_with_def)

subsection \<open>JSON-like values\<close>

text \<open>Values whose Python type the code inspects at run time (\<open>isinstance\<close>, truthiness).\<close>

datatype pyval =
    PNone
  | PBool bool
  | PInt int
  | PFloat pyfloat
  | PStr string
  | PList "pyval list"
  | PDict "(string \<times> pyval) list"

fun truthy :: "pyval \<Rightarrow> bool" where
  "truthy PNone = False"
| "truthy (PBool b) = b"
| "truthy (PInt n) = (n \<noteq> 0)"
| "truthy (PFloat x) = (x \<noteq> 0)"
| "truthy (PStr s) = (s \<noteq> [])"
| "truthy (PList xs) = (xs \<noteq> [])"
| "truthy (PDict d) = (d \<noteq> [])"

text \<open>\<open>d.get(key)\<close>: a missing key reads as \<open>None\<close>.\<close>

definition pget :: "(string \<times> pyval) list \<Rightarrow> string \<Rightarrow> pyval" where
  "pget d k = (case dget d k of None \<Rightarrow> PNone | Some v \<Rightarrow> v)"

text \<open>\<open>a or b\<close>.\<close>

definition py_or :: "pyval \<Rightarrow> pyval \<Rightarrow> pyval" where
  "py_or a b = (if truthy a then a else b)"

subsection \<open>Merging dicts\<close>

text \<open>\<open>d.update(e)\<close>.\<close>

definition dict_update :: "('k \<times> 'v) list \<Rightarrow> ('k \<times> 'v) list \<Rightarrow> ('k \<times> 'v) list" where
  "dict_update d e = fold (\<lambda>(k, v). dset k v) e d"

lemma dict_update_Nil [simp]: "dict_update d [] = d"
  by (simp add: dict_update_def)

lemma dict_update_Cons: "dict_update d ((k, v) # e) = dict_update (dset k v d) e"
  by (simp add: dict_update_def)

lemma dict_wf_dict_update [simp]: "dict_wf d \<Longrightarrow> dict_wf (dict_update d e)"
  by (induction e arbitrary: d) (auto simp: dict_update_Cons)

lemma dget_dict_update:
  "dict_wf e \<Longrightarrow> dget (dict_update d e) k = (case dget e k of None \<Rightarrow> dget d k | Some v \<Rightarrow> Some v)"
proof (induction e arbitrary: d)
  case Nil
  then show ?case by simp
next
  case (Cons p e)
  obtain a b where p: "p = (a, b)" by (cases p)
  with Cons.prems have "dict_wf e" and "dget e a = None" by (auto simp: dict_wf_def dget_None_iff)
  with Cons.IH show ?case by (auto simp: p dict_update_Cons dict_simps split: option.splits)
qed

subsection \<open>Splitting and quoting text\<close>

text \<open>\<open>str.splitlines\<close> up to the empty pieces, which every caller here drops.\<close>

definition is_line_break :: "char \<Rightarrow> bool" where
  "is_line_break c \<longleftrightarrow> c \<in> {CHR 0x0A, CHR 0x0B, CHR 0x0C, CHR 0x0D, CHR 0x1C, CHR 0x1D, CHR 0x1E, CHR 0x85}"

fun split_on :: "(char \<Rightarrow> bool) \<Rightarrow> string \<Rightarrow> string list" where
  "split_on p [] = [[]]"
| "split_on p (c # s) =
     (if p c then [] # split_on p s
      else (case split_on p s of [] \<Rightarrow> [[c]] | w # ws \<Rightarrow> (c # w) # ws))"

lemma split_on_nonempty [simp]: "split_on p s \<noteq> []"
  by (induction s) (auto split: list.splits)

lemma split_on_no_sep: "w \<in> set (split_on p s) \<Longrightarrow> c \<in> set w \<Longrightarrow> \<not> p c"
proof (induction s arbitrary: w)
  case (Cons a s)
  obtain v vs where s: "split_on p s = v # vs" by (cases "split_on p s") auto
  have IH: "u \<in> set (v # vs) \<Longrightarrow> c \<in> set u \<Longrightarrow> \<not> p c" for u using Cons.IH s by simp
  from Cons.prems s IH [of v] IH [of w] show ?case by (auto split: if_splits)
qed simp

text \<open>\<open>repr\<close> of a string.\<close>

definition hex_digit :: "nat \<Rightarrow> char" where
  "hex_digit n = ''0123456789abcdef'' ! (n mod 16)"

definition repr_char :: "char \<Rightarrow> char \<Rightarrow> string" where
  "repr_char q c =
     (let n = of_char c :: nat in
      if c = q \<or> c = CHR 0x5C then [CHR 0x5C, c]
      else if n = 10 then [CHR 0x5C, CHR ''n'']
      else if n = 13 then [CHR 0x5C, CHR ''r'']
      else if n = 9 then [CHR 0x5C, CHR ''t'']
      else if 32 \<le> n \<and> n < 127 \<or> 160 < n \<and> n \<noteq> 173 then [c]
      else [CHR 0x5C, CHR ''x'', hex_digit (n div 16), hex_digit n])"

definition py_repr :: "string \<Rightarrow> string" where
  "py_repr s =
     (let q = (if CHR 0x27 \<in> set s \<and> CHR 0x22 \<notin> set s then CHR 0x22 else CHR 0x27)
      in [q] @ concat (map (repr_char q) s) @ [q])"

subsection \<open>Decimal numerals\<close>

text \<open>\<open>str(n)\<close> for an \<open>int\<close>.\<close>

fun show_nat :: "nat \<Rightarrow> string" where
  "show_nat n = (if n < 10 then [char_of (48 + n)] else show_nat (n div 10) @ [char_of (48 + n mod 10)])"

declare show_nat.simps [simp del]

definition show_int :: "int \<Rightarrow> string" where
  "show_int i = (if i < 0 then ''-'' @ show_nat (nat (- i)) else show_nat (nat i))"

subsection \<open>Moving a key to the end\<close>

text \<open>\<open>OrderedDict.move_to_end(key)\<close>.\<close>

definition move_to_end :: "'k \<Rightarrow> ('k \<times> 'v) list \<Rightarrow> ('k \<times> 'v) list" where
  "move_to_end k d = (case dget d k of None \<Rightarrow> d | Some v \<Rightarrow> ddel k d @ [(k, v)])"

lemma ddel_dset [simp]: "ddel k (dset k v d) = ddel k d"
  by (induction d) auto

lemma move_to_end_dset: "move_to_end k (dset k v d) = ddel k d @ [(k, v)]"
  by (simp add: move_to_end_def dict_simps)

subsection \<open>Words and substrings\<close>

text \<open>\<open>s.split()\<close>, \<open>sep.join(parts)\<close>, \<open>sub in s\<close>, \<open>s.rstrip()\<close>.\<close>

definition words :: "string \<Rightarrow> string list" where
  "words s = filter (\<lambda>w. w \<noteq> []) (split_on is_space s)"

fun join :: "string \<Rightarrow> string list \<Rightarrow> string" where
  "join sep [] = []"
| "join sep [x] = x"
| "join sep (x # y # ys) = x @ sep @ join sep (y # ys)"

fun str_contains :: "string \<Rightarrow> string \<Rightarrow> bool" where
  "str_contains q [] = (q = [])"
| "str_contains q (c # s) = (starts_with q (c # s) \<or> str_contains q s)"

definition rstrip :: "string \<Rightarrow> string" where
  "rstrip s = rev (dropWhile is_space (rev s))"

lemma str_contains_iff: "str_contains q s \<longleftrightarrow> (\<exists>pre post. s = pre @ q @ post)"
proof (induction s)
  case (Cons c s)
  have "starts_with q (c # s) \<longleftrightarrow> (\<exists>post. c # s = q @ post)"
    by (metis starts_with_append starts_with_split)
  then show ?case using Cons by (auto simp: Cons_eq_append_conv)
qed simp

lemma words_nonempty: "w \<in> set (words s) \<Longrightarrow> w \<noteq> [] \<and> (\<forall>c \<in> set w. \<not> is_space c)"
  by (auto simp: words_def dest: split_on_no_sep)

text \<open>\<open>repr\<close> of a list of strings.\<close>

definition repr_list :: "string list \<Rightarrow> string" where
  "repr_list xs = ''['' @ join '', '' (map py_repr xs) @ '']''"

subsection \<open>Results\<close>

text \<open>A computation that may raise gives \<open>Inl\<close> of the exception; the first exception ends a sequence of them.\<close>

definition bind_result :: "'e + 'a \<Rightarrow> ('a \<Rightarrow> 'e + 'b) \<Rightarrow> 'e + 'b" where
  "bind_result r k = (case r of Inl x \<Rightarrow> Inl x | Inr y \<Rightarrow> k y)"

fun all_results :: "('e + 'a) list \<Rightarrow> 'e + 'a list" where
  "all_results [] = Inr []"
| "all_results (r # rs) = bind_result r (\<lambda>x. bind_result (all_results rs) (\<lambda>xs. Inr (x # xs)))"

lemma bind_result_simps [simp]: "bind_result (Inl x) k = Inl x" "bind_result (Inr y) k = k y"
  by (simp_all add: bind_result_def)

lemma bind_result_Inr: "bind_result r k = Inr z \<longleftrightarrow> (\<exists>y. r = Inr y \<and> k y = Inr z)"
  by (cases r) auto

lemma bind_result_Inl: "bind_result r k = Inl x \<longleftrightarrow> r = Inl x \<or> (\<exists>y. r = Inr y \<and> k y = Inl x)"
  by (cases r) auto

lemma all_results_Inr: "all_results rs = Inr ys \<longleftrightarrow> rs = map Inr ys"
  by (induction rs arbitrary: ys) (auto simp: bind_result_Inr)

end
