(* ===== verification/Keyed_State.thy ===== *)
theory Keyed_State
  imports Apx_Prelude
begin

text \<open>
  The keyed state of a session: the view tools write through (\<open>_state_proxy.py\<close>, \<open>_state_tool.py\<close>), the
  channel it is merged into and the templates rendered from it (\<open>_compile.py\<close>), its split by scope at the end
  of a turn (\<open>_session_state.py\<close>), and the snapshots a durable composite keeps (\<open>_composite_session.py\<close>).

  Values are \<open>pyval\<close>; their text in a template is a parameter.  A session's items are a list, oldest first.
\<close>

subsection \<open>The channel and the view\<close>

definition native_artifacts_key :: string where
  "native_artifacts_key = ''apx_native_artifacts''"

definition merge_state :: "pyval dict option \<Rightarrow> pyval dict option \<Rightarrow> pyval dict" where
  "merge_state old new = dict_update (case old of None \<Rightarrow> [] | Some d \<Rightarrow> d) (case new of None \<Rightarrow> [] | Some d \<Rightarrow> d)"

record proxy =
  px_source :: "pyval dict"
  px_writes :: "pyval dict"

definition new_proxy :: "pyval dict option \<Rightarrow> proxy" where
  "new_proxy src = \<lparr>px_source = (case src of None \<Rightarrow> [] | Some d \<Rightarrow> d), px_writes = []\<rparr>"

definition proxy_get :: "string \<Rightarrow> proxy \<Rightarrow> pyval option" where
  "proxy_get k p =
     (if k = native_artifacts_key then dget (px_source p) k
      else (case dget (px_writes p) k of Some v \<Rightarrow> Some v | None \<Rightarrow> dget (px_source p) k))"

datatype state_error = Reserved | MissingKey string | ToolRaised string

definition proxy_set :: "string \<Rightarrow> pyval \<Rightarrow> proxy \<Rightarrow> state_error + proxy" where
  "proxy_set k v p = (if k = native_artifacts_key then Inl Reserved else Inr (p\<lparr>px_writes := dset k v (px_writes p)\<rparr>))"

definition proxy_del :: "string \<Rightarrow> proxy \<Rightarrow> state_error + proxy" where
  "proxy_del k p =
     (if k = native_artifacts_key then Inl Reserved
      else if dget (px_source p) k = None \<and> dget (px_writes p) k = None then Inl (MissingKey k)
      else Inr (p\<lparr>px_writes := dset k PNone (px_writes p)\<rparr>))"

definition proxy_keys :: "proxy \<Rightarrow> string list" where
  "proxy_keys p = map fst (dict_update (px_source p) (px_writes p))"

definition proxy_len :: "proxy \<Rightarrow> nat" where
  "proxy_len p = length (dict_update (px_source p) (px_writes p))"

definition proxy_dirty :: "proxy \<Rightarrow> bool" where
  "proxy_dirty p \<longleftrightarrow> px_writes p \<noteq> []"

definition proxy_delta :: "proxy \<Rightarrow> pyval dict" where
  "proxy_delta p = px_writes p"

text \<open>A stateful tool: its body is a run of writes, deletions and reads that ends in a value or an exception.\<close>

datatype proxy_op = SetKey string pyval | DelKey string | GetKey string

fun run_ops :: "proxy_op list \<Rightarrow> proxy \<Rightarrow> state_error + proxy" where
  "run_ops [] p = Inr p"
| "run_ops (SetKey k v # ops) p = (case proxy_set k v p of Inl e \<Rightarrow> Inl e | Inr p' \<Rightarrow> run_ops ops p')"
| "run_ops (DelKey k # ops) p = (case proxy_del k p of Inl e \<Rightarrow> Inl e | Inr p' \<Rightarrow> run_ops ops p')"
| "run_ops (GetKey k # ops) p = (case proxy_get k p of None \<Rightarrow> Inl (MissingKey k) | Some v \<Rightarrow> run_ops ops p)"

datatype tool_result = PlainReturn pyval | StateCommand "pyval dict" pyval

definition finish_tool :: "proxy \<Rightarrow> pyval \<Rightarrow> tool_result" where
  "finish_tool p ret = (if proxy_dirty p then StateCommand (proxy_delta p) ret else PlainReturn ret)"

definition run_state_tool :: "proxy_op list \<Rightarrow> state_error + pyval \<Rightarrow> pyval dict option \<Rightarrow> state_error + tool_result" where
  "run_state_tool ops ret channel =
     (case run_ops ops (new_proxy channel) of
        Inl e \<Rightarrow> Inl e
      | Inr p \<Rightarrow> (case ret of Inl e \<Rightarrow> Inl e | Inr v \<Rightarrow> Inr (finish_tool p v)))"

text \<open>The channel after the graph applied the result.\<close>

definition apply_result :: "pyval dict option \<Rightarrow> state_error + tool_result \<Rightarrow> pyval dict option" where
  "apply_result channel res =
     (case res of Inr (StateCommand delta v) \<Rightarrow> Some (merge_state channel (Some delta)) | _ \<Rightarrow> channel)"

subsection \<open>Templates\<close>

definition ident_start :: "char \<Rightarrow> bool" where
  "ident_start c \<longleftrightarrow> (CHR ''a'' \<le> lower_char c \<and> lower_char c \<le> CHR ''z'') \<or> c = CHR ''_''"

definition ident_char :: "char \<Rightarrow> bool" where
  "ident_char c \<longleftrightarrow> ident_start c \<or> (CHR ''0'' \<le> c \<and> c \<le> CHR ''9'')"

text \<open>An identifier and its closing brace at the head of the text: the name and what follows.\<close>

definition match_ident :: "string \<Rightarrow> (string \<times> string) option" where
  "match_ident s =
     (let name = takeWhile ident_char s; rest = dropWhile ident_char s
      in if name = [] \<or> \<not> ident_start (hd name) \<or> rest = [] \<or> hd rest \<noteq> CHR 0x7D then None else Some (name, tl rest))"

definition match_key :: "string \<Rightarrow> (string \<times> string) option" where
  "match_key s =
     (case find (\<lambda>p. starts_with p s \<and> match_ident (drop (length p) s) \<noteq> None) [''user:'', ''app:'', ''temp:''] of
        Some p \<Rightarrow> map_option (\<lambda>(n, r). (p @ n, r)) (match_ident (drop (length p) s))
      | None \<Rightarrow> match_ident s)"

lemma match_ident_split: "match_ident s = Some (n, r) \<Longrightarrow> s = n @ CHR 0x7D # r"
proof -
  assume m: "match_ident s = Some (n, r)"
  then have "n = takeWhile ident_char s" "dropWhile ident_char s = CHR 0x7D # r"
    by (cases "dropWhile ident_char s"; simp add: match_ident_def Let_def split: if_splits)+
  then show "s = n @ CHR 0x7D # r" by (metis takeWhile_dropWhile_id)
qed

lemma match_key_split: "match_key s = Some (k, r) \<Longrightarrow> s = k @ CHR 0x7D # r"
proof (cases "find (\<lambda>p. starts_with p s \<and> match_ident (drop (length p) s) \<noteq> None) [''user:'', ''app:'', ''temp:'']")
  case None
  moreover assume "match_key s = Some (k, r)"
  ultimately have "match_ident s = Some (k, r)" by (simp only: match_key_def option.case)
  then show ?thesis by (rule match_ident_split)
next
  case (Some p)
  then have p: "starts_with p s" unfolding find_Some_iff by blast
  assume m: "match_key s = Some (k, r)"
  have "map_option (\<lambda>(n, r). (p @ n, r)) (match_ident (drop (length p) s)) = Some (k, r)"
    using m unfolding match_key_def Some by simp
  then obtain n where "match_ident (drop (length p) s) = Some (n, r)" "k = p @ n" by auto
  with match_ident_split [of "drop (length p) s" n r] starts_with_split [OF p] show ?thesis by simp
qed

text \<open>One pass from left to right; a key that is not there stays as it is written.\<close>

function render_template :: "(pyval \<Rightarrow> string) \<Rightarrow> pyval dict \<Rightarrow> string \<Rightarrow> string" where
  "render_template show_value keyed [] = []"
| "render_template show_value keyed (c # s) =
     (case (if c = CHR 0x7B then match_key s else None) of
        None \<Rightarrow> c # render_template show_value keyed s
      | Some (k, r) \<Rightarrow>
          (case dget keyed k of None \<Rightarrow> c # k @ [CHR 0x7D] | Some v \<Rightarrow> show_value v) @ render_template show_value keyed r)"
  by pat_completeness auto

termination
  by (relation "measure (\<lambda>(show_value, keyed, s). length s)") (auto split: if_splits dest!: match_key_split)

subsection \<open>Scopes at the end of a turn\<close>

record partitioned =
  pt_session :: "pyval dict"
  pt_user :: "pyval dict"
  pt_app :: "pyval dict"

definition partition_key :: "string \<times> pyval \<Rightarrow> partitioned \<Rightarrow> partitioned" where
  "partition_key kv p =
     (let (name, v) = kv in
      if starts_with ''temp:'' name then p
      else if starts_with ''user:'' name then p\<lparr>pt_user := dset (drop 5 name) v (pt_user p)\<rparr>
      else if starts_with ''app:'' name then p\<lparr>pt_app := dset (drop 4 name) v (pt_app p)\<rparr>
      else p\<lparr>pt_session := dset name v (pt_session p)\<rparr>)"

definition partition_state :: "pyval dict option \<Rightarrow> partitioned" where
  "partition_state st =
     fold partition_key (case st of None \<Rightarrow> [] | Some d \<Rightarrow> d) \<lparr>pt_session = [], pt_user = [], pt_app = []\<rparr>"

definition persistable_state :: "pyval dict option \<Rightarrow> pyval dict" where
  "persistable_state st = pt_session (partition_state st)"

text \<open>\<open>set_state\<close> is the store's call, which may raise (\<open>None\<close>); the turn goes on.\<close>

definition persist_session_state ::
  "(string \<Rightarrow> pyval dict \<Rightarrow> 's \<Rightarrow> 's option) option \<Rightarrow> string option \<Rightarrow> pyval dict option \<Rightarrow> 's \<Rightarrow> 's" where
  "persist_session_state store conv final s =
     (case (store, conv) of
        (Some set_state, Some c) \<Rightarrow> (case set_state c (persistable_state final) s of None \<Rightarrow> s | Some s' \<Rightarrow> s')
      | _ \<Rightarrow> s)"

subsection \<open>Snapshots of a composite\<close>

datatype session_item = StateItem "pyval dict" | OtherItem

type_synonym sessions = "session_item list dict"

definition max_snapshots :: nat where
  "max_snapshots = 20"

definition session_items :: "string \<Rightarrow> sessions \<Rightarrow> session_item list" where
  "session_items thread ss = (case dget ss thread of None \<Rightarrow> [] | Some items \<Rightarrow> items)"

definition snapshots :: "session_item list \<Rightarrow> pyval dict list" where
  "snapshots items = List.map_filter (\<lambda>i. case i of StateItem d \<Rightarrow> Some d | OtherItem \<Rightarrow> None) items"

definition load_session_state :: "string \<Rightarrow> string list \<Rightarrow> sessions \<Rightarrow> pyval dict \<times> sessions" where
  "load_session_state thread keys ss =
     (let snaps = snapshots (session_items thread ss)
      in (if snaps = [] then [] else filter (\<lambda>(k, v). k \<in> set keys) (last snaps), dset thread (session_items thread ss) ss))"

definition save_session_state :: "string \<Rightarrow> string list \<Rightarrow> pyval dict \<Rightarrow> sessions \<Rightarrow> sessions" where
  "save_session_state thread keys state ss =
     (let items = session_items thread ss;
          item = StateItem (List.map_filter (\<lambda>k. map_option (Pair k) (dget state k)) keys);
          kept = (if max_snapshots \<le> length (snapshots items) then [] else items)
      in dset thread (kept @ [item]) ss)"

subsection \<open>A tool's view is the channel's next value\<close>

lemma px_wf: "run_ops ops p = Inr p' \<Longrightarrow> dict_wf (px_writes p) \<Longrightarrow>
    dict_wf (px_writes p') \<and> px_source p' = px_source p
      \<and> (dget (px_writes p) native_artifacts_key = None \<longrightarrow> dget (px_writes p') native_artifacts_key = None)"
proof (induction ops p rule: run_ops.induct)
  case (2 k v ops p)
  then show ?case by (auto simp: proxy_set_def dict_simps split: if_splits)
next
  case (3 k ops p)
  then show ?case by (auto simp: proxy_del_def dict_simps split: if_splits)
next
  case (4 k ops p)
  then show ?case by (auto split: option.splits)
qed auto

lemma keys_dict_update: "fst ` set (dict_update d e) = fst ` set d \<union> fst ` set e"
proof (induction e arbitrary: d)
  case (Cons kv e)
  obtain k v where "kv = (k, v)" by (cases kv)
  with Cons [of "dset k v d"] show ?case by (simp add: dict_update_Cons keys_dset)
qed simp

text \<open>
  What a tool sees in its view when it returns is what the channel holds once its result is applied: key by
  key, with the same set of keys; a tool that raises leaves the channel alone.  The framework's reserved key is
  never changed by a tool.
\<close>

theorem tool_view_becomes_channel:
  "case run_ops ops (new_proxy channel) of
     Inl e \<Rightarrow> apply_result channel (run_state_tool ops ret channel) = channel
   | Inr p \<Rightarrow>
       (case ret of
          Inl e \<Rightarrow> apply_result channel (run_state_tool ops ret channel) = channel
        | Inr v \<Rightarrow>
            (let d = (case apply_result channel (run_state_tool ops ret channel) of None \<Rightarrow> [] | Some d \<Rightarrow> d)
             in dget d = (\<lambda>k. proxy_get k p) \<and> fst ` set d = set (proxy_keys p)
                \<and> dget d native_artifacts_key = dget (case channel of None \<Rightarrow> [] | Some c \<Rightarrow> c) native_artifacts_key))"
proof (cases "run_ops ops (new_proxy channel)")
  case (Inl e)
  then show ?thesis by (simp add: run_state_tool_def apply_result_def)
next
  case (Inr p)
  let ?c = "case channel of None \<Rightarrow> [] | Some c \<Rightarrow> c"
  have p: "px_source p = ?c" "dict_wf (px_writes p)" "dget (px_writes p) native_artifacts_key = None"
    using px_wf [OF Inr] by (simp_all add: new_proxy_def)
  show ?thesis
  proof (cases ret)
    case (Inl e)
    with Inr show ?thesis by (simp add: run_state_tool_def apply_result_def)
  next
    case ret: (Inr v)
    have d: "(case apply_result channel (run_state_tool ops ret channel) of None \<Rightarrow> [] | Some d \<Rightarrow> d) = dict_update ?c (px_writes p)"
      using Inr ret by (auto simp: run_state_tool_def finish_tool_def apply_result_def proxy_dirty_def proxy_delta_def merge_state_def split: option.split)
    have "dget (dict_update ?c (px_writes p)) k = proxy_get k p" for k
      using p by (auto simp: proxy_get_def dget_dict_update split: option.split)
    moreover have "fst ` set (dict_update ?c (px_writes p)) = set (proxy_keys p)" using p(1) by (simp add: proxy_keys_def)
    moreover have "dget (dict_update ?c (px_writes p)) native_artifacts_key = dget ?c native_artifacts_key"
      using p by (simp add: dget_dict_update)
    ultimately show ?thesis using Inr ret d by (simp add: Let_def fun_eq_iff)
  qed
qed

text \<open>A deletion leaves the key in the channel, with \<open>None\<close>: it is still iterated and counted.\<close>

lemma deleted_key_stays:
  assumes "k \<noteq> native_artifacts_key" and "dget (px_source p) k = Some v"
  shows "\<exists>p'. proxy_del k p = Inr p' \<and> proxy_get k p' = Some PNone \<and> k \<in> set (proxy_keys p')"
  using assms by (auto simp: proxy_del_def proxy_get_def proxy_keys_def dict_simps keys_dict_update)

lemma merge_idempotent: "dict_wf d \<Longrightarrow> dget (merge_state (Some (merge_state ch (Some d))) (Some d)) k = dget (merge_state ch (Some d)) k"
  by (simp add: merge_state_def dget_dict_update split: option.split)

subsection \<open>Templates and scopes\<close>

lemma template_without_keys: "render_template show_value [] t = t"
proof (induction t rule: length_induct)
  case (1 t)
  show ?case
  proof (cases t)
    case (Cons c s)
    show ?thesis
    proof (cases "if c = CHR 0x7B then match_key s else None")
      case None
      with 1 Cons show ?thesis by simp
    next
      case (Some kr)
      obtain k r where kr: "kr = (k, r)" by (cases kr)
      from Some kr have m: "c = CHR 0x7B" "match_key s = Some (k, r)" by (auto split: if_splits)
      note split = match_key_split [OF m(2)]
      with 1 Cons have "render_template show_value [] r = r" by simp
      with m Cons show ?thesis by (simp add: split [symmetric])
    qed
  qed simp
qed

text \<open>Nothing scoped to a user, to the app or to the turn is stored with a conversation.\<close>

definition session_scoped :: "string \<Rightarrow> bool" where
  "session_scoped k \<longleftrightarrow> \<not> starts_with ''temp:'' k \<and> \<not> starts_with ''user:'' k \<and> \<not> starts_with ''app:'' k"

lemma partition_keeps_scope:
  "k \<in> fst ` set (pt_session (fold partition_key d p)) \<Longrightarrow> k \<in> fst ` set (pt_session p) \<or> session_scoped k"
proof (induction d arbitrary: p)
  case (Cons kv d)
  obtain n v where kv: "kv = (n, v)" by (cases kv)
  have "fst ` set (pt_session (partition_key kv p)) \<subseteq> (if session_scoped n then {n} else {}) \<union> fst ` set (pt_session p)"
    by (simp add: kv partition_key_def session_scoped_def keys_dset subset_insertI)
  with Cons.IH [of "partition_key kv p"] Cons.prems show ?case by (auto split: if_splits)
qed simp

lemma persisted_keys_unprefixed: "k \<in> fst ` set (persistable_state st) \<Longrightarrow> session_scoped k"
  using partition_keeps_scope [of k] by (fastforce simp: persistable_state_def partition_state_def)

subsection \<open>Snapshots\<close>

lemma snapshots_append [simp]: "snapshots (xs @ ys) = snapshots xs @ snapshots ys"
  by (simp add: snapshots_def map_filter_def)

fun save_all :: "string \<Rightarrow> string list \<Rightarrow> pyval dict list \<Rightarrow> sessions \<Rightarrow> sessions" where
  "save_all thread keys [] ss = ss"
| "save_all thread keys (st # sts) ss = save_all thread keys sts (save_session_state thread keys st ss)"

lemma save_bounded:
  "length (snapshots (session_items thread ss)) \<le> max_snapshots
    \<Longrightarrow> length (snapshots (session_items thread (save_session_state thread keys st ss))) \<le> max_snapshots"
  by (auto simp: save_session_state_def session_items_def Let_def dict_simps max_snapshots_def snapshots_def map_filter_def)

lemma dget_allowed:
  "dget (List.map_filter (\<lambda>k. map_option (Pair k) (dget st k)) keys) k = (if k \<in> set keys then dget st k else None)"
  by (induction keys) (auto simp: map_filter_simps split: option.split)

text \<open>
  A session that saves after every turn resumes with what the last turn left under the declared keys and
  nothing else, and never holds more than twenty snapshots, whatever it held of other items before.
\<close>

theorem composite_state_round_trip:
  assumes "length (snapshots (session_items thread ss)) \<le> max_snapshots"
  shows "dget (fst (load_session_state thread keys (save_all thread keys (sts @ [st]) ss)))
      = (\<lambda>k. if k \<in> set keys then dget st k else None)
    \<and> length (snapshots (session_items thread (save_all thread keys (sts @ [st]) ss))) \<le> max_snapshots"
proof -
  have split: "save_all thread keys (sts @ [st]) ss = save_session_state thread keys st (save_all thread keys sts ss)"
    by (induction sts arbitrary: ss) auto
  have "length (snapshots (session_items thread (save_all thread keys sts ss))) \<le> max_snapshots" using assms
    by (induction sts arbitrary: ss) (auto intro: save_bounded)
  then have bound: "length (snapshots (session_items thread (save_all thread keys (sts @ [st]) ss))) \<le> max_snapshots"
    unfolding split by (rule save_bounded)
  have "\<exists>xs. snapshots (session_items thread (save_session_state thread keys st s))
      = xs @ [List.map_filter (\<lambda>k. map_option (Pair k) (dget st k)) keys]" for s
    by (simp add: save_session_state_def session_items_def Let_def dict_simps) (auto simp: snapshots_def map_filter_def)
  then obtain xs where "snapshots (session_items thread (save_all thread keys (sts @ [st]) ss))
      = xs @ [List.map_filter (\<lambda>k. map_option (Pair k) (dget st k)) keys]" unfolding split by blast
  then have "fst (load_session_state thread keys (save_all thread keys (sts @ [st]) ss))
      = filter (\<lambda>(k, v). k \<in> set keys) (List.map_filter (\<lambda>k. map_option (Pair k) (dget st k)) keys)"
    by (simp add: load_session_state_def)
  also have "\<dots> = List.map_filter (\<lambda>k. map_option (Pair k) (dget st k)) keys"
    by (rule filter_True) (auto simp: map_filter_def)
  finally show ?thesis using bound by (simp add: fun_eq_iff dget_allowed)
qed

theorem composite_state_round_trip_witness:
  "dget (fst (load_session_state ''t'' [''plan''] (save_all ''t'' [''plan''] ([[]] @ [[(''plan'', PInt 2), (''x'', PInt 3)]]) []))) ''plan''
    = Some (PInt 2)"
  using composite_state_round_trip [of "''t''" "[]" "[''plan'']" "[[]]" "[(''plan'', PInt 2), (''x'', PInt 3)]"]
  by (simp add: session_items_def snapshots_def map_filter_def)

end
