(* ===== verification/Chat_Messages.thy ===== *)
theory Chat_Messages
  imports Apx_Prelude
begin

text \<open>
  The conversation a compiled graph carries (\<open>_compile.py\<close>, \<open>_compile_run.py\<close>): messages and the functions
  that decide what a model call or the next step sees of them - the context window, the recalled memories,
  the turn between two sequential steps, the isolated input of a parallel branch, the input of a hand-off and
  the control call a router reads.

  A message is an object: \<open>m_ref\<close> is its identity, and a message the code builds gets a new one.  Token counts
  are a parameter (\<open>count_tokens_approximately\<close>); the text of a message is its flattened content.
\<close>

subsection \<open>Messages\<close>

datatype msg_role = SystemRole | HumanRole | AIRole | ToolRole

record tool_call =
  tc_name :: string
  tc_id :: string

text \<open>A DataPart: its JSON object and, when its metadata is an object naming one, the schema id.\<close>

record data_part =
  dp_data :: "pyval dict"
  dp_schema :: "string option"

text \<open>
  \<open>m_plain\<close> says whether the content is a string rather than a list of blocks;
  \<open>m_call_id\<close> and \<open>m_ok\<close> are a tool result's call and status; \<open>m_parts\<close>, \<open>m_answer\<close> and \<open>m_replies\<close> are the
  entries \<open>apx_data_parts\<close>, \<open>apx_answer\<close> and \<open>apx_replies\<close> of an assistant message.
\<close>

record msg =
  m_ref :: nat
  m_role :: msg_role
  m_text :: string
  m_plain :: bool
  m_calls :: "tool_call list"
  m_call_id :: string
  m_ok :: bool
  m_parts :: "data_part list"
  m_answer :: bool
  m_replies :: "string list"

abbreviation is_human :: "msg \<Rightarrow> bool" where "is_human m \<equiv> m_role m = HumanRole"
abbreviation is_ai :: "msg \<Rightarrow> bool" where "is_ai m \<equiv> m_role m = AIRole"
abbreviation is_system :: "msg \<Rightarrow> bool" where "is_system m \<equiv> m_role m = SystemRole"
abbreviation is_tool :: "msg \<Rightarrow> bool" where "is_tool m \<equiv> m_role m = ToolRole"

definition fresh_ref :: "msg list \<Rightarrow> nat" where
  "fresh_ref ms = Suc (foldr (\<lambda>m n. max (m_ref m) n) ms 0)"

definition plain_msg :: "msg list \<Rightarrow> msg_role \<Rightarrow> string \<Rightarrow> msg" where
  "plain_msg ms r t = \<lparr>m_ref = fresh_ref ms, m_role = r, m_text = t, m_plain = True, m_calls = [], m_call_id = '''',
     m_ok = True, m_parts = [], m_answer = False, m_replies = []\<rparr>"

lemma plain_msg_sel [simp]:
  "m_role (plain_msg ms r t) = r" "m_text (plain_msg ms r t) = t" "m_calls (plain_msg ms r t) = []"
  "m_parts (plain_msg ms r t) = []" "m_ref (plain_msg ms r t) = fresh_ref ms"
  by (simp_all add: plain_msg_def)

lemma ref_less_fresh: "m \<in> set ms \<Longrightarrow> m_ref m < fresh_ref ms"
  by (induction ms) (auto simp: fresh_ref_def less_Suc_eq_le le_max_iff_disj)

lemma plain_msg_new: "m \<in> set ms \<Longrightarrow> m_ref m \<noteq> m_ref (plain_msg ms r t)"
  using ref_less_fresh by (fastforce simp: plain_msg_def)

subsection \<open>What the agent's messages become\<close>

text \<open>The chat messages of the HTTP surface: a role, a text, the id of the tool call answered.\<close>

record chat_msg =
  ch_role :: string
  ch_content :: "string option"
  ch_call_id :: "string option"

definition role_of :: "string \<Rightarrow> msg_role" where
  "role_of r =
     (if r = ''system'' then SystemRole else if r = ''user'' then HumanRole
      else if r = ''assistant'' then AIRole else if r = ''tool'' then ToolRole else HumanRole)"

definition or_empty :: "string option \<Rightarrow> string" where
  "or_empty s = (case s of None \<Rightarrow> '''' | Some t \<Rightarrow> t)"

definition to_message :: "msg list \<Rightarrow> chat_msg \<Rightarrow> msg" where
  "to_message sofar c =
     (plain_msg sofar (role_of (ch_role c)) (or_empty (ch_content c)))
       \<lparr>m_call_id := (if role_of (ch_role c) = ToolRole then or_empty (ch_call_id c) else '''')\<rparr>"

definition to_langchain :: "chat_msg list \<Rightarrow> string \<Rightarrow> msg list" where
  "to_langchain ms prompt =
     fold (\<lambda>c out. out @ [to_message out c]) ms
       (if prompt \<noteq> '''' \<and> \<not> list_ex (\<lambda>c. ch_role c = ''system'') ms then [plain_msg [] SystemRole prompt] else [])"

subsection \<open>Reading the conversation\<close>

definition last_ai_tool_call :: "msg list \<Rightarrow> string option" where
  "last_ai_tool_call ms =
     map_option (\<lambda>m. tc_name (last (m_calls m))) (find (\<lambda>m. is_ai m \<and> m_calls m \<noteq> []) (rev ms))"

definition last_human :: "msg list \<Rightarrow> msg option" where
  "last_human ms = find is_human (rev ms)"

definition first_human :: "msg list \<Rightarrow> msg option" where
  "first_human ms = find is_human ms"

definition last_ai :: "msg list \<Rightarrow> msg option" where
  "last_ai ms = find is_ai (rev ms)"

subsection \<open>The context window\<close>

text \<open>Where a turn may start: the first message and every later user message.\<close>

definition turn_starts :: "msg list \<Rightarrow> nat list" where
  "turn_starts rest = 0 # filter (\<lambda>i. i \<noteq> 0 \<and> is_human (rest ! i)) [0..<length rest]"

definition trim_to_window :: "(msg list \<Rightarrow> int) \<Rightarrow> msg list \<Rightarrow> msg list \<Rightarrow> int \<Rightarrow> msg list" where
  "trim_to_window tokens ms fixed budget =
     (let system = filter is_system ms;
          rest = filter (\<lambda>m. \<not> is_system m) ms;
          starts = turn_starts rest;
          start = (case find (\<lambda>i. tokens (fixed @ system @ drop i rest) \<le> budget) starts of
                     Some i \<Rightarrow> i | None \<Rightarrow> last starts)
      in system @ drop start rest)"

text \<open>What a model call gets: the middleware overrides the request's messages, never the graph's state.\<close>

record model_request =
  rq_system :: "msg option"
  rq_messages :: "msg list"

definition trimmed_request :: "(msg list \<Rightarrow> int) \<Rightarrow> int \<Rightarrow> model_request \<Rightarrow> model_request" where
  "trimmed_request tokens budget rq =
     rq\<lparr>rq_messages := trim_to_window tokens (rq_messages rq) (case rq_system rq of None \<Rightarrow> [] | Some m \<Rightarrow> [m]) budget\<rparr>"

text \<open>The recalled memories ride on the system message; a recall that fails is an empty block.\<close>

definition with_memories :: "(string \<Rightarrow> string option) \<Rightarrow> model_request \<Rightarrow> model_request" where
  "with_memories recall rq =
     (case last_human (rq_messages rq) of
        None \<Rightarrow> rq
      | Some q \<Rightarrow>
          (let block = or_empty (recall (m_text q)) in
           if block = '''' then rq
           else rq\<lparr>rq_system := Some (plain_msg (rq_messages rq) SystemRole
                     (case rq_system rq of None \<Rightarrow> block | Some b \<Rightarrow> m_text b @ [CHR 0x0A, CHR 0x0A] @ block))\<rparr>))"

subsection \<open>Between steps, for a branch, for a hand-off\<close>

definition sequential_continuation_text :: string where
  "sequential_continuation_text = ''Continue with the next step based on the results above.''"

definition sequential_continuation :: "msg list \<Rightarrow> msg list" where
  "sequential_continuation ms =
     (if ms \<noteq> [] \<and> is_ai (last ms) then [plain_msg ms HumanRole sequential_continuation_text] else [])"

definition join_lines :: "string list \<Rightarrow> string" where
  "join_lines ps = join [CHR 0x0A] (filter (\<lambda>p. p \<noteq> '''') (map strip ps))"

definition isolate_branch_input :: "msg list \<Rightarrow> string \<Rightarrow> msg list" where
  "isolate_branch_input ms system_text =
     (if strip system_text \<noteq> '''' then [plain_msg ms SystemRole (strip system_text)] else [])
     @ (case last_human ms of None \<Rightarrow> [] | Some m \<Rightarrow> [m])"

definition branch_input :: "string \<Rightarrow> msg list \<Rightarrow> msg list" where
  "branch_input static_system ms =
     isolate_branch_input ms
       (join_lines [static_system, join [CHR 0x0A] (map m_text (filter is_system ms))])"

definition new_messages :: "msg list \<Rightarrow> msg list \<Rightarrow> msg list" where
  "new_messages isolated result = filter (\<lambda>m. m_ref m \<notin> m_ref ` set isolated) result"

definition handoff_input :: "msg list \<Rightarrow> string \<Rightarrow> string \<Rightarrow> msg list" where
  "handoff_input ms prior target =
     (case first_human ms of
        None \<Rightarrow> ms
      | Some q \<Rightarrow>
          [q, plain_msg ms HumanRole (''[Routed from '' @ prior @ '' to '' @ target @ ''] Please help with the request above.'')])"

subsection \<open>The window drops whole turns\<close>

lemma sorted_turn_starts: "sorted_wrt (<) (turn_starts rest)"
  by (auto simp: turn_starts_def intro: sorted_wrt_filter)

lemma turn_starts_bound: "i \<in> set (turn_starts rest) \<Longrightarrow> i = 0 \<or> (i < length rest \<and> is_human (rest ! i))"
  by (auto simp: turn_starts_def)

lemma find_first_sorted:
  assumes "sorted_wrt (<) xs" and "find P xs = Some k" and "j \<in> set xs" and "j < (k::nat)"
  shows "\<not> P j"
proof -
  from assms(2) obtain n where n: "n < length xs" "k = xs ! n" "\<forall>i<n. \<not> P (xs ! i)"
    by (auto simp: find_Some_iff)
  from assms(3) obtain i where i: "i < length xs" "j = xs ! i" by (auto simp: in_set_conv_nth)
  have "i < n"
  proof (rule ccontr)
    assume "\<not> i < n"
    then have "xs ! n \<le> xs ! i"
      using assms(1) i n by (cases "i = n") (auto simp: sorted_wrt_iff_nth_less less_imp_le)
    with assms(4) i n show False by simp
  qed
  with n i show ?thesis by simp
qed

definition window_start :: "(msg list \<Rightarrow> int) \<Rightarrow> msg list \<Rightarrow> msg list \<Rightarrow> int \<Rightarrow> nat" where
  "window_start tokens ms fixed budget =
     (let rest = filter (\<lambda>m. \<not> is_system m) ms
      in case find (\<lambda>i. tokens (fixed @ filter is_system ms @ drop i rest) \<le> budget) (turn_starts rest) of
           Some i \<Rightarrow> i | None \<Rightarrow> last (turn_starts rest))"

lemma trim_eq:
  "trim_to_window tokens ms fixed budget =
     filter is_system ms @ drop (window_start tokens ms fixed budget) (filter (\<lambda>m. \<not> is_system m) ms)"
  by (simp add: trim_to_window_def window_start_def Let_def)

lemma window_start_in: "window_start tokens ms fixed budget \<in> set (turn_starts (filter (\<lambda>m. \<not> is_system m) ms))"
  (is "_ \<in> set ?ts")
proof (cases "find (\<lambda>i. tokens (fixed @ filter is_system ms @ drop i (filter (\<lambda>m. \<not> is_system m) ms)) \<le> budget) ?ts")
  case None
  have "?ts \<noteq> []" by (simp add: turn_starts_def)
  with None show ?thesis by (simp add: window_start_def Let_def)
next
  case (Some k)
  then have "k \<in> set ?ts" by (auto simp: find_Some_iff)
  with Some show ?thesis by (simp add: window_start_def Let_def)
qed

lemma window_start_first:
  assumes "j \<in> set (turn_starts (filter (\<lambda>m. \<not> is_system m) ms))" and "j < window_start tokens ms fixed budget"
  shows "budget < tokens (fixed @ filter is_system ms @ drop j (filter (\<lambda>m. \<not> is_system m) ms))"
proof -
  let ?ts = "turn_starts (filter (\<lambda>m. \<not> is_system m) ms)"
  let ?P = "\<lambda>i. tokens (fixed @ filter is_system ms @ drop i (filter (\<lambda>m. \<not> is_system m) ms)) \<le> budget"
  have "\<not> ?P j"
  proof (cases "find ?P ?ts")
    case None
    with assms(1) show ?thesis by (auto simp: find_None_iff)
  next
    case (Some k)
    with assms(2) have "j < k" by (simp add: window_start_def Let_def)
    with Some assms(1) show ?thesis by (rule find_first_sorted [OF sorted_turn_starts])
  qed
  then show ?thesis by simp
qed

lemma window_start_fits:
  "tokens (fixed @ trim_to_window tokens ms fixed budget) \<le> budget
   \<or> window_start tokens ms fixed budget = last (turn_starts (filter (\<lambda>m. \<not> is_system m) ms))"
proof (cases "find (\<lambda>i. tokens (fixed @ filter is_system ms @ drop i (filter (\<lambda>m. \<not> is_system m) ms)) \<le> budget)
                (turn_starts (filter (\<lambda>m. \<not> is_system m) ms))")
  case None
  then show ?thesis by (simp add: window_start_def Let_def)
next
  case (Some k)
  then have "window_start tokens ms fixed budget = k" by (simp add: window_start_def Let_def)
  moreover from Some have "tokens (fixed @ filter is_system ms @ drop k (filter (\<lambda>m. \<not> is_system m) ms)) \<le> budget"
    by (auto simp: find_Some_iff)
  ultimately show ?thesis by (simp add: trim_eq)
qed

text \<open>A tool result is paired when the call it answers stands before it in the same turn.\<close>

definition paired :: "msg list \<Rightarrow> bool" where
  "paired ms \<longleftrightarrow>
     (\<forall>i < length ms. is_tool (ms ! i) \<longrightarrow>
        (\<exists>j < i. is_ai (ms ! j) \<and> m_call_id (ms ! i) \<in> tc_id ` set (m_calls (ms ! j))
           \<and> (\<forall>k. j < k \<and> k < i \<longrightarrow> \<not> is_human (ms ! k))))"

lemma paired_drop:
  assumes "paired rest" and "k = 0 \<or> (k < length rest \<and> is_human (rest ! k))"
  shows "paired (drop k rest)"
  unfolding paired_def
proof (intro allI impI)
  fix i assume i: "i < length (drop k rest)" "is_tool (drop k rest ! i)"
  then have ki: "k + i < length rest" "is_tool (rest ! (k + i))" by (auto simp: add.commute)
  with assms(1) obtain j where j: "j < k + i" "is_ai (rest ! j)"
      "m_call_id (rest ! (k + i)) \<in> tc_id ` set (m_calls (rest ! j))"
      and between: "\<forall>l. j < l \<and> l < k + i \<longrightarrow> \<not> is_human (rest ! l)"
    unfolding paired_def by blast
  have "k \<le> j"
  proof (rule ccontr)
    assume "\<not> k \<le> j"
    then have "j < k" "k \<noteq> 0" by auto
    with assms(2) have h: "is_human (rest ! k)" by simp
    with ki(2) have "i \<noteq> 0" by (cases i) auto
    with between \<open>j < k\<close> have "\<not> is_human (rest ! k)" by simp
    with h show False by simp
  qed
  then obtain l where l: "j = k + l" using le_Suc_ex by blast
  from j l have "l < i" "is_ai (drop k rest ! l)"
      "m_call_id (drop k rest ! i) \<in> tc_id ` set (m_calls (drop k rest ! l))"
    using ki(1) by (auto simp: add.commute)
  moreover have "\<forall>n. l < n \<and> n < i \<longrightarrow> \<not> is_human (drop k rest ! n)"
  proof (intro allI impI)
    fix n assume n: "l < n \<and> n < i"
    with between l have "\<not> is_human (rest ! (k + n))" by simp
    with n ki(1) show "\<not> is_human (drop k rest ! n)" by (simp add: add.commute)
  qed
  ultimately show "\<exists>j<i. is_ai (drop k rest ! j) \<and> m_call_id (drop k rest ! i) \<in> tc_id ` set (m_calls (drop k rest ! j))
      \<and> (\<forall>n. j < n \<and> n < i \<longrightarrow> \<not> is_human (drop k rest ! n))" by blast
qed

lemma paired_after_system:
  assumes "paired rest" and "\<forall>m \<in> set sys. is_system m"
  shows "paired (sys @ rest)"
  unfolding paired_def
proof (intro allI impI)
  fix i assume i: "i < length (sys @ rest)" "is_tool ((sys @ rest) ! i)"
  have ge: "length sys \<le> i"
  proof (rule ccontr)
    assume "\<not> length sys \<le> i"
    then have "(sys @ rest) ! i \<in> set sys" by (simp add: nth_append)
    with assms(2) i(2) show False by auto
  qed
  then obtain n where n: "i = length sys + n" using le_Suc_ex by blast
  with i assms(1) obtain j where j: "j < n" "is_ai (rest ! j)"
      "m_call_id (rest ! n) \<in> tc_id ` set (m_calls (rest ! j))" "\<forall>k. j < k \<and> k < n \<longrightarrow> \<not> is_human (rest ! k)"
    unfolding paired_def by (auto simp: nth_append)
  have "\<forall>k. length sys + j < k \<and> k < i \<longrightarrow> \<not> is_human ((sys @ rest) ! k)"
  proof (intro allI impI)
    fix k assume k: "length sys + j < k \<and> k < i"
    then obtain l where "k = length sys + l" using le_Suc_ex [of "length sys" k] by auto
    with k j(4) n show "\<not> is_human ((sys @ rest) ! k)" by (simp add: nth_append)
  qed
  with j n show "\<exists>j<i. is_ai ((sys @ rest) ! j) \<and> m_call_id ((sys @ rest) ! i) \<in> tc_id ` set (m_calls ((sys @ rest) ! j))
      \<and> (\<forall>k. j < k \<and> k < i \<longrightarrow> \<not> is_human ((sys @ rest) ! k))"
    by (intro exI [of _ "length sys + j"]) (auto simp: nth_append)
qed

lemma trim_keeps_pairs:
  assumes "paired (filter (\<lambda>m. \<not> is_system m) ms)"
  shows "paired (trim_to_window tokens ms fixed budget)"
  unfolding trim_eq
proof (rule paired_after_system)
  show "paired (drop (window_start tokens ms fixed budget) (filter (\<lambda>m. \<not> is_system m) ms))"
    using assms turn_starts_bound [OF window_start_in] by (rule paired_drop)
qed auto

text \<open>
  What a model call sees of a conversation is its system messages and its latest turns: the cut is at the start of a
  turn, the first start from which the request fits the budget, or the last turn when none does; and a conversation
  whose tool results follow their calls in the same turn stays so.\<close>

theorem context_window_drops_whole_turns:
  "\<exists>start. start \<in> set (turn_starts (filter (\<lambda>m. \<not> is_system m) ms))
     \<and> trim_to_window tokens ms fixed budget = filter is_system ms @ drop start (filter (\<lambda>m. \<not> is_system m) ms)
     \<and> (\<forall>j \<in> set (turn_starts (filter (\<lambda>m. \<not> is_system m) ms)). j < start \<longrightarrow>
          budget < tokens (fixed @ filter is_system ms @ drop j (filter (\<lambda>m. \<not> is_system m) ms)))
     \<and> (tokens (fixed @ trim_to_window tokens ms fixed budget) \<le> budget
        \<or> start = last (turn_starts (filter (\<lambda>m. \<not> is_system m) ms)))
     \<and> (paired (filter (\<lambda>m. \<not> is_system m) ms) \<longrightarrow> paired (trim_to_window tokens ms fixed budget))"
proof (intro exI [of _ "window_start tokens ms fixed budget"] conjI ballI impI)
  show "trim_to_window tokens ms fixed budget = filter is_system ms @ drop (window_start tokens ms fixed budget) (filter (\<lambda>m. \<not> is_system m) ms)"
    by (rule trim_eq)
qed (rule window_start_in window_start_fits window_start_first trim_keeps_pairs; assumption?)+

theorem context_window_drops_whole_turns_witness:
  "\<exists>start. trim_to_window (\<lambda>ms. int (length ms))
       [plain_msg [] HumanRole ''a'', plain_msg [] AIRole ''b'', plain_msg [] HumanRole ''c''] [] 1
     = drop start [plain_msg [] HumanRole ''a'', plain_msg [] AIRole ''b'', plain_msg [] HumanRole ''c'']"
  using context_window_drops_whole_turns [of "[plain_msg [] HumanRole ''a'', plain_msg [] AIRole ''b'', plain_msg [] HumanRole ''c'']"
      "\<lambda>ms. int (length ms)" "[]" 1]
  by auto

end
