(* ===== verification/Step_Contract.thy ===== *)
theory Step_Contract
  imports Chat_Messages
begin

text \<open>
  The contract of a sequential step (\<open>_step_contract.py\<close>): its deadline, the structured signal that a capability
  is unavailable, and the escalation packet with its fixed schema.

  Time is the monotonic clock, a real number.  A task started at some time ends at a later time with a value
  or an exception, or never (\<open>Hangs\<close>).  The supervisor thread of a synchronous tool is that of
  \<open>Tool_Cancellation\<close>; here only when it gives up matters.
\<close>

subsection \<open>Outcomes\<close>

datatype step_exn =
    StepTimeout
  | StepUnavailable string
  | OutputInvalid "string option" "string option" "string list"
  | ValueErr string
  | OtherExn string

datatype 'a outcome = Hangs | Ends real "step_exn + 'a"

fun bind_outcome :: "'a outcome \<Rightarrow> (real \<Rightarrow> 'a \<Rightarrow> 'b outcome) \<Rightarrow> 'b outcome" where
  "bind_outcome Hangs k = Hangs"
| "bind_outcome (Ends t (Inl e)) k = Ends t (Inl e)"
| "bind_outcome (Ends t (Inr x)) k = k t x"

fun map_result :: "(step_exn + 'a \<Rightarrow> step_exn + 'b) \<Rightarrow> 'a outcome \<Rightarrow> 'b outcome" where
  "map_result f Hangs = Hangs"
| "map_result f (Ends t r) = Ends t (f r)"

text \<open>A task started at a time does not end before it.\<close>

definition forward :: "(real \<Rightarrow> 'a \<Rightarrow> 'b outcome) \<Rightarrow> bool" where
  "forward task \<longleftrightarrow> (\<forall>now x t r. task now x = Ends t r \<longrightarrow> now \<le> t)"

subsection \<open>Deadlines\<close>

definition effective_deadline :: "real option \<Rightarrow> real option \<Rightarrow> real \<Rightarrow> real option" where
  "effective_deadline inherited timeout now =
     (case timeout of
        None \<Rightarrow> inherited
      | Some s \<Rightarrow> Some (case inherited of None \<Rightarrow> now + s | Some d \<Rightarrow> min (now + s) d))"

definition invoke_with_timeout ::
  "(real \<Rightarrow> 'a \<Rightarrow> 'b outcome) \<Rightarrow> 'a \<Rightarrow> real option \<Rightarrow> real option \<Rightarrow> real \<Rightarrow> 'b outcome" where
  "invoke_with_timeout task x inherited timeout now =
     (case effective_deadline inherited timeout now of
        None \<Rightarrow> task now x
      | Some d \<Rightarrow>
          (let until = now + max 0 (d - now) in
           case task now x of
             Hangs \<Rightarrow> Ends until (Inl StepTimeout)
           | Ends t r \<Rightarrow>
               if until < t then Ends until (Inl StepTimeout)
               else case r of
                      Inl e \<Rightarrow> Ends t (Inl e)
                    | Inr y \<Rightarrow> if d \<le> t then Ends t (Inl StepTimeout) else Ends t (Inr y)))"

definition has_deadline :: "real option \<Rightarrow> bool" where
  "has_deadline d \<longleftrightarrow> d \<noteq> None"

definition run_sync_tool :: "(real \<Rightarrow> 'b outcome) \<Rightarrow> real option \<Rightarrow> real \<Rightarrow> 'b outcome" where
  "run_sync_tool fn deadline now =
     (case deadline of
        None \<Rightarrow> fn now
      | Some d \<Rightarrow>
          if d - now \<le> 0 then Ends now (Inl StepTimeout)
          else case fn now of
                 Hangs \<Rightarrow> Ends d (Inl StepTimeout)
               | Ends t r \<Rightarrow> if d \<le> t then Ends d (Inl StepTimeout) else Ends t r)"

subsection \<open>The unavailable signal\<close>

text \<open>\<open>[A-Za-z_][A-Za-z0-9_.-]{0,127}\<close>, the whole text.\<close>

definition capability_start :: "char \<Rightarrow> bool" where
  "capability_start c \<longleftrightarrow> (CHR ''a'' \<le> lower_char c \<and> lower_char c \<le> CHR ''z'') \<or> c = CHR ''_''"

definition capability_char :: "char \<Rightarrow> bool" where
  "capability_char c \<longleftrightarrow> capability_start c \<or> (CHR ''0'' \<le> c \<and> c \<le> CHR ''9'') \<or> c = CHR ''.'' \<or> c = CHR ''-''"

definition capability_ok :: "string \<Rightarrow> bool" where
  "capability_ok s \<longleftrightarrow> s \<noteq> '''' \<and> capability_start (hd s) \<and> list_all capability_char (tl s) \<and> length s \<le> 128"

definition safe_capability :: "string \<Rightarrow> string" where
  "safe_capability s = (if capability_ok s then s else ''agent'')"

definition unavailable_error :: "string \<Rightarrow> step_exn" where
  "unavailable_error cap = StepUnavailable (safe_capability cap)"

definition check_unavailable :: "pyval \<Rightarrow> string \<Rightarrow> step_exn option" where
  "check_unavailable v cap =
     (case v of
        PDict d \<Rightarrow>
          if pget d ''availability'' = PStr ''unavailable''
          then Some (unavailable_error (case pget d ''capability'' of
                                          PStr s \<Rightarrow> if capability_ok s then s else cap
                                        | _ \<Rightarrow> cap))
          else None
      | _ \<Rightarrow> None)"

text \<open>The content of a tool message: text, or a list of blocks of which the texts are read.\<close>

datatype block = StrBlock string | TextBlock string | OtherBlock

datatype tool_content = PlainContent string | BlockContent "block list"

definition content_texts :: "tool_content \<Rightarrow> string list" where
  "content_texts c =
     (case c of
        PlainContent s \<Rightarrow> [s]
      | BlockContent bs \<Rightarrow> List.map_filter (\<lambda>b. case b of StrBlock s \<Rightarrow> Some s | TextBlock s \<Rightarrow> Some s | OtherBlock \<Rightarrow> None) bs)"

fun first_unavailable :: "(string \<Rightarrow> pyval option) \<Rightarrow> string \<Rightarrow> string list \<Rightarrow> step_exn option" where
  "first_unavailable loads cap [] = None"
| "first_unavailable loads cap (s # ss) =
     (case loads s of
        None \<Rightarrow> first_unavailable loads cap ss
      | Some v \<Rightarrow> (case check_unavailable v cap of None \<Rightarrow> first_unavailable loads cap ss | Some e \<Rightarrow> Some e))"

text \<open>The messages of a tool's result: the contents of its tool messages, \<open>None\<close> for any other message.\<close>

definition inspect_result :: "(string \<Rightarrow> pyval option) \<Rightarrow> string \<Rightarrow> tool_content option list \<Rightarrow> step_exn option" where
  "inspect_result loads tool results =
     first_unavailable loads tool (concat (map (\<lambda>m. case m of None \<Rightarrow> [] | Some c \<Rightarrow> content_texts c) results))"

subsection \<open>Evidence and escalation packets\<close>

record evidence =
  ev_step :: "string list"
  ev_key :: "string option"
  ev_data :: pyval

datatype reason = TimeoutReason | UnavailableReason | SchemaMissReason

record packet =
  pk_capability :: string
  pk_error :: string
  pk_reason :: reason
  pk_failed :: "string list"
  pk_evidence :: "evidence list"

definition schema_id :: string where
  "schema_id = ''urn:apx:sequential-escalation:v1''"

fun reason_text :: "reason \<Rightarrow> string" where
  "reason_text TimeoutReason = ''timeout''"
| "reason_text UnavailableReason = ''unavailable''"
| "reason_text SchemaMissReason = ''schema_miss''"

definition reason_of_text :: "string \<Rightarrow> reason option" where
  "reason_of_text s = find (\<lambda>r. reason_text r = s) [TimeoutReason, UnavailableReason, SchemaMissReason]"

definition evidence_value :: "evidence \<Rightarrow> pyval" where
  "evidence_value e =
     PDict [(''step'', PList (map PStr (ev_step e))),
            (''output_key'', case ev_key e of None \<Rightarrow> PNone | Some k \<Rightarrow> PStr k),
            (''data'', ev_data e)]"

definition packet_value :: "packet \<Rightarrow> pyval dict" where
  "packet_value p =
     [(''status'', PStr ''escalated''), (''availability'', PStr ''unavailable''),
      (''capability'', PStr (pk_capability p)), (''error'', PStr (pk_error p)),
      (''reason'', PStr (reason_text (pk_reason p))), (''failed_step'', PList (map PStr (pk_failed p))),
      (''evidence'', PList (map evidence_value (pk_evidence p)))]"

text \<open>Strict validation: exact types, no other key, \<open>status\<close> and \<open>availability\<close> optional.\<close>

definition str_of :: "pyval \<Rightarrow> string option" where
  "str_of v = (case v of PStr s \<Rightarrow> Some s | _ \<Rightarrow> None)"

definition strs_of :: "pyval \<Rightarrow> string list option" where
  "strs_of v = (case v of PList vs \<Rightarrow> those (map str_of vs) | _ \<Rightarrow> None)"

definition evidence_of :: "pyval \<Rightarrow> evidence option" where
  "evidence_of v =
     (case v of
        PDict d \<Rightarrow>
          if set (map fst d) = {''step'', ''output_key'', ''data''} then
            (case (strs_of (pget d ''step''), pget d ''output_key'') of
               (Some st, PNone) \<Rightarrow> Some \<lparr>ev_step = st, ev_key = None, ev_data = pget d ''data''\<rparr>
             | (Some st, PStr k) \<Rightarrow> Some \<lparr>ev_step = st, ev_key = Some k, ev_data = pget d ''data''\<rparr>
             | _ \<Rightarrow> None)
          else None
      | _ \<Rightarrow> None)"

definition literal_ok :: "pyval dict \<Rightarrow> string \<Rightarrow> string \<Rightarrow> bool" where
  "literal_ok d k v \<longleftrightarrow> (case dget d k of None \<Rightarrow> True | Some x \<Rightarrow> x = PStr v)"

definition packet_of :: "pyval dict \<Rightarrow> packet option" where
  "packet_of d =
     (if list_all (\<lambda>k. k \<in> set [''status'', ''availability'', ''capability'', ''error'', ''reason'', ''failed_step'', ''evidence''])
           (map fst d)
         \<and> literal_ok d ''status'' ''escalated'' \<and> literal_ok d ''availability'' ''unavailable'' then
        (case (str_of (pget d ''capability''), str_of (pget d ''error''),
               Option.bind (str_of (pget d ''reason'')) reason_of_text, strs_of (pget d ''failed_step''),
               (case pget d ''evidence'' of PList es \<Rightarrow> those (map evidence_of es) | _ \<Rightarrow> None)) of
           (Some c, Some e, Some r, Some f, Some evs) \<Rightarrow>
             if f = [] then None
             else Some \<lparr>pk_capability = c, pk_error = e, pk_reason = r, pk_failed = f, pk_evidence = evs\<rparr>
         | _ \<Rightarrow> None)
      else None)"

text \<open>The published message: the packet's JSON text (\<open>dumps\<close>) and its marked DataPart.\<close>

definition escalation_message :: "(pyval \<Rightarrow> string) \<Rightarrow> msg list \<Rightarrow> packet \<Rightarrow> step_exn + msg" where
  "escalation_message dumps ms p =
     (case packet_of (packet_value p) of
        None \<Rightarrow> Inl (ValueErr ''Escalation'')
      | Some q \<Rightarrow> Inr ((plain_msg ms AIRole (dumps (PDict (packet_value q))))
                         \<lparr>m_parts := [\<lparr>dp_data = packet_value q, dp_schema = Some schema_id\<rparr>]\<rparr>))"

fun read_parts :: "packet option \<Rightarrow> data_part list \<Rightarrow> step_exn + packet option" where
  "read_parts found [] = Inr found"
| "read_parts found (p # ps) =
     (if dp_schema p \<noteq> Some schema_id then read_parts found ps
      else case (found, packet_of (dp_data p)) of
             (None, Some q) \<Rightarrow> read_parts (Some q) ps
           | _ \<Rightarrow> Inl (ValueErr ''Invalid sequential escalation packet''))"

definition get_escalation :: "msg \<Rightarrow> step_exn + packet option" where
  "get_escalation m = read_parts None (m_parts m)"

subsection \<open>Results come in time\<close>

lemma bind_outcome_Ends: "bind_outcome x k = Ends t (Inr y) \<longleftrightarrow> (\<exists>u z. x = Ends u (Inr z) \<and> k u z = Ends t (Inr y))"
  by (cases "(x, k)" rule: bind_outcome.cases) auto

lemma forward_D: "forward task \<Longrightarrow> task now x = Ends t r \<Longrightarrow> now \<le> t"
  by (auto simp: forward_def)

lemma forward_bind:
  assumes "forward f" and "forward g"
  shows "forward (\<lambda>now x. bind_outcome (f now x) g)"
  unfolding forward_def
proof (intro allI impI)
  fix now x t r
  assume e: "bind_outcome (f now x) g = Ends t r"
  show "now \<le> t"
  proof (cases "f now x")
    case Hangs
    with e show ?thesis by simp
  next
    case (Ends u q)
    with forward_D [OF assms(1)] have u: "now \<le> u" by blast
    show ?thesis
    proof (cases q)
      case (Inl a)
      with Ends e u show ?thesis by simp
    next
      case (Inr y)
      with Ends e have "g u y = Ends t r" by simp
      with forward_D [OF assms(2)] have "u \<le> t" by blast
      with u show ?thesis by simp
    qed
  qed
qed

lemma effective_deadline_le:
  "effective_deadline inh (Some s) now = Some d \<Longrightarrow> d \<le> now + s"
  "effective_deadline (Some i) tm now = Some d \<Longrightarrow> d \<le> i"
  by (auto simp: effective_deadline_def split: option.splits)

lemma invoke_ends:
  assumes "effective_deadline inh tm now = Some d"
  shows "\<exists>t r. invoke_with_timeout task x inh tm now = Ends t r \<and> t \<le> max now d \<and> (\<forall>y. r = Inr y \<longrightarrow> t < d)"
proof (cases "task now x")
  case Hangs
  with assms show ?thesis by (auto simp: invoke_with_timeout_def Let_def max_def)
next
  case (Ends t r)
  have m: "now + max 0 (d - now) = max now d" by (simp add: max_def)
  from assms Ends show ?thesis
    by (cases r) (auto simp: invoke_with_timeout_def Let_def m)
qed

lemma invoke_result:
  assumes "effective_deadline inh tm now = Some d" and "invoke_with_timeout task x inh tm now = Ends t (Inr y)"
  shows "task now x = Ends t (Inr y) \<and> t < d"
  using assms
  by (cases "task now x")
     (auto simp: invoke_with_timeout_def Let_def split: sum.splits if_splits)

lemma forward_invoke: "forward task \<Longrightarrow> forward (\<lambda>now x. invoke_with_timeout task x inh tm now)"
  unfolding forward_def invoke_with_timeout_def
  by (fastforce simp: Let_def max_def split: option.splits outcome.splits sum.splits if_splits)

subsection \<open>Packets\<close>

lemma those_map_Some [simp]: "those (map Some xs) = Some xs"
  by (induction xs) auto

lemma strs_of_map [simp]: "strs_of (PList (map PStr ss)) = Some ss"
proof -
  have "map str_of (map PStr ss) = map Some ss" by (induction ss) (auto simp: str_of_def)
  then show ?thesis by (simp only: strs_of_def pyval.case those_map_Some)
qed

lemma reason_of_text [simp]: "reason_of_text (reason_text r) = Some r"
  by (cases r) (simp_all add: reason_of_text_def)

lemma evidence_of_value [simp]: "evidence_of (evidence_value e) = Some e"
  by (cases "ev_key e") (simp_all add: evidence_of_def evidence_value_def pget_def insert_commute)

lemma evidence_list [simp]: "those (map evidence_of (map evidence_value es)) = Some es"
proof -
  have "map evidence_of (map evidence_value es) = map Some es" by (induction es) auto
  then show ?thesis by (simp only: those_map_Some)
qed

lemma packet_of_value: "packet_of (packet_value p) = (if pk_failed p = [] then None else Some p)"
proof -
  have e: "(case PList (map evidence_value (pk_evidence p)) of PList es \<Rightarrow> those (map evidence_of es) | _ \<Rightarrow> None)
      = Some (pk_evidence p)"
    by (simp only: pyval.case evidence_list)
  show ?thesis
    unfolding packet_of_def packet_value_def
    by (simp add: pget_def literal_ok_def str_of_def e del: map_map)
qed

lemma packet_read_back:
  assumes "escalation_message dumps ms p = Inr m"
  shows "get_escalation m = Inr (Some p)"
  using assms
  by (auto simp: escalation_message_def packet_of_value get_escalation_def split: if_splits)

lemma unavailable_capability_safe:
  assumes "check_unavailable v cap = Some e"
  shows "\<exists>c. e = StepUnavailable c \<and> capability_ok c"
proof -
  have "capability_ok (safe_capability c)" for c
    by (simp add: safe_capability_def capability_ok_def capability_start_def capability_char_def lower_char_def)
  with assms show ?thesis
    by (auto simp: check_unavailable_def unavailable_error_def split: pyval.splits if_splits)
qed

text \<open>
  C35:
  An escalation packet survives its publication: the message that carries it is read back as the same packet, and a
  packet without a failed step is never published.\<close>

theorem packet_roundtrip:
  assumes "escalation_message dumps ms p = Inr m"
  shows "get_escalation m = Inr (Some p) \<and> pk_failed p \<noteq> []"
  using packet_read_back [OF assms] assms by (auto simp: escalation_message_def packet_of_value split: if_splits)

theorem packet_roundtrip_witness:
  "\<exists>m. get_escalation m = Inr (Some \<lparr>pk_capability = ''agent'', pk_error = ''late'', pk_reason = TimeoutReason,
     pk_failed = [''pipeline'', ''scan''], pk_evidence = [\<lparr>ev_step = [''pipeline'', ''intake''], ev_key = None, ev_data = PInt 3\<rparr>]\<rparr>)"
proof -
  let ?p = "\<lparr>pk_capability = ''agent'', pk_error = ''late'', pk_reason = TimeoutReason,
     pk_failed = [''pipeline'', ''scan''], pk_evidence = [\<lparr>ev_step = [''pipeline'', ''intake''], ev_key = None, ev_data = PInt 3\<rparr>]\<rparr>"
  have "\<exists>m. escalation_message (\<lambda>v. '''') [] ?p = Inr m" by (simp add: escalation_message_def packet_of_value)
  then obtain m where "escalation_message (\<lambda>v. '''') [] ?p = Inr m" by blast
  from packet_roundtrip [OF this] show ?thesis by blast
qed

end
