(* ===== verification/Agent_Node.thy ===== *)
theory Agent_Node
  imports Keyed_State Step_Contract
begin

text \<open>
  One agent as a node of a compiled graph (\<open>_compile.py\<close>): the runnable of an \<open>LlmAgent\<close> or of the remote peer
  bound to its name, and the wrapper that applies its guardrails, callbacks, templating, output contract and
  deadline (\<open>_wrap_agent_node\<close>).

  What langgraph, langchain and the model do is an \<open>engine\<close>, an argument of every definition: the reducer of the
  message channel, a model turn with its tools, a remote reply, a routing call and the JSON and template texts.
  A schema is its strict validation: the errors' types, or the validated object dumped as JSON data.  Callbacks
  and guardrails take no time of their own and are given as functions; native invocations (an \<open>input_preparation\<close>,
  artifacts with digests) are not modelled.  \<open>g_log\<close> is a ghost: which hooks and agents ran, oldest first.
\<close>

subsection \<open>Agents and state\<close>

record leaf =
  lf_name :: "string option"
  lf_description :: "string option"
  lf_instructions :: string
  lf_tools :: "string list"
  lf_max_iterations :: "int option"
  lf_schema :: "(string \<Rightarrow> string list + pyval) option"
  lf_schema_text :: string
  lf_input :: "(string \<times> (pyval \<Rightarrow> step_exn option)) option"
  lf_prepares :: bool
  lf_output_tool :: "string option"
  lf_output_key :: "string option"
  lf_status_path :: "string list option"
  lf_message_path :: "string list option"
  lf_replies_path :: "string list option"
  lf_timeout :: "real option"
  lf_in_guards :: "(msg list \<Rightarrow> string option) list"
  lf_out_guards :: "(string \<Rightarrow> string option) list"
  lf_before :: "(msg list \<Rightarrow> step_exn option) option"
  lf_after :: "(string \<Rightarrow> step_exn option) option"

datatype hook = BeforeHook "string option" | AfterHook "string option" string | LeafRun "string option" | Turn string

record gstate =
  g_messages :: "msg list"
  g_state :: "pyval dict"
  g_escalation :: "packet option"
  g_evidence :: "evidence list"
  g_log :: "hook list"

type_synonym node = "real \<Rightarrow> gstate \<Rightarrow> gstate outcome"

record binding =
  b_name :: string
  b_targets :: "string list"

record reply =
  rp_text :: string
  rp_control :: "(string \<times> string option) option"
  rp_parts :: "data_part list"

text \<open>What \<open>create_agent\<close> is given of an agent: its tools by name, its baked prompt and its step limit.\<close>

record llm_spec =
  ls_name :: "string option"
  ls_tools :: "string list"
  ls_prompt :: "string option"
  ls_limit :: "int option"

record engine =
  e_append :: "msg list \<Rightarrow> msg list \<Rightarrow> msg list"
  e_llm :: "llm_spec \<Rightarrow> real \<Rightarrow> msg list \<Rightarrow> pyval dict \<Rightarrow> (msg list \<times> pyval dict) outcome"
  e_remote :: "binding \<Rightarrow> real \<Rightarrow> msg list \<Rightarrow> reply outcome"
  e_route :: "string \<Rightarrow> (string \<times> string) list \<Rightarrow> real \<Rightarrow> msg list \<Rightarrow> string list outcome"
  e_dumps :: "pyval \<Rightarrow> string"
  e_packet_dumps :: "pyval \<Rightarrow> string"
  e_show :: "pyval \<Rightarrow> string"

text \<open>The part of the compile context that decides how an agent runs.\<close>

record compile_ctx =
  cx_bindings :: "binding dict"
  cx_escalate :: bool
  cx_path :: "string list"

text \<open>What a node returned goes through the reducers of its graph's channels.\<close>

definition publish :: "engine \<Rightarrow> gstate \<Rightarrow> gstate \<Rightarrow> gstate" where
  "publish e s s' =
     s'\<lparr>g_messages := e_append e (g_messages s) (g_messages s'),
        g_state := merge_state (Some (g_state s)) (Some (g_state s'))\<rparr>"

definition publish_node :: "engine \<Rightarrow> node \<Rightarrow> node" where
  "publish_node e nd now s = bind_outcome (nd now s) (\<lambda>t s'. Ends t (Inr (publish e s s')))"

definition add_log :: "hook \<Rightarrow> gstate \<Rightarrow> gstate" where
  "add_log h s = s\<lparr>g_log := g_log s @ [h]\<rparr>"

subsection \<open>Runnables\<close>

text \<open>A template in the instructions: \<open>_TEMPLATE_KEY.search\<close>.\<close>

fun has_key :: "string \<Rightarrow> bool" where
  "has_key [] = False"
| "has_key (c # s) = ((c = CHR 0x7B \<and> match_key s \<noteq> None) \<or> has_key s)"

definition has_template :: "leaf \<Rightarrow> bool" where
  "has_template lf \<longleftrightarrow> lf_instructions lf \<noteq> '''' \<and> has_key (lf_instructions lf)"

definition nonempty_key :: "string option \<Rightarrow> bool" where
  "nonempty_key k \<longleftrightarrow> k \<noteq> None \<and> k \<noteq> Some ''''"

definition needs_node_wrap :: "leaf \<Rightarrow> bool" where
  "needs_node_wrap lf \<longleftrightarrow>
     lf_in_guards lf \<noteq> [] \<or> lf_out_guards lf \<noteq> [] \<or> lf_before lf \<noteq> None \<or> lf_after lf \<noteq> None
     \<or> nonempty_key (lf_output_key lf) \<or> lf_schema lf \<noteq> None \<or> lf_input lf \<noteq> None \<or> has_template lf"

text \<open>The cap on a model's tool rounds, in graph steps.\<close>

definition recursion_limit :: "leaf \<Rightarrow> int option" where
  "recursion_limit lf =
     (case lf_max_iterations lf of
        None \<Rightarrow> None
      | Some n \<Rightarrow> Some (if lf_output_tool lf \<noteq> None then n * 3 + 3 else n * 2 + 1))"

definition llm_spec_of :: "leaf \<Rightarrow> bool \<Rightarrow> string list \<Rightarrow> llm_spec" where
  "llm_spec_of lf bake extra =
     \<lparr>ls_name = lf_name lf, ls_tools = lf_tools lf @ extra,
      ls_prompt = (if bake \<and> lf_instructions lf \<noteq> '''' then Some (lf_instructions lf) else None),
      ls_limit = recursion_limit lf\<rparr>"

text \<open>Two tools may not share a name; the extra tools are a loop's \<open>finish_loop\<close> or a hand-off's transfers.\<close>

definition compile_llm :: "engine \<Rightarrow> leaf \<Rightarrow> bool \<Rightarrow> string list \<Rightarrow> step_exn + node" where
  "compile_llm e lf bake extra =
     (if \<not> distinct (lf_tools lf @ extra) then Inl (ValueErr ''duplicate tool name(s)'')
      else Inr (\<lambda>now s.
        bind_outcome (e_llm e (llm_spec_of lf bake extra) now (g_messages s) (g_state s))
          (\<lambda>t (ms, st). Ends t (Inr (add_log (LeafRun (lf_name lf)) (s\<lparr>g_messages := ms, g_state := st\<rparr>))))))"

definition transfer_prefix :: string where
  "transfer_prefix = ''transfer_to_''"

text \<open>A remote peer answers with text, or with a control call the local router reads as its own.\<close>

definition remote_reply :: "binding \<Rightarrow> msg list \<Rightarrow> reply \<Rightarrow> step_exn + msg" where
  "remote_reply b ms r =
     (let m = (plain_msg ms AIRole (rp_text r))\<lparr>m_parts := rp_parts r\<rparr> in
      case rp_control r of
        None \<Rightarrow> Inr m
      | Some (name, cid) \<Rightarrow>
          if starts_with transfer_prefix name \<and> drop (length transfer_prefix) name \<notin> set (b_targets b)
          then Inl (OtherExn ''transfer to unknown target'')
          else Inr (m\<lparr>m_calls := [\<lparr>tc_name = name,
                 tc_id = (if nonempty_key cid then the cid else b_name b @ ''-control'')\<rparr>]\<rparr>))"

definition compile_remote :: "engine \<Rightarrow> leaf \<Rightarrow> binding \<Rightarrow> node" where
  "compile_remote e lf b now s =
     bind_outcome (map_result (\<lambda>r. case r of Inl x \<Rightarrow> Inl (OtherExn (''Stage '' @ py_repr (b_name b) @ '' failed'')) | Inr y \<Rightarrow> Inr y)
                     (e_remote e b now (g_messages s)))
       (\<lambda>t r. case remote_reply b (g_messages s) r of
          Inl x \<Rightarrow> Ends t (Inl x)
        | Inr m \<Rightarrow> Ends t (Inr (add_log (LeafRun (lf_name lf)) (s\<lparr>g_messages := e_append e (g_messages s) [m]\<rparr>))))"

subsection \<open>The wrapper\<close>

fun first_some :: "('a \<Rightarrow> string option) list \<Rightarrow> 'a \<Rightarrow> string option" where
  "first_some [] x = None"
| "first_some (g # gs) x = (case g x of None \<Rightarrow> first_some gs x | Some r \<Rightarrow> Some r)"

definition invoke_callback :: "('a \<Rightarrow> step_exn option) option \<Rightarrow> 'a \<Rightarrow> step_exn option" where
  "invoke_callback cb x = (case cb of None \<Rightarrow> None | Some f \<Rightarrow> f x)"

definition typed_leaf :: "leaf \<Rightarrow> bool" where
  "typed_leaf lf \<longleftrightarrow> lf_schema lf \<noteq> None"

definition output_invalid :: "leaf \<Rightarrow> string list \<Rightarrow> step_exn" where
  "output_invalid lf types = OutputInvalid (lf_name lf) (lf_output_key lf) types"

definition input_error :: "leaf \<Rightarrow> pyval dict \<Rightarrow> step_exn option" where
  "input_error lf keyed = (case lf_input lf of None \<Rightarrow> None | Some (k, check) \<Rightarrow> check (pget keyed k))"

definition newline :: string where
  "newline = [CHR 0x0A]"

definition inner_messages :: "engine \<Rightarrow> leaf \<Rightarrow> bool \<Rightarrow> pyval dict \<Rightarrow> msg list \<Rightarrow> msg list" where
  "inner_messages e lf templated keyed ms =
     (if templated \<or> typed_leaf lf then
        (let rendered = render_template (e_show e) keyed (lf_instructions lf)
           @ (if typed_leaf lf then newline @ ''Return your final answer as JSON matching this schema. ''
                @ ''Do not include Markdown fences or prose outside the JSON.'' @ newline @ lf_schema_text lf else '''')
         in if typed_leaf lf then
              plain_msg ms SystemRole (join newline (map m_text (filter is_system ms) @ [rendered]))
                # filter (\<lambda>m. \<not> is_system m) ms
            else plain_msg ms SystemRole rendered # ms)
      else ms)"

text \<open>The one execution of the declared output tool in this leaf's own messages, which must have left a text.\<close>

definition output_tool_result :: "string \<Rightarrow> msg list \<Rightarrow> string + string" where
  "output_tool_result tool new =
     (let calls = filter (\<lambda>c. tc_name c = tool) (concat (map m_calls (filter is_ai new)));
          outputs = filter (\<lambda>m. is_tool m \<and> m_call_id m \<in> tc_id ` set calls) new
      in if length calls \<noteq> 1 \<or> length outputs \<noteq> 1 \<or> \<not> m_ok (hd outputs) \<or> last_ai new = None
         then Inl ''required_tool_execution''
         else if \<not> m_plain (hd outputs) then Inl ''output_tool_json_text''
         else Inr (m_text (hd outputs)))"

definition replace_msg :: "msg \<Rightarrow> msg \<Rightarrow> msg list \<Rightarrow> msg list" where
  "replace_msg old new ms = map (\<lambda>m. if m_ref m = m_ref old then new else m) ms"

text \<open>A leaf's answer so far: its new messages, its last assistant message and the text it stands for.\<close>

record answer =
  an_new :: "msg list"
  an_last :: "msg option"
  an_text :: string

definition leaf_answer :: "leaf \<Rightarrow> msg list \<Rightarrow> step_exn + answer" where
  "leaf_answer lf new =
     (let text = (case last_ai new of None \<Rightarrow> '''' | Some m \<Rightarrow> m_text m) in
      case lf_output_tool lf of
        None \<Rightarrow> Inr \<lparr>an_new = new, an_last = last_ai new, an_text = text\<rparr>
      | Some tool \<Rightarrow>
          (case output_tool_result tool new of
             Inl fault \<Rightarrow> Inl (output_invalid lf [fault])
           | Inr t \<Rightarrow>
               (let m = plain_msg new AIRole t
                in Inr \<lparr>an_new = new @ [m], an_last = Some m, an_text = t\<rparr>)))"

definition part_value :: "data_part \<Rightarrow> pyval" where
  "part_value p =
     PDict ([(''kind'', PStr ''data''), (''data'', PDict (dp_data p))]
            @ (case dp_schema p of None \<Rightarrow> [] | Some i \<Rightarrow> [(''metadata'', PDict [(''schema_id'', PStr i)])]))"

definition guard_text :: "engine \<Rightarrow> leaf \<Rightarrow> answer \<Rightarrow> string" where
  "guard_text e lf a =
     an_text a @ (case an_last a of
        Some m \<Rightarrow> if lf_out_guards lf \<noteq> [] \<and> m_parts m \<noteq> []
          then newline @ e_dumps e (PList (map part_value (m_parts m))) else ''''
      | None \<Rightarrow> '''')"

definition replaced_answer :: "answer \<Rightarrow> string \<Rightarrow> msg list" where
  "replaced_answer a r =
     (case an_last a of
        Some m \<Rightarrow> replace_msg m (plain_msg (an_new a) AIRole r) (an_new a)
      | None \<Rightarrow> [plain_msg (an_new a) AIRole r])"

text \<open>A packet from the leaf's own nested sequence (a remote peer): its steps are put under this one.\<close>

definition nest_packet :: "string list \<Rightarrow> evidence list \<Rightarrow> packet \<Rightarrow> packet" where
  "nest_packet path ev p =
     p\<lparr>pk_failed := path @ pk_failed p,
       pk_evidence := ev @ map (\<lambda>x. x\<lparr>ev_step := path @ ev_step x\<rparr>) (pk_evidence p)\<rparr>"

fun parts_unavailable :: "data_part list \<Rightarrow> step_exn option" where
  "parts_unavailable [] = None"
| "parts_unavailable (p # ps) =
     (case check_unavailable (PDict (dp_data p)) ''agent'' of None \<Rightarrow> parts_unavailable ps | Some x \<Rightarrow> Some x)"

text \<open>The declared output: validated from the one DataPart or from the text, dumped, and put on the message.\<close>

definition typed_payload :: "engine \<Rightarrow> leaf \<Rightarrow> (string \<Rightarrow> string list + pyval) \<Rightarrow> answer \<Rightarrow> step_exn + pyval" where
  "typed_payload e lf validate a =
     (case an_last a of
        None \<Rightarrow> Inl (output_invalid lf [''missing_final_answer''])
      | Some m \<Rightarrow>
          if m_calls m \<noteq> [] then Inl (output_invalid lf [''missing_final_answer''])
          else if 1 < length (m_parts m) then Inl (output_invalid lf [''validator_ValueError''])
          else (case validate (case m_parts m of [] \<Rightarrow> an_text a | p # ps \<Rightarrow> e_dumps e (PDict (dp_data p))) of
                  Inl types \<Rightarrow> Inl (output_invalid lf types)
                | Inr v \<Rightarrow> Inr v))"

definition typed_message :: "engine \<Rightarrow> pyval \<Rightarrow> msg \<Rightarrow> msg" where
  "typed_message e payload m =
     m\<lparr>m_text := e_dumps e payload,
       m_parts := (case payload of
          PDict d \<Rightarrow> [\<lparr>dp_data = d, dp_schema = (case m_parts m of [] \<Rightarrow> None | p # ps \<Rightarrow> dp_schema p)\<rparr>]
        | _ \<Rightarrow> [])\<rparr>"

definition typed_answer :: "engine \<Rightarrow> leaf \<Rightarrow> answer \<Rightarrow> step_exn + answer \<times> pyval" where
  "typed_answer e lf a =
     (case lf_schema lf of
        None \<Rightarrow> Inr (a, PStr (an_text a))
      | Some validate \<Rightarrow>
          (case typed_payload e lf validate a of
             Inl x \<Rightarrow> Inl x
           | Inr v \<Rightarrow>
               (case an_last a of
                  None \<Rightarrow> Inl (output_invalid lf [''missing_final_answer''])
                | Some m \<Rightarrow> Inr (a\<lparr>an_new := replace_msg m (typed_message e v m) (an_new a),
                                    an_text := e_dumps e v\<rparr>, v))))"

text \<open>What the wrapped agent wrote: its tools' state and its output under \<open>output_key\<close>.\<close>

definition node_state :: "leaf \<Rightarrow> pyval dict \<Rightarrow> pyval \<Rightarrow> pyval dict" where
  "node_state lf inner payload =
     (if nonempty_key (lf_output_key lf) then dset (the (lf_output_key lf)) payload inner else inner)"

text \<open>From the validated answer on: the hook, the keyed output and the evidence.\<close>

definition finish_node :: "engine \<Rightarrow> compile_ctx \<Rightarrow> leaf \<Rightarrow> gstate \<Rightarrow> pyval dict \<Rightarrow> answer \<Rightarrow> pyval \<Rightarrow> step_exn + gstate" where
  "finish_node e c lf s inner a payload =
     (case invoke_callback (lf_after lf) (an_text a) of
        Some x \<Rightarrow> Inl x
      | None \<Rightarrow>
          Inr (s\<lparr>g_messages := e_append e (g_messages s) (an_new a),
                 g_state := merge_state (Some (g_state s)) (Some (node_state lf inner payload)),
                 g_evidence := (if cx_path c \<noteq> [] \<and> typed_leaf lf
                    then g_evidence s @ [\<lparr>ev_step = cx_path c, ev_key = lf_output_key lf, ev_data = payload\<rparr>]
                    else g_evidence s),
                 g_log := g_log s @ (if lf_after lf = None then [] else [AfterHook (lf_name lf) (an_text a)])\<rparr>))"

text \<open>The answer's way out: escalation first, then the output contract.\<close>

definition settle_answer :: "engine \<Rightarrow> compile_ctx \<Rightarrow> leaf \<Rightarrow> gstate \<Rightarrow> pyval dict \<Rightarrow> answer \<Rightarrow> step_exn + gstate" where
  "settle_answer e c lf s inner a =
     (let contract = (case typed_answer e lf a of
            Inl x \<Rightarrow> Inl x | Inr (a', payload) \<Rightarrow> finish_node e c lf s inner a' payload)
      in case (if cx_escalate c then an_last a else None) of
           None \<Rightarrow> contract
         | Some m \<Rightarrow>
             (case get_escalation m of
                Inl x \<Rightarrow> Inl x
              | Inr (Some p) \<Rightarrow>
                  (let q = nest_packet (cx_path c) (g_evidence s) p in
                   case escalation_message (e_packet_dumps e) (g_messages s) q of
                     Inl x \<Rightarrow> Inl x
                   | Inr em \<Rightarrow> Inr (s\<lparr>g_messages := e_append e (g_messages s) [em], g_escalation := Some q\<rparr>))
              | Inr None \<Rightarrow> (case parts_unavailable (m_parts m) of Some x \<Rightarrow> Inl x | None \<Rightarrow> contract)))"

definition after_model :: "engine \<Rightarrow> compile_ctx \<Rightarrow> leaf \<Rightarrow> gstate \<Rightarrow> msg list \<Rightarrow> pyval dict \<Rightarrow> step_exn + gstate" where
  "after_model e c lf s new inner =
     (case leaf_answer lf new of
        Inl x \<Rightarrow> Inl x
      | Inr a \<Rightarrow>
          (case first_some (lf_out_guards lf) (guard_text e lf a) of
             Some r \<Rightarrow>
               if typed_leaf lf then Inl (output_invalid lf [''output_guardrail''])
               else Inr (s\<lparr>g_messages := e_append e (g_messages s) (replaced_answer a r)\<rparr>)
           | None \<Rightarrow> settle_answer e c lf s inner a))"

definition leaf_node :: "engine \<Rightarrow> compile_ctx \<Rightarrow> leaf \<Rightarrow> bool \<Rightarrow> node \<Rightarrow> node" where
  "leaf_node e c lf templated runnable now s =
     (if lf_prepares lf then Ends now (Inl (ValueErr ''input_preparation requires a bound native leaf''))
      else case input_error lf (g_state s) of
        Some x \<Rightarrow> Ends now (Inl x)
      | None \<Rightarrow>
      (case invoke_callback (lf_before lf) (g_messages s) of
        Some x \<Rightarrow> Ends now (Inl x)
      | None \<Rightarrow>
      (let s0 = (if lf_before lf = None then s else add_log (BeforeHook (lf_name lf)) s) in
       case first_some (lf_in_guards lf) (g_messages s) of
        Some r \<Rightarrow>
          if typed_leaf lf then Ends now (Inl (output_invalid lf [''input_guardrail'']))
          else Ends now (Inr (s0\<lparr>g_messages := e_append e (g_messages s) [plain_msg (g_messages s) AIRole r]\<rparr>))
      | None \<Rightarrow>
          (let inner = inner_messages e lf templated (g_state s) (g_messages s) in
           bind_outcome (runnable now (s0\<lparr>g_messages := inner\<rparr>))
             (\<lambda>t r. Ends t (after_model e c lf (s0\<lparr>g_log := g_log r\<rparr>) (drop (length inner) (g_messages r)) (g_state r)))))))"

definition wrap_agent_node :: "engine \<Rightarrow> compile_ctx \<Rightarrow> leaf \<Rightarrow> bool \<Rightarrow> node \<Rightarrow> node" where
  "wrap_agent_node e c lf templated runnable now s =
     (case lf_timeout lf of
        None \<Rightarrow> leaf_node e c lf templated runnable now s
      | Some tm \<Rightarrow> invoke_with_timeout (leaf_node e c lf templated runnable) s None (Some tm) now)"

text \<open>The leaf case of \<open>_compile_any\<close>.\<close>

definition leaf_binding :: "compile_ctx \<Rightarrow> leaf \<Rightarrow> binding option" where
  "leaf_binding c lf = (case lf_name lf of None \<Rightarrow> None | Some n \<Rightarrow> dget (cx_bindings c) n)"

definition is_wrapped :: "compile_ctx \<Rightarrow> leaf \<Rightarrow> bool" where
  "is_wrapped c lf \<longleftrightarrow> needs_node_wrap lf \<or> cx_escalate c \<or> lf_timeout lf \<noteq> None"

definition compile_leaf :: "engine \<Rightarrow> compile_ctx \<Rightarrow> leaf \<Rightarrow> step_exn + node" where
  "compile_leaf e c lf =
     (if lf_prepares lf then Inl (ValueErr ''input_preparation requires a bound native leaf'')
      else case (case leaf_binding c lf of
                   Some b \<Rightarrow> Inr (compile_remote e lf b)
                 | None \<Rightarrow> compile_llm e lf (\<not> has_template lf \<and> \<not> typed_leaf lf) []) of
             Inl x \<Rightarrow> Inl x
           | Inr runnable \<Rightarrow>
               Inr (if is_wrapped c lf then wrap_agent_node e c lf (has_template lf) runnable else runnable))"

end
