(* ===== verification/Composition_Graph.thy ===== *)
theory Composition_Graph
  imports Agent_Node
begin

text \<open>
  Agent compositions and the graphs they compile to (\<open>_agents.py\<close>, \<open>_compile.py\<close>): sequences with halting,
  escalation and typed entry, parallel branches, loops, routers and hand-offs.

  A compiled agent is a \<open>node\<close>: from a start time and a state to an outcome.  The graph runtime runs one node after
  the other along the edges the code declares and merges what a node returns into the channels (\<open>publish\<close>); the
  runtime's own step limit is not modelled.  The branches of a parallel agent run from the same state; when some
  fail, the failure that comes first ends the graph.
\<close>

subsection \<open>Agents\<close>

record seq_opts =
  sq_name :: "string option"
  sq_instructions :: string
  sq_escalate :: bool
  sq_halts :: "string list"

datatype agent =
    Leaf leaf
  | Sequential seq_opts "agent list"
  | Parallel string "agent list"
  | Loop leaf int
  | Router string "route list"
  | Keyword "branch list" agent
  | Handoff "(string \<times> leaf) list" string int
and route = Route string string agent
and branch = Branch string agent "string list"

fun route_name :: "route \<Rightarrow> string" where "route_name (Route n d a) = n"
fun route_agent :: "route \<Rightarrow> agent" where "route_agent (Route n d a) = a"
fun branch_name :: "branch \<Rightarrow> string" where "branch_name (Branch n a ks) = n"
fun branch_keywords :: "branch \<Rightarrow> string list" where "branch_keywords (Branch n a ks) = ks"
fun branch_agent :: "branch \<Rightarrow> agent" where "branch_agent (Branch n a ks) = a"

text \<open>\<open>_has_typed_output\<close> and \<open>_has_step_policy\<close>.\<close>

primrec has_typed_output :: "agent \<Rightarrow> bool"
  and route_typed :: "route \<Rightarrow> bool" and branch_typed :: "branch \<Rightarrow> bool" where
  "has_typed_output (Leaf lf) = typed_leaf lf"
| "has_typed_output (Sequential opts as) = list_ex id (map has_typed_output as)"
| "has_typed_output (Parallel i as) = list_ex id (map has_typed_output as)"
| "has_typed_output (Loop lf n) = typed_leaf lf"
| "has_typed_output (Router i rs) = list_ex id (map route_typed rs)"
| "has_typed_output (Keyword bs d) = (list_ex id (map branch_typed bs) \<or> has_typed_output d)"
| "has_typed_output (Handoff ms st n) = list_ex (\<lambda>(n, lf). typed_leaf lf) ms"
| "route_typed (Route n d a) = has_typed_output a"
| "branch_typed (Branch n a ks) = has_typed_output a"

primrec has_step_policy :: "agent \<Rightarrow> bool"
  and route_policy :: "route \<Rightarrow> bool" and branch_policy :: "branch \<Rightarrow> bool" where
  "has_step_policy (Leaf lf) = (lf_timeout lf \<noteq> None)"
| "has_step_policy (Sequential opts as) = (sq_escalate opts \<or> list_ex id (map has_step_policy as))"
| "has_step_policy (Parallel i as) = list_ex id (map has_step_policy as)"
| "has_step_policy (Loop lf n) = (lf_timeout lf \<noteq> None)"
| "has_step_policy (Router i rs) = list_ex id (map route_policy rs)"
| "has_step_policy (Keyword bs d) = (list_ex id (map branch_policy bs) \<or> has_step_policy d)"
| "has_step_policy (Handoff ms st n) = list_ex (\<lambda>(n, lf). lf_timeout lf \<noteq> None) ms"
| "route_policy (Route n d a) = has_step_policy a"
| "branch_policy (Branch n a ks) = has_step_policy a"

definition agent_name :: "agent \<Rightarrow> string option" where
  "agent_name a = (case a of Leaf lf \<Rightarrow> lf_name lf | Sequential opts as \<Rightarrow> sq_name opts | _ \<Rightarrow> None)"

subsection \<open>Names of nodes\<close>

text \<open>A name that is taken gets the position appended; langgraph refuses a node that still exists.\<close>

fun node_names :: "string \<Rightarrow> nat \<Rightarrow> string list \<Rightarrow> agent list \<Rightarrow> string list" where
  "node_names prefix i taken [] = taken"
| "node_names prefix i taken (a # as) =
     (let name = (if nonempty_key (agent_name a) then the (agent_name a) else prefix @ show_nat i);
          name' = (if name \<in> set taken then name @ ''_'' @ show_nat i else name)
      in node_names prefix (Suc i) (taken @ [name']) as)"

subsection \<open>Halting, messages and the typed entry of a sequence\<close>

definition state_path :: "pyval dict \<Rightarrow> string \<Rightarrow> string list \<Rightarrow> pyval" where
  "state_path st k path = fold (\<lambda>p v. case v of PDict d \<Rightarrow> pget d p | _ \<Rightarrow> PNone) path (pget st k)"

definition leaf_halt :: "leaf \<Rightarrow> string list \<Rightarrow> (pyval dict \<Rightarrow> bool) option" where
  "leaf_halt lf statuses =
     (case lf_status_path lf of
        Some path \<Rightarrow>
          if statuses = [] \<or> \<not> nonempty_key (lf_output_key lf) \<or> path = [] then None
          else Some (\<lambda>st. case state_path st (the (lf_output_key lf)) path of PStr s \<Rightarrow> s \<in> set statuses | _ \<Rightarrow> False)
      | None \<Rightarrow> None)"

text \<open>A nested sequence halts its parent when any of its own steps halted it.\<close>

definition any_check :: "(pyval dict \<Rightarrow> bool) option list \<Rightarrow> (pyval dict \<Rightarrow> bool) option" where
  "any_check cs =
     (if list_all (\<lambda>c. c = None) cs then None
      else Some (\<lambda>st. list_ex (\<lambda>c. case c of None \<Rightarrow> False | Some f \<Rightarrow> f st) cs))"

primrec halt_check :: "agent \<Rightarrow> string list \<Rightarrow> (pyval dict \<Rightarrow> bool) option"
  and halt_route :: "route \<Rightarrow> bool" and halt_branch :: "branch \<Rightarrow> bool" where
  "halt_check (Leaf lf) = leaf_halt lf"
| "halt_check (Sequential opts as) = (\<lambda>statuses. any_check (map (\<lambda>f. f (sq_halts opts)) (map halt_check as)))"
| "halt_check (Parallel i as) = (\<lambda>statuses. None)"
| "halt_check (Loop lf n) = (\<lambda>statuses. None)"
| "halt_check (Router i rs) = (\<lambda>statuses. None)"
| "halt_check (Keyword bs d) = (\<lambda>statuses. None)"
| "halt_check (Handoff ms st n) = (\<lambda>statuses. None)"
| "halt_route (Route n d a) = False"
| "halt_branch (Branch n a ks) = False"

text \<open>The step's declared text for a person, with its DataParts and its quick replies.\<close>

definition quick_replies :: "pyval dict \<Rightarrow> string \<Rightarrow> string list option \<Rightarrow> string list" where
  "quick_replies st k path =
     (case path of
        None \<Rightarrow> []
      | Some p \<Rightarrow>
          if p = [] then []
          else (case state_path st k p of
             PList vs \<Rightarrow>
               (case those (map str_of vs) of
                  Some rs \<Rightarrow> if 1 \<le> length rs \<and> length rs \<le> 4
                       \<and> list_all (\<lambda>r. 1 \<le> length (strip r) \<and> length (strip r) \<le> 40) rs
                     then map strip rs else []
                | None \<Rightarrow> [])
           | _ \<Rightarrow> []))"

definition halt_message :: "agent \<Rightarrow> (gstate \<Rightarrow> msg option) option" where
  "halt_message a =
     (case a of
        Leaf lf \<Rightarrow>
          (case lf_message_path lf of
             Some path \<Rightarrow>
               if \<not> nonempty_key (lf_output_key lf) \<or> path = [] then None
               else Some (\<lambda>s.
                 case state_path (g_state s) (the (lf_output_key lf)) path of
                   PStr t \<Rightarrow>
                     if t = '''' then None
                     else Some ((plain_msg (g_messages s) AIRole t)
                        \<lparr>m_parts := (case last_ai (g_messages s) of None \<Rightarrow> [] | Some m \<Rightarrow> m_parts m),
                          m_answer := True,
                          m_replies := quick_replies (g_state s) (the (lf_output_key lf)) (lf_replies_path lf)\<rparr>)
                 | _ \<Rightarrow> None)
           | None \<Rightarrow> None)
      | _ \<Rightarrow> None)"

definition emit_message :: "engine \<Rightarrow> (gstate \<Rightarrow> msg option) option \<Rightarrow> gstate \<Rightarrow> gstate" where
  "emit_message e emit s =
     (case emit of
        None \<Rightarrow> s
      | Some f \<Rightarrow> (case f s of None \<Rightarrow> s | Some m \<Rightarrow> s\<lparr>g_messages := e_append e (g_messages s) [m]\<rparr>))"

text \<open>\<open>input_leaf\<close>, followed to the input schema of the agent it ends at.\<close>

primrec input_typed :: "agent \<Rightarrow> bool"
  and input_typed_route :: "route \<Rightarrow> bool" and input_typed_branch :: "branch \<Rightarrow> bool" where
  "input_typed (Leaf lf) = (lf_input lf \<noteq> None)"
| "input_typed (Sequential opts as) = (case map input_typed as of [] \<Rightarrow> False | b # bs \<Rightarrow> b)"
| "input_typed (Parallel i as) = False"
| "input_typed (Loop lf n) = False"
| "input_typed (Router i rs) = False"
| "input_typed (Keyword bs d) = False"
| "input_typed (Handoff ms st n) = False"
| "input_typed_route (Route n d a) = False"
| "input_typed_branch (Branch n a ks) = False"

definition typed_entry_step :: "agent list \<Rightarrow> nat option" where
  "typed_entry_step as =
     (case as of
        [] \<Rightarrow> None
      | a # rest \<Rightarrow> if input_typed a then None else first_index input_typed as)"

text \<open>\<open>value == entry\<close>: Python compares booleans and floats with integers.\<close>

definition equals_index :: "pyval \<Rightarrow> nat \<Rightarrow> bool" where
  "equals_index v i = (case v of PInt n \<Rightarrow> n = int i | PBool b \<Rightarrow> of_bool b = i | PFloat x \<Rightarrow> x = real i | _ \<Rightarrow> False)"

subsection \<open>Sequences\<close>

text \<open>A failure that escalates: its reason, its public error and the capability it names.\<close>

definition escalation_of :: "step_exn \<Rightarrow> (reason \<times> string \<times> string) option" where
  "escalation_of x =
     (case x of
        StepTimeout \<Rightarrow> Some (TimeoutReason, ''Step exceeded its declared time budget.'', ''agent'')
      | StepUnavailable cap \<Rightarrow> Some (UnavailableReason, ''Step capability is unavailable.'', cap)
      | OutputInvalid n k types \<Rightarrow>
          if list_ex (\<lambda>t. t = ''input_guardrail'' \<or> t = ''output_guardrail'') types then None
          else Some (SchemaMissReason, ''Step output failed its declared schema.'', ''agent'')
      | _ \<Rightarrow> None)"

definition escalate_step :: "engine \<Rightarrow> packet \<Rightarrow> gstate \<Rightarrow> step_exn + gstate" where
  "escalate_step e p s =
     (case escalation_message (e_packet_dumps e) (g_messages s) p of
        Inl x \<Rightarrow> Inl x
      | Inr m \<Rightarrow> Inr (s\<lparr>g_messages := e_append e (g_messages s) [m], g_escalation := Some p\<rparr>))"

text \<open>A step of a sequence with instructions or a policy; the instructions are seen by this step only.\<close>

definition step_node :: "engine \<Rightarrow> string \<Rightarrow> bool \<Rightarrow> string list \<Rightarrow> node \<Rightarrow> node" where
  "step_node e instructions escalate path child now s =
     (let messages = (if instructions = '''' then g_messages s
                      else plain_msg (g_messages s) SystemRole instructions # g_messages s)
      in case child now (s\<lparr>g_messages := messages\<rparr>) of
           Hangs \<Rightarrow> Hangs
         | Ends t (Inl x) \<Rightarrow>
             (if \<not> escalate then Ends t (Inl x)
              else case escalation_of x of
                     None \<Rightarrow> Ends t (Inl x)
                   | Some (why, error, cap) \<Rightarrow>
                       Ends t (escalate_step e
                         \<lparr>pk_capability = cap, pk_error = error, pk_reason = why, pk_failed = path,
                          pk_evidence = g_evidence s\<rparr> s))
         | Ends t (Inr r) \<Rightarrow>
             (case g_escalation r of
                Some p \<Rightarrow> Ends t (escalate_step e p (s\<lparr>g_log := g_log r\<rparr>))
              | None \<Rightarrow>
                  Ends t (Inr (publish e s
                    (if instructions = '''' then r else r\<lparr>g_messages := drop (length messages) (g_messages r)\<rparr>)))))"

record seq_step =
  st_node :: node
  st_halted :: "(pyval dict \<Rightarrow> bool) option"
  st_emit :: "(gstate \<Rightarrow> msg option) option"

definition continue_step :: "engine \<Rightarrow> gstate \<Rightarrow> gstate" where
  "continue_step e s =
     (case sequential_continuation (g_messages s) of
        [] \<Rightarrow> s | ms \<Rightarrow> s\<lparr>g_messages := e_append e (g_messages s) ms\<rparr>)"

definition step_halts :: "seq_step \<Rightarrow> gstate \<Rightarrow> bool" where
  "step_halts st s = (case st_halted st of None \<Rightarrow> False | Some h \<Rightarrow> h (g_state s))"

fun run_sequence :: "engine \<Rightarrow> bool \<Rightarrow> seq_step list \<Rightarrow> node" where
  "run_sequence e protected [] now s = Ends now (Inr s)"
| "run_sequence e protected [st] now s =
     bind_outcome (st_node st now s) (\<lambda>t r. Ends t (Inr (emit_message e (st_emit st) r)))"
| "run_sequence e protected (st # nx # rest) now s =
     bind_outcome (st_node st now s)
       (\<lambda>t r. if protected \<and> g_escalation r \<noteq> None then Ends t (Inr r)
              else if step_halts st r then Ends t (Inr (emit_message e (st_emit st) r))
              else run_sequence e protected (nx # rest) t (continue_step e r))"

definition reset_sequence :: "gstate \<Rightarrow> gstate" where
  "reset_sequence s = s\<lparr>g_escalation := None, g_evidence := []\<rparr>"

definition entry_index :: "agent list \<Rightarrow> gstate \<Rightarrow> nat" where
  "entry_index as s =
     (case typed_entry_step as of
        Some i \<Rightarrow> if equals_index (pget (g_state s) ''_apx_typed_entry'') i then i else 0
      | None \<Rightarrow> 0)"

text \<open>A message path that no run can show is refused.\<close>

definition unshown_message :: "string list \<Rightarrow> agent list \<Rightarrow> bool" where
  "unshown_message statuses as =
     list_ex (\<lambda>a. (case a of Leaf lf \<Rightarrow> lf_message_path lf \<noteq> None | _ \<Rightarrow> False) \<and> halt_check a statuses = None) (butlast as)"

subsection \<open>Parallel branches\<close>

definition branch_leaf_instructions :: "agent \<Rightarrow> string" where
  "branch_leaf_instructions a =
     (case a of Leaf lf \<Rightarrow> if \<not> has_template lf \<and> \<not> typed_leaf lf then lf_instructions lf else '''' | _ \<Rightarrow> '''')"

text \<open>A branch starts from its isolated input and its keyed state, and returns only its new messages.\<close>

definition branch_node :: "string \<Rightarrow> node \<Rightarrow> real \<Rightarrow> gstate \<Rightarrow> (msg list \<times> hook list) outcome" where
  "branch_node static_system child now s =
     (let isolated = branch_input static_system (g_messages s) in
      bind_outcome
        (child now \<lparr>g_messages = isolated, g_state = g_state s, g_escalation = None, g_evidence = [], g_log = []\<rparr>)
        (\<lambda>t r. Ends t (Inr (new_messages isolated (g_messages r), g_log r))))"

fun first_failure :: "(msg list \<times> hook list) outcome list \<Rightarrow> (real \<times> step_exn) option" where
  "first_failure [] = None"
| "first_failure (Ends t (Inl x) # os) =
     (case first_failure os of
        None \<Rightarrow> Some (t, x) | Some (u, y) \<Rightarrow> if u < t then Some (u, y) else Some (t, x))"
| "first_failure (o' # os) = first_failure os"

fun fan_in :: "(msg list \<times> hook list) outcome list \<Rightarrow> real \<Rightarrow> (real \<times> msg list list \<times> hook list) option" where
  "fan_in [] now = Some (now, [], [])"
| "fan_in (Ends t (Inr (ms, lg)) # os) now =
     map_option (\<lambda>(u, mss, lgs). (max t u, ms # mss, lg @ lgs)) (fan_in os now)"
| "fan_in (o' # os) now = None"

definition run_parallel :: "engine \<Rightarrow> (string \<times> node) list \<Rightarrow> node" where
  "run_parallel e branches now s =
     (let os = map (\<lambda>(sys, nd). branch_node sys nd now s) branches in
      case first_failure os of
        Some (t, x) \<Rightarrow> Ends t (Inl x)
      | None \<Rightarrow>
          (case fan_in os now of
             None \<Rightarrow> Hangs
           | Some (t, mss, lgs) \<Rightarrow>
               Ends t (Inr (s\<lparr>g_messages := fold (\<lambda>ms acc. e_append e acc ms) mss (g_messages s),
                              g_log := g_log s @ lgs\<rparr>))))"

subsection \<open>Loops and hand-offs\<close>

definition finish_tool_name :: string where
  "finish_tool_name = ''finish_loop''"

text \<open>The body, then the check: the counter goes up, and the cap or a \<open>finish_loop\<close> call ends the loop.\<close>

function run_loop :: "engine \<Rightarrow> node \<Rightarrow> int \<Rightarrow> int \<Rightarrow> node" where
  "run_loop e body cap i now s =
     bind_outcome (publish_node e body now (add_log (Turn ''agent'') s))
       (\<lambda>t r. if cap \<le> i + 1 then Ends t (Inr r)
              else if last_ai_tool_call (g_messages r) = Some finish_tool_name then Ends t (Inr r)
              else run_loop e body cap (i + 1) t r)"
  by pat_completeness auto

termination
  by (relation "measure (\<lambda>(e, body, cap, i, now, s). nat (cap - i))") auto

declare run_loop.simps [simp del]

definition handoff_target :: "string list \<Rightarrow> msg list \<Rightarrow> string option" where
  "handoff_target names ms =
     (case last_ai_tool_call ms of
        None \<Rightarrow> None
      | Some c \<Rightarrow>
          if starts_with transfer_prefix c \<and> drop (length transfer_prefix) c \<in> set names
          then Some (drop (length transfer_prefix) c) else None)"

text \<open>A member that is not the start sees the first user message and where it comes from, and no keyed state.\<close>

definition scrubbed_node :: "engine \<Rightarrow> string \<Rightarrow> node \<Rightarrow> node" where
  "scrubbed_node e name child now s =
     (let scrubbed = handoff_input (g_messages s) ''upstream agent'' name in
      bind_outcome (child now (s\<lparr>g_messages := scrubbed, g_state := []\<rparr>))
        (\<lambda>t r. Ends t (Inr (s\<lparr>g_messages := e_append e (g_messages s) (drop (length scrubbed) (g_messages r)),
                              g_log := g_log r\<rparr>))))"

definition handoff_tools :: "string list \<Rightarrow> string \<Rightarrow> string list" where
  "handoff_tools names current = map (\<lambda>n. transfer_prefix @ n) (filter (\<lambda>n. n \<noteq> current) names)"

definition handoff_transfer_description :: "leaf \<Rightarrow> string \<Rightarrow> string" where
  "handoff_transfer_description lf name =
     (let d = strip (or_empty (lf_description lf)) in if d \<noteq> '''' then d else ''Hand off to the '' @ name @ '' agent.'')"

function run_handoff :: "engine \<Rightarrow> (string \<times> node) list \<Rightarrow> int \<Rightarrow> int \<Rightarrow> string \<Rightarrow> node" where
  "run_handoff e members cap i current now s =
     (case dget members current of
        None \<Rightarrow> Ends now (Inl (OtherExn current))
      | Some nd \<Rightarrow>
          bind_outcome (nd now (add_log (Turn current) s))
            (\<lambda>t r. if cap + 1 \<le> i + 1 then Ends t (Inr r)
                   else case handoff_target (map fst members) (g_messages r) of
                          None \<Rightarrow> Ends t (Inr r)
                        | Some target \<Rightarrow> run_handoff e members cap (i + 1) target t r))"
  by pat_completeness auto

termination
  by (relation "measure (\<lambda>(e, members, cap, i, current, now, s). nat (cap - i))") auto

declare run_handoff.simps [simp del]

subsection \<open>Routers\<close>

definition route_choice :: "string list \<Rightarrow> string list \<Rightarrow> string" where
  "route_choice names calls =
     (case find (\<lambda>c. starts_with transfer_prefix c \<and> drop (length transfer_prefix) c \<in> set names) calls of
        Some c \<Rightarrow> drop (length transfer_prefix) c
      | None \<Rightarrow> hd names)"

definition router_prompt :: "string \<Rightarrow> string" where
  "router_prompt instructions =
     strip instructions @ newline
     @ ''Based on the user's request, select the most appropriate agent by calling exactly one transfer function.''"

definition run_chosen :: "engine \<Rightarrow> (string \<times> node) list \<Rightarrow> string \<Rightarrow> node" where
  "run_chosen e nodes chosen now s =
     (case dget nodes chosen of
        None \<Rightarrow> Ends now (Inl (OtherExn chosen))
      | Some nd \<Rightarrow> publish_node e nd now s)"

definition run_router :: "engine \<Rightarrow> string \<Rightarrow> (string \<times> string) list \<Rightarrow> (string \<times> node) list \<Rightarrow> node" where
  "run_router e instructions tools nodes now s =
     bind_outcome (e_route e (router_prompt instructions) tools now (g_messages s))
       (\<lambda>t calls. run_chosen e nodes (route_choice (map fst nodes) calls) t s)"

definition default_label :: string where
  "default_label = ''__default__''"

definition keyword_match :: "branch list \<Rightarrow> string \<Rightarrow> string option" where
  "keyword_match bs t =
     map_option branch_name (find (\<lambda>b. list_ex (\<lambda>kw. str_contains (lower kw) (lower t)) (branch_keywords b)) bs)"

definition keyword_choice :: "branch list \<Rightarrow> msg list \<Rightarrow> string" where
  "keyword_choice bs ms =
     (let t = (case last_human ms of None \<Rightarrow> '''' | Some m \<Rightarrow> m_text m) in
      case keyword_match bs t of
        Some n \<Rightarrow> if n \<noteq> '''' then n else default_label
      | None \<Rightarrow> default_label)"

definition run_keyword :: "engine \<Rightarrow> branch list \<Rightarrow> (string \<times> node) list \<Rightarrow> node" where
  "run_keyword e bs nodes now s = run_chosen e nodes (keyword_choice bs (g_messages s)) now s"

subsection \<open>Compilation\<close>

definition sequence_steps :: "engine \<Rightarrow> seq_opts \<Rightarrow> bool \<Rightarrow> bool \<Rightarrow> string list \<Rightarrow> string list \<Rightarrow> agent list \<Rightarrow> node list \<Rightarrow> seq_step list" where
  "sequence_steps e opts escalate protected path names as nodes =
     map (\<lambda>(name, a, nd).
            \<lparr>st_node = (if sq_instructions opts = '''' \<and> \<not> protected then publish_node e nd
                       else step_node e (sq_instructions opts) escalate (path @ [name]) nd),
             st_halted = halt_check a (sq_halts opts), st_emit = halt_message a\<rparr>)
       (zip names (zip as nodes))"

definition sequence_node :: "engine \<Rightarrow> bool \<Rightarrow> bool \<Rightarrow> agent list \<Rightarrow> seq_step list \<Rightarrow> node" where
  "sequence_node e nested protected as steps now s =
     (let s0 = (if protected \<and> \<not> nested then reset_sequence s else s)
      in run_sequence e protected (if nested then steps else drop (entry_index as s0) steps) now s0)"

text \<open>A parallel leaf is compiled without its prompt, which is folded into the branch's one system message.\<close>

definition compile_branch_leaf :: "engine \<Rightarrow> compile_ctx \<Rightarrow> leaf \<Rightarrow> step_exn + node" where
  "compile_branch_leaf e c lf =
     (case compile_llm e lf False [] of
        Inl x \<Rightarrow> Inl x
      | Inr nd \<Rightarrow>
          Inr (if needs_node_wrap lf
               then wrap_agent_node e (c\<lparr>cx_escalate := False, cx_path := []\<rparr>) lf (has_template lf) nd else nd))"

definition static_system :: "string \<Rightarrow> agent \<Rightarrow> string" where
  "static_system instructions a = join_lines [instructions, branch_leaf_instructions a]"

definition compile_loop :: "engine \<Rightarrow> compile_ctx \<Rightarrow> leaf \<Rightarrow> int \<Rightarrow> step_exn + node" where
  "compile_loop e c lf cap =
     (if typed_leaf lf then Inl (ValueErr ''output_schema is not supported on LoopAgent bodies'')
      else case (case leaf_binding c lf of
                   Some b \<Rightarrow> Inr (compile_remote e lf b)
                 | None \<Rightarrow> compile_llm e lf True [finish_tool_name]) of
             Inl x \<Rightarrow> Inl x
           | Inr body \<Rightarrow> Inr (\<lambda>now s. run_loop e body cap 0 now s))"

fun compile_members :: "engine \<Rightarrow> compile_ctx \<Rightarrow> string list \<Rightarrow> string \<Rightarrow> (string \<times> leaf) list \<Rightarrow> step_exn + (string \<times> node) list" where
  "compile_members e c names start [] = Inr []"
| "compile_members e c names start ((n, lf) # ms) =
     (if typed_leaf lf then Inl (ValueErr ''output_schema is not supported on HandoffAgent members'')
      else case (case dget (cx_bindings c) n of
                   Some b \<Rightarrow> Inr (publish_node e (compile_remote e lf b))
                 | None \<Rightarrow>
                     (case compile_llm e lf True (handoff_tools names n) of
                        Inl x \<Rightarrow> Inl x
                      | Inr nd \<Rightarrow> Inr (if n = start then publish_node e nd else scrubbed_node e n nd))) of
             Inl x \<Rightarrow> Inl x
           | Inr nd \<Rightarrow>
               (case compile_members e c names start ms of Inl x \<Rightarrow> Inl x | Inr nds \<Rightarrow> Inr ((n, nd) # nds)))"

definition compile_handoff :: "engine \<Rightarrow> compile_ctx \<Rightarrow> (string \<times> leaf) list \<Rightarrow> string \<Rightarrow> int \<Rightarrow> step_exn + node" where
  "compile_handoff e c ms start cap =
     (case compile_members e c (map fst ms) start ms of
        Inl x \<Rightarrow> Inl x
      | Inr nodes \<Rightarrow> Inr (\<lambda>now s. run_handoff e nodes cap 0 start now s))"

definition refused_policy :: "compile_ctx \<Rightarrow> agent \<Rightarrow> bool" where
  "refused_policy c a \<longleftrightarrow> cx_escalate c \<or> has_step_policy a"

definition policy_error :: step_exn where
  "policy_error = ValueErr ''Step timeouts and escalation are supported on sequential leaves, not parallel/loop/handoff compositions''"

fun compile_any :: "engine \<Rightarrow> compile_ctx \<Rightarrow> agent \<Rightarrow> step_exn + node"
  and compile_steps :: "engine \<Rightarrow> compile_ctx \<Rightarrow> bool \<Rightarrow> string list \<Rightarrow> string list \<Rightarrow> agent list \<Rightarrow> step_exn + node list"
  and compile_branches :: "engine \<Rightarrow> compile_ctx \<Rightarrow> string \<Rightarrow> agent list \<Rightarrow> step_exn + (string \<times> node) list"
  and compile_routes :: "engine \<Rightarrow> compile_ctx \<Rightarrow> route list \<Rightarrow> step_exn + (string \<times> node) list"
  and compile_keywords :: "engine \<Rightarrow> compile_ctx \<Rightarrow> branch list \<Rightarrow> step_exn + (string \<times> node) list" where
  "compile_any e c (Leaf lf) = compile_leaf e c lf"
| "compile_any e c (Sequential opts as) =
     (let escalate = (cx_escalate c \<or> sq_escalate opts);
          protected = (escalate \<or> has_step_policy (Sequential opts as));
          path = (if cx_path c \<noteq> [] then cx_path c
                  else [if nonempty_key (sq_name opts) then the (sq_name opts) else ''sequence'']);
          names = node_names ''step_'' 0 [] as
      in case compile_steps e (c\<lparr>cx_escalate := escalate\<rparr>) protected path names as of
           Inl x \<Rightarrow> Inl x
         | Inr nodes \<Rightarrow>
             if \<not> distinct names then Inl (ValueErr ''node already present'')
             else if unshown_message (sq_halts opts) as then Inl (ValueErr ''output_message_path is never shown'')
             else Inr (sequence_node e (cx_path c \<noteq> []) protected as
                         (sequence_steps e opts escalate protected path names as nodes)))"
| "compile_any e c (Parallel instructions as) =
     (if refused_policy c (Parallel instructions as) then Inl policy_error
      else if has_typed_output (Parallel instructions as) then Inl (ValueErr ''output_schema is not supported on ParallelAgent branches'')
      else case compile_branches e c instructions as of
             Inl x \<Rightarrow> Inl x
           | Inr nodes \<Rightarrow>
               if \<not> distinct (node_names ''branch_'' 0 [] as) then Inl (ValueErr ''node already present'')
               else Inr (run_parallel e nodes))"
| "compile_any e c (Loop lf cap) =
     (if refused_policy c (Loop lf cap) then Inl policy_error else compile_loop e c lf cap)"
| "compile_any e c (Router instructions rs) =
     (case compile_routes e c rs of
        Inl x \<Rightarrow> Inl x
      | Inr nodes \<Rightarrow>
          if \<not> distinct (''router'' # map fst nodes) then Inl (ValueErr ''node already present'')
          else Inr (run_router e instructions (map (\<lambda>r. case r of Route n d a \<Rightarrow> (transfer_prefix @ n, d)) rs) nodes))"
| "compile_any e c (Keyword bs d) =
     (case compile_keywords e c bs of
        Inl x \<Rightarrow> Inl x
      | Inr nodes \<Rightarrow>
          (case compile_any e c d of
             Inl x \<Rightarrow> Inl x
           | Inr nd \<Rightarrow>
               if \<not> distinct (''router'' # map fst nodes @ [default_label]) then Inl (ValueErr ''node already present'')
               else Inr (run_keyword e bs (nodes @ [(default_label, nd)]))))"
| "compile_any e c (Handoff ms start cap) =
     (if refused_policy c (Handoff ms start cap) then Inl policy_error else compile_handoff e c ms start cap)"
| "compile_steps e c protected path names [] = Inr []"
| "compile_steps e c protected path names (a # as) =
     (case compile_any e (if protected then c\<lparr>cx_path := path @ [hd names]\<rparr> else c) a of
        Inl x \<Rightarrow> Inl x
      | Inr nd \<Rightarrow>
          (case compile_steps e c protected path (tl names) as of Inl x \<Rightarrow> Inl x | Inr nds \<Rightarrow> Inr (nd # nds)))"
| "compile_branches e c instructions [] = Inr []"
| "compile_branches e c instructions (a # as) =
     (case (case a of
              Leaf lf \<Rightarrow> if leaf_binding c lf = None then compile_branch_leaf e c lf else compile_leaf e c lf
            | _ \<Rightarrow> compile_any e c a) of
        Inl x \<Rightarrow> Inl x
      | Inr nd \<Rightarrow>
          (case compile_branches e c instructions as of
             Inl x \<Rightarrow> Inl x | Inr nds \<Rightarrow> Inr ((static_system instructions a, nd) # nds)))"
| "compile_routes e c [] = Inr []"
| "compile_routes e c (Route n d a # rs) =
     (case compile_any e c a of
        Inl x \<Rightarrow> Inl x
      | Inr nd \<Rightarrow> (case compile_routes e c rs of Inl x \<Rightarrow> Inl x | Inr nds \<Rightarrow> Inr ((n, nd) # nds)))"
| "compile_keywords e c [] = Inr []"
| "compile_keywords e c (Branch n a ks # bs) =
     (case compile_any e c a of
        Inl x \<Rightarrow> Inl x
      | Inr nd \<Rightarrow> (case compile_keywords e c bs of Inl x \<Rightarrow> Inl x | Inr nds \<Rightarrow> Inr ((n, nd) # nds)))"

end
