(* ===== verification/Agent_Registry.thy ===== *)
theory Agent_Registry
  imports Composition_Graph "HOL-Library.Sublist"
begin

text \<open>
  The tools an agent can call and the sub-agents it advertises (\<open>_agents.py\<close>, \<open>_models.py\<close>), and the runs of agents
  outside the compiled graph: guardrails around a turn, sequences, and the choice of a keyword router.

  Functions and tool descriptors are objects shared between lists and mutated in place, so both live in stores and
  are named by their index.  The environment of a fetch is given per address: the card, or none after the retries.
\<close>

subsection \<open>Schemas from a peer's card\<close>

fun sanitize :: "pyval \<Rightarrow> pyval" where
  "sanitize (PDict d) =
     PDict (map (\<lambda>(k, v). (k, sanitize v)) (filter (\<lambda>(k, v). \<not> (k = ''additionalProperties'' \<and> v \<noteq> PBool False)) d))"
| "sanitize (PList vs) = PList (map sanitize vs)"
| "sanitize v = v"

definition is_identifier :: "string \<Rightarrow> bool" where
  "is_identifier s \<longleftrightarrow> s \<noteq> '''' \<and> ident_start (hd s) \<and> list_all ident_char s"

definition python_keywords :: "string list" where
  "python_keywords =
     [''False'', ''None'', ''True'', ''and'', ''as'', ''assert'', ''async'', ''await'', ''break'', ''class'', ''continue'',
      ''def'', ''del'', ''elif'', ''else'', ''except'', ''finally'', ''for'', ''from'', ''global'', ''if'', ''import'', ''in'',
      ''is'', ''lambda'', ''nonlocal'', ''not'', ''or'', ''pass'', ''raise'', ''return'', ''try'', ''while'', ''with'', ''yield'']"

definition property_ok :: "string \<Rightarrow> bool" where
  "property_ok p \<longleftrightarrow> is_identifier p \<and> p \<notin> set python_keywords \<and> \<not> starts_with ''model_'' p \<and> p \<noteq> ''headers''"

definition structured_input_schema :: "pyval \<Rightarrow> pyval option" where
  "structured_input_schema v =
     (case v of
        PDict d \<Rightarrow>
          if pget d ''type'' \<noteq> PStr ''object'' then None
          else (case pget d ''properties'' of
                  PDict ps \<Rightarrow> if ps = [] \<or> \<not> list_all property_ok (map fst ps) then None else Some (sanitize (PDict d))
                | _ \<Rightarrow> None)
      | _ \<Rightarrow> None)"

definition message_input_schema :: pyval where
  "message_input_schema =
     PDict [(''type'', PStr ''object''),
            (''properties'', PDict [(''message'', PDict [(''type'', PStr ''string''), (''description'', PStr ''Message to send'')])]),
            (''required'', PList [PStr ''message''])]"

definition flow_graph_tool :: string where
  "flow_graph_tool = ''get_agent_flow_graph''"

definition card_structured_schema :: "pyval dict \<Rightarrow> pyval option" where
  "card_structured_schema peer =
     (case pget peer ''skills'' of
        PList vs \<Rightarrow>
          (let skills = List.map_filter (\<lambda>v. case v of
                 PDict d \<Rightarrow> if py_or (pget d ''name'') (pget d ''id'') \<noteq> PStr flow_graph_tool then Some d else None
               | _ \<Rightarrow> None) vs
           in case skills of [skill] \<Rightarrow> structured_input_schema (pget skill ''inputSchema'') | _ \<Rightarrow> None)
      | _ \<Rightarrow> None)"

text \<open>A schema the serving endpoint accepts: \<open>additionalProperties\<close> is absent or false, at every depth.\<close>

fun accepted_schema :: "pyval \<Rightarrow> bool" where
  "accepted_schema (PDict d) = list_all (\<lambda>(k, v). (k = ''additionalProperties'' \<longrightarrow> v = PBool False) \<and> accepted_schema v) d"
| "accepted_schema (PList vs) = list_all accepted_schema vs"
| "accepted_schema v = True"

lemma sanitize_bool: "sanitize v = PBool b \<longleftrightarrow> v = PBool b"
  by (cases v) auto

lemma sanitize_accepted: "accepted_schema (sanitize v)"
proof (induction v rule: sanitize.induct)
  case (1 d)
  then show ?case by (force simp: list_all_iff)
next
  case (2 vs)
  then show ?case by (simp add: list_all_iff)
qed simp_all

lemma sanitize_id: "accepted_schema v \<Longrightarrow> sanitize v = v"
proof (induction v)
  case (PList vs)
  then have "map sanitize vs = vs" by (intro map_idI) (auto simp: list_all_iff)
  then show ?case by simp
next
  case (PDict d)
  have ok: "(k = ''additionalProperties'' \<longrightarrow> v = PBool False) \<and> sanitize v = v" if "(k, v) \<in> set d" for k v
    using PDict.prems PDict.IH [OF that, of v] that by (auto simp: list_all_iff)
  have "filter (\<lambda>(k, v). \<not> (k = ''additionalProperties'' \<and> v \<noteq> PBool False)) d = d"
    by (rule filter_True) (use ok in \<open>auto split: prod.splits\<close>)
  moreover have "map (\<lambda>(k, v). (k, sanitize v)) d = d"
    by (rule map_idI) (use ok in \<open>auto split: prod.splits\<close>)
  ultimately show ?case by (simp only: sanitize.simps)
qed simp_all

subsection \<open>Tools of a live agent\<close>

record tool_fn =
  tf_name :: string
  tf_doc :: string
  tf_schema :: "pyval option"
  tf_url :: "string option"

record descriptor =
  ds_name :: string
  ds_description :: string
  ds_schema :: pyval
  ds_url :: "string option"

record registry =
  rg_fns :: "tool_fn list"
  rg_tools :: "nat list"
  rg_analyzed :: "nat list"
  rg_version :: nat
  rg_urls :: "string list"
  rg_materialized :: "string list"
  rg_cards :: "descriptor list"
  rg_degraded :: "nat dict"

definition fn_name :: "registry \<Rightarrow> nat \<Rightarrow> string" where
  "fn_name r i = tf_name (rg_fns r ! i)"

definition new_agent :: "tool_fn list \<Rightarrow> string list \<Rightarrow> registry" where
  "new_agent fns urls =
     \<lparr>rg_fns = fns, rg_tools = [0..<length fns], rg_analyzed = [0..<length fns], rg_version = 0, rg_urls = urls,
      rg_materialized = [], rg_cards = [], rg_degraded = []\<rparr>"

definition append_tool :: "tool_fn \<Rightarrow> registry \<Rightarrow> registry" where
  "append_tool fn r =
     r\<lparr>rg_fns := rg_fns r @ [fn], rg_tools := rg_tools r @ [length (rg_fns r)],
       rg_analyzed := rg_analyzed r @ [length (rg_fns r)], rg_version := Suc (rg_version r)\<rparr>"

definition drop_named :: "string \<Rightarrow> registry \<Rightarrow> registry" where
  "drop_named name r =
     r\<lparr>rg_tools := filter (\<lambda>i. fn_name r i \<noteq> name) (rg_tools r),
       rg_analyzed := filter (\<lambda>i. fn_name r i \<noteq> name) (rg_analyzed r)\<rparr>"

definition register_tool :: "tool_fn \<Rightarrow> registry \<Rightarrow> registry" where
  "register_tool fn r = append_tool fn (drop_named (tf_name fn) r)"

definition unregister_tool :: "string \<Rightarrow> registry \<Rightarrow> bool \<times> registry" where
  "unregister_tool name r =
     (let r' = drop_named name r; removed = length (rg_tools r') < length (rg_tools r)
      in (removed, if removed then r'\<lparr>rg_version := Suc (rg_version r')\<rparr> else r'))"

definition collect_tools :: "registry \<Rightarrow> (string \<times> string) list" where
  "collect_tools r = map (\<lambda>i. (fn_name r i, strip (tf_doc (rg_fns r ! i)))) (rg_analyzed r)"

subsection \<open>Sub-agents\<close>

definition routing_description :: "string option \<Rightarrow> string \<Rightarrow> string" where
  "routing_description raw fallback = (let t = strip (or_empty raw) in if t \<noteq> '''' then t else fallback)"

text \<open>The repair of a degraded sub-agent writes through the shared objects.\<close>

definition upgrade_sub_agent :: "string \<Rightarrow> string \<Rightarrow> registry \<Rightarrow> registry" where
  "upgrade_sub_agent url description r =
     (if description = '''' then r
      else case dget (rg_degraded r) url of
             None \<Rightarrow> r
           | Some j \<Rightarrow>
               (let name = ds_name (rg_cards r ! j) in
                r\<lparr>rg_degraded := ddel url (rg_degraded r),
                  rg_cards := (rg_cards r)[j := (rg_cards r ! j)\<lparr>ds_description := description\<rparr>],
                  rg_fns := map (\<lambda>i. if i \<in> set (rg_tools r) \<and> fn_name r i = name
                                      then (rg_fns r ! i)\<lparr>tf_doc := description\<rparr> else rg_fns r ! i)
                              [0..<length (rg_fns r)]\<rparr>))"

definition stamp_url :: "string \<Rightarrow> string \<Rightarrow> registry \<Rightarrow> registry" where
  "stamp_url name url r =
     r\<lparr>rg_fns := map (\<lambda>i. if i \<in> set (rg_tools r) \<and> fn_name r i = name
                         then (rg_fns r ! i)\<lparr>tf_url := Some url\<rparr> else rg_fns r ! i)
                   [0..<length (rg_fns r)]\<rparr>"

definition ensure_sub_agent_tool :: "string \<Rightarrow> string \<Rightarrow> string \<Rightarrow> pyval option \<Rightarrow> registry \<Rightarrow> bool \<times> registry" where
  "ensure_sub_agent_tool name description url schema r =
     (if url \<in> set (rg_materialized r) then (True, stamp_url name url r)
      else if name \<in> fn_name r ` set (rg_tools r) then (False, r)
      else (True, (append_tool \<lparr>tf_name = name, tf_doc = description, tf_schema = schema, tf_url = Some url\<rparr> r)
                    \<lparr>rg_materialized := rg_materialized r @ [url]\<rparr>))"

text \<open>Names and descriptions: \<open>split(sep)[-1]\<close>, \<open>split(sep)[0]\<close> and the dashes and blanks of a tool name.\<close>

definition last_piece :: "string \<Rightarrow> string" where
  "last_piece url = last (split_on (\<lambda>c. c = CHR ''/'') url)"

definition trim_slashes :: "string \<Rightarrow> string" where
  "trim_slashes s = rev (dropWhile (\<lambda>c. c = CHR ''/'') (rev s))"

definition tool_name_of :: "string \<Rightarrow> string" where
  "tool_name_of raw = map (\<lambda>c. if c = CHR ''-'' \<or> c = CHR '' '' then CHR ''_'' else c) raw"

definition degraded_name :: "string \<Rightarrow> string" where
  "degraded_name url =
     (let host = hd (split_on (\<lambda>c. c = CHR ''.'') (last_piece (trim_slashes url)));
          parts = butlast (split_on (\<lambda>c. c = CHR ''-'') host)
      in tool_name_of (if parts \<noteq> [] then join ''-'' parts else last_piece url))"

definition text_field :: "pyval dict \<Rightarrow> string \<Rightarrow> string option" where
  "text_field d k = str_of (pget d k)"

text \<open>A name that is present but no text has no \<open>replace\<close>.\<close>

definition card_name :: "pyval dict \<Rightarrow> string \<Rightarrow> step_exn + string" where
  "card_name peer url =
     (case dget peer ''name'' of
        None \<Rightarrow> Inr (tool_name_of (last_piece url))
      | Some v \<Rightarrow> (case str_of v of Some n \<Rightarrow> Inr (tool_name_of n) | None \<Rightarrow> Inl (OtherExn ''AttributeError'')))"

text \<open>
  What one address yields: the name and the description advertised, the schema carried and the repaired registry.  A card
  that is no object and a name that is no text raise; a description that is no text counts as blank.
\<close>

definition describe_sub_agent :: "string \<Rightarrow> pyval option \<Rightarrow> registry \<Rightarrow> step_exn + string \<times> string \<times> pyval option \<times> registry" where
  "describe_sub_agent url peer r =
     (let base = trim_slashes url in
      case peer of
        Some (PDict cd) \<Rightarrow>
          (let description = routing_description (text_field cd ''description'') (''Agent at '' @ url) in
           case dget (rg_degraded r) base of
             Some j \<Rightarrow> Inr (ds_name (rg_cards r ! j), description, None, upgrade_sub_agent base description r)
           | None \<Rightarrow> (case card_name cd url of
                        Inl x \<Rightarrow> Inl x
                      | Inr name \<Rightarrow> Inr (name, description, card_structured_schema cd, r)))
      | Some v \<Rightarrow> Inl (OtherExn ''AttributeError'')
      | None \<Rightarrow> Inr (degraded_name url, ''Remote agent at '' @ url @ '' (card fetch failed - tool is still callable)'', None, r))"

definition advertise :: "string \<Rightarrow> bool \<Rightarrow> string \<times> string \<times> pyval option \<times> registry \<Rightarrow> nat list \<times> registry" where
  "advertise base missing q =
     (let (name, description, schema, r1) = q;
          desc = \<lparr>ds_name = name, ds_description = description,
                  ds_schema = (case schema of Some s \<Rightarrow> s | None \<Rightarrow> message_input_schema), ds_url = Some base\<rparr>;
          j = length (rg_cards r1);
          (ok, r2) = ensure_sub_agent_tool name description base schema (r1\<lparr>rg_cards := rg_cards r1 @ [desc]\<rparr>)
      in if \<not> ok then ([], r2)
         else ([j], if missing \<and> base \<in> set (rg_materialized r2) \<and> dget (rg_degraded r2) base = None
                    then r2\<lparr>rg_degraded := dset base j (rg_degraded r2)\<rparr> else r2))"

definition fetch_one :: "string \<Rightarrow> pyval option \<Rightarrow> registry \<Rightarrow> (step_exn + nat list) \<times> registry" where
  "fetch_one url peer r =
     (case describe_sub_agent url peer r of
        Inl x \<Rightarrow> (Inl x, r)
      | Inr q \<Rightarrow> (let (js, r') = advertise (trim_slashes url) (peer = None) q in (Inr js, r')))"

text \<open>An exception ends the fetch; the tools registered before it stay.\<close>

fun fetch_all :: "(string \<Rightarrow> pyval option) \<Rightarrow> string list \<Rightarrow> registry \<Rightarrow> (step_exn + nat list) \<times> registry" where
  "fetch_all cards [] r = (Inr [], r)"
| "fetch_all cards (url # urls) r =
     (case fetch_one url (cards (trim_slashes url)) r of
        (Inl x, r1) \<Rightarrow> (Inl x, r1)
      | (Inr js, r1) \<Rightarrow>
          (case fetch_all cards urls r1 of
             (Inl x, r2) \<Rightarrow> (Inl x, r2)
           | (Inr ks, r2) \<Rightarrow> (Inr (js @ ks), r2)))"

text \<open>Addresses may be environment references; one that resolves to nothing is skipped.\<close>

definition fetch_remote_tools ::
  "(string \<Rightarrow> string) \<Rightarrow> (string \<Rightarrow> pyval option) \<Rightarrow> registry \<Rightarrow> (step_exn + descriptor list) \<times> registry" where
  "fetch_remote_tools resolve cards r =
     (case fetch_all cards (filter (\<lambda>u. u \<noteq> '''') (map resolve (rg_urls r))) r of
        (Inl x, r') \<Rightarrow> (Inl x, r')
      | (Inr js, r') \<Rightarrow> (Inr (map (\<lambda>j. rg_cards r' ! j) js), r'))"

subsection \<open>Fetching a card\<close>

definition card_attempts :: nat where "card_attempts = 3"
definition card_backoff :: pyfloat where "card_backoff = 1 / 2"
definition card_budget :: pyfloat where "card_budget = 5"

text \<open>
  The attempts from number \<open>n\<close> on: each takes its time and gives a JSON body or fails.  The result is the card, if any,
  the numbers of the attempts made with the times they started, and the time the fetch ended.  A body that is \<open>null\<close> ends
  the attempts and reads as a missing card.
\<close>

definition read_card :: "pyval option \<Rightarrow> pyval option" where
  "read_card body = (if body = Some PNone then None else body)"

fun fetch_card :: "(nat \<Rightarrow> pyfloat \<times> pyval option) \<Rightarrow> nat \<Rightarrow> nat \<Rightarrow> pyfloat \<Rightarrow> pyval option \<times> (nat \<times> pyfloat) list \<times> pyfloat" where
  "fetch_card attempt 0 n elapsed = (None, [], elapsed)"
| "fetch_card attempt (Suc left) n elapsed =
     (let (took, peer) = attempt n; now = elapsed + took in
      case peer of
        Some cd \<Rightarrow> (read_card (Some cd), [(n, elapsed)], now)
      | None \<Rightarrow>
          if n = card_attempts \<or> card_budget \<le> now then (None, [(n, elapsed)], now)
          else (let (c, tries, t) = fetch_card attempt left (Suc n) (now + card_backoff * real n) in (c, (n, elapsed) # tries, t)))"

definition fetch_sub_agent_card :: "(nat \<Rightarrow> pyfloat \<times> pyval option) \<Rightarrow> pyval option \<times> (nat \<times> pyfloat) list \<times> pyfloat" where
  "fetch_sub_agent_card attempt = fetch_card attempt card_attempts 1 0"

subsection \<open>Runs outside the graph\<close>

text \<open>
  \<open>LlmAgent.run\<close> and \<open>stream\<close> of an agent without a schema or a timeout: guardrails and callbacks around one compiled
  turn, whose text or chunks are a parameter.  A guardrail's empty text stops the other guardrails but does not count.
\<close>

definition counted :: "string option \<Rightarrow> string option" where
  "counted g = (case g of Some t \<Rightarrow> if t \<noteq> '''' then Some t else None | None \<Rightarrow> None)"

definition run_agent :: "leaf \<Rightarrow> (msg list \<Rightarrow> step_exn + string) \<Rightarrow> msg list \<Rightarrow> step_exn + string" where
  "run_agent lf turn ms =
     (case invoke_callback (lf_before lf) ms of
        Some x \<Rightarrow> Inl x
      | None \<Rightarrow>
          (case counted (first_some (lf_in_guards lf) ms) of
             Some rejection \<Rightarrow> Inr rejection
           | None \<Rightarrow>
               (case turn ms of
                  Inl x \<Rightarrow> Inl x
                | Inr t \<Rightarrow>
                    (case counted (first_some (lf_out_guards lf) t) of
                       Some replacement \<Rightarrow> Inr replacement
                     | None \<Rightarrow> (case invoke_callback (lf_after lf) t of Some x \<Rightarrow> Inl x | None \<Rightarrow> Inr t)))))"

text \<open>The chunks that were sent, and the exception that ended them, if any.\<close>

definition filtered_chunk :: "string \<Rightarrow> string" where
  "filtered_chunk replacement =
     [CHR 0x0A, CHR 0x0A] @ ''---'' @ [CHR 0x0A] @ ''**[Content filtered]** '' @ replacement"

definition stream_agent :: "leaf \<Rightarrow> (msg list \<Rightarrow> string list \<times> step_exn option) \<Rightarrow> msg list \<Rightarrow> string list \<times> step_exn option" where
  "stream_agent lf turn ms =
     (case invoke_callback (lf_before lf) ms of
        Some x \<Rightarrow> ([], Some x)
      | None \<Rightarrow>
          (case counted (first_some (lf_in_guards lf) ms) of
             Some rejection \<Rightarrow> ([rejection], None)
           | None \<Rightarrow>
               (case turn ms of
                  (chunks, Some x) \<Rightarrow> (chunks, Some x)
                | (chunks, None) \<Rightarrow>
                    (let t = concat chunks;
                         out = chunks @ (case counted (first_some (lf_out_guards lf) t) of
                                           Some r \<Rightarrow> [filtered_chunk r] | None \<Rightarrow> [])
                     in (out, invoke_callback (lf_after lf) t)))))"

text \<open>An untyped sequence: each agent runs on the conversation so far, one shared list that grows.\<close>

definition prepend_instructions :: "string \<Rightarrow> msg list \<Rightarrow> msg list" where
  "prepend_instructions instructions ms = (if instructions = '''' then ms else plain_msg ms SystemRole instructions # ms)"

definition hand_over :: "msg list \<Rightarrow> string \<Rightarrow> msg list" where
  "hand_over context result =
     (let c = context @ [plain_msg context AIRole result] in c @ [plain_msg c HumanRole sequential_continuation_text])"

type_synonym runner = "msg list \<Rightarrow> step_exn + string"

fun run_steps :: "runner list \<Rightarrow> bool \<Rightarrow> msg list \<Rightarrow> string \<Rightarrow> step_exn + string" where
  "run_steps [] first context result = Inr result"
| "run_steps (a # as) first context result =
     (let context' = (if first then context else hand_over context result) in
      case a context' of Inl x \<Rightarrow> Inl x | Inr r \<Rightarrow> run_steps as False context' r)"

definition run_sequence_direct :: "string \<Rightarrow> runner list \<Rightarrow> msg list \<Rightarrow> step_exn + string" where
  "run_sequence_direct instructions as ms = run_steps as True (prepend_instructions instructions ms) ''''"

text \<open>
  Streaming the same sequence: a header before each step, and one chunk per step, except that the agent object that is
  last in the list streams its own chunks wherever it stands.  Agents are named by their object.
\<close>

type_synonym streamer = "msg list \<Rightarrow> string list \<times> step_exn option"

definition step_header :: "nat \<Rightarrow> nat \<Rightarrow> string" where
  "step_header i steps =
     [CHR 0x0A, CHR 0x0A] @ ''---'' @ [CHR 0x0A] @ ''**Step '' @ show_nat i @ ''/'' @ show_nat steps @ ''**'' @ [CHR 0x0A, CHR 0x0A]"

fun stream_steps :: "nat \<Rightarrow> nat \<Rightarrow> (nat \<times> runner \<times> streamer) list \<Rightarrow> nat \<Rightarrow> msg list \<Rightarrow> string \<Rightarrow> string list \<times> step_exn option" where
  "stream_steps last_agent steps [] i context result = ([], None)"
| "stream_steps last_agent steps ((a, run, str) # as) i context result =
     (let context' = (if i = 1 then context else hand_over context result);
          (chunks, x) = (if a = last_agent then str context'
                         else case run context' of Inl x \<Rightarrow> ([], Some x) | Inr r \<Rightarrow> ([r], None))
      in case x of
           Some y \<Rightarrow> (step_header i steps # chunks, Some y)
         | None \<Rightarrow>
             (let (rest, y) = stream_steps last_agent steps as (Suc i) context' (concat chunks)
              in (step_header i steps # chunks @ rest, y)))"

definition stream_sequence_direct :: "string \<Rightarrow> (nat \<times> runner \<times> streamer) list \<Rightarrow> msg list \<Rightarrow> string list \<times> step_exn option" where
  "stream_sequence_direct instructions as ms =
     stream_steps (fst (last as)) (length as) as 1 (prepend_instructions instructions ms) ''''"

definition run_parallel_direct :: "string \<Rightarrow> runner list \<Rightarrow> msg list \<Rightarrow> step_exn + string" where
  "run_parallel_direct instructions as ms =
     (let results = map (\<lambda>a. a (prepend_instructions instructions ms)) as in
      case find (\<lambda>r. \<exists>x. r = Inl x) results of
        Some (Inl x) \<Rightarrow> Inl x
      | _ \<Rightarrow> Inr (join [CHR 0x0A, CHR 0x0A] (map (\<lambda>r. case r of Inr t \<Rightarrow> t | Inl x \<Rightarrow> '''') results)))"

subsection \<open>Constructors and routes\<close>

definition new_sequence :: "seq_opts \<Rightarrow> string list \<Rightarrow> agent list \<Rightarrow> step_exn option" where
  "new_sequence opts session_keys as =
     (if as = [] then Some (ValueErr ''SequentialAgent requires at least one agent'')
      else if list_ex (\<lambda>k. k = '''' \<or> CHR '':'' \<in> set k) session_keys \<or> \<not> distinct session_keys
      then Some (ValueErr ''session_keys must be distinct unprefixed state keys (no user:/app: scope)'')
      else if list_ex (\<lambda>s. s = '''') (sq_halts opts) then Some (ValueErr ''halt_statuses must be non-empty status values'')
      else None)"

fun keyword_names_error :: "string list \<Rightarrow> string list \<Rightarrow> step_exn option" where
  "keyword_names_error seen [] = None"
| "keyword_names_error seen (n # ns) =
     (if n = '''' \<or> n = default_label then Some (ValueErr ''Invalid branch name'')
      else if n \<in> set seen then Some (ValueErr ''Duplicate branch name'')
      else keyword_names_error (n # seen) ns)"

definition new_keyword_router :: "branch list \<Rightarrow> step_exn option" where
  "new_keyword_router bs =
     (if bs = [] then Some (ValueErr ''KeywordRouter requires at least one branch'')
      else keyword_names_error [] (map branch_name bs))"

text \<open>The agent a keyword router would run for the chat messages it was given.\<close>

definition select_agent :: "branch list \<Rightarrow> agent \<Rightarrow> chat_msg list \<Rightarrow> agent" where
  "select_agent bs d ms =
     (let t = (case find (\<lambda>m. ch_role m = ''user'') (rev ms) of None \<Rightarrow> '''' | Some m \<Rightarrow> or_empty (ch_content m)) in
      case keyword_match bs t of
        None \<Rightarrow> d
      | Some n \<Rightarrow> (case find (\<lambda>b. branch_name b = n) bs of None \<Rightarrow> d | Some b \<Rightarrow> branch_agent b))"

text \<open>Agents given as triples, or by their own name and description.\<close>

fun named_routes :: "agent list \<Rightarrow> (agent \<Rightarrow> string option) \<Rightarrow> step_exn + route list" where
  "named_routes [] describe = Inr []"
| "named_routes (a # as) describe =
     (if \<not> nonempty_key (agent_name a) then Inl (ValueErr ''RouterAgent: each agent must have name= set when passed as a list.'')
      else case named_routes as describe of
             Inl x \<Rightarrow> Inl x
           | Inr rs \<Rightarrow>
               (let n = the (agent_name a)
                in Inr (Route n (routing_description (describe a) (''Routes to the '' @ n @ '' agent.'')) a # rs)))"

definition triple_routes :: "(string \<times> string \<times> agent) list \<Rightarrow> step_exn + route list" where
  "triple_routes ts =
     (if ts = [] then Inl (ValueErr ''RouterAgent requires at least one agent'')
      else Inr (map (\<lambda>(n, d, a). Route n (routing_description (Some d) (''Routes to the '' @ n @ '' agent.'')) a) ts))"

text \<open>The agents of a hand-off given as a list: a later agent of the same name takes the earlier one's place.\<close>

fun handoff_dict :: "leaf list \<Rightarrow> (string \<times> leaf) list \<Rightarrow> step_exn + (string \<times> leaf) list" where
  "handoff_dict [] d = Inr d"
| "handoff_dict (lf # lfs) d =
     (if \<not> nonempty_key (lf_name lf) then Inl (ValueErr ''HandoffAgent: each agent must have name= set when passed as a list.'')
      else handoff_dict lfs (dset (the (lf_name lf)) lf d))"

definition new_handoff :: "(string \<times> leaf) list \<Rightarrow> string option \<Rightarrow> int \<Rightarrow> step_exn + agent" where
  "new_handoff d start cap =
     (case (case start of Some s \<Rightarrow> Some s | None \<Rightarrow> (case d of [] \<Rightarrow> None | p # ps \<Rightarrow> Some (fst p))) of
        None \<Rightarrow> Inl (OtherExn ''StopIteration'')
      | Some s \<Rightarrow>
          if s \<notin> fst ` set d then Inl (ValueErr ''HandoffAgent start not found in agents dict'')
          else Inr (Handoff d s cap))"

text \<open>One routing call outside the graph: the first tool call, if it names a route.\<close>

definition select_route :: "string list \<Rightarrow> (step_exn + string list) \<Rightarrow> string option" where
  "select_route names reply =
     (case reply of
        Inl x \<Rightarrow> None
      | Inr [] \<Rightarrow> None
      | Inr (c # cs) \<Rightarrow> find (\<lambda>n. c = transfer_prefix @ n) names)"

subsection \<open>One list of tools\<close>

definition registry_ok :: "registry \<Rightarrow> bool" where
  "registry_ok r \<longleftrightarrow>
     rg_analyzed r = rg_tools r \<and> set (rg_tools r) \<subseteq> {..<length (rg_fns r)} \<and> distinct (map (fn_name r) (rg_tools r))
     \<and> set (map fst (rg_degraded r)) \<subseteq> set (rg_materialized r) \<and> dict_wf (rg_degraded r)
     \<and> set (map snd (rg_degraded r)) \<subseteq> {..<length (rg_cards r)}"

text \<open>The names depend on the functions only.\<close>

lemma fn_name_writes [simp]:
  "fn_name (r\<lparr>rg_tools := ts\<rparr>) = fn_name r"
  "fn_name (r\<lparr>rg_analyzed := ts\<rparr>) = fn_name r"
  "fn_name (r\<lparr>rg_version := v\<rparr>) = fn_name r"
  "fn_name (r\<lparr>rg_materialized := us\<rparr>) = fn_name r"
  "fn_name (r\<lparr>rg_cards := cs\<rparr>) = fn_name r"
  "fn_name (r\<lparr>rg_degraded := d\<rparr>) = fn_name r"
  by (simp_all add: fn_name_def fun_eq_iff)

lemma fn_name_append: "i < length (rg_fns r) \<Longrightarrow> tf_name ((rg_fns r @ [fn]) ! i) = fn_name r i"
  by (simp add: fn_name_def nth_append)

lemma map_fn_name_append:
  assumes "set is \<subseteq> {..<length (rg_fns r)}"
  shows "map (\<lambda>i. tf_name ((rg_fns r @ [fn]) ! i)) is = map (fn_name r) is"
  using assms by (intro map_cong) (auto simp: fn_name_append)

lemma append_tool_ok:
  assumes "registry_ok r" and "tf_name fn \<notin> fn_name r ` set (rg_tools r)"
  shows "registry_ok (append_tool fn r)"
proof -
  from assms(1) have s: "set (rg_tools r) \<subseteq> {..<length (rg_fns r)}" and d: "distinct (map (fn_name r) (rg_tools r))"
    by (simp_all add: registry_ok_def)
  have names: "map (fn_name (append_tool fn r)) (rg_tools (append_tool fn r)) = map (fn_name r) (rg_tools r) @ [tf_name fn]"
    using map_fn_name_append [OF s, of fn] by (simp add: append_tool_def fn_name_def)
  from assms(2) d have "distinct (map (fn_name r) (rg_tools r) @ [tf_name fn])" by simp
  then have "distinct (map (fn_name (append_tool fn r)) (rg_tools (append_tool fn r)))" unfolding names .
  with assms(1) show ?thesis unfolding registry_ok_def by (auto simp: append_tool_def)
qed

lemma drop_named_ok: "registry_ok r \<Longrightarrow> registry_ok (drop_named name r)"
  by (auto simp: registry_ok_def drop_named_def distinct_map_filter)

lemma drop_named_gone: "name \<notin> fn_name (drop_named name r) ` set (rg_tools (drop_named name r))"
  by (auto simp: drop_named_def)

lemma register_ok: "registry_ok r \<Longrightarrow> registry_ok (register_tool fn r)"
  unfolding register_tool_def by (intro append_tool_ok drop_named_ok drop_named_gone)

lemma unregister_ok: "registry_ok r \<Longrightarrow> registry_ok (snd (unregister_tool name r))"
  using drop_named_ok [of r name] by (simp add: unregister_tool_def Let_def registry_ok_def)

text \<open>Writes through the shared functions keep every name.\<close>

lemma names_after_write:
  assumes "\<And>i. i < length (rg_fns r) \<Longrightarrow> tf_name (f i) = tf_name (rg_fns r ! i)" and "set (rg_tools r) \<subseteq> {..<length (rg_fns r)}"
  shows "map (fn_name (r\<lparr>rg_fns := map f [0..<length (rg_fns r)]\<rparr>)) (rg_tools r) = map (fn_name r) (rg_tools r)"
  using assms by (intro map_cong) (auto simp: fn_name_def)

lemma stamp_ok:
  assumes "registry_ok r"
  shows "registry_ok (stamp_url name url r)"
proof -
  from assms have s: "set (rg_tools r) \<subseteq> {..<length (rg_fns r)}" by (simp add: registry_ok_def)
  have "map (fn_name (stamp_url name url r)) (rg_tools r) = map (fn_name r) (rg_tools r)"
    unfolding stamp_url_def by (rule names_after_write [OF _ s]) simp
  moreover have "distinct (map (fn_name r) (rg_tools r))" using assms by (simp add: registry_ok_def)
  ultimately have "distinct (map (fn_name (stamp_url name url r)) (rg_tools r))" by metis
  with assms show ?thesis unfolding registry_ok_def by (simp add: stamp_url_def)
qed

lemma upgrade_ok:
  assumes "registry_ok r"
  shows "registry_ok (upgrade_sub_agent url description r)"
proof (cases "description = '''' \<or> dget (rg_degraded r) url = None")
  case True
  with assms show ?thesis by (auto simp: upgrade_sub_agent_def)
next
  case False
  then obtain j where j: "description \<noteq> ''''" "dget (rg_degraded r) url = Some j" by auto
  let ?f = "\<lambda>i. if i \<in> set (rg_tools r) \<and> fn_name r i = ds_name (rg_cards r ! j)
       then (rg_fns r ! i)\<lparr>tf_doc := description\<rparr> else rg_fns r ! i"
  from assms have s: "set (rg_tools r) \<subseteq> {..<length (rg_fns r)}" by (simp add: registry_ok_def)
  have n: "map (fn_name (r\<lparr>rg_fns := map ?f [0..<length (rg_fns r)]\<rparr>)) (rg_tools r) = map (fn_name r) (rg_tools r)"
    by (rule names_after_write [OF _ s]) simp
  have "set (ddel url (rg_degraded r)) \<subseteq> set (rg_degraded r)" by (auto simp: set_ddel)
  then have k: "fst ` set (ddel url (rg_degraded r)) \<subseteq> fst ` set (rg_degraded r)"
    "snd ` set (ddel url (rg_degraded r)) \<subseteq> snd ` set (rg_degraded r)" by (intro image_mono; assumption)+
  from assms have "distinct (map (fn_name r) (rg_tools r))" by (simp add: registry_ok_def)
  then have d: "distinct (map (fn_name (r\<lparr>rg_fns := map ?f [0..<length (rg_fns r)]\<rparr>)) (rg_tools r))" unfolding n .
  have "upgrade_sub_agent url description r = (r\<lparr>rg_fns := map ?f [0..<length (rg_fns r)]\<rparr>)
      \<lparr>rg_degraded := ddel url (rg_degraded r), rg_cards := (rg_cards r)[j := (rg_cards r ! j)\<lparr>ds_description := description\<rparr>]\<rparr>"
    by (simp add: upgrade_sub_agent_def j Let_def)
  with assms d k show ?thesis by (simp add: registry_ok_def subset_trans [OF k(1)] subset_trans [OF k(2)])
qed

lemma ensure_ok:
  assumes "registry_ok r"
  shows "registry_ok (snd (ensure_sub_agent_tool name description url schema r))"
proof (cases "url \<in> set (rg_materialized r) \<or> name \<in> fn_name r ` set (rg_tools r)")
  case True
  with assms stamp_ok [OF assms] show ?thesis by (auto simp: ensure_sub_agent_tool_def)
next
  case False
  then have "registry_ok (append_tool \<lparr>tf_name = name, tf_doc = description, tf_schema = schema, tf_url = Some url\<rparr> r)"
    using assms by (intro append_tool_ok) auto
  with False show ?thesis by (auto simp: ensure_sub_agent_tool_def registry_ok_def append_tool_def)
qed

lemma add_card_ok: "registry_ok r \<Longrightarrow> registry_ok (r\<lparr>rg_cards := rg_cards r @ [c]\<rparr>)"
  by (auto simp: registry_ok_def)

lemma cards_of_ensure: "rg_cards (snd (ensure_sub_agent_tool name description url schema r)) = rg_cards r"
  by (simp add: ensure_sub_agent_tool_def stamp_url_def append_tool_def)

lemma advertise_ok:
  assumes "registry_ok q"
  shows "registry_ok (snd (advertise base missing (name, description, schema, q)))"
proof -
  define desc where "desc = \<lparr>ds_name = name, ds_description = description,
                  ds_schema = (case schema of Some s \<Rightarrow> s | None \<Rightarrow> message_input_schema), ds_url = Some base\<rparr>"
  obtain ok w where w: "ensure_sub_agent_tool name description base schema (q\<lparr>rg_cards := rg_cards q @ [desc]\<rparr>) = (ok, w)"
    by (metis prod.exhaust)
  from ensure_ok [OF add_card_ok [OF assms, of desc], of name description base schema] w have o: "registry_ok w" by simp
  have c: "rg_cards w = rg_cards q @ [desc]"
    using cards_of_ensure [of name description base schema "q\<lparr>rg_cards := rg_cards q @ [desc]\<rparr>"] w by simp
  have e: "snd (advertise base missing (name, description, schema, q)) =
      (if ok \<and> missing \<and> base \<in> set (rg_materialized w) \<and> dget (rg_degraded w) base = None
       then w\<lparr>rg_degraded := dset base (length (rg_cards q)) (rg_degraded w)\<rparr> else w)"
    by (simp add: advertise_def Let_def desc_def [symmetric] w)
  have "registry_ok (w\<lparr>rg_degraded := dset base (length (rg_cards q)) (rg_degraded w)\<rparr>)"
    if m: "base \<in> set (rg_materialized w)" and n: "dget (rg_degraded w) base = None"
    using o m c n by (auto simp: registry_ok_def dset_new dict_wf_def dget_None_iff)
  with o show ?thesis unfolding e by simp
qed

lemma describe_cases:
  "describe_sub_agent url peer r = Inr (name, description, schema, q) \<Longrightarrow>
   q = r \<or> (\<exists>x. q = upgrade_sub_agent (trim_slashes url) x r)"
  by (auto simp: describe_sub_agent_def Let_def split: option.splits pyval.splits sum.splits)

text \<open>A fetch of one address raises before it changes anything, or advertises what was described.\<close>

lemma fetch_one_cases:
  obtains x where "fetch_one url peer r = (Inl x, r)"
  | name description schema q js r' where "describe_sub_agent url peer r = Inr (name, description, schema, q)"
      "advertise (trim_slashes url) (peer = None) (name, description, schema, q) = (js, r')"
      "fetch_one url peer r = (Inr js, r')"
proof (cases "describe_sub_agent url peer r")
  case (Inl x)
  then show ?thesis by (intro that(1)) (simp add: fetch_one_def)
next
  case (Inr p)
  obtain name description schema q where p: "p = (name, description, schema, q)" by (metis prod.exhaust)
  obtain js r' where a: "advertise (trim_slashes url) (peer = None) p = (js, r')" by (metis prod.exhaust)
  with Inr show ?thesis unfolding p by (intro that(2)) (simp_all add: fetch_one_def p)
qed

lemma fetch_one_ok:
  assumes "registry_ok r"
  shows "registry_ok (snd (fetch_one url peer r))"
proof (cases rule: fetch_one_cases [of url peer r])
  case (2 name description schema q js r')
  with describe_cases [OF 2(1)] assms upgrade_ok have "registry_ok q" by auto
  from advertise_ok [OF this] 2(2,3) show ?thesis by (metis snd_conv)
qed (simp add: assms)

lemma fetch_all_ok: "registry_ok r \<Longrightarrow> registry_ok (snd (fetch_all cards urls r))"
proof (induction urls arbitrary: r)
  case (Cons url urls)
  have "registry_ok (snd (fetch_one url (cards (trim_slashes url)) r))" using Cons.prems by (rule fetch_one_ok)
  with Cons.IH [of "snd (fetch_one url (cards (trim_slashes url)) r)"] show ?case
    by (auto split: prod.split sum.split)
qed simp

text \<open>The life of an agent: tools come and go, cards are fetched, a call observes a peer's card.\<close>

inductive registry_step :: "registry \<Rightarrow> registry \<Rightarrow> bool" where
  register: "registry_step r (register_tool fn r)"
| unregister: "registry_step r (snd (unregister_tool name r))"
| fetch: "registry_step r (snd (fetch_remote_tools resolve cards r))"
| observe: "registry_step r (upgrade_sub_agent url description r)"

text \<open>
  An agent starts from the tools of its constructor.  Names may repeat there, but such an agent is never served: the
  compiler refuses a leaf with a duplicate tool name (\<open>compile_llm\<close>).
\<close>

inductive live_registry :: "registry \<Rightarrow> bool" where
  construct: "distinct (map tf_name fns) \<Longrightarrow> live_registry (new_agent fns urls)"
| step: "live_registry r \<Longrightarrow> registry_step r r' \<Longrightarrow> live_registry r'"

lemma fetch_remote_ok: "registry_ok r \<Longrightarrow> registry_ok (snd (fetch_remote_tools resolve cards r))"
  using fetch_all_ok [of r cards "filter (\<lambda>u. u \<noteq> '''') (map resolve (rg_urls r))"]
  by (auto simp: fetch_remote_tools_def split: prod.splits sum.splits)

lemma step_ok: "registry_step r r' \<Longrightarrow> registry_ok r \<Longrightarrow> registry_ok r'"
proof (induction rule: registry_step.induct)
  case (register r fn) then show ?case by (rule register_ok)
next
  case (unregister r name) then show ?case by (rule unregister_ok)
next
  case (fetch r resolve cards) then show ?case by (rule fetch_remote_ok)
next
  case (observe r url description) then show ?case by (rule upgrade_ok)
qed

lemma new_agent_ok:
  assumes "distinct (map tf_name fns)"
  shows "registry_ok (new_agent fns urls)"
proof -
  have "map (fn_name (new_agent fns urls)) [0..<length fns] = map tf_name (map ((!) fns) [0..<length fns])"
    by (simp add: fn_name_def new_agent_def)
  also have "\<dots> = map tf_name fns" by (simp only: map_nth)
  finally have "distinct (map (fn_name (new_agent fns urls)) [0..<length fns])" using assms by (simp only:)
  then show ?thesis unfolding registry_ok_def by (auto simp: new_agent_def)
qed

lemma live_ok: "live_registry r \<Longrightarrow> registry_ok r"
  by (induction rule: live_registry.induct) (erule new_agent_ok, erule (1) step_ok)

text \<open>
  The version of the tools: what a cached graph is keyed by.  With the same version the tools are the same function
  objects in the same order, with the names and input schemas they had.
\<close>

definition fn_face :: "registry \<Rightarrow> nat \<Rightarrow> string \<times> pyval option" where
  "fn_face r i = (tf_name (rg_fns r ! i), tf_schema (rg_fns r ! i))"

definition same_tools :: "registry \<Rightarrow> registry \<Rightarrow> bool" where
  "same_tools r r' \<longleftrightarrow> rg_tools r' = rg_tools r \<and> map (fn_face r') (rg_tools r') = map (fn_face r) (rg_tools r)"

definition advances :: "registry \<Rightarrow> registry \<Rightarrow> bool" where
  "advances r r' \<longleftrightarrow> rg_version r \<le> rg_version r' \<and> (rg_version r' = rg_version r \<longrightarrow> same_tools r r')"

lemma same_tools_names: "same_tools r r' \<Longrightarrow> map (fn_name r') (rg_tools r') = map (fn_name r) (rg_tools r)"
proof -
  assume "same_tools r r'"
  then have "map (fn_face r') (rg_tools r') = map (fn_face r) (rg_tools r)" unfolding same_tools_def by (rule conjunct2)
  then have "map fst (map (fn_face r') (rg_tools r')) = map fst (map (fn_face r) (rg_tools r))" by (rule arg_cong)
  moreover have "map fst (map (fn_face q) is) = map (fn_name q) is" for q "is" by (simp add: fn_face_def fn_name_def)
  ultimately show ?thesis by (simp only:)
qed

lemma faces_after_write:
  assumes "\<And>i. i < length (rg_fns r) \<Longrightarrow> tf_name (f i) = tf_name (rg_fns r ! i) \<and> tf_schema (f i) = tf_schema (rg_fns r ! i)"
    and "set (rg_tools r) \<subseteq> {..<length (rg_fns r)}"
  shows "map (fn_face (r\<lparr>rg_fns := map f [0..<length (rg_fns r)]\<rparr>)) (rg_tools r) = map (fn_face r) (rg_tools r)"
  using assms by (intro map_cong) (auto simp: fn_face_def)

lemma fn_face_writes [simp]:
  "fn_face (r\<lparr>rg_tools := ts\<rparr>) = fn_face r" "fn_face (r\<lparr>rg_analyzed := ts\<rparr>) = fn_face r"
  "fn_face (r\<lparr>rg_version := v\<rparr>) = fn_face r" "fn_face (r\<lparr>rg_materialized := us\<rparr>) = fn_face r"
  "fn_face (r\<lparr>rg_cards := cs\<rparr>) = fn_face r" "fn_face (r\<lparr>rg_degraded := d\<rparr>) = fn_face r"
  by (simp_all add: fn_face_def fun_eq_iff)

lemma advances_refl: "advances r r"
  by (simp add: advances_def same_tools_def)

lemma advances_trans: "advances a b \<Longrightarrow> advances b c \<Longrightarrow> advances a c"
  unfolding advances_def same_tools_def by (metis le_antisym le_trans)

lemma append_advances: "advances r (append_tool fn r)"
  by (simp add: advances_def append_tool_def)

lemma register_advances: "advances r (register_tool fn r)"
  by (simp add: advances_def register_tool_def append_tool_def drop_named_def)

lemma unregister_advances: "advances r (snd (unregister_tool name r))"
proof (cases "length (rg_tools (drop_named name r)) < length (rg_tools r)")
  case True
  then show ?thesis by (simp add: advances_def unregister_tool_def drop_named_def Let_def)
next
  case False
  note same_tools_def [simp]
  from False have "\<not> length (filter (\<lambda>i. fn_name r i \<noteq> name) (rg_tools r)) < length (rg_tools r)" by (simp add: drop_named_def)
  then have "filter (\<lambda>i. fn_name r i \<noteq> name) (rg_tools r) = rg_tools r"
    by (intro filter_True ballI) (metis (mono_tags, lifting) length_filter_less)
  with False show ?thesis by (simp add: advances_def unregister_tool_def drop_named_def Let_def)
qed

lemma stamp_faces:
  assumes "registry_ok r"
  shows "map (fn_face (stamp_url name url r)) (rg_tools r) = map (fn_face r) (rg_tools r)"
  unfolding stamp_url_def by (rule faces_after_write) (use assms in \<open>simp_all add: registry_ok_def\<close>)

lemma stamp_advances: "registry_ok r \<Longrightarrow> advances r (stamp_url name url r)"
  using stamp_faces [of r name url] unfolding advances_def same_tools_def by (simp add: stamp_url_def)

lemma upgrade_faces:
  assumes "registry_ok r"
  shows "map (fn_face (upgrade_sub_agent url description r)) (rg_tools r) = map (fn_face r) (rg_tools r)"
proof (cases "description = '''' \<or> dget (rg_degraded r) url = None")
  case True
  then show ?thesis by (auto simp: upgrade_sub_agent_def)
next
  case False
  then obtain j where "description \<noteq> ''''" "dget (rg_degraded r) url = Some j" by auto
  moreover have "map (fn_face (r\<lparr>rg_fns := map (\<lambda>i. if i \<in> set (rg_tools r) \<and> fn_name r i = ds_name (rg_cards r ! j)
       then (rg_fns r ! i)\<lparr>tf_doc := description\<rparr> else rg_fns r ! i) [0..<length (rg_fns r)]\<rparr>)) (rg_tools r)
      = map (fn_face r) (rg_tools r)"
    by (rule faces_after_write) (use assms in \<open>simp_all add: registry_ok_def\<close>)
  ultimately show ?thesis by (simp add: upgrade_sub_agent_def Let_def fn_face_def)
qed

lemma upgrade_keeps:
  "rg_version (upgrade_sub_agent url description r) = rg_version r"
  "rg_tools (upgrade_sub_agent url description r) = rg_tools r"
  "rg_materialized (upgrade_sub_agent url description r) = rg_materialized r"
  "length (rg_cards (upgrade_sub_agent url description r)) = length (rg_cards r)"
  by (simp_all add: upgrade_sub_agent_def Let_def split: option.splits)

lemma upgrade_advances: "registry_ok r \<Longrightarrow> advances r (upgrade_sub_agent url description r)"
  by (simp add: advances_def same_tools_def upgrade_keeps upgrade_faces)

lemma advances_write [simp]:
  "advances (q\<lparr>rg_cards := cs\<rparr>) r = advances q r"
  "advances r (q\<lparr>rg_materialized := us\<rparr>) = advances r q"
  "advances r (q\<lparr>rg_cards := cs\<rparr>) = advances r q"
  "advances r (q\<lparr>rg_degraded := d\<rparr>) = advances r q"
  by (simp_all add: advances_def same_tools_def)

lemma ensure_advances:
  assumes "registry_ok r"
  shows "advances r (snd (ensure_sub_agent_tool name description url schema r))"
  by (simp add: ensure_sub_agent_tool_def stamp_advances [OF assms] advances_refl append_advances)

lemma fetch_one_advances:
  assumes "registry_ok r"
  shows "advances r (snd (fetch_one url peer r))"
proof (cases rule: fetch_one_cases [of url peer r])
  case (1 x)
  then show ?thesis by (simp add: advances_refl)
next
  case (2 name description schema q js r')
  have q: "registry_ok q" "advances r q"
    using describe_cases [OF 2(1)] upgrade_ok [OF assms] upgrade_advances [OF assms] assms advances_refl by auto
  define c where "c = \<lparr>ds_name = name, ds_description = description,
                  ds_schema = (case schema of Some s \<Rightarrow> s | None \<Rightarrow> message_input_schema), ds_url = Some (trim_slashes url)\<rparr>"
  obtain ok w where w: "ensure_sub_agent_tool name description (trim_slashes url) schema (q\<lparr>rg_cards := rg_cards q @ [c]\<rparr>) = (ok, w)"
    by (metis prod.exhaust)
  have "advances (q\<lparr>rg_cards := rg_cards q @ [c]\<rparr>) w"
    using ensure_advances [OF add_card_ok [OF q(1), of c], of name description "trim_slashes url" schema] w by simp
  then have "advances q w" by simp
  with q(2) have "advances r w" by (rule advances_trans)
  with 2(2,3) show ?thesis by (auto simp: advertise_def Let_def c_def [symmetric] w split: if_splits)
qed

lemma fetch_all_advances: "registry_ok r \<Longrightarrow> advances r (snd (fetch_all cards urls r))"
proof (induction urls arbitrary: r)
  case (Cons url urls)
  have "registry_ok (snd (fetch_one url (cards (trim_slashes url)) r))" using Cons.prems by (rule fetch_one_ok)
  from advances_trans [OF fetch_one_advances [OF Cons.prems] Cons.IH [OF this]]
    fetch_one_advances [OF Cons.prems, of url "cards (trim_slashes url)"]
  show ?case by (auto split: prod.split sum.split)
qed (simp add: advances_refl)

lemma step_advances: "registry_step r r' \<Longrightarrow> registry_ok r \<Longrightarrow> advances r r'"
proof (induction rule: registry_step.induct)
  case (fetch r resolve cards)
  then show ?case
    using fetch_all_advances [of r cards "filter (\<lambda>u. u \<noteq> '''') (map resolve (rg_urls r))"]
    by (auto simp: fetch_remote_tools_def split: prod.splits sum.splits)
qed (simp_all add: register_advances unregister_advances upgrade_advances)

lemma steps_advance: "registry_step\<^sup>*\<^sup>* r r' \<Longrightarrow> registry_ok r \<Longrightarrow> registry_ok r' \<and> advances r r'"
proof (induction rule: rtranclp_induct)
  case base
  then show ?case by (simp add: advances_refl)
next
  case (step b c)
  then have b: "registry_ok b" "advances r b" by auto
  from step_ok [OF step.hyps(2) b(1)] advances_trans [OF b(2) step_advances [OF step.hyps(2) b(1)]] show ?case by simp
qed


text \<open>the version a compiled graph is cached under.  From any live agent, through any operations, the version never
  falls, and an agent that has the version it had before has the same tool objects, in the same order, with the names and
  input schemas they had.\<close>

theorem version_stands_for_the_tools:
  assumes "live_registry r" and "registry_step\<^sup>*\<^sup>* r r'"
  shows "rg_version r \<le> rg_version r'
     \<and> (if rg_version r' = rg_version r
        then same_tools r r' \<and> map fst (collect_tools r') = map fst (collect_tools r) else rg_version r < rg_version r')"
proof -
  from steps_advance [OF assms(2) live_ok [OF assms(1)]] have o: "registry_ok r'" and a: "advances r r'" by auto
  from o live_ok [OF assms(1)] have "map fst (collect_tools q) = map (fn_name q) (rg_tools q)" if "q \<in> {r, r'}" for q
    using that by (auto simp: registry_ok_def collect_tools_def o_def)
  then have "map fst (collect_tools r') = map (fn_name r') (rg_tools r')" and "map fst (collect_tools r) = map (fn_name r) (rg_tools r)"
    by simp_all
  moreover have "rg_version r \<le> rg_version r'" using a unfolding advances_def by (rule conjunct1)
  moreover have "map (fn_name r') (rg_tools r') = map (fn_name r) (rg_tools r)" if "rg_version r' = rg_version r"
    using a that same_tools_names unfolding advances_def by blast
  moreover have "same_tools r r'" if "rg_version r' = rg_version r" using a that unfolding advances_def by blast
  ultimately show ?thesis by (cases "rg_version r' = rg_version r") (simp_all only: if_True if_False, simp_all)
qed

definition sample_agent :: registry where
  "sample_agent = new_agent [\<lparr>tf_name = ''query'', tf_doc = ''Query a table'', tf_schema = None, tf_url = None\<rparr>] [''http://peer'']"

definition sample_tool :: tool_fn where
  "sample_tool = \<lparr>tf_name = ''lookup'', tf_doc = '''', tf_schema = None, tf_url = None\<rparr>"

lemma sample_agent_live: "live_registry sample_agent"
  unfolding sample_agent_def by (rule live_registry.construct) simp


lemma version_stands_for_the_tools_witness: "rg_version sample_agent < rg_version (register_tool sample_tool sample_agent)"
proof -
  have "registry_step\<^sup>*\<^sup>* sample_agent (register_tool sample_tool sample_agent)" by (rule r_into_rtranclp) (rule registry_step.register)
  from version_stands_for_the_tools [OF sample_agent_live this] show ?thesis
    by (simp add: register_tool_def append_tool_def drop_named_def sample_agent_def sample_tool_def new_agent_def fn_name_def)
qed

subsection \<open>A first fetch\<close>

definition callable :: "registry \<Rightarrow> descriptor \<Rightarrow> bool" where
  "callable r d \<longleftrightarrow>
     list_ex (\<lambda>i. fn_name r i = ds_name d \<and> tf_url (rg_fns r ! i) = ds_url d) (rg_tools r) \<and> accepted_schema (ds_schema d)"

definition grows :: "registry \<Rightarrow> registry \<Rightarrow> bool" where
  "grows r r' \<longleftrightarrow> (\<exists>fs ts cs. rg_fns r' = rg_fns r @ fs \<and> rg_tools r' = rg_tools r @ ts \<and> rg_cards r' = rg_cards r @ cs)"

lemma grows_refl: "grows r r"
  unfolding grows_def by (intro exI [of _ "[]"]) simp

lemma grows_trans: "grows a b \<Longrightarrow> grows b c \<Longrightarrow> grows a c"
  unfolding grows_def by (metis append.assoc)

lemma callable_grows:
  assumes "callable r d" and "grows r r'" and "set (rg_tools r) \<subseteq> {..<length (rg_fns r)}"
  shows "callable r' d"
proof -
  from assms(1) obtain i where i: "i \<in> set (rg_tools r)" "fn_name r i = ds_name d" "tf_url (rg_fns r ! i) = ds_url d"
    by (auto simp: callable_def list_ex_iff)
  from i(1) assms(3) have "i < length (rg_fns r)" by auto
  with i assms(2) have "i \<in> set (rg_tools r') \<and> fn_name r' i = ds_name d \<and> tf_url (rg_fns r' ! i) = ds_url d"
    by (auto simp: grows_def fn_name_def nth_append)
  with assms(1) show ?thesis by (auto simp: callable_def list_ex_iff)
qed

lemma card_schema_accepted: "card_structured_schema cd = Some s \<Longrightarrow> accepted_schema s"
  by (auto simp: card_structured_schema_def structured_input_schema_def Let_def sanitize_accepted
      simp del: sanitize.simps split: pyval.splits list.splits if_splits)

lemma message_schema_accepted: "accepted_schema message_input_schema"
  by (simp add: message_input_schema_def)

lemma fresh_description:
  assumes "registry_ok r" and "trim_slashes url \<notin> set (rg_materialized r)"
    and "describe_sub_agent url peer r = Inr (name, description, schema, q)"
  shows "q = r \<and> accepted_schema (case schema of Some s \<Rightarrow> s | None \<Rightarrow> message_input_schema)"
proof -
  have "dget (rg_degraded r) (trim_slashes url) = None"
    using assms(1,2) by (auto simp: registry_ok_def dget_None_iff)
  with assms(3) show ?thesis
    by (auto simp: describe_sub_agent_def Let_def message_schema_accepted card_schema_accepted
        split: option.splits pyval.splits sum.splits)
qed

lemma degraded_same: "\<exists>dg. r = r\<lparr>rg_degraded := dg\<rparr>"
  by (rule exI [of _ "rg_degraded r"]) simp

lemma fetch_fresh:
  assumes "registry_ok r" and "trim_slashes url \<notin> set (rg_materialized r)" and "fetch_one url peer r = (Inr js, r')"
  shows "grows r r' \<and> set (rg_materialized r') \<subseteq> insert (trim_slashes url) (set (rg_materialized r))
     \<and> (\<forall>j\<in>set js. j < length (rg_cards r') \<and> callable r' (rg_cards r' ! j))"
proof -
  from assms(3) obtain name description schema q where d: "describe_sub_agent url peer r = Inr (name, description, schema, q)"
    and a: "advertise (trim_slashes url) (peer = None) (name, description, schema, q) = (js, r')"
    by (cases rule: fetch_one_cases [of url peer r]) auto
  from fresh_description [OF assms(1,2) d] have q: "q = r"
    and s: "accepted_schema (case schema of Some s \<Rightarrow> s | None \<Rightarrow> message_input_schema)" by auto
  define c where "c = \<lparr>ds_name = name, ds_description = description,
                  ds_schema = (case schema of Some s \<Rightarrow> s | None \<Rightarrow> message_input_schema), ds_url = Some (trim_slashes url)\<rparr>"
  define fn where "fn = \<lparr>tf_name = name, tf_doc = description, tf_schema = schema, tf_url = Some (trim_slashes url)\<rparr>"
  show ?thesis
  proof (cases "name \<in> fn_name r ` set (rg_tools r)")
    case True
    then have "js = [] \<and> r' = r\<lparr>rg_cards := rg_cards r @ [c]\<rparr>"
      using assms(2) a by (simp add: advertise_def q Let_def c_def [symmetric] ensure_sub_agent_tool_def)
    then show ?thesis by (auto simp: grows_def)
  next
    case False
    define w where "w = (append_tool fn (r\<lparr>rg_cards := rg_cards r @ [c]\<rparr>))\<lparr>rg_materialized := rg_materialized r @ [trim_slashes url]\<rparr>"
    have "ensure_sub_agent_tool name description (trim_slashes url) schema (r\<lparr>rg_cards := rg_cards r @ [c]\<rparr>) = (True, w)"
      using False assms(2) by (simp add: ensure_sub_agent_tool_def w_def fn_def append_tool_def)
    with a have "js = [length (rg_cards r)] \<and> (\<exists>dg. r' = w\<lparr>rg_degraded := dg\<rparr>)"
      by (auto simp: advertise_def q Let_def c_def [symmetric] intro: degraded_same split: if_splits)
    then obtain dg where j: "js = [length (rg_cards r)]" and e: "r' = w\<lparr>rg_degraded := dg\<rparr>" by blast
    have "callable r' c" using s by (simp add: callable_def e w_def append_tool_def c_def fn_def fn_name_def)
    with j show ?thesis by (auto simp: e w_def append_tool_def grows_def)
  qed
qed

lemma fetch_all_fresh:
  "\<lbrakk>registry_ok r; distinct (map trim_slashes urls); set (map trim_slashes urls) \<inter> set (rg_materialized r) = {};
    fetch_all cards urls r = (Inr js, r')\<rbrakk>
   \<Longrightarrow> grows r r' \<and> (\<forall>j\<in>set js. j < length (rg_cards r') \<and> callable r' (rg_cards r' ! j))"
proof (induction urls arbitrary: r js r')
  case Nil
  then show ?case by (simp add: grows_refl)
next
  case (Cons url urls)
  from Cons.prems(4) obtain hs q ks r'' where one: "fetch_one url (cards (trim_slashes url)) r = (Inr hs, q)"
    and rest: "fetch_all cards urls q = (Inr ks, r'')" and e: "js = hs @ ks" "r' = r''"
    by (auto split: prod.splits sum.splits)
  have oq: "registry_ok q" using fetch_one_ok [OF Cons.prems(1), of url "cards (trim_slashes url)"] one by simp
  from Cons.prems(3) have "trim_slashes url \<notin> set (rg_materialized r)" by auto
  from fetch_fresh [OF Cons.prems(1) this one] have g: "grows r q"
    and m: "set (rg_materialized q) \<subseteq> insert (trim_slashes url) (set (rg_materialized r))"
    and c: "\<forall>j\<in>set hs. j < length (rg_cards q) \<and> callable q (rg_cards q ! j)" by auto
  have "set (map trim_slashes urls) \<inter> insert (trim_slashes url) (set (rg_materialized r)) = {}" using Cons.prems(2,3) by auto
  with m have "set (map trim_slashes urls) \<inter> set (rg_materialized q) = {}" by blast
  from Cons.IH [OF oq _ this rest] Cons.prems(2) have g': "grows q r''"
    and c': "\<forall>j\<in>set ks. j < length (rg_cards r'') \<and> callable r'' (rg_cards r'' ! j)" by auto
  have "j < length (rg_cards r'') \<and> callable r'' (rg_cards r'' ! j)" if "j \<in> set hs" for j
  proof -
    from g' have "rg_cards r'' ! j = rg_cards q ! j" "j < length (rg_cards r'')" using c that by (auto simp: grows_def nth_append)
    moreover have "callable r'' (rg_cards q ! j)"
      by (rule callable_grows [OF _ g']) (use c that oq in \<open>simp_all add: registry_ok_def\<close>)
    ultimately show ?thesis by simp
  qed
  with c' grows_trans [OF g g'] show ?case unfolding e by auto
qed

text \<open>A card that ends the fetch: it is no object, or its name is no text.\<close>

definition bad_card :: "pyval option \<Rightarrow> bool" where
  "bad_card peer =
     (case peer of
        None \<Rightarrow> False
      | Some (PDict cd) \<Rightarrow> (case dget cd ''name'' of None \<Rightarrow> False | Some v \<Rightarrow> str_of v = None)
      | Some v \<Rightarrow> True)"

lemma fetch_one_raises: "fetch_one url peer r = (Inl x, r') \<Longrightarrow> bad_card peer \<and> x = OtherExn ''AttributeError''"
  by (auto simp: fetch_one_def describe_sub_agent_def bad_card_def card_name_def Let_def
      split: option.splits pyval.splits sum.splits prod.splits)

lemma fetch_all_raises:
  "fetch_all cards urls r = (Inl x, r') \<Longrightarrow> x = OtherExn ''AttributeError'' \<and> list_ex (\<lambda>u. bad_card (cards (trim_slashes u))) urls"
proof (induction urls arbitrary: r)
  case (Cons url urls)
  show ?case
  proof (cases "fetch_one url (cards (trim_slashes url)) r")
    case (Pair y q)
    with Cons fetch_one_raises [of url "cards (trim_slashes url)" r] show ?thesis
      by (cases y) (auto split: prod.splits sum.splits)
  qed
qed simp


definition peer_card :: pyval where
  "peer_card = PDict [(''name'', PStr ''alpha''), (''description'', PStr ''Answers questions'')]"

lemma sample_fetch:
  "\<exists>d r'. fetch_remote_tools id (\<lambda>u. Some peer_card) sample_agent = (Inr [d], r') \<and> ds_name d = ''alpha''
    \<and> collect_tools r' = [(''query'', ''Query a table''), (''alpha'', ''Answers questions'')]"
proof -
  have "(case fetch_remote_tools id (\<lambda>u. Some peer_card) sample_agent of
      (Inr [d], r') \<Rightarrow> ds_name d = ''alpha'' \<and> collect_tools r' = [(''query'', ''Query a table''), (''alpha'', ''Answers questions'')]
    | _ \<Rightarrow> False)" by code_simp
  then show ?thesis by (auto split: prod.splits sum.splits list.splits)
qed


text \<open>One peer whose card has no text as its name ends the fetch: the peers after it get no tool.\<close>

lemma bad_card_ends_the_fetch:
  "(case fetch_remote_tools id (\<lambda>u. if u = ''http://a'' then Some (PDict [(''name'', PInt 7)]) else Some peer_card)
           (new_agent [] [''http://a'', ''http://b'']) of
      (Inl x, r') \<Rightarrow> collect_tools r' = [] | _ \<Rightarrow> False)"
  by code_simp

text \<open>A second fetch may not keep that: the peer's card is missing this time, the name is guessed from the address, and
  the guessed name is advertised although no tool has it.\<close>

lemma refetch_advertises_a_missing_tool:
  "(case fetch_remote_tools id (\<lambda>u. None) (snd (fetch_remote_tools id (\<lambda>u. Some peer_card) sample_agent)) of
      (Inr ds, r2) \<Rightarrow> map ds_name ds = [''peer''] \<and> map fst (collect_tools r2) = [''query'', ''alpha''] | _ \<Rightarrow> False)"
  by code_simp

text \<open>Repairing a degraded peer changes the description the model should see, not the version the graph is cached under.\<close>

lemma repair_keeps_the_version:
  "(let r1 = snd (fetch_remote_tools id (\<lambda>u. None) sample_agent); r2 = upgrade_sub_agent ''http://peer'' ''Answers questions'' r1
    in collect_tools r2 \<noteq> collect_tools r1 \<and> rg_version r2 = rg_version r1)"
  by code_simp

text \<open>An address with a final slash and an undivided host leaves a fetched-without-card tool without a name.\<close>

lemma slash_gives_empty_name: "degraded_name ''http://peer/'' = ''''"
  by code_simp

subsection \<open>Cards are fetched in bounded time\<close>

definition tries_ok :: "(nat \<Rightarrow> pyfloat \<times> pyval option) \<Rightarrow> nat \<Rightarrow> pyval option \<Rightarrow> (nat \<times> pyfloat) list \<Rightarrow> bool" where
  "tries_ok attempt n c tries \<longleftrightarrow>
     tries \<noteq> [] \<and> map fst tries = [n..<n + length tries] \<and> c = read_card (snd (attempt (fst (last tries))))
     \<and> list_all (\<lambda>(m, t). snd (attempt m) = None) (butlast tries)"

lemma fetch_card_tries:
  "0 < left \<Longrightarrow> fetch_card attempt left n elapsed = (c, tries, t) \<Longrightarrow> left + n = Suc card_attempts \<Longrightarrow>
   tries_ok attempt n c tries \<and> length tries \<le> left"
proof (induction left arbitrary: n elapsed c tries t)
  case (Suc left)
  obtain took peer where a: "attempt n = (took, peer)" by fastforce
  show ?case
  proof (cases "peer \<noteq> None \<or> n = card_attempts \<or> card_budget \<le> elapsed + took")
    case True
    with Suc.prems(2) a have "c = read_card peer \<and> tries = [(n, elapsed)]"
      by (auto simp: Let_def read_card_def split: option.splits if_splits)
    with a show ?thesis by (simp add: tries_ok_def)
  next
    case False
    obtain d more u where r: "fetch_card attempt left (Suc n) (elapsed + took + card_backoff * real n) = (d, more, u)"
      by (metis prod.exhaust)
    from False Suc.prems(3) have "0 < left" by auto
    from Suc.IH [OF this r] Suc.prems(3) have o: "tries_ok attempt (Suc n) d more" "length more \<le> left" by simp_all
    from False a r Suc.prems(2) have e: "c = d" "tries = (n, elapsed) # more" by (auto simp: Let_def)
    have "map fst tries = [n..<n + length tries]"
      using o(1) by (simp add: e tries_ok_def upt_conv_Cons del: upt_Suc)
    with o False a show ?thesis by (auto simp: e tries_ok_def)
  qed
qed simp

lemma fetch_card_times:
  assumes "\<And>m. 0 \<le> fst (attempt m) \<and> fst (attempt m) \<le> limit"
  shows "0 < left \<Longrightarrow> fetch_card attempt left n elapsed = (c, tries, t) \<Longrightarrow> left + n = Suc card_attempts \<Longrightarrow>
    elapsed \<le> card_budget + card_backoff * (real n - 1) \<Longrightarrow> t \<le> card_budget + card_backoff * (real card_attempts - 1) + limit"
proof (induction left arbitrary: n elapsed c tries t)
  case 0
  then show ?case by simp
next
  case (Suc left)
  obtain took peer where a: "attempt n = (took, peer)" by fastforce
  with assms [of n] have took: "took \<le> limit" by simp
  show ?case
  proof (cases "peer \<noteq> None \<or> n = card_attempts \<or> card_budget \<le> elapsed + took")
    case True
    with Suc.prems(2) a have "t = elapsed + took" by (auto simp: Let_def split: option.splits if_splits)
    moreover have "real n \<le> 3" using Suc.prems(3) by (simp add: card_attempts_def)
    moreover have "2 * elapsed \<le> 9 + real n" using Suc.prems(4) by (simp add: card_budget_def card_backoff_def field_simps)
    ultimately have "t \<le> 6 + limit" using took by linarith
    then show ?thesis by (simp add: card_budget_def card_backoff_def card_attempts_def)
  next
    case False
    obtain d more u where r: "fetch_card attempt left (Suc n) (elapsed + took + card_backoff * real n) = (d, more, u)"
      by (metis prod.exhaust)
    from False a r Suc.prems(2) have "t = u" by (auto simp: Let_def)
    moreover have "0 < left" using False Suc.prems(3) by auto
    moreover have "elapsed + took + card_backoff * real n \<le> card_budget + card_backoff * (real (Suc n) - 1)"
      using False by (simp add: card_backoff_def)
    ultimately show ?thesis using Suc.IH [OF _ r] Suc.prems(3) by simp
  qed
qed

text \<open>a peer that is down cannot hold the start of a server.  A card is tried at most three times, in order; the
  result is the answer of the last attempt made and every attempt before it failed; and when no request takes longer than
  \<open>limit\<close> seconds the fetch has ended within six seconds and that limit.\<close>

theorem card_fetch_is_bounded:
  assumes "fetch_sub_agent_card attempt = (c, tries, t)" and "\<And>m. 0 \<le> fst (attempt m) \<and> fst (attempt m) \<le> limit"
  shows "map fst tries \<in> {[1], [1, 2], [1, 2, 3]} \<and> c = read_card (snd (attempt (length tries)))
     \<and> list_all (\<lambda>(m, u). snd (attempt m) = None) (butlast tries) \<and> t \<le> 6 + limit"
proof -
  from assms(1) have f: "fetch_card attempt card_attempts 1 0 = (c, tries, t)" by (simp add: fetch_sub_agent_card_def)
  have o: "tries_ok attempt 1 c tries" "length tries \<le> 3"
    using fetch_card_tries [OF _ f] by (simp_all add: card_attempts_def)
  then have n: "length tries \<in> {1, 2, 3}" by (cases "length tries") (auto simp: tries_ok_def)
  have m: "map fst tries = [1..<1 + length tries]" using o(1) by (simp add: tries_ok_def)
  have "tries \<noteq> []" using o(1) by (simp add: tries_ok_def)
  then have "fst (last tries) = last (map fst tries)" by (simp add: last_map)
  also have "\<dots> = length tries" using n unfolding m by auto
  finally have l: "fst (last tries) = length tries" .
  have "map fst tries \<in> {[1], [1, 2], [1, 2, 3]}" using n unfolding m by (auto simp: upt_rec)
  moreover have "t \<le> 6 + limit"
    using fetch_card_times [OF assms(2) _ f] by (simp add: card_attempts_def card_budget_def card_backoff_def)
  ultimately show ?thesis using o(1) l by (simp add: tries_ok_def)
qed

definition slow_boot :: "nat \<Rightarrow> pyfloat \<times> pyval option" where
  "slow_boot n = (1, if n = 3 then Some peer_card else None)"

lemma card_fetch_is_bounded_witness: "fetch_sub_agent_card slow_boot = (Some peer_card, [(1, 0), (2, 3 / 2), (3, 7 / 2)], 9 / 2)
   \<and> (9 / 2 :: pyfloat) \<le> 6 + 1"
proof -
  have f: "fetch_sub_agent_card slow_boot = (Some peer_card, [(1, 0), (2, 3 / 2), (3, 7 / 2)], 9 / 2)"
    by (simp add: fetch_sub_agent_card_def card_attempts_def eval_nat_numeral slow_boot_def card_budget_def card_backoff_def
        read_card_def peer_card_def)
  have "0 \<le> fst (slow_boot m) \<and> fst (slow_boot m) \<le> 1" for m by (simp add: slow_boot_def)
  from card_fetch_is_bounded [OF f this] f show ?thesis by blast
qed

subsection \<open>Streaming agrees with running\<close>

definition streams_like :: "runner \<Rightarrow> streamer \<Rightarrow> bool" where
  "streams_like run str \<longleftrightarrow>
     (\<forall>c. case run c of Inl x \<Rightarrow> snd (str c) = Some x | Inr t \<Rightarrow> snd (str c) = None \<and> concat (fst (str c)) = t)"

lemma streams_likeD:
  assumes "streams_like run str" and "str c = (chunks, x)"
  shows "run c = (case x of None \<Rightarrow> Inr (concat chunks) | Some y \<Rightarrow> Inl y)"
  using assms(1) [unfolded streams_like_def, rule_format, of c] assms(2) by (auto split: sum.splits)

lemma agent_streams_like:
  assumes "streams_like turn stream_turn" and "lf_out_guards lf = []"
  shows "streams_like (run_agent lf turn) (stream_agent lf stream_turn)"
  unfolding streams_like_def
proof
  fix c
  obtain chunks x where s: "stream_turn c = (chunks, x)" by fastforce
  from streams_likeD [OF assms(1) s]
  show "case run_agent lf turn c of Inl x \<Rightarrow> snd (stream_agent lf stream_turn c) = Some x
    | Inr t \<Rightarrow> snd (stream_agent lf stream_turn c) = None \<and> concat (fst (stream_agent lf stream_turn c)) = t"
    by (auto simp: run_agent_def stream_agent_def s assms(2) counted_def Let_def split: option.splits)
qed

text \<open>The chunks of a streamed run: each step's header and then its text.\<close>

fun step_texts :: "runner list \<Rightarrow> nat \<Rightarrow> nat \<Rightarrow> msg list \<Rightarrow> string \<Rightarrow> string" where
  "step_texts [] i steps context result = ''''"
| "step_texts (a # as) i steps context result =
     (let context' = (if i = 1 then context else hand_over context result) in
      step_header i steps @ (case a context' of Inl x \<Rightarrow> '''' | Inr t \<Rightarrow> t @ step_texts as (Suc i) steps context' t))"

lemma stream_steps_run:
  assumes "\<forall>p\<in>set as. streams_like (fst (snd p)) (snd (snd p))"
  shows "0 < i \<Longrightarrow> snd (stream_steps last_agent steps as i ctx result) =
      (case run_steps (map (fst \<circ> snd) as) (i = 1) ctx result of Inl x \<Rightarrow> Some x | Inr t \<Rightarrow> None)
    \<and> (\<forall>t. run_steps (map (fst \<circ> snd) as) (i = 1) ctx result = Inr t \<longrightarrow>
        concat (fst (stream_steps last_agent steps as i ctx result)) = step_texts (map (fst \<circ> snd) as) i steps ctx result)"
  using assms
proof (induction "as" arbitrary: i ctx result)
  case (Cons p as)
  obtain a run str where p: "p = (a, run, str)" by (metis prod.exhaust)
  define c where "c = (if i = 1 then ctx else hand_over ctx result)"
  define out where "out = (if a = last_agent then str c else case run c of Inl x \<Rightarrow> ([], Some x) | Inr r \<Rightarrow> ([r], None))"
  obtain chunks x where o: "out = (chunks, x)" by fastforce
  have r: "run c = (case x of None \<Rightarrow> Inr (concat chunks) | Some y \<Rightarrow> Inl y)"
  proof (cases "a = last_agent")
    case True
    with Cons.prems(2) p o out_def show ?thesis by (intro streams_likeD [of run str]) simp_all
  next
    case False
    with o show ?thesis by (auto simp: out_def split: sum.splits)
  qed
  define rs where "rs = map (fst \<circ> snd) as"
  have rs: "map (fst \<circ> snd) (p # as) = run # rs" by (simp add: rs_def p)
  have st: "stream_steps last_agent steps (p # as) i ctx result =
      (case x of
         Some y \<Rightarrow> (step_header i steps # chunks, Some y)
       | None \<Rightarrow> (let (rest, y) = stream_steps last_agent steps as (Suc i) c (concat chunks)
                  in (step_header i steps # chunks @ rest, y)))"
    by (simp only: p stream_steps.simps Let_def c_def [symmetric] out_def [symmetric] o prod.case)
  have rn: "run_steps (run # rs) (i = 1) ctx result = (case run c of Inl x \<Rightarrow> Inl x | Inr r \<Rightarrow> run_steps rs False c r)"
    by (simp only: run_steps.simps Let_def c_def [symmetric])
  have tx: "step_texts (run # rs) i steps ctx result =
      step_header i steps @ (case run c of Inl x \<Rightarrow> '''' | Inr t \<Rightarrow> t @ step_texts rs (Suc i) steps c t)"
    by (simp only: step_texts.simps Let_def c_def [symmetric])
  show ?case
  proof (cases x)
    case (Some y)
    then show ?thesis unfolding rs st rn tx by (simp add: r)
  next
    case None
    with Cons.IH [of "Suc i" c "concat chunks"] Cons.prems show ?thesis
      unfolding rs st rn tx rs_def [symmetric] by (simp add: r split_def)
  qed
qed simp

lemma last_step_text:
  "run_steps (f # fs) (i = 1) ctx result = Inr t \<Longrightarrow> 0 < i \<Longrightarrow>
   suffix (step_header (i + length fs) n @ t) (step_texts (f # fs) i n ctx result)"
proof (induction fs arbitrary: f i ctx result)
  case Nil
  define c where "c = (if i = 1 then ctx else hand_over ctx result)"
  have "run_steps [f] (i = 1) ctx result = (case f c of Inl x \<Rightarrow> Inl x | Inr r \<Rightarrow> run_steps [] False c r)"
    by (simp only: run_steps.simps(2) Let_def c_def [symmetric])
  with Nil(1) have "f c = Inr t" by (auto split: sum.splits)
  moreover have "step_texts [f] i n ctx result = step_header i n @ (case f c of Inl x \<Rightarrow> '''' | Inr t \<Rightarrow> t @ '''')"
    by (simp only: step_texts.simps Let_def c_def [symmetric])
  ultimately show ?case by simp
next
  case (Cons g fs)
  define c where "c = (if i = 1 then ctx else hand_over ctx result)"
  have "run_steps (f # g # fs) (i = 1) ctx result = (case f c of Inl x \<Rightarrow> Inl x | Inr r \<Rightarrow> run_steps (g # fs) False c r)"
    by (simp only: run_steps.simps(2) [of f] Let_def c_def [symmetric])
  with Cons.prems(1) obtain r where r: "f c = Inr r" and run: "run_steps (g # fs) False c r = Inr t"
    by (auto split: sum.splits)
  have "step_texts (f # g # fs) i n ctx result =
      step_header i n @ (case f c of Inl x \<Rightarrow> '''' | Inr t \<Rightarrow> t @ step_texts (g # fs) (Suc i) n c t)"
    by (simp only: step_texts.simps(2) [of f] Let_def c_def [symmetric])
  then have "step_texts (f # g # fs) i n ctx result = (step_header i n @ r) @ step_texts (g # fs) (Suc i) n c r"
    by (simp only: r sum.case append_assoc)
  moreover have "(Suc i = 1) = False" using Cons.prems(2) by simp
  then have "suffix (step_header (Suc i + length fs) n @ t) (step_texts (g # fs) (Suc i) n c r)"
    using Cons.IH [of g "Suc i" c r] run Cons.prems(2) by (simp del: step_texts.simps run_steps.simps)
  ultimately show ?case by (simp add: suffix_appendI del: step_texts.simps run_steps.simps)
qed

text \<open>
  watching a sequence is the same as waiting for it.  When each agent's stream is its answer in pieces, a streamed
  sequence raises the exception the run would raise, at the same place, and otherwise its pieces are the steps' answers
  behind their headers, the last of them the run's answer.\<close>

theorem streamed_sequence_agrees:
  assumes "list_all (\<lambda>p. streams_like (fst (snd p)) (snd (snd p))) as" and "as \<noteq> []"
  shows "(case run_sequence_direct instructions (map (fst \<circ> snd) as) ms of
      Inl x \<Rightarrow> snd (stream_sequence_direct instructions as ms) = Some x
    | Inr t \<Rightarrow> snd (stream_sequence_direct instructions as ms) = None
        \<and> concat (fst (stream_sequence_direct instructions as ms))
           = step_texts (map (fst \<circ> snd) as) 1 (length as) (prepend_instructions instructions ms) ''''
        \<and> suffix (step_header (length as) (length as) @ t) (concat (fst (stream_sequence_direct instructions as ms))))"
proof -
  have a: "\<forall>p\<in>set as. streams_like (fst (snd p)) (snd (snd p))" using assms(1) by (simp add: list_all_iff)
  from assms(2) obtain p ps where ps: "as = p # ps" by (cases as) auto
  let ?c = "prepend_instructions instructions ms"
  from stream_steps_run [OF a, of 1 "fst (last as)" "length as" ?c "''''"]
  have s: "snd (stream_sequence_direct instructions as ms) =
      (case run_sequence_direct instructions (map (fst \<circ> snd) as) ms of Inl x \<Rightarrow> Some x | Inr t \<Rightarrow> None)"
    and c: "\<And>t. run_sequence_direct instructions (map (fst \<circ> snd) as) ms = Inr t \<Longrightarrow>
      concat (fst (stream_sequence_direct instructions as ms)) = step_texts (map (fst \<circ> snd) as) 1 (length as) ?c ''''"
    by (simp_all add: stream_sequence_direct_def run_sequence_direct_def)
  show ?thesis
  proof (cases "run_sequence_direct instructions (map (fst \<circ> snd) as) ms")
    case (Inl x)
    with s show ?thesis by simp
  next
    case (Inr t)
    have "suffix (step_header (1 + length (map (fst \<circ> snd) ps)) (length as) @ t) (step_texts (map (fst \<circ> snd) as) 1 (length as) ?c '''')"
      unfolding ps list.map
      by (rule last_step_text) (use Inr in \<open>simp_all add: ps run_sequence_direct_def\<close>)
    with s c [OF Inr] Inr show ?thesis by (simp add: ps)
  qed
qed

definition echo_run :: runner where
  "echo_run ms = Inr (''seen '' @ show_nat (length ms))"

definition echo_stream :: streamer where
  "echo_stream ms = ([''seen '', show_nat (length ms)], None)"

lemma streamed_sequence_agrees_witness:
  "run_sequence_direct ''Be brief'' [echo_run, echo_run] [plain_msg [] HumanRole ''Hi''] = Inr ''seen 4''
   \<and> suffix (step_header 2 2 @ ''seen 4'')
       (concat (fst (stream_sequence_direct ''Be brief'' [(0, echo_run, echo_stream), (1, echo_run, echo_stream)] [plain_msg [] HumanRole ''Hi''])))"
proof -
  have l: "list_all (\<lambda>p. streams_like (fst (snd p)) (snd (snd p))) [(0 :: nat, echo_run, echo_stream), (1, echo_run, echo_stream)]"
    by (simp add: streams_like_def echo_run_def echo_stream_def)
  have r: "run_sequence_direct ''Be brief'' [echo_run, echo_run] [plain_msg [] HumanRole ''Hi''] = Inr ''seen 4''"
    by code_simp
  from streamed_sequence_agrees [OF l, of "''Be brief''" "[plain_msg [] HumanRole ''Hi'']"] show ?thesis
    by (simp (no_asm_use) add: r numeral_2_eq_2 del: step_texts.simps) blast
qed

subsection \<open>One routing rule\<close>

definition known_role :: "chat_msg \<Rightarrow> bool" where
  "known_role c \<longleftrightarrow> ch_role c \<in> {''system'', ''user'', ''assistant'', ''tool''}"

definition converted :: "chat_msg \<Rightarrow> msg \<Rightarrow> bool" where
  "converted c m \<longleftrightarrow> (is_human m = (ch_role c = ''user'')) \<and> m_text m = or_empty (ch_content c)"

lemma to_message_converted: "known_role c \<Longrightarrow> converted c (to_message sofar c)"
  by (auto simp: converted_def known_role_def to_message_def plain_msg_def role_of_def)

lemma fold_converted:
  "list_all known_role ms \<Longrightarrow> \<exists>zs. fold (\<lambda>c out. out @ [to_message out c]) ms start = start @ zs \<and> list_all2 converted ms zs"
proof (induction ms rule: rev_induct)
  case (snoc c ms)
  then obtain zs where "fold (\<lambda>c out. out @ [to_message out c]) ms start = start @ zs" "list_all2 converted ms zs" by auto
  with snoc.prems show ?case
    by (intro exI [of _ "zs @ [to_message (start @ zs) c]"]) (auto simp: list_all2_append to_message_converted list_all2_lengthD)
qed simp

lemma find_converted:
  "list_all2 converted cs zs \<Longrightarrow> map_option m_text (find is_human zs) = map_option (or_empty \<circ> ch_content) (find (\<lambda>c. ch_role c = ''user'') cs)"
  by (induction rule: list_all2_induct) (auto simp: converted_def)

lemma find_skips_tail: "list_all (\<lambda>m. \<not> P m) ys \<Longrightarrow> find P (xs @ ys) = find P xs"
  by (induction xs) (auto simp: find_None_iff list_all_iff)

lemma last_human_text:
  assumes "list_all known_role ms"
  shows "map_option m_text (last_human (to_langchain ms prompt)) = map_option (or_empty \<circ> ch_content) (find (\<lambda>c. ch_role c = ''user'') (rev ms))"
proof -
  define start where "start = (if prompt \<noteq> '''' \<and> \<not> list_ex (\<lambda>c. ch_role c = ''system'') ms then [plain_msg [] SystemRole prompt] else [])"
  obtain zs where z: "to_langchain ms prompt = start @ zs" "list_all2 converted ms zs"
    using fold_converted [OF assms, of start] by (auto simp: to_langchain_def start_def)
  have "list_all2 converted (rev ms) (rev zs)" using z(2) by simp
  note f = find_converted [OF this]
  have "find is_human (rev zs @ rev start) = find is_human (rev zs)"
    by (rule find_skips_tail) (simp add: start_def plain_msg_def)
  with f show ?thesis by (simp add: last_human_def z(1))
qed

lemma matched_branch: "keyword_match bs t = Some n \<Longrightarrow> n \<in> branch_name ` set bs"
  by (auto simp: keyword_match_def find_Some_iff)

lemma valid_names: "keyword_names_error seen ns = None \<Longrightarrow> '''' \<notin> set ns \<and> default_label \<notin> set ns \<and> distinct ns \<and> set ns \<inter> set seen = {}"
  by (induction seen ns rule: keyword_names_error.induct) (auto split: if_splits)

text \<open>a keyword router has one routing rule.  For a router its constructor accepts and a conversation of known roles,
  the agent picked from the chat messages is the agent whose node the compiled graph enters for the same conversation, the
  default agent standing at the reserved label that no branch can have.\<close>

theorem keyword_routing_agrees:
  assumes "new_keyword_router bs = None" and "list_all known_role ms"
  shows "select_agent bs d ms =
    (let n = keyword_choice bs (to_langchain ms prompt)
     in if n = default_label then d else the (map_of (map (\<lambda>b. (branch_name b, branch_agent b)) bs) n))"
proof -
  let ?t = "case find (\<lambda>m. ch_role m = ''user'') (rev ms) of None \<Rightarrow> '''' | Some m \<Rightarrow> or_empty (ch_content m)"
  have names: "'''' \<notin> set (map branch_name bs)" "default_label \<notin> set (map branch_name bs)" "distinct (map branch_name bs)"
    using assms(1) valid_names [of "[]" "map branch_name bs"] by (auto simp: new_keyword_router_def split: if_splits)
  have t: "(case last_human (to_langchain ms prompt) of None \<Rightarrow> '''' | Some m \<Rightarrow> m_text m) = ?t"
    using last_human_text [OF assms(2), of prompt] by (auto split: option.splits)
  show ?thesis
  proof (cases "keyword_match bs ?t")
    case None
    then show ?thesis by (simp add: select_agent_def keyword_choice_def t)
  next
    case (Some n)
    from matched_branch [OF this] obtain b where b: "b \<in> set bs" "branch_name b = n" by auto
    then have "n \<in> set (map branch_name bs)" by auto
    with names(1,2) have n: "n \<noteq> ''''" "n \<noteq> default_label" by metis+
    have "find (\<lambda>c. branch_name c = n) bs = Some b"
    proof -
      obtain c where c: "find (\<lambda>c. branch_name c = n) bs = Some c"
        using b find_None_iff [of "\<lambda>c. branch_name c = n" bs] by (cases "find (\<lambda>c. branch_name c = n) bs") auto
      then have "c \<in> set bs" "branch_name c = n" by (auto simp: find_Some_iff)
      with b names(3) have "c = b" by (auto simp: distinct_map inj_on_def)
      with c show ?thesis by simp
    qed
    moreover have "map_of (map (\<lambda>b. (branch_name b, branch_agent b)) bs) n = Some (branch_agent b)"
      using b names(3) by (intro map_of_is_SomeI) (auto simp: o_def)
    ultimately show ?thesis using Some n by (simp add: select_agent_def keyword_choice_def t)
  qed
qed

lemma keyword_routing_agrees_witness:
  "\<forall>a d. select_agent [Branch ''find'' a [''Missing'']] d [\<lparr>ch_role = ''user'', ch_content = Some ''what is MISSING?'', ch_call_id = None\<rparr>] = a"
proof (intro allI)
  fix a d
  let ?ms = "[\<lparr>ch_role = ''user'', ch_content = Some ''what is MISSING?'', ch_call_id = None\<rparr>]"
  have "new_keyword_router [Branch ''find'' a [''Missing'']] = None" by (simp add: new_keyword_router_def default_label_def)
  moreover have "list_all known_role ?ms" by (simp add: known_role_def)
  moreover have "keyword_choice [Branch ''find'' a [''Missing'']] (to_langchain ?ms '''') = ''find''"
  proof -
    have "str_contains (lower ''Missing'') (lower ''what is MISSING?'')" by code_simp
    then show ?thesis
      by (simp add: keyword_choice_def to_langchain_def to_message_def plain_msg_def role_of_def last_human_def keyword_match_def or_empty_def Let_def)
  qed
  ultimately show "select_agent [Branch ''find'' a [''Missing'']] d ?ms = a"
    using keyword_routing_agrees [of "[Branch ''find'' a [''Missing'']]" ?ms d "''''"] by (simp add: default_label_def)
qed

end
