(* ===== verification/Remote_Agents.thy ===== *)
theory Remote_Agents
  imports Agent_Registry
begin

text \<open>
  Agents reached over HTTP (\<open>_remote.py\<close>): addresses and the origins credentials may go to, the peer's card, the
  requests a call sends and the replies it reads.  Requests are values in the order they are sent; what the network
  answers is a parameter.  An exception is a \<open>step_exn\<close>.

  Addresses are split as \<open>urllib.parse.urlsplit\<close> does; a host in brackets (an IPv6 literal) counts as malformed.
\<close>

subsection \<open>Addresses\<close>

record url =
  u_scheme :: string
  u_netloc :: string
  u_path :: string

definition alpha_char :: "char \<Rightarrow> bool" where
  "alpha_char c \<longleftrightarrow> CHR ''a'' \<le> lower_char c \<and> lower_char c \<le> CHR ''z''"

definition digit_char :: "char \<Rightarrow> bool" where
  "digit_char c \<longleftrightarrow> CHR ''0'' \<le> c \<and> c \<le> CHR ''9''"

definition scheme_char :: "char \<Rightarrow> bool" where
  "scheme_char c \<longleftrightarrow> alpha_char c \<or> digit_char c \<or> c \<in> {CHR ''+'', CHR ''-'', CHR ''.''}"

definition split_scheme :: "string \<Rightarrow> string \<times> string" where
  "split_scheme s =
     (let pre = takeWhile (\<lambda>c. c \<noteq> CHR '':'') s in
      if pre \<noteq> [] \<and> length pre < length s \<and> alpha_char (hd pre) \<and> list_all scheme_char pre
      then (lower pre, drop (Suc (length pre)) s) else ('''', s))"

definition netloc_char :: "char \<Rightarrow> bool" where
  "netloc_char c \<longleftrightarrow> c \<noteq> CHR ''/'' \<and> c \<noteq> CHR ''?'' \<and> c \<noteq> CHR ''#''"

definition split_netloc :: "string \<Rightarrow> string \<times> string" where
  "split_netloc s =
     (if starts_with ''//'' s then (takeWhile netloc_char (drop 2 s), dropWhile netloc_char (drop 2 s)) else ('''', s))"

definition clean_url :: "string \<Rightarrow> string" where
  "clean_url s = filter (\<lambda>c. c \<notin> {CHR 0x09, CHR 0x0A, CHR 0x0D}) (dropWhile (\<lambda>c. of_char c \<le> (32 :: nat)) s)"

definition urlsplit :: "string \<Rightarrow> url option" where
  "urlsplit s =
     (let (scheme, rest) = split_scheme (clean_url s); (netloc, tail) = split_netloc rest in
      if CHR ''['' \<in> set netloc \<or> CHR '']'' \<in> set netloc then None
      else Some \<lparr>u_scheme = scheme, u_netloc = netloc, u_path = takeWhile (\<lambda>c. c \<noteq> CHR ''?'' \<and> c \<noteq> CHR ''#'') tail\<rparr>)"

text \<open>\<open>hostname\<close> and \<open>port\<close>: after the last \<open>@\<close>, up to the colon; a port that is no number below 65536 is an error.\<close>

definition hostinfo :: "string \<Rightarrow> string" where
  "hostinfo netloc = last (split_on (\<lambda>c. c = CHR ''@'') netloc)"

definition hostname :: "string \<Rightarrow> string option" where
  "hostname netloc =
     (let h = takeWhile (\<lambda>c. c \<noteq> CHR '':'') (hostinfo netloc) in
      if h = [] then None
      else Some (lower (takeWhile (\<lambda>c. c \<noteq> CHR ''%'') h) @ dropWhile (\<lambda>c. c \<noteq> CHR ''%'') h))"

definition read_digits :: "string \<Rightarrow> nat" where
  "read_digits s = fold (\<lambda>c n. 10 * n + (of_char c - 48)) s 0"

definition port_of :: "string \<Rightarrow> nat option option" where
  "port_of netloc =
     (let h = hostinfo netloc; p = drop (Suc (length (takeWhile (\<lambda>c. c \<noteq> CHR '':'') h))) h in
      if p = [] then Some None
      else if list_all digit_char p \<and> read_digits p \<le> 65535 then Some (Some (read_digits p)) else None)"

definition default_port :: "string \<Rightarrow> nat" where
  "default_port scheme = (if scheme = ''https'' then 443 else 80)"

definition effective_port :: "url \<Rightarrow> nat option" where
  "effective_port u =
     map_option (\<lambda>p. case p of Some n \<Rightarrow> if n \<noteq> 0 then n else default_port (u_scheme u) | None \<Rightarrow> default_port (u_scheme u))
       (port_of (u_netloc u))"

definition with_scheme :: "string \<Rightarrow> string" where
  "with_scheme s = (if str_contains ''://'' s then s else ''https://'' @ s)"

text \<open>The answer, or \<open>None\<close> when reading a port raises.\<close>

definition same_origin :: "string \<Rightarrow> string \<Rightarrow> bool option" where
  "same_origin candidate configured =
     (case (urlsplit (with_scheme candidate), urlsplit (with_scheme configured)) of
        (Some c, Some r) \<Rightarrow>
          if hostname (u_netloc c) = None \<or> hostname (u_netloc r) = None then Some False
          else if u_scheme c \<noteq> u_scheme r \<or> hostname (u_netloc c) \<noteq> hostname (u_netloc r) then Some False
          else (case (effective_port c, effective_port r) of (Some p, Some q) \<Rightarrow> Some (p = q) | _ \<Rightarrow> None)
      | _ \<Rightarrow> Some False)"

definition ends_with :: "string \<Rightarrow> string \<Rightarrow> bool" where
  "ends_with p s \<longleftrightarrow> starts_with (rev p) (rev s)"

definition apps_domain :: string where
  "apps_domain = ''databricksapps.com''"

definition is_apps_https_host :: "string option \<Rightarrow> bool" where
  "is_apps_https_host h =
     (case h of
        None \<Rightarrow> False
      | Some n \<Rightarrow> n \<noteq> '''' \<and> (lower n = apps_domain \<or> ends_with (''.'' @ apps_domain) (lower n)))"

text \<open>The name of an app in its host, without a workspace id of more than eight digits.\<close>

fun app_segments :: "nat \<Rightarrow> string list \<Rightarrow> string list option" where
  "app_segments 0 segs = None"
| "app_segments (Suc i) segs =
     (let s = segs ! Suc i in
      if s \<noteq> [] \<and> list_all digit_char s \<and> 8 < length s then Some (take (Suc i) segs) else app_segments i segs)"

definition url_to_app_name :: "string \<Rightarrow> string option" where
  "url_to_app_name s =
     (if s = '''' \<or> \<not> str_contains apps_domain s then None
      else case urlsplit s of
             None \<Rightarrow> None
           | Some u \<Rightarrow>
               (let first = hd (split_on (\<lambda>c. c = CHR ''.'') (case hostname (u_netloc u) of None \<Rightarrow> '''' | Some h \<Rightarrow> h));
                    segs = split_on (\<lambda>c. c = CHR ''-'') first
                in Some (case app_segments (length segs - 1) segs of Some name \<Rightarrow> join ''-'' name | None \<Rightarrow> first)))"

definition trusted_origin :: "string \<Rightarrow> string \<Rightarrow> string option \<Rightarrow> bool option" where
  "trusted_origin candidate configured expected =
     (case same_origin candidate configured of
        None \<Rightarrow> None
      | Some True \<Rightarrow> Some True
      | Some False \<Rightarrow>
          if \<not> nonempty_key expected then Some False
          else (case urlsplit (with_scheme candidate) of
                  None \<Rightarrow> Some False
                | Some c \<Rightarrow>
                    if u_scheme c \<noteq> ''https'' \<or> \<not> is_apps_https_host (hostname (u_netloc c)) then Some False
                    else Some (url_to_app_name candidate = expected)))"

definition card_path :: string where
  "card_path = ''/.well-known/agent.json''"

definition normalize_card_url :: "string \<Rightarrow> string" where
  "normalize_card_url url =
     (let u = trim_slashes url in if ends_with card_path u then u else u @ card_path)"

subsection \<open>The peer's card\<close>

record skill =
  sk_id :: string
  sk_name :: string
  sk_description :: string
  sk_input :: pyval
  sk_output :: pyval

record card =
  cd_name :: string
  cd_description :: string
  cd_url :: string
  cd_skills :: "skill list"
  cd_instructions :: string
  cd_tools :: "pyval dict list"

definition invalid_card :: step_exn where
  "invalid_card = ValueErr ''agent card''"

definition str_field :: "pyval dict \<Rightarrow> string \<Rightarrow> pyval \<Rightarrow> step_exn + string" where
  "str_field d k absent =
     (case (case dget d k of None \<Rightarrow> absent | Some v \<Rightarrow> v) of PStr s \<Rightarrow> Inr s | _ \<Rightarrow> Inl invalid_card)"

definition schema_field :: "pyval dict \<Rightarrow> string \<Rightarrow> step_exn + pyval" where
  "schema_field d k = (case pget d k of PNone \<Rightarrow> Inr PNone | PDict s \<Rightarrow> Inr (PDict s) | _ \<Rightarrow> Inl invalid_card)"

definition parse_skill :: "pyval \<Rightarrow> step_exn + skill" where
  "parse_skill v =
     (case v of
        PDict d \<Rightarrow>
          (let name = (case dget d ''name'' of None \<Rightarrow> PStr '''' | Some n \<Rightarrow> n) in
           bind_result (str_field d ''id'' name) (\<lambda>i.
           bind_result (str_field d ''name'' (PStr '''')) (\<lambda>n.
           bind_result (str_field d ''description'' (PStr '''')) (\<lambda>t.
           bind_result (schema_field d ''inputSchema'') (\<lambda>si.
           bind_result (schema_field d ''outputSchema'') (\<lambda>so.
             Inr \<lparr>sk_id = i, sk_name = n, sk_description = t, sk_input = si, sk_output = so\<rparr>))))))
      | _ \<Rightarrow> Inl (OtherExn ''AttributeError''))"

definition listed :: "pyval \<Rightarrow> step_exn + pyval list" where
  "listed v =
     (case v of
        PList vs \<Rightarrow> Inr vs
      | PDict [] \<Rightarrow> Inr []
      | PStr [] \<Rightarrow> Inr []
      | PDict d \<Rightarrow> Inl (OtherExn ''AttributeError'')
      | PStr s \<Rightarrow> Inl (OtherExn ''AttributeError'')
      | _ \<Rightarrow> Inl (OtherExn ''TypeError''))"

text \<open>What the fetch keeps of a card: neither its instructions nor its own tools.\<close>

definition parse_card :: "string \<Rightarrow> pyval dict \<Rightarrow> step_exn + card" where
  "parse_card base d =
     bind_result (str_field d ''name'' (PStr ''remote-agent'')) (\<lambda>n.
     bind_result (str_field d ''description'' (PStr '''')) (\<lambda>t.
     bind_result (str_field d ''url'' (PStr base)) (\<lambda>u.
     bind_result (listed (case dget d ''skills'' of None \<Rightarrow> PList [] | Some v \<Rightarrow> v)) (\<lambda>vs.
     bind_result (all_results (map parse_skill vs)) (\<lambda>sks.
       Inr \<lparr>cd_name = n, cd_description = t, cd_url = u, cd_skills = sks, cd_instructions = '''', cd_tools = []\<rparr>)))))"

subsection \<open>A remote agent\<close>

record remote =
  ra_card_url :: string
  ra_base :: string
  ra_app :: "string option"
  ra_extra :: "string dict"
  ra_long :: bool
  ra_rounds :: int
  ra_card :: "card option"
  ra_durable :: "string option"

definition new_remote :: "string \<Rightarrow> string option \<Rightarrow> string dict \<Rightarrow> bool \<Rightarrow> int \<Rightarrow> remote" where
  "new_remote card_url app extra long rounds =
     (let u = normalize_card_url card_url; base = take (length u - length card_path) u in
      \<lparr>ra_card_url = u, ra_base = base, ra_app = (if nonempty_key app then app else url_to_app_name base), ra_extra = extra,
       ra_long = long, ra_rounds = rounds, ra_card = None, ra_durable = None\<rparr>)"

definition remote_of_app :: "string option \<Rightarrow> string \<Rightarrow> string dict \<Rightarrow> bool \<Rightarrow> int \<Rightarrow> step_exn + remote" where
  "remote_of_app host app extra long rounds =
     (if \<not> nonempty_key host then Inl (ValueErr ''from_app_name requires DATABRICKS_HOST'')
      else Inr (new_remote (trim_slashes (the host) @ ''/apps/'' @ app @ card_path) (Some app) extra long rounds))"

definition ra_name :: "remote \<Rightarrow> string" where
  "ra_name ra = (case ra_card ra of None \<Rightarrow> ''remote-agent'' | Some c \<Rightarrow> cd_name c)"

definition ra_description :: "remote \<Rightarrow> string" where
  "ra_description ra =
     (case ra_card ra of
        None \<Rightarrow> '''' | Some c \<Rightarrow> if cd_instructions c \<noteq> '''' then cd_instructions c else cd_description c)"

text \<open>A card's address moves the base only within the trusted origins; the durable endpoint keeps only its path.\<close>

definition move_base :: "card \<Rightarrow> remote \<Rightarrow> step_exn + remote" where
  "move_base c ra =
     (if cd_url c = '''' then Inr ra
      else case trusted_origin (trim_slashes (cd_url c)) (ra_card_url ra) (ra_app ra) of
             None \<Rightarrow> Inl (ValueErr ''Port out of range'')
           | Some ok \<Rightarrow> Inr (if ok then ra\<lparr>ra_base := trim_slashes (cd_url c)\<rparr> else ra))"

definition set_durable :: "pyval dict \<Rightarrow> remote \<Rightarrow> step_exn + remote" where
  "set_durable d ra =
     (case pget d ''invocationsEndpoint'' of
        PStr e \<Rightarrow>
          if e = '''' then Inr ra
          else (case urlsplit e of
                  None \<Rightarrow> Inl (ValueErr ''Invalid IPv6 URL'')
                | Some u \<Rightarrow> Inr (if starts_with ''/'' (u_path u) then ra\<lparr>ra_durable := Some (ra_base ra @ u_path u)\<rparr> else ra))
      | _ \<Rightarrow> Inr ra)"

definition infer_app :: "remote \<Rightarrow> remote" where
  "infer_app ra = (if nonempty_key (ra_app ra) then ra else ra\<lparr>ra_app := url_to_app_name (ra_base ra)\<rparr>)"

datatype card_reply = CardFails | CardJson pyval

text \<open>The state after the fetch, and the exception it ended with.  A later failure keeps what was set before it.\<close>

definition receive_card :: "card_reply \<Rightarrow> remote \<Rightarrow> step_exn option \<times> remote" where
  "receive_card r ra =
     (case r of
        CardFails \<Rightarrow> (Some (OtherExn ''card fetch''), ra)
      | CardJson (PDict d) \<Rightarrow>
          (case parse_card (ra_base ra) d of
             Inl x \<Rightarrow> (Some x, ra)
           | Inr c \<Rightarrow>
               (let ra1 = ra\<lparr>ra_card := Some c\<rparr> in
                case move_base c ra1 of
                  Inl x \<Rightarrow> (Some x, ra1)
                | Inr ra2 \<Rightarrow>
                    (case set_durable d ra2 of Inl x \<Rightarrow> (Some x, ra2) | Inr ra3 \<Rightarrow> (None, infer_app ra3))))
      | CardJson v \<Rightarrow> (Some (OtherExn ''AttributeError''), ra))"

text \<open>Credentials go only to a trusted base.\<close>

definition credential_keys :: "string list" where
  "credential_keys = [''Authorization'', ''X-Forwarded-Access-Token'']"

definition add_header :: "(string \<Rightarrow> string) \<Rightarrow> bool \<Rightarrow> string \<Rightarrow> string dict \<Rightarrow> string dict" where
  "add_header inc trusted k hs =
     (if \<not> trusted \<and> k \<in> set credential_keys then hs else if inc k = '''' then hs else dset k (inc k) hs)"

definition obo_headers :: "remote \<Rightarrow> (string \<Rightarrow> string) \<Rightarrow> step_exn + string dict" where
  "obo_headers ra inc =
     (case trusted_origin (ra_base ra) (ra_card_url ra) (ra_app ra) of
        None \<Rightarrow> Inl (ValueErr ''Port out of range'')
      | Some trusted \<Rightarrow>
          Inr (fold (add_header inc trusted) [''Authorization'', ''X-Forwarded-Access-Token'', ''X-Forwarded-Host''] (ra_extra ra)))"

definition drops_user_token :: "string dict \<Rightarrow> bool" where
  "drops_user_token hs \<longleftrightarrow> nonempty_key (dget hs ''X-Forwarded-Access-Token'')"

subsection \<open>Requests and replies\<close>

text \<open>A message on the wire: role and text, or an item of the Responses protocol.\<close>

datatype wire_msg = TextMsg string string | ItemMsg "pyval dict"

definition responses_input :: "wire_msg list \<Rightarrow> pyval list" where
  "responses_input ms =
     map (\<lambda>m. case m of
            TextMsg r t \<Rightarrow> PDict [(''role'', PStr r), (''content'', PStr t)]
          | ItemMsg d \<Rightarrow> PDict (filter (\<lambda>(k, v). k \<noteq> ''apx_data_parts'') d)) ms"

text \<open>\<open>data_parts\<close>: a list of DataParts, each an object with the kind \<open>data\<close> and an object of data.\<close>

definition parse_part :: "pyval \<Rightarrow> data_part option" where
  "parse_part v =
     (case v of
        PDict d \<Rightarrow>
          (case (dget d ''kind'', pget d ''data'', pget d ''metadata'') of
             (k, PDict x, meta) \<Rightarrow>
               if k \<noteq> None \<and> k \<noteq> Some (PStr ''data'') then None
               else (case meta of
                       PNone \<Rightarrow> Some \<lparr>dp_data = x, dp_schema = None\<rparr>
                     | PDict md \<Rightarrow> Some \<lparr>dp_data = x, dp_schema = str_of (pget md ''schema_id'')\<rparr>
                     | _ \<Rightarrow> None)
           | _ \<Rightarrow> None)
      | _ \<Rightarrow> None)"

definition data_parts :: "pyval \<Rightarrow> step_exn + data_part list" where
  "data_parts custom =
     (case custom of
        PDict c \<Rightarrow>
          (case dget c ''apx_data_parts'' of
             None \<Rightarrow> Inr []
           | Some (PList vs) \<Rightarrow> (case those (map parse_part vs) of Some ps \<Rightarrow> Inr ps | None \<Rightarrow> Inl (ValueErr ''Invalid apx_data_parts''))
           | Some v \<Rightarrow> Inl (ValueErr ''Invalid apx_data_parts''))
      | _ \<Rightarrow> Inr [])"

definition data_inputs :: "wire_msg list \<Rightarrow> step_exn + pyval dict" where
  "data_inputs ms =
     (case find (\<lambda>m. case m of TextMsg r t \<Rightarrow> False | ItemMsg d \<Rightarrow> dget d ''apx_data_parts'' \<noteq> None) (rev ms) of
        Some (ItemMsg d) \<Rightarrow>
          bind_result (data_parts (PDict d))
            (\<lambda>ps. Inr (if ps = [] then [] else [(''apx_data_parts'', PList (map part_value ps))]))
      | _ \<Rightarrow> Inr [])"

definition token_inputs :: "string dict \<Rightarrow> pyval dict" where
  "token_inputs hs =
     (case dget hs ''X-Forwarded-Access-Token'' of
        None \<Rightarrow> [] | Some t \<Rightarrow> if t = '''' then [] else [(''user_token'', PStr t)])"

definition is_sentinel :: "string \<Rightarrow> bool" where
  "is_sentinel name \<longleftrightarrow> name = finish_tool_name \<or> starts_with transfer_prefix name"

text \<open>The last control call of a reply: its name, its arguments and its id.\<close>

definition control_item :: "pyval \<Rightarrow> pyval dict option" where
  "control_item v =
     (case v of
        PDict d \<Rightarrow>
          (case (pget d ''type'', pget d ''name'') of
             (PStr t, PStr n) \<Rightarrow> if t = ''function_call'' \<and> is_sentinel n then Some d else None
           | _ \<Rightarrow> None)
      | _ \<Rightarrow> None)"

record control =
  ct_name :: string
  ct_args :: "pyval dict"
  ct_id :: "string option"

definition remote_control :: "(string \<Rightarrow> pyval option) \<Rightarrow> pyval \<Rightarrow> step_exn + control option" where
  "remote_control loads data =
     (case data of
        PDict reply_body \<Rightarrow>
          (case pget reply_body ''output'' of
             PList items \<Rightarrow>
               (case List.map_filter control_item (rev items) of
                  [] \<Rightarrow> Inr None
                | d # ds \<Rightarrow>
                    (let args = (case pget d ''arguments'' of
                           PStr raw \<Rightarrow> if raw = '''' then [] else (case loads raw of Some (PDict a) \<Rightarrow> a | _ \<Rightarrow> [])
                         | _ \<Rightarrow> [])
                     in case pget d ''call_id'' of
                          PNone \<Rightarrow> Inr (Some \<lparr>ct_name = the (str_of (pget d ''name'')), ct_args = args, ct_id = None\<rparr>)
                        | PStr i \<Rightarrow> Inr (Some \<lparr>ct_name = the (str_of (pget d ''name'')), ct_args = args, ct_id = Some i\<rparr>)
                        | _ \<Rightarrow> Inl (ValueErr ''ControlSignal'')))
           | _ \<Rightarrow> Inr None)
      | _ \<Rightarrow> Inr None)"

text \<open>The text of a reply: the last message item, a chat agent's last assistant text, or the structured data.\<close>

fun item_text :: "pyval list \<Rightarrow> step_exn + pyval option" where
  "item_text [] = Inr None"
| "item_text (PDict d # rest) =
     (if pget d ''type'' = PStr ''message'' \<or> dget d ''content'' \<noteq> None then
        (case pget d ''content'' of PList (PDict b # bs) \<Rightarrow> Inr (dget b ''text'') | _ \<Rightarrow> Inr None)
      else item_text rest)"
| "item_text (v # rest) = Inl (OtherExn ''AttributeError'')"

definition output_items :: "pyval \<Rightarrow> pyval list" where
  "output_items data =
     (case data of
        PDict d \<Rightarrow> (case pget d ''output'' of PList vs \<Rightarrow> vs | PDict x \<Rightarrow> map (\<lambda>(k, v). PStr k) x | PStr s \<Rightarrow> map (\<lambda>c. PStr [c]) s | _ \<Rightarrow> [])
      | _ \<Rightarrow> [])"

definition assistant_text :: "pyval \<Rightarrow> string option" where
  "assistant_text v =
     (case v of
        PDict m \<Rightarrow>
          (case pget m ''content'' of
             PStr t \<Rightarrow> if pget m ''role'' = PStr ''assistant'' \<and> t \<noteq> '''' then Some t else None
           | _ \<Rightarrow> None)
      | _ \<Rightarrow> None)"

definition chat_text :: "pyval \<Rightarrow> string option" where
  "chat_text data =
     (case data of
        PDict d \<Rightarrow>
          (case pget d ''messages'' of
             PList ms \<Rightarrow> (case List.map_filter assistant_text (rev ms) of [] \<Rightarrow> None | t # ts \<Rightarrow> Some t)
           | _ \<Rightarrow> None)
      | _ \<Rightarrow> None)"

definition structured_text :: "(pyval \<Rightarrow> string) \<Rightarrow> data_part list \<Rightarrow> string" where
  "structured_text dumps ps =
     dumps (case ps of [p] \<Rightarrow> PDict (dp_data p) | _ \<Rightarrow> PList (map (\<lambda>p. PDict (dp_data p)) ps))"

definition custom_outputs :: "pyval \<Rightarrow> pyval" where
  "custom_outputs data = (case data of PDict d \<Rightarrow> pget d ''custom_outputs'' | _ \<Rightarrow> PNone)"

definition reply_text :: "(pyval \<Rightarrow> string) \<Rightarrow> pyval \<Rightarrow> step_exn + pyval" where
  "reply_text dumps data =
     bind_result (item_text (rev (output_items data)))
       (\<lambda>found. case found of
          Some v \<Rightarrow> Inr v
        | None \<Rightarrow>
            (case chat_text data of
               Some t \<Rightarrow> Inr (PStr t)
             | None \<Rightarrow>
                 bind_result (data_parts (custom_outputs data))
                   (\<lambda>ps. if ps \<noteq> [] then Inr (PStr (structured_text dumps ps))
                         else Inl (OtherExn ''unrecognized shape''))))"

text \<open>A durable server's reply, brought to the chat agent's shape.\<close>

definition durable_content :: "pyval \<Rightarrow> step_exn + string option" where
  "durable_content content =
     (case content of
        PStr t \<Rightarrow> Inr (if t = '''' then None else Some t)
      | PList bs \<Rightarrow>
          (let texts = List.map_filter (\<lambda>b. case b of PDict d \<Rightarrow> dget d ''text'' | _ \<Rightarrow> None) bs in
           case those (map str_of texts) of
             None \<Rightarrow> Inl (OtherExn ''TypeError'')
           | Some ts \<Rightarrow> Inr (if concat ts = '''' then None else Some (concat ts)))
      | _ \<Rightarrow> Inr None)"

definition durable_message :: "pyval \<Rightarrow> step_exn + pyval list" where
  "durable_message v =
     (case v of
        PDict m \<Rightarrow>
          if pget m ''type'' \<noteq> PStr ''ai'' then Inr []
          else bind_result (durable_content (pget m ''content''))
                 (\<lambda>c. Inr (case c of None \<Rightarrow> [] | Some t \<Rightarrow> [PDict [(''role'', PStr ''assistant''), (''content'', PStr t)]]))
      | _ \<Rightarrow> Inr [])"

definition durable_reply :: "pyval \<Rightarrow> step_exn + pyval" where
  "durable_reply data =
     (case data of
        PDict d \<Rightarrow>
          (case pget d ''output'' of
             PDict out \<Rightarrow>
               (case pget out ''messages'' of
                  PList ms \<Rightarrow> bind_result (all_results (map durable_message ms)) (\<lambda>rs. Inr (PDict [(''messages'', PList (concat rs))]))
                | _ \<Rightarrow> Inr data)
           | _ \<Rightarrow> Inr data)
      | _ \<Rightarrow> Inr (PDict [(''output'', data)]))"

subsection \<open>Sending\<close>

datatype outbound =
    CardGet string "string dict"
  | SdkCall string "pyval list" "pyval dict" "string dict"
  | Post string pyval "string dict"

text \<open>What the other side does: a card, an SDK response (its text and its dump), the status and body of a request.\<close>

record network =
  nw_card :: card_reply
  nw_sdk :: "outbound \<Rightarrow> step_exn + string \<times> pyval dict"
  nw_http :: "outbound \<Rightarrow> step_exn + nat \<times> (step_exn + pyval)"
  nw_loads :: "string \<Rightarrow> pyval option"
  nw_dumps :: "pyval \<Rightarrow> string"
  nw_ids :: "string \<times> string"

definition init_quietly :: "network \<Rightarrow> string dict \<Rightarrow> remote \<Rightarrow> outbound list \<times> remote" where
  "init_quietly nw hs ra =
     (if ra_card ra \<noteq> None then ([], ra)
      else ([CardGet (ra_card_url ra) (dict_update (ra_extra ra) hs)], snd (receive_card (nw_card nw) ra)))"

definition read_body :: "nat \<times> (step_exn + pyval) \<Rightarrow> step_exn + pyval" where
  "read_body r = (if 400 \<le> fst r then Inl (OtherExn ''RuntimeError'') else snd r)"

definition user_turns :: "wire_msg list \<Rightarrow> pyval list" where
  "user_turns ms =
     List.map_filter (\<lambda>v. case v of
         PDict d \<Rightarrow>
           (case (pget d ''role'', pget d ''content'') of
              (PStr r, PStr t) \<Rightarrow> if r = ''user'' then Some (PDict [(''role'', PStr ''user''), (''content'', PStr t)]) else None
            | _ \<Rightarrow> None)
       | _ \<Rightarrow> None) (responses_input ms)"

definition json_headers :: "string dict \<Rightarrow> string dict" where
  "json_headers hs = dict_update [(''Content-Type'', ''application/json'')] hs"

definition durable_request :: "network \<Rightarrow> string \<Rightarrow> wire_msg list \<Rightarrow> string dict \<Rightarrow> outbound" where
  "durable_request nw url ms hs =
     Post url (PDict [(''id'', PStr (fst (nw_ids nw))), (''session_id'', PStr (snd (nw_ids nw))), (''input'', PList (user_turns ms))])
       (json_headers hs)"

definition direct_request :: "remote \<Rightarrow> wire_msg list \<Rightarrow> pyval dict \<Rightarrow> string dict \<Rightarrow> outbound" where
  "direct_request ra ms inputs hs =
     (let custom = dict_update inputs (token_inputs hs) in
      Post (ra_base ra @ ''/invocations'')
        (PDict ([(''input'', PList (responses_input ms))] @ (if custom = [] then [] else [(''custom_inputs'', PDict custom)])))
        (json_headers hs))"

text \<open>The requests sent and the reply.\<close>

definition post_via_http :: "network \<Rightarrow> remote \<Rightarrow> wire_msg list \<Rightarrow> string dict \<Rightarrow> outbound list \<times> (step_exn + pyval)" where
  "post_via_http nw ra ms hs =
     (case ra_durable ra of
        Some url \<Rightarrow>
          (let q = durable_request nw url ms hs
           in ([q], bind_result (bind_result (nw_http nw q) read_body) durable_reply))
      | None \<Rightarrow>
          (case data_inputs ms of
             Inl x \<Rightarrow> ([], Inl x)
           | Inr inputs \<Rightarrow>
               (let q = direct_request ra ms inputs hs in ([q], bind_result (nw_http nw q) read_body))))"

definition sdk_model :: "remote \<Rightarrow> string" where
  "sdk_model ra = ''apps/'' @ or_empty (ra_app ra)"

definition post_via_sdk :: "network \<Rightarrow> remote \<Rightarrow> wire_msg list \<Rightarrow> string dict \<Rightarrow> outbound list \<times> (step_exn + string \<times> pyval dict)" where
  "post_via_sdk nw ra ms hs =
     (case data_inputs ms of
        Inl x \<Rightarrow> ([], Inl x)
      | Inr custom \<Rightarrow> (let q = SdkCall (sdk_model ra) (responses_input ms) custom hs in ([q], nw_sdk nw q)))"

subsection \<open>Long tasks\<close>

text \<open>An event of a stream: its kind, its delta and the item it carries.\<close>

record sdk_event =
  ev_type :: string
  ev_delta :: string
  ev_item :: "pyval dict option"

definition continue_request :: "sdk_event \<Rightarrow> pyval dict option" where
  "continue_request ev =
     (if ev_type ev \<noteq> ''response.output_item.done'' then None
      else case ev_item ev of
             None \<Rightarrow> None
           | Some it \<Rightarrow>
               if pget it ''type'' \<noteq> PStr ''task_continue_request'' \<or> \<not> truthy (pget it ''id'') then None
               else Some [(''type'', PStr ''task_continue_request''), (''id'', pget it ''id''), (''step'', pget it ''step'')])"

text \<open>The chunks of one round and the continuation it asks for last.\<close>

fun read_round :: "bool \<Rightarrow> sdk_event list \<Rightarrow> pyval dict option \<Rightarrow> string list \<times> pyval dict option" where
  "read_round long [] pending = ([], pending)"
| "read_round long (ev # evs) pending =
     (if ev_type ev = ''response.output_text.delta'' \<and> ev_delta ev \<noteq> '''' then
        (let (chunks, p) = read_round long evs pending in (ev_delta ev # chunks, p))
      else read_round long evs (if long then (case continue_request ev of None \<Rightarrow> pending | Some c \<Rightarrow> Some c) else pending))"

definition continuation :: "pyval dict \<Rightarrow> pyval list" where
  "continuation pending =
     [PDict pending, PDict [(''type'', PStr ''task_continue_response''), (''continue_request_id'', pget pending ''id'')]]"

text \<open>
  The rounds of one streamed call: the requests, the chunks and the exception, if any.  A round's stream is its events
  and the exception that broke it.
\<close>

fun stream_rounds :: "(outbound \<Rightarrow> sdk_event list \<times> step_exn option) \<Rightarrow> remote \<Rightarrow> pyval dict \<Rightarrow> string dict \<Rightarrow> nat
    \<Rightarrow> pyval list \<Rightarrow> outbound list \<times> string list \<times> step_exn option" where
  "stream_rounds call ra custom hs 0 payload = ([], [], Some (OtherExn ''exceeded max_continuations''))"
| "stream_rounds call ra custom hs (Suc n) payload =
     (let q = SdkCall (sdk_model ra) payload custom hs; (evs, x) = call q;
          (chunks, pending) = read_round (ra_long ra) evs None
      in case x of
           Some y \<Rightarrow> ([q], chunks, Some y)
         | None \<Rightarrow>
             (case pending of
                None \<Rightarrow> ([q], chunks, None)
              | Some p \<Rightarrow>
                  (let (qs, more, y) = stream_rounds call ra custom hs n (payload @ continuation p) in (q # qs, chunks @ more, y))))"

definition stream_via_sdk :: "(outbound \<Rightarrow> sdk_event list \<times> step_exn option) \<Rightarrow> remote \<Rightarrow> wire_msg list \<Rightarrow> string dict
    \<Rightarrow> outbound list \<times> string list \<times> step_exn option" where
  "stream_via_sdk call ra ms hs =
     (case data_inputs ms of
        Inl x \<Rightarrow> ([], [], Some x)
      | Inr custom \<Rightarrow> stream_rounds call ra custom hs (nat (ra_rounds ra + 1)) (responses_input ms))"

subsection \<open>Calls\<close>

definition uses_sdk :: "remote \<Rightarrow> string dict \<Rightarrow> bool" where
  "uses_sdk ra hs \<longleftrightarrow> nonempty_key (ra_app ra) \<and> ra_durable ra = None \<and> \<not> drops_user_token hs"

record wire_reply =
  wr_text :: pyval
  wr_control :: "control option"
  wr_parts :: "data_part list"

definition read_reply :: "network \<Rightarrow> pyval \<Rightarrow> step_exn + wire_reply" where
  "read_reply nw data =
     (case data of
        PDict d \<Rightarrow>
          bind_result (data_parts (custom_outputs data)) (\<lambda>ps.
          bind_result (reply_text (nw_dumps nw) data) (\<lambda>t.
          bind_result (remote_control (nw_loads nw) data) (\<lambda>c.
            Inr \<lparr>wr_text = t, wr_control = c, wr_parts = ps\<rparr>)))
      | _ \<Rightarrow> Inl (OtherExn ''AttributeError''))"

text \<open>The dispatch of a call: the streamed task, the SDK with a fallback, or the direct request.\<close>

definition joined :: "outbound list \<times> string list \<times> step_exn option \<Rightarrow> outbound list \<times> (step_exn + string)" where
  "joined r = (case r of (qs, chunks, x) \<Rightarrow> (qs, case x of Some y \<Rightarrow> Inl y | None \<Rightarrow> Inr (concat chunks)))"

definition run_with_control :: "network \<Rightarrow> (outbound \<Rightarrow> sdk_event list \<times> step_exn option) \<Rightarrow> string dict \<Rightarrow> remote
    \<Rightarrow> wire_msg list \<Rightarrow> (string \<Rightarrow> string) \<Rightarrow> outbound list \<times> (step_exn + wire_reply) \<times> remote" where
  "run_with_control nw call corr ra0 ms inc =
     (case obo_headers ra0 inc of
        Inl x \<Rightarrow> ([], Inl x, ra0)
      | Inr hs0 \<Rightarrow>
          (let (qs0, ra) = init_quietly nw hs0 ra0 in
           case obo_headers ra inc of
             Inl x \<Rightarrow> (qs0, Inl x, ra)
           | Inr hs \<Rightarrow>
               if nonempty_key (ra_app ra) \<and> ra_long ra then
                 (let (qs, r) = joined (stream_via_sdk call ra ms corr) in
                  (qs0 @ qs, bind_result r (\<lambda>t. Inr \<lparr>wr_text = PStr t, wr_control = None, wr_parts = []\<rparr>), ra))
               else if uses_sdk ra hs then
                 (let (qs, r) = post_via_sdk nw ra ms corr in
                  case r of
                    Inr (t, dump) \<Rightarrow> (qs0 @ qs, read_reply nw (PDict dump), ra)
                  | Inl x \<Rightarrow>
                      (let (ps, b) = post_via_http nw ra ms (dict_update hs corr) in (qs0 @ qs @ ps, bind_result b (read_reply nw), ra)))
               else
                 (let (ps, b) = post_via_http nw ra ms (dict_update hs corr) in (qs0 @ ps, bind_result b (read_reply nw), ra))))"

definition sdk_answer :: "network \<Rightarrow> string \<times> pyval dict \<Rightarrow> step_exn + pyval" where
  "sdk_answer nw r =
     (if fst r \<noteq> '''' then Inr (PStr (fst r))
      else bind_result (data_parts (pget (snd r) ''custom_outputs''))
             (\<lambda>ps. if ps \<noteq> [] then reply_text (nw_dumps nw) (PDict (snd r)) else Inr (PStr '''')))"

definition run_remote :: "network \<Rightarrow> (outbound \<Rightarrow> sdk_event list \<times> step_exn option) \<Rightarrow> string dict \<Rightarrow> remote
    \<Rightarrow> wire_msg list \<Rightarrow> (string \<Rightarrow> string) \<Rightarrow> outbound list \<times> (step_exn + pyval) \<times> remote" where
  "run_remote nw call corr ra0 ms inc =
     (case obo_headers ra0 inc of
        Inl x \<Rightarrow> ([], Inl x, ra0)
      | Inr hs0 \<Rightarrow>
          (let (qs0, ra) = init_quietly nw hs0 ra0 in
           case obo_headers ra inc of
             Inl x \<Rightarrow> (qs0, Inl x, ra)
           | Inr hs \<Rightarrow>
               if nonempty_key (ra_app ra) \<and> ra_long ra then
                 (let (qs, r) = joined (stream_via_sdk call ra ms corr) in (qs0 @ qs, bind_result r (\<lambda>t. Inr (PStr t)), ra))
               else if uses_sdk ra hs then
                 (let (qs, r) = post_via_sdk nw ra ms corr in
                  case r of
                    Inr answer \<Rightarrow> (qs0 @ qs, sdk_answer nw answer, ra)
                  | Inl x \<Rightarrow>
                      (let (ps, b) = post_via_http nw ra ms (dict_update hs corr)
                       in (qs0 @ qs @ ps, bind_result b (reply_text (nw_dumps nw)), ra)))
               else
                 (let (ps, b) = post_via_http nw ra ms (dict_update hs corr)
                  in (qs0 @ ps, bind_result b (reply_text (nw_dumps nw)), ra))))"

text \<open>The lines of a server-sent stream.\<close>

fun sse_chunks :: "(string \<Rightarrow> pyval option) \<Rightarrow> string list \<Rightarrow> string list \<times> step_exn option" where
  "sse_chunks loads [] = ([], None)"
| "sse_chunks loads (l # ls) =
     (if \<not> starts_with ''data: '' l then sse_chunks loads ls
      else (let body = strip (drop 6 l) in
            if body = ''[DONE]'' then ([], None)
            else case loads body of
                   None \<Rightarrow> (let (cs, x) = sse_chunks loads ls in ((if body = '''' then [] else [body]) @ cs, x))
                 | Some (PDict d) \<Rightarrow>
                     (let chunk = (case pget d ''delta'' of
                            PStr t \<Rightarrow> if t \<noteq> '''' then [t] else (case pget d ''text'' of PStr u \<Rightarrow> [u] | _ \<Rightarrow> [])
                          | PDict m \<Rightarrow>
                              (case pget m ''content'' of
                                 PStr t \<Rightarrow> if t \<noteq> '''' then [t] else (case pget d ''text'' of PStr u \<Rightarrow> [u] | _ \<Rightarrow> [])
                               | _ \<Rightarrow> (case pget d ''text'' of PStr u \<Rightarrow> [u] | _ \<Rightarrow> []))
                          | _ \<Rightarrow> (case pget d ''text'' of PStr u \<Rightarrow> [u] | _ \<Rightarrow> []));
                          (cs, x) = sse_chunks loads ls
                      in (chunk @ cs, x))
                 | Some v \<Rightarrow> ([], Some (OtherExn ''AttributeError''))))"

text \<open>A streamed direct request: its status, then lines until the stream breaks or ends.\<close>

definition stream_via_http :: "network \<Rightarrow> (outbound \<Rightarrow> step_exn + nat \<times> string list \<times> step_exn option) \<Rightarrow> remote \<Rightarrow> wire_msg list
    \<Rightarrow> string dict \<Rightarrow> outbound list \<times> pyval list \<times> step_exn option" where
  "stream_via_http nw open_stream ra ms hs =
     (case ra_durable ra of
        Some url \<Rightarrow>
          (let (qs, r) = post_via_http nw ra ms hs in
           case bind_result r (reply_text (nw_dumps nw)) of Inl x \<Rightarrow> (qs, [], Some x) | Inr t \<Rightarrow> (qs, [t], None))
      | None \<Rightarrow>
          (case data_inputs ms of
             Inl x \<Rightarrow> ([], [], Some x)
           | Inr inputs \<Rightarrow>
               (let custom = dict_update inputs (token_inputs hs);
                    q = Post (ra_base ra @ ''/invocations'')
                          (PDict ([(''input'', PList (responses_input ms)), (''stream'', PBool True)]
                                  @ (if custom = [] then [] else [(''custom_inputs'', PDict custom)])))
                          (dict_update [(''Content-Type'', ''application/json''), (''Accept'', ''text/event-stream'')] hs)
                in case open_stream q of
                     Inl x \<Rightarrow> ([q], [], Some x)
                   | Inr (status, ls, broken) \<Rightarrow>
                       if 400 \<le> status then ([q], [], Some (OtherExn ''RuntimeError''))
                       else (let (cs, x) = sse_chunks (nw_loads nw) ls
                             in ([q], map PStr cs, case x of Some y \<Rightarrow> Some y | None \<Rightarrow> broken)))))"

definition stream_remote :: "network \<Rightarrow> (outbound \<Rightarrow> sdk_event list \<times> step_exn option)
    \<Rightarrow> (outbound \<Rightarrow> step_exn + nat \<times> string list \<times> step_exn option) \<Rightarrow> string dict \<Rightarrow> remote
    \<Rightarrow> wire_msg list \<Rightarrow> (string \<Rightarrow> string) \<Rightarrow> outbound list \<times> pyval list \<times> step_exn option" where
  "stream_remote nw call open_stream corr ra0 ms inc =
     (case obo_headers ra0 inc of
        Inl x \<Rightarrow> ([], [], Some x)
      | Inr hs0 \<Rightarrow>
          (let (qs0, ra) = init_quietly nw hs0 ra0 in
           case obo_headers ra inc of
             Inl x \<Rightarrow> (qs0, [], Some x)
           | Inr hs \<Rightarrow>
               (let (direct, chunks, x) = stream_via_http nw open_stream ra ms (dict_update hs corr);
                    (qs, cs, y) = stream_via_sdk call ra ms corr
                in if nonempty_key (ra_app ra) \<and> ra_long ra then (qs0 @ qs, map PStr cs, y)
                   else if uses_sdk ra hs then
                     (if y = None \<or> cs \<noteq> [] then (qs0 @ qs, map PStr cs, y) else (qs0 @ qs @ direct, chunks, x))
                   else (qs0 @ direct, chunks, x))))"

text \<open>The tools a peer's card stands for: those it declares, or one for each skill.\<close>

record remote_tool =
  rt_name :: string
  rt_description :: string
  rt_input :: "pyval option"
  rt_output :: "pyval option"
  rt_url :: string

definition declared_tool :: "string \<Rightarrow> pyval dict \<Rightarrow> remote_tool option" where
  "declared_tool base d =
     (case pget d ''name'' of
        PStr n \<Rightarrow>
          if n = '''' then None
          else Some \<lparr>rt_name = n, rt_description = (case pget d ''description'' of PStr t \<Rightarrow> t | _ \<Rightarrow> ''''),
                     rt_input = (case pget d ''input_schema'' of
                        PDict x \<Rightarrow> Some (sanitize (PDict x))
                      | _ \<Rightarrow> (case pget d ''inputSchema'' of PDict x \<Rightarrow> Some (sanitize (PDict x)) | _ \<Rightarrow> None)),
                     rt_output = None, rt_url = base\<rparr>
      | _ \<Rightarrow> None)"

definition skill_tool :: "string \<Rightarrow> skill \<Rightarrow> remote_tool" where
  "skill_tool base sk =
     \<lparr>rt_name = tool_name_of (sk_name sk), rt_description = sk_description sk,
      rt_input = Some (case structured_input_schema (sk_input sk) of Some s \<Rightarrow> s | None \<Rightarrow> message_input_schema),
      rt_output = Some (case sk_output sk of
          PDict (e # es) \<Rightarrow> sanitize (PDict (e # es)) | _ \<Rightarrow> PDict [(''type'', PStr ''string'')]),
      rt_url = base\<rparr>"

definition card_tools :: "remote \<Rightarrow> remote_tool list" where
  "card_tools ra =
     (case ra_card ra of
        None \<Rightarrow> []
      | Some c \<Rightarrow>
          (let own = List.map_filter (declared_tool (ra_base ra)) (cd_tools c)
           in if own \<noteq> [] then own else map (skill_tool (ra_base ra)) (cd_skills c)))"

subsection \<open>Credentials stay with trusted origins\<close>

text \<open>The agents a program can hold: configured by an address or an app's name, and any cards received since.\<close>

inductive live_remote :: "remote \<Rightarrow> bool" where
  by_url: "dict_wf extra \<Longrightarrow> live_remote (new_remote url app extra long rounds)"
| by_name: "dict_wf extra \<Longrightarrow> remote_of_app host app extra long rounds = Inr ra \<Longrightarrow> live_remote ra"
| card: "live_remote ra \<Longrightarrow> ra_card ra = None \<Longrightarrow> live_remote (snd (receive_card r ra))"

definition below_base :: "remote \<Rightarrow> string \<Rightarrow> bool" where
  "below_base ra u \<longleftrightarrow> starts_with (ra_base ra @ ''/'') u"

definition remote_ok :: "remote \<Rightarrow> bool" where
  "remote_ok ra \<longleftrightarrow>
     dict_wf (ra_extra ra) \<and> (case ra_durable ra of None \<Rightarrow> True | Some u \<Rightarrow> ra_card ra \<noteq> None \<and> below_base ra u)"

lemma new_remote_ok: "dict_wf extra \<Longrightarrow> remote_ok (new_remote url app extra long rounds)"
  by (simp add: remote_ok_def new_remote_def Let_def)

lemma move_base_fields:
  "move_base c ra = Inr ra' \<Longrightarrow> ra_extra ra' = ra_extra ra \<and> ra_durable ra' = ra_durable ra \<and> ra_card ra' = ra_card ra"
  by (auto simp: move_base_def split: if_splits option.splits)

lemma set_durable_ok:
  "set_durable d ra = Inr ra' \<Longrightarrow> remote_ok ra \<Longrightarrow> ra_card ra \<noteq> None \<Longrightarrow> remote_ok ra'"
  by (auto simp: set_durable_def remote_ok_def below_base_def starts_with_def split: pyval.splits option.splits if_splits)

lemma infer_app_fields:
  "ra_extra (infer_app ra) = ra_extra ra" "ra_durable (infer_app ra) = ra_durable ra" "ra_card (infer_app ra) = ra_card ra"
  "ra_base (infer_app ra) = ra_base ra" "ra_card_url (infer_app ra) = ra_card_url ra"
  by (simp_all add: infer_app_def)

lemma receive_card_ok:
  assumes "remote_ok ra" and "ra_card ra = None"
  shows "remote_ok (snd (receive_card r ra))"
proof (cases r)
  case (CardJson v)
  show ?thesis
  proof (cases v)
    case (PDict d)
    show ?thesis
    proof (cases "parse_card (ra_base ra) d")
      case (Inr c)
      define ra1 where "ra1 = ra\<lparr>ra_card := Some c\<rparr>"
      from assms have d: "ra_durable ra = None" by (auto simp: remote_ok_def split: option.splits)
      with assms have o1: "remote_ok ra1" by (simp add: ra1_def remote_ok_def)
      show ?thesis
      proof (cases "move_base c ra1")
        case (Inl x)
        with o1 Inr CardJson PDict show ?thesis by (simp add: receive_card_def ra1_def Let_def)
      next
        case (Inr ra2)
        from move_base_fields [OF Inr] d o1 have o2: "remote_ok ra2" "ra_card ra2 \<noteq> None" by (auto simp: remote_ok_def ra1_def)
        show ?thesis
        proof (cases "set_durable d ra2")
          case (Inl x)
          with o2 \<open>move_base c ra1 = Inr ra2\<close> \<open>parse_card (ra_base ra) d = Inr c\<close> CardJson PDict
          show ?thesis by (simp add: receive_card_def ra1_def Let_def)
        next
          case (Inr ra3)
          from set_durable_ok [OF Inr o2] have "remote_ok (infer_app ra3)"
            by (auto simp: remote_ok_def infer_app_fields below_base_def split: option.splits)
          with Inr \<open>move_base c ra1 = Inr ra2\<close> \<open>parse_card (ra_base ra) d = Inr c\<close> CardJson PDict
          show ?thesis by (simp add: receive_card_def ra1_def Let_def)
        qed
      qed
    qed (use assms CardJson PDict in \<open>simp add: receive_card_def\<close>)
  qed (use assms CardJson in \<open>simp_all add: receive_card_def\<close>)
qed (use assms in \<open>simp add: receive_card_def\<close>)

lemma live_ok_remote: "live_remote ra \<Longrightarrow> remote_ok ra"
proof (induction rule: live_remote.induct)
  case (by_url extra url app long rounds)
  then show ?case by (rule new_remote_ok)
next
  case (by_name extra host app long rounds ra)
  then show ?case by (auto simp: remote_of_app_def new_remote_ok split: if_splits)
next
  case (card ra r)
  then show ?case by (intro receive_card_ok)
qed

lemma credential_header:
  assumes "\<not> trusted" and "k \<in> set credential_keys"
  shows "dget (fold (add_header inc trusted) [''Authorization'', ''X-Forwarded-Access-Token'', ''X-Forwarded-Host''] hs) k = dget hs k"
  using assms by (auto simp: add_header_def credential_keys_def dict_simps)

lemma dict_wf_headers: "dict_wf hs \<Longrightarrow> dict_wf (fold (add_header inc trusted) ks hs)"
  by (induction ks arbitrary: hs) (simp_all add: add_header_def)

definition credential_free :: "string dict \<Rightarrow> string dict \<Rightarrow> bool" where
  "credential_free extra hs \<longleftrightarrow> list_all (\<lambda>k. dget hs k = dget extra k) credential_keys"

text \<open>The bases that may see the caller's credentials: the configured origin, and hosts of the Apps domain with the agent's app name.\<close>

definition honest_base :: "remote \<Rightarrow> bool" where
  "honest_base ra \<longleftrightarrow>
     same_origin (ra_base ra) (ra_card_url ra) = Some True
     \<or> nonempty_key (ra_app ra) \<and> url_to_app_name (ra_base ra) = ra_app ra
       \<and> (case urlsplit (with_scheme (ra_base ra)) of
            None \<Rightarrow> False | Some u \<Rightarrow> u_scheme u = ''https'' \<and> is_apps_https_host (hostname (u_netloc u)))"

lemma trusted_is_honest: "trusted_origin (ra_base ra) (ra_card_url ra) (ra_app ra) = Some True \<Longrightarrow> honest_base ra"
  by (auto simp: trusted_origin_def honest_base_def split: option.splits bool.splits if_splits)

fun is_sdk :: "outbound \<Rightarrow> bool" where
  "is_sdk (SdkCall m i c hs) = True" | "is_sdk q = False"

fun is_card :: "outbound \<Rightarrow> bool" where
  "is_card (CardGet u hs) = True" | "is_card q = False"

text \<open>The token a body carries among its custom inputs, and the one the agent is configured with.\<close>

definition body_token :: "pyval \<Rightarrow> pyval option" where
  "body_token b =
     (case b of
        PDict d \<Rightarrow> (case pget d ''custom_inputs'' of PDict c \<Rightarrow> dget c ''user_token'' | _ \<Rightarrow> None)
      | _ \<Rightarrow> None)"

definition configured_token :: "string dict \<Rightarrow> pyval option" where
  "configured_token extra =
     (case dget extra ''X-Forwarded-Access-Token'' of None \<Rightarrow> None | Some t \<Rightarrow> if t = '''' then None else Some (PStr t))"

text \<open>
  A request that carries the caller's credentials, in its headers or its body, goes to the card's address or to an honest
  base; a call through the SDK carries none in its headers or its custom inputs.
\<close>

definition sent_safely :: "remote \<Rightarrow> outbound \<Rightarrow> bool" where
  "sent_safely ra q =
     (case q of
        CardGet u hs \<Rightarrow> u = ra_card_url ra
      | SdkCall m input custom hs \<Rightarrow> credential_free [] hs \<and> dget custom ''user_token'' = None
      | Post u body hs \<Rightarrow>
          below_base ra u
          \<and> (if credential_free (ra_extra ra) hs \<and> body_token body \<in> {None, configured_token (ra_extra ra)} then True
             else honest_base ra))"

text \<open>The same caller without credentials.\<close>

definition anonymous :: "(string \<Rightarrow> string) \<Rightarrow> string \<Rightarrow> string" where
  "anonymous inc k = (if k \<in> set credential_keys then '''' else inc k)"

lemma obo_headers_safe:
  assumes "obo_headers ra inc = Inr hs" and "dict_wf (ra_extra ra)"
  shows "dict_wf hs"
    and "credential_free (ra_extra ra) hs \<or> honest_base ra"
proof -
  from assms(1) obtain trusted where t: "trusted_origin (ra_base ra) (ra_card_url ra) (ra_app ra) = Some trusted"
    and h: "hs = fold (add_header inc trusted) [''Authorization'', ''X-Forwarded-Access-Token'', ''X-Forwarded-Host''] (ra_extra ra)"
    by (auto simp: obo_headers_def split: option.splits)
  show "dict_wf hs" unfolding h by (rule dict_wf_headers [OF assms(2)])
  show "credential_free (ra_extra ra) hs \<or> honest_base ra"
  proof (cases trusted)
    case False
    have "credential_free (ra_extra ra) hs"
      unfolding h credential_free_def list_all_iff by (intro ballI credential_header [OF False])
    then show ?thesis by simp
  qed (use t trusted_is_honest in simp)
qed

lemma credential_update:
  assumes "dict_wf corr" and "credential_free [] corr" and "dict_wf hs" and "credential_free extra hs"
  shows "credential_free extra (dict_update hs corr)"
  using assms by (auto simp: credential_free_def list_all_iff dget_dict_update)

lemma credential_json:
  assumes "dict_wf hs" and "list_all (\<lambda>(k, v). k \<notin> set credential_keys) base" and "credential_free extra hs"
  shows "credential_free extra (dict_update base hs)"
proof -
  have "dget base k = None" if "k \<in> set credential_keys" for k
    using assms(2) that by (auto simp: list_all_iff dget_None_iff)
  with assms(1,3) show ?thesis by (auto simp: credential_free_def list_all_iff dget_dict_update split: option.splits)
qed

lemma below_baseI: "u = ra_base ra @ ''/'' @ p \<Longrightarrow> below_base ra u"
  by (simp add: below_base_def starts_with_def)

lemma data_inputs_token: "data_inputs ms = Inr custom \<Longrightarrow> dget custom ''user_token'' = None"
  by (auto simp: data_inputs_def dict_simps bind_result_Inr split: option.splits wire_msg.splits if_splits)

lemma body_token_update:
  assumes "dget inputs ''user_token'' = None"
  shows "(case dget (dict_update inputs (token_inputs hs)) ''user_token'' of None \<Rightarrow> None | Some v \<Rightarrow> Some v) = configured_token hs"
  using assms by (auto simp: token_inputs_def configured_token_def dict_update_def dict_simps split: option.splits)

lemma posted_safe:
  assumes "credential_free (ra_extra ra) hs \<or> honest_base ra" and "dict_wf hs" and "dget inputs ''user_token'' = None"
    and "body_token b \<in> {None, configured_token hs}" and "below_base ra u"
    and "list_all (\<lambda>(k, v). k \<notin> set credential_keys) base"
  shows "sent_safely ra (Post u b (dict_update base hs))"
proof (cases "honest_base ra")
  case False
  with assms(1) have c: "credential_free (ra_extra ra) hs" by simp
  from c have "configured_token hs = configured_token (ra_extra ra)"
    by (simp add: credential_free_def credential_keys_def configured_token_def)
  with credential_json [OF assms(2,6) c] assms(4,5) show ?thesis by (simp add: sent_safely_def)
qed (use assms(5) in \<open>simp add: sent_safely_def\<close>)

lemma body_token_simps:
  "dget inputs ''user_token'' = None \<Longrightarrow>
    body_token (PDict ((''input'', v) # (if dict_update inputs (token_inputs hs) = [] then []
      else [(''custom_inputs'', PDict (dict_update inputs (token_inputs hs)))]))) = configured_token hs"
  "dget inputs ''user_token'' = None \<Longrightarrow>
    body_token (PDict ((''input'', v) # (''stream'', w) # (if dict_update inputs (token_inputs hs) = [] then []
      else [(''custom_inputs'', PDict (dict_update inputs (token_inputs hs)))]))) = configured_token hs"
  using body_token_update [of inputs hs]
  by (auto simp: body_token_def pget_def dict_simps split: if_splits option.splits)

lemma direct_safe:
  assumes "dict_wf hs" and "remote_ok ra" and "credential_free (ra_extra ra) hs \<or> honest_base ra"
  shows "list_all (sent_safely ra) (fst (post_via_http nw ra ms hs))"
    and "list_all (sent_safely ra) (fst (stream_via_http nw open_stream ra ms hs))"
proof -
  have d: "sent_safely ra (durable_request nw u ms hs)" if "ra_durable ra = Some u" for u
    unfolding durable_request_def json_headers_def
    by (rule posted_safe [OF assms(3,1), of "[]"])
      (use that assms(2) in \<open>simp_all add: remote_ok_def body_token_def pget_def dict_simps credential_keys_def\<close>)
  have q: "sent_safely ra (direct_request ra ms inputs hs)" if "dget inputs ''user_token'' = None" for inputs
    unfolding direct_request_def json_headers_def Let_def
    by (rule posted_safe [OF assms(3,1) that])
      (use that in \<open>simp_all add: body_token_simps credential_keys_def below_baseI [of _ _ "''invocations''"]\<close>)
  show post: "list_all (sent_safely ra) (fst (post_via_http nw ra ms hs))"
    using d q data_inputs_token by (auto simp: post_via_http_def Let_def split: option.splits sum.splits)
  let ?Q = "\<lambda>inputs. Post (ra_base ra @ ''/invocations'')
      (PDict ([(''input'', PList (responses_input ms)), (''stream'', PBool True)]
         @ (if dict_update inputs (token_inputs hs) = [] then [] else [(''custom_inputs'', PDict (dict_update inputs (token_inputs hs)))])))
      (dict_update [(''Content-Type'', ''application/json''), (''Accept'', ''text/event-stream'')] hs)"
  have s: "sent_safely ra (?Q inputs)" if "dget inputs ''user_token'' = None" for inputs
    by (rule posted_safe [OF assms(3,1) that])
      (use that in \<open>simp_all add: body_token_simps credential_keys_def below_baseI [of _ _ "''invocations''"]\<close>)
  show "list_all (sent_safely ra) (fst (stream_via_http nw open_stream ra ms hs))"
  proof (cases "ra_durable ra")
    case None
    show ?thesis
    proof (cases "data_inputs ms")
      case (Inr inputs)
      define q where "q = ?Q inputs"
      have "fst (stream_via_http nw open_stream ra ms hs) = [q]"
        by (simp only: stream_via_http_def None Inr Let_def option.case sum.case q_def [symmetric])
          (simp split: sum.split prod.split)
      with s [OF data_inputs_token [OF Inr]] show ?thesis by (simp add: q_def)
    qed (simp add: stream_via_http_def None)
  qed (use post in \<open>simp add: stream_via_http_def Let_def split_def split: sum.split\<close>)
qed

lemma receive_card_keeps:
  "ra_card_url (snd (receive_card r ra)) = ra_card_url ra"
  "ra_extra (snd (receive_card r ra)) = ra_extra ra"
  "ra_long (snd (receive_card r ra)) = ra_long ra"
  "ra_rounds (snd (receive_card r ra)) = ra_rounds ra"
  by (auto simp: receive_card_def move_base_def set_durable_def infer_app_def Let_def
      split: card_reply.splits pyval.splits sum.splits option.splits if_splits)

lemma init_safe:
  assumes "init_quietly nw hs ra0 = (qs, ra)" and "live_remote ra0"
  shows "live_remote ra" and "list_all (sent_safely ra) qs"
proof -
  show "live_remote ra"
    using assms live_remote.card [OF assms(2), of "nw_card nw"] by (auto simp: init_quietly_def split: if_splits)
  show "list_all (sent_safely ra) qs"
    using assms(1) by (auto simp: init_quietly_def sent_safely_def receive_card_keeps split: if_splits)
qed

lemma sdk_safe:
  "sent_safely ra (SdkCall m input custom hs) \<longleftrightarrow> credential_free [] hs \<and> dget custom ''user_token'' = None"
  by (simp add: sent_safely_def)

lemma stream_rounds_safe:
  "credential_free [] hs \<Longrightarrow> dget custom ''user_token'' = None
    \<Longrightarrow> list_all (sent_safely ra') (fst (stream_rounds call ra custom hs n payload))"
proof (induction n arbitrary: payload)
  case (Suc n)
  then show ?case by (simp add: sdk_safe Let_def split_def split: option.splits)
qed simp

lemma sdk_calls_safe:
  assumes "credential_free [] hs"
  shows "list_all (sent_safely ra') (fst (stream_via_sdk call ra ms hs))"
    and "list_all (sent_safely ra') (fst (post_via_sdk nw ra ms hs))"
  using assms data_inputs_token
  by (auto simp: stream_via_sdk_def post_via_sdk_def sdk_safe Let_def intro!: stream_rounds_safe split: sum.splits)

text \<open>What a call sends after the card: through the SDK, then directly when that is not used or does not answer.\<close>

definition call_sends ::
  "(remote \<Rightarrow> string dict \<Rightarrow> outbound list) \<Rightarrow> (remote \<Rightarrow> outbound list \<times> bool) \<Rightarrow> (remote \<Rightarrow> outbound list) \<Rightarrow> remote
    \<Rightarrow> step_exn + string dict \<Rightarrow> outbound list" where
  "call_sends direct sdk task ra headers =
     (case headers of
        Inl x \<Rightarrow> []
      | Inr hs \<Rightarrow>
          if nonempty_key (ra_app ra) \<and> ra_long ra then task ra
          else if uses_sdk ra hs then fst (sdk ra) @ (if snd (sdk ra) then [] else direct ra hs)
          else direct ra hs)"

definition all_sends ::
  "network \<Rightarrow> (remote \<Rightarrow> string dict \<Rightarrow> outbound list) \<Rightarrow> (remote \<Rightarrow> outbound list \<times> bool) \<Rightarrow> (remote \<Rightarrow> outbound list) \<Rightarrow> remote
    \<Rightarrow> (string \<Rightarrow> string) \<Rightarrow> outbound list \<times> remote" where
  "all_sends nw direct sdk task ra0 inc =
     (case obo_headers ra0 inc of
        Inl x \<Rightarrow> ([], ra0)
      | Inr hs0 \<Rightarrow> (let (qs0, ra) = init_quietly nw hs0 ra0 in (qs0 @ call_sends direct sdk task ra (obo_headers ra inc), ra)))"

definition run_sends :: "network \<Rightarrow> (outbound \<Rightarrow> sdk_event list \<times> step_exn option) \<Rightarrow> string dict \<Rightarrow> remote
    \<Rightarrow> wire_msg list \<Rightarrow> (string \<Rightarrow> string) \<Rightarrow> outbound list \<times> remote" where
  "run_sends nw call corr ra0 ms =
     all_sends nw (\<lambda>ra hs. fst (post_via_http nw ra ms (dict_update hs corr)))
       (\<lambda>ra. (fst (post_via_sdk nw ra ms corr), \<not> isl (snd (post_via_sdk nw ra ms corr))))
       (\<lambda>ra. fst (stream_via_sdk call ra ms corr)) ra0"

definition stream_sends :: "network \<Rightarrow> (outbound \<Rightarrow> sdk_event list \<times> step_exn option)
    \<Rightarrow> (outbound \<Rightarrow> step_exn + nat \<times> string list \<times> step_exn option) \<Rightarrow> string dict \<Rightarrow> remote
    \<Rightarrow> wire_msg list \<Rightarrow> (string \<Rightarrow> string) \<Rightarrow> outbound list \<times> remote" where
  "stream_sends nw call open_stream corr ra0 ms =
     all_sends nw (\<lambda>ra hs. fst (stream_via_http nw open_stream ra ms (dict_update hs corr)))
       (\<lambda>ra. (fst (stream_via_sdk call ra ms corr),
              snd (snd (stream_via_sdk call ra ms corr)) = None \<or> fst (snd (stream_via_sdk call ra ms corr)) \<noteq> []))
       (\<lambda>ra. fst (stream_via_sdk call ra ms corr)) ra0"

lemma fst_joined: "fst (joined r) = fst r"
  by (simp add: joined_def split_def)

lemma run_requests:
  "(fst (run_with_control nw call corr ra0 ms inc), snd (snd (run_with_control nw call corr ra0 ms inc)))
     = run_sends nw call corr ra0 ms inc"
proof (cases "obo_headers ra0 inc")
  case (Inr hs0)
  then show ?thesis
    by (cases "obo_headers (snd (init_quietly nw hs0 ra0)) inc"; cases "snd (post_via_sdk nw (snd (init_quietly nw hs0 ra0)) ms corr)")
      (simp_all add: run_with_control_def run_sends_def all_sends_def call_sends_def Let_def split_def fst_joined)
qed (simp add: run_with_control_def run_sends_def all_sends_def)

lemma remote_requests:
  "(fst (run_remote nw call corr ra0 ms inc), snd (snd (run_remote nw call corr ra0 ms inc))) = run_sends nw call corr ra0 ms inc"
proof (cases "obo_headers ra0 inc")
  case (Inr hs0)
  then show ?thesis
    by (cases "obo_headers (snd (init_quietly nw hs0 ra0)) inc"; cases "snd (post_via_sdk nw (snd (init_quietly nw hs0 ra0)) ms corr)")
      (simp_all add: run_remote_def run_sends_def all_sends_def call_sends_def Let_def split_def fst_joined)
qed (simp add: run_remote_def run_sends_def all_sends_def)

lemma stream_requests:
  "fst (stream_remote nw call open_stream corr ra0 ms inc) = fst (stream_sends nw call open_stream corr ra0 ms inc)"
proof (cases "obo_headers ra0 inc")
  case (Inr hs0)
  then show ?thesis
    by (cases "obo_headers (snd (init_quietly nw hs0 ra0)) inc")
      (auto simp: stream_remote_def stream_sends_def all_sends_def call_sends_def Let_def split_def)
qed (simp add: stream_remote_def stream_sends_def all_sends_def)

lemma all_sends_safe:
  assumes "live_remote ra0" and "all_sends nw direct sdk task ra0 inc = (qs, ra)"
    and "\<And>ra. list_all (sent_safely ra) (task ra)" and "\<And>ra. list_all (sent_safely ra) (fst (sdk ra))"
    and "\<And>ra hs. remote_ok ra \<Longrightarrow> dict_wf hs \<Longrightarrow> credential_free (ra_extra ra) hs \<or> honest_base ra
      \<Longrightarrow> list_all (sent_safely ra) (direct ra hs)"
  shows "live_remote ra \<and> list_all (sent_safely ra) qs"
proof (cases "obo_headers ra0 inc")
  case (Inl x)
  with assms(1,2) show ?thesis by (simp add: all_sends_def)
next
  case (Inr hs0)
  obtain qs0 ra1 where i: "init_quietly nw hs0 ra0 = (qs0, ra1)" by fastforce
  with Inr assms(2) have q: "qs = qs0 @ call_sends direct sdk task ra (obo_headers ra inc)" and "ra1 = ra" by (auto simp: all_sends_def)
  with i have live: "live_remote ra" "list_all (sent_safely ra) qs0" using init_safe [OF _ assms(1)] by blast+
  from live_ok_remote [OF live(1)] have ok: "remote_ok ra" .
  then have wf: "dict_wf (ra_extra ra)" by (simp add: remote_ok_def)
  have "list_all (sent_safely ra) (direct ra hs)" if "obo_headers ra inc = Inr hs" for hs
    by (rule assms(5) [OF ok obo_headers_safe [OF that wf]])
  with live q assms(3,4) show ?thesis by (auto simp: call_sends_def split: sum.splits)
qed

text \<open>The caller's credentials change neither what goes to a base that may not see them nor what goes through the SDK.\<close>

lemma anonymous_untrusted: "\<not> honest_base ra \<Longrightarrow> obo_headers ra (anonymous inc) = obo_headers ra inc"
  using trusted_is_honest [of ra]
  by (auto simp: obo_headers_def add_header_def anonymous_def credential_keys_def split: option.splits)

lemma anonymous_sdk:
  assumes "obo_headers ra inc = Inr hs" and "\<not> drops_user_token hs"
  obtains hs' where "obo_headers ra (anonymous inc) = Inr hs'" and "\<not> drops_user_token hs'"
  using assms
  by (auto simp: obo_headers_def drops_user_token_def add_header_def anonymous_def credential_keys_def nonempty_key_def dict_simps
      split: option.splits if_splits)

lemma init_cards: "list_all is_card (fst (init_quietly nw hs ra0))" "snd (init_quietly nw hs ra0) = snd (init_quietly nw hs' ra0)"
  by (simp_all add: init_quietly_def)

lemma all_sends_anonymous:
  assumes "all_sends nw direct sdk task ra0 inc = (qs, ra)"
    and "\<And>ra hs. filter is_sdk (direct ra hs) = []"
  shows "(if honest_base ra then True else filter (Not \<circ> is_card) qs = filter (Not \<circ> is_card) (fst (all_sends nw direct sdk task ra0 (anonymous inc))))
    \<and> filter is_sdk qs \<in> {[], filter is_sdk (fst (all_sends nw direct sdk task ra0 (anonymous inc)))}"
proof (cases "trusted_origin (ra_base ra0) (ra_card_url ra0) (ra_app ra0)")
  case None
  with assms(1) show ?thesis by (simp add: all_sends_def obo_headers_def)
next
  case (Some t)
  then obtain hs0 hs1 where o: "obo_headers ra0 inc = Inr hs0" "obo_headers ra0 (anonymous inc) = Inr hs1" by (simp add: obo_headers_def)
  have nocard: "filter (Not \<circ> is_card) (fst (init_quietly nw hs ra0)) = []" "filter is_sdk (fst (init_quietly nw hs ra0)) = []" for hs
    by (simp_all add: init_quietly_def)
  have q: "qs = fst (init_quietly nw hs0 ra0) @ call_sends direct sdk task ra (obo_headers ra inc)"
    and q': "fst (all_sends nw direct sdk task ra0 (anonymous inc))
      = fst (init_quietly nw hs1 ra0) @ call_sends direct sdk task ra (obo_headers ra (anonymous inc))"
    using assms(1) o init_cards(2) [of nw hs0 ra0 hs1] by (auto simp: all_sends_def Let_def split_def)
  have "filter is_sdk (call_sends direct sdk task ra (obo_headers ra inc))
      \<in> {[], filter is_sdk (call_sends direct sdk task ra (obo_headers ra (anonymous inc)))}"
  proof (cases "obo_headers ra inc")
    case (Inr hs)
    then obtain hs' where h: "obo_headers ra (anonymous inc) = Inr hs'" by (auto simp: obo_headers_def split: option.splits)
    show ?thesis
    proof (cases "drops_user_token hs")
      case True
      with Inr h assms(2) show ?thesis by (auto simp: call_sends_def uses_sdk_def)
    next
      case False
      with anonymous_sdk [OF Inr False] h have "\<not> drops_user_token hs'" by auto
      with False Inr h assms(2) show ?thesis by (auto simp: call_sends_def uses_sdk_def)
    qed
  qed (simp add: call_sends_def)
  then show ?thesis by (simp add: q q' nocard anonymous_untrusted)
qed

lemma no_sdk_posts:
  "filter is_sdk (fst (post_via_http nw ra ms hs)) = []" "filter is_sdk (fst (stream_via_http nw open_stream ra ms hs)) = []"
  by (simp_all add: stream_via_http_def post_via_http_def durable_request_def direct_request_def Let_def split_def
      split: option.splits sum.splits)

text \<open>
  C1: the caller's token reaches no host the operator did not mean.  Whatever cards the peer has served and serves now, and
  whatever it answers, for a run (with or without control) and for a stream: the card is asked for at the configured address;
  calls through the SDK carry no credential in their headers or custom inputs; every direct request goes below the base
  address, with the caller's credentials in its headers or its body only when that base has the configured origin or is a
  host of the Apps domain that bears the agent's app name.  What goes to any other base, and every call through the SDK, is
  what the same caller would send without credentials.\<close>

theorem credentials_reach_trusted_origins:
  assumes "live_remote ra0" and "dict_wf corr" and "credential_free [] corr"
    and "run_with_control nw call corr ra0 ms inc = (qs, r, ra)"
  shows "live_remote ra \<and> list_all (sent_safely ra) qs
    \<and> (let qs' = fst (run_with_control nw call corr ra0 ms (anonymous inc))
       in (if honest_base ra then True else filter (Not \<circ> is_card) qs = filter (Not \<circ> is_card) qs')
          \<and> filter is_sdk qs \<in> {[], filter is_sdk qs'})
    \<and> fst (run_remote nw call corr ra0 ms inc) = qs
    \<and> list_all (sent_safely ra) (fst (stream_remote nw call open_stream corr ra0 ms inc))
    \<and> (let ss = fst (stream_remote nw call open_stream corr ra0 ms inc);
           ss' = fst (stream_remote nw call open_stream corr ra0 ms (anonymous inc))
       in (if honest_base ra then True else filter (Not \<circ> is_card) ss = filter (Not \<circ> is_card) ss')
          \<and> filter is_sdk ss \<in> {[], filter is_sdk ss'})"
proof -
  have sends: "run_sends nw call corr ra0 ms inc = (qs, ra)" using run_requests [of nw call corr ra0 ms inc] assms(4) by simp
  have ss: "stream_sends nw call open_stream corr ra0 ms inc = (fst (stream_remote nw call open_stream corr ra0 ms inc), ra)"
    using sends init_cards(2)
    by (auto simp: stream_requests run_sends_def stream_sends_def all_sends_def Let_def split_def split: sum.splits)
  have upd: "dict_wf (dict_update hs corr) \<and> (credential_free (ra_extra ra) (dict_update hs corr) \<or> honest_base ra)"
    if "dict_wf hs" "credential_free (ra_extra ra) hs \<or> honest_base ra" for ra hs
    using that credential_update [OF assms(2,3)] assms(2) by auto
  note sdk = sdk_calls_safe [OF assms(3)]
  have "live_remote ra \<and> list_all (sent_safely ra) qs"
    by (rule all_sends_safe [OF assms(1) sends [unfolded run_sends_def]]) (use sdk direct_safe(1) upd in simp_all)
  moreover have "list_all (sent_safely ra) (fst (stream_remote nw call open_stream corr ra0 ms inc))"
    by (rule all_sends_safe [OF assms(1) ss [unfolded stream_sends_def], THEN conjunct2]) (use sdk direct_safe(2) upd in simp_all)
  moreover have "(if honest_base ra then True
        else filter (Not \<circ> is_card) qs = filter (Not \<circ> is_card) (fst (run_sends nw call corr ra0 ms (anonymous inc))))
      \<and> filter is_sdk qs \<in> {[], filter is_sdk (fst (run_sends nw call corr ra0 ms (anonymous inc)))}"
    unfolding run_sends_def by (rule all_sends_anonymous [OF sends [unfolded run_sends_def] no_sdk_posts(1)])
  moreover have "(if honest_base ra then True
        else filter (Not \<circ> is_card) (fst (stream_sends nw call open_stream corr ra0 ms inc))
          = filter (Not \<circ> is_card) (fst (stream_sends nw call open_stream corr ra0 ms (anonymous inc))))
      \<and> filter is_sdk (fst (stream_sends nw call open_stream corr ra0 ms inc))
          \<in> {[], filter is_sdk (fst (stream_sends nw call open_stream corr ra0 ms (anonymous inc)))}"
    unfolding stream_sends_def
    by (rule all_sends_anonymous [OF ss [unfolded stream_requests stream_sends_def] no_sdk_posts(2)])
  moreover have "fst (run_remote nw call corr ra0 ms inc) = qs" using remote_requests [of nw call corr ra0 ms inc] sends by simp
  moreover have "fst (run_with_control nw call corr ra0 ms (anonymous inc)) = fst (run_sends nw call corr ra0 ms (anonymous inc))"
    using run_requests [of nw call corr ra0 ms "anonymous inc"] by (metis fst_conv)
  ultimately show ?thesis
    by (simp add: Let_def stream_requests)
qed

text \<open>A request below the base goes to the base's host: the path cannot change it.\<close>

definition origin_of :: "string \<Rightarrow> (string \<times> string) option" where
  "origin_of s = map_option (\<lambda>u. (u_scheme u, u_netloc u)) (urlsplit s)"

lemma in_dropWhile: "c \<in> set s \<Longrightarrow> \<not> P c \<Longrightarrow> c \<in> set (dropWhile P s)"
  by (induction s) auto

lemma takeWhile_stop: "\<not> P c \<Longrightarrow> takeWhile P (r @ c # t) = takeWhile P r"
  by (induction r) auto

lemma takeWhile_shorter: "c \<in> set s \<Longrightarrow> \<not> P c \<Longrightarrow> length (takeWhile P s) < length s"
  by (induction s) auto

lemma clean_url_append:
  assumes "CHR '':'' \<in> set b"
  shows "clean_url (b @ t) = clean_url b @ filter (\<lambda>c. c \<notin> {CHR 0x09, CHR 0x0A, CHR 0x0D}) t" and "CHR '':'' \<in> set (clean_url b)"
proof -
  have c: "\<not> (of_char (CHR '':'') \<le> (32 :: nat))" by simp
  then have "dropWhile (\<lambda>c. of_char c \<le> (32 :: nat)) (b @ t) = dropWhile (\<lambda>c. of_char c \<le> (32 :: nat)) b @ t"
    using assms by (intro dropWhile_append1) auto
  then show "clean_url (b @ t) = clean_url b @ filter (\<lambda>c. c \<notin> {CHR 0x09, CHR 0x0A, CHR 0x0D}) t"
    by (simp add: clean_url_def)
  show "CHR '':'' \<in> set (clean_url b)" 
    using in_dropWhile [where P = "\<lambda>c. of_char c \<le> (32 :: nat)", OF assms c] by (simp add: clean_url_def)
qed

lemma split_scheme_append:
  assumes "CHR '':'' \<in> set s"
  shows "split_scheme (s @ t) = (fst (split_scheme s), snd (split_scheme s) @ t)"
proof -
  have t: "takeWhile (\<lambda>c. c \<noteq> CHR '':'') (s @ t) = takeWhile (\<lambda>c. c \<noteq> CHR '':'') s"
    using assms by (intro takeWhile_append1) auto
  have "length (takeWhile (\<lambda>c. c \<noteq> CHR '':'') s) < length s"
    by (rule takeWhile_shorter [OF assms]) simp
  then show ?thesis unfolding split_scheme_def Let_def t by simp
qed

lemma split_netloc_append:
  assumes "fst (split_netloc s) \<noteq> ''''"
  shows "fst (split_netloc (s @ CHR ''/'' # p)) = fst (split_netloc s)"
proof -
  from assms have s: "starts_with ''//'' s" by (auto simp: split_netloc_def split: if_splits)
  then obtain r where r: "s = ''//'' @ r" using starts_with_split by blast
  have "takeWhile netloc_char (r @ CHR ''/'' # p) = takeWhile netloc_char r"
    by (rule takeWhile_stop) (simp add: netloc_char_def)
  then show ?thesis by (simp add: split_netloc_def r starts_with_def)
qed

lemma below_base_keeps_origin:
  assumes "str_contains ''://'' b" and "origin_of b = Some (scheme, netloc)" and "netloc \<noteq> ''''"
  shows "origin_of (b @ ''/'' @ p) = Some (scheme, netloc)"
proof -
  from assms(1) have colon: "CHR '':'' \<in> set b" by (auto simp: str_contains_iff)
  define q where "q = filter (\<lambda>c. c \<notin> {CHR 0x09, CHR 0x0A, CHR 0x0D}) p"
  have "clean_url (b @ ''/'' @ p) = clean_url b @ CHR ''/'' # q"
    using clean_url_append(1) [OF colon, of "''/'' @ p"] by (simp add: q_def)
  moreover obtain sch rest where sch: "split_scheme (clean_url b) = (sch, rest)" by fastforce
  ultimately have s: "split_scheme (clean_url (b @ ''/'' @ p)) = (sch, rest @ CHR ''/'' # q)"
    using split_scheme_append [OF clean_url_append(2) [OF colon]] by simp
  from assms(2) sch have n: "sch = scheme" "fst (split_netloc rest) = netloc"
    and ok: "\<not> (CHR ''['' \<in> set netloc \<or> CHR '']'' \<in> set netloc)"
    by (auto simp: origin_of_def urlsplit_def split_def Let_def split: if_splits)
  from split_netloc_append [of rest q] assms(3) n have "fst (split_netloc (rest @ CHR ''/'' # q)) = netloc" by simp
  with s n ok show ?thesis by (simp add: origin_of_def urlsplit_def split_def Let_def)
qed

subsection \<open>Calls are not repeated\<close>

fun is_post :: "outbound \<Rightarrow> bool" where
  "is_post (Post u b hs) = True" | "is_post q = False"

lemma init_sends: "init_quietly nw hs ra0 = (qs, ra) \<Longrightarrow> filter is_post qs = [] \<and> filter is_sdk qs = [] \<and> ra_long ra = ra_long ra0"
  by (auto simp: init_quietly_def receive_card_keeps split: if_splits)

lemma http_sends: "filter is_sdk (fst (post_via_http nw ra ms hs)) = [] \<and> length (fst (post_via_http nw ra ms hs)) \<le> 1"
  by (auto simp: post_via_http_def durable_request_def direct_request_def Let_def split: option.splits sum.splits)

lemma sdk_sends:
  assumes "post_via_sdk nw ra ms hs = (qs, r)"
  shows "qs = [] \<and> (\<exists>x. r = Inl x) \<or> (\<exists>m i c. qs = [SdkCall m i c hs] \<and> r = nw_sdk nw (SdkCall m i c hs))"
  using assms by (auto simp: post_via_sdk_def Let_def split: sum.splits)

text \<open>
  C11: a call with effects is made once.  A call that is not a long task sends at most one SDK call and at most one direct
  request, and the direct request only when the SDK call did not answer: an answer that cannot be read is an error, not a
  reason to call again.  With the caller's token in hand the SDK, which would sign as the app, is not used.\<close>

theorem answered_call_is_not_replayed:
  assumes "run_with_control nw call corr ra0 ms inc = (qs, r, ra)" and "\<not> ra_long ra0"
  shows "length (filter is_post qs) \<le> 1 \<and> length (filter is_sdk qs) \<le> 1
    \<and> list_all (\<lambda>q. if is_sdk q \<and> isl (nw_sdk nw q) then True else if is_sdk q then filter is_post qs = [] else True) qs
    \<and> (case obo_headers ra inc of
         Inl x \<Rightarrow> filter is_post qs = []
       | Inr hs \<Rightarrow> if drops_user_token hs then filter is_sdk qs = [] else True)"
proof (cases "obo_headers ra0 inc")
  case (Inl x)
  with assms show ?thesis by (auto simp: run_with_control_def split: sum.splits)
next
  case (Inr hs0)
  obtain qs0 ra1 where i: "init_quietly nw hs0 ra0 = (qs0, ra1)" by fastforce
  note s0 = init_sends [OF i]
  from s0 have l0: "list_all (\<lambda>q. \<not> is_sdk q) qs0" by (simp add: list_all_iff filter_empty_conv)
  show ?thesis
  proof (cases "obo_headers ra1 inc")
    case (Inl x)
    with assms i s0 l0 \<open>obo_headers ra0 inc = Inr hs0\<close> show ?thesis
      by (auto simp: run_with_control_def list_all_iff)
  next
    case (Inr hs)
    obtain cq cr where c: "post_via_sdk nw ra1 ms corr = (cq, cr)" by (metis prod.exhaust)
    obtain hq hb where h: "post_via_http nw ra1 ms (dict_update hs corr) = (hq, hb)" by (metis prod.exhaust)
    have long: "\<not> ra_long ra1" using s0 assms(2) by simp
    have hs: "filter is_sdk hq = []" "length hq \<le> 1" using http_sends [of nw ra1 ms "dict_update hs corr"] h by simp_all
    then have hl: "list_all (\<lambda>q. \<not> is_sdk q) hq" by (simp add: list_all_iff filter_empty_conv)
    have hp: "length (filter is_post hq) \<le> 1" using hs(2) length_filter_le le_trans by blast
    have "ra = ra1 \<and> (if uses_sdk ra1 hs then (case cr of Inl x \<Rightarrow> qs = qs0 @ cq @ hq | Inr a \<Rightarrow> qs = qs0 @ cq) else qs = qs0 @ hq)"
      using assms(1) long by (cases cr) (auto simp: run_with_control_def \<open>obo_headers ra0 inc = Inr hs0\<close> Inr i c h split: if_splits)
    then have ra: "ra = ra1" and q: "if uses_sdk ra1 hs then (case cr of Inl x \<Rightarrow> qs = qs0 @ cq @ hq | Inr a \<Rightarrow> qs = qs0 @ cq) else qs = qs0 @ hq"
      by simp_all
    show ?thesis
    proof (cases "uses_sdk ra1 hs")
      case False
      with q have "qs = qs0 @ hq" by simp
      with s0 l0 hs hl hp ra Inr show ?thesis by (auto simp: list_all_iff)
    next
      case True
      then have t: "\<not> drops_user_token hs" by (simp add: uses_sdk_def)
      from sdk_sends [OF c] q True s0 l0 hs hl hp ra Inr t show ?thesis
        by (cases cr) (auto simp: list_all_iff isl_def, metis+)
    qed
  qed
qed

subsection \<open>Streams\<close>

fun payload_of :: "outbound \<Rightarrow> pyval list" where
  "payload_of (SdkCall m i c hs) = i" | "payload_of q = []"

text \<open>What one round relays and what it asks for.\<close>

definition round_text :: "bool \<Rightarrow> (outbound \<Rightarrow> sdk_event list \<times> step_exn option) \<Rightarrow> outbound \<Rightarrow> string list" where
  "round_text long call q = fst (read_round long (fst (call q)) None)"

definition round_asks :: "bool \<Rightarrow> (outbound \<Rightarrow> sdk_event list \<times> step_exn option) \<Rightarrow> outbound \<Rightarrow> pyval dict option" where
  "round_asks long call q = snd (read_round long (fst (call q)) None)"

definition answers :: "bool \<Rightarrow> (outbound \<Rightarrow> sdk_event list \<times> step_exn option) \<Rightarrow> outbound \<Rightarrow> outbound \<Rightarrow> bool" where
  "answers long call q q' \<longleftrightarrow>
     (case round_asks long call q of None \<Rightarrow> False | Some p \<Rightarrow> payload_of q' = payload_of q @ continuation p)"

lemma stream_rounds_Suc:
  "stream_rounds call ra custom hs (Suc n) payload =
     (let q = SdkCall (sdk_model ra) payload custom hs in
      case snd (call q) of
        Some y \<Rightarrow> ([q], round_text (ra_long ra) call q, Some y)
      | None \<Rightarrow>
          (case round_asks (ra_long ra) call q of
             None \<Rightarrow> ([q], round_text (ra_long ra) call q, None)
           | Some p \<Rightarrow>
               (let r = stream_rounds call ra custom hs n (payload @ continuation p)
                in (q # fst r, round_text (ra_long ra) call q @ fst (snd r), snd (snd r)))))"
  by (simp add: Let_def split_def round_text_def round_asks_def split: option.splits)

lemma stream_rounds_spec:
  "stream_rounds call ra custom hs n payload = (qs, chunks, x) \<Longrightarrow>
     length qs \<le> n \<and> list_all is_sdk qs \<and> chunks = concat (map (round_text (ra_long ra) call) qs)
     \<and> (case qs of [] \<Rightarrow> n = 0 | q # rest \<Rightarrow> payload_of q = payload) \<and> successively (answers (ra_long ra) call) qs
     \<and> (x = None \<longrightarrow> qs \<noteq> [] \<and> round_asks (ra_long ra) call (last qs) = None)"
proof (induction n arbitrary: payload qs chunks x)
  case (Suc n)
  define q where "q = SdkCall (sdk_model ra) payload custom hs"
  note e = stream_rounds_Suc [of call ra custom hs n payload, unfolded Let_def, folded q_def]
  show ?case
  proof (cases "snd (call q) \<noteq> None \<or> round_asks (ra_long ra) call q = None")
    case True
    with Suc.prems e have "qs = [q] \<and> chunks = round_text (ra_long ra) call q \<and> (x = None \<longrightarrow> round_asks (ra_long ra) call q = None)"
      by (auto split: option.splits)
    then show ?thesis by (simp add: q_def)
  next
    case False
    then obtain p where p: "snd (call q) = None" "round_asks (ra_long ra) call q = Some p" by auto
    obtain rs more y where r: "stream_rounds call ra custom hs n (payload @ continuation p) = (rs, more, y)" by (metis prod.exhaust)
    from Suc.prems e p r have f: "qs = q # rs" "chunks = round_text (ra_long ra) call q @ more" "x = y" by simp_all
    from Suc.IH [OF r] p show ?thesis
      by (cases rs) (auto simp: f answers_def q_def)
  qed
qed simp

text \<open>
  C16: a long task is continued in bounds and answered only when it is done.  A streamed call makes at most
  \<open>max_continuations + 1\<close> requests; each request after the first repeats the one before and adds the pair that answers the
  continuation it asked for; the chunks are those of the rounds in order; and a call that ends without an exception ended with
  a round that asked for no continuation.\<close>

theorem long_task_is_continued_in_bounds:
  assumes "stream_via_sdk call ra ms hs = (qs, chunks, x)"
  shows "length qs \<le> nat (ra_rounds ra + 1) \<and> successively (answers (ra_long ra) call) qs
    \<and> chunks = concat (map (round_text (ra_long ra) call) qs)
    \<and> (case qs of [] \<Rightarrow> x \<noteq> None | q # rest \<Rightarrow> payload_of q = responses_input ms)
    \<and> (if x = None then round_asks (ra_long ra) call (last qs) = None else True)"
proof (cases "data_inputs ms")
  case (Inl y)
  with assms show ?thesis by (auto simp: stream_via_sdk_def)
next
  case (Inr custom)
  with assms have s: "stream_rounds call ra custom hs (nat (ra_rounds ra + 1)) (responses_input ms) = (qs, chunks, x)"
    by (simp add: stream_via_sdk_def)
  from stream_rounds_spec [OF s] show ?thesis by (auto split: list.splits)
qed

lemma stream_http_sends:
  "list_all (\<lambda>q. \<not> is_sdk q) (fst (stream_via_http nw open_stream ra ms hs))"
proof -
  have "filter is_sdk (fst (post_via_http nw ra ms hs)) = []" using http_sends by blast
  then show ?thesis
    by (auto simp: stream_via_http_def Let_def filter_empty_conv list_all_iff split: option.splits sum.splits prod.splits)
qed

lemma all_sdk_no_post: "list_all is_sdk qs \<Longrightarrow> filter is_post qs = []"
  by (induction qs) (auto elim: is_sdk.elims)

lemma stream_via_sdk_sends:
  assumes "stream_via_sdk call ra ms hs = (qs, chunks, x)"
  shows "list_all is_sdk qs" and "chunks = concat (map (round_text (ra_long ra) call) qs)"
proof -
  have "list_all is_sdk qs \<and> chunks = concat (map (round_text (ra_long ra) call) qs)"
  proof (cases "data_inputs ms")
    case (Inl y)
    with assms show ?thesis by (auto simp: stream_via_sdk_def)
  next
    case (Inr custom)
    with assms have "stream_rounds call ra custom hs (nat (ra_rounds ra + 1)) (responses_input ms) = (qs, chunks, x)"
      by (simp add: stream_via_sdk_def)
    from stream_rounds_spec [OF this] show ?thesis by simp
  qed
  then show "list_all is_sdk qs" and "chunks = concat (map (round_text (ra_long ra) call) qs)" by simp_all
qed

lemma stream_http_unsent: "stream_via_http nw open_stream ra ms hs = (qs, chunks, x) \<Longrightarrow> filter is_post qs = [] \<Longrightarrow> chunks = []"
  by (auto simp: stream_via_http_def post_via_http_def durable_request_def Let_def
      split: option.splits sum.splits prod.splits if_splits)

text \<open>
  a stream never starts over.  Once a round of the SDK has relayed any text, no direct request is sent, so nothing is
  said twice; and without a direct request, what is relayed is exactly what the rounds said.\<close>

theorem streamed_text_is_not_repeated:
  assumes "stream_remote nw call open_stream corr ra0 ms inc = (qs, chunks, x)"
  shows "if filter is_post qs = [] then chunks = map PStr (concat (map (round_text (ra_long ra0) call) (filter is_sdk qs)))
         else concat (map (round_text (ra_long ra0) call) (filter is_sdk qs)) = []"
proof (cases "obo_headers ra0 inc")
  case (Inl y)
  with assms show ?thesis by (auto simp: stream_remote_def)
next
  case (Inr hs0)
  obtain qs0 ra where i: "init_quietly nw hs0 ra0 = (qs0, ra)" by fastforce
  note s0 = init_sends [OF i]
  show ?thesis
  proof (cases "obo_headers ra inc")
    case (Inl y)
    with assms i s0 \<open>obo_headers ra0 inc = Inr hs0\<close> show ?thesis by (auto simp: stream_remote_def)
  next
    case (Inr hs)
    obtain direct dcs dx where d: "stream_via_http nw open_stream ra ms (dict_update hs corr) = (direct, dcs, dx)" by (metis prod.exhaust)
    obtain sq cs y where s: "stream_via_sdk call ra ms corr = (sq, cs, y)" by (metis prod.exhaust)
    note sdk = stream_via_sdk_sends [OF s]
    have sf: "filter is_sdk sq = sq" using sdk(1) by (simp add: list_all_iff)
    have sp: "filter is_post sq = []" by (rule all_sdk_no_post [OF sdk(1)])
    have df: "filter is_sdk direct = []" using stream_http_sends [of nw open_stream ra ms "dict_update hs corr"] d
      by (simp add: list_all_iff filter_empty_conv)
    have "(qs, chunks, x) = (if nonempty_key (ra_app ra) \<and> ra_long ra then (qs0 @ sq, map PStr cs, y)
        else if uses_sdk ra hs then (if y = None \<or> cs \<noteq> [] then (qs0 @ sq, map PStr cs, y) else (qs0 @ sq @ direct, dcs, dx))
        else (qs0 @ direct, dcs, dx))"
      using assms by (simp add: stream_remote_def \<open>obo_headers ra0 inc = Inr hs0\<close> i Inr d s)
    then have "qs = qs0 @ sq \<and> chunks = map PStr cs \<or> (qs = qs0 @ sq @ direct \<and> cs = [] \<or> qs = qs0 @ direct) \<and> chunks = dcs"
      by (auto split: if_splits)
    then show ?thesis
    proof (elim disjE conjE)
      assume "qs = qs0 @ sq" "chunks = map PStr cs"
      with s0 sf sp sdk(2) show ?thesis by simp
    next
      assume "qs = qs0 @ sq @ direct" "cs = []" "chunks = dcs"
      with s0 sf sp df sdk(2) stream_http_unsent [OF d] show ?thesis by auto
    next
      assume "qs = qs0 @ direct" "chunks = dcs"
      with s0 df stream_http_unsent [OF d] show ?thesis by auto
    qed
  qed
qed

subsection \<open>What a fetched card gives\<close>

lemma parsed_card: "parse_card base d = Inr c \<Longrightarrow> cd_instructions c = '''' \<and> cd_tools c = []"
  by (auto simp: parse_card_def bind_result_def split: sum.splits)

lemma received_card:
  assumes "case ra_card ra of None \<Rightarrow> True | Some c \<Rightarrow> cd_instructions c = '''' \<and> cd_tools c = []"
  shows "case ra_card (snd (receive_card r ra)) of None \<Rightarrow> True | Some c \<Rightarrow> cd_instructions c = '''' \<and> cd_tools c = []"
  using assms
  by (auto simp: receive_card_def move_base_def set_durable_def infer_app_def Let_def parsed_card
      split: card_reply.splits pyval.splits sum.splits option.splits if_splits)

text \<open>So the tools and the instructions a foreign card declares are never used: the fetch drops them.\<close>

lemma fetched_cards_declare_no_tools:
  "live_remote ra \<Longrightarrow> case ra_card ra of None \<Rightarrow> True | Some c \<Rightarrow> cd_instructions c = '''' \<and> cd_tools c = []"
proof (induction rule: live_remote.induct)
  case (card ra r)
  then show ?case by (intro received_card)
qed (auto simp: remote_of_app_def new_remote_def Let_def split: if_splits)

text \<open>Whatever a card holds, its tools have schemas the model's endpoint accepts, and they call the base that was trusted.\<close>

definition usable_tool :: "remote \<Rightarrow> remote_tool \<Rightarrow> bool" where
  "usable_tool ra t \<longleftrightarrow> rt_url t = ra_base ra \<and> list_all accepted_schema (List.map_filter id [rt_input t, rt_output t])"

lemma usable_toolI:
  "rt_url t = ra_base ra \<Longrightarrow> (\<And>v. rt_input t = Some v \<Longrightarrow> accepted_schema v) \<Longrightarrow> (\<And>v. rt_output t = Some v \<Longrightarrow> accepted_schema v)
   \<Longrightarrow> usable_tool ra t"
  by (auto simp: usable_tool_def List.map_filter_simps simp del: accepted_schema.simps split: option.splits)

lemma declared_tool_fields:
  assumes "declared_tool base d = Some t"
  shows "rt_url t = base" and "rt_output t = None" and "rt_input t = Some v \<Longrightarrow> \<exists>x. v = sanitize (PDict x)"
proof -
  obtain n where n: "pget d ''name'' = PStr n" "n \<noteq> ''''"
    using assms by (cases "pget d ''name''") (auto simp: declared_tool_def split: if_split_asm)
  show "rt_url t = base" and "rt_output t = None" using assms by (auto simp: declared_tool_def n simp del: sanitize.simps)
  show "rt_input t = Some v \<Longrightarrow> \<exists>x. v = sanitize (PDict x)"
    using assms
    by (cases "pget d ''input_schema''"; cases "pget d ''inputSchema''") (auto simp: declared_tool_def n simp del: sanitize.simps)
qed

lemma declared_tool_usable: "declared_tool (ra_base ra) d = Some t \<Longrightarrow> usable_tool ra t"
  by (rule usable_toolI) (use sanitize_accepted in \<open>auto dest: declared_tool_fields\<close>)

lemma structured_accepted: "structured_input_schema v = Some s \<Longrightarrow> accepted_schema s"
  by (auto simp: structured_input_schema_def sanitize_accepted simp del: sanitize.simps accepted_schema.simps
      split: pyval.splits if_splits option.splits)

lemma skill_tool_usable: "usable_tool ra (skill_tool (ra_base ra) sk)"
proof (rule usable_toolI)
  fix v
  assume "rt_output (skill_tool (ra_base ra) sk) = Some v"
  then show "accepted_schema v"
    using sanitize_accepted by (auto simp: skill_tool_def simp del: sanitize.simps split: pyval.splits list.splits)
qed (auto simp: skill_tool_def message_schema_accepted structured_accepted simp del: accepted_schema.simps split: option.splits)

lemma card_tools_usable: "list_all (usable_tool ra) (card_tools ra)"
  by (auto simp: card_tools_def Let_def list_all_iff List.map_filter_def skill_tool_usable dest: declared_tool_usable
      split: option.splits if_splits)

subsection \<open>Concrete calls\<close>

text \<open>A desk agent reached by its address; its card names another host and a durable endpoint there.\<close>

definition desk :: remote where
  "desk = new_remote ''https://desk.example.com/'' None [] False 4"

definition desk_card :: card_reply where
  "desk_card =
     CardJson (PDict [(''name'', PStr ''desk''), (''url'', PStr ''https://evil.example.org''),
                      (''invocationsEndpoint'', PStr ''https://evil.example.org/durable'')])"

definition desk_net :: network where
  "desk_net =
     \<lparr>nw_card = desk_card, nw_sdk = (\<lambda>q. Inl (OtherExn ''ConnectError'')),
      nw_http = (\<lambda>q. Inr (200, Inr (PDict [(''messages'', PList [PDict [(''role'', PStr ''assistant''), (''content'', PStr ''yes'')]])]))),
      nw_loads = (\<lambda>s. None), nw_dumps = (\<lambda>v. ''{}''), nw_ids = (''r1'', ''s1'')\<rparr>"

definition signed :: "string \<Rightarrow> string" where
  "signed k = (if k = ''Authorization'' then ''Bearer t'' else '''')"

definition asks_again :: "outbound \<Rightarrow> sdk_event list \<times> step_exn option" where
  "asks_again q =
     ([\<lparr>ev_type = ''response.output_text.delta'', ev_delta = ''wait'', ev_item = None\<rparr>,
       \<lparr>ev_type = ''response.output_item.done'', ev_delta = '''',
        ev_item = Some [(''type'', PStr ''task_continue_request''), (''id'', PStr ''c1'')]\<rparr>], None)"

definition hello :: "wire_msg list" where
  "hello = [TextMsg ''user'' ''hello'']"

lemma desk_live: "live_remote desk"
  unfolding desk_def by (intro live_remote.by_url) (simp add: dict_wf_def)

text \<open>The card does not move the base, and its durable endpoint becomes a path of the configured host.\<close>

lemma desk_call:
  "(case run_with_control desk_net asks_again [] desk hello signed of
      (qs, r, ra) \<Rightarrow> map_sum id wr_text r = Inr (PStr ''yes'')
        \<and> ra_durable ra = Some ''https://desk.example.com/durable'' \<and> length qs = 2)"
  by code_simp

lemma credentials_reach_trusted_origins_witness:
  "case run_with_control desk_net asks_again [] desk hello signed of (qs, r, ra) \<Rightarrow> live_remote ra \<and> list_all (sent_safely ra) qs"
  using credentials_reach_trusted_origins [OF desk_live, of "[]" desk_net asks_again hello signed]
  by (auto simp: dict_wf_def credential_free_def list_all_iff)

lemma answered_call_is_not_replayed_witness:
  "case run_with_control desk_net asks_again [] desk hello signed of
     (qs, r, ra) \<Rightarrow> length (filter is_post qs) \<le> 1 \<and> length (filter is_sdk qs) \<le> 1"
proof -
  have "\<not> ra_long desk" by (simp add: desk_def new_remote_def Let_def)
  moreover obtain qs r ra where e: "run_with_control desk_net asks_again [] desk hello signed = (qs, r, ra)" by (metis prod.exhaust)
  ultimately show ?thesis using answered_call_is_not_replayed [OF e] by (simp add: e)
qed

lemma long_task_is_continued_in_bounds_witness:
  "length (fst (stream_via_sdk asks_again (desk\<lparr>ra_long := True, ra_rounds := 2\<rparr>) hello [])) = 3
   \<and> successively (answers True asks_again) (fst (stream_via_sdk asks_again (desk\<lparr>ra_long := True, ra_rounds := 2\<rparr>) hello []))"
proof
  show "length (fst (stream_via_sdk asks_again (desk\<lparr>ra_long := True, ra_rounds := 2\<rparr>) hello [])) = 3" by code_simp
  show "successively (answers True asks_again) (fst (stream_via_sdk asks_again (desk\<lparr>ra_long := True, ra_rounds := 2\<rparr>) hello []))"
    using long_task_is_continued_in_bounds [of asks_again "desk\<lparr>ra_long := True, ra_rounds := 2\<rparr>" hello "[]"
        "fst (stream_via_sdk asks_again (desk\<lparr>ra_long := True, ra_rounds := 2\<rparr>) hello [])"
        "fst (snd (stream_via_sdk asks_again (desk\<lparr>ra_long := True, ra_rounds := 2\<rparr>) hello []))"
        "snd (snd (stream_via_sdk asks_again (desk\<lparr>ra_long := True, ra_rounds := 2\<rparr>) hello []))"]
    by simp
qed

lemma streamed_text_is_not_repeated_witness:
  "case stream_remote desk_net asks_again (\<lambda>q. Inr (200, [''data: hi''], None)) [] desk hello signed of
     (qs, chunks, x) \<Rightarrow> if filter is_post qs = [] then True else concat (map (round_text False asks_again) (filter is_sdk qs)) = []"
proof -
  obtain qs chunks x where e: "stream_remote desk_net asks_again (\<lambda>q. Inr (200, [''data: hi''], None)) [] desk hello signed = (qs, chunks, x)"
    by (metis prod.exhaust)
  have "\<not> ra_long desk" by (simp add: desk_def new_remote_def Let_def)
  then show ?thesis using streamed_text_is_not_repeated [OF e] by (simp add: e split: if_splits)
qed

text \<open>An app's name is also inferred from a configured address; then an app of that name in another workspace is trusted.\<close>

lemma inferred_name_is_trusted:
  "trusted_origin ''https://desk-9876543210.aws.databricksapps.com''
     (ra_card_url (new_remote ''https://desk-1234567890.aws.databricksapps.com'' None [] False 4))
     (ra_app (new_remote ''https://desk-1234567890.aws.databricksapps.com'' None [] False 4)) = Some True"
  by code_simp

end
