(* ===== verification/Graph_Guarantees.thy ===== *)
theory Graph_Guarantees
  imports Composition_Graph
begin

text \<open>
  What the compiled graphs guarantee: bounded loops and hand-offs, isolated branches, sequences that stop where
  they say, escalate instead of failing and end in time, and output contracts that hold for what is published.
\<close>

subsection \<open>Turns of loops and hand-offs\<close>

definition turn_names :: "hook list \<Rightarrow> string list" where
  "turn_names hs = List.map_filter (\<lambda>h. case h of Turn n \<Rightarrow> Some n | _ \<Rightarrow> None) hs"

lemma turn_names_simps [simp]:
  "turn_names [] = []"
  "turn_names (xs @ ys) = turn_names xs @ turn_names ys"
  "turn_names [Turn n] = [n]"
  "turn_names [LeafRun a] = []" "turn_names [BeforeHook a] = []" "turn_names [AfterHook a b] = []"
  by (simp_all add: turn_names_def map_filter_def)

text \<open>A node that takes no turn of its own.\<close>

definition quiet :: "node \<Rightarrow> bool" where
  "quiet nd \<longleftrightarrow> (\<forall>now s t r. nd now s = Ends t (Inr r) \<longrightarrow> turn_names (g_log r) = turn_names (g_log s))"

definition returns :: "node \<Rightarrow> bool" where
  "returns nd \<longleftrightarrow> (\<forall>now s. nd now s \<noteq> Hangs)"

text \<open>The models and the remote peers answer or fail, eventually.\<close>

definition engine_returns :: "engine \<Rightarrow> bool" where
  "engine_returns e \<longleftrightarrow> (\<forall>sp now ms st. e_llm e sp now ms st \<noteq> Hangs) \<and> (\<forall>b now ms. e_remote e b now ms \<noteq> Hangs)"

lemma quietD: "quiet nd \<Longrightarrow> nd now s = Ends t (Inr r) \<Longrightarrow> turn_names (g_log r) = turn_names (g_log s)"
  by (auto simp: quiet_def)

lemma bind_Hangs: "bind_outcome x k = Hangs \<longleftrightarrow> x = Hangs \<or> (\<exists>t y. x = Ends t (Inr y) \<and> k t y = Hangs)"
  by (cases "(x, k)" rule: bind_outcome.cases) auto

lemma bind_not_Hangs: "x \<noteq> Hangs \<Longrightarrow> (\<And>t y. k t y \<noteq> Hangs) \<Longrightarrow> bind_outcome x k \<noteq> Hangs"
  by (simp add: bind_Hangs)

lemma compile_llm_quiet: "compile_llm e lf bake extra = Inr nd \<Longrightarrow> quiet nd"
  by (auto simp: compile_llm_def quiet_def bind_outcome_Ends add_log_def split: if_splits)

lemma compile_llm_returns: "compile_llm e lf bake extra = Inr nd \<Longrightarrow> engine_returns e \<Longrightarrow> returns nd"
  by (auto simp: compile_llm_def returns_def engine_returns_def bind_Hangs split: if_splits)

lemma compile_remote_Ends:
  assumes "compile_remote e lf b now s = Ends t (Inr r)"
  shows "\<exists>m. r = add_log (LeafRun (lf_name lf)) (s\<lparr>g_messages := e_append e (g_messages s) [m]\<rparr>)"
proof -
  from assms obtain u y where "(case remote_reply b (g_messages s) y of
      Inl x \<Rightarrow> Ends u (Inl x)
    | Inr m \<Rightarrow> Ends u (Inr (add_log (LeafRun (lf_name lf)) (s\<lparr>g_messages := e_append e (g_messages s) [m]\<rparr>)))) = Ends t (Inr r)"
    unfolding compile_remote_def bind_outcome_Ends by blast
  then show ?thesis by (cases "remote_reply b (g_messages s) y") auto
qed

lemma compile_remote_quiet: "quiet (compile_remote e lf b)"
  unfolding quiet_def by (auto dest!: compile_remote_Ends simp: add_log_def)

lemma map_result_Hangs [simp]: "map_result f x = Hangs \<longleftrightarrow> x = Hangs"
  by (cases x) auto

lemma compile_remote_returns: "engine_returns e \<Longrightarrow> returns (compile_remote e lf b)"
  unfolding returns_def compile_remote_def engine_returns_def
  by (auto simp: bind_Hangs split: sum.splits)

lemma publish_node_quiet: "quiet nd \<Longrightarrow> quiet (publish_node e nd)"
  by (auto simp: quiet_def publish_node_def publish_def bind_outcome_Ends)

lemma publish_node_returns: "returns nd \<Longrightarrow> returns (publish_node e nd)"
  by (auto simp: returns_def publish_node_def bind_Hangs)

lemma scrubbed_node_quiet: "quiet nd \<Longrightarrow> quiet (scrubbed_node e n nd)"
  by (subst quiet_def) (auto simp: scrubbed_node_def Let_def bind_outcome_Ends dest: quietD)

lemma scrubbed_node_returns: "returns nd \<Longrightarrow> returns (scrubbed_node e n nd)"
  by (auto simp: returns_def scrubbed_node_def Let_def bind_Hangs)

lemma loop_turns:
  assumes "quiet body"
  shows "run_loop e body cap i now s = Ends t (Inr r) \<Longrightarrow>
    \<exists>k. turn_names (g_log r) = turn_names (g_log s) @ replicate k ''agent'' \<and> 1 \<le> k \<and> int k \<le> max 1 (cap - i)
      \<and> (int k = max 1 (cap - i) \<or> last_ai_tool_call (g_messages r) = Some finish_tool_name)"
proof (induction "nat (cap - i)" arbitrary: i now s rule: less_induct)
  case less
  have q: "quiet (publish_node e body)" using assms by (rule publish_node_quiet)
  from less.prems obtain u z where b: "publish_node e body now (add_log (Turn ''agent'') s) = Ends u (Inr z)"
    and rest: "(if cap \<le> i + 1 then Ends u (Inr z)
              else if last_ai_tool_call (g_messages z) = Some finish_tool_name then Ends u (Inr z)
              else run_loop e body cap (i + 1) u z) = Ends t (Inr r)"
    by (subst (asm) run_loop.simps) (auto simp: bind_outcome_Ends)
  from quietD [OF q b] have z: "turn_names (g_log z) = turn_names (g_log s) @ [''agent'']" by (simp add: add_log_def)
  show ?case
  proof (cases "cap \<le> i + 1 \<or> last_ai_tool_call (g_messages z) = Some finish_tool_name")
    case True
    with rest have "z = r" by (auto split: if_splits)
    with z True show ?thesis by (intro exI [of _ 1]) auto
  next
    case False
    with rest have "run_loop e body cap (i + 1) u z = Ends t (Inr r)" by simp
    moreover from False have "nat (cap - (i + 1)) < nat (cap - i)" by simp
    ultimately obtain k where "turn_names (g_log r) = turn_names (g_log z) @ replicate k ''agent''"
        "1 \<le> k" "int k \<le> max 1 (cap - (i + 1))"
        "int k = max 1 (cap - (i + 1)) \<or> last_ai_tool_call (g_messages r) = Some finish_tool_name"
      using less.hyps by blast
    with z False show ?thesis by (intro exI [of _ "Suc k"]) (auto simp: max_def split: if_splits)
  qed
qed

lemma handoff_turns:
  assumes "\<forall>nd \<in> snd ` set members. quiet nd" and "current \<in> fst ` set members"
  shows "run_handoff e members cap i current now s = Ends t (Inr r) \<Longrightarrow>
    \<exists>ns. turn_names (g_log r) = turn_names (g_log s) @ current # ns \<and> set ns \<subseteq> fst ` set members
       \<and> int (length ns) \<le> max 0 (cap - i)"
  using assms(2)
proof (induction "nat (cap - i)" arbitrary: i current now s rule: less_induct)
  case less
  from less.prems(2) obtain nd where nd: "dget members current = Some nd"
    by (metis dget_None_iff option.exhaust)
  then have "nd \<in> snd ` set members" by (force dest: map_of_SomeD)
  with assms(1) have q: "quiet nd" by blast
  from less.prems(1) nd obtain u z where b: "nd now (add_log (Turn current) s) = Ends u (Inr z)"
    and rest: "(if cap + 1 \<le> i + 1 then Ends u (Inr z)
       else case handoff_target (map fst members) (g_messages z) of None \<Rightarrow> Ends u (Inr z)
         | Some target \<Rightarrow> run_handoff e members cap (i + 1) target u z) = Ends t (Inr r)"
    by (subst (asm) run_handoff.simps) (auto simp: bind_outcome_Ends)
  from quietD [OF q b] have z: "turn_names (g_log z) = turn_names (g_log s) @ [current]" by (simp add: add_log_def)
  show ?case
  proof (cases "cap + 1 \<le> i + 1 \<or> handoff_target (map fst members) (g_messages z) = None")
    case True
    with rest have "z = r" by (auto split: if_splits)
    with z show ?thesis by (intro exI [of _ "[]"]) simp
  next
    case False
    then obtain target where t: "handoff_target (map fst members) (g_messages z) = Some target" by auto
    then have "target \<in> fst ` set members" by (auto simp: handoff_target_def split: option.splits if_splits)
    moreover from False rest t have "run_handoff e members cap (i + 1) target u z = Ends t (Inr r)" by simp
    moreover from False have "nat (cap - (i + 1)) < nat (cap - i)" by simp
    ultimately obtain ns where "turn_names (g_log r) = turn_names (g_log z) @ target # ns"
        "set ns \<subseteq> fst ` set members" "int (length ns) \<le> max 0 (cap - (i + 1))"
      using less.hyps by blast
    with z False \<open>target \<in> fst ` set members\<close> show ?thesis
      by (intro exI [of _ "target # ns"]) (simp add: max_def split: if_splits)
  qed
qed

lemma handoff_returns:
  assumes "\<forall>nd \<in> snd ` set members. returns nd"
  shows "run_handoff e members cap i current now s \<noteq> Hangs"
proof (induction "nat (cap - i)" arbitrary: i current now s rule: less_induct)
  case less
  show ?case
  proof (cases "dget members current")
    case None
    then show ?thesis by (subst run_handoff.simps) simp
  next
    case (Some nd)
    then have "nd \<in> snd ` set members" by (force dest: map_of_SomeD)
    with assms have b: "nd now (add_log (Turn current) s) \<noteq> Hangs" by (auto simp: returns_def)
    show ?thesis
      by (subst run_handoff.simps) (simp add: Some, rule bind_not_Hangs [OF b], use less.hyps in \<open>auto split: option.splits\<close>)
  qed
qed

lemma compile_members_nodes:
  "compile_members e c names start ms = Inr nodes \<Longrightarrow>
     map fst nodes = map fst ms \<and> (\<forall>nd \<in> snd ` set nodes. quiet nd) \<and> (engine_returns e \<longrightarrow> (\<forall>nd \<in> snd ` set nodes. returns nd))"
proof (induction ms arbitrary: nodes)
  case Nil
  then show ?case by simp
next
  case (Cons p ms)
  obtain n lf where p: "p = (n, lf)" by (cases p)
  from Cons.prems obtain nd nds where nodes: "nodes = (n, nd) # nds" and rest: "compile_members e c names start ms = Inr nds"
    and nd: "(case dget (cx_bindings c) n of
                   Some b \<Rightarrow> Inr (publish_node e (compile_remote e lf b))
                 | None \<Rightarrow>
                     (case compile_llm e lf True (handoff_tools names n) of
                        Inl x \<Rightarrow> Inl x
                      | Inr nd \<Rightarrow> Inr (if n = start then publish_node e nd else scrubbed_node e n nd))) = Inr nd"
    by (auto simp: p split: if_splits sum.splits)
  have "quiet nd \<and> (engine_returns e \<longrightarrow> returns nd)"
  proof (cases "dget (cx_bindings c) n")
    case None
    with nd obtain b where b: "compile_llm e lf True (handoff_tools names n) = Inr b"
      and "nd = (if n = start then publish_node e b else scrubbed_node e n b)"
      by (auto split: sum.splits)
    with compile_llm_quiet [OF b] compile_llm_returns [OF b] show ?thesis
      by (simp add: publish_node_quiet publish_node_returns scrubbed_node_quiet scrubbed_node_returns)
  next
    case (Some b)
    with nd show ?thesis
      by (auto intro: publish_node_quiet compile_remote_quiet publish_node_returns compile_remote_returns)
  qed
  with Cons.IH [OF rest] show ?case by (simp add: nodes p)
qed

text \<open>Every run of a model with its tools, and every answer of a peer, ends within \<open>d\<close> seconds.\<close>

definition ends_by :: "real \<Rightarrow> 'a outcome \<Rightarrow> bool" where
  "ends_by limit x = (case x of Hangs \<Rightarrow> False | Ends t r \<Rightarrow> t \<le> limit)"

definition engine_within :: "engine \<Rightarrow> real \<Rightarrow> bool" where
  "engine_within e d \<longleftrightarrow> (\<forall>sp now ms st. ends_by (now + d) (e_llm e sp now ms st)) \<and> (\<forall>b now ms. ends_by (now + d) (e_remote e b now ms))"

definition node_within :: "node \<Rightarrow> real \<Rightarrow> bool" where
  "node_within nd d \<longleftrightarrow> (\<forall>now s. ends_by (now + d) (nd now s))"

lemma ends_by_bind: "ends_by l x \<Longrightarrow> (\<And>t y. t \<le> l \<Longrightarrow> ends_by l (k t y)) \<Longrightarrow> ends_by l (bind_outcome x k)"
  by (cases "(x, k)" rule: bind_outcome.cases) (auto simp: ends_by_def)

lemma ends_by_map [simp]: "ends_by l (map_result f x) = ends_by l x"
  by (cases x) (simp_all add: ends_by_def)

lemma ends_by_Ends [simp]: "ends_by l (Ends t r) \<longleftrightarrow> t \<le> l"
  by (simp add: ends_by_def)

lemma ends_byE: assumes "ends_by l x" obtains t r where "x = Ends t r" "t \<le> l"
  using assms by (cases x) (auto simp: ends_by_def)

lemma publish_node_within: "node_within nd d \<Longrightarrow> node_within (publish_node e nd) d"
  by (auto simp: node_within_def publish_node_def intro!: ends_by_bind)

lemma compile_llm_within: "compile_llm e lf bake extra = Inr nd \<Longrightarrow> engine_within e d \<Longrightarrow> node_within nd d"
  by (auto simp: compile_llm_def node_within_def engine_within_def intro!: ends_by_bind split: if_splits)

lemma compile_remote_within: "engine_within e d \<Longrightarrow> node_within (compile_remote e lf b) d"
  by (auto simp: compile_remote_def node_within_def engine_within_def intro!: ends_by_bind split: sum.split)

lemma loop_time:
  assumes "node_within body d" and "0 \<le> d"
  shows "ends_by (now + d * real_of_int (max 1 (cap - i))) (run_loop e body cap i now s)"
proof (induction "nat (cap - i)" arbitrary: i now s rule: less_induct)
  case less
  have b: "ends_by (now + d) (publish_node e body now (add_log (Turn ''agent'') s))"
    using publish_node_within [OF assms(1)] by (simp add: node_within_def)
  then obtain u res where u: "publish_node e body now (add_log (Turn ''agent'') s) = Ends u res" "u \<le> now + d" by (rule ends_byE)
  have one: "now + d \<le> now + d * real_of_int (max 1 (cap - i))" using assms(2) mult_left_mono [of 1 "real_of_int (max 1 (cap - i))" d] by simp
  show ?case
  proof (cases "cap \<le> i + 1 \<or> (\<exists>x. res = Inl x) \<or> (\<exists>r. res = Inr r \<and> last_ai_tool_call (g_messages r) = Some finish_tool_name)")
    case True
    with u one show ?thesis by (subst run_loop.simps) (cases res; auto)
  next
    case False
    then obtain r where r: "res = Inr r" by (cases res) auto
    have "ends_by (u + d * real_of_int (max 1 (cap - (i + 1)))) (run_loop e body cap (i + 1) u r)"
      by (rule less.hyps) (use False in simp)
    moreover have "u + d * real_of_int (max 1 (cap - (i + 1))) \<le> now + d * real_of_int (max 1 (cap - i))"
    proof -
      have "max 1 (cap - i) = max 1 (cap - (i + 1)) + 1" using False by simp
      then have "d * real_of_int (max 1 (cap - i)) = d * real_of_int (max 1 (cap - (i + 1))) + d" by (simp add: algebra_simps)
      with u(2) show ?thesis by simp
    qed
    ultimately have "ends_by (now + d * real_of_int (max 1 (cap - i))) (run_loop e body cap (i + 1) u r)"
      by (cases "run_loop e body cap (i + 1) u r") (auto simp: ends_by_def)
    with False r u(1) show ?thesis by (subst run_loop.simps) simp
  qed
qed

lemma within_returns: "engine_within e d \<Longrightarrow> engine_returns e"
  unfolding engine_within_def engine_returns_def ends_by_def by (metis outcome.simps(4))

text \<open>A concrete runtime: messages keep their identity, the model is a script, nothing is remote.\<close>

definition append_new :: "msg list \<Rightarrow> msg list \<Rightarrow> msg list" where
  "append_new xs ys = xs @ filter (\<lambda>m. m_ref m \<notin> m_ref ` set xs) ys"

definition scripted_engine :: "(llm_spec \<Rightarrow> msg list \<Rightarrow> msg list) \<Rightarrow> engine" where
  "scripted_engine script =
     \<lparr>e_append = append_new, e_llm = (\<lambda>sp now ms st. Ends (now + 1) (Inr (ms @ script sp ms, st))),
      e_remote = (\<lambda>b now ms. Ends now (Inl (OtherExn ''unreachable''))),
      e_route = (\<lambda>p ts now ms. Ends now (Inr [])), e_dumps = (\<lambda>v. ''json''), e_packet_dumps = (\<lambda>v. ''packet''),
      e_show = (\<lambda>v. ''value'')\<rparr>"

definition plain_leaf :: "string \<Rightarrow> leaf" where
  "plain_leaf name =
     \<lparr>lf_name = Some name, lf_description = None, lf_instructions = '''', lf_tools = [], lf_max_iterations = None,
      lf_schema = None, lf_schema_text = '''', lf_input = None, lf_prepares = False, lf_output_tool = None,
      lf_output_key = None, lf_status_path = None, lf_message_path = None, lf_replies_path = None,
      lf_timeout = None, lf_in_guards = [], lf_out_guards = [], lf_before = None, lf_after = None\<rparr>"

definition plain_ctx :: compile_ctx where
  "plain_ctx = \<lparr>cx_bindings = [], cx_escalate = False, cx_path = []\<rparr>"

definition user_state :: "string \<Rightarrow> gstate" where
  "user_state t = \<lparr>g_messages = [plain_msg [] HumanRole t], g_state = [], g_escalation = None, g_evidence = [], g_log = []\<rparr>"

lemma scripted_returns: "engine_returns (scripted_engine script)"
  by (simp add: engine_returns_def scripted_engine_def)

lemma scripted_within: "engine_within (scripted_engine script) 1"
  by (simp add: engine_within_def scripted_engine_def)

lemma compile_loop_body:
  assumes "compile_any e c (Loop lf cap) = Inr nd"
  shows "\<exists>body. nd = (\<lambda>now s. run_loop e body cap 0 now s) \<and> quiet body \<and> (engine_within e d \<longrightarrow> node_within body d)"
proof -
  from assms have l: "compile_loop e c lf cap = Inr nd" by (auto split: if_splits)
  show ?thesis
  proof (cases "leaf_binding c lf")
    case None
    with l obtain body where b: "compile_llm e lf True [finish_tool_name] = Inr body"
      and "nd = (\<lambda>now s. run_loop e body cap 0 now s)"
      by (auto simp: compile_loop_def split: if_splits sum.splits)
    with compile_llm_quiet [OF b] compile_llm_within [OF b] show ?thesis by blast
  next
    case (Some b)
    with l have "nd = (\<lambda>now s. run_loop e (compile_remote e lf b) cap 0 now s)"
      by (auto simp: compile_loop_def split: if_splits)
    then show ?thesis using compile_remote_quiet compile_remote_within by blast
  qed
qed

text \<open>
  C2:
  A compiled loop over models and peers that each answer or fail within \<open>d\<close> seconds always ends, within \<open>d\<close> seconds for
  each of \<open>max(1, max_iterations)\<close> turns, whether it succeeds or fails.  When it succeeds it has made at least one and at
  most \<open>max(1, max_iterations)\<close> turns of its body, and if fewer, the last tool call of the conversation is
  \<open>finish_loop\<close>.\<close>

theorem loop_ends_within_its_cap:
  assumes "compile_any e c (Loop lf cap) = Inr nd" and "engine_within e d" and "0 \<le> d"
  shows "\<exists>t res. nd now s = Ends t res \<and> t \<le> now + d * real_of_int (max 1 cap) \<and>
    (\<forall>r. res = Inr r \<longrightarrow>
      (\<exists>k. turn_names (g_log r) = turn_names (g_log s) @ replicate k ''agent'' \<and> 1 \<le> k \<and> int k \<le> max 1 cap
         \<and> (int k = max 1 cap \<or> last_ai_tool_call (g_messages r) = Some finish_tool_name)))"
proof -
  from compile_loop_body [OF assms(1), of d] assms(2) obtain body where
    nd: "nd = (\<lambda>now s. run_loop e body cap 0 now s)" and body: "quiet body" "node_within body d" by blast
  from loop_time [OF body(2) assms(3), of now cap 0 e s] obtain t res
    where r: "nd now s = Ends t res" and t: "t \<le> now + d * real_of_int (max 1 cap)"
    unfolding nd by (auto elim: ends_byE)
  show ?thesis
  proof (rule exI [of _ t], rule exI [of _ res], rule conjI [OF r], rule conjI [OF t], intro allI impI)
    fix r' assume "res = Inr r'"
    with r nd have "run_loop e body cap 0 now s = Ends t (Inr r')" by simp
    from loop_turns [OF body(1) this]
    show "\<exists>k. turn_names (g_log r') = turn_names (g_log s) @ replicate k ''agent'' \<and> 1 \<le> k \<and> int k \<le> max 1 cap
         \<and> (int k = max 1 cap \<or> last_ai_tool_call (g_messages r') = Some finish_tool_name)" by simp
  qed
qed

theorem loop_ends_within_its_cap_witness:
  "\<exists>nd t res. compile_any (scripted_engine (\<lambda>sp ms. [])) plain_ctx (Loop (plain_leaf ''writer'') 3) = Inr nd
     \<and> nd 0 (user_state ''draft'') = Ends t res \<and> t \<le> 3"
proof -
  have "\<exists>nd. compile_any (scripted_engine (\<lambda>sp ms. [])) plain_ctx (Loop (plain_leaf ''writer'') 3) = Inr nd"
    by (simp add: plain_ctx_def plain_leaf_def refused_policy_def compile_loop_def typed_leaf_def leaf_binding_def compile_llm_def)
  then obtain nd where nd: "compile_any (scripted_engine (\<lambda>sp ms. [])) plain_ctx (Loop (plain_leaf ''writer'') 3) = Inr nd" by blast
  from loop_ends_within_its_cap [OF nd scripted_within, of 0 "user_state ''draft''"] nd show ?thesis by auto
qed

text \<open>
  A compiled hand-off whose start is a member always ends when models and peers answer or fail.  Its turns begin
  with the start agent, every later turn is taken by a member, and there are at most \<open>max_handoffs\<close> of them.\<close>

theorem handoff_ends_within_its_cap:
  assumes "compile_any e c (Handoff ms start cap) = Inr nd" and "start \<in> fst ` set ms" and "engine_returns e"
  shows "\<exists>t res. nd now s = Ends t res \<and>
    (\<forall>r. res = Inr r \<longrightarrow>
      (\<exists>ns. turn_names (g_log r) = turn_names (g_log s) @ start # ns \<and> set ns \<subseteq> fst ` set ms
         \<and> int (length ns) \<le> max 0 cap))"
proof -
  from assms(1) obtain nodes where m: "compile_members e c (map fst ms) start ms = Inr nodes"
    and nd: "nd = (\<lambda>now s. run_handoff e nodes cap 0 start now s)"
    by (auto simp: compile_handoff_def split: if_splits sum.splits)
  from compile_members_nodes [OF m] assms(3) have names: "map fst nodes = map fst ms"
    and q: "\<forall>nd \<in> snd ` set nodes. quiet nd" and ret: "\<forall>nd \<in> snd ` set nodes. returns nd" by auto
  have set: "fst ` set nodes = fst ` set ms" using names by (metis list.set_map)
  from handoff_returns [OF ret] obtain t res where r: "nd now s = Ends t res"
    unfolding nd by (metis outcome.exhaust)
  show ?thesis
  proof (rule exI [of _ t], rule exI [of _ res], rule conjI [OF r], intro allI impI)
    fix r' assume "res = Inr r'"
    with r nd have "run_handoff e nodes cap 0 start now s = Ends t (Inr r')" by simp
    from handoff_turns [OF q _ this] assms(2)
    show "\<exists>ns. turn_names (g_log r') = turn_names (g_log s) @ start # ns \<and> set ns \<subseteq> fst ` set ms
         \<and> int (length ns) \<le> max 0 cap" by (simp add: set)
  qed
qed

theorem handoff_ends_within_its_cap_witness:
  "\<exists>nd t res. compile_any (scripted_engine (\<lambda>sp ms. [])) plain_ctx
       (Handoff [(''triage'', plain_leaf ''triage''), (''billing'', plain_leaf ''billing'')] ''triage'' 5) = Inr nd
     \<and> nd 0 (user_state ''refund'') = Ends t res"
proof -
  let ?ms = "[(''triage'', plain_leaf ''triage''), (''billing'', plain_leaf ''billing'')]"
  have "\<exists>nd. compile_any (scripted_engine (\<lambda>sp ms. [])) plain_ctx (Handoff ?ms ''triage'' 5) = Inr nd"
    by (simp add: plain_ctx_def plain_leaf_def refused_policy_def compile_handoff_def typed_leaf_def compile_llm_def handoff_tools_def)
  then obtain nd where nd: "compile_any (scripted_engine (\<lambda>sp ms. [])) plain_ctx (Handoff ?ms ''triage'' 5) = Inr nd" by blast
  from handoff_ends_within_its_cap [OF nd _ scripted_returns, of 0 "user_state ''refund''"] nd show ?thesis by auto
qed

subsection \<open>Answering a hand-off does not end it\<close>

lemma find_append: "find P (xs @ ys) = (case find P xs of None \<Rightarrow> find P ys | Some x \<Rightarrow> Some x)"
  by (induction xs) auto

lemma last_call_plain:
  assumes "\<forall>m \<in> set new. m_calls m = []"
  shows "last_ai_tool_call (ms @ new) = last_ai_tool_call ms"
proof -
  have "find (\<lambda>m. is_ai m \<and> m_calls m \<noteq> []) (rev new) = None"
    unfolding find_None_iff using assms by auto
  then show ?thesis by (simp add: last_ai_tool_call_def find_append)
qed

text \<open>A member that answers: it appends messages that call no tool.\<close>

definition answers :: "node \<Rightarrow> bool" where
  "answers nd \<longleftrightarrow>
     (\<forall>now s. \<exists>t r new. nd now s = Ends t (Inr r) \<and> g_messages r = g_messages s @ new
        \<and> (\<forall>m \<in> set new. m_calls m = []) \<and> turn_names (g_log r) = turn_names (g_log s))"

lemma answers_repeat:
  assumes "dget members b = Some nd" and "answers nd"
  shows "last_ai_tool_call (g_messages s) = Some (transfer_prefix @ b) \<Longrightarrow>
    \<exists>t r. run_handoff e members cap i b now s = Ends t (Inr r)
      \<and> turn_names (g_log r) = turn_names (g_log s) @ replicate (Suc (nat (cap - i))) b"
proof (induction "nat (cap - i)" arbitrary: i now s rule: less_induct)
  case less
  from assms(2) obtain t r new where r: "nd now (add_log (Turn b) s) = Ends t (Inr r)"
      "g_messages r = g_messages s @ new" "\<forall>m \<in> set new. m_calls m = []"
      "turn_names (g_log r) = turn_names (g_log s) @ [b]"
    unfolding answers_def by (fastforce simp: add_log_def)
  from last_call_plain [OF r(3)] r(2) less.prems
  have call: "last_ai_tool_call (g_messages r) = Some (transfer_prefix @ b)" by simp
  from assms(1) have "b \<in> fst ` set members" by (force dest: map_of_SomeD)
  with call have target: "handoff_target (map fst members) (g_messages r) = Some b"
    by (simp add: handoff_target_def)
  show ?case
  proof (cases "cap \<le> i")
    case True
    with r assms(1) show ?thesis by (subst run_handoff.simps) simp
  next
    case False
    then have "nat (cap - (i + 1)) < nat (cap - i)" by simp
    from less.hyps [OF this call, of t] obtain u q where
      q: "run_handoff e members cap (i + 1) b t r = Ends u (Inr q)"
        "turn_names (g_log q) = turn_names (g_log r) @ replicate (Suc (nat (cap - (i + 1)))) b" by blast
    from False have "Suc (nat (cap - (i + 1))) = nat (cap - i)" by simp
    with q r assms(1) target False show ?thesis by (subst run_handoff.simps) simp
  qed
qed

text \<open>A member that was handed the conversation and answers it with messages that call no tool is run again, until the
  cap: the router keeps reading the transfer call that brought it here, so with \<open>max_handoffs = n\<close> one hand-off
  is answered n times.\<close>

theorem answered_handoff_runs_again:
  assumes "dget members b = Some nd" and "answers nd"
    and "last_ai_tool_call (g_messages s) = Some (transfer_prefix @ b)"
  shows "\<exists>t r. run_handoff e members cap 1 b now s = Ends t (Inr r)
      \<and> turn_names (g_log r) = turn_names (g_log s) @ replicate (Suc (nat (cap - 1))) b"
  by (rule answers_repeat [OF assms])

theorem answered_handoff_runs_again_witness:
  "\<exists>t r. run_handoff (scripted_engine (\<lambda>sp ms. [])) [(''billing'', \<lambda>now s. Ends now (Inr s))] 5 1 ''billing'' 0
       ((user_state ''refund'')\<lparr>g_messages := [(plain_msg [] AIRole '''')\<lparr>m_calls := [\<lparr>tc_name = ''transfer_to_billing'', tc_id = ''1''\<rparr>]\<rparr>]\<rparr>)
     = Ends t (Inr r) \<and> turn_names (g_log r) = replicate 5 ''billing''"
proof -
  let ?s = "(user_state ''refund'')\<lparr>g_messages := [(plain_msg [] AIRole '''')\<lparr>m_calls := [\<lparr>tc_name = ''transfer_to_billing'', tc_id = ''1''\<rparr>]\<rparr>]\<rparr>"
  have "last_ai_tool_call (g_messages ?s) = Some (transfer_prefix @ ''billing'')"
    by (simp add: last_ai_tool_call_def transfer_prefix_def plain_msg_def)
  moreover have "answers (\<lambda>now s. Ends now (Inr s))" by (simp add: answers_def)
  ultimately show ?thesis
    using answered_handoff_runs_again [of "[(''billing'', \<lambda>now s. Ends now (Inr s))]" "''billing''" _ ?s "scripted_engine (\<lambda>sp ms. [])" 5 0]
    by (simp add: user_state_def numeral_eq_Suc)
qed

subsection \<open>Guardrails\<close>

lemma compile_llm_guards [simp]:
  "compile_llm e (lf\<lparr>lf_in_guards := gs, lf_out_guards := hs\<rparr>) bake extra = compile_llm e lf bake extra"
proof -
  have "recursion_limit (lf\<lparr>lf_in_guards := gs, lf_out_guards := hs\<rparr>) = recursion_limit lf"
    by (cases "lf_max_iterations lf") (simp_all add: recursion_limit_def)
  then have "llm_spec_of (lf\<lparr>lf_in_guards := gs, lf_out_guards := hs\<rparr>) bake extra = llm_spec_of lf bake extra"
    by (simp add: llm_spec_of_def)
  then show ?thesis by (simp add: compile_llm_def)
qed

lemma compile_remote_guards [simp]:
  "compile_remote e (lf\<lparr>lf_in_guards := gs, lf_out_guards := hs\<rparr>) b = compile_remote e lf b"
proof -
  have "lf_name (lf\<lparr>lf_in_guards := gs, lf_out_guards := hs\<rparr>) = lf_name lf" by simp
  then show ?thesis by (intro ext) (unfold compile_remote_def, simp only:)
qed

lemma compile_members_guards:
  "compile_members e c names start (map (\<lambda>(n, lf). (n, lf\<lparr>lf_in_guards := gs, lf_out_guards := hs\<rparr>)) ms)
   = compile_members e c names start ms"
proof (induction ms)
  case (Cons p ms)
  obtain n lf where p: "p = (n, lf)" by (cases p)
  have t: "typed_leaf (lf\<lparr>lf_in_guards := gs, lf_out_guards := hs\<rparr>) = typed_leaf lf" by (simp add: typed_leaf_def)
  show ?case
    unfolding p list.map prod.case compile_members.simps t compile_llm_guards compile_remote_guards Cons.IH ..
qed simp

text \<open>Guardrails declared on the body of a loop or on the members of a hand-off have no effect: the compiled graph is the
  same whatever they are.\<close>

theorem loop_and_handoff_skip_guardrails:
  "compile_any e c (Loop (lf\<lparr>lf_in_guards := gs, lf_out_guards := hs\<rparr>) cap) = compile_any e c (Loop lf cap)
   \<and> compile_any e c (Handoff (map (\<lambda>(n, lf). (n, lf\<lparr>lf_in_guards := gs, lf_out_guards := hs\<rparr>)) ms) start cap)
     = compile_any e c (Handoff ms start cap)"
proof
  show "compile_any e c (Loop (lf\<lparr>lf_in_guards := gs, lf_out_guards := hs\<rparr>) cap) = compile_any e c (Loop lf cap)"
  proof -
    have l: "typed_leaf (lf\<lparr>lf_in_guards := gs, lf_out_guards := hs\<rparr>) = typed_leaf lf"
      "leaf_binding c (lf\<lparr>lf_in_guards := gs, lf_out_guards := hs\<rparr>) = leaf_binding c lf"
      by (simp_all add: typed_leaf_def leaf_binding_def)
    have t: "has_step_policy (Loop (lf\<lparr>lf_in_guards := gs, lf_out_guards := hs\<rparr>) cap) = has_step_policy (Loop lf cap)" by simp
    show ?thesis
      unfolding compile_any.simps refused_policy_def t compile_loop_def l compile_llm_guards compile_remote_guards ..
  qed
  have f: "map fst (map (\<lambda>(n, lf). (n, lf\<lparr>lf_in_guards := gs, lf_out_guards := hs\<rparr>)) ms) = map fst ms"
    by (induction ms) auto
  have p: "has_step_policy (Handoff (map (\<lambda>(n, lf). (n, lf\<lparr>lf_in_guards := gs, lf_out_guards := hs\<rparr>)) ms) start cap)
      = has_step_policy (Handoff ms start cap)"
    by (induction ms) auto
  show "compile_any e c (Handoff (map (\<lambda>(n, lf). (n, lf\<lparr>lf_in_guards := gs, lf_out_guards := hs\<rparr>)) ms) start cap)
     = compile_any e c (Handoff ms start cap)"
    by (simp only: compile_any.simps refused_policy_def p compile_handoff_def f compile_members_guards)
qed

definition leaf_runs :: "hook list \<Rightarrow> nat" where
  "leaf_runs hs = length (filter (\<lambda>h. case h of LeafRun n \<Rightarrow> True | _ \<Rightarrow> False) hs)"

lemma is_wrapped_guards: "first_some (lf_in_guards lf) ms = Some r \<Longrightarrow> is_wrapped c lf"
  by (cases "lf_in_guards lf") (auto simp: is_wrapped_def needs_node_wrap_def)

lemma wrapped_leaf:
  assumes "compile_any e c (Leaf lf) = Inr nd" and "is_wrapped c lf"
  shows "\<exists>runnable. nd = wrap_agent_node e c lf (has_template lf) runnable
    \<and> (runnable = compile_remote e lf (the (leaf_binding c lf))
       \<or> compile_llm e lf (\<not> has_template lf \<and> \<not> typed_leaf lf) [] = Inr runnable) \<and> \<not> lf_prepares lf"
  using assms by (auto simp: compile_leaf_def split: if_splits option.splits sum.splits)

lemma wrap_instant:
  assumes "leaf_node e c lf templated runnable now s = Ends now res"
    and "\<forall>tm. lf_timeout lf = Some tm \<longrightarrow> 0 < tm"
  shows "wrap_agent_node e c lf templated runnable now s = Ends now res"
  using assms
  by (auto simp: wrap_agent_node_def invoke_with_timeout_def effective_deadline_def Let_def split: option.splits sum.splits)

text \<open>
  C4:
  When an input guardrail of an agent answers and nothing before it fails, no model and no peer is called: an untyped
  agent appends the guardrail's text as its answer and leaves the keyed state alone, a typed one fails its contract
  with an error that never escalates.\<close>

theorem rejected_input_reaches_no_model:
  assumes "compile_any e c (Leaf lf) = Inr nd" and "first_some (lf_in_guards lf) (g_messages s) = Some reply"
    and "input_error lf (g_state s) = None" and "invoke_callback (lf_before lf) (g_messages s) = None"
    and "\<forall>tm. lf_timeout lf = Some tm \<longrightarrow> 0 < tm"
  shows "\<exists>res. nd now s = Ends now res
    \<and> (typed_leaf lf \<longrightarrow> (\<exists>x. res = Inl x \<and> escalation_of x = None))
    \<and> (\<not> typed_leaf lf \<longrightarrow> (\<exists>r m. res = Inr r \<and> m_role m = AIRole \<and> m_text m = reply
         \<and> g_messages r = e_append e (g_messages s) [m] \<and> g_state r = g_state s \<and> leaf_runs (g_log r) = leaf_runs (g_log s)))"
proof -
  from wrapped_leaf [OF assms(1) is_wrapped_guards [OF assms(2)]] obtain runnable where
    nd: "nd = wrap_agent_node e c lf (has_template lf) runnable" and p: "\<not> lf_prepares lf" by blast
  define s0 where "s0 = (if lf_before lf = None then s else add_log (BeforeHook (lf_name lf)) s)"
  have s0: "g_messages s0 = g_messages s" "g_state s0 = g_state s" "leaf_runs (g_log s0) = leaf_runs (g_log s)"
    by (simp_all add: s0_def add_log_def leaf_runs_def)
  show ?thesis
  proof (cases "typed_leaf lf")
    case True
    then have "leaf_node e c lf (has_template lf) runnable now s = Ends now (Inl (output_invalid lf [''input_guardrail'']))"
      by (simp add: leaf_node_def p assms Let_def)
    from wrap_instant [OF this assms(5)] True show ?thesis
      by (simp add: nd output_invalid_def escalation_of_def)
  next
    case False
    then have "leaf_node e c lf (has_template lf) runnable now s
        = Ends now (Inr (s0\<lparr>g_messages := e_append e (g_messages s) [plain_msg (g_messages s) AIRole reply]\<rparr>))"
      by (simp add: leaf_node_def p assms Let_def s0_def)
    from wrap_instant [OF this assms(5)] False s0 show ?thesis
      by (simp add: nd) (rule exI [of _ "plain_msg (g_messages s) AIRole reply"], simp)
  qed
qed

theorem rejected_input_reaches_no_model_witness:
  "\<exists>nd r. compile_any (scripted_engine (\<lambda>sp ms. [])) plain_ctx (Leaf ((plain_leaf ''desk'')\<lparr>lf_in_guards := [\<lambda>ms. Some ''no'']\<rparr>)) = Inr nd
     \<and> nd 0 (user_state ''hi'') = Ends 0 (Inr r) \<and> leaf_runs (g_log r) = 0"
proof -
  let ?lf = "(plain_leaf ''desk'')\<lparr>lf_in_guards := [\<lambda>ms. Some ''no'']\<rparr>"
  let ?e = "scripted_engine (\<lambda>sp ms. [])"
  have "\<exists>nd. compile_any ?e plain_ctx (Leaf ?lf) = Inr nd"
    by (simp add: compile_leaf_def plain_leaf_def plain_ctx_def leaf_binding_def compile_llm_def)
  then obtain nd where nd: "compile_any ?e plain_ctx (Leaf ?lf) = Inr nd" by blast
  have "\<not> typed_leaf ?lf" "leaf_runs (g_log (user_state ''hi'')) = 0"
    by (simp_all add: typed_leaf_def plain_leaf_def user_state_def leaf_runs_def)
  with rejected_input_reaches_no_model [OF nd, of "user_state ''hi''" "''no''" 0] nd show ?thesis
    by (auto simp: plain_leaf_def input_error_def invoke_callback_def)
qed

subsection \<open>Typed output\<close>

definition engine_dicts :: "engine \<Rightarrow> bool" where
  "engine_dicts e \<longleftrightarrow>
     (\<forall>sp now ms st t ms' st'. dict_wf st \<longrightarrow> e_llm e sp now ms st = Ends t (Inr (ms', st')) \<longrightarrow> dict_wf st')"

lemma runnable_dicts:
  assumes "runnable = compile_remote e lf b \<or> compile_llm e lf bake [] = Inr runnable"
    and "engine_dicts e" and "dict_wf (g_state s)" and "runnable now s = Ends t (Inr r)"
  shows "dict_wf (g_state r)"
  using assms(1)
proof
  assume "runnable = compile_remote e lf b"
  with assms(4) have "compile_remote e lf b now s = Ends t (Inr r)" by (simp only:)
  from compile_remote_Ends [OF this] assms(3) show ?thesis by (auto simp: add_log_def)
next
  assume "compile_llm e lf bake [] = Inr runnable"
  with assms(4) obtain ms st where "e_llm e (llm_spec_of lf bake []) now (g_messages s) (g_state s) = Ends t (Inr (ms, st))"
      "g_state r = st"
    by (auto simp: compile_llm_def bind_outcome_Ends add_log_def split: if_splits)
  with assms(2,3) show ?thesis by (auto simp: engine_dicts_def)
qed

lemma typed_answer_valid:
  assumes "typed_answer e lf a = Inr (a', v)" and "lf_schema lf = Some validate"
  shows "\<exists>text. validate text = Inr v"
  using assms by (auto simp: typed_answer_def typed_payload_def split: sum.splits option.splits if_splits)

lemma typed_after_model:
  assumes "after_model e c lf s new inner = Inr r" and "lf_schema lf = Some validate" and "g_escalation r = None"
  shows "\<exists>a v text. validate text = Inr v \<and> finish_node e c lf s inner a v = Inr r
     \<and> (\<exists>gt. first_some (lf_out_guards lf) gt = None)"
proof -
  have typed: "typed_leaf lf" using assms(2) by (simp add: typed_leaf_def)
  from assms(1) typed obtain a where a: "first_some (lf_out_guards lf) (guard_text e lf a) = None"
      "settle_answer e c lf s inner a = Inr r"
    by (auto simp: after_model_def split: sum.splits option.splits)
  from a(2) assms(3) have "(case typed_answer e lf a of
      Inl x \<Rightarrow> Inl x | Inr (a', payload) \<Rightarrow> finish_node e c lf s inner a' payload) = Inr r"
    by (auto simp: settle_answer_def Let_def split: option.splits sum.splits if_splits)
  then obtain a' v where v: "typed_answer e lf a = Inr (a', v)" "finish_node e c lf s inner a' v = Inr r"
    by (auto split: sum.splits)
  with typed_answer_valid [OF v(1) assms(2)] a(1) show ?thesis by blast
qed

lemma dget_merge_own:
  assumes "dict_wf inner" and "nonempty_key (lf_output_key lf)"
  shows "dget (merge_state (Some st) (Some (node_state lf inner v))) (the (lf_output_key lf)) = Some v"
  using assms by (simp add: merge_state_def node_state_def dget_dict_update dict_simps)

text \<open>
  C3:
  What a typed agent publishes is validated: when a compiled agent with an output schema succeeds without an
  escalation, some text passed its strict validation, the validated data is what its output key and its evidence
  hold, and no guardrail had answered.\<close>

theorem typed_output_is_validated:
  assumes "compile_any e c (Leaf lf) = Inr nd" and "lf_schema lf = Some validate"
    and "nd now s = Ends t (Inr r)" and "g_escalation r = None" and "engine_dicts e" and "dict_wf (g_state s)"
  shows "\<exists>text v. validate text = Inr v
    \<and> (nonempty_key (lf_output_key lf) \<longrightarrow> dget (g_state r) (the (lf_output_key lf)) = Some v)
    \<and> (cx_path c \<noteq> [] \<longrightarrow> g_evidence r = g_evidence s @ [\<lparr>ev_step = cx_path c, ev_key = lf_output_key lf, ev_data = v\<rparr>])
    \<and> first_some (lf_in_guards lf) (g_messages s) = None \<and> (\<exists>shown. first_some (lf_out_guards lf) shown = None)"
proof -
  have typed: "typed_leaf lf" and w: "is_wrapped c lf"
    using assms(2) by (simp_all add: typed_leaf_def is_wrapped_def needs_node_wrap_def)
  from wrapped_leaf [OF assms(1) w] obtain runnable where
    nd: "nd = wrap_agent_node e c lf (has_template lf) runnable" and p: "\<not> lf_prepares lf"
    and run: "runnable = compile_remote e lf (the (leaf_binding c lf))
       \<or> compile_llm e lf (\<not> has_template lf \<and> \<not> typed_leaf lf) [] = Inr runnable" by blast
  have "leaf_node e c lf (has_template lf) runnable now s = Ends t (Inr r)"
  proof (cases "lf_timeout lf")
    case None
    with assms(3) show ?thesis by (simp add: nd wrap_agent_node_def)
  next
    case (Some tm)
    with assms(3) have "invoke_with_timeout (leaf_node e c lf (has_template lf) runnable) s None (Some tm) now = Ends t (Inr r)"
      by (simp add: nd wrap_agent_node_def)
    then have i: "invoke_with_timeout (leaf_node e c lf (has_template lf) runnable) s None (Some tm) now = Ends t (Inr r)" .
    have "effective_deadline None (Some tm) now = Some (now + tm)" by (simp add: effective_deadline_def)
    from invoke_result [OF this i] show ?thesis by (rule conjunct1)
  qed
  then have pass: "first_some (lf_in_guards lf) (g_messages s) = None"
    and bind: "bind_outcome (runnable now ((if lf_before lf = None then s else add_log (BeforeHook (lf_name lf)) s)
        \<lparr>g_messages := inner_messages e lf (has_template lf) (g_state s) (g_messages s)\<rparr>))
      (\<lambda>u q. Ends u (after_model e c lf ((if lf_before lf = None then s else add_log (BeforeHook (lf_name lf)) s)\<lparr>g_log := g_log q\<rparr>)
        (drop (length (inner_messages e lf (has_template lf) (g_state s) (g_messages s))) (g_messages q)) (g_state q)))
      = Ends t (Inr r)"
    using typed p by (auto simp: leaf_node_def Let_def split: option.splits)
  define s0 where "s0 = (if lf_before lf = None then s else add_log (BeforeHook (lf_name lf)) s)"
  have s0: "g_state s0 = g_state s" "g_evidence s0 = g_evidence s" by (simp_all add: s0_def add_log_def)
  from bind obtain q new where q: "runnable now (s0\<lparr>g_messages := inner_messages e lf (has_template lf) (g_state s) (g_messages s)\<rparr>) = Ends t (Inr q)"
    and after: "after_model e c lf (s0\<lparr>g_log := g_log q\<rparr>) new (g_state q) = Inr r"
    unfolding s0_def [symmetric] by (auto simp: bind_outcome_Ends)
  have wf: "dict_wf (g_state q)"
    by (rule runnable_dicts [OF run assms(5) _ q]) (simp add: s0 assms(6))
  from typed_after_model [OF after assms(2,4)] obtain a v shown where v: "validate shown = Inr v"
      "finish_node e c lf (s0\<lparr>g_log := g_log q\<rparr>) (g_state q) a v = Inr r" "\<exists>gt. first_some (lf_out_guards lf) gt = None"
    by blast
  from v(2) have "g_state r = merge_state (Some (g_state s)) (Some (node_state lf (g_state q) v))"
    "cx_path c \<noteq> [] \<longrightarrow> g_evidence r = g_evidence s @ [\<lparr>ev_step = cx_path c, ev_key = lf_output_key lf, ev_data = v\<rparr>]"
    using typed by (auto simp: finish_node_def s0 split: option.splits)
  with dget_merge_own [OF wf] v pass show ?thesis by auto
qed

definition answer_engine :: engine where
  "answer_engine = scripted_engine (\<lambda>sp ms. [plain_msg ms AIRole ''7''])"

lemmas leaf_eval = compile_leaf_def plain_leaf_def plain_ctx_def leaf_binding_def compile_llm_def is_wrapped_def needs_node_wrap_def
  has_template_def typed_leaf_def wrap_agent_node_def leaf_node_def Let_def invoke_callback_def input_error_def inner_messages_def
  answer_engine_def scripted_engine_def llm_spec_of_def recursion_limit_def add_log_def after_model_def leaf_answer_def
  last_ai_def plain_msg_def fresh_ref_def guard_text_def settle_answer_def typed_answer_def typed_payload_def
  finish_node_def node_state_def nonempty_key_def replace_msg_def typed_message_def user_state_def newline_def

theorem typed_output_is_validated_witness:
  "\<exists>nd t r. compile_any answer_engine plain_ctx
       (Leaf ((plain_leaf ''scorer'')\<lparr>lf_schema := Some (\<lambda>t. Inr (PInt (int (length t)))), lf_output_key := Some ''score''\<rparr>)) = Inr nd
     \<and> nd 0 (user_state ''go'') = Ends t (Inr r) \<and> (\<exists>n. dget (g_state r) ''score'' = Some (PInt n))"
proof -
  let ?lf = "(plain_leaf ''scorer'')\<lparr>lf_schema := Some (\<lambda>t. Inr (PInt (int (length t)))), lf_output_key := Some ''score''\<rparr>"
  have "\<exists>nd t r. compile_any answer_engine plain_ctx (Leaf ?lf) = Inr nd \<and> nd 0 (user_state ''go'') = Ends t (Inr r) \<and> g_escalation r = None"
    by (simp add: leaf_eval)
  then obtain nd t r where nd: "compile_any answer_engine plain_ctx (Leaf ?lf) = Inr nd"
    and r: "nd 0 (user_state ''go'') = Ends t (Inr r)" "g_escalation r = None" by blast
  have d: "engine_dicts answer_engine" by (simp add: engine_dicts_def answer_engine_def scripted_engine_def)
  have w: "dict_wf (g_state (user_state ''go''))" by (simp add: user_state_def)
  have s: "lf_schema ?lf = Some (\<lambda>t. Inr (PInt (int (length t))))" by simp
  from typed_output_is_validated [OF nd s r d w] obtain n where "dget (g_state r) ''score'' = Some (PInt n)"
    by (auto simp: nonempty_key_def)
  with nd r show ?thesis by blast
qed

subsection \<open>Steps start on a user turn\<close>

text \<open>The message channel's documented reducer: new messages are appended, known ones are not repeated.\<close>

definition channel_law :: "engine \<Rightarrow> bool" where
  "channel_law e \<longleftrightarrow>
     (\<forall>xs ys. (\<forall>y \<in> set ys. m_ref y \<notin> m_ref ` set xs) \<longrightarrow>
        e_append e xs ys = xs @ ys \<and> e_append e xs (xs @ ys) = xs @ ys)"

lemma append_fresh: "channel_law e \<Longrightarrow> e_append e ms [plain_msg ms r t] = ms @ [plain_msg ms r t]"
proof -
  assume l: "channel_law e"
  have "\<forall>y \<in> set [plain_msg ms r t]. m_ref y \<notin> m_ref ` set ms"
    using plain_msg_new [of _ ms r t] by (metis imageE list.set_intros(1) list.simps(15) set_ConsD empty_iff empty_set)
  with l show ?thesis unfolding channel_law_def by blast
qed

lemma append_new_law:
  assumes "\<forall>y \<in> set ys. m_ref y \<notin> m_ref ` set xs"
  shows "append_new xs ys = xs @ ys" and "append_new xs (xs @ ys) = xs @ ys"
proof -
  have k: "filter (\<lambda>m. m_ref m \<notin> m_ref ` set xs) ys = ys" using assms by (simp add: filter_id_conv)
  have x: "filter (\<lambda>m. m_ref m \<notin> m_ref ` set xs) xs = []" by (simp add: filter_empty_conv)
  from k show "append_new xs ys = xs @ ys" by (simp add: append_new_def)
  from k x show "append_new xs (xs @ ys) = xs @ ys" by (simp add: append_new_def)
qed

lemma scripted_channel: "channel_law (scripted_engine script)"
  using append_new_law by (simp add: channel_law_def scripted_engine_def)

definition ends_on_ai :: "msg list \<Rightarrow> bool" where
  "ends_on_ai ms \<longleftrightarrow> ms \<noteq> [] \<and> is_ai (last ms)"

lemma continue_ends_on_user:
  assumes "channel_law e"
  shows "\<not> ends_on_ai (g_messages (continue_step e s))"
proof (cases "ends_on_ai (g_messages s)")
  case True
  then have "sequential_continuation (g_messages s) = [plain_msg (g_messages s) HumanRole sequential_continuation_text]"
    by (simp add: sequential_continuation_def ends_on_ai_def)
  then show ?thesis by (simp add: continue_step_def append_fresh [OF assms] ends_on_ai_def)
next
  case False
  then have "sequential_continuation (g_messages s) = []" by (auto simp: sequential_continuation_def ends_on_ai_def)
  with False show ?thesis by (simp add: continue_step_def)
qed

text \<open>A step that refuses a conversation ending with an assistant message, as prefill-strict endpoints do.\<close>

definition strict_step :: "seq_step \<Rightarrow> seq_step" where
  "strict_step st = st\<lparr>st_node := (\<lambda>now s. if ends_on_ai (g_messages s) then Ends now (Inl (OtherExn ''prefill'')) else st_node st now s)\<rparr>"

lemma strict_step_sel [simp]: "st_halted (strict_step st) = st_halted st" "st_emit (strict_step st) = st_emit st"
  "step_halts (strict_step st) = step_halts st"
  "st_node (strict_step st) now s = (if ends_on_ai (g_messages s) then Ends now (Inl (OtherExn ''prefill'')) else st_node st now s)"
  by (simp_all add: strict_step_def step_halts_def fun_eq_iff)

lemma strict_head:
  "\<not> ends_on_ai (g_messages s) \<Longrightarrow> run_sequence e p (strict_step st # rest) now s = run_sequence e p (st # rest) now s"
proof -
  assume "\<not> ends_on_ai (g_messages s)"
  then have n: "st_node (strict_step st) now s = st_node st now s" by simp
  show ?thesis
  proof (cases rest)
    case Nil
    show ?thesis unfolding Nil run_sequence.simps n strict_step_sel(1,2) ..
  next
    case (Cons nx more)
    show ?thesis unfolding Cons run_sequence.simps n strict_step_sel(1,2,3) ..
  qed
qed

lemma strict_rest:
  assumes "channel_law e"
  shows "run_sequence e p (st # map strict_step rest) now s = run_sequence e p (st # rest) now s"
proof (induction rest arbitrary: st now s)
  case (Cons nx rest)
  have "run_sequence e p (strict_step nx # map strict_step rest) t (continue_step e r)
      = run_sequence e p (nx # rest) t (continue_step e r)" for t r
    using strict_head [OF continue_ends_on_user [OF assms]] Cons.IH by metis
  then show ?case unfolding list.map run_sequence.simps by (simp only:)
qed simp

text \<open>
  Between two steps of a sequence the conversation is made to end with a user turn: replacing every step but the first
  by one that refuses to start on an assistant message changes nothing.\<close>

theorem steps_start_on_a_user_turn:
  assumes "channel_law e"
  shows "run_sequence e protected (st # map strict_step rest) now s = run_sequence e protected (st # rest) now s"
  by (rule strict_rest [OF assms])

definition answer_step :: seq_step where
  "answer_step = \<lparr>st_node = (\<lambda>now s. Ends now (Inr (s\<lparr>g_messages := g_messages s @ [plain_msg (g_messages s) AIRole ''7'']\<rparr>))),
     st_halted = None, st_emit = None\<rparr>"

theorem steps_start_on_a_user_turn_witness:
  "run_sequence answer_engine False [answer_step, strict_step answer_step] 0 (user_state ''go'')
   = run_sequence answer_engine False [answer_step, answer_step] 0 (user_state ''go'')"
  using steps_start_on_a_user_turn
    [OF scripted_channel, of "\<lambda>sp ms. [plain_msg ms AIRole ''7'']" False answer_step "[answer_step]" 0 "user_state ''go''"]
  by (simp add: answer_engine_def)

subsection \<open>Parallel branches are isolated\<close>

lemma fan_in_length: "fan_in os now = Some (t, mss, lgs) \<Longrightarrow> length mss = length os"
  by (induction os now arbitrary: t mss lgs rule: fan_in.induct) auto

lemma fan_in_nth:
  "fan_in os now = Some (t, mss, lgs) \<Longrightarrow> i < length os \<Longrightarrow> \<exists>u lg. os ! i = Ends u (Inr (mss ! i, lg))"
proof (induction os now arbitrary: t mss lgs i rule: fan_in.induct)
  case (2 u ms lg os now)
  then show ?case by (cases i) auto
qed auto

lemma compile_branches_length: "compile_branches e c i as = Inr nodes \<Longrightarrow> length nodes = length as"
  by (induction as arbitrary: nodes) (auto split: sum.splits)

text \<open>
  A parallel composition runs every branch from its own input - at most one system message and the last user turn -
  and its keyed state; what the branches return is only their new messages, merged in the order of the branches, and
  the keyed state, the evidence and the escalation of the composition are as before.\<close>

theorem branches_are_isolated:
  assumes "compile_any e c (Parallel instructions as) = Inr nd" and "nd now s = Ends t (Inr r)"
  shows "\<exists>branches mss. compile_branches e c instructions as = Inr branches \<and> length mss = length as
    \<and> g_messages r = fold (\<lambda>ms acc. e_append e acc ms) mss (g_messages s)
    \<and> g_state r = g_state s \<and> g_evidence r = g_evidence s \<and> g_escalation r = g_escalation s
    \<and> (\<forall>i < length as. \<exists>u lg. branch_node (fst (branches ! i)) (snd (branches ! i)) now s = Ends u (Inr (mss ! i, lg))
         \<and> length (branch_input (fst (branches ! i)) (g_messages s)) \<le> 2
         \<and> (\<forall>m \<in> set (branch_input (fst (branches ! i)) (g_messages s)). is_system m \<or> last_human (g_messages s) = Some m)
         \<and> (\<forall>m \<in> set (mss ! i). m_ref m \<notin> m_ref ` set (branch_input (fst (branches ! i)) (g_messages s))))"
proof -
  from assms(1) obtain nodes where b: "compile_branches e c instructions as = Inr nodes" and nd: "nd = run_parallel e nodes"
    by (auto split: if_splits sum.splits)
  let ?os = "map (\<lambda>(sys, nd). branch_node sys nd now s) nodes"
  from assms(2) obtain mss lgs where f: "fan_in ?os now = Some (t, mss, lgs)"
    and r: "r = s\<lparr>g_messages := fold (\<lambda>ms acc. e_append e acc ms) mss (g_messages s), g_log := g_log s @ lgs\<rparr>"
    by (auto simp: nd run_parallel_def Let_def split: option.splits prod.splits)
  have len: "length nodes = length as" using b by (rule compile_branches_length)
  have small: "length (branch_input sys ms) \<le> 2 \<and> (\<forall>m \<in> set (branch_input sys ms). is_system m \<or> last_human ms = Some m)"
    for sys ms by (auto simp: branch_input_def isolate_branch_input_def split: option.splits)
  show ?thesis
  proof (intro exI [of _ nodes] exI [of _ mss] conjI allI impI)
    show "length mss = length as" using fan_in_length [OF f] len by simp
    fix i assume i: "i < length as"
    from fan_in_nth [OF f, of i] i len obtain u lg where
      n: "branch_node (fst (nodes ! i)) (snd (nodes ! i)) now s = Ends u (Inr (mss ! i, lg))" by (auto split: prod.splits)
    then obtain q :: gstate where "new_messages (branch_input (fst (nodes ! i)) (g_messages s)) (g_messages q) = mss ! i"
      by (auto simp: branch_node_def Let_def bind_outcome_Ends)
    then have "\<forall>m \<in> set (mss ! i). m_ref m \<notin> m_ref ` set (branch_input (fst (nodes ! i)) (g_messages s))"
      by (auto simp: new_messages_def dest!: sym [of _ "mss ! i"])
    with n small show "\<exists>u lg. branch_node (fst (nodes ! i)) (snd (nodes ! i)) now s = Ends u (Inr (mss ! i, lg))
         \<and> length (branch_input (fst (nodes ! i)) (g_messages s)) \<le> 2
         \<and> (\<forall>m \<in> set (branch_input (fst (nodes ! i)) (g_messages s)). is_system m \<or> last_human (g_messages s) = Some m)
         \<and> (\<forall>m \<in> set (mss ! i). m_ref m \<notin> m_ref ` set (branch_input (fst (nodes ! i)) (g_messages s)))"
      by blast
  qed (use b r len in auto)
qed

lemmas parallel_eval = refused_policy_def compile_branch_leaf_def static_system_def branch_leaf_instructions_def
  run_parallel_def branch_node_def branch_input_def isolate_branch_input_def last_human_def join_lines_def strip_def strip_by_def
  new_messages_def append_new_def agent_name_def

theorem branches_are_isolated_witness:
  "\<exists>nd t r mss. compile_any answer_engine plain_ctx (Parallel '''' [Leaf (plain_leaf ''a''), Leaf (plain_leaf ''b'')]) = Inr nd
     \<and> nd 0 (user_state ''go'') = Ends t (Inr r) \<and> length mss = 2
     \<and> g_messages r = fold (\<lambda>ms acc. e_append answer_engine acc ms) mss (g_messages (user_state ''go''))"
proof -
  let ?as = "[Leaf (plain_leaf ''a''), Leaf (plain_leaf ''b'')]"
  have "\<exists>nd t r. compile_any answer_engine plain_ctx (Parallel '''' ?as) = Inr nd \<and> nd 0 (user_state ''go'') = Ends t (Inr r)"
    by (simp add: leaf_eval parallel_eval)
  then obtain nd t r where nd: "compile_any answer_engine plain_ctx (Parallel '''' ?as) = Inr nd"
    and r: "nd 0 (user_state ''go'') = Ends t (Inr r)" by blast
  have two: "length ?as = 2" by simp
  have "\<exists>mss. length mss = 2
      \<and> g_messages r = fold (\<lambda>ms acc. e_append answer_engine acc ms) mss (g_messages (user_state ''go''))"
    using branches_are_isolated [OF nd r, unfolded two] by (elim exE conjE) (rule exI, rule conjI, assumption, assumption)
  with nd r show ?thesis by blast
qed

subsection \<open>Timed sequences end\<close>

definition timed_node :: "real \<Rightarrow> node \<Rightarrow> bool" where
  "timed_node tm nd \<longleftrightarrow> (\<forall>now s. \<exists>t r. nd now s = Ends t r \<and> t \<le> now + tm)"

lemma wrap_timed:
  assumes "lf_timeout lf = Some tm" and "0 < tm"
  shows "timed_node tm (wrap_agent_node e c lf templated runnable)"
  unfolding timed_node_def
proof (intro allI)
  fix now s
  have d: "effective_deadline None (Some tm) now = Some (now + tm)" by (simp add: effective_deadline_def)
  from invoke_ends [OF d, of "leaf_node e c lf templated runnable" s] obtain t r where
    "invoke_with_timeout (leaf_node e c lf templated runnable) s None (Some tm) now = Ends t r" "t \<le> max now (now + tm)"
    by blast
  with assms show "\<exists>t r. wrap_agent_node e c lf templated runnable now s = Ends t r \<and> t \<le> now + tm"
    by (auto simp: wrap_agent_node_def max_def split: if_splits)
qed

lemma compile_leaf_timed:
  assumes "compile_leaf e c lf = Inr nd" and "lf_timeout lf = Some tm" and "0 < tm"
  shows "timed_node tm nd"
proof -
  have "is_wrapped c lf" using assms(2) by (simp add: is_wrapped_def)
  moreover have "compile_any e c (Leaf lf) = Inr nd" using assms(1) by simp
  ultimately show ?thesis using wrapped_leaf wrap_timed [OF assms(2,3)] by blast
qed

lemma step_node_timed: "timed_node tm nd \<Longrightarrow> timed_node tm (step_node e instr esc path nd)"
  unfolding timed_node_def
proof (intro allI)
  fix now s
  assume "\<forall>now s. \<exists>t r. nd now s = Ends t r \<and> t \<le> now + tm"
  then obtain t r where r: "nd now (s\<lparr>g_messages := (if instr = '''' then g_messages s
      else plain_msg (g_messages s) SystemRole instr # g_messages s)\<rparr>) = Ends t r" "t \<le> now + tm" by blast
  then show "\<exists>t r. step_node e instr esc path nd now s = Ends t r \<and> t \<le> now + tm"
    by (cases r) (auto simp: step_node_def Let_def split: option.splits)
qed

text \<open>The compiled steps of a sequence of agents, each with the name and the agent it came from.\<close>

lemma compile_steps_leaves:
  "compile_steps e c True path names (map Leaf lfs) = Inr nodes \<Longrightarrow> length lfs \<le> length names \<Longrightarrow>
     length nodes = length lfs
     \<and> (\<forall>i < length lfs. compile_leaf e (c\<lparr>cx_path := path @ [names ! i]\<rparr>) (lfs ! i) = Inr (nodes ! i))"
proof (induction lfs arbitrary: names nodes)
  case (Cons lf lfs)
  then obtain n ns where names: "names = n # ns" by (cases names) auto
  from Cons.prems(1) obtain nd nds where nd: "compile_leaf e (c\<lparr>cx_path := path @ [n]\<rparr>) lf = Inr nd"
    and rest: "compile_steps e c True path ns (map Leaf lfs) = Inr nds" and nodes: "nodes = nd # nds"
    by (auto simp: names split: sum.splits)
  from Cons.IH [OF rest] Cons.prems(2) names
  have "length nds = length lfs" "\<forall>i < length lfs. compile_leaf e (c\<lparr>cx_path := path @ [ns ! i]\<rparr>) (lfs ! i) = Inr (nds ! i)"
    by auto
  with nd show ?case by (auto simp: nodes names nth_Cons split: nat.splits)
qed simp

lemma length_node_names: "length (node_names prefix i taken as) = length taken + length as"
  by (induction as arbitrary: i taken) (simp_all add: Let_def)

lemma compiled_sequence:
  assumes "compile_any e c (Sequential opts (map Leaf lfs)) = Inr nd"
    and "has_step_policy (Sequential opts (map Leaf lfs)) \<or> cx_escalate c" and "cx_path c = []"
  shows "\<exists>nodes. nd = sequence_node e False True (map Leaf lfs)
       (sequence_steps e opts (cx_escalate c \<or> sq_escalate opts) True
          [if nonempty_key (sq_name opts) then the (sq_name opts) else ''sequence'']
          (node_names ''step_'' 0 [] (map Leaf lfs)) (map Leaf lfs) nodes)
     \<and> length nodes = length lfs
     \<and> (\<forall>i < length lfs. compile_leaf e (c\<lparr>cx_escalate := cx_escalate c \<or> sq_escalate opts,
            cx_path := [if nonempty_key (sq_name opts) then the (sq_name opts) else ''sequence''] @ [node_names ''step_'' 0 [] (map Leaf lfs) ! i]\<rparr>)
          (lfs ! i) = Inr (nodes ! i))"
proof -
  let ?esc = "cx_escalate c \<or> sq_escalate opts"
  let ?path = "[if nonempty_key (sq_name opts) then the (sq_name opts) else ''sequence'']"
  let ?names = "node_names ''step_'' 0 [] (map Leaf lfs)"
  have prot: "(cx_escalate c \<or> sq_escalate opts) \<or> has_step_policy (Sequential opts (map Leaf lfs))" using assms(2) by auto
  from assms(1) obtain nodes where nodes: "compile_steps e (c\<lparr>cx_escalate := ?esc\<rparr>) True ?path ?names (map Leaf lfs) = Inr nodes"
    and nd: "nd = sequence_node e False True (map Leaf lfs) (sequence_steps e opts ?esc True ?path ?names (map Leaf lfs) nodes)"
    unfolding compile_any.simps Let_def assms(3) using prot by (auto split: sum.splits if_splits)
  have "length lfs \<le> length ?names" by (simp add: length_node_names)
  from compile_steps_leaves [OF nodes this] nd show ?thesis by auto
qed

lemma sequence_steps_nth:
  assumes "length nodes = length as" and "length as \<le> length names" and "i < length as"
  shows "sequence_steps e opts esc True path names as nodes ! i
    = \<lparr>st_node = step_node e (sq_instructions opts) esc (path @ [names ! i]) (nodes ! i),
       st_halted = halt_check (as ! i) (sq_halts opts), st_emit = halt_message (as ! i)\<rparr>"
  using assms by (simp add: sequence_steps_def)

lemma length_sequence_steps:
  "length nodes = length as \<Longrightarrow> length as \<le> length names \<Longrightarrow> length (sequence_steps e opts esc p path names as nodes) = length as"
  by (simp add: sequence_steps_def)

lemma run_sequence_timed:
  assumes "list_all2 (\<lambda>st tm. timed_node tm (st_node st) \<and> 0 < tm) steps tms"
  shows "\<exists>t r. run_sequence e p steps now s = Ends t r \<and> t \<le> now + sum_list tms"
  using assms
proof (induction e p steps now s arbitrary: tms rule: run_sequence.induct)
  case (1 e p now s)
  then show ?case by simp
next
  case (2 e p st now s)
  then obtain tm where tm: "tms = [tm]" and st: "timed_node tm (st_node st)" by (auto simp: list_all2_Cons1)
  from st obtain t r where "st_node st now s = Ends t r" "t \<le> now + tm" unfolding timed_node_def by blast
  then show ?case by (cases r) (auto simp: tm)
next
  case (3 e p st nx rest now s)
  then obtain tm ts where tm: "tms = tm # ts" and st: "timed_node tm (st_node st)" "0 < tm"
    and rest: "list_all2 (\<lambda>st tm. timed_node tm (st_node st) \<and> 0 < tm) (nx # rest) ts" by (auto simp: list_all2_Cons1)
  have pos: "0 \<le> sum_list ts"
    using rest by (intro sum_list_nonneg) (auto simp: list_all2_conv_all_nth in_set_conv_nth less_imp_le)
  from st obtain t r where r: "st_node st now s = Ends t r" "t \<le> now + tm" unfolding timed_node_def by blast
  show ?case
  proof (cases r)
    case (Inl x)
    with r pos show ?thesis by (simp add: tm)
  next
    case (Inr q)
    show ?thesis
    proof (cases "(p \<and> g_escalation q \<noteq> None) \<or> step_halts st q")
      case True
      with r Inr pos show ?thesis by (auto simp: tm)
    next
      case False
      then have "\<not> (p \<and> g_escalation q \<noteq> None)" "\<not> step_halts st q" by auto
      from "3.IH" [OF this rest] obtain u v where "run_sequence e p (nx # rest) t (continue_step e q) = Ends u v"
          "u \<le> t + sum_list ts" by blast
      with r Inr False show ?thesis by (auto simp: tm)
    qed
  qed
qed

lemma sum_list_drop: "\<forall>x \<in> set xs. (0::real) < x \<Longrightarrow> sum_list (drop n xs) \<le> sum_list xs"
proof -
  assume "\<forall>x \<in> set xs. (0::real) < x"
  then have "0 \<le> sum_list (take n xs)" by (intro sum_list_nonneg) (meson in_set_takeD less_imp_le)
  moreover have "sum_list xs = sum_list (take n xs) + sum_list (drop n xs)"
    by (metis append_take_drop_id sum_list_append)
  ultimately show ?thesis by simp
qed

text \<open>
  C6:
  A compiled sequence whose agents all declare a positive timeout always ends, within the sum of the timeouts,
  whatever the models, the tools and the peers do - also when they never answer.\<close>

theorem timed_sequence_ends_in_time:
  assumes "compile_any e c (Sequential opts (map Leaf lfs)) = Inr nd" and "cx_path c = []" and "lfs \<noteq> []"
    and "\<forall>lf \<in> set lfs. \<exists>tm. lf_timeout lf = Some tm \<and> 0 < tm"
  shows "\<exists>t res. nd now s = Ends t res \<and> t \<le> now + (\<Sum>lf\<leftarrow>lfs. the (lf_timeout lf))"
proof -
  let ?tms = "map (\<lambda>lf. the (lf_timeout lf)) lfs"
  from assms(3,4) have policy: "has_step_policy (Sequential opts (map Leaf lfs)) \<or> cx_escalate c"
    by (cases lfs) auto
  from compiled_sequence [OF assms(1) policy assms(2)] obtain nodes where
    nd: "nd = sequence_node e False True (map Leaf lfs)
       (sequence_steps e opts (cx_escalate c \<or> sq_escalate opts) True
          [if nonempty_key (sq_name opts) then the (sq_name opts) else ''sequence'']
          (node_names ''step_'' 0 [] (map Leaf lfs)) (map Leaf lfs) nodes)" (is "_ = sequence_node e False True _ ?steps")
    and len: "length nodes = length lfs"
    and leaves: "\<forall>i < length lfs. compile_leaf e (c\<lparr>cx_escalate := cx_escalate c \<or> sq_escalate opts,
            cx_path := [if nonempty_key (sq_name opts) then the (sq_name opts) else ''sequence''] @ [node_names ''step_'' 0 [] (map Leaf lfs) ! i]\<rparr>)
          (lfs ! i) = Inr (nodes ! i)" by blast
  have "list_all2 (\<lambda>st tm. timed_node tm (st_node st) \<and> 0 < tm) ?steps ?tms"
  proof (rule list_all2_all_nthI)
    show "length ?steps = length ?tms" by (simp add: length_sequence_steps len length_node_names)
    fix i assume "i < length ?steps"
    then have i: "i < length lfs" by (simp add: length_sequence_steps len length_node_names)
    from i assms(4) obtain tm where tm: "lf_timeout (lfs ! i) = Some tm" "0 < tm" by (meson nth_mem)
    with leaves i have "timed_node tm (nodes ! i)" by (blast intro: compile_leaf_timed)
    with i tm show "timed_node (?tms ! i) (st_node (?steps ! i)) \<and> 0 < ?tms ! i"
      by (simp add: sequence_steps_nth len length_node_names step_node_timed)
  qed
  then have "list_all2 (\<lambda>st tm. timed_node tm (st_node st) \<and> 0 < tm) (drop n ?steps) (drop n ?tms)" for n
    by (rule list_all2_dropI)
  then have run: "\<exists>t r. run_sequence e True (drop n ?steps) now s' = Ends t r \<and> t \<le> now + sum_list (drop n ?tms)" for n s'
    by (rule run_sequence_timed)
  obtain t res where "nd now s = Ends t res" "t \<le> now + sum_list (drop (entry_index (map Leaf lfs) (reset_sequence s)) ?tms)"
    using run [of "entry_index (map Leaf lfs) (reset_sequence s)" "reset_sequence s"]
    unfolding nd sequence_node_def Let_def by auto
  moreover have "sum_list (drop n ?tms) \<le> sum_list ?tms" for n
    by (rule sum_list_drop) (use assms(4) in auto)
  ultimately show ?thesis by (meson add_left_mono order_trans)
qed

text \<open>A model that never answers.\<close>

definition silent_engine :: engine where
  "silent_engine = (scripted_engine (\<lambda>sp ms. []))\<lparr>e_llm := (\<lambda>sp now ms st. Hangs)\<rparr>"

definition plain_seq :: seq_opts where
  "plain_seq = \<lparr>sq_name = Some ''pipeline'', sq_instructions = '''', sq_escalate = True, sq_halts = []\<rparr>"

lemmas sequence_eval = plain_seq_def agent_name_def unshown_message_def halt_check.simps

theorem timed_sequence_ends_in_time_witness:
  "\<exists>nd t res. compile_any silent_engine plain_ctx
       (Sequential plain_seq (map Leaf [(plain_leaf ''scan'')\<lparr>lf_timeout := Some 2\<rparr>, (plain_leaf ''report'')\<lparr>lf_timeout := Some 3\<rparr>])) = Inr nd
     \<and> nd 0 (user_state ''go'') = Ends t res \<and> t \<le> 5"
proof -
  let ?lfs = "[(plain_leaf ''scan'')\<lparr>lf_timeout := Some 2\<rparr>, (plain_leaf ''report'')\<lparr>lf_timeout := Some 3\<rparr>]"
  have "\<exists>nd. compile_any silent_engine plain_ctx (Sequential plain_seq (map Leaf ?lfs)) = Inr nd"
    by (simp add: sequence_eval compile_leaf_def plain_leaf_def plain_ctx_def leaf_binding_def compile_llm_def nonempty_key_def Let_def)
  then obtain nd where nd: "compile_any silent_engine plain_ctx (Sequential plain_seq (map Leaf ?lfs)) = Inr nd" by blast
  have "\<exists>t res. nd 0 (user_state ''go'') = Ends t res \<and> t \<le> 0 + (\<Sum>lf\<leftarrow>?lfs. the (lf_timeout lf))"
    by (rule timed_sequence_ends_in_time [OF nd]) (simp_all add: plain_ctx_def)
  with nd show ?thesis by auto
qed

subsection \<open>Escalation\<close>

text \<open>What an agent compiled in an escalating sequence leaves behind: its evidence, or a packet over the evidence so far.\<close>

lemma escalation_message_same: "escalation_message dumps ms p = Inr m \<Longrightarrow> pk_failed p \<noteq> []"
  by (auto simp: escalation_message_def packet_of_value split: if_splits)

lemma runnable_keeps:
  assumes "runnable = compile_remote e lf b \<or> compile_llm e lf bake [] = Inr runnable"
    and "runnable now s = Ends t (Inr r)"
  shows "g_evidence r = g_evidence s \<and> g_escalation r = g_escalation s"
  using assms(1)
proof
  assume "runnable = compile_remote e lf b"
  with assms(2) have "compile_remote e lf b now s = Ends t (Inr r)" by (simp only:)
  from compile_remote_Ends [OF this] show ?thesis by (auto simp: add_log_def)
next
  assume "compile_llm e lf bake [] = Inr runnable"
  with assms(2) show ?thesis by (auto simp: compile_llm_def bind_outcome_Ends add_log_def split: if_splits)
qed

definition leaf_evidence :: "string list \<Rightarrow> leaf \<Rightarrow> string list list" where
  "leaf_evidence path lf = (if typed_leaf lf then [path] else [])"

definition packet_extends :: "evidence list \<Rightarrow> string list \<Rightarrow> packet \<Rightarrow> bool" where
  "packet_extends ev path p \<longleftrightarrow>
     (\<exists>rest more. pk_failed p = path @ rest \<and> map ev_step (pk_evidence p) = map ev_step ev @ more)"

definition settled :: "string list \<Rightarrow> leaf \<Rightarrow> evidence list \<Rightarrow> gstate \<Rightarrow> bool" where
  "settled path lf ev r \<longleftrightarrow>
     (case g_escalation r of
        None \<Rightarrow> map ev_step (g_evidence r) = map ev_step ev @ leaf_evidence path lf
      | Some p \<Rightarrow> packet_extends ev path p)"

lemma after_model_settled:
  assumes "after_model e c lf s new inner = Inr r" and "cx_path c \<noteq> []" and "g_escalation s = None"
  shows "settled (cx_path c) lf (g_evidence s) r"
proof -
  from assms(1) obtain a where "leaf_answer lf new = Inr a"
    and a: "(case first_some (lf_out_guards lf) (guard_text e lf a) of
             Some r \<Rightarrow>
               if typed_leaf lf then Inl (output_invalid lf [''output_guardrail''])
               else Inr (s\<lparr>g_messages := e_append e (g_messages s) (replaced_answer a r)\<rparr>)
           | None \<Rightarrow> settle_answer e c lf s inner a) = Inr r"
    by (auto simp: after_model_def split: sum.splits)
  show ?thesis
  proof (cases "first_some (lf_out_guards lf) (guard_text e lf a)")
    case (Some x)
    with a assms(3) show ?thesis by (auto simp: settled_def leaf_evidence_def split: if_splits)
  next
    case None
    have finish: "settled (cx_path c) lf (g_evidence s) r" if "finish_node e c lf s inner a' v = Inr r" for a' v
      using that assms(2,3) by (auto simp: finish_node_def settled_def leaf_evidence_def split: option.splits)
    have contract: "settled (cx_path c) lf (g_evidence s) r"
      if "(case typed_answer e lf a of Inl x \<Rightarrow> Inl x | Inr (a', payload) \<Rightarrow> finish_node e c lf s inner a' payload) = Inr r"
      using that finish by (auto split: sum.splits)
    from a None have sa: "settle_answer e c lf s inner a = Inr r" by simp
    show ?thesis
    proof (cases "if cx_escalate c then an_last a else None")
      case None
      with sa contract show ?thesis unfolding settle_answer_def Let_def None option.case by blast
    next
      case (Some m)
      from sa have s: "(case get_escalation m of
          Inl x \<Rightarrow> Inl x
        | Inr (Some p) \<Rightarrow>
            (case escalation_message (e_packet_dumps e) (g_messages s) (nest_packet (cx_path c) (g_evidence s) p) of
               Inl x \<Rightarrow> Inl x
             | Inr em \<Rightarrow> Inr (s\<lparr>g_messages := e_append e (g_messages s) [em],
                  g_escalation := Some (nest_packet (cx_path c) (g_evidence s) p)\<rparr>))
        | Inr None \<Rightarrow> (case parts_unavailable (m_parts m) of Some x \<Rightarrow> Inl x | None \<Rightarrow>
            (case typed_answer e lf a of Inl x \<Rightarrow> Inl x | Inr (a', payload) \<Rightarrow> finish_node e c lf s inner a' payload))) = Inr r"
        unfolding settle_answer_def Let_def Some option.case .
      show ?thesis
      proof (cases "get_escalation m")
        case (Inl x)
        with s show ?thesis by simp
      next
        case (Inr q)
        show ?thesis
        proof (cases q)
          case None
          with s Inr contract show ?thesis by (auto split: option.splits)
        next
          case (Some p)
          with s Inr have "g_escalation r = Some (nest_packet (cx_path c) (g_evidence s) p)" by (auto split: sum.splits)
          then show ?thesis by (simp add: settled_def packet_extends_def nest_packet_def)
        qed
      qed
    qed
  qed
qed

lemma leaf_settled:
  assumes "compile_leaf e c lf = Inr nd" and "cx_escalate c" and "cx_path c \<noteq> []"
    and "g_escalation s = None" and "nd now s = Ends t (Inr r)"
  shows "settled (cx_path c) lf (g_evidence s) r"
proof -
  have w: "is_wrapped c lf" using assms(2) by (simp add: is_wrapped_def)
  have "compile_any e c (Leaf lf) = Inr nd" using assms(1) by simp
  from wrapped_leaf [OF this w] obtain runnable where
    nd: "nd = wrap_agent_node e c lf (has_template lf) runnable" and p: "\<not> lf_prepares lf"
    and run: "runnable = compile_remote e lf (the (leaf_binding c lf))
       \<or> compile_llm e lf (\<not> has_template lf \<and> \<not> typed_leaf lf) [] = Inr runnable" by blast
  have leaf: "leaf_node e c lf (has_template lf) runnable now s = Ends t (Inr r)"
  proof (cases "lf_timeout lf")
    case None
    with assms(5) show ?thesis by (simp add: nd wrap_agent_node_def)
  next
    case (Some tm)
    with assms(5) have i: "invoke_with_timeout (leaf_node e c lf (has_template lf) runnable) s None (Some tm) now = Ends t (Inr r)"
      by (simp add: nd wrap_agent_node_def)
    have "effective_deadline None (Some tm) now = Some (now + tm)" by (simp add: effective_deadline_def)
    from invoke_result [OF this i] show ?thesis by (rule conjunct1)
  qed
  define s0 where "s0 = (if lf_before lf = None then s else add_log (BeforeHook (lf_name lf)) s)"
  have s0: "g_evidence s0 = g_evidence s" "g_escalation s0 = None" using assms(4) by (simp_all add: s0_def add_log_def)
  show ?thesis
  proof (cases "first_some (lf_in_guards lf) (g_messages s)")
    case (Some x)
    with leaf p have "r = s0\<lparr>g_messages := e_append e (g_messages s) [plain_msg (g_messages s) AIRole x]\<rparr> \<and> \<not> typed_leaf lf"
      by (auto simp: leaf_node_def Let_def s0_def split: option.splits if_splits)
    with s0 show ?thesis by (auto simp: settled_def leaf_evidence_def)
  next
    case None
    with leaf p obtain q new where
      q: "runnable now (s0\<lparr>g_messages := inner_messages e lf (has_template lf) (g_state s) (g_messages s)\<rparr>) = Ends t (Inr q)"
      and after: "after_model e c lf (s0\<lparr>g_log := g_log q\<rparr>) new (g_state q) = Inr r"
      unfolding s0_def by (auto simp: leaf_node_def Let_def bind_outcome_Ends split: option.splits)
    have "g_escalation (s0\<lparr>g_log := g_log q\<rparr>) = None" using s0 by simp
    from after_model_settled [OF after assms(3) this] s0 show ?thesis by (simp add: settled_def packet_extends_def)
  qed
qed

lemma step_settled:
  assumes "compile_leaf e c lf = Inr nd" and "cx_escalate c" and "cx_path c \<noteq> []" and "g_escalation s = None"
    and "step_node e instr True (cx_path c) nd now s = Ends t (Inr r)"
  shows "settled (cx_path c) lf (g_evidence s) r"
proof -
  let ?ms = "if instr = '''' then g_messages s else plain_msg (g_messages s) SystemRole instr # g_messages s"
  have esc: "g_escalation r' = Some p \<and> True" if "escalate_step e p s' = Inr r'" for p s' r'
    using that by (auto simp: escalate_step_def split: sum.splits)
  show ?thesis
  proof (cases "nd now (s\<lparr>g_messages := ?ms\<rparr>)")
    case Hangs
    with assms(5) show ?thesis by (simp add: step_node_def Let_def)
  next
    case (Ends u q)
    show ?thesis
    proof (cases q)
      case (Inl x)
      with Ends assms(5) obtain why err cap where "escalation_of x = Some (why, err, cap)"
        and "escalate_step e \<lparr>pk_capability = cap, pk_error = err, pk_reason = why, pk_failed = cx_path c,
              pk_evidence = g_evidence s\<rparr> s = Inr r"
        by (auto simp: step_node_def Let_def split: option.splits prod.splits)
      from esc [OF this(2)] show ?thesis by (simp add: settled_def packet_extends_def)
    next
      case (Inr r')
      with Ends have "nd now (s\<lparr>g_messages := ?ms\<rparr>) = Ends u (Inr r')" by simp
      from leaf_settled [OF assms(1-3) _ this] assms(4) have st: "settled (cx_path c) lf (g_evidence s) r'"
        by (simp add: settled_def packet_extends_def)
      show ?thesis
      proof (cases "g_escalation r'")
        case None
        with Ends Inr assms(5) st show ?thesis
          by (auto simp: step_node_def Let_def settled_def publish_def split: if_splits)
      next
        case (Some p)
        with Ends Inr assms(5) have "escalate_step e p (s\<lparr>g_log := g_log r'\<rparr>) = Inr r"
          by (auto simp: step_node_def Let_def)
        from esc [OF this] st Some show ?thesis by (simp add: settled_def)
      qed
    qed
  qed
qed

lemma step_failure_kept_in:
  assumes "step_node e instr True path nd now s = Ends t (Inl x)"
  shows "escalation_of x = None"
proof -
  have esc: "escalation_of y = None" if "escalate_step e p s' = Inl y" for p s' y
    using that by (auto simp: escalate_step_def escalation_message_def escalation_of_def split: sum.splits option.splits)
  from assms show ?thesis
    by (auto simp: step_node_def Let_def split: outcome.splits sum.splits option.splits prod.splits dest!: esc)
qed

lemma emit_keeps [simp]:
  "g_escalation (emit_message e f r) = g_escalation r" "g_evidence (emit_message e f r) = g_evidence r"
  by (simp_all add: emit_message_def split: option.splits)

lemma continue_keeps [simp]:
  "g_escalation (continue_step e r) = g_escalation r" "g_evidence (continue_step e r) = g_evidence r"
  by (simp_all add: continue_step_def split: list.splits)

text \<open>
  What the agents of the steps did, in the order they ran: each raised, answered, or handed on a packet.  The run stops
  behind the first that raises, hands on a packet or halts the sequence.
\<close>

definition step_messages :: "seq_opts \<Rightarrow> gstate \<Rightarrow> msg list" where
  "step_messages opts s =
     (if sq_instructions opts = '''' then g_messages s
      else plain_msg (g_messages s) SystemRole (sq_instructions opts) # g_messages s)"

type_synonym compiled_step = "string \<times> leaf \<times> node"

fun agent_runs :: "engine \<Rightarrow> seq_opts \<Rightarrow> string list \<Rightarrow> compiled_step list \<Rightarrow> real \<Rightarrow> gstate \<Rightarrow> (step_exn + packet option) list" where
  "agent_runs e opts path [] now s = []"
| "agent_runs e opts path ((n, lf, child) # rest) now s =
     (case child now (s\<lparr>g_messages := step_messages opts s\<rparr>) of
        Hangs \<Rightarrow> []
      | Ends t (Inl x) \<Rightarrow> [Inl x]
      | Ends t (Inr r) \<Rightarrow>
          Inr (g_escalation r) #
          (case step_node e (sq_instructions opts) True (path @ [n]) child now s of
             Ends u (Inr r') \<Rightarrow>
               if g_escalation r' \<noteq> None \<or> (case halt_check (Leaf lf) (sq_halts opts) of None \<Rightarrow> False | Some h \<Rightarrow> h (g_state r')) then []
               else agent_runs e opts path rest u (continue_step e r')
           | _ \<Rightarrow> []))"

definition step_paths :: "string list \<Rightarrow> compiled_step list \<Rightarrow> string list list" where
  "step_paths path items = map (\<lambda>(n, lf, nd). path @ [n]) (filter (\<lambda>(n, lf, nd). typed_leaf lf) items)"

lemma step_paths_simps [simp]:
  "step_paths path [] = []"
  "step_paths path ((n, lf, nd) # items) = leaf_evidence (path @ [n]) lf @ step_paths path items"
  by (simp_all add: step_paths_def leaf_evidence_def)

text \<open>
  The result the runs of the agents account for.  A failure that has a reason becomes the packet with that reason, its
  error and its capability, which names the step that failed and carries the evidence of exactly the typed steps before
  it; a packet handed on by the step's own agent is kept, nested under the step; every other failure is raised; and when no
  step failed there is no packet.
\<close>

definition accounts_for :: "string list \<Rightarrow> compiled_step list \<Rightarrow> string list list \<Rightarrow> (step_exn + packet option) list \<Rightarrow> step_exn + gstate \<Rightarrow> bool" where
  "accounts_for path items prior runs res \<longleftrightarrow>
     (if runs = [] then items = [] \<and> (case res of Inr r \<Rightarrow> g_escalation r = None | Inl y \<Rightarrow> False)
      else list_all (\<lambda>y. y = Inr None) (butlast runs) \<and> length runs \<le> length items \<and>
        (let failed = path @ [fst (items ! (length runs - 1))]; before = prior @ step_paths path (take (length runs - 1) items) in
         case last runs of
           Inl x \<Rightarrow>
             (case escalation_of x of
                None \<Rightarrow> res = Inl x
              | Some (why, error, cap) \<Rightarrow>
                  (case res of
                     Inl y \<Rightarrow> False
                   | Inr r \<Rightarrow>
                       (case g_escalation r of
                          None \<Rightarrow> False
                        | Some q \<Rightarrow> pk_reason q = why \<and> pk_error q = error \<and> pk_capability q = cap \<and> pk_failed q = failed
                            \<and> map ev_step (pk_evidence q) = before)))
         | Inr (Some q) \<Rightarrow>
             (case res of
                Inl y \<Rightarrow> False
              | Inr r \<Rightarrow> g_escalation r = Some q
                  \<and> (\<exists>rest more. pk_failed q = failed @ rest \<and> map ev_step (pk_evidence q) = before @ more))
         | Inr None \<Rightarrow> (case res of Inr r \<Rightarrow> g_escalation r = None | Inl y \<Rightarrow> False)))"

lemma escalate_step_kept: "pk_failed p \<noteq> [] \<Longrightarrow> \<exists>r. escalate_step e p s = Inr r \<and> g_escalation r = Some p"
  by (auto simp: escalate_step_def escalation_message_def packet_of_value)

text \<open>One step, by what its agent did.\<close>

lemma step_node_fate:
  assumes "child now (s\<lparr>g_messages := step_messages opts s\<rparr>) = Ends t y"
  shows "y = Inl x \<Longrightarrow> escalation_of x = None \<Longrightarrow> step_node e (sq_instructions opts) True path child now s = Ends t (Inl x)"
    and "y = Inl x \<Longrightarrow> escalation_of x = Some (why, error, cap) \<Longrightarrow> path \<noteq> [] \<Longrightarrow>
      \<exists>r. step_node e (sq_instructions opts) True path child now s = Ends t (Inr r)
        \<and> g_escalation r = Some \<lparr>pk_capability = cap, pk_error = error, pk_reason = why, pk_failed = path, pk_evidence = g_evidence s\<rparr>"
    and "y = Inr r0 \<Longrightarrow> g_escalation r0 = Some p \<Longrightarrow> pk_failed p \<noteq> [] \<Longrightarrow>
      \<exists>r. step_node e (sq_instructions opts) True path child now s = Ends t (Inr r) \<and> g_escalation r = Some p"
    and "y = Inr r0 \<Longrightarrow> g_escalation r0 = None \<Longrightarrow>
      \<exists>r. step_node e (sq_instructions opts) True path child now s = Ends t (Inr r) \<and> g_escalation r = None"
  using assms escalate_step_kept
  by (auto simp: step_node_def Let_def step_messages_def publish_def split: if_splits)

lemma step_hangs:
  "child now (s\<lparr>g_messages := step_messages opts s\<rparr>) = Hangs \<Longrightarrow> step_node e (sq_instructions opts) True path child now s = Hangs"
  by (simp add: step_node_def Let_def step_messages_def split: if_splits)

definition compiled_under :: "engine \<Rightarrow> compile_ctx \<Rightarrow> string list \<Rightarrow> compiled_step \<Rightarrow> bool" where
  "compiled_under e c path = (\<lambda>(n, lf, nd). compile_leaf e (c\<lparr>cx_escalate := True, cx_path := path @ [n]\<rparr>) lf = Inr nd)"

definition escalating_step :: "engine \<Rightarrow> seq_opts \<Rightarrow> string list \<Rightarrow> compiled_step \<Rightarrow> seq_step" where
  "escalating_step e opts path = (\<lambda>(n, lf, nd).
     \<lparr>st_node = step_node e (sq_instructions opts) True (path @ [n]) nd,
      st_halted = halt_check (Leaf lf) (sq_halts opts), st_emit = halt_message (Leaf lf)\<rparr>)"

lemma run_last_step: "run_sequence e True [st] now s = Ends t res \<Longrightarrow> st_node st now s = Ends u y \<Longrightarrow>
    res = (case y of Inl x \<Rightarrow> Inl x | Inr r \<Rightarrow> Inr (emit_message e (st_emit st) r))"
  by (cases y) auto

text \<open>A step whose agent answered without a packet left its evidence; a packet its agent handed on is nested under it.\<close>

lemma agent_answer_settled:
  assumes "compiled_under e c path (n, lf, child)" and "g_escalation s = None"
    and "child now (s\<lparr>g_messages := step_messages opts s\<rparr>) = Ends t (Inr r)"
  shows "settled (path @ [n]) lf (g_evidence s) r"
  using leaf_settled [of e "c\<lparr>cx_escalate := True, cx_path := path @ [n]\<rparr>" lf child "s\<lparr>g_messages := step_messages opts s\<rparr>" now t r] assms
  by (simp add: compiled_under_def)

lemma accounts_step:
  assumes "accounts_for path items (prior @ leaf_evidence (path @ [n]) lf) runs res" and "runs \<noteq> []"
  shows "accounts_for path ((n, lf, nd) # items) prior (Inr None # runs) res"
  using assms by (cases runs) (auto simp: accounts_for_def Let_def)

lemma escalating_run:
  "\<lbrakk>list_all (compiled_under e c path) items; g_escalation s = None;
    run_sequence e True (map (escalating_step e opts path) items) now s = Ends t res\<rbrakk>
   \<Longrightarrow> accounts_for path items (map ev_step (g_evidence s)) (agent_runs e opts path items now s) res"
proof (induction items arbitrary: now s)
  case Nil
  then show ?case by (auto simp: accounts_for_def)
next
  case (Cons item items)
  obtain n lf child where item: "item = (n, lf, child)" by (metis prod.exhaust)
  let ?step = "escalating_step e opts path (n, lf, child)"
  have st: "st_node ?step = step_node e (sq_instructions opts) True (path @ [n]) child" by (simp add: escalating_step_def)
  have more: "run_sequence e True (map (escalating_step e opts path) (item # items)) now s = Ends t res" by (rule Cons.prems(3))
  have tail: "items = [] \<or> (\<exists>nx rest. map (escalating_step e opts path) items = nx # rest)" by (cases items) auto
  from more have nh: "st_node ?step now s \<noteq> Hangs" using tail by (auto simp: item)
  then obtain u y where y: "child now (s\<lparr>g_messages := step_messages opts s\<rparr>) = Ends u y"
    using step_hangs unfolding st by (metis outcome.exhaust)
  note fate = step_node_fate [where child = child and now = now and s = s and t = u and y = y and e = e and opts = opts and path = "path @ [n]", OF y]
  show ?case
  proof (cases y)
    case (Inl x)
    show ?thesis
    proof (cases "escalation_of x")
      case None
      from fate(1) [OF Inl None] more tail have "res = Inl x" by (auto simp: item st)
      with None show ?thesis by (simp add: accounts_for_def item y Inl)
    next
      case (Some q)
      obtain why error cap where q: "q = (why, error, cap)" by (metis prod.exhaust)
      from fate(2) [OF Inl Some [unfolded q]] obtain r where r: "st_node ?step now s = Ends u (Inr r)"
        and esc: "g_escalation r = Some \<lparr>pk_capability = cap, pk_error = error, pk_reason = why, pk_failed = path @ [n], pk_evidence = g_evidence s\<rparr>"
        by (auto simp: st)
      from more tail r esc have "\<exists>r'. res = Inr r' \<and> g_escalation r' = g_escalation r" by (auto simp: item)
      with esc Some q show ?thesis by (auto simp: accounts_for_def item y Inl)
    qed
  next
    case (Inr r0)
    with y have set: "settled (path @ [n]) lf (g_evidence s) r0"
      using agent_answer_settled [of e c path n lf child s now opts u r0] Cons.prems(1,2) by (simp add: item)
    show ?thesis
    proof (cases "g_escalation r0")
      case (Some p)
      with set have p: "packet_extends (g_evidence s) (path @ [n]) p" by (simp add: settled_def)
      then have "pk_failed p \<noteq> []" by (auto simp: packet_extends_def)
      from fate(3) [OF Inr Some this] obtain r where r: "step_node e (sq_instructions opts) True (path @ [n]) child now s = Ends u (Inr r)"
          "g_escalation r = Some p" by blast
      from more tail r have "\<exists>r'. res = Inr r' \<and> g_escalation r' = Some p" by (auto simp: item st)
      with p show ?thesis by (auto simp: accounts_for_def item y Inr Some r packet_extends_def)
    next
      case None
      from fate(4) [OF Inr None] obtain r where r: "step_node e (sq_instructions opts) True (path @ [n]) child now s = Ends u (Inr r)"
        and esc: "g_escalation r = None" by blast
      have "compile_leaf e (c\<lparr>cx_escalate := True, cx_path := path @ [n]\<rparr>) lf = Inr child"
        using Cons.prems(1) by (simp add: item compiled_under_def)
      from step_settled [OF this _ _ Cons.prems(2), of "sq_instructions opts" now u r] r esc
      have ev: "map ev_step (g_evidence r) = map ev_step (g_evidence s) @ leaf_evidence (path @ [n]) lf"
        by (simp add: settled_def)
      define halts where "halts = (case halt_check (Leaf lf) (sq_halts opts) of None \<Rightarrow> False | Some h \<Rightarrow> h (g_state r))"
      have h: "step_halts ?step r = halts" by (simp add: step_halts_def escalating_step_def halts_def)
      have runs: "agent_runs e opts path (item # items) now s =
          Inr None # (if halts then [] else agent_runs e opts path items u (continue_step e r))"
        by (simp add: item y Inr None r esc halts_def)
      show ?thesis
      proof (cases "items = [] \<or> halts")
        case True
        with more tail r esc h have "\<exists>r'. res = Inr r' \<and> g_escalation r' = None" by (auto simp: item st)
        moreover from True have "agent_runs e opts path (item # items) now s = [Inr None]" unfolding runs by auto
        ultimately show ?thesis by (auto simp: accounts_for_def)
      next
        case False
        with more tail r esc h have run: "run_sequence e True (map (escalating_step e opts path) items) u (continue_step e r) = Ends t res"
          by (auto simp: item st)
        have "g_escalation (continue_step e r) = None" using esc by simp
        from Cons.IH [OF _ this run] Cons.prems(1)
        have ih: "accounts_for path items (map ev_step (g_evidence s) @ leaf_evidence (path @ [n]) lf)
            (agent_runs e opts path items u (continue_step e r)) res"
          by (simp add: ev)
        moreover have "agent_runs e opts path items u (continue_step e r) \<noteq> []" using ih False by (auto simp: accounts_for_def)
        ultimately show ?thesis using False accounts_step unfolding runs by (simp add: item)
      qed
    qed
  qed
qed

text \<open>The steps a run of a sequence goes through, from the entry on.\<close>

definition entry_items :: "agent list \<Rightarrow> leaf list \<Rightarrow> node list \<Rightarrow> gstate \<Rightarrow> compiled_step list" where
  "entry_items as lfs nodes s = drop (entry_index as (reset_sequence s)) (zip (node_names ''step_'' 0 [] as) (zip lfs nodes))"

definition sequence_root :: "seq_opts \<Rightarrow> string" where
  "sequence_root opts = (if nonempty_key (sq_name opts) then the (sq_name opts) else ''sequence'')"


lemmas step_eval = sequence_node_def sequence_steps_def step_node_def reset_sequence_def entry_index_def typed_entry_step_def
  invoke_with_timeout_def effective_deadline_def escalation_of_def escalate_step_def escalation_message_def
  packet_of_value emit_message_def halt_message_def publish_def

lemma silent_run:
  assumes "compile_any silent_engine plain_ctx
       (Sequential plain_seq (map Leaf [(plain_leaf ''scan'')\<lparr>lf_timeout := Some 2\<rparr>, (plain_leaf ''report'')\<lparr>lf_timeout := Some 3\<rparr>])) = Inr nd"
  shows "\<exists>t r q. nd 0 (user_state ''go'') = Ends t (Inr r) \<and> g_escalation r = Some q"
  using assms by (auto simp: sequence_eval leaf_eval step_eval silent_engine_def)


subsection \<open>Where policies may stand\<close>

text \<open>Deadlines, escalation and output schemas only where the compiled graph enforces them.\<close>

primrec placed :: "agent \<Rightarrow> bool \<Rightarrow> bool"
  and placed_route :: "route \<Rightarrow> bool \<Rightarrow> bool" and placed_branch :: "branch \<Rightarrow> bool \<Rightarrow> bool" where
  "placed (Leaf lf) = (\<lambda>esc. \<not> lf_prepares lf)"
| "placed (Sequential opts as) = (\<lambda>esc. list_all (\<lambda>f. f (esc \<or> sq_escalate opts)) (map placed as))"
| "placed (Parallel i as) = (\<lambda>esc. \<not> esc \<and> \<not> has_step_policy (Parallel i as) \<and> \<not> has_typed_output (Parallel i as))"
| "placed (Loop lf n) = (\<lambda>esc. \<not> esc \<and> lf_timeout lf = None \<and> \<not> typed_leaf lf)"
| "placed (Router i rs) = (\<lambda>esc. list_all (\<lambda>f. f esc) (map placed_route rs))"
| "placed (Keyword bs d) = (\<lambda>esc. list_all (\<lambda>f. f esc) (map placed_branch bs) \<and> placed d esc)"
| "placed (Handoff ms st n) = (\<lambda>esc. \<not> esc \<and> list_all (\<lambda>(n, lf). lf_timeout lf = None \<and> \<not> typed_leaf lf) ms)"
| "placed_route (Route n d a) = placed a"
| "placed_branch (Branch n a ks) = placed a"

lemma compile_members_untyped: "compile_members e c names start ms = Inr nodes \<Longrightarrow> list_all (\<lambda>(n, lf). \<not> typed_leaf lf) ms"
  by (induction ms arbitrary: nodes) (auto split: if_splits sum.splits)

lemma compiled_placed:
  "compile_any e c a = Inr nd \<Longrightarrow> placed a (cx_escalate c)"
  "compile_steps e c protected path names as = Inr nds \<Longrightarrow> list_all (\<lambda>a. placed a (cx_escalate c)) as"
  "compile_branches e c instructions as = Inr bn \<Longrightarrow> True"
  "compile_routes e c rs = Inr rn \<Longrightarrow> list_all (\<lambda>r. placed_route r (cx_escalate c)) rs"
  "compile_keywords e c ks = Inr kn \<Longrightarrow> list_all (\<lambda>b. placed_branch b (cx_escalate c)) ks"
proof (induction e c a and e c protected path names as and e c instructions as and e c rs and e c ks
    arbitrary: nd and nds and bn and rn and kn rule: compile_any_compile_steps_compile_branches_compile_routes_compile_keywords.induct)
  case (1 e c lf)
  then show ?case by (auto simp: compile_leaf_def split: if_splits)
next
  case (2 e c opts as)
  from "2.prems" obtain nodes where "compile_steps e (c\<lparr>cx_escalate := cx_escalate c \<or> sq_escalate opts\<rparr>)
      ((cx_escalate c \<or> sq_escalate opts) \<or> has_step_policy (Sequential opts as))
      (if cx_path c \<noteq> [] then cx_path c else [if nonempty_key (sq_name opts) then the (sq_name opts) else ''sequence''])
      (node_names ''step_'' 0 [] as) as = Inr nodes"
    unfolding compile_any.simps Let_def by (auto split: sum.splits if_splits)
  from "2.IH" [OF refl refl refl refl this] show ?case by (simp add: list.pred_map comp_def)
next
  case (3 e c instructions as)
  then show ?case by (auto simp: refused_policy_def split: if_splits)
next
  case (4 e c lf cap)
  then show ?case by (auto simp: refused_policy_def compile_loop_def split: if_splits)
next
  case (5 e c instructions rs)
  from "5.prems" obtain nodes where "compile_routes e c rs = Inr nodes" by (auto split: sum.splits)
  from "5.IH" [OF this] show ?case by (simp add: list.pred_map comp_def)
next
  case (6 e c bs d)
  from "6.prems" obtain nodes nd' where k: "compile_keywords e c bs = Inr nodes" and d: "compile_any e c d = Inr nd'"
    by (auto split: sum.splits)
  from "6.IH"(1) [OF k] "6.IH"(2) [OF k d] show ?case by (simp add: list.pred_map comp_def)
next
  case (7 e c ms start cap)
  then obtain nodes where m: "compile_members e c (map fst ms) start ms = Inr nodes"
    and p: "\<not> refused_policy c (Handoff ms start cap)"
    by (auto simp: compile_handoff_def split: if_splits sum.splits)
  from p compile_members_untyped [OF m] show ?case
    by (auto simp: refused_policy_def list_all_iff list_ex_iff)
next
  case (9 e c protected path names a as)
  from "9.prems" obtain nd ns where a: "compile_any e (if protected then c\<lparr>cx_path := path @ [hd names]\<rparr> else c) a = Inr nd"
    and as: "compile_steps e c protected path (tl names) as = Inr ns" by (auto split: sum.splits)
  from "9.IH"(1) [OF a] "9.IH"(2) [OF a as] show ?case by (cases protected) simp_all
next
  case (13 e c n d a rs)
  from "13.prems" obtain nd ns where a: "compile_any e c a = Inr nd" and as: "compile_routes e c rs = Inr ns"
    by (auto split: sum.splits)
  from "13.IH"(1) [OF a] "13.IH"(2) [OF a as] show ?case by simp
next
  case (15 e c n a ks bs)
  from "15.prems" obtain nd ns where a: "compile_any e c a = Inr nd" and as: "compile_keywords e c bs = Inr ns"
    by (auto split: sum.splits)
  from "15.IH"(1) [OF a] "15.IH"(2) [OF a as] show ?case by simp
qed auto

text \<open>
  A tree that compiles has its deadlines, escalating sequences and output schemas only where the graph enforces them:
  a parallel composition, a loop or a hand-off never stands under an escalating sequence and holds no timed or
  typed agent, and no agent reached through sequences and routers prepares a native input.\<close>

theorem compiled_tree_is_placed:
  assumes "compile_any e c a = Inr nd"
  shows "placed a (cx_escalate c)"
  using assms by (rule compiled_placed(1))

theorem compiled_tree_is_placed_witness:
  "placed (Sequential plain_seq [Leaf (plain_leaf ''scan''), Leaf (plain_leaf ''report'')]) False"
proof -
  let ?as = "[Leaf (plain_leaf ''scan''), Leaf (plain_leaf ''report'')]"
  have "\<exists>nd. compile_any answer_engine plain_ctx (Sequential plain_seq ?as) = Inr nd"
    by (simp add: sequence_eval compile_leaf_def plain_leaf_def plain_ctx_def leaf_binding_def compile_llm_def nonempty_key_def Let_def)
  then obtain nd where "compile_any answer_engine plain_ctx (Sequential plain_seq ?as) = Inr nd" by blast
  from compiled_tree_is_placed [OF this] show ?thesis by (simp add: plain_ctx_def)
qed

end
