(* ===== verification/Workflow_Engine.thy ===== *)
theory Workflow_Engine
  imports Apx_Prelude
begin

text \<open>
  The durable workflow engine: \<open>workflow/engine.py\<close> (the protocol and its records) and
  \<open>workflow/engine_memory.py\<close> (the in-memory backend).

  A step handler is an effectful computation over an outside world: it returns a value, raises an
  \<open>Exception\<close>, or is torn down by something that is not an \<open>Exception\<close> (task cancellation,
  process exit).  Python's \<open>None\<close> is \<open>None\<close> of an option.  Clock readings, measured durations
  and fresh UUIDs are arguments.  Deep copies are invisible: HOL values are immutable.  A handler
  does not reach into the engine that runs it.
\<close>

subsection \<open>Records\<close>

datatype run_status = Running | Paused | Completed | Converged | Failed | Cancelled

datatype step_status = StepCompleted | StepFailed

record 'v step_record =
  sr_key :: string
  sr_status :: step_status
  sr_output :: "'v option"
  sr_error :: "string option"
  sr_duration_ms :: int
  sr_recorded_at :: string

record 'v workflow_run =
  wr_id :: string
  wr_name :: string
  wr_status :: run_status
  wr_input :: "'v option"
  wr_output :: "'v option"
  wr_started :: string
  wr_updated :: string
  wr_steps :: "(string \<times> 'v step_record) list"

record 'v run_snapshot =
  rs_id :: string
  rs_name :: string
  rs_status :: run_status
  rs_input :: "'v option"
  rs_output :: "'v option"
  rs_started :: string
  rs_updated :: string
  rs_steps :: "'v step_record list"

record run_summary =
  sum_id :: string
  sum_name :: string
  sum_status :: run_status
  sum_started :: string
  sum_updated :: string

record run_filter =
  f_name :: "string option"
  f_status :: "run_status option"
  f_limit :: "int option"

record 'v engine =
  eng_runs :: "(string \<times> 'v workflow_run) list"

datatype engine_error =
    UnknownRun string
  | InvalidName string
  | NotSerializable
  | StepFailedError string string
  | HandlerError string
  | HandlerAborted

datatype 'v outcome = Returned "'v option" | Raised string | Aborted

type_synonym ('w, 'v) handler = "'w \<Rightarrow> 'v outcome \<times> 'w"

subsection \<open>Operations\<close>

definition empty_engine :: "'v engine" where
  "empty_engine = \<lparr>eng_runs = []\<rparr>"

definition new_run :: "string \<Rightarrow> string \<Rightarrow> 'v option \<Rightarrow> string \<Rightarrow> 'v workflow_run" where
  "new_run rid name inp now =
     \<lparr>wr_id = rid, wr_name = name, wr_status = Running, wr_input = inp, wr_output = None,
      wr_started = now, wr_updated = now, wr_steps = []\<rparr>"

text \<open>A run id that is \<open>None\<close> or empty is falsy: a fresh UUID is used.\<close>

definition start_run ::
  "string \<Rightarrow> 'v option \<Rightarrow> string option \<Rightarrow> string \<Rightarrow> string \<Rightarrow> 'v engine \<Rightarrow> string \<times> 'v engine" where
  "start_run name inp rid uuid now e =
     (let given = (case rid of None \<Rightarrow> None | Some r \<Rightarrow> if r = [] then None else Some r)
      in case (case given of None \<Rightarrow> None | Some r \<Rightarrow> dget (eng_runs e) r) of
           Some run \<Rightarrow>
             (wr_id run,
              e\<lparr>eng_runs := dset (the given) (run\<lparr>wr_status := Running, wr_updated := now\<rparr>) (eng_runs e)\<rparr>)
         | None \<Rightarrow>
             (let r = (case given of None \<Rightarrow> uuid | Some r \<Rightarrow> r)
              in (r, e\<lparr>eng_runs := dset r (new_run r name inp now) (eng_runs e)\<rparr>)))"

text \<open>\<open>cached.error or "step failed"\<close>: a missing or empty message is replaced.\<close>

definition failure_message :: "string option \<Rightarrow> string" where
  "failure_message err = (case err of None \<Rightarrow> ''step failed'' | Some m \<Rightarrow> if m = [] then ''step failed'' else m)"

definition record_step :: "string \<Rightarrow> 'v workflow_run \<Rightarrow> 'v step_record \<Rightarrow> 'v engine \<Rightarrow> 'v engine" where
  "record_step rid run rec e =
     e\<lparr>eng_runs := dset rid (run\<lparr>wr_steps := dset (sr_key rec) rec (wr_steps run),
                                wr_updated := sr_recorded_at rec\<rparr>) (eng_runs e)\<rparr>"

definition step ::
  "string \<Rightarrow> string \<Rightarrow> ('w, 'v) handler \<Rightarrow> int \<times> string \<Rightarrow> 'v engine \<Rightarrow> 'w
    \<Rightarrow> (engine_error + 'v option) \<times> 'v engine \<times> 'w" where
  "step rid key h clock e w =
     (case dget (eng_runs e) rid of
        None \<Rightarrow> (Inl (UnknownRun rid), e, w)
      | Some run \<Rightarrow>
          (case dget (wr_steps run) key of
             Some cached \<Rightarrow>
               (if sr_status cached = StepCompleted then (Inr (sr_output cached), e, w)
                else (Inl (StepFailedError key (failure_message (sr_error cached))), e, w))
           | None \<Rightarrow>
               (case h w of
                  (Raised msg, w') \<Rightarrow>
                    (Inl (HandlerError msg),
                     record_step rid run
                       \<lparr>sr_key = key, sr_status = StepFailed, sr_output = None, sr_error = Some msg,
                        sr_duration_ms = fst clock, sr_recorded_at = snd clock\<rparr> e, w')
                | (Returned v, w') \<Rightarrow>
                    (Inr v,
                     record_step rid run
                       \<lparr>sr_key = key, sr_status = StepCompleted, sr_output = v, sr_error = None,
                        sr_duration_ms = fst clock, sr_recorded_at = snd clock\<rparr> e, w')
                | (Aborted, w') \<Rightarrow> (Inl HandlerAborted, e, w'))))"

definition finish_run ::
  "string \<Rightarrow> run_status \<Rightarrow> 'v option \<Rightarrow> string \<Rightarrow> 'v engine \<Rightarrow> engine_error + 'v engine" where
  "finish_run rid st out now e =
     (case dget (eng_runs e) rid of
        None \<Rightarrow> Inl (UnknownRun rid)
      | Some run \<Rightarrow>
          Inr (e\<lparr>eng_runs := dset rid
                  (run\<lparr>wr_status := st,
                       wr_output := (if out = None then wr_output run else out),
                       wr_updated := now\<rparr>) (eng_runs e)\<rparr>))"

definition get_run :: "string \<Rightarrow> 'v engine \<Rightarrow> 'v run_snapshot option" where
  "get_run rid e =
     (case dget (eng_runs e) rid of
        None \<Rightarrow> None
      | Some run \<Rightarrow>
          Some \<lparr>rs_id = wr_id run, rs_name = wr_name run, rs_status = wr_status run,
                rs_input = wr_input run, rs_output = wr_output run, rs_started = wr_started run,
                rs_updated = wr_updated run, rs_steps = map snd (wr_steps run)\<rparr>)"

definition summary_of :: "'v workflow_run \<Rightarrow> run_summary" where
  "summary_of r = \<lparr>sum_id = wr_id r, sum_name = wr_name r, sum_status = wr_status r,
                   sum_started = wr_started r, sum_updated = wr_updated r\<rparr>"

definition matches_filter :: "run_filter \<Rightarrow> 'v workflow_run \<Rightarrow> bool" where
  "matches_filter f r \<longleftrightarrow>
     (case f_name f of None \<Rightarrow> True | Some n \<Rightarrow> wr_name r = n) \<and>
     (case f_status f of None \<Rightarrow> True | Some s \<Rightarrow> wr_status r = s)"

definition list_runs :: "run_filter option \<Rightarrow> 'v engine \<Rightarrow> run_summary list" where
  "list_runs flt e =
     (let results = map snd (eng_runs e);
          results = (case flt of None \<Rightarrow> results | Some f \<Rightarrow> filter (matches_filter f) results);
          results = sort_desc wr_started results;
          results = (case flt of None \<Rightarrow> results
                     | Some f \<Rightarrow> (case f_limit f of None \<Rightarrow> results | Some n \<Rightarrow> py_take n results))
      in map summary_of results)"

subsection \<open>The abstract step log\<close>

text \<open>
  What the engine promises is a memo table per run: a step key maps to the failure message or the
  output it was recorded with.
\<close>

definition step_result :: "'v step_record \<Rightarrow> string + 'v option" where
  "step_result rec =
     (if sr_status rec = StepCompleted then Inr (sr_output rec) else Inl (failure_message (sr_error rec)))"

definition known :: "'v engine \<Rightarrow> string \<Rightarrow> bool" where
  "known e rid \<longleftrightarrow> dget (eng_runs e) rid \<noteq> None"

definition step_log :: "'v engine \<Rightarrow> string \<Rightarrow> string \<Rightarrow> (string + 'v option) option" where
  "step_log e rid key =
     (case dget (eng_runs e) rid of
        None \<Rightarrow> None
      | Some run \<Rightarrow> map_option step_result (dget (wr_steps run) key))"

definition status_of :: "'v engine \<Rightarrow> string \<Rightarrow> run_status option" where
  "status_of e rid = map_option wr_status (dget (eng_runs e) rid)"

named_theorems engine_defs \<open>the engine's operations and its abstract view\<close>

lemmas engine_ops_defs [engine_defs] = step_def record_step_def finish_run_def start_run_def
  known_def step_log_def status_of_def step_result_def new_run_def Let_def

text \<open>The well-formedness of the engine: ids are unique, and every run and step sits under its own key.\<close>

definition run_wf :: "'v workflow_run \<Rightarrow> bool" where
  "run_wf run \<longleftrightarrow> dict_wf (wr_steps run) \<and> (\<forall>(k, s) \<in> set (wr_steps run). sr_key s = k)"

definition engine_wf :: "'v engine \<Rightarrow> bool" where
  "engine_wf e \<longleftrightarrow> dict_wf (eng_runs e) \<and> (\<forall>(r, run) \<in> set (eng_runs e). wr_id run = r \<and> run_wf run)"

lemma engine_wf_run: "engine_wf e \<Longrightarrow> dget (eng_runs e) rid = Some run \<Longrightarrow> wr_id run = rid \<and> run_wf run"
  by (auto simp: engine_wf_def dest: map_of_SomeD)

lemma engine_wf_dset:
  "engine_wf e \<Longrightarrow> wr_id run = r \<Longrightarrow> run_wf run \<Longrightarrow> engine_wf (e\<lparr>eng_runs := dset r run (eng_runs e)\<rparr>)"
  by (auto simp: engine_wf_def set_dset)

lemma run_wf_add: "run_wf run \<Longrightarrow> sr_key rec = k \<Longrightarrow>
    run_wf (run\<lparr>wr_steps := dset k rec (wr_steps run), wr_updated := t\<rparr>)"
  by (auto simp: run_wf_def set_dset)

lemma record_step_wf:
  assumes "engine_wf e" and "dget (eng_runs e) rid = Some run"
  shows "engine_wf (record_step rid run rec e)"
  unfolding record_step_def
  by (rule engine_wf_dset [OF assms(1)])
    (use engine_wf_run [OF assms] in \<open>auto intro: run_wf_add\<close>)

lemma step_wf: "engine_wf e \<Longrightarrow> engine_wf (fst (snd (step rid key h clock e w)))"
  by (auto simp: step_def record_step_wf split: option.splits prod.splits outcome.splits)

text \<open>\<open>start_run\<close> either re-opens a run under the given id or creates a new one.\<close>

lemma start_run_reopen:
  "r \<noteq> [] \<Longrightarrow> dget (eng_runs e) r = Some run \<Longrightarrow>
   start_run name inp (Some r) uuid now e =
     (wr_id run, e\<lparr>eng_runs := dset r (run\<lparr>wr_status := Running, wr_updated := now\<rparr>) (eng_runs e)\<rparr>)"
  by (simp add: start_run_def)

lemma start_run_new:
  "(rid = None \<or> rid = Some []) \<and> r = uuid \<or> rid = Some r \<and> r \<noteq> [] \<and> dget (eng_runs e) r = None \<Longrightarrow>
   start_run name inp rid uuid now e = (r, e\<lparr>eng_runs := dset r (new_run r name inp now) (eng_runs e)\<rparr>)"
  by (auto simp: start_run_def)

lemma start_run_cases:
  obtains (reopen) r run where "rid = Some r" and "r \<noteq> []" and "dget (eng_runs e) r = Some run"
  | (new) r where "(rid = None \<or> rid = Some []) \<and> r = uuid \<or> rid = Some r \<and> r \<noteq> [] \<and> dget (eng_runs e) r = None"
proof (cases rid)
  case None
  then show thesis using new by blast
next
  case (Some a)
  then show thesis using reopen new by (cases "a = []"; cases "dget (eng_runs e) a") blast+
qed

lemma run_wf_status [simp]:
  "run_wf (run\<lparr>wr_status := st, wr_updated := t\<rparr>) = run_wf run"
  "run_wf (run\<lparr>wr_status := st, wr_output := out, wr_updated := t\<rparr>) = run_wf run"
  by (simp_all add: run_wf_def)

lemma start_run_wf:
  assumes wf: "engine_wf e"
  shows "engine_wf (snd (start_run name inp rid uuid now e))"
proof (cases rule: start_run_cases [where rid = rid and uuid = uuid and e = e])
  case (reopen r run)
  have "wr_id run = r \<and> run_wf run" by (rule engine_wf_run [OF wf reopen(3)])
  then show ?thesis by (simp add: start_run_reopen [OF reopen(2,3)] reopen(1) engine_wf_dset [OF wf])
next
  case (new r)
  have "engine_wf (e\<lparr>eng_runs := dset r (new_run r name inp now) (eng_runs e)\<rparr>)"
    by (rule engine_wf_dset [OF wf]) (simp_all add: new_run_def run_wf_def)
  then show ?thesis by (simp add: start_run_new [OF new])
qed

lemma finish_run_wf:
  assumes wf: "engine_wf e" and f: "finish_run rid st out now e = Inr e'"
  shows "engine_wf e'"
proof -
  from f obtain run where run: "dget (eng_runs e) rid = Some run"
    by (auto simp: finish_run_def split: option.splits)
  have "wr_id run = rid \<and> run_wf run" by (rule engine_wf_run [OF wf run])
  with f run show ?thesis by (auto simp: finish_run_def intro: engine_wf_dset [OF wf])
qed

lemma empty_engine_wf: "engine_wf empty_engine"
  by (simp add: engine_wf_def empty_engine_def)

subsection \<open>The engine's contract\<close>

text \<open>
  A client only relies on this: a recorded step is answered from the log without running the
  handler or changing anything; an unrecorded one runs the handler once and records the result,
  unless the handler was torn down.
\<close>

text \<open>Running a list of steps the way a workflow body does: in order, up to the first error.\<close>

fun run_steps ::
  "(string \<Rightarrow> string \<Rightarrow> ('w, 'v) handler \<Rightarrow> 'c \<Rightarrow> 'e \<Rightarrow> 'w \<Rightarrow> (engine_error + 'v option) \<times> 'e \<times> 'w)
    \<Rightarrow> string \<Rightarrow> (string \<times> ('w, 'v) handler \<times> 'c) list \<Rightarrow> 'e \<Rightarrow> 'w
    \<Rightarrow> (engine_error + 'v option list) \<times> 'e \<times> 'w" where
  "run_steps st r [] e w = (Inr [], e, w)"
| "run_steps st r ((k, h, c) # ss) e w =
     (case st r k h c e w of
        (Inl err, e', w') \<Rightarrow> (Inl err, e', w')
      | (Inr v, e', w') \<Rightarrow>
          (case run_steps st r ss e' w' of
             (Inl err, e2, w2) \<Rightarrow> (Inl err, e2, w2)
           | (Inr vs, e2, w2) \<Rightarrow> (Inr (v # vs), e2, w2)))"

definition prepend_results ::
  "'v option list \<Rightarrow> (engine_error + 'v option list) \<times> 'e \<times> 'w
    \<Rightarrow> (engine_error + 'v option list) \<times> 'e \<times> 'w" where
  "prepend_results vs res =
     (case res of (Inl err, s) \<Rightarrow> (Inl err, s) | (Inr us, s) \<Rightarrow> (Inr (vs @ us), s))"

lemma prepend_results_Nil [simp]: "prepend_results [] res = res"
  by (simp add: prepend_results_def split: prod.splits sum.splits)

text \<open>A workflow body whose handlers read the outputs so far: \<open>state[key] = await engine.step(...)\<close>.\<close>

fun chain ::
  "(string \<Rightarrow> string \<Rightarrow> ('w, 'v) handler \<Rightarrow> 'c \<Rightarrow> 'e \<Rightarrow> 'w \<Rightarrow> (engine_error + 'v option) \<times> 'e \<times> 'w)
    \<Rightarrow> string \<Rightarrow> (string \<times> ((string \<times> 'v option) list \<Rightarrow> ('w, 'v) handler) \<times> 'c) list \<Rightarrow> (string \<times> 'v option) list \<Rightarrow> 'e \<Rightarrow> 'w
    \<Rightarrow> (engine_error + (string \<times> 'v option) list) \<times> 'e \<times> 'w" where
  "chain st r [] state e w = (Inr state, e, w)"
| "chain st r ((k, mk, c) # ss) state e w =
     (case st r k (mk state) c e w of
        (Inl err, e', w') \<Rightarrow> (Inl err, e', w')
      | (Inr v, e', w') \<Rightarrow> chain st r ss (dset k v state) e' w')"

definition assign_all :: "string list \<Rightarrow> 'v list \<Rightarrow> (string \<times> 'v) list \<Rightarrow> (string \<times> 'v) list" where
  "assign_all ks vs st = fold (\<lambda>(k, v). dset k v) (zip ks vs) st"

locale memo_engine =
  fixes do_step :: "string \<Rightarrow> string \<Rightarrow> ('w, 'v) handler \<Rightarrow> 'c \<Rightarrow> 'e \<Rightarrow> 'w
      \<Rightarrow> (engine_error + 'v option) \<times> 'e \<times> 'w"
    and accepts :: "'e \<Rightarrow> string \<Rightarrow> string \<Rightarrow> bool"
    and log_of :: "'e \<Rightarrow> string \<Rightarrow> string \<Rightarrow> (string + 'v option) option"
  assumes refused: "\<not> accepts e r k \<Longrightarrow> \<exists>err. do_step r k h c e w = (Inl err, e, w)"
    and hit_completed: "accepts e r k \<Longrightarrow> log_of e r k = Some (Inr v) \<Longrightarrow>
      \<exists>e'. do_step r k h c e w = (Inr v, e', w) \<and> accepts e' = accepts e \<and> log_of e' = log_of e"
    and hit_failed: "accepts e r k \<Longrightarrow> log_of e r k = Some (Inl m) \<Longrightarrow>
      \<exists>e'. do_step r k h c e w = (Inl (StepFailedError k m), e', w) \<and> accepts e' = accepts e \<and> log_of e' = log_of e"
    and miss_returned: "accepts e r k \<Longrightarrow> log_of e r k = None \<Longrightarrow> h w = (Returned v, w') \<Longrightarrow>
      \<exists>e'. do_step r k h c e w = (Inr v, e', w') \<and> accepts e' = accepts e \<and>
           log_of e' = (log_of e)(r := (log_of e r)(k := Some (Inr v)))"
    and miss_raised: "accepts e r k \<Longrightarrow> log_of e r k = None \<Longrightarrow> h w = (Raised m, w') \<Longrightarrow>
      \<exists>e'. do_step r k h c e w = (Inl (HandlerError m), e', w') \<and> accepts e' = accepts e \<and>
           log_of e' = (log_of e)(r := (log_of e r)(k := Some (Inl (failure_message (Some m)))))"
    and miss_aborted: "accepts e r k \<Longrightarrow> log_of e r k = None \<Longrightarrow> h w = (Aborted, w') \<Longrightarrow>
      \<exists>e'. do_step r k h c e w = (Inl HandlerAborted, e', w') \<and> accepts e' = accepts e \<and> log_of e' = log_of e"
begin

lemma step_keeps_log:
  assumes "do_step r k h c e w = (x, e', w')" and "log_of e r' k' = Some res"
  shows "log_of e' r' k' = Some res"
proof (cases "accepts e r k")
  case False
  from refused [OF this, of h c w] assms show ?thesis by auto
next
  case run: True
  show ?thesis
  proof (cases "log_of e r k")
    case (Some old)
    then show ?thesis using hit_completed [OF run, of _ h c w] hit_failed [OF run, of _ h c w] assms
      by (cases old) auto
  next
    case None
    obtain out w1 where h: "h w = (out, w1)" by (cases "h w")
    show ?thesis
      using miss_returned [OF run None, of h w _ w1 c] miss_raised [OF run None, of h w _ w1 c]
        miss_aborted [OF run None, of h w w1 c] h None assms
      by (cases out) auto
  qed
qed

lemma step_keeps_runs: "do_step r k h c e w = (x, e', w') \<Longrightarrow> accepts e' = accepts e"
proof (cases "accepts e r k")
  case False
  moreover assume "do_step r k h c e w = (x, e', w')"
  ultimately show ?thesis using refused [OF False, of h c w] by auto
next
  case run: True
  moreover assume st: "do_step r k h c e w = (x, e', w')"
  ultimately show ?thesis
  proof (cases "log_of e r k")
    case (Some old)
    then show ?thesis using hit_completed [OF run, of _ h c w] hit_failed [OF run, of _ h c w] st
      by (cases old) auto
  next
    case None
    obtain out w1 where h: "h w = (out, w1)" by (cases "h w")
    show ?thesis
      using miss_returned [OF run None, of h w _ w1 c] miss_raised [OF run None, of h w _ w1 c]
        miss_aborted [OF run None, of h w w1 c] h st
      by (cases out) auto
  qed
qed

lemma step_success_logged:
  assumes "do_step r k h c e w = (Inr v, e', w')"
  shows "accepts e' r k \<and> log_of e' r k = Some (Inr v)"
proof (cases "accepts e r k")
  case False
  from refused [OF this, of h c w] assms show ?thesis by auto
next
  case run: True
  show ?thesis
  proof (cases "log_of e r k")
    case (Some old)
    then show ?thesis using hit_completed [OF run, of _ h c w] hit_failed [OF run, of _ h c w] assms run
      by (cases old) auto
  next
    case None
    obtain out w1 where h: "h w = (out, w1)" by (cases "h w")
    show ?thesis
      using miss_returned [OF run None, of h w _ w1 c] miss_raised [OF run None, of h w _ w1 c]
        miss_aborted [OF run None, of h w w1 c] h run assms
      by (cases out) auto
  qed
qed

lemma run_steps_keep:
  "run_steps do_step r ss e w = (x, e', w') \<Longrightarrow>
    accepts e' = accepts e \<and> (log_of e r' k' = Some res \<longrightarrow> log_of e' r' k' = Some res)"
proof (induction ss arbitrary: e w x)
  case Nil
  then show ?case by simp
next
  case (Cons s ss)
  obtain k h c where s: "s = (k, h, c)" by (cases s) auto
  obtain y e1 w1 where st: "do_step r k h c e w = (y, e1, w1)" by (cases "do_step r k h c e w") auto
  show ?case
  proof (cases y)
    case (Inl err)
    with Cons.prems s st have "e' = e1" by simp
    with step_keeps_log [OF st, of r' k' res] step_keeps_runs [OF st] show ?thesis by auto
  next
    case (Inr v)
    obtain z e2 w2 where rs: "run_steps do_step r ss e1 w1 = (z, e2, w2)"
      by (cases "run_steps do_step r ss e1 w1") auto
    with Cons.prems s st Inr have "e' = e2 \<and> w' = w2" by (cases z) auto
    with rs have rs: "run_steps do_step r ss e1 w1 = (z, e', w')" by simp
    with Cons.IH [OF rs] step_keeps_log [OF st, of r' k' res] step_keeps_runs [OF st]
    show ?thesis by auto
  qed
qed

lemma run_steps_logged:
  "run_steps do_step r ss e w = (Inr vs, e', w') \<Longrightarrow>
    list_all2 (\<lambda>s v. accepts e' r (fst s) \<and> log_of e' r (fst s) = Some (Inr v)) ss vs"
proof (induction ss arbitrary: e w vs)
  case Nil
  then show ?case by simp
next
  case (Cons s ss)
  obtain k h c where s: "s = (k, h, c)" by (cases s) auto
  from Cons.prems s obtain v e1 w1 us where st: "do_step r k h c e w = (Inr v, e1, w1)"
    and rs: "run_steps do_step r ss e1 w1 = (Inr us, e', w')" and vs: "vs = v # us"
    by (auto split: prod.splits sum.splits)
  from step_success_logged [OF st] have l: "accepts e1 r k" "log_of e1 r k = Some (Inr v)" by auto
  with run_steps_keep [OF rs, of r k "Inr v"] have "accepts e' r k" "log_of e' r k = Some (Inr v)" by auto
  with Cons.IH [OF rs] s vs show ?case by simp
qed

lemma replay_from_log:
  "list_all2 (\<lambda>s v. accepts e r (fst s) \<and> log_of e r (fst s) = Some (Inr v)) ss vs \<Longrightarrow>
    \<exists>e'. accepts e' = accepts e \<and> log_of e' = log_of e
      \<and> run_steps do_step r (ss @ rest) e w = prepend_results vs (run_steps do_step r rest e' w)"
proof (induction ss arbitrary: vs e)
  case Nil
  then show ?case by auto
next
  case (Cons s ss)
  obtain k h c where s: "s = (k, h, c)" by (cases s) auto
  from Cons.prems s obtain v us where vs: "vs = v # us"
    and l: "accepts e r k" "log_of e r k = Some (Inr v)"
    and us: "list_all2 (\<lambda>s v. accepts e r (fst s) \<and> log_of e r (fst s) = Some (Inr v)) ss us"
    by (cases vs) auto
  obtain e1 where e1: "do_step r k h c e w = (Inr v, e1, w)" "accepts e1 = accepts e" "log_of e1 = log_of e"
    using hit_completed [OF l] by blast
  have "list_all2 (\<lambda>s v. accepts e1 r (fst s) \<and> log_of e1 r (fst s) = Some (Inr v)) ss us" using us e1(2,3) by simp
  from Cons.IH [OF this] obtain e' where "accepts e' = accepts e1" "log_of e' = log_of e1"
    "run_steps do_step r (ss @ rest) e1 w = prepend_results us (run_steps do_step r rest e' w)" by blast
  with e1 s vs show ?case
    by (intro exI [of _ e']) (auto simp: prepend_results_def split: prod.splits sum.splits)
qed

lemma logged_prefix:
  assumes first: "run_steps do_step r ss e w = (Inr vs, e1, w1)"
    and keys: "map fst ss' = map fst ss"
    and log: "log_of e2 r = log_of e1 r" and run: "\<And>k. accepts e1 r k \<Longrightarrow> accepts e2 r k"
  shows "list_all2 (\<lambda>s v. accepts e2 r (fst s) \<and> log_of e2 r (fst s) = Some (Inr v)) ss' vs"
proof -
  have "list_all2 (\<lambda>k v. accepts e2 r k \<and> log_of e1 r k = Some (Inr v)) (map fst ss) vs"
    using run_steps_logged [OF first] run by (auto simp: list_all2_map1 elim: list_all2_mono)
  then show ?thesis unfolding keys [symmetric] log by (simp add: list_all2_map1)
qed

lemma chain_replays:
  "list_all2 (\<lambda>s v. accepts e r (fst s) \<and> log_of e r (fst s) = Some (Inr v)) done vs \<Longrightarrow>
    \<exists>e'. accepts e' = accepts e \<and> log_of e' = log_of e
      \<and> chain do_step r (done @ todo) st e w = chain do_step r todo (assign_all (map fst done) vs st) e' w"
proof (induction "done" arbitrary: vs st e)
  case Nil
  then show ?case by (auto simp: assign_all_def)
next
  case (Cons s ss)
  obtain k mk c where s: "s = (k, mk, c)" by (cases s) auto
  from Cons.prems s obtain v us where vs: "vs = v # us"
    and l: "accepts e r k" "log_of e r k = Some (Inr v)"
    and us: "list_all2 (\<lambda>s v. accepts e r (fst s) \<and> log_of e r (fst s) = Some (Inr v)) ss us"
    by (cases vs) auto
  obtain e1 where e1: "do_step r k (mk st) c e w = (Inr v, e1, w)" "accepts e1 = accepts e" "log_of e1 = log_of e"
    using hit_completed [OF l] by blast
  have "list_all2 (\<lambda>s v. accepts e1 r (fst s) \<and> log_of e1 r (fst s) = Some (Inr v)) ss us" using us e1(2,3) by simp
  from Cons.IH [OF this] e1 s vs show ?case by (auto simp: assign_all_def)
qed

text \<open>What a workflow run leaves behind: the completed steps in the log, and why it stopped.\<close>

lemma chain_progress:
  "chain do_step r ss st e w = (res, e1, w1) \<Longrightarrow>
    \<exists>done todo vs. ss = done @ todo
      \<and> list_all2 (\<lambda>s v. accepts e1 r (fst s) \<and> log_of e1 r (fst s) = Some (Inr v)) done vs
      \<and> (case res of
           Inr st' \<Rightarrow> todo = [] \<and> st' = assign_all (map fst done) vs st
         | Inl err \<Rightarrow> todo \<noteq> [] \<and> (\<exists>e0 w0. accepts e0 = accepts e \<and>
             do_step r (fst (hd todo)) (fst (snd (hd todo)) (assign_all (map fst done) vs st)) (snd (snd (hd todo))) e0 w0 = (Inl err, e1, w1)))
      \<and> accepts e1 = accepts e \<and> (\<forall>r' k' x. log_of e r' k' = Some x \<longrightarrow> log_of e1 r' k' = Some x)"
proof (induction ss arbitrary: st e w)
  case Nil
  then show ?case by (auto simp: assign_all_def)
next
  case (Cons s ss)
  obtain k mk c where s: "s = (k, mk, c)" by (cases s) auto
  obtain x e0 w0 where step: "do_step r k (mk st) c e w = (x, e0, w0)" by (cases "do_step r k (mk st) c e w") auto
  note keeps = step_keeps_runs [OF step] step_keeps_log [OF step]
  show ?case
  proof (cases x)
    case (Inl err)
    with Cons.prems s step have "res = Inl err" "e1 = e0" "w1 = w0" by auto
    with keeps step s Inl show ?thesis
      by (intro exI [of _ "[]"] exI [of _ "s # ss"]) (auto simp: assign_all_def)
  next
    case (Inr v)
    with Cons.prems s step have rest: "chain do_step r ss (dset k v st) e0 w0 = (res, e1, w1)" by simp
    obtain dn td vs where IH: "ss = dn @ td"
      "list_all2 (\<lambda>s v. accepts e1 r (fst s) \<and> log_of e1 r (fst s) = Some (Inr v)) dn vs"
      "case res of
           Inr st' \<Rightarrow> td = [] \<and> st' = assign_all (map fst dn) vs (dset k v st)
         | Inl err \<Rightarrow> td \<noteq> [] \<and> (\<exists>e' w'. accepts e' = accepts e0 \<and>
             do_step r (fst (hd td)) (fst (snd (hd td)) (assign_all (map fst dn) vs (dset k v st))) (snd (snd (hd td))) e' w' = (Inl err, e1, w1))"
      "accepts e1 = accepts e0" "\<forall>r' k' x. log_of e0 r' k' = Some x \<longrightarrow> log_of e1 r' k' = Some x"
      using Cons.IH [OF rest] by blast
    have "accepts e0 r k \<and> log_of e0 r k = Some (Inr v)" using step_success_logged [of r k "mk st" c e w v e0 w0] step Inr by simp
    then have "accepts e1 r k \<and> log_of e1 r k = Some (Inr v)" using IH(4,5) by simp
    with IH keeps s show ?thesis
      by (intro exI [of _ "s # dn"] exI [of _ td] exI [of _ "v # vs"]) (auto simp: assign_all_def split: sum.splits)
  qed
qed

end

text \<open>An engine without caches answers a hit without moving at all.\<close>

locale quiet_memo_engine = memo_engine +
  assumes hit_quiet: "accepts e r k \<Longrightarrow> log_of e r k = Some (Inr v) \<Longrightarrow> do_step r k h c e w = (Inr v, e, w)"
begin

lemma quiet_replay:
  "list_all2 (\<lambda>s v. accepts e r (fst s) \<and> log_of e r (fst s) = Some (Inr v)) ss vs \<Longrightarrow>
    run_steps do_step r (ss @ rest) e w = prepend_results vs (run_steps do_step r rest e w)"
proof (induction ss arbitrary: vs)
  case (Cons s ss)
  obtain k h c where s: "s = (k, h, c)" by (cases s) auto
  from Cons.prems s obtain v us where vs: "vs = v # us"
    and l: "accepts e r k" "log_of e r k = Some (Inr v)"
    and us: "list_all2 (\<lambda>s v. accepts e r (fst s) \<and> log_of e r (fst s) = Some (Inr v)) ss us"
    by (cases vs) auto
  have "do_step r k h c e w = (Inr v, e, w)" using l by (rule hit_quiet)
  with Cons.IH [OF us] s vs show ?case
    by (auto simp: prepend_results_def split: prod.splits sum.splits)
qed simp

lemma quiet_chain:
  "list_all2 (\<lambda>s v. accepts e r (fst s) \<and> log_of e r (fst s) = Some (Inr v)) done vs \<Longrightarrow>
    chain do_step r (done @ todo) st e w = chain do_step r todo (assign_all (map fst done) vs st) e w"
proof (induction "done" arbitrary: vs st)
  case (Cons s ss)
  obtain k mk c where s: "s = (k, mk, c)" by (cases s) auto
  from Cons.prems s obtain v us where vs: "vs = v # us"
    and l: "accepts e r k" "log_of e r k = Some (Inr v)"
    and us: "list_all2 (\<lambda>s v. accepts e r (fst s) \<and> log_of e r (fst s) = Some (Inr v)) ss us"
    by (cases vs) auto
  have "do_step r k (mk st) c e w = (Inr v, e, w)" using l by (rule hit_quiet)
  with Cons.IH [OF us] s vs show ?case by (simp add: assign_all_def)
qed (simp add: assign_all_def)

lemma completed_prefix_replays:
  assumes "run_steps do_step r ss e w = (Inr vs, e1, w1)" and "map fst ss' = map fst ss"
    and "log_of e2 r = log_of e1 r" and "\<And>k. accepts e1 r k \<Longrightarrow> accepts e2 r k"
  shows "run_steps do_step r (ss' @ rest) e2 w2 = prepend_results vs (run_steps do_step r rest e2 w2)"
  using assms by (intro quiet_replay logged_prefix)

end

subsection \<open>The in-memory engine meets the contract\<close>

lemma step_log_record:
  "dget (eng_runs e) rid = Some run \<Longrightarrow>
   step_log (record_step rid run rec e)
     = (step_log e)(rid := (step_log e rid)(sr_key rec := Some (step_result rec)))"
  by (rule ext, rule ext) (auto simp: step_log_def record_step_def dict_simps)

lemma known_record:
  "dget (eng_runs e) rid = Some run \<Longrightarrow> known (record_step rid run rec e) = known e"
  by (rule ext) (auto simp: known_def record_step_def dict_simps)

lemma step_log_hit:
  "known e rid \<Longrightarrow> step_log e rid key = Some res \<Longrightarrow>
   \<exists>run rec. dget (eng_runs e) rid = Some run \<and> dget (wr_steps run) key = Some rec \<and> step_result rec = res"
  by (auto simp: known_def step_log_def)

interpretation mem_engine: quiet_memo_engine step "\<lambda>e r k. known e r" step_log
proof (unfold_locales, goal_cases)
  case (1 e r k h c w)
  then show ?case by (simp add: known_def step_def)
next
  case (2 e r k v h c w)
  then show ?case by (auto simp: step_def step_result_def dest!: step_log_hit split: if_splits)
next
  case (3 e r k m h c w)
  then show ?case by (auto simp: step_def step_result_def dest!: step_log_hit split: if_splits)
next
  case (4 e r k h w v w' c)
  then obtain run where "dget (eng_runs e) r = Some run" "dget (wr_steps run) k = None"
    by (auto simp: known_def step_log_def)
  with 4 show ?case by (auto simp: step_def step_log_record known_record step_result_def)
next
  case (5 e r k h w m w' c)
  then obtain run where "dget (eng_runs e) r = Some run" "dget (wr_steps run) k = None"
    by (auto simp: known_def step_log_def)
  with 5 show ?case by (auto simp: step_def step_log_record known_record step_result_def)
next
  case (6 e r k h w w' c)
  then obtain run where "dget (eng_runs e) r = Some run" "dget (wr_steps run) k = None"
    by (auto simp: known_def step_log_def)
  with 6 show ?case by (auto simp: step_def)
next
  case (7 e r k v h c w)
  then show ?case by (auto simp: step_def step_result_def dest!: step_log_hit split: if_splits)
qed

text \<open>Re-opening a run, starting another one, and finishing a run leave every step log alone.\<close>

lemma start_run_log:
  assumes "(rid = None \<or> rid = Some []) \<longrightarrow> \<not> known e uuid"
  shows "step_log (snd (start_run name inp rid uuid now e)) = step_log e"
proof (cases rule: start_run_cases [where rid = rid and uuid = uuid and e = e])
  case (reopen r run)
  then show ?thesis
    by (auto simp: start_run_reopen [OF reopen(2,3)] step_log_def dict_simps fun_eq_iff)
next
  case (new r)
  with assms have "dget (eng_runs e) r = None" by (auto simp: known_def)
  then show ?thesis
    by (auto simp: start_run_new [OF new] step_log_def new_run_def dict_simps fun_eq_iff)
qed

lemma start_run_known:
  assumes "engine_wf e"
  shows "known (snd (start_run name inp rid uuid now e)) r \<longleftrightarrow>
    known e r \<or> r = fst (start_run name inp rid uuid now e)"
proof (cases rule: start_run_cases [where rid = rid and uuid = uuid and e = e])
  case (reopen r' run)
  then have "wr_id run = r'" using engine_wf_run [OF assms] by blast
  then show ?thesis by (auto simp: start_run_reopen [OF reopen(2,3)] reopen known_def dict_simps)
next
  case (new r')
  then show ?thesis by (auto simp: start_run_new [OF new] known_def dict_simps)
qed

lemma finish_run_log: "finish_run rid st out now e = Inr e' \<Longrightarrow> step_log e' = step_log e"
  by (auto simp: finish_run_def step_log_def dict_simps fun_eq_iff split: option.splits if_splits)

lemma finish_run_known: "finish_run rid st out now e = Inr e' \<Longrightarrow> known e' = known e"
  by (auto simp: finish_run_def known_def dict_simps fun_eq_iff split: option.splits if_splits)

subsection \<open>Whole histories of one engine\<close>

datatype ('w, 'v) engine_op =
    OpStart string "'v option" "string option" string string
  | OpStep string string "('w, 'v) handler" "int \<times> string"
  | OpFinish string run_status "'v option" string

fun exec_op :: "('w, 'v) engine_op \<Rightarrow> 'v engine \<times> 'w \<Rightarrow> 'v engine \<times> 'w" where
  "exec_op (OpStart name inp rid uuid now) (e, w) = (snd (start_run name inp rid uuid now e), w)"
| "exec_op (OpStep rid key h clock) (e, w) = snd (step rid key h clock e w)"
| "exec_op (OpFinish rid st out now) (e, w) =
     (case finish_run rid st out now e of Inl _ \<Rightarrow> (e, w) | Inr e' \<Rightarrow> (e', w))"

text \<open>UUIDs do not collide with run ids already in use.\<close>

fun fresh_uuids :: "('w, 'v) engine_op list \<Rightarrow> 'v engine \<times> 'w \<Rightarrow> bool" where
  "fresh_uuids [] s = True"
| "fresh_uuids (x # xs) s =
     ((case x of OpStart _ _ rid uuid _ \<Rightarrow> (rid = None \<or> rid = Some []) \<longrightarrow> \<not> known (fst s) uuid
       | _ \<Rightarrow> True) \<and> fresh_uuids xs (exec_op x s))"

text \<open>How often the handler of one step of one run was called and finished (returned or raised).\<close>

definition handler_finishes :: "string \<Rightarrow> string \<Rightarrow> ('w, 'v) engine_op \<Rightarrow> 'v engine \<times> 'w \<Rightarrow> bool" where
  "handler_finishes r k x s =
     (case x of
        OpStep rid key h _ \<Rightarrow> rid = r \<and> key = k \<and> known (fst s) r \<and> step_log (fst s) r k = None
          \<and> fst (h (snd s)) \<noteq> Aborted
      | _ \<Rightarrow> False)"

fun finished_calls :: "string \<Rightarrow> string \<Rightarrow> ('w, 'v) engine_op list \<Rightarrow> 'v engine \<times> 'w \<Rightarrow> nat" where
  "finished_calls r k [] s = 0"
| "finished_calls r k (x # xs) s =
     (if handler_finishes r k x s then 1 else 0) + finished_calls r k xs (exec_op x s)"

lemma exec_op_keeps_log:
  assumes "fresh_uuids [x] s" and "step_log (fst s) r k = Some res"
  shows "step_log (fst (exec_op x s)) r k = Some res"
proof (cases s)
  case (Pair e w)
  show ?thesis
  proof (cases x)
    case (OpStep rid key h clock)
    obtain y e' w' where "step rid key h clock e w = (y, e', w')" by (cases "step rid key h clock e w") auto
    with mem_engine.step_keeps_log [OF this] assms(2) OpStep Pair show ?thesis by simp
  qed (use assms Pair in \<open>auto simp: start_run_log finish_run_log split: sum.splits\<close>)
qed

lemma finishing_logs:
  assumes "handler_finishes r k x s"
  shows "\<exists>res. step_log (fst (exec_op x s)) r k = Some res"
proof -
  obtain e w where s: "s = (e, w)" by (cases s)
  from assms s obtain h c where x: "x = OpStep r k h c" and kn: "known e r" and lg: "step_log e r k = None"
    and na: "fst (h w) \<noteq> Aborted"
    by (auto simp: handler_finishes_def split: engine_op.splits)
  obtain out w' where h: "h w = (out, w')" by (cases "h w")
  show ?thesis
    using mem_engine.miss_returned [OF kn lg, of h w _ w' c] mem_engine.miss_raised [OF kn lg, of h w _ w' c]
      x s h na by (cases out) auto
qed

lemma finished_calls_bound:
  "fresh_uuids xs s \<Longrightarrow> finished_calls r k xs s \<le> (if step_log (fst s) r k = None then 1 else 0)"
proof (induction xs arbitrary: s)
  case Nil
  then show ?case by simp
next
  case (Cons x xs)
  from Cons.prems have fx: "fresh_uuids [x] s" and fr: "fresh_uuids xs (exec_op x s)" by auto
  note IH = Cons.IH [OF fr]
  show ?case
  proof (cases "handler_finishes r k x s")
    case True
    with finishing_logs [OF True] IH show ?thesis
      by (auto simp: handler_finishes_def split: engine_op.splits)
  next
    case False
    with IH exec_op_keeps_log [OF fx, of r k] show ?thesis by (auto split: if_splits)
  qed
qed

subsection \<open>Properties\<close>

text \<open>
  C15: A workflow that completed a prefix of its steps, and whose run is then re-opened under the
  same id, replays that prefix from the log: whatever the handlers of the prefix are now, none of
  them runs and the outside world is untouched; the recorded outputs come back in order, and
  execution continues with the first step that had not completed.
\<close>

theorem engine_resume_replays_prefix:
  fixes prefix prefix' rest :: "(string \<times> ('w, 'v) handler \<times> (int \<times> string)) list"
  assumes "run_steps step r prefix e w = (Inr vs, e', w')"
    and "map fst prefix' = map fst prefix"
    and "known e r" and "r \<noteq> []"
  shows "run_steps step r (prefix' @ rest) (snd (start_run name inp (Some r) uuid now e')) v
    = prepend_results vs (run_steps step r rest (snd (start_run name inp (Some r) uuid now e')) v)"
proof (rule mem_engine.completed_prefix_replays [OF assms(1,2)])
  let ?e2 = "snd (start_run name inp (Some r) uuid now e')"
  have k: "known e' r" using mem_engine.run_steps_keep [OF assms(1)] assms(3) by (metis (full_types))
  then obtain run where run: "dget (eng_runs e') r = Some run" by (auto simp: known_def)
  show "step_log ?e2 r = step_log e' r" using assms(4) by (simp add: start_run_log)
  show "known ?e2 r" by (simp add: start_run_reopen [OF assms(4) run] known_def dict_simps)
qed

theorem engine_resume_replays_prefix_witness:
  "run_steps step ''r'' ([(''a'', \<lambda>w. (Raised ''boom'', w + 100), (0, ''t''))] @ [(''b'', \<lambda>w. (Returned (Some w), w + 1), (0, ''t''))])
     (snd (start_run ''wf'' None (Some ''r'') ''u'' ''t3''
        (fst (snd (run_steps step ''r'' [(''a'', \<lambda>w. (Returned (Some (7::nat)), w + 1), (0, ''t1''))]
                     (snd (start_run ''wf'' None (Some ''r'') ''u'' ''t0'' empty_engine)) (0::nat)))))) 5
   = prepend_results [Some 7] (run_steps step ''r'' [(''b'', \<lambda>w. (Returned (Some w), w + 1), (0, ''t''))]
     (snd (start_run ''wf'' None (Some ''r'') ''u'' ''t3''
        (fst (snd (run_steps step ''r'' [(''a'', \<lambda>w. (Returned (Some (7::nat)), w + 1), (0, ''t1''))]
                     (snd (start_run ''wf'' None (Some ''r'') ''u'' ''t0'' empty_engine)) (0::nat)))))) 5)"
  by (rule engine_resume_replays_prefix
      [where e = "snd (start_run ''wf'' None (Some ''r'') ''u'' ''t0'' empty_engine)" and w = "0::nat"
        and w' = "1::nat" and prefix = "[(''a'', \<lambda>w. (Returned (Some (7::nat)), w + 1), (0, ''t1''))]"])
    (simp_all add: engine_defs empty_engine_def)

text \<open>
  Over any history of starts, steps and finishes on one engine, the handler of a given step of
  a given run is carried through at most once, and not at all once a result is on record.
\<close>

theorem engine_step_at_most_once:
  assumes "fresh_uuids ops (e, w)"
  shows "finished_calls r k ops (e, w) \<le> 1
    \<and> (step_log e r k \<noteq> None \<longrightarrow> finished_calls r k ops (e, w) = 0)"
  using finished_calls_bound [OF assms, of r k] by (auto split: if_splits)

theorem engine_step_at_most_once_witness:
  "finished_calls ''r'' ''a''
     [OpStart ''wf'' None (Some ''r'') ''u'' ''t0'',
      OpStep ''r'' ''a'' (\<lambda>w. (Aborted, w)) (0, ''t1''),
      OpStep ''r'' ''a'' (\<lambda>w. (Raised ''x'', w + 1)) (0, ''t2''),
      OpStart ''wf'' None None ''u2'' ''t3'',
      OpStep ''r'' ''a'' (\<lambda>w. (Returned (Some (1::nat)), w + 1)) (0, ''t4'')]
     (empty_engine, 0::nat) \<le> 1"
proof -
  have "fresh_uuids
     [OpStart ''wf'' None (Some ''r'') ''u'' ''t0'',
      OpStep ''r'' ''a'' (\<lambda>w. (Aborted, w)) (0, ''t1''),
      OpStep ''r'' ''a'' (\<lambda>w. (Raised ''x'', w + 1)) (0, ''t2''),
      OpStart ''wf'' None None ''u2'' ''t3'',
      OpStep ''r'' ''a'' (\<lambda>w. (Returned (Some (1::nat)), w + 1)) (0, ''t4'')]
     (empty_engine, 0::nat)"
    by (simp add: engine_defs empty_engine_def)
  from engine_step_at_most_once [OF this] show ?thesis by blast
qed

text \<open>
  Listing runs returns only runs of the engine that match the filter, newest start first, at
  most \<open>limit\<close> of them, and a matching run that is cut off by the limit is never newer than one
  that is listed.
\<close>

theorem list_runs_spec:
  assumes "f_limit f = Some n" and "0 \<le> n"
  shows "sorted_wrt (\<lambda>a b. sum_started b \<le> sum_started a) (list_runs (Some f) e)
    \<and> length (list_runs (Some f) e) = min (nat n) (length (filter (matches_filter f) (map snd (eng_runs e))))
    \<and> (\<exists>cut. mset (list_runs (Some f) e @ cut)
              = mset (map summary_of (filter (matches_filter f) (map snd (eng_runs e))))
            \<and> (\<forall>a \<in> set (list_runs (Some f) e). \<forall>b \<in> set cut. sum_started b \<le> sum_started a))"
proof -
  let ?all = "sort_desc wr_started (filter (matches_filter f) (map snd (eng_runs e)))"
  let ?cut = "map summary_of (drop (nat n) ?all)"
  have lr: "list_runs (Some f) e = map summary_of (take (nat n) ?all)"
    using assms by (simp add: list_runs_def py_take_def)
  have st: "sum_started (summary_of r) = wr_started r" for r :: "'a workflow_run"
    by (simp add: summary_of_def)
  have srt: "sorted_wrt (\<lambda>a b. wr_started b \<le> wr_started a) ?all" by (rule sorted_sort_desc)
  have "list_runs (Some f) e @ ?cut = map summary_of (take (nat n) ?all @ drop (nat n) ?all)"
    by (simp only: lr map_append)
  then have "list_runs (Some f) e @ ?cut = map summary_of ?all"
    by (simp only: append_take_drop_id)
  then have perm: "mset (list_runs (Some f) e @ ?cut)
      = mset (map summary_of (filter (matches_filter f) (map snd (eng_runs e))))"
    by (simp only: mset_map mset_sort_desc)
  have "\<forall>a \<in> set (list_runs (Some f) e). \<forall>b \<in> set ?cut. sum_started b \<le> sum_started a"
    using sorted_wrt_take_drop [OF srt] by (auto simp: lr st)
  moreover have "sorted_wrt (\<lambda>a b. sum_started b \<le> sum_started a) (list_runs (Some f) e)"
    using sorted_wrt_take [OF srt, of "nat n"] by (simp add: lr sorted_wrt_map st)
  moreover have "length (list_runs (Some f) e) = min (nat n) (length (filter (matches_filter f) (map snd (eng_runs e))))"
    by (simp add: lr min.commute)
  ultimately show ?thesis using perm by blast
qed

theorem list_runs_spec_witness:
  "length (list_runs (Some \<lparr>f_name = Some ''wf'', f_status = None, f_limit = Some 1\<rparr>)
     (snd (start_run ''wf'' None (Some ''b'') ''u'' ''t2''
        (snd (start_run ''wf'' (None :: nat option) (Some ''a'') ''u'' ''t1'' empty_engine))))) = 1"
proof -
  let ?f = "\<lparr>f_name = Some ''wf'', f_status = None, f_limit = Some 1\<rparr>"
  let ?e = "snd (start_run ''wf'' None (Some ''b'') ''u'' ''t2''
        (snd (start_run ''wf'' (None :: nat option) (Some ''a'') ''u'' ''t1'' empty_engine)))"
  have "length (list_runs (Some ?f) ?e) = min (nat 1) (length (filter (matches_filter ?f) (map snd (eng_runs ?e))))"
    by (rule list_runs_spec [of ?f 1 ?e, THEN conjunct2, THEN conjunct1]) simp_all
  also have "\<dots> = 1" by (simp add: engine_defs empty_engine_def matches_filter_def)
  finally show ?thesis .
qed

end
