(* ===== verification/Evolution_Loop.thy ===== *)
theory Evolution_Loop
  imports Workflow_Engine
begin

text \<open>
  The evolutionary loop of \<open>workflow/loop_agent.py\<close> with the Pareto selection of
  \<open>workflow/population_store.py\<close>.

  The population table, the sub-agents and the tracking server are outside the model: the table is
  three functions of an abstract state (load the best of a generation, write rows, best-fitness
  history), a sub-agent call is a function from a request to a JSON value or nothing (it raised),
  decoded mutations are a function of the generation and the parents.  Hypotheses are mutable
  objects shared between lists, so selection and flagging work on positions in the pool.
\<close>

subsection \<open>Hypotheses\<close>

record hypothesis =
  hy_id :: string
  hy_generation :: int
  hy_parent :: "string option"
  hy_cipher_type :: string
  hy_source_language :: string
  hy_symbol_map :: "(string \<times> pyval) list"
  hy_null_chars :: "string list"
  hy_rules :: "(string \<times> pyval) list list"
  hy_statistical :: pyfloat
  hy_perplexity :: pyfloat
  hy_semantic :: pyfloat
  hy_consistency :: pyfloat
  hy_adversarial :: pyfloat
  hy_composite :: pyfloat
  hy_eval_historian :: pyval
  hy_eval_critic :: pyval
  hy_decoded_sample :: string
  hy_run_id :: string
  hy_flagged :: bool

definition composite_fitness :: "hypothesis \<Rightarrow> pyfloat" where
  "composite_fitness h =
     3333 / 10000 * hy_statistical h + 4 / 10 * hy_semantic h + 2 / 10 * hy_consistency h + 667 / 10000 * hy_adversarial h"

text \<open>\<open>getattr(h, objective, 0.0)\<close> for the numeric attributes.\<close>

definition objective :: "string \<Rightarrow> hypothesis \<Rightarrow> pyfloat" where
  "objective name h =
     (if name = ''fitness_statistical'' then hy_statistical h
      else if name = ''fitness_perplexity'' then hy_perplexity h
      else if name = ''fitness_semantic'' then hy_semantic h
      else if name = ''fitness_consistency'' then hy_consistency h
      else if name = ''fitness_adversarial'' then hy_adversarial h
      else if name = ''fitness_composite'' then hy_composite h
      else if name = ''generation'' then of_int (hy_generation h)
      else 0)"

definition common_letters :: "string list" where
  "common_letters = [''e'', ''t'', ''a'', ''o'', ''i'', ''n'', ''s'', ''h'', ''r'', ''d'', ''l'', ''u'']"

definition local_statistical_fitness :: "hypothesis \<Rightarrow> pyfloat" where
  "local_statistical_fitness h =
     (if hy_symbol_map h = [] then 0
      else let covered = length (filter (\<lambda>(k, v). case v of PStr s \<Rightarrow> lower s \<in> set common_letters | _ \<Rightarrow> False)
                                  (hy_symbol_map h))
           in min 1 (real covered / real (length common_letters)))"

subsection \<open>Pareto selection\<close>

definition pareto_dominates :: "hypothesis \<Rightarrow> hypothesis \<Rightarrow> string list \<Rightarrow> bool" where
  "pareto_dominates a b objs \<longleftrightarrow>
     (\<forall>n \<in> set objs. objective n a \<ge> objective n b) \<and> (\<exists>n \<in> set objs. objective n a > objective n b)"

text \<open>The positions of the frontier: \<open>other is not candidate\<close> compares objects, hence positions.\<close>

definition pareto_positions :: "hypothesis list \<Rightarrow> string list \<Rightarrow> nat list" where
  "pareto_positions pop objs =
     filter (\<lambda>i. \<not> (\<exists>j \<in> set [0..<length pop]. j \<noteq> i \<and> pareto_dominates (pop ! j) (pop ! i) objs)) [0..<length pop]"

definition pareto_frontier :: "hypothesis list \<Rightarrow> string list \<Rightarrow> hypothesis list" where
  "pareto_frontier pop objs = map ((!) pop) (pareto_positions pop objs)"

subsection \<open>Configuration\<close>

record loop_config =
  lc_population_table :: string
  lc_fitness_agents :: "string list"
  lc_mutation_agent :: string
  lc_judge_agent :: string
  lc_population_size :: int
  lc_mutation_batch :: int
  lc_max_generations :: int
  lc_patience :: int
  lc_escalation_threshold :: pyfloat
  lc_top_k_adversarial :: pyfloat
  lc_objectives :: "string list"

fun last_dot :: "string \<Rightarrow> nat option" where
  "last_dot [] = None"
| "last_dot (c # s) = (case last_dot s of Some i \<Rightarrow> Some (Suc i) | None \<Rightarrow> if c = CHR ''.'' then Some 0 else None)"

definition table_namespace :: "loop_config \<Rightarrow> string" where
  "table_namespace cfg =
     (case last_dot (lc_population_table cfg) of None \<Rightarrow> [] | Some i \<Rightarrow> take i (lc_population_table cfg))"

subsection \<open>Sub-agents\<close>

definition all_digits :: "string \<Rightarrow> bool" where
  "all_digits s \<longleftrightarrow> s \<noteq> [] \<and> (\<forall>c \<in> set s. CHR ''0'' \<le> c \<and> c \<le> CHR ''9'')"

fun strip_app_id :: "string list \<Rightarrow> nat \<Rightarrow> string option" where
  "strip_app_id segs 0 = None"
| "strip_app_id segs (Suc i) =
     (if all_digits (segs ! Suc i) \<and> length (segs ! Suc i) > 8 then Some (join ''-'' (take (Suc i) segs))
      else strip_app_id segs i)"

text \<open>\<open>hostname\<close> is the URL parser: the host name, \<open>Some ''\<close> for none, or nothing (it raised).\<close>

definition url_to_app_name :: "(string \<Rightarrow> string option) \<Rightarrow> string \<Rightarrow> string option" where
  "url_to_app_name hostname url =
     (if url = [] \<or> \<not> str_contains ''databricksapps.com'' url then None
      else case hostname url of
             None \<Rightarrow> None
           | Some host \<Rightarrow>
               (let name = hd (split_on (\<lambda>c. c = CHR ''.'') host);
                    segs = split_on (\<lambda>c. c = CHR ''-'') name
                in case strip_app_id segs (length segs - 1) of Some n \<Rightarrow> Some n | None \<Rightarrow> Some name))"

datatype app_request =
    EvaluateRequest string hypothesis
  | ScoreReasoning string string

text \<open>\<open>app name request\<close>: the decoded JSON answer, or nothing when the call or the decoding raised.\<close>

type_synonym app_call = "string \<Rightarrow> app_request \<Rightarrow> pyval option"

definition agent_url :: "loop_config \<Rightarrow> string \<Rightarrow> string" where
  "agent_url cfg agent =
     (if agent = ''historian'' then (case lc_fitness_agents cfg of [] \<Rightarrow> [] | u # _ \<Rightarrow> u)
      else if agent = ''critic'' \<or> agent = ''adversarial'' then
        (case lc_fitness_agents cfg of _ # u # _ \<Rightarrow> u | _ \<Rightarrow> [])
      else [])"

definition call_fitness_agent ::
  "(string \<Rightarrow> string option) \<Rightarrow> app_call \<Rightarrow> loop_config \<Rightarrow> hypothesis \<Rightarrow> string \<Rightarrow> pyval" where
  "call_fitness_agent hostname app cfg h agent =
     (case url_to_app_name hostname (agent_url cfg agent) of
        None \<Rightarrow> PDict []
      | Some [] \<Rightarrow> PDict []
      | Some (c # cs) \<Rightarrow> (case app (c # cs) (EvaluateRequest (''evaluate_'' @ agent) h) of None \<Rightarrow> PDict [] | Some v \<Rightarrow> v))"

text \<open>\<open>float(x)\<close>; \<open>parse\<close> reads numeric text.\<close>

fun to_float :: "(string \<Rightarrow> pyfloat option) \<Rightarrow> pyval \<Rightarrow> pyfloat option" where
  "to_float parse (PFloat x) = Some x"
| "to_float parse (PInt n) = Some (of_int n)"
| "to_float parse (PBool b) = Some (if b then 1 else 0)"
| "to_float parse (PStr s) = parse s"
| "to_float parse _ = None"

datatype fitness_field = Semantic | Consistency | Adversarial

definition agent_fitness_field :: "string \<Rightarrow> (fitness_field \<times> string) option" where
  "agent_fitness_field agent =
     (if agent = ''historian'' then Some (Semantic, ''fitness_semantic'')
      else if agent = ''critic'' then Some (Consistency, ''fitness_consistency'')
      else if agent = ''adversarial'' then Some (Adversarial, ''fitness_adversarial'')
      else None)"

fun set_fitness :: "fitness_field \<Rightarrow> pyfloat \<Rightarrow> hypothesis \<Rightarrow> hypothesis" where
  "set_fitness Semantic x h = h\<lparr>hy_semantic := x\<rparr>"
| "set_fitness Consistency x h = h\<lparr>hy_consistency := x\<rparr>"
| "set_fitness Adversarial x h = h\<lparr>hy_adversarial := x\<rparr>"

text \<open>The first of the two keys that is present with a numeric value wins.\<close>

fun first_number :: "(string \<Rightarrow> pyfloat option) \<Rightarrow> (string \<times> pyval) list \<Rightarrow> string list \<Rightarrow> pyfloat option" where
  "first_number parse d [] = None"
| "first_number parse d (k # ks) =
     (case dget d k of
        None \<Rightarrow> first_number parse d ks
      | Some v \<Rightarrow> (case to_float parse v of Some x \<Rightarrow> Some x | None \<Rightarrow> first_number parse d ks))"

definition merge_fitness_response ::
  "(string \<Rightarrow> pyfloat option) \<Rightarrow> string \<Rightarrow> (string \<times> pyval) list \<Rightarrow> hypothesis \<Rightarrow> hypothesis" where
  "merge_fitness_response parse agent response h =
     (case agent_fitness_field agent of
        None \<Rightarrow> h
      | Some (field, key) \<Rightarrow>
          (case first_number parse response [key, ''fitness_'' @ agent] of
             None \<Rightarrow> h
           | Some x \<Rightarrow> set_fitness field x h))"

definition merge_answer :: "(string \<Rightarrow> pyfloat option) \<Rightarrow> string \<Rightarrow> pyval \<Rightarrow> hypothesis \<Rightarrow> hypothesis" where
  "merge_answer parse agent v h = (case v of PDict d \<Rightarrow> merge_fitness_response parse agent d h | _ \<Rightarrow> h)"

text \<open>\<open>int(x)\<close> of a float.\<close>

definition trunc_int :: "pyfloat \<Rightarrow> int" where
  "trunc_int x = (if x < 0 then \<lceil>x\<rceil> else \<lfloor>x\<rfloor>)"

text \<open>
  All requests are made before any answer is merged, so every agent sees the hypothesis with its
  statistical score only.
\<close>

definition evaluate ::
  "(string \<Rightarrow> pyfloat option) \<Rightarrow> (string \<Rightarrow> string option) \<Rightarrow> app_call \<Rightarrow> loop_config \<Rightarrow> hypothesis list \<Rightarrow> hypothesis list" where
  "evaluate parse hostname app cfg candidates =
     (let scored = map (\<lambda>h. h\<lparr>hy_statistical := local_statistical_fitness h\<rparr>) candidates;
          ranked = sort_desc hy_statistical scored;
          cutoff = max 1 (trunc_int (real (length ranked) * lc_top_k_adversarial cfg));
          adversarial = map hy_id (py_take cutoff ranked)
      in map (\<lambda>h. fold (\<lambda>agent. merge_answer parse agent (call_fitness_agent hostname app cfg h agent))
                 ([''historian'', ''critic''] @ (if hy_id h \<in> set adversarial then [''adversarial''] else [])) h)
           scored)"

text \<open>
  \<open>_judge\<close> scores the reasoning of the top fifth, best composite first, writing two fields of the judged
  objects in place; a raised call or an answer that is not an object changes nothing.
\<close>

definition judge_answer :: "pyval option \<Rightarrow> hypothesis \<Rightarrow> hypothesis" where
  "judge_answer answer h =
     (case answer of
        Some (PDict d) \<Rightarrow>
          h\<lparr>hy_eval_historian := (case dget d ''historian_score'' of None \<Rightarrow> PFloat 0 | Some v \<Rightarrow> v),
            hy_eval_critic := (case dget d ''critic_score'' of None \<Rightarrow> PFloat 0 | Some v \<Rightarrow> v)\<rparr>
      | _ \<Rightarrow> h)"

definition judged_positions :: "hypothesis list \<Rightarrow> nat list" where
  "judged_positions evaluated =
     py_take (max 1 (trunc_int (real (length evaluated) * (20 / 100))))
       (sort_desc (\<lambda>i. composite_fitness (evaluated ! i)) [0..<length evaluated])"

definition judge :: "(string \<Rightarrow> string option) \<Rightarrow> app_call \<Rightarrow> loop_config \<Rightarrow> hypothesis list \<Rightarrow> hypothesis list" where
  "judge hostname app cfg evaluated =
     (case url_to_app_name hostname (lc_judge_agent cfg) of
        None \<Rightarrow> evaluated
      | Some name \<Rightarrow>
          if name = [] then evaluated
          else fold (\<lambda>i hs. hs[i := judge_answer (app name (ScoreReasoning (hy_id (hs ! i)) (hy_run_id (hs ! i)))) (hs ! i)])
                 (judged_positions evaluated) evaluated)"

subsection \<open>A generation\<close>

text \<open>
  What the loop reaches outside: the population table (each access may raise, a failed write may have
  written some rows), the sub-agents, the
  decoded answer of the mutation agent, the tracking id of a generation.
\<close>

record 's loop_env =
  le_load :: "int \<Rightarrow> int \<Rightarrow> 's \<Rightarrow> hypothesis list option"
  le_write :: "hypothesis list \<Rightarrow> 's \<Rightarrow> bool \<times> 's"
  le_history :: "int \<Rightarrow> 's \<Rightarrow> pyfloat list option"
  le_parse :: "string \<Rightarrow> pyfloat option"
  le_hostname :: "string \<Rightarrow> string option"
  le_app :: app_call
  le_mutations :: "string \<Rightarrow> int \<Rightarrow> hypothesis list \<Rightarrow> hypothesis list option"
  le_gen_run :: "int \<Rightarrow> string"

record gen_result =
  gr_generation :: int
  gr_population_size :: nat
  gr_best :: pyfloat
  gr_frontier_size :: nat
  gr_survivors :: "hypothesis list"
  gr_escalated :: "hypothesis list"
  gr_converged :: bool

definition mutate :: "'s loop_env \<Rightarrow> loop_config \<Rightarrow> hypothesis list \<Rightarrow> int \<Rightarrow> hypothesis list" where
  "mutate env cfg parents generation =
     (case url_to_app_name (le_hostname env) (lc_mutation_agent cfg) of
        None \<Rightarrow> []
      | Some name \<Rightarrow>
          if name = [] then []
          else (case le_mutations env name generation parents of None \<Rightarrow> [] | Some hs \<Rightarrow> hs))"

definition survivor_positions :: "loop_config \<Rightarrow> hypothesis list \<Rightarrow> nat list" where
  "survivor_positions cfg pool = py_take (lc_population_size cfg) (pareto_positions pool (lc_objectives cfg))"

definition escalated_positions :: "loop_config \<Rightarrow> hypothesis list \<Rightarrow> nat list" where
  "escalated_positions cfg pool =
     filter (\<lambda>i. composite_fitness (pool ! i) \<ge> lc_escalation_threshold cfg \<and> \<not> hy_flagged (pool ! i))
       (survivor_positions cfg pool)"

definition flag_all :: "nat list \<Rightarrow> hypothesis list \<Rightarrow> hypothesis list" where
  "flag_all ps pool = fold (\<lambda>i hs. hs[i := (hs ! i)\<lparr>hy_flagged := True\<rparr>]) ps pool"

definition write_hypotheses :: "'s loop_env \<Rightarrow> hypothesis list \<Rightarrow> 's \<Rightarrow> bool \<times> 's" where
  "write_hypotheses env hs s = (if hs = [] then (True, s) else le_write env hs s)"

text \<open>\<open>len(history) >= patience and max(history) - min(history) < 0.001\<close>; nothing: \<open>max\<close> of an empty list raised.\<close>

definition converged :: "int \<Rightarrow> pyfloat list \<Rightarrow> bool option" where
  "converged patience history =
     (if int (length history) < patience then Some False
      else if history = [] then None
      else Some (Max (set history) - Min (set history) < 1 / 1000))"

definition best_composite :: "hypothesis list \<Rightarrow> pyfloat" where
  "best_composite hs = py_max_default 0 (map composite_fitness hs)"

definition run_generation :: "'s loop_env \<Rightarrow> loop_config \<Rightarrow> int \<Rightarrow> 's \<Rightarrow> gen_result option \<times> 's" where
  "run_generation env cfg generation s =
     (case (if generation > 0 then le_load env (generation - 1) (lc_mutation_batch cfg) s else Some []) of
        None \<Rightarrow> (None, s)
      | Some parents \<Rightarrow>
          (let candidates = mutate env cfg parents generation;
               evaluated = evaluate (le_parse env) (le_hostname env) (le_app env) cfg candidates;
               judged = judge (le_hostname env) (le_app env) cfg evaluated;
               pool = parents @ judged;
               survivors = survivor_positions cfg pool;
               escalated = escalated_positions cfg pool;
               flagged = flag_all escalated pool;
               parents' = take (length parents) flagged;
               judged' = map (\<lambda>h. h\<lparr>hy_run_id := le_gen_run env generation\<rparr>) (drop (length parents) flagged);
               pool' = parents' @ judged'
           in case write_hypotheses env judged' s of
                (False, s') \<Rightarrow> (None, s')
              | (True, s') \<Rightarrow>
                  (case le_history env (lc_patience cfg) s' of
                     None \<Rightarrow> (None, s')
                   | Some history \<Rightarrow>
                       (case converged (lc_patience cfg) history of
                          None \<Rightarrow> (None, s')
                        | Some c \<Rightarrow>
                            (Some \<lparr>gr_generation = generation, gr_population_size = length survivors,
                                   gr_best = best_composite (map ((!) pool') survivors),
                                   gr_frontier_size = length (pareto_positions pool (lc_objectives cfg)),
                                   gr_survivors = map ((!) pool') survivors,
                                   gr_escalated = map ((!) pool') escalated,
                                   gr_converged = c\<rparr>, s')))))"

subsection \<open>The loop object: tools and the run\<close>

record loop_state =
  ls_running :: bool
  ls_generation :: int
  ls_results :: "gen_result list"

datatype loop_error = NoGenerations | EmptyPopulation | NotFound string | IndexRaised

definition new_loop :: loop_state where
  "new_loop = \<lparr>ls_running = False, ls_generation = 0, ls_results = []\<rparr>"

record loop_status =
  st_running :: bool
  st_generation :: int
  st_completed :: nat
  st_best :: pyfloat
  st_escalated :: nat

definition get_status :: "loop_state \<Rightarrow> loop_status" where
  "get_status ls =
     \<lparr>st_running = ls_running ls, st_generation = ls_generation ls, st_completed = length (ls_results ls),
      st_best = py_max_default 0 (map gr_best (ls_results ls)),
      st_escalated = sum_list (map (\<lambda>r. length (gr_escalated r)) (ls_results ls))\<rparr>"

text \<open>\<open>self._results[generation]\<close>: a negative index counts from the end, out of range raises.\<close>

definition py_nth :: "'a list \<Rightarrow> int \<Rightarrow> 'a option" where
  "py_nth xs i =
     (let j = (if i < 0 then i + int (length xs) else i)
      in if 0 \<le> j \<and> j < int (length xs) then Some (xs ! nat j) else None)"

definition get_best_hypothesis :: "int \<Rightarrow> loop_state \<Rightarrow> loop_error + hypothesis" where
  "get_best_hypothesis generation ls =
     (if ls_results ls = [] then Inl NoGenerations
      else case py_nth (ls_results ls) generation of
             None \<Rightarrow> Inl IndexRaised
           | Some r \<Rightarrow>
               (case gr_survivors r of
                  [] \<Rightarrow> Inl EmptyPopulation
                | h # hs \<Rightarrow> Inr (py_max_by composite_fitness h hs)))"

definition get_generation_summary :: "int \<Rightarrow> loop_state \<Rightarrow> loop_error + (int \<times> pyfloat \<times> nat \<times> nat \<times> bool)" where
  "get_generation_summary generation ls =
     (if ls_results ls = [] then Inl NoGenerations
      else case py_nth (ls_results ls) generation of
             None \<Rightarrow> Inl IndexRaised
           | Some r \<Rightarrow>
               Inr (gr_generation r, gr_best r, gr_frontier_size r, length (gr_escalated r), gr_converged r))"

definition pause_loop :: "loop_state \<Rightarrow> int \<times> loop_state" where
  "pause_loop ls = (ls_generation ls, ls\<lparr>ls_running := False\<rparr>)"

definition resume_loop :: "loop_state \<Rightarrow> int" where
  "resume_loop ls = ls_generation ls"

text \<open>Only the first survivor with the id is flagged, in the earliest generation that holds it.\<close>

fun flag_first :: "string \<Rightarrow> gen_result list \<Rightarrow> gen_result list option" where
  "flag_first hid [] = None"
| "flag_first hid (r # rs) =
     (case first_index (\<lambda>h. hy_id h = hid) (gr_survivors r) of
        Some i \<Rightarrow> Some (r\<lparr>gr_survivors := (gr_survivors r)[i := (gr_survivors r ! i)\<lparr>hy_flagged := True\<rparr>]\<rparr> # rs)
      | None \<Rightarrow> map_option ((#) r) (flag_first hid rs))"

definition force_escalate :: "string \<Rightarrow> loop_state \<Rightarrow> (loop_error + string) \<times> loop_state" where
  "force_escalate hid ls =
     (case flag_first hid (ls_results ls) of
        None \<Rightarrow> (Inl (NotFound hid), ls)
      | Some rs \<Rightarrow> (Inr hid, ls\<lparr>ls_results := rs\<rparr>))"

text \<open>
  The tool calls that change the object.  They run on the same event loop, so they fall inside the
  awaits of a generation: \<open>calls g\<close> lists those served while generation \<open>g\<close> was computed.
\<close>

datatype loop_call = Pause | ForceEscalate string

fun serve :: "loop_call \<Rightarrow> loop_state \<Rightarrow> loop_state" where
  "serve Pause ls = snd (pause_loop ls)"
| "serve (ForceEscalate hid) ls = snd (force_escalate hid ls)"

text \<open>
  The body of \<open>run\<close>: \<open>n\<close> generations are left, \<open>gen\<close> is the next.  The result is the value of
  \<open>final_status\<close> when the \<open>finally\<close> block is reached, and whether an exception is passing through.
\<close>

fun run_loop ::
  "'s loop_env \<Rightarrow> loop_config \<Rightarrow> (nat \<Rightarrow> loop_call list) \<Rightarrow> nat \<Rightarrow> nat \<Rightarrow> loop_state \<Rightarrow> 's
    \<Rightarrow> run_status \<times> bool \<times> loop_state \<times> 's" where
  "run_loop env cfg calls 0 gen ls s = (Completed, False, ls, s)"
| "run_loop env cfg calls (Suc n) gen ls s =
     (if \<not> ls_running ls then (Paused, False, ls, s)
      else let (outcome, s') = run_generation env cfg (int gen) s;
               ls' = fold serve (calls gen) (ls\<lparr>ls_generation := int gen\<rparr>)
           in case outcome of
                None \<Rightarrow> (Completed, True, ls', s')
              | Some r \<Rightarrow>
                  (let ls'' = ls'\<lparr>ls_results := ls_results ls' @ [r]\<rparr>
                   in if gr_converged r then (Converged, False, ls'', s')
                      else run_loop env cfg calls n (Suc gen) ls'' s'))"

text \<open>\<open>run\<close>: the clock gives the two time stamps, \<open>uuid\<close> the id of a run that brings none.\<close>

record run_names =
  rn_workflow :: string
  rn_run_id :: "string option"
  rn_uuid :: string
  rn_started :: string
  rn_finished :: string

definition run ::
  "'s loop_env \<Rightarrow> loop_config \<Rightarrow> (nat \<Rightarrow> loop_call list) \<Rightarrow> run_names \<Rightarrow> 'v option \<Rightarrow> loop_state \<Rightarrow> 's \<Rightarrow> 'v engine
    \<Rightarrow> string \<times> bool \<times> loop_state \<times> 's \<times> (engine_error + 'v engine)" where
  "run env cfg calls names inp ls s e =
     (let (rid, e1) = start_run (rn_workflow names) inp (rn_run_id names) (rn_uuid names) (rn_started names) e;
          (st, raised, ls1, s1) = run_loop env cfg calls (nat (lc_max_generations cfg)) 0 (ls\<lparr>ls_running := True\<rparr>) s
      in (rid, raised, ls1\<lparr>ls_running := False\<rparr>, s1, finish_run rid st None (rn_finished names) e1))"

subsection \<open>Dominance\<close>

text \<open>
  What selection needs of a dominance relation: it is transitive and raises some score, so that on
  finitely many candidates every dominated one is dominated by an undominated one.
\<close>

locale dominance =
  fixes beats :: "'a \<Rightarrow> 'a \<Rightarrow> bool" and score :: "'a \<Rightarrow> real"
  assumes beats_trans: "beats a b \<Longrightarrow> beats b c \<Longrightarrow> beats a c"
    and beats_score: "beats a b \<Longrightarrow> score b < score a"
begin

lemma beats_irrefl: "\<not> beats a a"
  using beats_score by blast

lemma beats_asym: "beats a b \<Longrightarrow> \<not> beats b a"
  using beats_trans beats_irrefl by blast

lemma dominated_by_maximal:
  assumes "finite J" and "i \<in> J" and "k \<in> J" and "beats (x k) (x i)"
  shows "\<exists>j \<in> J. beats (x j) (x i) \<and> (\<forall>l \<in> J. \<not> beats (x l) (x j))"
proof -
  let ?K = "{j \<in> J. beats (x j) (x i)}"
  have K: "finite ?K" "?K \<noteq> {}" using assms by auto
  let ?m = "Max ((\<lambda>j. score (x j)) ` ?K)"
  have "?m \<in> (\<lambda>j. score (x j)) ` ?K" using K by (intro Max_in) auto
  then obtain j where j: "j \<in> ?K" and m: "?m = score (x j)" by auto
  have mx: "score (x l) \<le> score (x j)" if "l \<in> ?K" for l
    unfolding m [symmetric] using that K(1) by (intro Max_ge) auto
  have "\<not> beats (x l) (x j)" if "l \<in> J" for l
  proof
    assume l: "beats (x l) (x j)"
    then have "l \<in> ?K" using that j beats_trans by blast
    then show False using mx [of l] beats_score [OF l] by simp
  qed
  with j show ?thesis by blast
qed

lemma maximal_exists:
  assumes "finite J" and "J \<noteq> {}"
  shows "\<exists>j \<in> J. \<forall>l \<in> J. \<not> beats (x l) (x j)"
  using dominated_by_maximal [OF assms(1)] assms(2) by blast

end

lemma sum_list_strict:
  fixes f g :: "'a \<Rightarrow> real"
  assumes "\<forall>n \<in> set ns. g n \<le> f n" and "\<exists>n \<in> set ns. g n < f n"
  shows "sum_list (map g ns) < sum_list (map f ns)"
  using assms
proof (induction ns)
  case (Cons n ns)
  have le: "sum_list (map g ns) \<le> sum_list (map f ns)"
    using Cons.prems(1) by (intro sum_list_mono) auto
  show ?case
  proof (cases "g n < f n")
    case True
    with le show ?thesis by simp
  next
    case False
    then have "sum_list (map g ns) < sum_list (map f ns)" using Cons by auto
    then show ?thesis using Cons.prems(1) by (simp add: add_le_less_mono)
  qed
qed simp

lemma pareto_dominates_trans:
  "pareto_dominates a b objs \<Longrightarrow> pareto_dominates b c objs \<Longrightarrow> pareto_dominates a c objs"
  unfolding pareto_dominates_def by (meson le_less_trans order_trans)

lemma pareto_dominates_score:
  "pareto_dominates a b objs \<Longrightarrow>
   sum_list (map (\<lambda>n. objective n b) objs) < sum_list (map (\<lambda>n. objective n a) objs)"
  unfolding pareto_dominates_def by (rule sum_list_strict) auto

interpretation pareto: dominance "\<lambda>a b. pareto_dominates a b objs" "\<lambda>h. sum_list (map (\<lambda>n. objective n h) objs)" for objs
  by unfold_locales (rule pareto_dominates_trans, assumption+, rule pareto_dominates_score, assumption)

lemma pareto_positions_all:
  "pareto_positions pop objs =
     filter (\<lambda>i. \<not> (\<exists>j < length pop. pareto_dominates (pop ! j) (pop ! i) objs)) [0..<length pop]"
proof -
  have "(\<exists>j \<in> set [0..<length pop]. j \<noteq> i \<and> pareto_dominates (pop ! j) (pop ! i) objs) \<longleftrightarrow>
        (\<exists>j < length pop. pareto_dominates (pop ! j) (pop ! i) objs)" for i
    using pareto.beats_irrefl [of "pop ! i" objs] by auto
  then show ?thesis by (simp only: pareto_positions_def)
qed

lemma set_pareto_positions:
  "set (pareto_positions pop objs) =
     {i. i < length pop \<and> (\<forall>j < length pop. \<not> pareto_dominates (pop ! j) (pop ! i) objs)}"
  by (auto simp: pareto_positions_all)

lemma distinct_pareto_positions [simp]: "distinct (pareto_positions pop objs)"
  by (simp add: pareto_positions_def)

lemma sorted_pareto_positions: "sorted (pareto_positions pop objs)"
  unfolding pareto_positions_def by (rule sorted_wrt_filter) simp

lemma set_survivor_positions: "set (survivor_positions cfg pool) \<subseteq> set (pareto_positions pool (lc_objectives cfg))"
  by (simp add: survivor_positions_def set_py_take)

text \<open>
  Pareto selection returns exactly the undominated members of the population, in population
  order; no two of them dominate one another, every other member is dominated by one of them, and a
  nonempty population has a nonempty frontier.
\<close>

theorem pareto_frontier_spec:
  "pareto_frontier pop objs =
     filter (\<lambda>h. \<not> (\<exists>g \<in> set pop. pareto_dominates g h objs)) pop \<and>
   (\<forall>a \<in> set (pareto_frontier pop objs). \<forall>b \<in> set (pareto_frontier pop objs). \<not> pareto_dominates a b objs) \<and>
   (\<forall>h \<in> set pop - set (pareto_frontier pop objs). \<exists>g \<in> set (pareto_frontier pop objs). pareto_dominates g h objs) \<and>
   (pareto_frontier pop objs = [] \<longleftrightarrow> pop = [])"
proof -
  let ?P = "\<lambda>h. \<not> (\<exists>g \<in> set pop. pareto_dominates g h objs)"
  have "pareto_positions pop objs = filter (\<lambda>i. ?P (pop ! i)) [0..<length pop]"
    unfolding pareto_positions_all by (simp add: in_set_conv_nth Bex_def) metis
  then have "pareto_frontier pop objs = filter ?P (map ((!) pop) [0..<length pop])"
    by (simp add: pareto_frontier_def filter_map o_def)
  then have eq: "pareto_frontier pop objs = filter ?P pop" by (simp add: map_nth)
  have dom: "\<exists>g \<in> set (filter ?P pop). pareto_dominates g h objs" if "h \<in> set pop" "\<not> ?P h" for h
    using pareto.dominated_by_maximal [of "set pop" h _ "\<lambda>h. h" objs] that by auto
  have ne: "filter ?P pop \<noteq> []" if "pop \<noteq> []"
    using pareto.maximal_exists [of "set pop" "\<lambda>h. h" objs] that by (auto simp: filter_empty_conv)
  show ?thesis unfolding eq using dom ne by auto
qed

subsection \<open>The run\<close>

definition gen_sig :: "gen_result \<Rightarrow> int \<times> bool" where
  "gen_sig r = (gr_generation r, gr_converged r)"

lemma flag_first_sig: "flag_first hid rs = Some rs' \<Longrightarrow> map gen_sig rs' = map gen_sig rs"
  by (induction rs arbitrary: rs') (auto simp: gen_sig_def split: option.splits)

lemma serve_sig: "map gen_sig (ls_results (serve c ls)) = map gen_sig (ls_results ls)"
  by (cases c) (auto simp: pause_loop_def force_escalate_def flag_first_sig split: option.splits)

lemma serve_running: "ls_running (serve c ls) \<longleftrightarrow> ls_running ls \<and> c \<noteq> Pause"
  by (cases c) (auto simp: pause_loop_def force_escalate_def split: option.splits)

lemma fold_serve:
  "map gen_sig (ls_results (fold serve cs ls)) = map gen_sig (ls_results ls)"
  "ls_running (fold serve cs ls) \<longleftrightarrow> ls_running ls \<and> Pause \<notin> set cs"
  by (induction cs arbitrary: ls) (auto simp: serve_sig serve_running)

lemma run_generation_number: "run_generation env cfg g s = (Some r, s') \<Longrightarrow> gr_generation r = g"
  by (auto simp: run_generation_def Let_def split: option.splits prod.splits bool.splits)

text \<open>How a run over \<open>n\<close> generations from \<open>gen\<close> ends, given the convergence flags of the generations it completed.\<close>

definition ends_as ::
  "(nat \<Rightarrow> loop_call list) \<Rightarrow> nat \<Rightarrow> nat \<Rightarrow> bool \<Rightarrow> run_status \<Rightarrow> bool \<Rightarrow> bool list \<Rightarrow> bool" where
  "ends_as calls n gen running st raised cs \<longleftrightarrow>
     (\<forall>j. Suc j < length cs \<longrightarrow> \<not> cs ! j \<and> Pause \<notin> set (calls (gen + j))) \<and>
     (if raised then st = Completed \<and> length cs < n \<and> True \<notin> set cs
      else if True \<in> set cs then st = Converged \<and> length cs \<le> n
      else if length cs < n then st = Paused \<and> (if cs = [] then \<not> running else Pause \<in> set (calls (gen + length cs - 1)))
      else st = Completed \<and> length cs = n)"

lemma ends_as_Cons:
  assumes "ends_as calls n (Suc gen) (Pause \<notin> set (calls gen)) st raised cs"
    and "n = 0 \<or> Pause \<in> set (calls gen) \<longrightarrow> cs = []"
  shows "ends_as calls (Suc n) gen True st raised (False # cs)"
proof -
  have "\<not> (False # cs) ! j \<and> Pause \<notin> set (calls (gen + j))" if "Suc j < length (False # cs)" for j
    using assms that by (cases j) (auto simp: ends_as_def)
  then show ?thesis using assms by (cases "cs = []") (auto simp: ends_as_def)
qed

lemma run_loop_ends:
  "run_loop env cfg calls n gen ls s = (st, raised, ls', s') \<Longrightarrow>
   \<exists>cs. map gen_sig (ls_results ls') = map gen_sig (ls_results ls) @ zip (map int [gen..<gen + length cs]) cs \<and>
        (\<not> ls_running ls \<longrightarrow> cs = []) \<and> (n = 0 \<longrightarrow> cs = []) \<and> ends_as calls n gen (ls_running ls) st raised cs"
proof (induction n arbitrary: gen ls s)
  case 0
  then show ?case by (intro exI [of _ "[]"]) (auto simp: ends_as_def)
next
  case (Suc n)
  show ?case
  proof (cases "ls_running ls")
    case False
    with Suc.prems show ?thesis by (intro exI [of _ "[]"]) (auto simp: ends_as_def)
  next
    case running: True
    obtain outcome t where g: "run_generation env cfg (int gen) s = (outcome, t)" by fastforce
    define l where "l = fold serve (calls gen) (ls\<lparr>ls_generation := int gen\<rparr>)"
    have l: "map gen_sig (ls_results l) = map gen_sig (ls_results ls)" "ls_running l \<longleftrightarrow> Pause \<notin> set (calls gen)"
      using running by (simp_all add: l_def fold_serve)
    show ?thesis
    proof (cases outcome)
      case None
      with Suc.prems running g l show ?thesis
        by (intro exI [of _ "[]"]) (auto simp: ends_as_def l_def)
    next
      case (Some r)
      have num: "gr_generation r = int gen" using g Some run_generation_number [of env cfg "int gen" s r t] by simp
      show ?thesis
      proof (cases "gr_converged r")
        case True
        then have "gen_sig r = (int gen, True)" using num by (simp add: gen_sig_def)
        with True Suc.prems running g l Some show ?thesis
          by (intro exI [of _ "[True]"]) (auto simp: ends_as_def l_def [symmetric])
      next
        case False
        let ?l = "l\<lparr>ls_results := ls_results l @ [r]\<rparr>"
        have "run_loop env cfg calls n (Suc gen) ?l t = (st, raised, ls', s')"
          using Suc.prems running g Some False by (simp add: l_def Let_def)
        from Suc.IH [OF this] obtain cs where
          cs: "map gen_sig (ls_results ls') =
                 map gen_sig (ls_results ?l) @ zip (map int [Suc gen..<Suc gen + length cs]) cs"
            "\<not> ls_running l \<longrightarrow> cs = []" "n = 0 \<longrightarrow> cs = []"
            "ends_as calls n (Suc gen) (Pause \<notin> set (calls gen)) st raised cs"
          using l(2) by auto
        have "map gen_sig (ls_results ls') =
                map gen_sig (ls_results ls) @ zip (map int [gen..<gen + length (False # cs)]) (False # cs)"
          using cs(1) l(1) num False by (simp add: gen_sig_def upt_conv_Cons del: upt_Suc)
        moreover have "ends_as calls (Suc n) gen True st raised (False # cs)"
          by (rule ends_as_Cons) (use cs l(2) in auto)
        ultimately show ?thesis using running by (intro exI [of _ "False # cs"]) simp
      qed
    qed
  qed
qed

lemma finish_after_start:
  assumes "engine_wf e" and "start_run name inp rid uuid now e = (r, e1)"
  shows "\<exists>e'. finish_run r st out t e1 = Inr e' \<and> status_of e' r = Some st"
proof -
  have "dget (eng_runs e1) r \<noteq> None"
  proof (cases rule: start_run_cases [where rid = rid and e = e and uuid = uuid])
    case (reopen r' run)
    then show ?thesis using assms start_run_reopen [OF reopen(2,3)] engine_wf_run [OF assms(1) reopen(3)]
      by (auto simp: dget_dset)
  next
    case (new r')
    then show ?thesis using assms(2) start_run_new [OF new] by (auto simp: dget_dset)
  qed
  then show ?thesis by (auto simp: finish_run_def status_of_def dget_dset)
qed

text \<open>
  A run of the loop always ends and leaves the object idle.  It numbers the generations it
  completed from 0 whatever ran before, stops right after the first that converged and after the
  first during which a pause was requested, and records its terminal state in the engine: converged,
  paused, or completed.  A run that an exception cut short is recorded as completed too.
\<close>

theorem run_ends_and_records:
  assumes "engine_wf e"
    and "run env cfg calls names inp ls s e = (rid, raised, ls', s', out)"
  shows "\<exists>cs st e'. out = Inr e' \<and> status_of e' rid = Some st \<and> \<not> ls_running ls' \<and>
           map gen_sig (ls_results ls') = map gen_sig (ls_results ls) @ zip (map int [0..<length cs]) cs \<and>
           ends_as calls (nat (lc_max_generations cfg)) 0 True st raised cs"
proof -
  obtain r e1 where start: "start_run (rn_workflow names) inp (rn_run_id names) (rn_uuid names) (rn_started names) e = (r, e1)"
    by fastforce
  obtain st rs l t where loop:
    "run_loop env cfg calls (nat (lc_max_generations cfg)) 0 (ls\<lparr>ls_running := True\<rparr>) s = (st, rs, l, t)"
    by (metis prod_cases4)
  obtain e' where e': "finish_run r st None (rn_finished names) e1 = Inr e'" "status_of e' r = Some st"
    using finish_after_start [OF assms(1) start] by blast
  have eqs: "rid = r" "raised = rs" "ls' = l\<lparr>ls_running := False\<rparr>" "out = Inr e'"
    using assms(2) by (simp_all add: run_def start loop e')
  show ?thesis using run_loop_ends [OF loop] e'(2) by (auto simp: eqs)
qed

subsection \<open>What a generation does\<close>

lemma length_flag_all [simp]: "length (flag_all ps pool) = length pool"
proof -
  have "length (fold (\<lambda>i hs. hs[i := (hs ! i)\<lparr>hy_flagged := True\<rparr>]) ps pool) = length pool"
    by (induction ps arbitrary: pool) auto
  then show ?thesis by (simp add: flag_all_def)
qed

lemma nth_flag_all:
  "i < length pool \<Longrightarrow> flag_all ps pool ! i = (if i \<in> set ps then (pool ! i)\<lparr>hy_flagged := True\<rparr> else pool ! i)"
proof (induction ps arbitrary: pool)
  case Nil
  then show ?case by (simp add: flag_all_def)
next
  case (Cons p ps)
  have "flag_all (p # ps) pool = flag_all ps (pool[p := (pool ! p)\<lparr>hy_flagged := True\<rparr>])"
    by (simp add: flag_all_def)
  then show ?case using Cons by (cases "p = i") (auto simp: nth_list_update)
qed

text \<open>The same hypothesis up to the two fields a generation sets after selection.\<close>

definition same_hypothesis :: "hypothesis \<Rightarrow> hypothesis \<Rightarrow> bool" where
  "same_hypothesis h g \<longleftrightarrow> g = h\<lparr>hy_run_id := hy_run_id g, hy_flagged := hy_flagged g\<rparr>"

lemma same_hypothesis_intros [intro, simp]:
  "same_hypothesis h h"
  "same_hypothesis h (h\<lparr>hy_flagged := b\<rparr>)"
  "same_hypothesis h (h\<lparr>hy_run_id := r\<rparr>)"
  "same_hypothesis h (h\<lparr>hy_flagged := b, hy_run_id := r\<rparr>)"
  by (simp_all add: same_hypothesis_def)

lemma same_composite: "same_hypothesis h g \<Longrightarrow> composite_fitness g = composite_fitness h"
proof -
  have "composite_fitness (h\<lparr>hy_run_id := r, hy_flagged := b\<rparr>) = composite_fitness h" for r b
    by (simp add: composite_fitness_def)
  then show "same_hypothesis h g \<Longrightarrow> composite_fitness g = composite_fitness h"
    unfolding same_hypothesis_def by metis
qed

definition gen_judged :: "'s loop_env \<Rightarrow> loop_config \<Rightarrow> hypothesis list \<Rightarrow> int \<Rightarrow> hypothesis list" where
  "gen_judged env cfg parents generation =
     judge (le_hostname env) (le_app env) cfg
       (evaluate (le_parse env) (le_hostname env) (le_app env) cfg (mutate env cfg parents generation))"

lemma map_filter_zip:
  "map f (filter P xs) = map snd (filter (\<lambda>(x, y). Q x) (zip (map g xs) (map f xs)))"
  if "\<And>x. x \<in> set xs \<Longrightarrow> P x \<longleftrightarrow> Q (g x)"
  using that by (induction xs) auto

text \<open>The pool after flagging and stamping, position by position.\<close>

definition stamped_pool :: "string \<Rightarrow> nat list \<Rightarrow> hypothesis list \<Rightarrow> hypothesis list \<Rightarrow> hypothesis list" where
  "stamped_pool tracking ps parents judged =
     take (length parents) (flag_all ps (parents @ judged)) @
     map (\<lambda>h. h\<lparr>hy_run_id := tracking\<rparr>) (drop (length parents) (flag_all ps (parents @ judged)))"

lemma stamped_pool_nth:
  assumes "i < length (parents @ judged)"
  shows "same_hypothesis ((parents @ judged) ! i) (stamped_pool tracking ps parents judged ! i)"
    and "hy_flagged (stamped_pool tracking ps parents judged ! i) \<longleftrightarrow> hy_flagged ((parents @ judged) ! i) \<or> i \<in> set ps"
proof -
  have "stamped_pool tracking ps parents judged ! i =
          (let h = flag_all ps (parents @ judged) ! i in if i < length parents then h else h\<lparr>hy_run_id := tracking\<rparr>)"
    using assms by (simp add: stamped_pool_def nth_append Let_def)
  then show "same_hypothesis ((parents @ judged) ! i) (stamped_pool tracking ps parents judged ! i)"
    and "hy_flagged (stamped_pool tracking ps parents judged ! i) \<longleftrightarrow> hy_flagged ((parents @ judged) ! i) \<or> i \<in> set ps"
    using nth_flag_all [OF assms, of ps] by (auto simp: Let_def same_hypothesis_def)
qed

text \<open>A generation that returns, step by step.\<close>

lemma run_generation_returned:
  assumes "run_generation env cfg g s = (Some r, s')"
  obtains parents history c where
    "(if g > 0 then le_load env (g - 1) (lc_mutation_batch cfg) s else Some []) = Some parents"
    and "let judged = gen_judged env cfg parents g;
             pool = parents @ judged;
             pool' = stamped_pool (le_gen_run env g) (escalated_positions cfg pool) parents judged
         in write_hypotheses env (drop (length parents) pool') s = (True, s') \<and>
            le_history env (lc_patience cfg) s' = Some history \<and>
            converged (lc_patience cfg) history = Some c \<and>
            r = \<lparr>gr_generation = g, gr_population_size = length (survivor_positions cfg pool),
                 gr_best = best_composite (map ((!) pool') (survivor_positions cfg pool)),
                 gr_frontier_size = length (pareto_positions pool (lc_objectives cfg)),
                 gr_survivors = map ((!) pool') (survivor_positions cfg pool),
                 gr_escalated = map ((!) pool') (escalated_positions cfg pool),
                 gr_converged = c\<rparr>"
  using assms
  by (force simp: run_generation_def gen_judged_def stamped_pool_def Let_def split: option.splits prod.splits bool.splits)

lemma py_take_map: "py_take n (map f xs) = map f (py_take n xs)"
  by (simp add: py_take_def take_map)

text \<open>
  A generation that returns keeps, in pool order and up to the population size, undominated
  members of parents and judged candidates; it escalates exactly those that reach the threshold and
  were not yet flagged, after which every survivor at the threshold is flagged; the best fitness it
  reports bounds the survivors'; and it writes every judged candidate, stamped with the tracking id
  of the generation, and no parent.
\<close>

theorem generation_selects_and_escalates:
  assumes "run_generation env cfg g s = (Some r, s')"
  shows "\<exists>parents written.
    (if g > 0 then le_load env (g - 1) (lc_mutation_batch cfg) s else Some []) = Some parents \<and>
    write_hypotheses env written s = (True, s') \<and>
    list_all2 same_hypothesis (gen_judged env cfg parents g) written \<and>
    (\<forall>h \<in> set written. hy_run_id h = le_gen_run env g) \<and>
    (let selected = py_take (lc_population_size cfg)
                      (pareto_frontier (parents @ gen_judged env cfg parents g) (lc_objectives cfg))
     in list_all2 same_hypothesis selected (gr_survivors r) \<and>
        gr_escalated r =
          map snd (filter (\<lambda>(h, h'). lc_escalation_threshold cfg \<le> composite_fitness h \<and> \<not> hy_flagged h)
                     (zip selected (gr_survivors r)))) \<and>
    (\<forall>h \<in> set (gr_survivors r). composite_fitness h \<le> gr_best r \<and>
       (lc_escalation_threshold cfg \<le> composite_fitness h \<longrightarrow> hy_flagged h))"
proof -
  from assms obtain parents history c where
    load: "(if g > 0 then le_load env (g - 1) (lc_mutation_batch cfg) s else Some []) = Some parents"
    and body: "let judged = gen_judged env cfg parents g;
             pool = parents @ judged;
             pool' = stamped_pool (le_gen_run env g) (escalated_positions cfg pool) parents judged
         in write_hypotheses env (drop (length parents) pool') s = (True, s') \<and>
            le_history env (lc_patience cfg) s' = Some history \<and>
            converged (lc_patience cfg) history = Some c \<and>
            r = \<lparr>gr_generation = g, gr_population_size = length (survivor_positions cfg pool),
                 gr_best = best_composite (map ((!) pool') (survivor_positions cfg pool)),
                 gr_frontier_size = length (pareto_positions pool (lc_objectives cfg)),
                 gr_survivors = map ((!) pool') (survivor_positions cfg pool),
                 gr_escalated = map ((!) pool') (escalated_positions cfg pool),
                 gr_converged = c\<rparr>"
    by (rule run_generation_returned)
  define judged where "judged = gen_judged env cfg parents g"
  define pool where "pool = parents @ judged"
  define sv where "sv = survivor_positions cfg pool"
  define esc where "esc = escalated_positions cfg pool"
  define pool' where "pool' = stamped_pool (le_gen_run env g) esc parents judged"
  have r: "gr_survivors r = map ((!) pool') sv" "gr_escalated r = map ((!) pool') esc"
      "gr_best r = best_composite (gr_survivors r)"
    and w: "write_hypotheses env (drop (length parents) pool') s = (True, s')"
    using body by (simp_all add: Let_def judged_def pool_def sv_def esc_def pool'_def)
  have sv: "i < length pool" if "i \<in> set sv" for i
    using that set_survivor_positions [of cfg pool] by (auto simp: sv_def set_pareto_positions)
  have same: "same_hypothesis (pool ! i) (pool' ! i)" "hy_flagged (pool' ! i) \<longleftrightarrow> hy_flagged (pool ! i) \<or> i \<in> set esc"
    if "i < length pool" for i
    using stamped_pool_nth that by (auto simp: pool_def pool'_def)
  have len: "length pool' = length pool" by (simp add: pool'_def stamped_pool_def pool_def)
  have sel: "py_take (lc_population_size cfg) (pareto_frontier pool (lc_objectives cfg)) = map ((!) pool) sv"
    by (simp add: pareto_frontier_def py_take_map sv_def survivor_positions_def)
  have esc: "esc = filter (\<lambda>i. lc_escalation_threshold cfg \<le> composite_fitness (pool ! i) \<and> \<not> hy_flagged (pool ! i)) sv"
    by (simp add: esc_def sv_def escalated_positions_def)
  have written: "list_all2 same_hypothesis judged (drop (length parents) pool')"
    using len same(1) [of "length parents + i" for i] by (auto simp: list_all2_conv_all_nth pool_def nth_append)
  have stamped: "\<forall>h \<in> set (drop (length parents) pool'). hy_run_id h = le_gen_run env g"
    by (simp add: pool'_def stamped_pool_def)
  have survivors: "list_all2 same_hypothesis (map ((!) pool) sv) (gr_survivors r)"
    using same(1) sv by (auto simp: r list_all2_conv_all_nth)
  have escalated: "gr_escalated r = map snd (filter (\<lambda>(h, h'). lc_escalation_threshold cfg \<le> composite_fitness h \<and> \<not> hy_flagged h)
                     (zip (map ((!) pool) sv) (gr_survivors r)))"
    unfolding r esc by (rule map_filter_zip) simp
  have best: "composite_fitness h \<le> gr_best r" if "h \<in> set (gr_survivors r)" for h
    unfolding r(3) best_composite_def using that by (intro py_max_default_ge) auto
  have flagged: "hy_flagged (pool' ! i)" if "i \<in> set sv" "lc_escalation_threshold cfg \<le> composite_fitness (pool' ! i)" for i
    using same [OF sv [OF that(1)]] same_composite [OF same(1) [OF sv [OF that(1)]]] that by (auto simp: esc)
  show ?thesis
    using load w written stamped survivors escalated best flagged
    by (intro exI [of _ parents] exI [of _ "drop (length parents) pool'"])
      (auto simp: Let_def sel r(1) simp flip: judged_def pool_def)
qed

text \<open>A table of rows, one agent that answers with one candidate, no other agent reachable.\<close>

definition demo_hypothesis :: "string \<Rightarrow> int \<Rightarrow> pyfloat \<Rightarrow> hypothesis" where
  "demo_hypothesis hid g x =
     \<lparr>hy_id = hid, hy_generation = g, hy_parent = None, hy_cipher_type = ''substitution'', hy_source_language = ''latin'',
      hy_symbol_map = [(''o'', PStr ''E'')], hy_null_chars = [], hy_rules = [], hy_statistical = 0, hy_perplexity = 0,
      hy_semantic = x, hy_consistency = 0, hy_adversarial = 0, hy_composite = 0, hy_eval_historian = PFloat 0,
      hy_eval_critic = PFloat 0, hy_decoded_sample = [], hy_run_id = [], hy_flagged = False\<rparr>"

definition demo_env :: "hypothesis list loop_env" where
  "demo_env =
     \<lparr>le_load = \<lambda>g n rows. Some (py_take n (filter (\<lambda>h. hy_generation h = g) rows)),
      le_write = \<lambda>hs rows. (True, rows @ hs), le_history = \<lambda>n rows. Some [],
      le_parse = \<lambda>x. None, le_hostname = \<lambda>url. Some ''m'', le_app = \<lambda>name request. None,
      le_mutations = \<lambda>name g parents. Some [demo_hypothesis ''c'' g 0], le_gen_run = \<lambda>g. ''t''\<rparr>"

definition demo_config :: loop_config where
  "demo_config =
     \<lparr>lc_population_table = ''c.s.t'', lc_fitness_agents = [], lc_mutation_agent = ''databricksapps.com'',
      lc_judge_agent = [], lc_population_size = 5, lc_mutation_batch = 5, lc_max_generations = 2, lc_patience = 3,
      lc_escalation_threshold = 1 / 3, lc_top_k_adversarial = 1 / 20,
      lc_objectives = [''fitness_statistical'', ''fitness_semantic'']\<rparr>"

lemma demo_judged:
  "gen_judged demo_env demo_config parents 1 = [(demo_hypothesis ''c'' 1 0)\<lparr>hy_statistical := 1 / 12\<rparr>]"
proof -
  have m: "mutate demo_env demo_config parents 1 = [demo_hypothesis ''c'' 1 0]"
    by (simp add: mutate_def url_to_app_name_def demo_env_def demo_config_def starts_with_def all_digits_def)
  have "lower ''E'' = ''e''" by code_simp
  then have "local_statistical_fitness (demo_hypothesis ''c'' 1 0) = 1 / 12"
    by (simp add: local_statistical_fitness_def demo_hypothesis_def common_letters_def)
  then show ?thesis unfolding gen_judged_def m
    by (simp add: demo_env_def demo_config_def evaluate_def judge_def judged_positions_def call_fitness_agent_def
        agent_url_def trunc_int_def sort_desc_def py_take_def merge_answer_def merge_fitness_response_def
        agent_fitness_field_def url_to_app_name_def demo_hypothesis_def)
qed

text \<open>A strong parent and a weak candidate.\<close>

lemma demo_generation:
  "\<exists>r. run_generation demo_env demo_config 1 [demo_hypothesis ''p'' 0 1] =
     (Some r, [demo_hypothesis ''p'' 0 1, (demo_hypothesis ''c'' 1 0)\<lparr>hy_statistical := 1 / 12, hy_run_id := ''t''\<rparr>])"
proof -
  let ?p = "demo_hypothesis ''p'' 0 1" and ?c = "(demo_hypothesis ''c'' 1 0)\<lparr>hy_statistical := 1 / 12\<rparr>"
  have nd: "\<not> pareto_dominates ?p ?c [''fitness_statistical'', ''fitness_semantic'']"
      "\<not> pareto_dominates ?c ?p [''fitness_statistical'', ''fitness_semantic'']"
    by (simp_all add: pareto_dominates_def objective_def demo_hypothesis_def)
  have esc: "escalated_positions demo_config [?p, ?c] = [0]"
    using nd by (simp add: escalated_positions_def survivor_positions_def pareto_positions_def demo_config_def
        py_take_def composite_fitness_def) (simp add: demo_hypothesis_def)
  have load: "le_load demo_env 0 (lc_mutation_batch demo_config) [?p] = Some [?p]"
    by (simp add: demo_env_def demo_config_def demo_hypothesis_def py_take_def)
  have rest: "write_hypotheses demo_env hs rows = (True, rows @ hs)"
      "le_history demo_env (lc_patience demo_config) rows = Some []"
      "converged (lc_patience demo_config) [] = Some False" "le_gen_run demo_env 1 = ''t''" for hs rows
    by (simp_all add: demo_env_def write_hypotheses_def converged_def demo_config_def)
  show ?thesis
    using load rest esc demo_judged [of "[?p]"] by (simp add: run_generation_def gen_judged_def flag_all_def Let_def)
qed

theorem generation_selects_and_escalates_witness:
  "\<exists>r s'. run_generation demo_env demo_config 1 [demo_hypothesis ''p'' 0 1] = (Some r, s') \<and> map hy_id s' = [''p'', ''c''] \<and>
     list_all hy_flagged (filter (\<lambda>h. lc_escalation_threshold demo_config \<le> composite_fitness h) (gr_survivors r))"
proof -
  obtain r where r: "run_generation demo_env demo_config 1 [demo_hypothesis ''p'' 0 1] =
     (Some r, [demo_hypothesis ''p'' 0 1, (demo_hypothesis ''c'' 1 0)\<lparr>hy_statistical := 1 / 12, hy_run_id := ''t''\<rparr>])"
    using demo_generation by blast
  from generation_selects_and_escalates [OF r]
  have "\<forall>h \<in> set (gr_survivors r). lc_escalation_threshold demo_config \<le> composite_fitness h \<longrightarrow> hy_flagged h" by blast
  then have "list_all hy_flagged (filter (\<lambda>h. lc_escalation_threshold demo_config \<le> composite_fitness h) (gr_survivors r))"
    by (simp add: list_all_iff)
  with r show ?thesis by (simp add: demo_hypothesis_def)
qed

text \<open>The table cannot be read after the first generation: the exception ends the run, which counts as completed.\<close>

theorem run_ends_and_records_witness:
  "\<exists>rid ls' s' e'.
     run (demo_env\<lparr>le_history := \<lambda>n rows. None\<rparr>) (demo_config\<lparr>lc_mutation_agent := []\<rparr>) (\<lambda>g. [Pause])
       \<lparr>rn_workflow = ''w'', rn_run_id = None, rn_uuid = ''u'', rn_started = ''1'', rn_finished = ''2''\<rparr>
       (None :: nat option) new_loop [] empty_engine = (rid, True, ls', s', Inr e') \<and>
     status_of e' rid = Some Completed \<and> \<not> ls_running ls'"
proof -
  let ?env = "demo_env\<lparr>le_history := \<lambda>n rows. None\<rparr>" and ?cfg = "demo_config\<lparr>lc_mutation_agent := []\<rparr>"
  have wf: "engine_wf (empty_engine :: nat engine)" by (simp add: engine_wf_def empty_engine_def)
  define names where "names = \<lparr>rn_workflow = ''w'', rn_run_id = None, rn_uuid = ''u'', rn_started = ''1'', rn_finished = ''2''\<rparr>"
  obtain rid raised ls' s' out where run:
    "run ?env ?cfg (\<lambda>g. [Pause]) names (None :: nat option) new_loop [] empty_engine = (rid, raised, ls', s', out)"
    by (metis prod_cases5)
  have "mutate ?env ?cfg [] 0 = []" by (simp add: mutate_def url_to_app_name_def)
  moreover have "evaluate p n f ?cfg [] = []" for p n f by (simp add: evaluate_def)
  moreover have "judge n f ?cfg [] = []" for n f by (simp add: judge_def url_to_app_name_def demo_config_def)
  ultimately have "fst (run_generation ?env ?cfg 0 []) = None"
    by (simp add: run_generation_def flag_all_def escalated_positions_def survivor_positions_def pareto_positions_def
        py_take_def write_hypotheses_def)
  then have "fst (snd (run_loop ?env ?cfg (\<lambda>g. [Pause]) 2 0 (new_loop\<lparr>ls_running := True\<rparr>) []))"
    by (auto simp: numeral_2_eq_2 Let_def split: prod.split)
  then have raised: "raised"
    using run by (auto simp: run_def demo_config_def split: prod.splits)
  obtain cs st e' where e': "out = Inr e'" "status_of e' rid = Some st" "\<not> ls_running ls'"
      "ends_as (\<lambda>g. [Pause]) (nat (lc_max_generations ?cfg)) 0 True st raised cs"
    using run_ends_and_records [OF wf run] by blast
  then have "st = Completed" using raised by (auto simp: ends_as_def)
  then show ?thesis using run e' raised unfolding names_def by auto
qed

theorem pareto_frontier_spec_witness:
  "pareto_frontier [demo_hypothesis ''a'' 0 (1 / 2), demo_hypothesis ''b'' 0 1] [''fitness_statistical'', ''fitness_semantic''] =
     [demo_hypothesis ''b'' 0 1]"
  using pareto_frontier_spec [of "[demo_hypothesis ''a'' 0 (1 / 2), demo_hypothesis ''b'' 0 1]"
      "[''fitness_statistical'', ''fitness_semantic'']"]
  by (simp add: pareto_dominates_def objective_def demo_hypothesis_def)

subsection \<open>Further facts\<close>

text \<open>A run cut short by an exception is recorded as completed, never as failed.\<close>

lemma raised_run_recorded_completed:
  assumes "engine_wf e" and "run env cfg calls names inp ls s e = (rid, True, ls', s', out)"
  shows "\<exists>e'. out = Inr e' \<and> status_of e' rid = Some Completed"
proof -
  obtain r e1 where start: "start_run (rn_workflow names) inp (rn_run_id names) (rn_uuid names) (rn_started names) e = (r, e1)"
    by fastforce
  obtain st rs l t where loop:
    "run_loop env cfg calls (nat (lc_max_generations cfg)) 0 (ls\<lparr>ls_running := True\<rparr>) s = (st, rs, l, t)"
    by (metis prod_cases4)
  have eqs: "rid = r" "rs" "out = finish_run r st None (rn_finished names) e1"
    using assms(2) by (auto simp: run_def start loop)
  then have "st = Completed" using run_loop_ends [OF loop] by (auto simp: ends_as_def)
  then show ?thesis using finish_after_start [OF assms(1) start] eqs by blast
qed

text \<open>
  Twelve symbols that all decode to the letter e score a full statistical fitness: coverage counts
  symbols, not letters.
\<close>

lemma statistical_fitness_counts_repeats:
  "local_statistical_fitness ((demo_hypothesis ''h'' 0 0)\<lparr>hy_symbol_map := map (\<lambda>i. ([CHR ''a''], PStr ''e'')) [0..<12]\<rparr>) = 1"
proof -
  have "lower ''e'' = ''e''" by code_simp
  then show ?thesis by (simp add: local_statistical_fitness_def common_letters_def upt_rec)
qed

text \<open>Composite fitness stays within the unit interval when the four signals do.\<close>

lemma composite_fitness_unit:
  assumes "hy_statistical h \<in> {0..1}" "hy_semantic h \<in> {0..1}" "hy_consistency h \<in> {0..1}" "hy_adversarial h \<in> {0..1}"
  shows "composite_fitness h \<in> {0..1}"
  using assms by (auto simp: composite_fitness_def)

end
