(* ===== verification/Policy_Gate.thy ===== *)
theory Policy_Gate
  imports Apx_Prelude
begin

text \<open>
  The ALLOW / ASK / DENY policies of \<open>_policy.py\<close>: verdicts and their composition, the
  LLM-backed policy's verdict parser, the approval store, and the \<open>before_tool\<close> gate.

  Tool arguments are an abstract type; \<open>_call_fingerprint\<close> (JSON and SHA-256) is the parameter
  \<open>fp\<close>, and every statement is about calls with equal fingerprints.  Generated approval ids, time
  stamps and the reply of the classifier model are arguments.
\<close>

subsection \<open>Verdicts\<close>

datatype policy_action = Allow | Ask | Deny

fun action_value :: "policy_action \<Rightarrow> nat" where
  "action_value Allow = 0"
| "action_value Ask = 1"
| "action_value Deny = 2"

lemma action_value_inj: "action_value a = action_value b \<Longrightarrow> a = b"
  by (cases a; cases b) auto

text \<open>\<open>PolicyAction\<close> is an \<open>IntEnum\<close>: the verdicts are ordered by their value.\<close>

instantiation policy_action :: linorder
begin

definition less_eq_policy_action :: "policy_action \<Rightarrow> policy_action \<Rightarrow> bool" where
  "less_eq_policy_action a b \<longleftrightarrow> action_value a \<le> action_value b"

definition less_policy_action :: "policy_action \<Rightarrow> policy_action \<Rightarrow> bool" where
  "less_policy_action a b \<longleftrightarrow> action_value a < action_value b"

instance
  by standard (auto simp: less_eq_policy_action_def less_policy_action_def action_value_inj)

end

lemma Allow_least [simp]: "Allow \<le> a"
  by (cases a) (simp_all add: less_eq_policy_action_def)

lemma not_less_Allow [simp]: "\<not> a < Allow"
  by (simp add: not_less)

lemma Deny_greatest [simp]: "a \<le> Deny"
  by (cases a) (simp_all add: less_eq_policy_action_def)

record policy_result =
  pr_action :: policy_action
  pr_reason :: "string option"
  pr_labels :: "string dict"

record 'a policy_event =
  pe_phase :: string
  pe_tool :: "string option"
  pe_args :: "'a option"
  pe_content :: "string option"
  pe_context :: "(string \<times> pyval) list"

definition policy_phases :: "string list" where
  "policy_phases = [''request'', ''response'', ''tool_call'', ''tool_result'']"

text \<open>
  A policy is anything with \<open>evaluate(event)\<close>: it may raise (\<open>Inl\<close>), abstain (\<open>Inr None\<close>) or
  return a result.
\<close>

type_synonym 'a policy = "'a policy_event \<Rightarrow> string + policy_result option"

text \<open>Unknown phases are refused when the policy is built.\<close>

definition unknown_phases :: "string list \<Rightarrow> string list" where
  "unknown_phases phases = filter (\<lambda>p. p \<notin> set policy_phases) phases"

definition function_policy ::
  "('a policy_event \<Rightarrow> string + policy_result option) \<Rightarrow> string list \<Rightarrow> string list + 'a policy" where
  "function_policy f phases =
     (if unknown_phases phases \<noteq> [] then Inl (unknown_phases phases)
      else Inr (\<lambda>ev. if pe_phase ev \<notin> set phases then Inr None else f ev))"

subsection \<open>The classifier policy\<close>

text \<open>\<open>text.strip().splitlines()\<close>, each line stripped, blank lines dropped.\<close>

definition verdict_lines :: "string \<Rightarrow> string list" where
  "verdict_lines text = filter (\<lambda>l. l \<noteq> []) (map strip (split_on is_line_break (strip text)))"

definition first_word :: "string \<Rightarrow> string" where
  "first_word line = takeWhile (\<lambda>c. \<not> is_space c) (dropWhile is_space line)"

definition verdict_of_word :: "string \<Rightarrow> policy_action option" where
  "verdict_of_word w =
     (if w = ''ALLOW'' then Some Allow else if w = ''ASK'' then Some Ask
      else if w = ''DENY'' then Some Deny else None)"

definition verdict_word :: "string \<Rightarrow> string" where
  "verdict_word text =
     (case verdict_lines text of
        [] \<Rightarrow> []
      | l # _ \<Rightarrow> strip_by (\<lambda>c. c \<in> set ''.:,'') (upper (first_word l)))"

definition parse_verdict :: "string \<Rightarrow> policy_result" where
  "parse_verdict text =
     (let ls = verdict_lines text;
          reason = (case ls of _ # r # _ \<Rightarrow> Some r | _ \<Rightarrow> None)
      in case verdict_of_word (verdict_word text) of
           Some act \<Rightarrow> \<lparr>pr_action = act, pr_reason = reason, pr_labels = []\<rparr>
         | None \<Rightarrow> \<lparr>pr_action = Deny,
             pr_reason = Some (''Policy classifier returned unparseable verdict: '' @ py_repr (take 120 text)),
             pr_labels = []\<rparr>)"

text \<open>
  \<open>llm\<close> answers the rubric and the rendered event with text, or raises (\<open>Inl\<close>).
\<close>

definition prompt_policy ::
  "('a policy_event \<Rightarrow> string + string) \<Rightarrow> string list \<Rightarrow> string list + 'a policy" where
  "prompt_policy llm phases =
     (if unknown_phases phases \<noteq> [] then Inl (unknown_phases phases)
      else Inr (\<lambda>ev.
        if pe_phase ev \<notin> set phases then Inr None
        else (case llm ev of
                Inl exc \<Rightarrow> Inr (Some \<lparr>pr_action = Deny,
                  pr_reason = Some (''Policy classifier unavailable ('' @ exc @ ''); denying by default.''),
                  pr_labels = []\<rparr>)
              | Inr text \<Rightarrow> Inr (Some (parse_verdict text)))))"

subsection \<open>Composition\<close>

definition join_reasons :: "string list \<Rightarrow> string option" where
  "join_reasons rs = (if rs = [] then None else Some (concat (hd rs # map (\<lambda>r. ''; '' @ r) (tl rs))))"

fun eval_fold ::
  "'a policy list \<Rightarrow> 'a policy_event \<Rightarrow> policy_action \<Rightarrow> string list \<Rightarrow> string dict \<Rightarrow> string + policy_result"
where
  "eval_fold [] ev act reasons labels =
     Inr \<lparr>pr_action = act, pr_reason = join_reasons reasons, pr_labels = labels\<rparr>"
| "eval_fold (p # ps) ev act reasons labels =
     (case p ev of
        Inl exc \<Rightarrow> Inl exc
      | Inr None \<Rightarrow> eval_fold ps ev act reasons labels
      | Inr (Some r) \<Rightarrow>
          eval_fold ps ev
            (if pr_action r > act then pr_action r else act)
            (if pr_action r \<noteq> Allow \<and> pr_reason r \<noteq> None \<and> pr_reason r \<noteq> Some []
             then reasons @ [the (pr_reason r)] else reasons)
            (dict_update labels (pr_labels r)))"

definition evaluate_policies :: "'a policy list \<Rightarrow> 'a policy_event \<Rightarrow> string + policy_result" where
  "evaluate_policies ps ev = eval_fold ps ev Allow [] []"

subsection \<open>Approvals\<close>

datatype approval_status = Pending | Approved | Refused

record ('a, 'f) approval =
  ap_id :: string
  ap_tool :: string
  ap_args :: 'a
  ap_fp :: 'f
  ap_status :: approval_status
  ap_reason :: "string option"
  ap_decided_by :: "string option"
  ap_decided_at :: "string option"

type_synonym ('a, 'f) approval_store = "(string \<times> ('a, 'f) approval) list"

text \<open>The first stored approval with a given fingerprint and status.\<close>

definition find_approval :: "'f \<Rightarrow> approval_status \<Rightarrow> ('a, 'f) approval_store \<Rightarrow> (string \<times> ('a, 'f) approval) option" where
  "find_approval f st store = find (\<lambda>(i, a). ap_fp a = f \<and> ap_status a = st) store"

definition request_approval ::
  "(string \<Rightarrow> 'a \<Rightarrow> 'f) \<Rightarrow> string \<Rightarrow> string \<Rightarrow> 'a \<Rightarrow> string option \<Rightarrow> ('a, 'f) approval_store
    \<Rightarrow> ('a, 'f) approval \<times> ('a, 'f) approval_store" where
  "request_approval fp new_id tool args reason store =
     (case find_approval (fp tool args) Pending store of
        Some (_, existing) \<Rightarrow> (existing, store)
      | None \<Rightarrow>
          (let a = \<lparr>ap_id = new_id, ap_tool = tool, ap_args = args, ap_fp = fp tool args,
                    ap_status = Pending, ap_reason = reason, ap_decided_by = None, ap_decided_at = None\<rparr>
           in (a, dset new_id a store)))"

datatype store_error = NoSuchApproval string

definition decide_approval ::
  "approval_status \<Rightarrow> string \<Rightarrow> string option \<Rightarrow> string \<Rightarrow> ('a, 'f) approval_store
    \<Rightarrow> store_error + ('a, 'f) approval \<times> ('a, 'f) approval_store" where
  "decide_approval st i by now store =
     (case dget store i of
        None \<Rightarrow> Inl (NoSuchApproval i)
      | Some a \<Rightarrow>
          (let a' = a\<lparr>ap_status := st, ap_decided_by := by, ap_decided_at := Some now\<rparr>
           in Inr (a', dset i a' store)))"

definition approve ::
  "string \<Rightarrow> string option \<Rightarrow> string \<Rightarrow> ('a, 'f) approval_store
    \<Rightarrow> store_error + ('a, 'f) approval \<times> ('a, 'f) approval_store" where
  "approve = decide_approval Approved"

definition deny ::
  "string \<Rightarrow> string option \<Rightarrow> string \<Rightarrow> ('a, 'f) approval_store
    \<Rightarrow> store_error + ('a, 'f) approval \<times> ('a, 'f) approval_store" where
  "deny = decide_approval Refused"

definition list_pending :: "('a, 'f) approval_store \<Rightarrow> ('a, 'f) approval list" where
  "list_pending store = filter (\<lambda>a. ap_status a = Pending) (map snd store)"

definition consume :: "approval_status \<Rightarrow> 'f \<Rightarrow> ('a, 'f) approval_store
    \<Rightarrow> ('a, 'f) approval option \<times> ('a, 'f) approval_store" where
  "consume st f store =
     (case find_approval f st store of
        None \<Rightarrow> (None, store)
      | Some (i, a) \<Rightarrow> (Some a, ddel i store))"

definition consume_granted ::
  "(string \<Rightarrow> 'a \<Rightarrow> 'f) \<Rightarrow> string \<Rightarrow> 'a \<Rightarrow> ('a, 'f) approval_store
    \<Rightarrow> ('a, 'f) approval option \<times> ('a, 'f) approval_store" where
  "consume_granted fp tool args = consume Approved (fp tool args)"

definition consume_denied ::
  "(string \<Rightarrow> 'a \<Rightarrow> 'f) \<Rightarrow> string \<Rightarrow> 'a \<Rightarrow> ('a, 'f) approval_store
    \<Rightarrow> ('a, 'f) approval option \<times> ('a, 'f) approval_store" where
  "consume_denied fp tool args = consume Refused (fp tool args)"

subsection \<open>The gate\<close>

definition approve_words :: "string list" where
  "approve_words = [''approve'', ''approved'', ''yes'', ''allow'', ''grant'', ''granted'']"

definition approving_word :: "string \<Rightarrow> bool" where
  "approving_word s \<longleftrightarrow> lower (strip s) \<in> set approve_words"

definition is_approved :: "pyval \<Rightarrow> bool" where
  "is_approved d =
     (case d of
        PBool b \<Rightarrow> b
      | PStr s \<Rightarrow> approving_word s
      | PDict m \<Rightarrow>
          (case py_or (pget m ''decision'') (pget m ''action'') of
             PStr s \<Rightarrow> approving_word s
           | _ \<Rightarrow> False)
      | _ \<Rightarrow> False)"

record ('a, 'f) gate =
  gt_policies :: "'a policy list"
  gt_approvals :: "('a, 'f) approval_store"
  gt_labels :: "string dict"
  gt_context :: "(string \<times> pyval) list"

text \<open>
  How a \<open>before_tool\<close> call ends: it returns, raises \<open>PermissionError\<close>, raises
  \<open>ApprovalRequired\<close>, lets a policy's own exception through, or suspends the graph
  (\<open>interrupt()\<close> on its first pass).
\<close>

datatype ('a, 'f) gate_outcome =
    Allowed
  | RefusedEarlier string string
  | PolicyDenied string
  | DeniedMidTurn string string
  | ApprovalRequired "('a, 'f) approval"
  | PolicyRaised string
  | ApprovalVanished string
  | Suspended "('a, 'f) approval"

text \<open>
  The run the hook is called in: no checkpointed thread; a checkpointed thread on its first pass
  (the interrupt suspends it); or the thread resumed with a decision.
\<close>

datatype run_mode = NoThread | FirstPass | Resumed pyval

definition deny_reason :: "string \<Rightarrow> string option \<Rightarrow> string" where
  "deny_reason tool r =
     (case r of Some m \<Rightarrow> if m = [] then ''Policy denied the call to '' @ py_repr tool @ ''.'' else m
      | None \<Rightarrow> ''Policy denied the call to '' @ py_repr tool @ ''.'')"

definition ask_human ::
  "run_mode \<Rightarrow> string \<Rightarrow> string \<Rightarrow> ('a, 'f) approval \<Rightarrow> ('a, 'f) approval_store
    \<Rightarrow> ('a, 'f) gate_outcome \<times> ('a, 'f) approval_store" where
  "ask_human mode now tool a store =
     (case mode of
        NoThread \<Rightarrow> (ApprovalRequired a, store)
      | FirstPass \<Rightarrow> (Suspended a, store)
      | Resumed d \<Rightarrow>
          (if is_approved d
           then (case approve (ap_id a) None now store of
                   Inl _ \<Rightarrow> (ApprovalVanished (ap_id a), store)
                 | Inr (_, s') \<Rightarrow> (Allowed, s'))
           else (case deny (ap_id a) None now store of
                   Inl _ \<Rightarrow> (ApprovalVanished (ap_id a), store)
                 | Inr (_, s') \<Rightarrow> (DeniedMidTurn (ap_id a) tool, s'))))"

text \<open>\<open>evaluator\<close> composes the gate's policies; \<open>PolicyGate\<close> takes \<open>evaluate_policies\<close> unless given another.\<close>

definition gate_call_with ::
  "('a policy_event \<Rightarrow> string + policy_result) \<Rightarrow> (string \<Rightarrow> 'a \<Rightarrow> 'f) \<Rightarrow> run_mode \<Rightarrow> string \<Rightarrow> string \<Rightarrow> string \<Rightarrow> 'a
    \<Rightarrow> ('a, 'f) gate \<Rightarrow> ('a, 'f) gate_outcome \<times> ('a, 'f) gate" where
  "gate_call_with evaluator fp mode new_id now tool args g =
     (case consume_granted fp tool args (gt_approvals g) of
        (Some _, s1) \<Rightarrow> (Allowed, g\<lparr>gt_approvals := s1\<rparr>)
      | (None, s1) \<Rightarrow>
          (case consume_denied fp tool args s1 of
             (Some refused, s2) \<Rightarrow> (RefusedEarlier tool (ap_id refused), g\<lparr>gt_approvals := s2\<rparr>)
           | (None, s2) \<Rightarrow>
               (case evaluator
                       \<lparr>pe_phase = ''tool_call'', pe_tool = Some tool, pe_args = Some args, pe_content = None,
                        pe_context = gt_context g\<rparr> of
                  Inl exc \<Rightarrow> (PolicyRaised exc, g\<lparr>gt_approvals := s2\<rparr>)
                | Inr res \<Rightarrow>
                    (let g' = g\<lparr>gt_approvals := s2, gt_labels := dict_update (gt_labels g) (pr_labels res)\<rparr>
                     in case pr_action res of
                          Deny \<Rightarrow> (PolicyDenied (deny_reason tool (pr_reason res)), g')
                        | Ask \<Rightarrow>
                            (let (a, s3) = request_approval fp new_id tool args (pr_reason res) s2;
                                 (out, s4) = ask_human mode now tool a s3
                             in (out, g'\<lparr>gt_approvals := s4\<rparr>))
                        | Allow \<Rightarrow> (Allowed, g')))))"

definition gate_call ::
  "(string \<Rightarrow> 'a \<Rightarrow> 'f) \<Rightarrow> run_mode \<Rightarrow> string \<Rightarrow> string \<Rightarrow> string \<Rightarrow> 'a \<Rightarrow> ('a, 'f) gate
    \<Rightarrow> ('a, 'f) gate_outcome \<times> ('a, 'f) gate" where
  "gate_call fp mode new_id now tool args g =
     gate_call_with (evaluate_policies (gt_policies g)) fp mode new_id now tool args g"

lemmas gate_call_eq = gate_call_def [unfolded gate_call_with_def]

subsection \<open>Composition takes the most severe verdict\<close>

definition verdicts :: "'a policy list \<Rightarrow> 'a policy_event \<Rightarrow> policy_action list" where
  "verdicts ps ev = concat (map (\<lambda>p. case p ev of Inr (Some r) \<Rightarrow> [pr_action r] | _ \<Rightarrow> []) ps)"

definition raises :: "'a policy list \<Rightarrow> 'a policy_event \<Rightarrow> bool" where
  "raises ps ev \<longleftrightarrow> (\<exists>p \<in> set ps. \<exists>exc. p ev = Inl exc)"

lemma eval_fold_raises: "(\<exists>exc. eval_fold ps ev act rs ls = Inl exc) \<longleftrightarrow> raises ps ev"
  by (induction ps ev act rs ls rule: eval_fold.induct)
    (auto simp: raises_def split: sum.splits option.splits)

lemma eval_fold_action:
  "eval_fold ps ev act rs ls = Inr res \<Longrightarrow> pr_action res = Max (insert act (set (verdicts ps ev)))"
proof (induction ps ev act rs ls rule: eval_fold.induct)
  case (1 ev act reasons labels)
  then show ?case by (auto simp: verdicts_def)
next
  case (2 p ps ev act reasons labels)
  show ?case
  proof (cases "p ev")
    case (Inl exc)
    with 2(3) show ?thesis by simp
  next
    case (Inr o')
    note inr = Inr
    show ?thesis
    proof (cases o')
      case None
      with inr 2 show ?thesis by (simp add: verdicts_def)
    next
      case (Some r)
      let ?act = "if pr_action r > act then pr_action r else act"
      from 2(2) [OF inr Some] 2(3) inr Some
      have "pr_action res = Max (insert ?act (set (verdicts ps ev)))" by simp
      also have "\<dots> = Max (insert (max (pr_action r) act) (set (verdicts ps ev)))"
        by (simp add: max_def)
      also have "\<dots> = Max (insert act (set (verdicts (p # ps) ev)))"
      proof -
        have "set (verdicts (p # ps) ev) = insert (pr_action r) (set (verdicts ps ev))"
          using inr Some by (simp add: verdicts_def)
        then show ?thesis by (cases "set (verdicts ps ev) = {}") (simp_all add: max.left_commute max.commute max.assoc)
      qed
      finally show ?thesis .
    qed
  qed
qed

lemma action_le_Allow: "\<not> Allow < a \<Longrightarrow> a = Allow"
  by (cases a) (simp_all add: less_policy_action_def)

lemma eval_fold_reason:
  "eval_fold ps ev act rs ls = Inr res \<Longrightarrow> rs \<noteq> [] \<longrightarrow> act \<noteq> Allow \<Longrightarrow> pr_reason res \<noteq> None \<Longrightarrow> pr_action res \<noteq> Allow"
proof (induction ps ev act rs ls rule: eval_fold.induct)
  case (1 ev act reasons labels)
  then show ?case by (auto simp: join_reasons_def split: if_splits)
next
  case (2 p ps ev act reasons labels)
  show ?case
  proof (cases "p ev")
    case (Inr o')
    show ?thesis
    proof (cases o')
      case (Some r)
      let ?act = "if pr_action r > act then pr_action r else act"
      have "pr_action r \<noteq> Allow \<Longrightarrow> ?act \<noteq> Allow" using action_le_Allow by auto
      moreover have "act \<noteq> Allow \<Longrightarrow> ?act \<noteq> Allow" using Allow_least [of act] by (auto dest: leD)
      ultimately show ?thesis
        by (intro 2(2) [OF Inr Some]) (use 2(3-5) Inr Some in auto)
    qed (use 2 Inr in auto)
  qed (use 2 in auto)
qed

subsection \<open>Counting granted approvals\<close>

definition granted :: "('a, 'f) approval_store \<Rightarrow> 'f \<Rightarrow> nat" where
  "granted store f = length (filter (\<lambda>(i, a). ap_fp a = f \<and> ap_status a = Approved) store)"

text \<open>
  The contract any approval store offers the gate (the in-memory one here, a durable one
  elsewhere), seen through the number of grants on hand per fingerprint: only an approve decision
  adds one, and taking one removes it.
\<close>

locale approval_registry =
  fixes grants :: "'s \<Rightarrow> 'f \<Rightarrow> nat"
    and request_op :: "'q \<Rightarrow> 's \<Rightarrow> 's"
    and approve_op :: "'d \<Rightarrow> 's \<Rightarrow> 's"
    and deny_op :: "'d \<Rightarrow> 's \<Rightarrow> 's"
    and take_granted :: "'f \<Rightarrow> 's \<Rightarrow> bool \<times> 's"
    and take_refused :: "'f \<Rightarrow> 's \<Rightarrow> bool \<times> 's"
    and target :: "'d \<Rightarrow> 's \<Rightarrow> 'f option"
  assumes grants_request: "grants (request_op q s) f \<le> grants s f"
    and grants_approve: "grants (approve_op d s) f \<le> grants s f + (if target d s = Some f then 1 else 0)"
    and grants_deny: "grants (deny_op d s) f \<le> grants s f"
    and grants_take_hit: "take_granted f s = (True, s') \<Longrightarrow>
      grants s' f' + (if f' = f then 1 else 0) \<le> grants s f'"
    and grants_take_miss: "take_granted f s = (False, s') \<Longrightarrow> s' = s"
    and grants_refused: "grants (snd (take_refused f s)) f' \<le> grants s f'"
begin

lemma take_granted_le: "grants (snd (take_granted f s)) f' + (if fst (take_granted f s) \<and> f' = f then 1 else 0)
    \<le> grants s f'"
proof (cases "take_granted f s")
  case (Pair hit s')
  then show ?thesis using grants_take_hit [of f s s' f'] grants_take_miss [of f s s'] by (cases hit) auto
qed

lemma take_both_le:
  "grants (snd (take_refused f (snd (take_granted f s)))) f' + (if fst (take_granted f s) \<and> f' = f then 1 else 0)
    \<le> grants s f'"
  using take_granted_le [of f s f'] grants_refused [of f "snd (take_granted f s)" f'] by linarith

end

lemma granted_Cons [simp]:
  "granted ((i, a) # s) f = (if ap_fp a = f \<and> ap_status a = Approved then 1 else 0) + granted s f"
  by (simp add: granted_def)

lemma granted_Nil [simp]: "granted [] f = 0"
  by (simp add: granted_def)

lemma granted_dset_le:
  "granted (dset i a s) f \<le> granted s f + (if ap_fp a = f \<and> ap_status a = Approved then 1 else 0)"
  by (induction s) auto

lemma granted_ddel_le: "granted (ddel i s) f \<le> granted s f"
  by (induction s) auto

lemma granted_ddel_hit:
  assumes "(i, a) \<in> set s" "ap_fp a = f" "ap_status a = Approved"
  shows "Suc (granted (ddel i s) f) \<le> granted s f"
  using assms(1)
proof (induction s)
  case (Cons p s)
  obtain j b where p: "p = (j, b)" by (cases p)
  show ?case
  proof (cases "(i, a) = p")
    case True
    with assms(2,3) p granted_ddel_le [of i s f] show ?thesis by simp
  next
    case False
    with Cons have "Suc (granted (ddel i s) f) \<le> granted s f" by simp
    then show ?thesis using p by (cases "j = i") auto
  qed
qed simp

lemma find_approval_Some:
  "find_approval f st s = Some (i, a) \<Longrightarrow> (i, a) \<in> set s \<and> ap_fp a = f \<and> ap_status a = st"
  unfolding find_approval_def find_Some_iff by (auto, metis nth_mem)

definition request_store ::
  "(string \<Rightarrow> 'a \<Rightarrow> 'f) \<Rightarrow> string \<times> string \<times> 'a \<times> string option \<Rightarrow> ('a, 'f) approval_store \<Rightarrow> ('a, 'f) approval_store" where
  "request_store fp q s = (case q of (i, tool, args, r) \<Rightarrow> snd (request_approval fp i tool args r s))"

definition decide_store ::
  "approval_status \<Rightarrow> string \<times> string option \<times> string \<Rightarrow> ('a, 'f) approval_store \<Rightarrow> ('a, 'f) approval_store" where
  "decide_store st d s = (case d of (i, by, now) \<Rightarrow>
     (case decide_approval st i by now s of Inl _ \<Rightarrow> s | Inr (_, s') \<Rightarrow> s'))"

definition decision_target :: "string \<times> string option \<times> string \<Rightarrow> ('a, 'f) approval_store \<Rightarrow> 'f option" where
  "decision_target d s = map_option ap_fp (dget s (fst d))"

definition take_store :: "approval_status \<Rightarrow> 'f \<Rightarrow> ('a, 'f) approval_store \<Rightarrow> bool \<times> ('a, 'f) approval_store" where
  "take_store st f s = (case consume st f s of (r, s') \<Rightarrow> (r \<noteq> None, s'))"

lemma decide_store_le:
  "granted (decide_store st d s) f
    \<le> granted s f + (if st = Approved \<and> decision_target d s = Some f then 1 else 0)"
proof -
  obtain i by' now where d: "d = (i, by', now)" by (cases d) auto
  show ?thesis
  proof (cases "dget s i")
    case None
    then show ?thesis by (simp add: decide_store_def decide_approval_def d)
  next
    case (Some a)
    then show ?thesis
      using granted_dset_le [of i "a\<lparr>ap_status := st, ap_decided_by := by', ap_decided_at := Some now\<rparr>" s f]
      by (auto simp: decide_store_def decide_approval_def decision_target_def d Let_def split: if_splits)
  qed
qed

interpretation mem_registry: approval_registry granted "request_store fp" "decide_store Approved"
  "decide_store Refused" "take_store Approved" "take_store Refused" decision_target
proof (unfold_locales, goal_cases)
  case (1 q s f)
  obtain i tool args r where q: "q = (i, tool, args, r)" by (cases q) auto
  show ?case
    using granted_dset_le [of i "\<lparr>ap_id = i, ap_tool = tool, ap_args = args, ap_fp = fp tool args,
      ap_status = Pending, ap_reason = r, ap_decided_by = None, ap_decided_at = None\<rparr>" s f]
    by (auto simp: request_store_def request_approval_def q Let_def split: option.splits)
next
  case (2 d s f)
  show ?case using decide_store_le [of Approved d s f] by simp
next
  case (3 d s f)
  show ?case using decide_store_le [of Refused d s f] by simp
next
  case (4 f s s' f')
  then obtain i a where "find_approval f Approved s = Some (i, a)" and s': "s' = ddel i s"
    by (auto simp: take_store_def consume_def split: option.splits)
  then have "(i, a) \<in> set s" "ap_fp a = f" "ap_status a = Approved" by (auto dest: find_approval_Some)
  then show ?case using granted_ddel_hit [of i a s f] granted_ddel_le [of i s f'] s' by auto
next
  case (5 f s s')
  then show ?case by (auto simp: take_store_def consume_def split: option.splits)
next
  case (6 f s f')
  show ?case by (auto simp: take_store_def consume_def granted_ddel_le split: option.splits)
qed

subsection \<open>The store invariant\<close>

text \<open>
  Rows are stored under their own id, one row per id, each with its call's fingerprint, and at
  most one row is pending per fingerprint.
\<close>

definition approvals_wf :: "(string \<Rightarrow> 'a \<Rightarrow> 'f) \<Rightarrow> ('a, 'f) approval_store \<Rightarrow> bool" where
  "approvals_wf fp s \<longleftrightarrow> dict_wf s
     \<and> (\<forall>(i, a) \<in> set s. ap_id a = i \<and> ap_fp a = fp (ap_tool a) (ap_args a))"

lemma approvals_wf_Nil [simp]: "approvals_wf fp []"
  by (simp add: approvals_wf_def)

lemma approvals_wf_dset:
  "approvals_wf fp s \<Longrightarrow> ap_id a = i \<Longrightarrow> ap_fp a = fp (ap_tool a) (ap_args a) \<Longrightarrow> approvals_wf fp (dset i a s)"
  by (auto simp: approvals_wf_def set_dset)

lemma approvals_wf_ddel: "approvals_wf fp s \<Longrightarrow> approvals_wf fp (ddel i s)"
  by (auto simp: approvals_wf_def set_ddel)

lemma approvals_wf_get:
  "approvals_wf fp s \<Longrightarrow> dget s i = Some a \<Longrightarrow> ap_id a = i \<and> ap_fp a = fp (ap_tool a) (ap_args a)"
  by (auto simp: approvals_wf_def dest: dget_Some_in_set)

lemma approvals_wf_decide:
  assumes wf: "approvals_wf fp s" and d: "decide_approval st i by' now s = Inr (a, s')"
  shows "approvals_wf fp s'"
proof -
  from d obtain b where b: "dget s i = Some b"
    and s': "s' = dset i (b\<lparr>ap_status := st, ap_decided_by := by', ap_decided_at := Some now\<rparr>) s"
    by (auto simp: decide_approval_def Let_def split: option.splits)
  from approvals_wf_get [OF wf b] show ?thesis unfolding s' by (intro approvals_wf_dset [OF wf]) auto
qed

lemma approvals_wf_request:
  assumes "approvals_wf fp s" and "request_approval fp i tool args r s = (a, s')"
  shows "approvals_wf fp s' \<and> dget s' (ap_id a) = Some a \<and> ap_fp a = fp tool args \<and> ap_status a = Pending"
proof (cases "find_approval (fp tool args) Pending s")
  case None
  with assms show ?thesis
    by (auto simp: request_approval_def Let_def dict_simps intro!: approvals_wf_dset)
next
  case (Some p)
  obtain j b where p: "p = (j, b)" by (cases p)
  with Some have b: "(j, b) \<in> set s" "ap_fp b = fp tool args" "ap_status b = Pending"
    by (auto dest: find_approval_Some)
  from b(1) assms(1) have j: "ap_id b = j" by (auto simp: approvals_wf_def)
  from b(1) assms(1) have "dget s j = Some b" by (simp add: approvals_wf_def dget_in_set_iff)
  moreover from Some p assms(2) have "a = b" "s' = s" by (auto simp: request_approval_def)
  ultimately show ?thesis using assms(1) b j by simp
qed

lemma approvals_wf_consume: "approvals_wf fp s \<Longrightarrow> approvals_wf fp (snd (consume st f s))"
  by (auto simp: consume_def approvals_wf_ddel split: option.splits)

text \<open>Among stored rows, the pending ones of a call.\<close>

definition pending_of :: "'f \<Rightarrow> ('a, 'f) approval_store \<Rightarrow> (string \<times> ('a, 'f) approval) list" where
  "pending_of f s = filter (\<lambda>(i, a). ap_fp a = f \<and> ap_status a = Pending) s"

lemma find_approval_None_pending: "(find_approval f Pending s = None) = (pending_of f s = [])"
  by (auto simp: find_approval_def pending_of_def find_None_iff filter_empty_conv)

lemma length_pending_dset_other:
  "\<not> (ap_fp a = f \<and> ap_status a = Pending) \<Longrightarrow> length (pending_of f (dset i a s)) \<le> length (pending_of f s)"
  by (induction s) (auto simp: pending_of_def)

lemma length_pending_dset:
  "length (pending_of f (dset i a s)) \<le> Suc (length (pending_of f s))"
  by (induction s) (auto simp: pending_of_def)

lemma length_pending_ddel: "length (pending_of f (ddel i s)) \<le> length (pending_of f s)"
  by (induction s) (auto simp: pending_of_def)

lemma pending_request:
  assumes "length (pending_of f s) \<le> 1"
  shows "length (pending_of f (snd (request_approval fp i tool args r s))) \<le> 1"
proof (cases "find_approval (fp tool args) Pending s")
  case None
  let ?a = "\<lparr>ap_id = i, ap_tool = tool, ap_args = args, ap_fp = fp tool args, ap_status = Pending,
    ap_reason = r, ap_decided_by = None, ap_decided_at = None\<rparr>"
  have eq: "snd (request_approval fp i tool args r s) = dset i ?a s"
    using None by (simp add: request_approval_def Let_def)
  show ?thesis
  proof (cases "fp tool args = f")
    case True
    with None have "pending_of f s = []" by (simp add: find_approval_None_pending)
    then show ?thesis using eq length_pending_dset [of f i ?a s] by simp
  next
    case False
    then show ?thesis using eq assms length_pending_dset_other [of ?a f i s] by simp
  qed
qed (use assms in \<open>auto simp: request_approval_def\<close>)

lemma pending_decide:
  "decide_approval st i by' now s = Inr (a, s') \<Longrightarrow> st \<noteq> Pending \<Longrightarrow>
    length (pending_of f s') \<le> length (pending_of f s)"
  by (auto simp: decide_approval_def Let_def split: option.splits intro!: length_pending_dset_other)

lemma pending_consume: "length (pending_of f (snd (consume st f' s))) \<le> length (pending_of f s)"
  by (auto simp: consume_def length_pending_ddel split: option.splits)

subsection \<open>Histories of a gated agent\<close>

text \<open>Tool calls reach the gate; decisions reach its store from the approval surface.\<close>

datatype 'a gate_event =
    ToolCall run_mode string string string 'a
  | HumanApproves string "string option" string
  | HumanDenies string "string option" string

fun gate_step ::
  "(string \<Rightarrow> 'a \<Rightarrow> 'f) \<Rightarrow> 'a gate_event \<Rightarrow> ('a, 'f) gate \<Rightarrow> ('a, 'f) gate_outcome option \<times> ('a, 'f) gate" where
  "gate_step fp (ToolCall mode new_id now tool args) g =
     (case gate_call fp mode new_id now tool args g of (out, g') \<Rightarrow> (Some out, g'))"
| "gate_step fp (HumanApproves i by now) g =
     (None, case approve i by now (gt_approvals g) of Inl _ \<Rightarrow> g | Inr (_, s') \<Rightarrow> g\<lparr>gt_approvals := s'\<rparr>)"
| "gate_step fp (HumanDenies i by now) g =
     (None, case deny i by now (gt_approvals g) of Inl _ \<Rightarrow> g | Inr (_, s') \<Rightarrow> g\<lparr>gt_approvals := s'\<rparr>)"

text \<open>How many calls with fingerprint \<open>f\<close> a history lets through.\<close>

fun let_through :: "(string \<Rightarrow> 'a \<Rightarrow> 'f) \<Rightarrow> 'f \<Rightarrow> 'a gate_event \<Rightarrow> ('a, 'f) gate_outcome option \<Rightarrow> nat" where
  "let_through fp f (ToolCall m i n tool args) out = (if fp tool args = f \<and> out = Some Allowed then 1 else 0)"
| "let_through fp f e out = 0"

text \<open>How many human approvals of \<open>f\<close> it contains, mid-turn ones apart.\<close>

fun store_approval :: "'f \<Rightarrow> 'a gate_event \<Rightarrow> ('a, 'f) gate \<Rightarrow> nat" where
  "store_approval f (HumanApproves i by now) g =
     (if map_option ap_fp (dget (gt_approvals g) i) = Some f then 1 else 0)"
| "store_approval f e g = 0"

fun midturn_approval :: "(string \<Rightarrow> 'a \<Rightarrow> 'f) \<Rightarrow> 'f \<Rightarrow> 'a gate_event \<Rightarrow> nat" where
  "midturn_approval fp f (ToolCall (Resumed d) i now tool args) = (if is_approved d \<and> fp tool args = f then 1 else 0)"
| "midturn_approval fp f e = 0"

fun history_counts ::
  "(string \<Rightarrow> 'a \<Rightarrow> 'f) \<Rightarrow> 'f \<Rightarrow> 'a gate_event list \<Rightarrow> ('a, 'f) gate \<Rightarrow> (nat \<times> nat \<times> nat) \<times> ('a, 'f) gate" where
  "history_counts fp f [] g = ((0, 0, 0), g)"
| "history_counts fp f (e # es) g =
     (let (out, g') = gate_step fp e g;
          ((l, a, m), g'') = history_counts fp f es g'
      in ((let_through fp f e out + l, store_approval f e g + a, midturn_approval fp f e + m), g''))"

text \<open>The policies never answer ALLOW for calls with fingerprint \<open>f\<close>.\<close>

definition never_allows :: "(string \<Rightarrow> 'a \<Rightarrow> 'f) \<Rightarrow> 'f \<Rightarrow> 'a policy list \<Rightarrow> (string \<times> pyval) list \<Rightarrow> bool" where
  "never_allows fp f ps ctx \<longleftrightarrow>
     (\<forall>tool args res. fp tool args = f \<longrightarrow>
        evaluate_policies ps \<lparr>pe_phase = ''tool_call'', pe_tool = Some tool, pe_args = Some args,
          pe_content = None, pe_context = ctx\<rparr> = Inr res \<longrightarrow> pr_action res \<noteq> Allow)"

lemma decide_store_simp:
  "decide_store st (i, by', now) s = (case decide_approval st i by' now s of Inl _ \<Rightarrow> s | Inr (_, s') \<Rightarrow> s')"
  by (simp add: decide_store_def)

lemma ask_human_store:
  assumes wf: "approvals_wf fp s" and a: "dget s (ap_id a) = Some a" "ap_fp a = fp tool args"
    and out: "ask_human mode now tool a s = (out, s')"
  shows "approvals_wf fp s'
    \<and> (if fp tool args = f \<and> out = Allowed then 1 else 0) + granted s' f
        \<le> granted s f + 2 * (case mode of Resumed d \<Rightarrow> if is_approved d \<and> fp tool args = f then 1 else 0 | _ \<Rightarrow> 0)"
proof (cases mode)
  case (Resumed d)
  let ?st = "if is_approved d then Approved else Refused"
  let ?b = "a\<lparr>ap_status := ?st, ap_decided_by := None, ap_decided_at := Some now\<rparr>"
  have dec: "decide_approval ?st (ap_id a) None now s = Inr (?b, dset (ap_id a) ?b s)"
    using a by (simp add: decide_approval_def Let_def)
  then have s': "s' = dset (ap_id a) ?b s" and o': "out = Allowed \<longleftrightarrow> is_approved d"
    using out Resumed by (auto simp: ask_human_def approve_def deny_def split: if_splits)
  have "approvals_wf fp s'" using approvals_wf_decide [OF wf dec] s' by simp
  moreover have "granted s' f \<le> granted s f + (if fp tool args = f \<and> is_approved d then 1 else 0)"
    using granted_dset_le [of "ap_id a" ?b s f] a(2) unfolding s' by (auto split: if_splits)
  ultimately show ?thesis using o' Resumed by auto
qed (use out wf in \<open>auto simp: ask_human_def\<close>)

lemma gate_call_static:
  "gate_call fp mode i now tool args g = (out, g') \<Longrightarrow> gt_policies g' = gt_policies g \<and> gt_context g' = gt_context g"
  by (auto simp: gate_call_eq Let_def split: prod.splits option.splits sum.splits policy_action.splits)

text \<open>What a call does once no decision is waiting for it.\<close>

lemma gate_ask_step:
  assumes wf: "approvals_wf fp s" and req: "request_approval fp i tool args r s = (a, s3)"
    and out: "ask_human mode now tool a s3 = (out, s4)"
  shows "approvals_wf fp s4
    \<and> (if fp tool args = f \<and> out = Allowed then 1 else 0) + granted s4 f
        \<le> granted s f + 2 * midturn_approval fp f (ToolCall mode i now tool args)"
proof -
  have "s3 = request_store fp (i, tool, args, r) s" using req by (simp add: request_store_def)
  then have "granted s3 f \<le> granted s f" using mem_registry.grants_request by simp
  moreover note ask_human_store [OF _ _ _ out, of fp args f] approvals_wf_request [OF wf req]
  ultimately show ?thesis by (auto split: run_mode.splits)
qed

lemma gate_call_step:
  assumes wf: "approvals_wf fp (gt_approvals g)" and na: "never_allows fp f (gt_policies g) (gt_context g)"
    and call: "gate_call fp mode i now tool args g = (out, g')"
  shows "approvals_wf fp (gt_approvals g')
    \<and> (if fp tool args = f \<and> out = Allowed then 1 else 0) + granted (gt_approvals g') f
        \<le> granted (gt_approvals g) f + 2 * midturn_approval fp f (ToolCall mode i now tool args)"
proof -
  let ?s = "gt_approvals g"
  obtain r1 s1 where c1: "consume_granted fp tool args ?s = (r1, s1)" by (cases "consume_granted fp tool args ?s")
  obtain r2 s2 where c2: "consume_denied fp tool args s1 = (r2, s2)" by (cases "consume_denied fp tool args s1")
  have t1: "take_store Approved (fp tool args) ?s = (r1 \<noteq> None, s1)"
    using c1 by (simp add: take_store_def consume_granted_def)
  have t2: "take_store Refused (fp tool args) s1 = (r2 \<noteq> None, s2)"
    using c2 by (simp add: take_store_def consume_denied_def)
  have wf1: "approvals_wf fp s1"
    using approvals_wf_consume [OF wf, of Approved "fp tool args"] c1 by (simp add: consume_granted_def)
  have wf2: "approvals_wf fp s2"
    using approvals_wf_consume [OF wf1, of Refused "fp tool args"] c2 by (simp add: consume_denied_def)
  show ?thesis
  proof (cases r1)
    case (Some a)
    then have "g' = g\<lparr>gt_approvals := s1\<rparr>" "out = Allowed" using call c1 by (auto simp: gate_call_eq)
    then show ?thesis using wf1 mem_registry.take_granted_le [of "fp tool args" ?s f] t1 Some by auto
  next
    case None
    have le: "granted s2 f \<le> granted ?s f"
      using mem_registry.take_both_le [of "fp tool args" ?s f] t1 t2 by simp
    let ?ev = "\<lparr>pe_phase = ''tool_call'', pe_tool = Some tool, pe_args = Some args, pe_content = None,
      pe_context = gt_context g\<rparr>"
    show ?thesis
    proof (cases r2)
      case (Some a)
      then show ?thesis using call c1 c2 None wf2 le by (auto simp: gate_call_eq)
    next
      case None2: None
      show ?thesis
      proof (cases "evaluate_policies (gt_policies g) ?ev")
        case (Inl exc)
        then show ?thesis using call c1 c2 None None2 wf2 le by (auto simp: gate_call_eq)
      next
        case (Inr res)
        show ?thesis
        proof (cases "pr_action res")
          case Allow
          then have "fp tool args \<noteq> f" using na Inr unfolding never_allows_def by blast
          then show ?thesis using call c1 c2 None None2 Inr Allow wf2 le by (auto simp: gate_call_eq)
        next
          case Deny
          then show ?thesis using call c1 c2 None None2 Inr wf2 le by (auto simp: gate_call_eq Let_def)
        next
          case Ask
          obtain a s3 where req: "request_approval fp i tool args (pr_reason res) s2 = (a, s3)"
            by (cases "request_approval fp i tool args (pr_reason res) s2")
          obtain o4 s4 where ask: "ask_human mode now tool a s3 = (o4, s4)"
            by (cases "ask_human mode now tool a s3")
          have "out = o4" "gt_approvals g' = s4"
            using call c1 c2 None None2 Inr Ask req ask by (auto simp: gate_call_eq Let_def)
          then show ?thesis using gate_ask_step [OF wf2 req ask, of f] le by auto
        qed
      qed
    qed
  qed
qed

lemma store_step:
  assumes wf: "approvals_wf fp s" and d: "decide_approval st i by' now s = Inr (a, s')"
  shows "approvals_wf fp s' \<and> granted s' f
    \<le> granted s f + (if st = Approved \<and> map_option ap_fp (dget s i) = Some f then 1 else 0)"
  using approvals_wf_decide [OF wf d] decide_store_le [of st "(i, by', now)" s f] d
  by (simp add: decide_store_simp decision_target_def)

lemma gate_step_counts:
  assumes wf: "approvals_wf fp (gt_approvals g)" and na: "never_allows fp f (gt_policies g) (gt_context g)"
    and st: "gate_step fp e g = (out, g')"
  shows "approvals_wf fp (gt_approvals g') \<and> never_allows fp f (gt_policies g') (gt_context g')
    \<and> let_through fp f e out + granted (gt_approvals g') f
        \<le> granted (gt_approvals g) f + store_approval f e g + 2 * midturn_approval fp f e"
proof (cases e)
  case (ToolCall mode i now tool args)
  obtain o' where c: "gate_call fp mode i now tool args g = (o', g')" and o: "out = Some o'"
    using st ToolCall by (auto split: prod.splits)
  from gate_call_step [OF wf na c] gate_call_static [OF c] na o ToolCall show ?thesis by auto
next
  case (HumanApproves i by' now)
  show ?thesis
  proof (cases "decide_approval Approved i by' now (gt_approvals g)")
    case (Inl x)
    then show ?thesis using st HumanApproves wf na by (auto simp: approve_def)
  next
    case (Inr x)
    then show ?thesis using st HumanApproves wf na store_step [OF wf, of Approved i by' now "fst x" "snd x" f]
      by (auto simp: approve_def split: prod.splits if_splits)
  qed
next
  case (HumanDenies i by' now)
  show ?thesis
  proof (cases "decide_approval Refused i by' now (gt_approvals g)")
    case (Inl x)
    then show ?thesis using st HumanDenies wf na by (auto simp: deny_def)
  next
    case (Inr x)
    then show ?thesis using st HumanDenies wf na store_step [OF wf, of Refused i by' now "fst x" "snd x" f]
      by (auto simp: deny_def split: prod.splits)
  qed
qed

lemma history_counts_bound:
  assumes "approvals_wf fp (gt_approvals g)" and "never_allows fp f (gt_policies g) (gt_context g)"
    and "history_counts fp f es g = ((l, a, m), g')"
  shows "approvals_wf fp (gt_approvals g') \<and> l + granted (gt_approvals g') f \<le> granted (gt_approvals g) f + a + 2 * m"
  using assms
proof (induction es arbitrary: g l a m)
  case (Cons e es)
  obtain out g1 where st: "gate_step fp e g = (out, g1)" by (cases "gate_step fp e g")
  obtain l' a' m' where rest: "history_counts fp f es g1 = ((l', a', m'), g')"
    and l: "l = let_through fp f e out + l'" "a = store_approval f e g + a'" "m = midturn_approval fp f e + m'"
    using Cons.prems(3) st by (auto simp: Let_def split: prod.splits)
  from gate_step_counts [OF Cons.prems(1,2) st] Cons.IH [OF _ _ rest] l show ?case by auto
qed simp

subsection \<open>What every gate step keeps of the store\<close>

text \<open>A property kept by the store's operations is kept by every gate step.\<close>

lemma gate_step_closed:
  assumes req: "\<And>i tool args r s. P s \<Longrightarrow> P (snd (request_approval fp i tool args r s))"
    and dec: "\<And>st i by' now a s s'. P s \<Longrightarrow> st \<noteq> Pending \<Longrightarrow> decide_approval st i by' now s = Inr (a, s') \<Longrightarrow> P s'"
    and con: "\<And>st f s. P s \<Longrightarrow> P (snd (consume st f s))"
    and P: "P (gt_approvals g)"
  shows "P (gt_approvals (snd (gate_step fp e g)))"
proof -
  have ask: "P (snd (ask_human mode now tool a s))" if "P s" for mode now tool a s
    using that by (auto simp: ask_human_def approve_def deny_def
        split: run_mode.splits sum.splits prod.splits intro: dec)
  show ?thesis
  proof (cases e)
    case (ToolCall mode i now tool args)
    let ?s1 = "snd (consume_granted fp tool args (gt_approvals g))"
    have s1: "P ?s1" using con [OF P] by (simp add: consume_granted_def)
    let ?s2 = "snd (consume_denied fp tool args ?s1)"
    have s2: "P ?s2" using con [OF s1] by (simp add: consume_denied_def)
    have s4: "P (snd (ask_human mode now tool (fst q) (snd q)))"
      if "q = request_approval fp i tool args r ?s2" for q r
      using ask [OF req [OF s2, of i tool args r]] that by simp
    show ?thesis using s1 s2 s4 ToolCall
      by (auto simp: gate_call_eq Let_def split: prod.splits option.splits sum.splits policy_action.splits)
        (metis fst_conv snd_conv)+
  next
    case (HumanApproves i by' now)
    then show ?thesis using P dec [OF P, of Approved i by' now] by (auto simp: approve_def split: sum.splits)
  next
    case (HumanDenies i by' now)
    then show ?thesis using P dec [OF P, of Refused i by' now] by (auto simp: deny_def split: sum.splits)
  qed
qed

subsection \<open>Properties\<close>

text \<open>
  Composing policies takes the most severe verdict: unless a policy raises, the composed
  action is the maximum of ALLOW and all verdicts given (abstaining policies count as ALLOW), and
  a composed result that carries a reason is never ALLOW; a policy's exception is never swallowed.
\<close>

theorem evaluate_policies_spec:
  "case evaluate_policies ps ev of
     Inl exc \<Rightarrow> raises ps ev
   | Inr res \<Rightarrow> \<not> raises ps ev \<and> pr_action res = Max (insert Allow (set (verdicts ps ev)))
       \<and> (pr_action res = Allow \<longrightarrow> pr_reason res = None)"
proof (cases "evaluate_policies ps ev")
  case (Inl exc)
  then show ?thesis using eval_fold_raises [of ps ev Allow "[]" "[]"] by (auto simp: evaluate_policies_def)
next
  case (Inr res)
  then show ?thesis
    using eval_fold_raises [of ps ev Allow "[]" "[]"] eval_fold_action [of ps ev Allow "[]" "[]" res]
      eval_fold_reason [of ps ev Allow "[]" "[]" res]
    by (cases "pr_reason res") (auto simp: evaluate_policies_def)
qed

lemma evaluate_policies_spec_witness:
  "pr_action (projr (evaluate_policies
      [\<lambda>_. Inr None, \<lambda>_. Inr (Some \<lparr>pr_action = Deny, pr_reason = Some ''no'', pr_labels = []\<rparr>),
       \<lambda>_. Inr (Some \<lparr>pr_action = Ask, pr_reason = None, pr_labels = []\<rparr>)]
      \<lparr>pe_phase = ''tool_call'', pe_tool = None, pe_args = None :: unit option, pe_content = None, pe_context = []\<rparr>)) = Deny"
  using evaluate_policies_spec [of
      "[\<lambda>_. Inr None, \<lambda>_. Inr (Some \<lparr>pr_action = Deny, pr_reason = Some ''no'', pr_labels = []\<rparr>),
        \<lambda>_. Inr (Some \<lparr>pr_action = Ask, pr_reason = None, pr_labels = []\<rparr>)]"
      "\<lparr>pe_phase = ''tool_call'', pe_tool = None, pe_args = None :: unit option, pe_content = None, pe_context = []\<rparr>"]
  by (simp add: evaluate_policies_def less_policy_action_def)

text \<open>
  C24: Human approvals are one-shot.  For calls the policies never allow by themselves, over any
  history of tool calls and decisions starting from a well-formed store, the number of calls let
  through plus the grants still on hand is at most the grants at the start plus one per approval
  recorded in the store plus two per approval given mid-turn.
\<close>

theorem gate_approvals_one_shot:
  assumes "approvals_wf fp (gt_approvals g)" and "never_allows fp f (gt_policies g) (gt_context g)"
    and "history_counts fp f es g = ((calls, recorded, midturn), g')"
  shows "calls + granted (gt_approvals g') f \<le> granted (gt_approvals g) f + recorded + 2 * midturn"
  using history_counts_bound [OF assms] by simp

definition asking :: "nat policy" where
  "asking ev = Inr (Some \<lparr>pr_action = Ask, pr_reason = Some ''sure?'', pr_labels = []\<rparr>)"

definition asking_gate :: "(nat, string \<times> nat) gate" where
  "asking_gate = \<lparr>gt_policies = [asking], gt_approvals = [], gt_labels = [], gt_context = []\<rparr>"

lemma gate_approvals_one_shot_witness:
  "(1::nat) + granted (gt_approvals (snd (history_counts Pair (''rm'', 7)
      [ToolCall NoThread ''a1'' ''t0'' ''rm'' 7, HumanApproves ''a1'' None ''t1'',
       ToolCall NoThread ''a2'' ''t2'' ''rm'' 7, ToolCall NoThread ''a2'' ''t3'' ''rm'' 7] asking_gate))) (''rm'', 7)
    \<le> granted (gt_approvals asking_gate) (''rm'', 7) + 1 + 2 * 0"
  by (rule gate_approvals_one_shot [where fp = Pair
        and es = "[ToolCall NoThread ''a1'' ''t0'' ''rm'' 7, HumanApproves ''a1'' None ''t1'',
          ToolCall NoThread ''a2'' ''t2'' ''rm'' 7, ToolCall NoThread ''a2'' ''t3'' ''rm'' 7]"])
    (simp_all add: asking_gate_def never_allows_def evaluate_policies_def asking_def gate_call_eq
      consume_granted_def consume_denied_def consume_def find_approval_def request_approval_def
      ask_human_def approve_def decide_approval_def less_policy_action_def Let_def)

text \<open>
  An approval given mid-turn is used up only by the next identical call: after a suspended call
  is resumed with an approving decision it runs, and the next call with the same fingerprint is
  let through again, in any run, without evaluating a policy and without asking anybody.
\<close>

theorem midturn_approval_lets_two_through:
  assumes "approvals_wf fp (gt_approvals g)" and "is_approved d"
    and "gate_call fp (Resumed d) i now tool args g = (Allowed, g')"
    and "consume_granted fp tool args (gt_approvals g) = (None, s')"
    and "evaluate_policies (gt_policies g) \<lparr>pe_phase = ''tool_call'', pe_tool = Some tool, pe_args = Some args,
          pe_content = None, pe_context = gt_context g\<rparr> = Inr res" and "pr_action res = Ask"
    and "fp tool' args' = fp tool args"
  shows "\<exists>g''. gate_call fp mode i' now' tool' args' g' = (Allowed, g'') \<and> gt_labels g'' = gt_labels g'"
proof -
  let ?f = "fp tool args"
  obtain r2 s2 where c2: "consume_denied fp tool args s' = (r2, s2)" by (cases "consume_denied fp tool args s'")
  with assms(3,4) have r2: "r2 = None" by (cases r2) (auto simp: gate_call_eq)
  have s12: "s' = gt_approvals g" "s2 = s'"
    using assms(4) c2 r2 by (auto simp: consume_granted_def consume_denied_def consume_def split: option.splits)
  obtain a s3 where req: "request_approval fp i tool args (pr_reason res) s2 = (a, s3)"
    by (cases "request_approval fp i tool args (pr_reason res) s2")
  note a = approvals_wf_request [OF _ req, unfolded s12, OF assms(1)]
  let ?b = "a\<lparr>ap_status := Approved, ap_decided_by := None, ap_decided_at := Some now\<rparr>"
  have "ask_human (Resumed d) now tool a s3 = (Allowed, dset (ap_id a) ?b s3)"
    using a assms(2) by (simp add: ask_human_def approve_def decide_approval_def Let_def)
  then have s'': "gt_approvals g' = dset (ap_id a) ?b s3"
    using assms(3-6) c2 r2 req by (auto simp: gate_call_eq Let_def)
  have wf3: "dict_wf s3" using a by (simp add: approvals_wf_def)
  have "(ap_id a, ?b) \<in> set (gt_approvals g')" using s'' set_dset [OF wf3] by simp
  moreover have "ap_fp ?b = ?f" "ap_status ?b = Approved" using a by auto
  ultimately have "find_approval ?f Approved (gt_approvals g') \<noteq> None"
    unfolding find_approval_def find_None_iff by fastforce
  then obtain j c where "find_approval ?f Approved (gt_approvals g') = Some (j, c)" by auto
  then show ?thesis using assms(7)
    by (simp add: gate_call_eq consume_granted_def consume_def)
qed

lemma midturn_approval_lets_two_through_witness:
  "\<exists>g''. gate_call Pair NoThread ''a2'' ''t2'' ''rm'' 7
      (snd (gate_call Pair (Resumed (PBool True)) ''a1'' ''t1'' ''rm'' 7 asking_gate)) = (Allowed, g'')
    \<and> gt_labels g'' = gt_labels (snd (gate_call Pair (Resumed (PBool True)) ''a1'' ''t1'' ''rm'' 7 asking_gate))"
  by (rule midturn_approval_lets_two_through [where g = asking_gate and d = "PBool True" and fp = Pair
        and args = 7 and tool = "''rm''" and now = "''t1''" and i = "''a1''" and s' = "[]"
        and res = "\<lparr>pr_action = Ask, pr_reason = Some ''sure?'', pr_labels = []\<rparr>"])
    (simp_all add: asking_gate_def evaluate_policies_def asking_def gate_call_eq is_approved_def
      consume_granted_def consume_denied_def consume_def find_approval_def request_approval_def
      ask_human_def approve_def decide_approval_def less_policy_action_def join_reasons_def Let_def)

text \<open>
  The classifier policy fails closed: in its phases it always gives a verdict, and any verdict
  other than DENY is the one spelled by the first word of the classifier's answer; an unavailable
  classifier and an unparseable answer are both DENY.
\<close>

theorem prompt_policy_fails_closed:
  assumes "prompt_policy llm phases = Inr p" and "pe_phase ev \<in> set phases"
  shows "\<exists>r. p ev = Inr (Some r) \<and>
    (case llm ev of
       Inl exc \<Rightarrow> pr_action r = Deny
     | Inr text \<Rightarrow> (case verdict_of_word (verdict_word text) of
         Some act \<Rightarrow> pr_action r = act | None \<Rightarrow> pr_action r = Deny))"
proof -
  from assms have p: "p ev = (case llm ev of
      Inl exc \<Rightarrow> Inr (Some \<lparr>pr_action = Deny,
        pr_reason = Some (''Policy classifier unavailable ('' @ exc @ ''); denying by default.''), pr_labels = []\<rparr>)
    | Inr text \<Rightarrow> Inr (Some (parse_verdict text)))"
    by (auto simp: prompt_policy_def split: if_splits)
  show ?thesis
  proof (cases "llm ev")
    case (Inr answer)
    with p show ?thesis
      by (cases "verdict_of_word (verdict_word answer)") (simp_all add: parse_verdict_def Let_def)
  qed (use p in \<open>simp\<close>)
qed

lemma prompt_policy_fails_closed_witness:
  "\<exists>r. projr (prompt_policy (\<lambda>_ :: nat policy_event. Inr ''deny. x'') [''tool_call''])
      \<lparr>pe_phase = ''tool_call'', pe_tool = None, pe_args = Some 0, pe_content = None, pe_context = []\<rparr>
      = Inr (Some r) \<and> pr_action r = Deny"
proof -
  have w: "verdict_of_word (verdict_word ''deny. x'') = Some Deny" by code_simp
  have "prompt_policy (\<lambda>_ :: nat policy_event. Inr ''deny. x'') [''tool_call'']
      = Inr (projr (prompt_policy (\<lambda>_ :: nat policy_event. Inr ''deny. x'') [''tool_call'']))"
    by (simp add: prompt_policy_def unknown_phases_def policy_phases_def)
  from prompt_policy_fails_closed [OF this, of "\<lparr>pe_phase = ''tool_call'', pe_tool = None,
      pe_args = Some 0, pe_content = None, pe_context = []\<rparr>"] w
  show ?thesis by simp
qed

text \<open>
  Every gate step keeps the approval store well-formed (rows stored under their own id, with
  the fingerprint of their call) and never leaves two requests pending for the same call.
\<close>

theorem gate_keeps_one_pending_per_call:
  assumes "approvals_wf fp (gt_approvals g)" and "length (pending_of f (gt_approvals g)) \<le> 1"
  shows "approvals_wf fp (gt_approvals (snd (gate_step fp e g)))
    \<and> length (pending_of f (gt_approvals (snd (gate_step fp e g)))) \<le> 1"
proof
  show "approvals_wf fp (gt_approvals (snd (gate_step fp e g)))"
  proof (rule gate_step_closed [where P = "approvals_wf fp", OF _ _ _ assms(1)])
    fix i tool args r s assume "approvals_wf fp s"
    then show "approvals_wf fp (snd (request_approval fp i tool args r s))"
      using approvals_wf_request [of fp s i tool args r] by (cases "request_approval fp i tool args r s") auto
  qed (auto intro: approvals_wf_decide approvals_wf_consume)
  show "length (pending_of f (gt_approvals (snd (gate_step fp e g)))) \<le> 1"
    by (rule gate_step_closed [where P = "\<lambda>s. length (pending_of f s) \<le> 1", OF _ _ _ assms(2)])
      (auto simp: pending_request [simplified] intro: order_trans [OF pending_decide] order_trans [OF pending_consume])
qed

lemma gate_keeps_one_pending_per_call_witness:
  "approvals_wf Pair (gt_approvals (snd (gate_step Pair (ToolCall NoThread ''a1'' ''t0'' ''rm'' 7) asking_gate)))
    \<and> length (pending_of (''rm'', 7) (gt_approvals (snd (gate_step Pair (ToolCall NoThread ''a1'' ''t0'' ''rm'' 7) asking_gate)))) \<le> 1"
  by (rule gate_keeps_one_pending_per_call) (simp_all add: asking_gate_def pending_of_def)

text \<open>Approving does not ask for a pending row: a refused call can be approved afterwards.\<close>

lemma approve_flips_refused:
  assumes "dget s i = Some a" and "ap_status a = Refused"
  shows "\<exists>b s'. approve i by' now s = Inr (b, s') \<and> ap_status b = Approved \<and> dget s' i = Some b"
  using assms by (auto simp: approve_def decide_approval_def Let_def dict_simps)

end
