(* ===== verification/Tool_Cancellation.thy ===== *)
theory Tool_Cancellation
  imports Apx_Prelude
begin

text \<open>
  Cancellable tool calls (\<open>_cancellation.py\<close>): one-shot tokens, the registry with its kill switch,
  and the supervisor loop of the \<open>cancellable\<close> decorator.

  Tokens are shared mutable objects, so they live in a store and are named by their index.  The
  worker thread and the other threads are the environment: one \<open>poll\<close> of the supervisor records
  what the others did to the registry and the tokens while it waited, whether the worker was done
  when the wait ended and with what, and the clock.  A supervisor that has consumed all polls is
  still waiting (\<open>None\<close>).
\<close>

subsection \<open>Tokens and registry\<close>

record cancel_token =
  ct_set :: bool
  ct_reason :: "string option"

record cancel_state =
  cs_tokens :: "cancel_token list"
  cs_registered :: "nat list"

definition fresh_token :: cancel_token where
  "fresh_token = \<lparr>ct_set = False, ct_reason = None\<rparr>"

definition token_cancel :: "string \<Rightarrow> cancel_token \<Rightarrow> cancel_token" where
  "token_cancel reason t = (if \<not> ct_set t then \<lparr>ct_set = True, ct_reason = Some reason\<rparr> else t)"

definition new_token :: "cancel_state \<Rightarrow> nat \<times> cancel_state" where
  "new_token st = (length (cs_tokens st), st\<lparr>cs_tokens := cs_tokens st @ [fresh_token]\<rparr>)"

definition is_cancelled :: "nat \<Rightarrow> cancel_state \<Rightarrow> bool" where
  "is_cancelled i st \<longleftrightarrow> i < length (cs_tokens st) \<and> ct_set (cs_tokens st ! i)"

definition reason_of :: "nat \<Rightarrow> cancel_state \<Rightarrow> string option" where
  "reason_of i st = (if i < length (cs_tokens st) then ct_reason (cs_tokens st ! i) else None)"

definition cancel :: "nat \<Rightarrow> string \<Rightarrow> cancel_state \<Rightarrow> cancel_state" where
  "cancel i reason st =
     (if i < length (cs_tokens st)
      then st\<lparr>cs_tokens := (cs_tokens st)[i := token_cancel reason (cs_tokens st ! i)]\<rparr> else st)"

definition register :: "nat \<Rightarrow> cancel_state \<Rightarrow> cancel_state" where
  "register i st = (if i \<in> set (cs_registered st) then st else st\<lparr>cs_registered := cs_registered st @ [i]\<rparr>)"

definition unregister :: "nat \<Rightarrow> cancel_state \<Rightarrow> cancel_state" where
  "unregister i st = st\<lparr>cs_registered := removeAll i (cs_registered st)\<rparr>"

definition active_count :: "cancel_state \<Rightarrow> nat" where
  "active_count st = length (cs_registered st)"

text \<open>The loop of \<open>cancel_all\<close> over the snapshot of the registered tokens.\<close>

fun cancel_each :: "nat list \<Rightarrow> string \<Rightarrow> nat \<Rightarrow> cancel_state \<Rightarrow> nat \<times> cancel_state" where
  "cancel_each [] reason n st = (n, st)"
| "cancel_each (i # is) reason n st =
     (if \<not> is_cancelled i st then cancel_each is reason (Suc n) (cancel i reason st)
      else cancel_each is reason n st)"

definition cancel_all :: "string \<Rightarrow> cancel_state \<Rightarrow> nat \<times> cancel_state" where
  "cancel_all reason st = cancel_each (cs_registered st) reason 0 st"

subsection \<open>The supervisor\<close>

text \<open>What other threads can do to the shared tokens and registry.\<close>

datatype cancel_event =
    NewToken
  | Register nat
  | Unregister nat
  | Cancel nat string
  | CancelAll string

fun cancel_step :: "cancel_event \<Rightarrow> cancel_state \<Rightarrow> cancel_state" where
  "cancel_step NewToken st = snd (new_token st)"
| "cancel_step (Register i) st = register i st"
| "cancel_step (Unregister i) st = unregister i st"
| "cancel_step (Cancel i r) st = cancel i r st"
| "cancel_step (CancelAll r) st = snd (cancel_all r st)"

definition cancel_steps :: "cancel_event list \<Rightarrow> cancel_state \<Rightarrow> cancel_state" where
  "cancel_steps es st = fold cancel_step es st"

datatype 'v worker_outcome = Returned 'v | Raised string

record 'v poll =
  po_events :: "cancel_event list"
  po_done :: "'v worker_outcome option"
  po_now :: pyfloat

datatype 'v call_result =
    CallReturns 'v
  | CallRaises string
  | ToolCancelled string string

text \<open>The canceller acts on an outside world; its exceptions are logged and dropped.\<close>

type_synonym 'w canceller = "('w \<Rightarrow> (string + unit) \<times> 'w) option"

definition fire_canceller :: "'w canceller \<Rightarrow> 'w \<Rightarrow> 'w" where
  "fire_canceller c w =
     (case c of None \<Rightarrow> w | Some f \<Rightarrow> (case f w of (Inl exc, w') \<Rightarrow> w' | (Inr (), w') \<Rightarrow> w'))"

definition timeout_reason :: "(pyfloat \<Rightarrow> string) \<Rightarrow> pyfloat \<Rightarrow> string" where
  "timeout_reason show_num t = ''timed out after '' @ show_num t @ ''s''"

definition reason_text :: "string option \<Rightarrow> string" where
  "reason_text r = (case r of None \<Rightarrow> ''cancelled'' | Some [] \<Rightarrow> ''cancelled'' | Some (c # cs) \<Rightarrow> c # cs)"

text \<open>\<open>deadline\<close> pairs the absolute deadline with \<open>timeout_s\<close>, for the message.\<close>

fun supervise ::
  "(pyfloat \<Rightarrow> string) \<Rightarrow> string \<Rightarrow> 'w canceller \<Rightarrow> (pyfloat \<times> pyfloat) option \<Rightarrow> nat \<Rightarrow> 'v poll list
    \<Rightarrow> 'w \<Rightarrow> cancel_state \<Rightarrow> ('v call_result \<times> 'w \<times> cancel_state) option" where
  "supervise show_num name canceller deadline i [] w st = None"
| "supervise show_num name canceller deadline i (p # ps) w st =
     (let st1 = cancel_steps (po_events p) st
      in case po_done p of
           Some (Raised exc) \<Rightarrow> Some (CallRaises exc, w, st1)
         | Some (Returned v) \<Rightarrow> Some (CallReturns v, w, st1)
         | None \<Rightarrow>
             (if is_cancelled i st1
              then Some (ToolCancelled name (reason_text (reason_of i st1)), fire_canceller canceller w, st1)
              else case deadline of
                     Some (limit, timeout_s) \<Rightarrow>
                       (if po_now p \<ge> limit
                        then (let r = timeout_reason show_num timeout_s
                              in Some (ToolCancelled name r, fire_canceller canceller w, cancel i r st1))
                        else supervise show_num name canceller deadline i ps w st1)
                   | None \<Rightarrow> supervise show_num name canceller deadline i ps w st1))"

text \<open>
  One call of a wrapped tool: token, registration, deadline from the clock at the start, the
  supervisor, and unregistration on every way out (\<open>finally\<close>).
\<close>

definition cancellable_call ::
  "(pyfloat \<Rightarrow> string) \<Rightarrow> string \<Rightarrow> bool \<Rightarrow> 'w canceller \<Rightarrow> pyfloat option \<Rightarrow> pyfloat \<Rightarrow> 'v poll list
    \<Rightarrow> 'w \<Rightarrow> cancel_state \<Rightarrow> ('v call_result \<times> 'w \<times> cancel_state) option" where
  "cancellable_call show_num name has_registry canceller timeout_s start polls w st =
     (let (i, st1) = new_token st;
          st2 = (if has_registry then register i st1 else st1);
          deadline = map_option (\<lambda>t. (start + t, t)) timeout_s
      in case supervise show_num name canceller deadline i polls w st2 of
           None \<Rightarrow> None
         | Some (r, w', st3) \<Rightarrow> Some (r, w', if has_registry then unregister i st3 else st3))"

text \<open>Cooperative tools receive the token unless the caller passes one (\<open>setdefault\<close>).\<close>

definition worker_kwargs :: "bool \<Rightarrow> (nat \<Rightarrow> 'k) \<Rightarrow> nat \<Rightarrow> (string \<times> 'k) list \<Rightarrow> (string \<times> 'k) list" where
  "worker_kwargs cooperative as_arg i kwargs =
     (if cooperative \<and> dget kwargs ''cancel_token'' = None then dset ''cancel_token'' (as_arg i) kwargs else kwargs)"

subsection \<open>Tokens are one-shot\<close>

lemma length_cancel [simp]: "length (cs_tokens (cancel i r st)) = length (cs_tokens st)"
  by (simp add: cancel_def)

lemma registered_cancel [simp]: "cs_registered (cancel i r st) = cs_registered st"
  by (simp add: cancel_def)

lemma is_cancelled_cancel:
  "is_cancelled j (cancel i r st) \<longleftrightarrow> is_cancelled j st \<or> (i = j \<and> j < length (cs_tokens st))"
  by (auto simp: is_cancelled_def cancel_def token_cancel_def nth_list_update)

lemma reason_cancel:
  "reason_of j (cancel i r st) =
    (if i = j \<and> j < length (cs_tokens st) \<and> \<not> is_cancelled j st then Some r else reason_of j st)"
  by (auto simp: is_cancelled_def reason_of_def cancel_def token_cancel_def nth_list_update)

lemma cancel_each_registered [simp]: "cs_registered (snd (cancel_each is r n st)) = cs_registered st"
  by (induction "is" r n st rule: cancel_each.induct) auto

lemma cancel_each_length [simp]: "length (cs_tokens (snd (cancel_each is r n st))) = length (cs_tokens st)"
  by (induction "is" r n st rule: cancel_each.induct) auto

lemma is_cancelled_each:
  "is_cancelled j (snd (cancel_each is r n st)) \<longleftrightarrow> is_cancelled j st \<or> (j \<in> set is \<and> j < length (cs_tokens st))"
  by (induction "is" r n st rule: cancel_each.induct) (auto simp: is_cancelled_cancel)

lemma reason_each:
  "reason_of j (snd (cancel_each is r n st)) =
    (if j \<in> set is \<and> j < length (cs_tokens st) \<and> \<not> is_cancelled j st then Some r else reason_of j st)"
  by (induction "is" r n st rule: cancel_each.induct) (auto simp: is_cancelled_cancel reason_cancel)

lemma count_each:
  "distinct is \<Longrightarrow> \<forall>i \<in> set is. i < length (cs_tokens st) \<Longrightarrow>
    fst (cancel_each is r n st) = n + length (filter (\<lambda>i. \<not> is_cancelled i st) is)"
proof (induction "is" arbitrary: n st)
  case (Cons i "is")
  have "filter (\<lambda>j. \<not> is_cancelled j (cancel i r st)) is = filter (\<lambda>j. \<not> is_cancelled j st) is"
    using Cons.prems(1) by (intro filter_cong) (auto simp: is_cancelled_cancel)
  with Cons show ?case by simp
qed simp

lemma is_cancelled_other [simp]:
  "is_cancelled j (register i st) = is_cancelled j st" "reason_of j (register i st) = reason_of j st"
  "is_cancelled j (unregister i st) = is_cancelled j st" "reason_of j (unregister i st) = reason_of j st"
  by (simp_all add: is_cancelled_def reason_of_def register_def unregister_def)

lemma cancelled_new_token:
  "is_cancelled j st \<Longrightarrow> is_cancelled j (snd (new_token st)) \<and> reason_of j (snd (new_token st)) = reason_of j st"
  by (simp add: new_token_def is_cancelled_def reason_of_def nth_append)

lemma cancelled_step:
  "is_cancelled i st \<Longrightarrow> is_cancelled i (cancel_step e st) \<and> reason_of i (cancel_step e st) = reason_of i st"
  by (cases e)
    (simp_all add: is_cancelled_cancel reason_cancel cancel_all_def is_cancelled_each reason_each cancelled_new_token)

text \<open>The tokens the kill switch reaches.\<close>

definition active_tokens :: "cancel_state \<Rightarrow> nat list" where
  "active_tokens st = filter (\<lambda>i. i < length (cs_tokens st)) (cs_registered st)"

lemma length_cancel_step: "length (cs_tokens st) \<le> length (cs_tokens (cancel_step e st))"
  by (cases e) (auto simp: cancel_all_def new_token_def register_def unregister_def)

text \<open>
  What a caller relies on from any registry with a kill switch: a cancelled token stays cancelled
  with its first reason, the switch reaches every active token, and a token stays active until it
  is dropped.
\<close>

locale kill_switch =
  fixes cancelled :: "'t \<Rightarrow> 's \<Rightarrow> bool"
    and reason :: "'t \<Rightarrow> 's \<Rightarrow> string option"
    and active :: "'s \<Rightarrow> 't list"
    and apply_event :: "'e \<Rightarrow> 's \<Rightarrow> 's"
    and kill :: "string \<Rightarrow> 'e"
    and drops :: "'e \<Rightarrow> 't \<Rightarrow> bool"
  assumes sticky: "cancelled t s \<Longrightarrow> cancelled t (apply_event e s) \<and> reason t (apply_event e s) = reason t s"
    and kill_reaches: "t \<in> set (active s) \<Longrightarrow> cancelled t (apply_event (kill r) s)
      \<and> (\<not> cancelled t s \<longrightarrow> reason t (apply_event (kill r) s) = Some r)"
    and active_until_dropped: "t \<in> set (active s) \<Longrightarrow> \<not> drops e t \<Longrightarrow> t \<in> set (active (apply_event e s))"
begin

lemma sticky_run: "cancelled t s \<Longrightarrow> cancelled t (fold apply_event es s) \<and> reason t (fold apply_event es s) = reason t s"
  by (induction es arbitrary: s) (use sticky in auto)

lemma active_run: "t \<in> set (active s) \<Longrightarrow> \<forall>e \<in> set es. \<not> drops e t \<Longrightarrow> t \<in> set (active (fold apply_event es s))"
  by (induction es arbitrary: s) (use active_until_dropped in auto)

lemma killed_run:
  assumes "t \<in> set (active s)" and "\<forall>e \<in> set es. \<not> drops e t"
  shows "cancelled t (fold apply_event (es @ kill r # fs) s)"
proof -
  have "cancelled t (apply_event (kill r) (fold apply_event es s))"
    using kill_reaches [OF active_run [OF assms]] by blast
  from sticky_run [OF this, of fs] show ?thesis by simp
qed

end

definition drops_token :: "cancel_event \<Rightarrow> nat \<Rightarrow> bool" where
  "drops_token e i \<longleftrightarrow> e = Unregister i"

interpretation registry: kill_switch is_cancelled reason_of active_tokens cancel_step CancelAll drops_token
proof (unfold_locales, goal_cases)
  case (1 t s e)
  then show ?case by (rule cancelled_step)
next
  case (2 t s r)
  then show ?case by (simp add: active_tokens_def cancel_all_def is_cancelled_each reason_each)
next
  case (3 t s e)
  then show ?case using length_cancel_step [of s e]
    by (cases e) (auto simp: active_tokens_def drops_token_def cancel_all_def new_token_def register_def unregister_def)
qed

lemma cancelled_steps:
  "is_cancelled i st \<Longrightarrow> is_cancelled i (cancel_steps es st) \<and> reason_of i (cancel_steps es st) = reason_of i st"
  unfolding cancel_steps_def by (rule registry.sticky_run)

lemma cancel_steps_append: "cancel_steps (es @ fs) st = cancel_steps fs (cancel_steps es st)"
  by (simp add: cancel_steps_def)

subsection \<open>The supervisor\<close>

lemma length_cancel_steps: "length (cs_tokens st) \<le> length (cs_tokens (cancel_steps es st))"
  unfolding cancel_steps_def
  by (induction es arbitrary: st) (auto intro: order_trans [OF length_cancel_step])

lemma supervise_cancelled:
  assumes "\<forall>q \<in> set ps. po_done q = None" and "po_done p = None"
    and "is_cancelled i (cancel_steps (concat (map po_events ps) @ po_events p) st)"
  shows "\<exists>r st'. supervise sn name c dl i (ps @ p # qs) w st = Some (ToolCancelled name r, fire_canceller c w, st')"
  using assms
proof (induction ps arbitrary: st)
  case Nil
  then show ?case by (simp add: Let_def)
next
  case (Cons q ps)
  let ?st = "cancel_steps (po_events q) st"
  have "\<exists>r st'. supervise sn name c dl i (ps @ p # qs) w ?st = Some (ToolCancelled name r, fire_canceller c w, st')"
    using Cons by (intro Cons.IH) (simp_all add: cancel_steps_append)
  then show ?case using Cons.prems(1) by (auto simp: Let_def split: option.splits prod.splits)
qed

definition stops :: "(pyfloat \<times> pyfloat) option \<Rightarrow> 'v poll \<Rightarrow> bool" where
  "stops deadline p \<longleftrightarrow> po_done p \<noteq> None \<or> (case deadline of Some (limit, _) \<Rightarrow> limit \<le> po_now p | None \<Rightarrow> False)"

lemma supervise_total:
  "\<exists>p \<in> set ps. stops dl p \<Longrightarrow> supervise sn name c dl i ps w st \<noteq> None"
proof (induction ps arbitrary: st)
  case (Cons p ps)
  show ?case
  proof (cases "stops dl p")
    case True
    then show ?thesis
      by (auto simp: stops_def Let_def split: option.splits worker_outcome.splits)
  next
    case False
    with Cons.prems have "\<exists>p \<in> set ps. stops dl p" by auto
    then have "supervise sn name c dl i ps w (cancel_steps (po_events p) st) \<noteq> None" by (rule Cons.IH)
    with False show ?thesis by (auto simp: stops_def Let_def split: option.splits)
  qed
qed simp

lemma supervise_result:
  assumes "supervise sn name c dl i ps w st = Some (r, w', st')" and "i < length (cs_tokens st)"
  shows "case r of
      ToolCancelled n m \<Rightarrow> n = name \<and> w' = fire_canceller c w \<and> is_cancelled i st'
    | CallReturns v \<Rightarrow> w' = w \<and> (\<exists>p \<in> set ps. po_done p = Some (Returned v))
    | CallRaises e \<Rightarrow> w' = w \<and> (\<exists>p \<in> set ps. po_done p = Some (Raised e))"
  using assms
proof (induction ps arbitrary: st)
  case (Cons p ps)
  let ?st = "cancel_steps (po_events p) st"
  have len: "i < length (cs_tokens ?st)"
    using Cons.prems(2) length_cancel_steps [of st "po_events p"] by simp
  show ?case
  proof (cases "po_done p = None \<and> \<not> is_cancelled i ?st \<and> \<not> (\<exists>limit t. dl = Some (limit, t) \<and> limit \<le> po_now p)")
    case True
    then have "supervise sn name c dl i ps w ?st = Some (r, w', st')"
      using Cons.prems(1) by (auto simp: Let_def split: option.splits prod.splits if_splits)
    from Cons.IH [OF this len] show ?thesis by (cases r) auto
  next
    case False
    then show ?thesis using Cons.prems(1) len
      by (auto simp: Let_def is_cancelled_cancel split: option.splits prod.splits worker_outcome.splits if_splits)
  qed
qed simp

text \<open>The call's own token: the next index of the store, registered when there is a registry.\<close>

definition call_start :: "bool \<Rightarrow> cancel_state \<Rightarrow> cancel_state" where
  "call_start has_registry st =
     (if has_registry then register (length (cs_tokens st)) (snd (new_token st)) else snd (new_token st))"

lemma call_token_valid: "length (cs_tokens st) < length (cs_tokens (call_start b st))"
  by (simp add: call_start_def new_token_def register_def)

lemma cancellable_call_supervise:
  "cancellable_call sn name b c timeout_s start ps w st =
    (case supervise sn name c (map_option (\<lambda>t. (start + t, t)) timeout_s) (length (cs_tokens st)) ps w (call_start b st) of
       None \<Rightarrow> None
     | Some (r, w', st3) \<Rightarrow> Some (r, w', if b then unregister (length (cs_tokens st)) st3 else st3))"
  by (simp add: cancellable_call_def call_start_def new_token_def)

subsection \<open>Properties\<close>

text \<open>
  C29: The kill switch stops every running tool: if anybody calls \<open>cancel_all\<close> while a registered
  call is waiting and its worker has not finished by the end of that wait, and nobody unregistered
  the call's token, the call raises \<open>ToolCancelled\<close> at that poll at the latest and the canceller
  has been fired exactly once, whatever the worker does later.
\<close>

theorem kill_switch_stops_running_call:
  assumes "\<forall>q \<in> set ps. po_done q = None" and "po_done p = None"
    and "concat (map po_events ps) @ po_events p = es @ CancelAll reason # fs"
    and "Unregister (length (cs_tokens st)) \<notin> set es"
  shows "\<exists>r st'. cancellable_call show_num name True canceller timeout_s start (ps @ p # qs) w st
    = Some (ToolCancelled name r, fire_canceller canceller w, st')"
proof -
  let ?i = "length (cs_tokens st)"
  have "?i \<in> set (active_tokens (call_start True st))"
    using call_token_valid [of st True]
    by (auto simp: active_tokens_def call_start_def register_def new_token_def split: if_splits)
  then have "is_cancelled ?i (fold cancel_step (es @ CancelAll reason # fs) (call_start True st))"
    using assms(4) by (intro registry.killed_run) (auto simp: drops_token_def)
  then have "is_cancelled ?i (cancel_steps (concat (map po_events ps) @ po_events p) (call_start True st))"
    unfolding assms(3) cancel_steps_def .
  from supervise_cancelled [OF assms(1,2) this, of show_num name canceller "map_option (\<lambda>t. (start + t, t)) timeout_s" qs w]
  obtain r st'
    where "supervise show_num name canceller (map_option (\<lambda>t. (start + t, t)) timeout_s) ?i (ps @ p # qs) w
      (call_start True st) = Some (ToolCancelled name r, fire_canceller canceller w, st')" by blast
  then show ?thesis unfolding cancellable_call_supervise by simp
qed

lemma kill_switch_stops_running_call_witness:
  "\<exists>r st'. cancellable_call (\<lambda>_. ''300'') ''crawl'' True (Some (\<lambda>n. (Inl ''boom'', Suc n))) (Some 300) 0
      ([\<lparr>po_events = [], po_done = None, po_now = 1\<rparr>]
        @ \<lparr>po_events = [CancelAll ''violation''], po_done = None, po_now = 2\<rparr>
        # [\<lparr>po_events = [], po_done = Some (Returned True), po_now = 3\<rparr>]) 0 \<lparr>cs_tokens = [], cs_registered = []\<rparr>
    = Some (ToolCancelled ''crawl'' r, fire_canceller (Some (\<lambda>n. (Inl ''boom'', Suc n))) 0, st')"
  by (rule kill_switch_stops_running_call [where es = "[]" and fs = "[]" and reason = "''violation''"]) simp_all

text \<open>
  A call with a timeout returns: as soon as some poll sees the worker done or the clock past the
  deadline, the call has a result.
\<close>

theorem cancellable_call_returns:
  assumes "\<exists>p \<in> set polls. po_done p \<noteq> None \<or> start + t \<le> po_now p"
  shows "cancellable_call show_num name b canceller (Some t) start polls w st \<noteq> None"
proof -
  have "\<exists>p \<in> set polls. stops (Some (start + t, t)) p" using assms by (auto simp: stops_def)
  from supervise_total [OF this] show ?thesis
    unfolding cancellable_call_supervise by (auto split: option.splits)
qed

lemma cancellable_call_returns_witness:
  "cancellable_call (\<lambda>_. ''5'') ''crawl'' False None (Some 5) 10
     [\<lparr>po_events = [], po_done = None :: bool worker_outcome option, po_now = 12\<rparr>,
      \<lparr>po_events = [], po_done = None, po_now = 16\<rparr>] () \<lparr>cs_tokens = [], cs_registered = []\<rparr> \<noteq> None"
  by (rule cancellable_call_returns) simp

text \<open>
  Every way out of a registered call leaves its token unregistered; a cancelled call carries the
  tool's name, has cancelled its token and fired the canceller once, failing or not; any other
  result is the worker's own, and the canceller was not fired.
\<close>

theorem cancellable_call_outcome:
  assumes "cancellable_call show_num name True canceller timeout_s start polls w st = Some (r, w', st')"
  shows "length (cs_tokens st) \<notin> set (cs_registered st') \<and>
    (case r of
       ToolCancelled n m \<Rightarrow> n = name \<and> w' = fire_canceller canceller w \<and> is_cancelled (length (cs_tokens st)) st'
     | CallReturns v \<Rightarrow> w' = w \<and> (\<exists>p \<in> set polls. po_done p = Some (Returned v))
     | CallRaises e \<Rightarrow> w' = w \<and> (\<exists>p \<in> set polls. po_done p = Some (Raised e)))"
proof -
  let ?i = "length (cs_tokens st)"
  obtain st3 where s: "supervise show_num name canceller (map_option (\<lambda>t. (start + t, t)) timeout_s) ?i polls w
      (call_start True st) = Some (r, w', st3)" and st': "st' = unregister ?i st3"
    using assms unfolding cancellable_call_supervise by (auto split: option.splits)
  from supervise_result [OF s call_token_valid] show ?thesis
    unfolding st' by (auto simp: unregister_def is_cancelled_def split: call_result.splits)
qed

lemma cancellable_call_outcome_witness:
  "length (cs_tokens \<lparr>cs_tokens = [], cs_registered = []\<rparr>) \<notin> set (cs_registered \<lparr>cs_tokens = [fresh_token], cs_registered = []\<rparr>)
    \<and> (\<exists>p \<in> set [\<lparr>po_events = [], po_done = Some (Returned True), po_now = 1\<rparr>]. po_done p = Some (Returned True))"
  using cancellable_call_outcome [of "\<lambda>_. []" "''t''" None None 0
      "[\<lparr>po_events = [], po_done = Some (Returned True), po_now = 1\<rparr>]" "()" "\<lparr>cs_tokens = [], cs_registered = []\<rparr>"
      "CallReturns True" "()" "\<lparr>cs_tokens = [fresh_token], cs_registered = []\<rparr>"]
  by (simp add: cancellable_call_def new_token_def register_def unregister_def cancel_steps_def)

text \<open>
  \<open>cancel_all\<close> cancels exactly the registered tokens, gives its reason only to those that had
  none, and returns how many it newly cancelled.
\<close>

theorem cancel_all_spec:
  assumes "distinct (cs_registered st)" and "\<forall>i \<in> set (cs_registered st). i < length (cs_tokens st)"
    and "cancel_all reason st = (n, st')"
  shows "n = length (filter (\<lambda>i. \<not> is_cancelled i st) (cs_registered st))
    \<and> (is_cancelled j st' \<longleftrightarrow> is_cancelled j st \<or> j \<in> set (cs_registered st))
    \<and> reason_of j st' = (if j \<in> set (cs_registered st) \<and> \<not> is_cancelled j st then Some reason else reason_of j st)"
proof -
  let ?each = "cancel_each (cs_registered st) reason 0 st"
  have n: "n = fst ?each" and st': "st' = snd ?each" using assms(3) by (auto simp: cancel_all_def)
  show ?thesis
    unfolding n st' count_each [OF assms(1,2)] is_cancelled_each reason_each using assms(2) by auto
qed

lemma cancel_all_spec_witness:
  "let st = \<lparr>cs_tokens = [fresh_token, \<lparr>ct_set = True, ct_reason = Some ''a''\<rparr>, fresh_token], cs_registered = [1, 2]\<rparr>
   in fst (cancel_all ''b'' st) = length (filter (\<lambda>i. \<not> is_cancelled i st) (cs_registered st))"
  unfolding Let_def
  by (rule cancel_all_spec [THEN conjunct1, OF _ _ surjective_pairing]) simp_all

end
