(* ===== verification/Session_Budget.thy ===== *)
theory Session_Budget
  imports Apx_Prelude
begin

text \<open>
  Cumulative session budgets (\<open>_budget.py\<close>, \<open>_cost.py\<close>) and the governed turn that enforces them
  (\<open>_graph_turn.py\<close>).

  The compiled graph and its checkpointer are outside the sources.  A thread's checkpoint is the
  record the code reads (messages, the keyed \<open>state\<close> channel, the turn record kept in the
  metadata, whether nodes are left to run, the invocation ids of its history); running the graph is
  the parameter \<open>run\<close>, which maps an input and a checkpoint to a result or an error and the new
  checkpoint.  Whether the checkpointer can be read and written is a flag of each turn.
\<close>

subsection \<open>Usage and prices\<close>

record token_usage =
  tu_input :: "int option"
  tu_output :: "int option"

text \<open>A message may carry \<open>usage_metadata\<close>; anything else about it is opaque.\<close>

record 'm turn_message =
  tm_body :: 'm
  tm_usage :: "token_usage option"

definition or_zero :: "int option \<Rightarrow> int" where
  "or_zero n = (case n of None \<Rightarrow> 0 | Some k \<Rightarrow> k)"

fun turn_usage :: "'m turn_message list \<Rightarrow> int" where
  "turn_usage [] = 0"
| "turn_usage (m # ms) =
     (case tm_usage m of None \<Rightarrow> 0 | Some u \<Rightarrow> or_zero (tu_input u) + or_zero (tu_output u)) + turn_usage ms"

definition usd_per_mtok :: "(string \<times> pyfloat \<times> pyfloat) list" where
  "usd_per_mtok = [(''databricks-claude-sonnet-4-6'', 3, 15), (''claude-sonnet-4-6'', 3, 15)]"

definition remove_prefix :: "string \<Rightarrow> string \<Rightarrow> string" where
  "remove_prefix p s = (if starts_with p s then drop (length p) s else s)"

definition usd_for_token_usage :: "int \<Rightarrow> int \<Rightarrow> string option \<Rightarrow> pyfloat option" where
  "usd_for_token_usage inp out model =
     (case model of
        None \<Rightarrow> None
      | Some m \<Rightarrow>
          (if strip m = [] then None
           else let key = remove_prefix ''databricks:/'' (strip m);
                    rates = (case dget usd_per_mtok key of
                               Some r \<Rightarrow> Some r
                             | None \<Rightarrow> if starts_with ''databricks-'' key
                                 then dget usd_per_mtok (drop (length ''databricks-'') key) else None)
                in case rates of
                     None \<Rightarrow> None
                   | Some (i, r) \<Rightarrow> Some ((of_int inp * i + of_int out * r) / 1000000)))"

fun sum_usage :: "'m turn_message list \<Rightarrow> int \<times> int \<Rightarrow> int \<times> int" where
  "sum_usage [] acc = acc"
| "sum_usage (m # ms) (i, r) =
     (case tm_usage m of
        None \<Rightarrow> sum_usage ms (i, r)
      | Some u \<Rightarrow> sum_usage ms (i + or_zero (tu_input u), r + or_zero (tu_output u)))"

definition turn_usd :: "'m turn_message list \<Rightarrow> string option \<Rightarrow> pyfloat option" where
  "turn_usd ms model = (case sum_usage ms (0, 0) of (i, r) \<Rightarrow> usd_for_token_usage i r model)"

subsection \<open>The checkpointed totals\<close>

datatype budget_error =
    TokensExceeded int int
  | UsdExceeded pyfloat pyfloat
  | NoPublishedRate "string option"
  | BadStateValue
  | ReadFailed
  | WriteFailed
  | GraphFailed string
  | RecoveryNeedsCheckpoint
  | RecoveryNeedsInvocation
  | RecoveryInputDiffers
  | RecoveryBehindSession
  | ResumeNeedsCheckpoint

record turn_record =
  tr_invocation :: string
  tr_digest :: string
  tr_pre_count :: nat
  tr_prior_tokens :: int
  tr_prior_usd :: pyfloat

record 'm checkpoint =
  cp_messages :: "'m turn_message list"
  cp_state :: "(string \<times> pyval) list"
  cp_record :: "turn_record option"
  cp_next :: bool
  cp_history :: "string list"

record store_io =
  io_readable :: bool
  io_writable :: bool

text \<open>An agent's declared caps.\<close>

record session_budget =
  sb_tokens :: "int option"
  sb_usd :: "pyfloat option"

definition check_session_budget :: "(string \<times> pyval) list \<Rightarrow> string + session_budget" where
  "check_session_budget sb =
     (if sb = [] \<or> (\<exists>k \<in> fst ` set sb. k \<notin> {''tokens'', ''usd''}) then Inl ''session_budget supports tokens and/or usd''
      else case (dget sb ''tokens'', dget sb ''usd'') of
        (tok, usd) \<Rightarrow>
          (if (case tok of None \<Rightarrow> False | Some (PInt n) \<Rightarrow> n \<le> 0 | _ \<Rightarrow> True)
           then Inl ''session_budget tokens must be a positive int''
           else if (case usd of None \<Rightarrow> False | Some (PInt n) \<Rightarrow> n \<le> 0 | Some (PFloat x) \<Rightarrow> x \<le> 0 | _ \<Rightarrow> True)
           then Inl ''session_budget usd must be a positive finite number''
           else Inr \<lparr>sb_tokens = (case tok of Some (PInt n) \<Rightarrow> Some n | _ \<Rightarrow> None),
                     sb_usd = (case usd of Some (PInt n) \<Rightarrow> Some (of_int n) | Some (PFloat x) \<Rightarrow> Some x | _ \<Rightarrow> None)\<rparr>))"

text \<open>Any failure to read the state reads as an empty state.\<close>

definition prior_state :: "store_io \<Rightarrow> bool \<Rightarrow> 'm checkpoint \<Rightarrow> (string \<times> pyval) list" where
  "prior_state io has_config cp = (if \<not> has_config then [] else if io_readable io then cp_state cp else [])"

definition tokens_in :: "(string \<times> pyval) list \<Rightarrow> budget_error + int" where
  "tokens_in st =
     (case dget st ''session_tokens'' of
        None \<Rightarrow> Inr 0
      | Some (PInt n) \<Rightarrow> Inr n
      | Some (PBool b) \<Rightarrow> Inr (if b then 1 else 0)
      | Some (PFloat x) \<Rightarrow> Inr (if x < 0 then \<lceil>x\<rceil> else \<lfloor>x\<rfloor>)
      | _ \<Rightarrow> Inl BadStateValue)"

definition usd_in :: "(string \<times> pyval) list \<Rightarrow> budget_error + pyfloat" where
  "usd_in st =
     (case dget st ''session_usd'' of
        None \<Rightarrow> Inr 0
      | Some PNone \<Rightarrow> Inr 0
      | Some (PInt n) \<Rightarrow> Inr (of_int n)
      | Some (PBool b) \<Rightarrow> Inr (if b then 1 else 0)
      | Some (PFloat x) \<Rightarrow> Inr x
      | _ \<Rightarrow> Inl BadStateValue)"

definition prior_tokens :: "store_io \<Rightarrow> bool \<Rightarrow> 'm checkpoint \<Rightarrow> budget_error + int" where
  "prior_tokens io has_config cp = tokens_in (prior_state io has_config cp)"

definition prior_usd :: "store_io \<Rightarrow> bool \<Rightarrow> 'm checkpoint \<Rightarrow> budget_error + pyfloat" where
  "prior_usd io has_config cp = usd_in (prior_state io has_config cp)"

definition enforce_before_turn ::
  "store_io \<Rightarrow> bool \<Rightarrow> int option \<Rightarrow> pyfloat option \<Rightarrow> 'm checkpoint \<Rightarrow> budget_error + int" where
  "enforce_before_turn io has_config cap usd_cap cp =
     (case prior_tokens io has_config cp of
        Inl e \<Rightarrow> Inl e
      | Inr prior \<Rightarrow>
          (if (case cap of Some c \<Rightarrow> prior \<ge> c | None \<Rightarrow> False) then Inl (TokensExceeded prior (the cap))
           else case usd_cap of
                  None \<Rightarrow> Inr prior
                | Some u \<Rightarrow>
                    (case prior_usd io has_config cp of
                       Inl e \<Rightarrow> Inl e
                     | Inr spent \<Rightarrow> if spent \<ge> u then Inl (UsdExceeded spent u) else Inr prior)))"

text \<open>
  \<open>update_state\<close>: the \<open>state\<close> channel's reducer merges key by key; the metadata of the
  configuration, when there is one, stays on the new checkpoint.
\<close>

definition update_state :: "turn_record option \<Rightarrow> (string \<times> pyval) list \<Rightarrow> 'm checkpoint \<Rightarrow> 'm checkpoint" where
  "update_state rec st cp =
     cp\<lparr>cp_state := dict_update (cp_state cp) st,
        cp_record := (case rec of None \<Rightarrow> cp_record cp | Some r \<Rightarrow> Some r)\<rparr>"

definition accrue_turn ::
  "store_io \<Rightarrow> bool \<Rightarrow> turn_record option \<Rightarrow> int \<Rightarrow> 'm turn_message list \<Rightarrow> bool \<Rightarrow> pyfloat option \<Rightarrow> string option
    \<Rightarrow> 'm checkpoint \<Rightarrow> (budget_error + int) \<times> 'm checkpoint" where
  "accrue_turn io has_config rec prior new_messages strict usd_cap model cp =
     (let tot = prior + turn_usage new_messages;
          priced = (case usd_cap of
             None \<Rightarrow> Inr [(''session_tokens'', PInt tot)]
           | Some _ \<Rightarrow>
               (case turn_usd new_messages model of
                  None \<Rightarrow> Inl (NoPublishedRate model)
                | Some added \<Rightarrow>
                    (case prior_usd io has_config cp of
                       Inl e \<Rightarrow> Inl e
                     | Inr spent \<Rightarrow> Inr [(''session_tokens'', PInt tot), (''session_usd'', PFloat (spent + added))])))
      in case priced of
           Inl e \<Rightarrow> (Inl e, cp)
         | Inr st \<Rightarrow>
             (if \<not> has_config then (Inr tot, cp)
              else if io_writable io then (Inr tot, update_state rec st cp)
              else if strict then (Inl WriteFailed, cp)
              else (Inr tot, cp)))"

definition enforce_after_turn ::
  "store_io \<Rightarrow> bool \<Rightarrow> turn_record option \<Rightarrow> int \<Rightarrow> 'm turn_message list \<Rightarrow> int option \<Rightarrow> bool \<Rightarrow> pyfloat option
    \<Rightarrow> string option \<Rightarrow> 'm checkpoint \<Rightarrow> budget_error option \<times> 'm checkpoint" where
  "enforce_after_turn io has_config rec prior new_messages cap strict usd_cap model cp =
     (case (if usd_cap = None then Inr 0 else prior_usd io has_config cp) of
        Inl e \<Rightarrow> (Some e, cp)
      | Inr before_usd \<Rightarrow>
          (case accrue_turn io has_config rec prior new_messages strict usd_cap model cp of
             (Inl e, cp') \<Rightarrow> (Some e, cp')
           | (Inr tot, cp') \<Rightarrow>
               (if (case cap of Some c \<Rightarrow> tot \<ge> c | None \<Rightarrow> False) then (Some (TokensExceeded tot (the cap)), cp')
                else case usd_cap of
                       None \<Rightarrow> (None, cp')
                     | Some u \<Rightarrow>
                         (case turn_usd new_messages model of
                            None \<Rightarrow> (Some (NoPublishedRate model), cp')
                          | Some added \<Rightarrow>
                              (if before_usd + added \<ge> u then (Some (UsdExceeded (before_usd + added) u), cp')
                               else (None, cp'))))))"

subsection \<open>One governed turn\<close>

datatype 'm graph_input =
    ContinueRun
  | ResumeWith string
  | FreshInput "'m turn_message list" "(string \<times> pyval) list option"

type_synonym 'm graph_runner =
  "'m graph_input \<Rightarrow> turn_record option \<Rightarrow> 'm checkpoint \<Rightarrow> (string + 'm turn_message list) \<times> 'm checkpoint"

record 'm graph_turn =
  gt_messages :: "'m turn_message list"
  gt_approval :: "string option"
  gt_resumed :: bool

record 'm turn_request =
  rq_messages :: "'m turn_message list"
  rq_resume :: "string option"
  rq_invocation :: "string option"
  rq_recovery :: bool
  rq_domain :: "(string \<times> pyval) list option"

text \<open>
  The turn record of an invocation: \<open>(continuing, record)\<close>, from the checkpoint when the same
  invocation is running there, else new.  \<open>digest\<close> is the SHA-256 of the request's input.
\<close>

definition fresh_turn_record ::
  "('m turn_request \<Rightarrow> string) \<Rightarrow> 'm turn_request \<Rightarrow> string \<Rightarrow> 'm checkpoint \<Rightarrow> budget_error + bool \<times> turn_record" where
  "fresh_turn_record digest rq ident cp =
     (if rq_recovery rq \<and> ident \<in> set (cp_history cp) then Inl RecoveryBehindSession
      else case tokens_in (cp_state cp) of
             Inl e \<Rightarrow> Inl e
           | Inr toks \<Rightarrow>
               (case usd_in (cp_state cp) of
                  Inl e \<Rightarrow> Inl e
                | Inr usd \<Rightarrow> Inr (False, \<lparr>tr_invocation = ident, tr_digest = digest rq,
                    tr_pre_count = length (cp_messages cp), tr_prior_tokens = toks, tr_prior_usd = usd\<rparr>)))"

definition turn_record_for ::
  "('m turn_request \<Rightarrow> string) \<Rightarrow> 'm turn_request \<Rightarrow> string \<Rightarrow> 'm checkpoint \<Rightarrow> budget_error + bool \<times> turn_record" where
  "turn_record_for digest rq ident cp =
     (case cp_record cp of
        Some r \<Rightarrow>
          (if tr_invocation r = ident
           then (if tr_digest r \<noteq> digest rq then Inl RecoveryInputDiffers else Inr (True, r))
           else fresh_turn_record digest rq ident cp)
      | None \<Rightarrow> fresh_turn_record digest rq ident cp)"

text \<open>
  What a turn starts from: whether it continues an invocation, the count of messages before it,
  the prior token total and the metadata record, after the checks that refuse the turn.
\<close>

definition begin_turn ::
  "('m turn_request \<Rightarrow> string) \<Rightarrow> store_io \<Rightarrow> bool \<Rightarrow> session_budget \<Rightarrow> 'm turn_request \<Rightarrow> 'm checkpoint
    \<Rightarrow> budget_error + bool \<times> nat \<times> int \<times> turn_record option" where
  "begin_turn digest io has_config sb rq cp =
     (if has_config \<and> \<not> io_readable io then Inl ReadFailed
      else case rq_invocation rq of
        Some ident \<Rightarrow>
          (if \<not> has_config then Inl RecoveryNeedsCheckpoint
           else case turn_record_for digest rq ident cp of
                  Inl e \<Rightarrow> Inl e
                | Inr (continuing, r) \<Rightarrow>
                    (case sb_tokens sb of
                       Some c \<Rightarrow>
                         (if tr_prior_tokens r \<ge> c then Inl (TokensExceeded (tr_prior_tokens r) c)
                          else case sb_usd sb of
                                 Some u \<Rightarrow> if tr_prior_usd r \<ge> u then Inl (UsdExceeded (tr_prior_usd r) u)
                                           else Inr (continuing, tr_pre_count r, tr_prior_tokens r, Some r)
                               | None \<Rightarrow> Inr (continuing, tr_pre_count r, tr_prior_tokens r, Some r))
                     | None \<Rightarrow>
                         (case sb_usd sb of
                            Some u \<Rightarrow> if tr_prior_usd r \<ge> u then Inl (UsdExceeded (tr_prior_usd r) u)
                                      else Inr (continuing, tr_pre_count r, tr_prior_tokens r, Some r)
                          | None \<Rightarrow> Inr (continuing, tr_pre_count r, tr_prior_tokens r, Some r))))
      | None \<Rightarrow>
          (if rq_recovery rq then Inl RecoveryNeedsInvocation
           else let pre = (if has_config then length (cp_messages cp) else 0)
                in if sb_tokens sb = None \<and> sb_usd sb = None then Inr (False, pre, 0, None)
                   else (case enforce_before_turn io has_config (sb_tokens sb) (sb_usd sb) cp of
                           Inl e \<Rightarrow> Inl e
                         | Inr prior \<Rightarrow> Inr (False, pre, prior, None))))"

text \<open>
  Running the graph; a continued invocation whose graph has no node left takes the checkpoint's
  own messages.  Without a checkpointer the run sees and leaves no thread.
\<close>

definition no_thread :: "'m checkpoint" where
  "no_thread = \<lparr>cp_messages = [], cp_state = [], cp_record = None, cp_next = False, cp_history = []\<rparr>"

definition run_graph ::
  "'m graph_runner \<Rightarrow> bool \<Rightarrow> 'm turn_request \<Rightarrow> bool \<Rightarrow> turn_record option \<Rightarrow> 'm checkpoint
    \<Rightarrow> (budget_error + 'm turn_message list) \<times> 'm checkpoint" where
  "run_graph run has_config rq continuing rec cp =
     (if continuing \<and> \<not> cp_next cp then (Inr (cp_messages cp), cp)
      else if \<not> continuing \<and> rq_resume rq \<noteq> None \<and> \<not> has_config then (Inl ResumeNeedsCheckpoint, cp)
      else let inp = (if continuing then ContinueRun
                      else case rq_resume rq of
                             Some d \<Rightarrow> ResumeWith d
                           | None \<Rightarrow> FreshInput (rq_messages rq) (rq_domain rq))
           in case run inp rec (if has_config then cp else no_thread) of
                (Inl exc, cp') \<Rightarrow> (Inl (GraphFailed exc), if has_config then cp' else cp)
              | (Inr ms, cp') \<Rightarrow> (Inr ms, if has_config then cp' else cp))"

definition run_graph_turn ::
  "'m graph_runner \<Rightarrow> ('m checkpoint \<Rightarrow> string option) \<Rightarrow> ('m turn_request \<Rightarrow> string) \<Rightarrow> store_io \<Rightarrow> bool
    \<Rightarrow> session_budget \<Rightarrow> string option \<Rightarrow> 'm turn_request \<Rightarrow> 'm checkpoint
    \<Rightarrow> (budget_error + 'm graph_turn) \<times> 'm checkpoint" where
  "run_graph_turn run interrupt digest io has_config sb model rq cp =
     (case begin_turn digest io has_config sb rq cp of
        Inl e \<Rightarrow> (Inl e, cp)
      | Inr (continuing, pre, prior, rec) \<Rightarrow>
          (case run_graph run has_config rq continuing rec cp of
             (Inl e, cp1) \<Rightarrow> (Inl e, cp1)
           | (Inr ms, cp1) \<Rightarrow>
               (let capped = (sb_tokens sb \<noteq> None \<or> sb_usd sb \<noteq> None);
                    strict = (rq_invocation rq \<noteq> None);
                    resumed = (rq_resume rq \<noteq> None)
                in case (if has_config then interrupt cp1 else None) of
                     Some paused \<Rightarrow>
                       (if capped
                        then (case accrue_turn io has_config rec prior (drop pre ms) strict (sb_usd sb) model cp1 of
                                (Inl e, cp2) \<Rightarrow> (Inl e, cp2)
                              | (Inr _, cp2) \<Rightarrow> (Inr \<lparr>gt_messages = [], gt_approval = Some paused, gt_resumed = resumed\<rparr>, cp2))
                        else (Inr \<lparr>gt_messages = [], gt_approval = Some paused, gt_resumed = resumed\<rparr>, cp1))
                   | None \<Rightarrow>
                       (let start = (if resumed then pre else pre + length (rq_messages rq));
                            new = drop start ms
                        in if capped
                           then (case enforce_after_turn io has_config rec prior new (sb_tokens sb) strict (sb_usd sb) model cp1 of
                                   (Some e, cp2) \<Rightarrow> (Inl e, cp2)
                                 | (None, cp2) \<Rightarrow> (Inr \<lparr>gt_messages = new, gt_approval = None, gt_resumed = resumed\<rparr>, cp2))
                           else (Inr \<lparr>gt_messages = new, gt_approval = None, gt_resumed = resumed\<rparr>, cp1)))))"

subsection \<open>Lemmas on the totals\<close>

definition reliable :: store_io where
  "reliable = \<lparr>io_readable = True, io_writable = True\<rparr>"

lemma tokens_in_update:
  "tokens_in (cp_state (update_state rec [(''session_tokens'', PInt n)] cp)) = Inr n"
  "tokens_in (cp_state (update_state rec [(''session_tokens'', PInt n), (''session_usd'', v)] cp)) = Inr n"
  by (simp_all add: update_state_def dict_update_def tokens_in_def dict_simps)

lemma usd_in_update:
  "usd_in (cp_state (update_state rec [(''session_tokens'', v), (''session_usd'', PFloat x)] cp)) = Inr x"
  by (simp add: update_state_def dict_update_def usd_in_def dict_simps)

lemma prior_reliable [simp]:
  "prior_tokens reliable True cp = tokens_in (cp_state cp)" "prior_usd reliable True cp = usd_in (cp_state cp)"
  by (simp_all add: prior_tokens_def prior_usd_def prior_state_def reliable_def)

lemma accrue_tokens_reliable:
  "accrue_turn reliable True rec prior ms strict None model cp =
    (Inr (prior + turn_usage ms), update_state rec [(''session_tokens'', PInt (prior + turn_usage ms))] cp)"
  by (simp add: accrue_turn_def reliable_def Let_def)

lemma accrue_usd_reliable:
  assumes "turn_usd ms model = Some added" and "usd_in (cp_state cp) = Inr spent"
  shows "accrue_turn reliable True rec prior ms strict (Some u) model cp =
    (Inr (prior + turn_usage ms),
     update_state rec [(''session_tokens'', PInt (prior + turn_usage ms)), (''session_usd'', PFloat (spent + added))] cp)"
  using assms by (simp add: accrue_turn_def Let_def) (simp add: reliable_def)

text \<open>What messages carry: no negative usage, or none at all.\<close>

definition msg_usage :: "'m turn_message \<Rightarrow> int" where
  "msg_usage m = (case tm_usage m of None \<Rightarrow> 0 | Some u \<Rightarrow> or_zero (tu_input u) + or_zero (tu_output u))"

definition billed :: "'m turn_message list \<Rightarrow> bool" where
  "billed = list_all (\<lambda>m. 0 \<le> msg_usage m)"

definition unbilled :: "'m turn_message list \<Rightarrow> bool" where
  "unbilled = list_all (\<lambda>m. msg_usage m = 0)"

lemma billed_simps [simp]: "billed []" "billed (xs @ ys) \<longleftrightarrow> billed xs \<and> billed ys"
  by (simp_all add: billed_def)

lemma billed_drop: "billed xs \<Longrightarrow> billed (drop k xs)"
  by (auto simp: billed_def list_all_iff dest: in_set_dropD)

lemma unbilled_billed: "unbilled xs \<Longrightarrow> billed xs"
  by (auto simp: billed_def unbilled_def list_all_iff)

lemma turn_usage_append [simp]: "turn_usage (xs @ ys) = turn_usage xs + turn_usage ys"
  by (induction xs) simp_all

lemma turn_usage_msgs: "turn_usage xs = (\<Sum>m\<leftarrow>xs. msg_usage m)"
  by (induction xs) (simp_all add: msg_usage_def)

lemma turn_usage_unbilled: "unbilled xs \<Longrightarrow> turn_usage xs = 0"
  unfolding turn_usage_msgs by (induction xs) (simp_all add: unbilled_def)

lemma turn_usage_billed: "billed xs \<Longrightarrow> 0 \<le> turn_usage xs"
  unfolding turn_usage_msgs billed_def by (rule sum_list_nonneg) (auto simp: list_all_iff)

text \<open>
  What is relied on of a graph and its checkpointer.  A run leaves the token total alone and either changes nothing or
  appends messages, a fresh input first, and stamps the checkpoint with its own record; a run that returns, returns the
  messages of its checkpoint.  What a run adds costs at most \<open>u\<close> tokens, and a run that continues an invocation keeps the
  whole invocation within \<open>u\<close>.
\<close>

definition run_wrote :: "'m graph_input \<Rightarrow> turn_record option \<Rightarrow> 'm checkpoint \<Rightarrow> 'm checkpoint \<Rightarrow> bool" where
  "run_wrote inp rec cp cp' \<longleftrightarrow>
     cp_record cp' = rec
     \<and> (\<exists>xs. cp_messages cp' = cp_messages cp @ (case inp of FreshInput ms domain \<Rightarrow> ms | _ \<Rightarrow> []) @ xs \<and> billed xs)"

definition graph_law :: "int \<Rightarrow> 'm graph_runner \<Rightarrow> bool" where
  "graph_law u run \<longleftrightarrow> (\<forall>inp rec cp res cp'. run inp rec cp = (res, cp') \<longrightarrow>
     dget (cp_state cp') ''session_tokens'' = dget (cp_state cp) ''session_tokens''
     \<and> (case res of Inl exc \<Rightarrow> cp' = cp \<or> run_wrote inp rec cp cp' | Inr ms \<Rightarrow> ms = cp_messages cp' \<and> run_wrote inp rec cp cp')
     \<and> (case inp of
          ContinueRun \<Rightarrow> (\<forall>r. rec = Some r \<longrightarrow> cp_record cp = rec \<longrightarrow> turn_usage (drop (tr_pre_count r) (cp_messages cp)) \<le> u
             \<longrightarrow> turn_usage (drop (tr_pre_count r) (cp_messages cp')) \<le> u)
        | _ \<Rightarrow> turn_usage (drop (length (cp_messages cp)) (cp_messages cp')) \<le> u))"

text \<open>Different requests of a session have different digests.\<close>

definition collision_free :: "('m turn_request \<Rightarrow> string) \<Rightarrow> 'm turn_request list \<Rightarrow> bool" where
  "collision_free digest rqs \<longleftrightarrow>
     (\<forall>a \<in> set rqs. \<forall>b \<in> set rqs. digest a = digest b \<longrightarrow> rq_messages a = rq_messages b \<and> rq_resume a = rq_resume b)"

definition token_budget :: "int \<Rightarrow> session_budget" where
  "token_budget c = \<lparr>sb_tokens = Some c, sb_usd = None\<rparr>"

definition graph_input_of :: "'m turn_request \<Rightarrow> 'm graph_input" where
  "graph_input_of rq =
     (case rq_resume rq of Some d \<Rightarrow> ResumeWith d | None \<Rightarrow> FreshInput (rq_messages rq) (rq_domain rq))"

text \<open>The messages a turn is charged for: everything since the last turn when it pauses or
  resumes, everything after the new input otherwise.\<close>

definition charged :: "bool \<Rightarrow> 'm turn_request \<Rightarrow> 'm checkpoint \<Rightarrow> 'm turn_message list \<Rightarrow> 'm turn_message list" where
  "charged paused rq cp ms =
     drop (if paused \<or> rq_resume rq \<noteq> None then length (cp_messages cp)
           else length (cp_messages cp) + length (rq_messages rq)) ms"

lemma begin_plain_turn:
  assumes "rq_invocation rq = None" "\<not> rq_recovery rq" "tokens_in (cp_state cp) = Inr t"
  shows "begin_turn digest reliable True (token_budget c) rq cp =
    (if t \<ge> c then Inl (TokensExceeded t c) else Inr (False, length (cp_messages cp), t, None))"
  using assms by (simp add: begin_turn_def reliable_def [symmetric] token_budget_def enforce_before_turn_def)
    (simp add: reliable_def)

lemma plain_turn:
  assumes "rq_invocation rq = None" "\<not> rq_recovery rq" "tokens_in (cp_state cp) = Inr t" "t < c"
    and "run (graph_input_of rq) None cp = (Inr ms, cp1)"
  shows "run_graph_turn run interrupt digest reliable True (token_budget c) model rq cp =
    (let new = charged (interrupt cp1 \<noteq> None) rq cp ms; t' = t + turn_usage new;
         cp2 = update_state None [(''session_tokens'', PInt t')] cp1
     in (case interrupt cp1 of
           Some p \<Rightarrow> Inr \<lparr>gt_messages = [], gt_approval = Some p, gt_resumed = (rq_resume rq \<noteq> None)\<rparr>
         | None \<Rightarrow> if t' \<ge> c then Inl (TokensExceeded t' c)
             else Inr \<lparr>gt_messages = new, gt_approval = None, gt_resumed = (rq_resume rq \<noteq> None)\<rparr>, cp2))"
proof -
  have b: "begin_turn digest reliable True (token_budget c) rq cp = Inr (False, length (cp_messages cp), t, None)"
    using begin_plain_turn [OF assms(1-3), of digest c] assms(4) by simp
  have g: "run_graph run True rq False None cp = (Inr ms, cp1)"
    using assms(5) by (auto simp: run_graph_def graph_input_of_def Let_def)
  show ?thesis
    using assms(1) unfolding run_graph_turn_def b
    by (cases "interrupt cp1")
      (auto simp: g Let_def charged_def token_budget_def accrue_tokens_reliable enforce_after_turn_def)
qed

lemma failed_turn:
  assumes "rq_invocation rq = None" "\<not> rq_recovery rq" "tokens_in (cp_state cp) = Inr t" "t < c"
    and "run (graph_input_of rq) None cp = (Inl exc, cp1)"
  shows "run_graph_turn run interrupt digest reliable True (token_budget c) model rq cp = (Inl (GraphFailed exc), cp1)"
  using assms begin_plain_turn [OF assms(1-3), of digest c]
  by (auto simp: run_graph_turn_def run_graph_def graph_input_of_def Let_def)

text \<open>
  A thread between turns: its total, and for an invocation whose record it carries, a total between the one it started
  from and that one with all its messages, which cost at most \<open>u\<close> and begin with the request's own.
\<close>

definition record_ok ::
  "('m turn_request \<Rightarrow> string) \<Rightarrow> 'm turn_request list \<Rightarrow> int \<Rightarrow> int \<Rightarrow> 'm turn_message list \<Rightarrow> turn_record \<Rightarrow> bool" where
  "record_ok digest rqs u t ms r \<longleftrightarrow>
     tr_pre_count r \<le> length ms \<and> tr_prior_tokens r \<le> t \<and> t \<le> tr_prior_tokens r + turn_usage (drop (tr_pre_count r) ms)
     \<and> turn_usage (drop (tr_pre_count r) ms) \<le> u
     \<and> (\<exists>rq \<in> set rqs. tr_digest r = digest rq
          \<and> (rq_resume rq = None \<longrightarrow> take (length (rq_messages rq)) (drop (tr_pre_count r) ms) = rq_messages rq))"

definition thread_ok ::
  "('m turn_request \<Rightarrow> string) \<Rightarrow> 'm turn_request list \<Rightarrow> int \<Rightarrow> int \<Rightarrow> 'm checkpoint \<Rightarrow> bool" where
  "thread_ok digest rqs u t cp \<longleftrightarrow>
     tokens_in (cp_state cp) = Inr t \<and> billed (cp_messages cp)
     \<and> (case cp_record cp of None \<Rightarrow> True | Some r \<Rightarrow> record_ok digest rqs u t (cp_messages cp) r)"

lemma record_grows:
  assumes "record_ok digest rqs u t ms r" and "t \<le> t'" and "t' \<le> tr_prior_tokens r + turn_usage (drop (tr_pre_count r) (ms @ zs))"
    and "turn_usage (drop (tr_pre_count r) (ms @ zs)) \<le> u"
  shows "record_ok digest rqs u t' (ms @ zs) r"
proof -
  from assms(1) obtain q where q: "q \<in> set rqs" "tr_digest r = digest q" "tr_pre_count r \<le> length ms" "tr_prior_tokens r \<le> t"
    "rq_resume q = None \<longrightarrow> take (length (rq_messages q)) (drop (tr_pre_count r) ms) = rq_messages q"
    by (auto simp: record_ok_def)
  have "take (length (rq_messages q)) (drop (tr_pre_count r) ms @ zs) = rq_messages q" if "rq_resume q = None"
  proof -
    from q(5) that have "take (length (rq_messages q)) (drop (tr_pre_count r) ms) = rq_messages q" by simp
    then have "length (rq_messages q) \<le> length (drop (tr_pre_count r) ms)" by (metis length_take min.cobounded1)
    with q(5) that show ?thesis by simp
  qed
  with q assms(2-4) show ?thesis unfolding record_ok_def by (auto intro!: bexI [of _ q])
qed

text \<open>What a turn that is not refused starts from: a fresh one, or an invocation the checkpoint holds.\<close>

lemma begin_cases:
  assumes "begin_turn digest reliable True (token_budget c) rq cp = Inr (continuing, pre, prior, rec)"
    and "tokens_in (cp_state cp) = Inr t"
  obtains (fresh) "\<not> continuing" "pre = length (cp_messages cp)" "prior = t" "t < c"
      "rec = None \<or> (\<exists>r. rec = Some r \<and> tr_pre_count r = length (cp_messages cp) \<and> tr_prior_tokens r = t \<and> tr_digest r = digest rq)"
    | (continued) r where "continuing" "rec = Some r" "cp_record cp = Some r" "pre = tr_pre_count r" "prior = tr_prior_tokens r"
      "tr_prior_tokens r < c" "tr_digest r = digest rq"
proof (cases "rq_invocation rq")
  case None
  with assms(1) have "\<not> rq_recovery rq" by (auto simp: begin_turn_def reliable_def)
  with assms begin_plain_turn [OF None this assms(2), of digest c] show ?thesis by (intro fresh) (auto split: if_splits)
next
  case (Some ident)
  have recs: "\<exists>r. turn_record_for digest rq ident cp = Inr (continuing, r) \<and> pre = tr_pre_count r \<and> prior = tr_prior_tokens r
      \<and> rec = Some r \<and> tr_prior_tokens r < c"
    using assms(1) Some by (auto simp: begin_turn_def token_budget_def reliable_def not_le split: if_splits sum.splits)
  then obtain r where r: "turn_record_for digest rq ident cp = Inr (continuing, r)" "pre = tr_pre_count r" "prior = tr_prior_tokens r"
    "rec = Some r" "tr_prior_tokens r < c" by blast
  show ?thesis
  proof (cases "\<exists>s. cp_record cp = Some s \<and> tr_invocation s = ident")
    case True
    with r show ?thesis by (intro continued [of r]) (auto simp: turn_record_for_def split: if_splits)
  next
    case False
    with r(1) have "fresh_turn_record digest rq ident cp = Inr (continuing, r)"
      by (auto simp: turn_record_for_def split: option.splits if_splits)
    then have "\<not> continuing" "tr_pre_count r = length (cp_messages cp)" "tr_prior_tokens r = t" "tr_digest r = digest rq"
      using assms(2) by (auto simp: fresh_turn_record_def split: if_splits sum.splits)
    with r show ?thesis by (intro fresh) auto
  qed
qed

text \<open>How a turn ends: refused, with the checkpoint a failed run left, or charged for the messages from its start on.\<close>

lemma turn_ends:
  assumes "run_graph_turn run interrupt digest reliable True (token_budget c) model rq cp = (res, cp')"
  obtains (refused) "cp' = cp"
    | (failed) continuing pre prior rec e where "begin_turn digest reliable True (token_budget c) rq cp = Inr (continuing, pre, prior, rec)"
      "run_graph run True rq continuing rec cp = (Inl e, cp')"
    | (charged) continuing pre prior rec ms cp1 start where
      "begin_turn digest reliable True (token_budget c) rq cp = Inr (continuing, pre, prior, rec)"
      "run_graph run True rq continuing rec cp = (Inr ms, cp1)"
      "start = pre \<or> start = pre + length (rq_messages rq) \<and> rq_resume rq = None"
      "cp' = update_state rec [(''session_tokens'', PInt (prior + turn_usage (drop start ms)))] cp1"
proof (cases "begin_turn digest reliable True (token_budget c) rq cp")
  case (Inl e)
  with assms show ?thesis by (intro refused) (simp add: run_graph_turn_def)
next
  case (Inr b)
  obtain continuing pre prior rec where b: "b = (continuing, pre, prior, rec)" by (metis prod.exhaust)
  obtain y cp1 where g: "run_graph run True rq continuing rec cp = (y, cp1)" by (metis prod.exhaust)
  show ?thesis
  proof (cases y)
    case (Inl e)
    with assms Inr b g have "run_graph run True rq continuing rec cp = (Inl e, cp')" by (simp add: run_graph_turn_def)
    with Inr b show ?thesis by (intro failed) simp_all
  next
    case r: (Inr ms)
    let ?start = "if interrupt cp1 = None \<and> rq_resume rq = None then pre + length (rq_messages rq) else pre"
    have "cp' = update_state rec [(''session_tokens'', PInt (prior + turn_usage (drop ?start ms)))] cp1"
      using assms Inr b g r
      by (cases "interrupt cp1"; cases "rq_resume rq")
        (auto simp: run_graph_turn_def token_budget_def accrue_tokens_reliable enforce_after_turn_def Let_def split: if_splits)
    with Inr b g r show ?thesis by (intro charged [of continuing pre prior rec ms cp1 ?start]) auto
  qed
qed

lemma law_run:
  assumes "graph_law u run" and "run inp rec cp = (res, cp')"
  shows "tokens_in (cp_state cp') = tokens_in (cp_state cp)"
    and "cp' = cp \<or> run_wrote inp rec cp cp'"
    and "res = Inr ms \<Longrightarrow> ms = cp_messages cp' \<and> run_wrote inp rec cp cp'"
proof -
  have k: "dget (cp_state cp') ''session_tokens'' = dget (cp_state cp) ''session_tokens''
     \<and> (case res of Inl exc \<Rightarrow> cp' = cp \<or> run_wrote inp rec cp cp' | Inr ms \<Rightarrow> ms = cp_messages cp' \<and> run_wrote inp rec cp cp')"
    using assms unfolding graph_law_def by blast
  then show "tokens_in (cp_state cp') = tokens_in (cp_state cp)" by (simp add: tokens_in_def)
  from k show "cp' = cp \<or> run_wrote inp rec cp cp'" by (auto split: sum.splits)
  from k show "ms = cp_messages cp' \<and> run_wrote inp rec cp cp'" if "res = Inr ms" using that by simp
qed

lemma fresh_wrote:
  assumes "graph_law u run" and "run (graph_input_of rq) rec cp = (res, cp1)" and "run_wrote (graph_input_of rq) rec cp cp1"
    and "thread_ok digest rqs u t cp" and "unbilled (rq_messages rq)" and "rq \<in> set rqs"
    and "rec = None \<or> (\<exists>r. rec = Some r \<and> tr_pre_count r = length (cp_messages cp) \<and> tr_prior_tokens r = t \<and> tr_digest r = digest rq)"
  shows "\<exists>zs. cp_messages cp1 = cp_messages cp @ zs \<and> 0 \<le> turn_usage zs \<and> turn_usage zs \<le> u \<and> billed (cp_messages cp1)
    \<and> cp_record cp1 = rec
    \<and> (rq_resume rq = None \<longrightarrow> (\<exists>xs. zs = rq_messages rq @ xs))
    \<and> (\<forall>t'. t \<le> t' \<longrightarrow> t' \<le> t + turn_usage zs \<longrightarrow> (case rec of None \<Rightarrow> True | Some r \<Rightarrow> record_ok digest rqs u t' (cp_messages cp1) r))"
proof -
  from assms(3) obtain xs where m: "cp_messages cp1 = cp_messages cp @ (case graph_input_of rq of FreshInput ms domain \<Rightarrow> ms | _ \<Rightarrow> []) @ xs"
    and xs: "billed xs" and rec: "cp_record cp1 = rec" by (auto simp: run_wrote_def)
  define zs where "zs = (case graph_input_of rq of FreshInput ms domain \<Rightarrow> ms | _ \<Rightarrow> []) @ xs"
  have z: "rq_resume rq = None \<longrightarrow> zs = rq_messages rq @ xs" by (simp add: zs_def graph_input_of_def)
  have b: "billed zs" using xs unbilled_billed [OF assms(5)] by (auto simp: zs_def graph_input_of_def split: option.splits)
  have len: "drop (length (cp_messages cp)) (cp_messages cp1) = zs" by (simp add: m zs_def)
  have "graph_input_of rq \<noteq> ContinueRun" by (simp add: graph_input_of_def split: option.split)
  with assms(1,2) have "turn_usage (drop (length (cp_messages cp)) (cp_messages cp1)) \<le> u"
    unfolding graph_law_def by (cases "graph_input_of rq") fastforce+
  then have u: "turn_usage zs \<le> u" by (simp add: len)
  have "billed (cp_messages cp)" using assms(4) by (simp add: thread_ok_def)
  with b have bm: "billed (cp_messages cp1)" by (simp add: m zs_def [symmetric] flip: append_assoc)
  have "record_ok digest rqs u t' (cp_messages cp1) r" if "rec = Some r" "t \<le> t'" "t' \<le> t + turn_usage zs" for r t'
    using assms(6,7) that len u z unfolding record_ok_def by (auto simp: m zs_def intro!: bexI [of _ rq])
  with m z b u bm rec turn_usage_billed [OF b] show ?thesis
    by (intro exI [of _ zs]) (auto simp: zs_def split: option.split)
qed

lemma update_tokens:
  "cp_messages (update_state rec st cp) = cp_messages cp"
  "cp_record (update_state rec st cp) = (case rec of None \<Rightarrow> cp_record cp | Some r \<Rightarrow> Some r)"
  by (simp_all add: update_state_def)

lemma continued_wrote:
  assumes law: "graph_law u run" and ok: "thread_ok digest rqs u t cp"
    and g: "run_graph run True rq True (Some r) cp = (y, cp1)" and r: "cp_record cp = Some r"
  shows "\<exists>zs. cp_messages cp1 = cp_messages cp @ zs \<and> billed zs \<and> cp_record cp1 = Some r
      \<and> turn_usage (drop (tr_pre_count r) (cp_messages cp1)) \<le> u \<and> tokens_in (cp_state cp1) = Inr t
      \<and> (\<forall>ms. y = Inr ms \<longrightarrow> ms = cp_messages cp1)"
proof -
  have tok: "tokens_in (cp_state cp) = Inr t" and rok: "record_ok digest rqs u t (cp_messages cp) r"
    using ok r by (simp_all add: thread_ok_def)
  show ?thesis
  proof (cases "cp_next cp")
    case False
    with g have "cp1 = cp" "y = Inr (cp_messages cp)" by (auto simp: run_graph_def)
    with r rok tok show ?thesis by (intro exI [of _ "[]"]) (simp add: record_ok_def)
  next
    case True
    obtain res2 where q: "run ContinueRun (Some r) cp = (res2, cp1)" and y: "\<forall>ms. y = Inr ms \<longrightarrow> res2 = Inr ms"
      using g True by (auto simp: run_graph_def split: prod.splits sum.splits)
    from law_run(1,2) [OF law q] tok have "tokens_in (cp_state cp1) = Inr t" and w: "cp1 = cp \<or> run_wrote ContinueRun (Some r) cp cp1" by auto
    moreover from law q r rok have "turn_usage (drop (tr_pre_count r) (cp_messages cp1)) \<le> u"
      unfolding graph_law_def record_ok_def by fastforce
    moreover from w r have "\<exists>zs. cp_messages cp1 = cp_messages cp @ zs \<and> billed zs \<and> cp_record cp1 = Some r"
      by (auto simp: run_wrote_def intro: exI [of _ "[]"])
    moreover have "\<forall>ms. y = Inr ms \<longrightarrow> ms = cp_messages cp1" using y law_run(3) [OF law q] by blast
    ultimately show ?thesis by blast
  qed
qed

text \<open>A retry charges the whole invocation: its digest names a request with the same messages, which cost nothing.\<close>

lemma continued_start:
  assumes coll: "collision_free digest rqs" and mem: "rq \<in> set rqs" and ub: "unbilled (rq_messages rq)"
    and rok: "record_ok digest rqs u t (cp_messages cp) r" and dig: "tr_digest r = digest rq"
    and start: "start = tr_pre_count r \<or> start = tr_pre_count r + length (rq_messages rq) \<and> rq_resume rq = None"
  shows "turn_usage (drop start (cp_messages cp @ zs)) = turn_usage (drop (tr_pre_count r) (cp_messages cp @ zs))"
proof (cases "start = tr_pre_count r")
  case False
  with start have st: "start = tr_pre_count r + length (rq_messages rq)" and "rq_resume rq = None" by auto
  from rok obtain q where q: "q \<in> set rqs" "tr_digest r = digest q" "tr_pre_count r \<le> length (cp_messages cp)"
    "rq_resume q = None \<longrightarrow> take (length (rq_messages q)) (drop (tr_pre_count r) (cp_messages cp)) = rq_messages q"
    by (auto simp: record_ok_def)
  with dig coll mem \<open>rq_resume rq = None\<close> have t: "take (length (rq_messages rq)) (drop (tr_pre_count r) (cp_messages cp)) = rq_messages rq"
    unfolding collision_free_def by metis
  let ?D = "drop (tr_pre_count r) (cp_messages cp)"
  have "?D @ zs = rq_messages rq @ drop (length (rq_messages rq)) ?D @ zs"
    using t by (metis append.assoc append_take_drop_id)
  moreover have "drop start (cp_messages cp @ zs) = drop (length (rq_messages rq)) (?D @ zs)"
    using q(3) by (simp add: st add.commute)
  ultimately show ?thesis using q(3) turn_usage_unbilled [OF ub] by (metis add_0 append_eq_conv_conj diff_is_0_eq drop_append drop_0 turn_usage_append)
qed simp

lemma turn_keeps_thread:
  assumes law: "graph_law u run" and coll: "collision_free digest rqs" and mem: "rq \<in> set rqs" and ub: "unbilled (rq_messages rq)"
    and ok: "thread_ok digest rqs u t cp"
    and turn: "run_graph_turn run interrupt digest reliable True (token_budget c) model rq cp = (res, cp')"
  shows "\<exists>t'. thread_ok digest rqs u t' cp' \<and> t \<le> t' \<and> t' \<le> max t (c - 1 + u)"
proof -
  have tok: "tokens_in (cp_state cp) = Inr t" and bm: "billed (cp_messages cp)" using ok by (simp_all add: thread_ok_def)
  note fresh_run = fresh_wrote [OF law _ _ ok ub mem]
  note cont_run = continued_wrote [OF law ok]
  from turn show ?thesis
  proof (cases rule: turn_ends)
    case refused
    with ok show ?thesis by auto
  next
    case (failed continuing pre prior rec e)
    from failed(1) tok show ?thesis
    proof (cases rule: begin_cases)
      case fresh
      then have run: "run (graph_input_of rq) rec cp = (case e of GraphFailed x \<Rightarrow> Inl x | _ \<Rightarrow> Inl [], cp')"
        using failed(2) by (auto simp: run_graph_def graph_input_of_def Let_def split: option.splits prod.splits sum.splits)
      from law_run(1,2) [OF law run] tok have t: "tokens_in (cp_state cp') = Inr t"
        and w: "cp' = cp \<or> run_wrote (graph_input_of rq) rec cp cp'" by auto
      show ?thesis
      proof (cases "cp' = cp")
        case True
        with ok show ?thesis by auto
      next
        case False
        with w have w: "run_wrote (graph_input_of rq) rec cp cp'" by blast
        from fresh_run [OF run w fresh(5)] t show ?thesis by (intro exI [of _ t]) (auto simp: thread_ok_def split: option.splits)
      qed
    next
      case (continued r)
      with failed(2) have "run_graph run True rq True (Some r) cp = (Inl e, cp')" by simp
      from cont_run [OF this continued(3)] obtain zs where z: "cp_messages cp' = cp_messages cp @ zs" "billed zs" "cp_record cp' = Some r"
        "turn_usage (drop (tr_pre_count r) (cp_messages cp')) \<le> u" "tokens_in (cp_state cp') = Inr t" by blast
      have "record_ok digest rqs u t (cp_messages cp') r"
        unfolding z(1) by (rule record_grows [of digest rqs u t])
          (use ok continued(3) z turn_usage_billed [OF z(2)] in \<open>auto simp: thread_ok_def record_ok_def\<close>)
      with z bm show ?thesis by (intro exI [of _ t]) (simp add: thread_ok_def)
    qed
  next
    case (charged continuing pre prior rec ms cp1 start)
    let ?T = "prior + turn_usage (drop start ms)"
    have T: "tokens_in (cp_state cp') = Inr ?T" unfolding charged(4) by (rule tokens_in_update)
    from charged(1) tok show ?thesis
    proof (cases rule: begin_cases)
      case fresh
      then obtain res2 where run: "run (graph_input_of rq) rec cp = (Inr ms, cp1)"
        using charged(2) by (auto simp: run_graph_def graph_input_of_def Let_def split: option.splits prod.splits sum.splits)
      from law_run(3) [OF law run refl] have ms: "ms = cp_messages cp1" and w: "run_wrote (graph_input_of rq) rec cp cp1" by auto
      from fresh_run [OF run w fresh(5)] obtain zs where z: "cp_messages cp1 = cp_messages cp @ zs" "0 \<le> turn_usage zs" "turn_usage zs \<le> u"
        "billed (cp_messages cp1)" "cp_record cp1 = rec" "rq_resume rq = None \<longrightarrow> (\<exists>xs. zs = rq_messages rq @ xs)"
        "\<forall>t'. t \<le> t' \<longrightarrow> t' \<le> t + turn_usage zs \<longrightarrow> (case rec of None \<Rightarrow> True | Some r \<Rightarrow> record_ok digest rqs u t' (cp_messages cp1) r)"
        by (elim exE conjE) (rule that)
      have new: "turn_usage (drop start ms) = turn_usage zs"
        using charged(3) z(1,6) turn_usage_unbilled [OF ub] by (auto simp: fresh(2) ms)
      have "thread_ok digest rqs u ?T cp'"
        using T z(2,4,5,7) fresh(3) by (auto simp: thread_ok_def charged(4) update_tokens new split: option.splits)
      with z(2,3) fresh(3,4) show ?thesis by (intro exI [of _ ?T]) (simp add: new)
    next
      case (continued r)
      with charged(2) have "run_graph run True rq True (Some r) cp = (Inr ms, cp1)" by simp
      from cont_run [OF this continued(3)] obtain zs where z: "cp_messages cp1 = cp_messages cp @ zs" "billed zs" "cp_record cp1 = Some r"
        "turn_usage (drop (tr_pre_count r) (cp_messages cp1)) \<le> u" and ms: "ms = cp_messages cp1" by blast
      from ok continued(3) have rok: "record_ok digest rqs u t (cp_messages cp) r" by (simp add: thread_ok_def)
      have pre: "drop (tr_pre_count r) ms = drop (tr_pre_count r) (cp_messages cp) @ zs" using rok by (simp add: ms z(1) record_ok_def)
      have new: "turn_usage (drop start ms) = turn_usage (drop (tr_pre_count r) ms)"
        using continued_start [OF coll mem ub rok continued(7), of start zs] charged(3) continued(4) by (simp add: ms z(1))
      have up: "turn_usage (drop (tr_pre_count r) ms) = turn_usage (drop (tr_pre_count r) (cp_messages cp)) + turn_usage zs" by (simp add: pre)
      have le: "t \<le> ?T" "?T \<le> c - 1 + u"
        using rok turn_usage_billed [OF z(2)] up z(4) continued(5,6) by (auto simp: record_ok_def new [unfolded ms] ms)
      have "record_ok digest rqs u ?T (cp_messages cp1) r"
        using record_grows [OF rok le(1), of zs] z(1,4) continued(5) new by (simp add: ms)
      then have "thread_ok digest rqs u ?T cp'"
        using T bm z(1,2) continued(2) by (simp add: thread_ok_def charged(4) update_tokens)
      with le show ?thesis by (intro exI [of _ ?T]) simp
    qed
  qed
qed

text \<open>A session: its turns in order, each on the checkpoint the last one left.\<close>

fun run_session ::
  "('m turn_request \<Rightarrow> 'm checkpoint \<Rightarrow> (budget_error + 'm graph_turn) \<times> 'm checkpoint) \<Rightarrow> 'm turn_request list
    \<Rightarrow> 'm checkpoint \<Rightarrow> (budget_error + 'm graph_turn) list \<times> 'm checkpoint" where
  "run_session turn [] cp = ([], cp)"
| "run_session turn (rq # rqs) cp =
     (case turn rq cp of (r, cp') \<Rightarrow> (case run_session turn rqs cp' of (rs, cp'') \<Rightarrow> (r # rs, cp'')))"

lemma session_total:
  assumes "graph_law u run" and "collision_free digest all" and "list_all (\<lambda>rq. unbilled (rq_messages rq)) rqs" and "set rqs \<subseteq> set all"
    and "thread_ok digest all u t cp"
    and "run_session (run_graph_turn run interrupt digest reliable True (token_budget c) model) rqs cp = (rs, cp')"
  shows "\<exists>t'. tokens_in (cp_state cp') = Inr t' \<and> t \<le> t' \<and> t' \<le> max t (c - 1 + u)"
  using assms(3-6)
proof (induction rqs arbitrary: cp t rs)
  case Nil
  then show ?case by (simp add: thread_ok_def)
next
  case (Cons rq rqs)
  obtain r cp1 where turn: "run_graph_turn run interrupt digest reliable True (token_budget c) model rq cp = (r, cp1)"
    by (metis prod.exhaust)
  obtain rs' where rest: "run_session (run_graph_turn run interrupt digest reliable True (token_budget c) model) rqs cp1
      = (rs', cp')" using Cons.prems(4) turn by (auto split: prod.splits)
  from turn_keeps_thread [OF assms(1,2) _ _ Cons.prems(3) turn] Cons.prems(1,2) obtain t1 where
    t1: "thread_ok digest all u t1 cp1" "t \<le> t1" "t1 \<le> max t (c - 1 + u)" by auto
  from Cons.IH [OF _ _ t1(1) rest] Cons.prems(1,2) obtain t' where
    "tokens_in (cp_state cp') = Inr t'" "t1 \<le> t'" "t' \<le> max t1 (c - 1 + u)" by auto
  with t1 show ?case by auto
qed

subsection \<open>Properties\<close>


text \<open>A graph that answers every input with one message of five tokens, for the witnesses.\<close>

definition five_tokens :: "unit turn_message" where
  "five_tokens = \<lparr>tm_body = (), tm_usage = Some \<lparr>tu_input = Some 2, tu_output = Some 3\<rparr>\<rparr>"

definition echo_graph :: "unit graph_runner" where
  "echo_graph inp rec cp =
     (let ms = cp_messages cp @ (case inp of FreshInput ms domain \<Rightarrow> ms @ [five_tokens] | ResumeWith d \<Rightarrow> [five_tokens] | ContinueRun \<Rightarrow> [])
      in (Inr ms, cp\<lparr>cp_messages := ms, cp_record := rec, cp_next := False\<rparr>))"

definition plain_request :: "unit turn_request" where
  "plain_request = \<lparr>rq_messages = [], rq_resume = None, rq_invocation = None, rq_recovery = False, rq_domain = None\<rparr>"

text \<open>The same graph on inputs that carry no usage.\<close>

definition unbilled_graph :: "unit graph_runner" where
  "unbilled_graph inp rec cp =
     (case inp of
        FreshInput ms domain \<Rightarrow> if unbilled ms then echo_graph inp rec cp else (Inl ''refused'', cp)
      | _ \<Rightarrow> echo_graph inp rec cp)"

lemma unbilled_graph_law: "graph_law 5 unbilled_graph"
proof -
  have five: "turn_usage [five_tokens] = 5" "billed [five_tokens]" by (simp_all add: five_tokens_def or_zero_def billed_def msg_usage_def)
  show ?thesis unfolding graph_law_def
  proof (intro allI impI, goal_cases)
    case (1 inp rec cp res cp')
    show ?case
    proof (cases inp)
      case (FreshInput ms domain)
      with 1 five turn_usage_unbilled [of ms] show ?thesis
        by (auto simp: unbilled_graph_def echo_graph_def run_wrote_def Let_def split: if_splits)
    qed (use 1 five in \<open>auto simp: unbilled_graph_def echo_graph_def run_wrote_def Let_def\<close>)
  qed
qed

definition durable_request :: "string \<Rightarrow> unit turn_request" where
  "durable_request i = plain_request\<lparr>rq_invocation := Some i\<rparr>"

text \<open>A session of a plain turn, a durable invocation, its retry and a second invocation: the second is refused.\<close>

definition plain_digest :: "unit turn_request \<Rightarrow> string" where
  "plain_digest rq = (case rq_resume rq of None \<Rightarrow> ''n'' | Some d \<Rightarrow> CHR ''r'' # d)"


text \<open>
  A turn of a token-capped session accounts exactly: at or above the cap it is refused with the
  checkpoint untouched; below it the graph runs, the persisted total grows by exactly the usage of
  the turn's new messages (pausing for an approval included), and the turn raises exactly when it
  completes with the new total at or above the cap.
\<close>

theorem turn_accounts_exactly:
  assumes "rq_invocation rq = None" "\<not> rq_recovery rq" and "tokens_in (cp_state cp) = Inr t"
    and "run (graph_input_of rq) None cp = (Inr ms, cp1)"
    and "new = charged (interrupt cp1 \<noteq> None) rq cp ms"
    and "run_graph_turn run interrupt digest reliable True (token_budget c) model rq cp = (r, cp')"
  shows "if t \<ge> c then r = Inl (TokensExceeded t c) \<and> cp' = cp
    else tokens_in (cp_state cp') = Inr (t + turn_usage new)
      \<and> (case r of Inl e \<Rightarrow> e = TokensExceeded (t + turn_usage new) c \<and> interrupt cp1 = None \<and> t + turn_usage new \<ge> c
         | Inr g \<Rightarrow> gt_approval g = interrupt cp1 \<and> (interrupt cp1 \<noteq> None \<or> t + turn_usage new < c))"
proof (cases "t \<ge> c")
  case True
  then show ?thesis using assms(6) begin_plain_turn [OF assms(1-3), of digest c] by (auto simp: run_graph_turn_def)
next
  case False
  then have "t < c" by simp
  from plain_turn [where run = run and interrupt = interrupt and rq = rq and cp = cp and ms = ms,
      OF assms(1-3) this assms(4), folded assms(5)] assms(6) False
  show ?thesis by (auto simp: Let_def tokens_in_update split: option.splits if_splits)
qed

lemma turn_accounts_exactly_witness:
  "tokens_in (cp_state (snd (run_graph_turn echo_graph (\<lambda>_. None) (\<lambda>_. []) reliable True (token_budget 5) None plain_request no_thread)))
    = Inr 5"
proof -
  let ?res = "run_graph_turn echo_graph (\<lambda>_. None) (\<lambda>_. []) reliable True (token_budget 5) None plain_request no_thread"
  have "if (0 :: int) \<ge> 5 then fst ?res = Inl (TokensExceeded 0 5) \<and> snd ?res = no_thread
    else tokens_in (cp_state (snd ?res)) = Inr (0 + turn_usage [five_tokens])
      \<and> (case fst ?res of Inl e \<Rightarrow> e = TokensExceeded (0 + turn_usage [five_tokens]) 5
            \<and> (\<lambda>_. None) (snd (echo_graph (FreshInput [] None) None no_thread)) = (None :: string option)
            \<and> 0 + turn_usage [five_tokens] \<ge> 5
         | Inr g \<Rightarrow> gt_approval g = (\<lambda>_. None) (snd (echo_graph (FreshInput [] None) None no_thread))
            \<and> ((\<lambda>_. None) (snd (echo_graph (FreshInput [] None) None no_thread)) \<noteq> (None :: string option)
              \<or> 0 + turn_usage [five_tokens] < 5))"
    by (rule turn_accounts_exactly [where ms = "[five_tokens]", OF _ _ _ _ _ surjective_pairing])
      (simp_all add: plain_request_def no_thread_def tokens_in_def echo_graph_def graph_input_of_def charged_def Let_def)
  then show ?thesis by (simp add: five_tokens_def or_zero_def)
qed

text \<open>
  A recovered invocation is charged once: continuing an invocation whose graph has finished
  takes the prior total from the turn record, so the persisted total is the same whether or not an
  earlier attempt had already persisted it, and recovering again changes nothing.
\<close>

theorem recovery_charges_tokens_once:
  assumes "rq_invocation rq = Some ident" and "cp_record cp = Some rec" and "tr_invocation rec = ident"
    and "tr_digest rec = digest rq" and "\<not> cp_next cp" and "tr_prior_tokens rec < c" and "interrupt cp = None"
    and "interrupt cp' = None"
    and "run_graph_turn run interrupt digest reliable True (token_budget c) model rq cp = (r, cp')"
  shows "tokens_in (cp_state cp') = Inr (tr_prior_tokens rec
      + turn_usage (drop (if rq_resume rq \<noteq> None then tr_pre_count rec else tr_pre_count rec + length (rq_messages rq)) (cp_messages cp)))
    \<and> (\<exists>cp''. run_graph_turn run interrupt digest reliable True (token_budget c) model rq cp' = (r, cp'')
        \<and> dget (cp_state cp'') = dget (cp_state cp'))"
proof -
  let ?new = "drop (if rq_resume rq \<noteq> None then tr_pre_count rec else tr_pre_count rec + length (rq_messages rq)) (cp_messages cp)"
  have gen: "run_graph_turn run interrupt digest reliable True (token_budget c) model rq q =
      (let t' = tr_prior_tokens rec + turn_usage ?new
       in (if t' \<ge> c then Inl (TokensExceeded t' c)
           else Inr \<lparr>gt_messages = ?new, gt_approval = None, gt_resumed = (rq_resume rq \<noteq> None)\<rparr>,
           update_state (Some rec) [(''session_tokens'', PInt t')] q))"
    if "cp_record q = Some rec" "\<not> cp_next q" "cp_messages q = cp_messages cp" "interrupt q = None" for q
  proof -
    have b: "begin_turn digest reliable True (token_budget c) rq q
        = Inr (True, tr_pre_count rec, tr_prior_tokens rec, Some rec)"
      using assms that by (simp add: begin_turn_def turn_record_for_def token_budget_def) (simp add: reliable_def)
    have g: "run_graph run True rq True (Some rec) q = (Inr (cp_messages cp), q)"
      using that by (simp add: run_graph_def)
    show ?thesis using that assms(1) unfolding run_graph_turn_def b
      by (auto simp: g Let_def token_budget_def accrue_tokens_reliable enforce_after_turn_def)
  qed
  from gen [OF assms(2,5) refl assms(7)] assms(9)
  have cp': "cp' = update_state (Some rec) [(''session_tokens'', PInt (tr_prior_tokens rec + turn_usage ?new))] cp"
    and r: "r = (if tr_prior_tokens rec + turn_usage ?new \<ge> c then Inl (TokensExceeded (tr_prior_tokens rec + turn_usage ?new) c)
      else Inr \<lparr>gt_messages = ?new, gt_approval = None, gt_resumed = (rq_resume rq \<noteq> None)\<rparr>)"
    by (simp_all add: Let_def split: if_splits)
  have q: "cp_record cp' = Some rec" "\<not> cp_next cp'" "cp_messages cp' = cp_messages cp"
    unfolding cp' using assms(5) by (simp_all add: update_state_def)
  have "run_graph_turn run interrupt digest reliable True (token_budget c) model rq cp' =
    (r, update_state (Some rec) [(''session_tokens'', PInt (tr_prior_tokens rec + turn_usage ?new))] cp')"
    using gen [OF q assms(8)] unfolding r Let_def by simp
  moreover have "dget (cp_state (update_state (Some rec) [(''session_tokens'', PInt (tr_prior_tokens rec + turn_usage ?new))] cp'))
      = dget (cp_state cp')"
    unfolding cp' by (auto simp: update_state_def dict_update_def dict_simps)
  ultimately show ?thesis unfolding cp' using tokens_in_update(1) by blast
qed

lemma recovery_charges_tokens_once_witness:
  "let cp = no_thread\<lparr>cp_messages := [five_tokens], cp_record := Some \<lparr>tr_invocation = ''i'', tr_digest = ''d'',
        tr_pre_count = 0, tr_prior_tokens = 1, tr_prior_usd = 0\<rparr>\<rparr>;
       rq = plain_request\<lparr>rq_invocation := Some ''i''\<rparr>
   in tokens_in (cp_state (snd (run_graph_turn echo_graph (\<lambda>_. None) (\<lambda>_. ''d'') reliable True (token_budget 9) None rq cp)))
     = Inr (1 + turn_usage (drop 0 [five_tokens]))"
proof -
  define rec where "rec = \<lparr>tr_invocation = ''i'', tr_digest = ''d'', tr_pre_count = 0, tr_prior_tokens = 1, tr_prior_usd = 0\<rparr>"
  define cp where "cp = no_thread\<lparr>cp_messages := [five_tokens], cp_record := Some rec\<rparr>"
  define rq where "rq = plain_request\<lparr>rq_invocation := Some ''i''\<rparr>"
  have "tokens_in (cp_state (snd (run_graph_turn echo_graph (\<lambda>_. None) (\<lambda>_. ''d'') reliable True (token_budget 9) None rq cp)))
      = Inr (tr_prior_tokens rec + turn_usage (drop (if rq_resume rq \<noteq> None then tr_pre_count rec
          else tr_pre_count rec + length (rq_messages rq)) (cp_messages cp)))"
    by (rule recovery_charges_tokens_once [THEN conjunct1, OF _ _ _ _ _ _ _ _ surjective_pairing])
      (simp_all add: cp_def rq_def rec_def plain_request_def no_thread_def)
  then show ?thesis by (simp add: cp_def rq_def rec_def plain_request_def)
qed

text \<open>
  Dollars are charged again by every recovery: continuing a finished invocation under a dollar
  cap adds the turn's cost to whatever the state already holds, so recovering after the cost was
  persisted leaves the session at twice the cost of its only turn.
\<close>

theorem recovery_charges_usd_again:
  assumes "rq_invocation rq = Some ident" and "cp_record cp = Some rec" and "tr_invocation rec = ident"
    and "tr_digest rec = digest rq" and "\<not> cp_next cp" and "tr_prior_usd rec < u" and "interrupt cp = None"
    and "usd_in (cp_state cp) = Inr spent"
    and "turn_usd (drop (if rq_resume rq \<noteq> None then tr_pre_count rec else tr_pre_count rec + length (rq_messages rq))
          (cp_messages cp)) model = Some added"
    and "run_graph_turn run interrupt digest reliable True \<lparr>sb_tokens = None, sb_usd = Some u\<rparr> model rq cp = (r, cp')"
  shows "usd_in (cp_state cp') = Inr (spent + added)"
proof -
  let ?new = "drop (if rq_resume rq \<noteq> None then tr_pre_count rec else tr_pre_count rec + length (rq_messages rq)) (cp_messages cp)"
  let ?sb = "\<lparr>sb_tokens = None, sb_usd = Some u\<rparr>"
  have b: "begin_turn digest reliable True ?sb rq cp = Inr (True, tr_pre_count rec, tr_prior_tokens rec, Some rec)"
    using assms by (simp add: begin_turn_def turn_record_for_def) (simp add: reliable_def)
  have g: "run_graph run True rq True (Some rec) cp = (Inr (cp_messages cp), cp)"
    using assms(5) by (simp add: run_graph_def)
  have acc: "accrue_turn reliable True (Some rec) (tr_prior_tokens rec) ?new True (Some u) model cp =
    (Inr (tr_prior_tokens rec + turn_usage ?new), update_state (Some rec)
      [(''session_tokens'', PInt (tr_prior_tokens rec + turn_usage ?new)), (''session_usd'', PFloat (spent + added))] cp)"
    by (rule accrue_usd_reliable [OF assms(9,8)])
  have "cp' = update_state (Some rec)
      [(''session_tokens'', PInt (tr_prior_tokens rec + turn_usage ?new)), (''session_usd'', PFloat (spent + added))] cp"
    using assms(10) unfolding run_graph_turn_def b
    by (cases "rq_resume rq") (use assms(1,7,8,9) acc in \<open>auto simp: g Let_def enforce_after_turn_def split: if_splits\<close>)
  then show ?thesis by (simp add: usd_in_update)
qed

lemma recovery_charges_usd_again_witness:
  "let rec = \<lparr>tr_invocation = ''i'', tr_digest = ''d'', tr_pre_count = 0, tr_prior_tokens = 0, tr_prior_usd = 0\<rparr>;
       cp = no_thread\<lparr>cp_messages := [five_tokens], cp_record := Some rec,
              cp_state := [(''session_usd'', PFloat (51 / 1000000))]\<rparr>;
       rq = plain_request\<lparr>rq_invocation := Some ''i''\<rparr>
   in usd_in (cp_state (snd (run_graph_turn echo_graph (\<lambda>_. None) (\<lambda>_. ''d'') reliable True
        \<lparr>sb_tokens = None, sb_usd = Some 1\<rparr> (Some ''claude-sonnet-4-6'') rq cp))) = Inr (51 / 1000000 + 51 / 1000000)"
proof -
  have price: "turn_usd [five_tokens] (Some ''claude-sonnet-4-6'') = Some (51 / 1000000)"
    by (simp add: turn_usd_def five_tokens_def or_zero_def usd_for_token_usage_def strip_def strip_by_def is_space_def
        Let_def remove_prefix_def starts_with_def usd_per_mtok_def)
  show ?thesis unfolding Let_def
    by (rule recovery_charges_usd_again [where rec = "\<lparr>tr_invocation = ''i'', tr_digest = ''d'', tr_pre_count = 0,
          tr_prior_tokens = 0, tr_prior_usd = 0\<rparr>" and u = 1, OF _ _ _ _ _ _ _ _ _ surjective_pairing])
      (simp_all add: plain_request_def no_thread_def usd_in_def price)
qed

text \<open>
  A dollar cap on a model without a published rate never refuses a turn and never accounts one:
  below the caps the graph runs, the turn then fails with "no published rate", and neither total is
  persisted, so the next turn starts from the same totals (the token cap included).
\<close>

theorem unpriced_model_never_accounts:
  assumes "rq_invocation rq = None" "\<not> rq_recovery rq" and "tokens_in (cp_state cp) = Inr t"
    and "usd_in (cp_state cp) = Inr spent" and "t < c" "spent < u"
    and "\<forall>i k. usd_for_token_usage i k model = None"
    and "run (graph_input_of rq) None cp = (Inr ms, cp1)" and "usd_in (cp_state cp1) = Inr spent'"
  shows "run_graph_turn run interrupt digest reliable True \<lparr>sb_tokens = Some c, sb_usd = Some u\<rparr> model rq cp
    = (Inl (NoPublishedRate model), cp1)"
proof -
  let ?sb = "\<lparr>sb_tokens = Some c, sb_usd = Some u\<rparr>"
  have b: "begin_turn digest reliable True ?sb rq cp = Inr (False, length (cp_messages cp), t, None)"
    using assms by (simp add: begin_turn_def enforce_before_turn_def) (simp add: reliable_def)
  have g: "run_graph run True rq False None cp = (Inr ms, cp1)"
    using assms(8) by (auto simp: run_graph_def graph_input_of_def Let_def)
  have "turn_usd xs model = None" for xs :: "'a turn_message list"
    using assms(7) by (auto simp: turn_usd_def split: prod.splits)
  then show ?thesis unfolding run_graph_turn_def b
    by (cases "interrupt cp1") (use assms(9) in \<open>simp_all add: g Let_def accrue_turn_def enforce_after_turn_def\<close>)
qed

lemma unpriced_model_never_accounts_witness:
  "run_graph_turn echo_graph (\<lambda>_. None) (\<lambda>_. []) reliable True \<lparr>sb_tokens = Some 1, sb_usd = Some 1\<rparr> None plain_request no_thread
    = (Inl (NoPublishedRate None), no_thread\<lparr>cp_messages := [five_tokens]\<rparr>)"
  by (rule unpriced_model_never_accounts [where t = 0 and spent = 0 and  ms = "[five_tokens]"])
    (simp_all add: plain_request_def no_thread_def tokens_in_def usd_in_def usd_for_token_usage_def echo_graph_def graph_input_of_def Let_def)

text \<open>A failed read of the state reads as zero: the budget check passes at any total.\<close>

lemma unreadable_state_passes:
  "enforce_before_turn \<lparr>io_readable = False, io_writable = w\<rparr> True (Some c) None cp = Inr 0" if "0 < c"
  using that by (simp add: enforce_before_turn_def prior_tokens_def prior_state_def tokens_in_def)

end
