(* ===== verification/Conversation_Store.thy ===== *)
theory Conversation_Store
  imports Apx_Prelude
begin

text \<open>
  Conversations and their items (\<open>_conversation.py\<close>): cursor paging, the item data model with its
  parser and serialiser, orphan repair of replayed histories, titles and search text, and the
  in-memory store.

  Content blocks are JSON-like dicts.  The lax integer coercion of the data-model library is the
  parameter \<open>as_int\<close>; generated ids and the clock are arguments; the ellipsis character, which is
  not a HOL character, is the parameter \<open>ellipsis\<close>.
\<close>

subsection \<open>Paging\<close>

record 'a paged_list =
  pg_data :: "'a list"
  pg_first_id :: "string option"
  pg_last_id :: "string option"
  pg_has_more :: bool

definition paginate_in_memory ::
  "'a list \<Rightarrow> ('a \<Rightarrow> string) \<Rightarrow> int \<Rightarrow> string option \<Rightarrow> string option \<Rightarrow> string \<Rightarrow> 'a paged_list" where
  "paginate_in_memory items id_fn limit after before order =
     (let w0 = (if order = ''desc'' then rev items else items);
          w1 = (case after of None \<Rightarrow> w0
                | Some a \<Rightarrow> (case first_index (\<lambda>x. id_fn x = a) w0 of None \<Rightarrow> w0 | Some i \<Rightarrow> drop (i + 1) w0));
          w2 = (case before of None \<Rightarrow> w1
                | Some b \<Rightarrow> (case first_index (\<lambda>x. id_fn x = b) w1 of None \<Rightarrow> w1 | Some i \<Rightarrow> take i w1));
          page = py_take limit w2
      in \<lparr>pg_data = page,
          pg_first_id = (if page = [] then None else Some (id_fn (hd page))),
          pg_last_id = (if page = [] then None else Some (id_fn (last page))),
          pg_has_more = (int (length w2) > limit)\<rparr>)"

subsection \<open>Item data\<close>

type_synonym block = "(string \<times> pyval) list"

datatype item_data =
    MessageData (md_role: string) (md_content: "block list") (md_agent: "string option")
  | FunctionCallData (fc_agent: string) (fc_name: string) (fc_arguments: string) (fc_call_id: string)
  | FunctionCallOutputData (fo_call_id: string) (fo_output: string)
  | ReasoningData (rd_agent: string) (rd_summary: "string dict list") (rd_content: "string dict list option")
      (rd_encrypted: "string option")
  | CompactionData (cd_summary: string) (cd_last_item_id: string) (cd_model: string) (cd_token_count: int)
  | NativeToolData (nt_item: block)

datatype conv_error =
    UnknownItemType string
  | InvalidData string
  | WrongDataFor string
  | ConversationNotFound string

fun as_str :: "pyval \<Rightarrow> string option" where
  "as_str (PStr s) = Some s"
| "as_str _ = None"

fun as_opt_str :: "pyval \<Rightarrow> string option option" where
  "as_opt_str (PStr s) = Some (Some s)"
| "as_opt_str PNone = Some None"
| "as_opt_str _ = None"

fun as_dict :: "pyval \<Rightarrow> block option" where
  "as_dict (PDict d) = Some d"
| "as_dict _ = None"

fun all_some :: "'a option list \<Rightarrow> 'a list option" where
  "all_some [] = Some []"
| "all_some (None # xs) = None"
| "all_some (Some x # xs) = map_option (Cons x) (all_some xs)"

fun as_blocks :: "pyval \<Rightarrow> block list option" where
  "as_blocks (PList xs) = all_some (map as_dict xs)"
| "as_blocks _ = None"

definition as_str_dict :: "pyval \<Rightarrow> string dict option" where
  "as_str_dict v = (case v of
     PDict d \<Rightarrow> all_some (map (\<lambda>(k, x). map_option (Pair k) (as_str x)) d)
   | _ \<Rightarrow> None)"

fun as_str_dicts :: "pyval \<Rightarrow> string dict list option" where
  "as_str_dicts (PList xs) = all_some (map as_str_dict xs)"
| "as_str_dicts _ = None"

definition as_opt_str_dicts :: "pyval \<Rightarrow> string dict list option option" where
  "as_opt_str_dicts v = (if v = PNone then Some None else map_option Some (as_str_dicts v))"

text \<open>A required field that is missing, or any field of the wrong shape, is a validation error.\<close>

definition field :: "block \<Rightarrow> string \<Rightarrow> (pyval \<Rightarrow> 'a option) \<Rightarrow> 'a option" where
  "field d k conv = Option.bind (dget d k) conv"

definition field_or :: "'a \<Rightarrow> block \<Rightarrow> string \<Rightarrow> (pyval \<Rightarrow> 'a option) \<Rightarrow> 'a option" where
  "field_or dflt d k conv = (case dget d k of None \<Rightarrow> Some dflt | Some v \<Rightarrow> conv v)"

definition validate_message :: "block \<Rightarrow> item_data option" where
  "validate_message d =
     (case (field d ''role'' as_str, field d ''content'' as_blocks, field_or None d ''agent'' as_opt_str) of
        (Some role, Some content, Some agent) \<Rightarrow>
          (if role \<noteq> ''user'' \<and> role \<noteq> ''assistant'' then None
           else if role = ''assistant'' \<and> agent = None then None
           else Some (MessageData role content agent))
      | _ \<Rightarrow> None)"

definition validate_function_call :: "block \<Rightarrow> item_data option" where
  "validate_function_call d =
     (case (field d ''agent'' as_str, field d ''name'' as_str, field d ''arguments'' as_str, field d ''call_id'' as_str) of
        (Some a, Some n, Some args, Some c) \<Rightarrow> Some (FunctionCallData a n args c)
      | _ \<Rightarrow> None)"

definition validate_function_call_output :: "block \<Rightarrow> item_data option" where
  "validate_function_call_output d =
     (case (field d ''call_id'' as_str, field d ''output'' as_str) of
        (Some c, Some out) \<Rightarrow> Some (FunctionCallOutputData c out)
      | _ \<Rightarrow> None)"

definition validate_reasoning :: "block \<Rightarrow> item_data option" where
  "validate_reasoning d =
     (case (field d ''agent'' as_str, field d ''summary'' as_str_dicts,
            field_or None d ''content'' as_opt_str_dicts, field_or None d ''encrypted_content'' as_opt_str) of
        (Some a, Some s, Some c, Some e) \<Rightarrow> Some (ReasoningData a s c e)
      | _ \<Rightarrow> None)"

definition validate_compaction :: "(pyval \<Rightarrow> int option) \<Rightarrow> block \<Rightarrow> item_data option" where
  "validate_compaction as_int d =
     (case (field d ''summary'' as_str, field d ''last_item_id'' as_str, field d ''model'' as_str,
            field d ''token_count'' as_int) of
        (Some s, Some l, Some m, Some n) \<Rightarrow> Some (CompactionData s l m n)
      | _ \<Rightarrow> None)"

definition validate_native_tool :: "block \<Rightarrow> item_data option" where
  "validate_native_tool d = map_option NativeToolData (field d ''item'' as_dict)"

text \<open>The classes by type; the flag says that the class has an \<open>agent\<close> and no \<open>model\<close> field.\<close>

definition item_class :: "(pyval \<Rightarrow> int option) \<Rightarrow> string \<Rightarrow> (bool \<times> (block \<Rightarrow> item_data option)) option" where
  "item_class as_int t =
     (if t = ''message'' then Some (True, validate_message)
      else if t = ''function_call'' then Some (True, validate_function_call)
      else if t = ''function_call_output'' then Some (False, validate_function_call_output)
      else if t = ''reasoning'' then Some (True, validate_reasoning)
      else if t = ''compaction'' then Some (False, validate_compaction as_int)
      else if t = ''native_tool'' then Some (False, validate_native_tool)
      else None)"

definition parse_item_data :: "(pyval \<Rightarrow> int option) \<Rightarrow> string \<Rightarrow> block \<Rightarrow> conv_error + item_data" where
  "parse_item_data as_int t raw =
     (case item_class as_int t of
        None \<Rightarrow> Inl (UnknownItemType t)
      | Some (has_agent, validate) \<Rightarrow>
          (let raw' = (case dget raw ''model'' of
                         Some m \<Rightarrow> if has_agent then dset ''agent'' m raw else raw
                       | None \<Rightarrow> raw)
           in case validate raw' of None \<Rightarrow> Inl (InvalidData t) | Some d \<Rightarrow> Inr d))"

fun type_of_data :: "item_data \<Rightarrow> string" where
  "type_of_data (MessageData _ _ _) = ''message''"
| "type_of_data (FunctionCallData _ _ _ _) = ''function_call''"
| "type_of_data (FunctionCallOutputData _ _) = ''function_call_output''"
| "type_of_data (ReasoningData _ _ _ _) = ''reasoning''"
| "type_of_data (CompactionData _ _ _ _) = ''compaction''"
| "type_of_data (NativeToolData _) = ''native_tool''"

definition item_types :: "string list" where
  "item_types = [''message'', ''function_call'', ''function_call_output'', ''reasoning'', ''compaction'', ''native_tool'']"

definition validate_type_matches_data :: "string \<Rightarrow> item_data \<Rightarrow> conv_error option" where
  "validate_type_matches_data t d =
     (if t \<notin> set item_types then Some (UnknownItemType t)
      else if type_of_data d \<noteq> t then Some (WrongDataFor t)
      else None)"

text \<open>\<open>model_dump(by_alias=True)\<close>: \<open>agent\<close> is written under the name \<open>model\<close>.\<close>

definition opt_str_val :: "string option \<Rightarrow> pyval" where
  "opt_str_val x = (case x of None \<Rightarrow> PNone | Some s \<Rightarrow> PStr s)"

definition str_dicts_val :: "string dict list \<Rightarrow> pyval" where
  "str_dicts_val ds = PList (map (\<lambda>d. PDict (map (\<lambda>(k, s). (k, PStr s)) d)) ds)"

fun dump_item_data :: "item_data \<Rightarrow> block" where
  "dump_item_data (MessageData r c a) =
     [(''role'', PStr r), (''content'', PList (map PDict c)), (''model'', opt_str_val a)]"
| "dump_item_data (FunctionCallData a n args c) =
     [(''model'', PStr a), (''name'', PStr n), (''arguments'', PStr args), (''call_id'', PStr c)]"
| "dump_item_data (FunctionCallOutputData c out) = [(''call_id'', PStr c), (''output'', PStr out)]"
| "dump_item_data (ReasoningData a s c e) =
     [(''model'', PStr a), (''summary'', str_dicts_val s),
      (''content'', case c of None \<Rightarrow> PNone | Some ds \<Rightarrow> str_dicts_val ds), (''encrypted_content'', opt_str_val e)]"
| "dump_item_data (CompactionData s l m n) =
     [(''summary'', PStr s), (''last_item_id'', PStr l), (''model'', PStr m), (''token_count'', PInt n)]"
| "dump_item_data (NativeToolData i) = [(''item'', PDict i)]"

text \<open>The instances the model validators let exist.\<close>

fun valid_data :: "item_data \<Rightarrow> bool" where
  "valid_data (MessageData r c a) = ((r = ''user'' \<or> r = ''assistant'') \<and> (r = ''assistant'' \<longrightarrow> a \<noteq> None))"
| "valid_data _ = True"

subsection \<open>Items\<close>

record new_item =
  ni_type :: string
  ni_response_id :: string
  ni_data :: item_data
  ni_created_by :: "string option"

record conv_item =
  ci_id :: string
  ci_type :: string
  ci_status :: string
  ci_response_id :: string
  ci_created_at :: int
  ci_data :: item_data
  ci_created_by :: "string option"

definition to_api_dict :: "conv_item \<Rightarrow> block" where
  "to_api_dict it =
     dict_update
       (dict_update
         [(''id'', PStr (ci_id it)), (''response_id'', PStr (ci_response_id it)), (''type'', PStr (ci_type it)),
          (''status'', PStr (ci_status it)), (''created_at'', PInt (ci_created_at it))]
         (filter (\<lambda>(k, v). v \<noteq> PNone) (dump_item_data (ci_data it))))
       (case ci_created_by it of None \<Rightarrow> [] | Some u \<Rightarrow> [(''created_by'', PStr u)])"

definition is_call :: "conv_item \<Rightarrow> bool" where
  "is_call it \<longleftrightarrow> ci_type it = ''function_call'' \<and> is_FunctionCallData (ci_data it)"

definition is_output :: "conv_item \<Rightarrow> bool" where
  "is_output it \<longleftrightarrow> ci_type it = ''function_call_output'' \<and> is_FunctionCallOutputData (ci_data it)"

definition call_ids :: "conv_item list \<Rightarrow> string list" where
  "call_ids items = map (\<lambda>it. fc_call_id (ci_data it)) (filter is_call items)"

definition output_call_ids :: "conv_item list \<Rightarrow> string list" where
  "output_call_ids items = map (\<lambda>it. fo_call_id (ci_data it)) (filter is_output items)"

definition drop_orphaned_tool_outputs :: "conv_item list \<Rightarrow> conv_item list" where
  "drop_orphaned_tool_outputs items =
     filter (\<lambda>it. \<not> (is_output it \<and> fo_call_id (ci_data it) \<notin> set (call_ids items))
       \<and> \<not> (is_call it \<and> fc_call_id (ci_data it) \<notin> set (output_call_ids items))) items"

subsection \<open>Titles and search text\<close>

definition synthesize_conversation_title :: "string \<Rightarrow> block list \<Rightarrow> int \<Rightarrow> string option" where
  "synthesize_conversation_title ellipsis content limit =
     (let parts = concat (map (\<lambda>b. if pget b ''type'' = PStr ''input_text''
                                   then (case pget b ''text'' of PStr t \<Rightarrow> [t] | _ \<Rightarrow> []) else []) content);
          collapsed = join '' '' (words (join '' '' parts))
      in if collapsed = [] then None
         else if int (length collapsed) \<le> limit then Some collapsed
         else Some (rstrip (py_take (max 0 (limit - 1)) collapsed) @ ellipsis))"

text \<open>Joining a \<open>text\<close> that is not a string raises (\<open>None\<close>).\<close>

definition text_or_empty :: "block \<Rightarrow> string option" where
  "text_or_empty b = (case dget b ''text'' of None \<Rightarrow> Some [] | Some v \<Rightarrow> as_str v)"

fun search_text :: "item_data \<Rightarrow> string option" where
  "search_text (MessageData r content a) =
     map_option (join '' '') (all_some (map text_or_empty
       (filter (\<lambda>b. pget b ''type'' = PStr ''input_text'' \<or> pget b ''type'' = PStr ''output_text'') content)))"
| "search_text (FunctionCallData a n args c) = Some (n @ '': '' @ args)"
| "search_text (FunctionCallOutputData c out) = Some out"
| "search_text (ReasoningData a summary c e) =
     Some (join '' '' (map (\<lambda>b. case dget b ''text'' of None \<Rightarrow> [] | Some t \<Rightarrow> t) summary))"
| "search_text (CompactionData s l m n) = Some s"
| "search_text (NativeToolData i) = Some []"

subsection \<open>The in-memory store\<close>

record conversation =
  cv_id :: string
  cv_created_at :: int
  cv_updated_at :: int
  cv_root :: string
  cv_title :: "string option"
  cv_kind :: string
  cv_parent :: "string option"
  cv_agent :: "string option"
  cv_session_state :: block
  cv_session_usage :: "pyfloat dict"
  cv_reasoning_effort :: "string option"
  cv_model_override :: "string option"

record conv_store =
  st_conversations :: "conversation dict"
  st_items :: "conv_item list dict"

definition empty_store :: conv_store where
  "empty_store = \<lparr>st_conversations = [], st_items = []\<rparr>"

definition resolve_root_id :: "string \<Rightarrow> string option \<Rightarrow> conv_store \<Rightarrow> conv_error + string" where
  "resolve_root_id new_id parent st =
     (case parent of
        None \<Rightarrow> Inr new_id
      | Some p \<Rightarrow> (case dget (st_conversations st) p of
                     None \<Rightarrow> Inl (ConversationNotFound p)
                   | Some c \<Rightarrow> Inr (cv_root c)))"

definition create_conversation ::
  "int \<Rightarrow> string \<Rightarrow> string option \<Rightarrow> string \<Rightarrow> string option \<Rightarrow> string option \<Rightarrow> string option \<Rightarrow> conv_store
    \<Rightarrow> conv_error + conversation \<times> conv_store" where
  "create_conversation now fresh cid kind title parent agent st =
     (let i = (case cid of Some c \<Rightarrow> c | None \<Rightarrow> fresh)
      in case resolve_root_id i parent st of
           Inl e \<Rightarrow> Inl e
         | Inr rt \<Rightarrow>
             (let c = \<lparr>cv_id = i, cv_created_at = now, cv_updated_at = now, cv_root = rt, cv_title = title,
                       cv_kind = kind, cv_parent = parent, cv_agent = agent, cv_session_state = [],
                       cv_session_usage = [], cv_reasoning_effort = None, cv_model_override = None\<rparr>
              in Inr (c, \<lparr>st_conversations = dset i c (st_conversations st), st_items = dset i [] (st_items st)\<rparr>)))"

definition get_conversation :: "string \<Rightarrow> conv_store \<Rightarrow> conversation option" where
  "get_conversation i st = dget (st_conversations st) i"

definition items_of :: "conv_store \<Rightarrow> string \<Rightarrow> conv_item list" where
  "items_of st i = (case dget (st_items st) i of None \<Rightarrow> [] | Some xs \<Rightarrow> xs)"

definition list_items ::
  "string \<Rightarrow> int \<Rightarrow> string option \<Rightarrow> string option \<Rightarrow> string \<Rightarrow> string option \<Rightarrow> conv_store \<Rightarrow> conv_item paged_list" where
  "list_items i limit after before order t st =
     (let items = (case t of None \<Rightarrow> items_of st i | Some ty \<Rightarrow> filter (\<lambda>x. ci_type x = ty) (items_of st i))
      in paginate_in_memory items ci_id limit after before order)"

definition persist_item :: "int \<Rightarrow> string \<Rightarrow> new_item \<Rightarrow> conv_item" where
  "persist_item now i n =
     \<lparr>ci_id = i, ci_type = ni_type n, ci_status = ''completed'', ci_response_id = ni_response_id n,
      ci_created_at = now, ci_data = ni_data n, ci_created_by = ni_created_by n\<rparr>"

definition append_items ::
  "int \<Rightarrow> string list \<Rightarrow> string \<Rightarrow> new_item list \<Rightarrow> conv_store \<Rightarrow> conv_error + conv_item list \<times> conv_store" where
  "append_items now ids i items st =
     (case dget (st_conversations st) i of
        None \<Rightarrow> Inl (ConversationNotFound i)
      | Some c \<Rightarrow>
          (let persisted = map2 (persist_item now) ids items
           in Inr (persisted,
                \<lparr>st_conversations = dset i (c\<lparr>cv_updated_at := now\<rparr>) (st_conversations st),
                 st_items = dset i (items_of st i @ persisted) (st_items st)\<rparr>)))"

definition item_matches :: "string \<Rightarrow> conv_item \<Rightarrow> bool option" where
  "item_matches q it = map_option (\<lambda>t. str_contains q (lower t)) (search_text (ci_data it))"

text \<open>The inner loop stops at the first match, so a later malformed item is not looked at.\<close>

fun any_matches :: "string \<Rightarrow> conv_item list \<Rightarrow> bool option" where
  "any_matches q [] = Some False"
| "any_matches q (it # its) =
     (case item_matches q it of None \<Rightarrow> None | Some True \<Rightarrow> Some True | Some False \<Rightarrow> any_matches q its)"

definition filter_by_search :: "conversation list \<Rightarrow> string \<Rightarrow> conv_store \<Rightarrow> conversation list option" where
  "filter_by_search convs query st =
     (let q = lower query;
          by_title = map cv_id (filter (\<lambda>c. case cv_title c of None \<Rightarrow> False
                                  | Some t \<Rightarrow> t \<noteq> [] \<and> str_contains q (lower t)) convs)
      in case all_some (map (\<lambda>c. any_matches q (items_of st (cv_id c))) convs) of
           None \<Rightarrow> None
         | Some hits \<Rightarrow>
             (let by_item = map fst (filter snd (zip (map cv_id convs) hits))
              in Some (filter (\<lambda>c. cv_id c \<in> set by_title \<or> cv_id c \<in> set by_item) convs)))"

definition list_conversations ::
  "int \<Rightarrow> string option \<Rightarrow> string option \<Rightarrow> string option \<Rightarrow> string option \<Rightarrow> string \<Rightarrow> string \<Rightarrow> string option \<Rightarrow> conv_store
    \<Rightarrow> conversation paged_list option" where
  "list_conversations limit after before kind agent order sort_by query st =
     (let c0 = map snd (st_conversations st);
          c1 = (case kind of None \<Rightarrow> c0 | Some k \<Rightarrow> filter (\<lambda>c. cv_kind c = k) c0);
          c2 = (case agent of None \<Rightarrow> c1 | Some a \<Rightarrow> filter (\<lambda>c. cv_agent c = Some a) c1)
      in case (case query of None \<Rightarrow> Some c2 | Some q \<Rightarrow> if q = [] then Some c2 else filter_by_search c2 q st) of
           None \<Rightarrow> None
         | Some c3 \<Rightarrow>
             Some (paginate_in_memory (sort_key (if sort_by = ''updated_at'' then cv_updated_at else cv_created_at) c3)
               cv_id limit after before order))"

fun search_loop :: "string \<Rightarrow> int \<Rightarrow> conv_item list \<Rightarrow> conv_item list \<Rightarrow> conv_item list option" where
  "search_loop q limit [] results = Some results"
| "search_loop q limit (it # its) results =
     (case item_matches q it of
        None \<Rightarrow> None
      | Some True \<Rightarrow>
          (if int (length (results @ [it])) \<ge> limit then Some (results @ [it])
           else search_loop q limit its (results @ [it]))
      | Some False \<Rightarrow> search_loop q limit its results)"

definition search_items :: "string \<Rightarrow> string option \<Rightarrow> int \<Rightarrow> conv_store \<Rightarrow> conv_item list option" where
  "search_items query cid limit st =
     (let scope = (case cid of Some i \<Rightarrow> items_of st i | None \<Rightarrow> concat (map snd (st_items st)))
      in search_loop (lower query) limit scope [])"

definition or_opt :: "string option \<Rightarrow> string option \<Rightarrow> string option" where
  "or_opt a b = (case a of Some (c # cs) \<Rightarrow> Some (c # cs) | _ \<Rightarrow> b)"

definition update_conversation ::
  "int \<Rightarrow> string \<Rightarrow> string option \<Rightarrow> string option \<Rightarrow> bool \<Rightarrow> string option \<Rightarrow> bool \<Rightarrow> conv_store
    \<Rightarrow> conversation option \<times> conv_store" where
  "update_conversation now i title effort unset_effort model unset_model st =
     (case dget (st_conversations st) i of
        None \<Rightarrow> (None, st)
      | Some c \<Rightarrow>
          (let c' = c\<lparr>cv_updated_at := now,
                      cv_title := (case title of None \<Rightarrow> cv_title c | Some t \<Rightarrow> Some t),
                      cv_reasoning_effort := (if unset_effort then None else or_opt effort (cv_reasoning_effort c)),
                      cv_model_override := (if unset_model then None else or_opt model (cv_model_override c))\<rparr>
           in (Some c', st\<lparr>st_conversations := dset i c' (st_conversations st)\<rparr>)))"

definition set_session_state :: "int \<Rightarrow> string \<Rightarrow> block \<Rightarrow> conv_store \<Rightarrow> conv_store" where
  "set_session_state now i state st =
     (case dget (st_conversations st) i of
        None \<Rightarrow> st
      | Some c \<Rightarrow> st\<lparr>st_conversations :=
          dset i (c\<lparr>cv_session_state := state, cv_updated_at := now\<rparr>) (st_conversations st)\<rparr>)"

definition delete_conversation :: "string \<Rightarrow> conv_store \<Rightarrow> bool \<times> conv_store" where
  "delete_conversation i st =
     (if i \<notin> fst ` set (st_conversations st) then (False, st)
      else (True, \<lparr>st_conversations = ddel i (st_conversations st), st_items = ddel i (st_items st)\<rparr>))"

subsection \<open>Cursors\<close>

lemma first_index_nth:
  "distinct (map f xs) \<Longrightarrow> k < length xs \<Longrightarrow> first_index (\<lambda>x. f x = f (xs ! k)) xs = Some k"
proof (induction xs arbitrary: k)
  case (Cons x xs)
  show ?case
  proof (cases k)
    case (Suc j)
    with Cons have "f x \<noteq> f (xs ! j)" by (auto simp: image_iff)
    with Suc Cons show ?thesis by simp
  qed simp
qed simp

definition in_order :: "string \<Rightarrow> 'a list \<Rightarrow> 'a list" where
  "in_order order items = (if order = ''desc'' then rev items else items)"

lemma paginate_from:
  assumes "distinct (map f items)" and "k \<le> length items" and "limit > 0"
    and "after = (if k = 0 then None else Some (f (in_order order items ! (k - 1))))"
  shows "paginate_in_memory items f limit after None order =
    (let w = drop k (in_order order items); page = take (nat limit) w
     in \<lparr>pg_data = page, pg_first_id = (if page = [] then None else Some (f (hd page))),
         pg_last_id = (if page = [] then None else Some (f (last page))),
         pg_has_more = (int (length w) > limit)\<rparr>)"
proof -
  let ?w = "in_order order items"
  have d: "distinct (map f ?w)" using assms(1) by (simp add: in_order_def rev_map [symmetric])
  have "(case after of None \<Rightarrow> ?w
      | Some a \<Rightarrow> (case first_index (\<lambda>x. f x = a) ?w of None \<Rightarrow> ?w | Some i \<Rightarrow> drop (i + 1) ?w)) = drop k ?w"
  proof (cases k)
    case (Suc j)
    then have "j < length ?w" using assms(2) by (simp add: in_order_def)
    from first_index_nth [OF d this] show ?thesis using assms(4) Suc by simp
  qed (use assms(4) in simp_all)
  then show ?thesis using assms(3)
    by (simp add: paginate_in_memory_def in_order_def [symmetric] Let_def py_take_def)
qed

text \<open>A client that follows \<open>last_id\<close> while \<open>has_more\<close>; \<open>fuel\<close> bounds the number of pages.\<close>

fun collect_pages :: "nat \<Rightarrow> 'a list \<Rightarrow> ('a \<Rightarrow> string) \<Rightarrow> int \<Rightarrow> string \<Rightarrow> string option \<Rightarrow> 'a list" where
  "collect_pages 0 items f limit order after = []"
| "collect_pages (Suc n) items f limit order after =
     (let p = paginate_in_memory items f limit after None order
      in pg_data p @ (if pg_has_more p then collect_pages n items f limit order (pg_last_id p) else []))"

lemma collect_pages_from:
  assumes "distinct (map f items)" and "limit > 0" and "k \<le> length items"
    and "length items - k < fuel"
    and "after = (if k = 0 then None else Some (f (in_order order items ! (k - 1))))"
  shows "collect_pages fuel items f limit order after = drop k (in_order order items)"
  using assms(3-5)
proof (induction fuel arbitrary: k after)
  case (Suc n)
  let ?w = "in_order order items"
  have len: "length ?w = length items" by (simp add: in_order_def)
  note p = paginate_from [OF assms(1) Suc.prems(1) assms(2) Suc.prems(3)]
  show ?case
  proof (cases "int (length (drop k ?w)) > limit")
    case False
    then show ?thesis using assms(2) by (simp add: p Let_def)
  next
    case True
    let ?k = "k + nat limit"
    have le: "?k \<le> length items" using True len assms(2) by simp
    have page: "take (nat limit) (drop k ?w) \<noteq> []" using True assms(2) by auto
    have "last (take (nat limit) (drop k ?w)) = ?w ! (?k - 1)"
      using le len assms(2) page by (simp add: last_conv_nth min_absorb2 algebra_simps)
    moreover have "collect_pages n items f limit order (Some (f (?w ! (?k - 1)))) = drop ?k ?w"
      using Suc.prems(2) le assms(2) by (intro Suc.IH) auto
    ultimately show ?thesis using True page
      by (simp add: p Let_def) (metis add.commute append_take_drop_id drop_drop)
  qed
qed simp

subsection \<open>Orphans\<close>

lemma in_call_ids: "c \<in> set (call_ids xs) \<longleftrightarrow> (\<exists>it \<in> set xs. is_call it \<and> fc_call_id (ci_data it) = c)"
  by (auto simp: call_ids_def)

lemma in_output_call_ids:
  "c \<in> set (output_call_ids xs) \<longleftrightarrow> (\<exists>it \<in> set xs. is_output it \<and> fo_call_id (ci_data it) = c)"
  by (auto simp: output_call_ids_def)

lemma in_drop_orphaned:
  "it \<in> set (drop_orphaned_tool_outputs xs) \<longleftrightarrow> it \<in> set xs
    \<and> (is_output it \<longrightarrow> fo_call_id (ci_data it) \<in> set (call_ids xs))
    \<and> (is_call it \<longrightarrow> fc_call_id (ci_data it) \<in> set (output_call_ids xs))"
  by (auto simp: drop_orphaned_tool_outputs_def)

lemma not_call_and_output: "is_call it \<Longrightarrow> \<not> is_output it"
  by (simp add: is_call_def is_output_def)

lemma call_ids_drop:
  "set (call_ids (drop_orphaned_tool_outputs xs)) = set (call_ids xs) \<inter> set (output_call_ids xs)"
  unfolding set_eq_iff Int_iff in_call_ids Bex_def in_drop_orphaned using not_call_and_output by blast

lemma output_call_ids_drop:
  "set (output_call_ids (drop_orphaned_tool_outputs xs)) = set (call_ids xs) \<inter> set (output_call_ids xs)"
  unfolding set_eq_iff Int_iff in_output_call_ids Bex_def in_drop_orphaned using not_call_and_output by blast

lemma drop_orphaned_id:
  "(drop_orphaned_tool_outputs xs = xs) = (set (call_ids xs) = set (output_call_ids xs))"
proof
  assume "drop_orphaned_tool_outputs xs = xs"
  then show "set (call_ids xs) = set (output_call_ids xs)"
    using call_ids_drop [of xs] output_call_ids_drop [of xs] by simp
next
  assume eq: "set (call_ids xs) = set (output_call_ids xs)"
  show "drop_orphaned_tool_outputs xs = xs"
    unfolding drop_orphaned_tool_outputs_def filter_id_conv
    using eq by (auto simp: call_ids_def output_call_ids_def)
qed

subsection \<open>Parsing what was dumped\<close>

lemma all_some_map: "\<forall>x \<in> set xs. g (f x) = Some x \<Longrightarrow> all_some (map g (map f xs)) = Some xs"
  by (induction xs) auto

lemma as_blocks_dump [simp]: "as_blocks (PList (map PDict bs)) = Some bs"
  unfolding as_blocks.simps by (rule all_some_map) simp

lemma as_dicts_dump [simp]: "all_some (map (as_dict \<circ> PDict) bs) = Some bs"
  using as_blocks_dump [of bs] by simp

lemma as_str_dict_dump: "as_str_dict (PDict (map (\<lambda>(k, s). (k, PStr s)) d)) = Some d"
proof -
  have "all_some (map (\<lambda>(k, x). map_option (Pair k) (as_str x)) (map (\<lambda>(k, s). (k, PStr s)) d)) = Some d"
    by (rule all_some_map) auto
  then show ?thesis by (simp add: as_str_dict_def)
qed

lemma as_str_dicts_dump [simp]: "as_str_dicts (str_dicts_val ds) = Some ds"
  unfolding str_dicts_val_def as_str_dicts.simps by (rule all_some_map) (simp add: as_str_dict_dump)

lemma as_opt_dump [simp]:
  "as_opt_str (opt_str_val x) = Some x" "str_dicts_val ds \<noteq> PNone"
  by (cases x) (simp_all add: opt_str_val_def str_dicts_val_def)

lemma parse_dump:
  assumes "\<forall>n. as_int (PInt n) = Some n" and "valid_data d"
  shows "parse_item_data as_int (type_of_data d) (dump_item_data d) = Inr d"
proof (cases d)
  case (MessageData r c a)
  with assms(2) show ?thesis
    by (auto simp: parse_item_data_def item_class_def validate_message_def field_def field_or_def)
next
  case (ReasoningData a s c e)
  then show ?thesis
    by (cases c) (simp_all add: parse_item_data_def item_class_def validate_reasoning_def field_def field_or_def
        as_opt_str_dicts_def)
next
  case (CompactionData s l m n)
  then show ?thesis using assms(1)
    by (simp add: parse_item_data_def item_class_def validate_compaction_def field_def)
qed (simp_all add: parse_item_data_def item_class_def validate_function_call_def validate_function_call_output_def
    validate_native_tool_def field_def)

subsection \<open>The store's contract\<close>

text \<open>
  What the turn handlers rely on from any conversation store: appending to a known conversation adds
  exactly the new items at its end and touches no other conversation, appending to an unknown one
  fails, deleting forgets the conversation.  \<open>batch\<close> is what one append call carries.
\<close>

locale conversation_log =
  fixes known :: "'s \<Rightarrow> 'c \<Rightarrow> bool"
    and log :: "'s \<Rightarrow> 'c \<Rightarrow> 'i list"
    and append_op :: "'c \<Rightarrow> 'b \<Rightarrow> 's \<Rightarrow> 's option"
    and content :: "'b \<Rightarrow> 'i list"
    and delete_op :: "'c \<Rightarrow> 's \<Rightarrow> 's"
  assumes append_known: "known s c \<Longrightarrow> \<exists>s'. append_op c b s = Some s' \<and> log s' c = log s c @ content b
      \<and> (\<forall>d. known s' d = known s d) \<and> (\<forall>d. d \<noteq> c \<longrightarrow> log s' d = log s d)"
    and append_unknown: "\<not> known s c \<Longrightarrow> append_op c b s = None"
    and delete_forgets: "\<not> known (delete_op c s) c \<and> (\<forall>d. d \<noteq> c \<longrightarrow> known (delete_op c s) d = known s d \<and> log (delete_op c s) d = log s d)"
begin

fun append_all :: "('c \<times> 'b) list \<Rightarrow> 's \<Rightarrow> 's option" where
  "append_all [] s = Some s"
| "append_all ((c, b) # bs) s = Option.bind (append_op c b s) (append_all bs)"

text \<open>Appends to several conversations interleave without mixing: each log is its own batches.\<close>

lemma append_all_log:
  "\<forall>(d, b) \<in> set bs. known s d \<Longrightarrow>
    \<exists>s'. append_all bs s = Some s' \<and> (\<forall>d. known s' d = known s d)
      \<and> log s' c = log s c @ concat (map (\<lambda>(d, b). if d = c then content b else []) bs)"
proof (induction bs arbitrary: s)
  case (Cons x bs)
  obtain d b where x: "x = (d, b)" by (cases x)
  with Cons.prems have "known s d" by simp
  from append_known [OF this, of b] obtain s1 where s1: "append_op d b s = Some s1" "log s1 d = log s d @ content b"
    "\<forall>e. known s1 e = known s e" "\<forall>e. e \<noteq> d \<longrightarrow> log s1 e = log s e" by blast
  from Cons.prems s1(3) have "\<forall>(e, b) \<in> set bs. known s1 e" by auto
  from Cons.IH [OF this] s1 show ?case by (auto simp: x)
qed simp

lemma delete_then_append_fails: "append_op c b (delete_op c s) = None"
  using delete_forgets append_unknown by blast

end

definition known_conv :: "conv_store \<Rightarrow> string \<Rightarrow> bool" where
  "known_conv st i \<longleftrightarrow> i \<in> fst ` set (st_conversations st)"

text \<open>A batch: the clock, the generated ids and the items, one id per item.\<close>

definition append_batch :: "string \<Rightarrow> int \<times> (string \<times> new_item) list \<Rightarrow> conv_store \<Rightarrow> conv_store option" where
  "append_batch i b st =
     (case append_items (fst b) (map fst (snd b)) i (map snd (snd b)) st of Inl _ \<Rightarrow> None | Inr (_, st') \<Rightarrow> Some st')"

definition batch_items :: "int \<times> (string \<times> new_item) list \<Rightarrow> conv_item list" where
  "batch_items b = map (\<lambda>(i, n). persist_item (fst b) i n) (snd b)"

lemma map2_batch: "map2 (persist_item t) (map fst xs) (map snd xs) = map (\<lambda>(i, n). persist_item t i n) xs"
  by (induction xs) auto

lemma items_of_dset [simp]: "items_of (st\<lparr>st_items := dset i xs (st_items st)\<rparr>) j = (if j = i then xs else items_of st j)"
  by (simp add: items_of_def dict_simps)

interpretation mem_store: conversation_log known_conv items_of append_batch batch_items "\<lambda>i st. snd (delete_conversation i st)"
proof (unfold_locales, goal_cases)
  case (1 s c b)
  then obtain v where v: "dget (st_conversations s) c = Some v"
    by (metis known_conv_def dget_None_iff not_Some_eq)
  let ?s' = "\<lparr>st_conversations = dset c (v\<lparr>cv_updated_at := fst b\<rparr>) (st_conversations s),
      st_items = dset c (items_of s c @ batch_items b) (st_items s)\<rparr>"
  have "append_batch c b s = Some ?s'"
    by (simp add: append_batch_def append_items_def v batch_items_def map2_batch Let_def)
  moreover have "known_conv ?s' d = known_conv s d" for d
    using 1 by (auto simp: known_conv_def dict_simps)
  ultimately show ?case by (simp add: items_of_def dict_simps)
next
  case (2 s c b)
  then have "dget (st_conversations s) c = None" by (simp add: known_conv_def dget_None_iff)
  then show ?case by (simp add: append_batch_def append_items_def)
next
  case (3 c s)
  show ?case by (auto simp: delete_conversation_def known_conv_def set_ddel items_of_def dict_simps)
qed

subsection \<open>The store invariant\<close>

text \<open>
  Conversations are stored under their own id; every conversation has an item list and every item
  list a conversation; a conversation without a parent is its own root.
\<close>

definition store_wf :: "conv_store \<Rightarrow> bool" where
  "store_wf st \<longleftrightarrow> dict_wf (st_conversations st) \<and> dict_wf (st_items st)
     \<and> fst ` set (st_conversations st) = fst ` set (st_items st)
     \<and> (\<forall>(i, c) \<in> set (st_conversations st). cv_id c = i \<and> (cv_parent c = None \<longrightarrow> cv_root c = i))"

datatype conv_op =
    Create int string "string option" string "string option" "string option" "string option"
  | Append int "string list" string "new_item list"
  | Update int string "string option" "string option" bool "string option" bool
  | SetState int string block
  | Delete string

fun conv_step :: "conv_op \<Rightarrow> conv_store \<Rightarrow> conv_store" where
  "conv_step (Create now fresh cid kind title parent agent) st =
     (case create_conversation now fresh cid kind title parent agent st of Inl _ \<Rightarrow> st | Inr (_, st') \<Rightarrow> st')"
| "conv_step (Append now ids i items) st =
     (case append_items now ids i items st of Inl _ \<Rightarrow> st | Inr (_, st') \<Rightarrow> st')"
| "conv_step (Update now i title e ue m um) st = snd (update_conversation now i title e ue m um st)"
| "conv_step (SetState now i s) st = set_session_state now i s st"
| "conv_step (Delete i) st = snd (delete_conversation i st)"

lemma store_wf_put:
  assumes "store_wf st" and "cv_id c = i" and "cv_parent c = None \<longrightarrow> cv_root c = i"
  shows "store_wf \<lparr>st_conversations = dset i c (st_conversations st), st_items = dset i xs (st_items st)\<rparr>"
proof -
  have wf: "dict_wf (st_conversations st)" using assms(1) by (simp add: store_wf_def)
  have "\<forall>(j, d) \<in> set (dset i c (st_conversations st)). cv_id d = j \<and> (cv_parent d = None \<longrightarrow> cv_root d = j)"
    using assms by (auto simp: store_wf_def set_dset [OF wf])
  then show ?thesis using assms(1) by (simp add: store_wf_def keys_dset)
qed

lemma store_wf_replace:
  assumes "store_wf st" and "dget (st_conversations st) i = Some c"
    and "cv_id c' = cv_id c" "cv_parent c' = cv_parent c" "cv_root c' = cv_root c"
  shows "store_wf (st\<lparr>st_conversations := dset i c' (st_conversations st)\<rparr>)"
proof -
  have wf: "dict_wf (st_conversations st)" using assms(1) by (simp add: store_wf_def)
  have c: "(i, c) \<in> set (st_conversations st)" using assms(2) by (rule dget_Some_in_set)
  then have "i \<in> fst ` set (st_conversations st)" by force
  then have "fst ` set (dset i c' (st_conversations st)) = fst ` set (st_conversations st)"
    by (simp add: keys_dset insert_absorb)
  moreover have "\<forall>(j, d) \<in> set (dset i c' (st_conversations st)). cv_id d = j \<and> (cv_parent d = None \<longrightarrow> cv_root d = j)"
    using assms c by (auto simp: store_wf_def set_dset [OF wf])
  ultimately show ?thesis using assms(1) by (simp add: store_wf_def)
qed

lemma store_wf_get:
  "store_wf st \<Longrightarrow> dget (st_conversations st) i = Some c \<Longrightarrow> cv_id c = i \<and> (cv_parent c = None \<longrightarrow> cv_root c = i)"
  by (auto simp: store_wf_def dest!: dget_Some_in_set)

lemma store_wf_step: "store_wf st \<Longrightarrow> store_wf (conv_step op st)"
proof (cases op)
  case (Create now fresh cid kind title parent agent)
  assume wf: "store_wf st"
  show ?thesis
    by (auto simp: Create create_conversation_def resolve_root_id_def Let_def wf split: option.splits
        intro!: store_wf_put [OF wf])
next
  case (Append now ids i items)
  assume wf: "store_wf st"
  show ?thesis
    by (auto simp: Append append_items_def Let_def wf split: option.splits dest: store_wf_get [OF wf] intro!: store_wf_put [OF wf])
next
  case (Update now i title e ue m um)
  assume wf: "store_wf st"
  show ?thesis
    by (auto simp: Update update_conversation_def Let_def wf split: option.splits intro!: store_wf_replace [OF wf])
next
  case (SetState now i s)
  assume wf: "store_wf st"
  show ?thesis
    by (auto simp: SetState set_session_state_def wf split: option.splits intro!: store_wf_replace [OF wf])
next
  case (Delete i)
  assume "store_wf st"
  then show ?thesis by (simp add: Delete delete_conversation_def store_wf_def keys_ddel) (auto simp: set_ddel)
qed

subsection \<open>Searching\<close>

lemma search_loop_spec:
  assumes "\<forall>it \<in> set its. item_matches q it \<noteq> None" and "results = [] \<or> int (length results) < limit"
  shows "search_loop q limit its results =
    Some (results @ take (nat (max 1 limit) - length results) (filter (\<lambda>it. item_matches q it = Some True) its))"
  using assms
proof (induction its arbitrary: results)
  case (Cons it its)
  then obtain b where b: "item_matches q it = Some b" by auto
  show ?case
  proof (cases b)
    case True
    show ?thesis
    proof (cases "int (length (results @ [it])) \<ge> limit")
      case stop: True
      then have "nat (max 1 limit) - length results = 1" using Cons.prems(2) by auto
      then show ?thesis using b True stop by simp
    next
      case False
      then have "nat (max 1 limit) - length results = Suc (nat (max 1 limit) - length (results @ [it]))" by auto
      then show ?thesis using Cons.IH [of "results @ [it]"] Cons.prems b True False by simp
    qed
  next
    case False
    then show ?thesis using Cons b by simp
  qed
qed simp

subsection \<open>Properties\<close>

text \<open>
  C33: Paging visits everything once, in order: for items with distinct ids and a positive page size,
  following \<open>last_id\<close> as the \<open>after\<close> cursor while \<open>has_more\<close> is set returns exactly the items,
  newest first for "desc" and oldest first otherwise.
\<close>

theorem paging_visits_everything_once:
  assumes "distinct (map f items)" and "limit > 0" and "length items < fuel"
  shows "collect_pages fuel items f limit order None = (if order = ''desc'' then rev items else items)"
  using collect_pages_from [OF assms(1,2), of 0 fuel None order] assms(3) by (simp add: in_order_def)

lemma paging_visits_everything_once_witness:
  "collect_pages 6 [''a'', ''b'', ''c'', ''d'', ''e''] (\<lambda>x. x) 2 ''desc'' None = [''e'', ''d'', ''c'', ''b'', ''a'']"
  using paging_visits_everything_once [of "\<lambda>x. x" "[''a'', ''b'', ''c'', ''d'', ''e'']" 2 6 "''desc''"] by simp

text \<open>
  The repair of replayed histories leaves no orphan: afterwards the call ids of the tool calls
  are exactly those of the tool outputs, namely the ones that had both sides; a history is left
  unchanged exactly when it had no orphan, so repairing twice is repairing once; and items that are
  neither calls nor outputs are all kept, in order.
\<close>

theorem drop_orphans_spec:
  "set (call_ids (drop_orphaned_tool_outputs xs)) = set (call_ids xs) \<inter> set (output_call_ids xs)
   \<and> set (output_call_ids (drop_orphaned_tool_outputs xs)) = set (call_ids xs) \<inter> set (output_call_ids xs)
   \<and> (drop_orphaned_tool_outputs xs = xs) = (set (call_ids xs) = set (output_call_ids xs))
   \<and> drop_orphaned_tool_outputs (drop_orphaned_tool_outputs xs) = drop_orphaned_tool_outputs xs
   \<and> filter (\<lambda>it. \<not> is_call it \<and> \<not> is_output it) (drop_orphaned_tool_outputs xs)
       = filter (\<lambda>it. \<not> is_call it \<and> \<not> is_output it) xs"
proof (intro conjI)
  show "drop_orphaned_tool_outputs (drop_orphaned_tool_outputs xs) = drop_orphaned_tool_outputs xs"
    unfolding drop_orphaned_id using call_ids_drop [of xs] output_call_ids_drop [of xs] by simp
  show "filter (\<lambda>it. \<not> is_call it \<and> \<not> is_output it) (drop_orphaned_tool_outputs xs)
       = filter (\<lambda>it. \<not> is_call it \<and> \<not> is_output it) xs"
    unfolding drop_orphaned_tool_outputs_def filter_filter by (rule filter_cong) auto
qed (rule call_ids_drop output_call_ids_drop drop_orphaned_id)+

text \<open>
  Item data survives storage: what the store serialises (the agent under the name "model"),
  parsed back under the item's type, is the item's data, for every payload the data models admit.
\<close>

theorem item_data_roundtrip:
  assumes "\<forall>n. as_int (PInt n) = Some n" and "valid_data d"
  shows "parse_item_data as_int (type_of_data d) (dump_item_data d) = Inr d"
  by (rule parse_dump [OF assms])

lemma item_data_roundtrip_witness:
  "parse_item_data (\<lambda>v. case v of PInt n \<Rightarrow> Some n | _ \<Rightarrow> None)
      (type_of_data (MessageData ''assistant'' [[(''type'', PStr ''output_text'')]] (Some ''bot'')))
      (dump_item_data (MessageData ''assistant'' [[(''type'', PStr ''output_text'')]] (Some ''bot'')))
    = Inr (MessageData ''assistant'' [[(''type'', PStr ''output_text'')]] (Some ''bot''))"
  by (rule item_data_roundtrip) simp_all

text \<open>
  Any interleaving of appends to existing conversations succeeds and leaves in each conversation
  its old items followed by exactly the items appended to it, in order; appending to a deleted
  conversation fails.
\<close>

theorem appends_do_not_mix:
  assumes "\<forall>(i, b) \<in> set bs. known_conv st i"
  shows "\<exists>st'. mem_store.append_all bs st = Some st'
      \<and> items_of st' i = items_of st i @ concat (map (\<lambda>(j, b). if j = i then batch_items b else []) bs)
      \<and> append_batch i b (snd (delete_conversation i st')) = None"
  using mem_store.append_all_log [OF assms, of i] mem_store.delete_then_append_fails by blast

lemma appends_do_not_mix_witness:
  "\<exists>st'. mem_store.append_all [(''c'', (5, [(''i1'', \<lparr>ni_type = ''native_tool'', ni_response_id = ''r'', ni_data = NativeToolData [],
          ni_created_by = None\<rparr>)])), (''d'', (6, []))]
        (conv_step (Create 1 ''c'' None ''default'' None None None) (conv_step (Create 1 ''d'' None ''default'' None None None) empty_store))
      = Some st' \<and> items_of st' ''c'' = items_of (conv_step (Create 1 ''c'' None ''default'' None None None)
          (conv_step (Create 1 ''d'' None ''default'' None None None) empty_store)) ''c'' @
        concat (map (\<lambda>(j, b). if j = ''c'' then batch_items b else []) [(''c'', (5, [(''i1'', \<lparr>ni_type = ''native_tool'', ni_response_id = ''r'',
          ni_data = NativeToolData [], ni_created_by = None\<rparr>)])), (''d'', (6, []))])
      \<and> append_batch ''c'' (0, []) (snd (delete_conversation ''c'' st')) = None"
  by (rule appends_do_not_mix) (simp add: empty_store_def known_conv_def create_conversation_def resolve_root_id_def Let_def)

text \<open>
  Every sequence of store operations from the empty store keeps it consistent: conversations
  under their own id, an item list for exactly the existing conversations, and every conversation
  without a parent its own root.
\<close>

theorem conversation_store_consistent:
  "store_wf (fold conv_step ops empty_store)"
proof -
  have "store_wf st \<Longrightarrow> store_wf (fold conv_step ops st)" for st
    by (induction ops arbitrary: st) (auto intro: store_wf_step)
  moreover have "store_wf empty_store" by (simp add: store_wf_def empty_store_def)
  ultimately show ?thesis .
qed

text \<open>
  Full-text search returns the first matches in storage order, at most the limit but never
  fewer than one match when there is any: a limit of zero or less still returns one item.
\<close>

theorem search_returns_first_matches:
  assumes "scope = (case cid of Some i \<Rightarrow> items_of st i | None \<Rightarrow> concat (map snd (st_items st)))"
    and "\<forall>it \<in> set scope. search_text (ci_data it) \<noteq> None"
  shows "search_items query cid limit st =
    Some (take (nat (max 1 limit)) (filter (\<lambda>it. str_contains (lower query) (lower (the (search_text (ci_data it))))) scope))"
proof -
  have m: "item_matches (lower query) it = Some (str_contains (lower query) (lower (the (search_text (ci_data it)))))"
    if "it \<in> set scope" for it
    using assms(2) that by (auto simp: item_matches_def)
  then have f: "filter (\<lambda>it. item_matches (lower query) it = Some True) scope =
      filter (\<lambda>it. str_contains (lower query) (lower (the (search_text (ci_data it))))) scope"
    by (intro filter_cong) auto
  have "search_loop (lower query) limit scope [] =
      Some (take (nat (max 1 limit)) (filter (\<lambda>it. item_matches (lower query) it = Some True) scope))"
    using search_loop_spec [of scope "lower query" "[]" limit] m by simp
  then show ?thesis unfolding search_items_def assms(1) [symmetric] f by simp
qed

definition demo_item :: "string \<Rightarrow> string \<Rightarrow> conv_item" where
  "demo_item i t = \<lparr>ci_id = i, ci_type = ''function_call_output'', ci_status = ''completed'', ci_response_id = ''r'',
     ci_created_at = 0, ci_data = FunctionCallOutputData ''c'' t, ci_created_by = None\<rparr>"

lemma search_returns_first_matches_witness:
  "search_items ''B'' (Some ''x'') 0 \<lparr>st_conversations = [], st_items = [(''x'', [demo_item ''1'' ''a'', demo_item ''2'' ''ab''])]\<rparr>
    = Some (take (nat (max 1 0)) (filter (\<lambda>it. str_contains (lower ''B'') (lower (the (search_text (ci_data it)))))
        [demo_item ''1'' ''a'', demo_item ''2'' ''ab'']))"
  by (rule search_returns_first_matches) (simp_all add: items_of_def demo_item_def)

text \<open>Creating a conversation under an existing id replaces it and discards its items.\<close>

lemma create_over_existing:
  assumes "create_conversation now fresh (Some i) kind title None agent st = Inr (c, st')"
  shows "items_of st' i = [] \<and> dget (st_conversations st') i = Some c"
  using assms by (auto simp: create_conversation_def resolve_root_id_def Let_def items_of_def dict_simps)

end
