(* ===== verification/Memory_Store.thy ===== *)
theory Memory_Store
  imports Apx_Prelude
begin

text \<open>
  Long-lived memories (\<open>_memory.py\<close>) and their consolidation (\<open>_memory_consolidate.py\<close>): tag and
  similarity helpers, the in-memory store, and the function that folds old memories into one.

  The embedding function, generated ids, time stamps and the ISO parser are parameters; embeddings
  are real vectors.  Rows that lack a required key raise \<open>KeyError\<close>.
\<close>

subsection \<open>Rows, filters, helpers\<close>

record memory =
  mem_id :: string
  mem_principal :: string
  mem_namespace :: string
  mem_content :: string
  mem_tags :: "string list"
  mem_importance :: pyfloat
  mem_embedding :: "pyfloat list option"
  mem_metadata :: "(string \<times> pyval) list"
  mem_created_at :: string
  mem_updated_at :: string

record recall_result =
  rr_memory :: memory
  rr_score :: pyfloat

record memory_filter =
  mf_principal :: string
  mf_namespace :: "string option"
  mf_tags :: "string list option"
  mf_min_importance :: "pyfloat option"
  mf_limit :: int

record recall_options =
  ro_principal :: string
  ro_query :: string
  ro_namespace :: "string option"
  ro_tags :: "string list option"
  ro_min_importance :: "pyfloat option"
  ro_k :: int

datatype row_error = KeyError string | NoEmbedding

fun dot_norms :: "pyfloat list \<Rightarrow> pyfloat list \<Rightarrow> pyfloat \<times> pyfloat \<times> pyfloat \<Rightarrow> pyfloat \<times> pyfloat \<times> pyfloat" where
  "dot_norms (x # xs) (y # ys) (d, na, nb) = dot_norms xs ys (d + x * y, na + x * x, nb + y * y)"
| "dot_norms _ _ acc = acc"

definition cosine_similarity :: "pyfloat list \<Rightarrow> pyfloat list \<Rightarrow> pyfloat" where
  "cosine_similarity a b =
     (if length a = 0 \<or> length a \<noteq> length b then 0
      else case dot_norms a b (0, 0, 0) of
             (d, na, nb) \<Rightarrow> if na = 0 \<or> nb = 0 then 0 else d / (sqrt na * sqrt nb))"

definition tags_overlap :: "string list \<Rightarrow> string list option \<Rightarrow> bool" where
  "tags_overlap tags flt = (case flt of None \<Rightarrow> True | Some fs \<Rightarrow> fs = [] \<or> (\<exists>t \<in> set fs. t \<in> set tags))"

text \<open>An input row: \<open>None\<close> for an absent key.\<close>

record memory_input =
  mi_id :: "string option"
  mi_principal :: "string option"
  mi_namespace :: "string option"
  mi_content :: "string option"
  mi_tags :: "string list option"
  mi_importance :: "pyfloat option"
  mi_metadata :: "(string \<times> pyval) list option"

definition or_str :: "string option \<Rightarrow> string \<Rightarrow> string" where
  "or_str x d = (case x of Some (c # cs) \<Rightarrow> c # cs | _ \<Rightarrow> d)"

definition materialize_memory ::
  "string \<Rightarrow> string \<Rightarrow> memory_input \<Rightarrow> pyfloat list option \<Rightarrow> row_error + memory" where
  "materialize_memory now fresh inp emb =
     (case mi_principal inp of
        None \<Rightarrow> Inl (KeyError ''principal_id'')
      | Some p \<Rightarrow>
          (case mi_content inp of
             None \<Rightarrow> Inl (KeyError ''content'')
           | Some c \<Rightarrow>
               Inr \<lparr>mem_id = or_str (mi_id inp) fresh, mem_principal = p,
                    mem_namespace = or_str (mi_namespace inp) ''default'', mem_content = c,
                    mem_tags = (case mi_tags inp of None \<Rightarrow> [] | Some ts \<Rightarrow> ts),
                    mem_importance = (case mi_importance inp of None \<Rightarrow> 1 / 2 | Some x \<Rightarrow> x),
                    mem_embedding = emb,
                    mem_metadata = (case mi_metadata inp of None \<Rightarrow> [] | Some m \<Rightarrow> m),
                    mem_created_at = now, mem_updated_at = now\<rparr>))"

record memory_patch =
  mp_namespace :: "string option"
  mp_content :: "string option"
  mp_tags :: "string list option"
  mp_importance :: "pyfloat option"
  mp_metadata :: "(string \<times> pyval) list option"

definition patched :: "'a option \<Rightarrow> 'a \<Rightarrow> 'a" where
  "patched p old = (case p of None \<Rightarrow> old | Some v \<Rightarrow> v)"

definition apply_patch :: "string \<Rightarrow> memory \<Rightarrow> memory_patch \<Rightarrow> memory" where
  "apply_patch now m p =
     m\<lparr>mem_namespace := patched (mp_namespace p) (mem_namespace m),
       mem_content := patched (mp_content p) (mem_content m),
       mem_tags := patched (mp_tags p) (mem_tags m),
       mem_importance := patched (mp_importance p) (mem_importance m),
       mem_metadata := patched (mp_metadata p) (mem_metadata m),
       mem_updated_at := now\<rparr>"

subsection \<open>Ranking\<close>

text \<open>
  The listing and the two rankings, shared with the example store: newest first up to a limit;
  the \<open>k\<close> first with a score falling linearly with the position; the \<open>k\<close> most similar to a query
  among the rows that have an embedding.
\<close>

definition newest_first :: "('r \<Rightarrow> bool) \<Rightarrow> ('r \<Rightarrow> string) \<Rightarrow> int \<Rightarrow> 'r list \<Rightarrow> 'r list" where
  "newest_first keep updated limit rows = py_take limit (sort_desc updated (filter keep rows))"

definition recency_ranked :: "int \<Rightarrow> 'r list \<Rightarrow> ('r \<times> pyfloat) list" where
  "recency_ranked k cands =
     (let n = max (length cands) 1
      in map (\<lambda>(i, r). (r, if cands = [] then 0 else 1 - real i / real n)) (enumerate 0 (py_take k cands)))"

definition similarity_ranked ::
  "('r \<Rightarrow> pyfloat list option) \<Rightarrow> pyfloat list \<Rightarrow> int \<Rightarrow> 'r list \<Rightarrow> ('r \<times> pyfloat) list" where
  "similarity_ranked embedding q k cands =
     py_take k (sort_desc snd
       (concat (map (\<lambda>r. case embedding r of
          None \<Rightarrow> [] | Some e \<Rightarrow> if e = [] then [] else [(r, cosine_similarity e q)]) cands)))"

type_synonym embedding_fn = "(string list \<Rightarrow> pyfloat list list) option"

definition embed_one :: "embedding_fn \<Rightarrow> string \<Rightarrow> row_error + pyfloat list option" where
  "embed_one emb_fn text =
     (case emb_fn of None \<Rightarrow> Inr None
      | Some f \<Rightarrow> (case f [text] of [] \<Rightarrow> Inl NoEmbedding | e # _ \<Rightarrow> Inr (Some e)))"

text \<open>
  Ranking the candidates for a query: by recency without an embedder or without candidates, by
  similarity otherwise.
\<close>

definition rank_rows ::
  "embedding_fn \<Rightarrow> ('r \<Rightarrow> pyfloat list option) \<Rightarrow> string \<Rightarrow> int \<Rightarrow> 'r list \<Rightarrow> row_error + ('r \<times> pyfloat) list" where
  "rank_rows emb_fn embedding query k cands =
     (if emb_fn = None \<or> cands = [] then Inr (recency_ranked k cands)
      else case embed_one emb_fn query of
             Inl e \<Rightarrow> Inl e
           | Inr None \<Rightarrow> Inr []
           | Inr (Some q) \<Rightarrow> Inr (similarity_ranked embedding q k cands))"

subsection \<open>The in-memory store\<close>

type_synonym memory_rows = "memory dict"

definition mem_add ::
  "embedding_fn \<Rightarrow> string \<Rightarrow> string \<Rightarrow> memory_input \<Rightarrow> memory_rows \<Rightarrow> row_error + memory \<times> memory_rows" where
  "mem_add emb_fn now fresh inp rows =
     (if emb_fn \<noteq> None \<and> mi_content inp = None then Inl (KeyError ''content'')
      else case embed_one emb_fn (case mi_content inp of Some c \<Rightarrow> c | None \<Rightarrow> []) of
             Inl e \<Rightarrow> Inl e
           | Inr emb \<Rightarrow>
               (case materialize_memory now fresh inp emb of
                  Inl e \<Rightarrow> Inl e
                | Inr m \<Rightarrow> Inr (m, dset (mem_id m) m rows)))"

fun materialize_all ::
  "string \<Rightarrow> (string \<times> memory_input) list \<Rightarrow> pyfloat list option list \<Rightarrow> row_error + memory list" where
  "materialize_all now ((fresh, inp) # inps) (e # es) =
     (case materialize_memory now fresh inp e of
        Inl err \<Rightarrow> Inl err
      | Inr m \<Rightarrow> (case materialize_all now inps es of Inl err \<Rightarrow> Inl err | Inr ms \<Rightarrow> Inr (m # ms)))"
| "materialize_all now _ _ = Inr []"

text \<open>All rows are built before the first is stored; surplus rows of a short embedding batch are
  dropped by \<open>zip\<close>.\<close>

definition mem_add_batch ::
  "embedding_fn \<Rightarrow> string \<Rightarrow> (string \<times> memory_input) list \<Rightarrow> memory_rows \<Rightarrow> row_error + memory list \<times> memory_rows" where
  "mem_add_batch emb_fn now inps rows =
     (if inps = [] then Inr ([], rows)
      else if emb_fn \<noteq> None \<and> (\<exists>(_, inp) \<in> set inps. mi_content inp = None) then Inl (KeyError ''content'')
      else let embs = (case emb_fn of
                 None \<Rightarrow> replicate (length inps) None
               | Some f \<Rightarrow> map Some (f (map (\<lambda>(_, inp). case mi_content inp of Some c \<Rightarrow> c | None \<Rightarrow> []) inps)))
           in case materialize_all now inps embs of
                Inl e \<Rightarrow> Inl e
              | Inr ms \<Rightarrow> Inr (ms, fold (\<lambda>m. dset (mem_id m) m) ms rows))"

definition mem_get :: "string \<Rightarrow> memory_rows \<Rightarrow> memory option" where
  "mem_get i rows = dget rows i"

definition mem_update ::
  "embedding_fn \<Rightarrow> string \<Rightarrow> string \<Rightarrow> memory_patch \<Rightarrow> memory_rows \<Rightarrow> row_error + memory option \<times> memory_rows" where
  "mem_update emb_fn now i p rows =
     (case dget rows i of
        None \<Rightarrow> Inr (None, rows)
      | Some m \<Rightarrow>
          (let u = apply_patch now m p
           in case (mp_content p, emb_fn) of
                (Some c, Some f) \<Rightarrow>
                  (case embed_one emb_fn c of
                     Inl e \<Rightarrow> Inl e
                   | Inr emb \<Rightarrow> (let u' = u\<lparr>mem_embedding := emb\<rparr> in Inr (Some u', dset i u' rows)))
              | _ \<Rightarrow> Inr (Some u, dset i u rows)))"

definition mem_delete :: "string \<Rightarrow> memory_rows \<Rightarrow> bool \<times> memory_rows" where
  "mem_delete i rows = (dget rows i \<noteq> None, ddel i rows)"

definition memory_matches :: "memory_filter \<Rightarrow> memory \<Rightarrow> bool" where
  "memory_matches f m \<longleftrightarrow>
     mem_principal m = mf_principal f
     \<and> (case mf_namespace f of None \<Rightarrow> True | Some n \<Rightarrow> mem_namespace m = n)
     \<and> tags_overlap (mem_tags m) (mf_tags f)
     \<and> (case mf_min_importance f of None \<Rightarrow> True | Some x \<Rightarrow> mem_importance m \<ge> x)"

definition mem_list :: "memory_filter \<Rightarrow> memory_rows \<Rightarrow> memory list" where
  "mem_list f rows = newest_first (memory_matches f) mem_updated_at (mf_limit f) (map snd rows)"

definition recall_filter :: "recall_options \<Rightarrow> memory_filter" where
  "recall_filter o' = \<lparr>mf_principal = ro_principal o', mf_namespace = ro_namespace o', mf_tags = ro_tags o',
     mf_min_importance = ro_min_importance o', mf_limit = 10000\<rparr>"

definition as_recall :: "memory \<times> pyfloat \<Rightarrow> recall_result" where
  "as_recall p = \<lparr>rr_memory = fst p, rr_score = snd p\<rparr>"

definition mem_recall :: "embedding_fn \<Rightarrow> recall_options \<Rightarrow> memory_rows \<Rightarrow> row_error + recall_result list" where
  "mem_recall emb_fn o' rows =
     (case rank_rows emb_fn mem_embedding (ro_query o') (ro_k o') (mem_list (recall_filter o') rows) of
        Inl e \<Rightarrow> Inl e
      | Inr ps \<Rightarrow> Inr (map as_recall ps))"

subsection \<open>Consolidation\<close>

record consolidate_result =
  cr_candidates :: nat
  cr_memory :: "memory option"
  cr_deleted :: "string list"

record consolidate_options =
  co_principal :: string
  co_namespace :: "string option"
  co_max_age :: "pyfloat option"
  co_min_importance :: "pyfloat option"
  co_keep_originals :: bool
  co_namespace_out :: string
  co_tags_out :: "string list"
  co_importance_out :: pyfloat
  co_min_memories :: int
  co_dry_run :: bool

definition consolidation_candidates ::
  "(memory_filter \<Rightarrow> 's \<Rightarrow> memory list) \<Rightarrow> (string \<Rightarrow> pyfloat option) \<Rightarrow> pyfloat \<Rightarrow> consolidate_options \<Rightarrow> 's \<Rightarrow> memory list" where
  "consolidation_candidates list_op parse_iso clock c s =
     (let raw = list_op \<lparr>mf_principal = co_principal c, mf_namespace = co_namespace c, mf_tags = None,
                        mf_min_importance = co_min_importance c, mf_limit = 10000\<rparr> s
      in case co_max_age c of
           None \<Rightarrow> raw
         | Some age \<Rightarrow> filter (\<lambda>m. case parse_iso (mem_updated_at m) of None \<Rightarrow> False | Some t \<Rightarrow> t < clock - age) raw)"

definition consolidated_input :: "consolidate_options \<Rightarrow> memory list \<Rightarrow> string \<Rightarrow> memory_input" where
  "consolidated_input c cands content =
     \<lparr>mi_id = None, mi_principal = Some (co_principal c), mi_namespace = Some (co_namespace_out c),
      mi_content = Some content, mi_tags = Some (co_tags_out c), mi_importance = Some (co_importance_out c),
      mi_metadata = Some [(''consolidated_from'', PList (map (\<lambda>m. PStr (mem_id m)) cands)),
                          (''count'', PInt (int (length cands)))]\<rparr>"

text \<open>The loop that deletes the originals and keeps the ids it hit.\<close>

fun delete_each :: "(string \<Rightarrow> 's \<Rightarrow> bool \<times> 's) \<Rightarrow> string list \<Rightarrow> 's \<Rightarrow> string list \<times> 's" where
  "delete_each delete_op [] s = ([], s)"
| "delete_each delete_op (i # is) s =
     (case delete_op i s of (hit, s') \<Rightarrow>
        (case delete_each delete_op is s' of (ds, s'') \<Rightarrow> (if hit then i # ds else ds, s'')))"

text \<open>
  The store is any backend, given by its three operations; \<open>now\<close> and \<open>fresh\<close> stamp the row that a
  dry run builds itself.
\<close>

definition consolidate_memories ::
  "(memory_filter \<Rightarrow> 's \<Rightarrow> memory list) \<Rightarrow> (memory_input \<Rightarrow> 's \<Rightarrow> row_error + memory \<times> 's) \<Rightarrow> (string \<Rightarrow> 's \<Rightarrow> bool \<times> 's)
    \<Rightarrow> (string \<Rightarrow> pyfloat option) \<Rightarrow> pyfloat \<Rightarrow> string \<Rightarrow> string \<Rightarrow> (memory list \<Rightarrow> string) \<Rightarrow> consolidate_options \<Rightarrow> 's
    \<Rightarrow> row_error + consolidate_result \<times> 's" where
  "consolidate_memories list_op add_op delete_op parse_iso clock now fresh summarize c s =
     (let cands = consolidation_candidates list_op parse_iso clock c s
      in if int (length cands) < co_min_memories c
         then Inr (\<lparr>cr_candidates = length cands, cr_memory = None, cr_deleted = []\<rparr>, s)
         else let inp = consolidated_input c cands (summarize cands)
              in if co_dry_run c
                 then (case materialize_memory now fresh inp None of
                         Inl e \<Rightarrow> Inl e
                       | Inr m \<Rightarrow> Inr (\<lparr>cr_candidates = length cands, cr_memory = Some m, cr_deleted = []\<rparr>, s))
                 else (case add_op inp s of
                         Inl e \<Rightarrow> Inl e
                       | Inr (m, s1) \<Rightarrow>
                           (let (ds, s2) = (if co_keep_originals c then ([], s1)
                                            else delete_each delete_op (map mem_id cands) s1)
                            in Inr (\<lparr>cr_candidates = length cands, cr_memory = Some m, cr_deleted = ds\<rparr>, s2))))"

subsection \<open>Similarity\<close>

lemma dot_norms_sum:
  "length xs = length ys \<Longrightarrow> dot_norms xs ys (d, na, nb) =
    (d + (\<Sum>(x, y) \<leftarrow> zip xs ys. x * y), na + (\<Sum>x \<leftarrow> xs. x * x), nb + (\<Sum>y \<leftarrow> ys. y * y))"
  by (induction xs ys arbitrary: d na nb rule: list_induct2) simp_all

lemma norm_nonneg: "0 \<le> (\<Sum>x \<leftarrow> xs. x * (x :: real))"
  by (intro sum_list_nonneg) auto

text \<open>Cauchy--Schwarz, by the discriminant of a square that is never negative.\<close>

lemma quadratic_sum:
  "length xs = length ys \<Longrightarrow>
    (\<Sum>(x, y) \<leftarrow> zip xs ys. (t * x - y) * (t * x - y)) =
    t * t * (\<Sum>x \<leftarrow> xs. x * x) - 2 * t * (\<Sum>(x, y) \<leftarrow> zip xs ys. x * y) + (\<Sum>y \<leftarrow> ys. y * (y :: real))"
  by (induction xs ys rule: list_induct2) (simp_all add: algebra_simps)

lemma cauchy_schwarz:
  assumes len: "length xs = length ys"
  shows "(\<Sum>(x, y) \<leftarrow> zip xs ys. x * y)\<^sup>2 \<le> (\<Sum>x \<leftarrow> xs. x * x) * (\<Sum>y \<leftarrow> ys. y * (y :: real))"
proof (cases "(\<Sum>x \<leftarrow> xs. x * x) = 0")
  case True
  then have "\<forall>x \<in> set xs. x * x = 0"
    by (subst (asm) sum_list_nonneg_eq_0_iff) auto
  then have "\<forall>x \<in> set xs. x = 0" by simp
  with len have "(\<Sum>(x, y) \<leftarrow> zip xs ys. x * y) = 0"
    by (induction xs ys rule: list_induct2) simp_all
  then show ?thesis using True by simp
next
  case False
  let ?a = "\<Sum>x \<leftarrow> xs. x * x" and ?b = "\<Sum>(x, y) \<leftarrow> zip xs ys. x * y" and ?c = "\<Sum>y \<leftarrow> ys. y * y"
  have pos: "0 < ?a" using False norm_nonneg [of xs] by simp
  have "0 \<le> (\<Sum>(x, y) \<leftarrow> zip xs ys. (?b / ?a * x - y) * (?b / ?a * x - y))"
    by (intro sum_list_nonneg) auto
  also have "\<dots> = ?b / ?a * (?b / ?a) * ?a - 2 * (?b / ?a) * ?b + ?c" by (rule quadratic_sum [OF len])
  also have "\<dots> = ?c - ?b * ?b / ?a" using pos by (simp add: field_simps)
  finally have "?b * ?b / ?a \<le> ?c" by simp
  then have "?b * ?b \<le> ?c * ?a" using pos by (simp add: divide_le_eq)
  then show ?thesis by (simp add: power2_eq_square mult.commute)
qed

lemma cosine_range: "\<bar>cosine_similarity a b\<bar> \<le> 1"
proof (cases "length a = 0 \<or> length a \<noteq> length b")
  case False
  then have len: "length a = length b" by simp
  let ?d = "\<Sum>(x, y) \<leftarrow> zip a b. x * y" and ?na = "\<Sum>x \<leftarrow> a. x * x" and ?nb = "\<Sum>y \<leftarrow> b. y * y"
  show ?thesis
  proof (cases "?na = 0 \<or> ?nb = 0")
    case True
    then show ?thesis using False dot_norms_sum [OF len, of 0 0 0] by (auto simp: cosine_similarity_def)
  next
    case nz: False
    then have pos: "0 < ?na" "0 < ?nb" using norm_nonneg [of a] norm_nonneg [of b] by simp_all
    have "\<bar>?d\<bar> = sqrt (?d\<^sup>2)" by simp
    also have "\<dots> \<le> sqrt (?na * ?nb)" using cauchy_schwarz [OF len] by (rule real_sqrt_le_mono)
    also have "\<dots> = sqrt ?na * sqrt ?nb" by (rule real_sqrt_mult)
    finally have "\<bar>?d\<bar> \<le> sqrt ?na * sqrt ?nb" .
    moreover have "0 < sqrt ?na * sqrt ?nb" using pos by simp
    ultimately have "\<bar>?d / (sqrt ?na * sqrt ?nb)\<bar> \<le> 1" by (simp add: abs_divide divide_le_eq)
    then show ?thesis using False nz dot_norms_sum [OF len, of 0 0 0] by (simp add: cosine_similarity_def)
  qed
qed (simp add: cosine_similarity_def)

lemma zip_commute_sum: "(\<Sum>(x, y) \<leftarrow> zip a b. x * y) = (\<Sum>(x, y) \<leftarrow> zip b a. x * (y :: real))"
  by (induction a b rule: list_induct2') (simp_all add: mult.commute)

lemma cosine_sym: "cosine_similarity a b = cosine_similarity b a"
proof (cases "length a = length b")
  case True
  then show ?thesis
    by (auto simp: cosine_similarity_def dot_norms_sum zip_commute_sum [of a b] mult.commute)
qed (auto simp: cosine_similarity_def)

subsection \<open>Rankings\<close>

lemma newest_first_spec:
  assumes "r \<in> set (newest_first keep updated limit rows)"
  shows "r \<in> set rows \<and> keep r"
  using assms set_py_take [of limit "sort_desc updated (filter keep rows)"] by (auto simp: newest_first_def)

lemma length_newest_first: "0 \<le> limit \<Longrightarrow> int (length (newest_first keep updated limit rows)) \<le> limit"
  by (simp add: newest_first_def length_py_take)

lemma newest_first_cut:
  assumes "0 \<le> limit" and "r \<in> set (newest_first keep updated limit rows)"
    and "q \<in> set rows" "keep q" "q \<notin> set (newest_first keep updated limit rows)"
  shows "updated q \<le> updated r"
proof -
  let ?s = "sort_desc updated (filter keep rows)"
  have "q \<in> set (drop (nat limit) ?s)"
  proof -
    have "q \<in> set (take (nat limit) ?s @ drop (nat limit) ?s)" using assms(3,4) by simp
    then show ?thesis using assms(1,5) unfolding set_append by (simp add: newest_first_def py_take_def)
  qed
  moreover have "r \<in> set (take (nat limit) ?s)" using assms(1,2) by (simp add: newest_first_def py_take_def)
  ultimately show ?thesis by (intro sorted_wrt_take_drop [OF sorted_sort_desc, where n = "nat limit"])
qed

lemma in_scored_row:
  "p \<in> set (case embedding r of None \<Rightarrow> [] | Some e \<Rightarrow> if e = [] then [] else [(r, g e)])
    \<longleftrightarrow> (\<exists>e. embedding r = Some e \<and> e \<noteq> [] \<and> p = (r, g e))"
  by (cases "embedding r") auto

lemma in_scored_rows:
  "p \<in> set (concat (map (\<lambda>r. case embedding r of None \<Rightarrow> [] | Some e \<Rightarrow> if e = [] then [] else [(r, g e)]) cands))
    \<longleftrightarrow> (\<exists>r \<in> set cands. \<exists>e. embedding r = Some e \<and> e \<noteq> [] \<and> p = (r, g e))"
  unfolding set_concat set_map Union_iff bex_simps in_scored_row ..

text \<open>Top-k: the result is sorted by score and nothing left out scores higher.\<close>

lemma similarity_ranked_spec:
  assumes "0 \<le> k"
  shows "int (length (similarity_ranked embedding q k cands)) \<le> k
    \<and> sorted_wrt (\<lambda>x y. snd y \<le> snd x) (similarity_ranked embedding q k cands)
    \<and> (\<forall>(r, sc) \<in> set (similarity_ranked embedding q k cands).
        r \<in> set cands \<and> (\<exists>e. embedding r = Some e \<and> e \<noteq> [] \<and> sc = cosine_similarity e q))
    \<and> (\<forall>r \<in> set cands. \<forall>e. embedding r = Some e \<longrightarrow> e \<noteq> [] \<longrightarrow>
        (r, cosine_similarity e q) \<in> set (similarity_ranked embedding q k cands)
        \<or> (\<forall>(r', sc) \<in> set (similarity_ranked embedding q k cands). cosine_similarity e q \<le> sc))"
proof -
  let ?pairs = "concat (map (\<lambda>r. case embedding r of
      None \<Rightarrow> [] | Some e \<Rightarrow> if e = [] then [] else [(r, cosine_similarity e q)]) cands)"
  let ?s = "sort_desc snd ?pairs"
  have res: "similarity_ranked embedding q k cands = take (nat k) ?s"
    using assms by (simp add: similarity_ranked_def py_take_def)
  have pairs: "p \<in> set ?s \<longleftrightarrow> (\<exists>r \<in> set cands. \<exists>e. embedding r = Some e \<and> e \<noteq> [] \<and> p = (r, cosine_similarity e q))" for p
    unfolding set_sort_desc by (rule in_scored_rows)
  have srt: "sorted_wrt (\<lambda>x y. snd y \<le> snd x) ?s" by (rule sorted_sort_desc)
  show ?thesis unfolding res
  proof (intro conjI ballI allI impI)
    show "int (length (take (nat k) ?s)) \<le> k" using assms by simp
    show "sorted_wrt (\<lambda>x y. snd y \<le> snd x) (take (nat k) ?s)" by (rule sorted_wrt_take [OF srt])
  next
    fix p assume "p \<in> set (take (nat k) ?s)"
    then have "p \<in> set ?s" by (rule in_set_takeD)
    then show "case p of (r, sc) \<Rightarrow> r \<in> set cands \<and> (\<exists>e. embedding r = Some e \<and> e \<noteq> [] \<and> sc = cosine_similarity e q)"
      unfolding pairs by auto
  next
    fix r e assume "r \<in> set cands" "embedding r = Some e" "e \<noteq> []"
    then have "(r, cosine_similarity e q) \<in> set ?s" unfolding pairs by blast
    then have "(r, cosine_similarity e q) \<in> set (take (nat k) ?s @ drop (nat k) ?s)" by simp
    then consider "(r, cosine_similarity e q) \<in> set (take (nat k) ?s)" | "(r, cosine_similarity e q) \<in> set (drop (nat k) ?s)"
      unfolding set_append by blast
    then show "(r, cosine_similarity e q) \<in> set (take (nat k) ?s)
        \<or> (\<forall>(r', sc) \<in> set (take (nat k) ?s). cosine_similarity e q \<le> sc)"
    proof cases
      case 2
      then show ?thesis using sorted_wrt_take_drop [OF srt _ 2] by fastforce
    qed simp
  qed
qed

subsection \<open>The backend contract\<close>

text \<open>
  What consolidation relies on from any memory backend.  \<open>ok\<close> is the backend's own invariant,
  \<open>rows\<close> its contents by id.
\<close>

locale memory_backend =
  fixes ok :: "'s \<Rightarrow> bool"
    and rows :: "'s \<Rightarrow> string \<Rightarrow> memory option"
    and list_op :: "memory_filter \<Rightarrow> 's \<Rightarrow> memory list"
    and add_op :: "memory_input \<Rightarrow> 's \<Rightarrow> row_error + memory \<times> 's"
    and delete_op :: "string \<Rightarrow> 's \<Rightarrow> bool \<times> 's"
  assumes list_stored: "ok s \<Longrightarrow> m \<in> set (list_op f s) \<Longrightarrow> rows s (mem_id m) = Some m \<and> mem_principal m = mf_principal f"
    and list_distinct: "ok s \<Longrightarrow> distinct (map mem_id (list_op f s))"
    and add_stores: "ok s \<Longrightarrow> add_op inp s = Inr (m, s') \<Longrightarrow>
      ok s' \<and> rows s' = (rows s)(mem_id m \<mapsto> m) \<and> mem_principal m = the (mi_principal inp)"
    and delete_removes: "ok s \<Longrightarrow> delete_op i s = (hit, s') \<Longrightarrow>
      ok s' \<and> rows s' = (rows s)(i := None) \<and> hit = (rows s i \<noteq> None)"
begin

lemma delete_each_spec:
  "ok s \<Longrightarrow> distinct is \<Longrightarrow> \<forall>i \<in> set is. rows s i \<noteq> None \<Longrightarrow> delete_each delete_op is s = (ds, s') \<Longrightarrow>
    ok s' \<and> ds = is \<and> rows s' = (\<lambda>j. if j \<in> set is then None else rows s j)"
proof (induction "is" arbitrary: s ds)
  case (Cons i "is")
  obtain hit s1 where d: "delete_op i s = (hit, s1)" by (cases "delete_op i s")
  from delete_removes [OF Cons.prems(1) d] have s1: "ok s1" "rows s1 = (rows s)(i := None)" and hit: "hit = (rows s i \<noteq> None)"
    by auto
  obtain ds' where rest: "delete_each delete_op is s1 = (ds', s')" and ds: "ds = (if hit then i # ds' else ds')"
    using Cons.prems(4) d by (auto split: prod.splits)
  have "\<forall>j \<in> set is. rows s1 j \<noteq> None" using Cons.prems(2,3) s1(2) by auto
  from Cons.IH [OF s1(1) _ this rest] Cons.prems(2,3) s1(2) hit ds show ?case by (auto simp: fun_eq_iff)
qed simp

lemma candidates_stored:
  assumes "ok s" and "m \<in> set (consolidation_candidates list_op parse clock c s)"
  shows "rows s (mem_id m) = Some m \<and> mem_principal m = co_principal c"
proof -
  have "m \<in> set (list_op \<lparr>mf_principal = co_principal c, mf_namespace = co_namespace c, mf_tags = None,
      mf_min_importance = co_min_importance c, mf_limit = 10000\<rparr> s)"
    using assms(2) by (auto simp: consolidation_candidates_def Let_def split: option.splits)
  from list_stored [OF assms(1) this] show ?thesis by simp
qed

lemma candidates_distinct:
  "ok s \<Longrightarrow> distinct (map mem_id (consolidation_candidates list_op parse clock c s))"
  using list_distinct by (auto simp: consolidation_candidates_def Let_def distinct_map_filter split: option.splits)

lemma consolidate_replaces:
  assumes ok: "ok s"
    and enough: "\<not> int (length (consolidation_candidates list_op parse clock c s)) < co_min_memories c"
    and mode: "\<not> co_dry_run c" "\<not> co_keep_originals c"
    and run: "consolidate_memories list_op add_op delete_op parse clock now fresh summarize c s = Inr (res, s')"
    and new: "\<forall>m s1. add_op (consolidated_input c (consolidation_candidates list_op parse clock c s)
        (summarize (consolidation_candidates list_op parse clock c s))) s = Inr (m, s1) \<longrightarrow> rows s (mem_id m) = None"
  shows "ok s' \<and> cr_deleted res = map mem_id (consolidation_candidates list_op parse clock c s)
    \<and> (\<exists>m. cr_memory res = Some m \<and> mem_principal m = co_principal c
        \<and> rows s' = (\<lambda>i. if i = mem_id m then Some m
            else if i \<in> mem_id ` set (consolidation_candidates list_op parse clock c s) then None else rows s i))"
proof -
  let ?c = "consolidation_candidates list_op parse clock c s"
  obtain m s1 where add: "add_op (consolidated_input c ?c (summarize ?c)) s = Inr (m, s1)"
    using run enough mode by (auto simp: consolidate_memories_def Let_def split: sum.splits)
  obtain ds where del: "delete_each delete_op (map mem_id ?c) s1 = (ds, s')"
    and res: "res = \<lparr>cr_candidates = length ?c, cr_memory = Some m, cr_deleted = ds\<rparr>"
    using run enough mode add by (auto simp: consolidate_memories_def Let_def split: prod.splits)
  from add_stores [OF ok add] have s1: "ok s1" "rows s1 = (rows s)(mem_id m \<mapsto> m)"
    and p: "mem_principal m = co_principal c" by (auto simp: consolidated_input_def)
  have fresh: "rows s (mem_id m) = None" using new add by blast
  have stored: "\<forall>i \<in> set (map mem_id ?c). rows s i \<noteq> None" using candidates_stored [OF ok] by auto
  with fresh have notin: "mem_id m \<notin> set (map mem_id ?c)" by blast
  have "\<forall>i \<in> set (map mem_id ?c). rows s1 i \<noteq> None" using stored s1(2) by auto
  from delete_each_spec [OF s1(1) candidates_distinct [OF ok] this del] s1(2) res p notin
  show ?thesis by (auto simp: fun_eq_iff)
qed

end

definition memory_rows_ok :: "memory_rows \<Rightarrow> bool" where
  "memory_rows_ok rows \<longleftrightarrow> dict_wf rows \<and> (\<forall>(i, m) \<in> set rows. mem_id m = i)"

lemma memory_rows_ok_dset: "memory_rows_ok rows \<Longrightarrow> mem_id m = i \<Longrightarrow> memory_rows_ok (dset i m rows)"
  by (auto simp: memory_rows_ok_def set_dset)

lemma memory_rows_ok_ids: "memory_rows_ok rows \<Longrightarrow> map (mem_id \<circ> snd) rows = map fst rows"
  by (auto simp: memory_rows_ok_def)

lemma mem_add_Inr:
  assumes "mem_add emb_fn now fresh inp rows = Inr (m, rows')"
  shows "rows' = dset (mem_id m) m rows \<and> mi_principal inp = Some (mem_principal m) \<and> mem_id m = or_str (mi_id inp) fresh"
  using assms by (auto simp: mem_add_def materialize_memory_def split: if_splits sum.splits option.splits)

interpretation mem_backend: memory_backend memory_rows_ok "\<lambda>rows i. mem_get i rows" mem_list "mem_add emb_fn now fresh" mem_delete
  for emb_fn now fresh
proof (unfold_locales, goal_cases)
  case (1 s m f)
  from 1(2) have "m \<in> set (map snd s)" "memory_matches f m"
    by (auto simp: mem_list_def dest: newest_first_spec)
  then obtain i where "(i, m) \<in> set s" and p: "mem_principal m = mf_principal f"
    by (auto simp: memory_matches_def)
  with 1(1) have "mem_id m = i" "dget s i = Some m" by (auto simp: memory_rows_ok_def dget_in_set_iff)
  with p show ?case by (simp add: mem_get_def)
next
  case (2 s f)
  have "distinct (map mem_id (map snd s))"
    unfolding map_map memory_rows_ok_ids [OF 2] using 2 by (simp add: memory_rows_ok_def dict_wf_def)
  then have "distinct (map mem_id (sort_desc mem_updated_at (filter (memory_matches f) (map snd s))))"
    unfolding distinct_sort_desc by (rule distinct_map_filter)
  then show ?case
    by (auto simp: mem_list_def newest_first_def py_take_def take_map [symmetric] distinct_take)
next
  case (3 s inp m s')
  then show ?case using mem_add_Inr [OF 3(2)] memory_rows_ok_dset [OF 3(1), of m "mem_id m"]
    by (auto simp: mem_get_def dict_simps fun_eq_iff)
next
  case (4 s i hit s')
  then show ?case
    by (auto simp: mem_delete_def mem_get_def memory_rows_ok_def set_ddel dict_simps fun_eq_iff)
qed

lemma mem_list_spec:
  assumes "memory_rows_ok rows" and "m \<in> set (mem_list f rows)"
  shows "mem_get (mem_id m) rows = Some m \<and> memory_matches f m"
  using mem_backend.list_stored [OF assms] assms(2) by (auto simp: mem_list_def dest: newest_first_spec)

lemma recency_ranked_spec:
  assumes "0 \<le> k"
  shows "int (length (recency_ranked k cands)) \<le> k \<and> sorted_wrt (\<lambda>x y. snd y \<le> snd x) (recency_ranked k cands)
    \<and> (\<forall>p \<in> set (recency_ranked k cands). fst p \<in> set cands)"
proof (intro conjI)
  let ?xs = "py_take k cands" and ?n = "max (length cands) 1"
  let ?g = "\<lambda>(i, r). (r, if cands = [] then 0 else 1 - real i / real ?n)"
  have eq: "recency_ranked k cands = map ?g (enumerate 0 ?xs)" by (simp only: recency_ranked_def Let_def)
  show "int (length (recency_ranked k cands)) \<le> k" using assms by (simp add: eq length_py_take)
  have "snd (?g (j, b)) \<le> snd (?g (i, a))" if "i < j" for i j a b
    using that by (auto simp: divide_right_mono)
  then show "sorted_wrt (\<lambda>x y. snd y \<le> snd x) (recency_ranked k cands)"
    unfolding eq sorted_wrt_iff_nth_less by (auto simp: nth_enumerate_eq)
  show "\<forall>p \<in> set (recency_ranked k cands). fst p \<in> set cands"
    unfolding eq using set_py_take [of k cands] by (auto simp: in_set_enumerate_eq)
qed

lemma rank_rows_spec:
  assumes "0 \<le> k" and "rank_rows emb_fn embedding query k cands = Inr ps"
  shows "int (length ps) \<le> k" and "sorted_wrt (\<lambda>x y. snd y \<le> snd x) ps" and "\<forall>p \<in> set ps. fst p \<in> set cands"
    and "emb_fn = Some f \<Longrightarrow> f [query] = q # qs \<Longrightarrow> r \<in> set cands \<Longrightarrow> embedding r = Some e \<Longrightarrow> e \<noteq> [] \<Longrightarrow>
      r \<in> fst ` set ps \<or> (\<forall>p \<in> set ps. cosine_similarity e q \<le> snd p)"
proof -
  consider (recency) "ps = recency_ranked k cands" "emb_fn = None \<or> cands = []"
    | (similar) v where "embed_one emb_fn query = Inr (Some v)" "ps = similarity_ranked embedding v k cands"
    using assms(2) by (auto simp: rank_rows_def embed_one_def split: if_splits list.splits option.splits)
  then have "int (length ps) \<le> k \<and> sorted_wrt (\<lambda>x y. snd y \<le> snd x) ps \<and> (\<forall>p \<in> set ps. fst p \<in> set cands)
    \<and> (emb_fn = Some f \<longrightarrow> f [query] = q # qs \<longrightarrow> r \<in> set cands \<longrightarrow> embedding r = Some e \<longrightarrow> e \<noteq> [] \<longrightarrow>
        r \<in> fst ` set ps \<or> (\<forall>p \<in> set ps. cosine_similarity e q \<le> snd p))"
  proof cases
    case recency
    then show ?thesis using recency_ranked_spec [OF assms(1), of cands] by auto
  next
    case similar
    have "emb_fn = Some f \<Longrightarrow> f [query] = q # qs \<Longrightarrow> v = q" using similar(1) by (simp add: embed_one_def)
    moreover note sp = similarity_ranked_spec [OF assms(1), of embedding v cands, folded similar(2)]
    have "r \<in> set cands \<Longrightarrow> embedding r = Some e \<Longrightarrow> e \<noteq> [] \<Longrightarrow>
        r \<in> fst ` set ps \<or> (\<forall>p \<in> set ps. cosine_similarity e v \<le> snd p)"
    proof -
      assume "r \<in> set cands" "embedding r = Some e" "e \<noteq> []"
      with sp have "(r, cosine_similarity e v) \<in> set ps \<or> (\<forall>(r', sc) \<in> set ps. cosine_similarity e v \<le> sc)" by blast
      then show ?thesis by (auto intro: rev_image_eqI)
    qed
    moreover have "\<forall>p \<in> set ps. fst p \<in> set cands" using sp by auto
    ultimately show ?thesis using sp by blast
  qed
  then show "int (length ps) \<le> k" "sorted_wrt (\<lambda>x y. snd y \<le> snd x) ps" "\<forall>p \<in> set ps. fst p \<in> set cands"
    "emb_fn = Some f \<Longrightarrow> f [query] = q # qs \<Longrightarrow> r \<in> set cands \<Longrightarrow> embedding r = Some e \<Longrightarrow> e \<noteq> [] \<Longrightarrow>
      r \<in> fst ` set ps \<or> (\<forall>p \<in> set ps. cosine_similarity e q \<le> snd p)" by auto
qed

subsection \<open>Properties\<close>

text \<open>
  Recall is isolated and top-k: it returns at most \<open>k\<close> stored rows of the requested principal
  that pass every filter, best score first; and with an embedder, a candidate row that is not
  returned is not more similar to the query than any row that is.
\<close>

theorem recall_isolated_top_k:
  assumes "memory_rows_ok rows" and "0 \<le> ro_k o'" and "mem_recall emb_fn o' rows = Inr rs"
  shows "int (length rs) \<le> ro_k o' \<and> sorted_wrt (\<lambda>x y. rr_score y \<le> rr_score x) rs
    \<and> (\<forall>r \<in> set rs. mem_get (mem_id (rr_memory r)) rows = Some (rr_memory r)
        \<and> mem_principal (rr_memory r) = ro_principal o' \<and> memory_matches (recall_filter o') (rr_memory r))
    \<and> (\<forall>f q qs. emb_fn = Some f \<longrightarrow> f [ro_query o'] = q # qs \<longrightarrow>
        (\<forall>m \<in> set (mem_list (recall_filter o') rows). \<forall>e. mem_embedding m = Some e \<longrightarrow> e \<noteq> [] \<longrightarrow>
          m \<in> rr_memory ` set rs \<or> (\<forall>r \<in> set rs. cosine_similarity e q \<le> rr_score r)))"
proof -
  let ?c = "mem_list (recall_filter o') rows"
  obtain ps where ps: "rank_rows emb_fn mem_embedding (ro_query o') (ro_k o') ?c = Inr ps" and rs: "rs = map as_recall ps"
    using assms(3) by (auto simp: mem_recall_def split: sum.splits)
  note sp = rank_rows_spec [OF assms(2) ps]
  have "mem_get (mem_id m) rows = Some m \<and> mem_principal m = ro_principal o' \<and> memory_matches (recall_filter o') m"
    if "m \<in> set ?c" for m
    using mem_list_spec [OF assms(1) that] by (simp add: memory_matches_def recall_filter_def)
  then have "\<forall>r \<in> set rs. mem_get (mem_id (rr_memory r)) rows = Some (rr_memory r)
      \<and> mem_principal (rr_memory r) = ro_principal o' \<and> memory_matches (recall_filter o') (rr_memory r)"
    using sp(3) by (simp add: rs as_recall_def)
  moreover have "m \<in> rr_memory ` set rs \<or> (\<forall>r \<in> set rs. cosine_similarity e q \<le> rr_score r)"
    if "emb_fn = Some f" "f [ro_query o'] = q # qs" "m \<in> set ?c" "mem_embedding m = Some e" "e \<noteq> []" for f q qs m e
    using sp(4) [of f q qs m e, OF that] by (simp add: rs as_recall_def image_image)
  ultimately show ?thesis using sp(1,2) by (auto simp: rs sorted_wrt_map as_recall_def)
qed

definition demo_memory :: "string \<Rightarrow> string \<Rightarrow> pyfloat list \<Rightarrow> memory" where
  "demo_memory i p e = \<lparr>mem_id = i, mem_principal = p, mem_namespace = ''default'', mem_content = ''c'', mem_tags = [],
     mem_importance = 1, mem_embedding = Some e, mem_metadata = [], mem_created_at = ''t'', mem_updated_at = ''t''\<rparr>"

definition demo_rows :: memory_rows where
  "demo_rows = [(''a'', demo_memory ''a'' ''u'' [1, 0]), (''b'', demo_memory ''b'' ''u'' [0, 1]), (''c'', demo_memory ''c'' ''v'' [1, 0])]"

lemma recall_isolated_top_k_witness:
  "list_all (\<lambda>r. mem_principal (rr_memory r) = ''u'')
     (projr (mem_recall None \<lparr>ro_principal = ''u'', ro_query = ''q'', ro_namespace = None, ro_tags = None,
       ro_min_importance = None, ro_k = 1\<rparr> demo_rows))"
proof -
  let ?o = "\<lparr>ro_principal = ''u'', ro_query = ''q'', ro_namespace = None, ro_tags = None, ro_min_importance = None, ro_k = 1\<rparr>"
  have "memory_rows_ok demo_rows" by (simp add: demo_rows_def memory_rows_ok_def dict_wf_def demo_memory_def)
  moreover have "mem_recall None ?o demo_rows = Inr (projr (mem_recall None ?o demo_rows))"
    by (simp add: mem_recall_def rank_rows_def)
  ultimately show ?thesis using recall_isolated_top_k [of demo_rows ?o None] by (simp add: list_all_iff)
qed

text \<open>
  Consolidation loses nothing but what it summarised: when it runs for real and its new row gets
  a fresh id, exactly the candidate rows are deleted and reported, the summary row of the same
  principal is stored, and every other row, of this or any other principal, is untouched.
\<close>

theorem consolidation_replaces_candidates:
  assumes "memory_rows_ok rows"
    and "cands = consolidation_candidates mem_list parse clock c rows" and "co_min_memories c \<le> int (length cands)"
    and "\<not> co_dry_run c" "\<not> co_keep_originals c" and "fresh \<noteq> []" and "dget rows fresh = None"
    and "consolidate_memories mem_list (mem_add emb_fn now fresh) mem_delete parse clock now' fresh' summarize c rows
      = Inr (res, rows')"
  shows "cr_deleted res = map mem_id cands
    \<and> (\<exists>m. cr_memory res = Some m \<and> mem_principal m = co_principal c
        \<and> (\<forall>i. mem_get i rows' = (if i = mem_id m then Some m
            else if i \<in> mem_id ` set cands then None else mem_get i rows)))"
proof -
  have "\<forall>m s1. mem_add emb_fn now fresh (consolidated_input c cands (summarize cands)) rows = Inr (m, s1)
      \<longrightarrow> mem_get (mem_id m) rows = None"
    using assms(6,7) mem_add_Inr by (auto simp: consolidated_input_def mem_get_def or_str_def split: list.splits)
  with mem_backend.consolidate_replaces [OF assms(1) _ assms(4,5,8)] assms(2,3) show ?thesis
    by (auto simp: fun_eq_iff)
qed

definition demo_consolidation :: consolidate_options where
  "demo_consolidation = \<lparr>co_principal = ''u'', co_namespace = None, co_max_age = None, co_min_importance = None,
     co_keep_originals = False, co_namespace_out = ''consolidated'', co_tags_out = [], co_importance_out = 7 / 10,
     co_min_memories = 2, co_dry_run = False\<rparr>"

lemma consolidation_replaces_candidates_witness:
  "cr_deleted (fst (projr (consolidate_memories mem_list (mem_add None ''t1'' ''new'') mem_delete (\<lambda>_. None) 0 ''t1'' ''x''
      (\<lambda>_. ''summary'') demo_consolidation demo_rows)))
    = map mem_id (consolidation_candidates mem_list (\<lambda>_. None) 0 demo_consolidation demo_rows)"
proof (rule consolidation_replaces_candidates [THEN conjunct1])
  let ?run = "consolidate_memories mem_list (mem_add None ''t1'' ''new'') mem_delete (\<lambda>_. None) 0 ''t1'' ''x''
      (\<lambda>_. ''summary'') demo_consolidation demo_rows"
  show "memory_rows_ok demo_rows" by (simp add: demo_rows_def memory_rows_ok_def dict_wf_def demo_memory_def)
  have c: "consolidation_candidates mem_list (\<lambda>_. None) 0 demo_consolidation demo_rows
      = [demo_memory ''a'' ''u'' [1, 0], demo_memory ''b'' ''u'' [0, 1]]"
    by (simp add: consolidation_candidates_def demo_consolidation_def mem_list_def newest_first_def py_take_def
        sort_desc_def memory_matches_def tags_overlap_def demo_rows_def demo_memory_def)
  then show "co_min_memories demo_consolidation
      \<le> int (length (consolidation_candidates mem_list (\<lambda>_. None) 0 demo_consolidation demo_rows))"
    by (simp add: demo_consolidation_def)
  have "\<exists>p. ?run = Inr p"
    unfolding consolidate_memories_def Let_def c
    by (simp add: demo_consolidation_def consolidated_input_def mem_add_def embed_one_def materialize_memory_def
        split: prod.splits)
  then show "?run = Inr (fst (projr ?run), snd (projr ?run))" by auto
qed (simp_all add: demo_consolidation_def demo_rows_def)

text \<open>
  Cosine similarity is a symmetric score between -1 and 1 (negative scores included), and 1 for
  a vector that is not all zeros with itself.
\<close>

theorem cosine_similarity_bounds:
  "\<bar>cosine_similarity a b\<bar> \<le> 1 \<and> cosine_similarity a b = cosine_similarity b a
    \<and> cosine_similarity a a = (if set a \<subseteq> {0} then 0 else 1)"
proof (intro conjI cosine_range cosine_sym)
  have z: "(\<Sum>x \<leftarrow> a. x * x) = 0 \<longleftrightarrow> set a \<subseteq> {0}"
    by (subst sum_list_nonneg_eq_0_iff) auto
  have d: "(\<Sum>(x, y) \<leftarrow> zip a a. x * y) = (\<Sum>x \<leftarrow> a. x * x)" by (induction a) auto
  have "sqrt s * sqrt s = s" if "0 \<le> s" for s :: real using that by simp
  then show "cosine_similarity a a = (if set a \<subseteq> {0} then 0 else 1)"
    using z norm_nonneg [of a] by (auto simp: cosine_similarity_def dot_norms_sum d)
qed

lemma cosine_negative: "cosine_similarity [1] [-1] = -1"
  by (simp add: cosine_similarity_def)

end
