(* ===== verification/Example_Store.thy ===== *)
theory Example_Store
  imports Memory_Store
begin

text \<open>
  Few-shot examples (\<open>_example.py\<close>): the in-memory store, ranked like the memory store of
  \<open>Memory_Store\<close>, with an optional quality score per row.
\<close>

subsection \<open>Rows\<close>

record few_shot =
  ex_id :: string
  ex_agent :: string
  ex_intent :: string
  ex_input :: string
  ex_output :: string
  ex_score :: "pyfloat option"
  ex_tags :: "string list"
  ex_embedding :: "pyfloat list option"
  ex_metadata :: "(string \<times> pyval) list"
  ex_created_at :: string
  ex_updated_at :: string

record example_result =
  er_example :: few_shot
  er_score :: pyfloat

record example_filter =
  ef_agent :: string
  ef_intent :: "string option"
  ef_tags :: "string list option"
  ef_min_score :: "pyfloat option"
  ef_limit :: int

record find_options =
  fo_agent :: string
  fo_query :: string
  fo_intent :: "string option"
  fo_tags :: "string list option"
  fo_min_score :: "pyfloat option"
  fo_k :: int

record example_input =
  ei_id :: "string option"
  ei_agent :: "string option"
  ei_intent :: "string option"
  ei_input :: "string option"
  ei_output :: "string option"
  ei_score :: "pyfloat option"
  ei_tags :: "string list option"
  ei_metadata :: "(string \<times> pyval) list option"

definition materialize_example ::
  "string \<Rightarrow> string \<Rightarrow> example_input \<Rightarrow> pyfloat list option \<Rightarrow> row_error + few_shot" where
  "materialize_example now fresh inp emb =
     (case ei_agent inp of
        None \<Rightarrow> Inl (KeyError ''agent_id'')
      | Some a \<Rightarrow>
          (case ei_input inp of
             None \<Rightarrow> Inl (KeyError ''input'')
           | Some i \<Rightarrow>
               (case ei_output inp of
                  None \<Rightarrow> Inl (KeyError ''output'')
                | Some out \<Rightarrow>
                    Inr \<lparr>ex_id = or_str (ei_id inp) fresh, ex_agent = a, ex_intent = or_str (ei_intent inp) ''default'',
                         ex_input = i, ex_output = out, ex_score = ei_score inp,
                         ex_tags = (case ei_tags inp of None \<Rightarrow> [] | Some ts \<Rightarrow> ts), ex_embedding = emb,
                         ex_metadata = (case ei_metadata inp of None \<Rightarrow> [] | Some m \<Rightarrow> m),
                         ex_created_at = now, ex_updated_at = now\<rparr>)))"

text \<open>A patch may set the score to \<open>None\<close>, which differs from leaving it alone.\<close>

record example_patch =
  ep_intent :: "string option"
  ep_input :: "string option"
  ep_output :: "string option"
  ep_score :: "pyfloat option option"
  ep_tags :: "string list option"
  ep_metadata :: "(string \<times> pyval) list option"

definition apply_example_patch :: "string \<Rightarrow> few_shot \<Rightarrow> example_patch \<Rightarrow> few_shot" where
  "apply_example_patch now e p =
     e\<lparr>ex_intent := patched (ep_intent p) (ex_intent e),
       ex_input := patched (ep_input p) (ex_input e),
       ex_output := patched (ep_output p) (ex_output e),
       ex_score := patched (ep_score p) (ex_score e),
       ex_tags := patched (ep_tags p) (ex_tags e),
       ex_metadata := patched (ep_metadata p) (ex_metadata e),
       ex_updated_at := now\<rparr>"

subsection \<open>The in-memory store\<close>

type_synonym example_rows = "few_shot dict"

definition ex_add ::
  "embedding_fn \<Rightarrow> string \<Rightarrow> string \<Rightarrow> example_input \<Rightarrow> example_rows \<Rightarrow> row_error + few_shot \<times> example_rows" where
  "ex_add emb_fn now fresh inp rows =
     (if emb_fn \<noteq> None \<and> ei_input inp = None then Inl (KeyError ''input'')
      else case embed_one emb_fn (case ei_input inp of Some c \<Rightarrow> c | None \<Rightarrow> []) of
             Inl e \<Rightarrow> Inl e
           | Inr emb \<Rightarrow>
               (case materialize_example now fresh inp emb of
                  Inl e \<Rightarrow> Inl e
                | Inr x \<Rightarrow> Inr (x, dset (ex_id x) x rows)))"

fun materialize_examples ::
  "string \<Rightarrow> (string \<times> example_input) list \<Rightarrow> pyfloat list option list \<Rightarrow> row_error + few_shot list" where
  "materialize_examples now ((fresh, inp) # inps) (e # es) =
     (case materialize_example now fresh inp e of
        Inl err \<Rightarrow> Inl err
      | Inr m \<Rightarrow> (case materialize_examples now inps es of Inl err \<Rightarrow> Inl err | Inr ms \<Rightarrow> Inr (m # ms)))"
| "materialize_examples now _ _ = Inr []"

definition ex_add_batch ::
  "embedding_fn \<Rightarrow> string \<Rightarrow> (string \<times> example_input) list \<Rightarrow> example_rows \<Rightarrow> row_error + few_shot list \<times> example_rows" where
  "ex_add_batch emb_fn now inps rows =
     (if inps = [] then Inr ([], rows)
      else if emb_fn \<noteq> None \<and> (\<exists>(_, inp) \<in> set inps. ei_input inp = None) then Inl (KeyError ''input'')
      else let embs = (case emb_fn of
                 None \<Rightarrow> replicate (length inps) None
               | Some f \<Rightarrow> map Some (f (map (\<lambda>(_, inp). case ei_input inp of Some c \<Rightarrow> c | None \<Rightarrow> []) inps)))
           in case materialize_examples now inps embs of
                Inl e \<Rightarrow> Inl e
              | Inr ms \<Rightarrow> Inr (ms, fold (\<lambda>m. dset (ex_id m) m) ms rows))"

definition ex_get :: "string \<Rightarrow> example_rows \<Rightarrow> few_shot option" where
  "ex_get i rows = dget rows i"

definition ex_update ::
  "embedding_fn \<Rightarrow> string \<Rightarrow> string \<Rightarrow> example_patch \<Rightarrow> example_rows \<Rightarrow> row_error + few_shot option \<times> example_rows" where
  "ex_update emb_fn now i p rows =
     (case dget rows i of
        None \<Rightarrow> Inr (None, rows)
      | Some m \<Rightarrow>
          (let u = apply_example_patch now m p
           in case (ep_input p, emb_fn) of
                (Some c, Some f) \<Rightarrow>
                  (case embed_one emb_fn c of
                     Inl e \<Rightarrow> Inl e
                   | Inr emb \<Rightarrow> (let u' = u\<lparr>ex_embedding := emb\<rparr> in Inr (Some u', dset i u' rows)))
              | _ \<Rightarrow> Inr (Some u, dset i u rows)))"

definition ex_delete :: "string \<Rightarrow> example_rows \<Rightarrow> bool \<times> example_rows" where
  "ex_delete i rows = (dget rows i \<noteq> None, ddel i rows)"

definition example_matches :: "example_filter \<Rightarrow> few_shot \<Rightarrow> bool" where
  "example_matches f e \<longleftrightarrow>
     ex_agent e = ef_agent f
     \<and> (case ef_intent f of None \<Rightarrow> True | Some n \<Rightarrow> ex_intent e = n)
     \<and> tags_overlap (ex_tags e) (ef_tags f)
     \<and> (case ef_min_score f of None \<Rightarrow> True
        | Some x \<Rightarrow> (case ex_score e of None \<Rightarrow> False | Some sc \<Rightarrow> sc \<ge> x))"

definition ex_list :: "example_filter \<Rightarrow> example_rows \<Rightarrow> few_shot list" where
  "ex_list f rows = newest_first (example_matches f) ex_updated_at (ef_limit f) (map snd rows)"

definition find_filter :: "find_options \<Rightarrow> example_filter" where
  "find_filter o' = \<lparr>ef_agent = fo_agent o', ef_intent = fo_intent o', ef_tags = fo_tags o',
     ef_min_score = fo_min_score o', ef_limit = 10000\<rparr>"

definition as_example_result :: "few_shot \<times> pyfloat \<Rightarrow> example_result" where
  "as_example_result p = \<lparr>er_example = fst p, er_score = snd p\<rparr>"

definition find_similar :: "embedding_fn \<Rightarrow> find_options \<Rightarrow> example_rows \<Rightarrow> row_error + example_result list" where
  "find_similar emb_fn o' rows =
     (case rank_rows emb_fn ex_embedding (fo_query o') (fo_k o') (ex_list (find_filter o') rows) of
        Inl e \<Rightarrow> Inl e
      | Inr ps \<Rightarrow> Inr (map as_example_result ps))"

subsection \<open>The store invariant\<close>

text \<open>
  With an embedder that returns one nonempty vector per text, every row is stored under its id and
  embedded by its own current input.
\<close>

definition embeds :: "embedding_fn \<Rightarrow> few_shot \<Rightarrow> bool" where
  "embeds emb_fn e \<longleftrightarrow> (case emb_fn of None \<Rightarrow> True
     | Some f \<Rightarrow> (\<exists>v vs. f [ex_input e] = v # vs \<and> ex_embedding e = Some v))"

definition example_rows_ok :: "embedding_fn \<Rightarrow> example_rows \<Rightarrow> bool" where
  "example_rows_ok emb_fn rows \<longleftrightarrow> dict_wf rows \<and> (\<forall>(i, e) \<in> set rows. ex_id e = i \<and> embeds emb_fn e)"

datatype example_op =
    ExAdd string string example_input
  | ExUpdate string string example_patch
  | ExDelete string

fun example_step :: "embedding_fn \<Rightarrow> example_op \<Rightarrow> example_rows \<Rightarrow> example_rows" where
  "example_step emb_fn (ExAdd now fresh inp) rows =
     (case ex_add emb_fn now fresh inp rows of Inl _ \<Rightarrow> rows | Inr (_, rows') \<Rightarrow> rows')"
| "example_step emb_fn (ExUpdate now i p) rows =
     (case ex_update emb_fn now i p rows of Inl _ \<Rightarrow> rows | Inr (_, rows') \<Rightarrow> rows')"
| "example_step emb_fn (ExDelete i) rows = snd (ex_delete i rows)"

lemma example_rows_ok_dset:
  "example_rows_ok emb_fn rows \<Longrightarrow> ex_id e = i \<Longrightarrow> embeds emb_fn e \<Longrightarrow> example_rows_ok emb_fn (dset i e rows)"
  by (auto simp: example_rows_ok_def set_dset)

lemma example_rows_ok_get:
  "example_rows_ok emb_fn rows \<Longrightarrow> dget rows i = Some e \<Longrightarrow> ex_id e = i \<and> embeds emb_fn e"
  by (auto simp: example_rows_ok_def dest!: dget_Some_in_set)

lemma ex_add_embeds:
  "ex_add emb_fn now fresh inp rows = Inr (e, rows') \<Longrightarrow> rows' = dset (ex_id e) e rows \<and> embeds emb_fn e"
  by (auto simp: ex_add_def materialize_example_def embed_one_def embeds_def
      split: if_splits sum.splits option.splits list.splits)

lemma example_rows_ok_step:
  assumes ok: "example_rows_ok emb_fn rows"
  shows "example_rows_ok emb_fn (example_step emb_fn op rows)"
proof (cases op)
  case (ExAdd now fresh inp)
  then show ?thesis using ok ex_add_embeds [of emb_fn now fresh inp rows]
    by (auto split: sum.splits intro!: example_rows_ok_dset)
next
  case (ExUpdate now i p)
  show ?thesis
  proof (cases "dget rows i")
    case None
    then show ?thesis using ok ExUpdate by (simp add: ex_update_def)
  next
    case (Some e)
    from example_rows_ok_get [OF ok Some] have e: "ex_id e = i" "embeds emb_fn e" by auto
    show ?thesis
      using ok ExUpdate Some e
      by (auto simp: ex_update_def Let_def apply_example_patch_def embeds_def embed_one_def patched_def
          split: option.splits sum.splits list.splits intro!: example_rows_ok_dset)
  qed
next
  case (ExDelete i)
  then show ?thesis using ok by (auto simp: ex_delete_def example_rows_ok_def set_ddel)
qed

subsection \<open>Properties\<close>

text \<open>
  Whatever is added, patched or deleted, every stored example stays under its own id, and with
  an embedder its vector is the embedding of its current input: a patched input is embedded again,
  and a patch of anything else keeps the vector.
\<close>

theorem examples_stay_embedded:
  "example_rows_ok emb_fn (fold (example_step emb_fn) ops [])"
proof -
  have "example_rows_ok emb_fn rows \<Longrightarrow> example_rows_ok emb_fn (fold (example_step emb_fn) ops rows)" for rows
    by (induction ops arbitrary: rows) (auto intro: example_rows_ok_step)
  moreover have "example_rows_ok emb_fn []" by (simp add: example_rows_ok_def)
  ultimately show ?thesis .
qed

text \<open>
  Retrieval is isolated and top-k: at most \<open>k\<close> stored examples of the requested agent that pass
  the filters (an unscored example never passes a minimum score), best score first, and with an
  embedder no candidate left out is more similar to the query than one returned.
\<close>

theorem find_similar_isolated_top_k:
  assumes "0 \<le> fo_k o'" and "find_similar emb_fn o' rows = Inr rs"
  shows "int (length rs) \<le> fo_k o' \<and> sorted_wrt (\<lambda>x y. er_score y \<le> er_score x) rs
    \<and> (\<forall>r \<in> set rs. er_example r \<in> snd ` set rows \<and> ex_agent (er_example r) = fo_agent o'
        \<and> example_matches (find_filter o') (er_example r))
    \<and> (\<forall>f q qs. emb_fn = Some f \<longrightarrow> f [fo_query o'] = q # qs \<longrightarrow>
        (\<forall>m \<in> set (ex_list (find_filter o') rows). \<forall>e. ex_embedding m = Some e \<longrightarrow> e \<noteq> [] \<longrightarrow>
          m \<in> er_example ` set rs \<or> (\<forall>r \<in> set rs. cosine_similarity e q \<le> er_score r)))"
proof -
  let ?c = "ex_list (find_filter o') rows"
  obtain ps where ps: "rank_rows emb_fn ex_embedding (fo_query o') (fo_k o') ?c = Inr ps"
    and rs: "rs = map as_example_result ps"
    using assms(2) by (auto simp: find_similar_def split: sum.splits)
  note sp = rank_rows_spec [OF assms(1) ps]
  have "m \<in> snd ` set rows \<and> ex_agent m = fo_agent o' \<and> example_matches (find_filter o') m" if "m \<in> set ?c" for m
    using that newest_first_spec [of m "example_matches (find_filter o')" ex_updated_at _ "map snd rows"]
    by (auto simp: ex_list_def example_matches_def find_filter_def)
  then have "\<forall>r \<in> set rs. er_example r \<in> snd ` set rows \<and> ex_agent (er_example r) = fo_agent o'
      \<and> example_matches (find_filter o') (er_example r)"
    using sp(3) by (simp add: rs as_example_result_def)
  moreover have "m \<in> er_example ` set rs \<or> (\<forall>r \<in> set rs. cosine_similarity e q \<le> er_score r)"
    if "emb_fn = Some f" "f [fo_query o'] = q # qs" "m \<in> set ?c" "ex_embedding m = Some e" "e \<noteq> []" for f q qs m e
    using sp(4) [of f q qs m e, OF that] by (simp add: rs as_example_result_def image_image)
  ultimately show ?thesis using sp(1,2) by (auto simp: rs sorted_wrt_map as_example_result_def)
qed

lemma find_similar_isolated_top_k_witness:
  "list_all (\<lambda>r. ex_agent (er_example r) = ''a'') (projr (find_similar (Some (map (\<lambda>_. [1, 2]))) \<lparr>fo_agent = ''a'', fo_query = ''q'', fo_intent = None, fo_tags = None,
      fo_min_score = Some 0, fo_k = 3\<rparr> (example_step (Some (map (\<lambda>_. [1, 2]))) (ExAdd ''t'' ''x'' \<lparr>ei_id = None, ei_agent = Some ''a'',
        ei_intent = None, ei_input = Some ''i'', ei_output = Some ''o'', ei_score = Some 1, ei_tags = None, ei_metadata = None\<rparr>) [])))"
proof -
  let ?e = "Some (map (\<lambda>_. [1, 2]))"
  let ?o = "\<lparr>fo_agent = ''a'', fo_query = ''q'', fo_intent = None, fo_tags = None, fo_min_score = Some 0, fo_k = 3\<rparr>"
  let ?rows = "example_step ?e (ExAdd ''t'' ''x'' \<lparr>ei_id = None, ei_agent = Some ''a'', ei_intent = None, ei_input = Some ''i'',
    ei_output = Some ''o'', ei_score = Some 1, ei_tags = None, ei_metadata = None\<rparr>) []"
  have "find_similar ?e ?o ?rows = Inr (projr (find_similar ?e ?o ?rows))"
    by (simp add: find_similar_def rank_rows_def embed_one_def)
  then show ?thesis using find_similar_isolated_top_k [of ?o ?e ?rows] by (simp add: list_all_iff)
qed

end
