(* ===== verification/Service_Policies.thy ===== *)
theory Service_Policies
  imports Policy_Gate Tool_Guards
begin

text \<open>
  Portable service policies: the declarations and the ordered decision of \<open>_service_policies.py\<close>,
  their local projection onto the policy gate and the guards (\<open>_service_policies_local.py\<close>), and
  the native plan, its application and verification (\<open>_service_policies_native.py\<close>).

  Injected evaluators, the governance client, the classifier model, the JSON encoder and the native
  transport are parameters.  An evaluator raises (\<open>Inl\<close> its message), returns nothing, or returns a
  verdict whose action is the text the code reads off it.  Audit attributes and fingerprints are left
  out: no decision reads them.
\<close>

subsection \<open>Declarations\<close>

datatype target_type = McpService | ModelService | ModelProviderService | AgentService

datatype sp_kind = Builtin | LlmJudge | SqlFunction

datatype sp_builtin = SensitiveData | UnsafeContent | Jailbreak | Hallucination

datatype sp_phase = OnCall | OnResult | BothPhases

datatype sp_mode = Enforce | DryRun

datatype native_mode = NativeOff | NativePlan | NativeApply | NativeRequired

datatype sp_action = ActAllow | ActAsk | ActDeny | ActUnavailable

record service_policy =
  sp_name :: string
  sp_kind :: sp_kind
  sp_builtin :: "sp_builtin option"
  sp_classifier :: "string option"
  sp_prompt :: "string option"
  sp_function :: "string option"
  sp_phase :: sp_phase
  sp_rank :: int

definition blank :: "string option \<Rightarrow> bool" where
  "blank x = (case x of None \<Rightarrow> False | Some s \<Rightarrow> strip s = [])"

definition falsy :: "string option \<Rightarrow> bool" where
  "falsy x \<longleftrightarrow> x = None \<or> x = Some []"

text \<open>The validators: field by field, then the combination the kind asks for.\<close>

definition validate_policy :: "service_policy \<Rightarrow> string + service_policy" where
  "validate_policy p =
     (if strip (sp_name p) = [] \<or> blank (sp_classifier p) \<or> blank (sp_prompt p) \<or> blank (sp_function p)
      then Inl ''service policy string fields must not be empty''
      else if sp_rank p < 0 then Inl ''Input should be greater than or equal to 0''
      else case sp_kind p of
        Builtin \<Rightarrow>
          (if sp_builtin p = None then Inl ''builtin policies require builtin''
           else if sp_builtin p = Some Jailbreak \<and> sp_phase p \<noteq> OnCall
             then Inl ''jailbreak policies are request/on_call only''
           else if sp_builtin p = Some Hallucination \<and> sp_phase p \<noteq> OnResult
             then Inl ''hallucination policies are result/on_result only''
           else if sp_classifier p \<noteq> None \<or> sp_prompt p \<noteq> None \<or> sp_function p \<noteq> None
             then Inl ''builtin policies cannot define classifier, prompt, or function''
           else Inr p)
      | LlmJudge \<Rightarrow>
          (if falsy (sp_classifier p) \<or> falsy (sp_prompt p)
             then Inl ''llm_judge policies require classifier and prompt''
           else if sp_builtin p \<noteq> None \<or> sp_function p \<noteq> None
             then Inl ''llm_judge policies cannot define builtin or function''
           else Inr p)
      | SqlFunction \<Rightarrow>
          (if falsy (sp_function p) then Inl ''sql policies require a Unity Catalog function''
           else if sp_builtin p \<noteq> None \<or> sp_classifier p \<noteq> None \<or> sp_prompt p \<noteq> None
             then Inl ''sql policies cannot define builtin, classifier, or prompt''
           else Inr p))"

record sp_attachment =
  at_name :: string
  at_target_type :: target_type
  at_target :: string
  at_mode :: sp_mode
  at_policies :: "service_policy list"

record sp_config =
  sc_mirror :: bool
  sc_native :: native_mode
  sc_attachments :: "sp_attachment list"
  sc_abac :: bool

definition validate_config :: "sp_config \<Rightarrow> string + sp_config" where
  "validate_config cfg =
     (if sc_native cfg = NativeRequired \<and> sc_attachments cfg = []
      then Inl ''native_mode='required' needs at least one attachment'' else Inr cfg)"

subsection \<open>The ordered decision\<close>

record ('a, 'r) sp_event =
  ev_phase :: sp_phase
  ev_target_type :: target_type
  ev_target :: string
  ev_content :: "string option"
  ev_tool :: "string option"
  ev_args :: "'a option"
  ev_result :: "'r option"
  ev_context :: "(string \<times> pyval) list"

record sp_decision =
  sd_action :: sp_action
  sd_reason :: "string option"
  sd_policy :: "string option"
  sd_phase :: sp_phase
  sd_rank :: "int option"
  sd_mode :: sp_mode

record verdict =
  vd_action :: string
  vd_reason :: "string option"

definition ordered_policies :: "service_policy list \<Rightarrow> sp_phase \<Rightarrow> service_policy list" where
  "ordered_policies ps requested =
     (if requested = BothPhases
      then sort_key sp_rank (filter (\<lambda>p. sp_phase p \<in> {OnCall, OnResult, BothPhases}) ps)
      else let applicable = filter (\<lambda>p. sp_phase p \<in> {requested, BothPhases}) ps
           in if requested = OnResult then sort_desc sp_rank applicable else sort_key sp_rank applicable)"

definition normalize_action :: "verdict \<Rightarrow> string + sp_action \<times> string option" where
  "normalize_action v =
     (let a = upper (vd_action v)
      in if a = ''ALLOW'' then Inr (ActAllow, vd_reason v)
         else if a = ''ASK'' then Inr (ActAsk, vd_reason v)
         else if a = ''DENY'' then Inr (ActDeny, vd_reason v)
         else if a = ''UNAVAILABLE'' then Inr (ActUnavailable, vd_reason v)
         else Inl (''unknown policy action '' @ py_repr (vd_action v)))"

text \<open>What a policy that cannot be decided counts as.\<close>

definition undecided :: "sp_mode \<Rightarrow> sp_action" where
  "undecided mode = (if mode = DryRun then ActUnavailable else ActDeny)"

type_synonym ('a, 'r) sp_evaluator = "service_policy \<Rightarrow> ('a, 'r) sp_event \<Rightarrow> string + verdict option"

text \<open>One policy: nothing when it abstains.\<close>

definition policy_action_of ::
  "('a, 'r) sp_evaluator \<Rightarrow> sp_mode \<Rightarrow> ('a, 'r) sp_event \<Rightarrow> service_policy \<Rightarrow> (sp_action \<times> string option) option" where
  "policy_action_of evaluator mode ev p =
     (let unavailable = (\<lambda>exc. Some (undecided mode, Some (''policy evaluation unavailable ('' @ exc @ '')'')))
      in case evaluator p ev of
           Inl exc \<Rightarrow> unavailable exc
         | Inr None \<Rightarrow> None
         | Inr (Some v) \<Rightarrow>
             (case normalize_action v of
                Inl exc \<Rightarrow> unavailable exc
              | Inr (a, r) \<Rightarrow>
                  (if a = ActAsk \<and> (ev_target_type ev \<noteq> McpService \<or> ev_phase ev \<noteq> OnCall)
                   then Some (undecided mode,
                          if falsy r then Some ''ASK is supported only for MCP on_call policies'' else r)
                   else Some (a, r))))"

fun decide_in_order ::
  "('a, 'r) sp_evaluator \<Rightarrow> sp_mode \<Rightarrow> ('a, 'r) sp_event \<Rightarrow> service_policy list \<Rightarrow> sp_decision" where
  "decide_in_order evaluator mode ev [] =
     \<lparr>sd_action = ActAllow, sd_reason = None, sd_policy = None, sd_phase = ev_phase ev, sd_rank = None, sd_mode = mode\<rparr>"
| "decide_in_order evaluator mode ev (p # ps) =
     (case policy_action_of evaluator mode ev p of
        None \<Rightarrow> decide_in_order evaluator mode ev ps
      | Some (a, r) \<Rightarrow>
          (if a \<noteq> ActAllow
           then \<lparr>sd_action = a, sd_reason = r, sd_policy = Some (sp_name p), sd_phase = ev_phase ev,
                 sd_rank = Some (sp_rank p), sd_mode = mode\<rparr>
           else decide_in_order evaluator mode ev ps))"

definition evaluate_ordered ::
  "service_policy list \<Rightarrow> ('a, 'r) sp_event \<Rightarrow> sp_mode \<Rightarrow> ('a, 'r) sp_evaluator \<Rightarrow> sp_decision" where
  "evaluate_ordered ps ev mode evaluator = decide_in_order evaluator mode ev (ordered_policies ps (ev_phase ev))"

subsection \<open>Local evaluators\<close>

type_synonym ('a, 'r) local_eval = "('a, 'r) sp_event \<Rightarrow> string + verdict option"

text \<open>
  What the adapter is given: evaluators by policy name, a governance client (it raises, or answers
  with an action or none), the classifier model of a judge policy, and the JSON text of arguments.
\<close>

record ('a, 'r) sp_host =
  sh_injected :: "(string \<times> ('a, 'r) local_eval) list"
  sh_governance :: "(service_policy \<Rightarrow> ('a, 'r) sp_event \<Rightarrow> string + string option) option"
  sh_classifier :: "service_policy \<Rightarrow> 'a policy_event \<Rightarrow> string + string"
  sh_dump_args :: "'a \<Rightarrow> string"

definition plain_verdict :: "string \<Rightarrow> string + verdict option" where
  "plain_verdict a = Inr (Some \<lparr>vd_action = a, vd_reason = None\<rparr>)"

definition policy_event_of :: "('a, 'r) sp_event \<Rightarrow> 'a policy_event" where
  "policy_event_of ev =
     \<lparr>pe_phase =
        (if \<not> falsy (ev_tool ev) then (if ev_phase ev = OnCall then ''tool_call'' else ''tool_result'')
         else if ev_phase ev = OnCall then ''request'' else ''response''),
      pe_tool = ev_tool ev, pe_args = ev_args ev, pe_content = ev_content ev, pe_context = ev_context ev\<rparr>"

definition governance_action ::
  "(service_policy \<Rightarrow> ('a, 'r) sp_event \<Rightarrow> string + string option) \<Rightarrow> service_policy \<Rightarrow> ('a, 'r) local_eval" where
  "governance_action gov p ev =
     (case gov p ev of
        Inl exc \<Rightarrow> Inl exc
      | Inr a \<Rightarrow> plain_verdict (if a = None \<or> a = Some ''reject'' then ''DENY'' else ''ALLOW''))"

definition jailbreak_eval :: "('a \<Rightarrow> string) \<Rightarrow> ('a, 'r) local_eval" where
  "jailbreak_eval dump ev =
     (let content = (case ev_content ev of
                       Some c \<Rightarrow> c
                     | None \<Rightarrow> (case ev_args ev of Some a \<Rightarrow> dump a | None \<Rightarrow> []))
      in plain_verdict
           (if prompt_injection_check None ''Request blocked: suspected prompt injection.''
                 (MList [MDict [(''content'', PStr content)]]) \<noteq> None
            then ''DENY'' else ''ALLOW''))"

definition action_name :: "policy_action \<Rightarrow> string" where
  "action_name a = (case a of Allow \<Rightarrow> ''ALLOW'' | Ask \<Rightarrow> ''ASK'' | Deny \<Rightarrow> ''DENY'')"

definition judge_eval :: "('a policy_event \<Rightarrow> string + string) \<Rightarrow> ('a, 'r) local_eval" where
  "judge_eval llm ev =
     (case prompt_policy llm [''request'', ''response'', ''tool_call'', ''tool_result''] of
        Inl _ \<Rightarrow> Inl ''unknown phases''
      | Inr policy \<Rightarrow>
          (case policy (policy_event_of ev) of
             Inl exc \<Rightarrow> Inl exc
           | Inr None \<Rightarrow> Inr None
           | Inr (Some r) \<Rightarrow> Inr (Some \<lparr>vd_action = action_name (pr_action r), vd_reason = pr_reason r\<rparr>)))"

definition builtin_value :: "sp_builtin \<Rightarrow> string" where
  "builtin_value b =
     (case b of SensitiveData \<Rightarrow> ''sensitive_data'' | UnsafeContent \<Rightarrow> ''unsafe_content'' | Jailbreak \<Rightarrow> ''jailbreak''
      | Hallucination \<Rightarrow> ''hallucination'')"

definition sql_unavailable :: "service_policy \<Rightarrow> ('a, 'r) local_eval" where
  "sql_unavailable p ev =
     Inl (''local SQL evaluator unavailable for '' @ (case sp_function p of None \<Rightarrow> ''None'' | Some f \<Rightarrow> f))"

text \<open>
  The evaluator of a built-in without a detector names the variable \<open>builtin\<close> of the enclosing
  function, read when it runs: the last one the loop assigned.
\<close>

definition lacks_detector :: "('a, 'r) sp_host \<Rightarrow> service_policy \<Rightarrow> bool" where
  "lacks_detector host p \<longleftrightarrow>
     dget (sh_injected host) (sp_name p) = None \<and> sp_kind p = Builtin \<and> sp_builtin p \<noteq> None \<and> sp_builtin p \<noteq> Some Jailbreak
     \<and> sh_governance host = None"

definition all_policies :: "sp_config \<Rightarrow> service_policy list" where
  "all_policies cfg = concat (map at_policies (sc_attachments cfg))"

definition late_builtin :: "('a, 'r) sp_host \<Rightarrow> sp_config \<Rightarrow> string" where
  "late_builtin host cfg =
     (case rev (filter (lacks_detector host) (all_policies cfg)) of
        [] \<Rightarrow> []
      | p # _ \<Rightarrow> builtin_value (the (sp_builtin p)))"

definition policy_evaluator :: "('a, 'r) sp_host \<Rightarrow> sp_config \<Rightarrow> service_policy \<Rightarrow> ('a, 'r) local_eval" where
  "policy_evaluator host cfg p =
     (case dget (sh_injected host) (sp_name p) of
        Some f \<Rightarrow> f
      | None \<Rightarrow>
          (if sp_kind p = Builtin \<and> sp_builtin p \<noteq> None
           then if sp_builtin p = Some Jailbreak then jailbreak_eval (sh_dump_args host)
                else (case sh_governance host of
                        Some gov \<Rightarrow> governance_action gov p
                      | None \<Rightarrow> (\<lambda>ev. Inl (''local evaluator unavailable for built-in '' @ late_builtin host cfg)))
           else if sp_kind p = LlmJudge then judge_eval (sh_classifier host p)
           else sql_unavailable p))"

text \<open>One dict for all attachments, keyed by policy name.\<close>

definition build_evaluators :: "('a, 'r) sp_host \<Rightarrow> sp_config \<Rightarrow> (string \<times> ('a, 'r) local_eval) list" where
  "build_evaluators host cfg =
     fold (\<lambda>p d. dset (sp_name p) (policy_evaluator host cfg p) d) (all_policies cfg) []"

definition local_evaluator :: "('a, 'r) sp_host \<Rightarrow> sp_config \<Rightarrow> ('a, 'r) sp_evaluator" where
  "local_evaluator host cfg p ev =
     (case dget (build_evaluators host cfg) (sp_name p) of
        None \<Rightarrow> Inl (py_repr (sp_name p))
      | Some f \<Rightarrow> f ev)"

subsection \<open>The adapter\<close>

text \<open>
  All gates of an adapter share one approval store.  Gate results carry no labels, so a gate has no
  state of its own.
\<close>

record ('a, 'f) adapter =
  ad_approvals :: "('a, 'f) approval_store"
  ad_decisions :: "sp_decision list"

definition make_event ::
  "(string \<times> pyval) list \<Rightarrow> sp_attachment \<Rightarrow> sp_phase \<Rightarrow> string option \<Rightarrow> string option \<Rightarrow> 'a option \<Rightarrow> 'r option
    \<Rightarrow> ('a, 'r) sp_event" where
  "make_event ctx att phase content tool args result =
     \<lparr>ev_phase = phase, ev_target_type = at_target_type att, ev_target = at_target att, ev_content = content,
      ev_tool = tool, ev_args = args, ev_result = result, ev_context = ctx\<rparr>"

definition evaluate_attachment ::
  "('a, 'r) sp_host \<Rightarrow> sp_config \<Rightarrow> sp_attachment \<Rightarrow> ('a, 'r) sp_event \<Rightarrow> ('a, 'f) adapter \<Rightarrow> sp_decision \<times> ('a, 'f) adapter" where
  "evaluate_attachment host cfg att ev ad =
     (let d = evaluate_ordered (at_policies att) ev (at_mode att) (local_evaluator host cfg)
      in (d, ad\<lparr>ad_decisions := ad_decisions ad @ [d]\<rparr>))"

definition deny_message :: "sp_decision \<Rightarrow> string \<Rightarrow> string option" where
  "deny_message d fallback =
     (if sd_action d = ActAllow then None
      else Some (case sd_reason d of Some r \<Rightarrow> if r = [] then fallback else r | None \<Rightarrow> fallback))"

text \<open>The loop the input, output, model and tool-result hooks share: the first enforced refusal ends it.\<close>

fun check_attachments ::
  "('a, 'r) sp_host \<Rightarrow> sp_config \<Rightarrow> (sp_attachment \<Rightarrow> ('a, 'r) sp_event) \<Rightarrow> string \<Rightarrow> sp_attachment list \<Rightarrow> ('a, 'f) adapter
    \<Rightarrow> string option \<times> ('a, 'f) adapter" where
  "check_attachments host cfg mk fallback [] ad = (None, ad)"
| "check_attachments host cfg mk fallback (att # atts) ad =
     (let (d, ad') = evaluate_attachment host cfg att (mk att) ad
      in if at_mode att = Enforce \<and> deny_message d fallback \<noteq> None then (deny_message d fallback, ad')
         else check_attachments host cfg mk fallback atts ad')"

definition for_input ::
  "('m \<Rightarrow> string) \<Rightarrow> (string \<times> pyval) list \<Rightarrow> ('a, 'r) sp_host \<Rightarrow> sp_config \<Rightarrow> 'm \<Rightarrow> ('a, 'f) adapter \<Rightarrow> string option \<times> ('a, 'f) adapter" where
  "for_input dump ctx host cfg messages ad =
     (if \<not> sc_mirror cfg then (None, ad)
      else check_attachments host cfg (\<lambda>att. make_event ctx att OnCall (Some (dump messages)) None None None)
             ''Request blocked by Service Policy.'' (sc_attachments cfg) ad)"

definition for_output ::
  "(string \<times> pyval) list \<Rightarrow> ('a, 'r) sp_host \<Rightarrow> sp_config \<Rightarrow> string \<Rightarrow> ('a, 'f) adapter \<Rightarrow> string option \<times> ('a, 'f) adapter" where
  "for_output ctx host cfg reply ad =
     (if \<not> sc_mirror cfg then (None, ad)
      else check_attachments host cfg (\<lambda>att. make_event ctx att OnResult (Some reply) None None None)
             ''Response blocked by Service Policy.'' (sc_attachments cfg) ad)"

text \<open>\<open>for_model\<close> and \<open>for_tool_result\<close> raise \<open>PermissionError\<close> with the message.\<close>

definition for_model ::
  "('m \<Rightarrow> string) \<Rightarrow> (string \<times> pyval) list \<Rightarrow> ('a, 'r) sp_host \<Rightarrow> sp_config \<Rightarrow> 'm \<Rightarrow> ('a, 'f) adapter \<Rightarrow> string option \<times> ('a, 'f) adapter" where
  "for_model dump ctx host cfg prompts ad =
     (if \<not> sc_mirror cfg then (None, ad)
      else check_attachments host cfg (\<lambda>att. make_event ctx att OnCall (Some (dump prompts)) None None None)
             ''Model call blocked by Service Policy.'' (sc_attachments cfg) ad)"

definition for_tool_result ::
  "(string \<times> pyval) list \<Rightarrow> ('a, 'r) sp_host \<Rightarrow> sp_config \<Rightarrow> string \<Rightarrow> 'a \<Rightarrow> 'r \<Rightarrow> ('a, 'f) adapter \<Rightarrow> string option \<times> ('a, 'f) adapter" where
  "for_tool_result ctx host cfg tool args result ad =
     (if \<not> sc_mirror cfg then (None, ad)
      else check_attachments host cfg (\<lambda>att. make_event ctx att OnResult None (Some tool) (Some args) (Some result))
             ''Tool result blocked by Service Policy.'' (sc_attachments cfg) ad)"

text \<open>The gate of an attachment; \<open>PolicyAction['UNAVAILABLE']\<close> is a \<open>KeyError\<close>.\<close>

definition gate_decision ::
  "(string \<times> pyval) list \<Rightarrow> ('a, 'r) sp_host \<Rightarrow> sp_config \<Rightarrow> sp_attachment \<Rightarrow> string option \<Rightarrow> 'a option \<Rightarrow> sp_decision" where
  "gate_decision ctx host cfg att tool args =
     evaluate_ordered (at_policies att) (make_event ctx att OnCall None tool args None) (at_mode att) (local_evaluator host cfg)"

definition gate_evaluator ::
  "(string \<times> pyval) list \<Rightarrow> ('a, 'r) sp_host \<Rightarrow> sp_config \<Rightarrow> sp_attachment \<Rightarrow> 'a policy_event \<Rightarrow> string + policy_result" where
  "gate_evaluator ctx host cfg att ev =
     (let d = gate_decision ctx host cfg att (pe_tool ev) (pe_args ev)
      in case sd_action d of
           ActUnavailable \<Rightarrow> Inl (py_repr ''UNAVAILABLE'')
         | ActAllow \<Rightarrow> Inr \<lparr>pr_action = Allow, pr_reason = sd_reason d, pr_labels = []\<rparr>
         | ActAsk \<Rightarrow> Inr \<lparr>pr_action = Ask, pr_reason = sd_reason d, pr_labels = []\<rparr>
         | ActDeny \<Rightarrow> Inr \<lparr>pr_action = Deny, pr_reason = sd_reason d, pr_labels = []\<rparr>)"

text \<open>\<open>self._gates\<close> is keyed by attachment name: a later enforced attachment of that name replaces an earlier one.\<close>

definition gates_of :: "sp_config \<Rightarrow> (string \<times> sp_attachment) list" where
  "gates_of cfg = fold (\<lambda>att d. if at_mode att = Enforce then dset (at_name att) att d else d) (sc_attachments cfg) []"

definition run_gate ::
  "(string \<times> pyval) list \<Rightarrow> ('a, 'r) sp_host \<Rightarrow> sp_config \<Rightarrow> (string \<Rightarrow> 'a \<Rightarrow> 'f) \<Rightarrow> run_mode \<Rightarrow> string \<Rightarrow> string \<Rightarrow> string \<Rightarrow> 'a
    \<Rightarrow> sp_attachment \<Rightarrow> ('a, 'f) adapter \<Rightarrow> ('a, 'f) gate_outcome \<times> ('a, 'f) adapter" where
  "run_gate ctx host cfg fp mode new_id now tool args att ad =
     (let (out, g) = gate_call_with (gate_evaluator ctx host cfg att) fp mode new_id now tool args
                       \<lparr>gt_policies = [], gt_approvals = ad_approvals ad, gt_labels = [], gt_context = ctx\<rparr>;
          evaluated = (find_approval (fp tool args) Approved (ad_approvals ad) = None \<and>
                       find_approval (fp tool args) Refused (ad_approvals ad) = None)
      in (out, \<lparr>ad_approvals = gt_approvals g,
                ad_decisions = (if evaluated then ad_decisions ad @ [gate_decision ctx host cfg att (Some tool) (Some args)]
                                else ad_decisions ad)\<rparr>))"

text \<open>
  \<open>for_tool\<close>.  A run that was suspended resumes each interrupt with its own answer, so the run mode
  and the fresh approval id are given per attachment.
\<close>

fun tool_loop ::
  "(string \<times> pyval) list \<Rightarrow> ('a, 'r) sp_host \<Rightarrow> sp_config \<Rightarrow> (string \<Rightarrow> 'a \<Rightarrow> 'f) \<Rightarrow> (string \<Rightarrow> run_mode) \<Rightarrow> (string \<Rightarrow> string) \<Rightarrow> string
    \<Rightarrow> string \<Rightarrow> 'a \<Rightarrow> sp_attachment list \<Rightarrow> ('a, 'f) adapter \<Rightarrow> ('a, 'f) gate_outcome \<times> ('a, 'f) adapter" where
  "tool_loop ctx host cfg fp mode ids now tool args [] ad = (Allowed, ad)"
| "tool_loop ctx host cfg fp mode ids now tool args (att # atts) ad =
     (if at_mode att = Enforce
      then (case dget (gates_of cfg) (at_name att) of
              None \<Rightarrow> (PolicyRaised (py_repr (at_name att)), ad)
            | Some gate_att \<Rightarrow>
                (case run_gate ctx host cfg fp (mode (at_name att)) (ids (at_name att)) now tool args gate_att ad of
                   (Allowed, ad') \<Rightarrow> tool_loop ctx host cfg fp mode ids now tool args atts ad'
                 | (out, ad') \<Rightarrow> (out, ad')))
      else tool_loop ctx host cfg fp mode ids now tool args atts
             (snd (evaluate_attachment host cfg att (make_event ctx att OnCall None (Some tool) (Some args) None) ad)))"

definition for_tool ::
  "(string \<times> pyval) list \<Rightarrow> ('a, 'r) sp_host \<Rightarrow> sp_config \<Rightarrow> (string \<Rightarrow> 'a \<Rightarrow> 'f) \<Rightarrow> (string \<Rightarrow> run_mode) \<Rightarrow> (string \<Rightarrow> string) \<Rightarrow> string
    \<Rightarrow> string \<Rightarrow> 'a \<Rightarrow> ('a, 'f) adapter \<Rightarrow> ('a, 'f) gate_outcome \<times> ('a, 'f) adapter" where
  "for_tool ctx host cfg fp mode ids now tool args ad =
     (if \<not> sc_mirror cfg then (Allowed, ad)
      else tool_loop ctx host cfg fp mode ids now tool args (sc_attachments cfg) ad)"

subsection \<open>The native plan\<close>

record native_capability =
  nc_kinds :: "sp_kind list"
  nc_phases :: "sp_phase list"
  nc_apply :: bool
  nc_verify :: bool

record native_op =
  no_attachment :: string
  no_target_type :: target_type
  no_target :: string
  no_policy :: string
  no_kind :: sp_kind
  no_phase :: sp_phase
  no_rank :: int
  no_mode :: sp_mode
  no_builtin :: "sp_builtin option"
  no_classifier :: "string option"
  no_function :: "string option"

record native_plan =
  np_mode :: native_mode
  np_operations :: "native_op list"
  np_unsupported :: "string list"

definition default_capabilities :: "(target_type \<times> native_capability) list" where
  "default_capabilities =
     map (\<lambda>t. (t, \<lparr>nc_kinds = [Builtin, LlmJudge, SqlFunction], nc_phases = [OnCall, OnResult],
                     nc_apply = False, nc_verify = False\<rparr>))
       [McpService, ModelService, ModelProviderService]"

definition target_value :: "target_type \<Rightarrow> string" where
  "target_value t =
     (case t of McpService \<Rightarrow> ''mcp_service'' | ModelService \<Rightarrow> ''model_service''
      | ModelProviderService \<Rightarrow> ''model_provider_service'' | AgentService \<Rightarrow> ''agent_service'')"

definition kind_value :: "sp_kind \<Rightarrow> string" where
  "kind_value k = (case k of Builtin \<Rightarrow> ''builtin'' | LlmJudge \<Rightarrow> ''llm_judge'' | SqlFunction \<Rightarrow> ''sql'')"

definition phase_value :: "sp_phase \<Rightarrow> string" where
  "phase_value p = (case p of OnCall \<Rightarrow> ''on_call'' | OnResult \<Rightarrow> ''on_result'' | BothPhases \<Rightarrow> ''both'')"

definition mode_value :: "sp_mode \<Rightarrow> string" where
  "mode_value m = (case m of Enforce \<Rightarrow> ''enforce'' | DryRun \<Rightarrow> ''dry_run'')"

definition phases_of :: "sp_phase \<Rightarrow> sp_phase list" where
  "phases_of p = (if p = BothPhases then [OnCall, OnResult] else [p])"

definition safe_operation :: "sp_attachment \<Rightarrow> service_policy \<Rightarrow> sp_phase \<Rightarrow> native_op" where
  "safe_operation att p phase =
     \<lparr>no_attachment = at_name att, no_target_type = at_target_type att, no_target = at_target att, no_policy = sp_name p,
      no_kind = sp_kind p, no_phase = phase, no_rank = sp_rank p, no_mode = at_mode att, no_builtin = sp_builtin p,
      no_classifier = sp_classifier p, no_function = sp_function p\<rparr>"

text \<open>Operations and complaints of one policy, of one attachment, of all.\<close>

definition plan_policy ::
  "native_capability \<Rightarrow> sp_attachment \<Rightarrow> service_policy \<Rightarrow> native_op list \<times> string list" where
  "plan_policy cap att p =
     (if sp_kind p \<notin> set (nc_kinds cap)
      then ([], [at_name att @ ''/'' @ sp_name p @ '': kind '' @ kind_value (sp_kind p) @ '' is unsupported''])
      else (map (safe_operation att p) (filter (\<lambda>ph. ph \<in> set (nc_phases cap)) (phases_of (sp_phase p))),
            map (\<lambda>ph. at_name att @ ''/'' @ sp_name p @ '': phase '' @ phase_value ph @ '' is unsupported'')
              (filter (\<lambda>ph. ph \<notin> set (nc_phases cap)) (phases_of (sp_phase p)))))"

definition plan_attachment ::
  "(target_type \<times> native_capability) list \<Rightarrow> sp_attachment \<Rightarrow> native_op list \<times> string list" where
  "plan_attachment caps att =
     (case dget caps (at_target_type att) of
        None \<Rightarrow> ([], [at_name att @ '': target type '' @ target_value (at_target_type att) @ '' is unsupported''])
      | Some cap \<Rightarrow>
          (concat (map (\<lambda>p. fst (plan_policy cap att p)) (at_policies att)),
           concat (map (\<lambda>p. snd (plan_policy cap att p)) (at_policies att))))"

definition plan_complaints :: "(target_type \<times> native_capability) list \<Rightarrow> sp_config \<Rightarrow> string list" where
  "plan_complaints caps cfg =
     concat (map (\<lambda>att. snd (plan_attachment caps att)) (sc_attachments cfg))
     @ (if sc_abac cfg then [''ABAC attachment selectors are not supported''] else [])
     @ (if sc_native cfg \<in> {NativeApply, NativeRequired} \<and> \<not> (\<forall>c \<in> set (map snd caps). nc_apply c)
        then [''native Service Policy apply is not supported by the verified platform surface''] else [])
     @ (if sc_native cfg = NativeRequired \<and> \<not> (\<forall>c \<in> set (map snd caps). nc_verify c)
        then [''native Service Policy verification is not supported by the verified platform surface''] else [])"

definition build_native_plan ::
  "(target_type \<times> native_capability) list option \<Rightarrow> sp_config \<Rightarrow> string + native_plan" where
  "build_native_plan given cfg =
     (if sc_native cfg = NativeOff then Inr \<lparr>np_mode = NativeOff, np_operations = [], np_unsupported = []\<rparr>
      else let caps = (case given of None \<Rightarrow> default_capabilities | Some [] \<Rightarrow> default_capabilities | Some cs \<Rightarrow> cs);
               unsupported = plan_complaints caps cfg
           in if sc_native cfg = NativeRequired \<and> unsupported \<noteq> [] then Inl (join ''; '' unsupported)
              else Inr \<lparr>np_mode = sc_native cfg,
                        np_operations = concat (map (\<lambda>att. fst (plan_attachment caps att)) (sc_attachments cfg)),
                        np_unsupported = sort (remdups unsupported)\<rparr>)"

text \<open>The transport: a call raises or answers with a JSON value, and may change the platform's state.\<close>

type_synonym 's transport = "native_op \<Rightarrow> 's \<Rightarrow> (string + pyval) \<times> 's"

definition no_transport :: "'s transport" where
  "no_transport op s = (Inl ''Databricks Service Policy apply is unavailable'', s)"

fun apply_ops ::
  "(pyval \<Rightarrow> string) \<Rightarrow> 's transport \<Rightarrow> native_op list \<Rightarrow> 's \<Rightarrow> (string + (string \<times> string \<times> string) list) \<times> 's" where
  "apply_ops show_val transport [] s = (Inr [], s)"
| "apply_ops show_val transport (op # ops) s =
     (case transport op s of
        (Inl exc, s') \<Rightarrow> (Inl exc, s')
      | (Inr response, s') \<Rightarrow>
          (case response of
             PDict d \<Rightarrow>
               (case apply_ops show_val transport ops s' of
                  (Inl exc, s'') \<Rightarrow> (Inl exc, s'')
                | (Inr applied, s'') \<Rightarrow>
                    (Inr ((no_policy op, no_target op,
                           (case dget d ''status'' of None \<Rightarrow> ''accepted'' | Some v \<Rightarrow> show_val v)) # applied), s''))
           | _ \<Rightarrow> (Inl ''native apply returned a malformed response'', s')))"

definition apply_native_plan ::
  "(pyval \<Rightarrow> string) \<Rightarrow> 's transport \<Rightarrow> string \<Rightarrow> native_plan \<Rightarrow> 's \<Rightarrow> (string + (string \<times> string \<times> string) list) \<times> 's" where
  "apply_native_plan show_val transport profile plan s =
     (if strip profile = [] then (Inl ''an explicit Databricks profile is required; pass --profile <name>'', s)
      else if np_unsupported plan \<noteq> [] then (Inl (join ''; '' (np_unsupported plan)), s)
      else apply_ops show_val transport (np_operations plan) s)"

definition rank_equals :: "pyval \<Rightarrow> int \<Rightarrow> bool" where
  "rank_equals v n = (case v of PInt m \<Rightarrow> m = n | PFloat x \<Rightarrow> x = of_int n | PBool b \<Rightarrow> n = (if b then 1 else 0) | _ \<Rightarrow> False)"

text \<open>\<open>response.get(key, operation[key]) == operation[key]\<close>.\<close>

definition reads_back :: "(string \<times> pyval) list \<Rightarrow> native_op \<Rightarrow> bool" where
  "reads_back d op \<longleftrightarrow>
     (case dget d ''target'' of None \<Rightarrow> True | Some v \<Rightarrow> v = PStr (no_target op))
     \<and> (case dget d ''policy_name'' of None \<Rightarrow> True | Some v \<Rightarrow> v = PStr (no_policy op))
     \<and> (case dget d ''phase'' of None \<Rightarrow> True | Some v \<Rightarrow> v = PStr (phase_value (no_phase op)))
     \<and> (case dget d ''rank'' of None \<Rightarrow> True | Some v \<Rightarrow> rank_equals v (no_rank op))
     \<and> (case dget d ''mode'' of None \<Rightarrow> True | Some v \<Rightarrow> v = PStr (mode_value (no_mode op)))"

fun verify_ops :: "'s transport \<Rightarrow> native_op list \<Rightarrow> 's \<Rightarrow> (string + (string \<times> string \<times> bool) list) \<times> 's" where
  "verify_ops transport [] s = (Inr [], s)"
| "verify_ops transport (op # ops) s =
     (case transport op s of
        (Inl exc, s') \<Rightarrow> (Inl exc, s')
      | (Inr response, s') \<Rightarrow>
          (case response of
             PDict d \<Rightarrow>
               (case verify_ops transport ops s' of
                  (Inl exc, s'') \<Rightarrow> (Inl exc, s'')
                | (Inr seen, s'') \<Rightarrow> (Inr ((no_policy op, no_target op, reads_back d op) # seen), s''))
           | _ \<Rightarrow> (Inl ''native verification returned a malformed response'', s')))"

text \<open>The statuses (observed or mismatch) and whether all were observed.\<close>

definition verify_native_plan ::
  "'s transport \<Rightarrow> string \<Rightarrow> native_plan \<Rightarrow> 's \<Rightarrow> (string + (string \<times> string \<times> bool) list \<times> bool) \<times> 's" where
  "verify_native_plan transport profile plan s =
     (if strip profile = [] then (Inl ''an explicit Databricks profile is required; pass --profile <name>'', s)
      else if np_unsupported plan \<noteq> [] then (Inl (join ''; '' (np_unsupported plan)), s)
      else (case verify_ops transport (np_operations plan) s of
              (Inl exc, s') \<Rightarrow> (Inl exc, s')
            | (Inr seen, s') \<Rightarrow> (Inr (seen, \<forall>(p, t, ok) \<in> set seen. ok), s')))"

subsection \<open>The first blocking policy decides\<close>

definition applies_to :: "sp_phase \<Rightarrow> service_policy \<Rightarrow> bool" where
  "applies_to phase p \<longleftrightarrow> phase = BothPhases \<or> sp_phase p = phase \<or> sp_phase p = BothPhases"

definition blocks :: "('a, 'r) sp_evaluator \<Rightarrow> sp_mode \<Rightarrow> ('a, 'r) sp_event \<Rightarrow> service_policy \<Rightarrow> bool" where
  "blocks evaluator mode ev p \<longleftrightarrow>
     (case policy_action_of evaluator mode ev p of None \<Rightarrow> False | Some (a, r) \<Rightarrow> a \<noteq> ActAllow)"

definition goes_before :: "sp_phase \<Rightarrow> service_policy \<Rightarrow> service_policy \<Rightarrow> bool" where
  "goes_before phase p q \<longleftrightarrow> (if phase = OnResult then sp_rank q \<le> sp_rank p else sp_rank p \<le> sp_rank q)"

lemma goes_before_refl [simp]: "goes_before phase p p"
  by (simp add: goes_before_def)

lemma set_ordered_policies: "set (ordered_policies ps phase) = {p \<in> set ps. applies_to phase p}"
proof -
  have "sp_phase p \<in> {OnCall, OnResult, BothPhases}" for p by (cases "sp_phase p") simp_all
  then show ?thesis by (auto simp: ordered_policies_def applies_to_def Let_def)
qed

lemma sorted_ordered_policies: "sorted_wrt (goes_before phase) (ordered_policies ps phase)"
proof -
  have up: "sorted_wrt (\<lambda>p q. sp_rank p \<le> sp_rank q) (sort_key sp_rank xs)" for xs
    using sorted_sort_key [of sp_rank xs] by (simp add: sorted_map)
  have down: "sorted_wrt (\<lambda>p q. sp_rank q \<le> sp_rank p) (sort_desc sp_rank xs)" for xs
    by (rule sorted_sort_desc)
  have "goes_before phase = (if phase = OnResult then (\<lambda>p q. sp_rank q \<le> sp_rank p) else (\<lambda>p q. sp_rank p \<le> sp_rank q))"
    by (intro ext) (simp add: goes_before_def)
  then show ?thesis using up down by (auto simp: ordered_policies_def Let_def)
qed

lemma find_first:
  "find P xs = Some x \<Longrightarrow> sorted_wrt R xs \<Longrightarrow> R x x \<Longrightarrow> x \<in> set xs \<and> P x \<and> (\<forall>y \<in> set xs. P y \<longrightarrow> R x y)"
  by (induction xs) (auto split: if_splits)

lemma decide_in_order_find:
  "decide_in_order evaluator mode ev ps =
     (case find (blocks evaluator mode ev) ps of
        None \<Rightarrow> \<lparr>sd_action = ActAllow, sd_reason = None, sd_policy = None, sd_phase = ev_phase ev, sd_rank = None, sd_mode = mode\<rparr>
      | Some p \<Rightarrow>
          (case the (policy_action_of evaluator mode ev p) of
             (a, r) \<Rightarrow> \<lparr>sd_action = a, sd_reason = r, sd_policy = Some (sp_name p), sd_phase = ev_phase ev,
                        sd_rank = Some (sp_rank p), sd_mode = mode\<rparr>))"
  by (induction ps) (auto simp: blocks_def split: option.splits)

lemma first_blocking_policy:
  assumes "sd_action (evaluate_ordered ps ev mode evaluator) \<noteq> ActAllow"
  shows "\<exists>p \<in> set ps. applies_to (ev_phase ev) p \<and> blocks evaluator mode ev p
    \<and> sd_policy (evaluate_ordered ps ev mode evaluator) = Some (sp_name p)
    \<and> policy_action_of evaluator mode ev p =
        Some (sd_action (evaluate_ordered ps ev mode evaluator), sd_reason (evaluate_ordered ps ev mode evaluator))
    \<and> (\<forall>q \<in> set ps. applies_to (ev_phase ev) q \<and> blocks evaluator mode ev q \<longrightarrow> goes_before (ev_phase ev) p q)"
proof (cases "find (blocks evaluator mode ev) (ordered_policies ps (ev_phase ev))")
  case None
  then show ?thesis using assms by (simp add: evaluate_ordered_def decide_in_order_find)
next
  case (Some p)
  note p = find_first [OF Some sorted_ordered_policies goes_before_refl]
  then obtain a r where "policy_action_of evaluator mode ev p = Some (a, r)"
    by (auto simp: blocks_def split: option.splits)
  then show ?thesis using p Some
    by (intro bexI [of _ p]) (auto simp: evaluate_ordered_def decide_in_order_find set_ordered_policies)
qed

lemma allowed_iff_nothing_blocks:
  "sd_action (evaluate_ordered ps ev mode evaluator) = ActAllow \<longleftrightarrow>
     (\<forall>p \<in> set ps. applies_to (ev_phase ev) p \<longrightarrow> \<not> blocks evaluator mode ev p)"
proof (cases "find (blocks evaluator mode ev) (ordered_policies ps (ev_phase ev))")
  case None
  then have "\<forall>p \<in> set (ordered_policies ps (ev_phase ev)). \<not> blocks evaluator mode ev p"
    by (simp add: find_None_iff)
  with None show ?thesis by (simp add: evaluate_ordered_def decide_in_order_find set_ordered_policies)
next
  case (Some p)
  note p = find_first [OF Some sorted_ordered_policies goes_before_refl]
  then obtain a r where "policy_action_of evaluator mode ev p = Some (a, r)" "a \<noteq> ActAllow"
    by (auto simp: blocks_def split: option.splits)
  with Some p show ?thesis by (auto simp: evaluate_ordered_def decide_in_order_find set_ordered_policies)
qed

lemma normalize_allow: "normalize_action v = Inr (ActAllow, r) \<longleftrightarrow> upper (vd_action v) = ''ALLOW'' \<and> r = vd_reason v"
  by (auto simp: normalize_action_def Let_def)

lemma enforced_blocks:
  "\<not> blocks evaluator Enforce ev p \<longleftrightarrow>
     evaluator p ev = Inr None \<or> (\<exists>v. evaluator p ev = Inr (Some v) \<and> upper (vd_action v) = ''ALLOW'')"
proof (cases "evaluator p ev")
  case (Inl exc)
  then show ?thesis by (simp add: blocks_def policy_action_of_def undecided_def Let_def)
next
  case (Inr ov)
  show ?thesis
  proof (cases ov)
    case None
    with Inr show ?thesis by (simp add: blocks_def policy_action_of_def)
  next
    case (Some v)
    show ?thesis
    proof (cases "upper (vd_action v) = ''ALLOW''")
      case True
      then have "normalize_action v = Inr (ActAllow, vd_reason v)" by (simp add: normalize_allow)
      with True Inr Some show ?thesis by (simp add: blocks_def policy_action_of_def)
    next
      case False
      then have "a \<noteq> ActAllow" if "normalize_action v = Inr (a, r)" for a r using that normalize_allow by blast
      with False Inr Some show ?thesis
        by (cases "normalize_action v") (auto simp: blocks_def policy_action_of_def undecided_def Let_def)
    qed
  qed
qed

text \<open>
  C25: Enforcement fails closed: an event is let through exactly when every policy that applies to its
  phase abstained or said ALLOW.  An evaluator that raises or answers with an unknown action, and an
  ASK that nobody could be asked, refuse it; and the decision is the one of a refusing policy that no
  other refusing policy goes before in rank order.
\<close>

theorem enforcement_fails_closed:
  "sd_action (evaluate_ordered ps ev Enforce evaluator) = ActAllow \<longleftrightarrow>
     (\<forall>p \<in> set ps. applies_to (ev_phase ev) p \<longrightarrow>
        evaluator p ev = Inr None \<or> (\<exists>v. evaluator p ev = Inr (Some v) \<and> upper (vd_action v) = ''ALLOW''))"
  by (simp add: allowed_iff_nothing_blocks enforced_blocks)

lemma dry_run_action:
  "case (policy_action_of evaluator Enforce ev p, policy_action_of evaluator DryRun ev p) of
     (None, None) \<Rightarrow> True
   | (Some (a, r), Some (a', r')) \<Rightarrow> r' = r \<and> (a' = a \<or> a = ActDeny \<and> a' = ActUnavailable)
   | _ \<Rightarrow> False"
  by (auto simp: policy_action_of_def undecided_def Let_def split: sum.splits option.splits)

lemma dry_run_blocks: "blocks evaluator DryRun ev p = blocks evaluator Enforce ev p"
  using dry_run_action [of evaluator ev p] by (auto simp: blocks_def split: option.splits)

text \<open>
  A dry run records what enforcement would have done: the same policy decides with the same reason
  and rank, and the action is the same, except that a refusal for want of a verdict is recorded as
  UNAVAILABLE instead of DENY.
\<close>

theorem dry_run_records_enforcement:
  "(let e = evaluate_ordered ps ev Enforce evaluator; d = evaluate_ordered ps ev DryRun evaluator
    in sd_policy d = sd_policy e \<and> sd_rank d = sd_rank e \<and> sd_reason d = sd_reason e \<and>
       sd_action d \<in> (if sd_action e = ActDeny then {ActDeny, ActUnavailable} else {sd_action e}))"
proof -
  let ?ps = "ordered_policies ps (ev_phase ev)"
  have same: "find (blocks evaluator DryRun ev) ?ps = find (blocks evaluator Enforce ev) ?ps"
    by (simp add: dry_run_blocks [abs_def])
  show ?thesis
  proof (cases "find (blocks evaluator Enforce ev) ?ps")
    case None
    with same show ?thesis by (simp add: evaluate_ordered_def decide_in_order_find)
  next
    case (Some p)
    then have "blocks evaluator Enforce ev p" by (auto simp: find_Some_iff)
    then show ?thesis using dry_run_action [of evaluator ev p] same Some
      by (auto simp: evaluate_ordered_def decide_in_order_find blocks_def split: option.splits)
  qed
qed

subsection \<open>Tool calls\<close>

lemma gate_evaluator_allow:
  "gate_evaluator ctx host cfg att ev = Inr r \<Longrightarrow>
   pr_action r = Allow \<longleftrightarrow> sd_action (gate_decision ctx host cfg att (pe_tool ev) (pe_args ev)) = ActAllow"
  by (auto simp: gate_evaluator_def Let_def split: sp_action.splits)

lemma gate_evaluator_labels: "gate_evaluator ctx host cfg att ev = Inr r \<Longrightarrow> pr_labels r = []"
  by (auto simp: gate_evaluator_def Let_def split: sp_action.splits)

lemma gate_call_refused:
  assumes "find_approval (fp tool args) Approved (gt_approvals g) = None"
    and "find_approval (fp tool args) Refused (gt_approvals g) = Some (i, a)"
  shows "fst (gate_call_with evaluator fp mode new_id now tool args g) = RefusedEarlier tool (ap_id a)"
  using assms by (simp add: gate_call_with_def consume_granted_def consume_denied_def consume_def)

lemma gate_call_granted:
  assumes "find_approval (fp tool args) Approved (gt_approvals g) = Some (i, a)"
  shows "gate_call_with evaluator fp mode new_id now tool args g = (Allowed, g\<lparr>gt_approvals := ddel i (gt_approvals g)\<rparr>)"
  using assms by (simp add: gate_call_with_def consume_granted_def consume_def)

lemma gate_call_fresh:
  assumes "find_approval (fp tool args) Approved (gt_approvals g) = None"
    and "find_approval (fp tool args) Refused (gt_approvals g) = None"
  shows "gate_call_with evaluator fp mode new_id now tool args g =
    (case evaluator \<lparr>pe_phase = ''tool_call'', pe_tool = Some tool, pe_args = Some args, pe_content = None, pe_context = gt_context g\<rparr> of
       Inl exc \<Rightarrow> (PolicyRaised exc, g)
     | Inr res \<Rightarrow>
         (let g' = g\<lparr>gt_labels := dict_update (gt_labels g) (pr_labels res)\<rparr>
          in case pr_action res of
               Deny \<Rightarrow> (PolicyDenied (deny_reason tool (pr_reason res)), g')
             | Ask \<Rightarrow>
                 (let (a, s3) = request_approval fp new_id tool args (pr_reason res) (gt_approvals g);
                      (out, s4) = ask_human mode now tool a s3
                  in (out, g'\<lparr>gt_approvals := s4\<rparr>))
             | Allow \<Rightarrow> (Allowed, g')))"
  using assms by (simp add: gate_call_with_def consume_granted_def consume_denied_def consume_def Let_def split: sum.split)

text \<open>A gate that finds no recorded answer lets a call through only on its own ALLOW.\<close>

lemma run_gate_allowed:
  assumes "find_approval (fp tool args) Approved (ad_approvals ad) = None" and "mode \<in> {NoThread, FirstPass}"
    and "run_gate ctx host cfg fp mode i now tool args att ad = (Allowed, ad')"
  shows "sd_action (gate_decision ctx host cfg att (Some tool) (Some args)) = ActAllow
    \<and> ad' = ad\<lparr>ad_decisions := ad_decisions ad @ [gate_decision ctx host cfg att (Some tool) (Some args)]\<rparr>"
proof -
  let ?g = "\<lparr>gt_policies = [], gt_approvals = ad_approvals ad, gt_labels = [], gt_context = ctx\<rparr>"
  let ?ev = "\<lparr>pe_phase = ''tool_call'', pe_tool = Some tool, pe_args = Some args, pe_content = None, pe_context = ctx\<rparr>"
  obtain g where call: "gate_call_with (gate_evaluator ctx host cfg att) fp mode i now tool args ?g = (Allowed, g)"
    and ad': "ad' = \<lparr>ad_approvals = gt_approvals g,
                ad_decisions = (if find_approval (fp tool args) Refused (ad_approvals ad) = None
                  then ad_decisions ad @ [gate_decision ctx host cfg att (Some tool) (Some args)] else ad_decisions ad)\<rparr>"
    using assms(1,3) by (auto simp: run_gate_def Let_def split: prod.splits)
  have none: "find_approval (fp tool args) Refused (ad_approvals ad) = None"
  proof (cases "find_approval (fp tool args) Refused (ad_approvals ad)")
    case (Some x)
    then show ?thesis using call assms(1) gate_call_refused [of fp tool args ?g "fst x" "snd x"] by (auto simp: prod_eq_iff)
  qed
  obtain r where r: "gate_evaluator ctx host cfg att ?ev = Inr r" and act: "pr_action r = Allow" and g: "g = ?g"
    using call assms(1,2) none
    by (auto simp: gate_call_fresh ask_human_def Let_def dict_update_def gate_evaluator_labels
        split: sum.splits policy_action.splits prod.splits)
  show ?thesis using gate_evaluator_allow [OF r] act ad' g none by simp
qed

lemma dget_gates_of:
  assumes "distinct (map at_name atts)" and "att \<in> set atts" and "at_mode att = Enforce"
  shows "dget (fold (\<lambda>att d. if at_mode att = Enforce then dset (at_name att) att d else d) atts d) (at_name att) = Some att"
proof -
  let ?f = "\<lambda>att d. if at_mode att = Enforce then dset (at_name att) att d else d"
  have other: "dget (fold ?f xs d) n = dget d n" if "n \<notin> at_name ` set xs" for xs d n
    using that by (induction xs arbitrary: d) (auto simp: dget_dset)
  show ?thesis using assms
  proof (induction atts arbitrary: d)
    case (Cons a atts)
    show ?case
    proof (cases "att = a")
      case True
      then show ?thesis using Cons.prems other [of "at_name a" atts "?f a d"] by (simp add: dget_dset)
    next
      case False
      then show ?thesis using Cons by simp
    qed
  qed simp
qed

lemma tool_loop_allowed:
  assumes "find_approval (fp tool args) Approved (ad_approvals ad) = None" and "\<forall>n. mode n \<in> {NoThread, FirstPass}"
    and "\<forall>att \<in> set atts. at_mode att = Enforce \<longrightarrow> dget (gates_of cfg) (at_name att) = Some att"
    and "tool_loop ctx host cfg fp mode ids now tool args atts ad = (Allowed, ad')"
  shows "(\<forall>att \<in> set atts. at_mode att = Enforce \<longrightarrow> sd_action (gate_decision ctx host cfg att (Some tool) (Some args)) = ActAllow)
    \<and> ad' = ad\<lparr>ad_decisions := ad_decisions ad @ map (\<lambda>att. gate_decision ctx host cfg att (Some tool) (Some args)) atts\<rparr>"
  using assms
proof (induction atts arbitrary: ad)
  case (Cons att atts)
  show ?case
  proof (cases "at_mode att = Enforce")
    case True
    then have "dget (gates_of cfg) (at_name att) = Some att" using Cons.prems(3) by simp
    then obtain ad1 where gate: "run_gate ctx host cfg fp (mode (at_name att)) (ids (at_name att)) now tool args att ad = (Allowed, ad1)"
      and rest: "tool_loop ctx host cfg fp mode ids now tool args atts ad1 = (Allowed, ad')"
      using Cons.prems(4) True by (auto split: prod.splits gate_outcome.splits)
    note g = run_gate_allowed [OF Cons.prems(1) _ gate]
    then have g': "sd_action (gate_decision ctx host cfg att (Some tool) (Some args)) = ActAllow"
      "ad1 = ad\<lparr>ad_decisions := ad_decisions ad @ [gate_decision ctx host cfg att (Some tool) (Some args)]\<rparr>"
      using Cons.prems(2) by auto
    then show ?thesis using Cons.IH [OF _ Cons.prems(2) _ rest] Cons.prems(1,3) by simp
  next
    case False
    let ?ad = "ad\<lparr>ad_decisions := ad_decisions ad @ [gate_decision ctx host cfg att (Some tool) (Some args)]\<rparr>"
    have "tool_loop ctx host cfg fp mode ids now tool args atts ?ad = (Allowed, ad')"
      using Cons.prems(4) False by (simp add: evaluate_attachment_def gate_decision_def Let_def)
    note rest = Cons.IH [OF _ Cons.prems(2) _ this]
    show ?thesis using rest Cons.prems(1,3) False by simp
  qed
qed simp

text \<open>
  A tool call without a recorded approval that nobody answers mid-turn passes only if every
  enforced attachment allows it; the decision of every attachment, dry runs included, is recorded, in
  the order of the attachments, and no approval is created or consumed.
\<close>

theorem tool_call_needs_every_attachment:
  assumes "sc_mirror cfg" and "distinct (map at_name (sc_attachments cfg))"
    and "find_approval (fp tool args) Approved (ad_approvals ad) = None" and "\<forall>n. mode n \<in> {NoThread, FirstPass}"
    and "for_tool ctx host cfg fp mode ids now tool args ad = (Allowed, ad')"
  shows "(\<forall>att \<in> set (sc_attachments cfg). at_mode att = Enforce \<longrightarrow>
      sd_action (gate_decision ctx host cfg att (Some tool) (Some args)) = ActAllow)
    \<and> ad_approvals ad' = ad_approvals ad
    \<and> ad_decisions ad' = ad_decisions ad @ map (\<lambda>att. gate_decision ctx host cfg att (Some tool) (Some args)) (sc_attachments cfg)"
proof -
  have gates: "\<forall>att \<in> set (sc_attachments cfg). at_mode att = Enforce \<longrightarrow> dget (gates_of cfg) (at_name att) = Some att"
    using dget_gates_of [OF assms(2)] by (simp add: gates_of_def)
  have "tool_loop ctx host cfg fp mode ids now tool args (sc_attachments cfg) ad = (Allowed, ad')"
    using assms(1,5) by (simp add: for_tool_def)
  from tool_loop_allowed [OF assms(3,4) gates this] show ?thesis by simp
qed

subsection \<open>Two attachments, one approval store\<close>

lemma dset_last: "dget d k = None \<Longrightarrow> dset k v (d @ [(k, w)]) = d @ [(k, v)]"
  by (induction d) (auto split: if_splits)

lemma dget_last: "dget d k = None \<Longrightarrow> dget (d @ [(k, v)]) k = Some v"
  by (induction d) (auto split: if_splits)

lemma ddel_append: "ddel k (xs @ ys) = ddel k xs @ ddel k ys"
  by (simp add: AList.delete_eq)

lemma find_approval_snoc:
  "find_approval f st (s @ [(i, a)]) =
     (case find_approval f st s of Some x \<Rightarrow> Some x | None \<Rightarrow> if ap_fp a = f \<and> ap_status a = st then Some (i, a) else None)"
  by (induction s) (auto simp: find_approval_def)

lemma ask_human_approved:
  assumes "is_approved d" and "dget s (ap_id a) = None"
  shows "ask_human (Resumed d) now tool a (s @ [(ap_id a, a)]) =
    (Allowed, s @ [(ap_id a, a\<lparr>ap_status := Approved, ap_decided_by := None, ap_decided_at := Some now\<rparr>)])"
proof -
  have "dget (s @ [(ap_id a, a)]) (ap_id a) = Some a" by (rule dget_last [OF assms(2)])
  then show ?thesis using assms(1) by (simp add: ask_human_def approve_def decide_approval_def dset_last [OF assms(2)] Let_def del: map_of_append)
qed

text \<open>What a gate that has to ask does to a store without any answer for the call.\<close>

lemma run_gate_asks:
  assumes "sd_action (gate_decision ctx host cfg att (Some tool) (Some args)) = ActAsk"
    and "\<forall>st. find_approval (fp tool args) st (ad_approvals ad) = None" and "dget (ad_approvals ad) i = None"
  defines "a \<equiv> \<lparr>ap_id = i, ap_tool = tool, ap_args = args, ap_fp = fp tool args, ap_status = Pending,
      ap_reason = sd_reason (gate_decision ctx host cfg att (Some tool) (Some args)), ap_decided_by = None, ap_decided_at = None\<rparr>"
  shows "run_gate ctx host cfg fp mode i now tool args att ad =
    (case ask_human mode now tool a (ad_approvals ad @ [(i, a)]) of
       (out, s) \<Rightarrow> (out, \<lparr>ad_approvals = s,
                          ad_decisions = ad_decisions ad @ [gate_decision ctx host cfg att (Some tool) (Some args)]\<rparr>))"
  using assms
  by (simp add: run_gate_def gate_call_fresh gate_evaluator_def request_approval_def dset_new Let_def a_def split: prod.split)

text \<open>
  Attachments share one approval store, and an answer given mid-turn is stored but not consumed by
  the gate that asked.  So when the first of two enforced attachments asks and the person approves, the
  second one finds that approval, consumes it and passes the call without evaluating its policies:
  whatever they say, a denial included, the call is let through.
\<close>

theorem mid_turn_answer_overrides_other_attachment:
  assumes "sc_mirror cfg" and "sc_attachments cfg = [a, b]" and "at_mode a = Enforce" "at_mode b = Enforce" "at_name a \<noteq> at_name b"
    and "sd_action (gate_decision ctx host cfg a (Some tool) (Some args)) = ActAsk"
    and "mode (at_name a) = Resumed answer" and "is_approved answer"
    and "\<forall>st. find_approval (fp tool args) st (ad_approvals ad) = None" and "dget (ad_approvals ad) (ids (at_name a)) = None"
  shows "for_tool ctx host cfg fp mode ids now tool args ad =
    (Allowed, \<lparr>ad_approvals = ad_approvals ad,
               ad_decisions = ad_decisions ad @ [gate_decision ctx host cfg a (Some tool) (Some args)]\<rparr>)"
proof -
  let ?i = "ids (at_name a)"
  let ?ap = "\<lparr>ap_id = ?i, ap_tool = tool, ap_args = args, ap_fp = fp tool args, ap_status = Approved,
      ap_reason = sd_reason (gate_decision ctx host cfg a (Some tool) (Some args)), ap_decided_by = None, ap_decided_at = Some now\<rparr>"
  let ?ad = "\<lparr>ad_approvals = ad_approvals ad @ [(?i, ?ap)],
      ad_decisions = ad_decisions ad @ [gate_decision ctx host cfg a (Some tool) (Some args)]\<rparr>"
  have gates: "dget (gates_of cfg) (at_name a) = Some a" "dget (gates_of cfg) (at_name b) = Some b"
    using assms(2-5) by (simp_all add: gates_of_def dget_dset)
  have first: "run_gate ctx host cfg fp (mode (at_name a)) ?i now tool args a ad = (Allowed, ?ad)"
    using assms(7,8,10) ask_human_approved [of answer "ad_approvals ad" "?ap\<lparr>ap_status := Pending, ap_decided_at := None\<rparr>"]
    by (simp add: run_gate_asks [where fp = fp and i = ?i, OF assms(6,9,10)])
  have found: "find_approval (fp tool args) Approved (ad_approvals ?ad) = Some (?i, ?ap)"
    using assms(9) by (simp add: find_approval_snoc)
  have "ddel ?i (ad_approvals ad) = ad_approvals ad"
    using assms(10) by (simp add: AList.delete_id dget_None_iff)
  then have second: "run_gate ctx host cfg fp (mode (at_name b)) (ids (at_name b)) now tool args b ?ad =
      (Allowed, ?ad\<lparr>ad_approvals := ad_approvals ad\<rparr>)"
    using found by (simp add: run_gate_def gate_call_granted ddel_append)
  show ?thesis using assms(1-4) gates first second by (simp add: for_tool_def)
qed

text \<open>
  The turn-boundary flow: a call that raises \<open>ApprovalRequired\<close> is approved and made again, \<open>n\<close> times.
\<close>

fun approve_and_retry ::
  "(('a, 'f) adapter \<Rightarrow> ('a, 'f) gate_outcome \<times> ('a, 'f) adapter) \<Rightarrow> string \<Rightarrow> nat \<Rightarrow> ('a, 'f) adapter \<Rightarrow> ('a, 'f) gate_outcome" where
  "approve_and_retry call now 0 ad = fst (call ad)"
| "approve_and_retry call now (Suc n) ad =
     (case call ad of
        (ApprovalRequired a, ad') \<Rightarrow>
          (case approve (ap_id a) None now (ad_approvals ad') of
             Inl _ \<Rightarrow> ApprovalVanished (ap_id a)
           | Inr (_, s) \<Rightarrow> approve_and_retry call now n (ad'\<lparr>ad_approvals := s\<rparr>))
      | (out, _) \<Rightarrow> out)"

lemma run_gate_asks_no_thread:
  assumes "sd_action (gate_decision ctx host cfg att (Some tool) (Some args)) = ActAsk" and "ad_approvals ad = []"
  shows "\<exists>ap ad'. run_gate ctx host cfg fp NoThread i now tool args att ad = (ApprovalRequired ap, ad')
    \<and> ad_approvals ad' = [(ap_id ap, ap)] \<and> ap_fp ap = fp tool args"
  using run_gate_asks [where fp = fp and i = i and ad = ad, OF assms(1)] assms(2)
  by (simp add: find_approval_def ask_human_def)

definition only_grant :: "'f \<Rightarrow> ('a, 'f) approval_store \<Rightarrow> bool" where
  "only_grant f s \<longleftrightarrow> s = [] \<or> (\<exists>i x. s = [(i, x)] \<and> ap_fp x = f \<and> ap_status x = Approved)"

lemma asking_pair_step:
  assumes "sc_mirror cfg" and "sc_attachments cfg = [a, b]" and "at_mode a = Enforce" "at_mode b = Enforce" "at_name a \<noteq> at_name b"
    and "\<forall>att \<in> {a, b}. sd_action (gate_decision ctx host cfg att (Some tool) (Some args)) = ActAsk"
    and "only_grant (fp tool args) (ad_approvals ad)"
  shows "\<exists>ap ad'. for_tool ctx host cfg fp (\<lambda>n. NoThread) ids now tool args ad = (ApprovalRequired ap, ad')
    \<and> ad_approvals ad' = [(ap_id ap, ap)] \<and> ap_fp ap = fp tool args"
proof -
  have gates: "dget (gates_of cfg) (at_name a) = Some a" "dget (gates_of cfg) (at_name b) = Some b"
    using assms(2-5) by (simp_all add: gates_of_def dget_dset)
  have ask_b: "sd_action (gate_decision ctx host cfg b (Some tool) (Some args)) = ActAsk" using assms(6) by simp
  show ?thesis
  proof (cases "ad_approvals ad = []")
    case True
    obtain ap ad' where "run_gate ctx host cfg fp NoThread (ids (at_name a)) now tool args a ad = (ApprovalRequired ap, ad')"
      "ad_approvals ad' = [(ap_id ap, ap)]" "ap_fp ap = fp tool args"
      using run_gate_asks_no_thread [where att = a and fp = fp and i = "ids (at_name a)", OF _ True] assms(6) by blast
    then show ?thesis using assms(1-5) gates by (simp add: for_tool_def)
  next
    case False
    then obtain i x where x: "ad_approvals ad = [(i, x)]" "ap_fp x = fp tool args" "ap_status x = Approved"
      using assms(7) by (auto simp: only_grant_def)
    let ?ad = "ad\<lparr>ad_approvals := []\<rparr>"
    have first: "run_gate ctx host cfg fp NoThread (ids (at_name a)) now tool args a ad = (Allowed, ?ad)"
      using x by (simp add: run_gate_def gate_call_with_def consume_granted_def consume_def find_approval_def)
    obtain ap ad' where "run_gate ctx host cfg fp NoThread (ids (at_name b)) now tool args b ?ad = (ApprovalRequired ap, ad')"
      "ad_approvals ad' = [(ap_id ap, ap)]" "ap_fp ap = fp tool args"
      using run_gate_asks_no_thread [where ad = ?ad and fp = fp and i = "ids (at_name b)" and now = now, OF ask_b] by auto
    then show ?thesis using assms(1-5) gates first by (simp add: for_tool_def)
  qed
qed

text \<open>
  In the turn-boundary flow a call that two enforced attachments ask about never gets through:
  however often the pending approval is granted and the call made again, the first gate consumes the
  grant and the second one asks anew.
\<close>

theorem two_asking_attachments_never_pass:
  assumes "sc_mirror cfg" and "sc_attachments cfg = [a, b]" and "at_mode a = Enforce" "at_mode b = Enforce" "at_name a \<noteq> at_name b"
    and "\<forall>att \<in> {a, b}. sd_action (gate_decision ctx host cfg att (Some tool) (Some args)) = ActAsk"
  shows "\<exists>ap. approve_and_retry (for_tool ctx host cfg fp (\<lambda>n. NoThread) ids now tool args) now' n
      \<lparr>ad_approvals = [], ad_decisions = ds\<rparr> = ApprovalRequired ap"
proof -
  have "\<exists>ap. approve_and_retry (for_tool ctx host cfg fp (\<lambda>n. NoThread) ids now tool args) now' n ad = ApprovalRequired ap"
    if "only_grant (fp tool args) (ad_approvals ad)" for ad
    using that
  proof (induction n arbitrary: ad)
    case 0
    obtain ap ad' where "for_tool ctx host cfg fp (\<lambda>n. NoThread) ids now tool args ad = (ApprovalRequired ap, ad')"
      using asking_pair_step [where fp = fp and ids = ids and now = now, OF assms 0] by blast
    then show ?case by simp
  next
    case (Suc n)
    from asking_pair_step [where fp = fp and ids = ids and now = now, OF assms Suc.prems] obtain ap ad'
      where call: "for_tool ctx host cfg fp (\<lambda>n. NoThread) ids now tool args ad = (ApprovalRequired ap, ad')"
        and s: "ad_approvals ad' = [(ap_id ap, ap)]" "ap_fp ap = fp tool args"
      by blast
    then show ?case using Suc.IH by (simp add: approve_def decide_approval_def only_grant_def Let_def)
  qed
  then show ?thesis by (simp add: only_grant_def)
qed

subsection \<open>Native plans\<close>

lemma plan_policy_complete:
  "snd (plan_policy cap att p) = [] \<Longrightarrow> fst (plan_policy cap att p) = map (safe_operation att p) (phases_of (sp_phase p))"
  by (auto simp: plan_policy_def filter_empty_conv intro: filter_True split: if_splits)

lemma plan_attachment_complete:
  assumes "snd (plan_attachment caps att) = []"
  shows "fst (plan_attachment caps att) =
    concat (map (\<lambda>p. map (safe_operation att p) (phases_of (sp_phase p))) (at_policies att))"
proof (cases "dget caps (at_target_type att)")
  case None
  with assms show ?thesis by (simp add: plan_attachment_def)
next
  case (Some cap)
  with assms show ?thesis
    by (auto simp: plan_attachment_def plan_policy_complete intro!: arg_cong [where f = concat] map_cong)
qed

text \<open>
  A required native plan is all or nothing: if one is built at all, the capabilities were given by
  the caller and cover application and verification, nothing was found unsupported, and there is
  exactly one operation for every policy and phase of every attachment, in declaration order.
\<close>

theorem required_plan_is_complete:
  assumes "sc_native cfg = NativeRequired" and "build_native_plan given cfg = Inr plan"
  shows "np_unsupported plan = []
    \<and> np_operations plan = concat (map (\<lambda>att. concat (map (\<lambda>p. map (safe_operation att p) (phases_of (sp_phase p)))
        (at_policies att))) (sc_attachments cfg))
    \<and> (\<exists>caps. given = Some caps \<and> caps \<noteq> [] \<and> list_all (\<lambda>c. nc_apply c \<and> nc_verify c) (map snd caps))"
proof -
  define caps where "caps = (case given of None \<Rightarrow> default_capabilities | Some [] \<Rightarrow> default_capabilities | Some cs \<Rightarrow> cs)"
  have none: "plan_complaints caps cfg = []"
    and plan: "plan = \<lparr>np_mode = NativeRequired, np_operations = concat (map (\<lambda>att. fst (plan_attachment caps att)) (sc_attachments cfg)),
      np_unsupported = []\<rparr>"
    using assms by (auto simp: build_native_plan_def caps_def Let_def split: if_splits)
  have "\<forall>att \<in> set (sc_attachments cfg). snd (plan_attachment caps att) = []"
    using none by (simp add: plan_complaints_def)
  then have ops: "np_operations plan = concat (map (\<lambda>att. concat (map (\<lambda>p. map (safe_operation att p) (phases_of (sp_phase p)))
        (at_policies att))) (sc_attachments cfg))"
    by (simp add: plan plan_attachment_complete cong: map_cong)
  have all: "list_all (\<lambda>c. nc_apply c \<and> nc_verify c) (map snd caps)"
    using none assms(1) by (auto simp: plan_complaints_def list_all_iff split: if_splits)
  have "caps \<noteq> default_capabilities" using all by (auto simp: default_capabilities_def)
  then have "\<exists>cs. given = Some cs \<and> cs \<noteq> [] \<and> caps = cs"
    by (auto simp: caps_def split: option.splits list.splits)
  with ops all plan show ?thesis by auto
qed

text \<open>Application that returns has sent every operation, in order.\<close>

lemma apply_ops_complete:
  "apply_ops show_val transport ops s = (Inr applied, s') \<Longrightarrow>
   map (\<lambda>(p, t, st). (p, t)) applied = map (\<lambda>op. (no_policy op, no_target op)) ops"
  by (induction ops arbitrary: s applied s')
    (auto split: prod.splits sum.splits pyval.splits)

text \<open>A read-back that answers with an empty object counts as observed.\<close>

lemma silent_read_back_is_observed:
  "strip profile \<noteq> [] \<Longrightarrow> np_unsupported plan = [] \<Longrightarrow>
   verify_native_plan (\<lambda>op s. (Inr (PDict []), s)) profile plan s =
     (Inr (map (\<lambda>op. (no_policy op, no_target op, True)) (np_operations plan), True), s)"
proof -
  have "verify_ops (\<lambda>op s. (Inr (PDict []), s)) ops s = (Inr (map (\<lambda>op. (no_policy op, no_target op, True)) ops), s)" for ops
    by (induction ops) (auto simp: reads_back_def)
  then show "strip profile \<noteq> [] \<Longrightarrow> np_unsupported plan = [] \<Longrightarrow> ?thesis" by (simp add: verify_native_plan_def)
qed

subsection \<open>Further facts\<close>

text \<open>A judge policy never sees the result of a tool.\<close>

lemma judge_never_sees_result: "judge_eval llm (ev\<lparr>ev_result := r\<rparr>) = judge_eval llm ev"
proof -
  have "policy_event_of (ev\<lparr>ev_result := r\<rparr>) = policy_event_of ev" by (simp add: policy_event_of_def)
  then show ?thesis by (simp only: judge_eval_def)
qed

text \<open>Policies of the same name in different attachments are all decided by the evaluator of the last one.\<close>

lemma last_policy_of_a_name_decides:
  assumes "all_policies cfg = ps @ p # qs" and "sp_name p \<notin> sp_name ` set qs" and "sp_name q = sp_name p"
  shows "local_evaluator host cfg q = policy_evaluator host cfg p"
proof -
  let ?f = "\<lambda>p d. dset (sp_name p) (policy_evaluator host cfg p) d"
  have "dget (fold ?f qs d) n = dget d n" if "n \<notin> sp_name ` set qs" for d n
    using that by (induction qs arbitrary: d) (auto simp: dget_dset)
  then have "dget (build_evaluators host cfg) (sp_name p) = Some (policy_evaluator host cfg p)"
    using assms(1,2) by (simp add: build_evaluators_def dget_dset)
  then show ?thesis using assms(3) by (simp add: local_evaluator_def fun_eq_iff)
qed

subsection \<open>Concrete configurations\<close>

definition demo_policy :: "string \<Rightarrow> service_policy" where
  "demo_policy n = \<lparr>sp_name = n, sp_kind = SqlFunction, sp_builtin = None, sp_classifier = None, sp_prompt = None,
     sp_function = Some ''f'', sp_phase = OnCall, sp_rank = 1\<rparr>"

definition demo_attachment :: "string \<Rightarrow> sp_attachment" where
  "demo_attachment n = \<lparr>at_name = n, at_target_type = McpService, at_target = ''t'', at_mode = Enforce, at_policies = [demo_policy n]\<rparr>"

definition demo_sp :: "native_mode \<Rightarrow> sp_config" where
  "demo_sp m = \<lparr>sc_mirror = True, sc_native = m, sc_attachments = [demo_attachment ''a'', demo_attachment ''b''], sc_abac = False\<rparr>"

definition demo_host :: "string \<Rightarrow> string \<Rightarrow> (nat, nat) sp_host" where
  "demo_host x y = \<lparr>sh_injected = [(''a'', \<lambda>ev. plain_verdict x), (''b'', \<lambda>ev. plain_verdict y)], sh_governance = None,
     sh_classifier = \<lambda>p ev. Inl [], sh_dump_args = \<lambda>n. []\<rparr>"

lemma demo_decision:
  assumes "upper x = x" "upper y = y" and "x \<in> {''ALLOW'', ''ASK'', ''DENY''}" "y \<in> {''ALLOW'', ''ASK'', ''DENY''}"
  shows "sd_action (gate_decision ctx (demo_host x y) (demo_sp m) (demo_attachment ''a'') (Some t) (Some n)) =
      (if x = ''ALLOW'' then ActAllow else if x = ''ASK'' then ActAsk else ActDeny)"
    and "sd_action (gate_decision ctx (demo_host x y) (demo_sp m) (demo_attachment ''b'') (Some t) (Some n)) =
      (if y = ''ALLOW'' then ActAllow else if y = ''ASK'' then ActAsk else ActDeny)"
  using assms
  by (auto simp: gate_decision_def evaluate_ordered_def ordered_policies_def demo_attachment_def demo_policy_def make_event_def
      policy_action_of_def local_evaluator_def build_evaluators_def all_policies_def demo_sp_def policy_evaluator_def
      demo_host_def plain_verdict_def normalize_action_def Let_def)

lemma demo_upper: "upper ''ALLOW'' = ''ALLOW''" "upper ''ASK'' = ''ASK''" "upper ''DENY'' = ''DENY''"
  by code_simp+

theorem enforcement_fails_closed_witness:
  "sd_action (evaluate_ordered [demo_policy ''a''] (make_event [] (demo_attachment ''a'') OnCall None None (Some (0 :: nat)) (None :: nat option))
      Enforce (\<lambda>p ev. Inl ''timeout'')) \<noteq> ActAllow"
  unfolding enforcement_fails_closed by (simp add: applies_to_def demo_policy_def make_event_def)

theorem tool_call_needs_every_attachment_witness:
  "ad_decisions (snd (for_tool [] (demo_host ''ALLOW'' ''ALLOW'') (demo_sp NativeOff) (\<lambda>t n. n) (\<lambda>n. NoThread) (\<lambda>n. n) ''now'' ''t'' 7
       \<lparr>ad_approvals = [], ad_decisions = []\<rparr>)) =
   map (\<lambda>att. gate_decision [] (demo_host ''ALLOW'' ''ALLOW'') (demo_sp NativeOff) att (Some ''t'') (Some 7)) (sc_attachments (demo_sp NativeOff))"
proof -
  let ?ad = "\<lparr>ad_approvals = [], ad_decisions = []\<rparr>" and ?h = "demo_host ''ALLOW'' ''ALLOW''" and ?c = "demo_sp NativeOff"
  have d: "sd_action (gate_decision [] ?h ?c (demo_attachment ''a'') (Some ''t'') (Some 7)) = ActAllow"
      "sd_action (gate_decision [] ?h ?c (demo_attachment ''b'') (Some ''t'') (Some 7)) = ActAllow"
    using demo_decision [of "''ALLOW''" "''ALLOW''"] by (simp_all add: demo_upper)
  obtain ad' where call: "for_tool [] ?h ?c (\<lambda>t n. n) (\<lambda>n. NoThread) (\<lambda>n. n) ''now'' ''t'' 7 ?ad = (Allowed, ad')"
    using d by (simp add: for_tool_def demo_sp_def gates_of_def demo_attachment_def run_gate_def gate_call_fresh
        find_approval_def gate_evaluator_def Let_def dget_dset)
  have "sc_mirror ?c" "distinct (map at_name (sc_attachments ?c))"
    by (simp_all add: demo_sp_def demo_attachment_def)
  from tool_call_needs_every_attachment [where fp = "\<lambda>t n. n", OF this _ _ call] call show ?thesis
    by (simp add: find_approval_def)
qed

theorem mid_turn_answer_overrides_other_attachment_witness:
  "fst (for_tool [] (demo_host ''ASK'' ''DENY'') (demo_sp NativeOff) (\<lambda>t n. n) (\<lambda>n. Resumed (PBool True)) (\<lambda>n. n) ''now'' ''t'' 7
      \<lparr>ad_approvals = [], ad_decisions = []\<rparr>) = Allowed"
proof -
  have "sd_action (gate_decision [] (demo_host ''ASK'' ''DENY'') (demo_sp NativeOff) (demo_attachment ''a'') (Some ''t'') (Some 7)) = ActAsk"
    using demo_decision(1) [of "''ASK''" "''DENY''"] by (simp add: demo_upper)
  then show ?thesis
    using mid_turn_answer_overrides_other_attachment [of "demo_sp NativeOff" "demo_attachment ''a''" "demo_attachment ''b''" "[]"
        "demo_host ''ASK'' ''DENY''" "''t''" 7 "\<lambda>n. Resumed (PBool True)" "PBool True" "\<lambda>t n. n" "\<lparr>ad_approvals = [], ad_decisions = []\<rparr>" "\<lambda>n. n" "''now''"]
    by (simp add: demo_sp_def demo_attachment_def find_approval_def is_approved_def)
qed

theorem two_asking_attachments_never_pass_witness:
  "\<exists>ap. approve_and_retry (for_tool [] (demo_host ''ASK'' ''ASK'') (demo_sp NativeOff) (\<lambda>t n. n) (\<lambda>n. NoThread) (\<lambda>n. n) ''now'' ''t'' 7)
      ''now'' 100 \<lparr>ad_approvals = [], ad_decisions = []\<rparr> = ApprovalRequired ap"
proof (rule two_asking_attachments_never_pass)
  show "\<forall>att \<in> {demo_attachment ''a'', demo_attachment ''b''}.
      sd_action (gate_decision [] (demo_host ''ASK'' ''ASK'') (demo_sp NativeOff) att (Some ''t'') (Some 7)) = ActAsk"
    using demo_decision [of "''ASK''" "''ASK''"] by (simp add: demo_upper)
qed (simp_all add: demo_sp_def demo_attachment_def)

theorem required_plan_is_complete_witness:
  "map no_policy (np_operations (projr (build_native_plan
      (Some [(McpService, \<lparr>nc_kinds = [SqlFunction], nc_phases = [OnCall], nc_apply = True, nc_verify = True\<rparr>)]) (demo_sp NativeRequired))))
   = [''a'', ''b'']"
proof -
  let ?caps = "Some [(McpService, \<lparr>nc_kinds = [SqlFunction], nc_phases = [OnCall], nc_apply = True, nc_verify = True\<rparr>)]"
  obtain plan where plan: "build_native_plan ?caps (demo_sp NativeRequired) = Inr plan"
    by (simp add: build_native_plan_def plan_complaints_def demo_sp_def demo_attachment_def demo_policy_def plan_attachment_def
        plan_policy_def phases_of_def)
  have "sc_native (demo_sp NativeRequired) = NativeRequired" by (simp add: demo_sp_def)
  from required_plan_is_complete [OF this plan] plan show ?thesis
    by (simp add: demo_sp_def demo_attachment_def demo_policy_def phases_of_def safe_operation_def)
qed

text \<open>
  The input hook hands the detectors the JSON text of the messages, in which a line break is a
  backslash and a letter: the pattern that allows white space between the words no longer matches.
\<close>

lemma json_text_hides_line_breaks:
  "prompt_injection_check None m (MText (''system'' @ [CHR 0x0A] @ ''prompt:'')) = Some m
   \<and> jailbreak_eval dump (make_event ctx att OnCall (Some (''[{'' @ [CHR 0x22] @ ''content'' @ [CHR 0x22] @ '': '' @ [CHR 0x22] @ ''system'' @ [CHR 0x5C]
        @ ''nprompt:'' @ [CHR 0x22] @ ''}]'')) None None None) = plain_verdict ''ALLOW''"
proof -
  let ?json = "''[{'' @ [CHR 0x22] @ ''content'' @ [CHR 0x22] @ '': '' @ [CHR 0x22] @ ''system'' @ [CHR 0x5C] @ ''nprompt:'' @ [CHR 0x22] @ ''}]''"
  have "list_ex (\<lambda>r. re_search r (''system'' @ [CHR 0x0A] @ ''prompt:'')) injection_patterns" by code_simp
  moreover have "\<not> list_ex (\<lambda>r. re_search r ?json) injection_patterns" by code_simp
  ultimately show ?thesis
    by (simp add: prompt_injection_check_def jailbreak_eval_def make_event_def pget_def list_ex_iff)
qed

end
