(* ===== verification/Workspace_Graph.thy ===== *)
theory Workspace_Graph
  imports Apx_Prelude "HOL-Library.Product_Lexorder"
begin

text \<open>
  The workspace graph: \<open>workspace_graph/schema.py\<close> and \<open>workspace_graph/builder.py\<close>.  Connector
  fragments are merged into nodes and adjacency lists, over which the code answers lookups, impact,
  lineage and orphan queries; a shared cache hands out built graphs.

  What a connector returns (a fragment, or the reason it raised) and the fuzzy string matcher are
  parameters.  \<open>defaultdict\<close> entries created by reading are empty lists and invisible.  Threads
  interleave at the two locked sections of \<open>get_graph\<close>, which are the steps of a transition relation.
\<close>

subsection \<open>Nodes, edges, fragments\<close>

datatype edge_type = Contains | FeedsInto | DerivedFrom | IndexesFrom | Serves | Uses

definition arrow_is_downstream :: "edge_type \<Rightarrow> bool" where
  "arrow_is_downstream t = (case t of Contains \<Rightarrow> True | FeedsInto \<Rightarrow> True | _ \<Rightarrow> False)"

record gnode =
  nd_id :: string
  nd_type :: string
  nd_name :: string
  nd_fqn :: string
  nd_props :: "(string \<times> pyval) list"

record gedge =
  ed_src :: string
  ed_dst :: string
  ed_type :: edge_type

record fragment =
  fr_nodes :: "gnode list"
  fr_edges :: "gedge list"
  fr_warnings :: "string list"

definition node_id :: "string \<Rightarrow> string \<Rightarrow> string" where
  "node_id prefix fqn = prefix @ '':'' @ lower fqn"

definition resource_prefix :: "(string \<times> string) list" where
  "resource_prefix =
     [(''uc_table'', ''table''), (''uc_function'', ''function''), (''genie_space'', ''genie''),
      (''serving_endpoint'', ''serving''), (''vector_search_index'', ''vsindex''), (''app'', ''app'')]"

definition resource_node_id :: "string \<Rightarrow> string \<Rightarrow> string option" where
  "resource_node_id kind identifier = map_option (\<lambda>p. node_id p identifier) (dget resource_prefix kind)"

definition container_types :: "string list" where
  "container_types = [''Catalog'', ''Schema'']"

subsection \<open>Merging\<close>

record graph =
  g_nodes :: "(string \<times> gnode) list"
  g_edges :: "gedge list"
  g_warnings :: "string list"
  g_out :: "(string \<times> gedge list) list"
  g_in :: "(string \<times> gedge list) list"
  g_by_fqn :: "(string \<times> gnode) list"

definition set_default :: "'k \<Rightarrow> 'v \<Rightarrow> ('k \<times> 'v) list \<Rightarrow> ('k \<times> 'v) list" where
  "set_default k v d = (case dget d k of None \<Rightarrow> dset k v d | Some _ \<Rightarrow> d)"

definition entries :: "(string \<times> 'v list) list \<Rightarrow> string \<Rightarrow> 'v list" where
  "entries d k = (case dget d k of None \<Rightarrow> [] | Some xs \<Rightarrow> xs)"

definition append_at :: "string \<Rightarrow> 'v \<Rightarrow> (string \<times> 'v list) list \<Rightarrow> (string \<times> 'v list) list" where
  "append_at k v d = dset k (entries d k @ [v]) d"

text \<open>An edge seen before, or with an end outside the loaded scope, is dropped.\<close>

definition add_edge :: "gedge \<Rightarrow> graph \<Rightarrow> graph" where
  "add_edge e g =
     (if e \<in> set (g_edges g) \<or> dget (g_nodes g) (ed_src e) = None \<or> dget (g_nodes g) (ed_dst e) = None then g
      else g\<lparr>g_edges := g_edges g @ [e], g_out := append_at (ed_src e) e (g_out g), g_in := append_at (ed_dst e) e (g_in g)\<rparr>)"

definition merge_nodes :: "fragment list \<Rightarrow> (string \<times> gnode) list" where
  "merge_nodes frags = fold (\<lambda>n. set_default (nd_id n) n) (concat (map fr_nodes frags)) []"

definition new_graph :: "fragment list \<Rightarrow> string list \<Rightarrow> graph" where
  "new_graph frags warnings =
     (let nodes = merge_nodes frags;
          g0 = \<lparr>g_nodes = nodes, g_edges = [], g_warnings = warnings @ concat (map fr_warnings frags), g_out = [], g_in = [],
                g_by_fqn = []\<rparr>;
          g1 = fold add_edge (concat (map fr_edges frags)) g0
      in g1\<lparr>g_by_fqn := fold (\<lambda>n. dset (lower (nd_fqn n)) n) (map snd nodes) []\<rparr>)"

subsection \<open>Queries\<close>

definition first_some :: "'a option \<Rightarrow> 'a option \<Rightarrow> 'a option" where
  "first_some x y = (case x of None \<Rightarrow> y | Some _ \<Rightarrow> x)"

definition resolve :: "graph \<Rightarrow> string \<Rightarrow> gnode option" where
  "resolve g identifier =
     (let key = strip identifier
      in first_some (dget (g_nodes g) key)
           (first_some (dget (g_nodes g) (lower key)) (dget (g_by_fqn g) (lower key))))"

definition search :: "graph \<Rightarrow> string \<Rightarrow> string option \<Rightarrow> gnode list" where
  "search g query asset_type =
     (let q = lower (strip query);
          kind = (case asset_type of None \<Rightarrow> None | Some [] \<Rightarrow> None | Some t \<Rightarrow> Some (lower t));
          hits = filter (\<lambda>n. (case kind of None \<Rightarrow> True | Some k \<Rightarrow> lower (nd_type n) = k)
                   \<and> (q = [] \<or> str_contains q (lower (nd_name n)) \<or> str_contains q (lower (nd_fqn n)) \<or> str_contains q (nd_id n)))
                 (map snd (g_nodes g))
      in sort_key (\<lambda>n. (lower (nd_name n), nd_id n)) hits)"

definition brief :: "gnode \<Rightarrow> string \<times> string \<times> string \<times> string" where
  "brief n = (nd_id n, nd_type n, nd_name n, nd_fqn n)"

text \<open>The answer of \<open>Graph.get\<close>; the outer option is the \<open>KeyError\<close> of \<open>self.nodes[...]\<close>, the inner one \<open>None\<close>.\<close>

record asset_view =
  av_node :: "(string \<times> string \<times> string \<times> string) \<times> (string \<times> pyval) list"
  av_outgoing :: "(edge_type \<times> string \<times> string \<times> string \<times> string) list"
  av_incoming :: "(edge_type \<times> string \<times> string \<times> string \<times> string) list"

fun ends_of :: "graph \<Rightarrow> (gedge \<Rightarrow> string) \<Rightarrow> gedge list \<Rightarrow> (edge_type \<times> string \<times> string \<times> string \<times> string) list option" where
  "ends_of g end_of [] = Some []"
| "ends_of g end_of (e # es) =
     (case dget (g_nodes g) (end_of e) of
        None \<Rightarrow> None
      | Some n \<Rightarrow> map_option ((#) (ed_type e, brief n)) (ends_of g end_of es))"

definition get_view :: "graph \<Rightarrow> string \<Rightarrow> asset_view option option" where
  "get_view g identifier =
     (case resolve g identifier of
        None \<Rightarrow> Some None
      | Some n \<Rightarrow>
          (case (ends_of g ed_dst (entries (g_out g) (nd_id n)), ends_of g ed_src (entries (g_in g) (nd_id n))) of
             (Some out, Some inc) \<Rightarrow> Some (Some \<lparr>av_node = (brief n, nd_props n), av_outgoing = out, av_incoming = inc\<rparr>)
           | _ \<Rightarrow> None))"

text \<open>\<open>Counter\<close>: how often each value occurs, in the order of first occurrence.\<close>

definition counter :: "'a list \<Rightarrow> ('a \<times> nat) list" where
  "counter xs = fold (\<lambda>x d. dset x (Suc (case dget d x of None \<Rightarrow> 0 | Some c \<Rightarrow> c)) d) xs []"

record graph_summary =
  gs_node_count :: nat
  gs_edge_count :: nat
  gs_node_types :: "(string \<times> nat) list"
  gs_edge_types :: "(edge_type \<times> nat) list"
  gs_warnings :: "string list"

definition summary :: "graph \<Rightarrow> graph_summary" where
  "summary g = \<lparr>gs_node_count = length (g_nodes g), gs_edge_count = length (g_edges g),
     gs_node_types = counter (map (nd_type \<circ> snd) (g_nodes g)), gs_edge_types = counter (map ed_type (g_edges g)),
     gs_warnings = g_warnings g\<rparr>"

text \<open>The neighbours one step down (or up) the dependencies: arrows that point that way, then arrows against it.\<close>

definition steps :: "graph \<Rightarrow> bool \<Rightarrow> bool \<Rightarrow> string \<Rightarrow> string list" where
  "steps g downstream data_flow_only n =
     map ed_dst (filter (\<lambda>e. \<not> (data_flow_only \<and> ed_type e = Contains) \<and> arrow_is_downstream (ed_type e) = downstream)
       (entries (g_out g) n))
     @ map ed_src (filter (\<lambda>e. \<not> (data_flow_only \<and> ed_type e = Contains) \<and> arrow_is_downstream (ed_type e) \<noteq> downstream)
       (entries (g_in g) n))"

text \<open>Deduplication keeping the first; \<open>seen\<close> is what was met before.\<close>

fun keep_first :: "'a list \<Rightarrow> 'a list \<Rightarrow> 'a list" where
  "keep_first [] seen = []"
| "keep_first (x # xs) seen = (if x \<in> set seen then keep_first xs seen else x # keep_first xs (x # seen))"

lemma set_keep_first: "set (keep_first xs seen) = set xs - set seen"
  by (induction xs arbitrary: seen) auto

lemma distinct_keep_first: "distinct (keep_first xs seen)"
  by (induction xs arbitrary: seen) (auto simp: set_keep_first)

definition targets :: "graph \<Rightarrow> string list" where
  "targets g = map ed_dst (concat (map snd (g_out g))) @ map ed_src (concat (map snd (g_in g)))"

lemma entries_in: "e \<in> set (entries d k) \<Longrightarrow> e \<in> set (concat (map snd d))"
  by (cases "dget d k") (auto simp: entries_def dest!: map_of_SomeD intro: rev_bexI)

lemma steps_targets: "set (steps g down flow n) \<subseteq> set (targets g)"
  by (auto simp: steps_def targets_def dest!: entries_in)

definition depth_reached :: "int option \<Rightarrow> int \<Rightarrow> bool" where
  "depth_reached depth level = (case depth of None \<Rightarrow> False | Some d \<Rightarrow> \<not> level < d)"

function bfs_loop :: "graph \<Rightarrow> bool \<Rightarrow> bool \<Rightarrow> int option \<Rightarrow> string list \<Rightarrow> string list \<Rightarrow> int \<Rightarrow> string list" where
  "bfs_loop g down flow depth frontier seen level =
     (if frontier = [] \<or> depth_reached depth level then []
      else let nxt = keep_first (concat (map (steps g down flow) frontier)) seen
           in nxt @ bfs_loop g down flow depth nxt (seen @ nxt) (level + 1))"
  by pat_completeness auto

termination
proof (relation "measures [\<lambda>(g, down, flow, depth, frontier, seen, level). card (set (targets g) - set seen),
                          \<lambda>(g, down, flow, depth, frontier, seen, level). length frontier]", goal_cases)
  case 1
  then show ?case by simp
next
  case (2 g down flow depth frontier seen level nxt)
  have sub: "set nxt \<subseteq> set (targets g) - set seen"
    using steps_targets [of g down flow] by (fastforce simp: 2(2) set_keep_first)
  show ?case
  proof (cases "nxt = []")
    case True
    with 2(1) show ?thesis by simp
  next
    case False
    then obtain m where "m \<in> set nxt" by (cases nxt) auto
    then have "set (targets g) - set (seen @ nxt) \<subset> set (targets g) - set seen" using sub by auto
    then show ?thesis by (simp add: psubset_card_mono)
  qed
qed

declare bfs_loop.simps [simp del]

text \<open>\<open>self.nodes[m]\<close>: nothing when a key is missing.\<close>

fun all_nodes :: "graph \<Rightarrow> string list \<Rightarrow> gnode list option" where
  "all_nodes g [] = Some []"
| "all_nodes g (m # ms) =
     (case dget (g_nodes g) m of None \<Rightarrow> None | Some n \<Rightarrow> map_option ((#) n) (all_nodes g ms))"

definition bfs :: "graph \<Rightarrow> string \<Rightarrow> bool \<Rightarrow> bool \<Rightarrow> int option \<Rightarrow> gnode list option" where
  "bfs g start down flow depth = all_nodes g (bfs_loop g down flow depth [start] [start] 0)"

definition impact :: "graph \<Rightarrow> string \<Rightarrow> gnode list option" where
  "impact g identifier =
     (case resolve g identifier of None \<Rightarrow> Some [] | Some n \<Rightarrow> bfs g (nd_id n) True False None)"

definition lineage :: "graph \<Rightarrow> string \<Rightarrow> int \<Rightarrow> (gnode list \<times> gnode list) option" where
  "lineage g identifier depth =
     (case resolve g identifier of
        None \<Rightarrow> Some ([], [])
      | Some n \<Rightarrow>
          (case (bfs g (nd_id n) False True (Some depth), bfs g (nd_id n) True True (Some depth)) of
             (Some up, Some down) \<Rightarrow> Some (up, down)
           | _ \<Rightarrow> None))"

definition orphans :: "graph \<Rightarrow> gnode list" where
  "orphans g =
     (let linked = map ed_src (filter (\<lambda>e. ed_type e \<noteq> Contains) (g_edges g))
                 @ map ed_dst (filter (\<lambda>e. ed_type e \<noteq> Contains) (g_edges g))
      in sort_key nd_id (filter (\<lambda>n. nd_type n \<notin> set container_types \<and> nd_id n \<notin> set linked) (map snd (g_nodes g))))"

text \<open>\<open>matcher\<close> is \<open>difflib.get_close_matches\<close>, which returns a list of the names it is given.\<close>

definition suggest :: "(string \<Rightarrow> string list \<Rightarrow> string list) \<Rightarrow> graph \<Rightarrow> string \<Rightarrow> string list" where
  "suggest matcher g identifier =
     (let ns = map snd (g_nodes g);
          names = fold (\<lambda>n. dset (lower (nd_name n)) (nd_id n)) ns (fold (\<lambda>n. dset (lower (nd_fqn n)) (nd_id n)) ns [])
      in keep_first (map (\<lambda>c. the (dget names c)) (matcher (lower identifier) (map fst names))) [])"

subsection \<open>Building\<close>

definition collect ::
  "string \<times> (string + fragment) \<Rightarrow> fragment list \<times> string list \<Rightarrow> fragment list \<times> string list" where
  "collect c acc =
     (case snd c of
        Inl reason \<Rightarrow> (fst acc, snd acc @ [fst c @ '': '' @ reason])
      | Inr frag \<Rightarrow>
          (fst acc @ [\<lparr>fr_nodes = fr_nodes frag, fr_edges = fr_edges frag, fr_warnings = []\<rparr>],
           snd acc @ map (\<lambda>w. fst c @ '': '' @ w) (fr_warnings frag)))"

definition build_graph ::
  "(string \<times> (string + fragment)) list \<Rightarrow> (string list \<Rightarrow> string + fragment) \<Rightarrow> graph" where
  "build_graph conns lineage_of =
     (let (frags, ws) = fold collect conns ([], []);
          tables = map nd_fqn (filter (\<lambda>n. nd_type n \<in> {''Table'', ''View''}) (concat (map fr_nodes frags)));
          (frags', ws') = collect (''lineage'', lineage_of tables) (frags, ws)
      in new_graph frags' (sort ws'))"

subsection \<open>What merging gives\<close>

definition ends_in :: "(string \<times> gnode) list \<Rightarrow> gedge \<Rightarrow> bool" where
  "ends_in nodes e \<longleftrightarrow> dget nodes (ed_src e) \<noteq> None \<and> dget nodes (ed_dst e) \<noteq> None"

definition graph_wf :: "graph \<Rightarrow> bool" where
  "graph_wf g \<longleftrightarrow>
     (\<forall>i n. dget (g_nodes g) i = Some n \<longrightarrow> nd_id n = i) \<and> (\<forall>e \<in> set (g_edges g). ends_in (g_nodes g) e)
     \<and> (\<forall>k. entries (g_out g) k = filter (\<lambda>e. ed_src e = k) (g_edges g))
     \<and> (\<forall>k. entries (g_in g) k = filter (\<lambda>e. ed_dst e = k) (g_edges g))"

lemma entries_append_at: "entries (append_at k v d) k' = (if k' = k then entries d k @ [v] else entries d k')"
  by (simp add: entries_def append_at_def dget_dset)

lemma add_edge_wf: "graph_wf g \<Longrightarrow> graph_wf (add_edge e g)"
  by (auto simp: graph_wf_def add_edge_def ends_in_def entries_append_at)

lemma add_edge_nodes [simp]: "g_nodes (add_edge e g) = g_nodes g"
  by (simp add: add_edge_def)

lemma add_edge_edges:
  "g_edges (add_edge e g) = (if e \<in> set (g_edges g) \<or> \<not> ends_in (g_nodes g) e then g_edges g else g_edges g @ [e])"
  by (auto simp: add_edge_def ends_in_def)

lemma fold_add_edge_nodes [simp]: "g_nodes (fold add_edge es g) = g_nodes g"
  by (induction es arbitrary: g) simp_all

lemma fold_add_edge_wf: "graph_wf g \<Longrightarrow> graph_wf (fold add_edge es g)"
  by (induction es arbitrary: g) (simp_all add: add_edge_wf)

lemma keep_first_cong: "set seen = set seen' \<Longrightarrow> keep_first xs seen = keep_first xs seen'"
proof (induction xs arbitrary: seen seen')
  case (Cons x xs)
  have "set (x # seen) = set (x # seen')" using Cons.prems by simp
  from Cons.IH [OF this] Cons.IH [OF Cons.prems] show ?case using Cons.prems by simp
qed simp

lemma fold_add_edge_edges:
  "g_edges (fold add_edge es g) = g_edges g @ keep_first (filter (ends_in (g_nodes g)) es) (g_edges g)"
proof (induction es arbitrary: g)
  case (Cons e es)
  have "keep_first xs (g_edges g @ [e]) = keep_first xs (e # g_edges g)" for xs
    by (rule keep_first_cong) auto
  then show ?case using Cons.IH [of "add_edge e g"] by (simp add: add_edge_edges)
qed simp

lemma dget_merge_from:
  "dget (fold (\<lambda>n. set_default (nd_id n) n) ns d) i =
     (case dget d i of Some n \<Rightarrow> Some n | None \<Rightarrow> find (\<lambda>n. nd_id n = i) ns)"
proof (induction ns arbitrary: d)
  case (Cons n ns)
  then show ?case by (cases "dget d (nd_id n)"; cases "dget d i") (auto simp: set_default_def dget_dset)
qed (simp split: option.split)

lemma dget_merge_nodes: "dget (merge_nodes frags) i = find (\<lambda>n. nd_id n = i) (concat (map fr_nodes frags))"
  by (simp add: merge_nodes_def dget_merge_from)

lemma graph_wf_by_fqn [simp]: "graph_wf (g\<lparr>g_by_fqn := d\<rparr>) = graph_wf g"
  by (simp add: graph_wf_def)

lemma new_graph_nodes: "g_nodes (new_graph frags ws) = merge_nodes frags"
  by (simp add: new_graph_def Let_def)

lemma new_graph_wf: "graph_wf (new_graph frags ws)"
proof -
  have "graph_wf \<lparr>g_nodes = merge_nodes frags, g_edges = [], g_warnings = w, g_out = [], g_in = [], g_by_fqn = []\<rparr>" for w
    by (auto simp: graph_wf_def dget_merge_nodes entries_def find_Some_iff)
  then show ?thesis by (simp add: new_graph_def Let_def fold_add_edge_wf)
qed

lemma new_graph_edges:
  "g_edges (new_graph frags ws) = keep_first (filter (ends_in (merge_nodes frags)) (concat (map fr_edges frags))) []"
  by (simp add: new_graph_def Let_def fold_add_edge_edges)

text \<open>
  Merging fragments keeps the first node of every id and, of the edges whose two ends are loaded,
  each once in the order they came; and the adjacency lists of a node are exactly its edges.
\<close>

theorem merge_spec:
  "dget (g_nodes (new_graph frags ws)) i = find (\<lambda>n. nd_id n = i) (concat (map fr_nodes frags))
   \<and> g_edges (new_graph frags ws) = keep_first (filter (\<lambda>e. dget (g_nodes (new_graph frags ws)) (ed_src e) \<noteq> None
       \<and> dget (g_nodes (new_graph frags ws)) (ed_dst e) \<noteq> None) (concat (map fr_edges frags))) []
   \<and> entries (g_out (new_graph frags ws)) i = filter (\<lambda>e. ed_src e = i) (g_edges (new_graph frags ws))
   \<and> entries (g_in (new_graph frags ws)) i = filter (\<lambda>e. ed_dst e = i) (g_edges (new_graph frags ws))"
proof -
  have "ends_in (merge_nodes frags) = (\<lambda>e. dget (g_nodes (new_graph frags ws)) (ed_src e) \<noteq> None
       \<and> dget (g_nodes (new_graph frags ws)) (ed_dst e) \<noteq> None)"
    by (simp add: ends_in_def new_graph_nodes fun_eq_iff)
  note edges = new_graph_edges [of frags ws, unfolded this]
  have "graph_wf (new_graph frags ws)" by (rule new_graph_wf)
  then have "entries (g_out (new_graph frags ws)) i = filter (\<lambda>e. ed_src e = i) (g_edges (new_graph frags ws))"
    "entries (g_in (new_graph frags ws)) i = filter (\<lambda>e. ed_dst e = i) (g_edges (new_graph frags ws))"
    unfolding graph_wf_def by blast+
  with edges show ?thesis by (metis dget_merge_nodes new_graph_nodes)
qed

subsection \<open>Breadth-first search is reachability\<close>

definition depends :: "graph \<Rightarrow> bool \<Rightarrow> bool \<Rightarrow> (string \<times> string) set" where
  "depends g down flow =
     {(x, y). \<exists>e \<in> set (g_edges g). \<not> (flow \<and> ed_type e = Contains) \<and>
        (if arrow_is_downstream (ed_type e) = down then x = ed_src e \<and> y = ed_dst e else x = ed_dst e \<and> y = ed_src e)}"

lemma set_steps: "graph_wf g \<Longrightarrow> set (steps g down flow n) = depends g down flow `` {n}"
proof -
  assume wf: "graph_wf g"
  have "entries (g_out g) n = filter (\<lambda>e. ed_src e = n) (g_edges g)"
    "entries (g_in g) n = filter (\<lambda>e. ed_dst e = n) (g_edges g)" using wf unfolding graph_wf_def by blast+
  then show ?thesis unfolding steps_def depends_def by (auto split: if_splits)
qed

text \<open>A path that leaves the visited set leaves it through the frontier, into the next level.\<close>

lemma path_through_next_level:
  assumes "(x, m) \<in> R ^^ k" and "x \<in> S" and "m \<notin> S \<union> new"
    and "R `` F \<subseteq> S \<union> new" and "R `` (S - F) \<subseteq> S"
  shows "\<exists>j < k. \<exists>y \<in> new. (y, m) \<in> R ^^ j \<and> 0 < j"
  using assms(1,2)
proof (induction k arbitrary: x)
  case 0
  with assms(3) show ?case by simp
next
  case (Suc k)
  from Suc.prems(1) obtain y where y: "(x, y) \<in> R" "(y, m) \<in> R ^^ k"
    by (rule relpow_Suc_E2)
  have "y \<in> S \<union> new" using assms(4,5) y(1) Suc.prems(2) by (cases "x \<in> F") auto
  then show ?case
  proof
    assume "y \<in> S"
    from Suc.IH [OF y(2) this] show ?thesis using less_SucI by blast
  next
    assume new: "y \<in> new"
    then have "k \<noteq> 0" using y(2) assms(3) by (cases k) auto
    then show ?thesis using new y(2) by blast
  qed
qed

definition in_depth :: "int option \<Rightarrow> int \<Rightarrow> nat \<Rightarrow> bool" where
  "in_depth depth level k = (case depth of None \<Rightarrow> True | Some d \<Rightarrow> level + int k \<le> d)"

lemma in_depth_stop: "depth_reached depth level \<Longrightarrow> 0 < k \<Longrightarrow> \<not> in_depth depth level k"
  by (cases depth) (simp_all add: depth_reached_def in_depth_def)

lemma in_depth_1: "\<not> depth_reached depth level \<Longrightarrow> in_depth depth level (Suc 0)"
  by (cases depth) (simp_all add: depth_reached_def in_depth_def)

lemma in_depth_Suc: "in_depth depth (level + 1) k = in_depth depth level (Suc k)"
  by (cases depth) (simp_all add: in_depth_def algebra_simps)

lemma in_depth_mono: "in_depth depth level k \<Longrightarrow> j \<le> k \<Longrightarrow> in_depth depth level j"
  by (cases depth) (simp_all add: in_depth_def)

definition found :: "graph \<Rightarrow> bool \<Rightarrow> bool \<Rightarrow> int option \<Rightarrow> int \<Rightarrow> string set \<Rightarrow> string \<Rightarrow> bool" where
  "found g down flow depth level F m \<longleftrightarrow>
     (\<exists>k > 0. in_depth depth level k \<and> (\<exists>f \<in> F. (f, m) \<in> depends g down flow ^^ k))"

lemma found_step:
  assumes "\<not> depth_reached depth level" and new: "new = depends g down flow `` F - S"
    and "F \<subseteq> S" and "depends g down flow `` (S - F) \<subseteq> S" and "m \<notin> S"
  shows "found g down flow depth level F m \<longleftrightarrow> m \<in> new \<or> (m \<notin> S \<union> new \<and> found g down flow depth (level + 1) new m)"
proof
  assume l: "found g down flow depth level F m"
  then obtain k f where kf: "0 < k" "in_depth depth level k" "f \<in> F" "(f, m) \<in> depends g down flow ^^ k"
    by (auto simp: found_def)
  show "m \<in> new \<or> (m \<notin> S \<union> new \<and> found g down flow depth (level + 1) new m)"
  proof (cases "m \<in> new")
    case False
    then have "\<exists>j < k. \<exists>y \<in> new. (y, m) \<in> depends g down flow ^^ j \<and> 0 < j"
      using path_through_next_level [OF kf(4), of S new F] assms kf(3) by blast
    then obtain j y where "j < k" "y \<in> new" "(y, m) \<in> depends g down flow ^^ j" "0 < j" by blast
    moreover have "in_depth depth level (Suc j)" using in_depth_mono [OF kf(2)] \<open>j < k\<close> by simp
    ultimately have "found g down flow depth (level + 1) new m" by (auto simp: found_def in_depth_Suc)
    then show ?thesis using False assms(5) by simp
  qed simp
next
  assume "m \<in> new \<or> (m \<notin> S \<union> new \<and> found g down flow depth (level + 1) new m)"
  then show "found g down flow depth level F m"
  proof
    assume "m \<in> new"
    then obtain f where f: "f \<in> F" "(f, m) \<in> depends g down flow" using new by blast
    show ?thesis unfolding found_def
      by (rule exI [of _ "Suc 0"]) (use f in_depth_1 [OF assms(1)] in auto)
  next
    assume "m \<notin> S \<union> new \<and> found g down flow depth (level + 1) new m"
    then obtain k y where ky: "in_depth depth level (Suc k)" "y \<in> new" "(y, m) \<in> depends g down flow ^^ k"
      by (auto simp: found_def in_depth_Suc)
    then obtain f where f: "f \<in> F" "(f, y) \<in> depends g down flow" using new by blast
    show ?thesis unfolding found_def
      by (rule exI [of _ "Suc k"]) (use f ky relpow_Suc_I2 [OF f(2) ky(3)] in blast)
  qed
qed

lemma bfs_loop_spec:
  assumes "graph_wf g" and "set frontier \<subseteq> set seen" and "depends g down flow `` (set seen - set frontier) \<subseteq> set seen"
  shows "set (bfs_loop g down flow depth frontier seen level) = {m. m \<notin> set seen \<and> found g down flow depth level (set frontier) m}
    \<and> distinct (bfs_loop g down flow depth frontier seen level)"
  using assms
proof (induction g down flow depth frontier seen level rule: bfs_loop.induct)
  case (1 g down flow depth frontier seen level)
  show ?case
  proof (cases "frontier = [] \<or> depth_reached depth level")
    case True
    then have "\<not> found g down flow depth level (set frontier) m" for m
      using in_depth_stop by (auto simp: found_def)
    with True show ?thesis by (simp add: bfs_loop.simps)
  next
    case False
    let ?nxt = "keep_first (concat (map (steps g down flow) frontier)) seen"
    let ?rest = "bfs_loop g down flow depth ?nxt (seen @ ?nxt) (level + 1)"
    have new: "set ?nxt = depends g down flow `` set frontier - set seen"
      by (auto simp: set_keep_first set_steps [OF 1(2)])
    have sub: "set ?nxt \<subseteq> set (seen @ ?nxt)" by simp
    have out: "depends g down flow `` (set (seen @ ?nxt) - set ?nxt) \<subseteq> set (seen @ ?nxt)"
      using 1(4) by (auto simp: new)
    have rest: "set ?rest = {m. m \<notin> set (seen @ ?nxt) \<and> found g down flow depth (level + 1) (set ?nxt) m} \<and> distinct ?rest"
      by (rule 1(1) [OF False refl 1(2) sub out])
    have "m \<in> set ?nxt \<or> m \<in> set ?rest \<longleftrightarrow> m \<notin> set seen \<and> found g down flow depth level (set frontier) m" for m
      using found_step [OF _ new 1(3,4), of depth level m] False rest new by auto
    moreover have "distinct (?nxt @ ?rest)" using rest by (auto simp: distinct_keep_first)
    ultimately show ?thesis using False by (auto simp: bfs_loop.simps [of g down flow depth frontier] Let_def)
  qed
qed

lemma all_nodes_some:
  assumes "\<forall>m \<in> set ms. \<exists>n. dget (g_nodes g) m = Some n \<and> nd_id n = m"
  shows "\<exists>ns. all_nodes g ms = Some ns \<and> map nd_id ns = ms"
  using assms by (induction ms) auto

lemma depends_loaded: "graph_wf g \<Longrightarrow> (x, m) \<in> depends g down flow \<Longrightarrow> \<exists>n. dget (g_nodes g) m = Some n \<and> nd_id n = m"
  unfolding graph_wf_def depends_def ends_in_def by (clarsimp split: if_splits) (metis option.exhaust)+

lemma found_loaded:
  assumes "graph_wf g" and "found g down flow depth level F m"
  shows "\<exists>n. dget (g_nodes g) m = Some n \<and> nd_id n = m"
proof -
  from assms(2) obtain k f where "0 < k" "(f, m) \<in> depends g down flow ^^ k" by (auto simp: found_def)
  then obtain j where "(f, m) \<in> depends g down flow ^^ Suc j" by (cases k) auto
  then obtain y where "(y, m) \<in> depends g down flow" by (rule relpow_Suc_E)
  with assms(1) show ?thesis by (rule depends_loaded)
qed

lemma bfs_spec:
  assumes "graph_wf g"
  shows "\<exists>ns. bfs g start down flow depth = Some ns \<and> distinct (map nd_id ns)
    \<and> set (map nd_id ns) = {m. m \<noteq> start \<and> found g down flow depth 0 {start} m}"
proof -
  let ?l = "bfs_loop g down flow depth [start] [start] 0"
  have l: "set ?l = {m. m \<noteq> start \<and> found g down flow depth 0 {start} m}" "distinct ?l"
    using bfs_loop_spec [OF assms, of "[start]" "[start]" down flow depth 0] by auto
  have "\<forall>m \<in> set ?l. \<exists>n. dget (g_nodes g) m = Some n \<and> nd_id n = m"
  proof
    fix m
    assume "m \<in> set ?l"
    then have "found g down flow depth 0 {start} m" by (simp add: l(1))
    with assms show "\<exists>n. dget (g_nodes g) m = Some n \<and> nd_id n = m" by (rule found_loaded)
  qed
  from all_nodes_some [OF this] obtain ns where "all_nodes g ?l = Some ns" "map nd_id ns = ?l" by blast
  moreover have "set (map nd_id ns) = set ?l" "distinct (map nd_id ns)" using l(2) calculation(2) by simp_all
  ultimately show ?thesis using l(1) unfolding bfs_def by blast
qed

lemma found_unbounded:
  assumes "m \<noteq> start"
  shows "found g down flow None level {start} m \<longleftrightarrow> (start, m) \<in> (depends g down flow)\<^sup>*"
proof
  show "(start, m) \<in> (depends g down flow)\<^sup>*" if "found g down flow None level {start} m"
    using that by (auto simp: found_def intro: relpow_imp_rtrancl)
next
  assume "(start, m) \<in> (depends g down flow)\<^sup>*"
  then obtain k where k: "(start, m) \<in> depends g down flow ^^ k" by (auto dest: rtrancl_imp_relpow)
  moreover have "0 < k" using k assms by (cases k) auto
  ultimately show "found g down flow None level {start} m" by (auto simp: found_def in_depth_def)
qed

lemma found_bounded: "found g down flow (Some d) 0 {start} m \<longleftrightarrow>
    (\<exists>k. 0 < k \<and> int k \<le> d \<and> (start, m) \<in> depends g down flow ^^ k)"
  by (auto simp: found_def in_depth_def)

lemma impact_spec:
  assumes "g = new_graph frags ws" and "resolve g identifier = Some n"
  shows "\<exists>ns. impact g identifier = Some ns \<and> distinct (map nd_id ns)
    \<and> set (map nd_id ns) = {m. m \<noteq> nd_id n \<and> (nd_id n, m) \<in> (depends g True False)\<^sup>*}"
proof -
  have "graph_wf g" by (simp add: assms(1) new_graph_wf)
  from bfs_spec [OF this, of "nd_id n" True False None] show ?thesis
    by (simp add: impact_def assms(2) found_unbounded cong: conj_cong)
qed

text \<open>
  C34: The impact of a known asset is computed without a missing key and lists, each once, exactly the
  other assets that depend on it through a chain of containments and data-flow edges.
\<close>

theorem impact_is_reachability:
  assumes "resolve (new_graph frags ws) identifier = Some n"
  shows "\<exists>ns. impact (new_graph frags ws) identifier = Some ns \<and> distinct (map nd_id ns)
    \<and> set (map nd_id ns) = {m. m \<noteq> nd_id n \<and> (nd_id n, m) \<in> (depends (new_graph frags ws) True False)\<^sup>*}"
  by (rule impact_spec [OF refl assms])

definition demo_node :: "string \<Rightarrow> string \<Rightarrow> gnode" where
  "demo_node prefix name = \<lparr>nd_id = node_id prefix name, nd_type = ''Table'', nd_name = name, nd_fqn = name, nd_props = []\<rparr>"

definition demo_frag :: fragment where
  "demo_frag = \<lparr>fr_nodes = [demo_node ''table'' ''A'', demo_node ''table'' ''B'', demo_node ''app'' ''C''],
     fr_edges = [\<lparr>ed_src = ''table:b'', ed_dst = ''table:a'', ed_type = DerivedFrom\<rparr>,
                 \<lparr>ed_src = ''app:c'', ed_dst = ''table:b'', ed_type = Uses\<rparr>],
     fr_warnings = []\<rparr>"

theorem impact_is_reachability_witness:
  "\<exists>ns. impact (new_graph [demo_frag] []) '' a'' = Some ns \<and> distinct (map nd_id ns)
    \<and> set (map nd_id ns) = {m. m \<noteq> ''table:a'' \<and> (''table:a'', m) \<in> (depends (new_graph [demo_frag] []) True False)\<^sup>*}"
proof -
  have known: "resolve (new_graph [demo_frag] []) '' a'' = Some (demo_node ''table'' ''A'')" by code_simp
  have "nd_id (demo_node ''table'' ''A'') = ''table:a''" by code_simp
  from impact_is_reachability [OF known, unfolded this] show ?thesis .
qed

lemma demo_impact: "map_option (map nd_id) (impact (new_graph [demo_frag] []) '' a'') = Some [''table:b'', ''app:c'']"
  by code_simp

lemma lineage_within_depth:
  assumes "g = new_graph frags ws" and "resolve g identifier = Some n"
  shows "\<exists>up down. lineage g identifier d = Some (up, down) \<and> distinct (map nd_id up) \<and> distinct (map nd_id down)
    \<and> set (map nd_id up) = {m. m \<noteq> nd_id n \<and> (\<exists>k > 0. int k \<le> d \<and> (nd_id n, m) \<in> depends g False True ^^ k)}
    \<and> set (map nd_id down) = {m. m \<noteq> nd_id n \<and> (\<exists>k > 0. int k \<le> d \<and> (nd_id n, m) \<in> depends g True True ^^ k)}"
proof -
  have wf: "graph_wf g" by (simp add: assms(1) new_graph_wf)
  obtain up where "bfs g (nd_id n) False True (Some d) = Some up \<and> distinct (map nd_id up)
      \<and> set (map nd_id up) = {m. m \<noteq> nd_id n \<and> found g False True (Some d) 0 {nd_id n} m}"
    using bfs_spec [OF wf] by blast
  moreover obtain dn where "bfs g (nd_id n) True True (Some d) = Some dn \<and> distinct (map nd_id dn)
      \<and> set (map nd_id dn) = {m. m \<noteq> nd_id n \<and> found g True True (Some d) 0 {nd_id n} m}"
    using bfs_spec [OF wf] by blast
  ultimately show ?thesis by (simp add: lineage_def assms(2) found_bounded)
qed

lemma ends_of_some:
  assumes "\<And>e. e \<in> set es \<Longrightarrow> dget (g_nodes g) (end_of e) \<noteq> None"
  shows "\<exists>vs. ends_of g end_of es = Some vs \<and> map (\<lambda>v. (fst v, Some (snd v))) vs
    = map (\<lambda>e. (ed_type e, map_option brief (dget (g_nodes g) (end_of e)))) es"
  using assms
proof (induction es)
  case (Cons e es)
  then obtain n where "dget (g_nodes g) (end_of e) = Some n" by fastforce
  with Cons show ?case by auto
qed simp

lemma get_view_spec:
  assumes "graph_wf g" and "resolve g identifier = Some n"
  shows "\<exists>v. get_view g identifier = Some (Some v) \<and> av_node v = (brief n, nd_props n)
    \<and> map (\<lambda>v. (fst v, Some (snd v))) (av_outgoing v)
        = map (\<lambda>e. (ed_type e, map_option brief (dget (g_nodes g) (ed_dst e)))) (filter (\<lambda>e. ed_src e = nd_id n) (g_edges g))
    \<and> map (\<lambda>v. (fst v, Some (snd v))) (av_incoming v)
        = map (\<lambda>e. (ed_type e, map_option brief (dget (g_nodes g) (ed_src e)))) (filter (\<lambda>e. ed_dst e = nd_id n) (g_edges g))"
proof -
  let ?out = "filter (\<lambda>e. ed_src e = nd_id n) (g_edges g)" and ?in = "filter (\<lambda>e. ed_dst e = nd_id n) (g_edges g)"
  have entries: "entries (g_out g) (nd_id n) = ?out" "entries (g_in g) (nd_id n) = ?in"
    using assms(1) unfolding graph_wf_def by blast+
  have loaded: "dget (g_nodes g) (ed_dst e) \<noteq> None" "dget (g_nodes g) (ed_src e) \<noteq> None" if "e \<in> set (g_edges g)" for e
    using assms(1) that unfolding graph_wf_def ends_in_def by blast+
  obtain out where "ends_of g ed_dst ?out = Some out" "map (\<lambda>v. (fst v, Some (snd v))) out
      = map (\<lambda>e. (ed_type e, map_option brief (dget (g_nodes g) (ed_dst e)))) ?out"
    using ends_of_some [of ?out g ed_dst] loaded by auto
  moreover obtain inc where "ends_of g ed_src ?in = Some inc" "map (\<lambda>v. (fst v, Some (snd v))) inc
      = map (\<lambda>e. (ed_type e, map_option brief (dget (g_nodes g) (ed_src e)))) ?in"
    using ends_of_some [of ?in g ed_src] loaded by auto
  ultimately show ?thesis by (simp add: get_view_def assms(2) entries)
qed

text \<open>Every dependency downstream is one upstream the other way round.\<close>

lemma upstream_is_converse: "depends g False flow = (depends g True flow)\<inverse>"
proof -
  have "(x, y) \<in> depends g False flow \<longleftrightarrow> (y, x) \<in> depends g True flow" for x y
    unfolding depends_def mem_Collect_eq prod.case by (rule bex_cong [OF refl]) auto
  then show ?thesis by auto
qed

lemma orphan_is_unlinked:
  assumes "graph_wf g" and "n \<in> set (orphans g)"
  shows "(nd_id n, m) \<notin> depends g down True"
  using assms(2) by (auto simp: orphans_def depends_def Let_def split: if_splits)

lemma orphan_has_no_lineage:
  assumes "g = new_graph frags ws" and "n \<in> set (orphans g)" and "resolve g identifier = Some n"
  shows "lineage g identifier d = Some ([], [])"
proof -
  have wf: "graph_wf g" by (simp add: assms(1) new_graph_wf)
  have "(nd_id n, m) \<notin> depends g down True ^^ k" if "0 < k" for m down k
  proof
    assume "(nd_id n, m) \<in> depends g down True ^^ k"
    with that obtain j where "(nd_id n, m) \<in> depends g down True ^^ Suc j" by (cases k) auto
    then obtain y where "(nd_id n, y) \<in> depends g down True" by (rule relpow_Suc_E2)
    then show False using orphan_is_unlinked [OF wf assms(2)] by blast
  qed
  then have none: "{m. m \<noteq> nd_id n \<and> (\<exists>k > 0. int k \<le> d \<and> (nd_id n, m) \<in> depends g down True ^^ k)} = {}" for down by blast
  from lineage_within_depth [OF assms(1,3), of d] show ?thesis unfolding none by auto
qed

lemma counter_from:
  "(case dget (fold (\<lambda>x d. dset x (Suc (case dget d x of None \<Rightarrow> 0 | Some c \<Rightarrow> c)) d) xs d) y of None \<Rightarrow> 0 | Some c \<Rightarrow> c)
   = (case dget d y of None \<Rightarrow> 0 | Some c \<Rightarrow> c) + count_list xs y"
  by (induction xs arbitrary: d) (simp_all add: dget_dset)

lemma counter_counts: "(case dget (counter xs) y of None \<Rightarrow> 0 | Some c \<Rightarrow> c) = count_list xs y"
  unfolding counter_def counter_from by simp

subsection \<open>The tools\<close>

text \<open>The six tools of \<open>tools.py\<close> answer from the graph, cutting lists at fifty and naming what could not be read.\<close>

definition list_cap :: nat where
  "list_cap = 50"

type_synonym brief_node = "string \<times> string \<times> string \<times> string"

record capped_list =
  cl_count :: nat
  cl_results :: "brief_node list"
  cl_truncated :: bool

definition capped :: "gnode list \<Rightarrow> capped_list" where
  "capped ns = \<lparr>cl_count = length ns, cl_results = map brief (take list_cap ns), cl_truncated = (list_cap < length ns)\<rparr>"

text \<open>Two lists cut separately, with one flag for both.\<close>

record 'a two_lists =
  tl_first :: "'a list"
  tl_first_count :: nat
  tl_second :: "'a list"
  tl_second_count :: nat
  tl_truncated :: bool

definition cut_both :: "'a list \<Rightarrow> 'a list \<Rightarrow> 'a two_lists" where
  "cut_both xs ys = \<lparr>tl_first = take list_cap xs, tl_first_count = length xs, tl_second = take list_cap ys,
     tl_second_count = length ys, tl_truncated = (list_cap < length xs \<or> list_cap < length ys)\<rparr>"

text \<open>An answer carries the warnings of the graph; it is \<open>partial\<close> when there are any.\<close>

datatype 'a tool_answer =
    NotFound string "string list" "string list"
  | Answer 'a "string list"

fun partial_answer :: "'a tool_answer \<Rightarrow> bool" where
  "partial_answer (NotFound i ids ws) = (ws \<noteq> [])"
| "partial_answer (Answer x ws) = (ws \<noteq> [])"

definition not_found :: "(string \<Rightarrow> string list \<Rightarrow> string list) \<Rightarrow> graph \<Rightarrow> string \<Rightarrow> 'a tool_answer" where
  "not_found matcher g identifier = NotFound identifier (suggest matcher g identifier) (g_warnings g)"

definition search_assets :: "graph \<Rightarrow> string \<Rightarrow> string option \<Rightarrow> capped_list tool_answer" where
  "search_assets g query asset_type = Answer (capped (search g query asset_type)) (g_warnings g)"

definition get_asset ::
  "(string \<Rightarrow> string list \<Rightarrow> string list) \<Rightarrow> graph \<Rightarrow> string
   \<Rightarrow> ((brief_node \<times> (string \<times> pyval) list) \<times> (edge_type \<times> brief_node) two_lists) tool_answer option" where
  "get_asset matcher g identifier =
     (case get_view g identifier of
        None \<Rightarrow> None
      | Some None \<Rightarrow> Some (not_found matcher g identifier)
      | Some (Some v) \<Rightarrow> Some (Answer (av_node v, cut_both (av_outgoing v) (av_incoming v)) (g_warnings g)))"

definition analyze_impact ::
  "(string \<Rightarrow> string list \<Rightarrow> string list) \<Rightarrow> graph \<Rightarrow> string \<Rightarrow> (brief_node \<times> capped_list) tool_answer option" where
  "analyze_impact matcher g identifier =
     (case resolve g identifier of
        None \<Rightarrow> Some (not_found matcher g identifier)
      | Some n \<Rightarrow> map_option (\<lambda>ns. Answer (brief n, capped ns) (g_warnings g)) (impact g (nd_id n)))"

definition get_lineage ::
  "(string \<Rightarrow> string list \<Rightarrow> string list) \<Rightarrow> graph \<Rightarrow> string \<Rightarrow> (brief_node \<times> brief_node two_lists) tool_answer option" where
  "get_lineage matcher g identifier =
     (case resolve g identifier of
        None \<Rightarrow> Some (not_found matcher g identifier)
      | Some n \<Rightarrow> map_option (\<lambda>(up, down). Answer (brief n, cut_both (map brief up) (map brief down)) (g_warnings g))
          (lineage g (nd_id n) 3))"

definition find_orphans :: "graph \<Rightarrow> (capped_list \<times> bool) tool_answer" where
  "find_orphans g =
     Answer (capped (orphans g), \<not> list_ex (starts_with ''lineage:'') (g_warnings g)) (g_warnings g)"

lemma by_fqn_from:
  "dget (fold (\<lambda>n. dset (lower (nd_fqn n)) n) ns d) k = Some n \<Longrightarrow> n \<in> set ns \<or> dget d k = Some n"
proof (induction ns arbitrary: d)
  case (Cons m ns)
  from Cons.IH [of "dset (lower (nd_fqn m)) m d"] Cons.prems show ?case by (auto simp: dget_dset split: if_splits)
qed simp

lemma dict_wf_merge_from: "dict_wf d \<Longrightarrow> dict_wf (fold (\<lambda>n. set_default (nd_id n) n) ns d)"
  by (induction ns arbitrary: d) (simp_all add: set_default_def split: option.split)

lemma resolve_loaded:
  assumes "resolve (new_graph frags ws) identifier = Some n"
  shows "dget (g_nodes (new_graph frags ws)) (nd_id n) = Some n"
proof -
  let ?g = "new_graph frags ws"
  have own: "nd_id m = i" if "dget (g_nodes ?g) i = Some m" for i m
    using new_graph_wf [of frags ws] that unfolding graph_wf_def by blast
  have wf: "dict_wf (g_nodes ?g)" by (simp add: new_graph_nodes merge_nodes_def dict_wf_merge_from)
  have "n \<in> set (map snd (g_nodes ?g))" if "dget (g_by_fqn ?g) i = Some n" for i
    using that by_fqn_from [of "map snd (merge_nodes frags)" "[]" i n] by (simp add: new_graph_def Let_def)
  then have "\<exists>i. dget (g_nodes ?g) i = Some n"
    using assms wf by (force simp: resolve_def first_some_def Let_def dget_in_set_iff split: option.splits)
  then show ?thesis using own by blast
qed

lemma resolve_own_id:
  assumes "resolve (new_graph frags ws) identifier = Some n" and "strip (nd_id n) = nd_id n"
  shows "resolve (new_graph frags ws) (nd_id n) = Some n"
  using resolve_loaded [OF assms(1)] by (simp add: resolve_def assms(2) first_some_def Let_def)

lemma card_of_ids: "distinct (map nd_id ns) \<Longrightarrow> set (map nd_id ns) = A \<Longrightarrow> length ns = card A"
  by (metis distinct_card length_map)

text \<open>The impact tool counts every dependent, however many it lists.\<close>

lemma impact_tool_counts:
  assumes "resolve (new_graph frags ws) identifier = Some n" and "strip (nd_id n) = nd_id n"
  shows "\<exists>c. analyze_impact matcher (new_graph frags ws) identifier = Some (Answer (brief n, c) (g_warnings (new_graph frags ws)))
    \<and> cl_count c = card {m. m \<noteq> nd_id n \<and> (nd_id n, m) \<in> (depends (new_graph frags ws) True False)\<^sup>*}
    \<and> length (cl_results c) = min (cl_count c) list_cap \<and> cl_truncated c = (list_cap < cl_count c)"
proof -
  obtain ns where ns: "impact (new_graph frags ws) (nd_id n) = Some ns" "distinct (map nd_id ns)"
    "set (map nd_id ns) = {m. m \<noteq> nd_id n \<and> (nd_id n, m) \<in> (depends (new_graph frags ws) True False)\<^sup>*}"
    using impact_spec [OF refl resolve_own_id [OF assms]] by blast
  then show ?thesis
    by (simp add: analyze_impact_def assms(1) capped_def card_of_ids [OF ns(2,3)])
qed

lemma lineage_never_fails: "lineage (new_graph frags ws) identifier d \<noteq> None"
proof (cases "resolve (new_graph frags ws) identifier")
  case (Some n)
  then show ?thesis using lineage_within_depth [OF refl Some, of d] by auto
qed (simp add: lineage_def)

lemma tools_never_fail:
  "get_asset matcher (new_graph frags ws) identifier \<noteq> None" (is ?asset)
  "get_lineage matcher (new_graph frags ws) identifier \<noteq> None" (is ?lineage)
proof -
  show ?asset
  proof (cases "resolve (new_graph frags ws) identifier")
    case (Some n)
    then show ?thesis using get_view_spec [OF new_graph_wf Some] by (auto simp: get_asset_def)
  qed (simp add: get_asset_def get_view_def)
  show ?lineage using lineage_never_fails by (auto simp: get_lineage_def split: option.split)
qed

end
