(* ===== verification/Graph_Cache.thy ===== *)
theory Graph_Cache
  imports Workspace_Graph
begin

text \<open>
  The shared cache of workspace graphs: \<open>get_graph\<close> of \<open>workspace_graph/builder.py\<close>.  Callers run in
  threads; what they share is \<open>_CACHE\<close>, \<open>_INFLIGHT\<close> and the futures stored in it.  The two locked
  sections and the calls on a future are the atomic steps of a transition system whose events name the
  thread that moves, the graph its build returned and the passing of time.

  \<open>cs_built\<close> is a ghost: the list of the builds that returned, with the key they were made for.
\<close>

subsection \<open>Keys\<close>

text \<open>The identity is the hexadecimal digest of the credential, which holds no bar.\<close>

definition graph_key :: "string \<Rightarrow> string list option \<Rightarrow> string" where
  "graph_key identity catalogs = identity @ ''|'' @ join '','' (sort (case catalogs of None \<Rightarrow> [] | Some cs \<Rightarrow> cs))"

lemma takeWhile_bar: "CHR ''|'' \<notin> set i \<Longrightarrow> takeWhile (\<lambda>c. c \<noteq> CHR ''|'') (i @ ''|'' @ r) = i"
  by (induction i) auto

lemma key_tells_identity:
  assumes "graph_key i cs = graph_key j ds" and "CHR ''|'' \<notin> set i" and "CHR ''|'' \<notin> set j"
  shows "i = j"
  using arg_cong [OF assms(1), of "takeWhile (\<lambda>c. c \<noteq> CHR ''|'')"] takeWhile_bar [OF assms(2)] takeWhile_bar [OF assms(3)]
  by (simp add: graph_key_def)

subsection \<open>State\<close>

definition cache_ttl :: pyfloat where
  "cache_ttl = 600"

definition partial_ttl :: pyfloat where
  "partial_ttl = 60"

record cached =
  ca_graph :: graph
  ca_at :: pyfloat
  ca_ttl :: pyfloat

text \<open>Where a thread is: it has read the clock; it builds; it has left the second locked section and must
  still resolve its future; it waits on another's future; it has returned or raised.\<close>

datatype caller =
    Arrived string pyfloat bool
  | Building string nat pyfloat
  | Resolving string nat "string + graph"
  | Waiting string nat
  | Returned string graph
  | Raised string string

record cache_state =
  cs_now :: pyfloat
  cs_cache :: "(string \<times> cached) list"
  cs_inflight :: "(string \<times> nat) list"
  cs_next :: nat
  cs_futures :: "(nat \<times> (string + graph)) list"
  cs_callers :: "(nat \<times> caller) list"
  cs_built :: "(string \<times> graph) list"

definition cache_init :: "pyfloat \<Rightarrow> cache_state" where
  "cache_init now = \<lparr>cs_now = now, cs_cache = [], cs_inflight = [], cs_next = 0, cs_futures = [], cs_callers = [], cs_built = []\<rparr>"

abbreviation goes :: "nat \<Rightarrow> caller \<Rightarrow> cache_state \<Rightarrow> cache_state" where
  "goes t c s \<equiv> s\<lparr>cs_callers := dset t c (cs_callers s)\<rparr>"

subsection \<open>The steps of a caller\<close>

definition fresh_hit :: "pyfloat \<Rightarrow> cached \<Rightarrow> bool" where
  "fresh_hit now c \<longleftrightarrow> now - ca_at c < ca_ttl c"

definition evict :: "pyfloat \<Rightarrow> (string \<times> cached) list \<Rightarrow> (string \<times> cached) list" where
  "evict now d = fold ddel (map fst (filter (\<lambda>(k, c). \<not> fresh_hit now c) d)) d"

definition join_or_build :: "nat \<Rightarrow> string \<Rightarrow> pyfloat \<Rightarrow> cache_state \<Rightarrow> cache_state" where
  "join_or_build t key now s =
     (let s' = s\<lparr>cs_cache := evict now (cs_cache s)\<rparr>
      in case dget (cs_inflight s') key of
           Some f \<Rightarrow> goes t (Waiting key f) s'
         | None \<Rightarrow> goes t (Building key (cs_next s') now)
             (s'\<lparr>cs_inflight := dset key (cs_next s') (cs_inflight s'), cs_next := Suc (cs_next s')\<rparr>))"

definition enter_lock :: "nat \<Rightarrow> string \<Rightarrow> pyfloat \<Rightarrow> bool \<Rightarrow> cache_state \<Rightarrow> cache_state" where
  "enter_lock t key now refresh s =
     (case dget (cs_cache s) key of
        Some hit \<Rightarrow>
          if \<not> refresh \<and> fresh_hit now hit then goes t (Returned key (ca_graph hit)) s
          else join_or_build t key now s
      | None \<Rightarrow> join_or_build t key now s)"

definition store_graph :: "nat \<Rightarrow> string \<Rightarrow> nat \<Rightarrow> pyfloat \<Rightarrow> graph \<Rightarrow> cache_state \<Rightarrow> cache_state" where
  "store_graph t key f now g s =
     goes t (Resolving key f (Inr g))
       (s\<lparr>cs_cache := dset key \<lparr>ca_graph = g, ca_at = now, ca_ttl = (if g_warnings g \<noteq> [] then partial_ttl else cache_ttl)\<rparr> (cs_cache s),
          cs_inflight := ddel key (cs_inflight s), cs_built := cs_built s @ [(key, g)]\<rparr>)"

definition drop_build :: "nat \<Rightarrow> string \<Rightarrow> nat \<Rightarrow> string \<Rightarrow> cache_state \<Rightarrow> cache_state" where
  "drop_build t key f reason s =
     goes t (Resolving key f (Inl reason)) (s\<lparr>cs_inflight := ddel key (cs_inflight s)\<rparr>)"

definition outcome :: "string \<Rightarrow> string + graph \<Rightarrow> caller" where
  "outcome key r = (case r of Inl reason \<Rightarrow> Raised key reason | Inr g \<Rightarrow> Returned key g)"

definition resolve_future :: "nat \<Rightarrow> string \<Rightarrow> nat \<Rightarrow> string + graph \<Rightarrow> cache_state \<Rightarrow> cache_state" where
  "resolve_future t key f r s = goes t (outcome key r) (s\<lparr>cs_futures := dset f r (cs_futures s)\<rparr>)"

datatype cache_event =
    Tick pyfloat
  | Call nat string "string list option" bool
  | Lock nat
  | BuildReturns nat graph
  | BuildRaises nat string
  | Resolve nat
  | Wake nat

text \<open>One step; \<open>None\<close> when the thread is not at that point (a waiter on an unresolved future stays blocked).\<close>

fun cache_step :: "cache_event \<Rightarrow> cache_state \<Rightarrow> cache_state option" where
  "cache_step (Tick d) s = (if 0 \<le> d then Some (s\<lparr>cs_now := cs_now s + d\<rparr>) else None)"
| "cache_step (Call t identity catalogs refresh) s =
     (case dget (cs_callers s) t of
        None \<Rightarrow> Some (goes t (Arrived (graph_key identity catalogs) (cs_now s) refresh) s)
      | Some _ \<Rightarrow> None)"
| "cache_step (Lock t) s =
     (case dget (cs_callers s) t of Some (Arrived key now refresh) \<Rightarrow> Some (enter_lock t key now refresh s) | _ \<Rightarrow> None)"
| "cache_step (BuildReturns t g) s =
     (case dget (cs_callers s) t of Some (Building key f now) \<Rightarrow> Some (store_graph t key f now g s) | _ \<Rightarrow> None)"
| "cache_step (BuildRaises t reason) s =
     (case dget (cs_callers s) t of Some (Building key f now) \<Rightarrow> Some (drop_build t key f reason s) | _ \<Rightarrow> None)"
| "cache_step (Resolve t) s =
     (case dget (cs_callers s) t of Some (Resolving key f r) \<Rightarrow> Some (resolve_future t key f r s) | _ \<Rightarrow> None)"
| "cache_step (Wake t) s =
     (case dget (cs_callers s) t of
        Some (Waiting key f) \<Rightarrow> map_option (\<lambda>r. goes t (outcome key r) s) (dget (cs_futures s) f)
      | _ \<Rightarrow> None)"

inductive cache_reach :: "cache_state \<Rightarrow> bool" where
  start: "cache_reach (cache_init now)"
| move: "cache_reach s \<Longrightarrow> cache_step e s = Some s' \<Longrightarrow> cache_reach s'"

inductive_cases cache_reachE: "cache_reach s"

fun run_events :: "cache_event list \<Rightarrow> cache_state \<Rightarrow> cache_state option" where
  "run_events [] s = Some s"
| "run_events (e # es) s = (case cache_step e s of None \<Rightarrow> None | Some s' \<Rightarrow> run_events es s')"

lemma run_events_reach: "run_events es s = Some s' \<Longrightarrow> cache_reach s \<Longrightarrow> cache_reach s'"
  by (induction es arbitrary: s) (auto split: option.splits intro: cache_reach.move)

subsection \<open>Invariant\<close>

fun owner_of :: "caller \<Rightarrow> (string \<times> nat) option" where
  "owner_of (Building key f now) = Some (key, f)"
| "owner_of (Resolving key f r) = Some (key, f)"
| "owner_of _ = None"

definition sound :: "(string \<times> graph) list \<Rightarrow> string \<Rightarrow> string + graph \<Rightarrow> bool" where
  "sound built key r = (case r of Inl reason \<Rightarrow> True | Inr g \<Rightarrow> (key, g) \<in> set built)"

definition owned :: "(nat \<times> caller) list \<Rightarrow> string \<Rightarrow> nat \<Rightarrow> bool" where
  "owned callers key f \<longleftrightarrow> (\<exists>t c. dget callers t = Some c \<and> owner_of c = Some (key, f))"

fun caller_ok :: "cache_state \<Rightarrow> caller \<Rightarrow> bool" where
  "caller_ok s (Arrived key now refresh) = True"
| "caller_ok s (Building key f now) = (dget (cs_inflight s) key = Some f \<and> f < cs_next s \<and> dget (cs_futures s) f = None)"
| "caller_ok s (Resolving key f r) = (f < cs_next s \<and> dget (cs_futures s) f = None \<and> sound (cs_built s) key r)"
| "caller_ok s (Waiting key f) =
     (f < cs_next s \<and> (case dget (cs_futures s) f of None \<Rightarrow> owned (cs_callers s) key f | Some r \<Rightarrow> sound (cs_built s) key r))"
| "caller_ok s (Returned key g) = ((key, g) \<in> set (cs_built s))"
| "caller_ok s (Raised key reason) = True"

definition callers_ok :: "cache_state \<Rightarrow> bool" where
  "callers_ok s \<longleftrightarrow> (\<forall>t c. dget (cs_callers s) t = Some c \<longrightarrow> caller_ok s c)"

definition sole_owners :: "(nat \<times> caller) list \<Rightarrow> bool" where
  "sole_owners callers \<longleftrightarrow> (\<forall>t c u c' k k' f. dget callers t = Some c \<and> dget callers u = Some c'
     \<and> owner_of c = Some (k, f) \<and> owner_of c' = Some (k', f) \<longrightarrow> t = u)"

definition builders_run :: "cache_state \<Rightarrow> bool" where
  "builders_run s \<longleftrightarrow> (\<forall>k f. dget (cs_inflight s) k = Some f \<longrightarrow> (\<exists>t n. dget (cs_callers s) t = Some (Building k f n)))"

definition futures_issued :: "cache_state \<Rightarrow> bool" where
  "futures_issued s \<longleftrightarrow> (\<forall>f r. dget (cs_futures s) f = Some r \<longrightarrow> f < cs_next s)"

definition cache_sound :: "cache_state \<Rightarrow> bool" where
  "cache_sound s \<longleftrightarrow> (\<forall>k c. dget (cs_cache s) k = Some c \<longrightarrow> (k, ca_graph c) \<in> set (cs_built s))"

definition cache_inv :: "cache_state \<Rightarrow> bool" where
  "cache_inv s \<longleftrightarrow> callers_ok s \<and> sole_owners (cs_callers s) \<and> builders_run s \<and> futures_issued s \<and> cache_sound s"

lemma inv_init: "cache_inv (cache_init now)"
  by (simp add: cache_inv_def cache_init_def callers_ok_def sole_owners_def builders_run_def futures_issued_def cache_sound_def)

lemma owner_ok: "caller_ok s c \<Longrightarrow> owner_of c = Some (k, f) \<Longrightarrow> f < cs_next s \<and> dget (cs_futures s) f = None"
  by (cases c) auto

lemma sole_owners_drop:
  assumes "sole_owners d" and "owner_of c = None \<or> (\<exists>c0. dget d t = Some c0 \<and> owner_of c0 = owner_of c)"
  shows "sole_owners (dset t c d)"
  using assms unfolding sole_owners_def dget_dset by (metis option.inject option.distinct(1))

lemma sole_owners_new:
  assumes "sole_owners d" and "\<And>u c' k f. dget d u = Some c' \<Longrightarrow> owner_of c' = Some (k, f) \<Longrightarrow> f < n" and "owner_of c = Some (key, n)"
  shows "sole_owners (dset t c d)"
  using assms unfolding sole_owners_def dget_dset by (smt (verit) less_irrefl option.inject prod.inject)

lemma owned_step:
  assumes "owned d k f" and "\<And>c0. dget d t = Some c0 \<Longrightarrow> owner_of c0 = Some (k, f) \<Longrightarrow> owner_of c = Some (k, f)"
  shows "owned (dset t c d) k f"
  using assms unfolding owned_def dget_dset by metis

lemma dget_fold_ddel: "dget (fold ddel ks d) k = (if k \<in> set ks then None else dget d k)"
  by (induction ks arbitrary: d) (auto simp: dget_ddel)

lemma evict_sub: "dget (evict now d) k = Some c \<Longrightarrow> dget d k = Some c"
  by (simp add: evict_def dget_fold_ddel split: if_splits)

lemma inv_tick: "cache_inv s \<Longrightarrow> cache_inv (s\<lparr>cs_now := n\<rparr>)"
proof -
  have "caller_ok (s\<lparr>cs_now := n\<rparr>) c = caller_ok s c" for c by (cases c) (simp_all split: option.split)
  then show "cache_inv s \<Longrightarrow> cache_inv (s\<lparr>cs_now := n\<rparr>)"
    by (simp add: cache_inv_def callers_ok_def builders_run_def futures_issued_def cache_sound_def)
qed

lemma builders_keep:
  assumes "builders_run s" and "\<And>k f n. dget (cs_callers s) t \<noteq> Some (Building k f n)"
  shows "builders_run (goes t c s)"
  unfolding builders_run_def
proof (intro allI impI)
  fix k f
  assume "dget (cs_inflight (goes t c s)) k = Some f"
  then obtain u n where u: "dget (cs_callers s) u = Some (Building k f n)"
    using assms(1) unfolding builders_run_def by force
  then have "u \<noteq> t" using assms(2) by auto
  with u show "\<exists>t' n. dget (cs_callers (goes t c s)) t' = Some (Building k f n)" by (auto simp: dget_dset)
qed

text \<open>A thread that owns no future moves to a state that owns none.\<close>

lemma inv_goes:
  assumes inv: "cache_inv s" and "\<And>c0. dget (cs_callers s) t = Some c0 \<Longrightarrow> owner_of c0 = None"
    and "owner_of c = None" and ok: "caller_ok s c"
  shows "cache_inv (goes t c s)"
proof -
  have owned: "owned (dset t c (cs_callers s)) k f" if "owned (cs_callers s) k f" for k f
    using that assms(2) by (intro owned_step) auto
  have keep: "caller_ok (goes t c s) c'" if "caller_ok s c'" for c'
    using that owned by (cases c') (auto split: option.splits)
  then have "callers_ok (goes t c s)"
    using inv ok unfolding cache_inv_def callers_ok_def by (auto simp: dget_dset)
  moreover have "sole_owners (dset t c (cs_callers s))"
    using inv assms(3) unfolding cache_inv_def by (intro sole_owners_drop) auto
  moreover have "builders_run (goes t c s)"
    using inv assms(2) unfolding cache_inv_def by (intro builders_keep) auto
  ultimately show ?thesis using inv unfolding cache_inv_def by (simp add: futures_issued_def cache_sound_def)
qed

lemma inv_evict:
  assumes "cache_inv s" and "\<And>k c. dget d k = Some c \<Longrightarrow> dget (cs_cache s) k = Some c"
  shows "cache_inv (s\<lparr>cs_cache := d\<rparr>)"
proof -
  have "caller_ok (s\<lparr>cs_cache := d\<rparr>) c = caller_ok s c" for c by (cases c) (simp_all split: option.split)
  with assms show ?thesis
    by (simp add: cache_inv_def callers_ok_def builders_run_def futures_issued_def cache_sound_def)
qed

lemma inv_new_build:
  assumes inv: "cache_inv s" and at: "dget (cs_callers s) t = Some c0" "owner_of c0 = None" and free: "dget (cs_inflight s) key = None"
  shows "cache_inv (goes t (Building key (cs_next s) now)
    (s\<lparr>cs_inflight := dset key (cs_next s) (cs_inflight s), cs_next := Suc (cs_next s)\<rparr>))" (is "cache_inv ?s")
proof -
  have unresolved: "dget (cs_futures s) (cs_next s) = None"
    using inv unfolding cache_inv_def futures_issued_def by (cases "dget (cs_futures s) (cs_next s)") auto
  have owned: "owned (dset t c (cs_callers s)) k f" if "owned (cs_callers s) k f" for k f c
    using that at by (intro owned_step) auto
  have "caller_ok ?s c'" if "caller_ok s c'" for c'
    using that owned free by (cases c') (auto simp: dget_dset split: option.splits)
  moreover have "caller_ok ?s (Building key (cs_next s) now)" by (simp add: dget_dset unresolved)
  ultimately have "callers_ok ?s" using inv unfolding cache_inv_def callers_ok_def by (auto simp: dget_dset)
  moreover have "sole_owners (cs_callers ?s)"
  proof -
    have "f < cs_next s" if "dget (cs_callers s) u = Some c'" "owner_of c' = Some (k, f)" for u c' k f
      using inv that owner_ok unfolding cache_inv_def callers_ok_def by blast
    then show ?thesis using inv sole_owners_new [of "cs_callers s" "cs_next s"] unfolding cache_inv_def by simp
  qed
  moreover have "builders_run ?s"
    using inv at unfolding cache_inv_def builders_run_def
    by (simp add: dget_dset) (metis option.inject option.distinct(1) owner_of.simps(1))
  moreover have "futures_issued ?s" using inv unfolding cache_inv_def futures_issued_def by (auto intro: less_SucI)
  ultimately show ?thesis using inv unfolding cache_inv_def cache_sound_def by simp
qed

lemma sound_mono: "sound built key r \<Longrightarrow> sound (built @ new) key r"
  by (auto simp: sound_def split: sum.splits)

text \<open>A builder leaves the second locked section, with a graph or without.\<close>

lemma inv_leave_build:
  assumes inv: "cache_inv s" and at: "dget (cs_callers s) t = Some (Building key f now)"
    and ok: "sound (cs_built s @ new) key r"
    and cache: "\<And>k c. dget d k = Some c \<Longrightarrow> (k, ca_graph c) \<in> set (cs_built s @ new)"
  shows "cache_inv (goes t (Resolving key f r)
    (s\<lparr>cs_cache := d, cs_inflight := ddel key (cs_inflight s), cs_built := cs_built s @ new\<rparr>))" (is "cache_inv ?s")
proof -
  have mine: "dget (cs_inflight s) key = Some f" "f < cs_next s" "dget (cs_futures s) f = None"
    using inv at unfolding cache_inv_def callers_ok_def by (metis caller_ok.simps(2))+
  have owned: "owned (dset t (Resolving key f r) (cs_callers s)) k f'" if "owned (cs_callers s) k f'" for k f'
    using that at by (intro owned_step) auto
  have "caller_ok ?s c'" if c': "dget (cs_callers s) u = Some c'" "u \<noteq> t" for u c'
  proof -
    have "caller_ok s c'" using inv c'(1) unfolding cache_inv_def callers_ok_def by blast
    moreover have "key' \<noteq> key" if "c' = Building key' f' n" for key' f' n
      using inv that c' at calculation mine(1) unfolding cache_inv_def sole_owners_def
      by (metis caller_ok.simps(2) option.inject owner_of.simps(1))
    ultimately show ?thesis using owned by (cases c') (auto simp: dget_ddel sound_mono split: option.splits)
  qed
  moreover have "caller_ok ?s (Resolving key f r)" using mine ok by simp
  ultimately have "callers_ok ?s" unfolding callers_ok_def by (auto simp: dget_dset)
  moreover have "sole_owners (cs_callers ?s)"
    using inv at unfolding cache_inv_def by (auto intro!: sole_owners_drop)
  moreover have "builders_run ?s"
    using inv at unfolding cache_inv_def builders_run_def
    by (simp add: dget_dset dget_ddel) (metis caller.inject(2) option.inject)
  ultimately show ?thesis using inv cache unfolding cache_inv_def futures_issued_def cache_sound_def by simp
qed

lemma inv_resolve:
  assumes inv: "cache_inv s" and at: "dget (cs_callers s) t = Some (Resolving key f r)"
  shows "cache_inv (resolve_future t key f r s)"
proof -
  let ?s = "goes t (outcome key r) (s\<lparr>cs_futures := dset f r (cs_futures s)\<rparr>)"
  have mine: "f < cs_next s" "dget (cs_futures s) f = None" "sound (cs_built s) key r"
    using inv at unfolding cache_inv_def callers_ok_def by (metis caller_ok.simps(3))+
  have sole: "u = t \<and> c' = Resolving key f r" if "dget (cs_callers s) u = Some c'" "owner_of c' = Some (k, f)" for u c' k
    using inv at that unfolding cache_inv_def sole_owners_def by (metis option.inject owner_of.simps(2))
  have none: "owner_of (outcome key r) = None" by (simp add: outcome_def split: sum.split)
  have owned: "owned (dset t (outcome key r) (cs_callers s)) k f'" if "owned (cs_callers s) k f'" "f' \<noteq> f" for k f'
    using that at by (intro owned_step) auto
  have "caller_ok ?s c'" if c': "dget (cs_callers s) u = Some c'" "u \<noteq> t" for u c'
  proof -
    have ok: "caller_ok s c'" using inv c'(1) unfolding cache_inv_def callers_ok_def by blast
    have other: "f' \<noteq> f" if "owner_of c' = Some (k, f')" for k f' using sole c' that by blast
    have "sound (cs_built s) k r" if "owned (cs_callers s) k f" for k
      using that sole mine(3) unfolding owned_def by (metis option.inject owner_of.simps(2) prod.inject)
    then show ?thesis using ok other owned mine(2) by (cases c') (auto simp: dget_dset split: option.splits)
  qed
  moreover have "caller_ok ?s (outcome key r)" using mine(3) by (auto simp: outcome_def sound_def split: sum.split)
  ultimately have "callers_ok ?s" unfolding callers_ok_def by (auto simp: dget_dset)
  moreover have "sole_owners (cs_callers ?s)"
    using inv none unfolding cache_inv_def by (auto intro!: sole_owners_drop)
  moreover have "builders_run ?s"
    using inv at builders_keep [of s t "outcome key r"] unfolding cache_inv_def by (simp add: builders_run_def)
  moreover have "futures_issued ?s" using inv mine(1) unfolding cache_inv_def futures_issued_def by (auto simp: dget_dset)
  ultimately show ?thesis using inv unfolding cache_inv_def cache_sound_def resolve_future_def by simp
qed

lemma inv_wake:
  assumes inv: "cache_inv s" and at: "dget (cs_callers s) t = Some (Waiting key f)" and r: "dget (cs_futures s) f = Some r"
  shows "cache_inv (goes t (outcome key r) s)"
proof -
  have "caller_ok s (Waiting key f)" using inv at unfolding cache_inv_def callers_ok_def by blast
  with r have "sound (cs_built s) key r" by simp
  then show ?thesis using inv at
    by (intro inv_goes) (auto simp: outcome_def sound_def split: sum.split)
qed

lemma inv_join:
  assumes inv: "cache_inv s" and at: "dget (cs_callers s) t = Some (Arrived key now refresh)"
  shows "cache_inv (join_or_build t key now s)"
proof -
  let ?s = "s\<lparr>cs_cache := evict now (cs_cache s)\<rparr>"
  have ev: "cache_inv ?s" using inv by (rule inv_evict) (rule evict_sub)
  show ?thesis
  proof (cases "dget (cs_inflight s) key")
    case None
    with inv_new_build [OF ev, of t _ key now] at show ?thesis by (simp add: join_or_build_def)
  next
    case (Some f)
    then obtain u n where b: "dget (cs_callers s) u = Some (Building key f n)"
      using inv unfolding cache_inv_def builders_run_def by blast
    then have "caller_ok s (Building key f n)" using inv unfolding cache_inv_def callers_ok_def by blast
    moreover have "owned (cs_callers s) key f" using b unfolding owned_def by force
    ultimately have "caller_ok ?s (Waiting key f)" by simp
    then have "cache_inv (goes t (Waiting key f) ?s)" using ev at by (intro inv_goes) auto
    with Some show ?thesis by (simp add: join_or_build_def)
  qed
qed

lemma inv_enter:
  assumes inv: "cache_inv s" and at: "dget (cs_callers s) t = Some (Arrived key now refresh)"
  shows "cache_inv (enter_lock t key now refresh s)"
proof (cases "dget (cs_cache s) key")
  case (Some hit)
  then have "caller_ok s (Returned key (ca_graph hit))" using inv by (simp add: cache_inv_def cache_sound_def)
  then have "cache_inv (goes t (Returned key (ca_graph hit)) s)" using inv at by (intro inv_goes) auto
  with Some inv_join [OF assms] show ?thesis by (simp add: enter_lock_def)
qed (simp add: enter_lock_def inv_join [OF assms])

lemma inv_step: "cache_inv s \<Longrightarrow> cache_step e s = Some s' \<Longrightarrow> cache_inv s'"
proof (cases e)
  case (BuildReturns t g)
  assume inv: "cache_inv s" and "cache_step e s = Some s'"
  then obtain key f now where at: "dget (cs_callers s) t = Some (Building key f now)" and s': "s' = store_graph t key f now g s"
    by (auto simp: BuildReturns split: option.splits caller.splits)
  have "(k, ca_graph c) \<in> set (cs_built s)" if "dget (cs_cache s) k = Some c" for k c
    using inv that by (simp add: cache_inv_def cache_sound_def)
  then show ?thesis unfolding s' store_graph_def
    by (intro inv_leave_build [OF inv at]) (auto simp: sound_def dget_dset split: if_splits)
next
  case (BuildRaises t reason)
  assume inv: "cache_inv s" and "cache_step e s = Some s'"
  then obtain key f now where at: "dget (cs_callers s) t = Some (Building key f now)" and s': "s' = drop_build t key f reason s"
    by (auto simp: BuildRaises split: option.splits caller.splits)
  have "(k, ca_graph c) \<in> set (cs_built s)" if "dget (cs_cache s) k = Some c" for k c
    using inv that by (simp add: cache_inv_def cache_sound_def)
  then show ?thesis using inv_leave_build [OF inv at, of "[]" "Inl reason" "cs_cache s"]
    unfolding s' drop_build_def by (simp add: sound_def)
next
  case (Wake t)
  assume inv: "cache_inv s" and "cache_step e s = Some s'"
  then show ?thesis using inv_wake [OF inv] by (auto simp: Wake split: option.splits caller.splits)
next
  case (Call t identity catalogs refresh)
  assume inv: "cache_inv s" and "cache_step e s = Some s'"
  then show ?thesis by (auto simp: Call split: option.splits intro!: inv_goes)
qed (auto simp: inv_tick inv_enter inv_resolve split: option.splits caller.splits if_splits)

lemma reach_inv: "cache_reach s \<Longrightarrow> cache_inv s"
  by (induction rule: cache_reach.induct) (auto simp: inv_init intro: inv_step)

subsection \<open>What callers get\<close>

lemma reach_caller: "cache_reach s \<Longrightarrow> dget (cs_callers s) t = Some c \<Longrightarrow> caller_ok s c"
  using reach_inv unfolding cache_inv_def callers_ok_def by blast

lemma one_build_per_key:
  assumes "cache_reach s" and "dget (cs_callers s) u = Some (Building k f n)" and "dget (cs_callers s) v = Some (Building k f' m)"
  shows "u = v"
proof -
  have "f = f'" using reach_caller [OF assms(1,2)] reach_caller [OF assms(1,3)] by simp
  moreover have "sole_owners (cs_callers s)" using reach_inv [OF assms(1)] by (simp add: cache_inv_def)
  ultimately show ?thesis using assms(2,3) unfolding sole_owners_def by (metis owner_of.simps(1))
qed

text \<open>
  A caller that waits for another's build is never abandoned: either its future is resolved and it can
  wake up, or exactly one caller, still building or about to publish for the same key, owes it the result.
\<close>

theorem waiters_are_never_abandoned:
  assumes "cache_reach s" and "dget (cs_callers s) t = Some (Waiting key f)"
  shows "cache_step (Wake t) s \<noteq> None
     \<or> (\<exists>!w. (\<exists>n. dget (cs_callers s) w = Some (Building key f n)) \<or> (\<exists>r. dget (cs_callers s) w = Some (Resolving key f r)))"
proof (cases "dget (cs_futures s) f")
  case None
  then have "owned (cs_callers s) key f" using reach_caller [OF assms] by simp
  then obtain w c where w: "dget (cs_callers s) w = Some c" "owner_of c = Some (key, f)" by (auto simp: owned_def)
  have sole: "sole_owners (cs_callers s)" using reach_inv [OF assms(1)] by (simp add: cache_inv_def)
  show ?thesis
  proof (rule disjI2, rule ex1I [of _ w])
    show "(\<exists>n. dget (cs_callers s) w = Some (Building key f n)) \<or> (\<exists>r. dget (cs_callers s) w = Some (Resolving key f r))"
      using w by (cases c) auto
    show "u = w" if "(\<exists>n. dget (cs_callers s) u = Some (Building key f n)) \<or> (\<exists>r. dget (cs_callers s) u = Some (Resolving key f r))" for u
      using that w sole unfolding sole_owners_def by (metis owner_of.simps(1,2))
  qed
qed (simp add: assms(2))

definition demo_events :: "cache_event list" where
  "demo_events = [Call 1 ''aa'' None False, Lock 1, Call 2 ''aa'' None True, Lock 2, Call 3 ''bb'' None False, Lock 3]"

definition demo_state :: cache_state where
  "demo_state = \<lparr>cs_now = 0, cs_cache = [], cs_inflight = [(''aa|'', 0), (''bb|'', 1)], cs_next = 2, cs_futures = [],
     cs_callers = [(1, Building ''aa|'' 0 0), (2, Waiting ''aa|'' 0), (3, Building ''bb|'' 1 0)], cs_built = []\<rparr>"

lemmas run_simps = cache_init_def graph_key_def enter_lock_def join_or_build_def evict_def store_graph_def
  resolve_future_def outcome_def Let_def

lemma demo_run: "run_events demo_events (cache_init 0) = Some demo_state"
  by (simp add: demo_events_def demo_state_def run_simps)

lemma demo_reach: "cache_reach demo_state"
  using run_events_reach [OF demo_run cache_reach.start] .

theorem waiters_are_never_abandoned_witness:
  "\<exists>!w. (\<exists>n. dget (cs_callers demo_state) w = Some (Building ''aa|'' 0 n))
     \<or> (\<exists>r. dget (cs_callers demo_state) w = Some (Resolving ''aa|'' 0 r))"
proof -
  have "cache_step (Wake 2) demo_state = None" by (simp add: demo_state_def)
  moreover have "cache_step (Wake 2) demo_state \<noteq> None
     \<or> (\<exists>!w. (\<exists>n. dget (cs_callers demo_state) w = Some (Building ''aa|'' 0 n))
       \<or> (\<exists>r. dget (cs_callers demo_state) w = Some (Resolving ''aa|'' 0 r)))"
    by (rule waiters_are_never_abandoned [OF demo_reach]) (simp add: demo_state_def)
  ultimately show ?thesis by blast
qed

text \<open>
  Every graph a caller gets was built for the caller's own credential and catalogs: the key it was
  built under is the caller's, and no other credential has that key.
\<close>

theorem graphs_stay_with_their_credential:
  assumes "cache_reach s" and "dget (cs_callers s) t = Some (Returned (graph_key i cs) g)"
    and "CHR ''|'' \<notin> set i" and "CHR ''|'' \<notin> set j" and "i \<noteq> j"
  shows "(graph_key i cs, g) \<in> set (cs_built s) \<and> graph_key j ds \<noteq> graph_key i cs"
  using reach_caller [OF assms(1,2)] key_tells_identity [OF _ assms(4,3)] assms(5) by auto

definition answered_state :: cache_state where
  "answered_state = \<lparr>cs_now = 100, cs_cache = [(''aa|'', \<lparr>ca_graph = new_graph [] [], ca_at = 0, ca_ttl = 600\<rparr>)], cs_inflight = [],
     cs_next = 1, cs_futures = [(0, Inr (new_graph [] []))],
     cs_callers = [(1, Returned ''aa|'' (new_graph [] [])), (2, Returned ''aa|'' (new_graph [] []))],
     cs_built = [(''aa|'', new_graph [] [])]\<rparr>"

lemma answered_run:
  "run_events [Call 1 ''aa'' None False, Lock 1, BuildReturns 1 (new_graph [] []), Resolve 1, Tick 100, Call 2 ''aa'' (Some []) False,
     Lock 2] (cache_init 0) = Some answered_state"
  by (simp add: answered_state_def run_simps fresh_hit_def new_graph_def merge_nodes_def cache_ttl_def)

theorem graphs_stay_with_their_credential_witness:
  "(graph_key ''aa'' None, new_graph [] []) \<in> set (cs_built answered_state) \<and> graph_key ''bb'' None \<noteq> graph_key ''aa'' None"
  using graphs_stay_with_their_credential [OF run_events_reach [OF answered_run cache_reach.start],
      of 2 "''aa''" None "new_graph [] []" "''bb''" None]
  by (simp add: answered_state_def graph_key_def)

text \<open>A hit was stored by a build that began less than its lifetime before the caller came.\<close>

lemma hit_is_recent:
  assumes "cache_step (Lock t) s = Some s'" and "dget (cs_callers s) t = Some (Arrived key now False)"
    and "dget (cs_callers s') t = Some (Returned key g)"
  shows "\<exists>c. dget (cs_cache s) key = Some c \<and> ca_graph c = g \<and> now < ca_at c + ca_ttl c"
  using assms by (auto simp: enter_lock_def join_or_build_def fresh_hit_def dget_dset Let_def split: option.splits if_splits)

text \<open>
  The lifetime runs from the moment the builder came, not from the end of the build: a graph with warnings
  whose build took a minute is never served from the cache.
\<close>

lemma slow_partial_graph_is_not_served:
  assumes "g_warnings g \<noteq> []" and "now + partial_ttl \<le> later"
  shows "dget (cs_callers (enter_lock t key later refresh (store_graph u key f now g s))) t \<noteq> Some (Returned key g)"
  using assms by (auto simp: enter_lock_def join_or_build_def store_graph_def fresh_hit_def dget_dset dget_ddel Let_def split: option.splits)

text \<open>A refresh that comes while a build of its key runs gets that build, which began before it.\<close>

lemma refresh_joins_running_build:
  assumes "dget (cs_inflight s) key = Some f"
  shows "dget (cs_callers (enter_lock t key now True s)) t = Some (Waiting key f)"
  using assms by (simp add: enter_lock_def join_or_build_def dget_dset Let_def split: option.split)

end
