(* ===== verification/Tool_Scope.thy ===== *)
theory Tool_Scope
  imports Tool_Guards
begin

text \<open>
  Per-tool scope ceilings (\<open>_tool_scope.py\<close>) and the identity an agent declares for its tools
  (\<open>_agent_identity.py\<close>): the declaration and its parser, the annotation of tools, the matching of
  Unity Catalog names against a ceiling, the check at compile time and the guard at run time, which is
  a hook like those of \<open>Tool_Guards\<close> and is composed with them.

  A tool function is the record of the attributes the code reads off it.  \<open>casefold\<close> is the
  lower-casing of the prelude (ASCII text).  Audit attributes and log lines are left out.
\<close>

subsection \<open>Declarations\<close>

datatype exec_identity = User | Service

datatype scope_error =
    BadIdentity string
  | NoPrincipalName string
  | BadField string pyval
  | EmptyCallers
  | IdentityNotString pyval
  | ScopeNotTable pyval
  | UnknownKeys "string list"
  | OverScoped string string string
  | PlatformTool

record tool_scope =
  ts_identity :: "string option"
  ts_catalogs :: "string list"
  ts_schemas :: "string list"
  ts_tables :: "string list"
  ts_functions :: "string list"
  ts_secret_scopes :: "string list"
  ts_callers :: "string list"

definition has_uc_ceiling :: "tool_scope \<Rightarrow> bool" where
  "has_uc_ceiling sc \<longleftrightarrow> ts_catalogs sc \<noteq> [] \<or> ts_schemas sc \<noteq> [] \<or> ts_tables sc \<noteq> [] \<or> ts_functions sc \<noteq> []"

definition named_sp_prefix :: string where
  "named_sp_prefix = ''named-sp:''"

definition validate_identity :: "string \<Rightarrow> scope_error option" where
  "validate_identity i =
     (if i \<in> {''sp'', ''obo''} then None
      else if starts_with named_sp_prefix i
        then (if strip (drop (length named_sp_prefix) i) = [] then Some (NoPrincipalName i) else None)
      else Some (BadIdentity i))"

definition identity_to_execution :: "string \<Rightarrow> scope_error + exec_identity" where
  "identity_to_execution i =
     (case validate_identity i of Some e \<Rightarrow> Inl e | None \<Rightarrow> Inr (if i = ''obo'' then User else Service))"

definition named_sp_name :: "string option \<Rightarrow> string option" where
  "named_sp_name identity =
     (case identity of
        None \<Rightarrow> None
      | Some i \<Rightarrow> if starts_with named_sp_prefix i then Some (strip (drop (length named_sp_prefix) i)) else None)"

text \<open>The constructor, which checks the identity.\<close>

definition new_scope :: "tool_scope \<Rightarrow> scope_error + tool_scope" where
  "new_scope sc =
     (case ts_identity sc of
        None \<Rightarrow> Inr sc
      | Some i \<Rightarrow> (case validate_identity i of Some e \<Rightarrow> Inl e | None \<Rightarrow> Inr sc))"

fun nonempty_str :: "pyval \<Rightarrow> bool" where
  "nonempty_str (PStr s) = (s \<noteq> [])"
| "nonempty_str _ = False"

fun str_of :: "pyval \<Rightarrow> string" where
  "str_of (PStr s) = s"
| "str_of _ = []"

definition as_str_list :: "pyval \<Rightarrow> string \<Rightarrow> scope_error + string list" where
  "as_str_list v key =
     (case v of
        PNone \<Rightarrow> Inr []
      | PList vs \<Rightarrow> if list_all nonempty_str vs then Inr (map str_of vs) else Inl (BadField key v)
      | _ \<Rightarrow> Inl (BadField key v))"

abbreviation and_then :: "'e + 'a \<Rightarrow> ('a \<Rightarrow> 'e + 'b) \<Rightarrow> 'e + 'b" where
  "and_then x f \<equiv> (case x of Inl e \<Rightarrow> Inl e | Inr a \<Rightarrow> f a)"

definition scope_keys :: "string list" where
  "scope_keys = [''catalogs'', ''schemas'', ''tables'', ''functions'']"

definition build_scope :: "string option \<Rightarrow> (string \<times> pyval) list \<Rightarrow> pyval \<Rightarrow> pyval \<Rightarrow> scope_error + tool_scope" where
  "build_scope identity table secrets callers =
     and_then (as_str_list (pget table ''catalogs'') ''catalogs'') (\<lambda>cs.
     and_then (as_str_list (pget table ''schemas'') ''schemas'') (\<lambda>ss.
     and_then (as_str_list (pget table ''tables'') ''tables'') (\<lambda>ts.
     and_then (as_str_list (pget table ''functions'') ''functions'') (\<lambda>fs.
     and_then (as_str_list secrets ''secret_scopes'') (\<lambda>ks.
     and_then (as_str_list callers ''callers'') (\<lambda>us.
       new_scope \<lparr>ts_identity = identity, ts_catalogs = cs, ts_schemas = ss, ts_tables = ts, ts_functions = fs,
         ts_secret_scopes = ks, ts_callers = us\<rparr>))))))"

text \<open>The keys of the table, then its contents; \<open>None\<close> when nothing is declared.\<close>

definition unknown_keys :: "(string \<times> pyval) list \<Rightarrow> string list" where
  "unknown_keys table = sort (remdups (filter (\<lambda>k. k \<notin> set scope_keys) (map fst table)))"

definition parse_tool_scope :: "pyval \<Rightarrow> pyval \<Rightarrow> pyval \<Rightarrow> pyval \<Rightarrow> scope_error + tool_scope option" where
  "parse_tool_scope identity scope secrets callers =
     (if identity = PNone \<and> scope = PNone \<and> secrets = PNone \<and> callers = PNone then Inr None
      else if callers \<noteq> PNone \<and> \<not> truthy callers then Inl EmptyCallers
      else
        and_then (case identity of PNone \<Rightarrow> Inr None | PStr i \<Rightarrow> Inr (Some i) | v \<Rightarrow> Inl (IdentityNotString v)) (\<lambda>i.
        and_then (case scope of PNone \<Rightarrow> Inr [] | PDict d \<Rightarrow> Inr d | v \<Rightarrow> Inl (ScopeNotTable v)) (\<lambda>table.
          if unknown_keys table \<noteq> [] then Inl (UnknownKeys (unknown_keys table))
          else map_sum id Some (build_scope i table secrets callers))))"

subsection \<open>Tools and their annotations\<close>

record tool_meta =
  tm_execution :: "exec_identity option"
  tm_principal :: "string option"
  tm_remote_url :: "string option"

definition no_meta :: tool_meta where
  "no_meta = \<lparr>tm_execution = None, tm_principal = None, tm_remote_url = None\<rparr>"

record tool_fn =
  tf_name :: string
  tf_platform :: bool
  tf_scope :: "tool_scope option"
  tf_meta :: "tool_meta option"
  tf_resources :: "(string \<times> string) list"

definition stamp_identity :: "string \<Rightarrow> tool_fn \<Rightarrow> scope_error + tool_fn" where
  "stamp_identity i fn =
     (case identity_to_execution i of
        Inl e \<Rightarrow> Inl e
      | Inr x \<Rightarrow> Inr (fn\<lparr>tf_meta := Some ((case tf_meta fn of None \<Rightarrow> no_meta | Some m \<Rightarrow> m)
           \<lparr>tm_execution := Some x, tm_principal := named_sp_name (Some i)\<rparr>)\<rparr>))"

definition attach_scope :: "tool_fn \<Rightarrow> tool_scope option \<Rightarrow> scope_error + tool_fn" where
  "attach_scope fn scope =
     (if tf_platform fn then Inl PlatformTool
      else (case scope of
        None \<Rightarrow> Inr fn
      | Some sc \<Rightarrow>
          (case ts_identity sc of
             None \<Rightarrow> Inr (fn\<lparr>tf_scope := Some sc\<rparr>)
           | Some i \<Rightarrow> stamp_identity i (fn\<lparr>tf_scope := Some sc\<rparr>))))"

definition no_scope :: tool_scope where
  "no_scope = \<lparr>ts_identity = None, ts_catalogs = [], ts_schemas = [], ts_tables = [], ts_functions = [],
     ts_secret_scopes = [], ts_callers = []\<rparr>"

text \<open>One tool of the agent: it inherits the agent's identity unless its scope names one.\<close>

definition inherit_identity :: "string \<Rightarrow> tool_fn \<Rightarrow> scope_error + tool_fn" where
  "inherit_identity identity fn =
     (case tf_scope fn of
        None \<Rightarrow> and_then (new_scope (no_scope\<lparr>ts_identity := Some identity\<rparr>)) (\<lambda>sc. attach_scope fn (Some sc))
      | Some sc \<Rightarrow>
          if ts_identity sc \<noteq> None then Inr fn
          else and_then (new_scope (sc\<lparr>ts_identity := Some identity\<rparr>)) (\<lambda>sc'. attach_scope fn (Some sc')))"

text \<open>The loop over the tools stops at the first error, which leaves the earlier tools stamped.\<close>

fun apply_agent_identity :: "string \<Rightarrow> tool_fn list \<Rightarrow> scope_error option \<times> tool_fn list" where
  "apply_agent_identity identity [] = (None, [])"
| "apply_agent_identity identity (fn # fns) =
     (case inherit_identity identity fn of
        Inl e \<Rightarrow> (Some e, fn # fns)
      | Inr fn' \<Rightarrow> (let (r, fns') = apply_agent_identity identity fns in (r, fn' # fns')))"

definition principal_label :: "exec_identity \<Rightarrow> string option \<Rightarrow> string" where
  "principal_label x name =
     (case x of
        User \<Rightarrow> ''user''
      | Service \<Rightarrow> (case name of Some (c # cs) \<Rightarrow> ''service-principal:'' @ c # cs | _ \<Rightarrow> ''app-service-principal''))"

subsection \<open>Matching names\<close>

fun split_from :: "string \<Rightarrow> string \<Rightarrow> bool \<Rightarrow> string list" where
  "split_from [] buf quoted = [buf]"
| "split_from (c # cs) buf quoted =
     (if c = CHR 0x60 then split_from cs buf (\<not> quoted)
      else if c = CHR ''.'' \<and> \<not> quoted then buf # split_from cs [] quoted
      else split_from cs (buf @ [c]) quoted)"

definition split_uc :: "string \<Rightarrow> string list" where
  "split_uc ident = map lower (split_from ident [] False)"

definition in_scope :: "tool_scope \<Rightarrow> string \<Rightarrow> bool" where
  "in_scope sc ref =
     (if \<not> has_uc_ceiling sc then True
      else let seg = split_uc ref in
        list_ex (\<lambda>t. seg = split_uc t) (ts_tables sc) \<or> list_ex (\<lambda>f. seg = split_uc f) (ts_functions sc)
        \<or> list_ex (\<lambda>c. take 1 seg = split_uc c) (ts_catalogs sc)
        \<or> (2 \<le> length seg \<and> list_ex (\<lambda>s. take 2 seg = split_uc s) (ts_schemas sc)))"

definition secret_in_scope :: "tool_scope \<Rightarrow> string \<Rightarrow> bool" where
  "secret_in_scope sc name = (if ts_secret_scopes sc = [] then True else name \<in> set (ts_secret_scopes sc))"

definition caller_allowed :: "tool_scope option \<Rightarrow> string option \<Rightarrow> bool" where
  "caller_allowed scope email =
     (case scope of
        None \<Rightarrow> True
      | Some sc \<Rightarrow>
          if ts_callers sc = [] then True
          else (case email of None \<Rightarrow> False | Some [] \<Rightarrow> False | Some e \<Rightarrow> lower e \<in> set (map lower (ts_callers sc))))"

text \<open>The dependency of the tool's route: \<open>None\<close> when the tool is open; otherwise it answers 403 or lets through.\<close>

definition caller_dependency :: "tool_fn \<Rightarrow> (string option \<Rightarrow> nat option) option" where
  "caller_dependency fn =
     (case tf_scope fn of
        None \<Rightarrow> None
      | Some sc \<Rightarrow> if ts_callers sc = [] then None else Some (\<lambda>email. if caller_allowed (Some sc) email then None else Some 403))"

subsection \<open>At compile time\<close>

definition uc_kinds :: "string list" where
  "uc_kinds = [''uc_table'', ''uc_function'', ''vector_search_index'']"

fun over_scoped :: "tool_scope \<Rightarrow> (string \<times> string) list \<Rightarrow> (string \<times> string) option" where
  "over_scoped sc [] = None"
| "over_scoped sc ((kind, ident) # specs) =
     (if kind \<in> set uc_kinds \<and> \<not> in_scope sc ident then Some (kind, ident) else over_scoped sc specs)"

definition validate_tool_scope :: "tool_fn \<Rightarrow> scope_error option" where
  "validate_tool_scope fn =
     (case tf_scope fn of
        None \<Rightarrow> None
      | Some sc \<Rightarrow>
          (case (case ts_identity sc of None \<Rightarrow> None | Some i \<Rightarrow> validate_identity i) of
             Some e \<Rightarrow> Some e
           | None \<Rightarrow>
               if \<not> has_uc_ceiling sc then None
               else (case over_scoped sc (tf_resources fn) of
                       None \<Rightarrow> None
                     | Some (kind, ident) \<Rightarrow> Some (OverScoped (tf_name fn) kind ident))))"

subsection \<open>At run time\<close>

definition uc_arg_keys :: "string list" where
  "uc_arg_keys = [''table'', ''table_name'', ''function'', ''function_name'', ''securable_full_name'']"

definition secret_arg_keys :: "string list" where
  "secret_arg_keys = [''secret_scope'']"

definition deny_reason :: "bool \<Rightarrow> string \<Rightarrow> tool_scope \<Rightarrow> string" where
  "deny_reason secret obj sc =
     (if secret then ''secret scope '' @ py_repr obj @ '' outside allowlist '' @ repr_list (ts_secret_scopes sc)
      else py_repr obj @ '' outside ceiling (catalogs='' @ repr_list (ts_catalogs sc) @ '', schemas='' @ repr_list (ts_schemas sc)
        @ '', tables='' @ repr_list (ts_tables sc) @ '', functions='' @ repr_list (ts_functions sc) @ '')'')"

definition scope_denied :: "string \<Rightarrow> bool \<Rightarrow> string \<Rightarrow> tool_scope \<Rightarrow> guard_error" where
  "scope_denied tool secret obj sc =
     PermissionError (''scope_denied: tool '' @ py_repr tool @ '' may not touch '' @ py_repr obj @ '' ('' @ deny_reason secret obj sc @ '')'')"

definition check_arg :: "string \<Rightarrow> tool_scope \<Rightarrow> string \<Rightarrow> pyval \<Rightarrow> guard_error option" where
  "check_arg tool sc key v =
     (case v of
        PStr value \<Rightarrow>
          if value = [] then None
          else if key \<in> set uc_arg_keys \<and> CHR ''.'' \<in> set value \<and> \<not> in_scope sc value then Some (scope_denied tool False value sc)
          else if key \<in> set secret_arg_keys \<and> \<not> secret_in_scope sc value then Some (scope_denied tool True value sc)
          else None
      | _ \<Rightarrow> None)"

fun check_args :: "string \<Rightarrow> tool_scope \<Rightarrow> (string \<times> pyval) list \<Rightarrow> guard_error option" where
  "check_args tool sc [] = None"
| "check_args tool sc ((key, v) # args) =
     (case check_arg tool sc key v of Some e \<Rightarrow> Some e | None \<Rightarrow> check_args tool sc args)"

fun scope_for :: "tool_fn list \<Rightarrow> string \<Rightarrow> tool_scope option" where
  "scope_for [] name = None"
| "scope_for (fn # fns) name = (if tf_name fn = name then tf_scope fn else scope_for fns name)"

text \<open>The tools are read from the state when the call comes.\<close>

definition scope_guard :: "('s \<Rightarrow> tool_fn list) \<Rightarrow> (pyval tool_call, 's) hook" where
  "scope_guard tools_of c s =
     (case scope_for (tools_of s) (tc_name c) of
        None \<Rightarrow> (Inr None, s)
      | Some sc \<Rightarrow>
          (case tc_args c of
             PDict args \<Rightarrow> (case check_args (tc_name c) sc args of Some e \<Rightarrow> (Inl e, s) | None \<Rightarrow> (Inr None, s))
           | _ \<Rightarrow> (Inr None, s)))"

definition guard_active :: "tool_fn list \<Rightarrow> bool" where
  "guard_active tools = list_ex (\<lambda>fn. tf_scope fn \<noteq> None) tools"

text \<open>The leaf agent: its hook, its tools, and whether the scope guard is attached.\<close>

record 's leaf =
  lf_before_tool :: "(pyval tool_call, 's) hook option"
  lf_tools :: "'s \<Rightarrow> tool_fn list"
  lf_guarded :: bool

definition attach_scope_guard :: "'s \<Rightarrow> 's leaf \<Rightarrow> bool \<times> 's leaf" where
  "attach_scope_guard now leaf =
     (if lf_guarded leaf \<or> \<not> guard_active (lf_tools leaf now) then (False, leaf)
      else (True, leaf\<lparr>lf_before_tool := Some (case lf_before_tool leaf of
          None \<Rightarrow> scope_guard (lf_tools leaf)
        | Some hook \<Rightarrow> compose [hook, scope_guard (lf_tools leaf)]), lf_guarded := True\<rparr>))"

subsection \<open>Written names\<close>

text \<open>A name as a list of segments, each with whether it is written in backticks.\<close>

fun uc_segment :: "bool \<times> string \<Rightarrow> string" where
  "uc_segment (quoted, s) = (if quoted then ''`'' @ s @ ''`'' else s)"

definition uc_text :: "(bool \<times> string) list \<Rightarrow> string" where
  "uc_text name = join ''.'' (map uc_segment name)"

fun writable :: "bool \<times> string \<Rightarrow> bool" where
  "writable (quoted, s) = (CHR 0x60 \<notin> set s \<and> (quoted \<or> CHR ''.'' \<notin> set s))"

definition written :: "(bool \<times> string) list \<Rightarrow> bool" where
  "written name \<longleftrightarrow> name \<noteq> [] \<and> list_all writable name"

text \<open>What the name means: its segments, without quotes or case.\<close>

definition meaning :: "(bool \<times> string) list \<Rightarrow> string list" where
  "meaning name = map (lower \<circ> snd) name"

lemma split_from_quoted: "CHR 0x60 \<notin> set s \<Longrightarrow> split_from (s @ r) buf True = split_from r (buf @ s) True"
  by (induction s arbitrary: buf) auto

lemma split_from_plain: "CHR 0x60 \<notin> set s \<Longrightarrow> CHR ''.'' \<notin> set s \<Longrightarrow> split_from (s @ r) buf False = split_from r (buf @ s) False"
  by (induction s arbitrary: buf) auto

lemma split_from_segment: "writable seg \<Longrightarrow> split_from (uc_segment seg @ r) [] False = split_from r (snd seg) False"
  by (cases seg) (auto simp: split_from_quoted split_from_plain)

lemma split_from_text: "written name \<Longrightarrow> split_from (uc_text name) [] False = map snd name"
proof (induction name)
  case (Cons seg name)
  have seg: "writable seg" using Cons.prems by (simp add: written_def)
  show ?case
  proof (cases name)
    case Nil
    then show ?thesis using split_from_segment [OF seg, of "[]"] by (simp add: uc_text_def)
  next
    case (Cons seg2 rest)
    then have "split_from (uc_text name) [] False = map snd name" using Cons.IH Cons.prems by (simp add: written_def)
    moreover have "uc_text (seg # name) = uc_segment seg @ ''.'' @ uc_text name" using Cons by (simp add: uc_text_def)
    ultimately show ?thesis using split_from_segment [OF seg, of "''.'' @ uc_text name"] by simp
  qed
qed (simp add: written_def)

lemma split_uc_text: "written name \<Longrightarrow> split_uc (uc_text name) = meaning name"
  by (simp add: split_uc_def split_from_text meaning_def)

text \<open>
  C19: However the declared names and the object's name are written, in backticks or not, in whatever case
  and with dots inside quoted segments, an object is in scope exactly when it is a declared table or
  function, lies in a declared catalog, or lies in a declared schema.
\<close>

theorem in_scope_is_containment:
  assumes "written ref" and "list_all written tables" and "list_all written functions"
    and "list_all (\<lambda>c. writable c) catalogs" and "list_all (\<lambda>(c, s). writable c \<and> writable s) schemas"
    and "ts_tables sc = map uc_text tables" and "ts_functions sc = map uc_text functions"
    and "ts_catalogs sc = map (\<lambda>c. uc_text [c]) catalogs" and "ts_schemas sc = map (\<lambda>(c, s). uc_text [c, s]) schemas"
    and "tables @ functions \<noteq> [] \<or> catalogs \<noteq> [] \<or> schemas \<noteq> []"
  shows "in_scope sc (uc_text ref) \<longleftrightarrow>
    meaning ref \<in> meaning ` (set tables \<union> set functions)
    \<or> lower (snd (hd ref)) \<in> (lower \<circ> snd) ` set catalogs
    \<or> take 2 (meaning ref) \<in> (\<lambda>(c, s). [lower (snd c), lower (snd s)]) ` set schemas"
proof -
  obtain seg rest where ref: "ref = seg # rest" using assms(1) by (cases ref) (auto simp: written_def)
  have r: "split_uc (uc_text ref) = meaning ref" using assms(1) by (rule split_uc_text)
  have obj: "list_ex (\<lambda>t. meaning ref = split_uc t) (map uc_text ns) \<longleftrightarrow> meaning ref \<in> meaning ` set ns"
    if "list_all written ns" for ns
    using that by (induction ns) (auto simp: split_uc_text)
  have cat: "list_ex (\<lambda>c. take 1 (meaning ref) = split_uc c) (map (\<lambda>c. uc_text [c]) catalogs)
      \<longleftrightarrow> lower (snd (hd ref)) \<in> (lower \<circ> snd) ` set catalogs"
    using assms(4) by (induction catalogs) (auto simp: split_uc_text written_def meaning_def ref)
  have len: "2 \<le> length (meaning ref)" if "take 2 (meaning ref) \<in> (\<lambda>(c, s). [lower (snd c), lower (snd s)]) ` set schemas"
  proof -
    from that obtain p :: "(bool \<times> string) \<times> (bool \<times> string)" where "take 2 (meaning ref) = (case p of (c, s) \<Rightarrow> [lower (snd c), lower (snd s)])" by blast
    from arg_cong [OF this, of length] show ?thesis by (cases p) simp
  qed
  have sch: "list_ex (\<lambda>s. take 2 (meaning ref) = split_uc s) (map (\<lambda>(c, s). uc_text [c, s]) schemas)
      \<longleftrightarrow> take 2 (meaning ref) \<in> (\<lambda>(c, s). [lower (snd c), lower (snd s)]) ` set schemas"
    using assms(5) by (induction schemas) (auto simp: split_uc_text written_def meaning_def)
  have "2 \<le> length (meaning ref) \<and> list_ex (\<lambda>s. take 2 (meaning ref) = split_uc s) (map (\<lambda>(c, s). uc_text [c, s]) schemas)
      \<longleftrightarrow> take 2 (meaning ref) \<in> (\<lambda>(c, s). [lower (snd c), lower (snd s)]) ` set schemas"
    unfolding sch using len by blast
  moreover have "has_uc_ceiling sc" using assms(6-10) by (auto simp: has_uc_ceiling_def)
  ultimately show ?thesis using obj [OF assms(2)] obj [OF assms(3)] cat
    by (simp add: in_scope_def r assms(6-9) Let_def image_Un)
qed

definition demo_scope :: tool_scope where
  "demo_scope = no_scope\<lparr>ts_catalogs := [''`my.cat`''], ts_schemas := [''main.Finance'']\<rparr>"

theorem in_scope_is_containment_witness:
  "in_scope demo_scope ''MAIN.`finance`.ledger'' \<and> in_scope demo_scope ''`My.Cat`.s.t'' \<and> \<not> in_scope demo_scope ''my.cat.s''"
proof (intro conjI)
  have sc: "ts_tables demo_scope = map uc_text []" "ts_functions demo_scope = map uc_text []"
    "ts_catalogs demo_scope = map (\<lambda>c. uc_text [c]) [(True, ''my.cat'')]"
    "ts_schemas demo_scope = map (\<lambda>(c, s). uc_text [c, s]) [((False, ''main''), (False, ''Finance''))]"
    by code_simp+
  have c: "in_scope demo_scope (uc_text ref) \<longleftrightarrow> meaning ref \<in> meaning ` (set [] \<union> set [])
    \<or> lower (snd (hd ref)) \<in> (lower \<circ> snd) ` set [(True, ''my.cat'')]
    \<or> take 2 (meaning ref) \<in> (\<lambda>(c, s). [lower (snd c), lower (snd s)]) ` set [((False, ''main''), (False, ''Finance''))]"
    if "written ref" for ref
    by (rule in_scope_is_containment [OF that _ _ _ _ sc]) simp_all
  have t1: "uc_text [(False, ''MAIN''), (True, ''finance''), (False, ''ledger'')] = ''MAIN.`finance`.ledger''" by code_simp
  have t2: "uc_text [(True, ''My.Cat''), (False, ''s''), (False, ''t'')] = ''`My.Cat`.s.t''" by code_simp
  have t3: "uc_text [(False, ''my''), (False, ''cat''), (False, ''s'')] = ''my.cat.s''" by code_simp
  show "in_scope demo_scope ''MAIN.`finance`.ledger''"
    using c [of "[(False, ''MAIN''), (True, ''finance''), (False, ''ledger'')]"] unfolding t1 by code_simp
  show "in_scope demo_scope ''`My.Cat`.s.t''"
    using c [of "[(True, ''My.Cat''), (False, ''s''), (False, ''t'')]"] unfolding t2 by code_simp
  show "\<not> in_scope demo_scope ''my.cat.s''"
    using c [of "[(False, ''my''), (False, ''cat''), (False, ''s'')]"] unfolding t3 by code_simp
qed

text \<open>A catalog entry of several segments, or a schema entry of other than two, matches nothing.\<close>

lemma misplaced_entry_is_dead:
  assumes "ts_tables sc = []" and "ts_functions sc = []"
    and "list_all (\<lambda>c. length (split_uc c) \<noteq> 1) (ts_catalogs sc)" and "list_all (\<lambda>s. length (split_uc s) \<noteq> 2) (ts_schemas sc)"
    and "has_uc_ceiling sc"
  shows "\<not> in_scope sc ref"
proof -
  have "split_from s buf q \<noteq> []" for s buf q by (induction s arbitrary: buf q) auto
  then have ne: "split_uc s \<noteq> []" for s by (simp add: split_uc_def)
  have "take 1 (split_uc ref) \<noteq> split_uc c" if "c \<in> set (ts_catalogs sc)" for c
  proof
    assume "take 1 (split_uc ref) = split_uc c"
    from arg_cong [OF this, of length] ne [of ref] that assms(3) show False by (cases "split_uc ref") (auto simp: list_all_iff)
  qed
  moreover have "\<not> (2 \<le> length (split_uc ref) \<and> take 2 (split_uc ref) = split_uc s)" if "s \<in> set (ts_schemas sc)" for s
  proof
    assume a: "2 \<le> length (split_uc ref) \<and> take 2 (split_uc ref) = split_uc s"
    then have "length (split_uc s) = 2" by (metis length_take min.absorb2)
    with that assms(4) show False by (auto simp: list_all_iff)
  qed
  ultimately show ?thesis using assms(1,2,5) by (auto simp: in_scope_def Let_def list_ex_iff)
qed

subsection \<open>The guard\<close>

lemma check_args_none: "check_args tool sc args = None \<longleftrightarrow> list_all (\<lambda>(k, v). check_arg tool sc k v = None) args"
  by (induction args) (auto split: option.splits)

lemma check_arg_none:
  "check_arg tool sc k (PStr v) = None \<longleftrightarrow>
     v = [] \<or> \<not> (k \<in> set uc_arg_keys \<and> CHR ''.'' \<in> set v \<and> \<not> in_scope sc v) \<and> \<not> (k \<in> set secret_arg_keys \<and> \<not> secret_in_scope sc v)"
  by (simp add: check_arg_def)

lemma scope_guard_passes:
  "passes (scope_guard tools_of) c s \<longleftrightarrow>
     (case scope_for (tools_of s) (tc_name c) of
        None \<Rightarrow> True
      | Some sc \<Rightarrow> (case tc_args c of PDict args \<Rightarrow> list_all (\<lambda>(k, v). check_arg (tc_name c) sc k v = None) args | _ \<Rightarrow> True))"
  unfolding check_args_none [symmetric]
  by (auto simp: passes_def scope_guard_def split: option.splits pyval.splits)

lemma scope_guard_keeps [simp]: "snd (scope_guard tools_of c s) = s"
  by (auto simp: scope_guard_def split: option.splits pyval.splits)

text \<open>What the attached hook lets pass, the scope guard lets pass in the state the earlier hook leaves.\<close>

lemma compose_pair_passes: "passes (compose [h, g]) c s \<Longrightarrow> passes h c s \<and> passes g c (snd (h c s))"
  by (auto simp: compose_def passes_def split: prod.splits sum.splits if_splits)

lemma attached_guard_runs:
  assumes "attach_scope_guard now leaf = (True, leaf')" and "lf_before_tool leaf' = Some hook" and "passes hook c s"
  shows "\<exists>s'. passes (scope_guard (lf_tools leaf)) c s'
    \<and> s' = (case lf_before_tool leaf of None \<Rightarrow> s | Some h \<Rightarrow> snd (h c s))"
  using assms by (auto simp: attach_scope_guard_def split: if_splits option.splits dest: compose_pair_passes)

text \<open>
  Once the guard is attached to an agent, a call of a scoped tool that is let through names, in every
  argument the guard knows, only objects and secret scopes within the ceiling the tool has at that moment.
\<close>

theorem guarded_call_stays_in_scope:
  assumes "attach_scope_guard now leaf = (True, leaf')" and "lf_before_tool leaf' = Some hook" and "passes hook c s"
    and "s' = (case lf_before_tool leaf of None \<Rightarrow> s | Some h \<Rightarrow> snd (h c s))"
    and "scope_for (lf_tools leaf s') (tc_name c) = Some sc"
    and "tc_args c = PDict args" and "(k, PStr v) \<in> set args" and "v \<noteq> []"
  shows "(k \<notin> set uc_arg_keys \<or> CHR ''.'' \<notin> set v \<or> in_scope sc v) \<and> (k \<notin> set secret_arg_keys \<or> secret_in_scope sc v)"
proof -
  have "passes (scope_guard (lf_tools leaf)) c s'" using attached_guard_runs [OF assms(1-3)] assms(4) by auto
  then have "list_all (\<lambda>(k, v). check_arg (tc_name c) sc k v = None) args" by (simp add: scope_guard_passes assms(5,6))
  then have "check_arg (tc_name c) sc k (PStr v) = None" using assms(7) by (auto simp: list_all_iff)
  then show ?thesis using assms(8) by (auto simp: check_arg_none)
qed

definition demo_tool :: tool_fn where
  "demo_tool = \<lparr>tf_name = ''read'', tf_platform = False, tf_scope = Some demo_scope, tf_meta = None, tf_resources = []\<rparr>"

definition demo_leaf :: "unit leaf" where
  "demo_leaf = \<lparr>lf_before_tool = None, lf_tools = (\<lambda>s. [demo_tool]), lf_guarded = False\<rparr>"

definition demo_call :: "string \<Rightarrow> pyval tool_call" where
  "demo_call v = \<lparr>tc_name = ''read'', tc_args = PDict [(''table'', PStr v)], tc_now = 0\<rparr>"

lemma demo_attached:
  "attach_scope_guard () demo_leaf = (True, demo_leaf\<lparr>lf_before_tool := Some (scope_guard (\<lambda>s. [demo_tool])), lf_guarded := True\<rparr>)"
  by (simp add: attach_scope_guard_def demo_leaf_def guard_active_def demo_tool_def)

lemma demo_guard:
  "passes (scope_guard (\<lambda>s. [demo_tool])) (demo_call ''main.finance.t'') ()"
  "\<not> passes (scope_guard (\<lambda>s. [demo_tool])) (demo_call ''main.hr.t'') ()"
proof -
  have "in_scope demo_scope ''main.finance.t''" "\<not> in_scope demo_scope ''main.hr.t''" by code_simp+
  then show "passes (scope_guard (\<lambda>s. [demo_tool])) (demo_call ''main.finance.t'') ()"
    "\<not> passes (scope_guard (\<lambda>s. [demo_tool])) (demo_call ''main.hr.t'') ()"
    by (auto simp: scope_guard_passes demo_call_def demo_tool_def check_arg_none uc_arg_keys_def secret_arg_keys_def)
qed

theorem guarded_call_stays_in_scope_witness: "in_scope demo_scope ''main.finance.t''"
  using guarded_call_stays_in_scope [OF demo_attached, of "scope_guard (\<lambda>s. [demo_tool])" "demo_call ''main.finance.t''" "()" "()"
      demo_scope "[(''table'', PStr ''main.finance.t'')]" "''table''" "''main.finance.t''"] demo_guard(1)
  by (simp add: demo_leaf_def demo_call_def demo_tool_def uc_arg_keys_def)

text \<open>Attaching twice attaches once.\<close>

lemma attach_scope_guard_idempotent:
  "attach_scope_guard now leaf = (True, leaf') \<Longrightarrow> attach_scope_guard later leaf' = (False, leaf')"
  by (auto simp: attach_scope_guard_def split: if_splits)

text \<open>A build that passed declares no table, function or index outside the ceiling.\<close>

lemma over_scoped_none:
  "over_scoped sc specs = None \<longleftrightarrow> list_all (\<lambda>(kind, ident). kind \<notin> set uc_kinds \<or> in_scope sc ident) specs"
  by (induction sc specs rule: over_scoped.induct) auto

lemma validated_tool_is_within_ceiling:
  assumes "validate_tool_scope fn = None" and "tf_scope fn = Some sc" and "(kind, ident) \<in> set (tf_resources fn)" and "kind \<in> set uc_kinds"
  shows "in_scope sc ident"
proof (cases "has_uc_ceiling sc")
  case True
  with assms(1,2) have "over_scoped sc (tf_resources fn) = None" by (auto simp: validate_tool_scope_def split: option.splits)
  with assms(3,4) show ?thesis by (auto simp: over_scoped_none list_all_iff)
qed (simp add: in_scope_def)

text \<open>A tool with a caller list is open to nobody without an email, on the route and in the listing alike.\<close>

lemma caller_lists_fail_closed:
  assumes "tf_scope fn = Some sc" and "ts_callers sc \<noteq> []"
  shows "\<exists>check. caller_dependency fn = Some check \<and> check None = Some 403 \<and> check (Some []) = Some 403
    \<and> (check email = None \<longleftrightarrow> caller_allowed (tf_scope fn) email)"
  using assms by (auto simp: caller_dependency_def caller_allowed_def)

subsection \<open>Identities\<close>

lemma new_scope_identity: "ts_identity sc = Some i \<Longrightarrow> new_scope sc = (case validate_identity i of Some e \<Rightarrow> Inl e | None \<Rightarrow> Inr sc)"
  by (simp add: new_scope_def)

lemma identity_sp [simp]: "validate_identity ''sp'' = None" "validate_identity ''obo'' = None"
  by (simp_all add: validate_identity_def)

text \<open>
  The agent's default replaces the execution a tool declared in its metadata: a tool declared to run as the
  user runs as the app's service principal when its agent declares \<open>sp\<close>.
\<close>

lemma agent_identity_overrides_execution:
  assumes "tf_scope fn = None" and "\<not> tf_platform fn"
    and "tf_meta fn = Some m" and "tm_execution m = Some User"
  shows "\<exists>fn'. inherit_identity ''sp'' fn = Inr fn' \<and> map_option tm_execution (tf_meta fn') = Some (Some Service)"
  using assms by (simp add: inherit_identity_def new_scope_def no_scope_def attach_scope_def stamp_identity_def identity_to_execution_def)

text \<open>A tool shared by two leaves keeps the identity of the leaf that is stamped first.\<close>

lemma shared_tool_keeps_first_identity:
  assumes "inherit_identity i fn = Inr fn'"
  shows "inherit_identity j fn' = Inr fn'"
proof -
  have "\<exists>sc. tf_scope fn' = Some sc \<and> ts_identity sc \<noteq> None"
    using assms by (auto simp: inherit_identity_def new_scope_def attach_scope_def stamp_identity_def split: option.splits if_splits sum.splits)
  then show ?thesis by (auto simp: inherit_identity_def)
qed

end
