(* ===== verification/Apps_Authorization.thy ===== *)
theory Apps_Authorization
  imports Tool_Scope "HOL-Library.Product_Lexorder"
begin

text \<open>
  Authorization of a deployed app (\<open>_apps_authorization.py\<close>, with the helpers it calls in
  \<open>_resources.py\<close>, \<open>_env.py\<close> and \<open>_app_space.py\<close>): the credential identity of each tool operation, the
  plan that partitions resources and scopes between the user and the service principal, and the check of
  the plan against the scopes the workspace allows.

  The environment is a function.  \<open>urlparse\<close> is modelled for URLs without brackets or control
  characters.  The tools, sub-agents and remote cards of the agent tree are lists.
\<close>

subsection \<open>Operations\<close>

datatype dependency = WorkspaceClient | UserClient | SqlRunner | Headers | Principal | Request | OtherDependency string

record op_fn = tool_fn +
  of_user_scopes :: "string list"
  of_deps :: "dependency list"

record op_auth =
  oa_name :: string
  oa_identity :: exec_identity
  oa_request_context :: bool
  oa_resources :: "(string \<times> string) list"
  oa_user_scopes :: "string list"
  oa_principal :: "string option"
  oa_remote_url :: "string option"

datatype auth_error =
    MixedCredentials string
  | ExecutionConflict string exec_identity exec_identity
  | DuplicateOperation string
  | ServiceWithUserScopes string "string list"
  | MissingScopes "(string \<times> string list) list"

definition user_deps :: "dependency list" where
  "user_deps = [UserClient, SqlRunner]"

definition context_deps :: "dependency list" where
  "context_deps = [Headers, Principal, Request]"

definition inferred_identity :: "dependency list \<Rightarrow> exec_identity option" where
  "inferred_identity deps =
     (if WorkspaceClient \<in> set deps then Some Service
      else if list_ex (\<lambda>d. d \<in> set user_deps) deps then Some User else None)"

definition infer_operation :: "op_fn \<Rightarrow> auth_error + op_auth" where
  "infer_operation fn =
     (let deps = of_deps fn;
          explicit = (case tf_meta fn of None \<Rightarrow> None | Some m \<Rightarrow> tm_execution m);
          inferred = inferred_identity deps
      in if WorkspaceClient \<in> set deps \<and> list_ex (\<lambda>d. d \<in> set user_deps) deps then Inl (MixedCredentials (tf_name fn))
         else if explicit \<noteq> None \<and> inferred \<noteq> None \<and> explicit \<noteq> inferred
           then Inl (ExecutionConflict (tf_name fn) (the explicit) (the inferred))
         else
           let identity = (case explicit of Some x \<Rightarrow> x | None \<Rightarrow>
                 (case inferred of Some x \<Rightarrow> x | None \<Rightarrow>
                   if tf_resources fn \<noteq> [] \<or> of_user_scopes fn \<noteq> [] then User else Service))
           in Inr \<lparr>oa_name = tf_name fn, oa_identity = identity,
                oa_request_context = (identity = User \<or> list_ex (\<lambda>d. d \<in> set context_deps) deps),
                oa_resources = tf_resources fn, oa_user_scopes = of_user_scopes fn,
                oa_principal = (case tf_meta fn of None \<Rightarrow> None | Some m \<Rightarrow> tm_principal m),
                oa_remote_url = (case tf_meta fn of None \<Rightarrow> None | Some m \<Rightarrow> tm_remote_url m)\<rparr>)"

fun infer_all :: "op_fn list \<Rightarrow> auth_error + op_auth list" where
  "infer_all [] = Inr []"
| "infer_all (fn # fns) =
     (case infer_operation fn of
        Inl e \<Rightarrow> Inl e
      | Inr op \<Rightarrow> (case infer_all fns of Inl e \<Rightarrow> Inl e | Inr ops \<Rightarrow> Inr (op # ops)))"

subsection \<open>Environment references and addresses\<close>

definition resolve_env_var :: "(string \<Rightarrow> string option) \<Rightarrow> string \<Rightarrow> string" where
  "resolve_env_var env v =
     (if \<not> starts_with ''$'' v then v
      else (case env (strip_by (\<lambda>c. c \<in> set ''{}'') (dropWhile (\<lambda>c. c = CHR ''$'') v)) of None \<Rightarrow> [] | Some x \<Rightarrow> x))"

definition is_alpha :: "char \<Rightarrow> bool" where
  "is_alpha c \<longleftrightarrow> CHR ''a'' \<le> lower_char c \<and> lower_char c \<le> CHR ''z''"

definition scheme_char :: "char \<Rightarrow> bool" where
  "scheme_char c \<longleftrightarrow> is_alpha c \<or> (CHR ''0'' \<le> c \<and> c \<le> CHR ''9'') \<or> c \<in> set ''+-.''"

definition split_scheme :: "string \<Rightarrow> string \<times> string" where
  "split_scheme url =
     (let p = takeWhile (\<lambda>c. c \<noteq> CHR '':'') url
      in if p \<noteq> [] \<and> length p < length url \<and> is_alpha (hd p) \<and> list_all scheme_char p
         then (lower p, drop (Suc (length p)) url) else ([], url))"

definition url_host :: "string \<Rightarrow> string option" where
  "url_host rest =
     (if \<not> starts_with ''//'' rest then None
      else let net = takeWhile (\<lambda>c. c \<notin> set ''/?#'') (drop 2 rest);
               host = takeWhile (\<lambda>c. c \<noteq> CHR '':'') (rev (takeWhile (\<lambda>c. c \<noteq> CHR ''@'') (rev net)))
           in if host = [] then None else Some (lower host))"

definition ends_with :: "string \<Rightarrow> string \<Rightarrow> bool" where
  "ends_with suffix s = starts_with (rev suffix) (rev s)"

definition is_apps_https_url :: "string \<Rightarrow> bool" where
  "is_apps_https_url url =
     (case split_scheme url of (scheme, rest) \<Rightarrow>
       (case url_host rest of
          None \<Rightarrow> False
        | Some host \<Rightarrow> scheme = ''https'' \<and> (host = ''databricksapps.com'' \<or> ends_with ''.databricksapps.com'' host)))"

fun after_first :: "string \<Rightarrow> string \<Rightarrow> string option" where
  "after_first sep [] = (if sep = [] then Some [] else None)"
| "after_first sep (c # cs) = (if starts_with sep (c # cs) then Some (drop (length sep) (c # cs)) else after_first sep cs)"

definition strip_address :: "string \<Rightarrow> string" where
  "strip_address raw =
     (case after_first ''://'' raw of
        None \<Rightarrow> raw
      | Some rest \<Rightarrow> (case after_first ''/'' rest of None \<Rightarrow> [] | Some name \<Rightarrow> name))"

definition strip_known_prefix :: "string \<Rightarrow> string" where
  "strip_known_prefix name =
     (if starts_with ''serving-endpoints/'' name then drop (length ''serving-endpoints/'') name
      else if starts_with ''endpoints/'' name then drop (length ''endpoints/'') name else name)"

definition sub_agent_to_endpoint :: "(string \<Rightarrow> string option) \<Rightarrow> string \<Rightarrow> (string \<times> string) option" where
  "sub_agent_to_endpoint env raw0 =
     (let raw = (if starts_with ''$'' raw0 then resolve_env_var env raw0 else raw0)
      in if raw = [] \<or> str_contains ''databricksapps.com'' raw then None
         else let name = strip_address raw
              in if name = [] then None
                 else let n = strip (takeWhile (\<lambda>c. c \<noteq> CHR ''/'') (strip_known_prefix name))
                      in if n = [] then None else Some (''serving_endpoint'', n))"

subsection \<open>Scopes\<close>

definition kind_to_scope :: "(string \<times> string) list" where
  "kind_to_scope =
     [(''sql_warehouse'', ''sql''), (''uc_table'', ''sql''), (''uc_function'', ''sql''), (''uc_connection'', ''sql''),
      (''serving_endpoint'', ''model-serving''), (''genie_space'', ''genie''), (''vector_search_index'', ''vector-search''),
      (''lakebase_instance'', ''postgres''), (''app'', ''apps'')]"

definition sorted_set :: "'a::linorder list \<Rightarrow> 'a list" where
  "sorted_set xs = sort (remdups xs)"

definition scopes_of_kinds :: "(string \<times> string) list \<Rightarrow> string list" where
  "scopes_of_kinds resources = List.map_filter (\<lambda>r. dget kind_to_scope (fst r)) resources"

definition user_api_scopes_for :: "(string \<times> string) list \<Rightarrow> string \<Rightarrow> string list" where
  "user_api_scopes_for resources model =
     sorted_set (scopes_of_kinds resources @ (if model \<noteq> [] then [''ai-gateway''] else []))"

subsection \<open>The plan\<close>

record auth_plan =
  ap_operations :: "op_auth list"
  ap_user_resources :: "(string \<times> string) list"
  ap_service_resources :: "(string \<times> string) list"
  ap_user_scopes :: "string list"
  ap_app_dependencies :: "string list"
  ap_agent_identity :: "string option"
  ap_model :: string
  ap_sub_agent_urls :: "string list"

definition identity_text :: "exec_identity \<Rightarrow> string" where
  "identity_text x = (case x of User \<Rightarrow> ''user'' | Service \<Rightarrow> ''service'')"

definition op_key :: "op_auth \<Rightarrow> string \<times> string \<times> bool \<times> (string \<times> string) list \<times> string list \<times> string" where
  "op_key op = (oa_name op, identity_text (oa_identity op), oa_request_context op, sort (oa_resources op),
     sort (oa_user_scopes op), (case oa_principal op of None \<Rightarrow> [] | Some p \<Rightarrow> p))"

text \<open>One operation per name; two different declarations of one name are refused.\<close>

fun by_name :: "op_auth list \<Rightarrow> (string \<times> op_auth) list \<Rightarrow> auth_error + (string \<times> op_auth) list" where
  "by_name [] d = Inr d"
| "by_name (op # ops) d =
     (case dget d (oa_name op) of
        None \<Rightarrow> by_name ops (dset (oa_name op) op d)
      | Some old \<Rightarrow> if old \<noteq> op then Inl (DuplicateOperation (oa_name op)) else by_name ops (dset (oa_name op) op d))"

text \<open>User resources, service resources, raw user scopes.\<close>

fun partition_ops ::
  "op_auth list \<Rightarrow> (string \<times> string) list \<times> (string \<times> string) list \<times> string list
   \<Rightarrow> auth_error + (string \<times> string) list \<times> (string \<times> string) list \<times> string list" where
  "partition_ops [] acc = Inr acc"
| "partition_ops (op # ops) (user, service, scopes) =
     (case oa_identity op of
        User \<Rightarrow> partition_ops ops (user @ oa_resources op, service, scopes @ oa_user_scopes op)
      | Service \<Rightarrow>
          if oa_user_scopes op \<noteq> [] then Inl (ServiceWithUserScopes (oa_name op) (sort (oa_user_scopes op)))
          else partition_ops ops (user, service @ oa_resources op, scopes))"

text \<open>Sub-agents: the addresses called, the peer apps, the serving endpoints.\<close>

definition add_sub_agent ::
  "(string \<Rightarrow> string option) \<Rightarrow> string \<Rightarrow> string list \<times> string list \<times> (string \<times> string) list
   \<Rightarrow> string list \<times> string list \<times> (string \<times> string) list" where
  "add_sub_agent env raw acc =
     (let (urls, apps, endpoints) = acc; r = resolve_env_var env raw
      in if r = [] then acc
         else let urls' = (if starts_with ''http://'' r \<or> starts_with ''https://'' r then urls @ [r] else urls)
              in if is_apps_https_url r then (urls', apps @ [r], endpoints)
                 else (urls', apps, endpoints @ (case sub_agent_to_endpoint env r of None \<Rightarrow> [] | Some e \<Rightarrow> [e])))"

definition rstrip_slash :: "string \<Rightarrow> string" where
  "rstrip_slash s = rev (dropWhile (\<lambda>c. c = CHR ''/'') (rev s))"

definition card_suffix :: string where
  "card_suffix = ''/.well-known/agent.json''"

definition add_card :: "string \<Rightarrow> string list \<Rightarrow> string list" where
  "add_card addr apps =
     (let u0 = rstrip_slash addr;
          u = (if ends_with card_suffix u0 then take (length u0 - length card_suffix) u0 else u0)
      in if is_apps_https_url u \<and> \<not> list_ex (\<lambda>a. rstrip_slash a = u) apps then apps @ [u] else apps)"

definition compile_plan ::
  "(string \<Rightarrow> string option) \<Rightarrow> op_fn list \<Rightarrow> string list \<Rightarrow> string list \<Rightarrow> string \<Rightarrow> string option \<Rightarrow> auth_error + auth_plan" where
  "compile_plan env fns sub_agents cards model identity =
     (case infer_all fns of
        Inl e \<Rightarrow> Inl e
      | Inr ops0 \<Rightarrow>
     (case by_name (sort_key op_key ops0) [] of
        Inl e \<Rightarrow> Inl e
      | Inr named \<Rightarrow>
     (case partition_ops (map snd named) ([], [], if model \<noteq> [] then [''ai-gateway''] else []) of
        Inl e \<Rightarrow> Inl e
      | Inr (user, service, scopes) \<Rightarrow>
          let (urls, apps, endpoints) = fold (add_sub_agent env) sub_agents ([], [], []);
              user' = sorted_set user
          in Inr \<lparr>ap_operations = map snd named, ap_user_resources = user', ap_service_resources = sorted_set (service @ endpoints),
               ap_user_scopes = sorted_set (user_api_scopes_for user' model @ scopes),
               ap_app_dependencies = sorted_set (fold add_card cards apps), ap_agent_identity = identity, ap_model = model,
               ap_sub_agent_urls = sorted_set urls\<rparr>)))"

subsection \<open>The workspace's allowlist\<close>

text \<open>The setting as read: \<open>None\<close> when the call raised, else its effective and its declared message, each
  with its list of scopes.  The result is the allowed scopes, \<open>None\<close> for no restriction.\<close>

fun is_str :: "pyval \<Rightarrow> bool" where
  "is_str (PStr s) = True"
| "is_str _ = False"

definition read_allowlist :: "(pyval option \<times> pyval option) option \<Rightarrow> string list option" where
  "read_allowlist setting =
     (case setting of
        None \<Rightarrow> None
      | Some (effective, declared) \<Rightarrow>
          (case (case effective of Some m \<Rightarrow> Some m | None \<Rightarrow> declared) of
             Some (PList scopes) \<Rightarrow>
               if list_all is_str scopes \<and> PStr ''*'' \<notin> set scopes then Some (map str_of scopes) else None
           | _ \<Rightarrow> None))"

definition scope_owners :: "auth_plan \<Rightarrow> string \<Rightarrow> string list" where
  "scope_owners plan scope =
     map (\<lambda>op. ''tool '' @ py_repr (oa_name op)) (filter (\<lambda>op. oa_identity op = User
       \<and> scope \<in> set (oa_user_scopes op @ user_api_scopes_for (oa_resources op) [])) (ap_operations plan))
     @ (if ap_model plan \<noteq> [] \<and> scope \<in> set (user_api_scopes_for [] (ap_model plan)) then [''chat model '' @ py_repr (ap_model plan)] else [])"

definition require_allowlist :: "(pyval option \<times> pyval option) option \<Rightarrow> auth_plan \<Rightarrow> auth_error option" where
  "require_allowlist setting plan =
     (case read_allowlist setting of
        None \<Rightarrow> None
      | Some allowed \<Rightarrow>
          (let missing = sorted_set (filter (\<lambda>s. s \<notin> set allowed) (ap_user_scopes plan))
           in if missing = [] then None else Some (MissingScopes (map (\<lambda>s. (s, scope_owners plan s)) missing))))"

subsection \<open>What a plan grants\<close>

lemma set_sorted_set [simp]: "set (sorted_set xs) = set xs"
  by (simp add: sorted_set_def)

lemma distinct_sorted_set [simp]: "distinct (sorted_set xs)"
  by (simp add: sorted_set_def)

lemma set_user_api_scopes_for:
  "set (user_api_scopes_for resources model) = set (scopes_of_kinds resources) \<union> (if model \<noteq> [] then {''ai-gateway''} else {})"
  by (simp add: user_api_scopes_for_def)

lemma scopes_of_kinds_set: "set (scopes_of_kinds resources) = (\<Union>r \<in> set resources. set_option (dget kind_to_scope (fst r)))"
  by (induction resources) (auto simp: scopes_of_kinds_def map_filter_simps split: option.split)

lemma infer_all_ops: "infer_all fns = Inr ops \<Longrightarrow> map infer_operation fns = map Inr ops"
  by (induction fns arbitrary: ops) (auto split: sum.splits)

lemma by_name_spec:
  "by_name ops d = Inr d' \<Longrightarrow> dict_wf d \<Longrightarrow> \<forall>(n, op) \<in> set d. n = oa_name op \<Longrightarrow>
     dict_wf d' \<and> (\<forall>(n, op) \<in> set d'. n = oa_name op) \<and> snd ` set d' = snd ` set d \<union> set ops"
proof (induction ops arbitrary: d)
  case (Cons op ops)
  show ?case
  proof (cases "dget d (oa_name op)")
    case None
    then have d: "dset (oa_name op) op d = d @ [(oa_name op, op)]" by (rule dset_new)
    have "dict_wf (dset (oa_name op) op d)" using Cons.prems(2) by simp
    with Cons.IH [of "dset (oa_name op) op d"] Cons.prems None show ?thesis by (auto simp: d)
  next
    case (Some old)
    then have old: "old = op" using Cons.prems(1) by (simp split: if_splits)
    then have "op \<in> snd ` set d" using Some by (force dest: dget_Some_in_set)
    moreover have "by_name ops d = Inr d'" using Cons.prems(1) Some old dset_same [of d "oa_name op" op] by simp
    ultimately show ?thesis using Cons.IH [of d] Cons.prems(2,3) by (simp add: insert_absorb Un_commute)
  qed
qed auto

lemma partition_ops_spec:
  "partition_ops ops (u, sv, sc) = Inr (u', sv', sc') \<Longrightarrow>
     u' = u @ concat (map oa_resources (filter (\<lambda>op. oa_identity op = User) ops))
     \<and> sv' = sv @ concat (map oa_resources (filter (\<lambda>op. oa_identity op = Service) ops))
     \<and> sc' = sc @ concat (map oa_user_scopes (filter (\<lambda>op. oa_identity op = User) ops))
     \<and> list_all (\<lambda>op. oa_identity op = User \<or> oa_user_scopes op = []) ops"
proof (induction ops arbitrary: u sv sc)
  case (Cons op ops)
  show ?case
  proof (cases "oa_identity op")
    case User
    with Cons.IH [of "u @ oa_resources op" sv "sc @ oa_user_scopes op"] Cons.prems show ?thesis by simp
  next
    case Service
    with Cons.IH [of u "sv @ oa_resources op" sc] Cons.prems show ?thesis by (simp split: if_splits)
  qed
qed simp

definition op_scopes :: "op_auth \<Rightarrow> string list" where
  "op_scopes op = oa_user_scopes op @ user_api_scopes_for (oa_resources op) []"

lemma set_op_scopes: "set (op_scopes op) = set (oa_user_scopes op) \<union> set (scopes_of_kinds (oa_resources op))"
  by (simp add: op_scopes_def set_user_api_scopes_for)

lemma scopes_of_kinds_concat:
  "set (scopes_of_kinds (concat (map f xs))) = (\<Union>x \<in> set xs. set (scopes_of_kinds (f x)))"
  by (auto simp: scopes_of_kinds_set)

lemma scopes_of_kinds_cong: "set a = set b \<Longrightarrow> set (scopes_of_kinds a) = set (scopes_of_kinds b)"
  by (simp add: scopes_of_kinds_set)

lemma plan_spec:
  assumes "compile_plan env fns subs cards model identity = Inr plan"
  shows "set (map Inr (ap_operations plan)) = set (map infer_operation fns)
    \<and> distinct (map oa_name (ap_operations plan))
    \<and> list_all (\<lambda>op. oa_identity op = User \<or> oa_user_scopes op = []) (ap_operations plan)
    \<and> set (ap_user_scopes plan) = set (concat (map op_scopes (filter (\<lambda>op. oa_identity op = User) (ap_operations plan))))
        \<union> (if model \<noteq> [] then {''ai-gateway''} else {})
    \<and> ap_model plan = model"
proof -
  obtain ops0 where ops0: "infer_all fns = Inr ops0" using assms by (auto simp: compile_plan_def split: sum.splits)
  obtain named where named: "by_name (sort_key op_key ops0) [] = Inr named"
    using assms ops0 by (auto simp: compile_plan_def split: sum.splits)
  obtain u sv sc where part: "partition_ops (map snd named) ([], [], if model \<noteq> [] then [''ai-gateway''] else []) = Inr (u, sv, sc)"
    using assms ops0 named by (auto simp: compile_plan_def split: sum.splits prod.splits)
  have plan: "ap_operations plan = map snd named" "ap_model plan = model"
    "ap_user_scopes plan = sorted_set (user_api_scopes_for (sorted_set u) model @ sc)"
    using assms ops0 named part by (auto simp: compile_plan_def Let_def split: prod.splits)
  have n: "dict_wf named" "\<forall>(n, op) \<in> set named. n = oa_name op" "snd ` set named = set ops0"
    using by_name_spec [OF named] by auto
  have "map oa_name (map snd named) = map fst named" using n(2) by (induction named) auto
  then have "distinct (map oa_name (ap_operations plan))" using n(1) unfolding plan dict_wf_def by (simp only:)
  moreover have "set (map Inr (ap_operations plan)) = set (map infer_operation fns)"
    using infer_all_ops [OF ops0] n(3) by (metis list.set_map plan(1))
  moreover note p = partition_ops_spec [OF part]
  have "set (ap_user_scopes plan) = set (concat (map op_scopes (filter (\<lambda>op. oa_identity op = User) (ap_operations plan))))
        \<union> (if model \<noteq> [] then {''ai-gateway''} else {})"
  proof -
    have u: "u = concat (map oa_resources (filter (\<lambda>op. oa_identity op = User) (map snd named)))"
      and sc: "sc = (if model \<noteq> [] then [''ai-gateway''] else []) @ concat (map oa_user_scopes (filter (\<lambda>op. oa_identity op = User) (map snd named)))"
      using p by simp_all
    have "set (ap_user_scopes plan) = set (scopes_of_kinds u) \<union> (if model \<noteq> [] then {''ai-gateway''} else {}) \<union> set sc"
      using scopes_of_kinds_cong [of "sorted_set u" u] by (simp add: plan set_user_api_scopes_for)
    then show ?thesis unfolding u sc scopes_of_kinds_concat plan(1) by (auto simp: set_op_scopes)
  qed
  moreover have "list_all (\<lambda>op. oa_identity op = User \<or> oa_user_scopes op = []) (ap_operations plan)"
    using p by (simp add: plan)
  ultimately show ?thesis using plan by blast
qed

text \<open>
  A plan that compiles holds one operation per tool name; when the workspace's allowlist lets it
  through, every scope a user operation needs, declared or implied by its resources, is in the plan and
  allowed by the workspace, and operations of the service principal need none.
\<close>

theorem deployed_plan_is_authorized:
  assumes "compile_plan env fns subs cards model identity = Inr plan"
    and "read_allowlist setting = Some allowed" and "require_allowlist setting plan = None"
    and "fn \<in> set fns" and "infer_operation fn = Inr op"
  shows "op \<in> set (ap_operations plan) \<and> distinct (map oa_name (ap_operations plan))
    \<and> (if oa_identity op = User then set (op_scopes op) \<subseteq> set (ap_user_scopes plan) \<and> set (op_scopes op) \<subseteq> set allowed
       else oa_user_scopes op = [])"
proof -
  note p = plan_spec [OF assms(1)]
  have "Inr op \<in> infer_operation ` set fns" using assms(4,5) by force
  then have op: "op \<in> set (ap_operations plan)" using p by auto
  have "sorted_set (filter (\<lambda>s. s \<notin> set allowed) (ap_user_scopes plan)) = []"
    using assms(2,3) by (auto simp: require_allowlist_def Let_def split: if_splits)
  then have "set (ap_user_scopes plan) \<subseteq> set allowed"
    by (metis (no_types, lifting) filter_empty_conv set_empty set_sorted_set subsetI)
  moreover have "set (op_scopes op) \<subseteq> set (ap_user_scopes plan)" if "oa_identity op = User" using p op that by auto
  moreover have "oa_user_scopes op = []" if "oa_identity op \<noteq> User" using p op that by (auto simp: list_all_iff)
  ultimately show ?thesis using op p by auto
qed

definition demo_fn :: op_fn where
  "demo_fn = \<lparr>tf_name = ''ask'', tf_platform = False, tf_scope = None, tf_meta = None,
     tf_resources = [(''genie_space'', ''g'')], of_user_scopes = [''sql''], of_deps = []\<rparr>"

definition demo_op :: op_auth where
  "demo_op = \<lparr>oa_name = ''ask'', oa_identity = User, oa_request_context = True, oa_resources = [(''genie_space'', ''g'')],
     oa_user_scopes = [''sql''], oa_principal = None, oa_remote_url = None\<rparr>"

definition demo_plan :: auth_plan where
  "demo_plan = \<lparr>ap_operations = [demo_op], ap_user_resources = [(''genie_space'', ''g'')], ap_service_resources = [],
     ap_user_scopes = [''ai-gateway'', ''genie'', ''sql''], ap_app_dependencies = [''https://peer.databricksapps.com''],
     ap_agent_identity = None, ap_model = ''m'', ap_sub_agent_urls = [''https://peer.databricksapps.com'']\<rparr>"

lemma demo_compiles:
  "compile_plan (\<lambda>v. None) [demo_fn] [''https://peer.databricksapps.com''] [] ''m'' None = Inr demo_plan"
  by code_simp

definition demo_setting :: "(pyval option \<times> pyval option) option" where
  "demo_setting = Some (None, Some (PList [PStr ''genie'', PStr ''sql'', PStr ''ai-gateway'']))"

theorem deployed_plan_is_authorized_witness: "set (op_scopes demo_op) \<subseteq> {''genie'', ''sql'', ''ai-gateway''}"
proof -
  have allowed: "read_allowlist demo_setting = Some [''genie'', ''sql'', ''ai-gateway'']" by code_simp
  have passed: "require_allowlist demo_setting demo_plan = None" by code_simp
  have op: "infer_operation demo_fn = Inr demo_op" by code_simp
  have fn: "demo_fn \<in> set [demo_fn]" by simp
  have user: "oa_identity demo_op = User" by (simp add: demo_op_def)
  from deployed_plan_is_authorized [OF demo_compiles allowed passed fn op] show ?thesis unfolding user by simp
qed

text \<open>Every scope the refusal names is attributed to a tool or to the chat model.\<close>

lemma every_scope_has_an_owner:
  assumes "compile_plan env fns subs cards model identity = Inr plan" and "s \<in> set (ap_user_scopes plan)"
  shows "scope_owners plan s \<noteq> []"
proof -
  note p = plan_spec [OF assms(1)]
  consider op where "op \<in> set (ap_operations plan)" "oa_identity op = User" "s \<in> set (op_scopes op)"
    | "model \<noteq> []" "s = ''ai-gateway''"
    using p assms(2) by (auto split: if_splits)
  then show ?thesis
  proof cases
    case (1 op)
    then have "filter (\<lambda>op. oa_identity op = User \<and> s \<in> set (oa_user_scopes op @ user_api_scopes_for (oa_resources op) []))
        (ap_operations plan) \<noteq> []"
      unfolding op_scopes_def filter_empty_conv by blast
    then show ?thesis by (simp add: scope_owners_def)
  next
    case 2
    then show ?thesis using p by (simp add: scope_owners_def set_user_api_scopes_for)
  qed
qed

text \<open>A tool that mixes credentials, or whose declared identity contradicts them, does not compile.\<close>

lemma credentials_decide_identity:
  assumes "infer_operation fn = Inr op"
  shows "(WorkspaceClient \<in> set (of_deps fn) \<longrightarrow> oa_identity op = Service)
    \<and> (UserClient \<in> set (of_deps fn) \<or> SqlRunner \<in> set (of_deps fn) \<longrightarrow> oa_identity op = User)"
  using assms by (auto simp: infer_operation_def inferred_identity_def user_deps_def list_ex_iff Let_def split: if_splits option.splits)

text \<open>
  An address outside the platform is taken for a serving endpoint named after the first piece of its path,
  and the plan asks for a grant on that endpoint.
\<close>

lemma external_address_becomes_endpoint:
  "sub_agent_to_endpoint env ''https://peer.example.com/api/chat'' = Some (''serving_endpoint'', ''api'')"
  by code_simp

lemma external_address_is_granted:
  "map_sum id ap_service_resources (compile_plan (\<lambda>v. None) [] [''https://peer.example.com/api/chat''] [] ''m'' None)
   = Inr [(''serving_endpoint'', ''api'')]"
  by code_simp

text \<open>An app's address with and without a final slash makes two dependencies.\<close>

lemma trailing_slash_doubles_dependency:
  "map_sum id ap_app_dependencies (compile_plan (\<lambda>v. None) []
     [''https://a.databricksapps.com'', ''https://a.databricksapps.com/''] [] ''m'' None)
   = Inr [''https://a.databricksapps.com'', ''https://a.databricksapps.com/'']"
  by code_simp

end
