(* ===== verification/Delta_Engine.thy ===== *)
theory Delta_Engine
  imports Workflow_Engine
begin

text \<open>
  The durable backend of the workflow engine, \<open>workflow/engine_delta.py\<close>: runs and steps are rows of two
  tables, and a process keeps the step records it has seen in a cache that a restart loses.

  The statements are modelled by their effect on the tables: \<open>MERGE ... WHEN NOT MATCHED\<close> inserts a row
  unless its key has one, \<open>WHEN MATCHED\<close> and \<open>UPDATE\<close> set columns, \<open>SELECT\<close> reads.  A JSON text in a column
  is the value it denotes; \<open>NULL\<close> is \<open>None\<close>.  What \<open>json.dumps\<close> makes of a handler's result and \<open>json.loads\<close>
  of a column are the parameters \<open>enc\<close> (\<open>None\<close> for a \<open>TypeError\<close>) and \<open>dec\<close>, instantiated below for JSON
  values.  A statement that fails or times out is outside the model.
\<close>

subsection \<open>Names\<close>

text \<open>\<open>re.match(r'^[\w.:\-]+$', s)\<close> on ASCII text; the dollar sign also matches before a final line break.\<close>

definition name_char :: "char \<Rightarrow> bool" where
  "name_char c \<longleftrightarrow> (CHR ''a'' \<le> lower_char c \<and> lower_char c \<le> CHR ''z'') \<or> (CHR ''0'' \<le> c \<and> c \<le> CHR ''9'')
     \<or> c \<in> set ''_.:-''"

definition safe_name :: "string \<Rightarrow> bool" where
  "safe_name s =
     (let t = (if s \<noteq> [] \<and> last s = CHR 0x0A then butlast s else s) in t \<noteq> [] \<and> list_all name_char t)"

lemma safe_name_accepts_line_break: "safe_name (''run'' @ [CHR 0x0A])"
  by code_simp

subsection \<open>Tables\<close>

record delta_run =
  dr_name :: string
  dr_status :: run_status
  dr_input :: "pyval option"
  dr_output :: "pyval option"
  dr_started :: string
  dr_updated :: string

record delta_step_row =
  ds_status :: step_status
  ds_output :: "pyval option"
  ds_error :: "string option"
  ds_duration :: int
  ds_recorded :: string

record 'v delta =
  de_runs :: "(string \<times> delta_run) list"
  de_steps :: "((string \<times> string) \<times> delta_step_row) list"
  de_caching :: bool
  de_cache :: "((string \<times> string) \<times> 'v step_record) list"

definition new_delta :: "bool \<Rightarrow> 'v delta" where
  "new_delta caching = \<lparr>de_runs = [], de_steps = [], de_caching = caching, de_cache = []\<rparr>"

definition clear_cache :: "'v delta \<Rightarrow> 'v delta" where
  "clear_cache d = d\<lparr>de_cache := []\<rparr>"

subsection \<open>Operations\<close>

text \<open>An input of \<open>None\<close> is stored as the JSON text \<open>null\<close>.\<close>

definition delta_start_run ::
  "('i \<Rightarrow> pyval option) \<Rightarrow> string \<Rightarrow> 'i option \<Rightarrow> string option \<Rightarrow> string \<Rightarrow> string \<Rightarrow> 'v delta
    \<Rightarrow> (engine_error + string) \<times> 'v delta" where
  "delta_start_run enc name inp run_id uuid now d =
     (let rid = (case run_id of None \<Rightarrow> uuid | Some r \<Rightarrow> if r = [] then uuid else r)
      in if \<not> safe_name rid then (Inl (InvalidName rid), d)
         else if \<not> safe_name name then (Inl (InvalidName name), d)
         else (case (case inp of None \<Rightarrow> Some PNone | Some i \<Rightarrow> enc i) of
            None \<Rightarrow> (Inl NotSerializable, d)
          | Some j \<Rightarrow>
              (case dget (de_runs d) rid of
                 Some run \<Rightarrow> (Inr rid, d\<lparr>de_runs := dset rid (run\<lparr>dr_status := Running, dr_updated := now\<rparr>) (de_runs d)\<rparr>)
               | None \<Rightarrow> (Inr rid, d\<lparr>de_runs := dset rid \<lparr>dr_name = name, dr_status = Running, dr_input = Some j, dr_output = None,
                     dr_started = now, dr_updated = now\<rparr> (de_runs d)\<rparr>))))"

text \<open>\<open>_parse_json_or_none\<close> on a column.\<close>

definition parse_column :: "(pyval \<Rightarrow> 'v option) \<Rightarrow> pyval option \<Rightarrow> 'v option" where
  "parse_column dec col = (case col of None \<Rightarrow> None | Some j \<Rightarrow> dec j)"

definition record_of_row :: "(pyval \<Rightarrow> 'v option) \<Rightarrow> string \<Rightarrow> delta_step_row \<Rightarrow> 'v step_record" where
  "record_of_row dec k row =
     \<lparr>sr_key = k, sr_status = ds_status row, sr_output = parse_column dec (ds_output row), sr_error = ds_error row,
      sr_duration_ms = ds_duration row, sr_recorded_at = ds_recorded row\<rparr>"

definition remember :: "string \<times> string \<Rightarrow> 'v step_record \<Rightarrow> 'v delta \<Rightarrow> 'v delta" where
  "remember rk rec d = (if de_caching d then d\<lparr>de_cache := dset rk rec (de_cache d)\<rparr> else d)"

definition lookup_step :: "(pyval \<Rightarrow> 'v option) \<Rightarrow> string \<Rightarrow> string \<Rightarrow> 'v delta \<Rightarrow> 'v step_record option \<times> 'v delta" where
  "lookup_step dec r k d =
     (case (if de_caching d then dget (de_cache d) (r, k) else None) of
        Some rec \<Rightarrow> (Some rec, d)
      | None \<Rightarrow>
          (case dget (de_steps d) (r, k) of
             None \<Rightarrow> (None, d)
           | Some row \<Rightarrow> (Some (record_of_row dec k row), remember (r, k) (record_of_row dec k row) d)))"

definition merge_step :: "string \<times> string \<Rightarrow> delta_step_row \<Rightarrow> 'v delta \<Rightarrow> 'v delta" where
  "merge_step rk row d = (case dget (de_steps d) rk of None \<Rightarrow> d\<lparr>de_steps := dset rk row (de_steps d)\<rparr> | Some _ \<Rightarrow> d)"

text \<open>\<open>None\<close>: the output could not be serialised, and nothing was stored.\<close>

definition persist_step :: "('v \<Rightarrow> pyval option) \<Rightarrow> string \<Rightarrow> 'v step_record \<Rightarrow> string \<Rightarrow> 'v delta \<Rightarrow> 'v delta option" where
  "persist_step enc r rec now d =
     (case (case sr_output rec of None \<Rightarrow> Some None | Some v \<Rightarrow> map_option Some (enc v)) of
        None \<Rightarrow> None
      | Some col \<Rightarrow>
          Some (merge_step (r, sr_key rec) \<lparr>ds_status = sr_status rec, ds_output = col, ds_error = sr_error rec,
            ds_duration = sr_duration_ms rec, ds_recorded = now\<rparr> d))"

definition delta_step ::
  "('v \<Rightarrow> pyval option) \<Rightarrow> (pyval \<Rightarrow> 'v option) \<Rightarrow> string \<Rightarrow> string \<Rightarrow> ('w, 'v) handler \<Rightarrow> int \<times> string \<Rightarrow> 'v delta \<Rightarrow> 'w
    \<Rightarrow> (engine_error + 'v option) \<times> 'v delta \<times> 'w" where
  "delta_step enc dec r k h clock d w =
     (if \<not> safe_name r then (Inl (InvalidName r), d, w)
      else if \<not> safe_name k then (Inl (InvalidName k), d, w)
      else (case lookup_step dec r k d of
         (Some cached, d') \<Rightarrow>
           (if sr_status cached = StepCompleted then (Inr (sr_output cached), d', w)
            else (Inl (StepFailedError k (failure_message (sr_error cached))), d', w))
       | (None, d') \<Rightarrow>
           (case h w of
              (Raised msg, w') \<Rightarrow>
                (let rec = \<lparr>sr_key = k, sr_status = StepFailed, sr_output = None, sr_error = Some msg,
                      sr_duration_ms = fst clock, sr_recorded_at = snd clock\<rparr>
                 in case persist_step enc r rec (snd clock) d' of
                      None \<Rightarrow> (Inl NotSerializable, d', w')
                    | Some d2 \<Rightarrow> (Inl (HandlerError msg), remember (r, k) rec d2, w'))
            | (Returned v, w') \<Rightarrow>
                (let rec = \<lparr>sr_key = k, sr_status = StepCompleted, sr_output = v, sr_error = None,
                      sr_duration_ms = fst clock, sr_recorded_at = snd clock\<rparr>
                 in case persist_step enc r rec (snd clock) d' of
                      None \<Rightarrow> (Inl NotSerializable, d', w')
                    | Some d2 \<Rightarrow> (Inr v, remember (r, k) rec d2, w'))
            | (Aborted, w') \<Rightarrow> (Inl HandlerAborted, d', w'))))"

definition delta_finish_run ::
  "('v \<Rightarrow> pyval option) \<Rightarrow> string \<Rightarrow> run_status \<Rightarrow> 'v option \<Rightarrow> string \<Rightarrow> 'v delta \<Rightarrow> engine_error + 'v delta" where
  "delta_finish_run enc rid st out now d =
     (if \<not> safe_name rid then Inl (InvalidName rid)
      else (case (case out of None \<Rightarrow> Some None | Some v \<Rightarrow> map_option Some (enc v)) of
         None \<Rightarrow> Inl NotSerializable
       | Some col \<Rightarrow>
           (case dget (de_runs d) rid of
              None \<Rightarrow> Inr d
            | Some run \<Rightarrow> Inr (d\<lparr>de_runs := dset rid (run\<lparr>dr_status := st, dr_updated := now,
                dr_output := (case col of None \<Rightarrow> dr_output run | Some j \<Rightarrow> Some j)\<rparr>) (de_runs d)\<rparr>))))"

definition delta_get_run :: "(pyval \<Rightarrow> 'v option) \<Rightarrow> string \<Rightarrow> 'v delta \<Rightarrow> 'v run_snapshot option" where
  "delta_get_run dec rid d =
     (case dget (de_runs d) rid of
        None \<Rightarrow> None
      | Some run \<Rightarrow> Some \<lparr>rs_id = rid, rs_name = dr_name run, rs_status = dr_status run, rs_input = parse_column dec (dr_input run),
          rs_output = parse_column dec (dr_output run), rs_started = dr_started run, rs_updated = dr_updated run,
          rs_steps = map (\<lambda>((r, k), row). record_of_row dec k row) (filter (\<lambda>((r, k), row). r = rid) (de_steps d))\<rparr>)"

text \<open>A limit is used when it is positive; an empty name filter is no filter.\<close>

definition delta_list_runs :: "run_filter option \<Rightarrow> 'v delta \<Rightarrow> run_summary list" where
  "delta_list_runs flt d =
     (let keep = (\<lambda>(rid, run). case flt of None \<Rightarrow> True
            | Some f \<Rightarrow> (case f_name f of None \<Rightarrow> True | Some n \<Rightarrow> n = [] \<or> dr_name run = n)
                \<and> (case f_status f of None \<Rightarrow> True | Some st \<Rightarrow> dr_status run = st));
          rows = sort_desc (\<lambda>(rid, run). dr_started run) (filter keep (de_runs d));
          cut = (case flt of None \<Rightarrow> rows | Some f \<Rightarrow>
            (case f_limit f of None \<Rightarrow> rows | Some n \<Rightarrow> if 0 < n then take (nat n) rows else rows))
      in map (\<lambda>(rid, run). \<lparr>sum_id = rid, sum_name = dr_name run, sum_status = dr_status run,
           sum_started = dr_started run, sum_updated = dr_updated run\<rparr>) cut)"

subsection \<open>JSON values\<close>

text \<open>The values a handler can return and the tables can hold, \<open>None\<close> aside.\<close>

datatype jval =
    JBool bool
  | JInt int
  | JFloat pyfloat
  | JStr string
  | JList "pyval list"
  | JDict "(string \<times> pyval) list"

fun jdumps :: "jval \<Rightarrow> pyval option" where
  "jdumps (JBool b) = Some (PBool b)"
| "jdumps (JInt n) = Some (PInt n)"
| "jdumps (JFloat x) = Some (PFloat x)"
| "jdumps (JStr s) = Some (PStr s)"
| "jdumps (JList xs) = Some (PList xs)"
| "jdumps (JDict d) = Some (PDict d)"

fun jloads :: "pyval \<Rightarrow> jval option" where
  "jloads PNone = None"
| "jloads (PBool b) = Some (JBool b)"
| "jloads (PInt n) = Some (JInt n)"
| "jloads (PFloat x) = Some (JFloat x)"
| "jloads (PStr s) = Some (JStr s)"
| "jloads (PList xs) = Some (JList xs)"
| "jloads (PDict d) = Some (JDict d)"

lemma json_round_trip: "\<exists>j. jdumps v = Some j \<and> jloads j = Some v"
  by (cases v) simp_all

abbreviation jstep where "jstep \<equiv> delta_step jdumps jloads"

subsection \<open>The Delta engine meets the contract\<close>

definition delta_accepts :: "'v delta \<Rightarrow> string \<Rightarrow> string \<Rightarrow> bool" where
  "delta_accepts d r k \<longleftrightarrow> safe_name r \<and> safe_name k"

definition delta_log :: "(pyval \<Rightarrow> 'v option) \<Rightarrow> 'v delta \<Rightarrow> string \<Rightarrow> string \<Rightarrow> (string + 'v option) option" where
  "delta_log dec d r k = map_option step_result (fst (lookup_step dec r k d))"

lemma lookup_keeps_log: "delta_log dec (snd (lookup_step dec r k d)) = delta_log dec d"
  by (rule ext, rule ext)
    (auto simp: delta_log_def lookup_step_def remember_def dget_dset split: option.splits if_splits)

lemma lookup_some:
  "delta_log dec d r k = Some x \<Longrightarrow> \<exists>rec d'. lookup_step dec r k d = (Some rec, d') \<and> step_result rec = x \<and> delta_log dec d' = delta_log dec d"
  using lookup_keeps_log [of dec r k d] by (cases "lookup_step dec r k d") (auto simp: delta_log_def)

lemma lookup_none: "delta_log dec d r k = None \<Longrightarrow> lookup_step dec r k d = (None, d)"
  by (auto simp: delta_log_def lookup_step_def split: option.splits if_splits)

lemma delta_log_recorded:
  assumes "delta_log dec d r k = None" and "step_result (record_of_row dec k row) = step_result rec"
  shows "delta_log dec (remember (r, k) rec (merge_step (r, k) row d)) = (delta_log dec d)(r := (delta_log dec d r)(k := Some (step_result rec)))"
proof -
  have t: "dget (de_steps d) (r, k) = None" using assms(1) by (auto simp: delta_log_def lookup_step_def split: option.splits if_splits)
  have "delta_log dec (remember (r, k) rec (merge_step (r, k) row d)) r' k'
      = ((delta_log dec d)(r := (delta_log dec d r)(k := Some (step_result rec)))) r' k'" for r' k'
    using assms(2) by (auto simp: delta_log_def lookup_step_def remember_def merge_step_def dget_dset t split: option.splits)
  then show ?thesis by blast
qed

interpretation delta_engine: memo_engine jstep delta_accepts "delta_log jloads"
proof (unfold_locales, goal_cases)
  case (1 e r k h c w)
  then show ?case by (auto simp: delta_accepts_def delta_step_def)
next
  case (2 e r k v h c w)
  from lookup_some [OF 2(2)] obtain rec d' where l: "lookup_step jloads r k e = (Some rec, d')" "step_result rec = Inr v"
    "delta_log jloads d' = delta_log jloads e" by blast
  then have "sr_status rec = StepCompleted" "sr_output rec = v" by (auto simp: step_result_def split: if_splits)
  with 2(1) l show ?case by (intro exI [of _ d']) (simp add: delta_step_def delta_accepts_def fun_eq_iff)
next
  case (3 e r k m h c w)
  from lookup_some [OF 3(2)] obtain rec d' where l: "lookup_step jloads r k e = (Some rec, d')" "step_result rec = Inl m"
    "delta_log jloads d' = delta_log jloads e" by blast
  then have "sr_status rec \<noteq> StepCompleted" "failure_message (sr_error rec) = m" by (auto simp: step_result_def split: if_splits)
  with 3(1) l show ?case by (intro exI [of _ d']) (simp add: delta_step_def delta_accepts_def fun_eq_iff)
next
  case (4 e r k h w v w' c)
  obtain col where col: "(case v of None \<Rightarrow> Some None | Some v \<Rightarrow> map_option Some (jdumps v)) = Some col" "parse_column jloads col = v"
  proof (cases v)
    case None
    then show ?thesis using that [of None] by (simp add: parse_column_def)
  next
    case (Some a)
    moreover obtain j where "jdumps a = Some j" "jloads j = Some a" using json_round_trip by blast
    ultimately show ?thesis using that [of "Some j"] by (simp add: parse_column_def)
  qed
  let ?rec = "\<lparr>sr_key = k, sr_status = StepCompleted, sr_output = v, sr_error = None, sr_duration_ms = fst c, sr_recorded_at = snd c\<rparr>"
  let ?row = "\<lparr>ds_status = StepCompleted, ds_output = col, ds_error = None, ds_duration = fst c, ds_recorded = snd c\<rparr>"
  have "step_result (record_of_row jloads k ?row) = step_result ?rec" by (simp add: step_result_def record_of_row_def col(2))
  from delta_log_recorded [OF 4(2) this] 4(1,3) lookup_none [OF 4(2)] col(1) show ?case
    by (intro exI [of _ "remember (r, k) ?rec (merge_step (r, k) ?row e)"])
      (simp add: delta_step_def delta_accepts_def persist_step_def fun_eq_iff step_result_def)
next
  case (5 e r k h w m w' c)
  let ?rec = "\<lparr>sr_key = k, sr_status = StepFailed, sr_output = None, sr_error = Some m, sr_duration_ms = fst c, sr_recorded_at = snd c\<rparr>"
  let ?row = "\<lparr>ds_status = StepFailed, ds_output = None, ds_error = Some m, ds_duration = fst c, ds_recorded = snd c\<rparr>"
  have "step_result (record_of_row jloads k ?row) = step_result ?rec" by (simp add: step_result_def record_of_row_def)
  from delta_log_recorded [OF 5(2) this] 5(1,3) lookup_none [OF 5(2)] show ?case
    by (intro exI [of _ "remember (r, k) ?rec (merge_step (r, k) ?row e)"])
      (simp add: delta_step_def delta_accepts_def persist_step_def fun_eq_iff step_result_def)
next
  case (6 e r k h w w' c)
  with lookup_none [OF 6(2)] show ?case by (intro exI [of _ e]) (simp add: delta_step_def delta_accepts_def)
qed

subsection \<open>Restarts\<close>

text \<open>What the cache remembers is what the tables hold.\<close>

definition cache_coherent :: "jval delta \<Rightarrow> bool" where
  "cache_coherent d \<longleftrightarrow> (\<forall>r k rec. dget (de_cache d) (r, k) = Some rec \<longrightarrow>
     (\<exists>row. dget (de_steps d) (r, k) = Some row \<and> step_result (record_of_row jloads k row) = step_result rec))"

lemma clear_cache_log: "cache_coherent d \<Longrightarrow> delta_log jloads (clear_cache d) = delta_log jloads d"
proof (rule ext, rule ext)
  fix r k
  assume c: "cache_coherent d"
  show "delta_log jloads (clear_cache d) r k = delta_log jloads d r k"
  proof (cases "dget (de_cache d) (r, k)")
    case (Some rec)
    with c obtain row where "dget (de_steps d) (r, k) = Some row" "step_result (record_of_row jloads k row) = step_result rec"
      unfolding cache_coherent_def by blast
    with Some show ?thesis by (simp add: delta_log_def lookup_step_def clear_cache_def)
  qed (simp add: delta_log_def lookup_step_def clear_cache_def split: option.split)
qed

lemma coherent_remember:
  assumes "cache_coherent d" and "dget (de_steps d) (r, k) = Some row" and "step_result (record_of_row jloads k row) = step_result rec"
  shows "cache_coherent (remember (r, k) rec d)"
  using assms by (auto simp: cache_coherent_def remember_def dget_dset)

lemma coherent_merge: "cache_coherent d \<Longrightarrow> cache_coherent (merge_step rk row d)"
  unfolding cache_coherent_def merge_step_def by (cases "dget (de_steps d) rk") (force simp: dget_dset)+

lemma coherent_lookup: "cache_coherent d \<Longrightarrow> lookup_step jloads r k d = (x, d') \<Longrightarrow> cache_coherent d'"
  by (auto simp: lookup_step_def intro: coherent_remember split: option.splits if_splits)

lemma coherent_step: "cache_coherent d \<Longrightarrow> jstep r k h c d w = (x, d', w') \<Longrightarrow> cache_coherent d'"
proof -
  assume c: "cache_coherent d" and st: "jstep r k h c d w = (x, d', w')"
  obtain found d1 where l: "lookup_step jloads r k d = (found, d1)" by (cases "lookup_step jloads r k d")
  have c1: "cache_coherent d1" by (rule coherent_lookup [OF c l])
  have stored: "cache_coherent (remember (r, k) rec d2)"
    if asm: "found = None" "persist_step jdumps r rec now d1 = Some d2" "sr_key rec = k" "sr_output rec = v"
      "sr_status rec = StepCompleted \<or> sr_output rec = None" for rec now d2 v
  proof -
    have none: "dget (de_steps d1) (r, k) = None" using l asm(1)
      by (auto simp: lookup_step_def split: option.splits if_splits)
    obtain col where col: "(case sr_output rec of None \<Rightarrow> Some None | Some v \<Rightarrow> map_option Some (jdumps v)) = Some col"
      and d2: "d2 = merge_step (r, k) \<lparr>ds_status = sr_status rec, ds_output = col, ds_error = sr_error rec,
            ds_duration = sr_duration_ms rec, ds_recorded = now\<rparr> d1"
      using asm(2,3) by (auto simp: persist_step_def split: option.splits)
    have "parse_column jloads col = sr_output rec"
    proof (cases "sr_output rec")
      case (Some a)
      obtain j where j: "jdumps a = Some j" "jloads j = Some a" using json_round_trip by blast
      have "col = Some j" using col Some j(1) by simp
      with Some j(2) show ?thesis by (simp add: parse_column_def)
    qed (use col in \<open>simp add: parse_column_def\<close>)
    then have "step_result (record_of_row jloads k \<lparr>ds_status = sr_status rec, ds_output = col, ds_error = sr_error rec,
            ds_duration = sr_duration_ms rec, ds_recorded = now\<rparr>) = step_result rec"
      by (simp add: step_result_def record_of_row_def)
    moreover have "dget (de_steps d2) (r, k) = Some \<lparr>ds_status = sr_status rec, ds_output = col, ds_error = sr_error rec,
            ds_duration = sr_duration_ms rec, ds_recorded = now\<rparr>"
      by (simp add: d2 merge_step_def none dget_dset)
    ultimately show ?thesis using coherent_merge [OF c1] d2 by (intro coherent_remember) auto
  qed
  show ?thesis using st c c1 l stored
    by (cases found)
      (auto simp: delta_step_def Let_def split: if_splits prod.splits outcome.splits option.splits)
qed

lemma coherent_run_steps: "cache_coherent d \<Longrightarrow> run_steps jstep r ss d w = (x, d', w') \<Longrightarrow> cache_coherent d'"
proof (induction ss arbitrary: d w x)
  case (Cons s ss)
  obtain k h c where s: "s = (k, h, c)" by (cases s) auto
  obtain y d1 w1 where st: "jstep r k h c d w = (y, d1, w1)" by (cases "jstep r k h c d w") auto
  have "cache_coherent d1" by (rule coherent_step [OF Cons.prems(1) st])
  with Cons.prems(2) Cons.IH [of d1 w1] s st coherent_step [OF Cons.prems(1) st] show ?case
    by (auto split: sum.splits prod.splits)
qed simp

lemma start_run_keeps_steps:
  "delta_start_run enc name inp run_id uuid now d = (x, d') \<Longrightarrow> de_steps d' = de_steps d \<and> de_cache d' = de_cache d \<and> de_caching d' = de_caching d"
  by (auto simp: delta_start_run_def Let_def split: if_splits option.splits)

lemma delta_log_cong:
  "de_steps d' = de_steps d \<Longrightarrow> de_cache d' = de_cache d \<Longrightarrow> de_caching d' = de_caching d \<Longrightarrow> delta_log dec d' = delta_log dec d"
  by (auto simp: delta_log_def lookup_step_def fun_eq_iff split: option.split)

text \<open>
  C7: A process that completed a prefix of a workflow's steps dies and loses its cache; another process
  re-opens the run from the tables.  Whatever the handlers of the prefix are now, none of them runs: the
  stored outputs come back in order, and execution continues with the first step that had not completed.
\<close>

theorem delta_resumes_after_restart:
  assumes "cache_coherent d" and "run_steps jstep r prefix d w = (Inr vs, d1, w1)" and "map fst prefix' = map fst prefix"
    and "delta_start_run jdumps name inp (Some r) uuid now (clear_cache d1) = (Inr r, d2)"
  shows "\<exists>d3. delta_log jloads d3 = delta_log jloads d2
    \<and> run_steps jstep r (prefix' @ rest) d2 v = prepend_results vs (run_steps jstep r rest d3 v)"
proof -
  have "cache_coherent d1" using assms(1,2) by (rule coherent_run_steps)
  then have "delta_log jloads d2 = delta_log jloads d1"
    using start_run_keeps_steps [OF assms(4)] clear_cache_log [of d1] delta_log_cong [of d2 "clear_cache d1"] by auto
  then have "list_all2 (\<lambda>s v. delta_accepts d2 r (fst s) \<and> delta_log jloads d2 r (fst s) = Some (Inr v)) prefix' vs"
    by (intro delta_engine.logged_prefix [OF assms(2,3)]) (simp_all add: delta_accepts_def)
  from delta_engine.replay_from_log [OF this] show ?thesis by blast
qed

subsection \<open>The two engines agree\<close>

text \<open>
  Handlers may return anything.  A result \<open>json.dumps\<close> refuses is lost on the tables; one it changes comes back changed
  when it is read from a table, which within one process happens only without the cache and for a step name used again.
\<close>

definition storable :: "('v \<Rightarrow> pyval option) \<Rightarrow> 'v option \<Rightarrow> bool" where
  "storable enc v = (case v of None \<Rightarrow> True | Some a \<Rightarrow> enc a \<noteq> None)"

definition unchanged_by_json :: "('v \<Rightarrow> pyval option) \<Rightarrow> (pyval \<Rightarrow> 'v option) \<Rightarrow> bool" where
  "unchanged_by_json enc dec \<longleftrightarrow> (\<forall>v j. enc v = Some j \<longrightarrow> dec j = Some v)"

lemma delta_hit:
  assumes "safe_name r" and "safe_name k" and "delta_log dec d r k = Some old"
  shows "\<exists>d'. delta_step enc dec r k h c d w = ((case old of Inr v \<Rightarrow> Inr v | Inl m \<Rightarrow> Inl (StepFailedError k m)), d', w)
    \<and> delta_log dec d' = delta_log dec d \<and> de_caching d' = de_caching d"
proof -
  from lookup_some [OF assms(3)] obtain rec d' where l: "lookup_step dec r k d = (Some rec, d')" "step_result rec = old"
    "delta_log dec d' = delta_log dec d" by blast
  moreover have "de_caching d' = de_caching d"
    using l(1) by (auto simp: lookup_step_def remember_def split: option.splits if_splits)
  ultimately show ?thesis using assms(1,2) by (intro exI [of _ d']) (auto simp: delta_step_def step_result_def split: if_splits)
qed

text \<open>Recording a step changes the log at that step only; with the cache the record itself is what is seen.\<close>

lemma recorded_log:
  assumes "delta_log dec d r k = None"
  shows "k' \<noteq> k \<Longrightarrow> delta_log dec (remember (r, k) rec (merge_step (r, k) row d)) r k' = delta_log dec d r k'"
    and "de_caching d \<or> step_result (record_of_row dec k row) = step_result rec \<Longrightarrow>
      delta_log dec (remember (r, k) rec (merge_step (r, k) row d)) r k = Some (step_result rec)"
    and "de_caching (remember (r, k) rec (merge_step (r, k) row d)) = de_caching d"
proof -
  have t: "dget (de_steps d) (r, k) = None" using assms by (auto simp: delta_log_def lookup_step_def split: option.splits if_splits)
  show "k' \<noteq> k \<Longrightarrow> delta_log dec (remember (r, k) rec (merge_step (r, k) row d)) r k' = delta_log dec d r k'"
    by (auto simp: delta_log_def lookup_step_def remember_def merge_step_def dget_dset t split: option.splits)
  show "de_caching d \<or> step_result (record_of_row dec k row) = step_result rec \<Longrightarrow>
      delta_log dec (remember (r, k) rec (merge_step (r, k) row d)) r k = Some (step_result rec)"
    by (auto simp: delta_log_def lookup_step_def remember_def merge_step_def dget_dset t split: option.splits)
  show "de_caching (remember (r, k) rec (merge_step (r, k) row d)) = de_caching d"
    by (simp add: remember_def merge_step_def split: option.split)
qed

text \<open>The laws of the in-memory engine for one run.\<close>

lemma known_cong: "(\<lambda>r (k :: string). known e' r) = (\<lambda>r k. known e r) \<Longrightarrow> known e' r = known e r"
  by (meson fun_cong)

lemma mem_new_step:
  assumes "known e r" and "step_log e r k = None" and "h w = (out, w')"
  shows "\<exists>e'. step r k h c e w = ((case out of Returned v \<Rightarrow> Inr v | Raised m \<Rightarrow> Inl (HandlerError m) | Aborted \<Rightarrow> Inl HandlerAborted), e', w')
    \<and> known e' r \<and> step_log e' r = (case out of Returned v \<Rightarrow> (step_log e r)(k \<mapsto> Inr v)
        | Raised m \<Rightarrow> (step_log e r)(k \<mapsto> Inl (failure_message (Some m))) | Aborted \<Rightarrow> step_log e r)"
proof (cases out)
  case (Returned v)
  with assms(3) have "h w = (Returned v, w')" by simp
  from mem_engine.miss_returned [where h = h and w = w and c = c, OF assms(1,2) this] obtain e' where "step r k h c e w = (Inr v, e', w')"
    "(\<lambda>r (k :: string). known e' r) = (\<lambda>r k. known e r)" "step_log e' = (step_log e)(r := (step_log e r)(k \<mapsto> Inr v))" by blast
  with known_cong [of e' e r] assms(1) Returned show ?thesis by simp
next
  case (Raised m)
  with assms(3) have "h w = (Raised m, w')" by simp
  from mem_engine.miss_raised [where h = h and w = w and c = c, OF assms(1,2) this] obtain e' where "step r k h c e w = (Inl (HandlerError m), e', w')"
    "(\<lambda>r (k :: string). known e' r) = (\<lambda>r k. known e r)"
    "step_log e' = (step_log e)(r := (step_log e r)(k \<mapsto> Inl (failure_message (Some m))))" by blast
  with known_cong [of e' e r] assms(1) Raised show ?thesis by simp
next
  case Aborted
  with assms(3) have "h w = (Aborted, w')" by simp
  from mem_engine.miss_aborted [where h = h and w = w and c = c, OF assms(1,2) this] obtain e' where "step r k h c e w = (Inl HandlerAborted, e', w')"
    "(\<lambda>r (k :: string). known e' r) = (\<lambda>r k. known e r)" "step_log e' = step_log e" by blast
  with known_cong [of e' e r] assms(1) Aborted show ?thesis by simp
qed

lemma mem_old_step:
  assumes "known e r" and "step_log e r k = Some old"
  shows "\<exists>e'. step r k h c e w = ((case old of Inr v \<Rightarrow> Inr v | Inl m \<Rightarrow> Inl (StepFailedError k m)), e', w)
    \<and> known e' r \<and> step_log e' = step_log e"
proof (cases old)
  case (Inl m)
  with assms(2) have "step_log e r k = Some (Inl m)" by simp
  from mem_engine.hit_failed [OF assms(1) this, of h c w] obtain e' where "step r k h c e w = (Inl (StepFailedError k m), e', w)"
    "(\<lambda>r (k :: string). known e' r) = (\<lambda>r k. known e r)" "step_log e' = step_log e" by blast
  with known_cong [of e' e r] assms(1) Inl show ?thesis by simp
next
  case (Inr v)
  with assms(2) have "step_log e r k = Some (Inr v)" by simp
  from mem_engine.hit_completed [OF assms(1) this, of h c w] obtain e' where "step r k h c e w = (Inr v, e', w)"
    "(\<lambda>r (k :: string). known e' r) = (\<lambda>r k. known e r)" "step_log e' = step_log e" by blast
  with known_cong [of e' e r] assms(1) Inr show ?thesis by simp
qed

text \<open>A new step on both engines: the same call of the handler, and the same answer unless the result cannot be stored.\<close>

lemma new_step_agrees:
  assumes "safe_name r" and "safe_name k" and "known e r" and "step_log e r k = None" and "delta_log dec d r k = None"
    and "h w = (out, w')"
  shows "\<exists>x e' y d'. step r k h c e w = (x, e', w') \<and> delta_step enc dec r k h c d w = (y, d', w')
    \<and> known e' r \<and> de_caching d' = de_caching d
    \<and> (if (case out of Returned v \<Rightarrow> \<not> storable enc v | _ \<Rightarrow> False)
       then y = Inl NotSerializable \<and> (\<exists>v. out = Returned v \<and> x = Inr v)
       else x = y \<and> (\<forall>k'. k' \<noteq> k \<longrightarrow> step_log e' r k' = step_log e r k' \<and> delta_log dec d' r k' = delta_log dec d r k')
         \<and> (de_caching d \<or> unchanged_by_json enc dec \<longrightarrow> step_log e' r k = delta_log dec d' r k))"
proof (cases out)
  case (Returned v)
  with mem_new_step [where h = h and w = w and c = c, OF assms(3,4,6)] obtain e' where e': "step r k h c e w = (Inr v, e', w')" "known e' r"
    "step_log e' r = (step_log e r)(k := Some (Inr v))" by auto
  show ?thesis
  proof (cases "storable enc v")
    case False
    then have "delta_step enc dec r k h c d w = (Inl NotSerializable, d, w')"
      using assms(1,2,6) Returned lookup_none [OF assms(5)]
      by (auto simp: delta_step_def persist_step_def storable_def split: option.splits)
    with e' Returned False show ?thesis by auto
  next
    case True
    then obtain col where col: "(case v of None \<Rightarrow> Some None | Some v \<Rightarrow> map_option Some (enc v)) = Some col"
      by (auto simp: storable_def split: option.splits)
    let ?rec = "\<lparr>sr_key = k, sr_status = StepCompleted, sr_output = v, sr_error = None, sr_duration_ms = fst c, sr_recorded_at = snd c\<rparr>"
    let ?row = "\<lparr>ds_status = StepCompleted, ds_output = col, ds_error = None, ds_duration = fst c, ds_recorded = snd c\<rparr>"
    let ?d = "remember (r, k) ?rec (merge_step (r, k) ?row d)"
    have "delta_step enc dec r k h c d w = (Inr v, ?d, w')"
      using assms(1,2,6) Returned lookup_none [OF assms(5)] col by (simp add: delta_step_def persist_step_def)
    moreover have "step_result (record_of_row dec k ?row) = step_result ?rec" if "unchanged_by_json enc dec"
      using that col by (cases v) (auto simp: step_result_def record_of_row_def parse_column_def unchanged_by_json_def)
    then have "delta_log dec ?d r k = Some (Inr v)" if "de_caching d \<or> unchanged_by_json enc dec"
      using recorded_log(2) [OF assms(5), of ?row ?rec] that by (auto simp: step_result_def)
    ultimately show ?thesis
      using e' Returned True recorded_log(1,3) [OF assms(5)] by auto
  qed
next
  case (Raised m)
  with mem_new_step [where h = h and w = w and c = c, OF assms(3,4,6)] obtain e' where e': "step r k h c e w = (Inl (HandlerError m), e', w')" "known e' r"
    "step_log e' r = (step_log e r)(k := Some (Inl (failure_message (Some m))))" by auto
  let ?rec = "\<lparr>sr_key = k, sr_status = StepFailed, sr_output = None, sr_error = Some m, sr_duration_ms = fst c, sr_recorded_at = snd c\<rparr>"
  let ?row = "\<lparr>ds_status = StepFailed, ds_output = None, ds_error = Some m, ds_duration = fst c, ds_recorded = snd c\<rparr>"
  let ?d = "remember (r, k) ?rec (merge_step (r, k) ?row d)"
  have "delta_step enc dec r k h c d w = (Inl (HandlerError m), ?d, w')"
    using assms(1,2,6) Raised lookup_none [OF assms(5)] by (simp add: delta_step_def persist_step_def)
  moreover have "step_result (record_of_row dec k ?row) = step_result ?rec" by (simp add: step_result_def record_of_row_def)
  then have "delta_log dec ?d r k = Some (Inl (failure_message (Some m)))"
    using recorded_log(2) [OF assms(5), of ?row ?rec] by (auto simp: step_result_def)
  ultimately show ?thesis using e' Raised recorded_log(1,3) [OF assms(5)] by auto
next
  case Aborted
  with mem_new_step [where h = h and w = w and c = c, OF assms(3,4,6)] obtain e' where "step r k h c e w = (Inl HandlerAborted, e', w')" "known e' r"
    "step_log e' r = step_log e r" by auto
  moreover have "delta_step enc dec r k h c d w = (Inl HandlerAborted, d, w')"
    using assms(1,2,6) Aborted lookup_none [OF assms(5)] by (simp add: delta_step_def)
  ultimately show ?thesis using Aborted assms(4,5) by auto
qed

lemma old_step_agrees:
  assumes "safe_name r" and "safe_name k" and "known e r" and "step_log e r k = Some old" and "delta_log dec d r k = Some old"
  shows "\<exists>x e' d'. step r k h c e w = (x, e', w) \<and> delta_step enc dec r k h c d w = (x, d', w)
    \<and> known e' r \<and> de_caching d' = de_caching d \<and> step_log e' = step_log e \<and> delta_log dec d' = delta_log dec d \<and> x \<noteq> Inl NotSerializable"
proof -
  from mem_old_step [OF assms(3,4), of h c w] delta_hit [OF assms(1,2,5), of enc h c w] obtain e' d' where
    "step r k h c e w = ((case old of Inr v \<Rightarrow> Inr v | Inl m \<Rightarrow> Inl (StepFailedError k m)), e', w)"
    "delta_step enc dec r k h c d w = ((case old of Inr v \<Rightarrow> Inr v | Inl m \<Rightarrow> Inl (StepFailedError k m)), d', w)"
    "known e' r \<and> step_log e' = step_log e" "delta_log dec d' = delta_log dec d \<and> de_caching d' = de_caching d" by blast
  moreover have "(case old of Inr v \<Rightarrow> Inr v | Inl m \<Rightarrow> Inl (StepFailedError k m)) \<noteq> Inl NotSerializable" by (cases old) simp_all
  ultimately show ?thesis by blast
qed

text \<open>What the two engines make of one workflow: the same, or the Delta engine stopped at a result it could not store.\<close>

definition same_or_unstorable ::
  "('v \<Rightarrow> pyval option) \<Rightarrow> string \<Rightarrow> (string \<times> ((string \<times> 'v option) list \<Rightarrow> ('w, 'v) handler) \<times> (int \<times> string)) list
    \<Rightarrow> (string \<times> 'v option) list \<Rightarrow> 'v engine \<Rightarrow> 'w \<Rightarrow> (engine_error + (string \<times> 'v option) list) \<times> 'w
    \<Rightarrow> (engine_error + (string \<times> 'v option) list) \<times> 'w \<Rightarrow> bool" where
  "same_or_unstorable enc r ss st e w memory tables \<longleftrightarrow>
     (if fst tables = Inl NotSerializable
      then (\<exists>done s rest st' e'. ss = done @ s # rest \<and> chain step r (done @ [s]) st e w = (Inr st', e', snd tables)
              \<and> \<not> storable enc (the (dget st' (fst s))))
      else memory = tables)"

lemma chain_agrees:
  assumes "known e r" and "safe_name r" and "list_all (\<lambda>s. safe_name (fst s)) ss"
    and "list_all (\<lambda>s. step_log e r (fst s) = delta_log dec d r (fst s)) ss"
    and "de_caching d \<or> unchanged_by_json enc dec \<or> distinct (map fst ss)"
  shows "\<exists>x w' e' y v' d'. chain step r ss st e w = (x, e', w') \<and> chain (delta_step enc dec) r ss st d w = (y, d', v')
    \<and> same_or_unstorable enc r ss st e w (x, w') (y, v')"
  using assms
proof (induction ss arbitrary: st e d w)
  case Nil
  then show ?case by (simp add: same_or_unstorable_def)
next
  case (Cons s ss)
  obtain k mk c where s: "s = (k, mk, c)" by (metis prod.exhaust)
  have k: "safe_name k" "step_log e r k = delta_log dec d r k" using Cons.prems(3,4) by (simp_all add: s)
  have rest: "\<exists>x w' e' y v' d'. chain step r (s # ss) st e w = (x, e', w') \<and> chain (delta_step enc dec) r (s # ss) st d w = (y, d', v')
      \<and> same_or_unstorable enc r (s # ss) st e w (x, w') (y, v')"
    if st: "step r k (mk st) c e w = (Inr v, e1, w1)" "delta_step enc dec r k (mk st) c d w = (Inr v, d1, w1)"
      and inv: "known e1 r" "de_caching d1 = de_caching d"
        "list_all (\<lambda>s. step_log e1 r (fst s) = delta_log dec d1 r (fst s)) ss" for v e1 d1 w1
  proof -
    have "de_caching d1 \<or> unchanged_by_json enc dec \<or> distinct (map fst ss)" using Cons.prems(5) inv(2) by auto
    from Cons.IH [OF inv(1) Cons.prems(2) _ inv(3) this, of "dset k v st" w1] Cons.prems(3)
    obtain x w' e' y v' d' where t: "chain step r ss (dset k v st) e1 w1 = (x, e', w')"
      "chain (delta_step enc dec) r ss (dset k v st) d1 w1 = (y, d', v')"
      "same_or_unstorable enc r ss (dset k v st) e1 w1 (x, w') (y, v')" by auto
    have "same_or_unstorable enc r (s # ss) st e w (x, w') (y, v')"
    proof (cases "y = Inl NotSerializable")
      case True
      with t(3) obtain before q after st' e2 where "ss = before @ q # after"
        "chain step r (before @ [q]) (dset k v st) e1 w1 = (Inr st', e2, v')" "\<not> storable enc (the (dget st' (fst q)))"
        by (auto simp: same_or_unstorable_def)
      with st(1) True show ?thesis unfolding same_or_unstorable_def
        by (simp add: s) (intro exI [of _ "(k, mk, c) # before"] exI [of _ "fst q"] exI [of _ "fst (snd q)"]
              exI [of _ "fst (snd (snd q))"] exI [of _ "snd (snd (snd q))"] exI [of _ after] exI [of _ st'] conjI; simp)
    next
      case False
      with t(3) show ?thesis by (simp add: same_or_unstorable_def)
    qed
    with t st show ?thesis by (auto simp: s)
  qed
  have stop: "\<exists>x w' e' y v' d'. chain step r (s # ss) st e w = (x, e', w') \<and> chain (delta_step enc dec) r (s # ss) st d w = (y, d', v')
      \<and> same_or_unstorable enc r (s # ss) st e w (x, w') (y, v')"
    if "step r k (mk st) c e w = (Inl err, e1, w1)" "delta_step enc dec r k (mk st) c d w = (Inl err, d1, w1)" "err \<noteq> NotSerializable"
    for err e1 d1 w1
    using that by (auto simp: s same_or_unstorable_def)
  show ?case
  proof (cases "step_log e r k")
    case (Some old)
    with k(2) have "delta_log dec d r k = Some old" by simp
    from old_step_agrees [OF Cons.prems(2) k(1) Cons.prems(1) Some this, of "mk st" c w enc]
    obtain x e1 d1 where o: "step r k (mk st) c e w = (x, e1, w)" "delta_step enc dec r k (mk st) c d w = (x, d1, w)"
      "known e1 r" "de_caching d1 = de_caching d" "step_log e1 = step_log e" "delta_log dec d1 = delta_log dec d" "x \<noteq> Inl NotSerializable"
      by blast
    show ?thesis
    proof (cases x)
      case (Inl err)
      with stop o show ?thesis by auto
    next
      case (Inr v)
      with rest o Cons.prems(4) show ?thesis by auto
    qed
  next
    case None
    with k(2) have n: "delta_log dec d r k = None" by simp
    obtain out w1 where h: "mk st w = (out, w1)" by fastforce
    from new_step_agrees [where h = "mk st" and w = w and c = c and enc = enc, OF Cons.prems(2) k(1) Cons.prems(1) None n h]
    obtain x e1 y d1 where o: "step r k (mk st) c e w = (x, e1, w1)" "delta_step enc dec r k (mk st) c d w = (y, d1, w1)"
      "known e1 r" "de_caching d1 = de_caching d" and agree: "if (case out of Returned v \<Rightarrow> \<not> storable enc v | _ \<Rightarrow> False)
       then y = Inl NotSerializable \<and> (\<exists>v. out = Returned v \<and> x = Inr v)
       else x = y \<and> (\<forall>k'. k' \<noteq> k \<longrightarrow> step_log e1 r k' = step_log e r k' \<and> delta_log dec d1 r k' = delta_log dec d r k')
         \<and> (de_caching d \<or> unchanged_by_json enc dec \<longrightarrow> step_log e1 r k = delta_log dec d1 r k)" by blast
    show ?thesis
    proof (cases "case out of Returned v \<Rightarrow> \<not> storable enc v | _ \<Rightarrow> False")
      case True
      with agree obtain v where v: "y = Inl NotSerializable" "x = Inr v" "\<not> storable enc v" by (auto split: outcome.splits)
      obtain x' e' w' where m: "chain step r (s # ss) st e w = (x', e', w')" by (metis prod.exhaust)
      have "chain step r ([] @ [s]) st e w = (Inr (dset k v st), e1, w1)" using o(1) v(2) by (simp add: s)
      moreover have "\<not> storable enc (the (dget (dset k v st) (fst s)))" using v(3) by (simp add: s dget_dset)
      ultimately have "same_or_unstorable enc r (s # ss) st e w (x', w') (Inl NotSerializable, w1)"
        unfolding same_or_unstorable_def by (metis append_Nil fst_conv snd_conv)
      moreover have "chain (delta_step enc dec) r (s # ss) st d w = (Inl NotSerializable, d1, w1)" using o(2) v(1) by (simp add: s)
      ultimately show ?thesis using m by blast
    next
      case False
      with agree have xy: "x = y" and others: "\<And>k'. k' \<noteq> k \<Longrightarrow> step_log e1 r k' = step_log e r k' \<and> delta_log dec d1 r k' = delta_log dec d r k'"
        and own: "de_caching d \<or> unchanged_by_json enc dec \<Longrightarrow> step_log e1 r k = delta_log dec d1 r k" by auto
      have "step_log e1 r k' = delta_log dec d1 r k'" if "k' \<in> fst ` set ss" for k'
      proof (cases "k' = k")
        case True
        with that Cons.prems(5) own show ?thesis by (auto simp: s)
      next
        case False
        from that Cons.prems(4) have "step_log e r k' = delta_log dec d r k'" by (auto simp: list_all_iff)
        with others [OF False] show ?thesis by simp
      qed
      then have logs: "list_all (\<lambda>s. step_log e1 r (fst s) = delta_log dec d1 r (fst s)) ss" by (auto simp: list_all_iff)
      show ?thesis
      proof (cases x)
        case (Inl err)
        moreover have "err \<noteq> NotSerializable" using o(1) h None Cons.prems(1) Inl
          by (auto simp: step_def known_def step_log_def split: outcome.splits option.splits)
        ultimately show ?thesis using stop o xy by auto
      next
        case (Inr v)
        with rest o logs xy show ?thesis by auto
      qed
    qed
  qed
qed


definition demo_chain :: "(string \<times> ((string \<times> jval option) list \<Rightarrow> (nat, jval) handler) \<times> (int \<times> string)) list" where
  "demo_chain = [(''a'', \<lambda>st w. (Returned (Some (JInt (int w))), Suc w), (0, ''t'')),
     (''b'', \<lambda>st w. (Returned (case dget st ''a'' of Some v \<Rightarrow> v | None \<Rightarrow> None), Suc w), (0, ''t''))]"


definition demo_delta :: "jval delta" where
  "demo_delta = \<lparr>de_runs = [(''r'', \<lparr>dr_name = ''wf'', dr_status = Running, dr_input = Some PNone, dr_output = None,
     dr_started = ''t0'', dr_updated = ''t0''\<rparr>)], de_steps = [], de_caching = True, de_cache = []\<rparr>"

definition demo_stored :: "jval delta" where
  "demo_stored = demo_delta\<lparr>de_steps := [((''r'', ''a''), \<lparr>ds_status = StepCompleted, ds_output = Some (PInt 7), ds_error = None,
     ds_duration = 0, ds_recorded = ''t1''\<rparr>)], de_cache := [((''r'', ''a''), \<lparr>sr_key = ''a'', sr_status = StepCompleted,
     sr_output = Some (JInt 7), sr_error = None, sr_duration_ms = 0, sr_recorded_at = ''t1''\<rparr>)]\<rparr>"

lemma demo_names: "safe_name ''r''" "safe_name ''a''" "safe_name ''wf''"
  by code_simp+

lemma demo_first_run:
  "run_steps jstep ''r'' [(''a'', \<lambda>w. (Returned (Some (JInt 7)), w + 1), (0, ''t1''))] demo_delta (0::nat)
   = (Inr [Some (JInt 7)], demo_stored, 1)"
  by (simp add: delta_step_def demo_names lookup_step_def persist_step_def merge_step_def remember_def demo_delta_def
      demo_stored_def Let_def)

theorem delta_resumes_after_restart_witness:
  "\<exists>d3. delta_log jloads d3 = delta_log jloads (snd (delta_start_run jdumps ''wf'' None (Some ''r'') ''u'' ''t2'' (clear_cache demo_stored)))
    \<and> run_steps jstep ''r'' ([(''a'', \<lambda>w. (Raised ''boom'', w + 100), (0, ''t3''))] @ [])
        (snd (delta_start_run jdumps ''wf'' None (Some ''r'') ''u'' ''t2'' (clear_cache demo_stored))) (5::nat)
      = prepend_results [Some (JInt 7)] (run_steps jstep ''r'' [] d3 5)"
proof (rule delta_resumes_after_restart [OF _ demo_first_run])
  show "cache_coherent demo_delta" by (simp add: cache_coherent_def demo_delta_def)
  show "delta_start_run jdumps ''wf'' None (Some ''r'') ''u'' ''t2'' (clear_cache demo_stored)
      = (Inr ''r'', snd (delta_start_run jdumps ''wf'' None (Some ''r'') ''u'' ''t2'' (clear_cache demo_stored)))"
    by (simp add: delta_start_run_def demo_names clear_cache_def demo_stored_def demo_delta_def Let_def)
qed simp

subsection \<open>Where the engines differ\<close>

text \<open>A limit of zero lists nothing in memory and everything from the tables.\<close>

lemma zero_limit_differs:
  "list_runs (Some \<lparr>f_name = None, f_status = None, f_limit = Some 0\<rparr>) e = []"
  "length (delta_list_runs (Some \<lparr>f_name = None, f_status = None, f_limit = Some 0\<rparr>) d) = length (de_runs d)"
proof -
  show "list_runs (Some \<lparr>f_name = None, f_status = None, f_limit = Some 0\<rparr>) e = []"
    by (simp add: list_runs_def py_take_def Let_def)
  have "mset (sort_desc f xs) = mset xs" for f :: "string \<times> delta_run \<Rightarrow> string" and xs by (simp add: sort_desc_def)
  then have "length (sort_desc f xs) = length xs" for f :: "string \<times> delta_run \<Rightarrow> string" and xs by (metis size_mset)
  then show "length (delta_list_runs (Some \<lparr>f_name = None, f_status = None, f_limit = Some 0\<rparr>) d) = length (de_runs d)"
    by (simp add: delta_list_runs_def Let_def case_prod_beta)
qed

text \<open>Finishing or stepping a run nobody started is an error in memory and silent on the tables.\<close>

lemma unknown_run_differs:
  assumes "\<not> known e r" and "dget (de_runs d) r = None" and "safe_name r"
  shows "finish_run r st None now e = Inl (UnknownRun r)" and "delta_finish_run jdumps r st None now d = Inr d"
    and "step r k h c e w = (Inl (UnknownRun r), e, w)"
  using assms by (auto simp: finish_run_def delta_finish_run_def known_def step_def)

text \<open>A result that is not JSON makes the step fail after its handler ran, and nothing is recorded.\<close>

lemma unserialisable_result_is_lost:
  assumes "safe_name r" and "safe_name k" and "lookup_step dec r k d = (None, d)" and "h w = (Returned (Some v), w')" and "enc v = None"
  shows "delta_step enc dec r k h c d w = (Inl NotSerializable, d, w')"
  using assms by (simp add: delta_step_def persist_step_def Let_def)

end
