(* ===== verification/Discovery_Workflow.thy ===== *)
theory Discovery_Workflow
  imports Delta_Engine
begin

text \<open>
  The discovery workflow (\<open>discovery/workflow.py\<close>, \<open>steps.py\<close>, \<open>schemas.py\<close>, \<open>research.py\<close>, \<open>render.py\<close>):
  six prompts whose parsed answers are steps of a workflow run, then hand-off steps, then a brief.

  The model (\<open>Completion\<close>), the rendered prompt templates, hand-off handlers, \<open>str\<close> of a value that is no
  string, \<open>float\<close> of a value and the text of a float are parameters.  A step's answer is a value of
  \<open>step_output\<close>, one constructor per dataclass.
\<close>

subsection \<open>Outputs and their parsers\<close>

datatype step_output =
    Priorities string "string list"
  | ValueMatrices "(string \<times> string \<times> string) list"
  | HeatMap "(string \<times> pyfloat \<times> pyfloat) list"
  | WowSelection "string list" string
  | DiscoveryGuide "string list" string
  | ThreeWs string string string "string list"
  | Handoff pyval

record py_builtins =
  py_str :: "pyval \<Rightarrow> string"
  py_float :: "pyval \<Rightarrow> string + pyfloat"
  py_show :: "pyfloat \<Rightarrow> string"

fun type_name :: "pyval \<Rightarrow> string" where
  "type_name PNone = ''NoneType''"
| "type_name (PBool b) = ''bool''"
| "type_name (PInt n) = ''int''"
| "type_name (PFloat x) = ''float''"
| "type_name (PStr s) = ''str''"
| "type_name (PList xs) = ''list''"
| "type_name (PDict d) = ''dict''"

definition malformed :: "string \<Rightarrow> string \<Rightarrow> string" where
  "malformed key detail = ''malformed output for step '' @ py_repr key @ '': '' @ detail"

definition obj :: "string \<Rightarrow> pyval \<Rightarrow> string list \<Rightarrow> string + (string \<times> pyval) list" where
  "obj key data keys =
     (case data of
        PDict d \<Rightarrow>
          (let missing = filter (\<lambda>k. dget d k = None) keys
           in if missing \<noteq> [] then Inl (malformed key (''missing keys: '' @ repr_list missing)) else Inr d)
      | v \<Rightarrow> Inl (malformed key (''expected object, got '' @ type_name v)))"

definition str_list :: "py_builtins \<Rightarrow> string \<Rightarrow> pyval \<Rightarrow> string \<Rightarrow> string + string list" where
  "str_list py key v label =
     (case v of PList xs \<Rightarrow> Inr (map (py_str py) xs) | _ \<Rightarrow> Inl (malformed key (py_repr label @ '' must be a list'')))"

definition bind_sum :: "'e + 'a \<Rightarrow> ('a \<Rightarrow> 'e + 'b) \<Rightarrow> 'e + 'b" where
  "bind_sum x f = (case x of Inl e \<Rightarrow> Inl e | Inr a \<Rightarrow> f a)"

fun map_sum_list :: "('a \<Rightarrow> 'e + 'b) \<Rightarrow> 'a list \<Rightarrow> 'e + 'b list" where
  "map_sum_list f [] = Inr []"
| "map_sum_list f (x # xs) = bind_sum (f x) (\<lambda>y. bind_sum (map_sum_list f xs) (\<lambda>ys. Inr (y # ys)))"

definition parse_priorities :: "py_builtins \<Rightarrow> pyval \<Rightarrow> string + step_output" where
  "parse_priorities py data =
     bind_sum (obj ''priorities'' data [''industry'', ''priorities'']) (\<lambda>d.
     bind_sum (str_list py ''priorities'' (pget d ''priorities'') ''priorities'') (\<lambda>ps.
       Inr (Priorities (py_str py (pget d ''industry'')) ps)))"

definition parse_matrix_row :: "py_builtins \<Rightarrow> pyval \<Rightarrow> string + string \<times> string \<times> string" where
  "parse_matrix_row py r =
     bind_sum (obj ''value_matrices'' r [''outcome'', ''capability'', ''enabler'']) (\<lambda>d.
       Inr (py_str py (pget d ''outcome''), py_str py (pget d ''capability''), py_str py (pget d ''enabler'')))"

definition parse_value_matrices :: "py_builtins \<Rightarrow> pyval \<Rightarrow> string + step_output" where
  "parse_value_matrices py data =
     bind_sum (obj ''value_matrices'' data [''rows'']) (\<lambda>d.
       case pget d ''rows'' of
         PList rows \<Rightarrow> bind_sum (map_sum_list (parse_matrix_row py) rows) (\<lambda>rs. Inr (ValueMatrices rs))
       | _ \<Rightarrow> Inl (malformed ''value_matrices'' (py_repr ''rows'' @ '' must be a list'')))"

definition parse_heat_cell :: "py_builtins \<Rightarrow> pyval \<Rightarrow> string + string \<times> pyfloat \<times> pyfloat" where
  "parse_heat_cell py c =
     bind_sum (obj ''heat_map'' c [''outcome'', ''value_score'', ''effort_score'']) (\<lambda>d.
       case py_float py (pget d ''value_score'') of
         Inl err \<Rightarrow> Inl (malformed ''heat_map'' (''scores must be numeric: '' @ err))
       | Inr x \<Rightarrow>
           (case py_float py (pget d ''effort_score'') of
              Inl err \<Rightarrow> Inl (malformed ''heat_map'' (''scores must be numeric: '' @ err))
            | Inr y \<Rightarrow> Inr (py_str py (pget d ''outcome''), x, y)))"

definition parse_heat_map :: "py_builtins \<Rightarrow> pyval \<Rightarrow> string + step_output" where
  "parse_heat_map py data =
     bind_sum (obj ''heat_map'' data [''cells'']) (\<lambda>d.
       case pget d ''cells'' of
         PList cells \<Rightarrow> bind_sum (map_sum_list (parse_heat_cell py) cells) (\<lambda>cs. Inr (HeatMap cs))
       | _ \<Rightarrow> Inl (malformed ''heat_map'' (py_repr ''cells'' @ '' must be a list'')))"

definition parse_wow_selection :: "py_builtins \<Rightarrow> pyval \<Rightarrow> string + step_output" where
  "parse_wow_selection py data =
     bind_sum (obj ''wow_selection'' data [''chosen'', ''rationale'']) (\<lambda>d.
     bind_sum (str_list py ''wow_selection'' (pget d ''chosen'') ''chosen'') (\<lambda>cs.
       Inr (WowSelection cs (py_str py (pget d ''rationale'')))))"

definition parse_discovery_guide :: "py_builtins \<Rightarrow> pyval \<Rightarrow> string + step_output" where
  "parse_discovery_guide py data =
     bind_sum (obj ''discovery_guide'' data [''questions'', ''value_equation'']) (\<lambda>d.
     bind_sum (str_list py ''discovery_guide'' (pget d ''questions'') ''questions'') (\<lambda>qs.
       Inr (DiscoveryGuide qs (py_str py (pget d ''value_equation'')))))"

definition parse_three_ws :: "py_builtins \<Rightarrow> pyval \<Rightarrow> string + step_output" where
  "parse_three_ws py data =
     bind_sum (obj ''three_ws'' data [''why_change'', ''why_now'', ''why_us'', ''gaps'']) (\<lambda>d.
     bind_sum (str_list py ''three_ws'' (pget d ''gaps'') ''gaps'') (\<lambda>gs.
       Inr (ThreeWs (py_str py (pget d ''why_change'')) (py_str py (pget d ''why_now'')) (py_str py (pget d ''why_us'')) gs)))"

text \<open>Step keys, with the keys of their response schemas and their parsers.\<close>

definition step_table :: "(string \<times> string list \<times> (py_builtins \<Rightarrow> pyval \<Rightarrow> string + step_output)) list" where
  "step_table =
     [(''priorities'', [''industry'', ''priorities''], parse_priorities),
      (''value_matrices'', [''rows''], parse_value_matrices),
      (''heat_map'', [''cells''], parse_heat_map),
      (''wow_selection'', [''chosen'', ''rationale''], parse_wow_selection),
      (''discovery_guide'', [''questions'', ''value_equation''], parse_discovery_guide),
      (''three_ws'', [''why_change'', ''why_now'', ''why_us'', ''gaps''], parse_three_ws)]"

subsection \<open>The model's calls\<close>

text \<open>A call of the model: the prompt, the required keys of the schema; it answers, raises or is torn down.\<close>

type_synonym 'w completion = "string \<Rightarrow> string list \<Rightarrow> 'w \<Rightarrow> pyval outcome \<times> 'w"

text \<open>A research provider gives the findings of a customer, raises or is torn down.\<close>

type_synonym 'w research_provider = "string \<Rightarrow> string option \<Rightarrow> 'w \<Rightarrow> string list outcome \<times> 'w"

definition answer_of :: "pyval option \<Rightarrow> pyval" where
  "answer_of v = (case v of None \<Rightarrow> PNone | Some x \<Rightarrow> x)"

definition research_prompt :: "string \<Rightarrow> string option \<Rightarrow> string" where
  "research_prompt customer persona =
     ''Research the organization '' @ [CHR 0x27] @ customer @ [CHR 0x27] @ ''.''
     @ (case persona of Some (c # cs) \<Rightarrow> '' Focus on the priorities of the '' @ (c # cs) @ ''.'' | _ \<Rightarrow> [])
     @ '' Summarize its industry, strategic priorities, and current initiatives as a list of findings. Return JSON with ''
     @ [CHR 0x22] @ ''findings'' @ [CHR 0x22] @ '' (array of strings).''"

definition llm_research :: "py_builtins \<Rightarrow> 'w completion \<Rightarrow> 'w research_provider" where
  "llm_research py ask customer persona w =
     (case ask (research_prompt customer persona) [''findings''] w of
        (Raised e, w') \<Rightarrow> (Raised e, w')
      | (Aborted, w') \<Rightarrow> (Aborted, w')
      | (Returned v, w') \<Rightarrow>
          (case bind_sum (obj ''research'' (answer_of v) [''findings'']) (\<lambda>d. str_list py ''research'' (pget d ''findings'') ''findings'') of
             Inl e \<Rightarrow> (Raised e, w')
           | Inr fs \<Rightarrow> (Returned (Some fs), w')))"

text \<open>What a prompt is rendered from: the customer, the persona, the outputs so far and, in the first step, the research.\<close>

record prompt_context =
  pc_customer :: string
  pc_persona :: string
  pc_outputs :: "(string \<times> step_output option) list"
  pc_research :: "string list option"

record 'w discovery =
  dw_py :: py_builtins
  dw_complete :: "'w completion"
  dw_research :: "'w research_provider"
  dw_render :: "string \<Rightarrow> prompt_context \<Rightarrow> string + string"
  dw_handoffs :: "(string \<times> ((string \<times> step_output option) list \<Rightarrow> ('w, step_output) handler)) list"

subsection \<open>A step\<close>

text \<open>Render, ask, parse.\<close>

definition ask_model ::
  "'w discovery \<Rightarrow> string \<Rightarrow> string list \<Rightarrow> (py_builtins \<Rightarrow> pyval \<Rightarrow> string + step_output) \<Rightarrow> prompt_context
    \<Rightarrow> ('w, step_output) handler" where
  "ask_model dw key schema parser context w =
     (case dw_render dw key context of
        Inl e \<Rightarrow> (Raised e, w)
      | Inr prompt \<Rightarrow>
          (case dw_complete dw prompt schema w of
             (Raised e, w') \<Rightarrow> (Raised e, w')
           | (Aborted, w') \<Rightarrow> (Aborted, w')
           | (Returned v, w') \<Rightarrow>
               (case parser (dw_py dw) (answer_of v) of Inl e \<Rightarrow> (Raised e, w') | Inr out \<Rightarrow> (Returned (Some out), w'))))"

definition discovery_handler ::
  "'w discovery \<Rightarrow> string \<Rightarrow> string list \<Rightarrow> (py_builtins \<Rightarrow> pyval \<Rightarrow> string + step_output) \<Rightarrow> string \<Rightarrow> string option
    \<Rightarrow> (string \<times> step_output option) list \<Rightarrow> ('w, step_output) handler" where
  "discovery_handler dw key schema parser customer persona state w =
     (let context = \<lparr>pc_customer = customer, pc_persona = (case persona of None \<Rightarrow> [] | Some p \<Rightarrow> p), pc_outputs = state, pc_research = None\<rparr>
      in if key = ''priorities'' then
           (case dw_research dw customer persona w of
              (Raised e, w') \<Rightarrow> (Raised e, w')
            | (Aborted, w') \<Rightarrow> (Aborted, w')
            | (Returned fs, w') \<Rightarrow> ask_model dw key schema parser (context\<lparr>pc_research := fs\<rparr>) w')
         else ask_model dw key schema parser context w)"

subsection \<open>The brief\<close>

definition bullets :: "string list \<Rightarrow> string list" where
  "bullets xs = map (\<lambda>x. ''- '' @ x) xs"

definition section_of :: "py_builtins \<Rightarrow> string \<Rightarrow> step_output option \<Rightarrow> string list" where
  "section_of py key out =
     (case out of
        Some (Priorities industry ps) \<Rightarrow>
          if key = ''priorities'' then [''## Strategic Priorities'', [], ''**Industry:** '' @ industry, []] @ bullets ps @ [[]] else []
      | Some (ValueMatrices rows) \<Rightarrow>
          if key = ''value_matrices'' then [''## Strategic Value Matrices'', [], ''| Outcome | Capability | Enabler |'', ''| --- | --- | --- |'']
            @ map (\<lambda>(a, b, c). ''| '' @ a @ '' | '' @ b @ '' | '' @ c @ '' |'') rows @ [[]] else []
      | Some (HeatMap cells) \<Rightarrow>
          if key = ''heat_map'' then [''## Value/Effort Heat Map'', [], ''| Outcome | Value | Effort |'', ''| --- | --- | --- |'']
            @ map (\<lambda>(a, x, y). ''| '' @ a @ '' | '' @ py_show py x @ '' | '' @ py_show py y @ '' |'') cells @ [[]] else []
      | Some (WowSelection chosen why) \<Rightarrow>
          if key = ''wow_selection'' then [''## Wow Selection'', []] @ bullets chosen @ [[], ''_Rationale:_ '' @ why, []] else []
      | Some (DiscoveryGuide qs eq) \<Rightarrow>
          if key = ''discovery_guide'' then [''## Discovery Guide'', []] @ bullets qs @ [[], ''**Value equation:** '' @ eq, []] else []
      | Some (ThreeWs change now us gaps) \<Rightarrow>
          if key = ''three_ws'' then [''## The 3 Ws'', [], ''**Why Change:** '' @ change, [], ''**Why Now:** '' @ now, [], ''**Why Us:** '' @ us, [],
            ''**Open gaps:**''] @ bullets gaps @ [[]] else []
      | _ \<Rightarrow> [])"

definition output_at :: "(string \<times> step_output option) list \<Rightarrow> string \<Rightarrow> step_output option" where
  "output_at state key = (case dget state key of None \<Rightarrow> None | Some v \<Rightarrow> v)"

definition render_markdown_brief :: "py_builtins \<Rightarrow> (string \<times> step_output option) list \<Rightarrow> string \<Rightarrow> string" where
  "render_markdown_brief py state customer =
     rstrip (join [CHR 0x0A] ([''# Discovery Brief: '' @ customer, []]
       @ concat (map (\<lambda>key. section_of py key (output_at state key)) (map fst step_table)))) @ [CHR 0x0A]"

subsection \<open>The workflow\<close>

definition workflow_name :: string where
  "workflow_name = ''discovery''"

definition all_steps ::
  "'w discovery \<Rightarrow> string \<Rightarrow> string option \<Rightarrow> int \<times> string
    \<Rightarrow> (string \<times> ((string \<times> step_output option) list \<Rightarrow> ('w, step_output) handler) \<times> (int \<times> string)) list" where
  "all_steps dw customer persona clock =
     map (\<lambda>(key, schema, parser). (key, discovery_handler dw key schema parser customer persona, clock)) step_table
     @ map (\<lambda>(key, h). (key, h, clock)) (dw_handoffs dw)"

definition run_input :: "string \<Rightarrow> string option \<Rightarrow> step_output option" where
  "run_input customer persona = Some (Handoff (PDict [(''customer'', PStr customer),
     (''persona'', case persona of None \<Rightarrow> PNone | Some p \<Rightarrow> PStr p)]))"

text \<open>The end of the run: the brief is the run's output.\<close>

definition conclude ::
  "'w discovery \<Rightarrow> string \<Rightarrow> string \<Rightarrow> string \<Rightarrow> (engine_error + (string \<times> step_output option) list) \<times> step_output engine \<times> 'w
    \<Rightarrow> (engine_error + string) \<times> step_output engine \<times> 'w" where
  "conclude dw customer rid now res =
     (case res of
        (Inl err, e, w) \<Rightarrow> (Inl err, e, w)
      | (Inr state, e, w) \<Rightarrow>
          (case finish_run rid Completed (Some (Handoff (PStr (render_markdown_brief (dw_py dw) state customer)))) now e of
             Inl err \<Rightarrow> (Inl err, e, w)
           | Inr e' \<Rightarrow> (Inr rid, e', w)))"

definition discover ::
  "'w discovery \<Rightarrow> string \<Rightarrow> string option \<Rightarrow> string option \<Rightarrow> string \<Rightarrow> string \<Rightarrow> step_output engine \<Rightarrow> 'w
    \<Rightarrow> (engine_error + string) \<times> step_output engine \<times> 'w" where
  "discover dw customer persona run_id uuid now e w =
     (case start_run workflow_name (run_input customer persona) run_id uuid now e of
        (rid, e1) \<Rightarrow> conclude dw customer rid now (chain step rid (all_steps dw customer persona (0, now)) [] e1 w))"

subsection \<open>Every section of the brief has its output\<close>

fun kind_of :: "step_output \<Rightarrow> string" where
  "kind_of (Priorities i ps) = ''priorities''"
| "kind_of (ValueMatrices rs) = ''value_matrices''"
| "kind_of (HeatMap cs) = ''heat_map''"
| "kind_of (WowSelection cs r) = ''wow_selection''"
| "kind_of (DiscoveryGuide qs v) = ''discovery_guide''"
| "kind_of (ThreeWs a b c gs) = ''three_ws''"
| "kind_of (Handoff v) = ''handoff''"

definition step_keys :: "string list" where
  "step_keys = map fst step_table"

definition of_kind :: "string \<Rightarrow> step_output option \<Rightarrow> bool" where
  "of_kind key v \<longleftrightarrow> (case v of None \<Rightarrow> False | Some out \<Rightarrow> kind_of out = key)"

lemma bind_sum_Inr: "bind_sum x f = Inr b \<longleftrightarrow> (\<exists>a. x = Inr a \<and> f a = Inr b)"
  by (cases x) (simp_all add: bind_sum_def)

lemma matrices_kind: "parse_value_matrices py data = Inr out \<Longrightarrow> kind_of out = ''value_matrices''"
  unfolding parse_value_matrices_def bind_sum_Inr by (erule exE) (auto simp: bind_sum_Inr split: pyval.split_asm)

lemma heat_map_kind: "parse_heat_map py data = Inr out \<Longrightarrow> kind_of out = ''heat_map''"
  unfolding parse_heat_map_def bind_sum_Inr by (erule exE) (auto simp: bind_sum_Inr split: pyval.split_asm)

lemma parser_kind: "(key, schema, parser) \<in> set step_table \<Longrightarrow> parser py data = Inr out \<Longrightarrow> kind_of out = key"
  unfolding step_table_def by (auto simp: parse_priorities_def parse_wow_selection_def parse_discovery_guide_def parse_three_ws_def
      bind_sum_Inr dest: matrices_kind heat_map_kind)

lemma ask_model_kind:
  "fst (ask_model dw key schema parser context w) = Returned v \<Longrightarrow> (key, schema, parser) \<in> set step_table \<Longrightarrow> of_kind key v"
  by (auto simp: ask_model_def of_kind_def dest: parser_kind split: sum.splits prod.splits outcome.splits)

lemma discovery_handler_kind:
  "fst (discovery_handler dw key schema parser customer persona state w) = Returned v \<Longrightarrow> (key, schema, parser) \<in> set step_table
    \<Longrightarrow> of_kind key v"
  by (auto simp: discovery_handler_def Let_def dest: ask_model_kind split: prod.splits outcome.splits if_splits)

text \<open>A value a step yields was in the log, or its handler returned it.\<close>

lemma step_value:
  assumes "step r k h c e w = (Inr v, e', w')"
  shows "step_log e r k = Some (Inr v) \<or> (step_log e r k = None \<and> fst (h w) = Returned v)"
    and "step_log e' r k = Some (Inr v)" and "k' \<noteq> k \<Longrightarrow> step_log e' r k' = step_log e r k'"
proof -
  show "step_log e r k = Some (Inr v) \<or> (step_log e r k = None \<and> fst (h w) = Returned v)"
    using assms by (auto simp: step_def step_log_def step_result_def split: option.splits if_splits prod.splits outcome.splits)
  show "step_log e' r k = Some (Inr v)" using mem_engine.step_success_logged [OF assms] by blast
  show "k' \<noteq> k \<Longrightarrow> step_log e' r k' = step_log e r k'"
    using assms by (auto simp: step_def step_log_record split: option.splits if_splits prod.splits outcome.splits)
qed

lemma dset_beyond: "k \<notin> fst ` set a \<Longrightarrow> dset k v (a @ b) = a @ dset k v b"
  by (induction a) auto

lemma chain_split:
  "chain st r (ss @ ts) state e w =
     (case chain st r ss state e w of (Inl err, e', w') \<Rightarrow> (Inl err, e', w') | (Inr s, e', w') \<Rightarrow> chain st r ts s e' w')"
  by (induction ss arbitrary: state e w) (auto split: prod.splits sum.splits)

text \<open>Fresh steps with keys of their own: each one's handler answered from the outputs before it, and its answer is logged.\<close>

lemma chain_answers:
  assumes "chain step r ss st e w = (Inr st', e', w')" and "distinct (map fst ss)"
    and "\<And>k. k \<in> fst ` set ss \<Longrightarrow> step_log e r k = None \<and> k \<notin> fst ` set st"
  shows "\<exists>ans. st' = st @ ans \<and> map fst ans = map fst ss
    \<and> (\<forall>i < length ss. step_log e' r (fst (ss ! i)) = Some (Inr (snd (ans ! i)))
        \<and> (\<exists>x. fst (fst (snd (ss ! i)) (st @ take i ans) x) = Returned (snd (ans ! i))))
    \<and> (\<forall>k. k \<notin> fst ` set ss \<longrightarrow> step_log e' r k = step_log e r k)"
  using assms
proof (induction ss arbitrary: st e w)
  case (Cons s ss)
  obtain k mk c where s: "s = (k, mk, c)" by (cases s) auto
  from Cons.prems(1) s obtain v e1 w1 where st: "step r k (mk st) c e w = (Inr v, e1, w1)"
    and rest: "chain step r ss (dset k v st) e1 w1 = (Inr st', e', w')" by (auto split: prod.splits sum.splits)
  note v = step_value [OF st]
  have k: "step_log e r k = None" "k \<notin> fst ` set st" "k \<notin> fst ` set ss" using Cons.prems(2,3) s by auto
  then have d: "dset k v st = st @ [(k, v)]" using dset_new [of st k v] by (simp add: dget_None_iff)
  have fresh: "step_log e1 r j = None \<and> j \<notin> fst ` set (st @ [(k, v)])" if "j \<in> fst ` set ss" for j
    using that k(3) v(3) [of j] Cons.prems(3) [of j] s by auto
  from Cons.IH [OF rest [unfolded d] _ fresh] Cons.prems(2) s obtain ans where
    a: "st' = (st @ [(k, v)]) @ ans" "map fst ans = map fst ss"
    "\<forall>i < length ss. step_log e' r (fst (ss ! i)) = Some (Inr (snd (ans ! i)))
        \<and> (\<exists>x. fst (fst (snd (ss ! i)) ((st @ [(k, v)]) @ take i ans) x) = Returned (snd (ans ! i)))"
    "\<forall>j. j \<notin> fst ` set ss \<longrightarrow> step_log e' r j = step_log e1 r j" by auto
  have first: "step_log e' r k = Some (Inr v)" "\<exists>x. fst (mk st x) = Returned v" using a(4) k(1,3) v(1,2) by auto
  have "step_log e' r (fst ((s # ss) ! i)) = Some (Inr (snd (((k, v) # ans) ! i)))
      \<and> (\<exists>x. fst (fst (snd ((s # ss) ! i)) (st @ take i ((k, v) # ans)) x) = Returned (snd (((k, v) # ans) ! i)))"
    if "i < length (s # ss)" for i
    using that a(3) first by (cases i) (auto simp: s)
  moreover have "step_log e' r j = step_log e r j" if "j \<notin> fst ` set (s # ss)" for j using that a(4) v(3) [of j] by (simp add: s)
  ultimately show ?case using a(1,2) by (intro exI [of _ "(k, v) # ans"]) (simp add: s)
qed simp

text \<open>Later steps under other keys leave those outputs and their log alone.\<close>

lemma chain_beyond:
  assumes "chain step r ss (a @ b) e w = (Inr st', e', w')" and "fst ` set ss \<inter> fst ` set a = {}"
  shows "take (length a) st' = a \<and> (\<forall>k. k \<notin> fst ` set ss \<longrightarrow> step_log e' r k = step_log e r k)"
  using assms
proof (induction ss arbitrary: b e w)
  case (Cons s ss)
  obtain k mk c where s: "s = (k, mk, c)" by (cases s) auto
  from Cons.prems(1) s obtain v e1 w1 where st: "step r k (mk (a @ b)) c e w = (Inr v, e1, w1)"
    and rest: "chain step r ss (dset k v (a @ b)) e1 w1 = (Inr st', e', w')" by (auto split: prod.splits sum.splits)
  have "k \<notin> fst ` set a" using Cons.prems(2) s by auto
  from Cons.IH [OF rest [unfolded dset_beyond [OF this]]] Cons.prems(2) step_value(3) [OF st] show ?case by (auto simp: s)
qed auto

text \<open>Step \<open>i\<close> of a run: its logged output is of its own kind and is what its handler returned on the outputs before it.\<close>

definition answered :: "'w discovery \<Rightarrow> string \<Rightarrow> string option \<Rightarrow> step_output engine \<Rightarrow> string
    \<Rightarrow> (string \<times> step_output option) list \<Rightarrow> nat \<Rightarrow> bool" where
  "answered dw customer persona e rid state i \<longleftrightarrow>
     (case step_table ! i of (key, schema, parser) \<Rightarrow>
        i < length state \<and> fst (state ! i) = key \<and> of_kind key (snd (state ! i))
        \<and> step_log e rid key = Some (Inr (snd (state ! i)))
        \<and> (\<exists>w. fst (discovery_handler dw key schema parser customer persona (take i state) w) = Returned (snd (state ! i))))"

lemma step_table_keys: "distinct step_keys" "length step_table = length step_keys"
  by (simp_all add: step_keys_def step_table_def)

text \<open>
  C31: A fresh discovery run that completes has, in each of its six steps, in its log the answer that step's handler gave on
  the outputs of the steps before it, an output of the step's own kind; and its brief, rendered from these outputs (and those
  of the hand-off steps, which use other keys), is stored as the output of the completed run.
\<close>

theorem completed_discovery_is_well_typed:
  assumes "\<not> known e rid" and "rid \<noteq> []" and "set (map fst (dw_handoffs dw)) \<inter> set step_keys = {}"
    and "discover dw customer persona (Some rid) uuid now e w = (Inr r', e', w')"
  shows "\<exists>state run. r' = rid \<and> list_all (answered dw customer persona e' rid state) [0 ..< length step_table]
    \<and> map fst (take (length step_table) state) = step_keys
    \<and> dget (eng_runs e') rid = Some run \<and> wr_status run = Completed
    \<and> wr_output run = Some (Handoff (PStr (render_markdown_brief (dw_py dw) state customer)))"
proof -
  let ?e1 = "snd (start_run workflow_name (run_input customer persona) (Some rid) uuid now e)"
  let ?n = "length step_table"
  have s: "start_run workflow_name (run_input customer persona) (Some rid) uuid now e = (rid, ?e1)"
    using assms(1,2) by (simp add: start_run_def known_def Let_def)
  have "step_log ?e1 rid = step_log e rid" using assms(2) by (simp add: start_run_log)
  moreover have "step_log e rid k = None" for k using assms(1) by (simp add: step_log_def known_def)
  ultimately have fresh: "step_log ?e1 rid k = None" for k by simp
  define ss where "ss = map (\<lambda>(key, schema, parser). (key, discovery_handler dw key schema parser customer persona, (0 :: int, now))) step_table"
  define hs where "hs = map (\<lambda>(key, h). (key, h, (0 :: int, now))) (dw_handoffs dw)"
  have all: "all_steps dw customer persona (0, now) = ss @ hs" by (simp add: all_steps_def ss_def hs_def)
  have ks: "map fst ss = step_keys" "length ss = ?n" "fst ` set hs = fst ` set (dw_handoffs dw)"
    by (simp_all add: ss_def hs_def step_keys_def comp_def case_prod_beta image_image)
  from assms(4) s obtain st e2 where c: "chain step rid (ss @ hs) [] ?e1 w = (Inr st, e2, w')"
    and f: "finish_run rid Completed (Some (Handoff (PStr (render_markdown_brief (dw_py dw) st customer)))) now e2 = Inr e'" and r: "r' = rid"
    by (auto simp: discover_def conclude_def all split: prod.splits sum.splits)
  from c obtain st1 e3 w1 where c1: "chain step rid ss [] ?e1 w = (Inr st1, e3, w1)" and c2: "chain step rid hs st1 e3 w1 = (Inr st, e2, w')"
    by (auto simp: chain_split split: prod.splits sum.splits)
  from chain_answers [OF c1] fresh ks(1) step_table_keys(1) have a: "map fst st1 = step_keys"
    and log: "\<And>i. i < ?n \<Longrightarrow> step_log e3 rid (fst (ss ! i)) = Some (Inr (snd (st1 ! i)))
        \<and> (\<exists>x. fst (fst (snd (ss ! i)) (take i st1) x) = Returned (snd (st1 ! i)))"
    by (auto simp: ks(2))
  have len: "length st1 = ?n" using a step_table_keys(2) by (metis length_map)
  have dis: "fst ` set hs \<inter> fst ` set st1 = {}" using assms(3) a ks(3) by (metis list.set_map)
  from chain_beyond [of rid hs st1 "[]" e3 w1 st e2 w'] c2 dis have pre: "take ?n st = st1"
    and keep: "\<And>k. k \<notin> fst ` set hs \<Longrightarrow> step_log e2 rid k = step_log e3 rid k" by (simp_all add: len)
  have "answered dw customer persona e' rid st i" if i: "i < ?n" for i
  proof -
    obtain key schema parser where t: "step_table ! i = (key, schema, parser)" by (metis prod.exhaust)
    then have mem: "(key, schema, parser) \<in> set step_table" using i by (metis nth_mem)
    have si: "ss ! i = (key, discovery_handler dw key schema parser customer persona, (0, now))" using i t by (simp add: ss_def)
    have ni: "st ! i = st1 ! i" "take i st = take i st1" "i < length st" using i pre len by (auto simp flip: pre)
    have key: "fst (st1 ! i) = key" using a i len t by (metis fst_conv nth_map step_keys_def)
    have "key \<notin> fst ` set hs" using dis key i len by (metis IntI empty_iff image_eqI nth_mem)
    then have "step_log e' rid key = Some (Inr (snd (st1 ! i)))"
      using keep log [OF i] si finish_run_log [OF f] by simp
    moreover obtain x where x: "fst (discovery_handler dw key schema parser customer persona (take i st1) x) = Returned (snd (st1 ! i))"
      using log [OF i] si by auto
    moreover note discovery_handler_kind [OF x mem]
    ultimately show ?thesis using key ni by (auto simp: answered_def t)
  qed
  then have "list_all (answered dw customer persona e' rid st) [0 ..< ?n]" by (simp add: list_all_iff)
  moreover obtain run where "dget (eng_runs e') rid = Some run" "wr_status run = Completed"
    "wr_output run = Some (Handoff (PStr (render_markdown_brief (dw_py dw) st customer)))"
    using f by (auto simp: finish_run_def dget_dset split: option.splits)
  ultimately show ?thesis using r a pre by blast
qed

text \<open>A model whose every answer is an object with empty lists, torn down in its \<open>n\<close>-th call.\<close>

definition demo_discovery :: "nat \<Rightarrow> nat discovery" where
  "demo_discovery n =
     \<lparr>dw_py = \<lparr>py_str = \<lambda>v. [], py_float = \<lambda>v. Inl ''not a number'', py_show = \<lambda>x. []\<rparr>,
      dw_complete = \<lambda>prompt schema w. (if w = n then Aborted else Returned (Some (PDict (map (\<lambda>k. (k, PList [])) schema))), Suc w),
      dw_research = \<lambda>customer persona w. (Returned (Some []), w),
      dw_render = \<lambda>key context. Inr key,
      dw_handoffs = []\<rparr>"

definition demo_run :: "nat \<Rightarrow> (engine_error + string) \<times> step_output engine \<times> nat" where
  "demo_run n = discover (demo_discovery n) ''Acme'' None (Some ''r1'') ''u'' ''t0'' empty_engine 0"

lemma demo_run_completes: "fst (demo_run 9) = Inr ''r1''"
  by code_simp

lemma demo_run_aborts: "fst (demo_run 3) = Inl HandlerAborted"
  by code_simp

theorem completed_discovery_is_well_typed_witness:
  "\<exists>state run. list_all (answered (demo_discovery 9) ''Acme'' None (fst (snd (demo_run 9))) ''r1'' state) [0 ..< length step_table]
    \<and> dget (eng_runs (fst (snd (demo_run 9)))) ''r1'' = Some run \<and> wr_status run = Completed"
proof -
  have d: "discover (demo_discovery 9) ''Acme'' None (Some ''r1'') ''u'' ''t0'' empty_engine 0
      = (Inr ''r1'', fst (snd (demo_run 9)), snd (snd (demo_run 9)))"
    using demo_run_completes by (simp add: demo_run_def prod_eq_iff)
  show ?thesis
    using completed_discovery_is_well_typed [OF _ _ _ d]
    by (auto simp: known_def empty_engine_def demo_discovery_def)
qed

subsection \<open>Resuming\<close>

lemma step_aborted: "step r k h c e w = (Inl HandlerAborted, e', w') \<Longrightarrow> step_log e' r k = None"
  by (auto simp: step_def step_log_def split: option.splits if_splits prod.splits outcome.splits)

lemma step_raised: "step r k h c e w = (Inl (HandlerError m), e', w') \<Longrightarrow> step_log e' r k = Some (Inl (failure_message (Some m)))"
  by (auto simp: step_def step_log_record step_result_def split: option.splits if_splits prod.splits outcome.splits)

lemma start_again:
  assumes "known e r" and "r \<noteq> []" and "engine_wf e"
  shows "\<exists>e'. start_run name inp (Some r) uuid now e = (r, e') \<and> step_log e' = step_log e \<and> known e' r"
proof -
  obtain run where run: "dget (eng_runs e) r = Some run" using assms(1) by (auto simp: known_def)
  then have "wr_id run = r" using engine_wf_run [OF assms(3)] by blast
  with start_run_reopen [OF assms(2) run, of name inp uuid now] start_run_log [of "Some r" e uuid name inp now] assms(2) show ?thesis
    by (auto simp: known_def dget_dset)
qed

lemma chain_wf: "engine_wf e \<Longrightarrow> chain step r ss st e w = (x, e', w') \<Longrightarrow> engine_wf e'"
proof (induction ss arbitrary: st e w)
  case (Cons s ss)
  obtain k mk c where s: "s = (k, mk, c)" by (cases s) auto
  obtain y e1 w1 where st: "step r k (mk st) c e w = (y, e1, w1)" by (cases "step r k (mk st) c e w") auto
  have "engine_wf e1" using step_wf [OF Cons.prems(1), of r k "mk st" c w] st by simp
  with Cons.prems(2) Cons.IH [of e1] s st show ?case by (cases y) auto
qed simp

lemma stopped_run:
  assumes "discover dw customer persona (Some r) uuid now e w = (Inl err, e1, w1)" and "r \<noteq> []" and "engine_wf e"
    and "err = HandlerAborted \<or> err = HandlerError m"
  shows "\<exists>n vs. n < length (all_steps dw customer persona (0, now)) \<and> engine_wf e1 \<and> known e1 r
    \<and> list_all2 (\<lambda>k v. step_log e1 r k = Some (Inr v)) (take n (map fst (all_steps dw customer persona (0, now)))) vs
    \<and> step_log e1 r (map fst (all_steps dw customer persona (0, now)) ! n)
        = (if err = HandlerAborted then None else Some (Inl (failure_message (Some m))))"
proof -
  let ?ss = "all_steps dw customer persona (0, now)"
  obtain rid e0 where s: "start_run workflow_name (run_input customer persona) (Some r) uuid now e = (rid, e0)" by force
  have rid: "rid = r"
    using s assms(2) engine_wf_run [OF assms(3), of r] by (auto simp: start_run_def Let_def split: option.splits)
  have wf0: "engine_wf e0" using start_run_wf [OF assms(3)] s by (metis snd_conv)
  have k0: "known e0 r" using start_run_known [OF assms(3)] s rid by (metis fst_conv snd_conv)
  obtain res e2 w2 where c: "chain step r ?ss [] e0 w = (res, e2, w2)" by (cases "chain step r ?ss [] e0 w") auto
  have res: "res = Inl err \<and> e2 = e1"
    using assms(1,4) s c rid by (auto simp: discover_def conclude_def finish_run_def split: sum.splits option.splits)
  note progress = mem_engine.chain_progress [OF c, unfolded conjunct1 [OF res] conjunct2 [OF res] sum.case]
  obtain dn td vs ea wa where p: "?ss = dn @ td" "td \<noteq> []"
    "list_all2 (\<lambda>s v. known e1 r \<and> step_log e1 r (fst s) = Some (Inr v)) dn vs"
    "(\<lambda>r (k :: string). known e1 r) = (\<lambda>r k. known e0 r)"
    "step r (fst (hd td)) (fst (snd (hd td)) (assign_all (map fst dn) vs [])) (snd (snd (hd td))) ea wa = (Inl err, e1, w2)"
    using progress by (elim exE conjE) (rule that)
  have "known e1 r" using p(4) k0 by (metis (full_types))
  moreover have "engine_wf e1" using chain_wf [OF wf0 c] res by simp
  moreover have "list_all2 (\<lambda>k v. step_log e1 r k = Some (Inr v)) (take (length dn) (map fst ?ss)) vs"
    using p(1,3) by (auto simp: list_all2_map1 elim: list_all2_mono)
  moreover have "map fst ?ss ! length dn = fst (hd td)" using p(1,2) by (simp add: hd_conv_nth nth_append)
  moreover have "step_log e1 r (fst (hd td)) = (if err = HandlerAborted then None else Some (Inl (failure_message (Some m))))"
    using assms(4)
  proof
    assume a: "err = HandlerAborted"
    show ?thesis using step_aborted [OF p(5) [unfolded a]] a by simp
  next
    assume a: "err = HandlerError m"
    show ?thesis using step_raised [OF p(5) [unfolded a]] a by simp
  qed
  ultimately show ?thesis using p(1,2) by (intro exI [of _ "length dn"]) auto
qed

lemma all_steps_keys: "map fst (all_steps dw customer persona clock) = step_keys @ map fst (dw_handoffs dw)"
  by (simp add: all_steps_def step_keys_def comp_def case_prod_beta)

text \<open>Opening the run again answers its logged prefix without moving the world.\<close>

lemma discover_replays:
  assumes "known e r" and "r \<noteq> []" and "engine_wf e"
    and "list_all2 (\<lambda>k v. step_log e r k = Some (Inr v)) (take n (step_keys @ map fst (dw_handoffs dw))) vs"
  shows "\<exists>e2. start_run workflow_name (run_input customer persona) (Some r) uuid now e = (r, e2)
    \<and> step_log e2 = step_log e \<and> known e2 r
    \<and> discover dw customer persona (Some r) uuid now e w
        = conclude dw customer r now (chain step r (drop n (all_steps dw customer persona (0, now)))
            (assign_all (take n (step_keys @ map fst (dw_handoffs dw))) vs []) e2 w)"
proof -
  let ?ss = "all_steps dw customer persona (0, now)"
  obtain e2 where e2: "start_run workflow_name (run_input customer persona) (Some r) uuid now e = (r, e2)"
    "step_log e2 = step_log e" "known e2 r"
    using start_again [OF assms(1-3)] by blast
  have "list_all2 (\<lambda>s v. known e2 r \<and> step_log e2 r (fst s) = Some (Inr v)) (take n ?ss) vs"
    using assms(4) e2(2,3) unfolding all_steps_keys [of dw customer persona "(0, now)", symmetric] take_map by (simp add: list_all2_map1)
  from mem_engine.quiet_chain [OF this, of "drop n ?ss" "[]" w] e2 show ?thesis
    by (simp add: discover_def all_steps_keys [of dw customer persona "(0, now)", symmetric] take_map del: take_append map_append)
qed

text \<open>
  A discovery run that was torn down resumes: run again under its id, it answers the steps that had
  completed from the log, with their stored outputs, calls none of their handlers, and goes on with the step
  that was interrupted.
\<close>

theorem discovery_resumes_after_crash:
  assumes "discover dw customer persona (Some r) uuid now e w = (Inl HandlerAborted, e1, w1)" and "r \<noteq> []" and "engine_wf e"
    and "map fst (dw_handoffs dw') = map fst (dw_handoffs dw)"
  shows "\<exists>n vs e2. n < length (all_steps dw customer persona (0, now))
    \<and> list_all2 (\<lambda>k v. step_log e1 r k = Some (Inr v)) (take n (step_keys @ map fst (dw_handoffs dw))) vs
    \<and> step_log e1 r ((step_keys @ map fst (dw_handoffs dw)) ! n) = None
    \<and> step_log e2 = step_log e1
    \<and> discover dw' customer' persona' (Some r) uuid' now' e1 w'
        = conclude dw' customer' r now' (chain step r (drop n (all_steps dw' customer' persona' (0, now')))
            (assign_all (take n (step_keys @ map fst (dw_handoffs dw))) vs []) e2 w')"
proof -
  have "\<exists>n vs. n < length (all_steps dw customer persona (0, now)) \<and> engine_wf e1 \<and> known e1 r
    \<and> list_all2 (\<lambda>k v. step_log e1 r k = Some (Inr v)) (take n (step_keys @ map fst (dw_handoffs dw))) vs
    \<and> step_log e1 r ((step_keys @ map fst (dw_handoffs dw)) ! n) = None"
    using stopped_run [OF assms(1-3), of "[]"] by (simp add: all_steps_keys)
  then obtain n vs where p: "n < length (all_steps dw customer persona (0, now))" "engine_wf e1" "known e1 r"
    "list_all2 (\<lambda>k v. step_log e1 r k = Some (Inr v)) (take n (step_keys @ map fst (dw_handoffs dw))) vs"
    "step_log e1 r ((step_keys @ map fst (dw_handoffs dw)) ! n) = None"
    by blast
  from discover_replays [OF p(3) assms(2) p(2) p(4) [folded assms(4)], of customer' persona' uuid' now' w']
  show ?thesis unfolding assms(4) using p(1,4,5) by blast
qed

theorem discovery_resumes_after_crash_witness:
  "\<exists>n st e2. n < 6 \<and> step_log e2 = step_log (fst (snd (demo_run 3)))
    \<and> discover (demo_discovery 9) ''Acme'' None (Some ''r1'') ''u'' ''t1'' (fst (snd (demo_run 3))) 0
        = conclude (demo_discovery 9) ''Acme'' ''r1'' ''t1''
            (chain step ''r1'' (drop n (all_steps (demo_discovery 9) ''Acme'' None (0, ''t1''))) st e2 0)"
proof -
  have d: "discover (demo_discovery 3) ''Acme'' None (Some ''r1'') ''u'' ''t0'' empty_engine 0
      = (Inl HandlerAborted, fst (snd (demo_run 3)), snd (snd (demo_run 3)))"
    using demo_run_aborts by (simp add: demo_run_def prod_eq_iff)
  have l: "length (all_steps (demo_discovery 3) ''Acme'' None (0, ''t0'')) = 6"
    by (simp add: all_steps_def step_table_def demo_discovery_def)
  have h: "map fst (dw_handoffs (demo_discovery 9)) = map fst (dw_handoffs (demo_discovery 3))"
    by (simp add: demo_discovery_def)
  from discovery_resumes_after_crash [OF d _ empty_engine_wf h, of "''Acme''" None "''u''" "''t1''" 0]
  show ?thesis unfolding l by blast
qed

text \<open>
  A step that raised is recorded as failed: running the discovery again under the same id fails at once, whatever
  the model or the providers would answer now.
\<close>

lemma failed_step_blocks_run:
  assumes "discover dw customer persona (Some r) uuid now e w = (Inl (HandlerError m), e1, w1)" and "r \<noteq> []" and "engine_wf e"
    and "map fst (dw_handoffs dw') = map fst (dw_handoffs dw)"
  shows "\<exists>k e2. discover dw' customer' persona' (Some r) uuid' now' e1 w'
    = (Inl (StepFailedError k (failure_message (Some m))), e2, w')"
proof -
  have "\<exists>n vs. n < length (all_steps dw customer persona (0, now)) \<and> engine_wf e1 \<and> known e1 r
    \<and> list_all2 (\<lambda>k v. step_log e1 r k = Some (Inr v)) (take n (step_keys @ map fst (dw_handoffs dw))) vs
    \<and> step_log e1 r ((step_keys @ map fst (dw_handoffs dw)) ! n) = Some (Inl (failure_message (Some m)))"
    using stopped_run [OF assms(1-3), of m] by (simp add: all_steps_keys)
  then obtain n vs where p: "n < length (all_steps dw customer persona (0, now))" "engine_wf e1" "known e1 r"
    "list_all2 (\<lambda>k v. step_log e1 r k = Some (Inr v)) (take n (step_keys @ map fst (dw_handoffs dw))) vs"
    "step_log e1 r ((step_keys @ map fst (dw_handoffs dw)) ! n) = Some (Inl (failure_message (Some m)))"
    by blast
  let ?ss = "all_steps dw' customer' persona' (0, now')"
  from discover_replays [OF p(3) assms(2) p(2) p(4) [folded assms(4)], of customer' persona' uuid' now' w']
  obtain e2 where e2: "step_log e2 = step_log e1" "known e2 r" "discover dw' customer' persona' (Some r) uuid' now' e1 w'
      = conclude dw' customer' r now' (chain step r (drop n ?ss) (assign_all (take n (step_keys @ map fst (dw_handoffs dw'))) vs []) e2 w')"
    by blast
  have keys: "map fst ?ss = step_keys @ map fst (dw_handoffs dw)" by (simp add: all_steps_keys assms(4))
  have n: "n < length ?ss" using p(1) keys all_steps_keys [of dw customer persona "(0, now)"] by (metis length_map)
  obtain k mk c where s: "?ss ! n = (k, mk, c)" by (cases "?ss ! n") auto
  have "drop n ?ss = (k, mk, c) # drop (Suc n) ?ss" using n s by (simp add: Cons_nth_drop_Suc [symmetric])
  moreover have failed: "step_log e2 r k = Some (Inl (failure_message (Some m)))"
    using p(5) e2(1) s n by (simp add: keys [symmetric])
  obtain e3 where "step r k (mk (assign_all (take n (step_keys @ map fst (dw_handoffs dw'))) vs [])) c e2 w'
    = (Inl (StepFailedError k (failure_message (Some m))), e3, w')"
    using mem_engine.hit_failed [OF e2(2) failed, of "mk (assign_all (take n (step_keys @ map fst (dw_handoffs dw'))) vs [])" c w']
    by (elim exE conjE) (rule that)
  ultimately show ?thesis using e2(3) by (simp add: conclude_def)
qed

end
