(* ===== verification/Caller_Identity.thy ===== *)
theory Caller_Identity
  imports Apx_Prelude
begin

text \<open>
  On whose behalf a request runs (\<open>_obo.py\<close>, with the client factories of \<open>_defaults.py\<close> and the
  resolution in \<open>_chat_agent.py\<close> and \<open>_responses_agent.py\<close>): the identity taken from the body and from the
  proxy's headers, the session key scoped by it, and the workspace client a tool gets.

  The environment is a function.  A workspace client is described by the credentials it is built with.  The
  hash of a principal and \<open>str\<close> of a value that is no string are parameters.
\<close>

subsection \<open>The environment\<close>

type_synonym environ = "string \<Rightarrow> string option"

definition env_set :: "environ \<Rightarrow> string \<Rightarrow> bool" where
  "env_set env k = (case env k of None \<Rightarrow> False | Some v \<Rightarrow> v \<noteq> [])"

definition in_databricks_app :: "environ \<Rightarrow> bool" where
  "in_databricks_app env \<longleftrightarrow> env_set env ''DATABRICKS_APP_NAME'' \<or> env_set env ''DATABRICKS_APP_URL''"

definition sp_fallback_env :: string where
  "sp_fallback_env = ''APX_ALLOW_SERVICE_PRINCIPAL_FALLBACK''"

definition sp_fallback_allowed :: "environ \<Rightarrow> bool" where
  "sp_fallback_allowed env =
     (case env sp_fallback_env of None \<Rightarrow> False | Some v \<Rightarrow> lower (strip v) \<in> set [''1'', ''true'', ''yes'', ''on''])"

text \<open>What happens to a request without a user token; the rejection is \<open>ApxIdentityError\<close>.\<close>

datatype no_token = LocalDevelopment | AsServicePrincipal | IdentityRejected

definition resolve_no_obo :: "environ \<Rightarrow> no_token" where
  "resolve_no_obo env =
     (if \<not> in_databricks_app env then LocalDevelopment
      else if sp_fallback_allowed env then AsServicePrincipal
      else IdentityRejected)"

subsection \<open>Headers\<close>

text \<open>
  The header objects \<open>_coerce_headers\<close> tells apart: none; a dict; a mapping whose lookup ignores case, its
  names in lower case; an object with a \<open>get\<close> method only, which is wrapped in a mapping of length 0.
\<close>

datatype headers =
    NoHeaders
  | HeaderDict "(string \<times> string) list"
  | FoldedHeaders "(string \<times> string) list"
  | GetterOnly "string \<Rightarrow> string option"

definition replace_char :: "char \<Rightarrow> char \<Rightarrow> string \<Rightarrow> string" where
  "replace_char a b s = map (\<lambda>c. if c = a then b else c) s"

definition header_names :: "string \<Rightarrow> string list" where
  "header_names name =
     [lower name, lower (replace_char CHR ''-'' CHR ''_'' name), lower (replace_char CHR ''_'' CHR ''-'' name)]"

definition present :: "string option \<Rightarrow> string option" where
  "present v = (case v of None \<Rightarrow> None | Some s \<Rightarrow> if s = [] then None else Some s)"

definition scan_headers :: "(string \<times> string) list \<Rightarrow> string \<Rightarrow> string option" where
  "scan_headers items name =
     map_option snd (find (\<lambda>(k, v). k \<noteq> [] \<and> lower k \<in> set (header_names name) \<and> v \<noteq> []) items)"

definition header_lookup :: "headers \<Rightarrow> string \<Rightarrow> string option" where
  "header_lookup hs name =
     (case hs of
        NoHeaders \<Rightarrow> None
      | HeaderDict items \<Rightarrow> (case present (dget items name) of Some v \<Rightarrow> Some v | None \<Rightarrow> scan_headers items name)
      | FoldedHeaders items \<Rightarrow> (case present (dget items (lower name)) of Some v \<Rightarrow> Some v | None \<Rightarrow> scan_headers items name)
      | GetterOnly g \<Rightarrow> None)"

lemma header_lookup_nonempty: "header_lookup hs name = Some v \<Longrightarrow> v \<noteq> []"
  by (auto simp: header_lookup_def scan_headers_def present_def find_Some_iff split: headers.splits option.splits if_splits)

text \<open>A header reaches the lookup under any case and with underscores for hyphens, if no other one does before it.\<close>

lemma header_found:
  assumes "lower k \<in> set (header_names name)" and "k \<noteq> []" and "v \<noteq> []"
  shows "header_lookup (HeaderDict [(k, v)]) name = Some v"
  using assms by (auto simp: header_lookup_def scan_headers_def present_def split: option.splits)

subsection \<open>The identity of a request\<close>

record obo =
  ob_token :: "string option"
  ob_host :: "string option"
  ob_user_id :: "string option"
  ob_user_email :: "string option"

definition as_text :: "(pyval \<Rightarrow> string) \<Rightarrow> pyval \<Rightarrow> string" where
  "as_text str v = (case v of PStr s \<Rightarrow> s | _ \<Rightarrow> str v)"

text \<open>A value taken from the body when it is truthy, else from elsewhere.\<close>

definition body_or :: "(pyval \<Rightarrow> string) \<Rightarrow> (string \<times> pyval) list \<Rightarrow> string \<Rightarrow> string option \<Rightarrow> string option" where
  "body_or str ci k other = (if truthy (pget ci k) then Some (as_text str (pget ci k)) else other)"

text \<open>The identity: inside an App the proxy's header wins when it is there.\<close>

definition identity_of :: "(pyval \<Rightarrow> string) \<Rightarrow> environ \<Rightarrow> (string \<times> pyval) list \<Rightarrow> string \<Rightarrow> string option \<Rightarrow> string option" where
  "identity_of str env ci k hdr =
     (case hdr of
        Some u \<Rightarrow> if in_databricks_app env then Some u else body_or str ci k hdr
      | None \<Rightarrow> body_or str ci k None)"

definition extract_obo_headers :: "(pyval \<Rightarrow> string) \<Rightarrow> environ \<Rightarrow> (string \<times> pyval) list option \<Rightarrow> headers \<Rightarrow> obo" where
  "extract_obo_headers str env custom hs =
     (let ci = (case custom of None \<Rightarrow> [] | Some d \<Rightarrow> d);
          workspace = present (env ''DATABRICKS_HOST'');
          forwarded = (if workspace = None \<and> \<not> in_databricks_app env then header_lookup hs ''X-Forwarded-Host'' else workspace)
      in \<lparr>ob_token = body_or str ci ''user_token'' (header_lookup hs ''X-Forwarded-Access-Token''),
          ob_host = body_or str ci ''workspace_host'' forwarded,
          ob_user_id = identity_of str env ci ''user_id'' (header_lookup hs ''X-Forwarded-User''),
          ob_user_email = identity_of str env ci ''user_email'' (header_lookup hs ''X-Forwarded-Email'')\<rparr>)"

text \<open>The dict it returns: unknown fields are left out.\<close>

definition obo_items :: "obo \<Rightarrow> (string \<times> pyval) list" where
  "obo_items ob =
     concat (map (\<lambda>(k, v). case v of None \<Rightarrow> [] | Some s \<Rightarrow> [(k, PStr s)])
       [(''user_token'', ob_token ob), (''workspace_host'', ob_host ob), (''user_id'', ob_user_id ob), (''user_email'', ob_user_email ob)])"

definition identity_keys :: "string list" where
  "identity_keys = [''user_id'', ''user_email'']"

definition apply_obo_item :: "string \<times> pyval \<Rightarrow> (string \<times> pyval) list \<Rightarrow> (string \<times> pyval) list" where
  "apply_obo_item kv ci =
     (if fst kv \<in> set identity_keys \<or> dget ci (fst kv) = None then dset (fst kv) (snd kv) ci else ci)"

definition apply_obo_to_custom_inputs :: "(string \<times> pyval) list \<Rightarrow> obo \<Rightarrow> (string \<times> pyval) list" where
  "apply_obo_to_custom_inputs ci ob = fold apply_obo_item (obo_items ob) ci"

subsection \<open>Session keys\<close>

definition scope_key :: "(pyval \<Rightarrow> string) \<Rightarrow> string \<Rightarrow> string \<Rightarrow> (string \<times> pyval) list \<Rightarrow> (string \<times> pyval) list" where
  "scope_key str ns key ci =
     (if truthy (pget ci key) then dset key (PStr (ns @ '':'' @ as_text str (pget ci key))) ci else ci)"

definition scope_session_key ::
  "(pyval \<Rightarrow> string) \<Rightarrow> (string \<Rightarrow> string) \<Rightarrow> (string \<times> pyval) list option \<Rightarrow> string option \<Rightarrow> (string \<times> pyval) list option" where
  "scope_session_key str hash custom who =
     (case (custom, who) of
        (Some ci, Some p) \<Rightarrow>
          if ci = [] \<or> p = [] then custom
          else Some (scope_key str (hash p) ''thread_id'' (scope_key str (hash p) ''session_id'' ci))
      | _ \<Rightarrow> custom)"

text \<open>
  The bridge of \<open>/invocations\<close>: the conversation id of the context is the default session id, and the
  identity is written over the body's.
\<close>

definition invocation_inputs ::
  "(pyval \<Rightarrow> string) \<Rightarrow> environ \<Rightarrow> (string \<times> pyval) list \<Rightarrow> (string \<times> pyval) list \<Rightarrow> headers \<Rightarrow> (string \<times> pyval) list" where
  "invocation_inputs str env custom context hs =
     (let ci = (if truthy (pget context ''conversation_id'') \<and> dget custom ''session_id'' = None
            then dset ''session_id'' (pget context ''conversation_id'') custom else custom)
      in apply_obo_to_custom_inputs ci (extract_obo_headers str env (Some ci) hs))"

text \<open>The inputs the chat agent runs a turn with.\<close>

definition turn_inputs ::
  "(pyval \<Rightarrow> string) \<Rightarrow> environ \<Rightarrow> (string \<Rightarrow> string) \<Rightarrow> (string \<times> pyval) list \<Rightarrow> (string \<times> pyval) list" where
  "turn_inputs str env hash ci =
     (case scope_session_key str hash (Some ci) (ob_user_id (extract_obo_headers str env (Some ci) NoHeaders)) of
        Some ci' \<Rightarrow> ci' | None \<Rightarrow> ci)"

text \<open>
  The Responses agent scopes the body's own inputs by the principal of the request, and prefers the thread id; the chat
  agent keys a conversation and its checkpoint by the session id alone.
\<close>

definition responses_inputs ::
  "(pyval \<Rightarrow> string) \<Rightarrow> environ \<Rightarrow> (string \<Rightarrow> string) \<Rightarrow> (string \<times> pyval) list \<Rightarrow> headers \<Rightarrow> (string \<times> pyval) list" where
  "responses_inputs str env hash ci hs =
     (case scope_session_key str hash (Some ci) (ob_user_id (extract_obo_headers str env (Some ci) hs)) of
        Some ci' \<Rightarrow> ci' | None \<Rightarrow> ci)"

definition responses_key :: "(string \<times> pyval) list \<Rightarrow> pyval" where
  "responses_key ci = py_or (pget ci ''thread_id'') (pget ci ''session_id'')"

definition chat_key :: "(string \<times> pyval) list \<Rightarrow> pyval" where
  "chat_key ci = pget ci ''session_id''"

subsection \<open>Workspace clients\<close>

datatype ws_client =
    UserClient string "string option"
  | ServiceClient
  | DefaultClient

definition make_app_client :: "environ \<Rightarrow> ws_client" where
  "make_app_client env =
     (if env_set env ''DATABRICKS_CLIENT_ID'' \<and> env_set env ''DATABRICKS_CLIENT_SECRET'' then ServiceClient else DefaultClient)"

record app_headers =
  ah_host :: "string option"
  ah_user_id :: "string option"
  ah_email :: "string option"
  ah_token :: "string option"

text \<open>The client of a tool route: \<open>None\<close> is the rejection.\<close>

definition obo_ws_from_headers :: "environ \<Rightarrow> app_headers \<Rightarrow> ws_client option" where
  "obo_ws_from_headers env hs =
     (case present (ah_token hs) of
        None \<Rightarrow> if resolve_no_obo env = IdentityRejected then None else Some (make_app_client env)
      | Some t \<Rightarrow> Some (UserClient t (if in_databricks_app env then None
            else map_option (\<lambda>h. ''https://'' @ h) (present (ah_host hs)))))"

text \<open>The client of the inventory pages; \<open>usable\<close> tells whether the SDK accepts the token, \<open>None\<close> is a 401.\<close>

definition ws_prefer_obo :: "environ \<Rightarrow> (string \<Rightarrow> bool) \<Rightarrow> string option \<Rightarrow> ws_client option" where
  "ws_prefer_obo env usable token =
     (let t = strip (case token of None \<Rightarrow> [] | Some t \<Rightarrow> t)
      in if t \<noteq> [] then
           (if usable t then Some (UserClient t None)
            else if in_databricks_app env then None else Some (make_app_client env))
         else if resolve_no_obo env = IdentityRejected then None else Some (make_app_client env))"

text \<open>The clients and the headers a compiled turn gets, from the chat agent and from the responses agent.\<close>

definition request_headers_of :: "obo \<Rightarrow> app_headers option" where
  "request_headers_of ob =
     (if ob_token ob \<noteq> None \<or> ob_user_id ob \<noteq> None
      then Some \<lparr>ah_host = ob_host ob, ah_user_id = ob_user_id ob, ah_email = ob_user_email ob, ah_token = ob_token ob\<rparr>
      else None)"

definition resolve_chat :: "(pyval \<Rightarrow> string) \<Rightarrow> environ \<Rightarrow> (string \<times> pyval) list option \<Rightarrow> ws_client option \<times> ws_client \<times> app_headers option" where
  "resolve_chat str env custom =
     (let ob = extract_obo_headers str env custom NoHeaders
      in (case present (ob_token ob) of
            Some t \<Rightarrow> Some (UserClient t (ob_host ob))
          | None \<Rightarrow> if in_databricks_app env then None else Some (make_app_client env),
          make_app_client env, request_headers_of ob))"

definition resolve_responses ::
  "(pyval \<Rightarrow> string) \<Rightarrow> environ \<Rightarrow> headers \<Rightarrow> (string \<times> pyval) list option \<Rightarrow> ws_client option \<times> ws_client \<times> app_headers option" where
  "resolve_responses str env hs custom =
     (let ob = extract_obo_headers str env custom hs
      in (case present (ob_token ob) of Some t \<Rightarrow> Some (UserClient t (ob_host ob)) | None \<Rightarrow> None,
          make_app_client env, request_headers_of ob))"

text \<open>A client built from an extracted identity: the errors are a missing token and a missing host.\<close>

definition make_obo_workspace_client :: "obo \<Rightarrow> string + ws_client" where
  "make_obo_workspace_client ob =
     (case (present (ob_token ob), present (ob_host ob)) of
        (None, _) \<Rightarrow> Inl ''user_token''
      | (Some t, None) \<Rightarrow> Inl ''workspace_host''
      | (Some t, Some h) \<Rightarrow> Inr (UserClient t (Some h)))"

subsection \<open>Outbound headers\<close>

definition apps_inbound_oauth_headers :: "string \<Rightarrow> string + (string \<times> string) list" where
  "apps_inbound_oauth_headers token =
     (if token = [] then Inl ''oauth_token is required to call a Databricks Apps URL''
      else if starts_with ''dapi'' token then Inl ''PAT cannot invoke a Databricks Apps URL (SSO). Use U2M or M2M OAuth.''
      else Inr [(''Authorization'', ''Bearer '' @ token)])"

definition remote_hop_headers :: "string option \<Rightarrow> string option \<Rightarrow> (string \<times> string) list" where
  "remote_hop_headers token host =
     (case present token of None \<Rightarrow> [] | Some t \<Rightarrow> [(''X-Forwarded-Access-Token'', t), (''Authorization'', ''Bearer '' @ t)])
     @ (case present host of None \<Rightarrow> [] | Some h \<Rightarrow> [(''X-Forwarded-Host'', h)])"

definition reauthorize_hint :: "string \<Rightarrow> string option" where
  "reauthorize_hint msg =
     (if \<not> str_contains ''required scopes'' msg \<and> \<not> str_contains ''Invalid scope'' msg then None
      else Some (msg @ [CHR 0x0A, CHR 0x0A] @ ''This is a stale OBO consent, not a missing bundle scope: the app'' @ [CHR 0x27]
        @ ''s forwarded-user token predates a newly-added user_api_scope. Re-authorize the app (open its URL in a browser and approve the ''
        @ ''permissions prompt) to mint a token that carries the new scope, then retry.''))"

subsection \<open>The proxy's word counts\<close>

lemma apply_obo_user: "ob_user_id ob = Some u \<Longrightarrow> dget (apply_obo_to_custom_inputs ci ob) ''user_id'' = Some (PStr u)"
  by (simp add: apply_obo_to_custom_inputs_def obo_items_def apply_obo_item_def identity_keys_def dict_simps
      split: option.split)

lemma proxied_user:
  "in_databricks_app env \<Longrightarrow> header_lookup hs ''X-Forwarded-User'' = Some u \<Longrightarrow> ob_user_id (extract_obo_headers str env ci hs) = Some u"
  by (simp add: extract_obo_headers_def identity_of_def Let_def)

lemma bridged_user:
  assumes "in_databricks_app env" and "header_lookup hs ''X-Forwarded-User'' = Some u"
  shows "ob_user_id (extract_obo_headers str env (Some (invocation_inputs str env ci context hs)) NoHeaders) = Some u"
    and "invocation_inputs str env ci context hs \<noteq> []"
proof -
  have u: "dget (invocation_inputs str env ci context hs) ''user_id'' = Some (PStr u)"
    by (simp add: invocation_inputs_def Let_def apply_obo_user proxied_user [OF assms])
  then show "invocation_inputs str env ci context hs \<noteq> []" by auto
  have "truthy (PStr u)" using header_lookup_nonempty [OF assms(2)] by simp
  with u show "ob_user_id (extract_obo_headers str env (Some (invocation_inputs str env ci context hs)) NoHeaders) = Some u"
    by (simp add: extract_obo_headers_def identity_of_def body_or_def as_text_def pget_def header_lookup_def Let_def)
qed

text \<open>A key that belongs to a user: none, or the hash of the user, a colon and the client's own id.\<close>

definition owned_key :: "string \<Rightarrow> pyval \<Rightarrow> bool" where
  "owned_key ns key \<longleftrightarrow> (truthy key \<longrightarrow> (\<exists>x. key = PStr (ns @ '':'' @ x)))"

lemma owned_py_or: "owned_key ns a \<Longrightarrow> owned_key ns b \<Longrightarrow> owned_key ns (py_or a b)"
  by (simp add: py_or_def)

lemma scope_key_owned:
  "owned_key ns (pget (scope_key str ns key ci) key)"
  "key' \<noteq> key \<Longrightarrow> pget (scope_key str ns key ci) key' = pget ci key'"
  by (auto simp: owned_key_def scope_key_def pget_def dict_simps)

lemma scoped_keys:
  assumes "u \<noteq> []" and "scope_session_key str hash (Some ci) (Some u) = Some ci'"
  shows "owned_key (hash u) (pget ci' ''session_id'') \<and> owned_key (hash u) (pget ci' ''thread_id'')"
proof (cases "ci = []")
  case True
  with assms have "ci' = []" by (simp add: scope_session_key_def)
  then show ?thesis by (simp add: owned_key_def pget_def)
next
  case False
  with assms have "ci' = scope_key str (hash u) ''thread_id'' (scope_key str (hash u) ''session_id'' ci)"
    by (simp add: scope_session_key_def)
  with scope_key_owned show ?thesis by simp
qed

lemma scope_returns: "\<exists>ci'. scope_session_key str hash (Some ci) who = Some ci'"
  by (simp add: scope_session_key_def split: option.split)

lemma prefix_until_colon:
  assumes "p @ CHR '':'' # x = q @ CHR '':'' # y" and "CHR '':'' \<notin> set p" and "CHR '':'' \<notin> set q"
  shows "p = q"
proof -
  have "takeWhile (\<lambda>c. c \<noteq> CHR '':'') (p @ CHR '':'' # x) = p" using assms(2) by (induction p) auto
  moreover have "takeWhile (\<lambda>c. c \<noteq> CHR '':'') (q @ CHR '':'' # y) = q" using assms(3) by (induction q) auto
  ultimately show ?thesis using assms(1) by simp
qed

lemma different_owners:
  assumes "owned_key ns1 k1" and "owned_key ns2 k2" and "ns1 \<noteq> ns2" and "CHR '':'' \<notin> set ns1" and "CHR '':'' \<notin> set ns2"
    and "truthy k1"
  shows "k1 \<noteq> k2"
proof
  assume e: "k1 = k2"
  with assms(1,2,6) obtain x y where "k1 = PStr (ns1 @ '':'' @ x)" "k2 = PStr (ns2 @ '':'' @ y)"
    unfolding owned_key_def by blast
  with e prefix_until_colon [of ns1 x ns2 y] assms(3-5) show False by simp
qed

text \<open>The keys a user's request can run under: of the chat agent behind \<open>/invocations\<close> and of the Responses agent, bridged or not.\<close>

definition request_keys ::
  "(pyval \<Rightarrow> string) \<Rightarrow> environ \<Rightarrow> (string \<Rightarrow> string) \<Rightarrow> (string \<times> pyval) list \<Rightarrow> (string \<times> pyval) list \<Rightarrow> headers \<Rightarrow> pyval list" where
  "request_keys str env hash body context hs =
     (let bridged = invocation_inputs str env body context hs
      in [chat_key (turn_inputs str env hash bridged), responses_key (responses_inputs str env hash bridged hs),
          responses_key (responses_inputs str env hash body hs)])"

lemma request_keys_owned:
  assumes "in_databricks_app env" and "header_lookup hs ''X-Forwarded-User'' = Some u"
  shows "list_all (owned_key (hash u)) (request_keys str env hash body ctx hs)"
proof -
  let ?in = "invocation_inputs str env body ctx hs"
  note ne = header_lookup_nonempty [OF assms(2)]
  have turn: "owned_key (hash u) (chat_key (turn_inputs str env hash ?in))"
  proof -
    obtain ci' where c: "scope_session_key str hash (Some ?in) (Some u) = Some ci'" using scope_returns by blast
    with bridged_user(1) [OF assms, of str body ctx] have "turn_inputs str env hash ?in = ci'" by (simp add: turn_inputs_def)
    with scoped_keys [OF ne c] show ?thesis by (simp add: chat_key_def)
  qed
  have resp: "owned_key (hash u) (responses_key (responses_inputs str env hash ci hs))" for ci
  proof -
    obtain ci' where c: "scope_session_key str hash (Some ci) (Some u) = Some ci'" using scope_returns by blast
    with proxied_user [OF assms] have "responses_inputs str env hash ci hs = ci'" by (simp add: responses_inputs_def)
    with scoped_keys [OF ne c] owned_py_or show ?thesis by (simp add: responses_key_def)
  qed
  from turn resp show ?thesis by (simp add: request_keys_def Let_def)
qed

text \<open>
  C10: In a deployed App the two users the proxy names never meet on one session: whatever user id, session id, thread
  id or conversation id their bodies carry, each turn runs under the proxy's user, and no key the chat agent or the
  Responses agent keeps a conversation and its checkpoint under - the session id there, the thread id before the session
  id here - is the same for both, where hashes of the two users differ and hold no colon.
\<close>

theorem users_never_share_a_session:
  assumes "in_databricks_app env"
    and "header_lookup hs1 ''X-Forwarded-User'' = Some u1" and "header_lookup hs2 ''X-Forwarded-User'' = Some u2"
    and "hash u1 \<noteq> hash u2" and "CHR '':'' \<notin> set (hash u1)" and "CHR '':'' \<notin> set (hash u2)"
  shows "ob_user_id (extract_obo_headers str env (Some (invocation_inputs str env body ctx hs1)) NoHeaders) = Some u1
    \<and> ob_user_id (extract_obo_headers str env (Some body) hs1) = Some u1
    \<and> list_all (\<lambda>key. truthy key \<longrightarrow> key \<notin> set (request_keys str env hash body' ctx' hs2)) (request_keys str env hash body ctx hs1)"
proof -
  have "key \<notin> set (request_keys str env hash body' ctx' hs2)" if "key \<in> set (request_keys str env hash body ctx hs1)" "truthy key" for key
    using different_owners [OF _ _ assms(4-6) that(2)] that(1)
      request_keys_owned [OF assms(1,2)] request_keys_owned [OF assms(1,3)] by (metis list_all_iff)
  with bridged_user(1) [OF assms(1,2)] proxied_user [OF assms(1,2)] show ?thesis by (simp add: list_all_iff)
qed

definition demo_app :: environ where
  "demo_app k = (if k = ''DATABRICKS_APP_NAME'' then Some ''shop'' else None)"

definition demo_user :: "string \<Rightarrow> headers" where
  "demo_user u = FoldedHeaders [(''x-forwarded-user'', u)]"

definition demo_body :: "(string \<times> pyval) list" where
  "demo_body = [(''session_id'', PStr ''s''), (''thread_id'', PStr ''t''), (''user_id'', PStr ''ann'')]"

theorem users_never_share_a_session_witness:
  "request_keys (\<lambda>v. []) demo_app id demo_body [] (demo_user ''ann'') = [PStr ''ann:s'', PStr ''ann:t'', PStr ''ann:t'']
   \<and> PStr ''ann:t'' \<notin> set (request_keys (\<lambda>v. []) demo_app id demo_body [] (demo_user ''bob''))"
proof -
  have app: "in_databricks_app demo_app" by code_simp
  have u: "header_lookup (demo_user ''ann'') ''X-Forwarded-User'' = Some ''ann''"
    "header_lookup (demo_user ''bob'') ''X-Forwarded-User'' = Some ''bob''" by code_simp+
  have k: "request_keys (\<lambda>v. []) demo_app id demo_body [] (demo_user ''ann'') = [PStr ''ann:s'', PStr ''ann:t'', PStr ''ann:t'']"
    by code_simp
  from users_never_share_a_session [OF app u, where hash = id and str = "\<lambda>v. []" and body = demo_body and body' = demo_body and ctx = "[]" and ctx' = "[]"]
  have "list_all (\<lambda>key. truthy key \<longrightarrow> key \<notin> set (request_keys (\<lambda>v. []) demo_app id demo_body [] (demo_user ''bob'')))
      [PStr ''ann:s'', PStr ''ann:t'', PStr ''ann:t'']" by (simp add: k [symmetric])
  with k show ?thesis by simp
qed

text \<open>
  Without a principal the key is the client's own: a request that has none can name another user's scoped
  session.  Outside an App that is local development; inside one it takes the service principal fallback.
\<close>

lemma unscoped_request_names_scoped_session:
  "scope_session_key str hash (Some ci) None = Some ci"
  by (simp add: scope_session_key_def)

subsection \<open>No token, no client\<close>

text \<open>
  In a deployed App that did not opt into the service principal, no route hands a tool a user client that
  is not built from a user token: a request without one is rejected, or gets no user client.
\<close>

theorem tools_never_run_as_the_app:
  assumes "in_databricks_app env" and "\<not> sp_fallback_allowed env"
    and "obo_ws_from_headers env ah = Some c \<or> ws_prefer_obo env usable token = Some c
      \<or> fst (resolve_chat str env custom) = Some c \<or> fst (resolve_responses str env hs custom) = Some c"
  shows "\<exists>t host. c = UserClient t host \<and> t \<noteq> []"
proof -
  have r: "resolve_no_obo env = IdentityRejected" using assms(1,2) by (simp add: resolve_no_obo_def)
  have p: "present v = Some t \<Longrightarrow> t \<noteq> []" for v t by (auto simp: present_def split: option.splits if_splits)
  from assms(3) show ?thesis
  proof (elim disjE)
    assume "obo_ws_from_headers env ah = Some c"
    then show ?thesis using r p by (auto simp: obo_ws_from_headers_def split: option.splits)
  next
    assume "ws_prefer_obo env usable token = Some c"
    then show ?thesis using r assms(1) by (auto simp: ws_prefer_obo_def Let_def split: if_splits)
  next
    assume "fst (resolve_chat str env custom) = Some c"
    then show ?thesis using assms(1) p by (auto simp: resolve_chat_def Let_def split: option.splits)
  next
    assume "fst (resolve_responses str env hs custom) = Some c"
    then show ?thesis using p by (auto simp: resolve_responses_def Let_def split: option.splits)
  qed
qed

theorem tools_never_run_as_the_app_witness:
  "(\<exists>t host. ws_prefer_obo demo_app (\<lambda>t. True) (Some '' tok '') = Some (UserClient t host) \<and> t \<noteq> [])
    \<and> ws_prefer_obo demo_app (\<lambda>t. True) (Some '' '') = None"
proof -
  have a: "in_databricks_app demo_app" "\<not> sp_fallback_allowed demo_app" by code_simp+
  have c: "ws_prefer_obo demo_app (\<lambda>t. True) (Some '' tok '') = Some (UserClient ''tok'' None)" by code_simp
  have "ws_prefer_obo demo_app (\<lambda>t. True) (Some '' '') = None" by code_simp
  with c tools_never_run_as_the_app [OF a disjI2 [OF disjI1 [OF c]]] show ?thesis by auto
qed

text \<open>
  The opt-in reaches the tool routes, but not a compiled turn: its user client stays \<open>None\<close>.
\<close>

lemma fallback_does_not_reach_compiled_turns:
  "in_databricks_app env \<Longrightarrow> present (ob_token (extract_obo_headers str env custom NoHeaders)) = None
    \<Longrightarrow> fst (resolve_chat str env custom) = None"
  by (simp add: resolve_chat_def Let_def)

text \<open>An object with a \<open>get\<close> method only is never asked: its wrapper has length 0, so it reads as no headers.\<close>

lemma getter_only_headers_are_ignored: "header_lookup (GetterOnly g) name = None"
  by (simp add: header_lookup_def)

text \<open>What is forwarded on a hop is read back as the caller's token on the other side.\<close>

lemma remote_hop_round_trip:
  "token \<noteq> [] \<Longrightarrow> header_lookup (HeaderDict (remote_hop_headers (Some token) host)) ''X-Forwarded-Access-Token'' = Some token"
  by (simp add: header_lookup_def remote_hop_headers_def present_def)

end
