(* ===== verification/Task_Surface.thy ===== *)
theory Task_Surface
  imports Caller_Identity
begin

text \<open>
  The task surface agents call each other through (\<open>_a2a.py\<close>, \<open>_a2a_models.py\<close>): JSON-RPC envelopes, the
  bounded store of tasks with their owners, \<open>message/send\<close>, \<open>tasks/get\<close> and \<open>tasks/cancel\<close>.

  The chat agent, the JSON parser's result, generated ids, the clock, pydantic's lax conversion to an
  integer, its check of a list of data parts, and \<open>repr\<close>/\<open>str\<close> of a value are parameters.  Diagnostics in
  the \<open>data\<close> of an error are left out.
\<close>

subsection \<open>Messages and tasks\<close>

datatype task_state = Submitted | Working | InputRequired | TaskCompleted | Canceled | TaskFailed | RejectedTask | UnknownState

datatype part =
    TextPart string
  | DataPart "(string \<times> pyval) list" "(string \<times> pyval) list option"

record message =
  m_role :: string
  m_parts :: "part list"
  m_id :: string
  m_task_id :: "string option"
  m_context_id :: "string option"

record artifact =
  art_id :: string
  art_parts :: "part list"

record task_status =
  ts_state :: task_state
  ts_timestamp :: "string option"
  ts_message :: "message option"

record task =
  t_id :: string
  t_context_id :: string
  t_status :: task_status
  t_history :: "message list"
  t_artifacts :: "artifact list"

definition message_text :: "message \<Rightarrow> string" where
  "message_text m = concat (map (\<lambda>p. case p of TextPart t \<Rightarrow> t | DataPart d md \<Rightarrow> []) (m_parts m))"

subsection \<open>The store\<close>

record task_store =
  st_max :: nat
  st_entries :: "(string \<times> (task \<times> string option)) list"

definition max_tasks :: nat where
  "max_tasks = 100"

definition new_store :: "nat \<Rightarrow> task_store" where
  "new_store n = \<lparr>st_max = n, st_entries = []\<rparr>"

text \<open>The loop that evicts the oldest entries.\<close>

fun evict :: "nat \<Rightarrow> 'a list \<Rightarrow> 'a list" where
  "evict n [] = []"
| "evict n (x # xs) = (if n < length (x # xs) then evict n xs else x # xs)"

definition put :: "task \<Rightarrow> string option \<Rightarrow> task_store \<Rightarrow> task_store" where
  "put t owner s = s\<lparr>st_entries := evict (st_max s) (move_to_end (t_id t) (dset (t_id t) (t, owner) (st_entries s)))\<rparr>"

definition get_task :: "string \<Rightarrow> string option \<Rightarrow> task_store \<Rightarrow> task option" where
  "get_task i caller s =
     (case dget (st_entries s) i of
        None \<Rightarrow> None
      | Some (t, owner) \<Rightarrow> if owner \<noteq> caller then None else Some t)"

subsection \<open>Envelopes and parameters\<close>

datatype rpc_id = IdNone | IdText string | IdNumber int

type_synonym lax_int = "pyval \<Rightarrow> int option"

definition parse_rpc_id :: "lax_int \<Rightarrow> pyval \<Rightarrow> rpc_id option" where
  "parse_rpc_id lax v =
     (case v of
        PNone \<Rightarrow> Some IdNone
      | PStr s \<Rightarrow> Some (IdText s)
      | PInt n \<Rightarrow> Some (IdNumber n)
      | _ \<Rightarrow> map_option IdNumber (lax v))"

record rpc_request =
  rq_id :: rpc_id
  rq_method :: string
  rq_params :: "(string \<times> pyval) list"

text \<open>A missing \<open>jsonrpc\<close> is the default \<open>2.0\<close>; \<open>params\<close> that are missing, null or empty are \<open>{}\<close>.\<close>

definition parse_rpc :: "lax_int \<Rightarrow> (string \<times> pyval) list \<Rightarrow> rpc_request option" where
  "parse_rpc lax raw =
     (case (dget raw ''jsonrpc'', parse_rpc_id lax (pget raw ''id''), dget raw ''method'', pget raw ''params'') of
        (version, Some i, Some (PStr m), params) \<Rightarrow>
          if version \<noteq> None \<and> version \<noteq> Some (PStr ''2.0'') then None
          else (case params of
              PNone \<Rightarrow> Some \<lparr>rq_id = i, rq_method = m, rq_params = []\<rparr>
            | PDict d \<Rightarrow> Some \<lparr>rq_id = i, rq_method = m, rq_params = d\<rparr>
            | _ \<Rightarrow> None)
      | _ \<Rightarrow> None)"

definition opt_text :: "pyval \<Rightarrow> string option option" where
  "opt_text v = (case v of PNone \<Rightarrow> Some None | PStr s \<Rightarrow> Some (Some s) | _ \<Rightarrow> None)"

definition kind_is :: "string \<Rightarrow> (string \<times> pyval) list \<Rightarrow> bool" where
  "kind_is k d \<longleftrightarrow> dget d ''kind'' = None \<or> dget d ''kind'' = Some (PStr k)"

text \<open>A part that fits both models is the one with more of its fields given, the text part on a tie.\<close>

definition parse_part :: "pyval \<Rightarrow> part option" where
  "parse_part v =
     (case v of
        PDict d \<Rightarrow>
          (let text = (case dget d ''text'' of Some (PStr s) \<Rightarrow> if kind_is ''text'' d then Some (TextPart s) else None | _ \<Rightarrow> None);
               data = (case (dget d ''data'', pget d ''metadata'') of
                   (Some (PDict x), PNone) \<Rightarrow> if kind_is ''data'' d then Some (DataPart x None) else None
                 | (Some (PDict x), PDict md) \<Rightarrow> if kind_is ''data'' d then Some (DataPart x (Some md)) else None
                 | _ \<Rightarrow> None)
           in case (text, data) of
                (None, p) \<Rightarrow> p
              | (p, None) \<Rightarrow> p
              | (Some p, Some q) \<Rightarrow> Some (if dget d ''metadata'' = None then p else q))
      | _ \<Rightarrow> None)"

fun map_opt :: "('a \<Rightarrow> 'b option) \<Rightarrow> 'a list \<Rightarrow> 'b list option" where
  "map_opt f [] = Some []"
| "map_opt f (x # xs) = (case (f x, map_opt f xs) of (Some y, Some ys) \<Rightarrow> Some (y # ys) | _ \<Rightarrow> None)"

definition parse_message :: "pyval \<Rightarrow> message option" where
  "parse_message v =
     (case v of
        PDict d \<Rightarrow>
          (case (dget d ''role'', dget d ''parts'', dget d ''messageId'', opt_text (pget d ''taskId''), opt_text (pget d ''contextId'')) of
             (Some (PStr role), Some (PList ps), Some (PStr i), Some t, Some c) \<Rightarrow>
               (case map_opt parse_part ps of
                  Some parts \<Rightarrow>
                    if kind_is ''message'' d then Some \<lparr>m_role = role, m_parts = parts, m_id = i, m_task_id = t, m_context_id = c\<rparr> else None
                | None \<Rightarrow> None)
           | _ \<Rightarrow> None)
      | _ \<Rightarrow> None)"

definition parse_send :: "(string \<times> pyval) list \<Rightarrow> (message \<times> (string \<times> pyval) list) option" where
  "parse_send params =
     (case (parse_message (pget params ''message''), pget params ''configuration'') of
        (Some m, PNone) \<Rightarrow> Some (m, [])
      | (Some m, PDict cfg) \<Rightarrow> Some (m, cfg)
      | _ \<Rightarrow> None)"

definition parse_task_id :: "(string \<times> pyval) list \<Rightarrow> string option" where
  "parse_task_id params = (case dget params ''id'' of Some (PStr s) \<Rightarrow> Some s | _ \<Rightarrow> None)"

definition parse_task_query :: "lax_int \<Rightarrow> (string \<times> pyval) list \<Rightarrow> string option" where
  "parse_task_query lax params =
     (if pget params ''historyLength'' = PNone \<or> lax (pget params ''historyLength'') \<noteq> None then parse_task_id params else None)"

subsection \<open>Sending a message\<close>

record response =
  rs_messages :: "(string \<times> string) list"
  rs_custom :: "(string \<times> pyval) list"

text \<open>The chat agent: is a thread paused, and a turn.  Either may raise.\<close>

record 'w chat_agent =
  ca_interrupt :: "string \<Rightarrow> (string \<times> pyval) list \<Rightarrow> 'w \<Rightarrow> (string + pyval) \<times> 'w"
  ca_predict :: "(string \<times> string) list \<Rightarrow> (string \<times> pyval) list \<Rightarrow> 'w \<Rightarrow> (string + response) \<times> 'w"

record 'w surface =
  su_agent :: "'w chat_agent"
  su_env :: environ
  su_str :: "pyval \<Rightarrow> string"
  su_repr :: "pyval \<Rightarrow> string"
  su_lax :: lax_int
  su_parts :: "pyval \<Rightarrow> part list option"
  su_uuid :: "nat \<Rightarrow> string"

record 'w world =
  w_store :: task_store
  w_next :: nat
  w_agent :: 'w

definition part_value :: "part \<Rightarrow> pyval option" where
  "part_value p =
     (case p of
        TextPart t \<Rightarrow> None
      | DataPart d md \<Rightarrow> Some (PDict ([(''kind'', PStr ''data''), (''data'', PDict d)] @
          (case md of None \<Rightarrow> [] | Some m \<Rightarrow> [(''metadata'', PDict m)]))))"

definition data_parts :: "'w surface \<Rightarrow> (string \<times> pyval) list \<Rightarrow> string + part list" where
  "data_parts su custom =
     (case dget custom ''apx_data_parts'' of
        None \<Rightarrow> Inr []
      | Some v \<Rightarrow> (case su_parts su v of
          None \<Rightarrow> Inl ''Invalid apx_data_parts: expected a list of JSON DataParts''
        | Some ps \<Rightarrow> Inr ps))"

definition reply_text :: "response \<Rightarrow> string" where
  "reply_text r = (case find (\<lambda>(role, content). role = ''assistant'' \<and> content \<noteq> []) (rev (rs_messages r)) of
     None \<Rightarrow> [] | Some (role, content) \<Rightarrow> content)"

definition approval_ask_text :: "'w surface \<Rightarrow> pyval \<Rightarrow> string" where
  "approval_ask_text su payload =
     (let tool = (case payload of PDict d \<Rightarrow> pget d ''tool_name'' | _ \<Rightarrow> PNone);
          reason = (case payload of PDict d \<Rightarrow> pget d ''reason'' | _ \<Rightarrow> PNone)
      in ''Approval required to run '' @ su_repr su tool
         @ (if truthy reason then '': '' @ as_text (su_str su) reason else [])
         @ ''. Resume by sending message/send on the same contextId with configuration={'' @ [CHR 0x27] @ ''apx_resume'' @ [CHR 0x27]
         @ '': '' @ [CHR 0x27] @ ''approve'' @ [CHR 0x27] @ '' or '' @ [CHR 0x27] @ ''deny'' @ [CHR 0x27] @ ''}.'')"

definition send_inputs :: "'w surface \<Rightarrow> headers \<Rightarrow> message \<Rightarrow> string \<Rightarrow> (string \<times> pyval) list" where
  "send_inputs su hs msg ctx =
     (let ci = obo_items (extract_obo_headers (su_str su) (su_env su) None hs) @ [(''session_id'', PStr ctx)];
          inbound = List.map_filter part_value (m_parts msg)
      in if inbound \<noteq> [] then ci @ [(''apx_data_parts'', PList inbound)] else ci)"

definition owner_of :: "'w surface \<Rightarrow> headers \<Rightarrow> string option" where
  "owner_of su hs = ob_user_id (extract_obo_headers (su_str su) (su_env su) None hs)"

text \<open>The decision a turn resumes with: the client's, when the thread is paused.\<close>

definition resume_value :: "'w surface \<Rightarrow> string \<Rightarrow> (string \<times> pyval) list \<Rightarrow> (string \<times> pyval) list \<Rightarrow> 'w \<Rightarrow> (string + pyval) \<times> 'w" where
  "resume_value su ctx ci cfg w =
     (if pget cfg ''apx_resume'' = PNone then (Inr PNone, w)
      else (case ca_interrupt (su_agent su) ctx ci w of
          (Inl e, w') \<Rightarrow> (Inl e, w')
        | (Inr pending, w') \<Rightarrow> (Inr (if pending = PNone then PNone else pget cfg ''apx_resume''), w')))"

text \<open>Up to the response or the exception; the pair of an error's text and the agent's world.\<close>

definition run_turn :: "'w surface \<Rightarrow> string \<Rightarrow> (string \<times> pyval) list \<Rightarrow> message \<Rightarrow> (string \<times> pyval) list \<Rightarrow> 'w \<Rightarrow> (string + response) \<times> 'w" where
  "run_turn su ctx ci msg cfg w =
     (case resume_value su ctx ci cfg w of
        (Inl e, w') \<Rightarrow> (Inl e, w')
      | (Inr r, w') \<Rightarrow>
          if r \<noteq> PNone then ca_predict (su_agent su) [] (ci @ [(''resume'', r)]) w'
          else ca_predict (su_agent su) [(''user'', message_text msg)] ci w')"

definition agent_message :: "part list \<Rightarrow> string \<Rightarrow> string \<Rightarrow> string \<Rightarrow> message" where
  "agent_message ps i task_id ctx = \<lparr>m_role = ''agent'', m_parts = ps, m_id = i, m_task_id = Some task_id, m_context_id = Some ctx\<rparr>"

text \<open>The task a turn ends in, and how many ids it took.\<close>

definition turn_task ::
  "'w surface \<Rightarrow> string \<Rightarrow> string \<Rightarrow> string \<Rightarrow> message \<Rightarrow> nat \<Rightarrow> string + response \<Rightarrow> task \<times> nat" where
  "turn_task su now ctx task_id inbound n result =
     (let ids = su_uuid su;
          failed = (\<lambda>e n. (\<lparr>t_id = task_id, t_context_id = ctx,
              t_status = \<lparr>ts_state = TaskFailed, ts_timestamp = Some now, ts_message = Some (agent_message [TextPart e] (ids n) task_id ctx)\<rparr>,
              t_history = [inbound], t_artifacts = []\<rparr>, Suc n))
      in case result of
           Inl e \<Rightarrow> failed e n
         | Inr r \<Rightarrow>
             (let approval = pget (rs_custom r) ''approval_required''
              in if approval \<noteq> PNone then
                   (let ask = agent_message [TextPart (approval_ask_text su approval)] (ids n) task_id ctx
                    in (\<lparr>t_id = task_id, t_context_id = ctx,
                         t_status = \<lparr>ts_state = InputRequired, ts_timestamp = Some now, ts_message = Some ask\<rparr>,
                         t_history = [inbound, ask], t_artifacts = []\<rparr>, Suc n))
                 else (case data_parts su (rs_custom r) of
                     Inl e \<Rightarrow> failed e n
                   | Inr ps \<Rightarrow>
                       (let parts = TextPart (reply_text r) # ps
                        in (\<lparr>t_id = task_id, t_context_id = ctx,
                             t_status = \<lparr>ts_state = TaskCompleted, ts_timestamp = Some now, ts_message = None\<rparr>,
                             t_history = [inbound, agent_message parts (ids n) task_id ctx],
                             t_artifacts = [\<lparr>art_id = ids (Suc n), art_parts = parts\<rparr>]\<rparr>, Suc (Suc n))))))"

definition run_message_send ::
  "'w surface \<Rightarrow> headers \<Rightarrow> string \<Rightarrow> message \<Rightarrow> (string \<times> pyval) list \<Rightarrow> 'w world \<Rightarrow> task \<times> 'w world" where
  "run_message_send su hs now msg cfg wd =
     (let n0 = w_next wd;
          given = (case m_context_id msg of None \<Rightarrow> None | Some c \<Rightarrow> if c = [] then None else Some c);
          (ctx, n1) = (case given of Some c \<Rightarrow> (c, n0) | None \<Rightarrow> (su_uuid su n0, Suc n0));
          task_id = su_uuid su n1;
          ci = send_inputs su hs msg ctx;
          inbound = msg\<lparr>m_task_id := Some task_id, m_context_id := Some ctx\<rparr>;
          (result, w') = run_turn su ctx ci msg cfg (w_agent wd);
          (t, n2) = turn_task su now ctx task_id inbound (Suc n1) result
      in (t, \<lparr>w_store = put t (owner_of su hs) (w_store wd), w_next = n2, w_agent = w'\<rparr>))"

subsection \<open>The endpoint\<close>

datatype rpc_result = RpcError int string | RpcResult task

text \<open>What the client gets: a body, nothing (204), or the host's error page.\<close>

datatype http_reply = Body rpc_id rpc_result | NoContent | ServerError

definition dispatch ::
  "'w surface \<Rightarrow> headers \<Rightarrow> string \<Rightarrow> string \<Rightarrow> (string \<times> pyval) list \<Rightarrow> 'w world \<Rightarrow> rpc_result \<times> 'w world" where
  "dispatch su hs now meth params wd =
     (if meth = ''message/send'' then
        (case parse_send params of
           None \<Rightarrow> (RpcError (-32602) ''Invalid params'', wd)
         | Some (msg, cfg) \<Rightarrow> (case run_message_send su hs now msg cfg wd of (t, wd') \<Rightarrow> (RpcResult t, wd')))
      else if meth = ''tasks/get'' then
        (case parse_task_query (su_lax su) params of
           None \<Rightarrow> (RpcError (-32602) ''Invalid params'', wd)
         | Some i \<Rightarrow>
             (case get_task i (owner_of su hs) (w_store wd) of
                None \<Rightarrow> (RpcError (-32001) ''Task not found'', wd)
              | Some t \<Rightarrow> (RpcResult t, wd)))
      else if meth = ''tasks/cancel'' then
        (case parse_task_id params of
           None \<Rightarrow> (RpcError (-32602) ''Invalid params'', wd)
         | Some i \<Rightarrow>
             (case get_task i (owner_of su hs) (w_store wd) of
                None \<Rightarrow> (RpcError (-32001) ''Task not found'', wd)
              | Some t \<Rightarrow> (RpcError (-32002) ''Task is not cancelable'', wd)))
      else (RpcError (-32601) (''Method not found: '' @ meth), wd))"

text \<open>
  \<open>raw\<close> is the parsed body, \<open>None\<close> when it is no JSON.  The error for a bad envelope repeats its id, which has to
  be a valid id itself, or building the error raises.
\<close>

definition a2a_jsonrpc :: "'w surface \<Rightarrow> headers \<Rightarrow> string \<Rightarrow> pyval option \<Rightarrow> 'w world \<Rightarrow> http_reply \<times> 'w world" where
  "a2a_jsonrpc su hs now raw wd =
     (case raw of
        None \<Rightarrow> (Body IdNone (RpcError (-32700) ''Parse error: invalid JSON''), wd)
      | Some (PDict d) \<Rightarrow>
          (case parse_rpc (su_lax su) d of
             None \<Rightarrow>
               (case parse_rpc_id (su_lax su) (pget d ''id'') of
                  None \<Rightarrow> (ServerError, wd)
                | Some i \<Rightarrow> (Body i (RpcError (-32600) ''Invalid Request''), wd))
           | Some rpc \<Rightarrow>
               (case dispatch su hs now (rq_method rpc) (rq_params rpc) wd of
                  (res, wd') \<Rightarrow> (if dget d ''id'' = None then NoContent else Body (rq_id rpc) res, wd')))
      | Some v \<Rightarrow> (Body IdNone (RpcError (-32600) ''Invalid Request''), wd))"

text \<open>A server's life: it starts with an empty store and answers requests.\<close>

fun serve :: "'w surface \<Rightarrow> (headers \<times> string \<times> pyval option) list \<Rightarrow> 'w world \<Rightarrow> 'w world" where
  "serve su [] wd = wd"
| "serve su ((hs, now, raw) # rs) wd = serve su rs (snd (a2a_jsonrpc su hs now raw wd))"

definition fresh_world :: "'w \<Rightarrow> 'w world" where
  "fresh_world w = \<lparr>w_store = new_store max_tasks, w_next = 0, w_agent = w\<rparr>"

subsection \<open>The store's invariant\<close>

lemma evict_py_last: "evict n xs = py_last n xs"
proof (induction xs)
  case (Cons x xs)
  then show ?case by (auto simp: py_last_def Suc_diff_le)
qed (simp add: py_last_def)

lemma set_py_last: "set (py_last n xs) \<subseteq> set xs"
  by (simp add: py_last_def set_drop_subset)

lemma dict_wf_py_last: "dict_wf d \<Longrightarrow> dict_wf (py_last n d)"
  by (simp add: dict_wf_def py_last_def drop_map [symmetric] distinct_drop)

lemma put_entries:
  "dget (st_entries s) (t_id t) = None \<Longrightarrow> st_entries (put t o' s) = py_last (st_max s) (st_entries s @ [(t_id t, (t, o'))])"
proof -
  assume n: "dget (st_entries s) (t_id t) = None"
  then have "ddel (t_id t) (st_entries s) = st_entries s" by (simp add: dget_None_iff AList.delete_idem)
  then show ?thesis by (simp add: put_def evict_py_last move_to_end_dset)
qed

definition store_ok :: "'w surface \<Rightarrow> 'w world \<Rightarrow> bool" where
  "store_ok su wd \<longleftrightarrow> dict_wf (st_entries (w_store wd)) \<and> st_max (w_store wd) = max_tasks
     \<and> length (st_entries (w_store wd)) \<le> max_tasks
     \<and> fst ` set (st_entries (w_store wd)) \<subseteq> su_uuid su ` {..<w_next wd}"

text \<open>A task that is made takes an id no entry has.\<close>

lemma turn_task_id: "turn_task su now ctx task_id inbound n result = (t, n2) \<Longrightarrow> t_id t = task_id \<and> n \<le> n2"
  by (auto simp: turn_task_def Let_def split: sum.splits if_splits)

lemma send_step:
  assumes "store_ok su wd" and "inj (su_uuid su)" and "run_message_send su hs now msg cfg wd = (t, wd')"
  shows "store_ok su wd' \<and> dget (st_entries (w_store wd)) (t_id t) = None
    \<and> st_entries (w_store wd') = py_last max_tasks (st_entries (w_store wd) @ [(t_id t, (t, owner_of su hs))])"
proof -
  obtain n1 where t: "t_id t = su_uuid su n1" "w_next wd \<le> n1" "Suc n1 \<le> w_next wd'" "w_store wd' = put t (owner_of su hs) (w_store wd)"
    using assms(3) turn_task_id
    by (fastforce simp: run_message_send_def Let_def split: prod.splits option.splits if_splits)
  have new: "t_id t \<notin> fst ` set (st_entries (w_store wd))"
  proof
    assume "t_id t \<in> fst ` set (st_entries (w_store wd))"
    then obtain n where "su_uuid su n1 = su_uuid su n" "n < w_next wd" using assms(1) t(1) by (auto simp: store_ok_def)
    with t(2) injD [OF assms(2)] show False by fastforce
  qed
  then have none: "dget (st_entries (w_store wd)) (t_id t) = None" by (simp add: dget_None_iff)
  have e: "st_entries (w_store wd') = py_last max_tasks (st_entries (w_store wd) @ [(t_id t, (t, owner_of su hs))])"
    using put_entries [OF none] assms(1) t(4) by (simp add: store_ok_def)
  have "dict_wf (st_entries (w_store wd) @ [(t_id t, (t, owner_of su hs))])"
    using assms(1) new by (simp add: store_ok_def dict_wf_def)
  then have "dict_wf (st_entries (w_store wd'))" unfolding e by (rule dict_wf_py_last)
  moreover have "st_max (w_store wd') = max_tasks" using assms(1) t(4) by (simp add: store_ok_def put_def)
  moreover have "length (st_entries (w_store wd')) \<le> max_tasks" unfolding e by (simp add: length_py_last)
  moreover have "fst ` set (st_entries (w_store wd')) \<subseteq> su_uuid su ` {..<w_next wd'}"
  proof -
    have "fst ` set (st_entries (w_store wd')) \<subseteq> insert (t_id t) (fst ` set (st_entries (w_store wd)))"
      unfolding e using set_py_last [of max_tasks "st_entries (w_store wd) @ [(t_id t, (t, owner_of su hs))]"] by auto
    also have "\<dots> \<subseteq> su_uuid su ` {..<w_next wd'}"
      using assms(1) t(1,2,3) by (force simp: store_ok_def)
    finally show ?thesis .
  qed
  ultimately show ?thesis using none e by (simp add: store_ok_def)
qed

lemma dispatch_world:
  "snd (dispatch su hs now meth params wd) = wd
    \<or> (\<exists>msg cfg. snd (dispatch su hs now meth params wd) = snd (run_message_send su hs now msg cfg wd))"
proof (cases "meth = ''message/send''")
  case True
  show ?thesis
  proof (cases "parse_send params")
    case None
    then show ?thesis using True by (simp add: dispatch_def)
  next
    case (Some mc)
    then have "snd (dispatch su hs now meth params wd) = snd (run_message_send su hs now (fst mc) (snd mc) wd)"
      using True by (simp add: dispatch_def split: prod.split)
    then show ?thesis by blast
  qed
next
  case False
  then show ?thesis by (simp add: dispatch_def split: option.split)
qed

lemma request_world:
  "snd (a2a_jsonrpc su hs now raw wd) = wd
    \<or> (\<exists>msg cfg. snd (a2a_jsonrpc su hs now raw wd) = snd (run_message_send su hs now msg cfg wd))"
proof -
  have "snd (a2a_jsonrpc su hs now raw wd) = wd
      \<or> (\<exists>meth params. snd (a2a_jsonrpc su hs now raw wd) = snd (dispatch su hs now meth params wd))"
  proof (cases "\<exists>d rpc. raw = Some (PDict d) \<and> parse_rpc (su_lax su) d = Some rpc")
    case True
    then obtain d rpc where "raw = Some (PDict d)" "parse_rpc (su_lax su) d = Some rpc" by blast
    then have "snd (a2a_jsonrpc su hs now raw wd) = snd (dispatch su hs now (rq_method rpc) (rq_params rpc) wd)"
      by (simp add: a2a_jsonrpc_def split: prod.split)
    then show ?thesis by blast
  next
    case False
    then have "snd (a2a_jsonrpc su hs now raw wd) = wd"
      by (auto simp: a2a_jsonrpc_def split: option.split pyval.split)
    then show ?thesis by blast
  qed
  with dispatch_world [of su hs now _ _ wd] show ?thesis by metis
qed

text \<open>A request leaves the store alone or appends one new task.\<close>

lemma request_step:
  assumes "store_ok su wd" and "inj (su_uuid su)"
  shows "store_ok su (snd (a2a_jsonrpc su hs now raw wd))
    \<and> (w_store (snd (a2a_jsonrpc su hs now raw wd)) = w_store wd
       \<or> (\<exists>t. dget (st_entries (w_store wd)) (t_id t) = None
           \<and> st_entries (w_store (snd (a2a_jsonrpc su hs now raw wd)))
             = py_last max_tasks (st_entries (w_store wd) @ [(t_id t, (t, owner_of su hs))])))"
proof -
  consider "snd (a2a_jsonrpc su hs now raw wd) = wd"
    | msg cfg where "snd (a2a_jsonrpc su hs now raw wd) = snd (run_message_send su hs now msg cfg wd)"
    using request_world by metis
  then show ?thesis
  proof cases
    case (2 msg cfg)
    obtain t wd' where r: "run_message_send su hs now msg cfg wd = (t, wd')" by fastforce
    from send_step [OF assms r] 2 r show ?thesis by auto
  qed (simp add: assms(1))
qed

lemma fresh_world_ok: "store_ok su (fresh_world w)"
  by (simp add: store_ok_def fresh_world_def new_store_def dict_wf_def)

lemma serve_ok: "store_ok su wd \<Longrightarrow> inj (su_uuid su) \<Longrightarrow> store_ok su (serve su rs wd)"
proof (induction rs arbitrary: wd)
  case (Cons r rs)
  obtain hs now raw where r: "r = (hs, now, raw)" by (cases r) auto
  with Cons request_step [of su wd hs now raw] show ?case by simp
qed simp

text \<open>An entry with \<open>length ys\<close> newer ones survives as long as few enough come.\<close>

lemma entry_ages:
  assumes "store_ok su wd" and "inj (su_uuid su)"
    and "st_entries (w_store wd) = xs @ (k, v) # ys" and "Suc (length ys) < max_tasks"
  shows "\<exists>xs' ys'. st_entries (w_store (snd (a2a_jsonrpc su hs now raw wd))) = xs' @ (k, v) # ys' \<and> length ys' \<le> Suc (length ys)"
proof -
  consider "w_store (snd (a2a_jsonrpc su hs now raw wd)) = w_store wd"
    | t where "st_entries (w_store (snd (a2a_jsonrpc su hs now raw wd)))
        = py_last max_tasks (xs @ (k, v) # (ys @ [(t_id t, (t, owner_of su hs))]))"
    using request_step [OF assms(1,2), of hs now raw] assms(3) by auto
  then show ?thesis
  proof cases
    case 1
    with assms(3) show ?thesis by (intro exI [of _ xs] exI [of _ ys]) simp
  next
    case (2 t)
    have "py_last max_tasks (xs @ (k, v) # (ys @ [e])) = drop (length xs + length ys + 2 - max_tasks) xs @ (k, v) # (ys @ [e])" for e
      using assms(4) by (simp add: py_last_def)
    with 2 show ?thesis by fastforce
  qed
qed

lemma entry_survives:
  "store_ok su wd \<Longrightarrow> inj (su_uuid su) \<Longrightarrow> st_entries (w_store wd) = xs @ (k, v) # ys \<Longrightarrow> length ys + length rs < max_tasks
    \<Longrightarrow> \<exists>xs' ys'. st_entries (w_store (serve su rs wd)) = xs' @ (k, v) # ys'"
proof (induction rs arbitrary: wd xs ys)
  case (Cons r rs)
  obtain hs now raw where r: "r = (hs, now, raw)" by (cases r) auto
  let ?wd = "snd (a2a_jsonrpc su hs now raw wd)"
  obtain xs' ys' where e: "st_entries (w_store ?wd) = xs' @ (k, v) # ys'" "length ys' \<le> Suc (length ys)"
    using entry_ages [OF Cons.prems(1-3), of hs now raw] Cons.prems(4) by auto
  have "store_ok su ?wd" using request_step [OF Cons.prems(1,2), of hs now raw] by blast
  from Cons.IH [OF this Cons.prems(2) e(1)] e(2) Cons.prems(4) r show ?case by simp
qed auto

lemma surviving_entry_found:
  "dict_wf d \<Longrightarrow> d = xs @ (k, v) # ys \<Longrightarrow> dget d k = Some v"
  by (subst dget_in_set_iff) simp_all

subsection \<open>Fetching a task\<close>

definition get_request :: "string \<Rightarrow> pyval" where
  "get_request i = PDict [(''id'', PInt 1), (''method'', PStr ''tasks/get''), (''params'', PDict [(''id'', PStr i)])]"

lemma get_request_reply:
  "fst (a2a_jsonrpc su hs now (Some (get_request i)) wd)
    = Body (IdNumber 1) (case get_task i (owner_of su hs) (w_store wd) of
        None \<Rightarrow> RpcError (-32001) ''Task not found'' | Some t \<Rightarrow> RpcResult t)"
  by (simp add: a2a_jsonrpc_def get_request_def parse_rpc_def pget_def parse_rpc_id_def dispatch_def parse_task_query_def parse_task_id_def
      split: option.split)

lemma sent_reply:
  assumes "a2a_jsonrpc su hs now (Some (PDict d)) wd = (Body i (RpcResult t), wd')" and "dget d ''method'' = Some (PStr ''message/send'')"
  obtains msg cfg where "run_message_send su hs now msg cfg wd = (t, wd')"
proof -
  from assms(1) obtain rpc where rpc: "parse_rpc (su_lax su) d = Some rpc"
    and r: "dispatch su hs now (rq_method rpc) (rq_params rpc) wd = (RpcResult t, wd')"
    by (auto simp: a2a_jsonrpc_def split: option.splits prod.splits if_splits)
  from rpc assms(2) have "rq_method rpc = ''message/send''"
    by (auto simp: parse_rpc_def split: option.splits pyval.splits if_splits)
  with r that show ?thesis by (auto simp: dispatch_def split: option.splits prod.splits)
qed

text \<open>A surface whose agent answers every turn and is never paused, and a message to it.\<close>

definition demo_surface :: "nat surface" where
  "demo_surface =
     \<lparr>su_agent = \<lparr>ca_interrupt = \<lambda>c ci w. (Inr PNone, w),
        ca_predict = \<lambda>ms ci w. (Inr \<lparr>rs_messages = [(''assistant'', ''done'')], rs_custom = []\<rparr>, Suc w)\<rparr>,
      su_env = demo_app, su_str = \<lambda>v. [], su_repr = \<lambda>v. [], su_lax = \<lambda>v. None, su_parts = \<lambda>v. None,
      su_uuid = \<lambda>n. replicate n CHR ''x''\<rparr>"

definition demo_message :: message where
  "demo_message = \<lparr>m_role = ''user'', m_parts = [TextPart ''hi''], m_id = ''m'', m_task_id = None, m_context_id = Some ''c''\<rparr>"

definition demo_send :: "(string \<times> pyval) list" where
  "demo_send = [(''id'', PInt 7), (''method'', PStr ''message/send''), (''params'', PDict [(''message'', PDict
     [(''role'', PStr ''user''), (''parts'', PList [PDict [(''text'', PStr ''hi'')]]), (''messageId'', PStr ''m''), (''contextId'', PStr ''c'')])])]"

definition demo_reply :: "http_reply \<times> nat world" where
  "demo_reply = a2a_jsonrpc demo_surface (demo_user ''ann'') ''t0'' (Some (PDict demo_send)) (fresh_world 0)"

lemma demo_ids: "inj (su_uuid demo_surface)"
proof (rule injI)
  fix m n
  assume "su_uuid demo_surface m = su_uuid demo_surface n"
  then have "length (replicate m (CHR ''x'')) = length (replicate n (CHR ''x''))" by (simp add: demo_surface_def)
  then show "m = n" by simp
qed

lemma demo_owner: "owner_of demo_surface (demo_user ''ann'') = Some ''ann''" "owner_of demo_surface (demo_user ''bob'') = Some ''bob''"
  by code_simp+

lemma demo_sent: "\<exists>t. fst demo_reply = Body (IdNumber 7) (RpcResult t)"
proof -
  have "(case fst demo_reply of Body i r \<Rightarrow> i = IdNumber 7 \<and> (case r of RpcResult t \<Rightarrow> True | RpcError c m \<Rightarrow> False) | _ \<Rightarrow> False) = True"
    by code_simp
  then show ?thesis by (auto split: http_reply.splits rpc_result.splits)
qed

text \<open>
  A task that \<open>message/send\<close> answered can be fetched by the user it was made for until as many requests
  as the store holds tasks have come after it, and by nobody else: to them it is not found.
\<close>

theorem sent_task_can_be_fetched:
  assumes "inj (su_uuid su)" and "wd = serve su rs0 (fresh_world w)"
    and "a2a_jsonrpc su hs now (Some (PDict d)) wd = (Body i (RpcResult t), wd1)" and "dget d ''method'' = Some (PStr ''message/send'')"
    and "length rs < max_tasks"
  shows "fst (a2a_jsonrpc su hs' now' (Some (get_request (t_id t))) (serve su rs wd1))
    = Body (IdNumber 1) (if owner_of su hs' = owner_of su hs then RpcResult t else RpcError (-32001) ''Task not found'')"
proof -
  have ok: "store_ok su wd" using serve_ok [OF fresh_world_ok assms(1)] assms(2) by simp
  obtain msg cfg where "run_message_send su hs now msg cfg wd = (t, wd1)" using sent_reply [OF assms(3,4)] .
  note sent = send_step [OF ok assms(1) this]
  then have "st_entries (w_store wd1)
      = drop (Suc (length (st_entries (w_store wd))) - max_tasks) (st_entries (w_store wd)) @ (t_id t, (t, owner_of su hs)) # []"
    by (simp add: py_last_def max_tasks_def)
  from entry_survives [OF conjunct1 [OF sent] assms(1) this, of rs] assms(5)
  obtain xs ys where e: "st_entries (w_store (serve su rs wd1)) = xs @ (t_id t, (t, owner_of su hs)) # ys" by auto
  have "dict_wf (st_entries (w_store (serve su rs wd1)))"
    using serve_ok [OF conjunct1 [OF sent] assms(1), of rs] by (simp add: store_ok_def)
  from surviving_entry_found [OF this e] show ?thesis
    by (simp add: get_request_reply get_task_def)
qed

theorem sent_task_can_be_fetched_witness:
  "\<exists>t. fst demo_reply = Body (IdNumber 7) (RpcResult t)
    \<and> fst (a2a_jsonrpc demo_surface (demo_user ''ann'') ''t1'' (Some (get_request (t_id t))) (snd demo_reply)) = Body (IdNumber 1) (RpcResult t)
    \<and> fst (a2a_jsonrpc demo_surface (demo_user ''bob'') ''t1'' (Some (get_request (t_id t))) (snd demo_reply))
        = Body (IdNumber 1) (RpcError (-32001) ''Task not found'')"
proof -
  obtain t where t: "fst demo_reply = Body (IdNumber 7) (RpcResult t)" using demo_sent by blast
  then have r: "a2a_jsonrpc demo_surface (demo_user ''ann'') ''t0'' (Some (PDict demo_send)) (fresh_world 0)
      = (Body (IdNumber 7) (RpcResult t), snd demo_reply)"
    unfolding demo_reply_def by (metis prod.collapse)
  have m: "dget demo_send ''method'' = Some (PStr ''message/send'')" by (simp add: demo_send_def)
  have "fst (a2a_jsonrpc demo_surface (demo_user u) ''t1'' (Some (get_request (t_id t))) (snd demo_reply))
      = Body (IdNumber 1) (if owner_of demo_surface (demo_user u) = owner_of demo_surface (demo_user ''ann'') then RpcResult t
          else RpcError (-32001) ''Task not found'')" for u
    using sent_task_can_be_fetched [OF demo_ids _ r m, of "[]" 0 "[]"] by (simp add: max_tasks_def)
  from this [of "''ann''"] this [of "''bob''"] t show ?thesis by (simp add: demo_owner)
qed

subsection \<open>Other users' tasks\<close>

definition own_tasks :: "string option \<Rightarrow> task_store \<Rightarrow> task_store" where
  "own_tasks who s = s\<lparr>st_entries := filter (\<lambda>(i, (t, owner)). owner = who) (st_entries s)\<rparr>"

lemma dget_filter: "dict_wf d \<Longrightarrow> dget (filter P d) k = (case dget d k of None \<Rightarrow> None | Some v \<Rightarrow> if P (k, v) then Some v else None)"
proof -
  assume w: "dict_wf d"
  have e: "(dget (filter P d) k = Some v) = (dget d k = Some v \<and> P (k, v))" for v
    by (simp add: dget_in_set_iff w dict_wf_filter)
  show ?thesis
  proof (cases "dget d k")
    case None
    with e have "\<not> (\<exists>v. dget (filter P d) k = Some v)" by simp
    with None show ?thesis by simp
  next
    case (Some v)
    with e [of v] have "P (k, v) \<Longrightarrow> dget (filter P d) k = Some v" by simp
    moreover have "\<not> P (k, v) \<Longrightarrow> \<not> (\<exists>u. dget (filter P d) k = Some u)" using e Some by simp
    ultimately show ?thesis using Some by auto
  qed
qed

lemma get_own_task: "dict_wf (st_entries s) \<Longrightarrow> get_task i who (own_tasks who s) = get_task i who s"
  by (auto simp: get_task_def own_tasks_def dget_filter split: option.split)

lemma dispatch_reply:
  "fst (dispatch su hs now meth params wd) =
    (if meth = ''message/send'' then
       (case parse_send params of None \<Rightarrow> RpcError (-32602) ''Invalid params''
        | Some mc \<Rightarrow> RpcResult (fst (run_message_send su hs now (fst mc) (snd mc) wd)))
     else if meth = ''tasks/get'' then
       (case parse_task_query (su_lax su) params of None \<Rightarrow> RpcError (-32602) ''Invalid params''
        | Some i \<Rightarrow> (case get_task i (owner_of su hs) (w_store wd) of None \<Rightarrow> RpcError (-32001) ''Task not found'' | Some t \<Rightarrow> RpcResult t))
     else if meth = ''tasks/cancel'' then
       (case parse_task_id params of None \<Rightarrow> RpcError (-32602) ''Invalid params''
        | Some i \<Rightarrow> (case get_task i (owner_of su hs) (w_store wd) of None \<Rightarrow> RpcError (-32001) ''Task not found''
            | Some t \<Rightarrow> RpcError (-32002) ''Task is not cancelable''))
     else RpcError (-32601) (''Method not found: '' @ meth))"
  by (simp add: dispatch_def case_prod_beta split: option.split)

lemma request_reply:
  "fst (a2a_jsonrpc su hs now raw wd) =
    (case raw of
       Some (PDict d) \<Rightarrow>
         (case parse_rpc (su_lax su) d of
            None \<Rightarrow> (case parse_rpc_id (su_lax su) (pget d ''id'') of None \<Rightarrow> ServerError | Some i \<Rightarrow> Body i (RpcError (-32600) ''Invalid Request''))
          | Some rpc \<Rightarrow> (if dget d ''id'' = None then NoContent
              else Body (rq_id rpc) (fst (dispatch su hs now (rq_method rpc) (rq_params rpc) wd))))
     | Some v \<Rightarrow> Body IdNone (RpcError (-32600) ''Invalid Request'')
     | None \<Rightarrow> Body IdNone (RpcError (-32700) ''Parse error: invalid JSON''))"
  by (simp add: a2a_jsonrpc_def case_prod_beta split: option.split pyval.split)

text \<open>
  C26: Other users' tasks cannot be seen or probed: whatever a client sends, its answer is the one it would get
  from a store that holds its own tasks only.
\<close>

theorem foreign_tasks_are_invisible:
  assumes "inj (su_uuid su)" and "wd = serve su rs (fresh_world w)"
  shows "fst (a2a_jsonrpc su hs now raw wd) = fst (a2a_jsonrpc su hs now raw (wd\<lparr>w_store := own_tasks (owner_of su hs) (w_store wd)\<rparr>))"
proof -
  let ?wd = "wd\<lparr>w_store := own_tasks (owner_of su hs) (w_store wd)\<rparr>"
  have "dict_wf (st_entries (w_store wd))"
    using serve_ok [OF fresh_world_ok assms(1)] assms(2) by (simp add: store_ok_def)
  then have g: "get_task i (owner_of su hs) (w_store ?wd) = get_task i (owner_of su hs) (w_store wd)" for i
    by (simp add: get_own_task)
  have "fst (run_message_send su hs now msg cfg wd) = fst (run_message_send su hs now msg cfg ?wd)" for msg cfg
    by (simp add: run_message_send_def Let_def split: prod.split)
  note run = this
  have d: "fst (dispatch su hs now meth params wd) = fst (dispatch su hs now meth params ?wd)" for meth params
    unfolding dispatch_reply g run [symmetric] ..
  show ?thesis unfolding request_reply d ..
qed

theorem foreign_tasks_are_invisible_witness:
  "fst (a2a_jsonrpc demo_surface (demo_user ''bob'') ''t1'' (Some (get_request ''x'')) (snd demo_reply))
    = fst (a2a_jsonrpc demo_surface (demo_user ''bob'') ''t1'' (Some (get_request ''x''))
        ((snd demo_reply)\<lparr>w_store := own_tasks (Some ''bob'') (w_store (snd demo_reply))\<rparr>))"
  using foreign_tasks_are_invisible [OF demo_ids, of "snd demo_reply" "[(demo_user ''ann'', ''t0'', Some (PDict demo_send))]" 0 "demo_user ''bob''" "''t1''"]
  by (simp add: demo_reply_def demo_owner)

subsection \<open>Resuming\<close>

lemma send_inputs_no_resume: "dget (send_inputs su hs msg ctx) ''resume'' = None"
  by (auto simp: send_inputs_def Let_def obo_items_def split: option.split)

text \<open>
  An approval is never given by accident: if the client sent no decision, or the thread is not paused, the
  agent is not resumed; two agents that differ only in how they resume give the same task and end alike.
\<close>

theorem no_resume_without_pause:
  assumes "m_context_id msg = Some ctx" and "ctx \<noteq> []"
    and "pget cfg ''apx_resume'' = PNone
      \<or> fst (ca_interrupt (su_agent su) ctx (send_inputs su hs msg ctx) (w_agent wd)) = Inr PNone"
    and "\<And>ms ci w. dget ci ''resume'' = None \<Longrightarrow> predict' ms ci w = ca_predict (su_agent su) ms ci w"
  shows "run_message_send (su\<lparr>su_agent := (su_agent su)\<lparr>ca_predict := predict'\<rparr>\<rparr>) hs now msg cfg wd = run_message_send su hs now msg cfg wd"
proof -
  let ?su = "su\<lparr>su_agent := (su_agent su)\<lparr>ca_predict := predict'\<rparr>\<rparr>"
  let ?ci = "send_inputs su hs msg ctx"
  have "resume_value ?su ctx ci cfg w = resume_value su ctx ci cfg w" for ci w by (simp add: resume_value_def)
  moreover have "\<exists>w'. resume_value su ctx ?ci cfg (w_agent wd) = (Inr PNone, w')"
    using assms(3) by (auto simp: resume_value_def split: prod.split)
  ultimately have turn: "run_turn ?su ctx ?ci msg cfg (w_agent wd) = run_turn su ctx ?ci msg cfg (w_agent wd)"
    using assms(4) [OF send_inputs_no_resume] by (auto simp: run_turn_def)
  have "send_inputs ?su hs msg ctx = ?ci" by (simp add: send_inputs_def)
  moreover have "turn_task ?su = turn_task su"
    by (intro ext) (simp add: turn_task_def approval_ask_text_def data_parts_def Let_def split: sum.split option.split)
  moreover have "owner_of ?su hs = owner_of su hs" by (simp add: owner_of_def)
  ultimately show ?thesis using turn assms(1,2) by (simp add: run_message_send_def Let_def)
qed

theorem no_resume_without_pause_witness:
  "run_message_send (demo_surface\<lparr>su_agent := (su_agent demo_surface)\<lparr>ca_predict :=
        \<lambda>ms ci w. if dget ci ''resume'' = None then ca_predict (su_agent demo_surface) ms ci w else (Inl ''ran'', w)\<rparr>\<rparr>)
      (demo_user ''ann'') ''t0'' demo_message [(''apx_resume'', PStr ''approve'')] (fresh_world 0)
    = run_message_send demo_surface (demo_user ''ann'') ''t0'' demo_message [(''apx_resume'', PStr ''approve'')] (fresh_world 0)"
proof (rule no_resume_without_pause [where ctx = "''c''"])
  show "m_context_id demo_message = Some ''c''" by (simp add: demo_message_def)
  show "pget [(''apx_resume'', PStr ''approve'')] ''apx_resume'' = PNone
      \<or> fst (ca_interrupt (su_agent demo_surface) ''c'' (send_inputs demo_surface (demo_user ''ann'') demo_message ''c'') (w_agent (fresh_world 0))) = Inr PNone"
    by (simp add: demo_surface_def)
qed simp_all

subsection \<open>The protocol's edges\<close>

text \<open>A notification is carried out like the request with an id; only the body is withheld.\<close>

lemma notification_runs_silently:
  assumes "dget d ''id'' = None" and "parse_rpc (su_lax su) d = Some rpc"
  shows "a2a_jsonrpc su hs now (Some (PDict d)) wd = (NoContent, snd (dispatch su hs now (rq_method rpc) (rq_params rpc) wd))"
  using assms by (simp add: a2a_jsonrpc_def split: prod.split)

text \<open>An id that is no valid id makes the error response itself fail.\<close>

lemma invalid_id_is_a_server_error:
  "parse_rpc_id (su_lax su) v = None \<Longrightarrow> dget d ''id'' = Some v \<Longrightarrow> fst (a2a_jsonrpc su hs now (Some (PDict d)) wd) = ServerError"
  by (simp add: a2a_jsonrpc_def parse_rpc_def pget_def split: option.split pyval.split)

text \<open>A request without the version field is accepted.\<close>

lemma missing_version_is_accepted:
  "parse_rpc lax [(''id'', PInt 1), (''method'', PStr m)] = Some \<lparr>rq_id = IdNumber 1, rq_method = m, rq_params = []\<rparr>"
  by (simp add: parse_rpc_def pget_def parse_rpc_id_def)

text \<open>A task that waits for an approval is not cancelable either.\<close>

lemma waiting_task_not_cancelable:
  assumes "get_task i (owner_of su hs) (w_store wd) = Some t" and "parse_task_id params = Some i"
  shows "dispatch su hs now ''tasks/cancel'' params wd = (RpcError (-32002) ''Task is not cancelable'', wd)"
  using assms by (simp add: dispatch_def)

end
