(* ===== verification/State_Migration.thy ===== *)
theory State_Migration
  imports Apx_Prelude "HOL-Library.List_Lexorder" "HOL-Library.Char_ord" "HOL-Library.Multiset"
begin

text \<open>
  The restartable import of a memory table into managed memory (\<open>_state_migration.py\<close>): pages of rows in
  the order of their ids, the marker that carries a row's id inside the content, and a pass over the table.

  The destination is a service: its two operations are parameters, with what the import relies on stated by
  \<open>destination_ok\<close>.  A call may fail after the memory was stored.  The table is a list; the database orders
  ids by code points.
\<close>

subsection \<open>The marker\<close>

definition marker :: string where
  "marker = [CHR 0x0A] @ ''[source-id:''"

definition marked_content :: "string \<Rightarrow> string \<Rightarrow> string" where
  "marked_content content i = content @ marker @ i @ '']''"

text \<open>\<open>content.rsplit(marker, 1)[1]\<close>: what follows the last marker.\<close>

fun after_last :: "string \<Rightarrow> string \<Rightarrow> string option" where
  "after_last m [] = (if m = [] then Some [] else None)"
| "after_last m (c # s) =
     (case after_last m s of
        Some t \<Rightarrow> Some t
      | None \<Rightarrow> if starts_with m (c # s) then Some (drop (length m) (c # s)) else None)"

definition source_id_of :: "string \<Rightarrow> string option" where
  "source_id_of content =
     (case after_last marker content of
        None \<Rightarrow> None
      | Some token \<Rightarrow>
          if token = [] \<or> last token \<noteq> CHR '']'' then None
          else (let i = strip (butlast token) in if i = [] then None else Some i))"

subsection \<open>The table\<close>

record source_row =
  sw_id :: string
  sw_principal :: string
  sw_namespace :: "string option"
  sw_content :: string

definition page_size :: nat where
  "page_size = 500"

definition page :: "source_row list \<Rightarrow> string option \<Rightarrow> string \<Rightarrow> source_row list" where
  "page table only last_id =
     take page_size (sort_key sw_id
       (filter (\<lambda>r. last_id < sw_id r \<and> (case only of None \<Rightarrow> True | Some p \<Rightarrow> sw_principal r = p)) table))"

definition inventory :: "source_row list \<Rightarrow> nat \<times> string list \<times> string list" where
  "inventory table =
     (length table, sort (remdups (map sw_principal table)),
      sort (remdups (map (\<lambda>r. case sw_namespace r of None \<Rightarrow> ''None'' | Some n \<Rightarrow> n) table)))"

subsection \<open>A pass\<close>

record 's pass =
  ps_existing :: "(string \<times> string) set"
  ps_rows :: nat
  ps_written :: nat
  ps_skipped :: nat
  ps_unmapped :: nat
  ps_dest :: 's

definition list_limit :: nat where
  "list_limit = 1000"

type_synonym 's add_op = "string \<Rightarrow> string \<Rightarrow> string \<Rightarrow> 's \<Rightarrow> bool \<times> 's"
type_synonym 's list_op = "string \<Rightarrow> nat \<Rightarrow> 's \<Rightarrow> string list"

definition blank :: "string \<Rightarrow> bool" where
  "blank s \<longleftrightarrow> strip s = []"

text \<open>One row; \<open>False\<close>: the destination raised, and the pass ends.\<close>

definition copy_row :: "'s add_op \<Rightarrow> string dict \<Rightarrow> string option \<Rightarrow> source_row \<Rightarrow> 's pass \<Rightarrow> bool \<times> 's pass" where
  "copy_row add actors only r ps0 =
     (let ps = ps0\<lparr>ps_rows := Suc (ps_rows ps0)\<rparr>
      in if only \<noteq> None \<and> only \<noteq> Some (sw_principal r) then (True, ps)
         else (case dget actors (sw_principal r) of
            None \<Rightarrow> (True, if only = None then ps\<lparr>ps_unmapped := Suc (ps_unmapped ps)\<rparr> else ps)
          | Some actor \<Rightarrow>
              if blank actor then (True, ps\<lparr>ps_unmapped := Suc (ps_unmapped ps)\<rparr>)
              else if (actor, sw_id r) \<in> ps_existing ps then (True, ps\<lparr>ps_skipped := Suc (ps_skipped ps)\<rparr>)
              else (let ns = (case sw_namespace r of None \<Rightarrow> ''default'' | Some n \<Rightarrow> if n = [] then ''default'' else n)
                    in case add actor ns (marked_content (sw_content r) (sw_id r)) (ps_dest ps) of
                         (False, d) \<Rightarrow> (False, ps\<lparr>ps_dest := d\<rparr>)
                       | (True, d) \<Rightarrow> (True, ps\<lparr>ps_dest := d, ps_existing := insert (actor, sw_id r) (ps_existing ps),
                           ps_written := Suc (ps_written ps)\<rparr>))))"

fun copy_rows :: "'s add_op \<Rightarrow> string dict \<Rightarrow> string option \<Rightarrow> source_row list \<Rightarrow> 's pass \<Rightarrow> bool \<times> 's pass" where
  "copy_rows add actors only [] ps = (True, ps)"
| "copy_rows add actors only (r # rs) ps =
     (case copy_row add actors only r ps of
        (False, ps') \<Rightarrow> (False, ps')
      | (True, ps') \<Rightarrow> copy_rows add actors only rs ps')"

lemma page_last: "page table only last_id \<noteq> [] \<Longrightarrow> last (page table only last_id) \<in> set table \<and> last_id < sw_id (last (page table only last_id))"
proof -
  let ?s = "sort_key sw_id (filter (\<lambda>r. last_id < sw_id r \<and> (case only of None \<Rightarrow> True | Some p \<Rightarrow> sw_principal r = p)) table)"
  assume "page table only last_id \<noteq> []"
  then have "last (page table only last_id) \<in> set (take page_size ?s)" unfolding page_def by (rule last_in_set)
  then have "last (page table only last_id) \<in> set ?s" by (rule in_set_takeD)
  then show ?thesis by simp
qed

text \<open>The loop over the pages: each starts after the last id of the one before.\<close>

function copy_pages :: "'s add_op \<Rightarrow> string dict \<Rightarrow> string option \<Rightarrow> source_row list \<Rightarrow> string \<Rightarrow> 's pass \<Rightarrow> bool \<times> 's pass" where
  "copy_pages add actors only table last_id ps =
     (if page table only last_id = [] then (True, ps)
      else case copy_rows add actors only (page table only last_id) ps of
             (False, ps') \<Rightarrow> (False, ps')
           | (True, ps') \<Rightarrow> copy_pages add actors only table (sw_id (last (page table only last_id))) ps')"
  by pat_completeness auto

termination
proof (relation "measure (\<lambda>(add, actors, only, table, last_id, ps). length (filter (\<lambda>r. last_id < sw_id r) table))", goal_cases)
  case (2 add actors only table last_id ps ok ps1)
  let ?l = "last (page table only last_id)"
  note l = page_last [OF 2(1)]
  have "length (filter (\<lambda>r. sw_id ?l < sw_id r) table) = length (filter (\<lambda>r. sw_id ?l < sw_id r) (filter (\<lambda>r. last_id < sw_id r) table))"
    using l by (auto intro!: arg_cong [where f = length] filter_cong dest: order.strict_trans)
  also have "\<dots> < length (filter (\<lambda>r. last_id < sw_id r) table)"
    using l by (intro length_filter_less [where x = ?l]) auto
  finally show ?case by simp
qed simp

declare copy_pages.simps [simp del]

text \<open>The ids found in the destination, or the refusal when a listing is full.\<close>

fun imported_ids :: "'s list_op \<Rightarrow> string list \<Rightarrow> 's \<Rightarrow> (string \<times> string) set option" where
  "imported_ids lst [] s = Some {}"
| "imported_ids lst (a # as) s =
     (if list_limit \<le> length (lst a list_limit s) then None
      else map_option (\<lambda>ids. (Pair a) ` set (List.map_filter source_id_of (lst a list_limit s)) \<union> ids) (imported_ids lst as s))"

definition listed_actors :: "string dict \<Rightarrow> string option \<Rightarrow> string list" where
  "listed_actors actors only =
     filter (\<lambda>a. \<not> blank a) (case only of
        None \<Rightarrow> map snd actors
      | Some p \<Rightarrow> (case dget actors p of None \<Rightarrow> [] | Some a \<Rightarrow> [a]))"

record import_result =
  ir_rows :: nat
  ir_written :: nat
  ir_skipped :: nat
  ir_unmapped :: nat

datatype import_outcome = Imported import_result | DestinationFull | DestinationRaised

definition import_memories ::
  "'s add_op \<Rightarrow> 's list_op \<Rightarrow> string dict \<Rightarrow> string option \<Rightarrow> source_row list \<Rightarrow> 's \<Rightarrow> import_outcome \<times> 's" where
  "import_memories add lst actors only table s =
     (case imported_ids lst (remdups (listed_actors actors only)) s of
        None \<Rightarrow> (DestinationFull, s)
      | Some existing \<Rightarrow>
          (case copy_pages add actors only table [] \<lparr>ps_existing = existing, ps_rows = 0, ps_written = 0, ps_skipped = 0, ps_unmapped = 0, ps_dest = s\<rparr> of
             (False, ps) \<Rightarrow> (DestinationRaised, ps_dest ps)
           | (True, ps) \<Rightarrow> (Imported \<lparr>ir_rows = ps_rows ps, ir_written = ps_written ps, ir_skipped = ps_skipped ps, ir_unmapped = ps_unmapped ps\<rparr>, ps_dest ps)))"

subsection \<open>The marker can be read back\<close>

lemma after_last_none: "CHR 0x0A \<notin> set s \<Longrightarrow> after_last marker s = None"
  by (induction s) (auto simp: starts_with_def marker_def)

lemma after_last_marker:
  assumes "CHR 0x0A \<notin> set t"
  shows "after_last marker (c @ marker @ t) = Some t"
proof (induction c)
  case Nil
  have "CHR 0x0A \<notin> set (''[source-id:'' @ t)" using assms by simp
  from after_last_none [OF this] show ?case by (simp add: marker_def starts_with_def)
qed simp

definition good_id :: "string \<Rightarrow> bool" where
  "good_id i \<longleftrightarrow> i \<noteq> [] \<and> strip i = i \<and> CHR 0x0A \<notin> set i"

text \<open>
  The id a row is marked with is read back from its copy, whatever the content holds, other markers
  included, for ids without line breaks or surrounding blanks.
\<close>

theorem marker_round_trip:
  assumes "good_id i"
  shows "source_id_of (marked_content content i) = Some i"
proof -
  have "after_last marker (content @ marker @ (i @ '']'')) = Some (i @ '']'')"
    using assms by (intro after_last_marker) (auto simp: good_id_def)
  then show ?thesis using assms by (simp add: source_id_of_def marked_content_def good_id_def butlast_append)
qed

theorem marker_round_trip_witness:
  "source_id_of (marked_content (marked_content ''note'' ''old'') ''r-1'') = Some ''r-1''"
  by (rule marker_round_trip) code_simp

text \<open>An id with a blank at its end is read back without it, so its row is copied again by every pass.\<close>

lemma padded_id_is_not_recognised: "source_id_of (marked_content ''note'' ''r1 '') = Some ''r1''"
  by code_simp

subsection \<open>Pages and the whole table\<close>

definition selected :: "source_row list \<Rightarrow> string option \<Rightarrow> string \<Rightarrow> source_row list" where
  "selected table only last_id =
     sort_key sw_id (filter (\<lambda>r. last_id < sw_id r \<and> (case only of None \<Rightarrow> True | Some p \<Rightarrow> sw_principal r = p)) table)"

lemma page_selected: "page table only last_id = take page_size (selected table only last_id)"
  by (simp add: page_def selected_def)

lemma distinct_selected: "distinct (map sw_id table) \<Longrightarrow> distinct (map sw_id (selected table only last_id))"
  unfolding selected_def by (simp add: distinct_map inj_on_def)

lemma strictly_sorted_drop:
  "sorted (map f xs) \<Longrightarrow> distinct (map f xs) \<Longrightarrow> take (Suc n) xs \<noteq> [] \<Longrightarrow> filter (\<lambda>x. f (last (take (Suc n) xs)) < f x) xs = drop (Suc n) xs"
proof (induction n arbitrary: xs)
  case 0
  then obtain y ys where "xs = y # ys" by (cases xs) auto
  with 0 show ?case by (auto simp: filter_id_conv less_le)
next
  case (Suc n)
  then obtain y ys where xs: "xs = y # ys" by (cases xs) auto
  show ?case
  proof (cases "ys = []")
    case True
    with xs show ?thesis by simp
  next
    case False
    then have ne: "take (Suc n) ys \<noteq> []" by simp
    have "last (take (Suc n) ys) \<in> set ys" using ne in_set_takeD [OF last_in_set [OF ne]] by simp
    then have "f y \<le> f (last (take (Suc n) ys))" using Suc.prems(1) xs by auto
    with Suc.IH [of ys] Suc.prems xs ne show ?thesis by auto
  qed
qed

lemma selected_after_page:
  assumes "distinct (map sw_id table)" and "page table only last_id \<noteq> []"
  shows "selected table only (sw_id (last (page table only last_id))) = drop page_size (selected table only last_id)"
proof -
  let ?l = "sw_id (last (page table only last_id))"
  have "last_id < ?l" using page_last [OF assms(2)] by blast
  then have "filter (\<lambda>r. ?l < sw_id r \<and> (case only of None \<Rightarrow> True | Some p \<Rightarrow> sw_principal r = p)) table
      = filter (\<lambda>r. ?l < sw_id r) (filter (\<lambda>r. last_id < sw_id r \<and> (case only of None \<Rightarrow> True | Some p \<Rightarrow> sw_principal r = p)) table)"
    by (auto intro!: filter_cong dest: order.strict_trans)
  then have "selected table only ?l = filter (\<lambda>r. ?l < sw_id r) (selected table only last_id)"
    by (simp add: selected_def filter_sort)
  also have "\<dots> = drop page_size (selected table only last_id)"
    using strictly_sorted_drop [of sw_id "selected table only last_id" 499] distinct_selected [OF assms(1)] assms(2)
    by (simp add: page_selected page_size_def) (simp add: selected_def)
  finally show ?thesis .
qed

lemma copy_rows_append:
  "copy_rows add actors only (xs @ ys) ps =
    (case copy_rows add actors only xs ps of (False, ps') \<Rightarrow> (False, ps') | (True, ps') \<Rightarrow> copy_rows add actors only ys ps')"
  by (induction xs arbitrary: ps) (auto split: prod.split bool.split)

text \<open>Reading the table page by page visits each selected row once, in the order of the ids.\<close>

lemma copy_pages_all:
  "distinct (map sw_id table) \<Longrightarrow>
    copy_pages add actors only table last_id ps = copy_rows add actors only (selected table only last_id) ps"
proof (induction add actors only table last_id ps rule: copy_pages.induct)
  case (1 add actors only table last_id ps)
  show ?case
  proof (cases "page table only last_id = []")
    case True
    then have "selected table only last_id = []" by (simp add: page_selected page_size_def)
    with True show ?thesis by (simp add: copy_pages.simps)
  next
    case False
    have "selected table only last_id = page table only last_id @ selected table only (sw_id (last (page table only last_id)))"
      using selected_after_page [OF 1(2) False] by (simp add: page_selected)
    then show ?thesis
      using False 1 by (subst copy_pages.simps) (simp add: copy_rows_append split: prod.split bool.split)
  qed
qed

subsection \<open>Copies\<close>

text \<open>
  What the import relies on: a call that succeeds stores the memory, one that fails stores it or not, and a
  listing that is not full is complete.  \<open>holds\<close> gives the contents the destination has for an actor.
\<close>

definition destination_ok :: "'s add_op \<Rightarrow> 's list_op \<Rightarrow> ('s \<Rightarrow> string \<Rightarrow> string multiset) \<Rightarrow> bool" where
  "destination_ok add lst holds \<longleftrightarrow>
     (\<forall>a ns c s. holds (snd (add a ns c s)) = (holds s)(a := add_mset c (holds s a))
        \<or> (\<not> fst (add a ns c s) \<and> holds (snd (add a ns c s)) = holds s))
     \<and> (\<forall>a n s. length (lst a n s) < n \<longrightarrow> mset (lst a n s) = holds s a)"

definition copies :: "('s \<Rightarrow> string \<Rightarrow> string multiset) \<Rightarrow> 's \<Rightarrow> string \<Rightarrow> string \<Rightarrow> nat" where
  "copies holds s a i = size (filter_mset (\<lambda>c. source_id_of c = Some i) (holds s a))"

lemma copies_pos: "0 < copies holds s a i \<longleftrightarrow> (\<exists>c. c \<in># holds s a \<and> source_id_of c = Some i)"
  unfolding copies_def nonempty_has_size [symmetric] set_mset_eq_empty_iff [symmetric] by auto

lemma add_stored:
  assumes "destination_ok add lst holds" and "add a ns (marked_content c i) s = (ok, s')" and "good_id i"
  shows "(copies holds s' = (copies holds s)(a := (copies holds s a)(i := Suc (copies holds s a i))))
    \<or> (\<not> ok \<and> copies holds s' = copies holds s)"
proof -
  have "holds s' = (holds s)(a := add_mset (marked_content c i) (holds s a)) \<or> (\<not> ok \<and> holds s' = holds s)"
    using assms(1,2) unfolding destination_ok_def by (metis fst_conv snd_conv)
  then show ?thesis using marker_round_trip [OF assms(3), of c] by (auto simp: copies_def fun_eq_iff)
qed

text \<open>The pass knows which rows have a copy, and writes no second one.\<close>

definition pass_ok :: "('s \<Rightarrow> string \<Rightarrow> string multiset) \<Rightarrow> string list \<Rightarrow> 's \<Rightarrow> 's pass \<Rightarrow> bool" where
  "pass_ok holds as s0 ps \<longleftrightarrow>
     (\<forall>a i. a \<in> set as \<longrightarrow> ((a, i) \<in> ps_existing ps \<longleftrightarrow> 0 < copies holds (ps_dest ps) a i))
     \<and> (\<forall>a i. copies holds s0 a i \<le> copies holds (ps_dest ps) a i \<and> copies holds (ps_dest ps) a i \<le> max 1 (copies holds s0 a i))"

definition never_twice :: "('s \<Rightarrow> string \<Rightarrow> string multiset) \<Rightarrow> 's \<Rightarrow> 's \<Rightarrow> bool" where
  "never_twice holds s0 s \<longleftrightarrow>
     (\<forall>a i. copies holds s0 a i \<le> copies holds s a i \<and> copies holds s a i \<le> max 1 (copies holds s0 a i))"

text \<open>The actor a row goes to.\<close>

definition target_actor :: "string dict \<Rightarrow> string option \<Rightarrow> source_row \<Rightarrow> string option" where
  "target_actor actors only r =
     (if only \<noteq> None \<and> only \<noteq> Some (sw_principal r) then None
      else (case dget actors (sw_principal r) of None \<Rightarrow> None | Some a \<Rightarrow> if blank a then None else Some a))"

lemma target_listed: "target_actor actors only r = Some a \<Longrightarrow> a \<in> set (remdups (listed_actors actors only))"
  by (auto simp: target_actor_def listed_actors_def dest: dget_Some_in_set split: if_splits option.splits intro: rev_image_eqI)

lemma copy_row_cases:
  assumes "copy_row add actors only r ps = (ok, ps')"
  obtains (passed) "ok" "ps_existing ps' = ps_existing ps" "ps_dest ps' = ps_dest ps" "ps_written ps' = ps_written ps"
      "\<And>a. target_actor actors only r = Some a \<Longrightarrow> (a, sw_id r) \<in> ps_existing ps"
    | (added) a ns where "target_actor actors only r = Some a" "(a, sw_id r) \<notin> ps_existing ps"
      "add a ns (marked_content (sw_content r) (sw_id r)) (ps_dest ps) = (ok, ps_dest ps')"
      "ok \<Longrightarrow> ps_existing ps' = insert (a, sw_id r) (ps_existing ps)"
  using assms
  by (auto simp: copy_row_def target_actor_def Let_def split: if_splits option.splits prod.splits bool.splits)

lemma copy_row_ok:
  assumes "destination_ok add lst holds" and "good_id (sw_id r)" and "pass_ok holds (remdups (listed_actors actors only)) s0 ps"
    and "copy_row add actors only r ps = (ok, ps')"
  shows "never_twice holds s0 (ps_dest ps') \<and> (ok \<longrightarrow> pass_ok holds (remdups (listed_actors actors only)) s0 ps'
    \<and> ps_existing ps \<subseteq> ps_existing ps'
    \<and> (\<forall>a. target_actor actors only r = Some a \<longrightarrow> (a, sw_id r) \<in> ps_existing ps'))"
  using assms(4)
proof (cases rule: copy_row_cases)
  case passed
  with assms(3) show ?thesis by (auto simp: pass_ok_def never_twice_def)
next
  case (added a ns)
  have zero: "copies holds (ps_dest ps) a (sw_id r) = 0"
    using assms(3) target_listed [OF added(1)] added(2) by (auto simp: pass_ok_def)
  then have zero0: "copies holds s0 a (sw_id r) = 0" using assms(3) unfolding pass_ok_def by (metis le_zero_eq)
  consider "copies holds (ps_dest ps') = (copies holds (ps_dest ps))(a := (copies holds (ps_dest ps) a)(sw_id r := 1))"
    | "\<not> ok" "copies holds (ps_dest ps') = copies holds (ps_dest ps)"
    using add_stored [OF assms(1) added(3) assms(2)] zero by auto
  then show ?thesis
  proof cases
    case 1
    have n: "never_twice holds s0 (ps_dest ps')"
      using assms(3) zero0 unfolding never_twice_def pass_ok_def 1 by simp
    moreover have "pass_ok holds (remdups (listed_actors actors only)) s0 ps'" if ok
      using n assms(3) added(4) [OF that] unfolding pass_ok_def never_twice_def 1 by auto
    ultimately show ?thesis using added(1,4) by auto
  next
    case 2
    then show ?thesis using assms(3) by (simp add: pass_ok_def never_twice_def)
  qed
qed

lemma copy_rows_ok:
  assumes "destination_ok add lst holds"
  shows "list_all (\<lambda>r. good_id (sw_id r)) rs \<Longrightarrow> pass_ok holds (remdups (listed_actors actors only)) s0 ps
    \<Longrightarrow> copy_rows add actors only rs ps = (ok, ps') \<Longrightarrow> never_twice holds s0 (ps_dest ps')
      \<and> (ok \<longrightarrow> pass_ok holds (remdups (listed_actors actors only)) s0 ps' \<and> ps_existing ps \<subseteq> ps_existing ps'
        \<and> (\<forall>r a. r \<in> set rs \<longrightarrow> target_actor actors only r = Some a \<longrightarrow> (a, sw_id r) \<in> ps_existing ps'))"
proof (induction rs arbitrary: ps)
  case Nil
  then show ?case by (auto simp: pass_ok_def never_twice_def)
next
  case (Cons r rs)
  obtain ok1 ps1 where r: "copy_row add actors only r ps = (ok1, ps1)" by (cases "copy_row add actors only r ps") auto
  have good: "good_id (sw_id r)" "list_all (\<lambda>r. good_id (sw_id r)) rs" using Cons.prems(1) by auto
  note step = copy_row_ok [OF assms good(1) Cons.prems(2) r]
  show ?case
  proof (cases ok1)
    case False
    with r Cons.prems(3) step show ?thesis by auto
  next
    case True
    with r Cons.prems(3) have rest: "copy_rows add actors only rs ps1 = (ok, ps')" by simp
    have "pass_ok holds (remdups (listed_actors actors only)) s0 ps1" using step True by blast
    from Cons.IH [OF good(2) this rest] step True show ?thesis by auto
  qed
qed

lemma imported_ids_spec:
  assumes "destination_ok add lst holds"
  shows "imported_ids lst as s = Some ids \<Longrightarrow> (a, i) \<in> ids \<longleftrightarrow> a \<in> set as \<and> 0 < copies holds s a i"
proof (induction "as" arbitrary: ids)
  case (Cons b bs)
  from Cons.prems obtain ids' where l: "length (lst b list_limit s) < list_limit" and r: "imported_ids lst bs s = Some ids'"
    and ids: "ids = (Pair b) ` set (List.map_filter source_id_of (lst b list_limit s)) \<union> ids'"
    by (auto split: if_splits)
  have "mset (lst b list_limit s) = holds s b" using assms l unfolding destination_ok_def by blast
  then have "set (lst b list_limit s) = set_mset (holds s b)" by (metis set_mset_mset)
  then have "i \<in> set (List.map_filter source_id_of (lst b list_limit s)) \<longleftrightarrow> 0 < copies holds s b i"
    by (auto simp: copies_pos map_filter_def image_iff)
  with Cons.IH [OF r] ids show ?case by auto
qed simp

lemma copy_rows_nothing:
  "(\<And>r a. r \<in> set rs \<Longrightarrow> target_actor actors only r = Some a \<Longrightarrow> (a, sw_id r) \<in> ps_existing ps)
    \<Longrightarrow> \<exists>ps'. copy_rows add actors only rs ps = (True, ps') \<and> ps_dest ps' = ps_dest ps \<and> ps_written ps' = ps_written ps"
proof (induction rs arbitrary: ps)
  case (Cons r rs)
  obtain ok ps1 where c: "copy_row add actors only r ps = (ok, ps1)" by (cases "copy_row add actors only r ps") auto
  from c have "ok \<and> ps_existing ps1 = ps_existing ps \<and> ps_dest ps1 = ps_dest ps \<and> ps_written ps1 = ps_written ps"
  proof (cases rule: copy_row_cases)
    case (added a ns)
    with Cons.prems [of r a] show ?thesis by simp
  qed simp
  with Cons.IH [of ps1] Cons.prems c show ?case by auto
qed simp

text \<open>A destination that stores every memory, and a table of one row.\<close>

definition demo_add :: "(string \<times> string) list add_op" where
  "demo_add a ns c s = (True, s @ [(a, c)])"

definition demo_list :: "(string \<times> string) list list_op" where
  "demo_list a n s = take n (map snd (filter (\<lambda>e. fst e = a) s))"

definition demo_holds :: "(string \<times> string) list \<Rightarrow> string \<Rightarrow> string multiset" where
  "demo_holds s a = mset (map snd (filter (\<lambda>e. fst e = a) s))"

definition demo_table :: "source_row list" where
  "demo_table = [\<lparr>sw_id = ''r2'', sw_principal = ''bob'', sw_namespace = None, sw_content = ''x''\<rparr>,
     \<lparr>sw_id = ''r1'', sw_principal = ''ann'', sw_namespace = None, sw_content = ''likes tea''\<rparr>]"

definition demo_import :: "import_outcome \<times> (string \<times> string) list" where
  "demo_import = import_memories demo_add demo_list [(''ann'', ''actor'')] None demo_table []"

lemma demo_destination: "destination_ok demo_add demo_list demo_holds"
  by (auto simp: destination_ok_def demo_add_def demo_list_def demo_holds_def fun_eq_iff)

lemma demo_table_ok: "list_all (\<lambda>r. good_id (sw_id r)) demo_table" "distinct (map sw_id demo_table)"
  by code_simp+

lemma demo_import_result:
  "demo_import = (Imported \<lparr>ir_rows = 2, ir_written = 1, ir_skipped = 0, ir_unmapped = 1\<rparr>, snd demo_import)"
proof -
  have "fst demo_import = Imported \<lparr>ir_rows = 2, ir_written = 1, ir_skipped = 0, ir_unmapped = 1\<rparr>" by code_simp
  then show ?thesis by (metis prod.collapse)
qed

lemma import_copies:
  assumes "destination_ok add lst holds" and "list_all (\<lambda>r. good_id (sw_id r)) table" and "distinct (map sw_id table)"
    and "import_memories add lst actors only table s = (res, s')" and "\<And>a i. copies holds s a i \<le> 1"
  shows "copies holds s' a i \<le> 1
    \<and> ((\<exists>ir. res = Imported ir) \<longrightarrow> (\<forall>r a. r \<in> set table \<longrightarrow> target_actor actors only r = Some a \<longrightarrow> copies holds s' a (sw_id r) = 1))"
proof (cases "imported_ids lst (remdups (listed_actors actors only)) s")
  case None
  with assms(4,5) show ?thesis by (auto simp: import_memories_def)
next
  case (Some existing)
  let ?ps = "\<lparr>ps_existing = existing, ps_rows = 0, ps_written = 0, ps_skipped = 0, ps_unmapped = 0, ps_dest = s\<rparr>"
  have ok0: "pass_ok holds (remdups (listed_actors actors only)) s ?ps"
    using imported_ids_spec [OF assms(1) Some] by (simp add: pass_ok_def)
  obtain ok ps where c: "copy_rows add actors only (selected table only []) ?ps = (ok, ps)"
    by (cases "copy_rows add actors only (selected table only []) ?ps") auto
  have good: "list_all (\<lambda>r. good_id (sw_id r)) (selected table only [])"
    using assms(2) by (auto simp: list_all_iff selected_def)
  note pass = copy_rows_ok [OF assms(1) good ok0 c]
  have s': "s' = ps_dest ps" and res: "(\<exists>ir. res = Imported ir) \<Longrightarrow> ok"
    using assms(4) Some c by (auto simp: import_memories_def copy_pages_all [OF assms(3)] split: bool.splits)
  have once: "copies holds s' a i \<le> 1" for a i
    using pass assms(5) [of a i] unfolding s' never_twice_def by (metis max.absorb1)
  have "copies holds s' a (sw_id r) = 1" if "ok" "r \<in> set table" "target_actor actors only r = Some a" for r a
  proof -
    have "sw_id r \<noteq> []" using assms(2) that(2) by (auto simp: list_all_iff good_id_def)
    then have "r \<in> set (selected table only [])"
      using that(2,3) by (auto simp: selected_def target_actor_def neq_Nil_conv split: option.splits if_splits)
    then have "(a, sw_id r) \<in> ps_existing ps" using pass that(1,3) by blast
    then have "0 < copies holds s' a (sw_id r)"
      using pass that(1) target_listed [OF that(3)] unfolding s' pass_ok_def by blast
    with once [of a "sw_id r"] show ?thesis by simp
  qed
  with once res show ?thesis by blast
qed

text \<open>What a destination holds when every marked memory in it is a copy of a row of this table.\<close>

definition copy_of :: "source_row \<Rightarrow> string" where
  "copy_of r = marked_content (sw_content r) (sw_id r)"

definition own_marks :: "('s \<Rightarrow> string \<Rightarrow> string multiset) \<Rightarrow> source_row list \<Rightarrow> 's \<Rightarrow> bool" where
  "own_marks holds table s \<longleftrightarrow> (\<forall>a c i. c \<in># holds s a \<longrightarrow> source_id_of c = Some i \<longrightarrow> c \<in> copy_of ` set table)"

lemma copy_row_marks:
  assumes "destination_ok add lst holds" and "r \<in> set table" and "own_marks holds table (ps_dest ps)"
    and "copy_row add actors only r ps = (ok, ps')"
  shows "own_marks holds table (ps_dest ps')"
  using assms(4)
proof (cases rule: copy_row_cases)
  case passed
  with assms(3) show ?thesis by simp
next
  case (added a ns)
  have "holds (ps_dest ps') = (holds (ps_dest ps))(a := add_mset (copy_of r) (holds (ps_dest ps) a)) \<or> holds (ps_dest ps') = holds (ps_dest ps)"
    using assms(1) added(3) unfolding destination_ok_def copy_of_def by (metis snd_conv)
  with assms(2,3) show ?thesis by (auto simp: own_marks_def split: if_splits)
qed

lemma copy_rows_marks:
  assumes "destination_ok add lst holds"
  shows "set rs \<subseteq> set table \<Longrightarrow> own_marks holds table (ps_dest ps) \<Longrightarrow> copy_rows add actors only rs ps = (ok, ps')
    \<Longrightarrow> own_marks holds table (ps_dest ps')"
proof (induction rs arbitrary: ps)
  case (Cons r rs)
  obtain ok1 ps1 where r: "copy_row add actors only r ps = (ok1, ps1)" by (metis prod.exhaust)
  have "own_marks holds table (ps_dest ps1)" by (rule copy_row_marks [OF assms _ Cons.prems(2) r]) (use Cons.prems(1) in simp)
  with Cons r show ?case by (cases ok1) auto
qed simp

lemma import_marks:
  assumes "destination_ok add lst holds" and "distinct (map sw_id table)" and "own_marks holds table s"
    and "import_memories add lst actors only table s = (res, s')"
  shows "own_marks holds table s'"
proof (cases "imported_ids lst (remdups (listed_actors actors only)) s")
  case None
  with assms(3,4) show ?thesis by (simp add: import_memories_def)
next
  case (Some existing)
  let ?ps = "\<lparr>ps_existing = existing, ps_rows = 0, ps_written = 0, ps_skipped = 0, ps_unmapped = 0, ps_dest = s\<rparr>"
  obtain ok ps where c: "copy_rows add actors only (selected table only []) ?ps = (ok, ps)" by (metis prod.exhaust)
  have "set (selected table only []) \<subseteq> set table" by (auto simp: selected_def)
  from copy_rows_marks [OF assms(1) this _ c] assms(3) have "own_marks holds table (ps_dest ps)" by simp
  with assms(4) Some c show ?thesis
    by (auto simp: import_memories_def copy_pages_all [OF assms(2)] split: bool.splits)
qed

lemma one_marked_copy:
  assumes "own_marks holds table s" and "distinct (map sw_id table)" and "list_all (\<lambda>r. good_id (sw_id r)) table"
    and "r \<in> set table" and "copies holds s a (sw_id r) = 1"
  shows "count (holds s a) (copy_of r) = 1"
proof -
  from assms(5) obtain c where c: "filter_mset (\<lambda>c. source_id_of c = Some (sw_id r)) (holds s a) = {#c#}"
    unfolding copies_def by (metis One_nat_def size_1_singleton_mset)
  then have "c \<in># filter_mset (\<lambda>c. source_id_of c = Some (sw_id r)) (holds s a)" by simp
  then have mem: "c \<in># holds s a" "source_id_of c = Some (sw_id r)" by simp_all
  with assms(1) obtain q where q: "q \<in> set table" "c = copy_of q" unfolding own_marks_def by blast
  from assms(3) q(1) have "good_id (sw_id q)" by (simp add: list_all_iff)
  with marker_round_trip q(2) mem(2) have "sw_id q = sw_id r" by (simp add: copy_of_def)
  with assms(2,4) q(1) have "q = r" by (auto simp: distinct_map inj_on_def)
  have "count (holds s a) c = count (filter_mset (\<lambda>c. source_id_of c = Some (sw_id r)) (holds s a)) c" using mem(2) by simp
  with c q(2) \<open>q = r\<close> show ?thesis by simp
qed

text \<open>
  C12: The import never makes a second copy, whatever calls fail and however often it is run, for a table whose ids are
  distinct, without line breaks and without blanks around them: an actor that holds at most one memory with the marker of
  each row still does afterwards.  An import that reports its counts has left exactly one memory with its marker for every
  row whose principal is mapped to an actor.  Where the destination held no foreign markers - every marked memory in it was
  a copy of a row of this table - that memory is the row's own content under its marker.
\<close>

theorem every_row_copied_once:
  assumes "destination_ok add lst holds" and "list_all (\<lambda>r. good_id (sw_id r)) table" and "distinct (map sw_id table)"
    and "import_memories add lst actors only table s = (res, s')" and "\<And>a i. copies holds s a i \<le> 1"
  shows "copies holds s' a i \<le> 1
    \<and> ((\<exists>ir. res = Imported ir) \<longrightarrow> (\<forall>r a. r \<in> set table \<longrightarrow> target_actor actors only r = Some a \<longrightarrow>
         copies holds s' a (sw_id r) = 1 \<and> (own_marks holds table s \<longrightarrow> count (holds s' a) (copy_of r) = 1)))"
proof (intro conjI impI allI)
  note once = import_copies [OF assms]
  show "copies holds s' a i \<le> 1" using once by blast
  fix r a
  assume "\<exists>ir. res = Imported ir" and r: "r \<in> set table" and t: "target_actor actors only r = Some a"
  with once show one: "copies holds s' a (sw_id r) = 1" by blast
  assume "own_marks holds table s"
  from one_marked_copy [OF import_marks [OF assms(1,3) this assms(4)] assms(3,2) r one]
  show "count (holds s' a) (copy_of r) = 1" .
qed

theorem every_row_copied_once_witness:
  "demo_holds (snd demo_import) ''actor'' = {#marked_content ''likes tea'' ''r1''#}
   \<and> count (demo_holds (snd demo_import) ''actor'') (marked_content ''likes tea'' ''r1'') = 1"
proof -
  let ?r = "\<lparr>sw_id = ''r1'', sw_principal = ''ann'', sw_namespace = None, sw_content = ''likes tea''\<rparr>"
  have "?r \<in> set demo_table" by (simp add: demo_table_def)
  moreover have "target_actor [(''ann'', ''actor'')] None ?r = Some ''actor''" by code_simp
  moreover have "copies demo_holds [] a i \<le> 1" for a i by (simp add: copies_def demo_holds_def)
  moreover have "own_marks demo_holds demo_table []" by (simp add: own_marks_def demo_holds_def)
  ultimately have "count (demo_holds (snd demo_import) ''actor'') (copy_of ?r) = 1"
    using every_row_copied_once [OF demo_destination demo_table_ok demo_import_result [unfolded demo_import_def]]
    unfolding demo_import_def by blast
  moreover have "demo_holds (snd demo_import) ''actor'' = {#marked_content ''likes tea'' ''r1''#}"
  proof -
    have "map snd (filter (\<lambda>e. fst e = ''actor'') (snd demo_import)) = [marked_content ''likes tea'' ''r1'']" by code_simp
    then show ?thesis by (simp add: demo_holds_def)
  qed
  ultimately show ?thesis by (simp add: copy_of_def)
qed

text \<open>
  An import can be rerun: after one that reported its counts, the same import on a destination whose
  listings are not full writes nothing.
\<close>

theorem rerun_writes_nothing:
  assumes "destination_ok add lst holds" and "list_all (\<lambda>r. good_id (sw_id r)) table" and "distinct (map sw_id table)"
    and "import_memories add lst actors only table s = (Imported ir, s')" and "\<And>a i. copies holds s a i \<le> 1"
    and "fst (import_memories add lst actors only table s') \<noteq> DestinationFull"
  shows "\<exists>ir'. import_memories add lst actors only table s' = (Imported ir', s') \<and> ir_written ir' = 0"
proof -
  obtain existing where e: "imported_ids lst (remdups (listed_actors actors only)) s' = Some existing"
    using assms(6) by (cases "imported_ids lst (remdups (listed_actors actors only)) s'") (auto simp: import_memories_def)
  let ?ps = "\<lparr>ps_existing = existing, ps_rows = 0, ps_written = 0, ps_skipped = 0, ps_unmapped = 0, ps_dest = s'\<rparr>"
  have "(a, sw_id r) \<in> ps_existing ?ps" if "r \<in> set (selected table only [])" "target_actor actors only r = Some a" for r a
  proof -
    have "r \<in> set table" using that(1) by (auto simp: selected_def)
    then have "copies holds s' a (sw_id r) = 1"
      using import_copies [OF assms(1-4) assms(5)] that(2) by blast
    then show ?thesis using imported_ids_spec [OF assms(1) e] target_listed [OF that(2)] by simp
  qed
  then obtain ps where "copy_rows add actors only (selected table only []) ?ps = (True, ps)" "ps_dest ps = s'" "ps_written ps = 0"
    using copy_rows_nothing [of "selected table only []" actors only ?ps add] by auto
  with e show ?thesis by (auto simp: import_memories_def copy_pages_all [OF assms(3)])
qed

theorem rerun_writes_nothing_witness:
  "\<exists>ir'. import_memories demo_add demo_list [(''ann'', ''actor'')] None demo_table (snd demo_import) = (Imported ir', snd demo_import)
    \<and> ir_written ir' = 0"
proof (rule rerun_writes_nothing [OF demo_destination demo_table_ok demo_import_result [unfolded demo_import_def], folded demo_import_def])
  show "copies demo_holds [] a i \<le> 1" for a i by (simp add: copies_def demo_holds_def)
  show "fst (import_memories demo_add demo_list [(''ann'', ''actor'')] None demo_table (snd demo_import)) \<noteq> DestinationFull"
    by code_simp
qed

end
