(* ===== verification/Release_Control.thy ===== *)
theory Release_Control
  imports Apx_Prelude
begin

text \<open>
  Releases of a deployed app: restoring a snapshot (\<open>_app_releases.py\<close>), the deploy record kept in the
  workspace with its audit trail (\<open>_deploy_state.py\<close>), and the endpoint hot swap (\<open>_hot_swap_apps.py\<close>).

  The platform is a record of operations on a world: reads look at it, \<open>deploy\<close> and waiting for a deployment
  may change it, since other clients work on the same app.  A read or write that raises is \<open>None\<close>.
\<close>

subsection \<open>Releases\<close>

datatype deploy_mode = Snapshot | AutoSync

datatype deploy_state = Succeeded | Failed | InProgress | Stopped

record deployment =
  dp_id :: "string option"
  dp_mode :: "deploy_mode option"
  dp_state :: "deploy_state option"
  dp_artifact :: "string option"
  dp_source :: "string option"
  dp_command :: "string list option"
  dp_env :: "(string \<times> string) list option"
  dp_created :: "string option"
  dp_updated :: "string option"

record app =
  ap_name :: string
  ap_active :: "string option option"
  ap_pending :: bool
  ap_user_scopes :: "string list"
  ap_effective_scopes :: "string list"
  ap_forward_token :: "bool option"
  ap_space :: "string option"
  ap_resources :: "string list"

record 'w platform =
  pf_app :: "string \<Rightarrow> 'w \<Rightarrow> app option"
  pf_deployment :: "string \<Rightarrow> string \<Rightarrow> 'w \<Rightarrow> deployment option"
  pf_deployments :: "string \<Rightarrow> 'w \<Rightarrow> deployment list"
  pf_deploy :: "string \<Rightarrow> deployment \<Rightarrow> 'w \<Rightarrow> string option option \<times> 'w"
  pf_wait :: "string \<Rightarrow> string \<Rightarrow> pyfloat \<Rightarrow> 'w \<Rightarrow> bool \<times> 'w"

record metadata =
  md_id :: "string option"
  md_active :: bool
  md_mode :: "deploy_mode option"
  md_state :: "deploy_state option"
  md_path :: "string option"
  md_created :: "string option"
  md_updated :: "string option"

definition release_metadata :: "deployment \<Rightarrow> string option \<Rightarrow> metadata" where
  "release_metadata d active =
     \<lparr>md_id = dp_id d, md_active = (dp_id d \<noteq> None \<and> dp_id d = active), md_mode = dp_mode d, md_state = dp_state d,
      md_path = dp_artifact d, md_created = dp_created d, md_updated = dp_updated d\<rparr>"

definition active_id :: "app \<Rightarrow> string option" where
  "active_id a = (case ap_active a of None \<Rightarrow> None | Some i \<Rightarrow> i)"

definition list_app_releases :: "'w platform \<Rightarrow> string \<Rightarrow> 'w \<Rightarrow> (string \<times> string option \<times> metadata list) option" where
  "list_app_releases pf name w =
     (case pf_app pf name w of
        None \<Rightarrow> None
      | Some a \<Rightarrow> Some (name, active_id a, map (\<lambda>d. release_metadata d (active_id a)) (pf_deployments pf name w)))"

text \<open>The stable path of a snapshot, or the two refusals.\<close>

datatype release_error =
    EmptyName | BadTimeout | PlatformError | NameMismatch | IdMismatch | NotASnapshot | NoStablePath
  | GovernanceDiffers | CrossApp | PendingDeployment | RestoreFailed

definition snapshot_path :: "deployment \<Rightarrow> release_error + string" where
  "snapshot_path d =
     (if dp_mode d \<noteq> Some Snapshot \<or> dp_state d \<noteq> Some Succeeded then Inl NotASnapshot
      else (case dp_artifact d of
         None \<Rightarrow> Inl NoStablePath
       | Some p \<Rightarrow> if strip p = [] then Inl NoStablePath else Inr p))"

text \<open>Resources are compared by their JSON text.\<close>

definition governance ::
  "(string list \<Rightarrow> string list) \<Rightarrow> app \<Rightarrow> string list \<times> string list \<times> bool option \<times> string option \<times> string list" where
  "governance sorted_list a =
     (sorted_list (ap_user_scopes a), sorted_list (ap_effective_scopes a), ap_forward_token a, ap_space a, sorted_list (ap_resources a))"

text \<open>Everything that is checked before the deployment; the path and the selected release.\<close>

definition preflight ::
  "(string list \<Rightarrow> string list) \<Rightarrow> 'w platform \<Rightarrow> string \<Rightarrow> string \<Rightarrow> string option \<Rightarrow> pyfloat \<Rightarrow> 'w \<Rightarrow> release_error + deployment \<times> string" where
  "preflight sorted_list pf source i dest timeout w =
     (let target = (case dest of None \<Rightarrow> source | Some t \<Rightarrow> t)
      in if strip source = [] \<or> strip i = [] then Inl EmptyName
         else if timeout \<le> 0 then Inl BadTimeout
         else if strip target = [] then Inl EmptyName
         else (case (pf_app pf source w, pf_app pf target w) of
            (Some s, Some d) \<Rightarrow>
              if ap_name s \<noteq> source \<or> ap_name d \<noteq> target then Inl NameMismatch
              else (case pf_deployment pf source i w of
                 None \<Rightarrow> Inl PlatformError
               | Some sel \<Rightarrow>
                   if dp_id sel \<noteq> Some i then Inl IdMismatch
                   else (case snapshot_path sel of
                      Inl e \<Rightarrow> Inl e
                    | Inr p \<Rightarrow>
                        if governance sorted_list s \<noteq> governance sorted_list d then Inl GovernanceDiffers
                        else if target \<noteq> source then Inl CrossApp
                        else if ap_pending d then Inl PendingDeployment
                        else Inr (sel, p)))
          | _ \<Rightarrow> Inl PlatformError))"

definition restore_request :: "deployment \<Rightarrow> string \<Rightarrow> deployment" where
  "restore_request sel p =
     \<lparr>dp_id = None, dp_mode = Some Snapshot, dp_state = None, dp_artifact = None, dp_source = Some p,
      dp_command = dp_command sel, dp_env = dp_env sel, dp_created = None, dp_updated = None\<rparr>"

text \<open>What is read back after the deployment has to be it, active and with the same overrides.\<close>

definition verified :: "'w platform \<Rightarrow> string \<Rightarrow> deployment \<Rightarrow> string \<Rightarrow> string \<Rightarrow> 'w \<Rightarrow> deployment option" where
  "verified pf target sel p new w =
     (case (pf_deployment pf target new w, pf_app pf target w) of
        (Some d, Some a) \<Rightarrow>
          (case snapshot_path d of
             Inl e \<Rightarrow> None
           | Inr q \<Rightarrow>
               if dp_id d \<noteq> Some new \<or> dp_source d \<noteq> Some p \<or> dp_command d \<noteq> dp_command sel \<or> dp_env d \<noteq> dp_env sel
                  \<or> ap_name a \<noteq> target \<or> ap_active a \<noteq> Some (Some new)
               then None else Some d)
      | _ \<Rightarrow> None)"

definition restore_app_release ::
  "(string list \<Rightarrow> string list) \<Rightarrow> 'w platform \<Rightarrow> string \<Rightarrow> string \<Rightarrow> string option \<Rightarrow> pyfloat \<Rightarrow> 'w
    \<Rightarrow> (release_error + string \<times> string \<times> metadata) \<times> 'w" where
  "restore_app_release sorted_list pf source i dest timeout w =
     (case preflight sorted_list pf source i dest timeout w of
        Inl e \<Rightarrow> (Inl e, w)
      | Inr (sel, p) \<Rightarrow>
          (case pf_deploy pf source (restore_request sel p) w of
             (Some (Some new), w1) \<Rightarrow>
               if new = [] \<or> new = i then (Inl RestoreFailed, w1)
               else (case pf_wait pf source new timeout w1 of
                  (False, w2) \<Rightarrow> (Inl RestoreFailed, w2)
                | (True, w2) \<Rightarrow>
                    (case verified pf source sel p new w2 of
                       None \<Rightarrow> (Inl RestoreFailed, w2)
                     | Some d \<Rightarrow> (Inr (source, i, release_metadata d (Some new)), w2)))
           | (_, w1) \<Rightarrow> (Inl RestoreFailed, w1)))"

subsection \<open>The deploy record\<close>

record audit_entry =
  au_action :: string
  au_deployer :: string
  au_timestamp :: string
  au_resource :: string

record deploy_record =
  de_app :: string
  de_target :: string
  de_url :: "string option"
  de_experiment :: "string option"
  de_framework :: "string option"
  de_sha :: "string option"
  de_wheel :: "string option"
  de_at :: string
  de_audit :: "audit_entry list"

definition max_audit_entries :: nat where
  "max_audit_entries = 50"

definition workspace_state_path :: "string \<Rightarrow> string \<Rightarrow> string" where
  "workspace_state_path app_name bundle_target = ''/Shared/apx-agent/'' @ app_name @ ''/_state/'' @ bundle_target @ ''.json''"

text \<open>The workspace: files by path; a file that is no valid record reads as missing.\<close>

definition load_deploy_state :: "string \<Rightarrow> string \<Rightarrow> deploy_record dict \<Rightarrow> deploy_record option" where
  "load_deploy_state app_name bundle_target files = dget files (workspace_state_path app_name bundle_target)"

definition save_deploy_state :: "deploy_record \<Rightarrow> string \<Rightarrow> string \<Rightarrow> string \<Rightarrow> deploy_record dict \<Rightarrow> deploy_record dict" where
  "save_deploy_state st deployer action now files =
     (let path = workspace_state_path (de_app st) (de_target st);
          prior = (case dget files path of None \<Rightarrow> [] | Some old \<Rightarrow> de_audit old);
          entries = (if deployer \<noteq> [] \<or> action \<noteq> []
            then prior @ [\<lparr>au_action = action, au_deployer = deployer, au_timestamp = now, au_resource = de_app st\<rparr>] else prior)
      in dset path (st\<lparr>de_audit := py_last max_audit_entries entries\<rparr>) files)"

definition delete_deploy_state :: "string \<Rightarrow> string \<Rightarrow> deploy_record dict \<Rightarrow> deploy_record dict" where
  "delete_deploy_state app_name bundle_target files = ddel (workspace_state_path app_name bundle_target) files"

subsection \<open>Hot swap\<close>

text \<open>The default of a bundle variable, short or long form; \<open>str\<close> renders a value.\<close>

definition read_var_default :: "(pyval \<Rightarrow> string) \<Rightarrow> (string \<times> pyval) list \<Rightarrow> string \<Rightarrow> string option" where
  "read_var_default str doc name =
     (case pget doc ''variables'' of
        PDict vars \<Rightarrow>
          (case pget vars name of
             PNone \<Rightarrow> None
           | PDict entry \<Rightarrow> if pget entry ''default'' = PNone then None else Some (str (pget entry ''default''))
           | v \<Rightarrow> Some (str v))
      | _ \<Rightarrow> None)"

datatype swap_error = NoBundle | NoVariable | DeployFailed int | BadDocument

text \<open>\<open>(doc.get("variables") or {}).get(name)\<close>: a truthy value that is no dict has no \<open>get\<close>.\<close>

definition variable_entry :: "(string \<times> pyval) list \<Rightarrow> string \<Rightarrow> swap_error + pyval" where
  "variable_entry doc name =
     (if \<not> truthy (pget doc ''variables'') then Inr PNone
      else (case pget doc ''variables'' of PDict vars \<Rightarrow> Inr (pget vars name) | _ \<Rightarrow> Inl BadDocument))"

definition hot_swap_apps ::
  "(pyval \<Rightarrow> string) \<Rightarrow> (string list \<Rightarrow> 'w \<Rightarrow> int \<times> 'w) \<Rightarrow> (string \<times> pyval) list option \<Rightarrow> string \<Rightarrow> string \<Rightarrow> string \<Rightarrow> string \<Rightarrow> 'w
    \<Rightarrow> (swap_error + string \<times> string \<times> string \<times> string \<times> string option) \<times> 'w" where
  "hot_swap_apps str run_cmd file app_name value bundle_target name w =
     (case file of
        None \<Rightarrow> (Inl NoBundle, w)
      | Some doc \<Rightarrow>
          (let previous = read_var_default str doc name;
               entry = (if previous = None then variable_entry doc name else Inr (PBool True))
           in case entry of
                Inl e \<Rightarrow> (Inl e, w)
              | Inr v \<Rightarrow>
                  if v = PNone then (Inl NoVariable, w)
                  else (case run_cmd [''bundle'', ''deploy'', ''--target'', bundle_target, ''--var'', name @ ''='' @ value] w of
                      (code, w') \<Rightarrow> if code \<noteq> 0 then (Inl (DeployFailed code), w')
                        else (Inr (app_name, bundle_target, name, value, previous), w'))))"

subsection \<open>What a restore does\<close>

text \<open>
  A restore deploys at most once.  If a check refuses it, nothing is deployed and the world is as it was.
  Otherwise the one deployment is the selected snapshot's stable path with its own command and environment, in
  the same app; and when the restore reports success, the app's active deployment is the new one, built from
  that path.
\<close>

theorem restore_deploys_at_most_once:
  assumes "restore_app_release sorted_list pf source i dest timeout w = (res, w')"
  shows "case preflight sorted_list pf source i dest timeout w of
      Inl e \<Rightarrow> res = Inl e \<and> w' = w
    | Inr (sel, p) \<Rightarrow>
        pf_deployment pf source i w = Some sel \<and> snapshot_path sel = Inr p \<and> (dest = None \<or> dest = Some source)
        \<and> (\<exists>out w1. pf_deploy pf source (restore_request sel p) w = (out, w1)
            \<and> (w' = w1 \<or> (\<exists>new. w' = snd (pf_wait pf source new timeout w1)))
            \<and> (res = Inl RestoreFailed
               \<or> (\<exists>new d a. res = Inr (source, i, release_metadata d (Some new)) \<and> new \<noteq> i
                   \<and> pf_app pf source w' = Some a \<and> ap_active a = Some (Some new)
                   \<and> pf_deployment pf source new w' = Some d \<and> dp_source d = Some p \<and> dp_command d = dp_command sel \<and> dp_env d = dp_env sel)))"
proof (cases "preflight sorted_list pf source i dest timeout w")
  case (Inl e)
  with assms show ?thesis by (simp add: restore_app_release_def)
next
  case (Inr sp)
  obtain sel p where sp: "sp = (sel, p)" by (cases sp)
  have pre: "pf_deployment pf source i w = Some sel \<and> snapshot_path sel = Inr p \<and> (dest = None \<or> dest = Some source)"
    using Inr sp by (auto simp: preflight_def Let_def split: if_splits option.splits sum.splits)
  obtain out w1 where dep: "pf_deploy pf source (restore_request sel p) w = (out, w1)" by (cases "pf_deploy pf source (restore_request sel p) w")
  show ?thesis
  proof (cases "\<exists>new. out = Some (Some new) \<and> new \<noteq> [] \<and> new \<noteq> i")
    case False
    with assms Inr sp dep have "res = Inl RestoreFailed \<and> w' = w1"
      by (auto simp: restore_app_release_def split: option.splits if_splits)
    with Inr sp pre dep show ?thesis by simp
  next
    case True
    then obtain new where new: "out = Some (Some new)" "new \<noteq> []" "new \<noteq> i" by blast
    obtain ok w2 where wait: "pf_wait pf source new timeout w1 = (ok, w2)" by (cases "pf_wait pf source new timeout w1")
    have w': "w' = w2" and r: "res = (case (if ok then verified pf source sel p new w2 else None) of
        None \<Rightarrow> Inl RestoreFailed | Some d \<Rightarrow> Inr (source, i, release_metadata d (Some new)))"
      using assms Inr sp dep new wait by (auto simp: restore_app_release_def split: option.splits bool.splits)
    have v: "\<exists>a. pf_app pf source w2 = Some a \<and> ap_active a = Some (Some new) \<and> pf_deployment pf source new w2 = Some d
        \<and> dp_source d = Some p \<and> dp_command d = dp_command sel \<and> dp_env d = dp_env sel" if "verified pf source sel p new w2 = Some d" for d
      using that by (auto simp: verified_def split: option.splits sum.splits if_splits)
    have "res = Inl RestoreFailed
        \<or> (\<exists>new d a. res = Inr (source, i, release_metadata d (Some new)) \<and> new \<noteq> i
            \<and> pf_app pf source w' = Some a \<and> ap_active a = Some (Some new)
            \<and> pf_deployment pf source new w' = Some d \<and> dp_source d = Some p \<and> dp_command d = dp_command sel \<and> dp_env d = dp_env sel)"
      using v new(3) unfolding r w' by (cases "if ok then verified pf source sel p new w2 else None") (auto split: if_splits)
    moreover have "w' = snd (pf_wait pf source new timeout w1)" using wait w' by simp
    ultimately show ?thesis using Inr sp pre dep by auto
  qed
qed

text \<open>An app with one release, whose platform deploys at once; the world tells whether it has.\<close>

definition demo_release :: "string \<Rightarrow> deployment" where
  "demo_release i = \<lparr>dp_id = Some i, dp_mode = Some Snapshot, dp_state = Some Succeeded, dp_artifact = Some ''/snap'',
     dp_source = Some ''/snap'', dp_command = None, dp_env = None, dp_created = None, dp_updated = None\<rparr>"

definition demo_platform :: "bool platform" where
  "demo_platform =
     \<lparr>pf_app = \<lambda>n w. Some \<lparr>ap_name = n, ap_active = Some (Some (if w then ''d2'' else ''d0'')), ap_pending = False,
        ap_user_scopes = [], ap_effective_scopes = [], ap_forward_token = None, ap_space = None, ap_resources = []\<rparr>,
      pf_deployment = \<lambda>n i w. Some (demo_release i), pf_deployments = \<lambda>n w. [demo_release ''d1''],
      pf_deploy = \<lambda>n d w. (Some (Some ''d2''), True), pf_wait = \<lambda>n i t w. (True, w)\<rparr>"

lemma demo_restore:
  "restore_app_release id demo_platform ''shop'' ''d1'' None 1 False = (Inr (''shop'', ''d1'', release_metadata (demo_release ''d2'') (Some ''d2'')), True)"
proof -
  have p: "preflight id demo_platform ''shop'' ''d1'' None 1 False = Inr (demo_release ''d1'', ''/snap'')"
  proof -
    have "strip ''shop'' \<noteq> []" "strip ''d1'' \<noteq> []" "strip ''/snap'' \<noteq> []" by code_simp+
    then show ?thesis by (simp add: preflight_def demo_platform_def demo_release_def snapshot_path_def)
  qed
  have "strip ''/snap'' \<noteq> []" by code_simp
  then have "verified demo_platform ''shop'' (demo_release ''d1'') ''/snap'' ''d2'' True = Some (demo_release ''d2'')"
    by (simp add: verified_def demo_platform_def demo_release_def snapshot_path_def)
  with p show ?thesis by (simp add: restore_app_release_def) (simp add: demo_platform_def)
qed

theorem restore_deploys_at_most_once_witness:
  "restore_app_release id demo_platform ''shop'' ''d1'' None 1 False = (Inr (''shop'', ''d1'', release_metadata (demo_release ''d2'') (Some ''d2'')), True)
    \<and> (\<exists>a. pf_app demo_platform ''shop'' True = Some a \<and> ap_active a = Some (Some ''d2''))"
proof -
  have "\<exists>sel p. preflight id demo_platform ''shop'' ''d1'' None 1 False = Inr (sel, p)"
    using demo_restore by (auto simp: restore_app_release_def split: sum.splits)
  then obtain sel p where "preflight id demo_platform ''shop'' ''d1'' None 1 False = Inr (sel, p)" by blast
  with restore_deploys_at_most_once [OF demo_restore] demo_restore show ?thesis
    by (auto simp: release_metadata_def demo_release_def)
qed

subsection \<open>What the record keeps\<close>

lemma path_unique:
  assumes "workspace_state_path a t = workspace_state_path a' t'" and "CHR ''/'' \<notin> set a" and "CHR ''/'' \<notin> set a'"
  shows "a = a' \<and> t = t'"
proof -
  have e: "a @ CHR ''/'' # (''_state/'' @ t @ ''.json'') = a' @ CHR ''/'' # (''_state/'' @ t' @ ''.json'')"
    using assms(1) by (simp add: workspace_state_path_def)
  have "takeWhile (\<lambda>c. c \<noteq> CHR ''/'') (b @ CHR ''/'' # r) = b" if "CHR ''/'' \<notin> set b" for b r
    using that by (induction b) auto
  with e assms(2,3) have "a = a'" by metis
  with e show ?thesis by simp
qed

text \<open>
  Saving keeps the history: the record is read back as saved, its audit trail is the former one with this
  action at the end, cut to the last fifty; the records of other apps and targets are untouched.
\<close>

lemma saved_state_loads:
  assumes "CHR ''/'' \<notin> set (de_app st)" and "CHR ''/'' \<notin> set a" and "action \<noteq> []"
  shows "load_deploy_state a t (save_deploy_state st deployer action now files) =
    (if a = de_app st \<and> t = de_target st then
       Some (st\<lparr>de_audit := py_last max_audit_entries
         ((case load_deploy_state a t files of None \<Rightarrow> [] | Some old \<Rightarrow> de_audit old)
          @ [\<lparr>au_action = action, au_deployer = deployer, au_timestamp = now, au_resource = de_app st\<rparr>])\<rparr>)
     else load_deploy_state a t files)"
  using path_unique [of a t "de_app st" "de_target st"] assms
  by (auto simp: load_deploy_state_def save_deploy_state_def Let_def dict_simps)

lemma audit_bounded:
  "load_deploy_state (de_app st) (de_target st) (save_deploy_state st deployer action now files) = Some st'
    \<Longrightarrow> length (de_audit st') \<le> max_audit_entries"
  by (auto simp: load_deploy_state_def save_deploy_state_def Let_def dict_simps length_py_last)

text \<open>The value returned for a rollback is the bundle's default, which need not be what was running.\<close>

lemma swap_reports_default:
  "hot_swap_apps str run_cmd (Some doc) app_name value bundle_target name w = (Inr (a, t, n, v, previous), w')
    \<Longrightarrow> previous = read_var_default str doc name \<and> (\<exists>code. run_cmd [''bundle'', ''deploy'', ''--target'', bundle_target, ''--var'', name @ ''='' @ value] w = (code, w') \<and> code = 0)"
  by (auto simp: hot_swap_apps_def Let_def split: sum.splits prod.splits if_splits)

end
