(* ===== verification/Canary_Apps.thy ===== *)
theory Canary_Apps
  imports Apx_Prelude "HOL-Library.Product_Lexorder"
begin

text \<open>
  Canaries of deployed apps (\<open>_canary_apps.py\<close>): names made of a version label, the target block in the bundle file, the
  comparison of traces, and the promotion that tears the canary down.

  A bundle is the parsed file and the history of what was run and written.  What a command answers depends on that
  history and is a parameter, as are the JSON reader and Python's \<open>str\<close> on values that are no string.
\<close>

subsection \<open>Names\<close>

datatype canary_error = BadVersion string | NoApp string | WrongType | NotServing string | DeployFailed string | DeployRaised

definition slug_char :: "char \<Rightarrow> bool" where
  "slug_char c \<longleftrightarrow> CHR ''a'' \<le> c \<and> c \<le> CHR ''z'' \<or> CHR ''0'' \<le> c \<and> c \<le> CHR ''9'' \<or> c = CHR ''-''"

definition dashed :: "char \<Rightarrow> char" where
  "dashed c = (if c \<in> {CHR ''_'', CHR ''/'', CHR ''.''} then CHR ''-'' else c)"

text \<open>A run of other characters becomes one dash.\<close>

fun dash_runs :: "bool \<Rightarrow> string \<Rightarrow> string" where
  "dash_runs inside [] = []"
| "dash_runs inside (c # cs) =
     (if slug_char c then c # dash_runs False cs
      else if inside then dash_runs True cs else CHR ''-'' # dash_runs True cs)"

definition sanitize_version :: "string \<Rightarrow> canary_error + string" where
  "sanitize_version version =
     (let cleaned = strip_by (\<lambda>c. c = CHR ''-'') (dash_runs False (map dashed (lower (strip version)))) in
      if cleaned = '''' then Inl (BadVersion version) else Inr cleaned)"

definition canary_target_name :: "string \<Rightarrow> canary_error + string" where
  "canary_target_name version = bind_result (sanitize_version version) (\<lambda>s. Inr (''canary-'' @ s))"

definition canary_app_name :: "string \<Rightarrow> string \<Rightarrow> canary_error + string" where
  "canary_app_name base version = bind_result (sanitize_version version) (\<lambda>s. Inr (base @ ''-canary-'' @ s))"

subsection \<open>The bundle file\<close>

text \<open>\<open>d.setdefault(k, {})\<close> and \<open>k in v\<close>.\<close>

definition or_new_dict :: "pyval dict \<Rightarrow> string \<Rightarrow> pyval" where
  "or_new_dict d k = (case dget d k of None \<Rightarrow> PDict [] | Some v \<Rightarrow> v)"

definition has_member :: "string \<Rightarrow> pyval \<Rightarrow> bool option" where
  "has_member k v =
     (case v of
        PDict d \<Rightarrow> Some (dget d k \<noteq> None)
      | PList vs \<Rightarrow> Some (PStr k \<in> set vs)
      | PStr s \<Rightarrow> Some (str_contains k s)
      | _ \<Rightarrow> None)"

definition canary_overlay :: "string \<Rightarrow> string \<Rightarrow> pyval" where
  "canary_overlay key app = PDict [(''resources'', PDict [(''apps'', PDict [(key, PDict [(''name'', PStr app)])])])]"

definition add_canary_target :: "pyval dict \<Rightarrow> string \<Rightarrow> string \<Rightarrow> string \<Rightarrow> canary_error + pyval dict" where
  "add_canary_target doc key base version =
     bind_result (canary_target_name version) (\<lambda>target.
     bind_result (canary_app_name base version) (\<lambda>app.
       case or_new_dict doc ''resources'' of
         PDict rs \<Rightarrow>
           (let apps = or_new_dict rs ''apps'' in
            case has_member key apps of
              None \<Rightarrow> Inl WrongType
            | Some present \<Rightarrow>
                if \<not> present then Inl (NoApp key)
                else (let doc1 = dset ''resources'' (PDict (dset ''apps'' apps rs)) doc in
                      case or_new_dict doc1 ''targets'' of
                        PDict ts \<Rightarrow> Inr (dset ''targets'' (PDict (dset target (canary_overlay key app) ts)) doc1)
                      | _ \<Rightarrow> Inl WrongType))
       | _ \<Rightarrow> Inl WrongType))"

definition remove_canary_target :: "pyval dict \<Rightarrow> string \<Rightarrow> canary_error + bool \<times> pyval dict" where
  "remove_canary_target doc version =
     bind_result (canary_target_name version) (\<lambda>target.
       case pget doc ''targets'' of
         PDict ts \<Rightarrow>
           if dget ts target = None then Inr (False, doc) else Inr (True, dset ''targets'' (PDict (ddel target ts)) doc)
       | _ \<Rightarrow> Inr (False, doc))"

subsection \<open>Comparing traces\<close>

text \<open>A trace is a row of a table or an object with an \<open>info\<close>.\<close>

record trace_info =
  ti_tags :: "pyval dict"
  ti_status :: pyval
  ti_time :: pyval

datatype trace = RowTrace "pyval dict" | ObjTrace "trace_info option"

definition trace_attrs :: "trace \<Rightarrow> pyval" where
  "trace_attrs t =
     (case t of
        RowTrace d \<Rightarrow> py_or (py_or (pget d ''tags'') (pget d ''attributes'')) (PDict [])
      | ObjTrace None \<Rightarrow> PDict []
      | ObjTrace (Some info) \<Rightarrow> PDict (ti_tags info))"

definition trace_status :: "trace \<Rightarrow> pyval" where
  "trace_status t = (case t of RowTrace d \<Rightarrow> pget d ''status'' | ObjTrace None \<Rightarrow> PNone | ObjTrace (Some info) \<Rightarrow> ti_status info)"

definition trace_time :: "trace \<Rightarrow> pyval" where
  "trace_time t =
     (case t of RowTrace d \<Rightarrow> pget d ''execution_time_ms'' | ObjTrace None \<Rightarrow> PNone | ObjTrace (Some info) \<Rightarrow> ti_time info)"

definition py_str :: "(pyval \<Rightarrow> string) \<Rightarrow> pyval \<Rightarrow> string" where
  "py_str shown v = (case v of PStr s \<Rightarrow> s | _ \<Rightarrow> shown v)"

definition trace_app :: "(pyval \<Rightarrow> string) \<Rightarrow> pyval dict \<Rightarrow> string" where
  "trace_app shown attrs = (let v = pget attrs ''apx.app.name'' in if truthy v then py_str shown v else ''unknown'')"

definition trace_version_key :: "(pyval \<Rightarrow> string) \<Rightarrow> pyval dict \<Rightarrow> string option" where
  "trace_version_key shown attrs =
     map_option (py_str shown) (find truthy [pget attrs ''apx.model_version'', pget attrs ''apx.git_sha''])"

text \<open>\<open>int(text)\<close>: a sign, then digits, which single underscores may group.\<close>

definition int_of_text :: "string \<Rightarrow> int option" where
  "int_of_text text =
     (let s = strip text; neg = starts_with ''-'' s; body = (if neg \<or> starts_with ''+'' s then tl s else s);
          groups = split_on (\<lambda>c. c = CHR ''_'') body
      in if list_all (\<lambda>g. g \<noteq> '''' \<and> list_all (\<lambda>c. CHR ''0'' \<le> c \<and> c \<le> CHR ''9'') g) groups
         then Some ((if neg then - 1 else 1) * fold (\<lambda>c n. 10 * n + (int (of_char c) - 48)) (concat groups) 0)
         else None)"

definition trace_latency :: "trace \<Rightarrow> int option" where
  "trace_latency t =
     (case trace_time t of
        PInt n \<Rightarrow> Some n
      | PBool b \<Rightarrow> Some (if b then 1 else 0)
      | PFloat x \<Rightarrow> Some (if x < 0 then - \<lfloor>- x\<rfloor> else \<lfloor>x\<rfloor>)
      | PStr s \<Rightarrow> int_of_text s
      | _ \<Rightarrow> None)"

record bucket =
  bk_requests :: nat
  bk_errors :: nat
  bk_latencies :: "int list"

definition empty_bucket :: bucket where
  "empty_bucket = \<lparr>bk_requests = 0, bk_errors = 0, bk_latencies = []\<rparr>"

definition failed_status :: "(pyval \<Rightarrow> string) \<Rightarrow> pyval \<Rightarrow> bool" where
  "failed_status shown v \<longleftrightarrow> truthy v \<and> upper (py_str shown v) \<notin> {''OK'', ''SUCCESS''}"

definition count_trace :: "(pyval \<Rightarrow> string) \<Rightarrow> trace \<Rightarrow> bucket \<Rightarrow> bucket" where
  "count_trace shown t b =
     \<lparr>bk_requests = Suc (bk_requests b),
      bk_errors = (if failed_status shown (trace_status t) then Suc (bk_errors b) else bk_errors b),
      bk_latencies = bk_latencies b @ (case trace_latency t of None \<Rightarrow> [] | Some n \<Rightarrow> [n])\<rparr>"

definition bucket_key :: "(pyval \<Rightarrow> string) \<Rightarrow> string \<Rightarrow> string \<Rightarrow> pyval dict \<Rightarrow> string" where
  "bucket_key shown live canary attrs =
     (case trace_version_key shown attrs of
        Some v \<Rightarrow> v
      | None \<Rightarrow> (let app = trace_app shown attrs in if app \<in> {live, canary} then app else ''unknown''))"

fun fill_buckets :: "(pyval \<Rightarrow> string) \<Rightarrow> string \<Rightarrow> string \<Rightarrow> trace list \<Rightarrow> bucket dict \<Rightarrow> canary_error + bucket dict" where
  "fill_buckets shown live canary [] bs = Inr bs"
| "fill_buckets shown live canary (t # ts) bs =
     (case trace_attrs t of
        PDict attrs \<Rightarrow>
          (let k = bucket_key shown live canary attrs; b = (case dget bs k of None \<Rightarrow> empty_bucket | Some b \<Rightarrow> b) in
           fill_buckets shown live canary ts (dset k (count_trace shown t b) bs))
      | _ \<Rightarrow> Inl WrongType)"

text \<open>\<open>round(a / b)\<close> for integers: to the nearest, ties to even.\<close>

definition round_quotient :: "int \<Rightarrow> int \<Rightarrow> int" where
  "round_quotient a b =
     (let q = a div b; r = a mod b in
      if 2 * r < b then q else if b < 2 * r then q + 1 else if even q then q else q + 1)"

definition percentile :: "int list \<Rightarrow> int \<Rightarrow> int option" where
  "percentile values p =
     (if values = [] then None
      else if p \<le> 0 then Some (hd values)
      else if 100 \<le> p then Some (last values)
      else Some (values ! nat (max 0 (min (int (length values) - 1) (round_quotient (int (length values) * p) 100 - 1)))))"

record metrics =
  mt_name :: string
  mt_requests :: nat
  mt_errors :: nat
  mt_p50 :: "int option"
  mt_p95 :: "int option"
  mt_avg :: "real option"

definition bucket_metrics :: "string \<Rightarrow> bucket \<Rightarrow> metrics" where
  "bucket_metrics name b =
     (let l = sort (bk_latencies b) in
      \<lparr>mt_name = name, mt_requests = bk_requests b, mt_errors = bk_errors b, mt_p50 = percentile l 50, mt_p95 = percentile l 95,
       mt_avg = (if l = [] then None else Some (real_of_int (sum_list l) / real (length l)))\<rparr>)"

definition error_rate :: "metrics \<Rightarrow> real" where
  "error_rate m = (if mt_requests m = 0 then 0 else real (mt_errors m) / real (mt_requests m))"

definition report_rows :: "string \<Rightarrow> string \<Rightarrow> bucket dict \<Rightarrow> metrics list" where
  "report_rows live canary bs =
     map (\<lambda>n. bucket_metrics n (case dget bs n of None \<Rightarrow> empty_bucket | Some b \<Rightarrow> b)) [live, canary]
     @ (case dget bs ''unknown'' of None \<Rightarrow> [] | Some b \<Rightarrow> [bucket_metrics ''unknown'' b])
     @ map (\<lambda>k. bucket_metrics k (the (dget bs k))) (filter (\<lambda>k. k \<notin> {live, canary, ''unknown''}) (sort (map fst bs)))"

definition analyze_canary :: "(pyval \<Rightarrow> string) \<Rightarrow> string \<Rightarrow> string \<Rightarrow> trace list \<Rightarrow> canary_error + metrics list" where
  "analyze_canary shown live canary ts =
     bind_result (fill_buckets shown live canary ts []) (\<lambda>bs. Inr (report_rows live canary bs))"

definition best_by_latency :: "metrics list \<Rightarrow> metrics option" where
  "best_by_latency ms =
     (case filter (\<lambda>m. mt_p95 m \<noteq> None) ms of
        [] \<Rightarrow> None
      | m # rest \<Rightarrow> Some (py_min_by (\<lambda>m. (the (mt_p95 m), - int (mt_requests m))) m rest))"

definition best_by_error_rate :: "metrics list \<Rightarrow> metrics option" where
  "best_by_error_rate ms =
     (case filter (\<lambda>m. 0 < mt_requests m) ms of
        [] \<Rightarrow> None
      | m # rest \<Rightarrow> Some (py_min_by (\<lambda>m. (error_rate m, case mt_p95 m of None \<Rightarrow> 0 | Some n \<Rightarrow> n)) m rest))"

subsection \<open>Deploying and promoting\<close>

datatype cli_command = BundleDeploy string | BundleRun string string | AppsGet string | AppsDelete string

datatype event = Ran cli_command | Wrote "pyval dict" | Deployed string string "string dict"

record proc =
  returncode :: int
  out_text :: string

record bundle_dir =
  bd_doc :: "pyval dict"
  bd_log :: "event list"

type_synonym runner = "event list \<Rightarrow> cli_command \<Rightarrow> proc"

definition run_command :: "runner \<Rightarrow> cli_command \<Rightarrow> bundle_dir \<Rightarrow> proc \<times> bundle_dir" where
  "run_command run c w = (run (bd_log w) c, w\<lparr>bd_log := bd_log w @ [Ran c]\<rparr>)"

definition write_doc :: "pyval dict \<Rightarrow> bundle_dir \<Rightarrow> bundle_dir" where
  "write_doc doc w = \<lparr>bd_doc = doc, bd_log = bd_log w @ [Wrote doc]\<rparr>"

record canary_config =
  cf_target :: string
  cf_version :: string
  cf_prod :: string
  cf_canary :: string
  cf_traffic :: int

definition deploy_canary :: "(event list \<Rightarrow> string \<Rightarrow> string \<Rightarrow> string dict \<Rightarrow> bool) \<Rightarrow> string \<Rightarrow> string \<Rightarrow> string \<Rightarrow> int
    \<Rightarrow> string option \<Rightarrow> bundle_dir \<Rightarrow> (canary_error + canary_config) \<times> bundle_dir" where
  "deploy_canary deploy key base version traffic sha w =
     (case bind_result (canary_target_name version) (\<lambda>target.
           bind_result (canary_app_name base version) (\<lambda>app.
           bind_result (add_canary_target (bd_doc w) key base version) (\<lambda>doc.
           bind_result (sanitize_version version) (\<lambda>slug. Inr (target, app, doc, slug))))) of
        Inl x \<Rightarrow> (Inl x, w)
      | Inr (target, app, doc, slug) \<Rightarrow>
          (let w1 = write_doc doc w;
               tags = [(''apx.apps.role'', ''canary'')]
                      @ (case sha of None \<Rightarrow> [] | Some s \<Rightarrow> if s = '''' then [] else [(''apx.apps.git_sha'', s)]);
               w2 = w1\<lparr>bd_log := bd_log w1 @ [Deployed target app tags]\<rparr>
           in if deploy (bd_log w1) target app tags
              then (Inr \<lparr>cf_target = target, cf_version = slug, cf_prod = base, cf_canary = app, cf_traffic = traffic\<rparr>, w2)
              else (Inl DeployRaised, w2)))"

text \<open>\<open>(v.get(k) or {})\<close> and \<open>str(v or "").upper()\<close>.\<close>

definition sub_object :: "pyval \<Rightarrow> string \<Rightarrow> canary_error + pyval" where
  "sub_object v k =
     (case v of PDict d \<Rightarrow> Inr (py_or (pget d k) (PDict [])) | _ \<Rightarrow> Inl WrongType)"

definition state_text :: "(pyval \<Rightarrow> string) \<Rightarrow> pyval \<Rightarrow> canary_error + string" where
  "state_text shown v =
     (case v of
        PDict d \<Rightarrow> (let s = pget d ''state'' in Inr (upper (if truthy s then py_str shown s else '''')))
      | _ \<Rightarrow> Inl WrongType)"

definition serving_states :: "string \<Rightarrow> string \<Rightarrow> string \<Rightarrow> bool" where
  "serving_states app compute deployment \<longleftrightarrow>
     (app = ''RUNNING'' \<or> compute = ''ACTIVE'') \<and> deployment \<in> {'''', ''SUCCEEDED''}"

definition payload_serves :: "(pyval \<Rightarrow> string) \<Rightarrow> pyval \<Rightarrow> canary_error + bool" where
  "payload_serves shown payload =
     bind_result (bind_result (sub_object payload ''app_status'') (state_text shown)) (\<lambda>app.
     bind_result (bind_result (sub_object payload ''compute_status'') (state_text shown)) (\<lambda>compute.
     bind_result (bind_result (bind_result (sub_object payload ''active_deployment'') (\<lambda>d. sub_object d ''status'')) (state_text shown))
       (\<lambda>deployment. Inr (serving_states app compute deployment))))"

definition answer_serves :: "(string \<Rightarrow> pyval option) \<Rightarrow> (pyval \<Rightarrow> string) \<Rightarrow> proc \<Rightarrow> canary_error + bool" where
  "answer_serves loads shown p =
     (if returncode p \<noteq> 0 then Inr False
      else case loads (if out_text p = '''' then ''{}'' else out_text p) of
             None \<Rightarrow> Inr False
           | Some payload \<Rightarrow> payload_serves shown payload)"

definition prod_is_serving :: "(string \<Rightarrow> pyval option) \<Rightarrow> (pyval \<Rightarrow> string) \<Rightarrow> runner \<Rightarrow> string \<Rightarrow> bundle_dir
    \<Rightarrow> (canary_error + bool) \<times> bundle_dir" where
  "prod_is_serving loads shown run base w = (let (p, w1) = run_command run (AppsGet base) w in (answer_serves loads shown p, w1))"

definition teardown_canary :: "runner \<Rightarrow> string \<Rightarrow> string \<Rightarrow> bundle_dir \<Rightarrow> (canary_error + bool) \<times> bundle_dir" where
  "teardown_canary run base version w =
     (case remove_canary_target (bd_doc w) version of
        Inl x \<Rightarrow> (Inl x, w)
      | Inr (removed, doc) \<Rightarrow>
          (let w1 = (if removed then write_doc doc w else w) in
           case canary_app_name base version of
             Inl x \<Rightarrow> (Inl x, w1)
           | Inr app \<Rightarrow> (let (p, w2) = run_command run (AppsDelete app) w1 in (Inr removed, w2))))"

record promote_result =
  pr_prod :: string
  pr_version :: string
  pr_removed :: bool

definition promote_canary :: "(string \<Rightarrow> pyval option) \<Rightarrow> (pyval \<Rightarrow> string) \<Rightarrow> runner \<Rightarrow> string \<Rightarrow> string \<Rightarrow> string \<Rightarrow> string \<Rightarrow> bool
    \<Rightarrow> bundle_dir \<Rightarrow> (canary_error + promote_result) \<times> bundle_dir" where
  "promote_canary loads shown run key base version target keep w =
     (let (p, w1) = run_command run (BundleDeploy target) w in
      if returncode p \<noteq> 0 then (Inl (DeployFailed target), w1)
      else
        (let (q, w2) = run_command run (BundleRun key target) w1; (ok, w3) = prod_is_serving loads shown run base w2 in
         case ok of
           Inl x \<Rightarrow> (Inl x, w3)
         | Inr serving \<Rightarrow>
             if \<not> serving then (Inl (NotServing base), w3)
             else
               (let (removed, w4) = (if keep then (Inr False, w3) else teardown_canary run base version w3) in
                (bind_result removed (\<lambda>r.
                 bind_result (sanitize_version version) (\<lambda>slug. Inr \<lparr>pr_prod = base, pr_version = slug, pr_removed = r\<rparr>)), w4))))"

definition rollback_canary :: "(string \<Rightarrow> pyval option) \<Rightarrow> (pyval \<Rightarrow> string) \<Rightarrow> runner \<Rightarrow> string \<Rightarrow> string \<Rightarrow> string \<Rightarrow> string
    \<Rightarrow> bundle_dir \<Rightarrow> (canary_error + promote_result) \<times> bundle_dir" where
  "rollback_canary loads shown run key base version target w = promote_canary loads shown run key base version target False w"

subsection \<open>Labels\<close>

lemma slug_lower: "slug_char c \<Longrightarrow> lower_char c = c \<and> dashed c = c \<and> \<not> is_space c"
proof -
  assume "slug_char c"
  then consider "97 \<le> (of_char c :: nat)" "(of_char c :: nat) \<le> 122" | "48 \<le> (of_char c :: nat)" "(of_char c :: nat) \<le> 57" | "c = CHR ''-''"
    unfolding slug_char_def less_eq_char_def by fastforce
  then show ?thesis
  proof cases
    case 1
    then have "lower_char c = c" by (simp add: lower_char_def Let_def)
    moreover have "c \<notin> {CHR ''_'', CHR ''/'', CHR ''.''}" "\<not> is_space c" using 1 unfolding is_space_def by auto
    ultimately show ?thesis by (simp add: dashed_def)
  next
    case 2
    then have "lower_char c = c" by (simp add: lower_char_def Let_def)
    moreover have "c \<notin> {CHR ''_'', CHR ''/'', CHR ''.''}" "\<not> is_space c" using 2 unfolding is_space_def by auto
    ultimately show ?thesis by (simp add: dashed_def)
  next
    case 3
    show ?thesis unfolding 3 by code_simp
  qed
qed

lemma dash_runs_slug: "list_all slug_char (dash_runs b s)"
  by (induction b s rule: dash_runs.induct) (auto simp: slug_char_def)

lemma dash_runs_id: "list_all slug_char s \<Longrightarrow> dash_runs False s = s"
  by (induction s) auto

lemma slug_unchanged: "list_all slug_char s \<Longrightarrow> map dashed (lower (strip s)) = s"
proof -
  assume s: "list_all slug_char s"
  then have "strip s = s" unfolding strip_def using slug_lower by (intro strip_by_id) (cases s; auto simp: list_all_iff)
  moreover have "map dashed (lower s) = s" using s slug_lower by (induction s) (auto simp: lower_def)
  ultimately show ?thesis by simp
qed

text \<open>a canary's name is a valid slug, and taking a name for a label changes nothing.\<close>

theorem sanitized_label_is_a_slug:
  assumes "sanitize_version version = Inr s"
  shows "s \<noteq> [] \<and> list_all slug_char s \<and> hd s \<noteq> CHR ''-'' \<and> last s \<noteq> CHR ''-'' \<and> sanitize_version s = Inr s"
proof -
  let ?d = "\<lambda>c. c = CHR ''-''"
  from assms have s: "s = strip_by ?d (dash_runs False (map dashed (lower (strip version))))" "s \<noteq> []"
    by (auto simp: sanitize_version_def Let_def split: if_splits)
  then have ends: "hd s \<noteq> CHR ''-'' \<and> last s \<noteq> CHR ''-''"
    using hd_strip_by [of ?d "dash_runs False (map dashed (lower (strip version)))"] by simp
  have slug: "list_all slug_char s"
    using set_strip_by [of ?d] dash_runs_slug s(1) by (metis list_all_iff subset_code(1))
  then have "sanitize_version s = Inr s"
    using ends s(2) by (simp add: sanitize_version_def Let_def slug_unchanged dash_runs_id strip_by_id)
  with s(2) slug ends show ?thesis by simp
qed

lemma sanitized_label_is_a_slug_witness: "sanitize_version ''feat-x'' = Inr ''feat-x''"
proof -
  have "sanitize_version ''Feat/X '' = Inr ''feat-x''" by code_simp
  from sanitized_label_is_a_slug [OF this] show ?thesis by simp
qed

text \<open>Different labels can share a name, so that one canary replaces the other.\<close>

lemma labels_can_collide: "sanitize_version ''v1.0'' = Inr ''v1-0''" "sanitize_version ''v1_0'' = Inr ''v1-0''"
  by code_simp+

subsection \<open>Percentiles\<close>

lemma round_quotient_mono: "a \<le> b \<Longrightarrow> round_quotient a 100 \<le> round_quotient b 100"
proof -
  assume ab: "a \<le> b"
  then have q: "a div 100 \<le> b div 100" by (rule zdiv_mono1) simp
  show ?thesis
  proof (cases "a div 100 = b div 100")
    case True
    with ab have "a mod 100 \<le> b mod 100" by (simp add: minus_div_mult_eq_mod [symmetric])
    with True show ?thesis by (auto simp: round_quotient_def Let_def)
  next
    case False
    with q show ?thesis by (auto simp: round_quotient_def Let_def)
  qed
qed

lemma percentile_in: "percentile l p = Some x \<Longrightarrow> x \<in> set l"
proof -
  assume a: "percentile l p = Some x"
  then have l: "l \<noteq> []" by (auto simp: percentile_def)
  let ?i = "nat (max 0 (min (int (length l) - 1) (round_quotient (int (length l) * p) 100 - 1)))"
  from l have "?i < length l" by (cases l) auto
  with a l show ?thesis by (auto simp: percentile_def split: if_splits)
qed

lemma percentile_mono:
  assumes "sorted l" and "percentile l p = Some x" and "percentile l q = Some y" and "0 < p" and "p \<le> q" and "q < 100"
  shows "x \<le> y"
proof -
  from assms(2) have l: "l \<noteq> []" by (auto simp: percentile_def)
  let ?i = "\<lambda>p. nat (max 0 (min (int (length l) - 1) (round_quotient (int (length l) * p) 100 - 1)))"
  have "x = l ! ?i p" "y = l ! ?i q" using assms by (auto simp: percentile_def split: if_splits)
  moreover have "round_quotient (int (length l) * p) 100 \<le> round_quotient (int (length l) * q) 100"
    using assms(5) by (intro round_quotient_mono mult_left_mono) auto
  then have "?i p \<le> ?i q" by (intro nat_mono) auto
  moreover have "?i q < length l" using l by (cases l) auto
  ultimately show ?thesis using assms(1) by (simp add: sorted_nth_mono)
qed

subsection \<open>No trace is dropped\<close>

text \<open>What the buckets hold together, by some measure of a bucket.\<close>

definition held :: "(bucket \<Rightarrow> nat) \<Rightarrow> bucket dict \<Rightarrow> nat" where
  "held g bs = sum_list (map (\<lambda>(k, b). g b) bs)"

definition at_key :: "(bucket \<Rightarrow> nat) \<Rightarrow> bucket dict \<Rightarrow> string \<Rightarrow> nat" where
  "at_key g bs k = (case dget bs k of None \<Rightarrow> 0 | Some b \<Rightarrow> g b)"

lemma held_dset: "held g (dset k b bs) + at_key g bs k = held g bs + g b"
proof (induction bs)
  case (Cons p bs)
  then show ?case by (cases p) (auto simp: held_def at_key_def)
qed (simp add: held_def at_key_def)

lemma held_sum: "dict_wf bs \<Longrightarrow> held g bs = (\<Sum>k \<in> fst ` set bs. at_key g bs k)"
proof (induction bs)
  case (Cons p bs)
  obtain k b where p: "p = (k, b)" by fastforce
  from Cons.prems have k: "k \<notin> fst ` set bs" and w: "dict_wf bs" by (auto simp: dict_wf_def p)
  then have "(\<Sum>x \<in> fst ` set bs. at_key g (p # bs) x) = (\<Sum>x \<in> fst ` set bs. at_key g bs x)"
    by (intro sum.cong) (auto simp: at_key_def p)
  then show ?case using Cons.IH [OF w] k by (simp add: held_def at_key_def p)
qed (simp add: held_def)

lemma fill_buckets_held:
  assumes "fill_buckets shown live canary ts bs = Inr cs" and "dict_wf bs"
  shows "dict_wf cs \<and> held bk_requests cs = held bk_requests bs + length ts
     \<and> held bk_errors cs = held bk_errors bs + length (filter (\<lambda>t. failed_status shown (trace_status t)) ts)"
  using assms
proof (induction ts arbitrary: bs)
  case (Cons t ts)
  from Cons.prems obtain attrs where a: "trace_attrs t = PDict attrs" by (auto split: pyval.splits)
  define k where "k = bucket_key shown live canary attrs"
  define b where "b = (case dget bs k of None \<Rightarrow> empty_bucket | Some b \<Rightarrow> b)"
  from Cons.prems(1) a have f: "fill_buckets shown live canary ts (dset k (count_trace shown t b) bs) = Inr cs"
    by (simp add: k_def b_def Let_def)
  have "at_key bk_requests bs k = bk_requests b" "at_key bk_errors bs k = bk_errors b"
    by (auto simp: at_key_def b_def empty_bucket_def split: option.splits)
  with held_dset [of bk_requests k "count_trace shown t b" bs] held_dset [of bk_errors k "count_trace shown t b" bs]
  have "held bk_requests (dset k (count_trace shown t b) bs) = Suc (held bk_requests bs)"
    "held bk_errors (dset k (count_trace shown t b) bs)
       = held bk_errors bs + (if failed_status shown (trace_status t) then 1 else 0)" by (auto simp: count_trace_def)
  with Cons.IH [OF f] Cons.prems(2) show ?case by (auto simp: dict_wf_dset)
qed (simp add: held_def)

definition row_of :: "bucket dict \<Rightarrow> string \<Rightarrow> metrics" where
  "row_of bs k = bucket_metrics k (case dget bs k of None \<Rightarrow> empty_bucket | Some b \<Rightarrow> b)"

lemma report_rows_names:
  "report_rows live canary bs =
     map (row_of bs) ([live, canary] @ (if ''unknown'' \<in> fst ` set bs then [''unknown''] else [])
                      @ filter (\<lambda>k. k \<notin> {live, canary, ''unknown''}) (sort (map fst bs)))"
proof -
  have "map (\<lambda>k. bucket_metrics k (the (dget bs k))) (filter (\<lambda>k. k \<notin> {live, canary, ''unknown''}) (sort (map fst bs)))
      = map (row_of bs) (filter (\<lambda>k. k \<notin> {live, canary, ''unknown''}) (sort (map fst bs)))"
    using dget_None_iff [of bs] by (intro map_cong) (auto simp: row_of_def split: option.splits)
  moreover have "(case dget bs ''unknown'' of None \<Rightarrow> [] | Some b \<Rightarrow> [bucket_metrics ''unknown'' b])
      = map (row_of bs) (if ''unknown'' \<in> fst ` set bs then [''unknown''] else [])"
    using dget_None_iff [of bs "''unknown''"] by (auto simp: row_of_def split: option.splits)
  ultimately show ?thesis unfolding report_rows_def by (simp add: row_of_def del: set_sort)
qed

lemma row_of_counts: "mt_requests (row_of bs k) = at_key bk_requests bs k" "mt_errors (row_of bs k) = at_key bk_errors bs k"
  by (auto simp: row_of_def bucket_metrics_def at_key_def empty_bucket_def Let_def split: option.splits)

lemma mt_name_row [simp]: "mt_name (row_of bs k) = k"
  by (simp add: row_of_def bucket_metrics_def Let_def)

lemma report_rows_held:
  assumes "dict_wf bs" and "distinct [live, canary, ''unknown'']"
  shows "distinct (map mt_name (report_rows live canary bs))"
    and "sum_list (map mt_requests (report_rows live canary bs)) = held bk_requests bs"
    and "sum_list (map mt_errors (report_rows live canary bs)) = held bk_errors bs"
proof -
  let ?ks = "[live, canary] @ (if ''unknown'' \<in> fst ` set bs then [''unknown''] else [])
     @ filter (\<lambda>k. k \<notin> {live, canary, ''unknown''}) (sort (map fst bs))"
  have d: "distinct ?ks" using assms by (auto simp: dict_wf_def)
  have n: "map mt_name (report_rows live canary bs) = ?ks" unfolding report_rows_names by (simp add: o_def)
  show "distinct (map mt_name (report_rows live canary bs))" unfolding n by (rule d)
  have s: "(\<Sum>k \<leftarrow> ?ks. at_key g bs k) = held g bs" for g
  proof -
    have "(\<Sum>k \<leftarrow> ?ks. at_key g bs k) = (\<Sum>k \<in> set ?ks. at_key g bs k)" by (rule sum_list_distinct_conv_sum_set [OF d])
    also have "\<dots> = (\<Sum>k \<in> fst ` set bs. at_key g bs k)"
    proof (rule sum.mono_neutral_right)
      show "fst ` set bs \<subseteq> set ?ks"
      proof
        fix k
        assume "k \<in> fst ` set bs"
        then show "k \<in> set ?ks" by (cases "k \<in> {live, canary, ''unknown''}") (auto intro: rev_image_eqI)
      qed
      show "\<forall>k \<in> set ?ks - fst ` set bs. at_key g bs k = 0" using dget_None_iff [of bs] unfolding at_key_def by (metis DiffD2 option.simps(4))
    qed simp
    also have "\<dots> = held g bs" by (rule held_sum [OF assms(1), symmetric])
    finally show ?thesis .
  qed
  show "sum_list (map mt_requests (report_rows live canary bs)) = held bk_requests bs"
    using s [of bk_requests] unfolding report_rows_names map_map o_def row_of_counts by simp
  show "sum_list (map mt_errors (report_rows live canary bs)) = held bk_errors bs"
    using s [of bk_errors] unfolding report_rows_names map_map o_def row_of_counts by simp
qed

text \<open>
  C39: a comparison accounts for every trace.  However the traces are tagged, the rows of the report have different names,
  the production app and the canary come first, and the requests and errors of the rows add up to those of the traces.\<close>

theorem every_trace_is_counted:
  assumes "analyze_canary shown live canary ts = Inr rows" and "distinct [live, canary, ''unknown'']"
  shows "take 2 (map mt_name rows) = [live, canary] \<and> distinct (map mt_name rows)
    \<and> sum_list (map mt_requests rows) = length ts
    \<and> sum_list (map mt_errors rows) = length (filter (\<lambda>t. failed_status shown (trace_status t)) ts)"
proof -
  from assms(1) obtain bs where f: "fill_buckets shown live canary ts [] = Inr bs" and r: "rows = report_rows live canary bs"
    by (auto simp: analyze_canary_def bind_result_Inr)
  from fill_buckets_held [OF f] have h: "dict_wf bs" "held bk_requests bs = length ts"
    "held bk_errors bs = length (filter (\<lambda>t. failed_status shown (trace_status t)) ts)" by (simp_all add: held_def)
  have "take 2 (map mt_name rows) = [live, canary]" by (simp add: r report_rows_names o_def)
  with report_rows_held [OF h(1) assms(2)] h(2,3) show ?thesis by (simp add: r)
qed

definition sample_traces :: "trace list" where
  "sample_traces =
     [RowTrace [(''tags'', PDict [(''apx.app.name'', PStr ''desk'')]), (''status'', PStr ''OK''), (''execution_time_ms'', PInt 20)],
      RowTrace [(''tags'', PDict [(''apx.model_version'', PStr ''7'')]), (''status'', PStr ''ERROR''), (''execution_time_ms'', PStr '' 1_200 '')],
      ObjTrace None]"

lemma sample_report: "map_sum id (map (\<lambda>m. (mt_name m, mt_requests m, mt_errors m, mt_p95 m))) (analyze_canary (\<lambda>v. '''') ''desk'' ''desk-canary-v2'' sample_traces)
    = Inr [(''desk'', 1, 0, Some 20), (''desk-canary-v2'', 0, 0, None), (''unknown'', 1, 0, None), (''7'', 1, 1, Some 1200)]"
  by code_simp

lemma every_trace_is_counted_witness:
  "\<exists>rows. analyze_canary (\<lambda>v. '''') ''desk'' ''desk-canary-v2'' sample_traces = Inr rows \<and> sum_list (map mt_requests rows) = 3"
proof -
  obtain rows where r: "analyze_canary (\<lambda>v. '''') ''desk'' ''desk-canary-v2'' sample_traces = Inr rows"
    using sample_report by (cases "analyze_canary (\<lambda>v. '''') ''desk'' ''desk-canary-v2'' sample_traces") auto
  from every_trace_is_counted [OF this] have "sum_list (map mt_requests rows) = 3" by (simp add: sample_traces_def)
  with r show ?thesis by blast
qed

subsection \<open>A canary is torn down only behind a serving production app\<close>

fun is_delete :: "event \<Rightarrow> bool" where
  "is_delete (Ran (AppsDelete n)) = True"
| "is_delete e = False"

text \<open>What a teardown did when it returned; when it raised it had done nothing.\<close>

lemma teardown_events:
  assumes "teardown_canary run base version w = (r, w')"
  shows "case r of
      Inl x \<Rightarrow> w' = w
    | Inr removed \<Rightarrow> remove_canary_target (bd_doc w) version = Inr (removed, bd_doc w')
        \<and> (\<exists>app slug. canary_app_name base version = Inr app \<and> app \<noteq> base \<and> sanitize_version version = Inr slug
             \<and> bd_log w' = bd_log w @ (if removed then [Wrote (bd_doc w')] else []) @ [Ran (AppsDelete app)])"
proof (cases "sanitize_version version")
  case (Inl x)
  with assms show ?thesis by (auto simp: teardown_canary_def remove_canary_target_def canary_target_name_def)
next
  case (Inr s)
  obtain removed doc where d: "remove_canary_target (bd_doc w) version = Inr (removed, doc)"
    using Inr by (cases "remove_canary_target (bd_doc w) version")
      (auto simp: remove_canary_target_def canary_target_name_def split: pyval.splits if_splits)
  from d have same: "\<not> removed \<Longrightarrow> doc = bd_doc w"
    using Inr by (auto simp: remove_canary_target_def canary_target_name_def split: pyval.splits if_splits)
  from assms Inr d same show ?thesis
    by (cases removed) (auto simp: teardown_canary_def canary_app_name_def write_doc_def run_command_def Let_def)
qed

text \<open>
  What \<open>apps get\<close> was seen to report: the states of the app, its compute and its active deployment, empty where the answer
  has none.
\<close>

definition reported_states :: "(pyval \<Rightarrow> string) \<Rightarrow> pyval \<Rightarrow> canary_error + string \<times> string \<times> string" where
  "reported_states shown payload =
     bind_result (bind_result (sub_object payload ''app_status'') (state_text shown)) (\<lambda>app.
     bind_result (bind_result (sub_object payload ''compute_status'') (state_text shown)) (\<lambda>compute.
     bind_result (bind_result (bind_result (sub_object payload ''active_deployment'') (\<lambda>d. sub_object d ''status'')) (state_text shown))
       (\<lambda>deployment. Inr (app, compute, deployment))))"

definition seen_up :: "(string \<Rightarrow> pyval option) \<Rightarrow> (pyval \<Rightarrow> string) \<Rightarrow> proc \<Rightarrow> bool" where
  "seen_up loads shown p =
     (returncode p = 0
      \<and> (case loads (if out_text p = '''' then ''{}'' else out_text p) of
           None \<Rightarrow> False
         | Some payload \<Rightarrow>
             (case reported_states shown payload of
                Inl x \<Rightarrow> False
              | Inr (app, compute, deployment) \<Rightarrow>
                  (app = ''RUNNING'' \<or> compute = ''ACTIVE'') \<and> (deployment = '''' \<or> deployment = ''SUCCEEDED''))))"

lemma payload_serves_reported:
  "payload_serves shown payload = bind_result (reported_states shown payload) (\<lambda>(app, compute, deployment). Inr (serving_states app compute deployment))"
proof -
  define A where "A = bind_result (sub_object payload ''app_status'') (state_text shown)"
  define B where "B = bind_result (sub_object payload ''compute_status'') (state_text shown)"
  define C where "C = bind_result (bind_result (sub_object payload ''active_deployment'') (\<lambda>d. sub_object d ''status'')) (state_text shown)"
  show ?thesis
    unfolding payload_serves_def reported_states_def A_def [symmetric] B_def [symmetric] C_def [symmetric]
    by (cases A; cases B; cases C) (simp_all add: bind_result_def)
qed

lemma answer_serves_seen: "answer_serves loads shown p = Inr True \<longleftrightarrow> seen_up loads shown p"
  by (auto simp: answer_serves_def seen_up_def payload_serves_reported bind_result_Inr serving_states_def
      split: option.split sum.split)

text \<open>
  C17: a promotion keeps its way back.  Whatever the commands answer, a promotion that raises has left the bundle file as it
  was and deleted no app.  One that returns has first deployed and started production and then seen it up: \<open>apps get\<close>
  answered, reported the app \<open>RUNNING\<close> or, as the code's fallback, its compute \<open>ACTIVE\<close>, and no active deployment other than
  a succeeded one.  After that a kept canary is left alone; otherwise its target is taken out of the file, if it was there,
  and the one app deleted is the canary's, never production.\<close>

theorem promotion_keeps_its_way_back:
  assumes "promote_canary loads shown run key base version target keep w = (r, w')"
  shows "\<exists>es. bd_log w' = bd_log w @ es \<and>
    (case r of
       Inl x \<Rightarrow> bd_doc w' = bd_doc w \<and> \<not> list_ex is_delete es
     | Inr res \<Rightarrow>
         returncode (run (bd_log w) (BundleDeploy target)) = 0
         \<and> seen_up loads shown (run (bd_log w @ map Ran [BundleDeploy target, BundleRun key target]) (AppsGet base))
         \<and> pr_prod res = base \<and> sanitize_version version = Inr (pr_version res)
         \<and> (if keep then es = map Ran [BundleDeploy target, BundleRun key target, AppsGet base] \<and> bd_doc w' = bd_doc w \<and> \<not> pr_removed res
            else remove_canary_target (bd_doc w) version = Inr (pr_removed res, bd_doc w')
              \<and> (\<exists>app. canary_app_name base version = Inr app \<and> app \<noteq> base
                   \<and> es = map Ran [BundleDeploy target, BundleRun key target, AppsGet base]
                          @ (if pr_removed res then [Wrote (bd_doc w')] else []) @ [Ran (AppsDelete app)])))"
proof -
  let ?p = "run (bd_log w) (BundleDeploy target)"
  let ?three = "map Ran [BundleDeploy target, BundleRun key target, AppsGet base]"
  let ?w3 = "w\<lparr>bd_log := bd_log w @ ?three\<rparr>"
  let ?q = "run (bd_log w @ map Ran [BundleDeploy target, BundleRun key target]) (AppsGet base)"
  show ?thesis
  proof (cases "returncode ?p = 0 \<and> seen_up loads shown ?q")
    case False
    then have "(\<exists>x. r = Inl x) \<and> bd_doc w' = bd_doc w \<and> (\<exists>es. bd_log w' = bd_log w @ es \<and> \<not> list_ex is_delete es)"
      using assms by (auto simp: promote_canary_def run_command_def prod_is_serving_def answer_serves_seen [symmetric] Let_def
          split: if_splits sum.splits)
    then show ?thesis by auto
  next
    case up: True
    show ?thesis
    proof (cases keep)
      case True
      with assms up have "w' = ?w3" "r = bind_result (sanitize_version version) (\<lambda>slug. Inr \<lparr>pr_prod = base, pr_version = slug, pr_removed = False\<rparr>)"
        by (auto simp: promote_canary_def run_command_def prod_is_serving_def answer_serves_seen [symmetric] Let_def bind_result_def)
      with True up show ?thesis by (cases "sanitize_version version") (auto simp: bind_result_def)
    next
      case False
      obtain x w4 where t: "teardown_canary run base version ?w3 = (x, w4)" by fastforce
      with assms up False have w: "w' = w4" and r: "r = bind_result x (\<lambda>r. bind_result (sanitize_version version)
          (\<lambda>slug. Inr \<lparr>pr_prod = base, pr_version = slug, pr_removed = r\<rparr>))"
        by (auto simp: promote_canary_def run_command_def prod_is_serving_def answer_serves_seen [symmetric] Let_def)
      from teardown_events [OF t] show ?thesis
      proof (cases x)
        case (Inl y)
        with teardown_events [OF t] show ?thesis by (auto simp: w r bind_result_def intro!: exI [of _ ?three])
      next
        case (Inr removed)
        with teardown_events [OF t] obtain app slug where "remove_canary_target (bd_doc w) version = Inr (removed, bd_doc w')"
          "canary_app_name base version = Inr app" "app \<noteq> base" "sanitize_version version = Inr slug"
          "bd_log w' = bd_log w @ ?three @ (if removed then [Wrote (bd_doc w')] else []) @ [Ran (AppsDelete app)]"
          by (auto simp: w)
        with Inr up False show ?thesis
          by (intro exI [of _ "?three @ (if removed then [Wrote (bd_doc w')] else []) @ [Ran (AppsDelete app)]"])
            (simp add: r bind_result_def)
      qed
    qed
  qed
qed

text \<open>A canary deployed and promoted leaves the bundle file as it was.\<close>

lemma add_then_remove:
  assumes "add_canary_target doc key base version = Inr doc'" and "canary_target_name version = Inr target"
    and "dget doc ''targets'' = Some (PDict ts)" and "dget ts target = None"
    and "dget doc ''resources'' = Some (PDict rs)" and "dget rs ''apps'' \<noteq> None"
  shows "remove_canary_target doc' version = Inr (True, doc)"
proof -
  from assms(6) obtain apps where a: "dget rs ''apps'' = Some apps" by blast
  have rs: "dset ''apps'' apps rs = rs" by (rule dset_same [OF a])
  have r: "dset ''resources'' (PDict rs) doc = doc" by (rule dset_same [OF assms(5)])
  from assms(1,2) obtain app where d: "doc' = dset ''targets'' (PDict (dset target (canary_overlay key app) ts)) doc"
    by (auto simp: add_canary_target_def or_new_dict_def assms(3,5) a rs r bind_result_Inr Let_def split: option.splits if_splits)
  have "ddel target ts = ts" using assms(4) by (simp add: AList.delete_idem dget_None_iff)
  moreover have "AList.update k v (AList.update k u xs) = AList.update k v xs" for k :: string and u v :: pyval and xs
    by (induction xs) auto
  ultimately show ?thesis
    using dset_same [OF assms(3)]
    by (simp add: d remove_canary_target_def assms(2) pget_def dget_dset)
qed

text \<open>
  a round of a canary leaves no trace in the bundle file.  Deploying a canary under a target that was not there adds
  that target only, and the promotion that tears it down gives back the file that was there before.\<close>

theorem canary_round_restores_the_bundle:
  assumes "deploy_canary deploy key base version traffic sha w = (Inr cf, w1)"
    and "dget (bd_doc w) ''targets'' = Some (PDict ts)" and "dget ts (cf_target cf) = None"
    and "dget (bd_doc w) ''resources'' = Some (PDict rs)" and "dget rs ''apps'' \<noteq> None"
    and "promote_canary loads shown run key base version target False w1 = (Inr res, w2)"
  shows "pr_removed res \<and> pr_version res = cf_version cf \<and> bd_doc w2 = bd_doc w \<and> cf_canary cf \<noteq> base"
proof -
  from assms(1) obtain doc where add: "add_canary_target (bd_doc w) key base version = Inr doc" and d: "bd_doc w1 = doc"
    and t: "canary_target_name version = Inr (cf_target cf)" and a: "canary_app_name base version = Inr (cf_canary cf)"
    and s: "sanitize_version version = Inr (cf_version cf)"
    by (auto simp: deploy_canary_def bind_result_Inr bind_result_Inl write_doc_def Let_def split: sum.splits if_splits)
  from add_then_remove [OF add t assms(2,3,4,5)] have r: "remove_canary_target doc version = Inr (True, bd_doc w)" .
  let ?w3 = "w1\<lparr>bd_log := bd_log w1 @ map Ran [BundleDeploy target, BundleRun key target, AppsGet base]\<rparr>"
  obtain x w4 where td: "teardown_canary run base version ?w3 = (x, w4)" by fastforce
  from assms(6) td have x: "bind_result x (\<lambda>r. bind_result (sanitize_version version) (\<lambda>slug.
      Inr \<lparr>pr_prod = base, pr_version = slug, pr_removed = r\<rparr>)) = Inr res" and w: "w2 = w4"
    by (auto simp: promote_canary_def run_command_def prod_is_serving_def Let_def split: if_splits sum.splits)
  from x obtain removed where "x = Inr removed" and res: "res = \<lparr>pr_prod = base, pr_version = cf_version cf, pr_removed = removed\<rparr>"
    by (auto simp: bind_result_Inr s)
  with teardown_events [OF td] r d have "removed" "bd_doc w4 = bd_doc w" by auto
  moreover from a have "cf_canary cf \<noteq> base" by (auto simp: canary_app_name_def bind_result_Inr)
  ultimately show ?thesis by (simp add: res w)
qed

subsection \<open>Concrete rounds\<close>

definition desk_bundle :: bundle_dir where
  "desk_bundle =
     \<lparr>bd_doc = [(''resources'', PDict [(''apps'', PDict [(''desk'', PDict [(''name'', PStr ''desk'')])])]),
                (''targets'', PDict [(''prod'', PDict [])])], bd_log = []\<rparr>"

text \<open>Every command succeeds; the JSON reader gives the state of a production app.\<close>

definition quiet_run :: runner where
  "quiet_run = (\<lambda>h c. \<lparr>returncode = 0, out_text = ''payload''\<rparr>)"

definition app_payload :: "string \<Rightarrow> string \<Rightarrow> string \<Rightarrow> pyval option" where
  "app_payload app_state compute_state s =
     (if s = ''payload''
      then Some (PDict [(''app_status'', PDict [(''state'', PStr app_state)]), (''compute_status'', PDict [(''state'', PStr compute_state)]),
                        (''active_deployment'', PDict [(''status'', PDict [(''state'', PStr ''SUCCEEDED'')])])])
      else None)"

lemma promotion_keeps_its_way_back_witness:
  "list_ex is_delete (bd_log (snd (promote_canary (app_payload ''RUNNING'' ''ACTIVE'') (\<lambda>v. '''') quiet_run ''desk'' ''desk'' ''v2'' ''prod'' False desk_bundle)))
   \<and> bd_log (snd (promote_canary (app_payload ''STOPPED'' ''STOPPED'') (\<lambda>v. '''') quiet_run ''desk'' ''desk'' ''v2'' ''prod'' False desk_bundle))
     = map Ran [BundleDeploy ''prod'', BundleRun ''desk'' ''prod'', AppsGet ''desk'']
   \<and> \<not> list_ex (\<lambda>e. e = Ran (AppsDelete ''desk''))
        (bd_log (snd (promote_canary (app_payload ''RUNNING'' ''ACTIVE'') (\<lambda>v. '''') quiet_run ''desk'' ''desk'' ''v2'' ''prod'' False desk_bundle)))"
proof (intro conjI)
  let ?w = "snd (promote_canary (app_payload ''RUNNING'' ''ACTIVE'') (\<lambda>v. '''') quiet_run ''desk'' ''desk'' ''v2'' ''prod'' False desk_bundle)"
  show "list_ex is_delete (bd_log ?w)" by code_simp
  show "bd_log (snd (promote_canary (app_payload ''STOPPED'' ''STOPPED'') (\<lambda>v. '''') quiet_run ''desk'' ''desk'' ''v2'' ''prod'' False desk_bundle))
     = map Ran [BundleDeploy ''prod'', BundleRun ''desk'' ''prod'', AppsGet ''desk'']" by code_simp
  have "bd_log desk_bundle = []" by (simp add: desk_bundle_def)
  with promotion_keeps_its_way_back [of "app_payload ''RUNNING'' ''ACTIVE''" "\<lambda>v. ''''" quiet_run "''desk''" "''desk''" "''v2''" "''prod''" False desk_bundle,
      OF prod.collapse [symmetric]]
    \<open>list_ex is_delete (bd_log ?w)\<close>
  show "\<not> list_ex (\<lambda>e. e = Ran (AppsDelete ''desk'')) (bd_log ?w)"
    by (cases "fst (promote_canary (app_payload ''RUNNING'' ''ACTIVE'') (\<lambda>v. '''') quiet_run ''desk'' ''desk'' ''v2'' ''prod'' False desk_bundle)")
      (auto simp: list_ex_iff)
qed

lemma canary_round_restores_the_bundle_witness:
  "bd_doc (snd (promote_canary (app_payload ''RUNNING'' ''ACTIVE'') (\<lambda>v. '''') quiet_run ''desk'' ''desk'' ''v2'' ''prod'' False
      (snd (deploy_canary (\<lambda>h t a tags. True) ''desk'' ''desk'' ''v2'' 10 None desk_bundle)))) = bd_doc desk_bundle"
proof -
  let ?cf = "\<lparr>cf_target = ''canary-v2'', cf_version = ''v2'', cf_prod = ''desk'', cf_canary = ''desk-canary-v2'', cf_traffic = 10\<rparr>"
  let ?d = "deploy_canary (\<lambda>h t a tags. True) ''desk'' ''desk'' ''v2'' 10 None desk_bundle"
  let ?p = "promote_canary (app_payload ''RUNNING'' ''ACTIVE'') (\<lambda>v. '''') quiet_run ''desk'' ''desk'' ''v2'' ''prod'' False (snd ?d)"
  have d: "?d = (Inr ?cf, snd ?d)" unfolding prod_eq_iff by code_simp
  have p: "?p = (Inr \<lparr>pr_prod = ''desk'', pr_version = ''v2'', pr_removed = True\<rparr>, snd ?p)" unfolding prod_eq_iff by code_simp
  have "dget (bd_doc desk_bundle) ''targets'' = Some (PDict [(''prod'', PDict [])])" by code_simp
  moreover have "dget [(''prod'', PDict [])] (cf_target ?cf) = None" by simp
  moreover have "dget (bd_doc desk_bundle) ''resources'' = Some (PDict [(''apps'', PDict [(''desk'', PDict [(''name'', PStr ''desk'')])])])" by code_simp
  moreover have "dget [(''apps'', PDict [(''desk'', PDict [(''name'', PStr ''desk'')])])] ''apps'' \<noteq> None" by simp
  ultimately show ?thesis using canary_round_restores_the_bundle [OF d _ _ _ _ p] by blast
qed

text \<open>An app that crashed on an active compute counts as serving, and the canary behind it is deleted.\<close>

lemma crashed_app_counts_as_serving:
  "payload_serves (\<lambda>v. '''') (the (app_payload ''CRASHED'' ''ACTIVE'' ''payload'')) = Inr True"
  "list_ex is_delete (bd_log (snd (promote_canary (app_payload ''CRASHED'' ''ACTIVE'') (\<lambda>v. '''') quiet_run ''desk'' ''desk'' ''v2'' ''prod'' False desk_bundle)))"
  by code_simp+

end
