(* ===== verification/Sql_Access.thy ===== *)
theory Sql_Access
  imports Apx_Prelude
begin

text \<open>
  SQL statements (\<open>_sql_escape.py\<close>, \<open>_sql.py\<close>, \<open>_sql_durable.py\<close>, \<open>workflow/_sql_exec.py\<close>): literals, results in
  chunks, polling up to a deadline, and statements that survive a restart of the process.

  The warehouse is a parameter: what each call answers, and the clock at each test of a loop.  A loop that may not end
  is a \<open>partial_function\<close>, so not returning is \<open>None\<close>.
\<close>

subsection \<open>Literals\<close>

definition quote_char :: char where
  "quote_char = CHR 0x27"

definition backslash :: char where
  "backslash = CHR 0x5C"

definition replace_char :: "char \<Rightarrow> string \<Rightarrow> string \<Rightarrow> string" where
  "replace_char c r s = concat (map (\<lambda>x. if x = c then r else [x]) s)"

definition sql_escape :: "string \<Rightarrow> string" where
  "sql_escape v = replace_char quote_char [quote_char, quote_char] (replace_char backslash [backslash, backslash] v)"

definition sql_str_literal :: "string \<Rightarrow> string" where
  "sql_str_literal v = [quote_char] @ sql_escape v @ [quote_char]"

subsection \<open>Responses\<close>

datatype state = Pending | Running | Succeeded | Failed | Canceled | Closed

datatype sql_error =
    Raised string | Reauthorize string | NoWarehouse | StillRunning | QueryFailed "string option" | NoStatementId
  | UnreadableCheckpoint | InvalidCheckpoint | AssertionFails

type_synonym cell = "string option"
type_synonym row = "(string option \<times> cell) list"

record chunk =
  ck_rows :: "cell list list"
  ck_next :: "int option"

record status =
  ss_state :: "state option"
  ss_error :: "string option"

record response =
  rs_id :: "string option"
  rs_status :: "status option"
  rs_columns :: "string option list option"
  rs_result :: "chunk option"

definition state_of :: "response \<Rightarrow> state option" where
  "state_of r = (case rs_status r of None \<Rightarrow> None | Some s \<Rightarrow> ss_state s)"

definition in_progress :: "response \<Rightarrow> bool" where
  "in_progress r \<longleftrightarrow> state_of r \<in> {Some Pending, Some Running}"

definition error_of :: "response \<Rightarrow> string option" where
  "error_of r = (case rs_status r of None \<Rightarrow> None | Some s \<Rightarrow> ss_error s)"

text \<open>\<open>dict(zip(cols, row))\<close>.\<close>

definition row_dict :: "string option list \<Rightarrow> cell list \<Rightarrow> row" where
  "row_dict cols cells = fold (\<lambda>(c, v). dset c v) (zip cols cells) []"

text \<open>The chunks behind the first, by the index each names.\<close>

partial_function (option) follow_chunks :: "(string \<Rightarrow> int \<Rightarrow> sql_error + chunk) \<Rightarrow> string \<Rightarrow> int option \<Rightarrow> cell list list
    \<Rightarrow> (sql_error + cell list list) option" where
  "follow_chunks get i next rows =
     (case next of
        None \<Rightarrow> Some (Inr rows)
      | Some n \<Rightarrow> (case get i n of Inl x \<Rightarrow> Some (Inl x) | Inr c \<Rightarrow> follow_chunks get i (ck_next c) (rows @ ck_rows c)))"

definition first_rows :: "response \<Rightarrow> cell list list" where
  "first_rows r = (case rs_result r of None \<Rightarrow> [] | Some c \<Rightarrow> ck_rows c)"

definition name_or_empty :: "string option \<Rightarrow> string option" where
  "name_or_empty c = (case c of None \<Rightarrow> Some '''' | Some n \<Rightarrow> Some n)"

definition decode_statement :: "(string \<Rightarrow> int \<Rightarrow> sql_error + chunk) option \<Rightarrow> response option \<Rightarrow> (sql_error + row list) option" where
  "decode_statement ws resp =
     (case resp of
        None \<Rightarrow> Some (Inr [])
      | Some r \<Rightarrow>
          (case rs_columns r of
             None \<Rightarrow> Some (Inr [])
           | Some cols \<Rightarrow>
               map_option (\<lambda>x. bind_result x (\<lambda>rows. Inr (map (row_dict (map name_or_empty cols)) rows)))
                 (case (ws, rs_result r, rs_id r) of
                    (Some get, Some c, Some i) \<Rightarrow> follow_chunks get i (ck_next c) (first_rows r)
                  | _ \<Rightarrow> Some (Inr (first_rows r)))))"

subsection \<open>Warehouses\<close>

record warehouse =
  wh_id :: "string option"
  wh_serverless :: bool

fun pick_warehouse :: "bool \<Rightarrow> string option \<Rightarrow> warehouse list \<Rightarrow> string option" where
  "pick_warehouse prefer spare [] = spare"
| "pick_warehouse prefer spare (w # ws) =
     (case wh_id w of
        None \<Rightarrow> pick_warehouse prefer spare ws
      | Some i \<Rightarrow>
          if i = '''' then pick_warehouse prefer spare ws
          else if prefer \<and> wh_serverless w then Some i
          else pick_warehouse prefer (case spare of None \<Rightarrow> Some i | Some s \<Rightarrow> Some s) ws)"

definition get_warehouse_id :: "bool \<Rightarrow> warehouse list \<Rightarrow> sql_error + string" where
  "get_warehouse_id prefer ws = (case pick_warehouse prefer None ws of None \<Rightarrow> Inl NoWarehouse | Some i \<Rightarrow> Inr i)"

subsection \<open>Waiting\<close>

text \<open>The number of polls of the cold start.  A failed reading counts as not running.\<close>

partial_function (option) wait_running :: "(nat \<Rightarrow> real) \<Rightarrow> (nat \<Rightarrow> bool) \<Rightarrow> real \<Rightarrow> nat \<Rightarrow> nat option" where
  "wait_running clock up deadline k =
     (if clock k < deadline then (if up k then Some (Suc k) else wait_running clock up deadline (Suc k)) else Some k)"

record warmup =
  wu_first :: "bool option"
  wu_clock :: "nat \<Rightarrow> real"
  wu_up :: "nat \<Rightarrow> bool"

definition ensure_warehouse_running :: "warmup \<Rightarrow> real \<Rightarrow> nat option" where
  "ensure_warehouse_running u timeout =
     (case wu_first u of
        None \<Rightarrow> Some 0
      | Some running \<Rightarrow> if running then Some 0 else wait_running (wu_clock u) (wu_up u) (wu_clock u 0 + timeout) 0)"

text \<open>Polling a statement: the polls made and the last response.\<close>

partial_function (option) await_statement :: "(nat \<Rightarrow> real) \<Rightarrow> (nat \<Rightarrow> sql_error + response) \<Rightarrow> real \<Rightarrow> nat \<Rightarrow> response
    \<Rightarrow> (nat \<times> (sql_error + response)) option" where
  "await_statement clock get deadline k seen =
     (if clock k < deadline then
        (case get k of
           Inl x \<Rightarrow> Some (Suc k, Inl x)
         | Inr r \<Rightarrow> if in_progress r then await_statement clock get deadline (Suc k) r else Some (Suc k, Inr r))
      else Some (k, Inr seen))"

definition await_statement_completion :: "(nat \<Rightarrow> real) \<Rightarrow> (nat \<Rightarrow> sql_error + response) \<Rightarrow> real \<Rightarrow> response
    \<Rightarrow> (nat \<times> (sql_error + response)) option" where
  "await_statement_completion clock get timeout r =
     (if in_progress r \<and> rs_id r \<noteq> None \<and> rs_id r \<noteq> Some '''' then await_statement clock get (clock 0 + timeout) 0 r
      else Some (0, Inr r))"

record service =
  sv_warehouses :: "sql_error + warehouse list"
  sv_warmup :: warmup
  sv_execute :: "sql_error + response"
  sv_clock :: "nat \<Rightarrow> real"
  sv_get :: "nat \<Rightarrow> sql_error + response"
  sv_chunk :: "string \<Rightarrow> int \<Rightarrow> sql_error + chunk"
  sv_hint :: "sql_error \<Rightarrow> string option"

definition resolve_warehouse :: "service \<Rightarrow> string option \<Rightarrow> sql_error + string" where
  "resolve_warehouse sv wid =
     (case wid of
        Some i \<Rightarrow> if i \<noteq> '''' then Inr i else bind_result (sv_warehouses sv) (get_warehouse_id True)
      | None \<Rightarrow> bind_result (sv_warehouses sv) (get_warehouse_id True))"

definition with_hint :: "service \<Rightarrow> sql_error \<Rightarrow> sql_error" where
  "with_hint sv x = (case sv_hint sv x of None \<Rightarrow> x | Some h \<Rightarrow> Reauthorize h)"

definition hinted :: "service \<Rightarrow> sql_error + 'a \<Rightarrow> sql_error + 'a" where
  "hinted sv r = (case r of Inl x \<Rightarrow> Inl (with_hint sv x) | Inr y \<Rightarrow> Inr y)"

definition submit :: "service \<Rightarrow> string option \<Rightarrow> (sql_error + response) option" where
  "submit sv wid =
     (case resolve_warehouse sv wid of
        Inl x \<Rightarrow> Some (Inl (with_hint sv x))
      | Inr i \<Rightarrow> map_option (\<lambda>polls. hinted sv (sv_execute sv)) (ensure_warehouse_running (sv_warmup sv) 60))"

definition read_result :: "service \<Rightarrow> response \<Rightarrow> (sql_error + row list) option" where
  "read_result sv r =
     (if state_of r = Some Succeeded then decode_statement (Some (sv_chunk sv)) (Some r)
      else if in_progress r then Some (Inl StillRunning)
      else Some (Inl (QueryFailed (error_of r))))"

definition run_sql :: "service \<Rightarrow> string option \<Rightarrow> real \<Rightarrow> (sql_error + row list) option" where
  "run_sql sv wid timeout =
     Option.bind (submit sv wid) (\<lambda>first. case first of
        Inl x \<Rightarrow> Some (Inl x)
      | Inr r0 \<Rightarrow>
          Option.bind (await_statement_completion (sv_clock sv) (sv_get sv) timeout r0) (\<lambda>(polls, last). case last of
             Inl x \<Rightarrow> Some (Inl x)
           | Inr r \<Rightarrow> read_result sv r))"

subsection \<open>The executor of the workflow stores\<close>

partial_function (option) poll_statement :: "(nat \<Rightarrow> real) \<Rightarrow> (nat \<Rightarrow> sql_error + response) \<Rightarrow> real \<Rightarrow> nat \<Rightarrow> response
    \<Rightarrow> (sql_error + response) option" where
  "poll_statement clock get deadline k r =
     (if \<not> in_progress r then Some (Inr r)
      else if deadline < clock k then Some (Inl StillRunning)
      else if rs_id r = None then Some (Inl AssertionFails)
      else (case get k of
              Inl x \<Rightarrow> Some (Inl x)
            | Inr r' \<Rightarrow> if rs_status r' = None then Some (Inl AssertionFails) else poll_statement clock get deadline (Suc k) r'))"

definition first_chunk_rows :: "response \<Rightarrow> sql_error + row list" where
  "first_chunk_rows r =
     (if state_of r \<noteq> Some Succeeded then Inl (QueryFailed (error_of r))
      else if first_rows r = [] then Inr []
      else (case rs_columns r of None \<Rightarrow> Inl AssertionFails | Some cols \<Rightarrow> Inr (map (row_dict cols) (first_rows r))))"

definition execute_and_poll :: "service \<Rightarrow> real \<Rightarrow> (sql_error + row list) option" where
  "execute_and_poll sv timeout =
     (case sv_execute sv of
        Inl x \<Rightarrow> Some (Inl x)
      | Inr r0 \<Rightarrow>
          if rs_status r0 = None then Some (Inl AssertionFails)
          else map_option (\<lambda>x. bind_result x first_chunk_rows)
                 (poll_statement (sv_clock sv) (sv_get sv) (sv_clock sv 0 + timeout) 0 r0))"

subsection \<open>Statements that survive a restart\<close>

text \<open>The file of a statement.  It is written with sorted keys, the columns of its rows too.\<close>

datatype checkpoint = Unreadable | NoDict | Checkpoint (cp_state: string) (cp_id: "string option") (cp_rows: "row list option")

definition sorted_keys :: "row \<Rightarrow> row" where
  "sorted_keys r = sort_key (\<lambda>p. case fst p of None \<Rightarrow> ''null'' | Some c \<Rightarrow> c) r"

datatype effect = Submitted | Saved checkpoint | Removed

definition saved :: "effect list \<Rightarrow> checkpoint option \<Rightarrow> checkpoint option" where
  "saved es d = fold (\<lambda>e d. case e of Submitted \<Rightarrow> d | Saved c \<Rightarrow> Some c | Removed \<Rightarrow> None) es d"

definition state_name :: "response \<Rightarrow> string" where
  "state_name r =
     (case state_of r of
        None \<Rightarrow> ''UNKNOWN''
      | Some Pending \<Rightarrow> ''PENDING'' | Some Running \<Rightarrow> ''RUNNING'' | Some Succeeded \<Rightarrow> ''SUCCEEDED''
      | Some Failed \<Rightarrow> ''FAILED'' | Some Canceled \<Rightarrow> ''CANCELED'' | Some Closed \<Rightarrow> ''CLOSED'')"

text \<open>The polls: what was written, and the last response.\<close>

partial_function (option) durable_polls :: "(nat \<Rightarrow> real) \<Rightarrow> (nat \<Rightarrow> sql_error + response) \<Rightarrow> real \<Rightarrow> string \<Rightarrow> nat \<Rightarrow> effect list
    \<Rightarrow> response \<Rightarrow> (effect list \<times> (sql_error + response)) option" where
  "durable_polls clock get deadline i k es seen =
     (if clock k < deadline then
        (case get k of
           Inl x \<Rightarrow> Some (es, Inl x)
         | Inr r \<Rightarrow>
             if in_progress r then durable_polls clock get deadline i (Suc k) (es @ [Saved (Checkpoint (state_name r) (Some i) None)]) r
             else Some (es @ [Saved (Checkpoint (state_name r) (Some i) None)], Inr r))
      else Some (es, Inr seen))"

definition conclude :: "service \<Rightarrow> string \<Rightarrow> response \<Rightarrow> (effect list \<times> (sql_error + row list)) option" where
  "conclude sv i r =
     (if state_of r = Some Succeeded then
        map_option (\<lambda>x. case x of
            Inl y \<Rightarrow> ([], Inl y)
          | Inr rows \<Rightarrow> ([Saved (Checkpoint ''SUCCEEDED'' (Some i) (Some (map sorted_keys rows)))], Inr rows))
          (decode_statement (Some (sv_chunk sv)) (Some r))
      else if in_progress r then Some ([], Inl StillRunning)
      else Some ([Removed], Inl (QueryFailed (error_of r))))"

text \<open>From a statement that is known: \<open>r\<close> is the answer to its submission or to the first reading.\<close>

definition follow_statement :: "service \<Rightarrow> real \<Rightarrow> string \<Rightarrow> response \<Rightarrow> (effect list \<times> (sql_error + row list)) option" where
  "follow_statement sv timeout i r =
     Option.bind
       (if in_progress r
        then durable_polls (sv_clock sv) (sv_get sv) (sv_clock sv 0 + timeout) i 0 [Saved (Checkpoint (state_name r) (Some i) None)] r
        else Some ([], Inr r))
       (\<lambda>(es, last). case last of
          Inl x \<Rightarrow> Some (es, Inl x)
        | Inr r' \<Rightarrow> map_option (\<lambda>(fs, y). (es @ fs, y)) (conclude sv i r'))"

definition run_sql_durable :: "service \<Rightarrow> (string \<Rightarrow> sql_error + response) \<Rightarrow> string option \<Rightarrow> real \<Rightarrow> checkpoint option
    \<Rightarrow> (effect list \<times> (sql_error + row list)) option" where
  "run_sql_durable sv reattach wid timeout d =
     (case resolve_warehouse sv wid of
        Inl x \<Rightarrow> Some ([], Inl (with_hint sv x))
      | Inr wh \<Rightarrow>
          (case d of
             Some Unreadable \<Rightarrow> Some ([], Inl (with_hint sv UnreadableCheckpoint))
           | Some NoDict \<Rightarrow> Some ([], Inl (with_hint sv InvalidCheckpoint))
           | _ \<Rightarrow>
               if d \<noteq> None \<and> cp_state (the d) = ''SUCCEEDED'' then
                 (case cp_rows (the d) of None \<Rightarrow> Some ([], Inl (with_hint sv InvalidCheckpoint)) | Some rows \<Rightarrow> Some ([], Inr rows))
               else
                 Option.bind (ensure_warehouse_running (sv_warmup sv) 60) (\<lambda>polls.
                   case (case d of None \<Rightarrow> None | Some c \<Rightarrow> if cp_id c = Some '''' then None else cp_id c) of
                     Some i \<Rightarrow>
                       (case reattach i of Inl x \<Rightarrow> Some ([], Inl (with_hint sv x)) | Inr r \<Rightarrow> follow_statement sv timeout i r)
                   | None \<Rightarrow>
                       (case sv_execute sv of
                          Inl x \<Rightarrow> Some ([], Inl (with_hint sv x))
                        | Inr r \<Rightarrow>
                            (case rs_id r of
                               None \<Rightarrow> Some ([Submitted], Inl (with_hint sv NoStatementId))
                             | Some i \<Rightarrow>
                                 map_option (\<lambda>(es, y). (Submitted # Saved (Checkpoint ''SUBMITTED'' (Some i) None) # es, y))
                                   (follow_statement sv timeout i r))))))"

subsection \<open>A literal cannot be left\<close>

text \<open>
  How a literal is read, behind its opening quote, by a lexer in which a backslash escapes a character and two quotes stand
  for one: the value read and what follows the literal.
\<close>

definition reads_literals :: "(string \<Rightarrow> (string \<times> string) option) \<Rightarrow> bool" where
  "reads_literals rd \<longleftrightarrow>
     (\<forall>s. rd (backslash # backslash # s) = map_option (apfst (Cons backslash)) (rd s))
     \<and> (\<forall>s. rd (quote_char # quote_char # s) = map_option (apfst (Cons quote_char)) (rd s))
     \<and> (\<forall>c s. c \<noteq> backslash \<and> c \<noteq> quote_char \<longrightarrow> rd (c # s) = map_option (apfst (Cons c)) (rd s))
     \<and> (\<forall>s. (s = [] \<or> hd s \<noteq> quote_char) \<longrightarrow> rd (quote_char # s) = Some ([], s))"

definition escaped_char :: "char \<Rightarrow> string" where
  "escaped_char c = (if c = quote_char then [quote_char, quote_char] else if c = backslash then [backslash, backslash] else [c])"

lemma escaped_simps:
  "escaped_char quote_char = [quote_char, quote_char]" "escaped_char backslash = [backslash, backslash]"
  "c \<noteq> quote_char \<Longrightarrow> c \<noteq> backslash \<Longrightarrow> escaped_char c = [c]"
  by (auto simp: escaped_char_def quote_char_def backslash_def)

lemma sql_escape_chars: "sql_escape v = concat (map escaped_char v)"
  by (induction v) (auto simp: sql_escape_def replace_char_def escaped_char_def quote_char_def backslash_def)

text \<open>
  C22: a value cannot leave its literal.  For every string, whatever quotes and backslashes it holds, a lexer that reads the
  rendered literal gets exactly the value and goes on behind the closing quote, so nothing of the value is read as SQL.\<close>

theorem literal_cannot_be_left:
  assumes "reads_literals rd" and "rest = [] \<or> hd rest \<noteq> quote_char"
  shows "hd (sql_str_literal v) = quote_char \<and> rd (tl (sql_str_literal v) @ rest) = Some (v, rest)"
proof -
  have "rd (concat (map escaped_char v) @ quote_char # rest) = Some (v, rest)"
  proof (induction v)
    case Nil
    have "rd (quote_char # rest) = Some ([], rest)" using assms unfolding reads_literals_def by blast
    then show ?case by simp
  next
    case (Cons c v)
    have q: "rd (quote_char # quote_char # s) = map_option (apfst (Cons quote_char)) (rd s)"
      and b: "rd (backslash # backslash # s) = map_option (apfst (Cons backslash)) (rd s)" for s
      using assms(1) by (auto simp: reads_literals_def)
    have o: "c \<noteq> backslash \<Longrightarrow> c \<noteq> quote_char \<Longrightarrow> rd (c # s) = map_option (apfst (Cons c)) (rd s)" for s
      using assms(1) by (auto simp: reads_literals_def)
    show ?case
      by (cases "c = quote_char"; cases "c = backslash") (simp_all add: escaped_simps q b o Cons.IH)
  qed
  then show ?thesis by (simp add: sql_str_literal_def sql_escape_chars)
qed

fun plain_lexer :: "string \<Rightarrow> (string \<times> string) option" where
  "plain_lexer [] = None"
| "plain_lexer [c] = (if c = quote_char then Some ([], []) else None)"
| "plain_lexer (c # d # s) =
     (if c = backslash then map_option (apfst (Cons d)) (plain_lexer s)
      else if c \<noteq> quote_char then map_option (apfst (Cons c)) (plain_lexer (d # s))
      else if d = quote_char then map_option (apfst (Cons quote_char)) (plain_lexer s)
      else Some ([], d # s))"

lemma plain_lexer_reads: "reads_literals plain_lexer"
proof -
  have "c \<noteq> backslash \<and> c \<noteq> quote_char \<longrightarrow> plain_lexer (c # s) = map_option (apfst (Cons c)) (plain_lexer s)" for c s
    by (cases s) (auto simp: backslash_def quote_char_def)
  moreover have "(s = [] \<or> hd s \<noteq> quote_char) \<longrightarrow> plain_lexer (quote_char # s) = Some ([], s)" for s
    by (cases s) (auto simp: backslash_def quote_char_def)
  ultimately show ?thesis by (simp add: reads_literals_def backslash_def quote_char_def)
qed

lemma literal_cannot_be_left_witness:
  "plain_lexer (tl (sql_str_literal [backslash, quote_char, CHR ''x'']) @ '' OR 1=1'') = Some ([backslash, quote_char, CHR ''x''], '' OR 1=1'')"
  using literal_cannot_be_left [OF plain_lexer_reads, of "'' OR 1=1''" "[backslash, quote_char, CHR ''x'']"] by (simp add: quote_char_def)

subsection \<open>Every chunk is read\<close>

fun linked :: "(string \<Rightarrow> int \<Rightarrow> sql_error + chunk) \<Rightarrow> string \<Rightarrow> int option \<Rightarrow> chunk list \<Rightarrow> bool" where
  "linked get i None cs = (cs = [])"
| "linked get i (Some n) [] = False"
| "linked get i (Some n) (c # cs) = (get i n = Inr c \<and> linked get i (ck_next c) cs)"

lemma follow_linked: "linked get i next cs \<Longrightarrow> follow_chunks get i next rows = Some (Inr (rows @ concat (map ck_rows cs)))"
proof (induction cs arbitrary: "next" rows)
  case Nil
  then show ?case by (cases "next") (auto simp: follow_chunks.simps)
next
  case (Cons c cs)
  then show ?case by (cases "next") (auto simp: follow_chunks.simps [of get i "Some _"])
qed

lemma decode_linked:
  assumes "rs_columns r = Some cols" and "rs_result r = Some c" and "rs_id r = Some i" and "linked get i (ck_next c) cs"
  shows "decode_statement (Some get) (Some r) = Some (Inr (map (row_dict (map name_or_empty cols)) (concat (map ck_rows (c # cs)))))"
  using follow_linked [OF assms(4), of "ck_rows c"] by (simp add: decode_statement_def assms(1-3) first_rows_def)

subsection \<open>Waiting ends\<close>

definition ticks :: "real \<Rightarrow> (nat \<Rightarrow> real) \<Rightarrow> bool" where
  "ticks d clock \<longleftrightarrow> (\<forall>k. clock k + d \<le> clock (Suc k))"

lemma ticks_reach: "ticks d clock \<Longrightarrow> clock k + real n * d \<le> clock (k + n)"
proof (induction n)
  case (Suc n)
  then have "clock (k + n) + d \<le> clock (k + Suc n)" by (simp add: ticks_def)
  with Suc show ?case by (simp add: algebra_simps)
qed simp

lemma await_returns:
  assumes "ticks d clock" and "deadline \<le> clock k + real n * d"
  shows "\<exists>polls r. await_statement clock get deadline k seen = Some (polls, r) \<and> polls \<le> k + n"
  using assms(2)
proof (induction n arbitrary: k seen)
  case 0
  then show ?case by (simp add: await_statement.simps [of clock get deadline k])
next
  case (Suc n)
  from assms(1) have "clock k + d \<le> clock (Suc k)" by (simp add: ticks_def)
  with Suc.prems have "deadline \<le> clock (Suc k) + real n * d" by (simp add: algebra_simps)
  from Suc.IH [OF this] have ih: "\<exists>polls r. await_statement clock get deadline (Suc k) seen' = Some (polls, r) \<and> polls \<le> Suc k + n" for seen' .
  show ?case
  proof (cases "clock k < deadline")
    case True
    then show ?thesis
    proof (cases "get k")
      case (Inr r)
      then show ?thesis using True ih [of r] by (cases "in_progress r") (auto simp: await_statement.simps [of clock get deadline k])
    qed (simp add: await_statement.simps [of clock get deadline k])
  qed (simp add: await_statement.simps [of clock get deadline k])
qed

text \<open>waiting for a statement ends.  When each poll takes at least the interval, the wait returns, after at most as many polls
  as intervals cover the budget, whatever the service answers.\<close>

theorem waiting_ends_within_the_budget:
  assumes "0 < d" and "ticks d clock"
  shows "\<exists>polls last. await_statement_completion clock get timeout r = Some (polls, last) \<and> polls \<le> nat \<lceil>timeout / d\<rceil>"
proof -
  have "timeout \<le> real (nat \<lceil>timeout / d\<rceil>) * d"
  proof -
    have "timeout / d \<le> real (nat \<lceil>timeout / d\<rceil>)" by (rule real_nat_ceiling_ge)
    with assms(1) show ?thesis by (simp add: pos_divide_le_eq)
  qed
  then have "clock 0 + timeout \<le> clock 0 + real (nat \<lceil>timeout / d\<rceil>) * d" by simp
  from await_returns [OF assms(2) this, of get r] show ?thesis by (auto simp: await_statement_completion_def)
qed

definition running_response :: response where
  "running_response =
     \<lparr>rs_id = Some ''s1'', rs_status = Some \<lparr>ss_state = Some Running, ss_error = None\<rparr>, rs_columns = None, rs_result = None\<rparr>"

lemma waiting_ends_within_the_budget_witness:
  "\<exists>polls last. await_statement_completion (\<lambda>k. 2 * real k) (\<lambda>k. Inr running_response) 120 running_response = Some (polls, last) \<and> polls \<le> 60"
proof -
  have "ticks 2 (\<lambda>k. 2 * real k)" by (simp add: ticks_def)
  from waiting_ends_within_the_budget [OF _ this, of "\<lambda>k. Inr running_response" 120 running_response] show ?thesis by simp
qed

subsection \<open>Slow statements\<close>

lemma await_settles:
  assumes "get n = Inr r" and "\<not> in_progress r"
  shows "k \<le> n \<Longrightarrow> \<forall>j. k \<le> j \<and> j \<le> n \<longrightarrow> clock j < deadline \<Longrightarrow> \<forall>j. k \<le> j \<and> j < n \<longrightarrow> (\<exists>q. get j = Inr q \<and> in_progress q)
    \<Longrightarrow> await_statement clock get deadline k seen = Some (Suc n, Inr r)"
proof (induction "n - k" arbitrary: k seen)
  case 0
  then show ?case using assms by (simp add: await_statement.simps [of clock get deadline k])
next
  case (Suc m)
  then have k: "k < n" by simp
  with Suc.prems obtain q where q: "get k = Inr q" "in_progress q" by blast
  have "await_statement clock get deadline (Suc k) q = Some (Suc n, Inr r)"
    using Suc.hyps(2) Suc.prems by (intro Suc.hyps(1)) auto
  with q k Suc.prems(2) show ?case by (simp add: await_statement.simps [of clock get deadline k])
qed

lemma in_progress_status: "in_progress r \<Longrightarrow> rs_status r \<noteq> None"
  by (auto simp: in_progress_def state_of_def split: option.splits)

lemma poll_settles:
  assumes "get n = Inr r" and "\<not> in_progress r" and "rs_status r \<noteq> None"
  shows "k \<le> n \<Longrightarrow> \<forall>j. k \<le> j \<and> j \<le> n \<longrightarrow> clock j < deadline
    \<Longrightarrow> \<forall>j. k \<le> j \<and> j < n \<longrightarrow> (\<exists>q. get j = Inr q \<and> in_progress q \<and> rs_id q \<noteq> None)
    \<Longrightarrow> in_progress seen \<Longrightarrow> rs_id seen \<noteq> None \<Longrightarrow> poll_statement clock get deadline k seen = Some (Inr r)"
proof (induction "n - k" arbitrary: k seen)
  case 0
  then have "k = n" "\<not> deadline < clock k" by (auto simp: not_less less_imp_le)
  then show ?case
    using assms 0 by (simp add: poll_statement.simps [of clock get deadline n seen] poll_statement.simps [of clock get deadline "Suc n" r])
next
  case (Suc m)
  then have k: "k < n" and c: "\<not> deadline < clock k" by (auto simp: not_less less_imp_le)
  with Suc.prems obtain q where q: "get k = Inr q" "in_progress q" "rs_id q \<noteq> None" by blast
  from q(2) have s: "rs_status q \<noteq> None" by (rule in_progress_status)
  have "poll_statement clock get deadline (Suc k) q = Some (Inr r)"
    using Suc.hyps(2) Suc.prems q by (intro Suc.hyps(1)) auto
  with q s c Suc.prems(4,5) show ?case by (simp add: poll_statement.simps [of clock get deadline k])
qed

text \<open>The statement is answered by \<open>r\<close> at once, or by its \<open>n\<close>-th poll, before the budget is used up.\<close>

definition settles :: "service \<Rightarrow> real \<Rightarrow> response \<Rightarrow> bool" where
  "settles sv timeout r \<longleftrightarrow>
     \<not> in_progress r \<and> rs_status r \<noteq> None
     \<and> (sv_execute sv = Inr r
        \<or> (\<exists>r0 n. sv_execute sv = Inr r0 \<and> in_progress r0 \<and> rs_id r0 \<noteq> None \<and> rs_id r0 \<noteq> Some ''''
             \<and> sv_get sv n = Inr r \<and> (\<forall>j \<le> n. sv_clock sv j < sv_clock sv 0 + timeout)
             \<and> (\<forall>j < n. \<exists>q. sv_get sv j = Inr q \<and> in_progress q \<and> rs_id q \<noteq> None)))"

lemma settles_polls:
  assumes "settles sv timeout r" and "sv_execute sv = Inr r0" and "in_progress r0"
  shows "\<exists>n. rs_id r0 \<noteq> None \<and> rs_id r0 \<noteq> Some '''' \<and> \<not> in_progress r \<and> rs_status r \<noteq> None \<and> sv_get sv n = Inr r
    \<and> (\<forall>j \<le> n. sv_clock sv j < sv_clock sv 0 + timeout) \<and> (\<forall>j < n. \<exists>q. sv_get sv j = Inr q \<and> in_progress q \<and> rs_id q \<noteq> None)"
  using assms unfolding settles_def by (metis sum.inject(2))

lemma await_completion_settles:
  assumes "settles sv timeout r" and "sv_execute sv = Inr r0"
  shows "\<exists>polls. await_statement_completion (sv_clock sv) (sv_get sv) timeout r0 = Some (polls, Inr r)"
proof (cases "in_progress r0")
  case False
  with assms show ?thesis by (auto simp: settles_def await_statement_completion_def)
next
  case True
  with assms obtain n where n: "rs_id r0 \<noteq> None" "rs_id r0 \<noteq> Some ''''" "sv_get sv n = Inr r" "\<not> in_progress r"
    "\<forall>j \<le> n. sv_clock sv j < sv_clock sv 0 + timeout" "\<forall>j < n. \<exists>q. sv_get sv j = Inr q \<and> in_progress q"
    using settles_polls [of sv timeout r r0] by blast
  from await_settles [of "sv_get sv" n r 0 "sv_clock sv" "sv_clock sv 0 + timeout" r0] n True
  show ?thesis by (auto simp: await_statement_completion_def)
qed

lemma poll_completion_settles:
  assumes "settles sv timeout r" and "sv_execute sv = Inr r0"
  shows "poll_statement (sv_clock sv) (sv_get sv) (sv_clock sv 0 + timeout) 0 r0 = Some (Inr r)"
proof (cases "in_progress r0")
  case False
  with assms show ?thesis by (auto simp: settles_def poll_statement.simps [of _ _ _ 0])
next
  case True
  with assms obtain n where n: "rs_id r0 \<noteq> None" "sv_get sv n = Inr r" "\<not> in_progress r" "rs_status r \<noteq> None"
    "\<forall>j \<le> n. sv_clock sv j < sv_clock sv 0 + timeout" "\<forall>j < n. \<exists>q. sv_get sv j = Inr q \<and> in_progress q \<and> rs_id q \<noteq> None"
    using settles_polls [of sv timeout r r0] by blast
  from poll_settles [of "sv_get sv" n r 0 "sv_clock sv" "sv_clock sv 0 + timeout" r0] n True show ?thesis by auto
qed

text \<open>
  C27: a slow read is not lost, and what the two executors return of it.  When a statement succeeds within the budget, however
  many polls that takes, \<open>run_sql\<close> returns the rows of all its chunks in order; the workflow stores' executor waits as
  well, and returns the rows of the first chunk only.\<close>

theorem slow_statement_is_read:
  assumes "settles sv timeout r" and "state_of r = Some Succeeded"
    and "resolve_warehouse sv wid = Inr wh" and "ensure_warehouse_running (sv_warmup sv) 60 = Some polls"
    and "rs_columns r = Some (map Some names)" and "rs_result r = Some c" and "rs_id r = Some i" and "linked (sv_chunk sv) i (ck_next c) cs"
  shows "run_sql sv wid timeout = Some (Inr (map (row_dict (map Some names)) (concat (map ck_rows (c # cs)))))
    \<and> execute_and_poll sv timeout = Some (Inr (map (row_dict (map Some names)) (ck_rows c)))"
proof
  have ex: "\<exists>r0. sv_execute sv = Inr r0 \<and> rs_status r0 \<noteq> None"
    using assms(1) in_progress_status unfolding settles_def by blast
  then obtain r0 where r0: "sv_execute sv = Inr r0" "rs_status r0 \<noteq> None" by blast
  have n: "map name_or_empty (map Some names) = map Some names" by (simp add: name_or_empty_def)
  from decode_linked [OF assms(5-8)] await_completion_settles [OF assms(1) r0(1)] r0
  show "run_sql sv wid timeout = Some (Inr (map (row_dict (map Some names)) (concat (map ck_rows (c # cs)))))"
    unfolding n by (auto simp: run_sql_def submit_def assms(2-4) hinted_def read_result_def)
  from poll_completion_settles [OF assms(1) r0(1)] r0
  show "execute_and_poll sv timeout = Some (Inr (map (row_dict (map Some names)) (ck_rows c)))"
    by (simp add: execute_and_poll_def first_chunk_rows_def assms(2,5,6) first_rows_def)
qed

text \<open>Two chunks of one row each, ready at the second poll.\<close>

definition two_chunks :: service where
  "two_chunks =
     \<lparr>sv_warehouses = Inr [\<lparr>wh_id = Some ''w'', wh_serverless = True\<rparr>],
      sv_warmup = \<lparr>wu_first = Some True, wu_clock = (\<lambda>k. 0), wu_up = (\<lambda>k. True)\<rparr>,
      sv_execute = Inr running_response, sv_clock = (\<lambda>k. 2 * real k),
      sv_get = (\<lambda>k. if k = 0 then Inr running_response
                    else Inr \<lparr>rs_id = Some ''s1'', rs_status = Some \<lparr>ss_state = Some Succeeded, ss_error = None\<rparr>,
                              rs_columns = Some [Some ''n''], rs_result = Some \<lparr>ck_rows = [[Some ''1'']], ck_next = Some 1\<rparr>\<rparr>),
      sv_chunk = (\<lambda>i n. Inr \<lparr>ck_rows = [[Some ''2'']], ck_next = None\<rparr>), sv_hint = (\<lambda>x. None)\<rparr>"

lemma two_chunks_rows: "run_sql two_chunks None 120 = Some (Inr [[(Some ''n'', Some ''1'')], [(Some ''n'', Some ''2'')]])"
  by (simp add: run_sql_def submit_def two_chunks_def resolve_warehouse_def get_warehouse_id_def ensure_warehouse_running_def hinted_def
      await_statement_completion_def running_response_def in_progress_def state_of_def read_result_def decode_statement_def first_rows_def
      name_or_empty_def row_dict_def await_statement.simps [of _ _ _ 0] await_statement.simps [of _ _ _ "Suc 0"]
      follow_chunks.simps [of _ _ "Some _"] follow_chunks.simps [of _ _ None])

lemma slow_statement_is_read_witness:
  "run_sql two_chunks None 120 = Some (Inr [[(Some ''n'', Some ''1'')], [(Some ''n'', Some ''2'')]])
   \<and> execute_and_poll two_chunks 120 = Some (Inr [[(Some ''n'', Some ''1'')]])"
proof -
  let ?r = "\<lparr>rs_id = Some ''s1'', rs_status = Some \<lparr>ss_state = Some Succeeded, ss_error = None\<rparr>,
             rs_columns = Some [Some ''n''], rs_result = Some \<lparr>ck_rows = [[Some ''1'']], ck_next = Some 1\<rparr>\<rparr>"
  have "settles two_chunks 120 ?r"
    unfolding settles_def
    by (intro conjI disjI2 exI [of _ running_response] exI [of _ 1])
      (auto simp: two_chunks_def running_response_def in_progress_def state_of_def)
  moreover have "state_of ?r = Some Succeeded" by (simp add: state_of_def)
  moreover have "resolve_warehouse two_chunks None = Inr ''w''"
    by (simp add: resolve_warehouse_def two_chunks_def get_warehouse_id_def)
  moreover have "ensure_warehouse_running (sv_warmup two_chunks) 60 = Some 0"
    by (simp add: two_chunks_def ensure_warehouse_running_def)
  moreover have "linked (sv_chunk two_chunks) ''s1'' (Some 1) [\<lparr>ck_rows = [[Some ''2'']], ck_next = None\<rparr>]" by (simp add: two_chunks_def)
  ultimately show ?thesis
    using slow_statement_is_read [of two_chunks 120 ?r None "''w''" 0 "[''n'']" "\<lparr>ck_rows = [[Some ''1'']], ck_next = Some 1\<rparr>" "''s1''"
      "[\<lparr>ck_rows = [[Some ''2'']], ck_next = None\<rparr>]"] by (simp add: row_dict_def)
qed

subsection \<open>A statement is submitted once\<close>

definition tracked :: "string \<Rightarrow> effect list \<Rightarrow> bool" where
  "tracked i es \<longleftrightarrow> list_all (\<lambda>e. case e of Submitted \<Rightarrow> False | Saved c \<Rightarrow> (\<exists>st rows. c = Checkpoint st (Some i) rows) | Removed \<Rightarrow> True) es"

lemma tracked_simps [simp]:
  "tracked i []" "tracked i (es @ fs) \<longleftrightarrow> tracked i es \<and> tracked i fs" "tracked i (Removed # es) \<longleftrightarrow> tracked i es"
  "tracked i (Saved (Checkpoint st (Some i) rows) # es) \<longleftrightarrow> tracked i es" "\<not> tracked i (Submitted # es)"
  by (auto simp: tracked_def)

lemma durable_polls_tracked:
  assumes "durable_polls clock get deadline i k es seen = Some r" and "tracked i es"
  shows "tracked i (fst r)"
proof -
  have "tracked i es \<longrightarrow> tracked i (fst r)"
    by (rule durable_polls.raw_induct [OF _ assms(1), where P = "\<lambda>clock get deadline i k es seen r. tracked i es \<longrightarrow> tracked i (fst r)"])
      (auto split: if_splits sum.splits)
  with assms(2) show ?thesis by simp
qed

lemma decode_rows: "decode_statement ws resp = Some (Inr rows) \<Longrightarrow> \<exists>cells cols. rows = map (row_dict cols) cells"
proof -
  assume a: "decode_statement ws resp = Some (Inr rows)"
  have e: "\<exists>cells cols. [] = map (row_dict cols) cells" by (intro exI [of _ "[]"]) simp
  show ?thesis
  proof (cases "resp = None \<or> rs_columns (the resp) = None")
    case True
    with a have "rows = []" by (auto simp: decode_statement_def split: option.splits)
    with e show ?thesis by simp
  next
    case False
    with a show ?thesis by (auto simp: decode_statement_def bind_result_Inr split: option.splits)
  qed
qed

lemma conclude_tracked:
  assumes "conclude sv i r = Some (es, y)"
  shows "tracked i es" and "y = Inr rows \<Longrightarrow> saved es d = Some (Checkpoint ''SUCCEEDED'' (Some i) (Some (map sorted_keys rows)))"
    and "y = Inr rows \<Longrightarrow> \<exists>cells cols. rows = map (row_dict cols) cells"
proof -
  have "tracked i es \<and> (y = Inr rows \<longrightarrow> saved es d = Some (Checkpoint ''SUCCEEDED'' (Some i) (Some (map sorted_keys rows)))
      \<and> (\<exists>cells cols. rows = map (row_dict cols) cells))"
  proof (cases "state_of r = Some Succeeded")
    case True
    with assms obtain x where x: "decode_statement (Some (sv_chunk sv)) (Some r) = Some x"
      and e: "(es, y) = (case x of Inl y \<Rightarrow> ([], Inl y)
          | Inr rows \<Rightarrow> ([Saved (Checkpoint ''SUCCEEDED'' (Some i) (Some (map sorted_keys rows)))], Inr rows))"
      by (auto simp: conclude_def)
    then show ?thesis using decode_rows by (cases x) (auto simp: saved_def)
  next
    case False
    with assms show ?thesis by (cases y) (auto simp: conclude_def split: if_splits)
  qed
  then show "tracked i es" and "y = Inr rows \<Longrightarrow> saved es d = Some (Checkpoint ''SUCCEEDED'' (Some i) (Some (map sorted_keys rows)))"
    and "y = Inr rows \<Longrightarrow> \<exists>cells cols. rows = map (row_dict cols) cells" by simp_all
qed

lemma follow_tracked:
  assumes "follow_statement sv timeout i r = Some (es, y)"
  shows "tracked i es" and "y = Inr rows \<Longrightarrow> saved es d = Some (Checkpoint ''SUCCEEDED'' (Some i) (Some (map sorted_keys rows)))"
    and "y = Inr rows \<Longrightarrow> \<exists>cells cols. rows = map (row_dict cols) cells"
proof -
  let ?start = "if in_progress r
        then durable_polls (sv_clock sv) (sv_get sv) (sv_clock sv 0 + timeout) i 0 [Saved (Checkpoint (state_name r) (Some i) None)] r
        else Some ([], Inr r)"
  from assms obtain es1 seen where s: "?start = Some (es1, seen)"
    and c: "(case seen of Inl x \<Rightarrow> Some (es1, Inl x) | Inr r' \<Rightarrow> map_option (\<lambda>(fs, y). (es1 @ fs, y)) (conclude sv i r')) = Some (es, y)"
    unfolding follow_statement_def by (cases ?start) auto
  have t: "tracked i es1"
    using s durable_polls_tracked [of "sv_clock sv" "sv_get sv" "sv_clock sv 0 + timeout" i 0 "[Saved (Checkpoint (state_name r) (Some i) None)]" r "(es1, seen)"]
    by (auto split: if_splits)
  have "tracked i es \<and> (y = Inr rows \<longrightarrow> saved es d = Some (Checkpoint ''SUCCEEDED'' (Some i) (Some (map sorted_keys rows)))
      \<and> (\<exists>cells cols. rows = map (row_dict cols) cells))"
  proof (cases seen)
    case (Inl x)
    with c t show ?thesis by (cases y) auto
  next
    case (Inr r')
    with c obtain fs where f: "conclude sv i r' = Some (fs, y)" and e: "es = es1 @ fs" by auto
    from conclude_tracked [OF f] t show ?thesis by (auto simp: e saved_def)
  qed
  then show "tracked i es" and "y = Inr rows \<Longrightarrow> saved es d = Some (Checkpoint ''SUCCEEDED'' (Some i) (Some (map sorted_keys rows)))"
    and "y = Inr rows \<Longrightarrow> \<exists>cells cols. rows = map (row_dict cols) cells" by simp_all
qed

text \<open>The id a checkpoint lets a later process attach to.\<close>

definition attached :: "checkpoint option \<Rightarrow> string option" where
  "attached d =
     (case d of Some (Checkpoint st (Some i) rows) \<Rightarrow> if i = '''' then None else Some i | _ \<Rightarrow> None)"

text \<open>An invocation either writes nothing, follows the statement it attached to, or submits one.\<close>

lemma durable_cases:
  assumes "run_sql_durable sv reattach wid timeout d = Some (es, y)"
  shows "es = [] \<and> (case y of Inl x \<Rightarrow> True | Inr rows \<Rightarrow> \<exists>i. d = Some (Checkpoint ''SUCCEEDED'' i (Some rows)))
    \<or> es = [Submitted] \<and> isl y
    \<or> (\<exists>i r. attached d = Some i \<and> follow_statement sv timeout i r = Some (es, y))
    \<or> (\<exists>r i fs. attached d = None \<and> sv_execute sv = Inr r \<and> rs_id r = Some i
         \<and> es = Submitted # Saved (Checkpoint ''SUBMITTED'' (Some i) None) # fs \<and> follow_statement sv timeout i r = Some (fs, y))"
proof (cases "resolve_warehouse sv wid")
  case (Inl x)
  with assms show ?thesis by (cases y) (auto simp: run_sql_durable_def)
next
  case (Inr wh)
  let ?i = "case d of None \<Rightarrow> None | Some c \<Rightarrow> if cp_id c = Some '''' then None else cp_id c"
  let ?fresh = "d = Some Unreadable \<or> d = Some NoDict \<or> d \<noteq> None \<and> cp_state (the d) = ''SUCCEEDED''"
  show ?thesis
  proof (cases ?fresh)
    case True
    with assms Inr show ?thesis
      by (cases "the d") (auto simp: run_sql_durable_def split: option.splits if_splits)
  next
    case False
    then have d: "d = None \<or> (\<exists>st i rows. d = Some (Checkpoint st i rows) \<and> st \<noteq> ''SUCCEEDED'')"
      by (cases d; cases "the d") auto
    then have i: "?i = attached d" by (auto simp: attached_def split: option.splits)
    have "run_sql_durable sv reattach wid timeout d =
        Option.bind (ensure_warehouse_running (sv_warmup sv) 60) (\<lambda>polls.
                   case ?i of
                     Some i \<Rightarrow>
                       (case reattach i of Inl x \<Rightarrow> Some ([], Inl (with_hint sv x)) | Inr r \<Rightarrow> follow_statement sv timeout i r)
                   | None \<Rightarrow>
                       (case sv_execute sv of
                          Inl x \<Rightarrow> Some ([], Inl (with_hint sv x))
                        | Inr r \<Rightarrow>
                            (case rs_id r of
                               None \<Rightarrow> Some ([Submitted], Inl (with_hint sv NoStatementId))
                             | Some i \<Rightarrow>
                                 map_option (\<lambda>(es, y). (Submitted # Saved (Checkpoint ''SUBMITTED'' (Some i) None) # es, y))
                                   (follow_statement sv timeout i r))))"
      using d Inr by (auto simp: run_sql_durable_def)
    with assms show ?thesis
      unfolding i by (cases "attached d") (auto simp: bind_eq_Some_conv split: sum.splits option.splits)
  qed
qed

text \<open>
  The life of one statement's file: invocations that end or crash, each leaving the file as it was after some of its effects.
  Counted are the submissions, and the events after which a new submission is due: a crash between the submission and
  the write of its id, and a statement that failed.
\<close>

definition lost :: "effect list \<Rightarrow> nat" where
  "lost es = (if es = [Submitted] then 1 else length (filter (\<lambda>e. e = Removed) es))"

definition submissions :: "effect list \<Rightarrow> nat" where
  "submissions es = length (filter (\<lambda>e. e = Submitted) es)"

inductive durable_history :: "checkpoint option \<Rightarrow> nat \<Rightarrow> nat \<Rightarrow> bool" where
  start: "durable_history None 0 0"
| invocation: "durable_history d n c \<Longrightarrow> run_sql_durable sv reattach wid timeout d = Some (es, y)
    \<Longrightarrow> (case sv_execute sv of Inl x \<Rightarrow> True | Inr r \<Rightarrow> rs_id r \<noteq> Some '''')
    \<Longrightarrow> durable_history (saved (take k es) d) (n + submissions (take k es)) (c + lost (take k es))"

lemma saved_tracked:
  assumes "tracked i es" and "i \<noteq> ''''" and "attached d = Some i"
  shows "submissions es = 0" and "attached (saved es d) = Some i \<or> 0 < length (filter (\<lambda>e. e = Removed) es)"
proof -
  show "submissions es = 0" using assms(1) by (induction es) (auto simp: submissions_def tracked_def)
  have "length (filter (\<lambda>e. e = Removed) es) = 0 \<Longrightarrow> attached (saved es d) = Some i"
    using assms(1,3)
  proof (induction es arbitrary: d)
    case (Cons e es)
    then show ?case using assms(2) by (cases e) (auto simp: saved_def attached_def tracked_def)
  qed (simp add: saved_def)
  then show "attached (saved es d) = Some i \<or> 0 < length (filter (\<lambda>e. e = Removed) es)" by auto
qed

lemma durable_effects:
  assumes "run_sql_durable sv reattach wid timeout d = Some (es, y)"
  shows "es = [] \<or> es = [Submitted] \<or> (\<exists>i. attached d = Some i \<and> tracked i es)
    \<or> (\<exists>r i fs. attached d = None \<and> sv_execute sv = Inr r \<and> rs_id r = Some i
         \<and> es = Submitted # Saved (Checkpoint ''SUBMITTED'' (Some i) None) # fs \<and> tracked i fs)"
  using durable_cases [OF assms]
proof (elim disjE exE conjE)
  fix i r
  assume "attached d = Some i" "follow_statement sv timeout i r = Some (es, y)"
  then show ?thesis using follow_tracked(1) by blast
next
  fix r i fs
  assume "attached d = None" "sv_execute sv = Inr r" "rs_id r = Some i"
    "es = Submitted # Saved (Checkpoint ''SUBMITTED'' (Some i) None) # fs" "follow_statement sv timeout i r = Some (fs, y)"
  then show ?thesis using follow_tracked(1) by blast
qed simp_all

lemma tracked_take: "tracked i es \<Longrightarrow> tracked i (take k es)"
  by (auto simp: tracked_def list_all_iff dest: in_set_takeD)

lemma tracked_not_submitted: "tracked i es \<Longrightarrow> es \<noteq> [Submitted]"
  by auto

text \<open>
  C9: a restart does not submit again.  Over any sequence of invocations, each of which may end or crash at any point, a
  statement is submitted at most once, plus once for each submission whose id was lost in a crash before it was written and
  once for each statement that failed.\<close>

theorem restart_does_not_submit_again:
  assumes "durable_history d n c"
  shows "n \<le> c + (if attached d = None then 0 else 1)"
  using assms
proof (induction rule: durable_history.induct)
  case start
  then show ?case by simp
next
  case (invocation d n c sv reattach wid timeout es y k)
  from durable_effects [OF invocation.hyps(2)] consider "es = []" | "es = [Submitted]"
    | i where "attached d = Some i" "tracked i es"
    | r i fs where "attached d = None" "sv_execute sv = Inr r" "rs_id r = Some i"
        "es = Submitted # Saved (Checkpoint ''SUBMITTED'' (Some i) None) # fs" "tracked i fs"
    by blast
  then show ?case
  proof cases
    case 1
    with invocation.IH show ?thesis by (simp add: saved_def submissions_def lost_def)
  next
    case 2
    with invocation.IH show ?thesis by (cases k) (auto simp: saved_def submissions_def lost_def split: if_splits)
  next
    case (3 i)
    then have i: "i \<noteq> ''''" by (auto simp: attached_def split: option.splits checkpoint.splits if_splits)
    note t = tracked_take [OF 3(2), of k]
    define m where "m = length (filter (\<lambda>e. e = Removed) (take k es))"
    have "lost (take k es) = m" using tracked_not_submitted [OF t] by (simp add: lost_def m_def)
    with saved_tracked [OF t i 3(1)] invocation.IH 3(1) show ?thesis unfolding m_def [symmetric] by auto
  next
    case (4 r i fs)
    with invocation.hyps(3) have i: "i \<noteq> ''''" by auto
    show ?thesis
    proof (cases "k \<le> 1")
      case True
      with 4 invocation.IH show ?thesis by (cases k) (auto simp: saved_def submissions_def lost_def take_Cons' split: if_splits)
    next
      case False
      then obtain m where k: "k = Suc (Suc m)" by (cases k; cases "k - 1") auto
      let ?d = "Some (Checkpoint ''SUBMITTED'' (Some i) None)"
      have "attached ?d = Some i" using i by (simp add: attached_def)
      from saved_tracked [OF tracked_take [OF 4(5), of m] i this]
      have "submissions (take m fs) = 0" "attached (saved (take m fs) ?d) = Some i \<or> 0 < length (filter (\<lambda>e. e = Removed) (take m fs))" .
      moreover define m' where "m' = length (filter (\<lambda>e. e = Removed) (take m fs))"
      moreover have "lost (take k es) = m'" "submissions (take k es) = Suc (submissions (take m fs))"
        "saved (take k es) d = saved (take m fs) ?d" by (simp_all add: 4(4) k saved_def submissions_def lost_def m'_def)
      ultimately show ?thesis using 4(1) invocation.IH unfolding m'_def [symmetric] by auto
    qed
  qed
qed

definition two_chunk_effects :: "effect list" where
  "two_chunk_effects = [Submitted, Saved (Checkpoint ''SUBMITTED'' (Some ''s1'') None), Saved (Checkpoint ''RUNNING'' (Some ''s1'') None),
     Saved (Checkpoint ''RUNNING'' (Some ''s1'') None), Saved (Checkpoint ''SUCCEEDED'' (Some ''s1'') None),
     Saved (Checkpoint ''SUCCEEDED'' (Some ''s1'') (Some [[(Some ''n'', Some ''1'')], [(Some ''n'', Some ''2'')]]))]"

lemma two_chunks_durable:
  "run_sql_durable two_chunks (\<lambda>i. Inl (Raised ''unused'')) None 120 None
     = Some (two_chunk_effects, Inr [[(Some ''n'', Some ''1'')], [(Some ''n'', Some ''2'')]])"
  by (simp add: two_chunk_effects_def run_sql_durable_def two_chunks_def resolve_warehouse_def get_warehouse_id_def ensure_warehouse_running_def follow_statement_def
        running_response_def in_progress_def state_of_def state_name_def conclude_def decode_statement_def first_rows_def name_or_empty_def row_dict_def
        sorted_keys_def durable_polls.simps [of _ _ _ _ 0] durable_polls.simps [of _ _ _ _ "Suc 0"] follow_chunks.simps [of _ _ "Some _"]
        follow_chunks.simps [of _ _ None])

lemma submitted_then_crashed: "durable_history (Some (Checkpoint ''SUBMITTED'' (Some ''s1'') None)) 1 0"
proof -
  from durable_history.invocation [OF durable_history.start two_chunks_durable, of 2] show ?thesis
    by (simp add: two_chunk_effects_def two_chunks_def running_response_def saved_def submissions_def lost_def numeral_2_eq_2)
qed

lemma restart_does_not_submit_again_witness: "\<exists>d. durable_history d 1 0 \<and> attached d \<noteq> None"
proof (intro exI conjI)
  show h: "durable_history (Some (Checkpoint ''SUBMITTED'' (Some ''s1'') None)) 1 0" by (rule submitted_then_crashed)
  show "attached (Some (Checkpoint ''SUBMITTED'' (Some ''s1'') None)) \<noteq> None"
    using restart_does_not_submit_again [OF h] by (auto split: if_splits)
qed

subsection \<open>A finished statement is cached\<close>

lemma dict_wf_row: "dict_wf (row_dict cols cells)"
proof -
  have "dict_wf d \<Longrightarrow> dict_wf (fold (\<lambda>(c, v). dset c v) ps d)" for ps :: "(string option \<times> cell) list" and d
    by (induction ps arbitrary: d) auto
  then show ?thesis by (simp add: row_dict_def)
qed

lemma sorted_keys_same: "dict_wf r \<Longrightarrow> dget (sorted_keys r) = dget r"
proof -
  assume w: "dict_wf r"
  have "mset (map fst (sorted_keys r)) = mset (map fst r)" unfolding sorted_keys_def by (simp add: mset_map)
  then have "dict_wf (sorted_keys r)" using w unfolding dict_wf_def by (metis mset_eq_imp_distinct_iff)
  moreover have "set (sorted_keys r) = set r" by (simp add: sorted_keys_def)
  ultimately show ?thesis using w dget_in_set_iff by (metis ext not_None_eq)
qed

text \<open>a finished statement is not run again.  After an invocation that returned rows, any later invocation, whatever the
  warehouse answers then, returns the same rows column by column, sends nothing and writes nothing.\<close>

theorem finished_statement_is_cached:
  assumes "run_sql_durable sv reattach wid timeout d = Some (es, Inr rows)" and "resolve_warehouse sv' wid = Inr wh"
  shows "\<exists>rows'. run_sql_durable sv' reattach' wid timeout' (saved es d) = Some ([], Inr rows')
     \<and> list_all2 (\<lambda>r r'. dget r = dget r') rows rows'"
proof -
  from durable_cases [OF assms(1)] consider i where "es = []" "d = Some (Checkpoint ''SUCCEEDED'' i (Some rows))"
    | i where "saved es d = Some (Checkpoint ''SUCCEEDED'' (Some i) (Some (map sorted_keys rows)))" "\<exists>cells cols. rows = map (row_dict cols) cells"
  proof (elim disjE exE conjE, goal_cases)
    case (3 i r)
    then show ?case using follow_tracked(2) [OF 3(4), of rows d] follow_tracked(3) [OF 3(4), of rows] by blast
  next
    case (4 r i fs)
    let ?d = "Some (Checkpoint ''SUBMITTED'' (Some i) None)"
    have "saved es d = saved fs ?d" by (simp add: 4(6) saved_def)
    then show ?case using 4 follow_tracked(2) [OF 4(7), of rows ?d] follow_tracked(3) [OF 4(7), of rows] by simp
  qed auto
  then show ?thesis
  proof cases
    case 1
    with assms(2) show ?thesis by (intro exI [of _ rows]) (simp add: run_sql_durable_def saved_def list_all2_same)
  next
    case (2 i)
    then have "list_all2 (\<lambda>r r'. dget r = dget r') rows (map sorted_keys rows)"
      by (auto simp: list_all2_conv_all_nth sorted_keys_same dict_wf_row)
    with 2 assms(2) show ?thesis by (intro exI [of _ "map sorted_keys rows"]) (simp add: run_sql_durable_def)
  qed
qed

lemma finished_statement_is_cached_witness:
  "\<exists>rows. run_sql_durable two_chunks (\<lambda>i. Inl (Raised ''unused'')) None 0 (saved two_chunk_effects None) = Some ([], Inr rows) \<and> length rows = 2"
proof -
  have "resolve_warehouse two_chunks None = Inr ''w''" by (simp add: resolve_warehouse_def two_chunks_def get_warehouse_id_def)
  from finished_statement_is_cached [OF two_chunks_durable this, of "\<lambda>i. Inl (Raised ''unused'')" 0] show ?thesis
    by (auto dest: list_all2_lengthD)
qed

text \<open>An expired statement stays in its file: every later invocation fails and writes nothing.\<close>

lemma expired_statement_is_stuck:
  assumes "resolve_warehouse sv wid = Inr wh" and "ensure_warehouse_running (sv_warmup sv) 60 = Some polls"
    and "d = Some (Checkpoint ''RUNNING'' (Some ''s1'') None)" and "reattach ''s1'' = Inl x"
  shows "run_sql_durable sv reattach wid timeout d = Some ([], Inl (with_hint sv x))"
  using assms by (simp add: run_sql_durable_def)

text \<open>The columns of cached rows are in alphabetical order, not in the statement's.\<close>

lemma cached_columns_are_sorted:
  "sorted_keys (row_dict [Some ''total'', Some ''day''] [Some ''7'', Some ''mon'']) = [(Some ''day'', Some ''mon''), (Some ''total'', Some ''7'')]"
  by code_simp

end
