(* ===== verification/Verified_Query.thy ===== *)
theory Verified_Query
  imports Sql_Access
begin

text \<open>
  Verified queries (\<open>_verified_query.py\<close>): a question is matched to an authored query by the overlap of their words,
  the caller's values become bind parameters, and the authored statement runs.

  What the warehouse answers depends on the statement and its parameters; Python's \<open>str\<close> of a value that is no string
  and the text of an error are parameters.
\<close>

subsection \<open>Matching\<close>

record query_param =
  qp_name :: string
  qp_desc :: "pyval option"
  qp_type :: "string option"

record golden =
  gq_question :: "string option"
  gq_sql :: string
  gq_params :: "query_param list"

definition token_char :: "char \<Rightarrow> bool" where
  "token_char c \<longleftrightarrow> CHR ''a'' \<le> c \<and> c \<le> CHR ''z'' \<or> CHR ''0'' \<le> c \<and> c \<le> CHR ''9''"

definition tokens :: "string \<Rightarrow> string list" where
  "tokens text = remdups (filter (\<lambda>w. w \<noteq> '''') (split_on (\<lambda>c. \<not> token_char c) (lower text)))"

definition overlap :: "string list \<Rightarrow> string list \<Rightarrow> real" where
  "overlap qs gs = real (length (filter (\<lambda>w. w \<in> set gs) qs)) / real (length (remdups (qs @ gs)))"

definition question_of :: "golden \<Rightarrow> string" where
  "question_of g = (case gq_question g of None \<Rightarrow> '''' | Some q \<Rightarrow> q)"

fun best_match :: "string list \<Rightarrow> golden list \<Rightarrow> golden option \<Rightarrow> real \<Rightarrow> golden option \<times> real" where
  "best_match qs [] best s = (best, s)"
| "best_match qs (g # gs) best s =
     (let ts = tokens (question_of g) in
      if ts = [] then best_match qs gs best s
      else if s < overlap qs ts then best_match qs gs (Some g) (overlap qs ts) else best_match qs gs best s)"

definition match_golden_query :: "string \<Rightarrow> golden list \<Rightarrow> golden option" where
  "match_golden_query question gs =
     (let qs = tokens question in
      if qs = [] then None
      else (let (best, s) = best_match qs gs None 0 in if 6 / 10 \<le> s then best else None))"

subsection \<open>Parameters\<close>

definition bind_types :: "(string \<times> string) list" where
  "bind_types =
     [(''int'', ''INT''), (''integer'', ''INT''), (''bigint'', ''BIGINT''), (''float'', ''FLOAT''), (''double'', ''DOUBLE''),
      (''decimal'', ''DECIMAL''), (''string'', ''STRING''), (''str'', ''STRING''), (''text'', ''STRING''), (''date'', ''DATE''),
      (''timestamp'', ''TIMESTAMP''), (''bool'', ''BOOLEAN''), (''boolean'', ''BOOLEAN'')]"

record bind_param =
  bp_name :: string
  bp_value :: string
  bp_type :: string

definition missing_message :: "(pyval \<Rightarrow> string) \<Rightarrow> query_param \<Rightarrow> string" where
  "missing_message str p =
     rev (dropWhile (\<lambda>c. c \<in> set '' ()'')
       (rev (''missing value for parameter '' @ [CHR 0x27] @ qp_name p @ [CHR 0x27] @ '' (''
             @ (case qp_desc p of None \<Rightarrow> '''' | Some v \<Rightarrow> str v) @ '')'')))"

definition bind_type :: "query_param \<Rightarrow> string" where
  "bind_type p =
     (case dget bind_types (strip (lower (case qp_type p of None \<Rightarrow> '''' | Some t \<Rightarrow> t))) of None \<Rightarrow> ''STRING'' | Some t \<Rightarrow> t)"

fun bind_params :: "(pyval \<Rightarrow> string) \<Rightarrow> query_param list \<Rightarrow> pyval dict \<Rightarrow> string + bind_param list" where
  "bind_params str [] supplied = Inr []"
| "bind_params str (p # ps) supplied =
     (if pget supplied (qp_name p) = PNone then Inl (missing_message str p)
      else bind_result (bind_params str ps supplied)
             (\<lambda>bs. Inr (\<lparr>bp_name = qp_name p, bp_value = str (pget supplied (qp_name p)), bp_type = bind_type p\<rparr> # bs)))"

subsection \<open>The statement\<close>

text \<open>\<open>s.replace(old, new)\<close> for a nonempty \<open>old\<close>.\<close>

function replace_text :: "string \<Rightarrow> string \<Rightarrow> string \<Rightarrow> string" where
  "replace_text old new s =
     (if old = [] \<or> s = [] then s
      else if starts_with old s then new @ replace_text old new (drop (length old) s)
      else hd s # replace_text old new (tl s))"
  by pat_completeness auto
termination by (relation "measure (\<lambda>(old, new, s). length s)") auto

declare replace_text.simps [simp del]

definition word_char :: "char \<Rightarrow> bool" where
  "word_char c \<longleftrightarrow>
     (let n = of_char c :: nat in
      48 \<le> n \<and> n \<le> 57 \<or> 65 \<le> n \<and> n \<le> 90 \<or> n = 95 \<or> 97 \<le> n \<and> n \<le> 122
      \<or> n \<in> {170, 178, 179, 181, 185, 186, 188, 189, 190} \<or> 192 \<le> n \<and> n \<noteq> 215 \<and> n \<noteq> 247)"

fun colon_markers :: "string \<Rightarrow> string" where
  "colon_markers [] = []"
| "colon_markers [c] = [c]"
| "colon_markers (c # d # cs) = (if c = CHR ''@'' \<and> word_char d then CHR '':'' else c) # colon_markers (d # cs)"

definition prepare_sql :: "string \<Rightarrow> string \<Rightarrow> string \<Rightarrow> string" where
  "prepare_sql sql catalog schema =
     colon_markers (replace_text ''{schema}'' schema (replace_text ''{catalog}'' catalog sql))"

subsection \<open>Running\<close>

datatype verified_result =
    NoMatch
  | MatchError "string option" string
  | Matched (vr_question: "string option") (vr_sql: string) (vr_count: nat) (vr_truncated: bool) (vr_rows: "row list")

text \<open>The statements sent, with their parameters, and the answer.\<close>

definition run_verified_query :: "(pyval \<Rightarrow> string) \<Rightarrow> (sql_error \<Rightarrow> string) \<Rightarrow> (string \<Rightarrow> bind_param list \<Rightarrow> service) \<Rightarrow> golden list
    \<Rightarrow> string \<Rightarrow> string \<Rightarrow> string option \<Rightarrow> int \<Rightarrow> string \<Rightarrow> pyval dict \<Rightarrow> ((string \<times> bind_param list) list \<times> verified_result) option" where
  "run_verified_query str msg sv gs catalog schema wid max_rows question params =
     (case match_golden_query question gs of
        None \<Rightarrow> Some ([], NoMatch)
      | Some g \<Rightarrow>
          (case bind_params str (gq_params g) params of
             Inl e \<Rightarrow> Some ([], MatchError (gq_question g) e)
           | Inr bs \<Rightarrow>
               (let sql = prepare_sql (gq_sql g) catalog schema in
                map_option (\<lambda>r. ([(sql, bs)],
                    case r of
                      Inl x \<Rightarrow> MatchError (gq_question g) (msg x)
                    | Inr rows \<Rightarrow> Matched (gq_question g) sql (length rows) (max_rows < int (length rows)) (py_take max_rows rows)))
                  (run_sql (sv sql bs) wid 120))))"

subsection \<open>Only authored statements run\<close>

definition fit :: "string \<Rightarrow> golden \<Rightarrow> real" where
  "fit question g = overlap (tokens question) (tokens (question_of g))"

lemma overlap_none: "overlap qs [] = 0"
  by (simp add: overlap_def)

lemma best_match_best:
  "best_match (tokens question) gs b s = (b', s') \<Longrightarrow> 0 \<le> s \<Longrightarrow>
    s \<le> s' \<and> (\<forall>g \<in> set gs. fit question g \<le> s') \<and> (b' = b \<and> s' = s \<or> (\<exists>g \<in> set gs. b' = Some g \<and> s' = fit question g))"
proof (induction gs arbitrary: b s)
  case (Cons g gs)
  show ?case
  proof (cases "tokens (question_of g) = [] \<or> \<not> s < fit question g")
    case True
    with Cons.prems have m: "best_match (tokens question) gs b s = (b', s')" by (auto simp: fit_def Let_def split: if_splits)
    from True Cons.prems(2) have "fit question g \<le> s" by (auto simp: fit_def overlap_none)
    with Cons.IH [OF m Cons.prems(2)] show ?thesis by auto
  next
    case False
    with Cons.prems have m: "best_match (tokens question) gs (Some g) (fit question g) = (b', s')" by (simp add: fit_def Let_def)
    from False Cons.prems(2) have "0 \<le> fit question g" "s < fit question g" by auto
    with Cons.IH [OF m] show ?thesis by auto
  qed
qed simp

lemma match_is_best:
  assumes "match_golden_query question gs = Some g"
  shows "g \<in> set gs \<and> 6 / 10 \<le> fit question g \<and> (\<forall>g' \<in> set gs. fit question g' \<le> fit question g)"
proof -
  obtain b s where m: "best_match (tokens question) gs None 0 = (b, s)" by fastforce
  with assms have "b = Some g" "6 / 10 \<le> s" by (auto simp: match_golden_query_def Let_def split: if_splits)
  with best_match_best [OF m] show ?thesis by auto
qed

lemma bound_params:
  "bind_params str ps supplied = Inr bs \<Longrightarrow>
     bs = map (\<lambda>p. \<lparr>bp_name = qp_name p, bp_value = str (pget supplied (qp_name p)), bp_type = bind_type p\<rparr>) ps
     \<and> list_all (\<lambda>p. pget supplied (qp_name p) \<noteq> PNone) ps"
  by (induction ps arbitrary: bs) (auto simp: bind_result_Inr split: if_splits)

text \<open>
  C21: the caller's words choose a statement and never become one.  At most one statement is sent; it is the text of an authored
  query with the configured catalog and schema put in, a query whose question overlaps the caller's by at least six tenths and
  by no less than any other; the caller's values appear only as bind parameters, one for each parameter the query declares.\<close>

theorem only_authored_sql_runs:
  assumes "run_verified_query str msg sv gs catalog schema wid max_rows question params = Some (sent, res)"
  shows "case sent of
      [] \<Rightarrow> (case res of Matched q s n t rows \<Rightarrow> False | _ \<Rightarrow> True)
    | [(sql, bs)] \<Rightarrow>
        list_ex (\<lambda>g. sql = prepare_sql (gq_sql g) catalog schema
            \<and> 6 / 10 \<le> fit question g \<and> list_all (\<lambda>g'. fit question g' \<le> fit question g) gs
            \<and> bs = map (\<lambda>p. \<lparr>bp_name = qp_name p, bp_value = str (pget params (qp_name p)), bp_type = bind_type p\<rparr>) (gq_params g)
            \<and> list_all (\<lambda>p. pget params (qp_name p) \<noteq> PNone) (gq_params g)) gs
    | _ \<Rightarrow> False"
proof (cases "match_golden_query question gs")
  case None
  with assms show ?thesis by (auto simp: run_verified_query_def)
next
  case (Some g)
  show ?thesis
  proof (cases "bind_params str (gq_params g) params")
    case (Inl e)
    with assms Some show ?thesis by (auto simp: run_verified_query_def)
  next
    case (Inr bs)
    with assms Some have "sent = [(prepare_sql (gq_sql g) catalog schema, bs)]" by (auto simp: run_verified_query_def Let_def)
    with match_is_best [OF Some] bound_params [OF Inr] show ?thesis by (auto simp: list_ex_iff list_all_iff)
  qed
qed

definition orders_query :: golden where
  "orders_query =
     \<lparr>gq_question = Some ''Which orders are above a threshold?'', gq_sql = ''SELECT * FROM {catalog}.{schema}.orders WHERE total > @threshold'',
      gq_params = [\<lparr>qp_name = ''threshold'', qp_desc = None, qp_type = Some ''Int ''\<rparr>]\<rparr>"

lemma only_authored_sql_runs_witness:
  "\<exists>res. run_verified_query (\<lambda>v. ''100'') (\<lambda>x. '''') (\<lambda>sql bs. two_chunks) [orders_query] ''main'' ''sales'' None 1
       ''which orders are above the threshold'' [(''threshold'', PInt 100)]
     = Some ([(''SELECT * FROM main.sales.orders WHERE total > :threshold'', [\<lparr>bp_name = ''threshold'', bp_value = ''100'', bp_type = ''INT''\<rparr>])], res)
     \<and> 6 / 10 \<le> fit ''which orders are above the threshold'' orders_query"
proof -
  let ?q = "''which orders are above the threshold''"
  have t: "tokens ?q = [''which'', ''orders'', ''are'', ''above'', ''the'', ''threshold'']"
    "tokens (question_of orders_query) = [''which'', ''orders'', ''are'', ''above'', ''a'', ''threshold'']" by code_simp+
  have "overlap (tokens ?q) (tokens (question_of orders_query)) = 5 / 7" unfolding t by (simp add: overlap_def)
  then have m: "match_golden_query ?q [orders_query] = Some orders_query" by (simp add: match_golden_query_def t(1) t(2) Let_def)
  have b: "bind_params (\<lambda>v. ''100'') (gq_params orders_query) [(''threshold'', PInt 100)] = Inr [\<lparr>bp_name = ''threshold'', bp_value = ''100'', bp_type = ''INT''\<rparr>]"
    by code_simp
  have p: "prepare_sql (gq_sql orders_query) ''main'' ''sales'' = ''SELECT * FROM main.sales.orders WHERE total > :threshold''" by code_simp
  have "run_sql two_chunks None 120 = Some (Inr [[(Some ''n'', Some ''1'')], [(Some ''n'', Some ''2'')]])" by (rule two_chunks_rows)
  then obtain res where r: "run_verified_query (\<lambda>v. ''100'') (\<lambda>x. '''') (\<lambda>sql bs. two_chunks) [orders_query] ''main'' ''sales'' None 1 ?q [(''threshold'', PInt 100)]
     = Some ([(''SELECT * FROM main.sales.orders WHERE total > :threshold'', [\<lparr>bp_name = ''threshold'', bp_value = ''100'', bp_type = ''INT''\<rparr>])], res)"
    by (simp add: run_verified_query_def m b p Let_def)
  from only_authored_sql_runs [OF r] r show ?thesis by auto
qed

text \<open>An at sign in a literal of an authored statement is taken for a parameter marker.\<close>

lemma literals_are_rewritten:
  "prepare_sql (''SELECT * FROM t WHERE mail = '' @ [quote_char] @ ''a@b.com'' @ [quote_char]) ''main'' ''sales''
     = ''SELECT * FROM t WHERE mail = '' @ [quote_char] @ ''a:b.com'' @ [quote_char]"
  by code_simp

end
