(* ===== verification/Tool_Search.thy ===== *)
theory Tool_Search
  imports Keyed_State "HOL-Library.Product_Lexorder"
begin

text \<open>
  Deferred tools (\<open>_tool_search.py\<close>): the search over the catalog, the names it binds in the keyed state, and the tools
  a model call is shown.
\<close>

subsection \<open>Ranking\<close>

record entry =
  en_name :: string
  en_description :: string

definition tool_loading :: "string \<Rightarrow> string option" where
  "tool_loading v = (if v \<in> {''eager'', ''deferred''} then Some v else None)"

definition haystack :: "entry \<Rightarrow> string" where
  "haystack e = lower (en_name e @ '' '' @ en_description e)"

definition query_tokens :: "string \<Rightarrow> string list" where
  "query_tokens q = words (map (\<lambda>c. if c = CHR ''_'' then CHR '' '' else c) q)"

definition score :: "string \<Rightarrow> entry \<Rightarrow> nat" where
  "score q e =
     (if str_contains q (haystack e) then 2 else 0)
     + length (filter (\<lambda>t. str_contains t (haystack e)) (query_tokens q))"

definition rank_tools :: "string \<Rightarrow> entry list \<Rightarrow> entry list" where
  "rank_tools query catalog =
     (let q = lower (strip query) in
      if q = '''' then []
      else map snd (sort_key (\<lambda>(s, e). (- int s, en_name e)) (filter (\<lambda>(s, e). 0 < s) (map (\<lambda>e. (score q e, e)) catalog))))"

subsection \<open>Binding\<close>

definition bound_key :: string where
  "bound_key = ''bound_tools''"

text \<open>\<open>list(v or [])\<close>; \<open>None\<close> when the value cannot be iterated.\<close>

definition iterated :: "pyval \<Rightarrow> pyval list option" where
  "iterated v =
     (if \<not> truthy v then Some []
      else case v of
             PList vs \<Rightarrow> Some vs
           | PStr s \<Rightarrow> Some (map (\<lambda>c. PStr [c]) s)
           | PDict d \<Rightarrow> Some (map (\<lambda>(k, x). PStr k) d)
           | _ \<Rightarrow> None)"

definition merge_names :: "string list \<Rightarrow> pyval list \<Rightarrow> pyval list" where
  "merge_names names already = fold (\<lambda>n merged. if PStr n \<in> set merged then merged else merged @ [PStr n]) names already"

text \<open>The search tool: what it answers and what it writes to the keyed state; \<open>None\<close> is the raised \<open>TypeError\<close>.\<close>

definition tool_search :: "entry list \<Rightarrow> string \<Rightarrow> pyval dict \<Rightarrow> (entry list \<times> pyval dict) option" where
  "tool_search catalog query st =
     (let matched = rank_tools query catalog; names = filter (\<lambda>n. n \<noteq> '''') (map en_name matched) in
      if names = [] then Some (matched, [])
      else map_option (\<lambda>already. (matched, [(bound_key, PList (merge_names names already))])) (iterated (pget st bound_key)))"

text \<open>
  The searches of one model message: each is injected the state at the start of the message, and what they write is merged
  into it in their order, the last write of a key winning.
\<close>

definition search_round :: "entry list \<Rightarrow> string list \<Rightarrow> pyval dict \<Rightarrow> pyval dict option" where
  "search_round catalog queries st =
     map_option (\<lambda>rs. fold (\<lambda>r s. merge_state (Some s) (Some (snd r))) rs st) (those (map (\<lambda>q. tool_search catalog q st) queries))"

text \<open>The names a request reads from the graph's state.\<close>

definition bound_names :: "pyval option \<Rightarrow> string set option" where
  "bound_names graph_state =
     (let keyed = (case graph_state of Some (PDict g) \<Rightarrow> py_or (pget g ''state'') (PDict []) | _ \<Rightarrow> PDict []) in
      case keyed of
        PDict k \<Rightarrow> map_option (\<lambda>vs. set (List.map_filter (\<lambda>v. case v of PStr n \<Rightarrow> Some n | _ \<Rightarrow> None) vs)) (iterated (pget k bound_key))
      | _ \<Rightarrow> Some {})"

definition visible_tools :: "'t \<Rightarrow> 't list \<Rightarrow> ('t \<Rightarrow> string) \<Rightarrow> 't list \<Rightarrow> pyval option \<Rightarrow> 't list option" where
  "visible_tools search pinned name searchable graph_state =
     map_option (\<lambda>bound. [search] @ pinned @ filter (\<lambda>t. name t \<in> bound) searchable) (bound_names graph_state)"

subsection \<open>What a search finds\<close>

definition matches :: "string \<Rightarrow> entry \<Rightarrow> bool" where
  "matches query e \<longleftrightarrow> lower (strip query) \<noteq> '''' \<and> 0 < score (lower (strip query)) e"

lemma set_rank: "set (rank_tools query catalog) = {e \<in> set catalog. matches query e}"
  by (auto simp: rank_tools_def matches_def Let_def image_iff)

lemma rank_sorted:
  "sorted_wrt (\<lambda>a b. (- int (score (lower (strip query)) a), en_name a) \<le> (- int (score (lower (strip query)) b), en_name b))
     (rank_tools query catalog)"
proof (cases "lower (strip query) = ''''")
  case False
  let ?q = "lower (strip query)"
  let ?f = "\<lambda>(s, e). (- int s, en_name e)"
  let ?l = "filter (\<lambda>(s, e). 0 < s) (map (\<lambda>e. (score ?q e, e)) catalog)"
  have "sorted_wrt (\<lambda>x y. ?f x \<le> ?f y) (sort_key ?f ?l)" using sorted_sort_key [of ?f ?l] by (simp add: sorted_map)
  moreover have "x \<in> set (sort_key ?f ?l) \<Longrightarrow> ?f x = (- int (score ?q (snd x)), en_name (snd x))" for x by auto
  ultimately have "sorted_wrt (\<lambda>x y. (- int (score ?q (snd x)), en_name (snd x)) \<le> (- int (score ?q (snd y)), en_name (snd y))) (sort_key ?f ?l)"
    by (smt (verit, ccfv_SIG) sorted_wrt_mono_rel)
  then show ?thesis using False by (simp add: rank_tools_def Let_def sorted_wrt_map)
qed (simp add: rank_tools_def)

subsection \<open>What stays bound\<close>

lemma merge_names_strs: "list_all (\<lambda>v. case v of PStr n \<Rightarrow> True | _ \<Rightarrow> False) vs
    \<Longrightarrow> list_all (\<lambda>v. case v of PStr n \<Rightarrow> True | _ \<Rightarrow> False) (merge_names names vs)"
  unfolding merge_names_def by (induction names arbitrary: vs) auto

lemma set_merge_names: "set (merge_names names vs) = set vs \<union> PStr ` set names"
  unfolding merge_names_def by (induction names arbitrary: vs) auto

lemma distinct_merge_names: "distinct vs \<Longrightarrow> distinct (merge_names names vs)"
  unfolding merge_names_def by (induction names arbitrary: vs) auto

text \<open>
  The searches of a session, from an empty keyed state, message by message; other keys may be written in between.  Of the
  searches of one message the last that found a tool is kept.
\<close>

definition found_names :: "entry list \<Rightarrow> string \<Rightarrow> string list" where
  "found_names catalog q = filter (\<lambda>n. n \<noteq> '''') (map en_name (rank_tools q catalog))"

definition kept :: "entry list \<Rightarrow> string list \<Rightarrow> string list" where
  "kept catalog queries = (case filter (\<lambda>q. found_names catalog q \<noteq> []) queries of [] \<Rightarrow> [] | q # qs \<Rightarrow> [last (q # qs)])"

inductive searched :: "entry list \<Rightarrow> pyval dict \<Rightarrow> string list \<Rightarrow> bool" for catalog where
  start: "dget st bound_key = None \<Longrightarrow> searched catalog st []"
| message: "searched catalog st qs \<Longrightarrow> search_round catalog queries st = Some st' \<Longrightarrow> searched catalog st' (kept catalog queries @ qs)"
| other: "searched catalog st qs \<Longrightarrow> k \<noteq> bound_key \<Longrightarrow> searched catalog (dset k v st) qs"

definition revealed :: "entry list \<Rightarrow> string list \<Rightarrow> string list" where
  "revealed catalog qs = filter (\<lambda>n. n \<noteq> '''') (map en_name (filter (\<lambda>e. list_ex (\<lambda>q. matches q e) qs) catalog))"

lemma revealed_Cons: "set (revealed catalog (q # qs)) = set (revealed catalog qs) \<union> set (found_names catalog q)"
  by (auto simp: revealed_def found_names_def set_rank)

text \<open>A message with one search keeps it.\<close>

lemma revealed_single: "set (revealed catalog (kept catalog [q] @ qs)) = set (revealed catalog (q # qs))"
  unfolding revealed_Cons by (simp add: kept_def revealed_Cons)

lemma kept_cases: "kept catalog queries = [] \<or> (\<exists>q. kept catalog queries = [q] \<and> found_names catalog q \<noteq> [])"
proof (cases "filter (\<lambda>q. found_names catalog q \<noteq> []) queries")
  case (Cons q qs)
  then have "last (q # qs) \<in> set (filter (\<lambda>q. found_names catalog q \<noteq> []) queries)" by simp
  then have "found_names catalog (last (q # qs)) \<noteq> []" by simp
  with Cons show ?thesis by (simp add: kept_def)
qed (simp add: kept_def)

text \<open>What a message leaves: the merge of the names bound before it and of those its kept search found.\<close>

lemma those_map: "(\<And>x. x \<in> set xs \<Longrightarrow> f x = Some (g x)) \<Longrightarrow> those (map f xs) = Some (map g xs)"
  by (induction xs) simp_all

lemma fold_writes:
  "fold (\<lambda>q s. merge_state (Some s) (Some (if found_names catalog q = [] then [] else [(bound_key, w q)]))) queries st
     = (case filter (\<lambda>q. found_names catalog q \<noteq> []) queries of [] \<Rightarrow> st | q # qs \<Rightarrow> dset bound_key (w (last (q # qs))) st)"
proof (induction queries arbitrary: st)
  case (Cons q queries)
  then show ?case by (auto simp: merge_state_def dict_update_def split: list.split)
qed simp

lemma search_round_eq:
  assumes "iterated (pget st bound_key) = Some vs"
  shows "search_round catalog queries st = Some (case kept catalog queries of
    [] \<Rightarrow> st | q # qs \<Rightarrow> dset bound_key (PList (merge_names (found_names catalog q) vs)) st)"
proof -
  have t: "those (map (\<lambda>q. tool_search catalog q st) queries) = Some (map (\<lambda>q. (rank_tools q catalog,
      if found_names catalog q = [] then [] else [(bound_key, PList (merge_names (found_names catalog q) vs))])) queries)"
    by (rule those_map) (simp add: tool_search_def found_names_def Let_def assms)
  show ?thesis unfolding search_round_def t
    by (simp add: fold_map comp_def fold_writes [of catalog "\<lambda>q. PList (merge_names (found_names catalog q) vs)"] kept_def
        split: list.split)
qed

lemma searched_bound:
  assumes "searched catalog st qs"
  shows "\<exists>vs. iterated (pget st bound_key) = Some vs \<and> set vs = PStr ` set (revealed catalog qs) \<and> distinct vs
    \<and> (vs = [] \<or> pget st bound_key = PList vs)"
  using assms
proof (induction rule: searched.induct)
  case (start st)
  then show ?case by (simp add: pget_def iterated_def revealed_def)
next
  case (message st qs queries st')
  then obtain vs where vs: "iterated (pget st bound_key) = Some vs" "set vs = PStr ` set (revealed catalog qs)" "distinct vs"
    "vs = [] \<or> pget st bound_key = PList vs" by blast
  note st' = message.hyps(2) [unfolded search_round_eq [OF vs(1)]]
  show ?case
  proof (cases "kept catalog queries")
    case Nil
    with st' vs show ?thesis by auto
  next
    case (Cons q rest)
    with kept_cases [of catalog queries] have k: "kept catalog queries = [q]" and f: "found_names catalog q \<noteq> []" by auto
    let ?ms = "merge_names (found_names catalog q) vs"
    from f have ne: "?ms \<noteq> []" using set_merge_names [of "found_names catalog q" vs] by (metis Un_empty image_is_empty set_empty)
    from st' k have p: "pget st' bound_key = PList ?ms" by (auto simp: pget_def dict_simps)
    with ne have "iterated (pget st' bound_key) = Some ?ms" by (simp add: iterated_def)
    with p vs(2,3) show ?thesis unfolding k
      by (intro exI [of _ ?ms]) (simp add: set_merge_names revealed_Cons distinct_merge_names image_Un Un_commute)
  qed
next
  case (other st qs k v)
  then show ?case by (simp add: pget_def dict_simps)
qed

text \<open>
  C37: a searched tool stays visible and no other is shown.  After any messages of a session, each with any number of searches,
  and whatever else was written to its state, a model call is shown the search tool, the pinned tools and, in their order,
  exactly the searchable tools that a kept search matched: every search that shares its message with no other, and the last
  that found a tool of those that share one.\<close>

theorem searched_tools_stay_visible:
  assumes "searched catalog st qs"
  shows "visible_tools search_tool pinned name searchable (Some (PDict [(''state'', PDict st)]))
    = Some ([search_tool] @ pinned @ filter (\<lambda>t. name t \<in> set (revealed catalog qs)) searchable)"
proof -
  from searched_bound [OF assms] obtain vs where vs: "iterated (pget st bound_key) = Some vs" "set vs = PStr ` set (revealed catalog qs)" by blast
  have "set (List.map_filter (\<lambda>v. case v of PStr n \<Rightarrow> Some n | _ \<Rightarrow> None) vs) = set (revealed catalog qs)"
    using vs(2) by (force simp: List.map_filter_def)
  moreover have "py_or (PDict st) (PDict []) = PDict st" by (cases st) (auto simp: py_or_def)
  ultimately show ?thesis by (simp add: visible_tools_def bound_names_def pget_def [of "[(''state'', PDict st)]"] vs(1))
qed

definition desk_catalog :: "entry list" where
  "desk_catalog = [\<lparr>en_name = ''list_orders'', en_description = ''Lists the orders of a customer''\<rparr>,
                   \<lparr>en_name = ''refund'', en_description = ''Refunds an order''\<rparr>]"

lemma searched_tools_stay_visible_witness:
  "\<exists>st. searched desk_catalog st ['' lists '', '' refunds ''] \<and>
     visible_tools ''tool_search'' [] id [''list_orders'', ''other'', ''refund''] (Some (PDict [(''state'', PDict st)]))
       = Some [''tool_search'', ''list_orders'', ''refund'']"
proof -
  have k: "kept desk_catalog ['' refunds '', ''nothing''] = ['' refunds '']" "kept desk_catalog ['' lists ''] = ['' lists '']" by code_simp+
  have "search_round desk_catalog ['' refunds '', ''nothing''] [] = Some [(bound_key, PList [PStr ''refund''])]" by code_simp
  from searched.message [OF searched.start this] k have "searched desk_catalog [(bound_key, PList [PStr ''refund''])] ['' refunds '']" by simp
  moreover have "search_round desk_catalog ['' lists ''] [(bound_key, PList [PStr ''refund''])]
      = Some [(bound_key, PList [PStr ''refund'', PStr ''list_orders''])]" by code_simp
  ultimately have s: "searched desk_catalog [(bound_key, PList [PStr ''refund'', PStr ''list_orders''])] ['' lists '', '' refunds '']"
    using searched.message k by fastforce
  have "revealed desk_catalog ['' lists '', '' refunds ''] = [''list_orders'', ''refund'']" by code_simp
  with searched_tools_stay_visible [OF s, of "''tool_search''" "[]" id "[''list_orders'', ''other'', ''refund'']"] s show ?thesis by auto
qed

text \<open>Two searches of one message: what the first found is not bound.\<close>

lemma parallel_searches_lose_tools:
  "search_round desk_catalog ['' refunds '', '' lists ''] [] = Some [(bound_key, PList [PStr ''list_orders''])]"
  by code_simp

text \<open>the best match comes first.  A search answers exactly the matching entries, those with the higher score before the
  others and equal scores in the order of their names.\<close>

theorem search_ranks_matches:
  "set (rank_tools query catalog) = {e \<in> set catalog. matches query e}
   \<and> sorted_wrt (\<lambda>a b. score (lower (strip query)) b < score (lower (strip query)) a
        \<or> score (lower (strip query)) a = score (lower (strip query)) b \<and> en_name a \<le> en_name b) (rank_tools query catalog)"
proof
  show "set (rank_tools query catalog) = {e \<in> set catalog. matches query e}" by (rule set_rank)
  show "sorted_wrt (\<lambda>a b. score (lower (strip query)) b < score (lower (strip query)) a
        \<or> score (lower (strip query)) a = score (lower (strip query)) b \<and> en_name a \<le> en_name b) (rank_tools query catalog)"
    by (rule sorted_wrt_mono_rel [OF _ rank_sorted]) (auto simp: less_eq_prod_def)
qed

end
