(* ===== verification/Graph_Executor.thy ===== *)
theory Graph_Executor
  imports Agent_Registry
begin

text \<open>
  The executor of compiled graphs (\<open>_langgraph_executor.py\<close>, \<open>_executor.py\<close>): the visible text of a message, the cache of
  compiled graphs by model and tool version, and a turn with its events.

  The compiler and the graph it builds are parameters; the runs of the graph a turn makes are part of its result.
\<close>

subsection \<open>Visible text\<close>

definition join_text_blocks :: "pyval list \<Rightarrow> string" where
  "join_text_blocks blocks =
     concat (List.map_filter (\<lambda>b. case b of PDict d \<Rightarrow> (case pget d ''text'' of PStr t \<Rightarrow> Some t | _ \<Rightarrow> None) | _ \<Rightarrow> None) blocks)"

definition typed_block :: "pyval \<Rightarrow> bool" where
  "typed_block b = (case b of PDict d \<Rightarrow> dget d ''type'' \<noteq> None | _ \<Rightarrow> False)"

definition content_to_text :: "(string \<Rightarrow> pyval option) \<Rightarrow> (pyval \<Rightarrow> string) \<Rightarrow> pyval \<Rightarrow> string" where
  "content_to_text loads shown content =
     (case content of
        PList blocks \<Rightarrow> join_text_blocks blocks
      | PStr s \<Rightarrow>
          if starts_with ''['' (dropWhile is_space s) \<and> str_contains (CHR 0x22 # ''type'' @ [CHR 0x22]) (dropWhile is_space s)
          then (case loads s of
                  Some (PList blocks) \<Rightarrow> if list_ex typed_block blocks then join_text_blocks blocks else s
                | _ \<Rightarrow> s)
          else s
      | v \<Rightarrow> shown v)"

text \<open>A message the graph emits: whether it is an assistant message, whether it asks for tools, its content.\<close>

record gmsg =
  gm_ai :: bool
  gm_calls :: bool
  gm_content :: pyval

definition plain_text :: "(pyval \<Rightarrow> string) \<Rightarrow> pyval \<Rightarrow> string" where
  "plain_text shown content = (case content of PStr s \<Rightarrow> s | v \<Rightarrow> shown v)"

definition final_text :: "(pyval \<Rightarrow> string) \<Rightarrow> gmsg list \<Rightarrow> string" where
  "final_text shown ms =
     (case find (\<lambda>m. gm_ai m \<and> \<not> gm_calls m) (rev ms) of
        Some m \<Rightarrow> plain_text shown (gm_content m)
      | None \<Rightarrow> if ms = [] then '''' else plain_text shown (gm_content (last ms)))"

text \<open>An update of the graph: its nodes in order, each with the messages of its output if that is an object.\<close>

datatype update = NoObject | Nodes "gmsg list option list"

definition texts_from_chunk :: "(string \<Rightarrow> pyval option) \<Rightarrow> (pyval \<Rightarrow> string) \<Rightarrow> update \<Rightarrow> string list" where
  "texts_from_chunk loads shown u =
     (case u of
        NoObject \<Rightarrow> []
      | Nodes outs \<Rightarrow>
          filter (\<lambda>t. t \<noteq> '''')
            (map (\<lambda>m. content_to_text loads shown (gm_content m))
              (filter (\<lambda>m. gm_ai m \<and> \<not> gm_calls m) (concat (map (\<lambda>out. case out of None \<Rightarrow> [] | Some ms \<Rightarrow> ms) outs)))))"

subsection \<open>Turns\<close>

datatype executor_exn = TypeErr | AttributeErr | NotImplementedErr | OutputInvalid string | OtherErr string

datatype executor_event = TextChunk string | TurnComplete "string option" | ExecutorError executor_exn "executor_exn option"

text \<open>A compiled graph: an astream run gives its updates and how it ended; an ainvoke run its messages.\<close>

record graph =
  gr_stream :: "msg list \<Rightarrow> update list \<times> executor_exn option"
  gr_invoke :: "msg list \<Rightarrow> executor_exn + gmsg list"

datatype graph_run = Streamed | Invoked

record executor =
  ex_model :: "string option"
  ex_memory :: bool
  ex_cache :: "((string \<times> nat) \<times> graph) list"

record turn_config =
  tg_model :: "string option"
  tg_thread :: "string option"

definition nonempty_or :: "string option \<Rightarrow> string option \<Rightarrow> string option" where
  "nonempty_or a b = (case a of None \<Rightarrow> b | Some s \<Rightarrow> if s = '''' then b else a)"

definition resolved_model :: "executor \<Rightarrow> turn_config option \<Rightarrow> string" where
  "resolved_model ex cfg = or_empty (nonempty_or (Option.bind cfg tg_model) (ex_model ex))"

text \<open>
  The tools of the served agent: the registry of a leaf agent, or those of the leaves of a composite.  Only the leaf class
  has a tools version; the cache reads 0 for every other agent.
\<close>

datatype served_agent = LlmAgent registry | Composite "registry list"

definition tools_version :: "served_agent \<Rightarrow> nat" where
  "tools_version w = (case w of LlmAgent r \<Rightarrow> rg_version r | Composite rs \<Rightarrow> 0)"

definition get_compiled :: "(served_agent \<Rightarrow> string \<Rightarrow> executor_exn + graph) \<Rightarrow> served_agent \<Rightarrow> string \<Rightarrow> executor
    \<Rightarrow> (executor_exn + graph) \<times> executor" where
  "get_compiled compile r model ex =
     (case dget (ex_cache ex) (model, tools_version r) of
        Some g \<Rightarrow> (Inr g, ex)
      | None \<Rightarrow>
          (case compile r model of
             Inl x \<Rightarrow> (Inl x, ex)
           | Inr g \<Rightarrow> (Inr g, ex\<lparr>ex_cache := dset (model, tools_version r) g (ex_cache ex)\<rparr>)))"

definition falls_back :: "executor_exn \<Rightarrow> bool" where
  "falls_back x \<longleftrightarrow> x \<in> {TypeErr, AttributeErr, NotImplementedErr}"

definition failure :: "bool \<Rightarrow> executor_exn \<Rightarrow> executor_event" where
  "failure protected x =
     (case x of
        OutputInvalid s \<Rightarrow> ExecutorError x (Some x)
      | _ \<Rightarrow> ExecutorError x (if protected then Some x else None))"

text \<open>The events and the runs of a graph in a turn.\<close>

definition run_graph :: "(string \<Rightarrow> pyval option) \<Rightarrow> (pyval \<Rightarrow> string) \<Rightarrow> bool \<Rightarrow> graph \<Rightarrow> msg list \<Rightarrow> executor_event list \<times> graph_run list" where
  "run_graph loads shown protected g ms =
     (let (us, x) = gr_stream g ms; texts = concat (map (texts_from_chunk loads shown) us) in
      case x of
        None \<Rightarrow> (map TextChunk texts @ [TurnComplete (if texts = [] then None else Some (last texts))], [Streamed])
      | Some y \<Rightarrow>
          if falls_back y \<and> \<not> protected then
            (map TextChunk texts
             @ [case gr_invoke g ms of Inl z \<Rightarrow> failure protected z | Inr out \<Rightarrow> TurnComplete (Some (final_text shown out))],
             [Streamed, Invoked])
          else (map TextChunk texts @ [failure protected y], [Streamed]))"

text \<open>A turn; \<open>None\<close> is the error of a memory without a thread.\<close>

definition run_turn :: "(string \<Rightarrow> pyval option) \<Rightarrow> (pyval \<Rightarrow> string) \<Rightarrow> (served_agent \<Rightarrow> string \<Rightarrow> executor_exn + graph) \<Rightarrow> agent \<Rightarrow> served_agent
    \<Rightarrow> turn_config option \<Rightarrow> chat_msg list \<Rightarrow> string \<Rightarrow> executor \<Rightarrow> (executor_event list \<times> graph_run list \<times> executor) option" where
  "run_turn loads shown compile a r cfg ms prompt ex =
     (let protected = has_typed_output a \<or> has_step_policy a in
      if ex_memory ex \<and> \<not> nonempty_key (Option.bind cfg tg_thread) then None
      else
        (let (c, ex') = get_compiled compile r (resolved_model ex cfg) ex in
         case c of
           Inl x \<Rightarrow> Some ([failure protected x], [], ex')
         | Inr g \<Rightarrow> (let (evs, runs) = run_graph loads shown protected g (to_langchain ms prompt) in Some (evs, runs, ex'))))"

subsection \<open>A protected turn runs its graph once\<close>

fun terminal :: "executor_event \<Rightarrow> bool" where
  "terminal (TextChunk t) = False"
| "terminal e = True"

lemma failure_terminal [simp]: "terminal (failure p x)"
  by (simp add: failure_def split: executor_exn.splits)

lemma failure_not_chunk [simp]: "failure p x \<noteq> TextChunk t"
  by (simp add: failure_def split: executor_exn.splits)

text \<open>
  C14: a turn answers once.  A turn ends with exactly one terminal event, which is its last.  An agent with a typed
  output or a step policy never has its graph run twice, so no tool call is repeated; any other agent's graph runs a second
  time only when the streamed run ended with one of the three errors that stand for a graph without streaming, and never a third.\<close>

theorem protected_turn_runs_once:
  assumes "run_turn loads shown compile a r cfg ms prompt ex = Some (evs, runs, ex')"
  shows "evs \<noteq> [] \<and> terminal (last evs) \<and> \<not> list_ex terminal (butlast evs)
    \<and> length runs \<le> (if has_typed_output a \<or> has_step_policy a then 1 else 2)
    \<and> (case get_compiled compile r (resolved_model ex cfg) ex of
         (Inr g, e) \<Rightarrow> if runs = [Streamed, Invoked] then (case snd (gr_stream g (to_langchain ms prompt)) of None \<Rightarrow> False | Some x \<Rightarrow> falls_back x)
                       else runs = [Streamed]
       | (Inl x, e) \<Rightarrow> runs = [])"
proof -
  obtain c e where g: "get_compiled compile r (resolved_model ex cfg) ex = (c, e)" by fastforce
  show ?thesis
  proof (cases c)
    case (Inl x)
    with assms g show ?thesis by (auto simp: run_turn_def Let_def split: if_splits)
  next
    case (Inr gr)
    obtain us x where s: "gr_stream gr (to_langchain ms prompt) = (us, x)" by fastforce
    show ?thesis
      using assms g Inr s
      by (cases x; cases "gr_invoke gr (to_langchain ms prompt)")
        (auto simp: run_turn_def run_graph_def Let_def butlast_append list_ex_iff split: if_splits)
  qed
qed

subsection \<open>A cached graph has the current tools\<close>

text \<open>
  The life of one executor: the tools of the agent, or of some leaf of a composite, are registered and dropped, sub-agents
  fetched and repaired, and turns run.
\<close>

inductive agent_step :: "served_agent \<Rightarrow> served_agent \<Rightarrow> bool" where
  own: "registry_step r r' \<Longrightarrow> agent_step (LlmAgent r) (LlmAgent r')"
| part: "i < length rs \<Longrightarrow> registry_step (rs ! i) r' \<Longrightarrow> agent_step (Composite rs) (Composite (rs[i := r']))"

inductive_cases agent_stepE: "agent_step (LlmAgent r) w" "agent_step (Composite rs) w"

definition live_agent :: "served_agent \<Rightarrow> bool" where
  "live_agent w = (case w of LlmAgent r \<Rightarrow> live_registry r | Composite rs \<Rightarrow> list_all live_registry rs)"

inductive served :: "(served_agent \<Rightarrow> string \<Rightarrow> executor_exn + graph) \<Rightarrow> served_agent \<Rightarrow> executor \<Rightarrow> bool" for compile where
  start: "live_agent w \<Longrightarrow> served compile w \<lparr>ex_model = m, ex_memory = b, ex_cache = []\<rparr>"
| tools: "served compile w ex \<Longrightarrow> agent_step w w' \<Longrightarrow> served compile w' ex"
| turn: "served compile w ex \<Longrightarrow> run_turn loads shown compile a w cfg ms prompt ex = Some (evs, runs, ex') \<Longrightarrow> served compile w ex'"

definition cache_ok :: "(served_agent \<Rightarrow> string \<Rightarrow> executor_exn + graph) \<Rightarrow> served_agent \<Rightarrow> executor \<Rightarrow> bool" where
  "cache_ok compile w ex \<longleftrightarrow>
     (\<forall>m v g. dget (ex_cache ex) (m, v) = Some g \<longrightarrow>
        (\<exists>w0. live_agent w0 \<and> agent_step\<^sup>*\<^sup>* w0 w \<and> tools_version w0 = v \<and> compile w0 m = Inr g))"

lemma get_compiled_ok:
  assumes "cache_ok compile w ex" and "live_agent w"
  shows "cache_ok compile w (snd (get_compiled compile w m ex))"
proof -
  have "\<exists>w0. live_agent w0 \<and> agent_step\<^sup>*\<^sup>* w0 w \<and> tools_version w0 = tools_version w \<and> compile w0 m = Inr g" if "compile w m = Inr g" for g
    using assms(2) that by (intro exI [of _ w]) simp
  then show ?thesis
    using assms(1) by (auto simp: get_compiled_def cache_ok_def dict_simps split: option.splits sum.splits if_splits)
qed

lemma run_turn_cache: "run_turn loads shown compile a w cfg ms prompt ex = Some (evs, runs, ex') \<Longrightarrow>
    ex' = snd (get_compiled compile w (resolved_model ex cfg) ex)"
  by (auto simp: run_turn_def Let_def split: if_splits prod.splits sum.splits)

lemma agent_step_live: "agent_step w w' \<Longrightarrow> live_agent w \<Longrightarrow> live_agent w'"
  by (induction rule: agent_step.induct)
    (auto simp: live_agent_def list_all_length nth_list_update intro: live_registry.step)

lemma served_ok: "served compile w ex \<Longrightarrow> live_agent w \<and> cache_ok compile w ex"
proof (induction rule: served.induct)
  case (start w m b)
  then show ?case by (simp add: cache_ok_def)
next
  case (tools w ex w')
  then have "cache_ok compile w' ex" unfolding cache_ok_def by (meson rtranclp.rtrancl_into_rtrancl)
  with tools agent_step_live show ?case by blast
next
  case (turn w ex loads shown a cfg ms prompt evs runs ex')
  then show ?case using get_compiled_ok run_turn_cache by metis
qed

text \<open>A leaf agent stays one and goes through steps of its registry; a composite keeps its leaves, each through its own.\<close>

lemma leaf_steps: "agent_step\<^sup>*\<^sup>* w (LlmAgent r) \<Longrightarrow> \<exists>r0. w = LlmAgent r0 \<and> registry_step\<^sup>*\<^sup>* r0 r"
proof (induction "LlmAgent r" arbitrary: r rule: rtranclp_induct)
  case (step y)
  from step.hyps(2) obtain q where "y = LlmAgent q" "registry_step q r" by (auto elim: agent_step.cases)
  with step.hyps(3) show ?case by (blast intro: rtranclp.rtrancl_into_rtrancl)
qed blast

lemma composite_steps:
  "agent_step\<^sup>*\<^sup>* w (Composite rs) \<Longrightarrow> \<exists>rs0. w = Composite rs0 \<and> list_all2 (registry_step\<^sup>*\<^sup>*) rs0 rs"
proof (induction "Composite rs" arbitrary: rs rule: rtranclp_induct)
  case base
  then show ?case by (auto intro: list_all2_refl)
next
  case (step y)
  from step.hyps(2) obtain i qs q where y: "y = Composite qs" "i < length qs" "registry_step (qs ! i) q" "rs = qs[i := q]"
    by (auto elim: agent_step.cases)
  from step.hyps(3) [OF y(1)] obtain rs0 where w: "w = Composite rs0" and all: "list_all2 (registry_step\<^sup>*\<^sup>*) rs0 qs" by blast
  have "list_all2 (registry_step\<^sup>*\<^sup>*) rs0 (qs[i := q])"
    using all y(2,3) by (auto simp: list_all2_conv_all_nth nth_list_update intro: rtranclp.rtrancl_into_rtrancl)
  with w y(4) show ?case by blast
qed


subsection \<open>A concrete executor\<close>

definition broken_stream :: graph where
  "broken_stream = \<lparr>gr_stream = (\<lambda>ms. ([], Some TypeErr)), gr_invoke = (\<lambda>ms. Inr [\<lparr>gm_ai = True, gm_calls = False, gm_content = PStr ''done''\<rparr>])\<rparr>"

definition fresh_executor :: executor where
  "fresh_executor = \<lparr>ex_model = Some ''m'', ex_memory = False, ex_cache = []\<rparr>"

definition open_agent :: agent where
  "open_agent = Sequential \<lparr>sq_name = None, sq_instructions = '''', sq_escalate = False, sq_halts = []\<rparr> []"

text \<open>An agent that is not protected runs its graph again behind a streamed run that broke, tools included.\<close>

lemma open_agent_runs_twice:
  "map_option (\<lambda>(evs, runs, ex). (evs, runs)) (run_turn (\<lambda>s. None) (\<lambda>v. '''') (\<lambda>r m. Inr broken_stream) open_agent (LlmAgent sample_agent) None [] '''' fresh_executor)
     = Some ([TurnComplete (Some ''done'')], [Streamed, Invoked])"
  by (simp add: run_turn_def open_agent_def broken_stream_def fresh_executor_def get_compiled_def run_graph_def falls_back_def
      final_text_def plain_text_def Let_def)

lemma protected_turn_runs_once_witness:
  "\<exists>evs runs ex. run_turn (\<lambda>s. None) (\<lambda>v. '''') (\<lambda>r m. Inr broken_stream) open_agent (LlmAgent sample_agent) None [] '''' fresh_executor = Some (evs, runs, ex)
     \<and> terminal (last evs) \<and> length runs \<le> 2"
proof -
  obtain evs runs ex where e: "run_turn (\<lambda>s. None) (\<lambda>v. '''') (\<lambda>r m. Inr broken_stream) open_agent (LlmAgent sample_agent) None [] '''' fresh_executor = Some (evs, runs, ex)"
    using open_agent_runs_twice by (auto simp: map_option_case split: option.splits prod.splits)
  from protected_turn_runs_once [OF e] e show ?thesis by (auto simp: open_agent_def)
qed

text \<open>A compiler whose graphs answer with the names of the tools they were compiled with.\<close>

definition tool_graph :: "(string \<times> string) list \<Rightarrow> graph" where
  "tool_graph ts = \<lparr>gr_stream = (\<lambda>ms. ([], Some TypeErr)),
     gr_invoke = (\<lambda>ms. Inr [\<lparr>gm_ai = True, gm_calls = False, gm_content = PList (map (PStr \<circ> fst) ts)\<rparr>])\<rparr>"

definition tool_compile :: "served_agent \<Rightarrow> string \<Rightarrow> executor_exn + graph" where
  "tool_compile w m = Inr (tool_graph (case w of LlmAgent r \<Rightarrow> collect_tools r | Composite rs \<Rightarrow> concat (map collect_tools rs)))"

definition used_executor :: executor where
  "used_executor = fresh_executor\<lparr>ex_cache := [((''m'', 0), tool_graph (collect_tools sample_agent))]\<rparr>"

lemma sample_version: "rg_version sample_agent = 0" "rg_version (register_tool sample_tool sample_agent) = 1"
  by (simp_all add: sample_agent_def new_agent_def register_tool_def append_tool_def drop_named_def)

lemma first_turn:
  "\<exists>evs runs. run_turn (\<lambda>s. None) (\<lambda>v. '''') tool_compile open_agent (LlmAgent sample_agent) None [] '''' fresh_executor
     = Some (evs, runs, used_executor)"
  by (simp add: run_turn_def open_agent_def fresh_executor_def used_executor_def get_compiled_def tool_compile_def tools_version_def
      sample_version Let_def resolved_model_def nonempty_or_def or_empty_def dict_simps split_def)


text \<open>A tool registered on a leaf of a composite after the first turn is not in the graph that serves the next one.\<close>

lemma composite_keeps_a_stale_graph:
  "\<exists>ex1 ex2. get_compiled tool_compile (Composite [sample_agent]) ''m'' fresh_executor = (Inr (tool_graph (collect_tools sample_agent)), ex1)
     \<and> agent_step (Composite [sample_agent]) (Composite [register_tool sample_tool sample_agent])
     \<and> get_compiled tool_compile (Composite [register_tool sample_tool sample_agent]) ''m'' ex1 = (Inr (tool_graph (collect_tools sample_agent)), ex2)
     \<and> tool_graph (collect_tools sample_agent) \<noteq> tool_graph (collect_tools (register_tool sample_tool sample_agent))"
proof -
  have "agent_step (Composite [sample_agent]) (Composite ([sample_agent][0 := register_tool sample_tool sample_agent]))"
    by (rule agent_step.part) (simp_all add: registry_step.register)
  moreover have "map fst (collect_tools sample_agent) = [''query'']" by code_simp
  moreover have "map fst (collect_tools (register_tool sample_tool sample_agent)) = [''query'', ''lookup'']" by code_simp
  ultimately show ?thesis
    by (auto simp: get_compiled_def tools_version_def tool_compile_def fresh_executor_def dict_simps tool_graph_def fun_eq_iff)
qed

text \<open>The text of a graph that answers outside a stream is Python's \<open>str\<close> of a list of blocks, reasoning included.\<close>

lemma final_text_dumps_blocks:
  "final_text (\<lambda>v. ''[{...}]'') [\<lparr>gm_ai = True, gm_calls = False, gm_content = PList [PDict [(''type'', PStr ''text''), (''text'', PStr ''hi'')]]\<rparr>] = ''[{...}]''"
  "content_to_text (\<lambda>s. None) (\<lambda>v. ''[{...}]'') (PList [PDict [(''type'', PStr ''text''), (''text'', PStr ''hi'')]]) = ''hi''"
  by code_simp+

end
