(* ===== verification/Handoff_Lint.thy ===== *)
theory Handoff_Lint
  imports Apx_Prelude
begin

text \<open>
  The handoff checks of a bundle (\<open>_handoff_lint.py\<close>): timeouts, cost limits, owners, table names and schedules.  A bundle
  is the parsed file; a violation is a value that carries what its message names.
\<close>

subsection \<open>Sections of a bundle\<close>

datatype violation =
    JobWithoutTimeout string
  | TaskWithoutTimeout string pyval
  | NoAutoStop string pyval
  | NothingServed string
  | NoScaleToZero string pyval
  | PersonalOwner string string
  | ShortTable string string
  | UnownedSchedule string

definition bundle_resources :: "pyval dict \<Rightarrow> string \<Rightarrow> (string \<times> pyval dict) list" where
  "bundle_resources b kind =
     (case pget b ''resources'' of
        PDict rs \<Rightarrow>
          (case pget rs kind of
             PDict section \<Rightarrow> List.map_filter (\<lambda>(k, v). case v of PDict d \<Rightarrow> Some (k, d) | _ \<Rightarrow> None) section
           | _ \<Rightarrow> [])
      | _ \<Rightarrow> [])"

text \<open>\<open>d.get(k, default)\<close>.\<close>

definition get_or :: "pyval dict \<Rightarrow> string \<Rightarrow> pyval \<Rightarrow> pyval" where
  "get_or d k v = (case dget d k of None \<Rightarrow> v | Some w \<Rightarrow> w)"

subsection \<open>The checks\<close>

definition timed :: "pyval dict \<Rightarrow> bool" where
  "timed d = truthy (pget d ''timeout_seconds'')"

definition task_violation :: "string \<Rightarrow> pyval dict \<Rightarrow> pyval \<Rightarrow> violation list" where
  "task_violation name job task =
     (case task of
        PDict t \<Rightarrow> if \<not> timed job \<and> \<not> timed t then [TaskWithoutTimeout name (get_or t ''task_key'' (PStr ''<unnamed>''))] else []
      | _ \<Rightarrow> [])"

definition job_timeouts :: "string \<times> pyval dict \<Rightarrow> violation list" where
  "job_timeouts nj =
     (case nj of (name, job) \<Rightarrow>
        case pget job ''tasks'' of
          PList (t # ts) \<Rightarrow> concat (map (task_violation name job) (t # ts))
        | _ \<Rightarrow> if timed job then [] else [JobWithoutTimeout name])"

definition check_job_timeouts :: "pyval dict \<Rightarrow> violation list" where
  "check_job_timeouts b = concat (map job_timeouts (bundle_resources b ''jobs''))"

text \<open>Python's \<open>bool\<close> is an \<open>int\<close>: a warehouse with \<open>auto_stop_mins: true\<close> passes.\<close>

definition positive_int :: "pyval \<Rightarrow> bool" where
  "positive_int v = (case v of PInt n \<Rightarrow> 0 < n | PBool b \<Rightarrow> b | _ \<Rightarrow> False)"

definition warehouse_violations :: "string \<times> pyval dict \<Rightarrow> violation list" where
  "warehouse_violations w =
     (if positive_int (pget (snd w) ''auto_stop_mins'') then [] else [NoAutoStop (fst w) (pget (snd w) ''auto_stop_mins'')])"

definition served_of :: "pyval dict \<Rightarrow> pyval" where
  "served_of ep =
     (case pget ep ''config'' of
        PDict c \<Rightarrow> py_or (py_or (pget c ''served_entities'') (pget c ''served_models'')) (PList [])
      | _ \<Rightarrow> PList [])"

definition entity_violation :: "string \<Rightarrow> pyval \<Rightarrow> violation list" where
  "entity_violation name v =
     (case v of
        PDict e \<Rightarrow>
          if pget e ''scale_to_zero_enabled'' = PBool True then [] else [NoScaleToZero name (get_or e ''name'' (PStr ''<unnamed>''))]
      | _ \<Rightarrow> [])"

definition endpoint_violations :: "string \<times> pyval dict \<Rightarrow> violation list" where
  "endpoint_violations ep =
     (case served_of (snd ep) of
        PList (e # es) \<Rightarrow> concat (map (entity_violation (fst ep)) (e # es))
      | _ \<Rightarrow> [NothingServed (fst ep)])"

definition check_scale :: "pyval dict \<Rightarrow> violation list" where
  "check_scale b =
     concat (map warehouse_violations (bundle_resources b ''sql_warehouses''))
     @ concat (map endpoint_violations (bundle_resources b ''model_serving_endpoints''))"

definition is_personal :: "string \<Rightarrow> bool" where
  "is_personal identity = starts_with (rev ''@databricks.com'') (rev identity)"

definition sub_path :: "string \<Rightarrow> string \<Rightarrow> string" where
  "sub_path path k = (if path = '''' then k else path @ ''.'' @ k)"

definition item_path :: "string \<Rightarrow> nat \<Rightarrow> string" where
  "item_path path i = path @ ''['' @ show_nat i @ '']''"

definition owner_keys :: "string list" where
  "owner_keys = [''run_as'', ''permissions'', ''owner'', ''owner_email'']"

definition user_name :: "pyval \<Rightarrow> string option" where
  "user_name v = (case v of PDict d \<Rightarrow> (case pget d ''user_name'' of PStr u \<Rightarrow> Some u | _ \<Rightarrow> None) | _ \<Rightarrow> None)"

text \<open>The owners an object declares itself, with where.\<close>

definition own_identities :: "string \<Rightarrow> pyval dict \<Rightarrow> (string \<times> string) list" where
  "own_identities path d =
     (case user_name (pget d ''run_as'') of None \<Rightarrow> [] | Some u \<Rightarrow> [(path @ ''.run_as.user_name'', u)])
     @ List.map_filter (\<lambda>k. case pget d k of PStr u \<Rightarrow> Some (path @ ''.'' @ k, u) | _ \<Rightarrow> None) [''owner'', ''owner_email'']
     @ (case pget d ''permissions'' of
          PList ps \<Rightarrow>
            List.map_filter (\<lambda>(i, p). map_option (\<lambda>u. (item_path (path @ ''.permissions'') i @ ''.user_name'', u)) (user_name p))
              (enumerate 0 ps)
        | _ \<Rightarrow> [])"

lemma size_dict_entry: "(k, v) \<in> set d \<Longrightarrow> size v < size (PDict d)"
  by (induction d) auto

lemma size_list_entry: "v \<in> set vs \<Longrightarrow> size v < size (PList vs)"
  by (induction vs) auto

lemma size_nth_entry: "i < length vs \<Longrightarrow> size (vs ! i) < size (PList vs)"
  by (intro size_list_entry nth_mem)

lemma size_item_entry: "(k, PList vs) \<in> set d \<Longrightarrow> i < length vs \<Longrightarrow> size (vs ! i) < size (PDict d)"
  by (rule less_trans [OF size_nth_entry size_dict_entry])

function owner_identities :: "string \<Rightarrow> pyval \<Rightarrow> (string \<times> string) list" where
  "owner_identities path (PDict d) =
     own_identities path d
     @ concat (map (\<lambda>(k, v). if k \<in> set owner_keys then [] else owner_identities (sub_path path k) v) d)"
| "owner_identities path (PList vs) = concat (map (\<lambda>(i, v). owner_identities (item_path path i) v) (enumerate 0 vs))"
| "owner_identities path PNone = []"
| "owner_identities path (PBool b) = []"
| "owner_identities path (PInt n) = []"
| "owner_identities path (PFloat x) = []"
| "owner_identities path (PStr s) = []"
  by pat_completeness auto
termination
  by (relation "measure (\<lambda>(path, v). size v)")
    (auto simp del: pyval.size dest: size_dict_entry intro: size_nth_entry simp: in_set_enumerate_eq)

definition check_no_personal_owner :: "pyval dict \<Rightarrow> violation list" where
  "check_no_personal_owner b =
     map (\<lambda>(source, u). PersonalOwner source u) (filter (\<lambda>(source, u). is_personal u) (owner_identities '''' (PDict b)))"

definition table_keys :: "string list" where
  "table_keys = [''table'', ''table_name'', ''source_table'', ''target_table'', ''full_name'']"

text \<open>A template \<open>${...}\<close> counts as one name.\<close>

function mask_templates :: "string \<Rightarrow> string" where
  "mask_templates s =
     (if s = [] then []
      else if starts_with ''${'' s \<and> CHR ''}'' \<in> set (drop 2 s)
      then CHR ''X'' # mask_templates (tl (dropWhile (\<lambda>c. c \<noteq> CHR ''}'') (drop 2 s)))
      else hd s # mask_templates (tl s))"
  by pat_completeness auto
termination
proof (relation "measure length", goal_cases)
  case (2 s)
  then have "length (tl (dropWhile (\<lambda>c. c \<noteq> CHR ''}'') (drop 2 s))) \<le> length s - 2"
    using length_dropWhile_le [of "\<lambda>c. c \<noteq> CHR ''}''" "drop 2 s"] by simp
  with 2 show ?case by (cases s) auto
qed auto

declare mask_templates.simps [simp del]

definition fqn_segments :: "string \<Rightarrow> nat" where
  "fqn_segments ref = length (split_on (\<lambda>c. c = CHR ''.'') (mask_templates ref))"

definition short_table :: "pyval \<Rightarrow> string option" where
  "short_table v = (case v of PStr s \<Rightarrow> if fqn_segments s < 3 then Some s else None | _ \<Rightarrow> None)"

function short_tables :: "string \<Rightarrow> pyval \<Rightarrow> violation list" where
  "short_tables path (PDict d) =
     concat (map (\<lambda>(k, v).
       (let here = sub_path path k in
        case (if k \<in> set table_keys then short_table v else None) of
          Some s \<Rightarrow> [ShortTable here s]
        | None \<Rightarrow>
            (case (if k = ''tables'' then (case v of PList vs \<Rightarrow> Some vs | _ \<Rightarrow> None) else None) of
               Some vs \<Rightarrow>
                 concat (map (\<lambda>(i, w). case short_table w of
                     Some s \<Rightarrow> [ShortTable (item_path here i) s] | None \<Rightarrow> short_tables (item_path here i) w) (enumerate 0 vs))
             | None \<Rightarrow> short_tables here v))) d)"
| "short_tables path (PList vs) = concat (map (\<lambda>(i, v). short_tables (item_path path i) v) (enumerate 0 vs))"
| "short_tables path PNone = []"
| "short_tables path (PBool b) = []"
| "short_tables path (PInt n) = []"
| "short_tables path (PFloat x) = []"
| "short_tables path (PStr s) = []"
  by pat_completeness auto
termination
  by (relation "measure (\<lambda>(path, v). size v)")
    (auto simp del: pyval.size dest: size_dict_entry intro: size_nth_entry size_item_entry
      simp: in_set_enumerate_eq split: pyval.splits if_splits)

definition check_tables_fqn :: "pyval dict \<Rightarrow> violation list" where
  "check_tables_fqn b = short_tables '''' (PDict b)"

definition has_named_owner :: "pyval dict \<Rightarrow> pyval dict \<Rightarrow> bool" where
  "has_named_owner job b =
     list_ex (\<lambda>scope. case pget scope ''run_as'' of
         PDict r \<Rightarrow> truthy (pget r ''service_principal_name'') \<or> truthy (pget r ''user_name'') | _ \<Rightarrow> False) [job, b]"

definition schedule_violations :: "pyval dict \<Rightarrow> string \<times> pyval dict \<Rightarrow> violation list" where
  "schedule_violations b nj =
     (case pget (snd nj) ''schedule'' of
        PDict s \<Rightarrow> if pget s ''pause_status'' = PStr ''PAUSED'' \<or> has_named_owner (snd nj) b then [] else [UnownedSchedule (fst nj)]
      | _ \<Rightarrow> [])"

definition check_schedules :: "pyval dict \<Rightarrow> violation list" where
  "check_schedules b = concat (map (schedule_violations b) (bundle_resources b ''jobs''))"

definition lint_bundle :: "pyval dict \<Rightarrow> violation list" where
  "lint_bundle b = check_job_timeouts b @ check_scale b @ check_no_personal_owner b @ check_tables_fqn b @ check_schedules b"

subsection \<open>What a clean bundle is\<close>

text \<open>
  Readiness is stated from the format of a bundle, with its own reading of values, keys, names and depth: nothing of the
  linter is used below but the type of its input.
\<close>

text \<open>A value that is missing or empty.\<close>

definition absent :: "pyval option \<Rightarrow> bool" where
  "absent v \<longleftrightarrow> v \<in> {None, Some PNone, Some (PBool False), Some (PInt 0), Some (PFloat 0), Some (PStr ''''), Some (PList []), Some (PDict [])}"

lemma absent_pget: "absent (dget d k) \<longleftrightarrow> \<not> truthy (pget d k)"
proof (cases "dget d k")
  case (Some v)
  then show ?thesis by (cases v) (auto simp: absent_def pget_def)
qed (simp add: absent_def pget_def)

lemma pget_iff:
  "pget d k = PDict e \<longleftrightarrow> dget d k = Some (PDict e)" "pget d k = PList vs \<longleftrightarrow> dget d k = Some (PList vs)"
  "pget d k = PStr s \<longleftrightarrow> dget d k = Some (PStr s)" "pget d k = PBool b \<longleftrightarrow> dget d k = Some (PBool b)"
  "pget d k = PInt n \<longleftrightarrow> dget d k = Some (PInt n)"
  by (auto simp: pget_def split: option.splits)

text \<open>The resource \<open>d\<close> of a kind.\<close>

definition declared :: "pyval dict \<Rightarrow> string \<Rightarrow> pyval dict \<Rightarrow> bool" where
  "declared b kind d \<longleftrightarrow>
     (\<exists>rs section name. dget b ''resources'' = Some (PDict rs) \<and> dget rs kind = Some (PDict section) \<and> (name, PDict d) \<in> set section)"

text \<open>Every job, or each of its tasks, has a timeout.\<close>

definition has_timeout :: "pyval dict \<Rightarrow> bool" where
  "has_timeout d \<longleftrightarrow> \<not> absent (dget d ''timeout_seconds'')"

definition job_bounded :: "pyval dict \<Rightarrow> bool" where
  "job_bounded job \<longleftrightarrow>
     has_timeout job
     \<or> (\<exists>ts. dget job ''tasks'' = Some (PList ts) \<and> ts \<noteq> [] \<and> (\<forall>task. PDict task \<in> set ts \<longrightarrow> has_timeout task))"

text \<open>A warehouse stops after a positive number of minutes (\<open>True\<close> is the number one).\<close>

definition stops :: "pyval dict \<Rightarrow> bool" where
  "stops wh \<longleftrightarrow> dget wh ''auto_stop_mins'' = Some (PBool True) \<or> (\<exists>n \<ge> 1. dget wh ''auto_stop_mins'' = Some (PInt n))"

text \<open>An endpoint serves something, under the newer key or else the older, and each of it scales to zero.\<close>

definition serves :: "pyval dict \<Rightarrow> pyval list \<Rightarrow> bool" where
  "serves ep es \<longleftrightarrow> es \<noteq> [] \<and> (\<exists>c. dget ep ''config'' = Some (PDict c)
     \<and> (dget c ''served_entities'' = Some (PList es)
        \<or> absent (dget c ''served_entities'') \<and> dget c ''served_models'' = Some (PList es)))"

definition scales_to_zero :: "pyval dict \<Rightarrow> bool" where
  "scales_to_zero ep \<longleftrightarrow> (\<exists>es. serves ep es \<and> (\<forall>e. PDict e \<in> set es \<longrightarrow> dget e ''scale_to_zero_enabled'' = Some (PBool True)))"

text \<open>A schedule that is not paused has a runner, the job's or the bundle's.\<close>

definition named_runner :: "pyval dict \<Rightarrow> bool" where
  "named_runner d \<longleftrightarrow> (\<exists>r. dget d ''run_as'' = Some (PDict r)
     \<and> (\<not> absent (dget r ''service_principal_name'') \<or> \<not> absent (dget r ''user_name'')))"

definition schedule_owned :: "pyval dict \<Rightarrow> pyval dict \<Rightarrow> bool" where
  "schedule_owned b job \<longleftrightarrow>
     (\<forall>s. dget job ''schedule'' = Some (PDict s) \<longrightarrow>
        dget s ''pause_status'' = Some (PStr ''PAUSED'') \<or> named_runner job \<or> named_runner b)"

text \<open>The values inside a value, not looking under some keys.\<close>

inductive inside :: "string list \<Rightarrow> pyval \<Rightarrow> pyval \<Rightarrow> bool" for skip where
  root: "inside skip v v"
| entry: "(k, w) \<in> set d \<Longrightarrow> k \<notin> set skip \<Longrightarrow> inside skip w u \<Longrightarrow> inside skip (PDict d) u"
| item: "w \<in> set vs \<Longrightarrow> inside skip w u \<Longrightarrow> inside skip (PList vs) u"

inductive_simps inside_dict: "inside skip (PDict d) (PDict e)"
inductive_simps inside_list: "inside skip (PList vs) (PDict e)"
inductive_simps inside_none: "inside skip PNone (PDict e)"
inductive_simps inside_bool: "inside skip (PBool b) (PDict e)"
inductive_simps inside_int: "inside skip (PInt n) (PDict e)"
inductive_simps inside_float: "inside skip (PFloat x) (PDict e)"
inductive_simps inside_str: "inside skip (PStr t) (PDict e)"

lemmas inside_leaf = inside_none inside_bool inside_int inside_float inside_str

text \<open>The identities an object names as owners, and a personal one.\<close>

definition names_owner :: "pyval dict \<Rightarrow> string \<Rightarrow> bool" where
  "names_owner d u \<longleftrightarrow>
     (\<exists>r. dget d ''run_as'' = Some (PDict r) \<and> dget r ''user_name'' = Some (PStr u))
     \<or> dget d ''owner'' = Some (PStr u) \<or> dget d ''owner_email'' = Some (PStr u)
     \<or> (\<exists>ps p. dget d ''permissions'' = Some (PList ps) \<and> PDict p \<in> set ps \<and> dget p ''user_name'' = Some (PStr u))"

definition personal :: "string \<Rightarrow> bool" where
  "personal u \<longleftrightarrow> (\<exists>who. u = who @ ''@databricks.com'')"

text \<open>The dots of a name outside its templates, read from the left; a full name has two.\<close>

inductive outer_dots :: "string \<Rightarrow> nat \<Rightarrow> bool" where
  no_dot: "outer_dots '''' 0"
| template: "CHR ''}'' \<notin> set body \<Longrightarrow> outer_dots s n \<Longrightarrow> outer_dots (''${'' @ body @ ''}'' @ s) n"
| letter: "\<nexists>body r. c # s = ''${'' @ body @ ''}'' @ r \<Longrightarrow> outer_dots s n \<Longrightarrow> outer_dots (c # s) (if c = CHR ''.'' then Suc n else n)"

definition full_name :: "string \<Rightarrow> bool" where
  "full_name s \<longleftrightarrow> (\<exists>n \<ge> 2. outer_dots s n)"

definition fully_named :: "pyval \<Rightarrow> bool" where
  "fully_named v \<longleftrightarrow> (\<forall>s. v = PStr s \<longrightarrow> full_name s)"

definition tables_ok :: "pyval dict \<Rightarrow> bool" where
  "tables_ok d \<longleftrightarrow>
     (\<forall>(k, v) \<in> set d.
        (k \<in> {''table'', ''table_name'', ''source_table'', ''target_table'', ''full_name''} \<longrightarrow> fully_named v)
        \<and> (k = ''tables'' \<longrightarrow> (\<forall>vs. v = PList vs \<longrightarrow> (\<forall>w \<in> set vs. fully_named w))))"

definition handoff_ready :: "pyval dict \<Rightarrow> bool" where
  "handoff_ready b \<longleftrightarrow>
     (\<forall>job. declared b ''jobs'' job \<longrightarrow> job_bounded job \<and> schedule_owned b job)
     \<and> (\<forall>wh. declared b ''sql_warehouses'' wh \<longrightarrow> stops wh)
     \<and> (\<forall>ep. declared b ''model_serving_endpoints'' ep \<longrightarrow> scales_to_zero ep)
     \<and> (\<forall>d u. inside [''run_as'', ''permissions'', ''owner'', ''owner_email''] (PDict b) (PDict d) \<longrightarrow> names_owner d u \<longrightarrow> \<not> personal u)
     \<and> (\<forall>d. inside [] (PDict b) (PDict d) \<longrightarrow> tables_ok d)"

subsection \<open>Owners\<close>

lemma set_map_filter: "set (List.map_filter f xs) = {y. \<exists>x \<in> set xs. f x = Some y}"
  by (force simp: List.map_filter_def)

definition owners_ok :: "(string \<Rightarrow> bool) \<Rightarrow> pyval dict \<Rightarrow> bool" where
  "owners_ok P d \<longleftrightarrow> (\<forall>u. names_owner d u \<longrightarrow> P u)"

lemma user_name_iff: "user_name v = Some u \<longleftrightarrow> (\<exists>r. v = PDict r \<and> dget r ''user_name'' = Some (PStr u))"
  by (auto simp: user_name_def pget_iff [symmetric] split: pyval.splits)

lemma permission_owners:
  "list_all (\<lambda>(s, u). P u) (List.map_filter (\<lambda>(i, p). map_option (\<lambda>u. (f i, u)) (user_name p)) (enumerate n ps))
     \<longleftrightarrow> (\<forall>p \<in> set ps. \<forall>u. user_name p = Some u \<longrightarrow> P u)"
proof (induction ps arbitrary: n)
  case (Cons p ps)
  then show ?case by (cases "user_name p") (simp_all add: List.map_filter_simps)
qed (simp add: List.map_filter_simps)

lemma own_identities_named: "list_all (\<lambda>(s, u). P u) (own_identities path d) \<longleftrightarrow> owners_ok P d"
proof -
  have p: "list_all (\<lambda>(s, u). P u) (case pget d ''permissions'' of
          PList ps \<Rightarrow> List.map_filter (\<lambda>(i, p). map_option (\<lambda>u. (item_path (path @ ''.permissions'') i @ ''.user_name'', u)) (user_name p)) (enumerate 0 ps)
        | _ \<Rightarrow> []) \<longleftrightarrow> (\<forall>ps p u. dget d ''permissions'' = Some (PList ps) \<longrightarrow> p \<in> set ps \<longrightarrow> user_name p = Some u \<longrightarrow> P u)"
    unfolding pget_iff(2) [symmetric] by (cases "pget d ''permissions''") (auto simp: permission_owners)
  have o: "list_all (\<lambda>(s, u). P u) (List.map_filter (\<lambda>k. case pget d k of PStr u \<Rightarrow> Some (path @ ''.'' @ k, u) | _ \<Rightarrow> None) ks)
      \<longleftrightarrow> (\<forall>k \<in> set ks. \<forall>u. dget d k = Some (PStr u) \<longrightarrow> P u)" for ks
    unfolding pget_iff(3) [symmetric]
  proof (induction ks)
    case (Cons k ks)
    then show ?case by (cases "pget d k") (auto simp: List.map_filter_simps)
  qed (simp add: List.map_filter_simps)
  have r: "list_all (\<lambda>(s, u). P u) (case user_name (pget d ''run_as'') of None \<Rightarrow> [] | Some u \<Rightarrow> [(path @ ''.run_as.user_name'', u)])
      \<longleftrightarrow> (\<forall>u. user_name (pget d ''run_as'') = Some u \<longrightarrow> P u)" by (cases "user_name (pget d ''run_as'')") auto
  have e: "names_owner d u \<longleftrightarrow> user_name (pget d ''run_as'') = Some u \<or> (\<exists>k \<in> set [''owner'', ''owner_email'']. dget d k = Some (PStr u))
      \<or> (\<exists>ps p. dget d ''permissions'' = Some (PList ps) \<and> p \<in> set ps \<and> user_name p = Some u)" for u
    by (auto simp: names_owner_def user_name_iff pget_iff)
  show ?thesis unfolding own_identities_def list_all_append p o r owners_ok_def e by blast
qed

lemma is_personal_iff: "is_personal u \<longleftrightarrow> personal u"
proof
  assume "is_personal u"
  then have "rev u = rev ''@databricks.com'' @ drop (length ''@databricks.com'') (rev u)"
    unfolding is_personal_def starts_with_def by (metis append_take_drop_id length_rev)
  then show "personal u" unfolding personal_def by (metis rev_append rev_rev_ident)
qed (auto simp: is_personal_def personal_def starts_with_def)

lemma list_all_concat: "list_all P (concat xss) \<longleftrightarrow> list_all (list_all P) xss"
  by (induction xss) auto

lemma enumerate_values: "(\<forall>(j, w) \<in> set (enumerate n vs). Q w) \<longleftrightarrow> (\<forall>w \<in> set vs. Q w)"
  by (induction vs arbitrary: n) auto

lemma owner_identities_inside:
  "list_all (\<lambda>(s, u). P u) (owner_identities path v) \<longleftrightarrow> (\<forall>d. inside owner_keys v (PDict d) \<longrightarrow> owners_ok P d)"
proof (induction path v rule: owner_identities.induct)
  case (1 path d)
  have "list_all (\<lambda>(s, u). P u) (owner_identities path (PDict d))
     \<longleftrightarrow> owners_ok P d \<and> (\<forall>(k, w) \<in> set d. k \<notin> set owner_keys \<longrightarrow> list_all (\<lambda>(s, u). P u) (owner_identities (sub_path path k) w))"
    by (auto simp: own_identities_named list_all_concat list.pred_map o_def list_all_iff [of _ d])
  also have "\<dots> \<longleftrightarrow> owners_ok P d \<and> (\<forall>(k, w) \<in> set d. k \<notin> set owner_keys \<longrightarrow> (\<forall>e. inside owner_keys w (PDict e) \<longrightarrow> owners_ok P e))"
    using 1 by (intro arg_cong2 [where f = "(\<and>)"] ball_cong) auto
  also have "\<dots> \<longleftrightarrow> (\<forall>e. inside owner_keys (PDict d) (PDict e) \<longrightarrow> owners_ok P e)" by (auto simp: inside_dict)
  finally show ?case .
next
  case (2 path vs)
  have "list_all (\<lambda>(s, u). P u) (owner_identities path (PList vs))
     \<longleftrightarrow> (\<forall>(j, w) \<in> set (enumerate 0 vs). list_all (\<lambda>(s, u). P u) (owner_identities (item_path path j) w))"
    by (auto simp: list_all_concat list.pred_map o_def list_all_iff [of _ "enumerate 0 vs"])
  also have "\<dots> \<longleftrightarrow> (\<forall>(j, w) \<in> set (enumerate 0 vs). \<forall>e. inside owner_keys w (PDict e) \<longrightarrow> owners_ok P e)"
    using 2 by (intro ball_cong) auto
  also have "\<dots> \<longleftrightarrow> (\<forall>w \<in> set vs. \<forall>e. inside owner_keys w (PDict e) \<longrightarrow> owners_ok P e)"
    by (rule enumerate_values)
  also have "\<dots> \<longleftrightarrow> (\<forall>e. inside owner_keys (PList vs) (PDict e) \<longrightarrow> owners_ok P e)" by (auto simp: inside_list)
  finally show ?case .
qed (simp_all add: inside_leaf)

subsection \<open>Names of tables\<close>

definition dots_of :: "string \<Rightarrow> nat" where
  "dots_of s = length (filter (\<lambda>c. c = CHR ''.'') (mask_templates s))"

lemma length_split_on: "length (split_on p s) = Suc (length (filter p s))"
proof (induction s)
  case (Cons c s)
  then show ?case by (cases "split_on p s") auto
qed simp

lemma fqn_segments_dots: "fqn_segments s = Suc (dots_of s)"
  by (simp add: fqn_segments_def dots_of_def length_split_on)

lemma dots_template: "CHR ''}'' \<notin> set body \<Longrightarrow> dots_of (''${'' @ body @ ''}'' @ s) = dots_of s"
proof -
  assume "CHR ''}'' \<notin> set body"
  then have "dropWhile (\<lambda>c. c \<noteq> CHR ''}'') (body @ CHR ''}'' # s) = CHR ''}'' # s" by (simp add: dropWhile_append2 dropWhile_append)
  then show "dots_of (''${'' @ body @ ''}'' @ s) = dots_of s"
    unfolding dots_of_def by (subst mask_templates.simps) (simp add: starts_with_def)
qed

lemma template_split:
  "starts_with ''${'' s \<and> CHR ''}'' \<in> set (drop 2 s) \<longleftrightarrow> (\<exists>body r. s = ''${'' @ body @ ''}'' @ r)"
proof
  assume a: "starts_with ''${'' s \<and> CHR ''}'' \<in> set (drop 2 s)"
  then have "s = ''${'' @ drop 2 s" unfolding starts_with_def by (metis append_take_drop_id length_Cons list.size(3) numeral_2_eq_2)
  moreover from a obtain body r where "drop 2 s = body @ CHR ''}'' # r" by (meson split_list)
  ultimately show "\<exists>body r. s = ''${'' @ body @ ''}'' @ r" by (metis append_Cons append_Nil)
qed (auto simp: starts_with_def)

lemma dots_letter:
  "\<nexists>body r. c # s = ''${'' @ body @ ''}'' @ r \<Longrightarrow> dots_of (c # s) = (if c = CHR ''.'' then Suc (dots_of s) else dots_of s)"
proof -
  assume "\<nexists>body r. c # s = ''${'' @ body @ ''}'' @ r"
  then have "\<not> (starts_with ''${'' (c # s) \<and> CHR ''}'' \<in> set (drop 2 (c # s)))" unfolding template_split .
  then have "mask_templates (c # s) = c # mask_templates s" by (subst mask_templates.simps) (simp only: if_False list.simps list.sel)
  then show "dots_of (c # s) = (if c = CHR ''.'' then Suc (dots_of s) else dots_of s)" by (simp add: dots_of_def)
qed

lemma outer_dots_iff: "outer_dots s n \<longleftrightarrow> n = dots_of s"
proof
  show "outer_dots s n \<Longrightarrow> n = dots_of s"
    by (induction rule: outer_dots.induct) (auto simp: dots_template [simplified] dots_letter, simp add: dots_of_def mask_templates.simps)
  have "outer_dots s (dots_of s)"
  proof (induction "length s" arbitrary: s rule: less_induct)
    case less
    consider "s = ''''" | body r where "s = ''${'' @ body @ ''}'' @ r" "CHR ''}'' \<notin> set body"
      | c t where "s = c # t" "\<nexists>body r. c # t = ''${'' @ body @ ''}'' @ r"
    proof (cases "\<exists>body r. s = ''${'' @ body @ ''}'' @ r")
      case True
      then obtain body r where s: "s = ''${'' @ body @ CHR ''}'' # r" by auto
      obtain b2 r2 where "body @ CHR ''}'' # r = b2 @ CHR ''}'' # r2" "CHR ''}'' \<notin> set b2"
        using split_list_first [of "CHR ''}''" "body @ CHR ''}'' # r"] by auto
      with s that(2) [of b2 r2] show ?thesis by simp
    qed (use that in \<open>cases s; auto\<close>)
    then show ?case
    proof cases
      case 1
      then show ?thesis using outer_dots.no_dot by (simp add: dots_of_def mask_templates.simps)
    next
      case 2
      then show ?thesis using outer_dots.template [OF 2(2) less [of r]] by (simp add: dots_template [OF 2(2), simplified])
    next
      case 3
      then show ?thesis using outer_dots.letter [OF 3(2) less [of t]] by (simp add: dots_letter [OF 3(2)])
    qed
  qed
  then show "n = dots_of s \<Longrightarrow> outer_dots s n" by simp
qed

lemma full_name_segments: "full_name s \<longleftrightarrow> 3 \<le> fqn_segments s"
  by (auto simp: full_name_def outer_dots_iff fqn_segments_dots)

lemma tables_ok_keys:
  "tables_ok d \<longleftrightarrow>
     (\<forall>(k, v) \<in> set d.
        (if k \<in> set table_keys then fully_named v else True)
        \<and> (if k = ''tables'' then (case v of PList vs \<Rightarrow> \<forall>w \<in> set vs. fully_named w | _ \<Rightarrow> True) else True))"
proof -
  have "((k \<in> K \<longrightarrow> fully_named v) \<and> (k = ''tables'' \<longrightarrow> (\<forall>vs. v = PList vs \<longrightarrow> (\<forall>w \<in> set vs. fully_named w))))
    \<longleftrightarrow> (if k \<in> K then fully_named v else True)
      \<and> (if k = ''tables'' then (case v of PList vs \<Rightarrow> \<forall>w \<in> set vs. fully_named w | _ \<Rightarrow> True) else True)" for K k v
    by (cases v) simp_all
  note e = this
  have "set table_keys = {''table'', ''table_name'', ''source_table'', ''target_table'', ''full_name''}" by (simp add: table_keys_def)
  then show ?thesis unfolding tables_ok_def by (simp only: e)
qed

lemma short_table_None: "short_table v = None \<longleftrightarrow> fully_named v"
  by (auto simp: short_table_def fully_named_def full_name_segments not_less split: pyval.splits)

lemma short_table_str: "short_table v = Some s \<Longrightarrow> v = PStr s"
  by (auto simp: short_table_def split: pyval.splits if_splits)

text \<open>What the walk does with one entry of an object, and with one item of its list of tables.\<close>

definition item_tables :: "string \<Rightarrow> nat \<times> pyval \<Rightarrow> violation list" where
  "item_tables here iw =
     (case iw of (i, w) \<Rightarrow>
        case short_table w of Some s \<Rightarrow> [ShortTable (item_path here i) s] | None \<Rightarrow> short_tables (item_path here i) w)"

definition entry_tables :: "string \<Rightarrow> string \<times> pyval \<Rightarrow> violation list" where
  "entry_tables path kv =
     (case kv of (k, v) \<Rightarrow>
       (let here = sub_path path k in
        case (if k \<in> set table_keys then short_table v else None) of
          Some s \<Rightarrow> [ShortTable here s]
        | None \<Rightarrow>
            (case (if k = ''tables'' then (case v of PList vs \<Rightarrow> Some vs | _ \<Rightarrow> None) else None) of
               Some vs \<Rightarrow> concat (map (item_tables here) (enumerate 0 vs))
             | None \<Rightarrow> short_tables here v)))"

lemma short_tables_dict: "short_tables path (PDict d) = concat (map (entry_tables path) d)"
  unfolding entry_tables_def [abs_def] item_tables_def [abs_def] short_tables.simps ..

definition clean_tables :: "pyval \<Rightarrow> bool" where
  "clean_tables v \<longleftrightarrow> (\<forall>d. inside [] v (PDict d) \<longrightarrow> tables_ok d)"

lemma clean_tables_dict: "clean_tables (PDict d) \<longleftrightarrow> tables_ok d \<and> (\<forall>(k, w) \<in> set d. clean_tables w)"
  by (auto simp: clean_tables_def inside_dict)

lemma clean_tables_list: "clean_tables (PList vs) \<longleftrightarrow> (\<forall>w \<in> set vs. clean_tables w)"
  by (auto simp: clean_tables_def inside_list)

lemma clean_tables_leaf: "clean_tables PNone" "clean_tables (PBool b)" "clean_tables (PInt n)" "clean_tables (PFloat x)" "clean_tables (PStr s)"
  by (simp_all add: clean_tables_def inside_leaf)

lemma short_tables_clean: "short_tables path v = [] \<longleftrightarrow> clean_tables v"
proof (induction "size v" arbitrary: path v rule: less_induct)
  case less
  show ?case
  proof (cases v)
    case (PDict d)
    have e: "entry_tables path (k, w) = [] \<longleftrightarrow>
        (if k \<in> set table_keys then fully_named w else True)
        \<and> (if k = ''tables'' then (case w of PList vs \<Rightarrow> \<forall>u \<in> set vs. fully_named u | _ \<Rightarrow> True) else True) \<and> clean_tables w"
      if kw: "(k, w) \<in> set d" for k w
    proof -
      have w: "short_tables p w = [] \<longleftrightarrow> clean_tables w" for p using less size_dict_entry [OF kw] PDict by simp
      show ?thesis
      proof (cases "\<exists>vs. k = ''tables'' \<and> w = PList vs")
        case True
        then obtain vs where vs: "k = ''tables''" "w = PList vs" by blast
        have i: "item_tables h (j, u) = [] \<longleftrightarrow> fully_named u \<and> clean_tables u" if "u \<in> set vs" for h j u
        proof -
          have "size u < size v" using size_list_entry [OF that] size_dict_entry [OF kw] vs PDict by simp
          then have "short_tables p u = [] \<longleftrightarrow> clean_tables u" for p using less by blast
          then show ?thesis using short_table_None [of u] by (auto simp: item_tables_def split: option.splits)
        qed
        have "concat (map (item_tables h) (enumerate n vs)) = [] \<longleftrightarrow> (\<forall>u \<in> set vs. fully_named u \<and> clean_tables u)" for h n
          using i by (induction vs arbitrary: n) auto
        then show ?thesis by (auto simp: entry_tables_def vs clean_tables_list table_keys_def fully_named_def)
      next
        case False
        then have t: "(if k = ''tables'' then (case w of PList vs \<Rightarrow> Some vs | _ \<Rightarrow> None) else None) = None" by (cases w) auto
        show ?thesis
        proof (cases "k \<in> set table_keys")
          case True
          then have "k \<noteq> ''tables''" by (auto simp: table_keys_def)
          then show ?thesis
            using True w short_table_None [of w] short_table_str [of w] by (cases "short_table w") (auto simp: entry_tables_def clean_tables_leaf)
        next
          case no: False
          then show ?thesis using t w False by (cases w) (auto simp: entry_tables_def)
        qed
      qed
    qed
    have "short_tables path v = [] \<longleftrightarrow> (\<forall>(k, w) \<in> set d. entry_tables path (k, w) = [])"
      unfolding PDict short_tables_dict by auto
    also have "\<dots> \<longleftrightarrow> clean_tables v" unfolding PDict clean_tables_dict tables_ok_keys using e by (auto simp del: if_split)
    finally show ?thesis .
  next
    case (PList vs)
    have "short_tables p w = [] \<longleftrightarrow> clean_tables w" if "w \<in> set vs" for p w
      using less size_list_entry [OF that] PList by simp
    then have "concat (map (\<lambda>(i, w). short_tables (item_path path i) w) (enumerate n vs)) = [] \<longleftrightarrow> (\<forall>w \<in> set vs. clean_tables w)" for n
      by (induction vs arbitrary: n) auto
    then show ?thesis by (simp add: PList clean_tables_list)
  qed (simp_all add: clean_tables_leaf)
qed

subsection \<open>The linter decides handoff readiness\<close>

lemma concat_map_Nil: "concat (map f xs) = [] \<longleftrightarrow> (\<forall>x \<in> set xs. f x = [])"
  by (induction xs) auto

lemma resources_declared: "(\<forall>x \<in> set (bundle_resources b kind). P (snd x)) \<longleftrightarrow> (\<forall>d. declared b kind d \<longrightarrow> P d)"
proof -
  have "(\<exists>n. (n, d) \<in> set (bundle_resources b kind)) \<longleftrightarrow> declared b kind d" for d
    unfolding bundle_resources_def declared_def pget_iff(1) [symmetric]
    by (cases "pget b ''resources''"; simp; rename_tac rs; case_tac "pget rs kind") (force simp: set_map_filter split: pyval.splits)+
  then show ?thesis by (metis prod.collapse snd_conv)
qed

lemma timed_iff: "timed d \<longleftrightarrow> has_timeout d"
  by (simp add: timed_def has_timeout_def absent_pget)

lemma job_timeouts_Nil: "job_timeouts nj = [] \<longleftrightarrow> job_bounded (snd nj)"
  by (cases nj) (auto simp: job_timeouts_def job_bounded_def concat_map_Nil task_violation_def timed_iff pget_iff [symmetric]
      split: pyval.splits list.splits)

lemma warehouse_violations_Nil: "warehouse_violations w = [] \<longleftrightarrow> stops (snd w)"
  by (auto simp: warehouse_violations_def stops_def positive_int_def pget_iff [symmetric] split: pyval.splits)

lemma served_iff: "es \<noteq> [] \<Longrightarrow> served_of ep = PList es \<longleftrightarrow> serves ep es"
  by (auto simp: served_of_def serves_def py_or_def absent_pget pget_iff [symmetric] split: pyval.splits)

lemma endpoint_violations_Nil: "endpoint_violations ep = [] \<longleftrightarrow> scales_to_zero (snd ep)"
proof -
  have "endpoint_violations ep = [] \<longleftrightarrow> (\<exists>es. es \<noteq> [] \<and> served_of (snd ep) = PList es \<and> (\<forall>v \<in> set es. entity_violation (fst ep) v = []))"
    by (auto simp: endpoint_violations_def concat_map_Nil split: pyval.splits list.splits)
  also have "\<dots> \<longleftrightarrow> scales_to_zero (snd ep)"
    unfolding scales_to_zero_def using served_iff
    by (auto simp: entity_violation_def pget_iff serves_def split: pyval.splits if_splits) metis+
  finally show ?thesis .
qed

lemma has_named_owner_iff: "has_named_owner job b \<longleftrightarrow> named_runner job \<or> named_runner b"
  by (auto simp: has_named_owner_def named_runner_def absent_pget pget_iff [symmetric] split: pyval.splits)

lemma schedule_violations_Nil: "schedule_violations b nj = [] \<longleftrightarrow> schedule_owned b (snd nj)"
  by (auto simp: schedule_violations_def schedule_owned_def has_named_owner_iff pget_iff [symmetric] split: pyval.splits)

lemma no_personal_Nil: "check_no_personal_owner b = [] \<longleftrightarrow>
    (\<forall>d u. inside [''run_as'', ''permissions'', ''owner'', ''owner_email''] (PDict b) (PDict d) \<longrightarrow> names_owner d u \<longrightarrow> \<not> personal u)"
proof -
  have "check_no_personal_owner b = [] \<longleftrightarrow> list_all (\<lambda>(s, u). \<not> is_personal u) (owner_identities '''' (PDict b))"
    by (simp only: check_no_personal_owner_def map_is_Nil_conv filter_empty_conv list_all_iff split_def)
  then show ?thesis unfolding owner_identities_inside owners_ok_def owner_keys_def is_personal_iff by blast
qed

text \<open>
  C38: the linter decides handoff readiness.  It reports nothing exactly for the bundles in which every job is bounded in time
  and every running schedule has a runner, warehouses stop and endpoints scale to zero, no object names a personal owner (at
  any depth but inside the values of run_as, permissions, owner and owner_email, which are read only for the names they give),
  and no object at any depth names a table without catalog and schema.\<close>

theorem lint_decides_readiness: "lint_bundle b = [] \<longleftrightarrow> handoff_ready b"
proof -
  have "check_job_timeouts b = [] \<and> check_schedules b = [] \<longleftrightarrow>
      (\<forall>job. declared b ''jobs'' job \<longrightarrow> job_bounded job \<and> schedule_owned b job)"
    unfolding check_job_timeouts_def check_schedules_def concat_map_Nil job_timeouts_Nil schedule_violations_Nil
      resources_declared [symmetric] by blast
  moreover have "check_scale b = [] \<longleftrightarrow>
      (\<forall>wh. declared b ''sql_warehouses'' wh \<longrightarrow> stops wh) \<and> (\<forall>ep. declared b ''model_serving_endpoints'' ep \<longrightarrow> scales_to_zero ep)"
    unfolding check_scale_def append_is_Nil_conv concat_map_Nil warehouse_violations_Nil endpoint_violations_Nil resources_declared ..
  moreover have "check_tables_fqn b = [] \<longleftrightarrow> (\<forall>d. inside [] (PDict b) (PDict d) \<longrightarrow> tables_ok d)"
    unfolding check_tables_fqn_def short_tables_clean clean_tables_def ..
  ultimately show ?thesis unfolding lint_bundle_def handoff_ready_def append_is_Nil_conv no_personal_Nil by blast
qed

text \<open>An owner named inside the value of \<open>run_as\<close> or of an entry of \<open>permissions\<close> is not collected.\<close>

lemma nested_owner_is_skipped:
  "check_no_personal_owner [(''permissions'', PList [PDict [(''owner'', PStr ''author@databricks.com'')]])] = []"
  by code_simp

text \<open>Python's \<open>True\<close> is an \<open>int\<close>, so a warehouse that says \<open>auto_stop_mins: true\<close> passes.\<close>

lemma boolean_auto_stop_passes:
  "check_scale [(''resources'', PDict [(''sql_warehouses'', PDict [(''w'', PDict [(''auto_stop_mins'', PBool True)])])])] = []"
  by code_simp

end
