(* ===== verification/Agent_Tree.thy ===== *)
theory Agent_Tree
  imports Apps_Authorization "HOL-Library.Product_Lexorder"
begin

text \<open>
  Walks over the declared tree of agents: its children, the tools and peers declared anywhere in it and the resources
  they need (\<open>_resources.py\<close>), and the static checks (\<open>_lint.py\<close>).

  The tree has one constructor per class.  A tool carries what its factories attached to it; the digest of a resource and
  the environment are parameters.
\<close>

subsection \<open>The tree\<close>

record tool_decl =
  td_name :: string
  td_doc :: "string option"
  td_specs :: "(string \<times> string) list"
  td_scopes :: "string list"
  td_peer :: "string option"

text \<open>\<open>ll_model\<close> is the declared setting \<open>model\<close>, \<open>ll_private_model\<close> the attribute \<open>_model\<close>.\<close>

record llm_decl =
  ll_class :: string
  ll_name :: "string option"
  ll_instructions :: "string option"
  ll_model :: "string option"
  ll_private_model :: "string option"
  ll_tools :: "tool_decl list"
  ll_urls :: "string list"

datatype atree =
    LlmNode llm_decl
  | RemoteNode
  | SeqNode "string option" string "atree list"
  | ParNode string "atree list"
  | LoopNode atree int
  | RouterNode string "(string \<times> atree) list"
  | KeywordNode "(string \<times> atree) list" atree
  | HandoffNode "(string \<times> atree) list"
  | OtherNode string "tool_decl list"

fun iter_child_agents :: "atree \<Rightarrow> (string \<times> atree) list" where
  "iter_child_agents (HandoffNode ms) = ms"
| "iter_child_agents (RouterNode i rs) = rs"
| "iter_child_agents (KeywordNode bs d) = bs @ [(''__default__'', d)]"
| "iter_child_agents (SeqNode n i as) = map (\<lambda>(k, a). (''step'' @ show_nat k, a)) (enumerate 0 as)"
| "iter_child_agents (ParNode i as) = map (\<lambda>(k, a). (''branch'' @ show_nat k, a)) (enumerate 0 as)"
| "iter_child_agents (LoopNode a n) = [(''inner'', a)]"
| "iter_child_agents (LlmNode l) = []"
| "iter_child_agents RemoteNode = []"
| "iter_child_agents (OtherNode c fs) = []"

lemma size_named: "(n, c) \<in> set rs \<Longrightarrow> size c < Suc (size_list (size_prod (\<lambda>x. 0) size) rs)"
  by (induction rs) auto

lemma size_listed: "c \<in> set as \<Longrightarrow> size c < Suc (size_list size as)"
  by (induction as) auto

lemma child_smaller: "(n, c) \<in> set (iter_child_agents a) \<Longrightarrow> size c < size a"
proof (induction a rule: iter_child_agents.induct)
  case (4 m i as)
  then have "c \<in> set as" by (auto simp: in_set_enumerate_eq)
  then show ?case using size_listed by simp
next
  case (5 i as)
  then have "c \<in> set as" by (auto simp: in_set_enumerate_eq)
  then show ?case using size_listed by simp
next
  case (3 bs d)
  then show ?case using size_named [of n c bs] by auto
qed (use size_named in force)+

subsection \<open>Tools and peers anywhere in the tree\<close>

fun own_fns :: "atree \<Rightarrow> tool_decl list" where
  "own_fns (OtherNode c fs) = fs"
| "own_fns a = []"

function iter_tool_fns :: "atree \<Rightarrow> tool_decl list" where
  "iter_tool_fns a =
     (case a of
        LlmNode l \<Rightarrow> ll_tools l
      | _ \<Rightarrow> if iter_child_agents a \<noteq> [] then concat (map (\<lambda>(n, c). iter_tool_fns c) (iter_child_agents a)) else own_fns a)"
  by pat_completeness auto
termination by (relation "measure size") (auto simp del: iter_child_agents.simps atree.size dest!: child_smaller)

function iter_sub_agents :: "atree \<Rightarrow> string list" where
  "iter_sub_agents a =
     (case a of LlmNode l \<Rightarrow> ll_urls l | _ \<Rightarrow> concat (map (\<lambda>(n, c). iter_sub_agents c) (iter_child_agents a)))"
  by pat_completeness auto
termination by (relation "measure size") (auto simp del: iter_child_agents.simps atree.size dest!: child_smaller)

declare iter_tool_fns.simps [simp del] iter_sub_agents.simps [simp del]

text \<open>The resources of the tree, each once, in the order of their first mention.\<close>

definition add_spec :: "string \<times> string \<Rightarrow> (string \<times> string) list \<Rightarrow> (string \<times> string) list" where
  "add_spec s out = (if s \<in> set out then out else out @ [s])"

definition collect_resource_specs :: "(string \<Rightarrow> string option) \<Rightarrow> atree \<Rightarrow> (string \<times> string) list \<Rightarrow> (string \<times> string) list" where
  "collect_resource_specs env a extra =
     fold add_spec
       (concat (map td_specs (iter_tool_fns a)) @ List.map_filter (sub_agent_to_endpoint env) (iter_sub_agents a) @ extra) []"

definition collect_user_api_scopes :: "atree \<Rightarrow> string list" where
  "collect_user_api_scopes a = sorted_set (concat (map (\<lambda>f. filter (\<lambda>s. s \<noteq> '''') (td_scopes f)) (iter_tool_fns a)))"

subsection \<open>Declaring scopes and resources on a tool\<close>

definition known_user_api_scopes :: "string list" where
  "known_user_api_scopes =
     [''ai-functions'', ''ai-gateway'', ''apps'', ''files'', ''genie'', ''model-serving'', ''postgres'', ''sql'',
      ''sql:restricted-query'', ''vector-search'', ''catalog.catalogs'', ''catalog.catalogs:read'', ''catalog.connections'',
      ''catalog.connections:read'', ''catalog.schemas'', ''catalog.schemas:read'', ''catalog.tables'', ''catalog.tables:read'',
      ''workspace.workspace'', ''workspace.workspace:read'']"

text \<open>\<open>Inl\<close> holds the unknown scopes of the raised error.\<close>

definition require_user_api_scopes :: "tool_decl \<Rightarrow> string list \<Rightarrow> string list + tool_decl" where
  "require_user_api_scopes f scopes =
     (let cleaned = filter (\<lambda>s. s \<noteq> '''') scopes; unknown = filter (\<lambda>s. s \<notin> set known_user_api_scopes) cleaned in
      if unknown \<noteq> [] then Inl unknown
      else Inr (f\<lparr>td_scopes := fold (\<lambda>s out. if s \<in> set out then out else out @ [s]) cleaned (td_scopes f)\<rparr>))"

definition attach_resources :: "tool_decl \<Rightarrow> (string \<times> string) list \<Rightarrow> tool_decl" where
  "attach_resources f specs = f\<lparr>td_specs := td_specs f @ specs\<rparr>"

subsection \<open>Names in the bundle file\<close>

definition name_safe :: "char \<Rightarrow> bool" where
  "name_safe c \<longleftrightarrow> c \<in> {CHR ''-'', CHR ''_''} \<or> (let n = of_char c :: nat in 97 \<le> n \<and> n \<le> 122 \<or> 48 \<le> n \<and> n \<le> 57)"

text \<open>\<open>s.rsplit(".", 1)[-1]\<close>.\<close>

definition after_last_dot :: "string \<Rightarrow> string" where
  "after_last_dot s = rev (takeWhile (\<lambda>c. c \<noteq> CHR ''.'') (rev s))"

definition safe_chars :: "string \<Rightarrow> string" where
  "safe_chars s = concat (map (\<lambda>c. if name_safe c then [c] else if c \<in> set ''./: '' then ''-'' else []) s)"

text \<open>\<open>s.replace("--", "-")\<close> until no two dashes are next to each other.\<close>

fun halve_dashes :: "string \<Rightarrow> string" where
  "halve_dashes [] = []"
| "halve_dashes [c] = [c]"
| "halve_dashes (c # d # s) = (if c = CHR ''-'' \<and> d = CHR ''-'' then CHR ''-'' # halve_dashes s else c # halve_dashes (d # s))"

lemma halve_shorter: "length (halve_dashes s) \<le> length s"
  by (induction s rule: halve_dashes.induct) auto

lemma halve_dashes_less: "str_contains ''--'' s \<Longrightarrow> length (halve_dashes s) < length s"
proof (induction s rule: halve_dashes.induct)
  case (3 c d s)
  show ?case
  proof (cases "c = CHR ''-'' \<and> d = CHR ''-''")
    case True
    then show ?thesis using halve_shorter [of s] by simp
  next
    case False
    with "3.prems" have "str_contains ''--'' (d # s)" by (auto simp: starts_with_def)
    with "3.IH"(2) False show ?thesis by auto
  qed
qed (auto simp: starts_with_def)

function single_dashes :: "string \<Rightarrow> string" where
  "single_dashes s = (if str_contains ''--'' s then single_dashes (halve_dashes s) else s)"
  by pat_completeness auto
termination by (relation "measure length") (auto simp: halve_dashes_less)

declare single_dashes.simps [simp del]

definition kind_suffix :: "(string \<times> string) list" where
  "kind_suffix =
     [(''serving_endpoint'', ''endpoint''), (''sql_warehouse'', ''warehouse''), (''genie_space'', ''genie''), (''uc_function'', ''function''),
      (''vector_search_index'', ''vsi''), (''uc_table'', ''table''), (''uc_connection'', ''connection''), (''lakebase_instance'', ''lakebase''),
      (''job'', ''job''), (''app'', ''app'')]"

definition edge_dash :: "char \<Rightarrow> bool" where
  "edge_dash c \<longleftrightarrow> c = CHR ''-'' \<or> c = CHR ''_''"

definition bare_slug :: "string \<Rightarrow> string" where
  "bare_slug identifier = strip_by edge_dash (safe_chars (lower (after_last_dot identifier)))"

definition slugify :: "(string \<Rightarrow> string) \<Rightarrow> string \<Rightarrow> string \<Rightarrow> string" where
  "slugify digest identifier kind =
     single_dashes (if bare_slug identifier = '''' then ''resource'' else bare_slug identifier)
     @ ''-'' @ (case dget kind_suffix kind of None \<Rightarrow> kind | Some s \<Rightarrow> s)
     @ ''-'' @ take 8 (digest (kind @ '':'' @ identifier))"

definition bounded_name :: "(string \<Rightarrow> string) \<Rightarrow> string \<Rightarrow> string \<Rightarrow> string" where
  "bounded_name digest identifier kind =
     (let slug = single_dashes (bare_slug identifier); base = (if slug = '''' then ''resource'' else slug) in
      take 21 base @ ''-'' @ take 8 (digest (kind @ '':'' @ identifier)))"

definition spec_body :: "(string \<Rightarrow> string) \<Rightarrow> string \<Rightarrow> string \<Rightarrow> (string \<times> (string \<times> string) list) option" where
  "spec_body digest kind i =
     dget
       [(''serving_endpoint'', (''serving_endpoint'', [(''name'', i), (''permission'', ''CAN_QUERY'')])),
        (''uc_function'', (''uc_securable'', [(''securable_full_name'', i), (''securable_type'', ''FUNCTION''), (''permission'', ''EXECUTE'')])),
        (''genie_space'', (''genie_space'', [(''name'', slugify digest i kind), (''space_id'', i), (''permission'', ''CAN_RUN'')])),
        (''vector_search_index'', (''uc_securable'', [(''securable_full_name'', i), (''securable_type'', ''TABLE''), (''permission'', ''SELECT'')])),
        (''sql_warehouse'', (''sql_warehouse'', [(''id'', i), (''permission'', ''CAN_USE'')])),
        (''job'', (''job'', [(''id'', i), (''permission'', ''CAN_MANAGE_RUN'')])),
        (''app'', (''app'', [(''name'', i), (''permission'', ''CAN_USE'')])),
        (''uc_connection'', (''uc_securable'',
           [(''securable_full_name'', i), (''securable_type'', ''CONNECTION''), (''permission'', ''USE_CONNECTION'')])),
        (''lakebase_instance'', (''database'',
           [(''database_name'', ''databricks_postgres''), (''instance_name'', i), (''permission'', ''CAN_CONNECT_AND_CREATE'')])),
        (''uc_table'', (''uc_securable'', [(''securable_full_name'', i), (''securable_type'', ''TABLE''), (''permission'', ''SELECT'')]))]
       kind"

record yml_entry =
  ye_name :: string
  ye_block :: string
  ye_body :: "(string \<times> string) list"

definition spec_to_yml_entry :: "(string \<Rightarrow> string) \<Rightarrow> string \<times> string \<Rightarrow> yml_entry option" where
  "spec_to_yml_entry digest spec =
     (case spec of (kind, i) \<Rightarrow>
        map_option (\<lambda>(block, body). \<lparr>ye_name = bounded_name digest i kind, ye_block = block, ye_body = body\<rparr>) (spec_body digest kind i))"

definition resources_to_databricks_yml :: "(string \<Rightarrow> string) \<Rightarrow> (string \<times> string) list \<Rightarrow> yml_entry list" where
  "resources_to_databricks_yml digest specs = List.map_filter (spec_to_yml_entry digest) specs"

subsection \<open>Static checks\<close>

text \<open>The children a check of the agents themselves descends to: the attribute \<open>_agents\<close>.\<close>

fun agents_attr :: "atree \<Rightarrow> atree list" where
  "agents_attr (HandoffNode ms) = map snd ms"
| "agents_attr (SeqNode n i as) = as"
| "agents_attr (ParNode i as) = as"
| "agents_attr a = []"

lemma named_values: "map snd (map (\<lambda>(k, a). (f k, a)) (enumerate n as)) = as"
  by (induction as arbitrary: n) auto

lemma agents_attr_children: "set (agents_attr a) \<subseteq> snd ` set (iter_child_agents a)"
  unfolding set_map [symmetric] by (cases a) (simp_all only: agents_attr.simps iter_child_agents.simps named_values, simp_all)

lemma agents_attr_smaller: "c \<in> set (agents_attr a) \<Longrightarrow> size c < size a"
  using agents_attr_children [of a] child_smaller by force

function iter_llm_agents :: "atree \<Rightarrow> llm_decl list" where
  "iter_llm_agents a = (case a of LlmNode l \<Rightarrow> [l] | _ \<Rightarrow> concat (map iter_llm_agents (agents_attr a)))"
  by pat_completeness auto
termination by (relation "measure size") (auto simp del: agents_attr.simps atree.size dest!: agents_attr_smaller)

declare iter_llm_agents.simps [simp del]

datatype severity = ErrorSev | WarningSev | InfoSev

text \<open>A finding; of its message only the name it is about is kept.\<close>

record lint_finding =
  ln_code :: string
  ln_severity :: severity
  ln_location :: string
  ln_subject :: string

definition blank :: "string option \<Rightarrow> bool" where
  "blank s \<longleftrightarrow> (case s of None \<Rightarrow> True | Some t \<Rightarrow> strip t = '''')"

definition agent_place :: "llm_decl \<Rightarrow> string" where
  "agent_place l = ''agent:'' @ (case ll_name l of None \<Rightarrow> ll_class l | Some n \<Rightarrow> if n = '''' then ll_class l else n)"

definition check_instructions :: "atree \<Rightarrow> lint_finding list" where
  "check_instructions a =
     map (\<lambda>l. \<lparr>ln_code = ''L001'', ln_severity = ErrorSev, ln_location = agent_place l, ln_subject = ''''\<rparr>)
       (filter (\<lambda>l. blank (ll_instructions l)) (iter_llm_agents a))"

definition check_tool_docstrings :: "atree \<Rightarrow> lint_finding list" where
  "check_tool_docstrings a =
     map (\<lambda>f. \<lparr>ln_code = ''L002'', ln_severity = WarningSev, ln_location = ''tool:'' @ td_name f, ln_subject = td_name f\<rparr>)
       (filter (\<lambda>f. blank (td_doc f)) (iter_tool_fns a))"

text \<open>The names the pattern \<open>\$\{?([A-Za-z_][A-Za-z0-9_]*)\}?\<close> finds in a text.\<close>

definition name_start :: "char \<Rightarrow> bool" where
  "name_start c \<longleftrightarrow> c = CHR ''_'' \<or> is_alpha c"

definition name_part :: "char \<Rightarrow> bool" where
  "name_part c \<longleftrightarrow> (CHR ''0'' \<le> c \<and> c \<le> CHR ''9'') \<or> name_start c"

definition unbraced :: "string \<Rightarrow> string" where
  "unbraced s = (if starts_with ''{'' s then tl s else s)"

lemma length_unbraced: "length (unbraced s) \<le> length s"
  by (simp add: unbraced_def)

function env_refs :: "string \<Rightarrow> string list" where
  "env_refs [] = []"
| "env_refs (c # s) =
     (if c = CHR ''$'' \<and> unbraced s \<noteq> [] \<and> name_start (hd (unbraced s))
      then takeWhile name_part (unbraced s)
           # env_refs (let rest = dropWhile name_part (unbraced s) in if starts_with ''}'' rest then tl rest else rest)
      else env_refs s)"
  by pat_completeness auto

termination
proof (relation "measure length")
  fix c :: char and s :: string
  have "length (dropWhile name_part (unbraced s)) \<le> length s"
    using length_dropWhile_le [of name_part "unbraced s"] length_unbraced [of s] by simp
  then show "(let rest = dropWhile name_part (unbraced s) in if starts_with ''}'' rest then tl rest else rest, c # s) \<in> measure length"
    by (auto simp: Let_def)
qed auto

definition check_subagent_urls :: "(string \<Rightarrow> string option) \<Rightarrow> atree \<Rightarrow> lint_finding list" where
  "check_subagent_urls env a =
     concat (map (\<lambda>u. map (\<lambda>v. \<lparr>ln_code = ''L003'', ln_severity = ErrorSev, ln_location = ''sub_agent:'' @ u, ln_subject = v\<rparr>)
                        (filter (\<lambda>v. env v = None) (env_refs u)))
                 (iter_sub_agents a))"

fun once :: "(string \<times> string) list \<Rightarrow> string list \<Rightarrow> (string \<times> string) list" where
  "once [] seen = []"
| "once ((place, v) # cs) seen = (if v \<in> set seen then once cs seen else (place, v) # once cs (v # seen))"

definition nonempty_value :: "string \<Rightarrow> string option \<Rightarrow> (string \<times> string) list" where
  "nonempty_value place v = (case v of None \<Rightarrow> [] | Some s \<Rightarrow> if s = '''' then [] else [(place, s)])"

definition endpoint_name :: "string \<Rightarrow> bool" where
  "endpoint_name v \<longleftrightarrow> starts_with ''databricks-'' v \<or> starts_with ''endpoints/'' v"

definition check_model_name :: "atree \<Rightarrow> string option \<Rightarrow> lint_finding list" where
  "check_model_name a model =
     map (\<lambda>(place, v). \<lparr>ln_code = ''L004'', ln_severity = WarningSev, ln_location = place, ln_subject = v\<rparr>)
       (filter (\<lambda>(place, v). \<not> endpoint_name v)
         (once (nonempty_value ''explicit-model-kwarg'' model
                @ concat (map (\<lambda>l. nonempty_value (agent_place l) (ll_private_model l)) (iter_llm_agents a))) []))"

definition lint_agent :: "(string \<Rightarrow> string option) \<Rightarrow> atree \<Rightarrow> string option \<Rightarrow> lint_finding list" where
  "lint_agent env a model =
     sort_key (\<lambda>f. (ln_code f, ln_location f))
       (check_instructions a @ check_tool_docstrings a @ check_subagent_urls env a @ check_model_name a model)"

subsection \<open>Every agent of the tree\<close>

text \<open>The agents at any depth, and what each declares.\<close>

definition below :: "atree \<Rightarrow> atree \<Rightarrow> bool" where
  "below = (\<lambda>a b. b \<in> snd ` set (iter_child_agents a))\<^sup>*\<^sup>*"

fun node_tools :: "atree \<Rightarrow> tool_decl list" where
  "node_tools (LlmNode l) = ll_tools l"
| "node_tools (OtherNode c fs) = fs"
| "node_tools a = []"

fun node_urls :: "atree \<Rightarrow> string list" where
  "node_urls (LlmNode l) = ll_urls l"
| "node_urls a = []"

lemma below_refl [simp]: "below a a"
  by (simp add: below_def)

lemma below_cases: "below a b \<longleftrightarrow> b = a \<or> (\<exists>c \<in> snd ` set (iter_child_agents a). below c b)"
  unfolding below_def by (metis (no_types, lifting) converse_rtranclpE converse_rtranclp_into_rtranclp rtranclp.rtrancl_refl)

lemma tool_fns_step: "set (iter_tool_fns a) = set (node_tools a) \<union> (\<Union>c \<in> snd ` set (iter_child_agents a). set (iter_tool_fns c))"
  by (cases a) (auto simp: iter_tool_fns.simps [of "LlmNode _"] iter_tool_fns.simps [of RemoteNode] iter_tool_fns.simps [of "OtherNode _ _"]
      iter_tool_fns.simps [of "SeqNode _ _ _"] iter_tool_fns.simps [of "ParNode _ _"] iter_tool_fns.simps [of "LoopNode _ _"]
      iter_tool_fns.simps [of "RouterNode _ _"] iter_tool_fns.simps [of "KeywordNode _ _"] iter_tool_fns.simps [of "HandoffNode _"])

lemma sub_agents_step: "set (iter_sub_agents a) = set (node_urls a) \<union> (\<Union>c \<in> snd ` set (iter_child_agents a). set (iter_sub_agents c))"
  by (cases a) (auto simp: iter_sub_agents.simps [of "LlmNode _"] iter_sub_agents.simps [of RemoteNode] iter_sub_agents.simps [of "OtherNode _ _"]
      iter_sub_agents.simps [of "SeqNode _ _ _"] iter_sub_agents.simps [of "ParNode _ _"] iter_sub_agents.simps [of "LoopNode _ _"]
      iter_sub_agents.simps [of "RouterNode _ _"] iter_sub_agents.simps [of "KeywordNode _ _"] iter_sub_agents.simps [of "HandoffNode _"])

lemma walk_below:
  assumes "\<And>a. f a = g a \<union> (\<Union>c \<in> snd ` set (iter_child_agents a). f c)"
  shows "f a = (\<Union>b \<in> Collect (below a). g b)"
proof (induction a rule: measure_induct_rule [of size])
  case (less a)
  have "f c = (\<Union>b \<in> Collect (below c). g b)" if "c \<in> snd ` set (iter_child_agents a)" for c
    using that less child_smaller by force
  then have "f a = g a \<union> (\<Union>c \<in> snd ` set (iter_child_agents a). \<Union>b \<in> Collect (below c). g b)" by (subst assms) simp
  also have "\<dots> = (\<Union>b \<in> Collect (below a). g b)" using below_cases [of a] by auto
  finally show ?case .
qed

lemmas tool_fns_below = walk_below [of "\<lambda>a. set (iter_tool_fns a)", OF tool_fns_step]
lemmas sub_agents_below = walk_below [of "\<lambda>a. set (iter_sub_agents a)", OF sub_agents_step]

lemma fold_add_spec: "distinct out \<Longrightarrow> distinct (fold add_spec ss out) \<and> set (fold add_spec ss out) = set out \<union> set ss"
  by (induction ss arbitrary: out) (auto simp: add_spec_def)

text \<open>
  C32: the resources of a deployment are those of the whole tree.  Each resource is granted once; a resource is granted exactly if
  a tool of an agent at any depth declares it, a peer of such an agent stands for it, or the caller adds it.\<close>

theorem resources_cover_the_tree:
  "distinct (collect_resource_specs env a extra)
   \<and> set (collect_resource_specs env a extra)
     = (\<Union>b \<in> Collect (below a). \<Union>f \<in> set (node_tools b). set (td_specs f))
       \<union> (\<Union>b \<in> Collect (below a). \<Union>u \<in> set (node_urls b). set_option (sub_agent_to_endpoint env u))
       \<union> set extra"
proof -
  have "set (List.map_filter (sub_agent_to_endpoint env) us) = (\<Union>u \<in> set us. set_option (sub_agent_to_endpoint env u))" for us
    by (induction us) (auto simp: map_filter_simps split: option.splits)
  then show ?thesis
    using fold_add_spec [of "[]"]
    by (simp add: collect_resource_specs_def tool_fns_below sub_agents_below Un_assoc del: fold_append)
qed

subsection \<open>What the checks report\<close>

text \<open>The agents reached through lists of agents only.\<close>

definition listed :: "atree \<Rightarrow> atree \<Rightarrow> bool" where
  "listed = (\<lambda>a b. b \<in> set (agents_attr a))\<^sup>*\<^sup>*"

fun node_llms :: "atree \<Rightarrow> llm_decl list" where
  "node_llms (LlmNode l) = [l]"
| "node_llms a = []"

lemma listed_cases: "listed a b \<longleftrightarrow> b = a \<or> (\<exists>c \<in> set (agents_attr a). listed c b)"
  unfolding listed_def by (metis (no_types, lifting) converse_rtranclpE converse_rtranclp_into_rtranclp rtranclp.rtrancl_refl)

lemma llm_agents_step: "set (iter_llm_agents a) = set (node_llms a) \<union> (\<Union>c \<in> set (agents_attr a). set (iter_llm_agents c))"
  by (cases a) (auto simp: iter_llm_agents.simps [of "LlmNode _"] iter_llm_agents.simps [of RemoteNode] iter_llm_agents.simps [of "OtherNode _ _"]
      iter_llm_agents.simps [of "SeqNode _ _ _"] iter_llm_agents.simps [of "ParNode _ _"] iter_llm_agents.simps [of "LoopNode _ _"]
      iter_llm_agents.simps [of "RouterNode _ _"] iter_llm_agents.simps [of "KeywordNode _ _"] iter_llm_agents.simps [of "HandoffNode _"])

lemma llm_agents_listed: "set (iter_llm_agents a) = (\<Union>b \<in> Collect (listed a). set (node_llms b))"
proof (induction a rule: measure_induct_rule [of size])
  case (less a)
  have "set (iter_llm_agents c) = (\<Union>b \<in> Collect (listed c). set (node_llms b))" if "c \<in> set (agents_attr a)" for c
    using that less agents_attr_smaller by blast
  then have "set (iter_llm_agents a) = set (node_llms a) \<union> (\<Union>c \<in> set (agents_attr a). \<Union>b \<in> Collect (listed c). set (node_llms b))"
    by (subst llm_agents_step) simp
  also have "\<dots> = (\<Union>b \<in> Collect (listed a). set (node_llms b))" using listed_cases [of a] by auto
  finally show ?case .
qed

lemma lint_set: "set (lint_agent env a model)
    = set (check_instructions a) \<union> set (check_tool_docstrings a) \<union> set (check_subagent_urls env a) \<union> set (check_model_name a model)"
  by (simp add: lint_agent_def Un_assoc)

definition of_code :: "string \<Rightarrow> lint_finding list \<Rightarrow> lint_finding set" where
  "of_code code fs = {f \<in> set fs. ln_code f = code}"

lemma lint_codes:
  "f \<in> set (check_instructions a) \<Longrightarrow> ln_code f = ''L001''" "f \<in> set (check_tool_docstrings a) \<Longrightarrow> ln_code f = ''L002''"
  "f \<in> set (check_subagent_urls env a) \<Longrightarrow> ln_code f = ''L003''" "f \<in> set (check_model_name a model) \<Longrightarrow> ln_code f = ''L004''"
  by (auto simp: check_instructions_def check_tool_docstrings_def check_subagent_urls_def check_model_name_def)

lemma lint_by_code:
  "of_code ''L001'' (lint_agent env a model) = set (check_instructions a)"
  "of_code ''L002'' (lint_agent env a model) = set (check_tool_docstrings a)"
  "of_code ''L003'' (lint_agent env a model) = set (check_subagent_urls env a)"
  using lint_codes(1) [of _ a] lint_codes(2) [of _ a] lint_codes(3) [of _ env a] lint_codes(4) [of _ a model]
  unfolding of_code_def lint_set by force+

text \<open>the checks report what they walk.  The report is sorted by code and place; it names exactly the undocumented tools and the
  unset variables of agents at any depth, and exactly the agents without instructions that are reached through lists of agents.\<close>

theorem lint_reports_what_it_walks:
  "sorted (map (\<lambda>f. (ln_code f, ln_location f)) (lint_agent env a model))
   \<and> ln_location ` of_code ''L001'' (lint_agent env a model)
     = (\<Union>b \<in> Collect (listed a). agent_place ` {l \<in> set (node_llms b). blank (ll_instructions l)})
   \<and> ln_subject ` of_code ''L002'' (lint_agent env a model)
     = (\<Union>b \<in> Collect (below a). td_name ` {f \<in> set (node_tools b). blank (td_doc f)})
   \<and> ln_subject ` of_code ''L003'' (lint_agent env a model)
     = (\<Union>b \<in> Collect (below a). \<Union>u \<in> set (node_urls b). {v \<in> set (env_refs u). env v = None})"
proof -
  have "sorted (map (\<lambda>f. (ln_code f, ln_location f)) (lint_agent env a model))" by (simp add: lint_agent_def)
  moreover have "ln_location ` set (check_instructions a)
      = (\<Union>b \<in> Collect (listed a). agent_place ` {l \<in> set (node_llms b). blank (ll_instructions l)})"
    unfolding check_instructions_def by (auto simp: llm_agents_listed image_image)
  moreover have "ln_subject ` set (check_tool_docstrings a)
      = (\<Union>b \<in> Collect (below a). td_name ` {f \<in> set (node_tools b). blank (td_doc f)})"
    unfolding check_tool_docstrings_def by (auto simp: tool_fns_below image_image)
  moreover have "ln_subject ` set (check_subagent_urls env a)
      = (\<Union>b \<in> Collect (below a). \<Union>u \<in> set (node_urls b). {v \<in> set (env_refs u). env v = None})"
    unfolding check_subagent_urls_def by (force simp: sub_agents_below image_UN image_image)
  ultimately show ?thesis unfolding lint_by_code by blast
qed

definition bare_llm :: llm_decl where
  "bare_llm = \<lparr>ll_class = ''LlmAgent'', ll_name = Some ''billing'', ll_instructions = None, ll_model = Some ''gpt-4'', ll_private_model = None,
     ll_tools = [\<lparr>td_name = ''refund'', td_doc = None, td_specs = [], td_scopes = [], td_peer = None\<rparr>], ll_urls = []\<rparr>"

text \<open>An agent behind a router, a keyword router or a loop is never checked for instructions, although its tools are.\<close>

lemma routed_agents_are_not_linted:
  "map ln_code (lint_agent (\<lambda>v. None) (SeqNode None '''' [LlmNode bare_llm]) None) = [''L001'', ''L002'']"
  "map ln_code (lint_agent (\<lambda>v. None) (RouterNode '''' [(''billing'', LlmNode bare_llm)]) None) = [''L002'']"
  "map ln_code (lint_agent (\<lambda>v. None) (KeywordNode [(''x'', RemoteNode)] (LlmNode bare_llm)) None) = [''L002'']"
  "map ln_code (lint_agent (\<lambda>v. None) (LoopNode (LlmNode bare_llm) 5) None) = [''L002'']"
  by code_simp+

text \<open>The model an agent declares has no influence on the report: the check reads another attribute.\<close>

lemma declared_model_is_not_linted: "lint_agent env (LlmNode (l\<lparr>ll_model := m\<rparr>)) model = lint_agent env (LlmNode l) model"
proof -
  have "iter_llm_agents (LlmNode x) = [x]" "iter_tool_fns (LlmNode x) = ll_tools x" "iter_sub_agents (LlmNode x) = ll_urls x" for x
    by (simp_all add: iter_llm_agents.simps iter_tool_fns.simps iter_sub_agents.simps)
  note walks = this
  have "agent_place (l\<lparr>ll_model := m\<rparr>) = agent_place l" by (simp add: agent_place_def split: option.split)
  then have "check_instructions (LlmNode (l\<lparr>ll_model := m\<rparr>)) = check_instructions (LlmNode l)"
    "check_tool_docstrings (LlmNode (l\<lparr>ll_model := m\<rparr>)) = check_tool_docstrings (LlmNode l)"
    "check_subagent_urls env (LlmNode (l\<lparr>ll_model := m\<rparr>)) = check_subagent_urls env (LlmNode l)"
    "check_model_name (LlmNode (l\<lparr>ll_model := m\<rparr>)) model = check_model_name (LlmNode l) model"
    by (simp_all add: check_instructions_def check_tool_docstrings_def check_subagent_urls_def check_model_name_def walks)
  then show ?thesis by (simp add: lint_agent_def)
qed

subsection \<open>Names that the platform accepts\<close>

lemma set_halve_dashes: "set (halve_dashes s) \<subseteq> set s"
  by (induction s rule: halve_dashes.induct) auto

lemma set_single_dashes: "set (single_dashes s) \<subseteq> set s"
proof (induction s rule: single_dashes.induct)
  case (1 s)
  then show ?case using set_halve_dashes [of s] by (subst single_dashes.simps) auto
qed

lemma bare_slug_safe: "list_all name_safe (bare_slug s)"
proof -
  have "list_all name_safe (safe_chars t)" for t
    by (induction t) (auto simp: safe_chars_def name_safe_def)
  then show ?thesis using set_strip_by [of edge_dash] unfolding bare_slug_def list_all_iff by blast
qed

lemma either: "P x \<Longrightarrow> P y \<Longrightarrow> P (if c then x else y)"
  by simp

lemma list_all_take: "list_all P xs \<Longrightarrow> list_all P (take n xs)"
  by (auto simp: list_all_iff dest: in_set_takeD)

lemma same_tail: "xs @ us = ys @ vs \<Longrightarrow> length us = length vs \<Longrightarrow> us = vs"
  by simp

text \<open>the handle of a resource is one the platform accepts.  It has between ten and thirty characters, all of them safe, when the
  digest is at least eight safe characters long, and two resources share a handle only if their digests begin alike.\<close>

theorem handles_fit_the_platform:
  assumes "\<And>x. 8 \<le> length (digest x) \<and> list_all name_safe (digest x)"
  shows "10 \<le> length (bounded_name digest i kind) \<and> length (bounded_name digest i kind) \<le> 30
    \<and> list_all name_safe (bounded_name digest i kind)
    \<and> (if bounded_name digest i kind = bounded_name digest j kind'
       then take 8 (digest (kind @ '':'' @ i)) = take 8 (digest (kind' @ '':'' @ j)) else True)"
proof -
  let ?b = "\<lambda>i. if single_dashes (bare_slug i) = '''' then ''resource'' else single_dashes (bare_slug i)"
  have eq: "bounded_name digest i kind = take 21 (?b i) @ ''-'' @ take 8 (digest (kind @ '':'' @ i))" for i kind
    by (simp add: bounded_name_def Let_def)
  have b: "1 \<le> length (take 21 (?b i))" by (cases "single_dashes (bare_slug i)") auto
  have l: "length (take 8 (digest x)) = 8" for x using assms by simp
  have safe: "list_all name_safe (single_dashes (bare_slug i))"
    using set_single_dashes [of "bare_slug i"] bare_slug_safe [of i] unfolding list_all_iff by blast
  have "list_all name_safe ''resource''" by code_simp
  then have "list_all name_safe (?b i)" using safe by (rule either)
  then have "list_all name_safe (take 21 (?b i))" by (rule list_all_take)
  moreover have "list_all name_safe (take 8 (digest x))" for x using assms by (blast intro: list_all_take)
  moreover have "take 8 (digest (kind @ '':'' @ i)) = take 8 (digest (kind' @ '':'' @ j))"
    if "bounded_name digest i kind = bounded_name digest j kind'"
  proof (rule same_tail)
    show "(take 21 (?b i) @ ''-'') @ take 8 (digest (kind @ '':'' @ i)) = (take 21 (?b j) @ ''-'') @ take 8 (digest (kind' @ '':'' @ j))"
      using that unfolding eq append_assoc .
  qed (simp only: l)
  moreover have "name_safe CHR ''-''" by (simp add: name_safe_def)
  ultimately show ?thesis using b l unfolding eq by simp
qed

lemma handles_fit_the_platform_witness:
  "bounded_name (\<lambda>x. ''0a1b2c3d4e'') ''main.tools.Look--up/Orders'' ''uc_function'' = ''look-up-orders-0a1b2c3d''
   \<and> length (bounded_name (\<lambda>x. ''0a1b2c3d4e'') ''main.tools.Look--up/Orders'' ''uc_function'') \<le> 30"
proof -
  have "bounded_name (\<lambda>x. ''0a1b2c3d4e'') ''main.tools.Look--up/Orders'' ''uc_function'' = ''look-up-orders-0a1b2c3d''" by code_simp
  moreover have "list_all name_safe ''0a1b2c3d4e''" by code_simp
  then have "length (bounded_name (\<lambda>x. ''0a1b2c3d4e'') ''main.tools.Look--up/Orders'' ''uc_function'') \<le> 30"
    using handles_fit_the_platform [of "\<lambda>x. ''0a1b2c3d4e''"] by simp
  ultimately show ?thesis by blast
qed

subsection \<open>Endpoints of the managed protocol servers\<close>

record mcp_endpoint =
  mc_kind :: string
  mc_identifier :: string
  mc_url :: "string option"
  mc_scope :: "string option"
  mc_unsupported :: bool

definition normalise_host :: "string \<Rightarrow> string" where
  "normalise_host host =
     (let h = rstrip_slash host in if starts_with ''http://'' h \<or> starts_with ''https://'' h then h else ''https://'' @ h)"

text \<open>Address and scope of a resource on the managed servers.\<close>

definition build_url :: "string \<Rightarrow> string \<Rightarrow> string \<Rightarrow> (string \<times> string) option" where
  "build_url kind i host =
     (if kind = ''genie_space'' then Some (host @ ''/api/2.0/mcp/genie/'' @ i, ''genie'')
      else (case dget [(''uc_function'', (''/api/2.0/mcp/functions/'', ''unity-catalog'')),
                       (''vector_search_index'', (''/api/2.0/mcp/vector-search/'', ''vector-search''))] kind of
              None \<Rightarrow> None
            | Some (path, scope) \<Rightarrow>
                (let parts = split_on (\<lambda>c. c = CHR ''.'') i in
                 if length parts \<noteq> 3 then None else Some (host @ path @ join ''/'' parts, scope))))"

definition mcp_endpoint_of :: "string \<Rightarrow> string \<times> string \<Rightarrow> mcp_endpoint" where
  "mcp_endpoint_of host spec =
     (case spec of (kind, i) \<Rightarrow>
        (case build_url kind i host of
           None \<Rightarrow> \<lparr>mc_kind = kind, mc_identifier = i, mc_url = None, mc_scope = None, mc_unsupported = True\<rparr>
         | Some (url, scope) \<Rightarrow>
             \<lparr>mc_kind = kind, mc_identifier = i, mc_url = Some url, mc_scope = Some scope, mc_unsupported = False\<rparr>))"

definition managed_mcp_urls :: "(string \<Rightarrow> string option) \<Rightarrow> atree \<Rightarrow> string \<Rightarrow> mcp_endpoint list" where
  "managed_mcp_urls env a host = map (mcp_endpoint_of (normalise_host host)) (collect_resource_specs env a [])"

definition managed_mcp_url_for_resource :: "string \<Rightarrow> string \<Rightarrow> string \<Rightarrow> string option" where
  "managed_mcp_url_for_resource kind i host = map_option fst (build_url kind i (normalise_host host))"

lemma managed_urls_of_specs: "map (\<lambda>m. (mc_kind m, mc_identifier m)) (managed_mcp_urls env a host) = collect_resource_specs env a []"
proof -
  have "(mc_kind (mcp_endpoint_of h s), mc_identifier (mcp_endpoint_of h s)) = s" for h s
    by (cases s) (simp add: mcp_endpoint_of_def split: option.splits)
  then show ?thesis by (simp add: managed_mcp_urls_def o_def)
qed

end
