(* ===== verification/Agent_Topology.thy ===== *)
theory Agent_Topology
  imports Agent_Tree
begin

text \<open>
  The endpoint graph of a live agent (\<open>_topology.py\<close>): its nodes and edges, the inspection of a node, the digest, and the
  part of the graph a recorded run went through.

  Node ids are paths of child names below \<open>agent:root\<close>.  What reflection on a tool function finds (its input schema and
  dependencies) and the declared workflows are left out; the environment is a parameter.
\<close>

subsection \<open>References to peers\<close>

definition first_part :: "char \<Rightarrow> string \<Rightarrow> string" where
  "first_part c s = takeWhile (\<lambda>x. x \<noteq> c) s"

text \<open>\<open>s.split("//", 1)[-1]\<close>.\<close>

fun after_slashes :: "string \<Rightarrow> string option" where
  "after_slashes [] = None"
| "after_slashes [c] = None"
| "after_slashes (c # d # s) = (if c = CHR ''/'' \<and> d = CHR ''/'' then Some s else after_slashes (d # s))"

text \<open>The pattern \<open>^(.+)-(\d{10,})$\<close> of an app's host, which ends in the number of its workspace.\<close>

definition without_number :: "string \<Rightarrow> string option" where
  "without_number app =
     (let digits = rev (takeWhile (\<lambda>c. c \<noteq> CHR ''-'') (rev app)); front = take (length app - length digits - 1) app in
      if length digits < length app \<and> front \<noteq> '''' \<and> 10 \<le> length digits \<and> list_all (\<lambda>c. CHR ''0'' \<le> c \<and> c \<le> CHR ''9'') digits
      then Some front else None)"

definition strip_braces :: "string \<Rightarrow> string" where
  "strip_braces s = strip_by (\<lambda>c. c \<in> set ''{}'') s"

definition classify_sub_agent :: "string \<Rightarrow> string \<times> string" where
  "classify_sub_agent reference =
     (let raw = strip reference in
      if starts_with ''$'' raw then
        (let key = strip_braces (tl raw) in
         if starts_with ''APX_PEER_'' key \<and> ends_with ''_URL'' key then
           (let label = lower (map (\<lambda>c. if c = CHR ''_'' then CHR ''-'' else c) (take (length key - 9 - 4) (drop 9 key))) in
            (if label = '''' then key else label, ''env_ref''))
         else (if key = '''' then raw else key, ''env_ref''))
      else if str_contains ''databricksapps.com'' raw then
        (let app = first_part CHR ''.'' (first_part CHR ''/'' (case after_slashes raw of None \<Rightarrow> raw | Some s \<Rightarrow> s)) in
         (case without_number app of Some l \<Rightarrow> l | None \<Rightarrow> if app = '''' then raw else app, ''app_url''))
      else if starts_with ''endpoints/'' raw \<or> starts_with ''serving-endpoints/'' raw then
        (tl (dropWhile (\<lambda>c. c \<noteq> CHR ''/'') raw), ''endpoint'')
      else if str_contains ''://'' raw then (raw, ''unresolved'')
      else (raw, ''endpoint''))"

subsection \<open>Nodes and edges\<close>

record topo_node =
  tn_id :: string
  tn_type :: string
  tn_label :: string
  tn_description :: "string option"

record topo_edge =
  te_id :: string
  te_source :: string
  te_target :: string
  te_kind :: string

record topo =
  tp_nodes :: "topo_node list"
  tp_edges :: "topo_edge list"

definition topo_ids :: "topo \<Rightarrow> string list" where
  "topo_ids t = map tn_id (tp_nodes t)"

definition add_node :: "topo_node \<Rightarrow> topo \<Rightarrow> topo" where
  "add_node n t = (if tn_id n \<in> set (topo_ids t) then t else t\<lparr>tp_nodes := tp_nodes t @ [n]\<rparr>)"

definition add_edge :: "string \<Rightarrow> string \<Rightarrow> string \<Rightarrow> topo \<Rightarrow> topo" where
  "add_edge source target kind t =
     (let i = source @ ''->'' @ target @ '':'' @ kind in
      if i \<in> te_id ` set (tp_edges t) then t
      else t\<lparr>tp_edges := tp_edges t @ [\<lparr>te_id = i, te_source = source, te_target = target, te_kind = kind\<rparr>]\<rparr>)"

subsection \<open>What an agent shows\<close>

definition resource_types :: "(string \<times> string \<times> string) list" where
  "resource_types =
     [(''uc_function'', (''UCFunction'', ''uc'')), (''genie_space'', (''GenieSpace'', ''genie'')), (''vector_search_index'', (''VectorIndex'', ''vs'')),
      (''serving_endpoint'', (''ServingEndpoint'', ''endpoint'')), (''sql_warehouse'', (''WarehouseSQL'', ''warehouse'')),
      (''uc_table'', (''UCFunction'', ''uc'')), (''uc_connection'', (''UCFunction'', ''uc'')), (''lakebase_instance'', (''ServingEndpoint'', ''endpoint''))]"

definition known_classes :: "string list" where
  "known_classes =
     [''LlmAgent'', ''Agent'', ''DataAgent'', ''CoworkerAgent'', ''SequentialAgent'', ''ParallelAgent'', ''LoopAgent'', ''RouterAgent'',
      ''HandoffAgent'', ''KeywordRouter'']"

fun class_name :: "atree \<Rightarrow> string" where
  "class_name (LlmNode l) = ll_class l"
| "class_name RemoteNode = ''RemoteDatabricksAgent''"
| "class_name (SeqNode n i as) = ''SequentialAgent''"
| "class_name (ParNode i as) = ''ParallelAgent''"
| "class_name (LoopNode a k) = ''LoopAgent''"
| "class_name (RouterNode i rs) = ''RouterAgent''"
| "class_name (KeywordNode bs d) = ''KeywordRouter''"
| "class_name (HandoffNode ms) = ''HandoffAgent''"
| "class_name (OtherNode c fs) = c"

definition agent_type :: "atree \<Rightarrow> string" where
  "agent_type a = (if class_name a \<in> set known_classes then class_name a else ''Agent'')"

definition given :: "string option \<Rightarrow> string \<Rightarrow> string" where
  "given s spare = (case s of None \<Rightarrow> spare | Some t \<Rightarrow> if t = '''' then spare else t)"

fun agent_label :: "atree \<Rightarrow> string \<Rightarrow> string" where
  "agent_label (LlmNode l) spare = given (ll_name l) spare"
| "agent_label (SeqNode n i as) spare = given n spare"
| "agent_label a spare = spare"

fun instructions_attr :: "atree \<Rightarrow> string" where
  "instructions_attr (LlmNode l) = given (ll_instructions l) ''''"
| "instructions_attr (SeqNode n i as) = i"
| "instructions_attr (ParNode i as) = i"
| "instructions_attr (RouterNode i rs) = i"
| "instructions_attr a = ''''"

fun instructions_for :: "atree \<Rightarrow> string" where
  "instructions_for (LoopNode a k) = instructions_attr a"
| "instructions_for a = instructions_attr a"

text \<open>\<open>text.strip()[:280] or None\<close>.\<close>

definition short_text :: "string \<Rightarrow> string option" where
  "short_text s = (let t = take 280 (strip s) in if t = '''' then None else Some t)"

fun edge_kind :: "atree \<Rightarrow> string" where
  "edge_kind (SeqNode n i as) = ''next-step''"
| "edge_kind (LoopNode a k) = ''iterates''"
| "edge_kind (RouterNode i rs) = ''branch''"
| "edge_kind (HandoffNode ms) = ''branch''"
| "edge_kind (KeywordNode bs d) = ''branch''"
| "edge_kind (ParNode i as) = ''branch''"
| "edge_kind a = ''delegates-to''"

fun agent_tools :: "atree \<Rightarrow> tool_decl list" where
  "agent_tools (LlmNode l) = ll_tools l"
| "agent_tools a = []"

fun agent_urls :: "atree \<Rightarrow> string list" where
  "agent_urls (LlmNode l) = ll_urls l"
| "agent_urls a = []"

definition tool_type :: "tool_decl \<Rightarrow> string" where
  "tool_type f = (case td_specs f of [(k, i)] \<Rightarrow> (case dget resource_types k of None \<Rightarrow> ''Tool'' | Some (ty, p) \<Rightarrow> ty) | _ \<Rightarrow> ''Tool'')"

definition add_resource :: "string \<Rightarrow> string \<times> string \<Rightarrow> topo \<Rightarrow> topo" where
  "add_resource tool spec t =
     (case spec of (kind, i) \<Rightarrow>
       (case dget resource_types kind of
          None \<Rightarrow> t
        | Some (ty, prefix) \<Rightarrow>
            add_edge tool (prefix @ '':'' @ i) ''delegates-to''
              (add_node \<lparr>tn_id = prefix @ '':'' @ i, tn_type = ty, tn_label = i, tn_description = Some (kind @ '': '' @ i)\<rparr> t)))"

definition tool_id :: "string \<Rightarrow> string \<Rightarrow> string" where
  "tool_id agent name = ''tool:'' @ agent @ '':'' @ name"

text \<open>A tool made of a declared peer is not drawn: the peer is.\<close>

definition add_tool :: "string \<Rightarrow> tool_decl \<Rightarrow> topo \<Rightarrow> topo" where
  "add_tool agent f t =
     (if given (td_peer f) '''' \<noteq> '''' then t
      else (let i = tool_id agent (td_name f) in
            fold (add_resource i) (td_specs f)
              (add_edge agent i ''uses-tool''
                (add_node \<lparr>tn_id = i, tn_type = tool_type f, tn_label = td_name f, tn_description = short_text (given (td_doc f) '''')\<rparr> t))))"

text \<open>The arrow of a description is kept in UTF-8.\<close>

definition arrow :: string where
  "arrow = [CHR '' '', CHR 0xE2, CHR 0x86, CHR 0x92, CHR '' '']"

definition peer_description :: "(string \<Rightarrow> string option) \<Rightarrow> string \<Rightarrow> string" where
  "peer_description env url =
     (let resolved = (if starts_with ''$'' url then given (env (strip_braces (tl url))) url else url) in
      ''Remote sub-agent ('' @ url @ (if resolved \<noteq> url then arrow @ resolved else '''') @ '')'')"

definition add_peer :: "(string \<Rightarrow> string option) \<Rightarrow> string \<Rightarrow> string \<Rightarrow> topo \<Rightarrow> topo" where
  "add_peer env agent url t =
     add_edge agent (''endpoint:'' @ url) ''delegates-to''
       (add_node \<lparr>tn_id = ''endpoint:'' @ url, tn_type = ''SubAgent'', tn_label = fst (classify_sub_agent url),
          tn_description = Some (peer_description env url)\<rparr> t)"

definition child_id :: "string \<Rightarrow> string \<Rightarrow> string" where
  "child_id agent name = agent @ ''.'' @ name"

definition show_agent :: "(string \<Rightarrow> string option) \<Rightarrow> atree \<Rightarrow> string \<Rightarrow> string \<Rightarrow> topo \<Rightarrow> topo" where
  "show_agent env a i label t =
     fold (add_peer env i) (agent_urls a)
       (fold (add_tool i) (agent_tools a)
         (add_node \<lparr>tn_id = i, tn_type = agent_type a, tn_label = label, tn_description = short_text (instructions_for a)\<rparr> t))"

function walk_agent :: "(string \<Rightarrow> string option) \<Rightarrow> atree \<Rightarrow> string \<Rightarrow> string \<Rightarrow> topo \<Rightarrow> topo" where
  "walk_agent env a i label t =
     fold (\<lambda>(n, c) t. add_edge i (child_id i n) (edge_kind a) (walk_agent env c (child_id i n) (agent_label c n) t))
       (iter_child_agents a) (show_agent env a i label t)"
  by pat_completeness auto
termination by (relation "measure (\<lambda>(env, a, i, label, t). size a)") (auto dest: child_smaller)

declare walk_agent.simps [simp del]

record agent_context =
  ac_agent :: atree
  ac_config :: "(string \<times> string option) option"
  ac_tools :: "string list"

definition context_name :: "agent_context \<Rightarrow> string" where
  "context_name ctx = (case ac_config ctx of None \<Rightarrow> ''agent'' | Some (n, m) \<Rightarrow> n)"

definition root_id :: string where
  "root_id = ''agent:root''"

definition flow_tool :: string where
  "flow_tool = ''get_agent_flow_graph''"

definition add_flow_tool :: "agent_context \<Rightarrow> topo \<Rightarrow> topo" where
  "add_flow_tool ctx t =
     (if flow_tool \<in> set (ac_tools ctx) then
        add_edge root_id (tool_id root_id flow_tool) ''uses-tool''
          (add_node \<lparr>tn_id = tool_id root_id flow_tool, tn_type = ''Tool'', tn_label = flow_tool,
             tn_description = Some ''Return the live apx-agent flow graph for protocol and MCP callers.''\<rparr> t)
      else t)"

definition add_model :: "agent_context \<Rightarrow> topo \<Rightarrow> topo" where
  "add_model ctx t =
     (case ac_config ctx of
        Some (n, Some m) \<Rightarrow>
          if m = '''' then t
          else add_edge root_id (''endpoint:'' @ m) ''calls-model''
                 (add_node \<lparr>tn_id = ''endpoint:'' @ m, tn_type = ''ServingEndpoint'', tn_label = m,
                    tn_description = Some (''LLM serving endpoint: '' @ m)\<rparr> t)
      | _ \<Rightarrow> t)"

definition build_topology :: "(string \<Rightarrow> string option) \<Rightarrow> agent_context \<Rightarrow> topo" where
  "build_topology env ctx =
     add_model ctx (add_flow_tool ctx (walk_agent env (ac_agent ctx) root_id (context_name ctx) \<lparr>tp_nodes = [], tp_edges = []\<rparr>))"

subsection \<open>Inspecting a node\<close>

text \<open>The stack of the code pops the last child first.\<close>

function walk_all_agents :: "atree \<Rightarrow> string \<Rightarrow> (atree \<times> string) list" where
  "walk_all_agents a i = (a, i) # concat (map (\<lambda>(n, c). walk_all_agents c (child_id i n)) (rev (iter_child_agents a)))"
  by pat_completeness auto
termination by (relation "measure (\<lambda>(a, i). size a)") (auto dest: child_smaller)

declare walk_all_agents.simps [simp del]

text \<open>\<open>dict(pairs)[part]\<close>: the last pair of a name counts.\<close>

fun resolve_path :: "string list \<Rightarrow> atree \<Rightarrow> string \<Rightarrow> (atree \<times> string) option" where
  "resolve_path [] a label = Some (a, label)"
| "resolve_path (p # ps) a label =
     (case dget (rev (iter_child_agents a)) p of None \<Rightarrow> None | Some c \<Rightarrow> resolve_path ps c p)"

definition resolve_agent :: "agent_context \<Rightarrow> string \<Rightarrow> (atree \<times> string) option" where
  "resolve_agent ctx i =
     (if i = root_id then Some (ac_agent ctx, context_name ctx)
      else if \<not> starts_with ''agent:root.'' i then None
      else resolve_path (split_on (\<lambda>c. c = CHR ''.'') (drop (length ''agent:root.'') i)) (ac_agent ctx) (context_name ctx))"

datatype details =
    AgentDetails string "string option" "string option" nat nat "int option"
  | ToolDetails string "string option"
  | PeerDetails string string
  | ResourceDetails string string "string option"

record inspection =
  ip_id :: string
  ip_type :: string
  ip_label :: string
  ip_description :: "string option"
  ip_details :: details
  ip_editable :: bool

fun editable :: "atree \<Rightarrow> bool" where
  "editable (LlmNode l) = True"
| "editable a = False"

fun max_iterations :: "atree \<Rightarrow> int option" where
  "max_iterations (LoopNode a n) = Some n"
| "max_iterations a = None"

definition inspect_agent :: "agent_context \<Rightarrow> string \<Rightarrow> inspection option" where
  "inspect_agent ctx i =
     map_option (\<lambda>(a, label).
       \<lparr>ip_id = i, ip_type = agent_type a, ip_label = label, ip_description = short_text (instructions_for a),
        ip_details = AgentDetails (class_name a)
          (if instructions_for a = '''' then None else Some (take 4096 (instructions_for a)))
          (if i = root_id then Option.bind (ac_config ctx) snd else None)
          (length (agent_tools a)) (length (iter_child_agents a) + length (agent_urls a)) (max_iterations a),
        ip_editable = editable a\<rparr>)
       (resolve_agent ctx i)"

text \<open>\<open>s.rpartition(":")\<close> of a text with a colon.\<close>

definition last_colon :: "string \<Rightarrow> string \<times> string" where
  "last_colon s = (let name = rev (takeWhile (\<lambda>c. c \<noteq> CHR '':'') (rev s)) in (take (length s - length name - 1) s, name))"

definition inspect_tool :: "agent_context \<Rightarrow> string \<Rightarrow> inspection option" where
  "inspect_tool ctx i =
     (let rest = drop (length ''tool:'') i in
      if CHR '':'' \<notin> set rest then None
      else (case last_colon rest of (owner, name) \<Rightarrow>
             (case resolve_agent ctx owner of
                None \<Rightarrow> None
              | Some (a, l) \<Rightarrow>
                  map_option (\<lambda>f. \<lparr>ip_id = i, ip_type = tool_type f, ip_label = name, ip_description = short_text (given (td_doc f) ''''),
                                   ip_details = ToolDetails name
                                     (let t = strip (given (td_doc f) '''') in if t = '''' then None else Some t),
                                   ip_editable = False\<rparr>)
                    (find (\<lambda>f. td_name f = name) (agent_tools a)))))"

definition prefix_kinds :: "(string \<times> string \<times> string) list" where
  "prefix_kinds =
     [(''uc'', (''uc_function'', ''UCFunction'')), (''genie'', (''genie_space'', ''GenieSpace'')), (''vs'', (''vector_search_index'', ''VectorIndex'')),
      (''endpoint'', (''serving_endpoint'', ''ServingEndpoint'')), (''warehouse'', (''sql_warehouse'', ''WarehouseSQL''))]"

definition detail_kinds :: "(string \<times> string) list" where
  "detail_kinds =
     [(''uc_function'', ''uc_function''), (''genie_space'', ''genie_space''), (''vector_search_index'', ''vector_index''),
      (''serving_endpoint'', ''serving_endpoint''), (''sql_warehouse'', ''sql_warehouse''), (''uc_table'', ''uc_function''),
      (''uc_connection'', ''uc_function''), (''lakebase_instance'', ''serving_endpoint'')]"

definition resource_url_for :: "string \<Rightarrow> string \<Rightarrow> string option \<Rightarrow> string option" where
  "resource_url_for kind i host = (if given host '''' = '''' then None else managed_mcp_url_for_resource kind i (given host ''''))"

definition inspect_resource :: "(string \<Rightarrow> string option) \<Rightarrow> agent_context \<Rightarrow> string \<Rightarrow> inspection option" where
  "inspect_resource env ctx i =
     (let prefix = takeWhile (\<lambda>c. c \<noteq> CHR '':'') i; name = drop (Suc (length prefix)) i in
      if name = '''' then None
      else (case dget prefix_kinds prefix of
              None \<Rightarrow> None
            | Some (kind, ty) \<Rightarrow>
                if prefix = ''endpoint'' \<and> list_ex (\<lambda>(a, j). name \<in> set (agent_urls a)) (walk_all_agents (ac_agent ctx) root_id)
                then Some \<lparr>ip_id = i, ip_type = ''SubAgent'', ip_label = fst (classify_sub_agent name),
                           ip_description = Some (''Remote sub-agent ('' @ name @ '')''),
                           ip_details = PeerDetails name (fst (classify_sub_agent name)), ip_editable = False\<rparr>
                else Some \<lparr>ip_id = i, ip_type = ty, ip_label = name, ip_description = Some (kind @ '': '' @ name),
                           ip_details = ResourceDetails (case dget detail_kinds kind of None \<Rightarrow> kind | Some k \<Rightarrow> k) name
                                          (resource_url_for kind name (env ''DATABRICKS_HOST'')),
                           ip_editable = False\<rparr>))"

definition inspect_node :: "(string \<Rightarrow> string option) \<Rightarrow> agent_context \<Rightarrow> string \<Rightarrow> inspection option" where
  "inspect_node env ctx i =
     (if i = '''' then None
      else if i = root_id \<or> starts_with ''agent:root.'' i then inspect_agent ctx i
      else if starts_with ''tool:'' i then inspect_tool ctx i
      else inspect_resource env ctx i)"

subsection \<open>The digest\<close>

record digest_node =
  dn_id :: string
  dn_outgoing :: nat
  dn_tools :: nat
  dn_delegates :: nat

record digest =
  dg_nodes :: "digest_node list"
  dg_edges :: "(string \<times> string \<times> string) list"
  dg_node_count :: nat
  dg_edge_count :: nat
  dg_predicates :: "string list"

definition outgoing :: "topo \<Rightarrow> string \<Rightarrow> topo_edge list" where
  "outgoing t i = filter (\<lambda>e. te_source e = i) (tp_edges t)"

definition node_summary :: "topo \<Rightarrow> topo_node \<Rightarrow> digest_node" where
  "node_summary t n =
     (let out = outgoing t (tn_id n) in
      \<lparr>dn_id = tn_id n, dn_outgoing = length out, dn_tools = length (filter (\<lambda>e. te_kind e = ''uses-tool'') out),
       dn_delegates = length (filter (\<lambda>e. te_kind e \<in> {''branch'', ''delegates-to''}) out)\<rparr>)"

definition summarize_topology :: "topo \<Rightarrow> digest" where
  "summarize_topology t =
     \<lparr>dg_nodes = map (node_summary t) (tp_nodes t), dg_edges = map (\<lambda>e. (te_source e, te_kind e, te_target e)) (tp_edges t),
      dg_node_count = length (tp_nodes t), dg_edge_count = length (tp_edges t),
      dg_predicates = sorted_set (filter (\<lambda>k. k \<noteq> '''') (map te_kind (tp_edges t)))\<rparr>"

subsection \<open>The route of a run\<close>

record span =
  sp_name :: "string option"
  sp_type :: "string option"

definition candidate_names :: "topo \<Rightarrow> span list \<Rightarrow> string list" where
  "candidate_names t spans =
     concat (map (\<lambda>s. let name = strip (given (sp_name s) '''') in
                       if name \<noteq> '''' \<and> (upper (given (sp_type s) '''') = ''TOOL'' \<or> name \<in> tn_label ` set (tp_nodes t)) then [name] else [])
               spans)"

definition hit :: "string \<Rightarrow> topo_node \<Rightarrow> bool" where
  "hit name n \<longleftrightarrow> tn_label n = name \<or> ends_with ('':'' @ name) (tn_id n)"

text \<open>The ancestors of a frontier that are not yet known, round by round.\<close>

definition new_parents :: "topo_edge list \<Rightarrow> string list \<Rightarrow> string list \<Rightarrow> string list" where
  "new_parents es frontier known =
     remdups (map te_source (filter (\<lambda>e. te_target e \<in> set frontier \<and> te_source e \<notin> set known) es))"

lemma climb_shrinks:
  assumes "new_parents es frontier known \<noteq> []"
  shows "card (te_source ` set es - set (known @ new_parents es frontier known)) < card (te_source ` set es - set known)"
proof (rule psubset_card_mono)
  obtain x where "x \<in> set (new_parents es frontier known)" using assms by (cases "new_parents es frontier known") auto
  then show "te_source ` set es - set (known @ new_parents es frontier known) \<subset> te_source ` set es - set known"
    by (auto simp: new_parents_def)
qed simp

function climb :: "topo_edge list \<Rightarrow> string list \<Rightarrow> string list \<Rightarrow> string list" where
  "climb es frontier known =
     (let next_ids = new_parents es frontier known in if next_ids = [] then known else climb es next_ids (known @ next_ids))"
  by pat_completeness auto

termination
  by (relation "measure (\<lambda>(es, frontier, known). card (te_source ` set es - set known))") (auto simp: climb_shrinks simp del: set_append)

declare climb.simps [simp del]

record route =
  rt_nodes :: "string list"
  rt_edges :: "string list"
  rt_names :: "string list"

definition route_highlight :: "topo \<Rightarrow> string \<Rightarrow> span list \<Rightarrow> route" where
  "route_highlight t start spans =
     (let names = candidate_names t spans;
          hits = remdups (concat (map (\<lambda>name. map tn_id (filter (hit name) (tp_nodes t))) names)) in
      if hits = [] then \<lparr>rt_nodes = [], rt_edges = [], rt_names = []\<rparr>
      else (let lit0 = climb (tp_edges t) hits hits; lit = (if start \<in> set (topo_ids t) then start # lit0 else lit0) in
            \<lparr>rt_nodes = sorted_set lit,
             rt_edges = map te_id (filter (\<lambda>e. te_source e \<in> set lit \<and> te_target e \<in> set lit) (tp_edges t)),
             rt_names = rev (remdups (rev (filter (\<lambda>name. list_ex (hit name) (tp_nodes t)) names)))\<rparr>))"

subsection \<open>The topology is a graph\<close>

definition graph_ok :: "topo \<Rightarrow> bool" where
  "graph_ok t \<longleftrightarrow>
     distinct (topo_ids t) \<and> distinct (map te_id (tp_edges t))
     \<and> list_all (\<lambda>e. te_source e \<in> set (topo_ids t) \<and> te_target e \<in> set (topo_ids t)) (tp_edges t)"

text \<open>A step that keeps the graph and only adds nodes behind those there are.\<close>

definition sound :: "topo \<Rightarrow> topo \<Rightarrow> bool" where
  "sound t t' \<longleftrightarrow> graph_ok t' \<and> (\<exists>ns. tp_nodes t' = tp_nodes t @ ns)"

lemma sound_refl: "graph_ok t \<Longrightarrow> sound t t"
  by (simp add: sound_def)

lemma sound_trans [trans]: "sound t t' \<Longrightarrow> sound t' t'' \<Longrightarrow> sound t t''"
  by (auto simp: sound_def)

lemma sound_ok: "sound t t' \<Longrightarrow> graph_ok t'"
  by (simp add: sound_def)

lemma sound_ids: "sound t t' \<Longrightarrow> i \<in> set (topo_ids t) \<Longrightarrow> i \<in> set (topo_ids t')"
  by (auto simp: sound_def topo_ids_def)

lemma add_node_sound: "graph_ok t \<Longrightarrow> sound t (add_node n t)"
  by (auto simp: sound_def graph_ok_def add_node_def topo_ids_def list_all_iff)

lemma add_node_id: "tn_id n \<in> set (topo_ids (add_node n t))"
  by (simp add: add_node_def topo_ids_def)

lemma add_edge_sound: "graph_ok t \<Longrightarrow> s \<in> set (topo_ids t) \<Longrightarrow> d \<in> set (topo_ids t) \<Longrightarrow> sound t (add_edge s d k t)"
  by (auto simp: sound_def graph_ok_def add_edge_def topo_ids_def list_all_iff Let_def)

lemma linked_node_sound:
  assumes "graph_ok t" and "s \<in> set (topo_ids t)"
  shows "sound t (add_edge s (tn_id n) k (add_node n t))" and "tn_id n \<in> set (topo_ids (add_edge s (tn_id n) k (add_node n t)))"
proof -
  have "sound (add_node n t) (add_edge s (tn_id n) k (add_node n t))"
    using add_node_sound [OF assms(1)] assms(2) add_node_id by (blast intro: add_edge_sound sound_ok sound_ids)
  with add_node_sound [OF assms(1)] add_node_id
  show "sound t (add_edge s (tn_id n) k (add_node n t))" "tn_id n \<in> set (topo_ids (add_edge s (tn_id n) k (add_node n t)))"
    by (blast intro: sound_trans sound_ids)+
qed

lemma linked_record:
  "graph_ok t \<Longrightarrow> s \<in> set (topo_ids t) \<Longrightarrow>
     sound t (add_edge s i k (add_node \<lparr>tn_id = i, tn_type = ty, tn_label = l, tn_description = d\<rparr> t))"
  using linked_node_sound(1) [of t s "\<lparr>tn_id = i, tn_type = ty, tn_label = l, tn_description = d\<rparr>" k] by simp

text \<open>A fold of steps, each of which leaves an id of its own.\<close>

lemma fold_sound:
  assumes "\<And>x t. x \<in> set xs \<Longrightarrow> graph_ok t \<Longrightarrow> i \<in> set (topo_ids t) \<Longrightarrow> sound t (f x t) \<and> own x \<subseteq> set (topo_ids (f x t))"
    and "graph_ok t" and "i \<in> set (topo_ids t)"
  shows "sound t (fold f xs t) \<and> (\<Union>x \<in> set xs. own x) \<subseteq> set (topo_ids (fold f xs t))"
  using assms
proof (induction xs arbitrary: t)
  case (Cons x xs)
  from Cons.prems have x: "sound t (f x t)" "own x \<subseteq> set (topo_ids (f x t))" by simp_all
  with Cons.prems have "sound (f x t) (fold f xs (f x t)) \<and> (\<Union>x \<in> set xs. own x) \<subseteq> set (topo_ids (fold f xs (f x t)))"
    by (intro Cons.IH) (auto intro: sound_ok sound_ids)
  with x show ?case by (auto intro: sound_trans dest: sound_ids)
qed (simp add: sound_refl)

lemma add_resource_sound: "graph_ok t \<Longrightarrow> i \<in> set (topo_ids t) \<Longrightarrow> sound t (add_resource i s t)"
  using linked_record [of t i] by (auto simp: add_resource_def sound_refl split: prod.splits option.splits)

definition shown_tools :: "atree \<Rightarrow> tool_decl list" where
  "shown_tools a = filter (\<lambda>f. given (td_peer f) '''' = '''') (agent_tools a)"

lemma add_tool_sound:
  assumes "graph_ok t" and "i \<in> set (topo_ids t)"
  shows "sound t (add_tool i f t) \<and> (if given (td_peer f) '''' = '''' then {tool_id i (td_name f)} else {}) \<subseteq> set (topo_ids (add_tool i f t))"
proof (cases "given (td_peer f) '''' = ''''")
  case True
  let ?n = "\<lparr>tn_id = tool_id i (td_name f), tn_type = tool_type f, tn_label = td_name f, tn_description = short_text (given (td_doc f) '''')\<rparr>"
  let ?t = "add_edge i (tn_id ?n) ''uses-tool'' (add_node ?n t)"
  from linked_node_sound [OF assms, of ?n] have t: "sound t ?t" "tn_id ?n \<in> set (topo_ids ?t)" by blast+
  with fold_sound [of "td_specs f" "tn_id ?n" "add_resource (tn_id ?n)" "\<lambda>s. {}" ?t] add_resource_sound sound_ok
  have "sound ?t (fold (add_resource (tn_id ?n)) (td_specs f) ?t)" by blast
  with t have "sound t (fold (add_resource (tn_id ?n)) (td_specs f) ?t)" "tn_id ?n \<in> set (topo_ids (fold (add_resource (tn_id ?n)) (td_specs f) ?t))"
    by (blast intro: sound_trans sound_ids)+
  with True show ?thesis by (simp add: add_tool_def Let_def)
next
  case False
  with assms show ?thesis by (simp add: add_tool_def sound_refl)
qed

lemma add_peer_sound: "graph_ok t \<Longrightarrow> i \<in> set (topo_ids t) \<Longrightarrow> sound t (add_peer env i u t) \<and> {''endpoint:'' @ u} \<subseteq> set (topo_ids (add_peer env i u t))"
  using linked_node_sound [of t i "\<lparr>tn_id = ''endpoint:'' @ u, tn_type = ''SubAgent'', tn_label = fst (classify_sub_agent u),
      tn_description = Some (peer_description env u)\<rparr>" "''delegates-to''"]
  by (simp add: add_peer_def)

text \<open>The ids an agent itself contributes.\<close>

definition agent_ids :: "atree \<Rightarrow> string \<Rightarrow> string set" where
  "agent_ids a i = {i} \<union> (\<lambda>f. tool_id i (td_name f)) ` set (shown_tools a) \<union> (\<lambda>u. ''endpoint:'' @ u) ` set (agent_urls a)"

definition own_node :: "atree \<Rightarrow> string \<Rightarrow> string \<Rightarrow> topo_node" where
  "own_node a i label = \<lparr>tn_id = i, tn_type = agent_type a, tn_label = label, tn_description = short_text (instructions_for a)\<rparr>"

lemma show_agent_sound:
  assumes "graph_ok t"
  shows "sound t (show_agent env a i label t) \<and> agent_ids a i \<subseteq> set (topo_ids (show_agent env a i label t))
    \<and> sound (add_node (own_node a i label) t) (show_agent env a i label t)"
proof -
  let ?n = "own_node a i label"
  let ?t1 = "add_node ?n t" and ?t2 = "fold (add_tool i) (agent_tools a) (add_node ?n t)"
  from add_node_sound [OF assms] add_node_id [of ?n] have t1: "sound t ?t1" "i \<in> set (topo_ids ?t1)" by (simp_all add: own_node_def)
  from fold_sound [of "agent_tools a" i "add_tool i" _ ?t1, OF add_tool_sound sound_ok [OF t1(1)] t1(2)]
  have t2: "sound ?t1 ?t2"
    "(\<Union>f \<in> set (agent_tools a). if given (td_peer f) '''' = '''' then {tool_id i (td_name f)} else {}) \<subseteq> set (topo_ids ?t2)" by blast+
  from sound_ids [OF t2(1) t1(2)] have i2: "i \<in> set (topo_ids ?t2)" .
  from fold_sound [of "agent_urls a" i "add_peer env i" _ ?t2, OF add_peer_sound sound_ok [OF t2(1)] i2]
  have t3: "sound ?t2 (show_agent env a i label t)"
    "(\<Union>u \<in> set (agent_urls a). {''endpoint:'' @ u}) \<subseteq> set (topo_ids (show_agent env a i label t))" by (simp_all add: show_agent_def own_node_def)
  have "(\<lambda>f. tool_id i (td_name f)) ` set (shown_tools a) \<subseteq> set (topo_ids ?t2)"
    using t2(2) by (fastforce simp: shown_tools_def split: if_splits)
  with t3 i2 sound_ids [OF t3(1)] show ?thesis
    using sound_trans [OF sound_trans [OF t1(1) t2(1)] t3(1)] sound_trans [OF t2(1) t3(1)] by (auto simp: agent_ids_def)
qed

lemma walk_all_step: "set (walk_all_agents a i) = insert (a, i) (\<Union>(n, c) \<in> set (iter_child_agents a). set (walk_all_agents c (child_id i n)))"
  by (subst walk_all_agents.simps) auto

definition tree_ids :: "atree \<Rightarrow> string \<Rightarrow> string set" where
  "tree_ids a i = (\<Union>(b, j) \<in> set (walk_all_agents a i). agent_ids b j)"

lemma tree_ids_step: "tree_ids a i = agent_ids a i \<union> (\<Union>(n, c) \<in> set (iter_child_agents a). tree_ids c (child_id i n))"
  unfolding tree_ids_def by (subst walk_all_step) auto

lemma tree_ids_self: "i \<in> tree_ids a i"
  by (subst tree_ids_step) (simp add: agent_ids_def)

lemma walk_agent_sound:
  "graph_ok t \<Longrightarrow> sound t (walk_agent env a i label t) \<and> tree_ids a i \<subseteq> set (topo_ids (walk_agent env a i label t))
     \<and> sound (show_agent env a i label t) (walk_agent env a i label t)"
proof (induction a arbitrary: i label t rule: measure_induct_rule [of size])
  case (less a)
  let ?f = "\<lambda>(n, c) t. add_edge i (child_id i n) (edge_kind a) (walk_agent env c (child_id i n) (agent_label c n) t)"
  let ?own = "\<lambda>(n, c). tree_ids c (child_id i n)" and ?s = "show_agent env a i label t"
  from show_agent_sound [OF less.prems] have s: "sound t ?s" "agent_ids a i \<subseteq> set (topo_ids ?s)" by blast+
  then have i: "i \<in> set (topo_ids ?s)" by (auto simp: agent_ids_def)
  have "sound u (?f x u) \<and> ?own x \<subseteq> set (topo_ids (?f x u))"
    if x: "x \<in> set (iter_child_agents a)" and u: "graph_ok u" "i \<in> set (topo_ids u)" for x u
  proof -
    obtain n c where nc: "x = (n, c)" by fastforce
    let ?w = "walk_agent env c (child_id i n) (agent_label c n) u"
    from less.IH [OF child_smaller u(1)] x nc have w: "sound u ?w" "tree_ids c (child_id i n) \<subseteq> set (topo_ids ?w)" by blast+
    with tree_ids_self have "sound ?w (add_edge i (child_id i n) (edge_kind a) ?w)"
      using u(2) by (blast intro: add_edge_sound sound_ok sound_ids)
    with w show ?thesis unfolding nc by (auto intro: sound_trans dest: sound_ids)
  qed
  from fold_sound [of "iter_child_agents a" i ?f ?own ?s, OF this sound_ok [OF s(1)] i]
  have f: "sound ?s (fold ?f (iter_child_agents a) ?s)" "(\<Union>x \<in> set (iter_child_agents a). ?own x) \<subseteq> set (topo_ids (fold ?f (iter_child_agents a) ?s))"
    by blast+
  have w: "walk_agent env a i label t = fold ?f (iter_child_agents a) ?s" by (rule walk_agent.simps)
  have "agent_ids a i \<subseteq> set (topo_ids (walk_agent env a i label t))" unfolding w using s(2) sound_ids [OF f(1)] by blast
  with f(2) have "tree_ids a i \<subseteq> set (topo_ids (walk_agent env a i label t))" unfolding w by (subst tree_ids_step) blast
  with sound_trans [OF s(1) f(1)] f(1) show ?case unfolding w by blast
qed

lemma built_sound:
  "sound (walk_agent env (ac_agent ctx) root_id (context_name ctx) \<lparr>tp_nodes = [], tp_edges = []\<rparr>) (build_topology env ctx)"
proof -
  let ?w = "walk_agent env (ac_agent ctx) root_id (context_name ctx) \<lparr>tp_nodes = [], tp_edges = []\<rparr>"
  have e: "graph_ok \<lparr>tp_nodes = [], tp_edges = []\<rparr>" by (simp add: graph_ok_def topo_ids_def)
  from walk_agent_sound [OF e] tree_ids_self have w: "graph_ok ?w" "root_id \<in> set (topo_ids ?w)" using sound_ok by blast+
  have f: "sound ?w (add_flow_tool ctx ?w)"
    using linked_record [OF w] by (auto simp: add_flow_tool_def intro: sound_refl w(1))
  have "sound (add_flow_tool ctx ?w) (build_topology env ctx)"
    using linked_record [OF sound_ok [OF f] sound_ids [OF f w(2)]]
    by (auto simp: build_topology_def add_model_def intro: sound_refl sound_ok [OF f] split: option.splits)
  with f show ?thesis by (rule sound_trans)
qed

lemmas built_graph_ok = sound_ok [OF built_sound]

text \<open>
  C36: the topology of an agent is a graph.  No two nodes and no two edges share an id, every edge joins nodes of the graph, the root is
  its first node, and every agent of the tree has a node, as have its tools and the peers it declares.\<close>

theorem topology_is_a_graph:
  "distinct (topo_ids (build_topology env ctx)) \<and> distinct (map te_id (tp_edges (build_topology env ctx)))
   \<and> list_all (\<lambda>e. te_source e \<in> set (topo_ids (build_topology env ctx)) \<and> te_target e \<in> set (topo_ids (build_topology env ctx)))
       (tp_edges (build_topology env ctx))
   \<and> tn_id (hd (tp_nodes (build_topology env ctx))) = root_id
   \<and> tree_ids (ac_agent ctx) root_id \<subseteq> set (topo_ids (build_topology env ctx))"
proof -
  let ?e = "\<lparr>tp_nodes = [], tp_edges = []\<rparr> :: topo" and ?a = "ac_agent ctx" and ?l = "context_name ctx"
  let ?w = "walk_agent env ?a root_id ?l ?e"
  have e: "graph_ok ?e" by (simp add: graph_ok_def topo_ids_def)
  from walk_agent_sound [OF e] have w: "sound ?e ?w" "tree_ids ?a root_id \<subseteq> set (topo_ids ?w)" by blast+
  have wm: "sound ?w (build_topology env ctx)" by (rule built_sound)
  have "sound (add_node (own_node ?a root_id ?l) ?e) ?w"
    using show_agent_sound [OF e] walk_agent_sound [OF e] by (blast intro: sound_trans)
  from sound_trans [OF this wm] have "tn_id (hd (tp_nodes (build_topology env ctx))) = root_id"
    by (auto simp: sound_def add_node_def own_node_def topo_ids_def)
  with sound_ok [OF wm] w(2) sound_ids [OF wm] show ?thesis by (auto simp: graph_ok_def)
qed

subsection \<open>What is shown can be inspected\<close>

text \<open>Equations that unfold only on a constructor, for evaluation.\<close>

lemma walk_all_code [code]:
  "walk_all_agents a i = (case a of RemoteNode \<Rightarrow> [(a, i)]
     | _ \<Rightarrow> (a, i) # concat (map (\<lambda>(n, c). walk_all_agents c (child_id i n)) (rev (iter_child_agents a))))"
  by (subst walk_all_agents.simps) (cases a; simp)

lemma walk_agent_code [code]:
  "walk_agent env a i label t = (case a of RemoteNode \<Rightarrow> show_agent env a i label t
     | _ \<Rightarrow> fold (\<lambda>(n, c) t. add_edge i (child_id i n) (edge_kind a) (walk_agent env c (child_id i n) (agent_label c n) t))
              (iter_child_agents a) (show_agent env a i label t))"
  by (subst walk_agent.simps) (cases a; simp)

function names_ok :: "atree \<Rightarrow> bool" where
  "names_ok a \<longleftrightarrow>
     distinct (map fst (iter_child_agents a)) \<and> list_all (\<lambda>(n, c). CHR ''.'' \<notin> set n \<and> names_ok c) (iter_child_agents a)"
  by pat_completeness auto
termination by (relation "measure size") (auto dest: child_smaller)

declare names_ok.simps [simp del]

lemma names_ok_code [code]:
  "names_ok a \<longleftrightarrow> (case a of RemoteNode \<Rightarrow> True
     | _ \<Rightarrow> distinct (map fst (iter_child_agents a)) \<and> list_all (\<lambda>(n, c). CHR ''.'' \<notin> set n \<and> names_ok c) (iter_child_agents a))"
  by (subst names_ok.simps) (cases a; simp)

definition path_id :: "string list \<Rightarrow> string" where
  "path_id ps = concat (map (\<lambda>p. ''.'' @ p) ps)"

lemma child_found: "distinct (map fst cs) \<Longrightarrow> (n, c) \<in> set cs \<Longrightarrow> dget (rev cs) n = Some c"
  by (intro map_of_is_SomeI) (auto simp: rev_map [symmetric])

lemma walk_all_paths:
  assumes "names_ok a" and "(b, j) \<in> set (walk_all_agents a i)"
  shows "\<exists>ps. j = i @ path_id ps \<and> list_all (\<lambda>p. CHR ''.'' \<notin> set p) ps
    \<and> (\<forall>label. resolve_path ps a label = Some (b, if ps = [] then label else last ps))"
  using assms
proof (induction a arbitrary: i rule: measure_induct_rule [of size])
  case (less a)
  show ?case
  proof (cases "(b, j) = (a, i)")
    case True
    then show ?thesis by (intro exI [of _ "[]"]) (simp add: path_id_def)
  next
    case False
    with less.prems(2) obtain n c where c: "(n, c) \<in> set (iter_child_agents a)" "(b, j) \<in> set (walk_all_agents c (child_id i n))"
      by (subst (asm) walk_all_step) auto
    from less.prems(1) c(1) have ok: "names_ok c" "CHR ''.'' \<notin> set n" "distinct (map fst (iter_child_agents a))"
      by (subst (asm) names_ok.simps; fastforce simp: list_all_iff)+
    from less.IH [OF child_smaller [OF c(1)] ok(1) c(2)] obtain ps where ps: "j = child_id i n @ path_id ps"
      "list_all (\<lambda>p. CHR ''.'' \<notin> set p) ps" "\<And>label. resolve_path ps c label = Some (b, if ps = [] then label else last ps)" by blast
    from ps(3) [of n] child_found [OF ok(3) c(1)]
    have "resolve_path (n # ps) a label = Some (b, if n # ps = [] then label else last (n # ps))" for label by simp
    with ps(1,2) ok(2) show ?thesis by (intro exI [of _ "n # ps"]) (simp add: path_id_def child_id_def)
  qed
qed

lemma split_on_plain: "\<not> (\<exists>c \<in> set s. p c) \<Longrightarrow> split_on p s = [s]"
  by (induction s) auto

lemma split_on_sep: "\<not> (\<exists>c \<in> set s. p c) \<Longrightarrow> p x \<Longrightarrow> split_on p (s @ x # r) = s # split_on p r"
  by (induction s) auto

lemma split_path: "list_all (\<lambda>p. CHR ''.'' \<notin> set p) (p # ps) \<Longrightarrow> split_on (\<lambda>c. c = CHR ''.'') (p @ path_id ps) = p # ps"
proof (induction ps arbitrary: p)
  case Nil
  then show ?case by (simp add: path_id_def split_on_plain)
next
  case (Cons q ps)
  have "split_on (\<lambda>c. c = CHR ''.'') (p @ CHR ''.'' # (q @ path_id ps)) = p # split_on (\<lambda>c. c = CHR ''.'') (q @ path_id ps)"
    using Cons.prems by (intro split_on_sep) auto
  with Cons show ?case by (simp add: path_id_def)
qed

lemma resolve_shown:
  assumes "names_ok (ac_agent ctx)" and "(b, j) \<in> set (walk_all_agents (ac_agent ctx) root_id)"
  shows "\<exists>label. resolve_agent ctx j = Some (b, label) \<and> (j = root_id \<or> starts_with ''agent:root.'' j)"
proof -
  from walk_all_paths [OF assms] obtain ps where ps: "j = root_id @ path_id ps" "list_all (\<lambda>p. CHR ''.'' \<notin> set p) ps"
    "\<And>label. resolve_path ps (ac_agent ctx) label = Some (b, if ps = [] then label else last ps)" by blast
  show ?thesis
  proof (cases ps)
    case Nil
    with ps(1) ps(3) [of "context_name ctx"] show ?thesis by (simp add: resolve_agent_def path_id_def)
  next
    case (Cons p qs)
    with ps(1) have j: "j = ''agent:root.'' @ (p @ path_id qs)" by (simp add: root_id_def path_id_def)
    then have "j \<noteq> root_id" "starts_with ''agent:root.'' j" "drop (length ''agent:root.'') j = p @ path_id qs"
      unfolding root_id_def j by (simp_all add: starts_with_def)
    with ps(2,3) Cons split_path [of p qs] show ?thesis by (simp add: resolve_agent_def)
  qed
qed

lemma last_colon_of: "CHR '':'' \<notin> set name \<Longrightarrow> last_colon (owner @ CHR '':'' # name) = (owner, name)"
proof -
  assume n: "CHR '':'' \<notin> set name"
  then have "takeWhile (\<lambda>c. c \<noteq> CHR '':'') (rev name @ CHR '':'' # rev owner) = rev name"
    by (subst takeWhile_append2) auto
  then show ?thesis by (simp add: last_colon_def Let_def)
qed

lemma find_named: "distinct (map td_name fs) \<Longrightarrow> f \<in> set fs \<Longrightarrow> find (\<lambda>g. td_name g = td_name f) fs = Some f"
  by (induction fs) (auto simp: rev_image_eqI)

text \<open>
  C30: what the topology shows can be inspected.  When no name of a child has a dot or is used twice below one parent, the id of every
  agent leads back to that agent, and with distinct tool names the id of each of its tools leads back to that tool.\<close>

theorem shown_nodes_can_be_inspected:
  assumes "names_ok (ac_agent ctx)" and "(b, j) \<in> set (walk_all_agents (ac_agent ctx) root_id)"
    and "distinct (map td_name (agent_tools b))" and "list_all (\<lambda>f. CHR '':'' \<notin> set (td_name f)) (agent_tools b)"
  shows "map_option (\<lambda>d. (ip_id d, ip_type d, ip_description d)) (inspect_node env ctx j) = Some (j, agent_type b, short_text (instructions_for b))
    \<and> list_all (\<lambda>f. map_option (\<lambda>d. (ip_id d, ip_type d, ip_label d)) (inspect_node env ctx (tool_id j (td_name f)))
         = Some (tool_id j (td_name f), tool_type f, td_name f)) (agent_tools b)"
proof -
  from resolve_shown [OF assms(1,2)] obtain label where r: "resolve_agent ctx j = Some (b, label)" "j = root_id \<or> starts_with ''agent:root.'' j"
    by blast
  from r(2) have "j \<noteq> ''''" by (auto simp: root_id_def starts_with_def)
  with r have "map_option (\<lambda>d. (ip_id d, ip_type d, ip_description d)) (inspect_node env ctx j) = Some (j, agent_type b, short_text (instructions_for b))"
    by (simp add: inspect_node_def inspect_agent_def)
  moreover have "map_option (\<lambda>d. (ip_id d, ip_type d, ip_label d)) (inspect_node env ctx (tool_id j (td_name f)))
      = Some (tool_id j (td_name f), tool_type f, td_name f)" if f: "f \<in> set (agent_tools b)" for f
  proof -
    have "inspect_node env ctx (tool_id j (td_name f)) = inspect_tool ctx (tool_id j (td_name f))"
      by (simp add: inspect_node_def tool_id_def root_id_def starts_with_def)
    moreover have "drop (length ''tool:'') (tool_id j (td_name f)) = j @ CHR '':'' # td_name f" by (simp add: tool_id_def)
    moreover have "last_colon (j @ CHR '':'' # td_name f) = (j, td_name f)" using assms(4) f by (intro last_colon_of) (auto simp: list_all_iff)
    ultimately show ?thesis using r(1) find_named [OF assms(3) f] by (simp add: inspect_tool_def Let_def)
  qed
  ultimately show ?thesis by (simp add: list_all_iff)
qed

definition desk_tree :: atree where
  "desk_tree = RouterNode '''' [(''billing'', SeqNode None ''Be brief.'' [LlmNode bare_llm, RemoteNode])]"

definition desk_context :: agent_context where
  "desk_context = \<lparr>ac_agent = desk_tree, ac_config = Some (''desk'', Some ''m''), ac_tools = []\<rparr>"

lemma shown_nodes_can_be_inspected_witness:
  "map_option ip_type (inspect_node (\<lambda>v. None) desk_context ''agent:root.billing.step0'') = Some ''LlmAgent''
   \<and> map_option ip_label (inspect_node (\<lambda>v. None) desk_context ''tool:agent:root.billing.step0:refund'') = Some ''refund''"
proof -
  have n: "names_ok (ac_agent desk_context)" by code_simp
  have w: "walk_all_agents (ac_agent desk_context) root_id
      = [(desk_tree, root_id), (SeqNode None ''Be brief.'' [LlmNode bare_llm, RemoteNode], ''agent:root.billing''),
         (RemoteNode, ''agent:root.billing.step1''), (LlmNode bare_llm, ''agent:root.billing.step0'')]" by code_simp
  have "(LlmNode bare_llm, ''agent:root.billing.step0'') \<in> set (walk_all_agents (ac_agent desk_context) root_id)"
    unfolding w list.set by (intro insertI1 insertI2)
  from shown_nodes_can_be_inspected [OF n this, of "\<lambda>v. None"]
  have "map_option (\<lambda>d. (ip_id d, ip_type d, ip_description d)) (inspect_node (\<lambda>v. None) desk_context ''agent:root.billing.step0'')
      = Some (''agent:root.billing.step0'', ''LlmAgent'', None)"
    "map_option (\<lambda>d. (ip_id d, ip_type d, ip_label d)) (inspect_node (\<lambda>v. None) desk_context ''tool:agent:root.billing.step0:refund'')
      = Some (''tool:agent:root.billing.step0:refund'', ''Tool'', ''refund'')"
    by (simp_all add: bare_llm_def agent_type_def known_classes_def short_text_def given_def strip_def strip_by_def tool_id_def tool_type_def)
  then show ?thesis by auto
qed

text \<open>A route whose name has a dot is shown, and asking for its node finds nothing.\<close>

lemma dotted_route_cannot_be_inspected:
  "let ctx = \<lparr>ac_agent = RouterNode '''' [(''v1.0'', RemoteNode)], ac_config = None, ac_tools = []\<rparr> in
   ''agent:root.v1.0'' \<in> set (topo_ids (build_topology (\<lambda>v. None) ctx)) \<and> inspect_node (\<lambda>v. None) ctx ''agent:root.v1.0'' = None"
  by code_simp

text \<open>A table is shown as a table, and inspected as a function.\<close>

lemma table_is_inspected_as_function:
  "let f = \<lparr>td_name = ''look'', td_doc = None, td_specs = [(''uc_table'', ''main.sales.orders'')], td_scopes = [], td_peer = None\<rparr>;
       ctx = \<lparr>ac_agent = LlmNode (bare_llm\<lparr>ll_tools := [f]\<rparr>), ac_config = None, ac_tools = []\<rparr> in
   map tn_description (filter (\<lambda>n. tn_id n = ''uc:main.sales.orders'') (tp_nodes (build_topology (\<lambda>v. None) ctx)))
     = [Some ''uc_table: main.sales.orders'']
   \<and> map_option ip_description (inspect_node (\<lambda>v. None) ctx ''uc:main.sales.orders'') = Some (Some ''uc_function: main.sales.orders'')"
  by code_simp

subsection \<open>The lit part of the graph\<close>

definition callers :: "topo_edge list \<Rightarrow> (string \<times> string) set" where
  "callers es = (\<lambda>e. (te_target e, te_source e)) ` set es"

lemma set_new_parents: "set (new_parents es frontier known) = callers es `` set frontier - set known"
  by (auto simp: new_parents_def callers_def Image_def)

lemma closed_Image: "r `` s \<subseteq> s \<Longrightarrow> r\<^sup>* `` s = s"
  by (simp add: Image_closed_trancl)

lemma Image_absorbs: "s \<subseteq> r\<^sup>* `` u \<Longrightarrow> r\<^sup>* `` (u \<union> s) = r\<^sup>* `` u"
  by (auto simp: Image_def intro: rtrancl_trans)

lemma set_climb:
  "set frontier \<subseteq> set known \<Longrightarrow> callers es `` (set known - set frontier) \<subseteq> set known \<Longrightarrow> set (climb es frontier known) = (callers es)\<^sup>* `` set known"
proof (induction es frontier known rule: climb.induct)
  case (1 es frontier known)
  let ?n = "new_parents es frontier known"
  have split: "callers es `` set known \<subseteq> set known \<union> set ?n"
    using "1.prems" by (fastforce simp: set_new_parents)
  show ?case
  proof (cases "?n = []")
    case True
    with split have "(callers es)\<^sup>* `` set known = set known" by (intro closed_Image) simp
    with True show ?thesis by (subst climb.simps) simp
  next
    case False
    have "callers es `` (set (known @ ?n) - set ?n) \<subseteq> set (known @ ?n)" using split by (auto simp: set_new_parents)
    with "1.IH" [OF refl False] have "set (climb es ?n (known @ ?n)) = (callers es)\<^sup>* `` (set known \<union> set ?n)" by simp
    also have "\<dots> = (callers es)\<^sup>* `` set known"
      using "1.prems"(1) by (intro Image_absorbs) (auto simp: set_new_parents)
    finally show ?thesis using False by (subst climb.simps) (simp add: Let_def)
  qed
qed

definition hit_ids :: "topo \<Rightarrow> span list \<Rightarrow> string set" where
  "hit_ids t spans = (\<Union>name \<in> set (candidate_names t spans). tn_id ` {n \<in> set (tp_nodes t). hit name n})"

text \<open>
  C40: the lit part of the graph is the way to what ran.  When a recorded span names a node, the lit nodes are, each once and sorted,
  exactly the named nodes, everything from which one of them is reached, and the root; the lit edges are exactly those between
  lit nodes; otherwise nothing is lit.\<close>

theorem lit_nodes_are_the_ancestry:
  "distinct (rt_nodes (route_highlight t start spans)) \<and> sorted (rt_nodes (route_highlight t start spans))
   \<and> set (rt_nodes (route_highlight t start spans))
     = (if hit_ids t spans = {} then {} else (callers (tp_edges t))\<^sup>* `` hit_ids t spans \<union> (set (topo_ids t) \<inter> {start}))
   \<and> rt_edges (route_highlight t start spans)
     = map te_id (filter (\<lambda>e. te_source e \<in> set (rt_nodes (route_highlight t start spans))
                            \<and> te_target e \<in> set (rt_nodes (route_highlight t start spans))) (tp_edges t))"
proof -
  define hits where "hits = remdups (concat (map (\<lambda>name. map tn_id (filter (hit name) (tp_nodes t))) (candidate_names t spans)))"
  have h: "set hits = hit_ids t spans" by (auto simp: hits_def hit_ids_def)
  show ?thesis
  proof (cases "hits = []")
    case True
    then have "route_highlight t start spans = \<lparr>rt_nodes = [], rt_edges = [], rt_names = []\<rparr>"
      unfolding route_highlight_def Let_def hits_def by (simp only: refl if_True)
    with True h show ?thesis by simp
  next
    case False
    define lit where "lit = (if start \<in> set (topo_ids t) then start # climb (tp_edges t) hits hits else climb (tp_edges t) hits hits)"
    have "set (climb (tp_edges t) hits hits) = (callers (tp_edges t))\<^sup>* `` set hits" by (rule set_climb) simp_all
    then have "set lit = (callers (tp_edges t))\<^sup>* `` hit_ids t spans \<union> (set (topo_ids t) \<inter> {start})" by (auto simp: lit_def h)
    moreover have "hit_ids t spans \<noteq> {}" using False h by auto
    moreover have "rt_nodes (route_highlight t start spans) = sorted_set lit"
      "rt_edges (route_highlight t start spans) = map te_id (filter (\<lambda>e. te_source e \<in> set lit \<and> te_target e \<in> set lit) (tp_edges t))"
      using False unfolding route_highlight_def Let_def hits_def lit_def by (simp_all only: if_False route.simps)
    ultimately show ?thesis by (simp add: sorted_set_def)
  qed
qed

lemma desk_route:
  "let t = build_topology (\<lambda>v. None) desk_context in
   rt_nodes (route_highlight t root_id [\<lparr>sp_name = Some '' refund'', sp_type = Some ''tool''\<rparr>])
     = [''agent:root'', ''agent:root.billing'', ''agent:root.billing.step0'', ''tool:agent:root.billing.step0:refund'']"
  by code_simp

text \<open>The digest counts every edge once.\<close>

lemma count_by_key: "finite I \<Longrightarrow> f ` set es \<subseteq> I \<Longrightarrow> (\<Sum>i \<in> I. length (filter (\<lambda>e. f e = i) es)) = length es"
proof (induction es)
  case (Cons a es)
  have "length (filter (\<lambda>e. f e = i) (a # es)) = (if f a = i then 1 else 0) + length (filter (\<lambda>e. f e = i) es)" for i by simp
  then have "(\<Sum>i \<in> I. length (filter (\<lambda>e. f e = i) (a # es))) = (\<Sum>i \<in> I. if f a = i then 1 else 0) + (\<Sum>i \<in> I. length (filter (\<lambda>e. f e = i) es))"
    by (simp only: sum.distrib)
  with Cons show ?case by simp
qed simp

lemma digest_counts_every_edge: "sum_list (map dn_outgoing (dg_nodes (summarize_topology (build_topology env ctx)))) = length (tp_edges (build_topology env ctx))"
proof -
  let ?t = "build_topology env ctx"
  have "distinct (topo_ids ?t)" "te_source ` set (tp_edges ?t) \<subseteq> set (topo_ids ?t)"
    using built_graph_ok [of env ctx] by (auto simp: graph_ok_def list_all_iff)
  then have "(\<Sum>i \<leftarrow> topo_ids ?t. length (filter (\<lambda>e. te_source e = i) (tp_edges ?t))) = length (tp_edges ?t)"
    by (simp add: sum_list_distinct_conv_sum_set count_by_key)
  then show ?thesis by (simp add: summarize_topology_def node_summary_def outgoing_def topo_ids_def o_def Let_def)
qed

subsection \<open>The live leaf of a name\<close>

lemma children_shrink: "sum_list (map (\<lambda>(n, c). Suc (size c)) (iter_child_agents a)) \<le> size a"
proof -
  have n: "sum_list (map (\<lambda>(n, c). Suc (size c)) cs) \<le> size_list (size_prod (\<lambda>x. 0) size) cs" for cs :: "(string \<times> atree) list"
    by (induction cs) auto
  have l: "sum_list (map (\<lambda>(n, c). Suc (size c)) (map (\<lambda>(k, a). (f k, a)) (enumerate m as))) \<le> size_list size as" for f m and as :: "atree list"
  proof -
    have "map (\<lambda>(n, c). Suc (size c)) (map (\<lambda>(k, a). (f k, a)) (enumerate m as))
        = map (\<lambda>c. Suc (size c)) (map snd (map (\<lambda>(k, a). (f k, a)) (enumerate m as)))" by auto
    moreover have "sum_list (map (\<lambda>c. Suc (size c)) as) \<le> size_list size as" by (induction as) auto
    ultimately show ?thesis by (simp only: named_values)
  qed
  show ?thesis
  proof (cases a)
    case (SeqNode x i as)
    then show ?thesis using l [of "\<lambda>k. ''step'' @ show_nat k" 0 as] by simp
  next
    case (ParNode i as)
    then show ?thesis using l [of "\<lambda>k. ''branch'' @ show_nat k" 0 as] by simp
  next
    case (KeywordNode bs d)
    then show ?thesis using n [of bs] by simp
  qed (use n in \<open>simp_all add: le_SucI\<close>)
qed

function live_leaf :: "string \<Rightarrow> (string option \<times> atree) list \<Rightarrow> atree option" where
  "live_leaf target [] = None"
| "live_leaf target ((name, a) # queue) =
     (if editable a \<and> (name = Some target \<or> target = ''agent'' \<and> name = None) then Some a
      else live_leaf target (queue @ map (\<lambda>(n, c). (Some n, c)) (iter_child_agents a)))"
  by pat_completeness auto
termination
proof (relation "measure (\<lambda>(target, queue). sum_list (map (\<lambda>(n, a). Suc (size a)) queue))")
  fix target :: string and name :: "string option" and a :: atree and queue
  have "map (\<lambda>(n, c). Suc (size c)) (map (\<lambda>(n, c). (Some n, c)) (iter_child_agents a)) = map (\<lambda>(n, c). Suc (size c)) (iter_child_agents a)"
    by auto
  then show "((target, queue @ map (\<lambda>(n, c). (Some n, c)) (iter_child_agents a)), target, (name, a) # queue)
      \<in> measure (\<lambda>(target, queue). sum_list (map (\<lambda>(n, a). Suc (size a)) queue))"
    using children_shrink [of a] by (simp del: map_map)
qed simp

definition resolve_live_leaf :: "atree \<Rightarrow> string \<Rightarrow> atree option" where
  "resolve_live_leaf start name =
     (let target = given (Some (strip (given (Some name) ''agent''))) ''agent'' in
      if editable start \<and> target = ''agent'' then Some start
      else (case live_leaf target [(None, start)] of
              Some a \<Rightarrow> Some a
            | None \<Rightarrow> if editable start then Some start else None))"

lemma live_leaf_editable: "live_leaf target queue = Some a \<Longrightarrow> editable a"
  by (induction target queue rule: live_leaf.induct) (auto split: if_splits)

text \<open>A single agent answers to every name, also to one that cannot be resolved.\<close>

lemma any_name_finds_a_single_agent: "resolve_live_leaf (LlmNode l) name = Some (LlmNode l)"
  by (auto simp: resolve_live_leaf_def Let_def)

subsection \<open>Diagrams of the published graph\<close>

record published_node =
  pn_name :: string
  pn_endpoint :: "string option"

record published_edge =
  pe_source :: string
  pe_target :: string
  pe_kind :: string

fun underscored :: "bool \<Rightarrow> string \<Rightarrow> string" where
  "underscored inside [] = []"
| "underscored inside (c # s) =
     (if name_part c then c # underscored False s else if inside then underscored True s else CHR ''_'' # underscored True s)"

definition safe_id :: "string \<Rightarrow> string" where
  "safe_id name = (let cleaned = strip_by (\<lambda>c. c = CHR ''_'') (underscored False name) in if cleaned = '''' then ''n'' else cleaned)"

definition dq :: string where
  "dq = [CHR 0x22]"

definition mermaid_node :: "published_node \<Rightarrow> string" where
  "mermaid_node n =
     ''  '' @ safe_id (pn_name n) @ ''['' @ dq @ pn_name n
     @ (if given (pn_endpoint n) '''' = '''' then '''' else ''<br/><small>'' @ given (pn_endpoint n) '''' @ ''</small>'') @ dq @ '']''"

fun mermaid_edges :: "string list \<Rightarrow> string list \<Rightarrow> published_edge list \<Rightarrow> string list" where
  "mermaid_edges names seen [] = []"
| "mermaid_edges names seen (e # es) =
     (let t = pe_target e; outside = t \<notin> set names \<and> t \<notin> set seen; shape = (if pe_kind e = ''endpoint'' then (''('', '')'') else (''['', '']'')) in
      (if outside then [''  '' @ safe_id t @ fst shape @ dq @ t @ dq @ snd shape] else [])
      @ [''  '' @ safe_id (pe_source e) @ '' --> '' @ safe_id t]
      @ mermaid_edges names (if outside then t # seen else seen) es)"

definition render_mermaid :: "published_node list \<Rightarrow> published_edge list \<Rightarrow> string" where
  "render_mermaid ns es = join [CHR 0x0A] ([''graph LR''] @ map mermaid_node ns @ mermaid_edges (map pn_name ns) [] es)"

definition graphviz_node :: "published_node \<Rightarrow> string" where
  "graphviz_node n =
     ''  '' @ dq @ pn_name n @ dq @ '' [label='' @ dq @ pn_name n
     @ (if given (pn_endpoint n) '''' = '''' then '''' else [CHR 0x5C, CHR ''n''] @ given (pn_endpoint n) '''') @ dq @ ''];''"

fun graphviz_edges :: "string list \<Rightarrow> string list \<Rightarrow> published_edge list \<Rightarrow> string list" where
  "graphviz_edges names seen [] = []"
| "graphviz_edges names seen (e # es) =
     (let t = pe_target e; outside = t \<notin> set names \<and> t \<notin> set seen in
      (if outside then [''  '' @ dq @ t @ dq @ '' [shape='' @ (if pe_kind e = ''endpoint'' then ''ellipse'' else ''note'') @ ''];''] else [])
      @ [''  '' @ dq @ pe_source e @ dq @ '' -> '' @ dq @ t @ dq @ '';'']
      @ graphviz_edges names (if outside then t # seen else seen) es)"

definition render_graphviz :: "published_node list \<Rightarrow> published_edge list \<Rightarrow> string" where
  "render_graphviz ns es =
     join [CHR 0x0A] ([''digraph apx_topology {'', ''  rankdir=LR;'', ''  node [shape=box];''] @ map graphviz_node ns
       @ graphviz_edges (map pn_name ns) [] es @ [''}''])"

text \<open>Agents whose names differ in other characters only are one node of the Mermaid diagram.\<close>

lemma diagram_merges_names: "safe_id ''billing-eu'' = ''billing_eu'' \<and> safe_id ''billing.eu'' = ''billing_eu''"
  by code_simp

end
