(* ===== verification/Spec2Isabelle.thy ===== *)
theory Spec2Isabelle
  imports Remote_Agents Graph_Guarantees Workflow_Engine Evolution_Loop Policy_Gate Tool_Guards Tool_Cancellation Session_Budget Conversation_Store
    Memory_Store Example_Store Service_Policies Graph_Cache Apps_Authorization Discovery_Workflow Task_Surface State_Migration Release_Control
    Keyed_State Canary_Apps Verified_Query Tool_Search Graph_Executor Handoff_Lint Agent_Topology
begin

text \<open>
  A verification development for \<open>apx_agent\<close>, a Python framework that compiles declarative agents to a
  graph runtime and surrounds them with durable state and runtime governance.  All paths below are
  relative to \<open>src/python/src/apx_agent\<close>.

  \<^bold>\<open>The program.\<close>  Agents are declared as a tree of leaves, which call a language model and tools, and of
  compositions: sequences, parallel branches, loops, hand-offs and routers (\<open>_agents.py\<close>).  The tree is
  compiled to a graph (\<open>_compile.py\<close>), and a turn is one run of the graph over a list of messages and a
  keyed state.  Around that graph sit the other parts:

  \<^item> before a turn, the caller is identified from the proxy's headers and the request's body, the session
    is scoped by it and the tools get a client in its name (\<open>_obo.py\<close>, \<open>_defaults.py\<close>); other agents
    reach the agent through a JSON-RPC task surface (\<open>_a2a.py\<close>), and a deployment's authorization plan is
    compiled beforehand (\<open>_apps_authorization.py\<close>);
  \<^item> before a tool runs, hooks may refuse the call: guards (\<open>_guards.py\<close>), the tool's declared scope
    (\<open>_tool_scope.py\<close>), the policy gate, which parks calls that need approval (\<open>_policy.py\<close>), and the
    service policies attached to events (\<open>_service_policies*.py\<close>);
  \<^item> while a tool runs, a supervisor watches a cancellation token that an operator can trip from
    another thread (\<open>_cancellation.py\<close>); what it writes goes through a view of the keyed state
    (\<open>_state_proxy.py\<close>, \<open>_state_tool.py\<close>);
  \<^item> around a turn, the session's token and money totals are checked, persisted with the thread's
    checkpoint and enforced (\<open>_budget.py\<close>, \<open>_cost.py\<close>, \<open>_graph_turn.py\<close>), and the keyed state is split by
    scope or kept as snapshots (\<open>_session_state.py\<close>, \<open>_composite_session.py\<close>);
  \<^item> between turns, conversations (\<open>_conversation.py\<close>), memories (\<open>_memory.py\<close>,
    \<open>_memory_consolidate.py\<close>) and few-shot examples (\<open>_example.py\<close>) are stored and retrieved, memories
    are migrated (\<open>_state_migration.py\<close>), and a graph of the workspace's assets is built, cached and queried
    (\<open>workspace_graph/\<close>);
  \<^item> for work that outlives a turn, a durable workflow engine logs steps and replays them on resume, in
    memory or in two tables (\<open>workflow/engine.py\<close>, \<open>engine_memory.py\<close>, \<open>engine_delta.py\<close>); the evolutionary
    loop agent (\<open>workflow/loop_agent.py\<close>, \<open>workflow/population_store.py\<close>) and the discovery workflow
    (\<open>discovery/\<close>) run on it;
  \<^item> statements go to the workspace's SQL service, where they are polled, continued after a restart and matched to
    authored queries (\<open>_sql.py\<close>, \<open>_sql_escape.py\<close>, \<open>_sql_durable.py\<close>, \<open>workflow/_sql_exec.py\<close>, \<open>_verified_query.py\<close>);
  \<^item> once deployed, releases are listed, restored and recorded (\<open>_app_releases.py\<close>, \<open>_deploy_state.py\<close>,
    \<open>_hot_swap_apps.py\<close>), canaries are compared, promoted and torn down (\<open>_canary_apps.py\<close>), and a bundle is checked
    before it is handed over (\<open>_handoff_lint.py\<close>);
  \<^item> over the declared tree of agents, walks collect tools, peers and resources, check them and draw the graph a
    developer inspects (\<open>_resources.py\<close>, \<open>_lint.py\<close>, \<open>_managed_mcp.py\<close>, \<open>_topology.py\<close>, \<open>_discover_hot.py\<close>).

  \<^bold>\<open>Theories.\<close>  Each component theory holds the code's records, its operations in source order, the
  interface its laws are stated in, and its properties.

  \<^item> \<open>Apx_Prelude\<close>: ordered dicts as association lists, slices, stable sorting, first-extremum
    \<open>max\<close>/\<open>min\<close>, JSON-like values, Python string operations.
  \<^item> \<open>Chat_Messages\<close>: messages, the context window, what is put between the steps of a sequence, and what a
    branch, a hand-off and a model call are given.  \<open>Step_Contract\<close> (\<open>_step_contract.py\<close>): runs that may hang or
    end at a time, deadlines around them, the unavailable signal, and the packets a failing step publishes.
  \<^item> \<open>Agent_Node\<close>: a leaf in the graph, \<open>_wrap_agent_node\<close>: guardrails, templates, callbacks, the declared
    output and its validation, remote leaves.  The record \<open>engine\<close> holds what the graph library and the models do:
    model runs, routing calls, remote replies, the reducer of messages.
  \<^item> \<open>Composition_Graph\<close>: the compiler \<open>_compile_any\<close> with one node per composition;
    \<open>Graph_Guarantees\<close>: what holds of the graphs it builds.  A node is a function from a time and a state to an outcome.
  \<^item> \<open>Agent_Registry\<close>: the tool lists of a live agent, sub-agents fetched and repaired, runs and streams outside the
    graph, and the constructors of the compositions.
  \<^item> \<open>Graph_Executor\<close> (\<open>_executor.py\<close>, \<open>_langgraph_executor.py\<close>): the cache of compiled graphs, keyed by the version of
    a leaf agent's tools, a turn as a stream of events and its fallback; \<open>Tool_Search\<close> (\<open>_tool_search.py\<close>): tools shown to a model only
    after a search, with the searches of one message merged by the reducer of the keyed state.
  \<^item> \<open>Remote_Agents\<close> (\<open>_remote.py\<close>): addresses and trusted origins, the peer's card, credentials in headers and
    bodies, the requests a call sends over the SDK or directly, replies, long tasks and streams.
  \<^item> \<open>Workflow_Engine\<close>: \<open>InMemoryEngine\<close>.  Its runs are a dict of records of step records.
    The locale \<open>memo_engine\<close> states the promise of a memo table per run, up to states with the same log;
    \<open>quiet_memo_engine\<close> adds that a replayed step changes nothing.  From them follow that a resumed run replays
    its completed prefix and that a step is carried through at most once.
  \<^item> \<open>Delta_Engine\<close>: \<open>DeltaEngine\<close>: its two tables, its cache, names and JSON columns, over any type of results with the
    encoder and decoder of their JSON; \<open>memo_engine\<close> again, and the agreement of the two engines.
  \<^item> \<open>Discovery_Workflow\<close>: parsers of the model's answers, the six steps and the brief, over the engine.
  \<^item> \<open>Evolution_Loop\<close>: \<open>LoopAgent\<close>: evaluation, judging, Pareto selection (locale
    \<open>dominance\<close>), escalation, convergence, the run over generations with the tool calls that
    interleave with it, and its record in the engine.
  \<^item> \<open>Policy_Gate\<close>: verdict composition, the prompt policy, \<open>ApprovalStore\<close> (locale
    \<open>approval_registry\<close>) and \<open>PolicyGate\<close>: what is asked, parked, approved once and consumed.
  \<^item> \<open>Service_Policies\<close>: attachments, fail-closed enforcement, dry runs, approvals in the middle of a turn and
    the plan for the platform's own enforcement.
  \<^item> \<open>Tool_Scope\<close>: scope ceilings, object names, the guard on a tool's arguments, inherited identity;
    \<open>Apps_Authorization\<close>: the plan compiled from the tools, and the check against the workspace's allowlist.
  \<^item> \<open>Caller_Identity\<close>: header lookup, the caller's identity, session keys, workspace clients;
    \<open>Task_Surface\<close>: JSON-RPC envelopes, the task store with owners, \<open>message/send\<close> and the endpoint.
  \<^item> \<open>Agent_Tree\<close>: the tree with one constructor per class, its walks, resources with their bundle entries, static
    checks and managed endpoints; \<open>Agent_Topology\<close>: the graph as nodes and edges with ids, inspection of a node by
    its id, the digest, the lit route of a run (a closure over the edges), and diagrams.
  \<^item> \<open>Tool_Guards\<close>: the token bucket (locale \<open>token_bucket\<close>), injection patterns, lists and flags,
    their composition and the guards derived from a configuration.
  \<^item> \<open>Tool_Cancellation\<close>: tokens, the registry (locale \<open>kill_switch\<close>) and the supervisor loop of
    \<open>cancellable\<close>, driven by the sequence of what other threads did between two polls.
  \<^item> \<open>Session_Budget\<close>: usage extraction, prices, prior state, enforcement, accrual, crash recovery,
    and the governed turn composed of them; a session is any list of turns, with what is relied on of the graph and its
    checkpointer as \<open>graph_law\<close>.
  \<^item> \<open>Conversation_Store\<close>: item model with parser and serialiser, cursor paging, repair of
    orphaned tool outputs, and \<open>InMemoryConversationStore\<close> (locale \<open>conversation_log\<close>).
  \<^item> \<open>Memory_Store\<close>: filters, cosine similarity, \<open>InMemoryMemoryStore\<close>, recall, and
    consolidation over any backend that satisfies the locale \<open>memory_backend\<close>.
  \<^item> \<open>Example_Store\<close>: \<open>InMemoryExampleStore\<close>, ranked by the definitions of \<open>Memory_Store\<close>.
  \<^item> \<open>Keyed_State\<close>: the tools' view of the keyed state, its reducer, templates, scopes and snapshots.
  \<^item> \<open>State_Migration\<close>: the marker inside a copied memory, pages of the source table, a restartable pass.
  \<^item> \<open>Workspace_Graph\<close>: merging of loaded assets, queries and breadth-first search; \<open>Graph_Cache\<close>: its cache
    shared by concurrent callers, as an inductive step relation with an invariant.
  \<^item> \<open>Release_Control\<close>: restoring a release on a platform others use too, the deploy record, hot swaps.
  \<^item> \<open>Canary_Apps\<close>: labels, the target block of the bundle file, the comparison of traces, promotion and teardown as a
    log of what was run and written.  \<open>Handoff_Lint\<close>: the five checks of a bundle, and readiness stated from the format of a bundle alone.
  \<^item> \<open>Sql_Access\<close>: literals, results in chunks, polling, checkpoints of statements; \<open>Verified_Query\<close>: authored queries
    chosen by a question.

  \<^bold>\<open>Conventions.\<close>  A raised exception is \<open>Inl\<close> of the component's error type or a status value; a
  Python \<open>None\<close> is \<open>None\<close>; mutable shared objects are named by position or key in an explicit store.
  Integers are unbounded in Python and in the model.  Floats are real numbers, so every statement
  about an arithmetic bound is about exact arithmetic.  Clocks, generated ids, embeddings, model
  replies, the compiled graph, SQL and HTTP calls are arguments; hypotheses about them state
  what the code relies on and nothing more.

  \<^bold>\<open>Termination.\<close>  All operations are total functions.  Loops and hand-offs recurse on the iterations left
  under their cap, which the theorems show to be the number of runs at most; a model call that never returns
  is the outcome \<open>Hangs\<close>, and a theorem says that timed sequences end all the same.  The supervisor loop of \<open>cancellable\<close> may wait
  for ever; it consumes an explicit list of polls and returns \<open>None\<close> when it is still waiting, and a
  theorem says which polls are enough.  The loop agent recurses on the number of generations left, the
  search of the graph on the nodes not seen, the import on the rows after the last id, the template
  renderer on the text left.  The polls of a statement are \<open>partial_function\<close>s driven by the clock; that they return is
  proved for clocks that advance by the interval (\<open>waiting_ends_within_the_budget\<close>).

  \<^bold>\<open>Findings.\<close>  Several facts are about behaviour that differs from the documentation or from the
  evident intent; each is a theorem or lemma in its component theory: an approval granted while a
  call is being decided lets a second call through (\<open>midturn_approval_lets_two_through\<close>), recovery
  charges money twice (\<open>recovery_charges_usd_again\<close>), an unpriced model never accounts
  (\<open>unpriced_model_never_accounts\<close>), eviction refills a bucket early
  (\<open>eviction_refills_early\<close>), a failed run of the loop is recorded as completed
  (\<open>raised_run_recorded_completed\<close>), a discovery step that failed once fails its run for ever
  (\<open>failed_step_blocks_run\<close>), the two engines differ at the edges (\<open>zero_limit_differs\<close>,
  \<open>unknown_run_differs\<close>), header objects with a getter only are never read
  (\<open>getter_only_headers_are_ignored\<close>), a malformed request id is answered with a server error
  (\<open>invalid_id_is_a_server_error\<close>), a row whose id is padded is migrated again by every run
  (\<open>padded_id_is_not_recognised\<close>), a tool shared by two agents keeps the identity of the first
  (\<open>shared_tool_keeps_first_identity\<close>), a hand-off target that answers in text is run again
  (\<open>answered_handoff_runs_again\<close>), loop bodies and hand-off members skip their guardrails
  (\<open>loop_and_handoff_skip_guardrails\<close>), a second fetch may advertise a name no tool has
  (\<open>refetch_advertises_a_missing_tool\<close>), a repaired description is not seen by cached graphs
  (\<open>repair_keeps_the_version\<close>), a crashed app counts as serving when its compute is up
  (\<open>crashed_app_counts_as_serving\<close>), the workflow stores read one chunk of a result (\<open>slow_statement_is_read\<close>), an expired
  statement blocks its checkpoint (\<open>expired_statement_is_stuck\<close>), an at sign in a literal is taken for a parameter
  (\<open>literals_are_rewritten\<close>), agents behind routers and loops are not linted (\<open>routed_agents_are_not_linted\<close>), a
  declared model is not linted (\<open>declared_model_is_not_linted\<close>), a route with a dot cannot be inspected
  (\<open>dotted_route_cannot_be_inspected\<close>), a tool's type error makes an open agent run twice (\<open>open_agent_runs_twice\<close>), a peer's card whose name is no text ends the
  fetch of all peers (\<open>bad_card_ends_the_fetch\<close>), a served composite keeps a stale graph (\<open>composite_keeps_a_stale_graph\<close>),
  of two tool searches in one message one is lost (\<open>parallel_searches_lose_tools\<close>), an owner declared inside the permissions
  is not collected (\<open>nested_owner_is_skipped\<close>).

  \<^bold>\<open>Not modelled.\<close>  The SQL-backed stores of conversations, memories and examples, adapters to hosts,
  model services and the graph library, the command line, code generation, deployment and the
  development user interface.  Of the compiler: invocations through the native protocol, fixture replay, tools
  of the platform, dependency injection into tool functions, and the library's own limit on graph steps, which is
  only passed on.  Of the topology: the discovery of published models and annotations of a graph.  Governance
  declarations and evaluation.
\<close>

end
